(* ===== verification/Prelude.thy ===== *)
theory Prelude
  imports Main "HOL-Library.Word" "HOL-Library.AList"
begin

text \<open>
  Shared vocabulary of the development: the machine integer types of
  \<^verbatim>\<open>core/include/opm/types.hpp\<close>, the collections of simplification rules that the
  component theories extend, and generic lemmas on words, bit fields and
  big-endian byte sequences.
\<close>

unbundle bit_operations_syntax

section \<open>Machine integers\<close>

type_synonym u8 = "8 word"
type_synonym u16 = "16 word"
type_synonym u32 = "32 word"
type_synonym u64 = "64 word"

text \<open>
  Collections: \<open>field_simps32\<close> (bit fields of an instruction word),
  \<open>cpu_frame\<close> (which parts of the processor an operation leaves alone),
  \<open>view_simps\<close> (what an operation does to the memory a program sees).
\<close>

named_theorems field_simps32 "bounds and contents of instruction fields"
named_theorems cpu_frame "fields an operation leaves unchanged"
named_theorems view_simps "effect of an operation on the memory view"

section \<open>Ordered maps as association lists\<close>

text \<open>\<^verbatim>\<open>++m[k]\<close> on a \<^verbatim>\<open>std::map\<close>, and the bounded census the instruments keep.\<close>

definition mapIncr :: "'k \<Rightarrow> ('k \<times> u64) list \<Rightarrow> ('k \<times> u64) list" where
  "mapIncr k m = AList.update k ((case map_of m k of None \<Rightarrow> 0 | Some n \<Rightarrow> n) + 1) m"

definition mapIncrCap :: "nat \<Rightarrow> 'k \<Rightarrow> ('k \<times> u64) list \<Rightarrow> ('k \<times> u64) list" where
  "mapIncrCap cap k m =
     (case map_of m k of
        Some n \<Rightarrow> AList.update k (n + 1) m
      | None \<Rightarrow> if length m < cap then AList.update k 1 m else m)"

section \<open>Words: tests, bounds, slices\<close>

lemma word_eq32I:
  fixes a b :: u32
  assumes "\<And>n. n < 32 \<Longrightarrow> bit a n \<longleftrightarrow> bit b n"
  shows "a = b"
  by (rule bit_word_eqI) (simp add: assms)

lemma and_single_bit_iff:
  fixes w :: "'a::len word"
  shows "w AND push_bit n 1 \<noteq> 0 \<longleftrightarrow> bit w n"
proof
  assume "w AND push_bit n 1 \<noteq> 0"
  then obtain k where "bit (w AND push_bit n 1) k"
    by (auto simp: bit_eq_iff)
  then show "bit w n"
    by (auto simp: bit_simps)
next
  assume "bit w n"
  then have "bit (w AND push_bit n 1) n"
    by (auto simp: bit_simps dest: bit_imp_le_length)
  then show "w AND push_bit n 1 \<noteq> 0"
    by auto
qed

lemma and_mask_less:
  fixes w :: u32
  assumes "n < 32"
  shows "w AND mask n < 2 ^ n"
proof -
  have "unat (w AND mask n) < 2 ^ n"
    by (simp add: take_bit_eq_mask [symmetric] unsigned_take_bit_eq)
  moreover have "unat (of_nat (2 ^ n) :: u32) = 2 ^ n"
  proof -
    have "(2::nat) ^ n < 2 ^ 32"
      using assms by (intro power_strict_increasing) auto
    then show ?thesis by (simp only: unat_of_nat) simp
  qed
  ultimately show ?thesis
    by (simp add: word_less_nat_alt)
qed

lemma all_ones32 [simp]: "(0xFFFFFFFF :: u32) = - 1"
  by simp

lemma word32_le_one [simp]:
  "(numeral k :: u32) \<le> 1 \<longleftrightarrow> unat (numeral k :: u32) \<le> 1"
  "(1 :: u32) \<le> numeral k \<longleftrightarrow> 1 \<le> unat (numeral k :: u32)"
  "(numeral k :: u32) < 1 \<longleftrightarrow> unat (numeral k :: u32) = 0"
  "(1 :: u32) < numeral k \<longleftrightarrow> 1 < unat (numeral k :: u32)"
  by (simp_all add: word_le_nat_alt word_less_nat_alt)

lemma unat_ucast_up:
  fixes w :: "'a::len word"
  assumes "LENGTH('a) \<le> LENGTH('b::len)"
  shows "unat (ucast w :: 'b word) = unat w"
  using assms by (simp add: unsigned_ucast_eq take_bit_nat_eq_self_iff
      less_le_trans [OF unsigned_less power_increasing])

lemma unat_ucast_64 [simp]: "unat (ucast (w :: u32) :: u64) = unat w"
  by (rule unat_ucast_up) simp

lemma unat_ucast_8_32 [simp]: "unat (ucast (w :: u8) :: u32) = unat w"
  by (rule unat_ucast_up) simp

lemma unat_ucast_8_64 [simp]: "unat (ucast (w :: u8) :: u64) = unat w"
  by (rule unat_ucast_up) simp

lemma unat_drop_bit: "unat (drop_bit n (w :: 'a::len word)) = unat w div 2 ^ n"
proof -
  have "take_bit LENGTH('a) (unat w) = unat w"
    by (simp add: take_bit_nat_eq_self_iff)
  then show ?thesis
    by (simp only: unsigned_drop_bit_eq) (simp add: drop_bit_eq_div)
qed

lemma unat_and_mask: "unat ((w :: 'a::len word) AND mask n) = unat w mod 2 ^ n"
  by (simp add: take_bit_eq_mask [symmetric] unsigned_take_bit_eq)
     (simp add: take_bit_eq_mod)

lemma msb32_iff: "(w :: u32) AND 0x80000000 = 0 \<longleftrightarrow> unat w < 2 ^ 31"
proof -
  have "w AND 0x80000000 \<noteq> 0 \<longleftrightarrow> bit w 31"
    using and_single_bit_iff [of w 31] by simp
  also have "bit w 31 \<longleftrightarrow> 2 ^ 31 \<le> unat w"
  proof -
    have "bit w 31 \<longleftrightarrow> odd (unat w div 2 ^ 31)"
      by (metis bit_iff_odd bit_unsigned_iff bit_imp_le_length possible_bit_nat)
    also have "unat w div 2 ^ 31 < 2"
      using unsigned_less [of w, where ?'a = nat] by (simp add: less_mult_imp_div_less)
    then have "odd (unat w div 2 ^ 31) \<longleftrightarrow> unat w div 2 ^ 31 = 1"
      by (auto simp: less_2_cases_iff)
    also have "\<dots> \<longleftrightarrow> 2 ^ 31 \<le> unat w"
      using unsigned_less [of w, where ?'a = nat] by auto
    finally show ?thesis .
  qed
  finally show ?thesis by auto
qed

lemma unat_eq32: "unat (w :: u32) = unat v \<longleftrightarrow> w = v"
  by (simp add: word_unat_eq_iff)

lemma unat_less_numeral32:
  fixes w :: u32
  shows "w < numeral k \<Longrightarrow> unat (numeral k :: u32) = numeral k \<Longrightarrow> unat w < numeral k"
  by (simp add: word_less_nat_alt)

section \<open>Big-endian byte sequences\<close>

text \<open>
  \<open>be_bytes\<close> reads a run of bytes as the big-endian number that the code assembles with
  \<^verbatim>\<open>v = (v << 8) | b\<close>; \<open>be_byte len v i\<close> is byte \<open>i\<close> of the \<open>len\<close>-byte
  image of \<open>v\<close>.
\<close>

definition be_bytes :: "u8 list \<Rightarrow> u64" where
  "be_bytes bs = foldl (\<lambda>v b. push_bit 8 v OR ucast b) 0 bs"

definition be_byte :: "nat \<Rightarrow> u64 \<Rightarrow> nat \<Rightarrow> u8" where
  "be_byte len v i = ucast (drop_bit (8 * (len - 1 - i)) v)"

lemma be_bytes_Nil [simp]: "be_bytes [] = 0"
  by (simp add: be_bytes_def)

lemma be_bytes_snoc: "be_bytes (bs @ [b]) = push_bit 8 (be_bytes bs) OR ucast b"
  by (simp add: be_bytes_def)

lemma be_bytes_bit:
  assumes "length bs \<le> 8" "n < 64"
  shows "bit (be_bytes bs) n \<longleftrightarrow>
    n div 8 < length bs \<and> bit (bs ! (length bs - 1 - n div 8)) (n mod 8)"
  using assms
proof (induction bs arbitrary: n rule: rev_induct)
  case Nil
  then show ?case by simp
next
  case (snoc b bs)
  show ?case
  proof (cases "n < 8")
    case True
    then show ?thesis
      by (simp add: be_bytes_snoc bit_simps nth_append)
  next
    case False
    then have d: "(n - 8) div 8 = n div 8 - 1" "(n - 8) mod 8 = n mod 8" "n div 8 > 0"
      by (auto simp: mod_if div_if)
    have "bit (be_bytes (bs @ [b])) n \<longleftrightarrow> bit (be_bytes bs) (n - 8)"
      using False snoc.prems
      by (auto simp: be_bytes_snoc bit_simps dest: bit_imp_le_length)
    also have "\<dots> \<longleftrightarrow> (n - 8) div 8 < length bs \<and>
        bit (bs ! (length bs - 1 - (n - 8) div 8)) ((n - 8) mod 8)"
      using snoc.prems by (intro snoc.IH) auto
    finally show ?thesis
      using d False by (cases "n div 8") (auto simp: nth_append)
  qed
qed

lemma be_bytes_of_byte:
  assumes "len \<le> 8" "take_bit (8 * len) v = v"
  shows "be_bytes (map (be_byte len v) [0..<len]) = v"
proof (rule bit_word_eqI)
  fix n assume "n < LENGTH(64)"
  then have n: "n < 64" by simp
  have v: "bit v n \<longleftrightarrow> n < 8 * len \<and> bit v n"
    using arg_cong [OF assms(2), of "\<lambda>w. bit w n"] by (auto simp: bit_simps)
  show "bit (be_bytes (map (be_byte len v) [0..<len])) n \<longleftrightarrow> bit v n"
  proof (cases "n div 8 < len")
    case True
    then have "8 * (n div 8) + n mod 8 = n" by simp
    with True n assms(1) show ?thesis
      by (subst v) (auto simp: be_bytes_bit be_byte_def bit_simps)
  next
    case False
    then show ?thesis
      using n assms(1) by (subst v) (auto simp: be_bytes_bit)
  qed
qed

lemma be_byte_of_bytes:
  assumes "length bs \<le> 8" "i < length bs"
  shows "be_byte (length bs) (be_bytes bs) i = bs ! i"
proof (rule bit_word_eqI)
  fix n assume "n < LENGTH(8)"
  then have n: "n < 8" by simp
  let ?k = "8 * (length bs - 1 - i) + n"
  have k: "?k < 64" "?k div 8 = length bs - 1 - i" "?k mod 8 = n"
    using assms n by auto
  have "length bs - 1 - (length bs - 1 - i) = i"
    using assms by simp
  with k n assms show "bit (be_byte (length bs) (be_bytes bs) i) n = bit (bs ! i) n"
    by (auto simp: be_byte_def bit_simps be_bytes_bit)
qed

lemma bit_u8_ge: "8 \<le> n \<Longrightarrow> \<not> bit (a :: u8) n"
  by (auto dest: bit_imp_le_length)

lemma bit_u8_lt: "bit (a :: u8) n \<Longrightarrow> n < 8"
  by (auto dest: bit_imp_le_length)

lemma byte4_images:
  fixes a b c d :: u8
  defines "w \<equiv> (push_bit 24 (ucast a) OR push_bit 16 (ucast b) OR push_bit 8 (ucast c) OR ucast d) :: u32"
  shows "(ucast (drop_bit 24 w) :: u8) = a" "(ucast (drop_bit 16 w) :: u8) = b"
    "(ucast (drop_bit 8 w) :: u8) = c" "(ucast w :: u8) = d"
  unfolding w_def by (auto intro!: bit_word_eqI simp: bit_simps bit_u8_ge)

lemma byte4_rebuild:
  fixes w :: u32
  shows "(push_bit 24 (ucast (ucast (drop_bit 24 w) :: u8)) OR push_bit 16 (ucast (ucast (drop_bit 16 w) :: u8))
     OR push_bit 8 (ucast (ucast (drop_bit 8 w) :: u8)) OR ucast (ucast w :: u8)) = w"
proof (rule bit_word_eqI)
  fix n assume "n < LENGTH(32)"
  then have "n < 8 \<or> 8 \<le> n \<and> n < 16 \<or> 16 \<le> n \<and> n < 24 \<or> 24 \<le> n \<and> n < 32" by auto
  then show "bit (push_bit 24 (ucast (ucast (drop_bit 24 w) :: u8)) OR push_bit 16 (ucast (ucast (drop_bit 16 w) :: u8))
     OR push_bit 8 (ucast (ucast (drop_bit 8 w) :: u8)) OR ucast (ucast w :: u8) :: u32) n \<longleftrightarrow> bit w n"
    by (elim disjE) (auto simp: bit_simps)
qed

lemma be_bytes4:
  "be_bytes [a, b, c, d] = ucast (push_bit 24 (ucast a) OR push_bit 16 (ucast b) OR push_bit 8 (ucast c) OR ucast d :: u32)"
  unfolding be_bytes_def by (auto intro!: bit_word_eqI simp: bit_simps bit_u8_ge) (auto dest!: bit_u8_lt)

lemma be_bytes2:
  "be_bytes [a, b] = ucast (push_bit 8 (ucast a) OR ucast b :: u16)"
  unfolding be_bytes_def by (auto intro!: bit_word_eqI simp: bit_simps bit_u8_ge) (auto dest!: bit_u8_lt)

lemma be_bytes1: "be_bytes [a] = ucast a"
  unfolding be_bytes_def by simp

lemma be_bytes8:
  "be_bytes [a, b, c, d, e, f, g, h] = push_bit 32 (be_bytes [a, b, c, d]) OR be_bytes [e, f, g, h]"
  unfolding be_bytes_def by (auto intro!: bit_word_eqI simp: bit_simps bit_u8_ge)

end
