(* ===== verification/PpcBits.thy ===== *)
theory PpcBits
  imports Prelude
begin

text \<open>
  The bit conventions of \<^verbatim>\<open>core/include/opm/bits.hpp\<close>: PowerPC numbering (bit 0 is
  the most significant bit), sign extension, the instruction fields and the
  DSISR image of an alignment exception.
\<close>

section \<open>Bit ranges and masks\<close>

definition ppcbits :: "u32 \<Rightarrow> nat \<Rightarrow> nat \<Rightarrow> u32" where
  "ppcbits w hi lo =
     (let width = lo - hi + 1;
          msk = (if 32 \<le> width then 0xFFFFFFFF else push_bit width 1 - 1)
      in drop_bit (31 - lo) w AND msk)"

definition ppcbit :: "u32 \<Rightarrow> nat \<Rightarrow> u32" where
  "ppcbit w b = drop_bit (31 - b) w AND 1"

definition ppcmask :: "u32 \<Rightarrow> u32 \<Rightarrow> u32" where
  "ppcmask mb me =
     (let x = drop_bit (unat mb) 0xFFFFFFFF;
          y = (if me = 31 then 0xFFFFFFFF else NOT (drop_bit (unat (me + 1)) 0xFFFFFFFF))
      in if mb \<le> me then x AND y else x OR y)"

section \<open>Sign extension (results as the unsigned image of the i32)\<close>

definition sext16 :: "u32 \<Rightarrow> u32" where
  "sext16 v = scast (ucast (v AND 0xFFFF) :: u16)"

definition sext26 :: "u32 \<Rightarrow> u32" where
  "sext26 v = signed_drop_bit 6 (push_bit 6 v)"

definition sext14 :: "u32 \<Rightarrow> u32" where
  "sext14 v = signed_drop_bit 18 (push_bit 18 v)"

definition sext5 :: "u32 \<Rightarrow> u32" where
  "sext5 v = signed_drop_bit 27 (push_bit 27 v)"

section \<open>Instruction fields\<close>

definition f_primary :: "u32 \<Rightarrow> u32" where "f_primary i = ppcbits i 0 5"
definition f_rt :: "u32 \<Rightarrow> u32" where "f_rt i = ppcbits i 6 10"
definition f_ra :: "u32 \<Rightarrow> u32" where "f_ra i = ppcbits i 11 15"
definition f_rb :: "u32 \<Rightarrow> u32" where "f_rb i = ppcbits i 16 20"
definition f_rc_vec :: "u32 \<Rightarrow> u32" where "f_rc_vec i = ppcbits i 21 25"
definition f_d :: "u32 \<Rightarrow> u32" where "f_d i = ppcbits i 16 31"
definition f_xo10 :: "u32 \<Rightarrow> u32" where "f_xo10 i = ppcbits i 21 30"
definition f_xo9 :: "u32 \<Rightarrow> u32" where "f_xo9 i = ppcbits i 22 30"
definition f_xo5 :: "u32 \<Rightarrow> u32" where "f_xo5 i = ppcbits i 26 30"
definition f_xo6v :: "u32 \<Rightarrow> u32" where "f_xo6v i = ppcbits i 26 31"
definition f_xo11v :: "u32 \<Rightarrow> u32" where "f_xo11v i = ppcbits i 21 31"
definition f_rcbit :: "u32 \<Rightarrow> u32" where "f_rcbit i = ppcbit i 31"
definition f_vrcbit :: "u32 \<Rightarrow> u32" where "f_vrcbit i = ppcbit i 21"
definition f_oebit :: "u32 \<Rightarrow> u32" where "f_oebit i = ppcbit i 21"
definition f_lkbit :: "u32 \<Rightarrow> u32" where "f_lkbit i = ppcbit i 31"
definition f_aabit :: "u32 \<Rightarrow> u32" where "f_aabit i = ppcbit i 30"
definition f_crfd :: "u32 \<Rightarrow> u32" where "f_crfd i = ppcbits i 6 8"
definition f_crfs :: "u32 \<Rightarrow> u32" where "f_crfs i = ppcbits i 11 13"
definition f_sh :: "u32 \<Rightarrow> u32" where "f_sh i = ppcbits i 16 20"
definition f_mb :: "u32 \<Rightarrow> u32" where "f_mb i = ppcbits i 21 25"
definition f_me :: "u32 \<Rightarrow> u32" where "f_me i = ppcbits i 26 30"
definition f_spr :: "u32 \<Rightarrow> u32" where
  "f_spr i = push_bit 5 (ppcbits i 16 20) OR ppcbits i 11 15"
definition f_crm :: "u32 \<Rightarrow> u32" where "f_crm i = ppcbits i 12 19"
definition f_fm :: "u32 \<Rightarrow> u32" where "f_fm i = ppcbits i 7 14"
definition f_nb :: "u32 \<Rightarrow> u32" where "f_nb i = ppcbits i 16 20"
definition f_to :: "u32 \<Rightarrow> u32" where "f_to i = ppcbits i 6 10"
definition f_sr :: "u32 \<Rightarrow> u32" where "f_sr i = ppcbits i 12 15"
definition f_simm5 :: "u32 \<Rightarrow> u32" where "f_simm5 i = ppcbits i 11 15"
definition f_vsh :: "u32 \<Rightarrow> u32" where "f_vsh i = ppcbits i 22 25"

definition alignDsisr :: "u32 \<Rightarrow> u32" where
  "alignDsisr i =
     (let d = push_bit 5 (ppcbits i 6 10) OR ppcbits i 11 15
      in if f_primary i = 31
         then d OR (push_bit 15 (ppcbits i 29 30) OR push_bit 14 (ppcbit i 25)
                    OR push_bit 10 (ppcbits i 21 24))
         else d OR (push_bit 14 (ppcbit i 5) OR push_bit 10 (ppcbits i 1 4)))"

lemmas field_defs =
  f_primary_def f_rt_def f_ra_def f_rb_def f_rc_vec_def f_d_def f_xo10_def f_xo9_def
  f_xo5_def f_xo6v_def f_xo11v_def f_rcbit_def f_vrcbit_def f_oebit_def f_lkbit_def
  f_aabit_def f_crfd_def f_crfs_def f_sh_def f_mb_def f_me_def f_spr_def f_crm_def
  f_fm_def f_nb_def f_to_def f_sr_def f_simm5_def f_vsh_def

section \<open>Bit-level contents\<close>

lemma ppcbits_mask:
  assumes "hi \<le> lo"
  shows "ppcbits w hi lo = drop_bit (31 - lo) w AND mask (lo - hi + 1)"
proof (cases "32 \<le> lo - hi + 1")
  case True
  then have "mask (lo - hi + 1) = (-1 :: u32)"
    by (intro bit_word_eqI) (simp add: bit_simps)
  with True show ?thesis
    by (simp add: ppcbits_def)
next
  case False
  then show ?thesis
    by (simp add: ppcbits_def mask_eq_exp_minus_1 push_bit_eq_mult Let_def)
qed

lemma bit_ppcbits [field_simps32]:
  assumes "hi \<le> lo" "lo \<le> 31"
  shows "bit (ppcbits w hi lo) n \<longleftrightarrow> n < lo - hi + 1 \<and> bit w (n + (31 - lo))"
  using assms
  by (auto simp: ppcbits_mask bit_simps ac_simps dest: bit_imp_le_length)

lemma ppcbits_bound:
  assumes "hi \<le> lo" "lo - hi < 31"
  shows "ppcbits w hi lo < 2 ^ (lo - hi + 1)"
  using assms by (simp only: ppcbits_mask) (rule and_mask_less, simp)

lemma field5_bound [field_simps32]:
  "f_rt i < 32" "f_ra i < 32" "f_rb i < 32" "f_sh i < 32" "f_mb i < 32" "f_me i < 32"
  "f_nb i < 32" "f_to i < 32" "f_rc_vec i < 32"
  using ppcbits_bound [of 6 10 i] ppcbits_bound [of 11 15 i] ppcbits_bound [of 16 20 i]
    ppcbits_bound [of 21 25 i] ppcbits_bound [of 26 30 i]
  by (simp_all add: field_defs)

lemma field_bound_small [field_simps32]:
  "f_sr i < 16" "f_crfd i < 8" "f_crfs i < 8"
  using ppcbits_bound [of 12 15 i] ppcbits_bound [of 6 8 i] ppcbits_bound [of 11 13 i]
  by (simp_all add: field_defs)

lemma ppcbit_nonzero: "ppcbit w b \<noteq> 0 \<longleftrightarrow> bit w (31 - b)"
proof -
  have "ppcbit w b = of_bool (bit w (31 - b))"
    by (simp add: ppcbit_def and_one_eq bit_iff_odd_drop_bit mod_2_eq_odd)
  then show ?thesis by simp
qed

section \<open>Properties\<close>

text \<open>
  The rotate mask: for \<open>mb\<close>, \<open>me\<close> below 32, bit \<open>p\<close> of \<open>ppcmask mb me\<close> (PowerPC
  numbering) is set exactly when \<open>p\<close> lies in the range from \<open>mb\<close> to \<open>me\<close>, the range
  wrapping around the word when \<open>mb > me\<close>.
\<close>

theorem ppcmask_bit:
  assumes "mb < 32" "me < 32" "p < 32"
  shows "bit (ppcmask mb me) (31 - p) \<longleftrightarrow>
    (if mb \<le> me then unat mb \<le> p \<and> p \<le> unat me else unat mb \<le> p \<or> p \<le> unat me)"
proof -
  have me: "unat me < 32" and mb: "unat mb < 32"
    using assms by (simp_all add: word_less_nat_alt)
  have y: "bit (if me = 31 then - 1 else NOT (drop_bit (unat (me + 1)) (- 1)) :: u32) (31 - p)
      \<longleftrightarrow> p \<le> unat me"
  proof (cases "me = 31")
    case True
    then show ?thesis using assms by simp
  next
    case False
    then have "unat me \<noteq> 31"
      using unat_eq32 [of me 31] by simp
    with me have "unat (me + 1) = unat me + 1"
      by (simp add: unat_word_ariths)
    then show ?thesis
      using False assms(3) by (auto simp: bit_not_iff bit_mask_iff possible_bit_word)
  qed
  have x: "bit (drop_bit (unat mb) (- 1) :: u32) (31 - p) \<longleftrightarrow> unat mb \<le> p"
    using mb assms(3) by (auto simp: bit_mask_iff possible_bit_word)
  show ?thesis
    using x y unfolding ppcmask_def Let_def all_ones32
    by (cases "mb \<le> me") (simp_all only: bit_and_iff bit_or_iff if_True if_False)
qed

theorem ppcmask_bit_witness:
  "bit (ppcmask 30 1) (31 - 31) \<and> bit (ppcmask 30 1) (31 - 0) \<and> \<not> bit (ppcmask 30 1) (31 - 2)"
  using ppcmask_bit [of 30 1 31] ppcmask_bit [of 30 1 0] ppcmask_bit [of 30 1 2] by simp

text \<open>
  The D-form fields partition the word: putting opcode, target, base and displacement
  back at their positions rebuilds every instruction word.
\<close>

theorem dform_fields_rebuild:
  "push_bit 26 (f_primary i) OR push_bit 21 (f_rt i) OR push_bit 16 (f_ra i) OR f_d i = i"
proof (rule word_eq32I)
  fix n :: nat
  assume n: "n < 32"
  consider "n < 16" | "16 \<le> n" "n < 21" | "21 \<le> n" "n < 26" | "26 \<le> n"
    by linarith
  then show "bit (push_bit 26 (f_primary i) OR push_bit 21 (f_rt i) OR push_bit 16 (f_ra i)
      OR f_d i) n \<longleftrightarrow> bit i n"
    using n by cases (auto simp: field_defs bit_or_iff bit_push_bit_iff bit_ppcbits)
qed

end
