(* ===== verification/Isa.thy ===== *)
theory Isa
  imports PpcBits
begin

text \<open>
  The instruction inventory and its dispatch: \<^verbatim>\<open>core/include/opm/insn.hpp\<close> (opcode
  spaces, operand patterns, flags, facility classification), the table of
  \<^verbatim>\<open>core/src/isa_table.cpp\<close>, the decoder of \<^verbatim>\<open>core/src/decode.cpp\<close> and the
  pre-dispatch gates of \<^verbatim>\<open>core/src/cpu.cpp\<close>. A decoded instruction is named by its
  row number, the index the code computes with \<^verbatim>\<open>d - kIsa\<close>.
\<close>

section \<open>Descriptors\<close>

datatype Xk = Xk_PRI | Xk_X19 | Xk_X31 | Xk_A59 | Xk_A63 | Xk_X63 | Xk_VA4 | Xk_VX4 | Xk_VXR4

datatype (plugins only: code size) Pat =
    Pat_NONE | Pat_RT_RA_RB | Pat_RT_RA | Pat_RT_RA_SI | Pat_RA_RS_RB | Pat_RA_RS
    | Pat_RA_RS_UI | Pat_RA_RS_SH | Pat_RT_D_RA | Pat_RS_D_RA | Pat_FRT_D_RA | Pat_FRS_D_RA
    | Pat_RS_RA_RB | Pat_FRT_RA_RB | Pat_FRS_RA_RB | Pat_CMP_SI | Pat_CMP_UI | Pat_CMP_RB
    | Pat_TW_RB | Pat_TW_SI | Pat_B | Pat_BC | Pat_BCLR | Pat_BCCTR | Pat_CRB3 | Pat_MCRF
    | Pat_RLWINM | Pat_RLWNM | Pat_MTCRF | Pat_MFCR | Pat_MFSPR | Pat_MTSPR | Pat_MFTB
    | Pat_MFMSR | Pat_MTMSR | Pat_MTSR | Pat_MFSR | Pat_MTSRIN | Pat_MFSRIN | Pat_RB_ONLY
    | Pat_RA_RB | Pat_LSWI | Pat_MCRXR | Pat_SC | Pat_FP2 | Pat_FP3 | Pat_FP3C | Pat_FP4
    | Pat_FCMP | Pat_MTFSF | Pat_MTFSFI | Pat_MTFSB | Pat_MCRFS | Pat_MFFS | Pat_VX3
    | Pat_VX2B | Pat_VX_SPLAT | Pat_VX_SPLATIS | Pat_MFVSCR | Pat_MTVSCR | Pat_VA4P
    | Pat_VA_MADD | Pat_VSLDOI | Pat_VD_RA_RB | Pat_VS_RA_RB | Pat_DST | Pat_DSS

abbreviation (input) FL_RC :: u16 where "FL_RC \<equiv> 1"
abbreviation (input) FL_OE :: u16 where "FL_OE \<equiv> 2"
abbreviation (input) FL_LK :: u16 where "FL_LK \<equiv> 4"
abbreviation (input) FL_AA :: u16 where "FL_AA \<equiv> 8"
abbreviation (input) FL_PRIV :: u16 where "FL_PRIV \<equiv> 16"
abbreviation (input) FL_ILL7400 :: u16 where "FL_ILL7400 \<equiv> 32"
abbreviation (input) FL_TBIT :: u16 where "FL_TBIT \<equiv> 64"
abbreviation (input) FL_ABIT :: u16 where "FL_ABIT \<equiv> 128"
abbreviation (input) FL_VRC :: u16 where "FL_VRC \<equiv> 256"

record insn_desc =
  mnem :: string
  primary :: nat
  xkind :: Xk
  xo :: nat
  pat :: Pat
  flags :: u16

definition isaRow :: "string \<Rightarrow> nat \<Rightarrow> Xk \<Rightarrow> nat \<Rightarrow> Pat \<Rightarrow> u16 \<Rightarrow> insn_desc" where
  "isaRow mn prim k x p fl =
     \<lparr>mnem = mn, primary = prim, xkind = k, xo = x, pat = p, flags = fl\<rparr>"

definition isFpInsn :: "insn_desc \<Rightarrow> bool" where
  "isFpInsn d =
     (case pat d of
        Pat_FRT_D_RA \<Rightarrow> True | Pat_FRS_D_RA \<Rightarrow> True | Pat_FRT_RA_RB \<Rightarrow> True
      | Pat_FRS_RA_RB \<Rightarrow> True | Pat_FP2 \<Rightarrow> True | Pat_FP3 \<Rightarrow> True | Pat_FP3C \<Rightarrow> True
      | Pat_FP4 \<Rightarrow> True | Pat_FCMP \<Rightarrow> True | Pat_MTFSF \<Rightarrow> True | Pat_MTFSFI \<Rightarrow> True
      | Pat_MTFSB \<Rightarrow> True | Pat_MCRFS \<Rightarrow> True | Pat_MFFS \<Rightarrow> True
      | _ \<Rightarrow> False)"

definition isVecInsn :: "insn_desc \<Rightarrow> bool" where
  "isVecInsn d =
     (if flags d AND (FL_TBIT OR FL_ABIT) \<noteq> 0 then False
      else case pat d of
        Pat_VX3 \<Rightarrow> True | Pat_VX2B \<Rightarrow> True | Pat_VX_SPLAT \<Rightarrow> True | Pat_VX_SPLATIS \<Rightarrow> True
      | Pat_MFVSCR \<Rightarrow> True | Pat_MTVSCR \<Rightarrow> True | Pat_VA4P \<Rightarrow> True | Pat_VA_MADD \<Rightarrow> True
      | Pat_VSLDOI \<Rightarrow> True | Pat_VD_RA_RB \<Rightarrow> True | Pat_VS_RA_RB \<Rightarrow> True
      | _ \<Rightarrow> False)"

section \<open>The instruction table\<close>

definition kIsaPrimary :: "insn_desc list" where
  "kIsaPrimary = [
   isaRow ''twi'' 3 Xk_PRI 0 Pat_TW_SI 0,
   isaRow ''mulli'' 7 Xk_PRI 0 Pat_RT_RA_SI 0,
   isaRow ''subfic'' 8 Xk_PRI 0 Pat_RT_RA_SI 0,
   isaRow ''cmpli'' 10 Xk_PRI 0 Pat_CMP_UI 0,
   isaRow ''cmpi'' 11 Xk_PRI 0 Pat_CMP_SI 0,
   isaRow ''addic'' 12 Xk_PRI 0 Pat_RT_RA_SI 0,
   isaRow ''addic.'' 13 Xk_PRI 0 Pat_RT_RA_SI 0,
   isaRow ''addi'' 14 Xk_PRI 0 Pat_RT_RA_SI 0,
   isaRow ''addis'' 15 Xk_PRI 0 Pat_RT_RA_SI 0,
   isaRow ''ori'' 24 Xk_PRI 0 Pat_RA_RS_UI 0,
   isaRow ''oris'' 25 Xk_PRI 0 Pat_RA_RS_UI 0,
   isaRow ''xori'' 26 Xk_PRI 0 Pat_RA_RS_UI 0,
   isaRow ''xoris'' 27 Xk_PRI 0 Pat_RA_RS_UI 0,
   isaRow ''andi.'' 28 Xk_PRI 0 Pat_RA_RS_UI 0,
   isaRow ''andis.'' 29 Xk_PRI 0 Pat_RA_RS_UI 0,
   isaRow ''bc'' 16 Xk_PRI 0 Pat_BC (FL_LK OR FL_AA),
   isaRow ''sc'' 17 Xk_PRI 0 Pat_SC 0,
   isaRow ''b'' 18 Xk_PRI 0 Pat_B (FL_LK OR FL_AA),
   isaRow ''rlwimi'' 20 Xk_PRI 0 Pat_RLWINM FL_RC,
   isaRow ''rlwinm'' 21 Xk_PRI 0 Pat_RLWINM FL_RC,
   isaRow ''rlwnm'' 23 Xk_PRI 0 Pat_RLWNM FL_RC,
   isaRow ''lwz'' 32 Xk_PRI 0 Pat_RT_D_RA 0,
   isaRow ''lwzu'' 33 Xk_PRI 0 Pat_RT_D_RA 0,
   isaRow ''lbz'' 34 Xk_PRI 0 Pat_RT_D_RA 0,
   isaRow ''lbzu'' 35 Xk_PRI 0 Pat_RT_D_RA 0,
   isaRow ''stw'' 36 Xk_PRI 0 Pat_RS_D_RA 0,
   isaRow ''stwu'' 37 Xk_PRI 0 Pat_RS_D_RA 0,
   isaRow ''stb'' 38 Xk_PRI 0 Pat_RS_D_RA 0,
   isaRow ''stbu'' 39 Xk_PRI 0 Pat_RS_D_RA 0,
   isaRow ''lhz'' 40 Xk_PRI 0 Pat_RT_D_RA 0,
   isaRow ''lhzu'' 41 Xk_PRI 0 Pat_RT_D_RA 0,
   isaRow ''lha'' 42 Xk_PRI 0 Pat_RT_D_RA 0,
   isaRow ''lhau'' 43 Xk_PRI 0 Pat_RT_D_RA 0,
   isaRow ''sth'' 44 Xk_PRI 0 Pat_RS_D_RA 0,
   isaRow ''sthu'' 45 Xk_PRI 0 Pat_RS_D_RA 0,
   isaRow ''lmw'' 46 Xk_PRI 0 Pat_RT_D_RA 0,
   isaRow ''stmw'' 47 Xk_PRI 0 Pat_RS_D_RA 0,
   isaRow ''lfs'' 48 Xk_PRI 0 Pat_FRT_D_RA 0,
   isaRow ''lfsu'' 49 Xk_PRI 0 Pat_FRT_D_RA 0,
   isaRow ''lfd'' 50 Xk_PRI 0 Pat_FRT_D_RA 0,
   isaRow ''lfdu'' 51 Xk_PRI 0 Pat_FRT_D_RA 0,
   isaRow ''stfs'' 52 Xk_PRI 0 Pat_FRS_D_RA 0,
   isaRow ''stfsu'' 53 Xk_PRI 0 Pat_FRS_D_RA 0,
   isaRow ''stfd'' 54 Xk_PRI 0 Pat_FRS_D_RA 0,
   isaRow ''stfdu'' 55 Xk_PRI 0 Pat_FRS_D_RA 0,
   isaRow ''mcrf'' 19 Xk_X19 0 Pat_MCRF 0,
   isaRow ''bclr'' 19 Xk_X19 16 Pat_BCLR FL_LK,
   isaRow ''crnor'' 19 Xk_X19 33 Pat_CRB3 0,
   isaRow ''rfi'' 19 Xk_X19 50 Pat_NONE FL_PRIV,
   isaRow ''crandc'' 19 Xk_X19 129 Pat_CRB3 0,
   isaRow ''isync'' 19 Xk_X19 150 Pat_NONE 0,
   isaRow ''crxor'' 19 Xk_X19 193 Pat_CRB3 0,
   isaRow ''crnand'' 19 Xk_X19 225 Pat_CRB3 0,
   isaRow ''crand'' 19 Xk_X19 257 Pat_CRB3 0,
   isaRow ''creqv'' 19 Xk_X19 289 Pat_CRB3 0,
   isaRow ''crorc'' 19 Xk_X19 417 Pat_CRB3 0,
   isaRow ''cror'' 19 Xk_X19 449 Pat_CRB3 0,
   isaRow ''bcctr'' 19 Xk_X19 528 Pat_BCCTR FL_LK]"

definition kIsaX31 :: "insn_desc list" where
  "kIsaX31 = [
   isaRow ''subfc'' 31 Xk_X31 8 Pat_RT_RA_RB (FL_RC OR FL_OE),
   isaRow ''addc'' 31 Xk_X31 10 Pat_RT_RA_RB (FL_RC OR FL_OE),
   isaRow ''mulhwu'' 31 Xk_X31 11 Pat_RT_RA_RB FL_RC,
   isaRow ''subf'' 31 Xk_X31 40 Pat_RT_RA_RB (FL_RC OR FL_OE),
   isaRow ''mulhw'' 31 Xk_X31 75 Pat_RT_RA_RB FL_RC,
   isaRow ''neg'' 31 Xk_X31 104 Pat_RT_RA (FL_RC OR FL_OE),
   isaRow ''subfe'' 31 Xk_X31 136 Pat_RT_RA_RB (FL_RC OR FL_OE),
   isaRow ''adde'' 31 Xk_X31 138 Pat_RT_RA_RB (FL_RC OR FL_OE),
   isaRow ''subfze'' 31 Xk_X31 200 Pat_RT_RA (FL_RC OR FL_OE),
   isaRow ''addze'' 31 Xk_X31 202 Pat_RT_RA (FL_RC OR FL_OE),
   isaRow ''subfme'' 31 Xk_X31 232 Pat_RT_RA (FL_RC OR FL_OE),
   isaRow ''addme'' 31 Xk_X31 234 Pat_RT_RA (FL_RC OR FL_OE),
   isaRow ''mullw'' 31 Xk_X31 235 Pat_RT_RA_RB (FL_RC OR FL_OE),
   isaRow ''add'' 31 Xk_X31 266 Pat_RT_RA_RB (FL_RC OR FL_OE),
   isaRow ''divwu'' 31 Xk_X31 459 Pat_RT_RA_RB (FL_RC OR FL_OE),
   isaRow ''divw'' 31 Xk_X31 491 Pat_RT_RA_RB (FL_RC OR FL_OE),
   isaRow ''tw'' 31 Xk_X31 4 Pat_TW_RB 0,
   isaRow ''cmp'' 31 Xk_X31 0 Pat_CMP_RB 0,
   isaRow ''cmpl'' 31 Xk_X31 32 Pat_CMP_RB 0,
   isaRow ''slw'' 31 Xk_X31 24 Pat_RA_RS_RB FL_RC,
   isaRow ''cntlzw'' 31 Xk_X31 26 Pat_RA_RS FL_RC,
   isaRow ''and'' 31 Xk_X31 28 Pat_RA_RS_RB FL_RC,
   isaRow ''andc'' 31 Xk_X31 60 Pat_RA_RS_RB FL_RC,
   isaRow ''nor'' 31 Xk_X31 124 Pat_RA_RS_RB FL_RC,
   isaRow ''eqv'' 31 Xk_X31 284 Pat_RA_RS_RB FL_RC,
   isaRow ''xor'' 31 Xk_X31 316 Pat_RA_RS_RB FL_RC,
   isaRow ''orc'' 31 Xk_X31 412 Pat_RA_RS_RB FL_RC,
   isaRow ''or'' 31 Xk_X31 444 Pat_RA_RS_RB FL_RC,
   isaRow ''nand'' 31 Xk_X31 476 Pat_RA_RS_RB FL_RC,
   isaRow ''srw'' 31 Xk_X31 536 Pat_RA_RS_RB FL_RC,
   isaRow ''sraw'' 31 Xk_X31 792 Pat_RA_RS_RB FL_RC,
   isaRow ''srawi'' 31 Xk_X31 824 Pat_RA_RS_SH FL_RC,
   isaRow ''extsh'' 31 Xk_X31 922 Pat_RA_RS FL_RC,
   isaRow ''extsb'' 31 Xk_X31 954 Pat_RA_RS FL_RC,
   isaRow ''lwarx'' 31 Xk_X31 20 Pat_RT_RA_RB 0,
   isaRow ''lwzx'' 31 Xk_X31 23 Pat_RT_RA_RB 0,
   isaRow ''lwzux'' 31 Xk_X31 55 Pat_RT_RA_RB 0,
   isaRow ''lbzx'' 31 Xk_X31 87 Pat_RT_RA_RB 0,
   isaRow ''lbzux'' 31 Xk_X31 119 Pat_RT_RA_RB 0,
   isaRow ''stwcx.'' 31 Xk_X31 150 Pat_RS_RA_RB 0,
   isaRow ''stwx'' 31 Xk_X31 151 Pat_RS_RA_RB 0,
   isaRow ''stwux'' 31 Xk_X31 183 Pat_RS_RA_RB 0,
   isaRow ''stbx'' 31 Xk_X31 215 Pat_RS_RA_RB 0,
   isaRow ''stbux'' 31 Xk_X31 247 Pat_RS_RA_RB 0,
   isaRow ''lhzx'' 31 Xk_X31 279 Pat_RT_RA_RB 0,
   isaRow ''lhzux'' 31 Xk_X31 311 Pat_RT_RA_RB 0,
   isaRow ''lhax'' 31 Xk_X31 343 Pat_RT_RA_RB 0,
   isaRow ''lhaux'' 31 Xk_X31 375 Pat_RT_RA_RB 0,
   isaRow ''sthx'' 31 Xk_X31 407 Pat_RS_RA_RB 0,
   isaRow ''sthux'' 31 Xk_X31 439 Pat_RS_RA_RB 0,
   isaRow ''lswx'' 31 Xk_X31 533 Pat_RT_RA_RB 0,
   isaRow ''lwbrx'' 31 Xk_X31 534 Pat_RT_RA_RB 0,
   isaRow ''lswi'' 31 Xk_X31 597 Pat_LSWI 0,
   isaRow ''stswx'' 31 Xk_X31 661 Pat_RS_RA_RB 0,
   isaRow ''stwbrx'' 31 Xk_X31 662 Pat_RS_RA_RB 0,
   isaRow ''stswi'' 31 Xk_X31 725 Pat_LSWI 0,
   isaRow ''lhbrx'' 31 Xk_X31 790 Pat_RT_RA_RB 0,
   isaRow ''sthbrx'' 31 Xk_X31 918 Pat_RS_RA_RB 0,
   isaRow ''lfsx'' 31 Xk_X31 535 Pat_FRT_RA_RB 0,
   isaRow ''lfsux'' 31 Xk_X31 567 Pat_FRT_RA_RB 0,
   isaRow ''lfdx'' 31 Xk_X31 599 Pat_FRT_RA_RB 0,
   isaRow ''lfdux'' 31 Xk_X31 631 Pat_FRT_RA_RB 0,
   isaRow ''stfsx'' 31 Xk_X31 663 Pat_FRS_RA_RB 0,
   isaRow ''stfsux'' 31 Xk_X31 695 Pat_FRS_RA_RB 0,
   isaRow ''stfdx'' 31 Xk_X31 727 Pat_FRS_RA_RB 0,
   isaRow ''stfdux'' 31 Xk_X31 759 Pat_FRS_RA_RB 0,
   isaRow ''stfiwx'' 31 Xk_X31 983 Pat_FRS_RA_RB 0,
   isaRow ''eciwx'' 31 Xk_X31 310 Pat_RT_RA_RB 0,
   isaRow ''ecowx'' 31 Xk_X31 438 Pat_RS_RA_RB 0,
   isaRow ''mfcr'' 31 Xk_X31 19 Pat_MFCR 0,
   isaRow ''mfmsr'' 31 Xk_X31 83 Pat_MFMSR FL_PRIV,
   isaRow ''dcbst'' 31 Xk_X31 54 Pat_RA_RB 0,
   isaRow ''dcbf'' 31 Xk_X31 86 Pat_RA_RB 0,
   isaRow ''mtcrf'' 31 Xk_X31 144 Pat_MTCRF 0,
   isaRow ''mtmsr'' 31 Xk_X31 146 Pat_MTMSR FL_PRIV,
   isaRow ''mtsr'' 31 Xk_X31 210 Pat_MTSR FL_PRIV,
   isaRow ''mtsrin'' 31 Xk_X31 242 Pat_MTSRIN FL_PRIV,
   isaRow ''dcbtst'' 31 Xk_X31 246 Pat_RA_RB 0,
   isaRow ''dcbt'' 31 Xk_X31 278 Pat_RA_RB 0,
   isaRow ''tlbie'' 31 Xk_X31 306 Pat_RB_ONLY FL_PRIV,
   isaRow ''mfspr'' 31 Xk_X31 339 Pat_MFSPR 0,
   isaRow ''tlbia'' 31 Xk_X31 370 Pat_NONE (FL_PRIV OR FL_ILL7400),
   isaRow ''mftb'' 31 Xk_X31 371 Pat_MFTB 0,
   isaRow ''mtspr'' 31 Xk_X31 467 Pat_MTSPR 0,
   isaRow ''dcbi'' 31 Xk_X31 470 Pat_RA_RB FL_PRIV,
   isaRow ''mcrxr'' 31 Xk_X31 512 Pat_MCRXR 0,
   isaRow ''tlbsync'' 31 Xk_X31 566 Pat_NONE FL_PRIV,
   isaRow ''mfsr'' 31 Xk_X31 595 Pat_MFSR FL_PRIV,
   isaRow ''sync'' 31 Xk_X31 598 Pat_NONE 0,
   isaRow ''mfsrin'' 31 Xk_X31 659 Pat_MFSRIN FL_PRIV,
   isaRow ''dcba'' 31 Xk_X31 758 Pat_RA_RB 0,
   isaRow ''eieio'' 31 Xk_X31 854 Pat_NONE 0,
   isaRow ''icbi'' 31 Xk_X31 982 Pat_RA_RB 0,
   isaRow ''dcbz'' 31 Xk_X31 1014 Pat_RA_RB 0,
   isaRow ''lvsl'' 31 Xk_X31 6 Pat_VD_RA_RB 0,
   isaRow ''lvebx'' 31 Xk_X31 7 Pat_VD_RA_RB 0,
   isaRow ''lvsr'' 31 Xk_X31 38 Pat_VD_RA_RB 0,
   isaRow ''lvehx'' 31 Xk_X31 39 Pat_VD_RA_RB 0,
   isaRow ''lvewx'' 31 Xk_X31 71 Pat_VD_RA_RB 0,
   isaRow ''lvx'' 31 Xk_X31 103 Pat_VD_RA_RB 0,
   isaRow ''stvebx'' 31 Xk_X31 135 Pat_VS_RA_RB 0,
   isaRow ''stvehx'' 31 Xk_X31 167 Pat_VS_RA_RB 0,
   isaRow ''stvewx'' 31 Xk_X31 199 Pat_VS_RA_RB 0,
   isaRow ''stvx'' 31 Xk_X31 231 Pat_VS_RA_RB 0,
   isaRow ''dst'' 31 Xk_X31 342 Pat_DST FL_TBIT,
   isaRow ''lvxl'' 31 Xk_X31 359 Pat_VD_RA_RB 0,
   isaRow ''dstst'' 31 Xk_X31 374 Pat_DST FL_TBIT,
   isaRow ''stvxl'' 31 Xk_X31 487 Pat_VS_RA_RB 0,
   isaRow ''dss'' 31 Xk_X31 822 Pat_DSS FL_ABIT]"

definition kIsaFp :: "insn_desc list" where
  "kIsaFp = [
   isaRow ''fdivs'' 59 Xk_A59 18 Pat_FP3 FL_RC,
   isaRow ''fsubs'' 59 Xk_A59 20 Pat_FP3 FL_RC,
   isaRow ''fadds'' 59 Xk_A59 21 Pat_FP3 FL_RC,
   isaRow ''fsqrts'' 59 Xk_A59 22 Pat_FP2 (FL_RC OR FL_ILL7400),
   isaRow ''fres'' 59 Xk_A59 24 Pat_FP2 FL_RC,
   isaRow ''fmuls'' 59 Xk_A59 25 Pat_FP3C FL_RC,
   isaRow ''fmsubs'' 59 Xk_A59 28 Pat_FP4 FL_RC,
   isaRow ''fmadds'' 59 Xk_A59 29 Pat_FP4 FL_RC,
   isaRow ''fnmsubs'' 59 Xk_A59 30 Pat_FP4 FL_RC,
   isaRow ''fnmadds'' 59 Xk_A59 31 Pat_FP4 FL_RC,
   isaRow ''fdiv'' 63 Xk_A63 18 Pat_FP3 FL_RC,
   isaRow ''fsub'' 63 Xk_A63 20 Pat_FP3 FL_RC,
   isaRow ''fadd'' 63 Xk_A63 21 Pat_FP3 FL_RC,
   isaRow ''fsqrt'' 63 Xk_A63 22 Pat_FP2 (FL_RC OR FL_ILL7400),
   isaRow ''fsel'' 63 Xk_A63 23 Pat_FP4 FL_RC,
   isaRow ''fmul'' 63 Xk_A63 25 Pat_FP3C FL_RC,
   isaRow ''frsqrte'' 63 Xk_A63 26 Pat_FP2 FL_RC,
   isaRow ''fmsub'' 63 Xk_A63 28 Pat_FP4 FL_RC,
   isaRow ''fmadd'' 63 Xk_A63 29 Pat_FP4 FL_RC,
   isaRow ''fnmsub'' 63 Xk_A63 30 Pat_FP4 FL_RC,
   isaRow ''fnmadd'' 63 Xk_A63 31 Pat_FP4 FL_RC,
   isaRow ''fcmpu'' 63 Xk_X63 0 Pat_FCMP 0,
   isaRow ''frsp'' 63 Xk_X63 12 Pat_FP2 FL_RC,
   isaRow ''fctiw'' 63 Xk_X63 14 Pat_FP2 FL_RC,
   isaRow ''fctiwz'' 63 Xk_X63 15 Pat_FP2 FL_RC,
   isaRow ''fcmpo'' 63 Xk_X63 32 Pat_FCMP 0,
   isaRow ''mtfsb1'' 63 Xk_X63 38 Pat_MTFSB FL_RC,
   isaRow ''fneg'' 63 Xk_X63 40 Pat_FP2 FL_RC,
   isaRow ''mcrfs'' 63 Xk_X63 64 Pat_MCRFS 0,
   isaRow ''mtfsb0'' 63 Xk_X63 70 Pat_MTFSB FL_RC,
   isaRow ''fmr'' 63 Xk_X63 72 Pat_FP2 FL_RC,
   isaRow ''mtfsfi'' 63 Xk_X63 134 Pat_MTFSFI FL_RC,
   isaRow ''fnabs'' 63 Xk_X63 136 Pat_FP2 FL_RC,
   isaRow ''fabs'' 63 Xk_X63 264 Pat_FP2 FL_RC,
   isaRow ''mffs'' 63 Xk_X63 583 Pat_MFFS FL_RC,
   isaRow ''mtfsf'' 63 Xk_X63 711 Pat_MTFSF FL_RC]"

definition kIsaVec :: "insn_desc list" where
  "kIsaVec = [
   isaRow ''vmhaddshs'' 4 Xk_VA4 32 Pat_VA4P 0,
   isaRow ''vmhraddshs'' 4 Xk_VA4 33 Pat_VA4P 0,
   isaRow ''vmladduhm'' 4 Xk_VA4 34 Pat_VA4P 0,
   isaRow ''vmsumubm'' 4 Xk_VA4 36 Pat_VA4P 0,
   isaRow ''vmsummbm'' 4 Xk_VA4 37 Pat_VA4P 0,
   isaRow ''vmsumuhm'' 4 Xk_VA4 38 Pat_VA4P 0,
   isaRow ''vmsumuhs'' 4 Xk_VA4 39 Pat_VA4P 0,
   isaRow ''vmsumshm'' 4 Xk_VA4 40 Pat_VA4P 0,
   isaRow ''vmsumshs'' 4 Xk_VA4 41 Pat_VA4P 0,
   isaRow ''vsel'' 4 Xk_VA4 42 Pat_VA4P 0,
   isaRow ''vperm'' 4 Xk_VA4 43 Pat_VA4P 0,
   isaRow ''vsldoi'' 4 Xk_VA4 44 Pat_VSLDOI 0,
   isaRow ''vmaddfp'' 4 Xk_VA4 46 Pat_VA_MADD 0,
   isaRow ''vnmsubfp'' 4 Xk_VA4 47 Pat_VA_MADD 0,
   isaRow ''vcmpequb'' 4 Xk_VXR4 6 Pat_VX3 FL_VRC,
   isaRow ''vcmpequh'' 4 Xk_VXR4 70 Pat_VX3 FL_VRC,
   isaRow ''vcmpequw'' 4 Xk_VXR4 134 Pat_VX3 FL_VRC,
   isaRow ''vcmpeqfp'' 4 Xk_VXR4 198 Pat_VX3 FL_VRC,
   isaRow ''vcmpgefp'' 4 Xk_VXR4 454 Pat_VX3 FL_VRC,
   isaRow ''vcmpgtub'' 4 Xk_VXR4 518 Pat_VX3 FL_VRC,
   isaRow ''vcmpgtuh'' 4 Xk_VXR4 582 Pat_VX3 FL_VRC,
   isaRow ''vcmpgtuw'' 4 Xk_VXR4 646 Pat_VX3 FL_VRC,
   isaRow ''vcmpgtfp'' 4 Xk_VXR4 710 Pat_VX3 FL_VRC,
   isaRow ''vcmpgtsb'' 4 Xk_VXR4 774 Pat_VX3 FL_VRC,
   isaRow ''vcmpgtsh'' 4 Xk_VXR4 838 Pat_VX3 FL_VRC,
   isaRow ''vcmpgtsw'' 4 Xk_VXR4 902 Pat_VX3 FL_VRC,
   isaRow ''vcmpbfp'' 4 Xk_VXR4 966 Pat_VX3 FL_VRC,
   isaRow ''vaddubm'' 4 Xk_VX4 0 Pat_VX3 0,
   isaRow ''vmaxub'' 4 Xk_VX4 2 Pat_VX3 0,
   isaRow ''vrlb'' 4 Xk_VX4 4 Pat_VX3 0,
   isaRow ''vmuloub'' 4 Xk_VX4 8 Pat_VX3 0,
   isaRow ''vaddfp'' 4 Xk_VX4 10 Pat_VX3 0,
   isaRow ''vmrghb'' 4 Xk_VX4 12 Pat_VX3 0,
   isaRow ''vpkuhum'' 4 Xk_VX4 14 Pat_VX3 0,
   isaRow ''vadduhm'' 4 Xk_VX4 64 Pat_VX3 0,
   isaRow ''vmaxuh'' 4 Xk_VX4 66 Pat_VX3 0,
   isaRow ''vrlh'' 4 Xk_VX4 68 Pat_VX3 0,
   isaRow ''vmulouh'' 4 Xk_VX4 72 Pat_VX3 0,
   isaRow ''vsubfp'' 4 Xk_VX4 74 Pat_VX3 0,
   isaRow ''vmrghh'' 4 Xk_VX4 76 Pat_VX3 0,
   isaRow ''vpkuwum'' 4 Xk_VX4 78 Pat_VX3 0,
   isaRow ''vadduwm'' 4 Xk_VX4 128 Pat_VX3 0,
   isaRow ''vmaxuw'' 4 Xk_VX4 130 Pat_VX3 0,
   isaRow ''vrlw'' 4 Xk_VX4 132 Pat_VX3 0,
   isaRow ''vmrghw'' 4 Xk_VX4 140 Pat_VX3 0,
   isaRow ''vpkuhus'' 4 Xk_VX4 142 Pat_VX3 0,
   isaRow ''vpkuwus'' 4 Xk_VX4 206 Pat_VX3 0,
   isaRow ''vmaxsb'' 4 Xk_VX4 258 Pat_VX3 0,
   isaRow ''vslb'' 4 Xk_VX4 260 Pat_VX3 0,
   isaRow ''vmulosb'' 4 Xk_VX4 264 Pat_VX3 0,
   isaRow ''vrefp'' 4 Xk_VX4 266 Pat_VX2B 0,
   isaRow ''vmrglb'' 4 Xk_VX4 268 Pat_VX3 0,
   isaRow ''vpkshus'' 4 Xk_VX4 270 Pat_VX3 0,
   isaRow ''vmaxsh'' 4 Xk_VX4 322 Pat_VX3 0,
   isaRow ''vslh'' 4 Xk_VX4 324 Pat_VX3 0,
   isaRow ''vmulosh'' 4 Xk_VX4 328 Pat_VX3 0,
   isaRow ''vrsqrtefp'' 4 Xk_VX4 330 Pat_VX2B 0,
   isaRow ''vmrglh'' 4 Xk_VX4 332 Pat_VX3 0,
   isaRow ''vpkswus'' 4 Xk_VX4 334 Pat_VX3 0,
   isaRow ''vaddcuw'' 4 Xk_VX4 384 Pat_VX3 0,
   isaRow ''vmaxsw'' 4 Xk_VX4 386 Pat_VX3 0,
   isaRow ''vslw'' 4 Xk_VX4 388 Pat_VX3 0,
   isaRow ''vexptefp'' 4 Xk_VX4 394 Pat_VX2B 0,
   isaRow ''vmrglw'' 4 Xk_VX4 396 Pat_VX3 0,
   isaRow ''vpkshss'' 4 Xk_VX4 398 Pat_VX3 0,
   isaRow ''vsl'' 4 Xk_VX4 452 Pat_VX3 0,
   isaRow ''vlogefp'' 4 Xk_VX4 458 Pat_VX2B 0,
   isaRow ''vpkswss'' 4 Xk_VX4 462 Pat_VX3 0,
   isaRow ''vaddubs'' 4 Xk_VX4 512 Pat_VX3 0,
   isaRow ''vminub'' 4 Xk_VX4 514 Pat_VX3 0,
   isaRow ''vsrb'' 4 Xk_VX4 516 Pat_VX3 0,
   isaRow ''vmuleub'' 4 Xk_VX4 520 Pat_VX3 0,
   isaRow ''vrfin'' 4 Xk_VX4 522 Pat_VX2B 0,
   isaRow ''vspltb'' 4 Xk_VX4 524 Pat_VX_SPLAT 0,
   isaRow ''vupkhsb'' 4 Xk_VX4 526 Pat_VX2B 0,
   isaRow ''vadduhs'' 4 Xk_VX4 576 Pat_VX3 0,
   isaRow ''vminuh'' 4 Xk_VX4 578 Pat_VX3 0,
   isaRow ''vsrh'' 4 Xk_VX4 580 Pat_VX3 0,
   isaRow ''vmuleuh'' 4 Xk_VX4 584 Pat_VX3 0,
   isaRow ''vrfiz'' 4 Xk_VX4 586 Pat_VX2B 0,
   isaRow ''vsplth'' 4 Xk_VX4 588 Pat_VX_SPLAT 0,
   isaRow ''vupkhsh'' 4 Xk_VX4 590 Pat_VX2B 0,
   isaRow ''vadduws'' 4 Xk_VX4 640 Pat_VX3 0,
   isaRow ''vminuw'' 4 Xk_VX4 642 Pat_VX3 0,
   isaRow ''vsrw'' 4 Xk_VX4 644 Pat_VX3 0,
   isaRow ''vrfip'' 4 Xk_VX4 650 Pat_VX2B 0,
   isaRow ''vspltw'' 4 Xk_VX4 652 Pat_VX_SPLAT 0,
   isaRow ''vupklsb'' 4 Xk_VX4 654 Pat_VX2B 0,
   isaRow ''vsr'' 4 Xk_VX4 708 Pat_VX3 0,
   isaRow ''vrfim'' 4 Xk_VX4 714 Pat_VX2B 0,
   isaRow ''vupklsh'' 4 Xk_VX4 718 Pat_VX2B 0,
   isaRow ''vaddsbs'' 4 Xk_VX4 768 Pat_VX3 0,
   isaRow ''vminsb'' 4 Xk_VX4 770 Pat_VX3 0,
   isaRow ''vsrab'' 4 Xk_VX4 772 Pat_VX3 0,
   isaRow ''vmulesb'' 4 Xk_VX4 776 Pat_VX3 0,
   isaRow ''vcfux'' 4 Xk_VX4 778 Pat_VX_SPLAT 0,
   isaRow ''vspltisb'' 4 Xk_VX4 780 Pat_VX_SPLATIS 0,
   isaRow ''vpkpx'' 4 Xk_VX4 782 Pat_VX3 0,
   isaRow ''vaddshs'' 4 Xk_VX4 832 Pat_VX3 0,
   isaRow ''vminsh'' 4 Xk_VX4 834 Pat_VX3 0,
   isaRow ''vsrah'' 4 Xk_VX4 836 Pat_VX3 0,
   isaRow ''vmulesh'' 4 Xk_VX4 840 Pat_VX3 0,
   isaRow ''vcfsx'' 4 Xk_VX4 842 Pat_VX_SPLAT 0,
   isaRow ''vspltish'' 4 Xk_VX4 844 Pat_VX_SPLATIS 0,
   isaRow ''vupkhpx'' 4 Xk_VX4 846 Pat_VX2B 0,
   isaRow ''vaddsws'' 4 Xk_VX4 896 Pat_VX3 0,
   isaRow ''vminsw'' 4 Xk_VX4 898 Pat_VX3 0,
   isaRow ''vsraw'' 4 Xk_VX4 900 Pat_VX3 0,
   isaRow ''vctuxs'' 4 Xk_VX4 906 Pat_VX_SPLAT 0,
   isaRow ''vspltisw'' 4 Xk_VX4 908 Pat_VX_SPLATIS 0,
   isaRow ''vctsxs'' 4 Xk_VX4 970 Pat_VX_SPLAT 0,
   isaRow ''vupklpx'' 4 Xk_VX4 974 Pat_VX2B 0,
   isaRow ''vsububm'' 4 Xk_VX4 1024 Pat_VX3 0,
   isaRow ''vavgub'' 4 Xk_VX4 1026 Pat_VX3 0,
   isaRow ''vand'' 4 Xk_VX4 1028 Pat_VX3 0,
   isaRow ''vmaxfp'' 4 Xk_VX4 1034 Pat_VX3 0,
   isaRow ''vslo'' 4 Xk_VX4 1036 Pat_VX3 0,
   isaRow ''vsubuhm'' 4 Xk_VX4 1088 Pat_VX3 0,
   isaRow ''vavguh'' 4 Xk_VX4 1090 Pat_VX3 0,
   isaRow ''vandc'' 4 Xk_VX4 1092 Pat_VX3 0,
   isaRow ''vminfp'' 4 Xk_VX4 1098 Pat_VX3 0,
   isaRow ''vsro'' 4 Xk_VX4 1100 Pat_VX3 0,
   isaRow ''vsubuwm'' 4 Xk_VX4 1152 Pat_VX3 0,
   isaRow ''vavguw'' 4 Xk_VX4 1154 Pat_VX3 0,
   isaRow ''vor'' 4 Xk_VX4 1156 Pat_VX3 0,
   isaRow ''vxor'' 4 Xk_VX4 1220 Pat_VX3 0,
   isaRow ''vavgsb'' 4 Xk_VX4 1282 Pat_VX3 0,
   isaRow ''vnor'' 4 Xk_VX4 1284 Pat_VX3 0,
   isaRow ''vavgsh'' 4 Xk_VX4 1346 Pat_VX3 0,
   isaRow ''vsubcuw'' 4 Xk_VX4 1408 Pat_VX3 0,
   isaRow ''vavgsw'' 4 Xk_VX4 1410 Pat_VX3 0,
   isaRow ''vsububs'' 4 Xk_VX4 1536 Pat_VX3 0,
   isaRow ''mfvscr'' 4 Xk_VX4 1540 Pat_MFVSCR 0,
   isaRow ''vsum4ubs'' 4 Xk_VX4 1544 Pat_VX3 0,
   isaRow ''vsubuhs'' 4 Xk_VX4 1600 Pat_VX3 0,
   isaRow ''mtvscr'' 4 Xk_VX4 1604 Pat_MTVSCR 0,
   isaRow ''vsum4shs'' 4 Xk_VX4 1608 Pat_VX3 0,
   isaRow ''vsubuws'' 4 Xk_VX4 1664 Pat_VX3 0,
   isaRow ''vsum2sws'' 4 Xk_VX4 1672 Pat_VX3 0,
   isaRow ''vsubsbs'' 4 Xk_VX4 1792 Pat_VX3 0,
   isaRow ''vsum4sbs'' 4 Xk_VX4 1800 Pat_VX3 0,
   isaRow ''vsubshs'' 4 Xk_VX4 1856 Pat_VX3 0,
   isaRow ''vsubsws'' 4 Xk_VX4 1920 Pat_VX3 0,
   isaRow ''vsumsws'' 4 Xk_VX4 1928 Pat_VX3 0]"

definition kIsa :: "insn_desc list" where
  "kIsa = kIsaPrimary @ kIsaX31 @ kIsaFp @ kIsaVec"

lemmas kIsa_rows = kIsa_def kIsaPrimary_def kIsaX31_def kIsaFp_def kIsaVec_def

definition kIsaCount :: nat where
  "kIsaCount = length kIsa"

section \<open>Dispatch tables\<close>

record tables =
  t_pri :: "nat \<rightharpoonup> nat"
  t_x19 :: "nat \<rightharpoonup> nat"
  t_x31 :: "nat \<rightharpoonup> nat"
  t_x63 :: "nat \<rightharpoonup> nat"
  t_a59 :: "nat \<rightharpoonup> nat"
  t_a63 :: "nat \<rightharpoonup> nat"
  t_va :: "nat \<rightharpoonup> nat"
  t_vx :: "nat \<rightharpoonup> nat"

definition emptyTables :: tables where
  "emptyTables = \<lparr>t_pri = Map.empty, t_x19 = Map.empty, t_x31 = Map.empty, t_x63 = Map.empty,
     t_a59 = Map.empty, t_a63 = Map.empty, t_va = Map.empty, t_vx = Map.empty\<rparr>"

definition registerRow :: "nat \<times> insn_desc \<Rightarrow> tables \<Rightarrow> tables" where
  "registerRow nd t =
     (let n = fst nd; d = snd nd in
      case xkind d of
        Xk_PRI \<Rightarrow> t\<lparr>t_pri := (t_pri t)(primary d \<mapsto> n)\<rparr>
      | Xk_X19 \<Rightarrow> t\<lparr>t_x19 := (t_x19 t)(xo d \<mapsto> n)\<rparr>
      | Xk_X31 \<Rightarrow>
          (let t' = t\<lparr>t_x31 := (t_x31 t)(xo d \<mapsto> n)\<rparr>
           in if flags d AND FL_OE \<noteq> 0
              then t'\<lparr>t_x31 := (t_x31 t')(xo d + 512 \<mapsto> n)\<rparr> else t')
      | Xk_A59 \<Rightarrow> t\<lparr>t_a59 := (t_a59 t)(xo d \<mapsto> n)\<rparr>
      | Xk_A63 \<Rightarrow> t\<lparr>t_a63 := (t_a63 t)(xo d \<mapsto> n)\<rparr>
      | Xk_X63 \<Rightarrow> t\<lparr>t_x63 := (t_x63 t)(xo d \<mapsto> n)\<rparr>
      | Xk_VA4 \<Rightarrow> t\<lparr>t_va := (t_va t)(xo d \<mapsto> n)\<rparr>
      | Xk_VX4 \<Rightarrow> t\<lparr>t_vx := (t_vx t)(xo d \<mapsto> n)\<rparr>
      | Xk_VXR4 \<Rightarrow>
          (let t' = t\<lparr>t_vx := (t_vx t)(xo d \<mapsto> n)\<rparr>
           in t'\<lparr>t_vx := (t_vx t')(xo d + 1024 \<mapsto> n)\<rparr>))"

definition buildTables :: tables where
  "buildTables = fold registerRow (enumerate 0 kIsa) emptyTables"

definition decode :: "u32 \<Rightarrow> nat option" where
  "decode insn =
     (let t = buildTables; op = unat (f_primary insn) in
      if op = 4 then
        (case t_va t (unat (f_xo6v insn)) of
           Some d \<Rightarrow> Some d
         | None \<Rightarrow> t_vx t (unat (f_xo11v insn)))
      else if op = 19 then t_x19 t (unat (f_xo10 insn))
      else if op = 31 then t_x31 t (unat (f_xo10 insn))
      else if op = 59 then t_a59 t (unat (f_xo5 insn))
      else if op = 63 then
        (let xo5 = unat (f_xo5 insn)
         in if 16 \<le> xo5 then t_a63 t xo5 else t_x63 t (unat (f_xo10 insn)))
      else t_pri t op)"

section \<open>Pre-dispatch gates\<close>

abbreviation (input) kPreIll :: u8 where "kPreIll \<equiv> 1"
abbreviation (input) kPrePriv :: u8 where "kPrePriv \<equiv> 2"
abbreviation (input) kPreFp :: u8 where "kPreFp \<equiv> 4"
abbreviation (input) kPreVec :: u8 where "kPreVec \<equiv> 8"

definition preGate :: "insn_desc \<Rightarrow> u8" where
  "preGate d =
     (if flags d AND FL_ILL7400 \<noteq> 0 then kPreIll else 0)
     OR (if flags d AND FL_PRIV \<noteq> 0 then kPrePriv else 0)
     OR (if isFpInsn d then kPreFp else 0)
     OR (if isVecInsn d then kPreVec else 0)"

section \<open>The decoder against the table\<close>

text \<open>
  The architectural reading of a row: the primary opcode agrees and the extended
  opcode field of the row's space holds the row's number (or its OE or Rc twin).
\<close>

definition matches :: "insn_desc \<Rightarrow> u32 \<Rightarrow> bool" where
  "matches d i \<longleftrightarrow> unat (f_primary i) = primary d \<and>
     (case xkind d of
        Xk_PRI \<Rightarrow> True
      | Xk_X19 \<Rightarrow> unat (f_xo10 i) = xo d
      | Xk_X31 \<Rightarrow> unat (f_xo10 i) = xo d
                  \<or> (flags d AND FL_OE \<noteq> 0 \<and> unat (f_xo10 i) = xo d + 512)
      | Xk_A59 \<Rightarrow> unat (f_xo5 i) = xo d
      | Xk_A63 \<Rightarrow> unat (f_xo5 i) = xo d
      | Xk_X63 \<Rightarrow> unat (f_xo10 i) = xo d
      | Xk_VA4 \<Rightarrow> unat (f_xo6v i) = xo d
      | Xk_VX4 \<Rightarrow> unat (f_xo11v i) = xo d
      | Xk_VXR4 \<Rightarrow> unat (f_xo11v i) = xo d \<or> unat (f_xo11v i) = xo d + 1024)"

text \<open>Table slots as pairs of a table number and an index.\<close>

fun slotOf :: "tables \<Rightarrow> nat \<times> nat \<Rightarrow> nat option" where
  "slotOf t (s, k) =
     (if s = 0 then t_pri t k else if s = 1 then t_x19 t k else if s = 2 then t_x31 t k
      else if s = 3 then t_x63 t k else if s = 4 then t_a59 t k else if s = 5 then t_a63 t k
      else if s = 6 then t_va t k else t_vx t k)"

definition rowSlots :: "insn_desc \<Rightarrow> (nat \<times> nat) list" where
  "rowSlots d =
     (case xkind d of
        Xk_PRI \<Rightarrow> [(0, primary d)]
      | Xk_X19 \<Rightarrow> [(1, xo d)]
      | Xk_X31 \<Rightarrow> if flags d AND FL_OE \<noteq> 0 then [(2, xo d), (2, xo d + 512)] else [(2, xo d)]
      | Xk_X63 \<Rightarrow> [(3, xo d)]
      | Xk_A59 \<Rightarrow> [(4, xo d)]
      | Xk_A63 \<Rightarrow> [(5, xo d)]
      | Xk_VA4 \<Rightarrow> [(6, xo d)]
      | Xk_VX4 \<Rightarrow> [(7, xo d)]
      | Xk_VXR4 \<Rightarrow> [(7, xo d), (7, xo d + 1024)])"

text \<open>Each row sits in its own opcode space, clear of the spaces decoded before it.\<close>

definition rowOk :: "insn_desc \<Rightarrow> bool" where
  "rowOk d =
     (case xkind d of
        Xk_PRI \<Rightarrow> primary d \<noteq> 4 \<and> primary d \<noteq> 19 \<and> primary d \<noteq> 31 \<and> primary d \<noteq> 59 \<and> primary d \<noteq> 63
      | Xk_X19 \<Rightarrow> primary d = 19
      | Xk_X31 \<Rightarrow> primary d = 31
      | Xk_A59 \<Rightarrow> primary d = 59
      | Xk_A63 \<Rightarrow> primary d = 63 \<and> 16 \<le> xo d
      | Xk_X63 \<Rightarrow> primary d = 63 \<and> xo d mod 32 < 16
      | Xk_VA4 \<Rightarrow> primary d = 4 \<and> 32 \<le> xo d
      | Xk_VX4 \<Rightarrow> primary d = 4 \<and> xo d mod 64 < 32
      | Xk_VXR4 \<Rightarrow> primary d = 4 \<and> xo d mod 64 < 32)"

lemma slotOf_registerRow:
  "fst p < 8 \<Longrightarrow> slotOf (registerRow (n, d) t) p = (if p \<in> set (rowSlots d) then Some n else slotOf t p)"
  by (cases p) (auto simp: registerRow_def rowSlots_def Let_def split: Xk.splits)

lemma slotOf_fold_None:
  assumes "fst p < 8" "\<forall>d \<in> set ds. p \<notin> set (rowSlots d)"
  shows "slotOf (fold registerRow (enumerate m ds) t) p = slotOf t p"
  using assms(2)
  by (induction ds arbitrary: m t) (auto simp: slotOf_registerRow assms(1))

lemma slotOf_fold_Some:
  assumes "fst p < 8" "distinct (concat (map rowSlots ds))"
    and "j < length ds" "p \<in> set (rowSlots (ds ! j))"
  shows "slotOf (fold registerRow (enumerate m ds) t) p = Some (m + j)"
  using assms(2-4)
proof (induction ds arbitrary: m j t)
  case Nil
  then show ?case by simp
next
  case (Cons d ds)
  show ?case
  proof (cases j)
    case 0
    with Cons.prems have "\<forall>d' \<in> set ds. p \<notin> set (rowSlots d')"
      by auto
    with 0 Cons.prems show ?thesis
      by (simp add: slotOf_fold_None slotOf_registerRow assms(1))
  next
    case (Suc k)
    with Cons.prems have "slotOf (fold registerRow (enumerate (Suc m) ds) (registerRow (m, d) t)) p
        = Some (Suc m + k)"
      by (intro Cons.IH) auto
    with Suc show ?thesis by simp
  qed
qed

lemma kIsa_slots_distinct: "distinct (concat (map rowSlots kIsa))"
  unfolding kIsa_rows append_Cons append_Nil isaRow_def rowSlots_def by simp

lemma kIsa_rows_ok: "list_all rowOk kIsa"
  unfolding kIsa_rows append_Cons append_Nil isaRow_def rowOk_def by simp

lemma slotOf_buildTables:
  assumes "fst p < 8"
  shows "slotOf buildTables p = Some n \<longleftrightarrow> n < kIsaCount \<and> p \<in> set (rowSlots (kIsa ! n))"
proof
  assume *: "slotOf buildTables p = Some n"
  show "n < kIsaCount \<and> p \<in> set (rowSlots (kIsa ! n))"
  proof (cases "\<exists>j < length kIsa. p \<in> set (rowSlots (kIsa ! j))")
    case True
    then obtain j where j: "j < length kIsa" "p \<in> set (rowSlots (kIsa ! j))" by blast
    then have "slotOf buildTables p = Some (0 + j)"
      unfolding buildTables_def by (intro slotOf_fold_Some assms kIsa_slots_distinct)
    with * j show ?thesis by (simp add: kIsaCount_def)
  next
    case False
    then have "\<forall>d \<in> set kIsa. p \<notin> set (rowSlots d)"
      by (metis in_set_conv_nth)
    then have "slotOf buildTables p = slotOf emptyTables p"
      unfolding buildTables_def by (intro slotOf_fold_None assms)
    with * show ?thesis by (cases p) (simp add: emptyTables_def split: if_splits)
  qed
next
  assume "n < kIsaCount \<and> p \<in> set (rowSlots (kIsa ! n))"
  then have "slotOf buildTables p = Some (0 + n)"
    unfolding buildTables_def kIsaCount_def
    by (intro slotOf_fold_Some assms kIsa_slots_distinct) auto
  then show "slotOf buildTables p = Some n" by simp
qed

lemmas table_lookups =
  slotOf_buildTables [of "(0, k)" for k, simplified] slotOf_buildTables [of "(1, k)" for k, simplified]
  slotOf_buildTables [of "(2, k)" for k, simplified] slotOf_buildTables [of "(3, k)" for k, simplified]
  slotOf_buildTables [of "(4, k)" for k, simplified] slotOf_buildTables [of "(5, k)" for k, simplified]
  slotOf_buildTables [of "(6, k)" for k, simplified] slotOf_buildTables [of "(7, k)" for k, simplified]

lemma unat_field_mod:
  assumes "hi \<le> hi'" "hi' \<le> lo" "lo \<le> 31"
  shows "unat (ppcbits i hi' lo) = unat (ppcbits i hi lo) mod 2 ^ (lo - hi' + 1)"
proof -
  have "ppcbits i hi' lo = take_bit (lo - hi' + 1) (ppcbits i hi lo)"
    by (rule word_eq32I) (use assms in \<open>auto simp: bit_ppcbits bit_take_bit_iff\<close>)
  then show ?thesis
    by (simp only: unsigned_take_bit_eq) (simp only: take_bit_eq_mod)
qed

lemma xo5_of_xo10: "unat (f_xo5 i) = unat (f_xo10 i) mod 32"
  using unat_field_mod [of 21 26 30 i] by (simp add: field_defs)

lemma xo6_of_xo11: "unat (f_xo6v i) = unat (f_xo11v i) mod 64"
  using unat_field_mod [of 21 26 31 i] by (simp add: field_defs)

lemma rowOk_nth: "n < kIsaCount \<Longrightarrow> rowOk (kIsa ! n)"
  using kIsa_rows_ok by (simp add: list_all_length kIsaCount_def)

lemma va_slot_None: "unat (f_xo6v i) < 32 \<Longrightarrow> t_va buildTables (unat (f_xo6v i)) = None"
proof (rule ccontr)
  assume lt: "unat (f_xo6v i) < 32" and "t_va buildTables (unat (f_xo6v i)) \<noteq> None"
  then obtain n where "t_va buildTables (unat (f_xo6v i)) = Some n" by blast
  then have "n < kIsaCount" "(6, unat (f_xo6v i)) \<in> set (rowSlots (kIsa ! n))"
    by (simp_all add: table_lookups)
  with rowOk_nth [of n] lt show False
    by (auto simp: rowSlots_def rowOk_def split: Xk.splits if_splits)
qed

lemma decode_matches:
  assumes "decode i = Some n"
  shows "n < kIsaCount \<and> matches (kIsa ! n) i"
proof -
  have cnt: "n < kIsaCount"
    using assms by (auto simp: decode_def Let_def table_lookups split: if_splits option.splits)
  show ?thesis
    using assms rowOk_nth [OF cnt]
    by (auto simp: decode_def Let_def table_lookups matches_def rowSlots_def rowOk_def
        split: if_splits option.splits Xk.splits)
qed

lemma matches_decode:
  assumes cnt: "n < kIsaCount" and m: "matches (kIsa ! n) i"
  shows "decode i = Some n"
proof -
  have va: "xkind (kIsa ! n) = Xk_VX4 \<or> xkind (kIsa ! n) = Xk_VXR4 \<Longrightarrow>
      t_va buildTables (unat (f_xo6v i)) = None"
    using m rowOk_nth [OF cnt]
    by (intro va_slot_None) (auto simp: matches_def rowOk_def xo6_of_xo11 mod_add_eq [symmetric])
  have vs: "xkind (kIsa ! n) = Xk_VA4 \<Longrightarrow> t_va buildTables (xo (kIsa ! n)) = Some n"
    by (simp add: table_lookups rowSlots_def cnt)
  show ?thesis
  proof (cases "xkind (kIsa ! n) = Xk_VA4")
    case True
    with m rowOk_nth [OF cnt] vs show ?thesis
      by (simp add: decode_def Let_def matches_def rowOk_def)
  next
    case False
    with m rowOk_nth [OF cnt] cnt va show ?thesis
      by (cases "xkind (kIsa ! n)")
         (auto simp: decode_def Let_def table_lookups matches_def rowSlots_def rowOk_def xo5_of_xo10)
  qed
qed

text \<open>
  C20. The dispatch tables agree with the instruction listing: a word decodes to row \<open>n\<close>
  exactly when row \<open>n\<close> of the table matches its opcode fields. So every listed
  instruction is reachable (none is shadowed by another table or by a colliding slot),
  no word decodes to a row it does not encode, and a word that no row matches is
  illegal.
\<close>

theorem decode_iff_matches: "decode i = Some n \<longleftrightarrow> n < kIsaCount \<and> matches (kIsa ! n) i"
  using decode_matches matches_decode by blast

lemma decode_bound: "decode i = Some n \<Longrightarrow> n < kIsaCount"
  using decode_matches by blast

lemma kIsaCount_value: "kIsaCount = 347"
  by (simp add: kIsaCount_def kIsa_rows)

end
