(* ===== verification/CpuState.thy ===== *)
theory CpuState
  imports Isa
begin

text \<open>
  The processor's data: \<^verbatim>\<open>CpuState\<close> and \<^verbatim>\<open>Cpu\<close> of \<^verbatim>\<open>core/include/opm/cpu.hpp\<close>, the
  \<^verbatim>\<open>Bus\<close> interface of \<^verbatim>\<open>core/include/opm/bus.hpp\<close>, and the register helpers the
  executors share.

  Arrays are functions from the index the code computes (a \<^typ>\<open>u32\<close>); the bounds
  theorems say that no operation changes an element outside the declared size.
  The bus is an object of an abstract class: \<open>'b\<close> is its state and \<^verbatim>\<open>bus_vt\<close> its
  virtual functions. Every virtual function is handed the clock that
  \<^verbatim>\<open>Bus::deviceNow\<close> would answer with and says whether it asked for it, because
  asking ends the running batch (\<^verbatim>\<open>Cpu::attach\<close>).
\<close>

section \<open>Architected state\<close>

record cpu_state =
  gpr :: "u32 \<Rightarrow> u32"
  fpr :: "u32 \<Rightarrow> u64"
  vr :: "u32 \<Rightarrow> u32 \<Rightarrow> u8"
  pc :: u32
  cr :: u32
  xer :: u32
  lr :: u32
  ctr :: u32
  msr :: u32
  fpscr :: u32
  vscr :: u32
  vrsave :: u32
  srr0 :: u32
  srr1 :: u32
  sprg :: "u32 \<Rightarrow> u32"
  dar :: u32
  dsisr :: u32
  sdr1 :: u32
  ear :: u32
  pir :: u32
  sr :: "u32 \<Rightarrow> u32"
  ibatu :: "u32 \<Rightarrow> u32"
  ibatl :: "u32 \<Rightarrow> u32"
  dbatu :: "u32 \<Rightarrow> u32"
  dbatl :: "u32 \<Rightarrow> u32"
  hid0 :: u32
  hid1 :: u32
  msscr0 :: u32
  msscr1 :: u32
  l2cr :: u32
  ictc :: u32
  thrm :: "u32 \<Rightarrow> u32"
  iabr :: u32
  dabr :: u32
  bamr :: u32
  mmcr0 :: u32
  mmcr1 :: u32
  pmc :: "u32 \<Rightarrow> u32"
  siar :: u32
  sdar :: u32
  tb :: u64
  dec :: u32
  pvr :: u32
  resvValid :: bool
  resvAddr :: u32

definition initState :: cpu_state where
  "initState = \<lparr>gpr = (\<lambda>_. 0), fpr = (\<lambda>_. 0), vr = (\<lambda>_ _. 0), pc = 0xFFF00100, cr = 0, xer = 0,
     lr = 0, ctr = 0, msr = 0x40, fpscr = 0, vscr = 0, vrsave = 0, srr0 = 0, srr1 = 0,
     sprg = (\<lambda>_. 0), dar = 0, dsisr = 0, sdr1 = 0, ear = 0, pir = 0, sr = (\<lambda>_. 0),
     ibatu = (\<lambda>_. 0), ibatl = (\<lambda>_. 0), dbatu = (\<lambda>_. 0), dbatl = (\<lambda>_. 0),
     hid0 = 0, hid1 = 0, msscr0 = 0x00400000, msscr1 = 0, l2cr = 0, ictc = 0, thrm = (\<lambda>_. 0),
     iabr = 0, dabr = 0, bamr = 0, mmcr0 = 0, mmcr1 = 0, pmc = (\<lambda>_. 0), siar = 0, sdar = 0,
     tb = 0, dec = 0xFFFFFFFF, pvr = 0x000C0209, resvValid = False, resvAddr = 0\<rparr>"

text \<open>MSR masks.\<close>

abbreviation (input) MSR_VEC :: u32 where "MSR_VEC \<equiv> 0x02000000"
abbreviation (input) MSR_POW :: u32 where "MSR_POW \<equiv> 0x00040000"
abbreviation (input) MSR_ILE :: u32 where "MSR_ILE \<equiv> 0x00010000"
abbreviation (input) MSR_EE :: u32 where "MSR_EE \<equiv> 0x00008000"
abbreviation (input) MSR_PR :: u32 where "MSR_PR \<equiv> 0x00004000"
abbreviation (input) MSR_FP :: u32 where "MSR_FP \<equiv> 0x00002000"
abbreviation (input) MSR_ME :: u32 where "MSR_ME \<equiv> 0x00001000"
abbreviation (input) MSR_FE0 :: u32 where "MSR_FE0 \<equiv> 0x00000800"
abbreviation (input) MSR_SE :: u32 where "MSR_SE \<equiv> 0x00000400"
abbreviation (input) MSR_BE :: u32 where "MSR_BE \<equiv> 0x00000200"
abbreviation (input) MSR_FE1 :: u32 where "MSR_FE1 \<equiv> 0x00000100"
abbreviation (input) MSR_IP :: u32 where "MSR_IP \<equiv> 0x00000040"
abbreviation (input) MSR_IR :: u32 where "MSR_IR \<equiv> 0x00000020"
abbreviation (input) MSR_DR :: u32 where "MSR_DR \<equiv> 0x00000010"
abbreviation (input) MSR_PM :: u32 where "MSR_PM \<equiv> 0x00000004"
abbreviation (input) MSR_RI :: u32 where "MSR_RI \<equiv> 0x00000002"
abbreviation (input) MSR_LE :: u32 where "MSR_LE \<equiv> 0x00000001"

definition MSR_VALID :: u32 where
  "MSR_VALID = MSR_VEC OR MSR_POW OR MSR_ILE OR MSR_EE OR MSR_PR OR MSR_FP OR MSR_ME OR MSR_FE0
     OR MSR_SE OR MSR_BE OR MSR_FE1 OR MSR_IP OR MSR_IR OR MSR_DR OR MSR_PM OR MSR_RI OR MSR_LE"

datatype exc =
    SystemReset | MachineCheck | Dsi | Isi | External | Alignment | Program | FpUnavailable
  | Decrementer | SystemCall | Trace | PerfMon | VecUnavailable | Iabr | Smi | VecAssist | Thermal

fun excVec :: "exc \<Rightarrow> u32" where
  "excVec SystemReset = 0x00100"
| "excVec MachineCheck = 0x00200"
| "excVec Dsi = 0x00300"
| "excVec Isi = 0x00400"
| "excVec External = 0x00500"
| "excVec Alignment = 0x00600"
| "excVec Program = 0x00700"
| "excVec FpUnavailable = 0x00800"
| "excVec Decrementer = 0x00900"
| "excVec SystemCall = 0x00C00"
| "excVec Trace = 0x00D00"
| "excVec PerfMon = 0x00F00"
| "excVec VecUnavailable = 0x00F20"
| "excVec Iabr = 0x01300"
| "excVec Smi = 0x01400"
| "excVec VecAssist = 0x01600"
| "excVec Thermal = 0x01700"

abbreviation (input) kSrr1ProgFpEnabled :: u32 where "kSrr1ProgFpEnabled \<equiv> 0x00100000"
abbreviation (input) kSrr1ProgIllegal :: u32 where "kSrr1ProgIllegal \<equiv> 0x00080000"
abbreviation (input) kSrr1ProgPrivileged :: u32 where "kSrr1ProgPrivileged \<equiv> 0x00040000"
abbreviation (input) kSrr1ProgTrap :: u32 where "kSrr1ProgTrap \<equiv> 0x00020000"

section \<open>The bus interface\<close>

record 'b bus_vt =
  vread8 :: "u64 \<Rightarrow> u32 \<Rightarrow> 'b \<Rightarrow> u8 \<times> bool \<times> 'b"
  vread16 :: "u64 \<Rightarrow> u32 \<Rightarrow> 'b \<Rightarrow> u16 \<times> bool \<times> 'b"
  vread32 :: "u64 \<Rightarrow> u32 \<Rightarrow> 'b \<Rightarrow> u32 \<times> bool \<times> 'b"
  vread64 :: "u64 \<Rightarrow> u32 \<Rightarrow> 'b \<Rightarrow> u64 \<times> bool \<times> 'b"
  vwrite8 :: "u64 \<Rightarrow> u32 \<Rightarrow> u8 \<Rightarrow> 'b \<Rightarrow> unit \<times> bool \<times> 'b"
  vwrite16 :: "u64 \<Rightarrow> u32 \<Rightarrow> u16 \<Rightarrow> 'b \<Rightarrow> unit \<times> bool \<times> 'b"
  vwrite32 :: "u64 \<Rightarrow> u32 \<Rightarrow> u32 \<Rightarrow> 'b \<Rightarrow> unit \<times> bool \<times> 'b"
  vwrite64 :: "u64 \<Rightarrow> u32 \<Rightarrow> u64 \<Rightarrow> 'b \<Rightarrow> unit \<times> bool \<times> 'b"
  vmemoryAt :: "u32 \<Rightarrow> u32 \<Rightarrow> 'b \<Rightarrow> bool"
  vreadLine32 :: "u64 \<Rightarrow> u32 \<Rightarrow> 'b \<Rightarrow> (u32 \<Rightarrow> u8) \<times> bool \<times> 'b"
  vwriteLine32 :: "u64 \<Rightarrow> u32 \<Rightarrow> (u32 \<Rightarrow> u8) \<Rightarrow> 'b \<Rightarrow> unit \<times> bool \<times> 'b"

text \<open>The default burst transactions: eight word accesses, in ascending order.\<close>

fun busReadLineWords ::
  "(u32 \<Rightarrow> 'b \<Rightarrow> u32 \<times> bool \<times> 'b) \<Rightarrow> u32 \<Rightarrow> u32 list \<Rightarrow> (u32 \<Rightarrow> u8) \<Rightarrow> bool \<Rightarrow> 'b
    \<Rightarrow> (u32 \<Rightarrow> u8) \<times> bool \<times> 'b" where
  "busReadLineWords rd pa [] out asked b = (out, asked, b)"
| "busReadLineWords rd pa (k # ks) out asked b =
     (case rd (pa + k) b of (w, a, b') \<Rightarrow>
        busReadLineWords rd pa ks
          (out(k := ucast (drop_bit 24 w), k + 1 := ucast (drop_bit 16 w),
               k + 2 := ucast (drop_bit 8 w), k + 3 := ucast w)) (asked \<or> a) b')"

definition busReadLine32 ::
  "(u32 \<Rightarrow> 'b \<Rightarrow> u32 \<times> bool \<times> 'b) \<Rightarrow> u32 \<Rightarrow> 'b \<Rightarrow> (u32 \<Rightarrow> u8) \<times> bool \<times> 'b" where
  "busReadLine32 rd pa b = busReadLineWords rd pa [0, 4, 8, 12, 16, 20, 24, 28] (\<lambda>_. 0) False b"

fun busWriteLineWords ::
  "(u32 \<Rightarrow> u32 \<Rightarrow> 'b \<Rightarrow> unit \<times> bool \<times> 'b) \<Rightarrow> u32 \<Rightarrow> (u32 \<Rightarrow> u8) \<Rightarrow> u32 list \<Rightarrow> bool \<Rightarrow> 'b
    \<Rightarrow> unit \<times> bool \<times> 'b" where
  "busWriteLineWords wr pa bs [] asked b = ((), asked, b)"
| "busWriteLineWords wr pa bs (k # ks) asked b =
     (case wr (pa + k) (push_bit 24 (ucast (bs k)) OR push_bit 16 (ucast (bs (k + 1)))
                         OR push_bit 8 (ucast (bs (k + 2))) OR ucast (bs (k + 3))) b of
        (_, a, b') \<Rightarrow> busWriteLineWords wr pa bs ks (asked \<or> a) b')"

definition busWriteLine32 ::
  "(u32 \<Rightarrow> u32 \<Rightarrow> 'b \<Rightarrow> unit \<times> bool \<times> 'b) \<Rightarrow> u32 \<Rightarrow> (u32 \<Rightarrow> u8) \<Rightarrow> 'b \<Rightarrow> unit \<times> bool \<times> 'b" where
  "busWriteLine32 wr pa bs b = busWriteLineWords wr pa bs [0, 4, 8, 12, 16, 20, 24, 28] False b"

section \<open>Micro-architectural state\<close>

record tlb_entry =
  tlbV :: bool
  tlbC :: bool
  tlbVsid :: u32
  tlbPi :: u32
  tlbRpn :: u32
  tlbWimg :: u32
  tlbPp :: u32

definition emptyTlb :: tlb_entry where
  "emptyTlb = \<lparr>tlbV = False, tlbC = False, tlbVsid = 0, tlbPi = 0, tlbRpn = 0, tlbWimg = 0, tlbPp = 0\<rparr>"

record dline =
  dlB :: "u32 \<Rightarrow> u8"
  dlD :: bool

record didx =
  dxTv :: "u32 \<Rightarrow> u32"
  dxAge :: "u32 \<Rightarrow> u32"

record l2_line =
  l2V :: bool
  l2D :: bool
  l2Tag :: u32
  l2Age :: u32
  l2B :: "u32 \<Rightarrow> u8"

definition emptyL2Line :: l2_line where
  "emptyL2Line = \<lparr>l2V = False, l2D = False, l2Tag = 0, l2Age = 0, l2B = (\<lambda>_. 0)\<rparr>"

record fetch_line =
  flBase :: u32
  flRow :: "u32 \<Rightarrow> u16"
  flW :: "u32 \<Rightarrow> u32"

abbreviation (input) kNoRow :: u32 where "kNoRow \<equiv> 0xFFFF"
abbreviation (input) kFetchLines :: u32 where "kFetchLines \<equiv> 4096"
abbreviation (input) kExcRing :: u64 where "kExcRing \<equiv> 32"

section \<open>Instruments\<close>

record exc_rec =
  erVec :: u32
  erSrr0 :: u32
  erSrr1 :: u32
  erDar :: u32
  erDsisr :: u32
  erR0 :: u32
  erLr :: u32
  erTb :: u64

record wp_hit =
  whPc :: u32
  whPa :: u32
  whVal :: u32
  whLen :: u32
  whLr :: u32
  whTb :: u64
  whAt :: u64
  whR24 :: u32
  whDec :: u64
  whExt :: u64

record dec_site =
  dsHits :: u64
  dsLastVal :: u32
  dsLastLr :: u32
  dsLastR24 :: u32

record instruments =
  unimplemented :: "(string \<times> u64) list"
  unknownWords :: "(u32 \<times> u64) list"
  decWrites :: u64
  decIrqs :: u64
  extIrqs :: u64
  decLastWrite :: u32
  decLastWriteTb :: u64
  decMinPeriod :: u64
  decByPc :: "(u32 \<times> dec_site) list"
  excRing :: "u64 \<Rightarrow> exc_rec"
  excRingAt :: u64
  excByVec :: "u32 \<Rightarrow> u64"
  wpPa :: u32
  wpEnd :: u32
  wpLog :: "wp_hit list"
  wpMax :: u32
  wpByPa :: "(u32 \<times> u64 \<times> u32) list"
  wpByPc :: "(u32 \<times> u64) list"
  wpHits :: u64
  wpForce :: u32
  wpForceSet :: bool
  rpPa :: u32
  rpEnd :: u32
  rpHits :: u64
  rpByPc :: "(u32 \<times> u64) list"
  rpByLr :: "(u32 \<times> u64) list"
  l2SkewR :: u64
  l2SkewW :: u64
  l2SkewByPc :: "(u32 \<times> u64) list"
  napSkipped :: u64

section \<open>The processor\<close>

record 'b cpu =
  st :: cpu_state
  busVt :: "'b bus_vt"
  busSt :: 'b
  extIrqLine :: bool
  smiPending :: bool
  decPending :: bool
  pmPending :: bool
  raisedThisStep :: bool
  napping :: bool
  curInsn :: u32
  cycleAccum :: u32
  cyclesPerTbTick :: u32
  extraCycles :: u32
  insnCycles :: u32
  tbDivSeen :: u32
  tbShift :: u32
  pendCycles :: u64
  batching :: bool
  batchBreak :: bool
  halted :: bool
  haltReason :: string
  itlb :: "u32 \<Rightarrow> u32 \<Rightarrow> tlb_entry"
  dtlb :: "u32 \<Rightarrow> u32 \<Rightarrow> tlb_entry"
  itlbLru :: "u32 \<Rightarrow> u8"
  dtlbLru :: "u32 \<Rightarrow> u8"
  mmuProbe :: bool
  realModeInhibitBase :: u32
  l1x :: "u32 \<Rightarrow> didx"
  l1d :: "u32 \<Rightarrow> u32 \<Rightarrow> dline"
  l1dClock :: u32
  fetchLine :: "u32 \<Rightarrow> fetch_line"
  mmuGen :: u64
  xlGen :: u64
  xlPage :: u32
  xlPa :: u32
  xlMsr :: u32
  xlSr :: u32
  dxlGen :: "bool \<Rightarrow> u64"
  dxlPage :: "bool \<Rightarrow> u32"
  dxlPa :: "bool \<Rightarrow> u32"
  dxlMsr :: "bool \<Rightarrow> u32"
  dxlSr :: "bool \<Rightarrow> u32"
  dxlWimg :: "bool \<Rightarrow> u32"
  fetchCacheOff :: bool
  dxlCacheOff :: bool
  lineExecOff :: bool
  jitOn :: bool
  l2 :: "l2_line list"
  l2Sets :: u32
  l2Clock :: u32
  l2SetsSeen :: u32
  l2SetMask :: u32
  l2Inert :: bool
  ins :: instruments

definition initInstruments :: instruments where
  "initInstruments = \<lparr>unimplemented = [], unknownWords = [], decWrites = 0, decIrqs = 0, extIrqs = 0,
     decLastWrite = 0, decLastWriteTb = 0, decMinPeriod = - 1, decByPc = [],
     excRing = (\<lambda>_. \<lparr>erVec = 0, erSrr0 = 0, erSrr1 = 0, erDar = 0, erDsisr = 0, erR0 = 0, erLr = 0, erTb = 0\<rparr>),
     excRingAt = 0, excByVec = (\<lambda>_. 0), wpPa = 0, wpEnd = 0, wpLog = [], wpMax = 64, wpByPa = [],
     wpByPc = [], wpHits = 0, wpForce = 0, wpForceSet = False, rpPa = 0, rpEnd = 0, rpHits = 0,
     rpByPc = [], rpByLr = [], l2SkewR = 0, l2SkewW = 0, l2SkewByPc = [], napSkipped = 0\<rparr>"

definition initCpu :: "'b bus_vt \<Rightarrow> 'b \<Rightarrow> 'b cpu" where
  "initCpu vt b = \<lparr>st = initState, busVt = vt, busSt = b, extIrqLine = False, smiPending = False,
     decPending = False, pmPending = False, raisedThisStep = False, napping = False, curInsn = 0,
     cycleAccum = 0, cyclesPerTbTick = 4, extraCycles = 0, insnCycles = 1, tbDivSeen = 0, tbShift = 0,
     pendCycles = 0, batching = False, batchBreak = False, halted = False, haltReason = [],
     itlb = (\<lambda>_ _. emptyTlb), dtlb = (\<lambda>_ _. emptyTlb), itlbLru = (\<lambda>_. 0), dtlbLru = (\<lambda>_. 0),
     mmuProbe = False, realModeInhibitBase = 0,
     l1x = (\<lambda>_. \<lparr>dxTv = (\<lambda>_. 0), dxAge = (\<lambda>_. 0)\<rparr>), l1d = (\<lambda>_ _. \<lparr>dlB = (\<lambda>_. 0), dlD = False\<rparr>),
     l1dClock = 0, fetchLine = (\<lambda>_. \<lparr>flBase = 1, flRow = (\<lambda>_. 0xFFFF), flW = (\<lambda>_. 0)\<rparr>),
     mmuGen = 0, xlGen = - 1, xlPage = 0, xlPa = 0, xlMsr = 0, xlSr = 0,
     dxlGen = (\<lambda>_. - 1), dxlPage = (\<lambda>_. 0), dxlPa = (\<lambda>_. 0), dxlMsr = (\<lambda>_. 0), dxlSr = (\<lambda>_. 0),
     dxlWimg = (\<lambda>_. 0), fetchCacheOff = False, dxlCacheOff = False, lineExecOff = False, jitOn = True,
     l2 = [], l2Sets = 0, l2Clock = 0, l2SetsSeen = 0, l2SetMask = 0, l2Inert = False,
     ins = initInstruments\<rparr>"

section \<open>Register access\<close>

abbreviation setGpr :: "u32 \<Rightarrow> u32 \<Rightarrow> 'b cpu \<Rightarrow> 'b cpu" where
  "setGpr r v \<equiv> st_update (gpr_update (\<lambda>g. g(r := v)))"

abbreviation setFpr :: "u32 \<Rightarrow> u64 \<Rightarrow> 'b cpu \<Rightarrow> 'b cpu" where
  "setFpr r v \<equiv> st_update (fpr_update (\<lambda>g. g(r := v)))"

abbreviation setPc :: "u32 \<Rightarrow> 'b cpu \<Rightarrow> 'b cpu" where
  "setPc v \<equiv> st_update (pc_update (\<lambda>_. v))"

abbreviation setMsr :: "u32 \<Rightarrow> 'b cpu \<Rightarrow> 'b cpu" where
  "setMsr v \<equiv> st_update (msr_update (\<lambda>_. v))"

definition userMode :: "'b cpu \<Rightarrow> bool" where
  "userMode c \<longleftrightarrow> msr (st c) AND MSR_PR \<noteq> 0"

definition soBit :: "'b cpu \<Rightarrow> u32" where
  "soBit c = drop_bit 31 (xer (st c)) AND 1"

definition setCr0 :: "u32 \<Rightarrow> 'b cpu \<Rightarrow> 'b cpu" where
  "setCr0 val c =
     (let f = (if val <s 0 then 8 else if 0 <s val then 4 else 2) OR soBit c
      in st_update (cr_update (\<lambda>x. (x AND 0x0FFFFFFF) OR push_bit 28 f)) c)"

definition setCrField :: "u32 \<Rightarrow> u32 \<Rightarrow> 'b cpu \<Rightarrow> 'b cpu" where
  "setCrField field nibble =
     (let sh = unat ((7 - field) * 4)
      in st_update (cr_update (\<lambda>x. (x AND NOT (push_bit sh 0xF)) OR push_bit sh (nibble AND 0xF))))"

definition crField :: "'b cpu \<Rightarrow> u32 \<Rightarrow> u32" where
  "crField c field = drop_bit (unat ((7 - field) * 4)) (cr (st c)) AND 0xF"

definition setCa :: "bool \<Rightarrow> 'b cpu \<Rightarrow> 'b cpu" where
  "setCa ca = st_update (xer_update (\<lambda>x. if ca then x OR 0x20000000 else x AND NOT 0x20000000))"

definition ca :: "'b cpu \<Rightarrow> bool" where
  "ca c \<longleftrightarrow> xer (st c) AND 0x20000000 \<noteq> 0"

definition setOv :: "bool \<Rightarrow> 'b cpu \<Rightarrow> 'b cpu" where
  "setOv ov = st_update (xer_update (\<lambda>x. if ov then x OR 0xC0000000 else x AND NOT 0x40000000))"

section \<open>The fetch block buffer's invalidation\<close>

definition fetchSlot :: "u32 \<Rightarrow> u32" where
  "fetchSlot pa = drop_bit 5 pa AND (kFetchLines - 1)"

definition fetchDrop :: "'b cpu \<Rightarrow> 'b cpu" where
  "fetchDrop = fetchLine_update (\<lambda>f i. if i < kFetchLines then (f i)\<lparr>flBase := 1\<rparr> else f i)"

definition fetchDropAt :: "u32 \<Rightarrow> 'b cpu \<Rightarrow> 'b cpu" where
  "fetchDropAt pa c =
     (if flBase (fetchLine c (fetchSlot pa)) = pa AND NOT 31
      then fetchLine_update (\<lambda>f. f(fetchSlot pa := (f (fetchSlot pa))\<lparr>flBase := 1\<rparr>)) c
      else c)"

definition fetchDropRange :: "u32 \<Rightarrow> u32 \<Rightarrow> 'b cpu \<Rightarrow> 'b cpu" where
  "fetchDropRange pa len c =
     (let c1 = fetchDropAt pa c
      in if (pa XOR (pa + len - 1)) AND NOT 31 \<noteq> 0 then fetchDropAt (pa + len - 1) c1 else c1)"

definition fetchBlockFast :: "u32 \<Rightarrow> 'b cpu \<Rightarrow> (u32 \<times> u32) option" where
  "fetchBlockFast ea0 c =
     (if fetchCacheOff c then None
      else let ea = (if msr (st c) AND MSR_LE \<noteq> 0 then ea0 XOR 4 else ea0) in
        if xlGen c \<noteq> mmuGen c \<or> xlPage c \<noteq> drop_bit 12 ea
           \<or> xlMsr c \<noteq> msr (st c) AND (MSR_IR OR MSR_PR OR MSR_LE)
           \<or> xlSr c \<noteq> sr (st c) (drop_bit 28 ea)
        then None
        else let pa = xlPa c OR (ea AND 0xFFF) in
          if flBase (fetchLine c (fetchSlot pa)) \<noteq> pa AND NOT 31 then None
          else Some (fetchSlot pa, drop_bit 2 pa AND 7))"

section \<open>The clock as seen from a device\<close>

definition tbNow :: "'b cpu \<Rightarrow> u64" where
  "tbNow c =
     (if pendCycles c = 0 \<or> cyclesPerTbTick c = 0 then tb (st c)
      else tb (st c) + (ucast (cycleAccum c) + pendCycles c) div ucast (cyclesPerTbTick c))"

text \<open>
  One bus transaction: the device may ask what time it is, which ends the batch.
\<close>

definition busDo :: "(u64 \<Rightarrow> 'b \<Rightarrow> 'r \<times> bool \<times> 'b) \<Rightarrow> 'b cpu \<Rightarrow> 'r \<times> 'b cpu" where
  "busDo f c =
     (case f (tbNow c) (busSt c) of
        (r, asked, b) \<Rightarrow> (r, c\<lparr>busSt := b, batchBreak := batchBreak c \<or> asked\<rparr>))"

definition busRead8 :: "u32 \<Rightarrow> 'b cpu \<Rightarrow> u8 \<times> 'b cpu" where
  "busRead8 pa c = busDo (\<lambda>t. vread8 (busVt c) t pa) c"
definition busRead16 :: "u32 \<Rightarrow> 'b cpu \<Rightarrow> u16 \<times> 'b cpu" where
  "busRead16 pa c = busDo (\<lambda>t. vread16 (busVt c) t pa) c"
definition busRead32 :: "u32 \<Rightarrow> 'b cpu \<Rightarrow> u32 \<times> 'b cpu" where
  "busRead32 pa c = busDo (\<lambda>t. vread32 (busVt c) t pa) c"
definition busRead64 :: "u32 \<Rightarrow> 'b cpu \<Rightarrow> u64 \<times> 'b cpu" where
  "busRead64 pa c = busDo (\<lambda>t. vread64 (busVt c) t pa) c"
definition busReadLine :: "u32 \<Rightarrow> 'b cpu \<Rightarrow> (u32 \<Rightarrow> u8) \<times> 'b cpu" where
  "busReadLine pa c = busDo (\<lambda>t. vreadLine32 (busVt c) t pa) c"
definition busWrite8 :: "u32 \<Rightarrow> u8 \<Rightarrow> 'b cpu \<Rightarrow> 'b cpu" where
  "busWrite8 pa v c = snd (busDo (\<lambda>t. vwrite8 (busVt c) t pa v) c)"
definition busWrite16 :: "u32 \<Rightarrow> u16 \<Rightarrow> 'b cpu \<Rightarrow> 'b cpu" where
  "busWrite16 pa v c = snd (busDo (\<lambda>t. vwrite16 (busVt c) t pa v) c)"
definition busWrite32 :: "u32 \<Rightarrow> u32 \<Rightarrow> 'b cpu \<Rightarrow> 'b cpu" where
  "busWrite32 pa v c = snd (busDo (\<lambda>t. vwrite32 (busVt c) t pa v) c)"
definition busWrite64 :: "u32 \<Rightarrow> u64 \<Rightarrow> 'b cpu \<Rightarrow> 'b cpu" where
  "busWrite64 pa v c = snd (busDo (\<lambda>t. vwrite64 (busVt c) t pa v) c)"
definition busWriteBurst :: "u32 \<Rightarrow> (u32 \<Rightarrow> u8) \<Rightarrow> 'b cpu \<Rightarrow> 'b cpu" where
  "busWriteBurst pa bs c = snd (busDo (\<lambda>t. vwriteLine32 (busVt c) t pa bs) c)"

lemmas bus_defs = busRead8_def busRead16_def busRead32_def busRead64_def busReadLine_def
  busWrite8_def busWrite16_def busWrite32_def busWrite64_def busWriteBurst_def

end
