(* ===== verification/MemBus.thy ===== *)
theory MemBus
  imports CpuState
begin

text \<open>
  The contract a bus owes the caches where it is plain memory: locale \<^verbatim>\<open>mem_bus\<close>. A
  bus gives a region, as the set of its 32-byte block addresses, a reading of its state as
  bytes, and an invariant. Bursts and single beats inside the region read and write those
  bytes, big-endian, as \<^verbatim>\<open>core/include/opm/bus.hpp\<close> documents for every implementation.
\<close>

section \<open>Blocks\<close>

definition blk :: "u32 \<Rightarrow> u32" where "blk a = a AND NOT 31"
definition off :: "u32 \<Rightarrow> u32" where "off a = a AND 31"

lemma mask5: "(31 :: u32) = mask 5" by (simp add: mask_eq_exp_minus_1)

lemma off_less [simp]: "off a < 32"
  unfolding off_def mask5 using and_mask_less [of 5 a] by simp

lemma blk_off: "blk a + off a = a"
  unfolding blk_def off_def
  by (subst disjunctive_add) (auto simp: bit_simps intro: bit_word_eqI)

lemma less32_bits: "(k :: u32) < 32 \<Longrightarrow> bit k n \<Longrightarrow> n < 5"
proof -
  assume k: "k < 32" and b: "bit k n"
  have "k AND mask 5 = k" using k by (simp add: less_mask_eq)
  with b show "n < 5" by (metis bit_and_iff bit_mask_iff)
qed

lemma aligned_bits:
  assumes "(p :: u32) AND 31 = 0" "n < 5"
  shows "\<not> bit p n"
proof -
  have "bit (p AND 31) n \<longleftrightarrow> bit p n"
    using assms(2) unfolding mask5 by (simp add: bit_simps)
  with assms(1) show ?thesis by simp
qed

lemma aligned_add:
  assumes "(p :: u32) AND 31 = 0" "k < 32"
  shows "p + k = p OR k"
  by (rule disjunctive_add) (use assms aligned_bits less32_bits in blast)

lemma blk_add:
  assumes "(p :: u32) AND 31 = 0" "k < 32"
  shows "blk (p + k) = p" "off (p + k) = k"
proof -
  have "bit (blk (p + k)) n \<longleftrightarrow> bit p n" "bit (off (p + k)) n \<longleftrightarrow> bit k n" if "n < 32" for n
    using that assms aligned_bits [OF assms(1), of n] less32_bits [OF assms(2), of n]
    unfolding blk_def off_def mask5 aligned_add [OF assms]
    by (auto simp: bit_simps)
  then show "blk (p + k) = p" "off (p + k) = k"
    by (auto intro: bit_word_eqI)
qed

lemma blk_aligned [simp]: "blk a AND 31 = 0"
  unfolding blk_def by (rule bit_word_eqI) (auto simp: bit_simps)

lemma blk_blk [simp]: "blk (blk a) = blk a"
  unfolding blk_def by (rule bit_word_eqI) (auto simp: bit_simps)

lemma blk_id: "p AND 31 = 0 \<Longrightarrow> blk p = p"
  using blk_add(1) [of p 0] by simp

lemma unat_blk_off: "unat (blk a) + unat (off a) = unat a"
proof -
  have "blk a \<le> blk a + off a"
    unfolding blk_off by (simp add: blk_def word_and_le2)
  then show ?thesis
    using unat_plus_simple [of "blk a" "off a"] by (simp add: blk_off)
qed

section \<open>Runs of addresses\<close>

definition addrs :: "u32 \<Rightarrow> nat \<Rightarrow> u32 list" where
  "addrs pa n = map (\<lambda>i. pa + of_nat i) [0..<n]"

text \<open>Memory after the big-endian image of \<open>v\<close> is stored in \<open>n\<close> bytes at \<open>pa\<close>.\<close>

definition storeBE :: "u32 \<Rightarrow> nat \<Rightarrow> u64 \<Rightarrow> (u32 \<Rightarrow> u8) \<Rightarrow> u32 \<Rightarrow> u8" where
  "storeBE pa n v m = (\<lambda>a. if unat (a - pa) < n then be_byte n v (unat (a - pa)) else m a)"

definition inMem :: "u32 set \<Rightarrow> u32 \<Rightarrow> nat \<Rightarrow> bool" where
  "inMem R pa n \<longleftrightarrow> (\<forall>a \<in> set (addrs pa n). blk a \<in> R)"

lemma length_addrs [simp]: "length (addrs pa n) = n"
  by (simp add: addrs_def)

lemma addrs_nth [simp]: "i < n \<Longrightarrow> addrs pa n ! i = pa + of_nat i"
  by (simp add: addrs_def)

lemma addrs_eqs:
  "addrs pa 1 = [pa]" "addrs pa 2 = [pa, pa + 1]" "addrs pa 4 = [pa, pa + 1, pa + 2, pa + 3]"
  "addrs pa 8 = [pa, pa + 1, pa + 2, pa + 3, pa + 4, pa + 5, pa + 6, pa + 7]"
  by (simp_all add: addrs_def upt_rec)

section \<open>Stores as updates\<close>

lemma word_eq_add_iff: "(a :: u32) = pa + of_nat n \<longleftrightarrow> unat (a - pa) = n" if "n < 2 ^ 32"
proof
  assume "unat (a - pa) = n"
  then have "of_nat n = a - pa" by (metis of_nat_unat ucast_id)
  then show "a = pa + of_nat n" by simp
next
  assume "a = pa + of_nat n"
  then have "a - pa = of_nat n" by simp
  then show "unat (a - pa) = n"
    using that by (simp add: unat_of_nat)
qed

lemma storeBE_fold:
  fixes pa :: u32 and f :: "nat \<Rightarrow> u8"
  assumes "n \<le> 2 ^ 32"
  shows "fold (\<lambda>i q. q(pa + of_nat i := f i)) [0..<n] m =
    (\<lambda>a. if unat (a - pa) < n then f (unat (a - pa)) else m a)"
  using assms
proof (induction n)
  case (Suc n)
  then show ?case
    by (auto simp: fun_eq_iff word_eq_add_iff less_Suc_eq)
qed simp

lemma storeBE_as_fold:
  "n \<le> 2 ^ 32 \<Longrightarrow> storeBE pa n v m = fold (\<lambda>i q. q(pa + of_nat i := be_byte n v i)) [0..<n] m"
  by (simp add: storeBE_fold storeBE_def)

lemma storeBE_unfold:
  "storeBE pa 1 v m = m(pa := be_byte 1 v 0)"
  "storeBE pa 2 v m = m(pa := be_byte 2 v 0, pa + 1 := be_byte 2 v 1)"
  "storeBE pa 4 v m = m(pa := be_byte 4 v 0, pa + 1 := be_byte 4 v 1,
     pa + 2 := be_byte 4 v 2, pa + 3 := be_byte 4 v 3)"
  "storeBE pa 8 v m = m(pa := be_byte 8 v 0, pa + 1 := be_byte 8 v 1,
     pa + 2 := be_byte 8 v 2, pa + 3 := be_byte 8 v 3, pa + 4 := be_byte 8 v 4,
     pa + 5 := be_byte 8 v 5, pa + 6 := be_byte 8 v 6, pa + 7 := be_byte 8 v 7)"
  by (simp_all add: storeBE_as_fold upt_rec)
    (simp_all add: eval_nat_numeral)

lemma inMem_split8: "inMem R pa 8 \<longleftrightarrow> inMem R pa 4 \<and> inMem R (pa + 4) 4"
  by (auto simp: inMem_def addrs_eqs add.assoc)

lemma be_byte_ucast32:
  "be_byte 4 (ucast (v :: u32)) 0 = ucast (drop_bit 24 v)" "be_byte 4 (ucast v) 1 = ucast (drop_bit 16 v)"
  "be_byte 4 (ucast v) 2 = ucast (drop_bit 8 v)" "be_byte 4 (ucast v) 3 = ucast v"
  unfolding be_byte_def by (auto intro!: bit_word_eqI simp: bit_simps)

lemma be_byte_ucast16:
  "be_byte 2 (ucast (v :: u16)) 0 = ucast (drop_bit 8 v)" "be_byte 2 (ucast v) 1 = ucast v"
  unfolding be_byte_def by (auto intro!: bit_word_eqI simp: bit_simps)

lemma be_byte_8_split:
  "be_byte 8 v 0 = be_byte 4 (ucast (ucast (drop_bit 32 v) :: u32)) 0"
  "be_byte 8 v 1 = be_byte 4 (ucast (ucast (drop_bit 32 v) :: u32)) 1"
  "be_byte 8 v 2 = be_byte 4 (ucast (ucast (drop_bit 32 v) :: u32)) 2"
  "be_byte 8 v 3 = be_byte 4 (ucast (ucast (drop_bit 32 v) :: u32)) 3"
  "be_byte 8 v 4 = be_byte 4 (ucast (ucast v :: u32)) 0"
  "be_byte 8 v 5 = be_byte 4 (ucast (ucast v :: u32)) 1"
  "be_byte 8 v 6 = be_byte 4 (ucast (ucast v :: u32)) 2"
  "be_byte 8 v 7 = be_byte 4 (ucast (ucast v :: u32)) 3"
  unfolding be_byte_def by (auto intro!: bit_word_eqI simp: bit_simps)

lemma be_byte_ucast8: "be_byte 1 (ucast (v :: u8)) 0 = v"
  unfolding be_byte_def by (auto intro!: bit_word_eqI simp: bit_simps)

lemma less32_cases:
  assumes "(k :: u32) < 32"
  shows "k \<in> set [0, 1, 2, 3, 4, 5, 6, 7, 8, 9, 10, 11, 12, 13, 14, 15,
    16, 17, 18, 19, 20, 21, 22, 23, 24, 25, 26, 27, 28, 29, 30, 31]"
proof -
  have "unat k \<in> set [0..<32]" using assms by (simp add: word_less_nat_alt)
  then have "k \<in> of_nat ` set [0..<32]"
    by (intro image_eqI [where x = "unat k"]) simp_all
  then show ?thesis by (simp add: upt_rec)
qed

definition putWords :: "u32 \<Rightarrow> (u32 \<Rightarrow> u8) \<Rightarrow> u32 list \<Rightarrow> (u32 \<Rightarrow> u8) \<Rightarrow> u32 \<Rightarrow> u8" where
  "putWords B bs ks m = fold (\<lambda>k q. q(B + k := bs k, B + (k + 1) := bs (k + 1),
     B + (k + 2) := bs (k + 2), B + (k + 3) := bs (k + 3))) ks m"

lemma putWords_block:
  assumes "B AND 31 = 0"
  shows "putWords B bs [0, 4, 8, 12, 16, 20, 24, 28] m = (\<lambda>a. if blk a = B then bs (off a) else m a)"
proof (rule ext)
  fix a
  show "putWords B bs [0, 4, 8, 12, 16, 20, 24, 28] m a = (if blk a = B then bs (off a) else m a)"
  proof (cases "blk a = B")
    case True
    then have a: "a = B + off a" using blk_off [of a] by simp
    have "putWords B bs [0, 4, 8, 12, 16, 20, 24, 28] m (B + k) = bs k" if "k < 32" for k
      using less32_cases [OF that] unfolding list.set
      by (elim insertE emptyE) (simp_all add: putWords_def)
    with a True show ?thesis by (metis off_less)
  next
    case False
    then have "a \<noteq> B" and "\<And>k. k < 32 \<Longrightarrow> a \<noteq> B + k"
      using blk_add(1) [OF assms] blk_id [OF assms] by auto
    with False show ?thesis by (simp add: putWords_def)
  qed
qed

section \<open>The contract\<close>

locale mem_bus =
  fixes vt :: "'b bus_vt"
    and mem :: "'b \<Rightarrow> u32 \<Rightarrow> u8"
    and good :: "'b \<Rightarrow> bool"
    and R :: "u32 set"
  assumes region_aligned: "B \<in> R \<Longrightarrow> B AND 31 = 0"
    and read_line: "\<lbrakk>good b; B \<in> R; vreadLine32 vt t B b = (bs, asked, b')\<rbrakk>
      \<Longrightarrow> good b' \<and> mem b' = mem b \<and> (\<forall>k < 32. bs k = mem b (B + k))"
    and write_line: "\<lbrakk>good b; B \<in> R; vwriteLine32 vt t B bs b = (u, asked, b')\<rbrakk>
      \<Longrightarrow> good b' \<and> mem b' = (\<lambda>a. if blk a = B then bs (off a) else mem b a)"
    and read_8: "\<lbrakk>good b; inMem R pa 1; vread8 vt t pa b = (v8, asked, b')\<rbrakk>
      \<Longrightarrow> good b' \<and> mem b' = mem b \<and> ucast v8 = be_bytes (map (mem b) (addrs pa 1))"
    and read_16: "\<lbrakk>good b; inMem R pa 2; vread16 vt t pa b = (v16, asked, b')\<rbrakk>
      \<Longrightarrow> good b' \<and> mem b' = mem b \<and> ucast v16 = be_bytes (map (mem b) (addrs pa 2))"
    and read_32: "\<lbrakk>good b; inMem R pa 4; vread32 vt t pa b = (v32, asked, b')\<rbrakk>
      \<Longrightarrow> good b' \<and> mem b' = mem b \<and> ucast v32 = be_bytes (map (mem b) (addrs pa 4))"
    and read_64: "\<lbrakk>good b; inMem R pa 8; vread64 vt t pa b = (v64, asked, b')\<rbrakk>
      \<Longrightarrow> good b' \<and> mem b' = mem b \<and> v64 = be_bytes (map (mem b) (addrs pa 8))"
    and write_8: "\<lbrakk>good b; inMem R pa 1; vwrite8 vt t pa v8 b = (u, asked, b')\<rbrakk>
      \<Longrightarrow> good b' \<and> mem b' = storeBE pa 1 (ucast v8) (mem b)"
    and write_16: "\<lbrakk>good b; inMem R pa 2; vwrite16 vt t pa v16 b = (u, asked, b')\<rbrakk>
      \<Longrightarrow> good b' \<and> mem b' = storeBE pa 2 (ucast v16) (mem b)"
    and write_32: "\<lbrakk>good b; inMem R pa 4; vwrite32 vt t pa v32 b = (u, asked, b')\<rbrakk>
      \<Longrightarrow> good b' \<and> mem b' = storeBE pa 4 (ucast v32) (mem b)"
    and write_64: "\<lbrakk>good b; inMem R pa 8; vwrite64 vt t pa v64 b = (u, asked, b')\<rbrakk>
      \<Longrightarrow> good b' \<and> mem b' = storeBE pa 8 v64 (mem b)"

end
