(* ===== verification/FlatBus.thy ===== *)
theory FlatBus
  imports MemBus
begin

text \<open>
  The concrete bus of the command line harness, \<^verbatim>\<open>FlatBus\<close> of
  \<^verbatim>\<open>tools/ppcrun/main.cpp\<close>, which is flat RAM with two console registers, and the proof
  that it keeps the contract \<^verbatim>\<open>mem_bus\<close> on its RAM.
\<close>

section \<open>FlatBus\<close>

record flat_bus =
  ram :: "u8 list"
  exited :: bool
  exitCode :: u32
  console :: "u8 list"

abbreviation (input) kMmioPutc :: u32 where "kMmioPutc \<equiv> 0xF0000000"
abbreviation (input) kMmioExit :: u32 where "kMmioExit \<equiv> 0xF0000004"

definition inRam :: "flat_bus \<Rightarrow> u32 \<Rightarrow> nat \<Rightarrow> bool" where
  "inRam b pa len \<longleftrightarrow> unat pa + len \<le> length (ram b)"

definition fbRead8 :: "u32 \<Rightarrow> flat_bus \<Rightarrow> u8" where
  "fbRead8 pa b = (if inRam b pa 1 then ram b ! unat pa else 0)"

definition fbRead16 :: "u32 \<Rightarrow> flat_bus \<Rightarrow> u16" where
  "fbRead16 pa b =
     (if \<not> inRam b pa 2 then 0
      else push_bit 8 (ucast (ram b ! unat pa)) OR ucast (ram b ! unat (pa + 1)))"

definition fbRead32 :: "u32 \<Rightarrow> flat_bus \<Rightarrow> u32" where
  "fbRead32 pa b =
     (if \<not> inRam b pa 4 then 0
      else push_bit 24 (ucast (ram b ! unat pa)) OR push_bit 16 (ucast (ram b ! unat (pa + 1)))
           OR push_bit 8 (ucast (ram b ! unat (pa + 2))) OR ucast (ram b ! unat (pa + 3)))"

definition fbRead64 :: "u32 \<Rightarrow> flat_bus \<Rightarrow> u64" where
  "fbRead64 pa b = push_bit 32 (ucast (fbRead32 pa b)) OR ucast (fbRead32 (pa + 4) b)"

definition fbWrite8 :: "u32 \<Rightarrow> u8 \<Rightarrow> flat_bus \<Rightarrow> flat_bus" where
  "fbWrite8 pa v b =
     (if pa = kMmioPutc then b\<lparr>console := console b @ [v]\<rparr>
      else if inRam b pa 1 then b\<lparr>ram := (ram b)[unat pa := v]\<rparr> else b)"

definition fbWrite16 :: "u32 \<Rightarrow> u16 \<Rightarrow> flat_bus \<Rightarrow> flat_bus" where
  "fbWrite16 pa v b =
     (if \<not> inRam b pa 2 then b
      else b\<lparr>ram := (ram b)[unat pa := ucast (drop_bit 8 v), unat (pa + 1) := ucast v]\<rparr>)"

definition fbWrite32 :: "u32 \<Rightarrow> u32 \<Rightarrow> flat_bus \<Rightarrow> flat_bus" where
  "fbWrite32 pa v b =
     (if pa = kMmioPutc then b\<lparr>console := console b @ [ucast (v AND 0xFF)]\<rparr>
      else if pa = kMmioExit then b\<lparr>exited := True, exitCode := v\<rparr>
      else if \<not> inRam b pa 4 then b
      else b\<lparr>ram := (ram b)[unat pa := ucast (drop_bit 24 v), unat (pa + 1) := ucast (drop_bit 16 v),
                            unat (pa + 2) := ucast (drop_bit 8 v), unat (pa + 3) := ucast v]\<rparr>)"

definition fbWrite64 :: "u32 \<Rightarrow> u64 \<Rightarrow> flat_bus \<Rightarrow> flat_bus" where
  "fbWrite64 pa v b = fbWrite32 (pa + 4) (ucast v) (fbWrite32 pa (ucast (drop_bit 32 v)) b)"

text \<open>The object: no device of this bus asks for the clock, and \<^verbatim>\<open>memoryAt\<close> is the default.\<close>

definition flatBusVt :: "flat_bus bus_vt" where
  "flatBusVt = \<lparr>vread8 = (\<lambda>t pa b. (fbRead8 pa b, False, b)),
     vread16 = (\<lambda>t pa b. (fbRead16 pa b, False, b)),
     vread32 = (\<lambda>t pa b. (fbRead32 pa b, False, b)),
     vread64 = (\<lambda>t pa b. (fbRead64 pa b, False, b)),
     vwrite8 = (\<lambda>t pa v b. ((), False, fbWrite8 pa v b)),
     vwrite16 = (\<lambda>t pa v b. ((), False, fbWrite16 pa v b)),
     vwrite32 = (\<lambda>t pa v b. ((), False, fbWrite32 pa v b)),
     vwrite64 = (\<lambda>t pa v b. ((), False, fbWrite64 pa v b)),
     vmemoryAt = (\<lambda>pa len b. False),
     vreadLine32 = (\<lambda>t. busReadLine32 (\<lambda>pa b. (fbRead32 pa b, False, b))),
     vwriteLine32 = (\<lambda>t. busWriteLine32 (\<lambda>pa v b. ((), False, fbWrite32 pa v b)))\<rparr>"

definition flatBus :: "nat \<Rightarrow> flat_bus" where
  "flatBus n = \<lparr>ram = replicate n 0, exited = False, exitCode = 0, console = []\<rparr>"

definition flatCpu :: "nat \<Rightarrow> flat_bus cpu" where
  "flatCpu n = initCpu flatBusVt (flatBus n)"

section \<open>FlatBus is memory on its RAM\<close>

text \<open>The RAM below the console registers, by 32-byte blocks.\<close>

definition flatRegion :: "nat \<Rightarrow> u32 set" where
  "flatRegion n = {B. B AND 31 = 0 \<and> unat B + 32 \<le> n \<and> unat B + 32 \<le> 0xF0000000}"

definition flatMem :: "flat_bus \<Rightarrow> u32 \<Rightarrow> u8" where
  "flatMem b a = (if unat a < length (ram b) then ram b ! unat a else 0)"

definition flatGood :: "nat \<Rightarrow> flat_bus \<Rightarrow> bool" where
  "flatGood n b \<longleftrightarrow> length (ram b) = n"

lemma flatRegion_blk:
  assumes "blk a \<in> flatRegion n"
  shows "unat a < n" "unat a < 0xF0000000"
proof -
  have "unat (off a) < 32" using off_less [of a] by (simp add: word_less_nat_alt)
  with assms unat_blk_off [of a] show "unat a < n" "unat a < 0xF0000000"
    by (auto simp: flatRegion_def)
qed

lemma flatMem_upd:
  assumes "unat p < length (ram b)"
  shows "flatMem (b\<lparr>ram := (ram b)[unat p := x]\<rparr>) = (flatMem b)(p := x)"
  using assms by (auto simp: flatMem_def nth_list_update fun_eq_iff unat_eq32)

lemma inMem_flat:
  assumes "inMem (flatRegion n) pa k" "i < k"
  shows "unat (pa + of_nat i) = unat pa + i" "unat pa + i < n" "unat pa + i < 0xF0000000"
proof -
  have r: "blk (pa + of_nat j) \<in> flatRegion n" if "j < k" for j
    using assms(1) that by (auto simp: inMem_def addrs_def)
  have *: "unat (pa + of_nat i) = unat pa + i" using assms(2)
  proof (induction i)
    case (Suc i)
    then have IH: "unat (pa + of_nat i) = unat pa + i" and "unat pa + i < 0xF0000000"
      using flatRegion_blk(2) [OF r [of i]] by auto
    then have "unat ((pa + of_nat i) + 1) = unat pa + Suc i"
      by (subst unat_word_ariths) simp
    then show ?case by (simp add: ac_simps)
  qed simp
  with flatRegion_blk [OF r [OF assms(2)]]
  show "unat (pa + of_nat i) = unat pa + i" "unat pa + i < n" "unat pa + i < 0xF0000000"
    by auto
qed

lemma flat_inRam:
  assumes "inMem (flatRegion n) pa k" "0 < k" "flatGood n b"
  shows "inRam b pa k"
  using inMem_flat(2) [OF assms(1), of "k - 1"] assms by (simp add: inRam_def flatGood_def)

lemma flat_addr_plus:
  assumes "inMem (flatRegion n) pa k" "flatGood n b" "numeral i < k"
  shows "ram b ! unat (pa + numeral i) = flatMem b (pa + numeral i)"
    "unat (pa + numeral i) < length (ram b)"
  using inMem_flat [OF assms(1), of "numeral i"] assms by (auto simp: flatMem_def flatGood_def)

lemma flat_addr_1:
  assumes "inMem (flatRegion n) pa k" "flatGood n b" "1 < k"
  shows "ram b ! unat (pa + 1) = flatMem b (pa + 1)" "unat (pa + 1) < length (ram b)"
  using inMem_flat [OF assms(1), of 1] assms by (auto simp: flatMem_def flatGood_def)

lemma flat_addr_0:
  assumes "inMem (flatRegion n) pa k" "flatGood n b" "0 < k"
  shows "ram b ! unat pa = flatMem b pa" "unat pa < length (ram b)" "pa \<noteq> kMmioPutc" "pa \<noteq> kMmioExit"
  using inMem_flat [OF assms(1), of 0] assms by (auto simp: flatMem_def flatGood_def)

lemmas flat_addr = flat_addr_0 flat_addr_1 flat_addr_plus

lemma fbRead_8:
  assumes "flatGood n b" "inMem (flatRegion n) pa 1"
  shows "ucast (fbRead8 pa b) = be_bytes (map (flatMem b) (addrs pa 1))"
  using assms by (simp add: fbRead8_def flat_addr [OF assms(2,1)] flat_inRam be_bytes1 addrs_eqs del: One_nat_def)

lemma fbRead_16:
  assumes "flatGood n b" "inMem (flatRegion n) pa 2"
  shows "ucast (fbRead16 pa b) = be_bytes (map (flatMem b) (addrs pa 2))"
  using assms by (simp add: fbRead16_def flat_addr [OF assms(2,1)] flat_inRam be_bytes2 addrs_eqs)

lemma fbRead_32:
  assumes "flatGood n b" "inMem (flatRegion n) pa 4"
  shows "ucast (fbRead32 pa b) = be_bytes (map (flatMem b) (addrs pa 4))"
  using assms by (simp add: fbRead32_def flat_addr [OF assms(2,1)] flat_inRam be_bytes4 addrs_eqs)

lemma fbRead_64:
  assumes "flatGood n b" "inMem (flatRegion n) pa 8"
  shows "fbRead64 pa b = be_bytes (map (flatMem b) (addrs pa 8))"
  using assms by (simp add: fbRead64_def inMem_split8 fbRead_32 addrs_eqs be_bytes8 add.assoc add.commute [of _ pa])

lemma fbWrite_8:
  assumes "flatGood n b" "inMem (flatRegion n) pa 1"
  shows "flatMem (fbWrite8 pa v b) = storeBE pa 1 (ucast v) (flatMem b)" "flatGood n (fbWrite8 pa v b)"
  using assms flat_addr_0 [OF assms(2,1)] flat_inRam [OF assms(2) _ assms(1)]
  by (auto simp: fbWrite8_def flatMem_upd storeBE_unfold be_byte_ucast8 flatGood_def simp del: One_nat_def)

lemma flatMem_upd2:
  assumes "unat p < length (ram b)" "unat q < length (ram b)"
  shows "flatMem (b\<lparr>ram := (ram b)[unat p := x, unat q := y]\<rparr>) = (flatMem b)(p := x, q := y)"
  using flatMem_upd [of q "b\<lparr>ram := (ram b)[unat p := x]\<rparr>" y] assms by (simp add: flatMem_upd)

lemma fbWrite_16:
  assumes "flatGood n b" "inMem (flatRegion n) pa 2"
  shows "flatMem (fbWrite16 pa v b) = storeBE pa 2 (ucast v) (flatMem b)" "flatGood n (fbWrite16 pa v b)"
  using assms flat_addr_0 [OF assms(2,1)] flat_addr_1 [OF assms(2,1)] flat_inRam [OF assms(2) _ assms(1)]
  by (auto simp: fbWrite16_def flatMem_upd2 storeBE_unfold be_byte_ucast16 flatGood_def simp del: One_nat_def)

lemma flatMem_upd4:
  assumes "unat p < length (ram b)" "unat q < length (ram b)" "unat r < length (ram b)" "unat s < length (ram b)"
  shows "flatMem (b\<lparr>ram := (ram b)[unat p := x, unat q := y, unat r := z, unat s := w]\<rparr>)
    = (flatMem b)(p := x, q := y, r := z, s := w)"
  using flatMem_upd2 [of r "b\<lparr>ram := (ram b)[unat p := x, unat q := y]\<rparr>" s z w] assms
  by (simp add: flatMem_upd2)

lemma fbWrite_32:
  assumes "flatGood n b" "inMem (flatRegion n) pa 4"
  shows "flatMem (fbWrite32 pa v b) = storeBE pa 4 (ucast v) (flatMem b)" "flatGood n (fbWrite32 pa v b)"
  using assms flat_addr_0 [OF assms(2,1)] flat_addr_1 [OF assms(2,1)]
    flat_addr_plus(2) [OF assms(2,1), of "num.Bit0 num.One"] flat_addr_plus(2) [OF assms(2,1), of "num.Bit1 num.One"]
    flat_inRam [OF assms(2) _ assms(1)]
  by (auto simp: fbWrite32_def flatMem_upd4 storeBE_unfold be_byte_ucast32 flatGood_def simp del: One_nat_def)

lemma fbWrite_64:
  assumes "flatGood n b" "inMem (flatRegion n) pa 8"
  shows "flatMem (fbWrite64 pa v b) = storeBE pa 8 v (flatMem b)" "flatGood n (fbWrite64 pa v b)"
proof -
  have m: "inMem (flatRegion n) pa 4" "inMem (flatRegion n) (pa + 4) 4"
    using assms(2) by (simp_all add: inMem_split8)
  note lo = fbWrite_32 [OF assms(1) m(1)]
  note hi = fbWrite_32 [OF lo(2) m(2)]
  show "flatMem (fbWrite64 pa v b) = storeBE pa 8 v (flatMem b)" "flatGood n (fbWrite64 pa v b)"
    using hi(2) unfolding fbWrite64_def hi(1) lo(1) storeBE_unfold be_byte_8_split
    by (simp_all add: add.assoc)
qed

lemma flat_block_words:
  assumes "B \<in> flatRegion n" "k \<in> set [0, 4, 8, 12, 16, 20, 24, 28]"
  shows "inMem (flatRegion n) (B + k) 4"
proof -
  have "B AND 31 = 0" using assms(1) by (simp add: flatRegion_def)
  then have "blk B = B" and "\<And>j. j < 32 \<Longrightarrow> blk (B + j) = B" using blk_add(1) blk_id by auto
  then show ?thesis
    using assms by (auto simp: inMem_def addrs_eqs add.assoc)
qed

lemma fbRead32_bytes:
  assumes "flatGood n b" "inMem (flatRegion n) pa 4"
  shows "(ucast (drop_bit 24 (fbRead32 pa b)) :: u8) = flatMem b pa"
    "(ucast (drop_bit 16 (fbRead32 pa b)) :: u8) = flatMem b (pa + 1)"
    "(ucast (drop_bit 8 (fbRead32 pa b)) :: u8) = flatMem b (pa + 2)"
    "(ucast (fbRead32 pa b) :: u8) = flatMem b (pa + 3)"
proof -
  have "fbRead32 pa b = push_bit 24 (ucast (flatMem b pa)) OR push_bit 16 (ucast (flatMem b (pa + 1)))
      OR push_bit 8 (ucast (flatMem b (pa + 2))) OR ucast (flatMem b (pa + 3))"
    using assms flat_addr [OF assms(2,1)] by (simp add: fbRead32_def flat_inRam)
  then show "(ucast (drop_bit 24 (fbRead32 pa b)) :: u8) = flatMem b pa"
    "(ucast (drop_bit 16 (fbRead32 pa b)) :: u8) = flatMem b (pa + 1)"
    "(ucast (drop_bit 8 (fbRead32 pa b)) :: u8) = flatMem b (pa + 2)"
    "(ucast (fbRead32 pa b) :: u8) = flatMem b (pa + 3)"
    by (simp_all only: byte4_images)
qed

lemma fbReadLineWords:
  assumes "flatGood n b" "B \<in> flatRegion n" "set ks \<subseteq> set [0, 4, 8, 12, 16, 20, 24, 28]"
  shows "busReadLineWords (\<lambda>pa b. (fbRead32 pa b, False, b)) B ks out False b =
    (putWords 0 (\<lambda>k. flatMem b (B + k)) ks out, False, b)"
  using assms(3)
proof (induction ks arbitrary: out)
  case Nil
  then show ?case by (simp add: putWords_def)
next
  case (Cons k ks)
  then have "inMem (flatRegion n) (B + k) 4"
    by (intro flat_block_words [OF assms(2)]) auto
  note w = fbRead32_bytes [OF assms(1) this]
  show ?case
    using Cons by (simp add: w putWords_def add.assoc)
qed

lemma fbReadLine:
  assumes "flatGood n b" "B \<in> flatRegion n"
  shows "\<exists>bs. busReadLine32 (\<lambda>pa b. (fbRead32 pa b, False, b)) B b = (bs, False, b)
      \<and> (\<forall>k < 32. bs k = flatMem b (B + k))"
proof -
  have "busReadLine32 (\<lambda>pa b. (fbRead32 pa b, False, b)) B b =
      (\<lambda>a. if blk a = 0 then flatMem b (B + off a) else 0, False, b)"
    unfolding busReadLine32_def
    by (subst fbReadLineWords [OF assms]) (simp_all add: putWords_block)
  then show ?thesis
    using blk_add [of 0] by auto
qed

lemma fbWriteLineWords:
  assumes "flatGood n b" "B \<in> flatRegion n" "set ks \<subseteq> set [0, 4, 8, 12, 16, 20, 24, 28]"
  shows "\<exists>b'. busWriteLineWords (\<lambda>pa v b. ((), False, fbWrite32 pa v b)) B bs ks False b = ((), False, b')
      \<and> flatGood n b' \<and> flatMem b' = putWords B bs ks (flatMem b)"
  using assms(1,3)
proof (induction ks arbitrary: b)
  case Nil
  then show ?case by (simp add: putWords_def)
next
  case (Cons k ks)
  let ?v = "push_bit 24 (ucast (bs k)) OR push_bit 16 (ucast (bs (k + 1)))
     OR push_bit 8 (ucast (bs (k + 2))) OR ucast (bs (k + 3)) :: u32"
  have "inMem (flatRegion n) (B + k) 4"
    using Cons.prems(2) by (intro flat_block_words [OF assms(2)]) auto
  note w = fbWrite_32 [OF Cons.prems(1) this, of ?v]
  have "flatMem (fbWrite32 (B + k) ?v b) = (flatMem b)(B + k := bs k, B + (k + 1) := bs (k + 1),
     B + (k + 2) := bs (k + 2), B + (k + 3) := bs (k + 3))"
    unfolding w(1) storeBE_unfold be_byte_ucast32 byte4_images by (simp add: add.assoc)
  then have "putWords B bs ks (flatMem (fbWrite32 (B + k) ?v b)) = putWords B bs (k # ks) (flatMem b)"
    by (simp add: putWords_def)
  moreover obtain b' where "busWriteLineWords (\<lambda>pa v b. ((), False, fbWrite32 pa v b)) B bs ks False
      (fbWrite32 (B + k) ?v b) = ((), False, b')" "flatGood n b'"
      "flatMem b' = putWords B bs ks (flatMem (fbWrite32 (B + k) ?v b))"
    using Cons.IH [OF w(2)] Cons.prems(2) by auto
  ultimately show ?case by simp
qed

interpretation flat: mem_bus flatBusVt flatMem "flatGood n" "flatRegion n" for n
proof unfold_locales
  show "B \<in> flatRegion n \<Longrightarrow> B AND 31 = 0" for B by (simp add: flatRegion_def)
next
  fix b B t bs asked b'
  assume "flatGood n b" "B \<in> flatRegion n" "vreadLine32 flatBusVt t B b = (bs, asked, b')"
  then show "flatGood n b' \<and> flatMem b' = flatMem b \<and> (\<forall>k<32. bs k = flatMem b (B + k))"
    using fbReadLine [of n b B] by (auto simp: flatBusVt_def)
next
  fix b B t bs u asked b'
  assume a: "flatGood n b" "B \<in> flatRegion n" "vwriteLine32 flatBusVt t B bs b = (u, asked, b')"
  then have "B AND 31 = 0" by (simp add: flatRegion_def)
  with a show "flatGood n b' \<and> flatMem b' = (\<lambda>a. if blk a = B then bs (off a) else flatMem b a)"
    using fbWriteLineWords [of n b B "[0, 4, 8, 12, 16, 20, 24, 28]" bs]
    by (auto simp: flatBusVt_def busWriteLine32_def putWords_block)
qed (auto simp: flatBusVt_def fbRead_8 fbRead_16 fbRead_32 fbRead_64
      fbWrite_8 fbWrite_16 fbWrite_32 fbWrite_64 simp del: One_nat_def)

end
