(* ===== verification/Clock.thy ===== *)
theory Clock
  imports FlatBus
begin

text \<open>
  The timebase and the decrementer (\<^verbatim>\<open>core/include/opm/cpu.hpp\<close>): \<^verbatim>\<open>tick\<close> with its
  cached shift, the deadline functions, the chunked advance, and the
  charge-now-apply-later accounting of a batch. \<open>adv\<close> is the specification: the effect
  of a number of processor cycles, with no width and no chunks.
\<close>

section \<open>Operations\<close>

definition tbShiftOf :: "u32 \<Rightarrow> u32" where
  "tbShiftOf d = (case find (\<lambda>k. d = push_bit k 1) [0..<32] of Some k \<Rightarrow> of_nat k | None \<Rightarrow> 32)"

definition tick :: "u32 \<Rightarrow> 'b cpu \<Rightarrow> 'b cpu" where
  "tick cycles c =
     (let c1 = c\<lparr>cycleAccum := cycleAccum c + cycles\<rparr> in
      if cycleAccum c1 < cyclesPerTbTick c1 then c1
      else
        let c2 = (if tbDivSeen c1 \<noteq> cyclesPerTbTick c1
                  then c1\<lparr>tbDivSeen := cyclesPerTbTick c1, tbShift := tbShiftOf (cyclesPerTbTick c1)\<rparr>
                  else c1);
            n = (if tbShift c2 < 32 then drop_bit (unat (tbShift c2)) (cycleAccum c2)
                 else if cyclesPerTbTick c2 \<noteq> 0 then cycleAccum c2 div cyclesPerTbTick c2 else 0);
            acc = (if tbShift c2 < 32 then cycleAccum c2 AND (cyclesPerTbTick c2 - 1)
                   else cycleAccum c2 - n * cyclesPerTbTick c2);
            old = dec (st c2)
        in c2\<lparr>cycleAccum := acc,
              st := (st c2)\<lparr>tb := tb (st c2) + ucast n, dec := old - n\<rparr>,
              decPending := decPending c2 \<or> (old AND 0x80000000 = 0 \<and> old < n)\<rparr>)"

definition tbUntilDec :: "'b cpu \<Rightarrow> u64" where
  "tbUntilDec c = (if dec (st c) AND 0x80000000 \<noteq> 0 then - 1 else ucast (dec (st c)) + 1)"

definition stepsUntilDec :: "u32 \<Rightarrow> 'b cpu \<Rightarrow> u64" where
  "stepsUntilDec cyclesPerStep c =
     (if dec (st c) AND 0x80000000 \<noteq> 0 \<or> cyclesPerStep = 0 \<or> cyclesPerTbTick c = 0 then - 1
      else let need = ucast (dec (st c)) + 1;
               total = need * ucast (cyclesPerTbTick c);
               cycles = (if ucast (cycleAccum c) < total then total - ucast (cycleAccum c) else 0)
           in (cycles + ucast cyclesPerStep - 1) div ucast cyclesPerStep)"

function clockAdvanceCycles :: "u64 \<Rightarrow> 'b cpu \<Rightarrow> 'b cpu" where
  "clockAdvanceCycles cycles s =
     (if cycles = 0 then s
      else let k = (if 0x3F000000 < cycles then 0x3F000000 else ucast cycles :: u32)
           in clockAdvanceCycles (cycles - ucast k) (tick k s))"
  by pat_completeness auto

definition clockAdvance :: "u64 \<Rightarrow> u32 \<Rightarrow> 'b cpu \<Rightarrow> 'b cpu" where
  "clockAdvance steps cyclesPerStep = clockAdvanceCycles (steps * ucast cyclesPerStep)"

text \<open>The amount one round of the loop takes off.\<close>

lemma chunk_facts:
  fixes cycles :: u64
  assumes "cycles \<noteq> 0"
  defines "k \<equiv> (if 0x3F000000 < cycles then 0x3F000000 else ucast cycles :: u32)"
  shows "unat k = min 0x3F000000 (unat cycles)" "0 < unat k"
    "unat (cycles - ucast k) = unat cycles - unat k"
proof -
  show k: "unat k = min 0x3F000000 (unat cycles)"
  proof (cases "0x3F000000 < cycles")
    case True
    then have "0x3F000000 < unat cycles"
      by (simp add: word_less_nat_alt)
    with True show ?thesis by (simp add: k_def)
  next
    case False
    then have "unat cycles \<le> 0x3F000000"
      by (simp add: word_less_nat_alt)
    with False show ?thesis
      by (simp add: k_def unsigned_ucast_eq take_bit_nat_eq_self)
  qed
  then show "0 < unat k"
    using assms(1) by (simp add: unat_gt_0)
  with k show "unat (cycles - ucast k) = unat cycles - unat k"
    by (subst unat_sub) (auto simp: word_le_nat_alt)
qed

termination clockAdvanceCycles
  by (relation "measure (\<lambda>(cycles, c). unat cycles)")
     (use chunk_facts in \<open>force simp: unat_gt_0\<close>)+

definition syncClock :: "'b cpu \<Rightarrow> 'b cpu" where
  "syncClock c =
     (if pendCycles c = 0 then c
      else clockAdvanceCycles (pendCycles c) (c\<lparr>pendCycles := 0\<rparr>))"

definition charge :: "u32 \<Rightarrow> 'b cpu \<Rightarrow> 'b cpu" where
  "charge cycles c =
     (let c1 = c\<lparr>pendCycles := pendCycles c + ucast cycles\<rparr>
      in if batching c1 then c1 else syncClock c1)"

declare clockAdvanceCycles.simps [simp del]

section \<open>Specification\<close>

text \<open>
  \<open>wf_clock\<close>: the divisor is not zero and the cached shift, if it is current, is the
  divisor's. \<open>adv C\<close>: \<open>C\<close> cycles pass.
\<close>

definition wf_clock :: "'b cpu \<Rightarrow> bool" where
  "wf_clock c \<longleftrightarrow> cyclesPerTbTick c \<noteq> 0 \<and>
     (tbDivSeen c = cyclesPerTbTick c \<longrightarrow> tbShift c = tbShiftOf (cyclesPerTbTick c))"

definition adv :: "nat \<Rightarrow> 'b cpu \<Rightarrow> 'b cpu" where
  "adv C c =
     (let d = unat (cyclesPerTbTick c); a = unat (cycleAccum c) + C; n = a div d;
          old = dec (st c)
      in if a < d then c\<lparr>cycleAccum := of_nat a\<rparr>
         else c\<lparr>cycleAccum := of_nat (a mod d),
                tbDivSeen := cyclesPerTbTick c, tbShift := tbShiftOf (cyclesPerTbTick c),
                st := (st c)\<lparr>tb := tb (st c) + of_nat n, dec := old - of_nat n\<rparr>,
                decPending := decPending c \<or> (unat old < 2 ^ 31 \<and> unat old < n)\<rparr>)"

text \<open>The loop that \<^verbatim>\<open>tick\<close> replaced: one timebase tick per round.\<close>

function tickLoop :: "nat \<Rightarrow> nat \<Rightarrow> u64 \<Rightarrow> u32 \<Rightarrow> bool \<Rightarrow> nat \<times> u64 \<times> u32 \<times> bool" where
  "tickLoop d acc t dc pend =
     (if d = 0 \<or> acc < d then (acc, t, dc, pend)
      else tickLoop d (acc - d) (t + 1) (dc - 1)
             (pend \<or> (dc AND 0x80000000 = 0 \<and> (dc - 1) AND 0x80000000 \<noteq> 0)))"
  by pat_completeness auto
termination by (relation "measure (\<lambda>(d, acc, _). acc)") auto

declare tickLoop.simps [simp del]

section \<open>The closed form\<close>

lemma tbShiftOf_cases:
  "(unat (tbShiftOf d) < 32 \<and> d = push_bit (unat (tbShiftOf d)) 1) \<or> tbShiftOf d = 32"
proof (cases "find (\<lambda>k. d = push_bit k 1) [0..<32]")
  case None
  then show ?thesis by (simp add: tbShiftOf_def)
next
  case (Some k)
  then have "d = push_bit k 1" "k < 32"
    by (auto simp: find_Some_iff)
  with Some show ?thesis
    by (simp add: tbShiftOf_def unat_of_nat)
qed

lemma wf_clock_tick_shift:
  assumes "wf_clock c"
  shows "(if tbDivSeen c \<noteq> cyclesPerTbTick c then tbShiftOf (cyclesPerTbTick c) else tbShift c)
    = tbShiftOf (cyclesPerTbTick c)"
  using assms by (simp add: wf_clock_def)

lemma shift_divides:
  fixes a d :: u32
  assumes "d = push_bit s 1" "s < 32"
  shows "unat (drop_bit s a) = unat a div unat d" "unat (a AND (d - 1)) = unat a mod unat d"
proof -
  have "unat d = 2 ^ s"
  proof -
    have "d = of_nat (2 ^ s)" using assms by (simp add: push_bit_eq_mult)
    moreover have "(2::nat) ^ s < 2 ^ 32" using assms by (intro power_strict_increasing) auto
    ultimately show ?thesis by (simp only: unat_of_nat) simp
  qed
  moreover have "d - 1 = mask s"
    using assms by (simp add: mask_eq_exp_minus_1 push_bit_eq_mult)
  ultimately show "unat (drop_bit s a) = unat a div unat d" "unat (a AND (d - 1)) = unat a mod unat d"
    by (simp_all add: unat_drop_bit unat_and_mask)
qed

lemma tick_quotient:
  fixes a d :: u32
  assumes "d \<noteq> 0"
  defines "n \<equiv> (if tbShiftOf d < 32 then drop_bit (unat (tbShiftOf d)) a
                else if d \<noteq> 0 then a div d else 0)"
  defines "r \<equiv> (if tbShiftOf d < 32 then a AND (d - 1) else a - n * d)"
  shows "n = of_nat (unat a div unat d)" "r = of_nat (unat a mod unat d)"
proof -
  have *: "n = of_nat (unat a div unat d) \<and> r = of_nat (unat a mod unat d)"
  proof (cases "tbShiftOf d < 32")
    case True
    then have "d = push_bit (unat (tbShiftOf d)) 1" "unat (tbShiftOf d) < 32"
      using tbShiftOf_cases [of d] by auto
    from shift_divides [OF this, of a] True show ?thesis
      unfolding n_def r_def by (metis of_nat_unat ucast_id)
  next
    case False
    then have n: "n = of_nat (unat a div unat d)"
      using assms(1) by (simp add: n_def word_arith_nat_div)
    have "a - n * d = of_nat (unat a mod unat d)"
    proof -
      have "of_nat (unat a mod unat d) = (of_nat (unat a - (unat a div unat d) * unat d) :: u32)"
        by (simp add: minus_div_mult_eq_mod)
      also have "\<dots> = of_nat (unat a) - of_nat (unat a div unat d) * of_nat (unat d)"
        by (subst of_nat_diff) (auto simp: div_times_less_eq_dividend)
      finally show ?thesis by (simp add: n)
    qed
    with n False show ?thesis by (simp add: r_def)
  qed
  then show "n = of_nat (unat a div unat d)" "r = of_nat (unat a mod unat d)" by auto
qed

lemma div_small32:
  fixes a d :: u32
  shows "unat (of_nat (unat a div unat d) :: u32) = unat a div unat d"
proof -
  have "unat a div unat d \<le> unat a" by (rule div_le_dividend)
  also have "unat a < 2 ^ 32" using unsigned_less [of a, where ?'a = nat] by simp
  finally show ?thesis by (simp add: unat_of_nat)
qed

text \<open>A tick that crosses the divisor, with the cached shift resolved.\<close>

lemma tick_crossing:
  assumes "\<not> cycleAccum c + k < cyclesPerTbTick c"
    and sh: "tbDivSeen c = cyclesPerTbTick c \<longrightarrow> tbShift c = tbShiftOf (cyclesPerTbTick c)"
  defines "d \<equiv> cyclesPerTbTick c"
  defines "n \<equiv> (if tbShiftOf d < 32 then drop_bit (unat (tbShiftOf d)) (cycleAccum c + k)
      else if d \<noteq> 0 then (cycleAccum c + k) div d else 0)"
  shows "tick k c = c\<lparr>
      cycleAccum := (if tbShiftOf d < 32 then (cycleAccum c + k) AND (d - 1) else cycleAccum c + k - n * d),
      tbDivSeen := d, tbShift := tbShiftOf d,
      st := (st c)\<lparr>tb := tb (st c) + ucast n, dec := dec (st c) - n\<rparr>,
      decPending := decPending c \<or> (dec (st c) AND 0x80000000 = 0 \<and> dec (st c) < n)\<rparr>"
proof (cases "tbDivSeen c = d")
  case True
  then have "c = c\<lparr>tbDivSeen := d, tbShift := tbShiftOf d\<rparr>"
    using sh by (simp add: d_def)
  then show ?thesis
    using assms(1) True sh unfolding tick_def Let_def n_def d_def by simp
next
  case False
  then show ?thesis
    using assms(1) unfolding tick_def Let_def n_def d_def by simp
qed

lemma tick_adv:
  assumes wf: "wf_clock c" and no: "unat (cycleAccum c) + unat k < 2 ^ 32"
  shows "tick k c = adv (unat k) c"
proof -
  let ?d = "cyclesPerTbTick c" and ?a = "cycleAccum c + k"
  have d: "?d \<noteq> 0" using wf by (simp add: wf_clock_def)
  have a: "unat ?a = unat (cycleAccum c) + unat k"
    using no by (simp add: unat_word_ariths)
  have lt: "?a < ?d \<longleftrightarrow> unat (cycleAccum c) + unat k < unat ?d"
    by (simp add: word_less_nat_alt a)
  let ?n = "of_nat (unat ?a div unat ?d) :: u32"
  have un: "ucast ?n = (of_nat (unat ?a div unat ?d) :: u64)"
    using div_small32 [of ?a ?d] by (metis of_nat_unat)
  have pend: "dec (st c) < ?n \<longleftrightarrow> unat (dec (st c)) < unat ?a div unat ?d"
    by (simp add: word_less_nat_alt div_small32)
  have sh: "tbDivSeen c = ?d \<longrightarrow> tbShift c = tbShiftOf ?d"
    using wf by (simp add: wf_clock_def)
  show ?thesis
  proof (cases "?a < ?d")
    case True
    then show ?thesis
      using lt a by (simp add: tick_def adv_def Let_def)
  next
    case False
    let ?q = "unat ?a div unat ?d" and ?r = "unat ?a mod unat ?d"
    have nlt: "\<not> unat ?a < unat ?d"
      using False by (metis word_less_nat_alt)
    have "tick k c = c\<lparr>cycleAccum := of_nat ?r, tbDivSeen := ?d, tbShift := tbShiftOf ?d,
        st := (st c)\<lparr>tb := tb (st c) + of_nat ?q, dec := dec (st c) - of_nat ?q\<rparr>,
        decPending := decPending c \<or> (unat (dec (st c)) < 2 ^ 31 \<and> unat (dec (st c)) < ?q)\<rparr>"
      unfolding tick_crossing [OF False sh]
      unfolding tick_quotient(2) [OF d]
      unfolding tick_quotient(1) [OF d] un pend msb32_iff ..
    moreover have "adv (unat k) c = c\<lparr>cycleAccum := of_nat ?r, tbDivSeen := ?d, tbShift := tbShiftOf ?d,
        st := (st c)\<lparr>tb := tb (st c) + of_nat ?q, dec := dec (st c) - of_nat ?q\<rparr>,
        decPending := decPending c \<or> (unat (dec (st c)) < 2 ^ 31 \<and> unat (dec (st c)) < ?q)\<rparr>"
      unfolding adv_def Let_def a [symmetric] by (simp only: nlt if_False)
    ultimately show ?thesis by (simp only:)
  qed
qed

lemma adv_frame [simp]:
  "cyclesPerTbTick (adv C c) = cyclesPerTbTick c"
  "pendCycles (adv C c) = pendCycles c" "batching (adv C c) = batching c"
  by (simp_all add: adv_def Let_def)

lemma adv_cross:
  assumes "\<not> unat (cycleAccum c) + C < unat (cyclesPerTbTick c)"
  shows "adv C c = c\<lparr>
      cycleAccum := of_nat ((unat (cycleAccum c) + C) mod unat (cyclesPerTbTick c)),
      tbDivSeen := cyclesPerTbTick c, tbShift := tbShiftOf (cyclesPerTbTick c),
      st := (st c)\<lparr>tb := tb (st c) + of_nat ((unat (cycleAccum c) + C) div unat (cyclesPerTbTick c)),
        dec := dec (st c) - of_nat ((unat (cycleAccum c) + C) div unat (cyclesPerTbTick c))\<rparr>,
      decPending := decPending c \<or> (unat (dec (st c)) < 2 ^ 31
        \<and> unat (dec (st c)) < (unat (cycleAccum c) + C) div unat (cyclesPerTbTick c))\<rparr>"
  unfolding adv_def Let_def by (simp only: assms if_False)

lemma adv_wf: "wf_clock c \<Longrightarrow> wf_clock (adv C c)"
  by (simp add: wf_clock_def adv_def Let_def)

lemma adv_accum:
  assumes "wf_clock c"
  shows "unat (cycleAccum (adv C c)) = (unat (cycleAccum c) + C) mod unat (cyclesPerTbTick c)"
    "unat (cycleAccum (adv C c)) < unat (cyclesPerTbTick c)"
proof -
  let ?d = "unat (cyclesPerTbTick c)" and ?a = "unat (cycleAccum c) + C"
  have d: "0 < ?d" "?d < 2 ^ 32"
    using assms unsigned_less [of "cyclesPerTbTick c", where ?'a = nat]
    by (auto simp: wf_clock_def unat_gt_0)
  then have "?a mod ?d < 2 ^ 32"
    by (meson mod_less_divisor order.strict_trans)
  moreover have "cycleAccum (adv C c) = of_nat (?a mod ?d)"
    unfolding adv_def Let_def by (simp del: of_nat_add)
  ultimately show "unat (cycleAccum (adv C c)) = ?a mod ?d"
    by (simp only: unat_of_nat) simp
  with d show "unat (cycleAccum (adv C c)) < ?d" by simp
qed

lemma adv_dec_split:
  fixes old :: u32
  assumes "n1 + n2 \<le> 2 ^ 31"
  defines "d1 \<equiv> old - of_nat n1"
  shows "(unat old < 2 ^ 31 \<and> unat old < n1) \<or> (unat d1 < 2 ^ 31 \<and> unat d1 < n2)
    \<longleftrightarrow> unat old < 2 ^ 31 \<and> unat old < n1 + n2"
proof -
  have n1: "unat (of_nat n1 :: u32) = n1"
    using assms(1) by (simp add: unat_of_nat)
  show ?thesis
  proof (cases "n1 \<le> unat old")
    case True
    then have "unat d1 = unat old - n1"
      unfolding d1_def by (subst unat_sub) (simp_all add: word_le_nat_alt n1)
    with True assms(1) show ?thesis by auto
  next
    case False
    then have "unat d1 = unat old + 2 ^ 32 - n1"
      unfolding d1_def by (simp add: unat_sub_if_size n1 word_size)
    with False assms(1) show ?thesis by auto
  qed
qed

lemma adv_zero: "unat (cycleAccum c) < unat (cyclesPerTbTick c) \<Longrightarrow> adv 0 c = c"
  by (simp add: adv_def)

lemma adv_add:
  assumes wf: "wf_clock c"
    and n: "(unat (cycleAccum c) + (C1 + C2)) div unat (cyclesPerTbTick c) \<le> 2 ^ 31"
  shows "adv C2 (adv C1 c) = adv (C1 + C2) c"
proof -
  let ?d = "unat (cyclesPerTbTick c)" and ?a = "unat (cycleAccum c) + C1"
  let ?n1 = "?a div ?d" and ?n2 = "(?a mod ?d + C2) div ?d"
  have d: "0 < ?d" using wf by (simp add: wf_clock_def unat_gt_0)
  have "?a + C2 = ?d * ?n1 + (?a mod ?d + C2)"
    by simp
  then have nn: "(?a + C2) div ?d = ?n1 + ?n2" and mm: "(?a + C2) mod ?d = (?a mod ?d + C2) mod ?d"
    using d by (metis div_mult_self4 less_numeral_extra(3), metis mod_mult_self4)
  have cut: "?a + C2 < ?d \<longleftrightarrow> ?a < ?d \<and> ?a mod ?d + C2 < ?d"
    by auto
  note acc = adv_accum(1) [OF wf, of C1]
  show ?thesis
  proof (cases "?a < ?d")
    case True
    with acc have "unat (cycleAccum (adv C1 c)) = ?a" by simp
    with True show ?thesis
      by (simp add: adv_def Let_def add.assoc)
  next
    case False
    show ?thesis
    proof (cases "?a mod ?d + C2 < ?d")
      case True
      with False nn mm acc show ?thesis
        by (simp add: adv_def Let_def add.assoc [symmetric])
    next
      case more: False
      have "?n1 + ?n2 \<le> 2 ^ 31" using n nn by (simp add: add.assoc)
      note pend = adv_dec_split [OF this, of "dec (st c)"]
      have c12: "\<not> ?a + C2 < ?d" using more cut by blast
      have c2: "\<not> unat (cycleAccum (adv C1 c)) + C2 < unat (cyclesPerTbTick (adv C1 c))"
        using more acc by simp
      show ?thesis
        unfolding adv_cross [OF c2] adv_frame acc add.assoc [symmetric]
          adv_cross [OF c12 [unfolded add.assoc]] nn [unfolded add.assoc] mm [unfolded add.assoc]
        unfolding adv_cross [OF False]
        using pend nn mm by (simp add: add.assoc diff_diff_eq disj_assoc)
    qed
  qed
qed

section \<open>Chunks, batches and deadlines\<close>

text \<open>
  \<open>clock_ready\<close>: what holds between instructions (the remainder is below the divisor),
  with a divisor that leaves room for a chunk in 32 bits.
\<close>

definition clock_ready :: "'b cpu \<Rightarrow> bool" where
  "clock_ready c \<longleftrightarrow> wf_clock c \<and> unat (cycleAccum c) < unat (cyclesPerTbTick c)
     \<and> unat (cyclesPerTbTick c) \<le> 2 ^ 31"

text \<open>The timebase ticks that \<open>C\<close> cycles amount to.\<close>

definition ticksIn :: "'b cpu \<Rightarrow> nat \<Rightarrow> nat" where
  "ticksIn c C = (unat (cycleAccum c) + C) div unat (cyclesPerTbTick c)"

lemma clock_ready_adv: "clock_ready c \<Longrightarrow> clock_ready (adv C c)"
  by (auto simp: clock_ready_def adv_wf adv_accum(2))

lemma ticksIn_adv:
  assumes "clock_ready c" "ticksIn c (C1 + C2) \<le> 2 ^ 31"
  shows "ticksIn (adv C1 c) C2 \<le> 2 ^ 31"
proof -
  let ?d = "unat (cyclesPerTbTick c)" and ?a = "unat (cycleAccum c) + C1"
  have "(?a mod ?d + C2) div ?d \<le> (?a + C2) div ?d"
    by (intro div_le_mono) simp
  with assms adv_accum(1) [of c C1] show ?thesis
    by (simp add: ticksIn_def clock_ready_def add.assoc)
qed

lemma clockAdvanceCycles_adv:
  assumes "clock_ready c" "ticksIn c (unat C) \<le> 2 ^ 31"
  shows "clockAdvanceCycles C c = adv (unat C) c"
  using assms
proof (induction C c rule: clockAdvanceCycles.induct)
  case (1 C c)
  show ?case
  proof (cases "C = 0")
    case True
    with "1.prems" show ?thesis
      by (simp add: clockAdvanceCycles.simps adv_zero clock_ready_def)
  next
    case False
    let ?k = "if 0x3F000000 < C then 0x3F000000 else ucast C :: u32"
    note ch = chunk_facts [OF False]
    have sum: "unat ?k + unat (C - ucast ?k) = unat C"
      using ch by simp
    have "unat ?k \<le> 0x3F000000"
      by (simp only: ch(1))
    then have "unat (cycleAccum c) + unat ?k < 2 ^ 32"
      using "1.prems"(1) by (auto simp: clock_ready_def)
    then have t: "tick ?k c = adv (unat ?k) c"
      using "1.prems"(1) by (intro tick_adv) (simp_all add: clock_ready_def)
    have "clockAdvanceCycles C c = clockAdvanceCycles (C - ucast ?k) (tick ?k c)"
      using False by (subst clockAdvanceCycles.simps) (simp only: Let_def if_False)
    also have "\<dots> = adv (unat (C - ucast ?k)) (tick ?k c)"
    proof (rule "1.IH" [OF False refl])
      show "clock_ready (tick ?k c)" using t "1.prems"(1) by (simp only: clock_ready_adv)
      show "ticksIn (tick ?k c) (unat (C - ucast ?k)) \<le> 2 ^ 31"
        using ticksIn_adv [of c "unat ?k" "unat (C - ucast ?k)"] sum "1.prems" t by (simp only:)
    qed
    also have "\<dots> = adv (unat C) c"
      using adv_add [of c "unat ?k" "unat (C - ucast ?k)"] sum "1.prems" t
      by (simp only: clock_ready_def ticksIn_def)
    finally show ?thesis .
  qed
qed

lemma dec_crosses_msb:
  "(dc AND 0x80000000 = 0 \<and> (dc - 1) AND 0x80000000 \<noteq> 0) \<longleftrightarrow> (unat (dc :: u32) < 2 ^ 31 \<and> unat dc < 1)"
proof (cases "dc = 0")
  case True
  then show ?thesis by simp
next
  case False
  then have "unat (dc - 1) = unat dc - 1"
    by (metis unat_minus_one)
  with False show ?thesis
    by (auto simp: msb32_iff unat_eq_0)
qed

lemma tickLoop_closed:
  assumes "0 < d" "acc div d \<le> 2 ^ 31"
  shows "tickLoop d acc t dc p = (acc mod d, t + of_nat (acc div d), dc - of_nat (acc div d),
    p \<or> (unat dc < 2 ^ 31 \<and> unat dc < acc div d))"
  using assms
proof (induction d acc t dc p rule: tickLoop.induct)
  case (1 d acc t dc p)
  show ?case
  proof (cases "acc < d")
    case True
    then show ?thesis by (simp add: tickLoop.simps [of d acc])
  next
    case False
    let ?p = "p \<or> (dc AND 0x80000000 = 0 \<and> (dc - 1) AND 0x80000000 \<noteq> 0)"
    let ?n = "(acc - d) div d"
    have n: "acc div d = Suc ?n" "(acc - d) mod d = acc mod d"
      using False "1.prems"(1) by (simp_all add: le_div_geq le_mod_geq)
    have "tickLoop d acc t dc p = tickLoop d (acc - d) (t + 1) (dc - 1) ?p"
      using False "1.prems"(1) by (simp add: tickLoop.simps [of d acc t dc p])
    also have "\<dots> = ((acc - d) mod d, t + 1 + of_nat ?n, dc - 1 - of_nat ?n,
        ?p \<or> (unat (dc - 1) < 2 ^ 31 \<and> unat (dc - 1) < ?n))"
      using False "1.prems" n by (intro "1.IH") auto
    finally show ?thesis
      using adv_dec_split [of 1 ?n dc] "1.prems"(2) dec_crosses_msb [of dc]
      by (simp add: n diff_diff_eq add.assoc disj_assoc)
  qed
qed

lemma ticksIn_mono: "C1 \<le> C2 \<Longrightarrow> ticksIn c C1 \<le> ticksIn c C2"
  by (simp add: ticksIn_def div_le_mono)

lemma ticksIn_bound:
  assumes "clock_ready c" "ticksIn c C \<le> 2 ^ 31"
  shows "C < 2 ^ 63"
proof (rule ccontr)
  assume "\<not> C < 2 ^ 63"
  then have "2 ^ 63 \<le> C" by simp
  have d: "0 < unat (cyclesPerTbTick c)" "unat (cyclesPerTbTick c) \<le> 2 ^ 31"
    using assms(1) by (auto simp: clock_ready_def)
  have "2 ^ 32 * unat (cyclesPerTbTick c) \<le> 2 ^ 32 * 2 ^ 31"
    using d by (intro mult_le_mono2)
  also have "\<dots> = (2::nat) ^ 63" by simp
  also have "\<dots> \<le> unat (cycleAccum c) + C" using \<open>2 ^ 63 \<le> C\<close> by simp
  finally have "2 ^ 32 \<le> ticksIn c C"
    using d by (simp add: ticksIn_def less_eq_div_iff_mult_less_eq)
  with assms(2) show False by simp
qed

lemma adv_upd:
  "adv C (c\<lparr>batching := b\<rparr>) = (adv C c)\<lparr>batching := b\<rparr>"
  "adv C (c\<lparr>pendCycles := p\<rparr>) = (adv C c)\<lparr>pendCycles := p\<rparr>"
  by (simp_all add: adv_def Let_def)

lemma clock_ready_upd [simp]:
  "clock_ready (c\<lparr>batching := b\<rparr>) = clock_ready c"
  "clock_ready (c\<lparr>pendCycles := p\<rparr>) = clock_ready c"
  "ticksIn (c\<lparr>batching := b\<rparr>) = ticksIn c"
  "ticksIn (c\<lparr>pendCycles := p\<rparr>) = ticksIn c"
  by (simp_all add: clock_ready_def wf_clock_def ticksIn_def fun_eq_iff)

lemma syncClock_adv:
  assumes "clock_ready c" "ticksIn c (unat (pendCycles c)) \<le> 2 ^ 31"
  shows "syncClock c = (adv (unat (pendCycles c)) c)\<lparr>pendCycles := 0\<rparr>"
proof (cases "pendCycles c = 0")
  case True
  then have "c\<lparr>pendCycles := 0\<rparr> = c" by simp
  with True assms(1) show ?thesis
    by (simp add: syncClock_def adv_zero clock_ready_def)
next
  case False
  with assms show ?thesis
    by (simp add: syncClock_def clockAdvanceCycles_adv adv_upd)
qed

lemma charge_unbatched:
  assumes "clock_ready c" "pendCycles c = 0" "\<not> batching c" "ticksIn c (unat k) \<le> 2 ^ 31"
  shows "charge k c = adv (unat k) c"
proof -
  have "(adv (unat k) c)\<lparr>pendCycles := 0\<rparr> = adv (unat k) c"
    using assms(2) by (metis adv_frame(2) cpu.surjective cpu.update_convs(17))
  then show ?thesis
    using assms by (simp add: charge_def syncClock_adv adv_upd)
qed

lemma fold_charge_unbatched:
  assumes "clock_ready c" "pendCycles c = 0" "\<not> batching c"
    "ticksIn c (sum_list (map unat ks)) \<le> 2 ^ 31"
  shows "fold charge ks c = adv (sum_list (map unat ks)) c"
  using assms
proof (induction ks arbitrary: c)
  case Nil
  then show ?case by (simp add: adv_zero clock_ready_def)
next
  case (Cons k ks)
  have "ticksIn c (unat k) \<le> 2 ^ 31"
    using Cons.prems(4) ticksIn_mono [of "unat k" "unat k + sum_list (map unat ks)" c] by simp
  with Cons.prems have k: "charge k c = adv (unat k) c"
    by (intro charge_unbatched)
  have "fold charge ks (adv (unat k) c) = adv (sum_list (map unat ks)) (adv (unat k) c)"
    using Cons.prems ticksIn_adv [of c "unat k" "sum_list (map unat ks)"]
    by (intro Cons.IH clock_ready_adv) auto
  with k Cons.prems(1,4) show ?case
    by (simp add: adv_add clock_ready_def ticksIn_def)
qed

lemma fold_charge_batched:
  "batching c \<Longrightarrow> fold charge ks c = c\<lparr>pendCycles := pendCycles c + of_nat (sum_list (map unat ks))\<rparr>"
  by (induction ks arbitrary: c) (simp_all add: charge_def add.assoc)

lemma adv_effects:
  "tb (st (adv C c)) = tb (st c) + of_nat (ticksIn c C)"
  "dec (st (adv C c)) = dec (st c) - of_nat (ticksIn c C)"
  "decPending (adv C c) \<longleftrightarrow>
     decPending c \<or> (unat (dec (st c)) < 2 ^ 31 \<and> unat (dec (st c)) < ticksIn c C)"
  by (simp_all add: adv_def Let_def ticksIn_def)

lemma ceil_div_le: "0 < s \<Longrightarrow> (x + s - 1) div s \<le> j \<longleftrightarrow> x \<le> j * s" for s :: nat
proof -
  assume s: "0 < s"
  have "(x + s - 1) div s \<le> j \<longleftrightarrow> (x + s - 1) div s < Suc j" by auto
  also have "\<dots> \<longleftrightarrow> x + s - 1 < Suc j * s" using s by (rule div_less_iff_less_mult)
  also have "\<dots> \<longleftrightarrow> x \<le> j * s" using s by auto
  finally show ?thesis .
qed

lemma unat_stepsUntilDec:
  assumes "clock_ready c" "s \<noteq> 0" "unat (dec (st c)) < 2 ^ 31"
  shows "unat (stepsUntilDec s c) =
    ((unat (dec (st c)) + 1) * unat (cyclesPerTbTick c) - unat (cycleAccum c) + unat s - 1) div unat s"
proof -
  let ?D = "unat (dec (st c)) + 1" and ?d = "unat (cyclesPerTbTick c)" and ?a = "unat (cycleAccum c)"
  let ?total = "(ucast (dec (st c)) + 1) * ucast (cyclesPerTbTick c) :: u64"
  have d: "0 < ?d" "?d \<le> 2 ^ 31" "?a < ?d" and s: "0 < unat s" "unat s < 2 ^ 32"
    using assms unsigned_less [of s, where ?'a = nat] by (auto simp: clock_ready_def unat_gt_0)
  have "?D * ?d \<le> 2 ^ 31 * 2 ^ 31"
    using assms(3) d by (intro mult_le_mono) auto
  then have T: "?D * ?d \<le> 2 ^ 62" by simp
  have "unat (ucast (dec (st c)) + 1 :: u64) = ?D"
    using assms(3) by (simp add: unat_word_ariths)
  then have total: "unat ?total = ?D * ?d"
    using T by (simp add: unat_word_ariths)
  have "?d \<le> ?D * ?d" by simp
  with d have lt: "?a < ?D * ?d" by linarith
  have "unat (?total - ucast (cycleAccum c)) = ?D * ?d - ?a"
    by (subst unat_sub) (use lt total in \<open>auto simp: word_le_nat_alt\<close>)
  then have sum: "unat (?total - ucast (cycleAccum c) + ucast s) = ?D * ?d - ?a + unat s"
    using T s by (simp add: unat_word_ariths)
  have one: "unat (?total - ucast (cycleAccum c) + ucast s - 1) = ?D * ?d - ?a + unat s - 1"
    by (subst unat_sub) (use sum s in \<open>auto simp: word_le_nat_alt\<close>)
  have "stepsUntilDec s c = (?total - ucast (cycleAccum c) + ucast s - 1) div ucast s"
    using assms(2,3) d lt total
    by (simp add: stepsUntilDec_def Let_def msb32_iff word_less_nat_alt) (auto simp: unat_eq_0)
  then show ?thesis
    by (simp only: unat_div_distrib one unat_ucast_64)
qed

lemma dec_deadline:
  assumes "clock_ready c" "s \<noteq> 0" "unat (dec (st c)) < 2 ^ 31" "\<not> decPending c"
  shows "decPending (adv (j * unat s) c) \<longleftrightarrow> unat (stepsUntilDec s c) \<le> j"
proof -
  let ?D = "unat (dec (st c)) + 1" and ?d = "unat (cyclesPerTbTick c)" and ?a = "unat (cycleAccum c)"
  have d: "0 < ?d" "?a < ?d" and s: "0 < unat s" using assms by (auto simp: clock_ready_def unat_gt_0)
  have "decPending (adv (j * unat s) c) \<longleftrightarrow> ?D \<le> ticksIn c (j * unat s)"
    using assms by (simp add: adv_effects Suc_le_eq)
  also have "\<dots> \<longleftrightarrow> ?D * ?d \<le> ?a + j * unat s"
    using d by (simp only: ticksIn_def less_eq_div_iff_mult_less_eq)
  also have "\<dots> \<longleftrightarrow> ?D * ?d - ?a \<le> j * unat s" by auto
  also have "\<dots> \<longleftrightarrow> unat (stepsUntilDec s c) \<le> j"
    using ceil_div_le [OF s] by (simp only: unat_stepsUntilDec [OF assms(1-3)])
  finally show ?thesis .
qed

lemma flatCpu_clock:
  "clock_ready (flatCpu n)" "wf_clock (flatCpu n)" "pendCycles (flatCpu n) = 0" "\<not> decPending (flatCpu n)"
  "ticksIn (flatCpu n) C = C div 4" "dec (st (flatCpu n)) = - 1" "cycleAccum (flatCpu n) = 0"
  "cyclesPerTbTick (flatCpu n) = 4" "tb (st (flatCpu n)) = 0"
  by (simp_all add: flatCpu_def initCpu_def initState_def clock_ready_def wf_clock_def ticksIn_def)

text \<open>A processor whose decrementer holds 2, for the witnesses.\<close>

definition decTwo :: "flat_bus cpu" where
  "decTwo = (flatCpu 0)\<lparr>st := (st (flatCpu 0))\<lparr>dec := 2\<rparr>\<rparr>"

lemma decTwo_clock:
  "clock_ready decTwo" "\<not> decPending decTwo" "dec (st decTwo) = 2" "ticksIn decTwo C = C div 4"
  using flatCpu_clock [of 0]
  by (simp_all add: decTwo_def clock_ready_def wf_clock_def ticksIn_def)

section \<open>Properties\<close>

text \<open>
  C28. The closed form of \<^verbatim>\<open>tick\<close> computes what the loop it replaced computed: the
  remainder, the timebase, the decrementer and the request for the decrementer interrupt
  are those of counting one timebase tick at a time, for every divisor, power of two or
  not, as long as the 32-bit accumulator does not overflow and at most \<open>2 ^ 31\<close> ticks
  pass (the bound the source comment relies on).
\<close>

theorem tick_is_the_loop:
  assumes "wf_clock c" "unat (cycleAccum c) + unat k < 2 ^ 32" "ticksIn c (unat k) \<le> 2 ^ 31"
  defines "r \<equiv> tickLoop (unat (cyclesPerTbTick c)) (unat (cycleAccum c) + unat k)
      (tb (st c)) (dec (st c)) (decPending c)"
  shows "(unat (cycleAccum (tick k c)), tb (st (tick k c)), dec (st (tick k c)), decPending (tick k c)) = r"
proof -
  let ?d = "unat (cyclesPerTbTick c)"
  have d: "0 < ?d" using assms(1) by (simp add: wf_clock_def unat_gt_0)
  have r: "r = ((unat (cycleAccum c) + unat k) mod ?d, tb (st c) + of_nat (ticksIn c (unat k)),
      dec (st c) - of_nat (ticksIn c (unat k)),
      decPending c \<or> (unat (dec (st c)) < 2 ^ 31 \<and> unat (dec (st c)) < ticksIn c (unat k)))"
    unfolding r_def using assms(3) by (subst tickLoop_closed [OF d]) (simp_all add: ticksIn_def)
  have "unat (cycleAccum c) + unat k < ?d \<Longrightarrow> ticksIn c (unat k) = 0"
    by (simp add: ticksIn_def)
  then show ?thesis
    unfolding tick_adv [OF assms(1,2)] r
    using adv_accum(1) [OF assms(1), of "unat k"]
    by (cases "unat (cycleAccum c) + unat k < ?d")
       (simp_all add: adv_def Let_def ticksIn_def del: of_nat_add)
qed

theorem tick_is_the_loop_witness:
  "(unat (cycleAccum (tick 9 (flatCpu 0))), tb (st (tick 9 (flatCpu 0))), dec (st (tick 9 (flatCpu 0))),
      decPending (tick 9 (flatCpu 0))) = tickLoop 4 9 0 (- 1) False"
  using tick_is_the_loop [of "flatCpu 0" 9] by (simp add: flatCpu_clock)

text \<open>
  Charging cycles during a batch and applying them at its end leaves the processor as
  if every charge had been applied at once: same timebase, same decrementer, same pending
  interrupt, same remainder, and every other field untouched.
\<close>

theorem batch_charges_are_exact:
  assumes "clock_ready c" "pendCycles c = 0"
    and "ticksIn c (sum_list (map unat ks)) \<le> 2 ^ 31"
  shows "(syncClock (fold charge ks (c\<lparr>batching := True\<rparr>)))\<lparr>batching := False\<rparr>
    = fold charge ks (c\<lparr>batching := False\<rparr>)"
proof -
  let ?C = "sum_list (map unat ks)"
  have C: "unat (of_nat ?C :: u64) = ?C"
    using ticksIn_bound [OF assms(1,3)] by (simp add: unat_of_nat)
  have "syncClock (fold charge ks (c\<lparr>batching := True\<rparr>))
      = syncClock (c\<lparr>batching := True, pendCycles := of_nat ?C\<rparr>)"
    using assms(2) by (simp add: fold_charge_batched)
  also have "\<dots> = (adv ?C c)\<lparr>batching := True, pendCycles := 0\<rparr>"
    using assms by (simp add: syncClock_adv C adv_upd)
  finally have "(syncClock (fold charge ks (c\<lparr>batching := True\<rparr>)))\<lparr>batching := False\<rparr>
      = (adv ?C c)\<lparr>batching := False, pendCycles := 0\<rparr>" by simp
  also have "\<dots> = fold charge ks (c\<lparr>batching := False\<rparr>)"
    using assms by (simp add: fold_charge_unbatched adv_upd)
  finally show ?thesis .
qed

theorem batch_charges_are_exact_witness:
  "(syncClock (fold charge [1, 60, 3] ((flatCpu 0)\<lparr>batching := True\<rparr>)))\<lparr>batching := False\<rparr>
    = fold charge [1, 60, 3] ((flatCpu 0)\<lparr>batching := False\<rparr>)"
  by (rule batch_charges_are_exact) (simp_all add: flatCpu_clock)

text \<open>
  The clock a device reads inside a batch (\<^verbatim>\<open>tbNow\<close>, pure) is the timebase that
  applying the charged cycles would produce.
\<close>

theorem tbNow_is_synced:
  assumes "clock_ready c" "ticksIn c (unat (pendCycles c)) \<le> 2 ^ 31"
  shows "tbNow c = tb (st (syncClock c))"
proof (cases "pendCycles c = 0")
  case True
  then show ?thesis by (simp add: tbNow_def syncClock_def)
next
  case False
  have "unat (ucast (cycleAccum c) + pendCycles c) = unat (cycleAccum c) + unat (pendCycles c)"
    using ticksIn_bound [OF assms] unsigned_less [of "cycleAccum c", where ?'a = nat]
    by (simp add: unat_word_ariths)
  then have "(ucast (cycleAccum c) + pendCycles c) div ucast (cyclesPerTbTick c)
      = (of_nat (ticksIn c (unat (pendCycles c))) :: u64)"
    by (simp only: word_arith_nat_div ticksIn_def unat_ucast_64)
  moreover have "cyclesPerTbTick c \<noteq> 0"
    using assms(1) by (simp add: clock_ready_def wf_clock_def)
  ultimately show ?thesis
    using False assms by (simp add: tbNow_def syncClock_adv adv_effects)
qed

theorem tbNow_is_synced_witness:
  "tbNow ((flatCpu 0)\<lparr>pendCycles := 9\<rparr>) = tb (st (syncClock ((flatCpu 0)\<lparr>pendCycles := 9\<rparr>)))"
  by (rule tbNow_is_synced) (simp_all add: flatCpu_clock)

text \<open>
  The decrementer deadline is exact: advancing the clock by \<open>j\<close> steps of
  \<open>s\<close> cycles requests the decrementer interrupt if and only if \<open>j\<close> has reached
  \<^verbatim>\<open>stepsUntilDec\<close>; a run loop that stops there delivers it neither early nor late.
\<close>

theorem stepsUntilDec_exact:
  assumes "clock_ready c" "s \<noteq> 0" "unat (dec (st c)) < 2 ^ 31" "\<not> decPending c"
    and "ticksIn c (unat j * unat s) \<le> 2 ^ 31"
  shows "decPending (clockAdvance j s c) \<longleftrightarrow> stepsUntilDec s c \<le> j"
proof -
  have C: "unat (j * ucast s) = unat j * unat s"
    using ticksIn_bound [OF assms(1,5)] by (simp add: unat_word_ariths)
  have "decPending (clockAdvance j s c) \<longleftrightarrow> decPending (adv (unat j * unat s) c)"
    using assms(1,5) by (simp add: clockAdvance_def clockAdvanceCycles_adv C)
  with dec_deadline [OF assms(1-4)] show ?thesis by (simp only: word_le_nat_alt)
qed

theorem stepsUntilDec_exact_witness:
  "\<not> decPending (clockAdvance 11 1 decTwo) \<and> decPending (clockAdvance 12 1 decTwo)"
proof -
  have "stepsUntilDec 1 decTwo = 12"
    by (simp add: stepsUntilDec_def decTwo_def flatCpu_clock)
  then show ?thesis
    using stepsUntilDec_exact [of decTwo 1 11] stepsUntilDec_exact [of decTwo 1 12]
    by (simp add: decTwo_clock)
qed

end
