(* ===== verification/Exceptions.thy ===== *)
theory Exceptions
  imports Clock
begin

text \<open>
  Exception entry, \<^verbatim>\<open>Cpu::raiseExc\<close> of \<^verbatim>\<open>core/src/exceptions.cpp\<close>, with the ring of
  recent exceptions and the tally per vector, and the return instruction \<^verbatim>\<open>rfi\<close> of
  \<^verbatim>\<open>core/src/exec_int.cpp\<close>.
\<close>

definition excMsr :: "exc \<Rightarrow> u32 \<Rightarrow> u32" where
  "excMsr v m0 =
     (let m1 = m0 AND (MSR_ME OR MSR_IP OR MSR_ILE);
          m2 = (if m0 AND MSR_ILE \<noteq> 0 then m1 OR MSR_LE else m1)
      in if v = MachineCheck then m2 AND NOT MSR_ME else m2)"

definition raiseExc :: "exc \<Rightarrow> u32 \<Rightarrow> u32 \<Rightarrow> 'b cpu \<Rightarrow> 'b cpu" where
  "raiseExc v s0 extra c =
     (let s = st c;
          s1 = (msr s AND 0x87C0FFFF) OR (extra AND 0x783F0000);
          m = excMsr v (msr s);
          base = (if m AND MSR_IP \<noteq> 0 then 0xFFF00000 else 0x00000000);
          s' = s\<lparr>srr0 := s0, srr1 := s1, msr := m, pc := base OR excVec v\<rparr>;
          r = \<lparr>erVec = excVec v, erSrr0 = s0, erSrr1 = s1, erDar = dar s, erDsisr = dsisr s,
               erR0 = gpr s 0, erLr = lr s, erTb = tb s\<rparr>;
          i = ins c;
          slot = excRingAt i AND (kExcRing - 1);
          tally = drop_bit 8 (excVec v) AND 15
      in c\<lparr>raisedThisStep := True, st := s',
           ins := i\<lparr>excRing := (excRing i)(slot := r), excRingAt := excRingAt i + 1,
                     excByVec := (excByVec i)(tally := excByVec i tally + 1)\<rparr>\<rparr>)"

definition h_rfi :: "'b cpu \<Rightarrow> u32 \<Rightarrow> 'b cpu" where
  "h_rfi c i =
     c\<lparr>st := (st c)\<lparr>msr := srr1 (st c) AND MSR_VALID, pc := srr0 (st c) AND NOT 3\<rparr>\<rparr>"

lemma raiseExc_st [simp]:
  "srr0 (st (raiseExc v s0 extra c)) = s0"
  "srr1 (st (raiseExc v s0 extra c)) = (msr (st c) AND 0x87C0FFFF) OR (extra AND 0x783F0000)"
  "msr (st (raiseExc v s0 extra c)) = excMsr v (msr (st c))"
  "gpr (st (raiseExc v s0 extra c)) = gpr (st c)"
  "raisedThisStep (raiseExc v s0 extra c)"
  by (simp_all add: raiseExc_def Let_def)

text \<open>Everything an exception does not touch.\<close>

lemma raiseExc_frame [cpu_frame]:
  "busVt (raiseExc v s0 extra c) = busVt c" "busSt (raiseExc v s0 extra c) = busSt c"
  "l1x (raiseExc v s0 extra c) = l1x c" "l1d (raiseExc v s0 extra c) = l1d c"
  "l1dClock (raiseExc v s0 extra c) = l1dClock c" "l2 (raiseExc v s0 extra c) = l2 c"
  "l2Sets (raiseExc v s0 extra c) = l2Sets c" "l2Inert (raiseExc v s0 extra c) = l2Inert c"
  "l2cr (st (raiseExc v s0 extra c)) = l2cr (st c)" "hid0 (st (raiseExc v s0 extra c)) = hid0 (st c)"
  "dtlb (raiseExc v s0 extra c) = dtlb c" "itlb (raiseExc v s0 extra c) = itlb c"
  "sr (st (raiseExc v s0 extra c)) = sr (st c)" "tb (st (raiseExc v s0 extra c)) = tb (st c)"
  "cr (st (raiseExc v s0 extra c)) = cr (st c)" "xer (st (raiseExc v s0 extra c)) = xer (st c)"
  "halted (raiseExc v s0 extra c) = halted c" "napping (raiseExc v s0 extra c) = napping c"
  by (simp_all add: raiseExc_def Let_def)

lemma srr1_to_msr:
  fixes m x :: u32
  shows "((m AND 0x87C0FFFF) OR (x AND 0x783F0000)) AND MSR_VALID =
      (m AND MSR_VALID AND NOT (MSR_ILE OR MSR_POW)) OR (x AND (MSR_ILE OR MSR_POW))"
proof -
  have "((m AND 0x87C0FFFF) OR (x AND 0x783F0000)) AND MSR_VALID
      = (m AND (0x87C0FFFF AND MSR_VALID)) OR (x AND (0x783F0000 AND MSR_VALID))"
    by (simp only: and.assoc bit.conj_disj_distrib2)
  also have "(0x87C0FFFF AND MSR_VALID :: u32) = MSR_VALID AND NOT (MSR_ILE OR MSR_POW)"
    by (simp add: MSR_VALID_def)
  also have "(0x783F0000 AND MSR_VALID :: u32) = MSR_ILE OR MSR_POW"
    by (simp add: MSR_VALID_def)
  finally show ?thesis by (simp only: and.assoc)
qed

section \<open>Properties\<close>

text \<open>
  C38. Taking an exception and returning with \<^verbatim>\<open>rfi\<close> restores the program counter (word
  aligned) and the MSR bits SRR1 saves. The other two bits the 7400 implements are not
  restored: ILE is replaced by bit 15 of the exception's status and POW by bit 13, so
  returning from a privileged-instruction exception, whose status bit is bit 13, sets
  MSR[POW], and returning from any exception without status clears MSR[ILE].
\<close>

theorem rfi_after_exception:
  "pc (st (h_rfi (raiseExc v s0 extra c) i)) = s0 AND NOT 3 \<and>
   msr (st (h_rfi (raiseExc v s0 extra c) i)) =
     (msr (st c) AND MSR_VALID AND NOT (MSR_ILE OR MSR_POW)) OR (extra AND (MSR_ILE OR MSR_POW))"
  by (simp add: h_rfi_def srr1_to_msr)

end
