(* ===== verification/Cache.thy ===== *)
theory Cache
  imports Exceptions
begin

text \<open>
  The data caches of \<^verbatim>\<open>core/src/cache.cpp\<close>: the 8-way L1 data cache with its index
  apart from its data, the 2-way backside L2, the cached and uncached access paths, the
  cache-control operations, and the snoop response to a bus master. Instruments (the
  read and write watchpoints, the skew census) are part of the state they are kept in;
  the write watchpoint's start gate \<^verbatim>\<open>wpStamp\<close> is null, as it is unless a harness
  arms it. A way that is not found is \<^term>\<open>None\<close> where the code returns -1.
\<close>

section \<open>Byte order inside a line\<close>

definition setOf :: "u32 \<Rightarrow> u32" where
  "setOf pa = drop_bit 5 pa AND 127"

definition tagOf :: "u32 \<Rightarrow> u32" where
  "tagOf pa = drop_bit 12 pa"

definition tvOf :: "u32 \<Rightarrow> u32" where
  "tvOf pa = push_bit 1 (tagOf pa) OR 1"

abbreviation (input) kWimgW :: u32 where "kWimgW \<equiv> 8"
abbreviation (input) kWimgI :: u32 where "kWimgI \<equiv> 4"
abbreviation (input) kWimgG :: u32 where "kWimgG \<equiv> 1"
abbreviation (input) kWimgReal :: u32 where "kWimgReal \<equiv> 3"

text \<open>\<^verbatim>\<open>memcpy\<close> of a machine word on the little-endian host.\<close>

definition hostLoad16 :: "(u32 \<Rightarrow> u8) \<Rightarrow> u32 \<Rightarrow> u16" where
  "hostLoad16 p o1 = ucast (p o1) OR push_bit 8 (ucast (p (o1 + 1)))"

definition hostLoad32 :: "(u32 \<Rightarrow> u8) \<Rightarrow> u32 \<Rightarrow> u32" where
  "hostLoad32 p o1 = ucast (p o1) OR push_bit 8 (ucast (p (o1 + 1)))
     OR push_bit 16 (ucast (p (o1 + 2))) OR push_bit 24 (ucast (p (o1 + 3)))"

definition hostLoad64 :: "(u32 \<Rightarrow> u8) \<Rightarrow> u32 \<Rightarrow> u64" where
  "hostLoad64 p o1 = ucast (hostLoad32 p o1) OR push_bit 32 (ucast (hostLoad32 p (o1 + 4)))"

definition hostStore16 :: "u32 \<Rightarrow> u16 \<Rightarrow> (u32 \<Rightarrow> u8) \<Rightarrow> u32 \<Rightarrow> u8" where
  "hostStore16 o1 t p = p(o1 := ucast t, o1 + 1 := ucast (drop_bit 8 t))"

definition hostStore32 :: "u32 \<Rightarrow> u32 \<Rightarrow> (u32 \<Rightarrow> u8) \<Rightarrow> u32 \<Rightarrow> u8" where
  "hostStore32 o1 t p = p(o1 := ucast t, o1 + 1 := ucast (drop_bit 8 t),
     o1 + 2 := ucast (drop_bit 16 t), o1 + 3 := ucast (drop_bit 24 t))"

definition hostStore64 :: "u32 \<Rightarrow> u64 \<Rightarrow> (u32 \<Rightarrow> u8) \<Rightarrow> u32 \<Rightarrow> u8" where
  "hostStore64 o1 t p = hostStore32 (o1 + 4) (ucast (drop_bit 32 t)) (hostStore32 o1 (ucast t) p)"

definition bswap32 :: "u32 \<Rightarrow> u32" where
  "bswap32 v = push_bit 24 (v AND 0xFF) OR push_bit 8 (v AND 0xFF00)
     OR (drop_bit 8 v AND 0xFF00) OR drop_bit 24 v"

definition bswap64 :: "u64 \<Rightarrow> u64" where
  "bswap64 v0 =
     (let v1 = push_bit 8 (v0 AND 0x00FF00FF00FF00FF) OR (drop_bit 8 v0 AND 0x00FF00FF00FF00FF);
          v2 = push_bit 16 (v1 AND 0x0000FFFF0000FFFF) OR (drop_bit 16 v1 AND 0x0000FFFF0000FFFF)
      in push_bit 32 v2 OR drop_bit 32 v2)"

definition lineLoadBE :: "(u32 \<Rightarrow> u8) \<Rightarrow> u32 \<Rightarrow> u32 \<Rightarrow> u64" where
  "lineLoadBE p o1 len =
     (if len = 1 then ucast (p o1)
      else if len = 2 then (let v = hostLoad16 p o1 in ucast (drop_bit 8 v OR push_bit 8 v))
      else if len = 4 then ucast (bswap32 (hostLoad32 p o1))
      else if len = 8 then bswap64 (hostLoad64 p o1)
      else be_bytes (map (\<lambda>i. p (o1 + of_nat i)) [0..<unat len]))"

definition lineStoreBE :: "(u32 \<Rightarrow> u8) \<Rightarrow> u32 \<Rightarrow> u32 \<Rightarrow> u64 \<Rightarrow> u32 \<Rightarrow> u8" where
  "lineStoreBE p o1 len v =
     (if len = 1 then p(o1 := ucast v)
      else if len = 2 then
        (let w = ucast v :: u16 in hostStore16 o1 (drop_bit 8 w OR push_bit 8 w) p)
      else if len = 4 then hostStore32 o1 (bswap32 (ucast v)) p
      else if len = 8 then hostStore64 o1 (bswap64 v) p
      else fold (\<lambda>i q. q(o1 + of_nat i := be_byte (unat len) v i)) [0..<unat len] p)"

section \<open>The L1 index\<close>

definition dceOn :: "'b cpu \<Rightarrow> bool" where
  "dceOn c \<longleftrightarrow> hid0 (st c) AND 0x00004000 \<noteq> 0"

definition ways8 :: "u32 list" where
  "ways8 = [0, 1, 2, 3, 4, 5, 6, 7]"

definition lineWayQuiet :: "'b cpu \<Rightarrow> u32 \<Rightarrow> u32 option" where
  "lineWayQuiet c pa = find (\<lambda>w. dxTv (l1x c (setOf pa)) w = tvOf pa) ways8"

definition setTv :: "u32 \<Rightarrow> u32 \<Rightarrow> u32 \<Rightarrow> 'b cpu \<Rightarrow> 'b cpu" where
  "setTv s w v = l1x_update (\<lambda>x. x(s := (x s)\<lparr>dxTv := (dxTv (x s))(w := v)\<rparr>))"

definition touchAge :: "u32 \<Rightarrow> u32 \<Rightarrow> 'b cpu \<Rightarrow> 'b cpu" where
  "touchAge s w c =
     (let k = l1dClock c + 1
      in c\<lparr>l1dClock := k, l1x := (l1x c)(s := (l1x c s)\<lparr>dxAge := (dxAge (l1x c s))(w := k)\<rparr>)\<rparr>)"

definition setLine :: "u32 \<Rightarrow> u32 \<Rightarrow> dline \<Rightarrow> 'b cpu \<Rightarrow> 'b cpu" where
  "setLine s w e = l1d_update (\<lambda>d. d(s := (d s)(w := e)))"

definition setDirty :: "u32 \<Rightarrow> u32 \<Rightarrow> bool \<Rightarrow> 'b cpu \<Rightarrow> 'b cpu" where
  "setDirty s w b = l1d_update (\<lambda>d. d(s := (d s)(w := (d s w)\<lparr>dlD := b\<rparr>)))"

definition lineWay :: "u32 \<Rightarrow> 'b cpu \<Rightarrow> u32 option \<times> 'b cpu" where
  "lineWay pa c =
     (case lineWayQuiet c pa of
        None \<Rightarrow> (None, c)
      | Some w \<Rightarrow> (Some w, touchAge (setOf pa) w c))"

definition cacheBusWriteLine :: "u32 \<Rightarrow> (u32 \<Rightarrow> u8) \<Rightarrow> 'b cpu \<Rightarrow> 'b cpu" where
  "cacheBusWriteLine base b c = busWriteBurst base b (fetchDropAt base c)"

section \<open>The backside L2\<close>

definition l2On :: "'b cpu \<Rightarrow> bool" where
  "l2On c \<longleftrightarrow> l2cr (st c) AND 0x80000000 \<noteq> 0"

definition l2SetSync :: "'b cpu \<Rightarrow> 'b cpu" where
  "l2SetSync c =
     (if l2SetsSeen c \<noteq> l2Sets c
      then c\<lparr>l2SetsSeen := l2Sets c,
             l2SetMask := (if l2Sets c \<noteq> 0 \<and> l2Sets c AND (l2Sets c - 1) = 0 then l2Sets c - 1 else 0)\<rparr>
      else c)"

definition l2SetOf :: "u32 \<Rightarrow> 'b cpu \<Rightarrow> u32 \<times> 'b cpu" where
  "l2SetOf pa c =
     (let c1 = l2SetSync c; line = drop_bit 5 pa
      in (if l2SetMask c1 \<noteq> 0 then line AND l2SetMask c1 else line mod l2Sets c1, c1))"

fun l2FlushLines :: "bool \<Rightarrow> nat list \<Rightarrow> 'b cpu \<Rightarrow> 'b cpu" where
  "l2FlushLines wb [] c = c"
| "l2FlushLines wb (i # is) c =
     (let e = l2 c ! i;
          c1 = (if l2V e \<and> l2D e \<and> wb then cacheBusWriteLine (push_bit 5 (l2Tag e)) (l2B e) c else c)
      in l2FlushLines wb is (c1\<lparr>l2 := (l2 c1)[i := e\<lparr>l2V := False, l2D := False\<rparr>]\<rparr>))"

definition l2FlushAll :: "bool \<Rightarrow> 'b cpu \<Rightarrow> 'b cpu" where
  "l2FlushAll writeback c =
     (let c1 = fetchDrop c in l2FlushLines writeback [0..<length (l2 c1)] c1)"

definition l2Resize :: "'b cpu \<Rightarrow> 'b cpu" where
  "l2Resize c =
     (let k = drop_bit 28 (l2cr (st c)) AND 3;
          bytes = (if k = 0 then 0x200000 else if k = 1 then 0x40000
                   else if k = 2 then 0x80000 else 0x100000 :: u32);
          sets = bytes div 32 div 2
      in if sets \<noteq> l2Sets c
         then (l2FlushAll True c)\<lparr>l2Sets := sets, l2 := replicate (unat sets * 2) emptyL2Line\<rparr>
         else c)"

definition l2HitIdx :: "l2_line list \<Rightarrow> u32 \<Rightarrow> u32 \<Rightarrow> nat option" where
  "l2HitIdx ls s tag = find (\<lambda>i. l2V (ls ! i) \<and> l2Tag (ls ! i) = tag) [unat s * 2, unat s * 2 + 1]"

definition l2Find :: "u32 \<Rightarrow> 'b cpu \<Rightarrow> nat option \<times> 'b cpu" where
  "l2Find pa c =
     (if \<not> l2On c \<or> l2Sets c = 0 \<or> l2Inert c then (None, c)
      else case l2SetOf pa c of (s, c1) \<Rightarrow>
        (case l2HitIdx (l2 c1) s (drop_bit 5 pa) of
           None \<Rightarrow> (None, c1)
         | Some i \<Rightarrow>
             (Some i, c1\<lparr>l2Clock := l2Clock c1 + 1,
                         l2 := (l2 c1)[i := (l2 c1 ! i)\<lparr>l2Age := l2Clock c1 + 1\<rparr>]\<rparr>)))"

text \<open>The line an install goes to: the hit, else an invalid way, else the older one.\<close>

definition l2Slot :: "l2_line list \<Rightarrow> u32 \<Rightarrow> u32 \<Rightarrow> nat" where
  "l2Slot ls s tag =
     (let ia = unat s * 2; ib = unat s * 2 + 1 in
      case l2HitIdx ls s tag of
        Some j \<Rightarrow> j
      | None \<Rightarrow> if \<not> l2V (ls ! ia) then ia else if \<not> l2V (ls ! ib) then ib
                else if l2Age (ls ! ia) \<le> l2Age (ls ! ib) then ia else ib)"

definition l2InstallAt :: "u32 \<Rightarrow> u32 \<Rightarrow> (u32 \<Rightarrow> u8) \<Rightarrow> bool \<Rightarrow> 'b cpu \<Rightarrow> 'b cpu" where
  "l2InstallAt s tag bytes dirty c2 =
     (let hitIdx = l2HitIdx (l2 c2) s tag;
          i = l2Slot (l2 c2) s tag;
          e = l2 c2 ! i;
          c3 = (if hitIdx = None \<and> l2V e \<and> l2D e
                then cacheBusWriteLine (push_bit 5 (l2Tag e)) (l2B e) c2 else c2)
      in c3\<lparr>l2Clock := l2Clock c3 + 1,
            l2 := (l2 c3)[i := \<lparr>l2V = True, l2D = dirty \<or> (hitIdx \<noteq> None \<and> l2D e),
                                l2Tag = tag, l2Age = l2Clock c3 + 1,
                                l2B = (\<lambda>k. if k < 32 then bytes k else l2B e k)\<rparr>]\<rparr>)"

definition l2Install :: "u32 \<Rightarrow> (u32 \<Rightarrow> u8) \<Rightarrow> bool \<Rightarrow> 'b cpu \<Rightarrow> 'b cpu" where
  "l2Install pa bytes dirty c =
     (if \<not> l2On c then c
      else let c0 = (if dirty then fetchDropAt pa c else c) in
        if l2Inert c0 then (if dirty then cacheBusWriteLine pa bytes c0 else c0)
        else let c1 = (if l2Sets c0 = 0 then l2Resize c0 else c0) in
          case l2SetOf pa c1 of (s, c2) \<Rightarrow> l2InstallAt s (drop_bit 5 pa) bytes dirty c2)"

definition l2ReadLine :: "u32 \<Rightarrow> 'b cpu \<Rightarrow> (u32 \<Rightarrow> u8) option \<times> 'b cpu" where
  "l2ReadLine pa c =
     (case l2Find pa c of
        (None, c1) \<Rightarrow> (None, c1)
      | (Some i, c1) \<Rightarrow> (Some (l2B (l2 c1 ! i)), c1))"

definition l2Invalidate :: "u32 \<Rightarrow> 'b cpu \<Rightarrow> 'b cpu" where
  "l2Invalidate pa c =
     (let c0 = fetchDropAt pa c in
      if l2Sets c0 = 0 then c0
      else case l2SetOf pa c0 of (s, c1) \<Rightarrow>
        c1\<lparr>l2 := fold (\<lambda>i ls. if l2V (ls ! i) \<and> l2Tag (ls ! i) = drop_bit 5 pa
                               then ls[i := (ls ! i)\<lparr>l2V := False\<rparr>] else ls)
                      [unat s * 2, unat s * 2 + 1] (l2 c1)\<rparr>)"

definition l2WipeAll :: "'b cpu \<Rightarrow> 'b cpu" where
  "l2WipeAll c = (let c1 = fetchDrop c in c1\<lparr>l2 := map (\<lambda>_. emptyL2Line) (l2 c1)\<rparr>)"

definition word32At :: "(u32 \<Rightarrow> u8) \<Rightarrow> u32 \<Rightarrow> u32" where
  "word32At b o1 = push_bit 24 (ucast (b o1)) OR push_bit 16 (ucast (b (o1 + 1)))
     OR push_bit 8 (ucast (b (o1 + 2))) OR ucast (b (o1 + 3))"

definition l2Peek32 :: "u32 \<Rightarrow> 'b cpu \<Rightarrow> u32 option \<times> 'b cpu" where
  "l2Peek32 pa c =
     (case l2Find pa c of
        (None, c1) \<Rightarrow> (None, c1)
      | (Some i, c1) \<Rightarrow> (Some (word32At (l2B (l2 c1 ! i)) (pa AND 31 AND NOT 3)), c1))"

section \<open>Filling and evicting L1 lines\<close>

definition lineBase :: "u32 \<Rightarrow> u32 \<Rightarrow> u32" where
  "lineBase s tag = push_bit 12 tag OR push_bit 5 s"

definition lineCastout :: "u32 \<Rightarrow> u32 \<Rightarrow> u32 \<Rightarrow> 'b cpu \<Rightarrow> 'b cpu" where
  "lineCastout s w tag c =
     (let base = lineBase s tag; e = l1d c s w;
          c1 = (if l2On c then l2Install base (dlB e) True c else cacheBusWriteLine base (dlB e) c)
      in setDirty s w False c1)"

definition linePush :: "u32 \<Rightarrow> u32 \<Rightarrow> u32 \<Rightarrow> 'b cpu \<Rightarrow> 'b cpu" where
  "linePush s w tag c =
     (let base = lineBase s tag; e = l1d c s w;
          c1 = (if l2On c \<and> l2cr (st c) AND 0x00040000 \<noteq> 0 then l2Install base (dlB e) True c
                else l2Invalidate base (cacheBusWriteLine base (dlB e) c))
      in setDirty s w False c1)"

definition lineFill :: "u32 \<Rightarrow> u32 \<Rightarrow> u32 \<Rightarrow> 'b cpu \<Rightarrow> 'b cpu" where
  "lineFill s w pa c =
     (let base = pa AND NOT 31 in
      case l2ReadLine base c of
        (Some b, c1) \<Rightarrow> setLine s w \<lparr>dlB = b, dlD = False\<rparr> (setTv s w (tvOf pa) c1)
      | (None, c1) \<Rightarrow>
          (case busReadLine base c1 of (b, c2) \<Rightarrow>
             (let c3 = (if l2On c2 then l2Install base b False c2 else c2)
              in setLine s w \<lparr>dlB = b, dlD = False\<rparr> (setTv s w (tvOf pa) c3))))"

text \<open>The victim loop: the first invalid way ends it, else the least age so far wins.\<close>

fun victimScan :: "didx \<Rightarrow> u32 list \<Rightarrow> u32 \<Rightarrow> u32 + u32" where
  "victimScan x [] best = Inr best"
| "victimScan x (w # ws) best =
     (if dxTv x w AND 1 = 0 then Inl w
      else victimScan x ws (if dxAge x w < dxAge x best then w else best))"

definition lineVictim :: "u32 \<Rightarrow> 'b cpu \<Rightarrow> u32 \<times> 'b cpu" where
  "lineVictim pa c =
     (let s = setOf pa in
      case victimScan (l1x c s) ways8 0 of
        Inl w \<Rightarrow> (w, c)
      | Inr best \<Rightarrow>
          (let c1 = (if dlD (l1d c s best)
                     then lineCastout s best (drop_bit 1 (dxTv (l1x c s) best)) c else c)
           in (best, setTv s best 0 c1)))"

section \<open>Accesses\<close>

definition noteL2Skew :: "u32 \<Rightarrow> bool \<Rightarrow> 'b cpu \<Rightarrow> 'b cpu" where
  "noteL2Skew pa write c =
     (if \<not> l2On c \<or> l2Sets c = 0 \<or> l2Inert c then c
      else let base = pa AND NOT 31 in
        case l2SetOf base c of (s, c1) \<Rightarrow>
          (if l2HitIdx (l2 c1) s (drop_bit 5 base) = None then c1
           else let i = ins c1; at = pc (st c1) - 4;
                    i1 = (if write then i\<lparr>l2SkewW := l2SkewW i + 1\<rparr> else i\<lparr>l2SkewR := l2SkewR i + 1\<rparr>)
                in c1\<lparr>ins := i1\<lparr>l2SkewByPc := mapIncrCap 512 at (l2SkewByPc i1)\<rparr>\<rparr>))"

definition rpNote :: "u32 \<Rightarrow> u32 \<Rightarrow> 'b cpu \<Rightarrow> 'b cpu" where
  "rpNote pa len c =
     (let i = ins c in
      if rpEnd i \<noteq> 0 \<and> pa \<le> rpEnd i \<and> rpPa i < pa + len
      then c\<lparr>ins := i\<lparr>rpHits := rpHits i + 1,
                      rpByPc := mapIncrCap 512 (pc (st c) - 4) (rpByPc i),
                      rpByLr := mapIncrCap 512 (lr (st c)) (rpByLr i)\<rparr>\<rparr>
      else c)"

definition busReadLen :: "u32 \<Rightarrow> u32 \<Rightarrow> 'b cpu \<Rightarrow> u64 \<times> 'b cpu" where
  "busReadLen pa len c =
     (if len = 1 then map_prod ucast id (busRead8 pa c)
      else if len = 2 then map_prod ucast id (busRead16 pa c)
      else if len = 4 then map_prod ucast id (busRead32 pa c)
      else busRead64 pa c)"

definition busWriteLen :: "u32 \<Rightarrow> u32 \<Rightarrow> u64 \<Rightarrow> 'b cpu \<Rightarrow> 'b cpu" where
  "busWriteLen pa len v c =
     (if len = 1 then busWrite8 pa (ucast v) c
      else if len = 2 then busWrite16 pa (ucast v) c
      else if len = 4 then busWrite32 pa (ucast v) c
      else busWrite64 pa v c)"

text \<open>Find or allocate the line of an address: \<^verbatim>\<open>lineWay\<close>, then victim and fill on a miss.\<close>

definition lineAlloc :: "u32 \<Rightarrow> 'b cpu \<Rightarrow> u32 \<times> 'b cpu" where
  "lineAlloc pa c =
     (case lineWay pa c of
        (Some w, c1) \<Rightarrow> (w, c1)
      | (None, c1) \<Rightarrow>
          (case lineVictim pa c1 of (w, c2) \<Rightarrow>
             (w, touchAge (setOf pa) w (lineFill (setOf pa) w pa c2))))"

definition memReadBlock :: "u32 \<Rightarrow> u32 \<Rightarrow> u32 \<Rightarrow> 'b cpu \<Rightarrow> u64 \<times> 'b cpu" where
  "memReadBlock pa len wimg c0 =
     (let c = rpNote pa len c0 in
      if \<not> dceOn c \<or> wimg AND kWimgI \<noteq> 0 then busReadLen pa len (noteL2Skew pa False c)
      else case lineAlloc pa c of (w, c1) \<Rightarrow>
        (lineLoadBE (dlB (l1d c1 (setOf pa) w)) (pa AND 31) len, c1))"

fun memReadBytes :: "u32 \<Rightarrow> u32 \<Rightarrow> nat list \<Rightarrow> u64 \<Rightarrow> 'b cpu \<Rightarrow> u64 \<times> 'b cpu" where
  "memReadBytes pa wimg [] v c = (v, c)"
| "memReadBytes pa wimg (i # is) v c =
     (case memReadBlock (pa + of_nat i) 1 wimg c of
        (x, c1) \<Rightarrow> memReadBytes pa wimg is (push_bit 8 v OR x) c1)"

text \<open>
  The recursive calls of \<^verbatim>\<open>memRead\<close> and \<^verbatim>\<open>memWrite\<close> are for single bytes, which
  never cross a block, so they take the non-crossing path.
\<close>

definition memRead :: "u32 \<Rightarrow> u32 \<Rightarrow> u32 \<Rightarrow> 'b cpu \<Rightarrow> u64 \<times> 'b cpu" where
  "memRead pa len wimg c =
     (if dceOn c \<and> wimg AND kWimgI = 0 \<and> 32 < (pa AND 31) + len
      then memReadBytes pa wimg [0..<unat len] 0 (rpNote pa len c)
      else memReadBlock pa len wimg c)"

definition wpNote :: "u32 \<Rightarrow> u32 \<Rightarrow> u64 \<Rightarrow> 'b cpu \<Rightarrow> bool \<times> 'b cpu" where
  "wpNote pa len v c =
     (let i = ins c in
      if wpEnd i = 0 \<or> wpEnd i < pa \<or> pa + len \<le> wpPa i then (False, c)
      else let at = pc (st c) - 4;
               old = (case map_of (wpByPa i) pa of None \<Rightarrow> (0, 0) | Some s \<Rightarrow> s);
               i1 = i\<lparr>wpHits := wpHits i + 1,
                      wpByPa := AList.update pa (fst old + 1, if snd old < len then len else snd old) (wpByPa i),
                      wpByPc := mapIncr at (wpByPc i)\<rparr>;
               h = \<lparr>whPc = at, whPa = pa, whVal = ucast v, whLen = len, whLr = lr (st c),
                    whTb = tb (st c), whAt = 0, whR24 = gpr (st c) 24, whDec = decIrqs i, whExt = extIrqs i\<rparr>
           in (True, c\<lparr>ins := (if length (wpLog i1) < unat (wpMax i1)
                                then i1\<lparr>wpLog := wpLog i1 @ [h]\<rparr> else i1)\<rparr>))"

definition storeLine :: "u32 \<Rightarrow> u32 \<Rightarrow> u32 \<Rightarrow> u64 \<Rightarrow> 'b cpu \<Rightarrow> 'b cpu" where
  "storeLine w pa len v c =
     (let s = setOf pa; e = l1d c s w
      in setLine s w (e\<lparr>dlB := lineStoreBE (dlB e) (pa AND 31) len v\<rparr>) c)"

definition memWriteBlock :: "u32 \<Rightarrow> u32 \<Rightarrow> u64 \<Rightarrow> u32 \<Rightarrow> 'b cpu \<Rightarrow> 'b cpu" where
  "memWriteBlock pa len v wimg c =
     (if \<not> dceOn c \<or> wimg AND kWimgI \<noteq> 0 then busWriteLen pa len v (noteL2Skew pa True c)
      else if wimg AND kWimgW \<noteq> 0 then
        (case lineWay pa c of (wo, c1) \<Rightarrow>
           let c2 = noteL2Skew pa True c1;
               c3 = (case wo of Some w \<Rightarrow> storeLine w pa len v c2 | None \<Rightarrow> c2)
           in busWriteLen pa len v c3)
      else case lineAlloc pa c of (w, c1) \<Rightarrow>
        setDirty (setOf pa) w True (storeLine w pa len v c1))"

definition memWriteEntry :: "u32 \<Rightarrow> u32 \<Rightarrow> u64 \<Rightarrow> 'b cpu \<Rightarrow> u64 \<times> 'b cpu" where
  "memWriteEntry pa len v c =
     (let c1 = fetchDropRange pa len c in
      case wpNote pa len v c1 of (hit, c2) \<Rightarrow>
        (if hit \<and> wpForceSet (ins c2) \<and> len = 4 \<and> pa = wpPa (ins c2)
         then ucast (wpForce (ins c2)) else v, c2))"

fun memWriteBytes :: "u32 \<Rightarrow> nat \<Rightarrow> u64 \<Rightarrow> u32 \<Rightarrow> nat list \<Rightarrow> 'b cpu \<Rightarrow> 'b cpu" where
  "memWriteBytes pa len v wimg [] c = c"
| "memWriteBytes pa len v wimg (i # is) c =
     (case memWriteEntry (pa + of_nat i) 1 (drop_bit (8 * (len - 1 - i)) v AND 0xFF) c of
        (x, c1) \<Rightarrow> memWriteBytes pa len v wimg is (memWriteBlock (pa + of_nat i) 1 x wimg c1))"

definition memWrite :: "u32 \<Rightarrow> u32 \<Rightarrow> u64 \<Rightarrow> u32 \<Rightarrow> 'b cpu \<Rightarrow> 'b cpu" where
  "memWrite pa len v wimg c =
     (case memWriteEntry pa len v c of (v', c1) \<Rightarrow>
        (if dceOn c1 \<and> wimg AND kWimgI = 0 \<and> 32 < (pa AND 31) + len
         then memWriteBytes pa (unat len) v' wimg [0..<unat len] c1
         else memWriteBlock pa len v' wimg c1))"

definition l1dReadLine :: "u32 \<Rightarrow> 'b cpu \<Rightarrow> (u32 \<Rightarrow> u8) option" where
  "l1dReadLine pa c =
     (if \<not> dceOn c then None
      else map_option (\<lambda>w. dlB (l1d c (setOf pa) w)) (lineWayQuiet c pa))"

definition l1dPeek32 :: "u32 \<Rightarrow> 'b cpu \<Rightarrow> u32 option" where
  "l1dPeek32 pa c =
     (if \<not> dceOn c then None
      else map_option (\<lambda>w. word32At (dlB (l1d c (setOf pa) w)) (pa AND 31 AND NOT 3)) (lineWayQuiet c pa))"

section \<open>Cache control\<close>

definition dcbzLine :: "u32 \<Rightarrow> 'b cpu \<Rightarrow> 'b cpu" where
  "dcbzLine pa c =
     (let c0 = fetchDropAt pa c;
          c1 = snd (wpNote pa 32 0 c0);
          s = setOf pa in
      case lineWay pa c1 of (wo, c2) \<Rightarrow>
        (case (case wo of
                 Some w \<Rightarrow> (w, c2)
               | None \<Rightarrow> (case lineVictim pa c2 of (w, c3) \<Rightarrow> (w, touchAge s w (setTv s w (tvOf pa) c3)))) of
           (w, c4) \<Rightarrow>
             setLine s w \<lparr>dlB = (\<lambda>k. if k < 32 then 0 else dlB (l1d c4 s w) k), dlD = True\<rparr> c4))"

definition dcbClean :: "u32 \<Rightarrow> bool \<Rightarrow> 'b cpu \<Rightarrow> 'b cpu" where
  "dcbClean pa invalidate c =
     (let c0 = fetchDropAt pa c; s = setOf pa in
      case lineWay pa c0 of
        (None, c1) \<Rightarrow> c1
      | (Some w, c1) \<Rightarrow>
          (let c2 = (if dlD (l1d c1 s w) then linePush s w (drop_bit 1 (dxTv (l1x c1 s) w)) c1 else c1)
           in if invalidate then setTv s w 0 c2 else c2))"

definition dcbKill :: "u32 \<Rightarrow> 'b cpu \<Rightarrow> 'b cpu" where
  "dcbKill pa c =
     (let c0 = fetchDropAt pa c in
      case lineWay pa c0 of (wo, c1) \<Rightarrow>
        l2Invalidate (pa AND NOT 31)
          (case wo of Some w \<Rightarrow> setTv (setOf pa) w 0 c1 | None \<Rightarrow> c1))"

definition snoopL1 :: "bool \<Rightarrow> u32 \<Rightarrow> 'b cpu \<Rightarrow> 'b cpu" where
  "snoopL1 invalidate a c1 =
     (let s = setOf a in
      if dceOn c1 then
        (case lineWayQuiet c1 a of
           None \<Rightarrow> c1
         | Some w \<Rightarrow>
             (let d1 = (if dlD (l1d c1 s w)
                        then l2Invalidate a (setDirty s w False
                               (cacheBusWriteLine a (dlB (l1d c1 s w)) c1))
                        else c1)
              in if invalidate then setTv s w 0 d1 else d1))
      else c1)"

definition snoopL2 :: "bool \<Rightarrow> u32 \<Rightarrow> 'b cpu \<Rightarrow> 'b cpu" where
  "snoopL2 invalidate a c2 =
     (case l2Find a c2 of
        (None, c3) \<Rightarrow> c3
      | (Some i, c3) \<Rightarrow>
          (let e = l2 c3 ! i;
               c4 = (if l2D e
                     then (let c' = cacheBusWriteLine a (l2B e) c3
                           in c'\<lparr>l2 := (l2 c')[i := (l2 c' ! i)\<lparr>l2D := False\<rparr>]\<rparr>)
                     else c3)
           in if invalidate then c4\<lparr>l2 := (l2 c4)[i := (l2 c4 ! i)\<lparr>l2V := False\<rparr>]\<rparr> else c4))"

definition snoopBlock :: "bool \<Rightarrow> u32 \<Rightarrow> 'b cpu \<Rightarrow> 'b cpu" where
  "snoopBlock invalidate a c =
     snoopL2 invalidate a (snoopL1 invalidate a (if invalidate then fetchDropAt a c else c))"

function snoopLoop :: "bool \<Rightarrow> u32 \<Rightarrow> u32 \<Rightarrow> 'b cpu \<Rightarrow> 'b cpu" where
  "snoopLoop invalidate lastB a c =
     (let c1 = snoopBlock invalidate a c
      in if a = lastB \<or> a + 32 < a then c1 else snoopLoop invalidate lastB (a + 32) c1)"
  by pat_completeness auto
termination
proof (relation "measure (\<lambda>(i, l, a, c). 2 ^ 32 - unat a)", goal_cases)
  case 1
  then show ?case by simp
next
  case (2 i l a c x)
  then have "a \<le> a + 32" by auto
  then have "unat (a + 32) = unat a + 32"
    using unat_plus_simple [of a 32] by simp
  moreover have "unat (a + 32) < 2 ^ 32"
    using unsigned_less [of "a + 32", where ?'a = nat] by simp
  ultimately show ?case by simp
qed

definition snoopPush :: "u32 \<Rightarrow> u32 \<Rightarrow> bool \<Rightarrow> 'b cpu \<Rightarrow> 'b cpu" where
  "snoopPush pa len invalidate c =
     (if len = 0 then c
      else snoopLoop invalidate ((pa + len - 1) AND NOT 31) (pa AND NOT 31) c)"

fun l1dFlushLines :: "bool \<Rightarrow> (u32 \<times> u32) list \<Rightarrow> 'b cpu \<Rightarrow> 'b cpu" where
  "l1dFlushLines wb [] c = c"
| "l1dFlushLines wb ((s, w) # ps) c =
     (let e = l1d c s w; tv = dxTv (l1x c s) w;
          base = lineBase s (drop_bit 1 tv);
          c1 = (if tv AND 1 \<noteq> 0 \<and> dlD e
                then l2Invalidate base (if wb then cacheBusWriteLine base (dlB e) c else c)
                else c)
      in l1dFlushLines wb ps (setDirty s w False (setTv s w 0 c1)))"

definition l1Slots :: "(u32 \<times> u32) list" where
  "l1Slots = concat (map (\<lambda>s. map (\<lambda>w. (of_nat s, of_nat w)) [0..<8]) [0..<128])"

definition l1dFlushAll :: "bool \<Rightarrow> 'b cpu \<Rightarrow> 'b cpu" where
  "l1dFlushAll writeback c =
     l2FlushAll writeback (l1dFlushLines writeback l1Slots (fetchDrop c))"

declare snoopLoop.simps [simp del]

end
