(* ===== verification/CacheLookup.thy ===== *)
theory CacheLookup
  imports Cache
begin

text \<open>
  Lookup in the two cache levels. The set, tag and block fields of an address; the line an
  L1 lookup finds (\<open>l1At\<close>) and the line an L2 lookup finds (\<open>l2At\<close>), under the
  well-formedness of each index (\<open>wfL1\<close>, \<open>wfL2\<close>: every valid line is a block of
  the region and no set holds a block twice); what changing one way of a set does to the
  lookups.
\<close>

section \<open>Address fields\<close>

lemma setOf_less [simp]: "setOf a < 128"
  unfolding setOf_def using and_mask_less [of 7 "drop_bit 5 a"] by (simp add: mask_eq_exp_minus_1)

lemma tvOf_valid [simp]: "tvOf a AND 1 = 1"
  unfolding tvOf_def by (rule bit_word_eqI) (auto simp: bit_simps)

lemma tvOf_nonzero [simp]: "tvOf a \<noteq> 0"
proof
  assume "tvOf a = 0"
  with tvOf_valid [of a] show False by (simp del: tvOf_valid)
qed

lemma bit_tvOf: "bit (tvOf a) n \<longleftrightarrow> n = 0 \<or> n < 21 \<and> bit a (n + 11)"
  unfolding tvOf_def tagOf_def
  by (cases n) (auto simp: bit_simps ac_simps dest: bit_imp_le_length)

lemma tagOf_of_tv [simp]: "drop_bit 1 (tvOf a) = tagOf a"
  by (rule bit_word_eqI) (auto simp: bit_tvOf tagOf_def bit_simps ac_simps dest: bit_imp_le_length)

lemma bit_setOf: "bit (setOf a) n \<longleftrightarrow> n < 7 \<and> bit a (n + 5)"
proof -
  have m: "(127 :: u32) = mask 7" by (simp add: mask_eq_exp_minus_1)
  show ?thesis unfolding setOf_def m by (auto simp: bit_simps ac_simps)
qed

lemma setOf_blk [simp]: "setOf (blk a) = setOf a"
  by (rule bit_word_eqI) (auto simp: bit_setOf blk_def mask5 bit_simps)

lemma tvOf_blk [simp]: "tvOf (blk a) = tvOf a"
  by (rule bit_word_eqI) (auto simp: bit_tvOf blk_def mask5 bit_simps)

lemma drop5_blk [simp]: "drop_bit 5 (blk a) = drop_bit 5 a"
  by (rule bit_word_eqI) (auto simp: blk_def mask5 bit_simps dest: bit_imp_le_length)

lemma push5_drop5: "push_bit 5 (drop_bit 5 a) = blk a"
  by (rule bit_word_eqI) (auto simp: blk_def mask5 bit_simps)

lemma lineBase_of [simp]: "lineBase (setOf a) (tagOf a) = blk a"
proof (rule bit_word_eqI)
  fix n assume "n < LENGTH(32)"
  then have "n < 5 \<or> 5 \<le> n \<and> n < 12 \<or> 12 \<le> n \<and> n < 32" by auto
  then show "bit (lineBase (setOf a) (tagOf a)) n \<longleftrightarrow> bit (blk a) n"
    by (elim disjE) (auto simp: lineBase_def blk_def mask5 bit_setOf tagOf_def bit_simps)
qed

lemma block_eqI:
  assumes "setOf a = setOf b" "tvOf a = tvOf b"
  shows "blk a = blk b"
  using assms lineBase_of [of a] lineBase_of [of b] by (metis tagOf_of_tv)

lemma drop5_eq_iff: "drop_bit 5 a = drop_bit 5 (b :: u32) \<longleftrightarrow> blk a = blk b"
  by (metis push5_drop5 drop5_blk)

lemma ways8_set: "w \<in> set ways8 \<longleftrightarrow> w < 8"
proof
  assume "w < 8"
  then have "unat w < 8" by (simp add: word_less_nat_alt)
  then have "unat w \<in> set [0..<8]" by simp
  then have "w \<in> of_nat ` set [0..<8]"
    by (intro image_eqI [where x = "unat w"]) simp_all
  then show "w \<in> set ways8" by (simp add: upt_rec ways8_def)
qed (auto simp: ways8_def)

section \<open>Lookup\<close>

definition l1At :: "'b cpu \<Rightarrow> u32 \<Rightarrow> dline option" where
  "l1At c B = map_option (l1d c (setOf B)) (lineWayQuiet c B)"

definition wfL1 :: "u32 set \<Rightarrow> 'b cpu \<Rightarrow> bool" where
  "wfL1 R c \<longleftrightarrow>
     (\<forall>s w. s < 128 \<and> w < 8 \<and> dxTv (l1x c s) w AND 1 \<noteq> 0
        \<longrightarrow> (\<exists>B \<in> R. setOf B = s \<and> dxTv (l1x c s) w = tvOf B)) \<and>
     (\<forall>s v w. s < 128 \<and> v < 8 \<and> w < 8 \<and> dxTv (l1x c s) v AND 1 \<noteq> 0
        \<and> dxTv (l1x c s) v = dxTv (l1x c s) w \<longrightarrow> v = w)"

lemma find_Some_unique:
  assumes "x \<in> set xs" "P x" "\<And>y. y \<in> set xs \<Longrightarrow> P y \<Longrightarrow> y = x"
  shows "find P xs = Some x"
proof (cases "find P xs")
  case None
  with assms(1,2) show ?thesis by (auto simp: find_None_iff)
next
  case (Some y)
  then have "y \<in> set xs" "P y" by (auto simp: find_Some_iff)
  with assms(3) Some show ?thesis by simp
qed

lemma wfL1_base:
  "wfL1 R c \<Longrightarrow> s < 128 \<Longrightarrow> w < 8 \<Longrightarrow> dxTv (l1x c s) w AND 1 \<noteq> 0
    \<Longrightarrow> \<exists>B \<in> R. setOf B = s \<and> dxTv (l1x c s) w = tvOf B"
  unfolding wfL1_def by blast

lemma wfL1_unique:
  "wfL1 R c \<Longrightarrow> s < 128 \<Longrightarrow> v < 8 \<Longrightarrow> w < 8 \<Longrightarrow> dxTv (l1x c s) v AND 1 \<noteq> 0
    \<Longrightarrow> dxTv (l1x c s) v = dxTv (l1x c s) w \<Longrightarrow> v = w"
  unfolding wfL1_def by blast

lemma wfL1I:
  assumes "\<And>s w. s < 128 \<Longrightarrow> w < 8 \<Longrightarrow> dxTv (l1x c s) w AND 1 \<noteq> 0
      \<Longrightarrow> \<exists>B \<in> R. setOf B = s \<and> dxTv (l1x c s) w = tvOf B"
    and "\<And>s v w. s < 128 \<Longrightarrow> v < 8 \<Longrightarrow> w < 8 \<Longrightarrow> dxTv (l1x c s) v AND 1 \<noteq> 0
      \<Longrightarrow> dxTv (l1x c s) v = dxTv (l1x c s) w \<Longrightarrow> v = w"
  shows "wfL1 R c"
  unfolding wfL1_def using assms by blast

lemma wfL1_tv_unique:
  "wfL1 R c \<Longrightarrow> v < 8 \<Longrightarrow> w < 8 \<Longrightarrow> dxTv (l1x c (setOf a)) v = tvOf a
    \<Longrightarrow> dxTv (l1x c (setOf a)) w = tvOf a \<Longrightarrow> v = w"
  by (rule wfL1_unique [of R c "setOf a"]) simp_all

lemma lineWayQuiet_SomeD:
  assumes "lineWayQuiet c a = Some w"
  shows "w < 8" "dxTv (l1x c (setOf a)) w = tvOf a"
proof -
  from assms obtain i where "i < length ways8" "dxTv (l1x c (setOf a)) (ways8 ! i) = tvOf a" "w = ways8 ! i"
    unfolding lineWayQuiet_def find_Some_iff by blast
  then show "w < 8" "dxTv (l1x c (setOf a)) w = tvOf a"
    using nth_mem [of i ways8] by (simp_all add: ways8_set)
qed

lemma lineWayQuiet_iff:
  assumes "wfL1 R c"
  shows "lineWayQuiet c a = Some w \<longleftrightarrow> w < 8 \<and> dxTv (l1x c (setOf a)) w = tvOf a"
proof
  assume w: "w < 8 \<and> dxTv (l1x c (setOf a)) w = tvOf a"
  show "lineWayQuiet c a = Some w"
    unfolding lineWayQuiet_def
  proof (rule find_Some_unique)
    fix v assume "v \<in> set ways8" "dxTv (l1x c (setOf a)) v = tvOf a"
    with w show "v = w" by (auto simp: ways8_set intro: wfL1_tv_unique [OF assms, where a = a])
  qed (use w in \<open>simp_all add: ways8_set\<close>)
qed (use lineWayQuiet_SomeD in blast)

lemma lineWayQuiet_None_iff:
  "lineWayQuiet c a = None \<longleftrightarrow> (\<forall>w < 8. dxTv (l1x c (setOf a)) w \<noteq> tvOf a)"
  unfolding lineWayQuiet_def find_None_iff by (auto simp: ways8_set)

lemma lineWayQuiet_blk [simp]: "lineWayQuiet c (blk a) = lineWayQuiet c a"
  by (simp add: lineWayQuiet_def)

lemma l1At_blk [simp]: "l1At c (blk a) = l1At c a"
  by (simp add: l1At_def)

section \<open>Effects on the L1\<close>

lemma setTv_sel [simp]:
  "dxTv (l1x (setTv s w v c) s') w' = (if s' = s \<and> w' = w then v else dxTv (l1x c s') w')"
  "l1d (setTv s w v c) = l1d c" "l2 (setTv s w v c) = l2 c" "l2Sets (setTv s w v c) = l2Sets c"
  "st (setTv s w v c) = st c" "busSt (setTv s w v c) = busSt c" "busVt (setTv s w v c) = busVt c"
  "l2Inert (setTv s w v c) = l2Inert c" "l2SetsSeen (setTv s w v c) = l2SetsSeen c"
  "l2SetMask (setTv s w v c) = l2SetMask c"
  by (simp_all add: setTv_def)

lemma touchAge_sel [simp]:
  "dxTv (l1x (touchAge s w c) s') = dxTv (l1x c s')"
  "l1d (touchAge s w c) = l1d c" "l2 (touchAge s w c) = l2 c" "l2Sets (touchAge s w c) = l2Sets c"
  "st (touchAge s w c) = st c" "busSt (touchAge s w c) = busSt c" "busVt (touchAge s w c) = busVt c"
  "l2Inert (touchAge s w c) = l2Inert c" "l2SetsSeen (touchAge s w c) = l2SetsSeen c"
  "l2SetMask (touchAge s w c) = l2SetMask c"
  by (simp_all add: touchAge_def Let_def)

lemma setLine_sel [simp]:
  "l1d (setLine s w e c) s' w' = (if s' = s \<and> w' = w then e else l1d c s' w')"
  "l1x (setLine s w e c) = l1x c" "l2 (setLine s w e c) = l2 c" "l2Sets (setLine s w e c) = l2Sets c"
  "st (setLine s w e c) = st c" "busSt (setLine s w e c) = busSt c" "busVt (setLine s w e c) = busVt c"
  "l2Inert (setLine s w e c) = l2Inert c" "l2SetsSeen (setLine s w e c) = l2SetsSeen c"
  "l2SetMask (setLine s w e c) = l2SetMask c"
  by (simp_all add: setLine_def)

lemma setDirty_setLine: "setDirty s w b c = setLine s w ((l1d c s w)\<lparr>dlD := b\<rparr>) c"
  by (simp add: setDirty_def setLine_def)

lemma l1At_kill:
  assumes "wfL1 R c" "s < 128" "w < 8"
  shows "wfL1 R (setTv s w 0 c)"
    and "l1At (setTv s w 0 c) B = (if setOf B = s \<and> dxTv (l1x c s) w = tvOf B then None else l1At c B)"
proof -
  show wf: "wfL1 R (setTv s w 0 c)"
  proof (rule wfL1I)
    fix s' v assume "s' < 128" "v < 8" "dxTv (l1x (setTv s w 0 c) s') v AND 1 \<noteq> 0"
    then show "\<exists>B \<in> R. setOf B = s' \<and> dxTv (l1x (setTv s w 0 c) s') v = tvOf B"
      using wfL1_base [OF assms(1), of s' v] by (simp split: if_splits)
  next
    fix s' u v assume "s' < 128" "u < 8" "v < 8" "dxTv (l1x (setTv s w 0 c) s') u AND 1 \<noteq> 0"
      "dxTv (l1x (setTv s w 0 c) s') u = dxTv (l1x (setTv s w 0 c) s') v"
    then show "u = v"
      using wfL1_unique [OF assms(1), of s' u v] by (simp split: if_splits)
  qed
  show "l1At (setTv s w 0 c) B = (if setOf B = s \<and> dxTv (l1x c s) w = tvOf B then None else l1At c B)"
  proof (cases "setOf B = s \<and> dxTv (l1x c s) w = tvOf B")
    case True
    have "lineWayQuiet (setTv s w 0 c) B = None"
      unfolding lineWayQuiet_None_iff
    proof (intro allI impI)
      fix v :: u32 assume v: "v < 8"
      show "dxTv (l1x (setTv s w 0 c) (setOf B)) v \<noteq> tvOf B"
      proof (cases "v = w")
        case True
        with \<open>setOf B = s \<and> _\<close> tvOf_nonzero [of B] show ?thesis by simp
      next
        case False
        with \<open>setOf B = s \<and> _\<close> wfL1_tv_unique [OF assms(1) v assms(3), of B] show ?thesis by auto
      qed
    qed
    with True show ?thesis by (simp add: l1At_def)
  next
    case False
    have "lineWayQuiet (setTv s w 0 c) B = lineWayQuiet c B"
    proof (cases "lineWayQuiet c B")
      case None
      then have "lineWayQuiet (setTv s w 0 c) B = None"
        using tvOf_nonzero [of B] unfolding lineWayQuiet_None_iff by auto
      with None show ?thesis by simp
    next
      case (Some v)
      with False have "dxTv (l1x (setTv s w 0 c) (setOf B)) v = tvOf B" "v < 8"
        using lineWayQuiet_SomeD [OF Some] by auto
      then show ?thesis using Some lineWayQuiet_iff [OF wf] by simp
    qed
    with False show ?thesis by (auto simp: l1At_def)
  qed
qed

lemma l1At_fill:
  fixes e :: dline
  assumes "wfL1 R c" "w < 8" "dxTv (l1x c (setOf P)) w AND 1 = 0" "lineWayQuiet c P = None" "blk P \<in> R"
  defines "c' \<equiv> setLine (setOf P) w e (setTv (setOf P) w (tvOf P) c)"
  shows "wfL1 R c'" "l1At c' B = (if blk B = blk P then Some e else l1At c B)"
    "lineWayQuiet c' P = Some w"
proof -
  have free: "dxTv (l1x c (setOf P)) v \<noteq> tvOf P" if "v < 8" for v
    using assms(4) that by (simp add: lineWayQuiet_None_iff)
  have R: "\<exists>B \<in> R. setOf B = setOf P \<and> tvOf P = tvOf B"
    using assms(5) by (intro bexI [of _ "blk P"]) auto
  show wf: "wfL1 R c'"
  proof (rule wfL1I)
    fix s v assume "s < 128" "v < 8" "dxTv (l1x c' s) v AND 1 \<noteq> 0"
    then show "\<exists>B\<in>R. setOf B = s \<and> dxTv (l1x c' s) v = tvOf B"
      using R wfL1_base [OF assms(1), of s v] unfolding c'_def by (simp split: if_splits)
  next
    fix s u v assume "s < 128" "u < 8" "v < 8" "dxTv (l1x c' s) u AND 1 \<noteq> 0" "dxTv (l1x c' s) u = dxTv (l1x c' s) v"
    then show "u = v"
      using free [of u] free [of v] wfL1_unique [OF assms(1), of s u v] unfolding c'_def
      by (simp split: if_splits)
  qed
  show wP: "lineWayQuiet c' P = Some w"
    using lineWayQuiet_iff [OF wf, of P w] assms(2) by (simp add: c'_def)
  show "l1At c' B = (if blk B = blk P then Some e else l1At c B)"
  proof (cases "blk B = blk P")
    case True
    then have "l1At c' B = l1At c' P" by (metis l1At_blk)
    also have "\<dots> = Some e" using wP by (simp add: l1At_def) (simp add: c'_def)
    finally show ?thesis using True by simp
  next
    case False
    then have ne: "setOf B = setOf P \<Longrightarrow> tvOf B \<noteq> tvOf P" using block_eqI by blast
    have other: "v \<noteq> w" if "lineWayQuiet c B = Some v" "setOf B = setOf P" for v
      using that lineWayQuiet_SomeD [OF that(1)] assms(3) by auto
    have "lineWayQuiet c' B = lineWayQuiet c B"
    proof (cases "lineWayQuiet c B")
      case None
      then have "lineWayQuiet c' B = None"
        using ne unfolding lineWayQuiet_None_iff c'_def by auto
      with None show ?thesis by simp
    next
      case (Some v)
      then show ?thesis
        using other lineWayQuiet_iff [OF wf, of B v] lineWayQuiet_SomeD [OF Some] by (auto simp: c'_def)
    qed
    moreover have "l1d c' (setOf B) v = l1d c (setOf B) v" if "lineWayQuiet c B = Some v" for v
      using other [OF that] by (auto simp: c'_def)
    ultimately show ?thesis using False by (auto simp: l1At_def split: option.splits intro!: option.map_cong)
  qed
qed

lemma l1At_modify:
  assumes "wfL1 R c" "lineWayQuiet c P = Some w"
  shows "wfL1 R (setLine (setOf P) w e c)"
    "l1At (setLine (setOf P) w e c) B = (if blk B = blk P then Some e else l1At c B)"
    "lineWayQuiet (setLine (setOf P) w e c) P = Some w"
proof -
  have q: "lineWayQuiet (setLine (setOf P) w e c) A = lineWayQuiet c A" for A
    by (simp add: lineWayQuiet_def)
  show "wfL1 R (setLine (setOf P) w e c)" using assms(1) unfolding wfL1_def setLine_sel .
  show "lineWayQuiet (setLine (setOf P) w e c) P = Some w" by (simp add: q assms(2))
  show "l1At (setLine (setOf P) w e c) B = (if blk B = blk P then Some e else l1At c B)"
  proof (cases "blk B = blk P")
    case True
    then have "l1At (setLine (setOf P) w e c) B = l1At (setLine (setOf P) w e c) P" by (metis l1At_blk)
    with True show ?thesis by (simp add: l1At_def q assms(2))
  next
    case False
    then have "setOf B = setOf P \<Longrightarrow> tvOf B \<noteq> tvOf P" using block_eqI by blast
    then have "v \<noteq> w \<or> setOf B \<noteq> setOf P" if "lineWayQuiet c B = Some v" for v
      using lineWayQuiet_SomeD [OF that] lineWayQuiet_SomeD [OF assms(2)] by auto
    with False show ?thesis by (auto simp: l1At_def q split: option.splits intro!: option.map_cong)
  qed
qed

section \<open>The L2 as a map from blocks to lines\<close>

definition l2Act :: "'b cpu \<Rightarrow> bool" where
  "l2Act c \<longleftrightarrow> l2On c \<and> l2Sets c \<noteq> 0 \<and> \<not> l2Inert c"

definition l2At :: "'b cpu \<Rightarrow> u32 \<Rightarrow> ((u32 \<Rightarrow> u8) \<times> bool) option" where
  "l2At c B =
     (if l2Act c
      then map_option (\<lambda>i. (l2B (l2 c ! i), l2D (l2 c ! i)))
             (l2HitIdx (l2 c) (drop_bit 5 B mod l2Sets c) (drop_bit 5 B))
      else None)"

definition wfL2 :: "u32 set \<Rightarrow> u32 \<Rightarrow> l2_line list \<Rightarrow> bool" where
  "wfL2 R n ls \<longleftrightarrow> length ls = 2 * unat n \<and>
     (\<forall>i < length ls. l2V (ls ! i)
        \<longrightarrow> (\<exists>B \<in> R. l2Tag (ls ! i) = drop_bit 5 B \<and> unat (drop_bit 5 B mod n) = i div 2)) \<and>
     (\<forall>i < length ls. \<forall>j < length ls. l2V (ls ! i) \<and> l2V (ls ! j) \<and> l2Tag (ls ! i) = l2Tag (ls ! j)
        \<longrightarrow> i = j)"

definition l2Synced :: "'b cpu \<Rightarrow> bool" where
  "l2Synced c \<longleftrightarrow>
     l2SetMask c = (if l2SetsSeen c \<noteq> 0 \<and> l2SetsSeen c AND (l2SetsSeen c - 1) = 0 then l2SetsSeen c - 1 else 0)"

lemma wfL2_len: "wfL2 R n ls \<Longrightarrow> length ls = 2 * unat n"
  by (simp add: wfL2_def)

lemma wfL2_base:
  "wfL2 R n ls \<Longrightarrow> i < length ls \<Longrightarrow> l2V (ls ! i)
    \<Longrightarrow> \<exists>B \<in> R. l2Tag (ls ! i) = drop_bit 5 B \<and> unat (drop_bit 5 B mod n) = i div 2"
  unfolding wfL2_def by blast

lemma wfL2_unique:
  "wfL2 R n ls \<Longrightarrow> i < length ls \<Longrightarrow> j < length ls \<Longrightarrow> l2V (ls ! i) \<Longrightarrow> l2V (ls ! j)
    \<Longrightarrow> l2Tag (ls ! i) = l2Tag (ls ! j) \<Longrightarrow> i = j"
  unfolding wfL2_def by blast

lemma wfL2I:
  assumes "length ls = 2 * unat n"
    and "\<And>i. i < length ls \<Longrightarrow> l2V (ls ! i)
      \<Longrightarrow> \<exists>B \<in> R. l2Tag (ls ! i) = drop_bit 5 B \<and> unat (drop_bit 5 B mod n) = i div 2"
    and "\<And>i j. i < length ls \<Longrightarrow> j < length ls \<Longrightarrow> l2V (ls ! i) \<Longrightarrow> l2V (ls ! j)
      \<Longrightarrow> l2Tag (ls ! i) = l2Tag (ls ! j) \<Longrightarrow> i = j"
  shows "wfL2 R n ls"
  unfolding wfL2_def using assms by blast

text \<open>The set index is the line number modulo the number of sets, mask or no mask.\<close>

lemma pow2_of_and_pred:
  fixes n :: u32
  assumes "n \<noteq> 0" "n AND (n - 1) = 0"
  shows "\<exists>k < 32. n = 2 ^ k"
proof -
  have "\<exists>k. bit n k" using assms(1) by (auto simp: bit_eq_iff)
  then obtain k where k: "bit n k" and low: "\<And>j. j < k \<Longrightarrow> \<not> bit n j"
    by (metis exists_least_iff)
  define r where "r = n AND NOT (mask (Suc k))"
  have k32: "k < 32" using k by (auto dest: bit_imp_le_length)
  have "n = r OR 2 ^ k"
  proof (rule bit_word_eqI)
    fix j assume "j < LENGTH(32)"
    then show "bit n j = bit (r OR 2 ^ k) j"
      using k low [of j] by (cases "j < k"; cases "j = k") (auto simp: r_def bit_simps)
  qed
  also have "\<dots> = r + 2 ^ k"
    by (rule disjunctive_add [symmetric]) (auto simp: r_def bit_simps)
  finally have n: "n = r + 2 ^ k" .
  then have "n - 1 = r + mask k" by (simp add: mask_eq_exp_minus_1)
  also have "\<dots> = r OR mask k"
    by (rule disjunctive_add) (auto simp: r_def bit_simps)
  finally have "n AND (n - 1) = r"
    using low by (auto intro!: bit_word_eqI simp: r_def bit_simps)
  with assms(2) n k32 show ?thesis by auto
qed

lemma and_pow2_mod:
  fixes n x :: u32
  assumes "n \<noteq> 0" "n AND (n - 1) = 0"
  shows "x AND (n - 1) = x mod n"
proof -
  obtain k where "n = 2 ^ k" using pow2_of_and_pred [OF assms] by blast
  then show ?thesis
    by (simp add: take_bit_eq_mod [symmetric] take_bit_eq_mask mask_eq_exp_minus_1 [symmetric])
qed

lemma l2SetOf_mod:
  assumes "l2Synced c" "l2Sets c \<noteq> 0"
  shows "fst (l2SetOf pa c) = drop_bit 5 pa mod l2Sets c"
proof -
  have m: "l2SetMask (l2SetSync c) = (if l2Sets c AND (l2Sets c - 1) = 0 then l2Sets c - 1 else 0)"
    and s: "l2Sets (l2SetSync c) = l2Sets c"
    using assms by (auto simp: l2SetSync_def l2Synced_def)
  show ?thesis
  proof (cases "l2SetMask (l2SetSync c) = 0")
    case True
    then show ?thesis by (simp add: l2SetOf_def s)
  next
    case False
    with m have "l2Sets c AND (l2Sets c - 1) = 0" by (simp split: if_splits)
    with m False show ?thesis
      by (simp add: l2SetOf_def and_pow2_mod [OF assms(2)])
  qed
qed

lemma l2SetSync_synced: "l2Synced c \<Longrightarrow> l2Synced (l2SetSync c)"
  by (auto simp: l2SetSync_def l2Synced_def)

lemma l2HitIdx_SomeD:
  assumes "l2HitIdx ls s tag = Some i"
  shows "i = unat s * 2 \<or> i = unat s * 2 + 1" "l2V (ls ! i)" "l2Tag (ls ! i) = tag"
  using assms by (auto simp: l2HitIdx_def split: if_splits)

lemma l2HitIdx_iff:
  assumes "wfL2 R n ls" "n \<noteq> 0"
  shows "l2HitIdx ls (drop_bit 5 B mod n) (drop_bit 5 B) = Some i \<longleftrightarrow>
    i < length ls \<and> l2V (ls ! i) \<and> l2Tag (ls ! i) = drop_bit 5 B"
proof -
  let ?s = "drop_bit 5 B mod n"
  have "?s < n" using assms(2) by (simp add: word_mod_less_divisor word_neq_0_conv)
  then have s: "unat ?s * 2 + 1 < length ls"
    using wfL2_len [OF assms(1)] by (simp add: word_less_nat_alt)
  show ?thesis
  proof
    assume "l2HitIdx ls ?s (drop_bit 5 B) = Some i"
    then show "i < length ls \<and> l2V (ls ! i) \<and> l2Tag (ls ! i) = drop_bit 5 B"
      using s by (auto dest: l2HitIdx_SomeD)
  next
    assume i: "i < length ls \<and> l2V (ls ! i) \<and> l2Tag (ls ! i) = drop_bit 5 B"
    then have "unat ?s = i div 2" using wfL2_base [OF assms(1), of i] by auto
    then have "i \<in> set [unat ?s * 2, unat ?s * 2 + 1]" by auto
    moreover have "j = i" if "j \<in> set [unat ?s * 2, unat ?s * 2 + 1]" "l2V (ls ! j) \<and> l2Tag (ls ! j) = drop_bit 5 B" for j
      by (rule wfL2_unique [OF assms(1)]) (use i s that in auto)
    ultimately show "l2HitIdx ls ?s (drop_bit 5 B) = Some i"
      unfolding l2HitIdx_def using i by (intro find_Some_unique) blast+
  qed
qed

lemma l2HitIdx_None_iff:
  assumes "wfL2 R n ls" "n \<noteq> 0"
  shows "l2HitIdx ls (drop_bit 5 B mod n) (drop_bit 5 B) = None \<longleftrightarrow>
    (\<forall>i < length ls. \<not> (l2V (ls ! i) \<and> l2Tag (ls ! i) = drop_bit 5 B))"
  using l2HitIdx_iff [OF assms, of B]
  by (cases "l2HitIdx ls (drop_bit 5 B mod n) (drop_bit 5 B)") auto

lemma l2At_Some_iff:
  assumes "wfL2 R (l2Sets c) (l2 c)"
  shows "l2At c B = Some bd \<longleftrightarrow> l2Act c \<and>
    (\<exists>i < length (l2 c). l2V (l2 c ! i) \<and> l2Tag (l2 c ! i) = drop_bit 5 B
       \<and> bd = (l2B (l2 c ! i), l2D (l2 c ! i)))"
  using l2HitIdx_iff [OF assms, of B] by (auto simp: l2At_def l2Act_def)

lemma l2At_None_iff:
  assumes "wfL2 R (l2Sets c) (l2 c)"
  shows "l2At c B = None \<longleftrightarrow> (l2Act c \<longrightarrow>
    (\<forall>i < length (l2 c). \<not> (l2V (l2 c ! i) \<and> l2Tag (l2 c ! i) = drop_bit 5 B)))"
  using l2HitIdx_None_iff [OF assms, of B] by (auto simp: l2At_def l2Act_def)

lemma l2At_blk [simp]: "l2At c (blk B) = l2At c B"
  by (simp add: l2At_def)

section \<open>Effects on the L2's lines\<close>

text \<open>Replacing one line: what the map says afterwards, and when the shape is kept.\<close>

lemma wfL2_drop:
  assumes "wfL2 R n ls" "\<not> l2V e \<or> l2V (ls ! i) \<and> l2Tag e = l2Tag (ls ! i)"
  shows "wfL2 R n (ls[i := e])"
proof (rule wfL2I)
  fix j assume "j < length (ls[i := e])" "l2V (ls[i := e] ! j)"
  then show "\<exists>B\<in>R. l2Tag (ls[i := e] ! j) = drop_bit 5 B \<and> unat (drop_bit 5 B mod n) = j div 2"
    using wfL2_base [OF assms(1), of j] assms(2) by (cases "i = j") auto
next
  fix j k assume h: "j < length (ls[i := e])" "k < length (ls[i := e])" "l2V (ls[i := e] ! j)" "l2V (ls[i := e] ! k)"
    "l2Tag (ls[i := e] ! j) = l2Tag (ls[i := e] ! k)"
  have old: "l2V (ls ! m) \<and> l2Tag (ls[i := e] ! m) = l2Tag (ls ! m)" if "m < length ls" "l2V (ls[i := e] ! m)" for m
    using that assms(2) by (cases "i = m") auto
  show "j = k"
    by (rule wfL2_unique [OF assms(1)]) (use h old [of j] old [of k] in simp_all)
qed (use wfL2_len [OF assms(1)] in simp)

lemma wfL2_put:
  assumes "wfL2 R n ls" "blk B \<in> R" "l2V e" "l2Tag e = drop_bit 5 B" "unat (drop_bit 5 B mod n) = i div 2"
    "\<And>j. j < length ls \<Longrightarrow> l2V (ls ! j) \<Longrightarrow> l2Tag (ls ! j) = drop_bit 5 B \<Longrightarrow> j = i"
  shows "wfL2 R n (ls[i := e])"
proof (rule wfL2I)
  fix j assume "j < length (ls[i := e])" "l2V (ls[i := e] ! j)"
  then show "\<exists>B\<in>R. l2Tag (ls[i := e] ! j) = drop_bit 5 B \<and> unat (drop_bit 5 B mod n) = j div 2"
    using wfL2_base [OF assms(1), of j] assms(2-5)
    by (cases "i = j") (auto intro!: bexI [of _ "blk B"])
next
  fix j k assume h: "j < length (ls[i := e])" "k < length (ls[i := e])" "l2V (ls[i := e] ! j)" "l2V (ls[i := e] ! k)"
    "l2Tag (ls[i := e] ! j) = l2Tag (ls[i := e] ! k)"
  show "j = k"
  proof (cases "i = j \<or> i = k")
    case True
    then show ?thesis
    proof
      assume "i = j"
      then show ?thesis using h assms(4) assms(6) [of k] by (cases "i = k") simp_all
    next
      assume "i = k"
      then show ?thesis using h assms(4) assms(6) [of j] by (cases "i = j") simp_all
    qed
  next
    case False
    then show ?thesis by (intro wfL2_unique [OF assms(1)]) (use h in simp_all)
  qed
qed (use wfL2_len [OF assms(1)] in simp)

end
