(* ===== verification/CacheView.thy ===== *)
theory CacheView
  imports CacheLookup
begin

text \<open>
  The memory a program sees through the caches (\<open>view\<close>), the coherence invariant
  (\<open>coherent\<close>: both indices well formed, clean lines equal to the level below them), and
  the effect of bus bursts, L2 lookups and L2 invalidations on it.
\<close>

section \<open>The memory a program sees\<close>

definition belowAt :: "('b \<Rightarrow> u32 \<Rightarrow> u8) \<Rightarrow> 'b cpu \<Rightarrow> u32 \<Rightarrow> u32 \<Rightarrow> u8" where
  "belowAt mem c B k = (case l2At c B of Some (b, _) \<Rightarrow> b k | None \<Rightarrow> mem (busSt c) (B + k))"

definition viewAt :: "('b \<Rightarrow> u32 \<Rightarrow> u8) \<Rightarrow> 'b cpu \<Rightarrow> u32 \<Rightarrow> u32 \<Rightarrow> u8" where
  "viewAt mem c B k = (case l1At c B of Some e \<Rightarrow> dlB e k | None \<Rightarrow> belowAt mem c B k)"

definition view :: "('b \<Rightarrow> u32 \<Rightarrow> u8) \<Rightarrow> 'b cpu \<Rightarrow> u32 \<Rightarrow> u8" where
  "view mem c a = viewAt mem c (blk a) (off a)"

definition wfCache :: "'b bus_vt \<Rightarrow> ('b \<Rightarrow> bool) \<Rightarrow> u32 set \<Rightarrow> 'b cpu \<Rightarrow> bool" where
  "wfCache vt good R c \<longleftrightarrow>
     busVt c = vt \<and> good (busSt c) \<and> wfL1 R c \<and> wfL2 R (l2Sets c) (l2 c) \<and> l2Synced c"

definition cleanL1 :: "('b \<Rightarrow> u32 \<Rightarrow> u8) \<Rightarrow> u32 set \<Rightarrow> 'b cpu \<Rightarrow> bool" where
  "cleanL1 mem R c \<longleftrightarrow>
     (\<forall>B \<in> R. \<forall>e. l1At c B = Some e \<and> \<not> dlD e \<longrightarrow> (\<forall>k < 32. dlB e k = belowAt mem c B k))"

definition cleanL2 :: "('b \<Rightarrow> u32 \<Rightarrow> u8) \<Rightarrow> u32 set \<Rightarrow> 'b cpu \<Rightarrow> bool" where
  "cleanL2 mem R c \<longleftrightarrow>
     (\<forall>B \<in> R. \<forall>b. l2At c B = Some (b, False) \<longrightarrow> (\<forall>k < 32. b k = mem (busSt c) (B + k)))"

definition coherent :: "'b bus_vt \<Rightarrow> ('b \<Rightarrow> u32 \<Rightarrow> u8) \<Rightarrow> ('b \<Rightarrow> bool) \<Rightarrow> u32 set \<Rightarrow> 'b cpu \<Rightarrow> bool" where
  "coherent vt mem good R c \<longleftrightarrow> wfCache vt good R c \<and> cleanL1 mem R c \<and> cleanL2 mem R c"

text \<open>What a cache operation leaves alone.\<close>

definition cacheFrame :: "'b cpu \<Rightarrow> 'b cpu \<Rightarrow> bool" where
  "cacheFrame c c' \<longleftrightarrow> st c' = st c \<and> l2Inert c' = l2Inert c"

lemma cacheFrame_refl [simp]: "cacheFrame c c"
  by (simp add: cacheFrame_def)

lemma cacheFrame_trans: "cacheFrame c d \<Longrightarrow> cacheFrame d e \<Longrightarrow> cacheFrame c e"
  by (simp add: cacheFrame_def)

lemma l1At_cong:
  assumes "\<And>s. dxTv (l1x c' s) = dxTv (l1x c s)" "l1d c' = l1d c"
  shows "l1At c' = l1At c" "wfL1 R c' = wfL1 R c" "lineWayQuiet c' = lineWayQuiet c"
  by (simp_all add: l1At_def lineWayQuiet_def wfL1_def assms fun_eq_iff)

lemma l2At_cong:
  assumes "l2 c' = l2 c" "l2Sets c' = l2Sets c" "st c' = st c" "l2Inert c' = l2Inert c"
  shows "l2At c' = l2At c" "l2Act c' = l2Act c"
  by (simp_all add: l2At_def l2Act_def l2On_def assms fun_eq_iff)

lemma l2Synced_cong:
  "l2SetMask c' = l2SetMask c \<Longrightarrow> l2SetsSeen c' = l2SetsSeen c \<Longrightarrow> l2Synced c' = l2Synced c"
  by (simp add: l2Synced_def)

lemma fetchDropAt_sel [simp]:
  "l1x (fetchDropAt a c) = l1x c" "l1d (fetchDropAt a c) = l1d c" "l2 (fetchDropAt a c) = l2 c"
  "l2Sets (fetchDropAt a c) = l2Sets c" "st (fetchDropAt a c) = st c" "busSt (fetchDropAt a c) = busSt c"
  "busVt (fetchDropAt a c) = busVt c" "l2Inert (fetchDropAt a c) = l2Inert c"
  "l2SetsSeen (fetchDropAt a c) = l2SetsSeen c" "l2SetMask (fetchDropAt a c) = l2SetMask c"
  by (simp_all add: fetchDropAt_def)

lemma fetchDrop_sel [simp]:
  "l1x (fetchDrop c) = l1x c" "l1d (fetchDrop c) = l1d c" "l2 (fetchDrop c) = l2 c"
  "l2Sets (fetchDrop c) = l2Sets c" "st (fetchDrop c) = st c" "busSt (fetchDrop c) = busSt c"
  "busVt (fetchDrop c) = busVt c" "l2Inert (fetchDrop c) = l2Inert c"
  "l2SetsSeen (fetchDrop c) = l2SetsSeen c" "l2SetMask (fetchDrop c) = l2SetMask c"
  by (simp_all add: fetchDrop_def)

lemma busDo_sel [simp]:
  "l1x (snd (busDo f c)) = l1x c" "l1d (snd (busDo f c)) = l1d c" "l2 (snd (busDo f c)) = l2 c"
  "l2Sets (snd (busDo f c)) = l2Sets c" "st (snd (busDo f c)) = st c"
  "busVt (snd (busDo f c)) = busVt c" "l2Inert (snd (busDo f c)) = l2Inert c"
  "l2SetsSeen (snd (busDo f c)) = l2SetsSeen c" "l2SetMask (snd (busDo f c)) = l2SetMask c"
  "busSt (snd (busDo f c)) = snd (snd (f (tbNow c) (busSt c)))"
  by (simp_all add: busDo_def split: prod.splits)

lemma l2SetSync_sel [simp]:
  "l1x (l2SetSync c) = l1x c" "l1d (l2SetSync c) = l1d c" "l2 (l2SetSync c) = l2 c"
  "l2Sets (l2SetSync c) = l2Sets c" "st (l2SetSync c) = st c" "busSt (l2SetSync c) = busSt c"
  "busVt (l2SetSync c) = busVt c" "l2Inert (l2SetSync c) = l2Inert c" "l2Clock (l2SetSync c) = l2Clock c"
  by (simp_all add: l2SetSync_def)

lemma snd_l2SetOf [simp]: "snd (l2SetOf pa c) = l2SetSync c"
  by (simp add: l2SetOf_def Let_def)

lemma l2SetOf_eq:
  "l2Synced c \<Longrightarrow> l2Sets c \<noteq> 0 \<Longrightarrow> l2SetOf pa c = (drop_bit 5 pa mod l2Sets c, l2SetSync c)"
  using l2SetOf_mod [of c pa] by (metis prod.collapse snd_l2SetOf)

text \<open>Lines outside the index: a state change that keeps everything the lookups read.\<close>

lemma coherent_cong:
  assumes "\<And>s. dxTv (l1x c' s) = dxTv (l1x c s)" "l1d c' = l1d c" "l2 c' = l2 c" "l2Sets c' = l2Sets c"
    "st c' = st c" "l2Inert c' = l2Inert c" "busSt c' = busSt c" "busVt c' = busVt c" "l2Synced c \<Longrightarrow> l2Synced c'"
  shows "coherent vt mem good R c \<Longrightarrow> coherent vt mem good R c'" "view mem c' = view mem c"
    "viewAt mem c' = viewAt mem c" "belowAt mem c' = belowAt mem c"
proof -
  note eqs = l1At_cong [OF assms(1,2)] l2At_cong [OF assms(3-6)]
  show b: "belowAt mem c' = belowAt mem c"
    by (simp add: belowAt_def eqs assms(7) fun_eq_iff split: option.splits)
  show v: "viewAt mem c' = viewAt mem c"
    by (simp add: viewAt_def eqs b fun_eq_iff split: option.splits)
  show "view mem c' = view mem c" by (simp add: view_def v fun_eq_iff)
  show "coherent vt mem good R c \<Longrightarrow> coherent vt mem good R c'"
    using assms by (auto simp: coherent_def wfCache_def cleanL1_def cleanL2_def eqs b)
qed

context mem_bus
begin

lemma blk_R: "B \<in> R \<Longrightarrow> blk B = B"
  using region_aligned blk_id by blast

lemma R_block_add: "A \<in> R \<Longrightarrow> k < 32 \<Longrightarrow> blk (A + k) = A" "A \<in> R \<Longrightarrow> k < 32 \<Longrightarrow> off (A + k) = k"
  using blk_add region_aligned by blast+

lemma writeLine_effect:
  fixes b :: "u32 \<Rightarrow> u8"
  assumes "wfCache vt good R c" "B \<in> R"
  defines "c' \<equiv> cacheBusWriteLine B b c"
  shows "wfCache vt good R c'" "cacheFrame c c'" "l1At c' = l1At c" "l2At c' = l2At c"
    "lineWayQuiet c' = lineWayQuiet c" "l1d c' = l1d c" "l1x c' = l1x c" "l2 c' = l2 c" "l2Sets c' = l2Sets c"
    "A \<in> R \<Longrightarrow> k < 32 \<Longrightarrow> mem (busSt c') (A + k) = (if A = B then b k else mem (busSt c) (A + k))"
proof -
  have sel: "l1d c' = l1d c" "l1x c' = l1x c" "l2 c' = l2 c" "l2Sets c' = l2Sets c" "st c' = st c"
    "busVt c' = busVt c" "l2Inert c' = l2Inert c" "l2SetMask c' = l2SetMask c" "l2SetsSeen c' = l2SetsSeen c"
    by (simp_all add: c'_def cacheBusWriteLine_def busWriteBurst_def)
  then show "l1d c' = l1d c" "l1x c' = l1x c" "l2 c' = l2 c" "l2Sets c' = l2Sets c" "cacheFrame c c'"
    by (simp_all add: cacheFrame_def)
  show "l1At c' = l1At c" "lineWayQuiet c' = lineWayQuiet c"
    using l1At_cong [of c' c] sel by simp_all
  show "l2At c' = l2At c" using l2At_cong [of c' c] sel by simp
  obtain u asked b' where w: "vwriteLine32 vt (tbNow (fetchDropAt B c)) B b (busSt c) = (u, asked, b')"
    by (metis prod_cases3)
  have "busVt c = vt" "good (busSt c)" using assms(1) by (simp_all add: wfCache_def)
  with w have b': "busSt c' = b'" by (simp add: c'_def cacheBusWriteLine_def busWriteBurst_def)
  note law = write_line [OF \<open>good (busSt c)\<close> assms(2) w]
  show "wfCache vt good R c'"
    using assms(1) law b' sel l1At_cong(2) [of c' c] l2Synced_cong [of c' c] by (simp add: wfCache_def)
  show "A \<in> R \<Longrightarrow> k < 32 \<Longrightarrow> mem (busSt c') (A + k) = (if A = B then b k else mem (busSt c) (A + k))"
    using law by (auto simp: b' R_block_add)
qed

lemma readLine_effect:
  assumes "wfCache vt good R c" "B \<in> R" "busReadLine B c = (b, c')"
  shows "wfCache vt good R c'" "cacheFrame c c'" "l1At c' = l1At c" "l2At c' = l2At c"
    "lineWayQuiet c' = lineWayQuiet c" "l1d c' = l1d c" "l1x c' = l1x c" "l2 c' = l2 c" "l2Sets c' = l2Sets c"
    "mem (busSt c') = mem (busSt c)" "k < 32 \<Longrightarrow> b k = mem (busSt c) (B + k)"
proof -
  have c': "c' = snd (busDo (\<lambda>t. vreadLine32 (busVt c) t B) c)" "b = fst (busDo (\<lambda>t. vreadLine32 (busVt c) t B) c)"
    using assms(3) by (simp_all add: busReadLine_def)
  have sel: "l1d c' = l1d c" "l1x c' = l1x c" "l2 c' = l2 c" "l2Sets c' = l2Sets c" "st c' = st c"
    "busVt c' = busVt c" "l2Inert c' = l2Inert c" "l2SetMask c' = l2SetMask c" "l2SetsSeen c' = l2SetsSeen c"
    by (simp_all add: c')
  then show "l1d c' = l1d c" "l1x c' = l1x c" "l2 c' = l2 c" "l2Sets c' = l2Sets c" "cacheFrame c c'"
    by (simp_all add: cacheFrame_def)
  show "l1At c' = l1At c" "lineWayQuiet c' = lineWayQuiet c"
    using l1At_cong [of c' c] sel by simp_all
  show "l2At c' = l2At c" using l2At_cong [of c' c] sel by simp
  obtain bs asked b' where w: "vreadLine32 vt (tbNow c) B (busSt c) = (bs, asked, b')"
    by (metis prod_cases3)
  have "busVt c = vt" "good (busSt c)" using assms(1) by (simp_all add: wfCache_def)
  with w have b': "busSt c' = b'" "b = bs" by (simp_all add: c' busDo_def)
  note law = read_line [OF \<open>good (busSt c)\<close> assms(2) w]
  show "wfCache vt good R c'"
    using assms(1) law b' sel l1At_cong(2) [of c' c] l2Synced_cong [of c' c] by (simp add: wfCache_def)
  show "mem (busSt c') = mem (busSt c)" "k < 32 \<Longrightarrow> b k = mem (busSt c) (B + k)"
    using law by (simp_all add: b')
qed

end

section \<open>L2 operations on the map\<close>

lemma nth_update_in: "j < length xs \<Longrightarrow> xs[i := x] ! j = (if i = j then x else xs ! j)"
  by simp

definition killTag :: "u32 \<Rightarrow> l2_line list \<Rightarrow> l2_line list" where
  "killTag t = map (\<lambda>e. if l2V e \<and> l2Tag e = t then e\<lparr>l2V := False\<rparr> else e)"

lemma killTag_wf: "wfL2 R n ls \<Longrightarrow> wfL2 R n (killTag t ls)"
proof (rule wfL2I)
  assume wf: "wfL2 R n ls"
  show "length (killTag t ls) = 2 * unat n" using wfL2_len [OF wf] by (simp add: killTag_def)
  show "\<exists>B\<in>R. l2Tag (killTag t ls ! i) = drop_bit 5 B \<and> unat (drop_bit 5 B mod n) = i div 2"
    if "i < length (killTag t ls)" "l2V (killTag t ls ! i)" for i
    using wfL2_base [OF wf, of i] that by (simp add: killTag_def split: if_splits)
  show "i = j" if "i < length (killTag t ls)" "j < length (killTag t ls)" "l2V (killTag t ls ! i)"
    "l2V (killTag t ls ! j)" "l2Tag (killTag t ls ! i) = l2Tag (killTag t ls ! j)" for i j
    using that by (intro wfL2_unique [OF wf, of i j]) (simp_all add: killTag_def split: if_splits)
qed

lemma kill_step_nth:
  assumes "j < length ls"
  shows "(if l2V (ls ! i) \<and> l2Tag (ls ! i) = t then ls[i := (ls ! i)\<lparr>l2V := False\<rparr>] else ls) ! j
    = (if i = j \<and> l2V (ls ! j) \<and> l2Tag (ls ! j) = t then (ls ! j)\<lparr>l2V := False\<rparr> else ls ! j)"
  using assms by (simp add: nth_update_in)

lemma l2_invalidate_list:
  assumes "wfL2 R n ls" "n \<noteq> 0"
  shows "fold (\<lambda>i ls. if l2V (ls ! i) \<and> l2Tag (ls ! i) = drop_bit 5 B
                      then ls[i := (ls ! i)\<lparr>l2V := False\<rparr>] else ls)
           [unat (drop_bit 5 B mod n) * 2, unat (drop_bit 5 B mod n) * 2 + 1] ls
         = killTag (drop_bit 5 B) ls" (is "?l = _")
proof (rule nth_equalityI)
  let ?s = "drop_bit 5 B mod n"
  fix j assume "j < length ?l"
  then have j: "j < length ls" by (simp split: if_splits)
  have "j = unat ?s * 2 \<or> j = unat ?s * 2 + 1" if "l2V (ls ! j) \<and> l2Tag (ls ! j) = drop_bit 5 B"
  proof -
    have "unat ?s = j div 2" using that wfL2_base [OF assms(1) j] by auto
    then show ?thesis by auto
  qed
  then show "?l ! j = killTag (drop_bit 5 B) ls ! j"
    using j unfolding fold_simps
    by (subst kill_step_nth, simp, subst (1 2 3 4) kill_step_nth) (auto simp: killTag_def)
qed (simp add: killTag_def)

lemma l2Invalidate_effect:
  fixes B :: u32
  assumes "wfCache vt good R c"
  defines "c' \<equiv> l2Invalidate B c"
  shows "wfCache vt good R c'" "cacheFrame c c'" "l1At c' = l1At c" "lineWayQuiet c' = lineWayQuiet c"
    "l1d c' = l1d c" "l1x c' = l1x c" "busSt c' = busSt c" "l2Sets c' = l2Sets c"
    "l2At c' A = (if blk A = blk B then None else l2At c A)"
proof -
  have wf: "wfL2 R (l2Sets c) (l2 c)" "l2Synced c" using assms(1) by (simp_all add: wfCache_def)
  have sy: "l2Synced (fetchDropAt B c)" using wf(2) by (simp add: l2Synced_def)
  have c': "c' = (if l2Sets c = 0 then fetchDropAt B c
      else (l2SetSync (fetchDropAt B c))\<lparr>l2 := killTag (drop_bit 5 B) (l2 c)\<rparr>)"
  proof (cases "l2Sets c = 0")
    case False
    then have "l2SetOf B (fetchDropAt B c) = (drop_bit 5 B mod l2Sets c, l2SetSync (fetchDropAt B c))"
      using l2SetOf_eq [OF sy] by simp
    then show ?thesis
      unfolding c'_def l2Invalidate_def Let_def
      by (simp only: fetchDropAt_sel prod.case l2SetSync_sel l2_invalidate_list [OF wf(1) False] False if_False)
  qed (simp add: c'_def l2Invalidate_def)
  have l2': "l2 c' = (if l2Sets c = 0 then l2 c else killTag (drop_bit 5 B) (l2 c))"
    and sel: "l1d c' = l1d c" "l1x c' = l1x c" "l2Sets c' = l2Sets c" "st c' = st c" "busSt c' = busSt c"
      "busVt c' = busVt c" "l2Inert c' = l2Inert c" and sync: "l2Synced c'"
    using l2SetSync_synced [OF sy] sy by (simp_all add: c' l2Synced_def)
  then show "l1d c' = l1d c" "l1x c' = l1x c" "l2Sets c' = l2Sets c" "busSt c' = busSt c" "cacheFrame c c'"
    by (simp_all add: cacheFrame_def)
  show "l1At c' = l1At c" "lineWayQuiet c' = lineWayQuiet c"
    using l1At_cong [of c' c] sel by simp_all
  have wf': "wfL2 R (l2Sets c') (l2 c')" 
    by (cases "l2Sets c = 0") (use wf(1) killTag_wf [OF wf(1)] in \<open>auto simp: l2' sel\<close>)
  show "wfCache vt good R c'"
    using assms(1) sel l1At_cong(2) [of c' c] wf' sync by (simp add: wfCache_def)
  have act: "l2Act c' = l2Act c" by (simp add: l2Act_def l2On_def sel)
  show "l2At c' A = (if blk A = blk B then None else l2At c A)"
  proof (cases "l2Act c")
    case False
    then show ?thesis by (simp add: l2At_def act)
  next
    case True
    then have n0: "l2Sets c \<noteq> 0" by (simp add: l2Act_def)
    show ?thesis
    proof (cases "blk A = blk B")
      case eq: True
      then have "drop_bit 5 A = drop_bit 5 B" by (simp add: drop5_eq_iff)
      then have "l2At c' A = None"
        using n0 by (simp add: l2At_None_iff [OF wf'] l2' killTag_def)
      with eq show ?thesis by simp
    next
      case ne: False
      then have ne': "drop_bit 5 A \<noteq> drop_bit 5 B" by (simp add: drop5_eq_iff)
      have "l2At c' A = l2At c A"
      proof (cases "l2At c A")
        case None
        then have "l2At c' A = None"
          using n0 True unfolding l2At_None_iff [OF wf'] l2At_None_iff [OF wf(1)]
          by (simp add: l2' killTag_def)
        with None show ?thesis by simp
      next
        case (Some bd)
        then have "l2At c' A = Some bd"
          using n0 True ne' unfolding l2At_Some_iff [OF wf'] l2At_Some_iff [OF wf(1)]
          by (auto simp: l2' killTag_def act)
        with Some show ?thesis by simp
      qed
      with ne show ?thesis by simp
    qed
  qed
qed

text \<open>A lookup that hits refreshes an age and nothing the map shows.\<close>

lemma l2Find_effect:
  assumes "wfCache vt good R c" "l2Find B c = (r, c')"
  shows "wfCache vt good R c'" "cacheFrame c c'" "l1At c' = l1At c" "lineWayQuiet c' = lineWayQuiet c"
    "l1d c' = l1d c" "l1x c' = l1x c" "busSt c' = busSt c" "l2Sets c' = l2Sets c" "l2At c' = l2At c"
    "r = Some i \<Longrightarrow> l2Act c \<and> i < length (l2 c') \<and> l2V (l2 c' ! i) \<and> l2Tag (l2 c' ! i) = drop_bit 5 B
       \<and> l2At c B = Some (l2B (l2 c' ! i), l2D (l2 c' ! i))"
    "r = None \<Longrightarrow> l2At c B = None"
proof -
  have wf: "wfL2 R (l2Sets c) (l2 c)" "l2Synced c" using assms(1) by (simp_all add: wfCache_def)
  let ?hit = "l2HitIdx (l2 c) (drop_bit 5 B mod l2Sets c) (drop_bit 5 B)"
  have r: "r = (if l2Act c then ?hit else None)"
    and c': "c' = (if l2Act c then (case ?hit of None \<Rightarrow> l2SetSync c
      | Some i \<Rightarrow> (l2SetSync c)\<lparr>l2Clock := l2Clock c + 1,
           l2 := (l2 c)[i := (l2 c ! i)\<lparr>l2Age := l2Clock c + 1\<rparr>]\<rparr>) else c)"
    using assms(2) wf(2)
    by (auto simp: l2Find_def l2Act_def l2SetOf_eq split: option.splits if_splits)
  have sel: "l1d c' = l1d c" "l1x c' = l1x c" "l2Sets c' = l2Sets c" "st c' = st c" "busSt c' = busSt c"
    "busVt c' = busVt c" "l2Inert c' = l2Inert c" and sync: "l2Synced c'"
    using wf(2) l2SetSync_synced [OF wf(2)] unfolding c'
    by (simp_all add: l2Synced_def split: option.splits)
  then show "l1d c' = l1d c" "l1x c' = l1x c" "l2Sets c' = l2Sets c" "busSt c' = busSt c" "cacheFrame c c'"
    by (simp_all add: cacheFrame_def)
  show "l1At c' = l1At c" "lineWayQuiet c' = lineWayQuiet c"
    using l1At_cong [of c' c] sel by simp_all
  have wf': "wfL2 R (l2Sets c') (l2 c')"
  proof (cases "?hit")
    case None
    then show ?thesis using wf(1) by (simp add: c' sel)
  next
    case (Some i)
    then have "l2V (l2 c ! i)" by (rule l2HitIdx_SomeD)
    with Some show ?thesis using wf(1) by (simp add: c' wfL2_drop)
  qed
  show "wfCache vt good R c'"
    using assms(1) sel l1At_cong(2) [of c' c] wf' sync by (simp add: wfCache_def)
  have len: "length (l2 c') = length (l2 c)" by (simp add: c' split: option.splits)
  have nth: "l2V (l2 c' ! j) = l2V (l2 c ! j)" "l2Tag (l2 c' ! j) = l2Tag (l2 c ! j)"
    "l2B (l2 c' ! j) = l2B (l2 c ! j)" "l2D (l2 c' ! j) = l2D (l2 c ! j)" if "j < length (l2 c)" for j
    using that by (simp_all add: c' nth_update_in split: option.splits)
  have act: "l2Act c' = l2Act c" by (simp add: l2Act_def l2On_def sel)
  show at: "l2At c' = l2At c"
  proof
    fix A show "l2At c' A = l2At c A"
    proof (cases "l2At c A")
      case None
      then have "l2At c' A = None"
        using nth unfolding l2At_None_iff [OF wf(1)] l2At_None_iff [OF wf'] by (simp add: act len)
      with None show ?thesis by simp
    next
      case (Some bd)
      then obtain i where "l2Act c" "i < length (l2 c)" "l2V (l2 c ! i)" "l2Tag (l2 c ! i) = drop_bit 5 A"
          "bd = (l2B (l2 c ! i), l2D (l2 c ! i))"
        unfolding l2At_Some_iff [OF wf(1)] by blast
      then have "l2At c' A = Some bd"
        unfolding l2At_Some_iff [OF wf'] act len using nth by (intro conjI exI [of _ i]) simp_all
      with Some show ?thesis by simp
    qed
  qed
  show "l2Act c \<and> i < length (l2 c') \<and> l2V (l2 c' ! i) \<and> l2Tag (l2 c' ! i) = drop_bit 5 B
       \<and> l2At c B = Some (l2B (l2 c' ! i), l2D (l2 c' ! i))" if "r = Some i"
  proof -
    have a: "l2Act c" "?hit = Some i" using that r by (auto split: if_splits)
    then have i: "i < length (l2 c) \<and> l2V (l2 c ! i) \<and> l2Tag (l2 c ! i) = drop_bit 5 B"
      using l2HitIdx_iff [OF wf(1)] by (simp add: l2Act_def)
    moreover have "l2At c B = Some (l2B (l2 c ! i), l2D (l2 c ! i))"
      using a by (simp add: l2At_def)
    ultimately show ?thesis using a nth len by simp
  qed
  show "l2At c B = None" if "r = None"
    using that r by (simp add: l2At_def split: if_splits)
qed


text \<open>Putting a line at index \<open>i\<close> of an active L2: the map afterwards.\<close>

lemma l2At_put:
  assumes wf: "wfL2 R (l2Sets c) (l2 c)" and wf': "wfL2 R (l2Sets c) ((l2 c)[i := e])"
    and "l2Act c" "l2Act c'" "l2Sets c' = l2Sets c" "l2 c' = (l2 c)[i := e]"
    and i: "i < length (l2 c)" and e: "l2V e" "l2Tag e = drop_bit 5 B"
  shows "l2At c' A = (if blk A = blk B then Some (l2B e, l2D e)
      else if l2V (l2 c ! i) \<and> l2Tag (l2 c ! i) = drop_bit 5 A then None else l2At c A)"
proof -
  have wfc': "wfL2 R (l2Sets c') (l2 c')" using wf' assms by simp
  show ?thesis
  proof (cases "blk A = blk B")
    case True
    then have "l2At c' A = Some (l2B e, l2D e)"
      unfolding l2At_Some_iff [OF wfc'] using assms by (intro conjI exI [of _ i]) (simp_all add: drop5_eq_iff)
    with True show ?thesis by simp
  next
    case False
    then have ne: "drop_bit 5 A \<noteq> drop_bit 5 B" by (simp add: drop5_eq_iff)
    have nth: "l2 c' ! j = (if i = j then e else l2 c ! j)" if "j < length (l2 c)" for j
      using that assms by (simp add: nth_update_in)
    show ?thesis
    proof (cases "l2V (l2 c ! i) \<and> l2Tag (l2 c ! i) = drop_bit 5 A")
      case ev: True
      have "l2At c' A = None"
        unfolding l2At_None_iff [OF wfc']
      proof (intro impI allI notI)
        fix j assume j: "j < length (l2 c')" "l2V (l2 c' ! j) \<and> l2Tag (l2 c' ! j) = drop_bit 5 A"
        then have "j < length (l2 c)" using assms by simp
        moreover from this have "j \<noteq> i" using j(2) ne e nth by auto
        ultimately have "j = i"
          using j nth [of j] ev i by (intro wfL2_unique [OF wf]) simp_all
        with \<open>j \<noteq> i\<close> show False ..
      qed
      with ev False show ?thesis by simp
    next
      case nev: False
      have "l2At c' A = l2At c A"
      proof (cases "l2At c A")
        case None
        have "l2At c' A = None"
          unfolding l2At_None_iff [OF wfc']
        proof (intro impI allI)
          fix j assume "j < length (l2 c')"
          then have j: "j < length (l2 c)" using assms by simp
          then have "\<not> (l2V (l2 c ! j) \<and> l2Tag (l2 c ! j) = drop_bit 5 A)"
            using None \<open>l2Act c\<close> unfolding l2At_None_iff [OF wf] by blast
          then show "\<not> (l2V (l2 c' ! j) \<and> l2Tag (l2 c' ! j) = drop_bit 5 A)"
            using nth [OF j] ne e by auto
        qed
        with None show ?thesis by simp
      next
        case (Some bd)
        then obtain j where j: "j < length (l2 c)" "l2V (l2 c ! j)" "l2Tag (l2 c ! j) = drop_bit 5 A"
            "bd = (l2B (l2 c ! j), l2D (l2 c ! j))"
          unfolding l2At_Some_iff [OF wf] by blast
        with nev have "i \<noteq> j" by auto
        with j have "l2At c' A = Some bd"
          unfolding l2At_Some_iff [OF wfc'] using assms nth [OF j(1)]
          by (intro conjI exI [of _ j]) simp_all
        with Some show ?thesis by simp
      qed
      with nev False show ?thesis by auto
    qed
  qed
qed

end
