(* ===== verification/CacheInstall.thy ===== *)
theory CacheInstall
  imports CacheView
begin

text \<open>
  Installing a line in the L2: the slot chosen lies in the block's set, the line it held is
  cast out, and coherence is kept.
\<close>

section \<open>Installing a line in the L2\<close>

lemma l2Resize_first:
  assumes "wfCache vt good R c" "l2Sets c = 0" "l2On c" "\<not> l2Inert c"
  defines "c' \<equiv> l2Resize c"
  shows "wfCache vt good R c'" "cacheFrame c c'" "l1At c' = l1At c" "lineWayQuiet c' = lineWayQuiet c"
    "l1d c' = l1d c" "l1x c' = l1x c" "busSt c' = busSt c" "l2At c' = l2At c" "l2Act c'"
proof -
  define n :: u32 where "n = (let k = drop_bit 28 (l2cr (st c)) AND 3;
      bytes = (if k = 0 then 0x200000 else if k = 1 then 0x40000
               else if k = 2 then 0x80000 else 0x100000 :: u32) in bytes div 32 div 2)"
  have n0: "n \<noteq> 0" unfolding n_def Let_def by (simp split: if_splits)
  have l2: "l2 c = []" using assms(1,2) by (simp add: wfCache_def wfL2_def)
  have c': "c' = (fetchDrop c)\<lparr>l2Sets := n, l2 := replicate (unat n * 2) emptyL2Line\<rparr>"
    using n0 assms(2) l2 unfolding c'_def l2Resize_def n_def [unfolded Let_def] Let_def
    by (simp add: l2FlushAll_def)
  show "cacheFrame c c'" "l1d c' = l1d c" "l1x c' = l1x c" "busSt c' = busSt c"
    by (simp_all add: c' cacheFrame_def)
  show "l1At c' = l1At c" "lineWayQuiet c' = lineWayQuiet c"
    using l1At_cong [of c' c] by (simp_all add: c')
  have wf: "wfL2 R n (replicate (unat n * 2) emptyL2Line)"
    by (rule wfL2I) (simp_all add: emptyL2Line_def)
  show "wfCache vt good R c'"
    using assms(1) wf l1At_cong(2) [of c' c] l2Synced_cong [of c' c] by (simp add: wfCache_def c')
  show act: "l2Act c'" using assms(3,4) n0 by (simp add: c' l2Act_def l2On_def)
  show "l2At c' = l2At c"
  proof
    fix A
    have "l2At c' A = None"
      using l2At_None_iff [of R c' A] wf by (simp add: c' emptyL2Line_def)
    moreover have "l2At c A = None" using assms(2) by (simp add: l2At_def l2Act_def)
    ultimately show "l2At c' A = l2At c A" by simp
  qed
qed

lemma l2Slot_in_set: "l2Slot ls s tag div 2 = unat s"
  by (auto simp: l2Slot_def Let_def split: option.splits dest: l2HitIdx_SomeD(1))

context mem_bus
begin

lemma l2InstallAt_coherent:
  fixes bytes :: "u32 \<Rightarrow> u8"
  assumes wfc: "wfCache vt good R c" and cl: "cleanL2 mem R c" and B: "B \<in> R" and act: "l2Act c"
    and ok: "dirty \<or> (\<forall>k < 32. bytes k = belowAt mem c B k)"
  defines "c' \<equiv> l2InstallAt (drop_bit 5 B mod l2Sets c) (drop_bit 5 B) bytes dirty c"
  shows "wfCache vt good R c'" "cleanL2 mem R c'" "cacheFrame c c'" "l1At c' = l1At c"
    "lineWayQuiet c' = lineWayQuiet c" "l1d c' = l1d c" "l1x c' = l1x c"
    "\<And>A k. A \<in> R \<Longrightarrow> k < 32 \<Longrightarrow> belowAt mem c' A k = (if A = B then bytes k else belowAt mem c A k)"
proof -
  define s where "s = drop_bit 5 B mod l2Sets c"
  define i where "i = l2Slot (l2 c) s (drop_bit 5 B)"
  define hit where "hit = l2HitIdx (l2 c) s (drop_bit 5 B)"
  define e where "e = l2 c ! i"
  define ev where "ev \<longleftrightarrow> hit = None \<and> l2V e \<and> l2D e"
  define E where "E = push_bit 5 (l2Tag e)"
  define c3 where "c3 = (if ev then cacheBusWriteLine E (l2B e) c else c)"
  define ne where "ne = \<lparr>l2V = True, l2D = dirty \<or> (hit \<noteq> None \<and> l2D e), l2Tag = drop_bit 5 B,
    l2Age = l2Clock c3 + 1, l2B = (\<lambda>k. if k < 32 then bytes k else l2B e k)\<rparr>"
  have wf: "wfL2 R (l2Sets c) (l2 c)" "l2Synced c" using wfc by (simp_all add: wfCache_def)
  have n0: "l2Sets c \<noteq> 0" using act by (simp add: l2Act_def)
  have c': "c' = c3\<lparr>l2Clock := l2Clock c3 + 1, l2 := (l2 c3)[i := ne]\<rparr>"
    unfolding c'_def l2InstallAt_def Let_def ne_def c3_def ev_def E_def e_def i_def s_def hit_def ..
  have "s < l2Sets c" unfolding s_def using n0 by (simp add: word_mod_less_divisor word_neq_0_conv)
  then have i: "i < length (l2 c)" "i div 2 = unat s"
    using l2Slot_in_set [of "l2 c" s "drop_bit 5 B"] wfL2_len [OF wf(1)]
    by (simp_all add: i_def word_less_nat_alt)
  have hitD: "hit = Some j \<Longrightarrow> j = i \<and> l2V e \<and> l2Tag e = drop_bit 5 B" for j
    by (auto simp: hit_def i_def e_def l2Slot_def Let_def dest: l2HitIdx_SomeD)
  have noHit: "hit = None \<Longrightarrow> j < length (l2 c) \<Longrightarrow> l2V (l2 c ! j) \<Longrightarrow> l2Tag (l2 c ! j) \<noteq> drop_bit 5 B" for j
    using l2HitIdx_None_iff [OF wf(1) n0, of B] by (auto simp: hit_def s_def)
  have ER: "E \<in> R \<and> drop_bit 5 E = l2Tag e" if v: "l2V e"
  proof -
    obtain X where "X \<in> R" "l2Tag e = drop_bit 5 X"
      using wfL2_base [OF wf(1) i(1)] v unfolding e_def by blast
    then show ?thesis by (simp add: E_def push5_drop5 blk_R)
  qed
  have c3: "wfCache vt good R c3" "l1x c3 = l1x c" "l1d c3 = l1d c" "l2 c3 = l2 c" "l2Sets c3 = l2Sets c"
    "st c3 = st c" "l2Inert c3 = l2Inert c"
    using wfc writeLine_effect [OF wfc, where b = "l2B e" and B = E] ER
    by (auto simp: c3_def ev_def cacheFrame_def)
  have mem3: "mem (busSt c3) (A + k) = (if ev \<and> A = E then l2B e k else mem (busSt c) (A + k))"
    if "A \<in> R" "k < 32" for A k
    using writeLine_effect(10) [OF wfc, where b = "l2B e" and B = E and A = A and k = k] ER that
    by (auto simp: c3_def ev_def)
  have uniq: "j = i" if "j < length (l2 c)" "l2V (l2 c ! j)" "l2Tag (l2 c ! j) = drop_bit 5 B" for j
  proof (cases hit)
    case None
    with noHit that show ?thesis by blast
  next
    case (Some m)
    with hitD have "l2V (l2 c ! i)" "l2Tag (l2 c ! i) = drop_bit 5 B" by (auto simp: e_def)
    then show ?thesis using that i by (intro wfL2_unique [OF wf(1)]) simp_all
  qed
  have wf': "wfL2 R (l2Sets c) ((l2 c)[i := ne])"
    by (rule wfL2_put [OF wf(1), of B]) (use B i uniq in \<open>simp_all add: blk_R ne_def s_def\<close>)
  have sel: "l1x c' = l1x c" "l1d c' = l1d c" "l2 c' = (l2 c)[i := ne]" "l2Sets c' = l2Sets c"
    "st c' = st c" "l2Inert c' = l2Inert c" "busSt c' = busSt c3" "busVt c' = busVt c3"
    "l2SetMask c' = l2SetMask c3" "l2SetsSeen c' = l2SetsSeen c3"
    by (simp_all add: c' c3)
  show "l1d c' = l1d c" "l1x c' = l1x c" "cacheFrame c c'" by (simp_all add: sel cacheFrame_def)
  show "l1At c' = l1At c" "lineWayQuiet c' = lineWayQuiet c"
    using l1At_cong [of c' c] sel by simp_all
  show "wfCache vt good R c'"
    using c3(1) wf' sel c3 l1At_cong(2) [of c' c3] l2Synced_cong [of c' c3] by (simp add: wfCache_def)
  have act': "l2Act c'" using act by (simp add: l2Act_def l2On_def sel)
  have at: "l2At c' A = (if A = B then Some (l2B ne, l2D ne)
      else if l2V e \<and> l2Tag e = drop_bit 5 A then None else l2At c A)" if "A \<in> R" for A
    using l2At_put [OF wf(1) wf' act act' sel(4,3) i(1), of B A] that B
    by (simp add: ne_def e_def blk_R)
  have atE: "l2At c A = Some (l2B e, l2D e) \<and> A = E" if "A \<in> R" "l2V e" "l2Tag e = drop_bit 5 A" for A
  proof -
    have "l2At c A = Some (l2B e, l2D e)"
      unfolding l2At_Some_iff [OF wf(1)] using act i that by (intro conjI exI [of _ i]) (simp_all add: e_def)
    moreover have "A = E" using that by (simp add: E_def push5_drop5 blk_R)
    ultimately show ?thesis ..
  qed
  have evB: "\<not> (ev \<and> B = E)"
    using noHit [OF _ i(1)] ER by (auto simp: ev_def e_def)
  show below: "belowAt mem c' A k = (if A = B then bytes k else belowAt mem c A k)" if "A \<in> R" "k < 32" for A k
  proof (cases "A = B")
    case True
    then show ?thesis using at [OF that(1)] that(2) by (simp add: belowAt_def ne_def)
  next
    case False
    show ?thesis
    proof (cases "l2V e \<and> l2Tag e = drop_bit 5 A")
      case True
      note ae = atE [OF that(1)] True
      have "hit = None"
      proof (cases hit)
        case (Some j)
        then have "l2Tag e = drop_bit 5 B" using hitD by blast
        with True False B that(1) show ?thesis by (metis drop5_eq_iff blk_R)
      qed
      with ae have "mem (busSt c3) (A + k) = l2B e k"
        using mem3 [OF that] cl that by (cases "l2D e") (auto simp: ev_def cleanL2_def)
      with ae False at [OF that(1)] show ?thesis by (auto simp: belowAt_def sel)
    next
      case ne: False
      then have "\<not> (ev \<and> A = E)" using ER by (auto simp: ev_def)
      with ne False at [OF that(1)] mem3 [OF that] show ?thesis
        by (auto simp: belowAt_def sel split: option.splits)
    qed
  qed
  show "cleanL2 mem R c'"
    unfolding cleanL2_def
  proof (intro ballI allI impI)
    fix A b k assume A: "A \<in> R" "l2At c' A = Some (b, False)" "(k :: u32) < 32"
    show "b k = mem (busSt c') (A + k)"
    proof (cases "A = B")
      case True
      with A at [OF A(1)] have b: "b = l2B ne" "\<not> l2D ne" by simp_all
      then have "bytes k = belowAt mem c B k" using ok A(3) by (auto simp: ne_def)
      also have "\<dots> = mem (busSt c) (B + k)"
      proof (cases hit)
        case None
        then have "l2At c B = None"
          unfolding l2At_None_iff [OF wf(1)] using noHit by blast
        then show ?thesis by (simp add: belowAt_def)
      next
        case (Some j)
        with hitD atE [OF B] have "l2At c B = Some (l2B e, l2D e)" by blast
        moreover have "\<not> l2D e" using b Some by (simp add: ne_def)
        ultimately show ?thesis using cl B A(3) by (auto simp: belowAt_def cleanL2_def)
      qed
      finally show ?thesis
        using mem3 [OF B A(3)] evB b A(3) True by (auto simp: sel ne_def)
    next
      case False
      with A at [OF A(1)] have *: "\<not> (l2V e \<and> l2Tag e = drop_bit 5 A)" "l2At c A = Some (b, False)"
        by (auto split: if_splits)
      then have "\<not> (ev \<and> A = E)" using ER by (auto simp: ev_def)
      then show ?thesis
        using mem3 [OF A(1,3)] cl * A by (auto simp: sel cleanL2_def)
    qed
  qed
qed


lemma cleanL2_cong:
  "l2At c' = l2At c \<Longrightarrow> mem (busSt c') = mem (busSt c) \<Longrightarrow> cleanL2 mem R c' = cleanL2 mem R c"
  by (simp add: cleanL2_def)

lemma belowAt_cong:
  "l2At c' = l2At c \<Longrightarrow> mem (busSt c') = mem (busSt c) \<Longrightarrow> belowAt mem c' = belowAt mem c"
  by (auto simp: belowAt_def fun_eq_iff split: option.splits)

lemma quiet_wfCache:
  assumes "wfCache vt good R c" "l1x c' = l1x c" "l1d c' = l1d c" "l2 c' = l2 c" "l2Sets c' = l2Sets c"
    "busSt c' = busSt c" "busVt c' = busVt c" "l2Synced c'"
  shows "wfCache vt good R c'"
  using assms l1At_cong(2) [of c' c R] by (simp add: wfCache_def)

lemma l2Install_coherent:
  fixes bytes :: "u32 \<Rightarrow> u8"
  assumes wfc: "wfCache vt good R c" and cl: "cleanL2 mem R c" and B: "B \<in> R" and on: "l2On c"
    and ok: "dirty \<or> (\<forall>k < 32. bytes k = belowAt mem c B k)"
  defines "c' \<equiv> l2Install B bytes dirty c"
  shows "wfCache vt good R c'" "cleanL2 mem R c'" "cacheFrame c c'" "l1At c' = l1At c"
    "lineWayQuiet c' = lineWayQuiet c" "l1d c' = l1d c" "l1x c' = l1x c"
    "\<And>A k. A \<in> R \<Longrightarrow> k < 32 \<Longrightarrow> belowAt mem c' A k = (if A = B then bytes k else belowAt mem c A k)"
proof -
  define c0 where "c0 = (if dirty then fetchDropAt B c else c)"
  have sel0: "l1x c0 = l1x c" "l1d c0 = l1d c" "l2 c0 = l2 c" "l2Sets c0 = l2Sets c" "st c0 = st c"
    "l2Inert c0 = l2Inert c" "busSt c0 = busSt c" "busVt c0 = busVt c"
    "l2SetMask c0 = l2SetMask c" "l2SetsSeen c0 = l2SetsSeen c"
    by (simp_all add: c0_def)
  have sy0: "l2Synced c0" using wfc sel0 by (simp add: wfCache_def l2Synced_def)
  have wf0: "wfCache vt good R c0" using quiet_wfCache [OF wfc] sel0 sy0 by blast
  have at0: "l2At c0 = l2At c" using l2At_cong [of c0 c] sel0 by simp
  have "\<exists>c1. c' = c1 \<and> wfCache vt good R c1 \<and> cleanL2 mem R c1 \<and> cacheFrame c c1 \<and> l1At c1 = l1At c \<and>
    lineWayQuiet c1 = lineWayQuiet c \<and> l1d c1 = l1d c \<and> l1x c1 = l1x c \<and>
    (\<forall>A k. A \<in> R \<longrightarrow> k < 32 \<longrightarrow> belowAt mem c1 A k = (if A = B then bytes k else belowAt mem c A k))"
  proof (cases "l2Inert c")
    case True
    then have none: "l2At c A = None" for A by (simp add: l2At_def l2Act_def)
    show ?thesis
    proof (cases dirty)
      case d: True
      note w = writeLine_effect [OF wf0 B, where b = bytes]
      have c': "c' = cacheBusWriteLine B bytes c0"
        using on True d sel0 by (simp add: c'_def l2Install_def c0_def)
      show ?thesis
        unfolding c' using w none at0 sel0 l1At_cong [of c0 c]
        by (auto simp: cacheFrame_def cleanL2_def belowAt_def fun_eq_iff)
    next
      case nd: False
      then have "c' = c" using on True by (simp add: c'_def l2Install_def)
      with nd ok wfc cl show ?thesis by auto
    qed
  next
    case False
    define c1 where "c1 = (if l2Sets c0 = 0 then l2Resize c0 else c0)"
    have c1: "wfCache vt good R c1" "cacheFrame c c1" "l1At c1 = l1At c" "lineWayQuiet c1 = lineWayQuiet c"
      "l1d c1 = l1d c" "l1x c1 = l1x c" "busSt c1 = busSt c" "l2At c1 = l2At c" "l2Act c1"
      using l2Resize_first [OF wf0] on False sel0 at0 wf0 l1At_cong [of c0 c]
      by (auto simp: c1_def cacheFrame_def l2On_def l2Act_def)
    define c2 where "c2 = l2SetSync c1"
    have sy1: "l2Synced c1" using c1(1) by (simp add: wfCache_def)
    have c2: "wfCache vt good R c2" "l2At c2 = l2At c1" "l2Act c2" "l1At c2 = l1At c1"
      "lineWayQuiet c2 = lineWayQuiet c1"
      using quiet_wfCache [OF c1(1), of c2] l2SetSync_synced [OF sy1] l2At_cong [of c2 c1] c1(9) l1At_cong [of c2 c1]
      by (simp_all add: c2_def)
    have b2: "belowAt mem c2 = belowAt mem c" "cleanL2 mem R c2"
      using belowAt_cong [of c2 c] cleanL2_cong [of c2 c] c1 c2 cl by (simp_all add: c2_def)
    have "l2SetOf B c1 = (drop_bit 5 B mod l2Sets c1, c2)"
      using l2SetOf_eq [OF sy1] c1(9) by (simp add: l2Act_def c2_def)
    then have c': "c' = l2InstallAt (drop_bit 5 B mod l2Sets c2) (drop_bit 5 B) bytes dirty c2"
      using on False sel0 unfolding c'_def l2Install_def Let_def c0_def [symmetric] c1_def [symmetric]
      by (simp add: c2_def)
    show ?thesis
      unfolding c' using l2InstallAt_coherent [OF c2(1) b2(2) B c2(3), of dirty bytes] ok b2 c1 c2
      by (auto simp: cacheFrame_def c2_def)
  qed
  then show "wfCache vt good R c'" "cleanL2 mem R c'" "cacheFrame c c'" "l1At c' = l1At c"
    "lineWayQuiet c' = lineWayQuiet c" "l1d c' = l1d c" "l1x c' = l1x c"
    "\<And>A k. A \<in> R \<Longrightarrow> k < 32 \<Longrightarrow> belowAt mem c' A k = (if A = B then bytes k else belowAt mem c A k)"
    by blast+
qed

end

end
