(* ===== verification/CacheFill.thy ===== *)
theory CacheFill
  imports CacheInstall
begin

text \<open>
  Moving lines between the levels: cast-outs, pushes, the victim choice and fills of the L1
  keep coherence and the view.
\<close>

section \<open>Moving lines between the levels\<close>

definition sameView :: "('b \<Rightarrow> u32 \<Rightarrow> u8) \<Rightarrow> u32 set \<Rightarrow> 'b cpu \<Rightarrow> 'b cpu \<Rightarrow> bool" where
  "sameView mem R c c' \<longleftrightarrow> (\<forall>A \<in> R. \<forall>k < 32. viewAt mem c' A k = viewAt mem c A k)"

lemma sameView_refl [simp]: "sameView mem R c c"
  by (simp add: sameView_def)

lemma sameView_trans: "sameView mem R c d \<Longrightarrow> sameView mem R d e \<Longrightarrow> sameView mem R c e"
  by (simp add: sameView_def)

lemma coherentI:
  assumes "wfCache vt good R c" "cleanL2 mem R c"
    and "\<And>B e k. B \<in> R \<Longrightarrow> l1At c B = Some e \<Longrightarrow> \<not> dlD e \<Longrightarrow> k < 32 \<Longrightarrow> dlB e k = belowAt mem c B k"
  shows "coherent vt mem good R c"
  using assms by (simp add: coherent_def cleanL1_def)

lemma coherent_clean:
  "coherent vt mem good R c \<Longrightarrow> B \<in> R \<Longrightarrow> l1At c B = Some e \<Longrightarrow> \<not> dlD e \<Longrightarrow> k < 32
    \<Longrightarrow> dlB e k = belowAt mem c B k"
  by (simp add: coherent_def cleanL1_def)

lemma coherent_parts:
  assumes "coherent vt mem good R c"
  shows "wfCache vt good R c" "cleanL2 mem R c" "cleanL1 mem R c" "wfL1 R c" "wfL2 R (l2Sets c) (l2 c)"
  using assms by (simp_all add: coherent_def wfCache_def)

context mem_bus
begin

abbreviation "coh \<equiv> coherent vt mem good R"
abbreviation "wfc \<equiv> wfCache vt good R"

text \<open>Below the L1, the block of one line was given that line's bytes.\<close>

definition pushed :: "'b cpu \<Rightarrow> u32 \<Rightarrow> (u32 \<Rightarrow> u8) \<Rightarrow> 'b cpu \<Rightarrow> bool" where
  "pushed c B b c1 \<longleftrightarrow> wfc c1 \<and> cleanL2 mem R c1 \<and> cacheFrame c c1 \<and> l1At c1 = l1At c \<and>
     lineWayQuiet c1 = lineWayQuiet c \<and> l1d c1 = l1d c \<and> l1x c1 = l1x c \<and>
     (\<forall>A k. A \<in> R \<longrightarrow> k < 32 \<longrightarrow> belowAt mem c1 A k = (if A = B then b k else belowAt mem c A k))"

lemma pushed_install:
  assumes "coh c" "B \<in> R" "l2On c"
  shows "pushed c B b (l2Install B b True c)"
  using l2Install_coherent [OF coherent_parts(1,2) [OF assms(1)] assms(2,3), of True b]
  unfolding pushed_def by blast

lemma pushed_write:
  assumes "coh c" "B \<in> R" "\<not> l2On c"
  shows "pushed c B b (cacheBusWriteLine B b c)"
proof -
  have "l2At c = (\<lambda>_. None)" using assms(3) by (simp add: l2At_def l2Act_def fun_eq_iff)
  then show ?thesis
    using writeLine_effect [OF coherent_parts(1) [OF assms(1)] assms(2), where b = b]
    by (auto simp: pushed_def cleanL2_def belowAt_def)
qed

lemma pushed_through:
  assumes "coh c" "B \<in> R"
  shows "pushed c B b (l2Invalidate B (cacheBusWriteLine B b c))"
proof -
  note w = writeLine_effect [OF coherent_parts(1) [OF assms(1)] assms(2), where b = b]
  note v = l2Invalidate_effect [OF w(1), where B = B]
  have at: "l2At (l2Invalidate B (cacheBusWriteLine B b c)) A = (if A = B then None else l2At c A)"
    if "A \<in> R" for A using v(9) [of A] w(4) that assms(2) by (simp add: blk_R)
  have m: "mem (busSt (l2Invalidate B (cacheBusWriteLine B b c))) (A + k)
      = (if A = B then b k else mem (busSt c) (A + k))" if "A \<in> R" "k < 32" for A k
    using v(7) w(10) [OF that] by simp
  have "cleanL2 mem R (l2Invalidate B (cacheBusWriteLine B b c))"
    using coherent_parts(2) [OF assms(1)] at m by (auto simp: cleanL2_def split: if_splits)
  moreover have "belowAt mem (l2Invalidate B (cacheBusWriteLine B b c)) A k
      = (if A = B then b k else belowAt mem c A k)" if "A \<in> R" "k < 32" for A k
    using at [OF that(1)] m [OF that] by (auto simp: belowAt_def split: option.splits)
  ultimately show ?thesis
    using v w by (auto simp: pushed_def cacheFrame_def)
qed

text \<open>A pushed line may be marked clean.\<close>

lemma pushed_clean:
  assumes c: "coh c" and B: "B \<in> R" and w: "lineWayQuiet c B = Some w"
    and p: "pushed c B (dlB (l1d c (setOf B) w)) c1"
  defines "c' \<equiv> setDirty (setOf B) w False c1"
  shows "coh c'" "sameView mem R c c'" "cacheFrame c c'" "lineWayQuiet c' = lineWayQuiet c"
    "\<And>s. dxTv (l1x c' s) = dxTv (l1x c s)"
    "\<And>A. A \<in> R \<Longrightarrow> l1At c' A = (if A = B then Some ((l1d c (setOf B) w)\<lparr>dlD := False\<rparr>) else l1At c A)"
    "\<And>k. k < 32 \<Longrightarrow> belowAt mem c' B k = dlB (l1d c (setOf B) w) k"
proof -
  let ?e = "l1d c (setOf B) w"
  from p have wf1: "wfc c1" "wfL1 R c1" "cleanL2 mem R c1" and fr: "cacheFrame c c1" and eq: "l1At c1 = l1At c"
    "lineWayQuiet c1 = lineWayQuiet c" "l1d c1 = l1d c" "l1x c1 = l1x c"
    and below: "\<And>A k. A \<in> R \<Longrightarrow> k < 32 \<Longrightarrow> belowAt mem c1 A k = (if A = B then dlB ?e k else belowAt mem c A k)"
    by (auto simp: pushed_def wfCache_def)
  have w1: "lineWayQuiet c1 B = Some w" using w eq by simp
  have c': "c' = setLine (setOf B) w (?e\<lparr>dlD := False\<rparr>) c1" by (simp add: c'_def setDirty_setLine eq)
  note mod = l1At_modify [OF wf1(2) w1, where e = "?e\<lparr>dlD := False\<rparr>", folded c']
  show at: "l1At c' A = (if A = B then Some (?e\<lparr>dlD := False\<rparr>) else l1At c A)" if "A \<in> R" for A
    using mod(2) [of A] that B by (simp add: eq blk_R)
  have l2: "l2At c' = l2At c1" "belowAt mem c' = belowAt mem c1"
    using l2At_cong [of c' c1] belowAt_cong [of c' c1] by (simp_all add: c')
  have wf': "wfc c'" using wf1(1) mod(1) l2Synced_cong [of c' c1] by (simp add: wfCache_def c')
  show "cacheFrame c c'" using fr by (simp add: c' cacheFrame_def)
  show "lineWayQuiet c' = lineWayQuiet c"
    using eq by (simp add: c' lineWayQuiet_def fun_eq_iff)
  show "dxTv (l1x c' s) = dxTv (l1x c s)" for s by (simp add: c' eq)
  show "belowAt mem c' B k = dlB ?e k" if "k < 32" for k using below [OF B that] l2 by simp
  show "coh c'"
  proof (rule coherentI [OF wf'])
    show "cleanL2 mem R c'" using wf1(3) l2 by (simp add: cleanL2_def c')
    fix A e k assume A: "A \<in> R" "l1At c' A = Some e" "\<not> dlD e" "(k :: u32) < 32"
    show "dlB e k = belowAt mem c' A k"
    proof (cases "A = B")
      case True
      then show ?thesis using A at [OF A(1)] below l2 by auto
    next
      case False
      then show ?thesis
        using A at [OF A(1)] below [OF A(1,4)] l2 coherent_clean [OF c A(1) _ A(3,4)] by auto
    qed
  qed
  have e: "l1At c B = Some ?e" using w by (simp add: l1At_def)
  show "sameView mem R c c'"
    unfolding sameView_def viewAt_def using at below l2 e by (auto split: option.splits)
qed

text \<open>Dropping a line uncovers the level below; where it was clean nobody can tell.\<close>

lemma drop_line:
  assumes c: "coh c" and B: "B \<in> R" and w: "lineWayQuiet c B = Some w"
  defines "c' \<equiv> setTv (setOf B) w 0 c"
  shows "coh c'" "cacheFrame c c'"
    "\<And>A. A \<in> R \<Longrightarrow> l1At c' A = (if A = B then None else l1At c A)"
    "\<And>a. lineWayQuiet c a = None \<Longrightarrow> lineWayQuiet c' a = None"
    "l2At c' = l2At c" "busSt c' = busSt c"
proof -
  note wd = lineWayQuiet_SomeD [OF w]
  note k = l1At_kill [OF coherent_parts(4) [OF c] setOf_less wd(1), where a2 = B, folded c'_def]
  show at: "l1At c' A = (if A = B then None else l1At c A)" if "A \<in> R" for A
  proof (cases "A = B")
    case True
    then show ?thesis using k(2) [of B] wd by simp
  next
    case False
    then have "\<not> (setOf A = setOf B \<and> dxTv (l1x c (setOf B)) w = tvOf A)"
      using block_eqI [of A B] wd that B by (auto simp: blk_R)
    then show ?thesis using k(2) [of A] False by auto
  qed
  have l2: "l2At c' = l2At c" "belowAt mem c' = belowAt mem c"
    using l2At_cong [of c' c] belowAt_cong [of c' c] by (simp_all add: c'_def)
  show "l2At c' = l2At c" "busSt c' = busSt c" "cacheFrame c c'"
    using l2 by (simp_all add: c'_def cacheFrame_def)
  show "lineWayQuiet c' a = None" if "lineWayQuiet c a = None" for a
    using that tvOf_nonzero [of a] by (auto simp: lineWayQuiet_None_iff c'_def)
  have wf': "wfc c'"
    using coherent_parts(1) [OF c] k(1) l2Synced_cong [of c' c] by (simp add: wfCache_def c'_def)
  show "coh c'"
  proof (rule coherentI [OF wf'])
    show "cleanL2 mem R c'" using coherent_parts(2) [OF c] l2 by (simp add: cleanL2_def c'_def)
    fix A e k assume A: "A \<in> R" "l1At c' A = Some e" "\<not> dlD e" "(k :: u32) < 32"
    then show "dlB e k = belowAt mem c' A k"
      using at [OF A(1)] l2 coherent_clean [OF c A(1) _ A(3,4)] by (auto split: if_splits)
  qed
qed

lemma drop_clean:
  assumes c: "coh c" and B: "B \<in> R" and w: "lineWayQuiet c B = Some w" and clean: "\<not> dlD (l1d c (setOf B) w)"
  shows "sameView mem R c (setTv (setOf B) w 0 c)"
proof -
  note d = drop_line [OF c B w]
  have e: "l1At c B = Some (l1d c (setOf B) w)" using w by (simp add: l1At_def)
  have "belowAt mem (setTv (setOf B) w 0 c) = belowAt mem c" using belowAt_cong [of "setTv (setOf B) w 0 c" c] d(5) by simp
  then show ?thesis
    unfolding sameView_def viewAt_def using d(3) e coherent_clean [OF c B e clean]
    by (auto split: option.splits)
qed

end

section \<open>Allocation\<close>

lemma victimScan_Inl:
  "victimScan x ws b = Inl w \<Longrightarrow> w \<in> set ws \<and> dxTv x w AND 1 = 0"
  by (induction ws arbitrary: b) (auto split: if_splits)

lemma victimScan_Inr:
  "victimScan x ws b = Inr v \<Longrightarrow> (v = b \<or> v \<in> set ws) \<and> (\<forall>w \<in> set ws. dxTv x w AND 1 \<noteq> 0)"
  by (induction ws arbitrary: b) (fastforce split: if_splits)+

context mem_bus
begin

text \<open>What a step of the cache machinery keeps.\<close>

definition keeps :: "'b cpu \<Rightarrow> 'b cpu \<Rightarrow> bool" where
  "keeps c c' \<longleftrightarrow> coh c' \<and> sameView mem R c c' \<and> cacheFrame c c'"

lemma keeps_trans: "keeps c d \<Longrightarrow> keeps d e \<Longrightarrow> keeps c e"
  using sameView_trans cacheFrame_trans by (fastforce simp: keeps_def)

lemma keeps_refl: "coh c \<Longrightarrow> keeps c c"
  by (simp add: keeps_def)

lemma keeps_quiet:
  assumes "coh c" "\<And>s. dxTv (l1x c' s) = dxTv (l1x c s)" "l1d c' = l1d c" "l2 c' = l2 c" "l2Sets c' = l2Sets c"
    "st c' = st c" "l2Inert c' = l2Inert c" "busSt c' = busSt c" "busVt c' = busVt c" "l2Synced c \<Longrightarrow> l2Synced c'"
  shows "keeps c c'"
  using coherent_cong [OF assms(2-10)] assms
  by (simp add: keeps_def sameView_def cacheFrame_def)

lemma keeps_touch: "coh c \<Longrightarrow> keeps c (touchAge s w c)"
  by (rule keeps_quiet) (simp_all add: l2Synced_def)

lemma keeps_fetchDropAt: "coh c \<Longrightarrow> keeps c (fetchDropAt a c)"
  by (rule keeps_quiet) (simp_all add: l2Synced_def)

lemma keeps_below:
  assumes "coh c" "wfc c'" "cleanL2 mem R c'" "l1At c' = l1At c" "cacheFrame c c'"
    "\<And>A k. A \<in> R \<Longrightarrow> k < 32 \<Longrightarrow> belowAt mem c' A k = belowAt mem c A k"
  shows "keeps c c'"
proof -
  have "coh c'" using coherentI [OF assms(2,3)] coherent_clean [OF assms(1)] assms by simp
  then show ?thesis
    using assms by (auto simp: keeps_def sameView_def viewAt_def split: option.splits)
qed

lemma castout_keeps:
  assumes c: "coh c" and B: "B \<in> R" and w: "lineWayQuiet c B = Some w"
  defines "c' \<equiv> lineCastout (setOf B) w (tagOf B) c"
  shows "keeps c c'" "lineWayQuiet c' = lineWayQuiet c" "\<not> dlD (l1d c' (setOf B) w)"
proof -
  let ?b = "dlB (l1d c (setOf B) w)"
  let ?c1 = "if l2On c then l2Install B ?b True c else cacheBusWriteLine B ?b c"
  have p: "pushed c B ?b ?c1" using pushed_install pushed_write c B by auto
  have c': "c' = setDirty (setOf B) w False ?c1"
    by (simp add: c'_def lineCastout_def blk_R [OF B])
  note r = pushed_clean [OF c B w p, folded c']
  show "keeps c c'" "lineWayQuiet c' = lineWayQuiet c" using r(1-4) by (simp_all add: keeps_def)
  show "\<not> dlD (l1d c' (setOf B) w)" by (simp add: c' setDirty_setLine)
qed

lemma victim_keeps:
  assumes c: "coh c" and r: "lineVictim pa c = (w, c')"
  shows "keeps c c'" "w < 8" "dxTv (l1x c' (setOf pa)) w AND 1 = 0"
    "lineWayQuiet c pa = None \<Longrightarrow> lineWayQuiet c' pa = None"
proof -
  let ?s = "setOf pa"
  have "keeps c c' \<and> w < 8 \<and> dxTv (l1x c' ?s) w AND 1 = 0 \<and> (lineWayQuiet c pa = None \<longrightarrow> lineWayQuiet c' pa = None)"
  proof (cases "victimScan (l1x c ?s) ways8 0")
    case (Inl v)
    with r have "w = v" "c' = c" by (simp_all add: lineVictim_def)
    with victimScan_Inl [OF Inl] c show ?thesis by (simp add: ways8_set keeps_refl)
  next
    case (Inr v)
    have v: "v < 8" "dxTv (l1x c ?s) v AND 1 \<noteq> 0"
      using victimScan_Inr [OF Inr] ways8_set [of v] by (auto simp: ways8_set)
    obtain B where B: "B \<in> R" "setOf B = ?s" "dxTv (l1x c ?s) v = tvOf B"
      using wfL1_base [OF coherent_parts(4) [OF c] setOf_less v] by blast
    have wB: "lineWayQuiet c B = Some v"
      using lineWayQuiet_iff [OF coherent_parts(4) [OF c]] v B by simp
    define c1 where "c1 = (if dlD (l1d c ?s v) then lineCastout ?s v (tagOf B) c else c)"
    have w: "w = v" "c' = setTv ?s v 0 c1"
      using r Inr B by (auto simp: lineVictim_def Let_def c1_def simp del: One_nat_def)
    have c1: "keeps c c1" "lineWayQuiet c1 = lineWayQuiet c" "\<not> dlD (l1d c1 ?s v)"
      using castout_keeps [OF c B(1) wB] c B by (auto simp: c1_def keeps_refl)
    have coh1: "coh c1" using c1(1) by (simp add: keeps_def)
    have wB1: "lineWayQuiet c1 B = Some v" using wB c1 by simp
    note d = drop_line [OF coh1 B(1) wB1, unfolded B(2), folded w(2)]
    have "keeps c1 c'" using d(1,2) drop_clean [OF coh1 B(1) wB1] c1(3) w(2) B(2) by (simp add: keeps_def)
    with c1 d(4) v w show ?thesis using keeps_trans by auto
  qed
  then show "keeps c c'" "w < 8" "dxTv (l1x c' (setOf pa)) w AND 1 = 0"
    "lineWayQuiet c pa = None \<Longrightarrow> lineWayQuiet c' pa = None" by blast+
qed

text \<open>Filling an invalid way with the bytes of the level below.\<close>

lemma fill_keeps:
  assumes c: "coh c" and pa: "blk pa \<in> R" and w: "w < 8" "dxTv (l1x c (setOf pa)) w AND 1 = 0"
    and miss: "lineWayQuiet c pa = None" and b: "\<And>k. k < 32 \<Longrightarrow> b k = belowAt mem c (blk pa) k"
  defines "c' \<equiv> setLine (setOf pa) w \<lparr>dlB = b, dlD = False\<rparr> (setTv (setOf pa) w (tvOf pa) c)"
  shows "keeps c c'" "lineWayQuiet c' pa = Some w"
proof -
  note f = l1At_fill [OF coherent_parts(4) [OF c] w miss pa, where e = "\<lparr>dlB = b, dlD = False\<rparr>", folded c'_def]
  show "lineWayQuiet c' pa = Some w" by (rule f(3))
  have l2: "l2At c' = l2At c" "belowAt mem c' = belowAt mem c"
    using l2At_cong [of c' c] belowAt_cong [of c' c] by (simp_all add: c'_def)
  have at: "l1At c' A = (if A = blk pa then Some \<lparr>dlB = b, dlD = False\<rparr> else l1At c A)" if "A \<in> R" for A
    using f(2) [of A] that by (simp add: blk_R)
  have wf': "wfc c'"
    using coherent_parts(1) [OF c] f(1) l2Synced_cong [of c' c] by (simp add: wfCache_def c'_def)
  have "coh c'"
  proof (rule coherentI [OF wf'])
    show "cleanL2 mem R c'" using coherent_parts(2) [OF c] l2 by (simp add: cleanL2_def c'_def)
    fix A e k assume A: "A \<in> R" "l1At c' A = Some e" "\<not> dlD e" "(k :: u32) < 32"
    then show "dlB e k = belowAt mem c' A k"
      using at [OF A(1)] l2 b coherent_clean [OF c A(1) _ A(3,4)] by (auto split: if_splits)
  qed
  moreover have "l1At c (blk pa) = None" using miss by (simp add: l1At_def)
  then have "sameView mem R c c'"
    unfolding sameView_def viewAt_def using at l2 b by (auto split: option.splits)
  ultimately show "keeps c c'" by (simp add: keeps_def cacheFrame_def c'_def)
qed

lemma lineFill_keeps:
  assumes c: "coh c" and pa: "blk pa \<in> R" and w: "w < 8" "dxTv (l1x c (setOf pa)) w AND 1 = 0"
    and miss: "lineWayQuiet c pa = None"
  shows "keeps c (lineFill (setOf pa) w pa c)" "lineWayQuiet (lineFill (setOf pa) w pa c) pa = Some w"
proof -
  obtain r c1 where f: "l2Find (blk pa) c = (r, c1)" by fastforce
  note e = l2Find_effect [OF coherent_parts(1) [OF c] f]
  have b1: "belowAt mem c1 = belowAt mem c" using belowAt_cong [of c1 c] e by simp
  have k1: "keeps c c1"
    using keeps_below [OF c e(1)] e b1 coherent_parts(2) [OF c] by (simp add: cleanL2_def)
  then have coh1: "coh c1" by (simp add: keeps_def)
  have "keeps c (lineFill (setOf pa) w pa c) \<and> lineWayQuiet (lineFill (setOf pa) w pa c) pa = Some w"
  proof (cases r)
    case (Some i)
    have b: "l2B (l2 c1 ! i) k = belowAt mem c1 (blk pa) k" for k
      using e(10) [OF Some] b1 by (simp add: belowAt_def)
    have lf: "lineFill (setOf pa) w pa c = setLine (setOf pa) w \<lparr>dlB = l2B (l2 c1 ! i), dlD = False\<rparr>
        (setTv (setOf pa) w (tvOf pa) c1)"
      using f Some by (simp add: lineFill_def l2ReadLine_def blk_def)
    show ?thesis
      unfolding lf using fill_keeps [OF coh1 pa w(1) _ _ b] w miss e keeps_trans [OF k1] by simp
  next
    case None
    obtain b c2 where g: "busReadLine (blk pa) c1 = (b, c2)" by fastforce
    note r2 = readLine_effect [OF e(1) pa g]
    have none: "l2At c2 (blk pa) = None" using e(9,11) None r2(4) by simp
    have b2: "belowAt mem c2 = belowAt mem c1" using belowAt_cong [of c2 c1] r2 by simp
    have bb: "b k = belowAt mem c2 (blk pa) k" if "k < 32" for k
      using r2(11) [OF that] r2(10) none by (simp add: belowAt_def)
    have k2: "keeps c1 c2"
      using keeps_below [OF coh1 r2(1)] r2 b2 coherent_parts(2) [OF coh1] by (simp add: cleanL2_def)
    then have coh2: "coh c2" by (simp add: keeps_def)
    define c3 where "c3 = (if l2On c2 then l2Install (blk pa) b False c2 else c2)"
    have c3: "keeps c2 c3" "lineWayQuiet c3 = lineWayQuiet c2" "l1x c3 = l1x c2"
      "k < 32 \<Longrightarrow> b k = belowAt mem c3 (blk pa) k" for k
    proof -
      note i = l2Install_coherent [OF coherent_parts(1,2) [OF coh2] pa, of False b]
      have "keeps c2 (l2Install (blk pa) b False c2)" if on: "l2On c2"
        by (rule keeps_below [OF coh2]) (use i [OF on] bb in auto)
      then show "keeps c2 c3" using keeps_refl [OF coh2] by (simp add: c3_def)
      show "lineWayQuiet c3 = lineWayQuiet c2" "l1x c3 = l1x c2" using i bb by (auto simp: c3_def)
      show "b k = belowAt mem c3 (blk pa) k" if "k < 32"
        using i(8) pa bb that by (auto simp: c3_def)
    qed
    have lf: "lineFill (setOf pa) w pa c = setLine (setOf pa) w \<lparr>dlB = b, dlD = False\<rparr>
        (setTv (setOf pa) w (tvOf pa) c3)"
      using f None g by (simp add: lineFill_def l2ReadLine_def blk_def c3_def)
    have coh3: "coh c3" using c3(1) by (simp add: keeps_def)
    show ?thesis
      unfolding lf using fill_keeps [OF coh3 pa w(1), of b] w miss e r2 c3
        keeps_trans [OF k1 keeps_trans [OF k2 keeps_trans [OF c3(1)]]] by simp
  qed
  then show "keeps c (lineFill (setOf pa) w pa c)" "lineWayQuiet (lineFill (setOf pa) w pa c) pa = Some w"
    by blast+
qed

lemma lineAlloc_keeps:
  assumes c: "coh c" and pa: "blk pa \<in> R" and r: "lineAlloc pa c = (w, c')"
  shows "keeps c c'" "lineWayQuiet c' pa = Some w"
proof -
  have "keeps c c' \<and> lineWayQuiet c' pa = Some w"
  proof (cases "lineWayQuiet c pa")
    case (Some v)
    then have "w = v" "c' = touchAge (setOf pa) v c" using r by (auto simp: lineAlloc_def lineWay_def)
    then show ?thesis using Some keeps_touch [OF c] by (simp add: lineWayQuiet_def)
  next
    case None
    obtain v c2 where v: "lineVictim pa c = (v, c2)" by fastforce
    note vk = victim_keeps [OF c v]
    have coh2: "coh c2" using vk(1) by (simp add: keeps_def)
    note f = lineFill_keeps [OF coh2 pa vk(2,3) vk(4) [OF None]]
    let ?c3 = "lineFill (setOf pa) v pa c2"
    have c': "w = v" "c' = touchAge (setOf pa) v ?c3"
      using r None v by (auto simp: lineAlloc_def lineWay_def)
    have "coh ?c3" using f(1) by (simp add: keeps_def)
    then have "keeps ?c3 c'" using keeps_touch c' by simp
    then show ?thesis using keeps_trans [OF vk(1) keeps_trans [OF f(1)]] f(2) c'
      by (simp add: lineWayQuiet_def)
  qed
  then show "keeps c c'" "lineWayQuiet c' pa = Some w" by blast+
qed

end

end
