(* ===== verification/CacheAccess.thy ===== *)
theory CacheAccess
  imports CacheFill
begin

text \<open>
  Cached accesses against flat memory. The byte-swap idioms of \<^verbatim>\<open>lineLoadBE\<close> and
  \<^verbatim>\<open>lineStoreBE\<close> are big-endian byte order; a cached load returns the bytes of the view and
  keeps it; a cached store changes exactly its own bytes of the view.
\<close>

section \<open>Byte order\<close>

lemma be_byte_swaps:
  "(ucast (drop_bit 8 (ucast v :: u16) OR push_bit 8 (ucast v :: u16)) :: u8) = be_byte 2 v 0"
  "(ucast (drop_bit 8 (drop_bit 8 (ucast v :: u16) OR push_bit 8 (ucast v :: u16))) :: u8) = be_byte 2 v 1"
  unfolding be_byte_def by (auto intro!: bit_word_eqI simp: bit_simps)

text \<open>The byte-swap idioms move byte lane \<open>k\<close> to the opposite lane.\<close>

lemma bswap32_masks:
  "\<forall>n \<in> set [0..<32]. bit (0xFF :: u32) n = (n < 8) \<and> bit (0xFF00 :: u32) n = (8 \<le> n \<and> n < 16)"
  by code_simp

lemma bswap64_masks:
  "\<forall>n \<in> set [0..<64]. bit (0x00FF00FF00FF00FF :: u64) n = (n mod 16 < 8)
     \<and> bit (0x0000FFFF0000FFFF :: u64) n = (n mod 32 < 16)"
  by code_simp

lemma bit_u32_ge: "32 \<le> n \<Longrightarrow> \<not> bit (a :: u32) n"
  by (auto dest: bit_imp_le_length)

lemma bit_bswap32_lanes:
  assumes "n < 32"
  shows "bit (bswap32 w) n \<longleftrightarrow>
      (if n < 8 then bit w (n + 24) else if n < 16 then bit w (n + 8)
       else if n < 24 then bit w (n - 8) else bit w (n - 24))"
proof -
  have m: "bit (0xFF :: u32) k = (k < 8)" "bit (0xFF00 :: u32) k = (8 \<le> k \<and> k < 16)" if "k < 32" for k
    using bswap32_masks that by simp_all
  have "bit (bswap32 w) n \<longleftrightarrow> 24 \<le> n \<and> bit w (n - 24) \<and> n - 24 < 8 \<or>
      8 \<le> n \<and> bit w (n - 8) \<and> 8 \<le> n - 8 \<and> n - 8 < 16 \<or>
      bit w (8 + n) \<and> 8 \<le> n \<and> n < 16 \<or> bit w (24 + n)"
    using assms m [of n] m [of "n - 24"] m [of "n - 8"]
    by (simp only: bswap32_def bit_or_iff bit_push_bit_iff bit_and_iff bit_drop_bit_eq comp_def) auto
  then show ?thesis using assms bit_u32_ge [of "24 + n" w] by (auto simp: ac_simps)
qed

lemma bit_bswap32:
  assumes "n < 32"
  shows "bit (bswap32 w) n \<longleftrightarrow> bit w (24 - 8 * (n div 8) + n mod 8)"
proof -
  have "\<forall>n \<in> set [0..<32]. (if n < 8 then n + 24 else if n < 16 then n + 8
       else if n < 24 then n - 8 else n - 24) = 24 - 8 * (n div 8) + n mod 8" by code_simp
  then have "(if n < 8 then n + 24 else if n < 16 then n + 8
       else if n < 24 then n - 8 else n - 24) = 24 - 8 * (n div 8) + n mod 8" using assms by simp
  from this [symmetric] show ?thesis unfolding bit_bswap32_lanes [OF assms] by (simp only: split: if_split) simp
qed

lemma bit_bswap64:
  assumes "n < 64"
  shows "bit (bswap64 v) n \<longleftrightarrow> bit v (56 - 8 * (n div 8) + n mod 8)"
proof -
  define s1 s2 s3 :: "nat \<Rightarrow> nat" where "s1 n = (if n mod 16 < 8 then n + 8 else n - 8)"
    and "s2 n = (if n mod 32 < 16 then n + 16 else n - 16)" and "s3 n = (if n < 32 then n + 32 else n - 32)" for n
  have m: "bit (0x00FF00FF00FF00FF :: u64) k = (k mod 16 < 8)" "bit (0x0000FFFF0000FFFF :: u64) k = (k mod 32 < 16)"
    if "k < 64" for k using bswap64_masks that by simp_all
  let ?v1 = "push_bit 8 (v AND 0x00FF00FF00FF00FF) OR (drop_bit 8 v AND 0x00FF00FF00FF00FF)"
  let ?v2 = "push_bit 16 (?v1 AND 0x0000FFFF0000FFFF) OR (drop_bit 16 ?v1 AND 0x0000FFFF0000FFFF)"
  have lanes: "\<forall>n \<in> set [0..<64]. s1 n < 64 \<and> s2 n < 64 \<and> s3 n < 64 \<and> (n mod 16 < 8 \<longleftrightarrow> \<not> (8 \<le> n \<and> (n - 8) mod 16 < 8))
      \<and> (n mod 32 < 16 \<longleftrightarrow> \<not> (16 \<le> n \<and> (n - 16) mod 32 < 16)) \<and> s1 (s2 (s3 n)) = 56 - 8 * (n div 8) + n mod 8"
    unfolding s1_def s2_def s3_def by code_simp
  have 1: "bit ?v1 n \<longleftrightarrow> bit v (s1 n)" if "n < 64" for n
  proof -
    have "n mod 16 < 8 \<longleftrightarrow> \<not> (8 \<le> n \<and> (n - 8) mod 16 < 8)" using lanes that by simp
    then show ?thesis using that m(1) [of n] m(1) [of "n - 8"]
      by (simp only: bit_or_iff bit_push_bit_iff bit_and_iff bit_drop_bit_eq s1_def comp_def)
         (auto simp: ac_simps dest: bit_imp_le_length)
  qed
  have 2: "bit ?v2 n \<longleftrightarrow> bit ?v1 (s2 n)" if "n < 64" for n
  proof -
    have "n mod 32 < 16 \<longleftrightarrow> \<not> (16 \<le> n \<and> (n - 16) mod 32 < 16)" using lanes that by simp
    then show ?thesis using that m(2) [of n] m(2) [of "n - 16"]
      by (simp only: bit_or_iff bit_push_bit_iff bit_and_iff bit_drop_bit_eq s2_def comp_def)
         (auto simp: ac_simps dest: bit_imp_le_length)
  qed
  have 3: "bit (bswap64 v) n \<longleftrightarrow> bit ?v2 (s3 n)"
    unfolding bswap64_def Let_def using assms
    by (simp only: bit_or_iff bit_push_bit_iff bit_drop_bit_eq s3_def comp_def)
       (auto simp: ac_simps dest: bit_imp_le_length)
  show ?thesis unfolding 3 using assms lanes 1 [of "s2 (s3 n)"] 2 [of "s3 n"] by simp
qed

lemma bswap32_bytes:
  "(ucast (bswap32 w) :: u8) = ucast (drop_bit 24 w)" "(ucast (drop_bit 8 (bswap32 w)) :: u8) = ucast (drop_bit 16 w)"
  "(ucast (drop_bit 16 (bswap32 w)) :: u8) = ucast (drop_bit 8 w)" "(ucast (drop_bit 24 (bswap32 w)) :: u8) = ucast w"
  by (auto intro!: bit_word_eqI simp: bit_simps bit_bswap32_lanes ac_simps)

lemma bswap64_halves:
  "(ucast (bswap64 v) :: u32) = bswap32 (ucast (drop_bit 32 v))"
  "(ucast (drop_bit 32 (bswap64 v)) :: u32) = bswap32 (ucast v)"
proof -
  have "\<forall>n \<in> set [0..<32]. 56 - 8 * (n div 8) + n mod 8 = 32 + (24 - 8 * (n div 8) + n mod 8)
     \<and> 24 - 8 * (n div 8) + n mod 8 < 32 \<and> 56 - 8 * ((32 + n) div 8) + (32 + n) mod 8 = 24 - 8 * (n div 8) + n mod 8"
    by code_simp
  then show "(ucast (bswap64 v) :: u32) = bswap32 (ucast (drop_bit 32 v))"
    "(ucast (drop_bit 32 (bswap64 v)) :: u32) = bswap32 (ucast v)"
    by (auto intro!: bit_word_eqI simp: bit_simps bit_bswap32 bit_bswap64)
qed

lemma word64_join: "v = push_bit 32 (ucast (ucast (drop_bit 32 v) :: u32)) OR ucast (ucast v :: u32)" for v :: u64
  by (auto intro!: bit_word_eqI simp: bit_simps)

lemma bswap64_split: "bswap64 v = push_bit 32 (ucast (bswap32 (ucast v))) OR ucast (bswap32 (ucast (drop_bit 32 v)))"
  using word64_join [of "bswap64 v"] by (simp only: bswap64_halves)

lemma word64_halves:
  "(ucast (ucast (a :: u32) OR push_bit 32 (ucast (b :: u32)) :: u64) :: u32) = a"
  "(ucast (drop_bit 32 (ucast (a :: u32) OR push_bit 32 (ucast (b :: u32)) :: u64)) :: u32) = b"
  by (auto intro!: bit_word_eqI simp: bit_simps bit_u32_ge)

lemma bswap32_host:
  "bswap32 (hostLoad32 p o1) = push_bit 24 (ucast (p o1)) OR push_bit 16 (ucast (p (o1 + 1)))
     OR push_bit 8 (ucast (p (o1 + 2))) OR ucast (p (o1 + 3))"
proof -
  have "bswap32 w = push_bit 24 (ucast (ucast w :: u8)) OR push_bit 16 (ucast (ucast (drop_bit 8 w) :: u8))
     OR push_bit 8 (ucast (ucast (drop_bit 16 w) :: u8)) OR ucast (ucast (drop_bit 24 w) :: u8)" for w
    using byte4_rebuild [of "bswap32 w"] by (simp only: bswap32_bytes)
  moreover have "(ucast (hostLoad32 p o1) :: u8) = p o1" "(ucast (drop_bit 8 (hostLoad32 p o1)) :: u8) = p (o1 + 1)"
    "(ucast (drop_bit 16 (hostLoad32 p o1)) :: u8) = p (o1 + 2)" "(ucast (drop_bit 24 (hostLoad32 p o1)) :: u8) = p (o1 + 3)"
    using byte4_images [of "p (o1 + 3)" "p (o1 + 2)" "p (o1 + 1)" "p o1"]
    by (simp_all add: hostLoad32_def ac_simps)
  ultimately show ?thesis by simp
qed

lemma lineLoadBE_bytes: "lineLoadBE p o1 len = be_bytes (map (\<lambda>i. p (o1 + of_nat i)) [0..<unat len])"
proof -
  have 2: "(let v = hostLoad16 p o1 in ucast (drop_bit 8 v OR push_bit 8 v)) = be_bytes [p o1, p (o1 + 1)]"
    unfolding be_bytes2 hostLoad16_def Let_def
    by (auto intro!: bit_word_eqI simp: bit_simps bit_u8_ge)
  have 4: "ucast (bswap32 (hostLoad32 p q)) = be_bytes [p q, p (q + 1), p (q + 2), p (q + 3)]" for q
    by (simp add: be_bytes4 bswap32_host)
  have 8: "bswap64 (hostLoad64 p o1) = be_bytes [p o1, p (o1 + 1), p (o1 + 2), p (o1 + 3),
      p (o1 + 4), p (o1 + 5), p (o1 + 6), p (o1 + 7)]"
    unfolding hostLoad64_def bswap64_split word64_halves be_bytes8 4 by (simp add: add.assoc)
  show ?thesis
    unfolding lineLoadBE_def by (auto simp: 2 4 8 be_bytes1 upt_rec)
qed

lemma be_byte_ucast: "be_byte 2 (ucast (ucast v :: u16)) i = be_byte 2 v i"
  "be_byte 4 (ucast (ucast v :: u32)) i = be_byte 4 v i"
  unfolding be_byte_def by (auto intro!: bit_word_eqI simp: bit_simps)

lemma storeBE_swap32:
  "hostStore32 o1 (bswap32 (ucast v)) p = storeBE o1 4 v p"
  using be_byte_ucast32 [of "ucast v"]
  by (simp only: hostStore32_def storeBE_unfold bswap32_bytes be_byte_ucast)

lemma lineStoreBE_bytes: "lineStoreBE p o1 len v = storeBE o1 (unat len) v p"
proof -
  consider "len = 1" | "len = 2" | "len = 4" | "len = 8" | "len \<notin> {1, 2, 4, 8}" by auto
  then show ?thesis
  proof cases
    case 1
    then show ?thesis by (simp add: lineStoreBE_def storeBE_unfold [unfolded One_nat_def] be_byte_def)
  next
    case 2
    then show ?thesis
      by (simp add: lineStoreBE_def hostStore16_def storeBE_unfold Let_def del: drop_bit_or push_bit_or)
         (simp only: be_byte_swaps One_nat_def)
  next
    case 3
    then show ?thesis by (simp add: lineStoreBE_def storeBE_swap32)
  next
    case 4
    then show ?thesis
      by (simp add: lineStoreBE_def hostStore64_def bswap64_halves storeBE_swap32)
         (simp only: storeBE_unfold be_byte_8_split be_byte_ucast add.assoc, simp)
  next
    case 5
    then show ?thesis
      using unsigned_less [of len, where ?'a = nat]
      by (simp add: lineStoreBE_def storeBE_as_fold)
  qed
qed

section \<open>Blocks of an access\<close>

lemma unat_off_add:
  assumes "off pa + len \<le> 32" "len \<le> 32" "i < unat len"
  shows "off pa + of_nat i < 32" "unat (off pa + of_nat i) = unat (off pa) + i"
proof -
  have o: "unat (off pa) < 32" using off_less [of pa] by (simp add: word_less_nat_alt)
  have l: "unat len \<le> 32" using assms(2) by (simp add: word_le_nat_alt)
  have "unat (off pa + len) = unat (off pa) + unat len"
    using o l by (simp add: unat_word_ariths)
  then have s: "unat (off pa) + unat len \<le> 32" using assms(1) by (simp add: word_le_nat_alt)
  have i: "unat (of_nat i :: u32) = i" using assms(3) l by (simp add: unat_of_nat)
  then show u: "unat (off pa + of_nat i) = unat (off pa) + i"
    using o s assms(3) by (simp add: unat_word_ariths)
  show "off pa + of_nat i < 32" unfolding word_less_nat_alt u using s assms(3) by simp
qed

lemma block_of_access:
  assumes "off pa + len \<le> 32" "len \<le> 32" "i < unat len"
  shows "blk (pa + of_nat i) = blk pa" "off (pa + of_nat i) = off pa + of_nat i"
proof -
  have e: "blk pa + (off pa + of_nat i) = pa + of_nat i" unfolding add.assoc [symmetric] blk_off ..
  show "blk (pa + of_nat i) = blk pa" "off (pa + of_nat i) = off pa + of_nat i"
    using blk_add [of "blk pa", OF blk_aligned unat_off_add(1) [OF assms]] unfolding e by simp_all
qed

lemma view_access:
  assumes "off pa + len \<le> 32" "len \<le> 32" "l1At c (blk pa) = Some e"
  shows "map (\<lambda>i. dlB e (off pa + of_nat i)) [0..<unat len] = map (view mem c) (addrs pa (unat len))"
proof -
  have "dlB e (off pa + of_nat i) = view mem c (pa + of_nat i)" if "i < unat len" for i
    using block_of_access [OF assms(1,2) that] assms(3) by (simp add: view_def viewAt_def)
  then show ?thesis by (simp add: addrs_def)
qed

lemma rpNote_sel [simp]:
  "l1x (rpNote pa len c) = l1x c" "l1d (rpNote pa len c) = l1d c" "l2 (rpNote pa len c) = l2 c"
  "l2Sets (rpNote pa len c) = l2Sets c" "st (rpNote pa len c) = st c" "busSt (rpNote pa len c) = busSt c"
  "busVt (rpNote pa len c) = busVt c" "l2Inert (rpNote pa len c) = l2Inert c"
  "l2SetsSeen (rpNote pa len c) = l2SetsSeen c" "l2SetMask (rpNote pa len c) = l2SetMask c"
  by (simp_all add: rpNote_def Let_def)

lemma wpNote_sel [simp]:
  "l1x (snd (wpNote pa len v c)) = l1x c" "l1d (snd (wpNote pa len v c)) = l1d c" "l2 (snd (wpNote pa len v c)) = l2 c"
  "l2Sets (snd (wpNote pa len v c)) = l2Sets c" "st (snd (wpNote pa len v c)) = st c" "busSt (snd (wpNote pa len v c)) = busSt c"
  "busVt (snd (wpNote pa len v c)) = busVt c" "l2Inert (snd (wpNote pa len v c)) = l2Inert c"
  "l2SetsSeen (snd (wpNote pa len v c)) = l2SetsSeen c" "l2SetMask (snd (wpNote pa len v c)) = l2SetMask c"
  "wpForceSet (ins (snd (wpNote pa len v c))) = wpForceSet (ins c)"
  by (simp_all add: wpNote_def Let_def)

lemma dceOn_frame: "cacheFrame c c' \<Longrightarrow> dceOn c' = dceOn c"
  by (simp add: cacheFrame_def dceOn_def)

section \<open>Cached loads\<close>

context mem_bus
begin

lemma keeps_dce: "keeps c c' \<Longrightarrow> dceOn c' = dceOn c"
  by (simp add: keeps_def dceOn_frame)

lemma keeps_view: "keeps c c' \<Longrightarrow> blk a \<in> R \<Longrightarrow> view mem c' a = view mem c a"
  by (simp add: keeps_def sameView_def view_def)

lemma keeps_rpNote: "coh c \<Longrightarrow> keeps c (rpNote pa len c)"
  by (rule keeps_quiet) (simp_all add: l2Synced_def)

lemma keeps_wpNote: "coh c \<Longrightarrow> keeps c (snd (wpNote pa len v c))"
  by (rule keeps_quiet) (simp_all add: l2Synced_def)

lemma keeps_fetchDropRange: "coh c \<Longrightarrow> keeps c (fetchDropRange pa len c)"
  by (rule keeps_quiet) (simp_all add: l2Synced_def fetchDropRange_def Let_def)

lemma inMem_view: "keeps c c' \<Longrightarrow> inMem R pa n \<Longrightarrow> map (view mem c') (addrs pa n) = map (view mem c) (addrs pa n)"
  by (simp add: inMem_def keeps_view)

lemma inMem_blk: "inMem R pa n \<Longrightarrow> 0 < n \<Longrightarrow> blk pa \<in> R"
  unfolding inMem_def addrs_def by (force intro: image_eqI [where x = 0])

lemma memReadBlock_cached:
  assumes c: "coh c" and on: "dceOn c" "wimg AND 4 = 0" and pa: "blk pa \<in> R"
    and len: "off pa + len \<le> 32" "len \<le> 32"
    and r: "memReadBlock pa len wimg c = (v, c')"
  shows "v = be_bytes (map (view mem c) (addrs pa (unat len)))" "keeps c c'"
proof -
  let ?c0 = "rpNote pa len c"
  have k0: "keeps c ?c0" by (rule keeps_rpNote [OF c])
  then have coh0: "coh ?c0" by (simp add: keeps_def)
  obtain w where a: "lineAlloc pa ?c0 = (w, c')" and v: "v = lineLoadBE (dlB (l1d c' (setOf pa) w)) (off pa) len"
    using r on keeps_dce [OF k0] by (auto simp: memReadBlock_def off_def split: prod.splits)
  note al = lineAlloc_keeps [OF coh0 pa a]
  show k: "keeps c c'" by (rule keeps_trans [OF k0 al(1)])
  have "l1At c' (blk pa) = Some (l1d c' (setOf pa) w)" using al(2) by (simp add: l1At_def)
  from view_access [OF len this, of mem] have "v = be_bytes (map (view mem c') (addrs pa (unat len)))"
    unfolding v lineLoadBE_bytes by (rule arg_cong)
  moreover have "inMem R pa (unat len)"
    using block_of_access(1) [OF len] pa by (auto simp: inMem_def addrs_def)
  ultimately show "v = be_bytes (map (view mem c) (addrs pa (unat len)))"
    using inMem_view [OF k] by simp
qed

lemma memReadBytes_cached:
  assumes "coh c" "dceOn c" "wimg AND 4 = 0" "\<forall>i \<in> set is. blk (pa + of_nat i) \<in> R"
    "memReadBytes pa wimg is v c = (v', c')"
  shows "v' = foldl (\<lambda>v b. push_bit 8 v OR ucast b) v (map (\<lambda>i. view mem c (pa + of_nat i)) is) \<and> keeps c c'"
  using assms
proof (induction "is" arbitrary: v c)
  case Nil
  then show ?case by (simp add: keeps_refl)
next
  case (Cons i "is")
  obtain x c1 where x: "memReadBlock (pa + of_nat i) 1 wimg c = (x, c1)" by fastforce
  have "off (pa + of_nat i) + 1 \<le> 32"
    using off_less [of "pa + of_nat i"] by (simp add: inc_le)
  note b = memReadBlock_cached [OF Cons.prems(1-3) _ this _ x]
  have R: "blk (pa + of_nat i) \<in> R" using Cons.prems(4) by simp
  have k: "keeps c c1" and v: "x = ucast (view mem c (pa + of_nat i))"
    using b [OF R] by (simp_all add: addrs_def be_bytes1)
  have "memReadBytes pa wimg is (push_bit 8 v OR x) c1 = (v', c')"
    using Cons.prems(5) x by simp
  then have ih: "v' = foldl (\<lambda>v b. push_bit 8 v OR ucast b) (push_bit 8 v OR x)
      (map (\<lambda>i. view mem c1 (pa + of_nat i)) is) \<and> keeps c1 c'"
    using Cons.IH [of c1 "push_bit 8 v OR x"] Cons.prems k keeps_dce [OF k] by (simp add: keeps_def)
  moreover have "map (\<lambda>i. view mem c1 (pa + of_nat i)) is = map (\<lambda>i. view mem c (pa + of_nat i)) is"
    using Cons.prems(4) keeps_view [OF k] by simp
  ultimately show ?case using v keeps_trans [OF k] by simp
qed

lemma memRead_cached:
  assumes c: "coh c" and on: "dceOn c" "wimg AND 4 = 0" and pa: "inMem R pa (unat len)" and len: "0 < len" "len \<le> 32"
    and r: "memRead pa len wimg c = (v, c')"
  shows "v = be_bytes (map (view mem c) (addrs pa (unat len)))" "keeps c c'"
proof -
  have n: "0 < unat len" using len(1) by (simp add: word_less_nat_alt)
  have "v = be_bytes (map (view mem c) (addrs pa (unat len))) \<and> keeps c c'"
  proof (cases "off pa + len \<le> 32")
    case True
    then have "memReadBlock pa len wimg c = (v, c')"
      using r by (simp add: memRead_def off_def leD)
    then show ?thesis using memReadBlock_cached [OF c on inMem_blk [OF pa n] True len(2)] by simp
  next
    case False
    let ?c0 = "rpNote pa len c"
    have k0: "keeps c ?c0" by (rule keeps_rpNote [OF c])
    have b: "memReadBytes pa wimg [0..<unat len] 0 ?c0 = (v, c')"
      using r on False by (simp add: memRead_def off_def not_le)
    have "v = be_bytes (map (\<lambda>i. view mem ?c0 (pa + of_nat i)) [0..<unat len]) \<and> keeps ?c0 c'"
      unfolding be_bytes_def
      by (rule memReadBytes_cached [OF _ _ on(2) _ b])
         (use k0 keeps_dce [OF k0] on pa in \<open>auto simp: keeps_def inMem_def addrs_def\<close>)
    moreover have "map (\<lambda>i. view mem ?c0 (pa + of_nat i)) [0..<unat len] = map (view mem c) (addrs pa (unat len))"
      using inMem_view [OF k0 pa] by (simp add: addrs_def)
    ultimately show ?thesis using keeps_trans [OF k0] by simp
  qed
  then show "v = be_bytes (map (view mem c) (addrs pa (unat len)))" "keeps c c'" by blast+
qed

end

section \<open>Cached stores\<close>

lemma dline_upd: "e\<lparr>dlB := b, dlD := d\<rparr> = \<lparr>dlB = b, dlD = d\<rparr>" for e :: dline
  by simp

lemma storeBE_block:
  assumes "off pa + len \<le> 32" "len \<le> 32"
  shows "storeBE pa (unat len) v m a =
    (if blk a = blk pa then storeBE (off pa) (unat len) v (\<lambda>k. m (blk pa + k)) (off a) else m a)"
proof (cases "blk a = blk pa")
  case True
  have "a - pa = off a - off pa"
    using blk_off [of a] blk_off [of pa] True by (metis add_diff_cancel_left)
  moreover have "m (blk pa + off a) = m a" using True blk_off [of a] by simp
  ultimately show ?thesis using True by (simp add: storeBE_def)
next
  case False
  have "\<not> unat (a - pa) < unat len"
  proof
    assume i: "unat (a - pa) < unat len"
    have "pa + of_nat (unat (a - pa)) = a" by simp
    with block_of_access(1) [OF assms i] False show False by simp
  qed
  with False show ?thesis by (simp add: storeBE_def)
qed

definition putBytes :: "u32 \<Rightarrow> nat \<Rightarrow> u64 \<Rightarrow> nat list \<Rightarrow> (u32 \<Rightarrow> u8) \<Rightarrow> u32 \<Rightarrow> u8" where
  "putBytes pa len v is m = fold (\<lambda>i q. q(pa + of_nat i := be_byte len v i)) is m"

lemma putBytes_Cons: "putBytes pa len v (i # is) m = putBytes pa len v is (m(pa + of_nat i := be_byte len v i))"
  by (simp add: putBytes_def)

lemma putBytes_cong: "m a = m' a \<Longrightarrow> putBytes pa len v is m a = putBytes pa len v is m' a"
proof (induction "is" arbitrary: m m')
  case (Cons i "is")
  show ?case unfolding putBytes_Cons by (rule Cons.IH) (simp add: Cons.prems)
qed (simp add: putBytes_def)

lemma storeBE_byte:
  "i < len \<Longrightarrow> storeBE a 1 (drop_bit (8 * (len - 1 - i)) v AND 0xFF) m = m(a := be_byte len v i)"
proof -
  have m: "(0xFF :: u64) = mask 8" by (simp add: mask_eq_exp_minus_1)
  have "be_byte 1 (drop_bit (8 * (len - 1 - i)) v AND 0xFF) 0 = be_byte len v i"
    unfolding be_byte_def m by (auto intro!: bit_word_eqI simp: bit_simps)
  then show ?thesis unfolding storeBE_unfold by simp
qed

text \<open>The cache machinery leaves the instruments alone.\<close>

lemma ins_simps [simp]:
  "ins (setTv s w t c) = ins c" "ins (touchAge s w c) = ins c" "ins (setLine s w e c) = ins c"
  "ins (setDirty s w d c) = ins c" "ins (fetchDropAt a c) = ins c" "ins (fetchDrop c) = ins c"
  "ins (snd (busDo f c)) = ins c" "ins (l2SetSync c) = ins c"
  by (simp_all add: setTv_def touchAge_def setLine_def setDirty_def fetchDropAt_def fetchDrop_def
      busDo_def l2SetSync_def Let_def split: prod.splits)

lemma ins_bus_line [simp]: "ins (cacheBusWriteLine B b c) = ins c" "ins (snd (busReadLine B c)) = ins c"
  by (simp_all add: cacheBusWriteLine_def busWriteBurst_def busReadLine_def)

lemma ins_l2FlushLines [simp]: "ins (l2FlushLines wb is c) = ins c"
  by (induction wb "is" c rule: l2FlushLines.induct) (simp_all add: Let_def)

lemma ins_l2Find [simp]: "ins (snd (l2Find B c)) = ins c" "ins (snd (l2ReadLine B c)) = ins c"
proof -
  show f: "ins (snd (l2Find B c)) = ins c"
    by (simp add: l2Find_def l2SetOf_def Let_def split: option.splits)
  then show "ins (snd (l2ReadLine B c)) = ins c"
    by (cases "l2Find B c") (auto simp: l2ReadLine_def split: option.splits)
qed

lemma ins_l2Resize [simp]: "ins (l2Resize c) = ins c"
  by (simp add: l2Resize_def l2FlushAll_def Let_def)

lemma ins_l2InstallAt [simp]: "ins (l2InstallAt s t b d c) = ins c"
  by (simp add: l2InstallAt_def Let_def)

lemma ins_l2Install [simp]: "ins (l2Install B b d c) = ins c"
  by (simp add: l2Install_def l2SetOf_def Let_def)

lemma ins_lineFill [simp]: "ins (lineFill s w pa c) = ins c"
  by (simp add: lineFill_def Let_def case_prod_beta split: option.splits)

lemma ins_lineVictim [simp]: "ins (snd (lineVictim pa c)) = ins c"
  by (simp add: lineVictim_def lineCastout_def Let_def split: sum.splits)

lemma ins_lineAlloc [simp]: "ins (snd (lineAlloc pa c)) = ins c"
  by (simp add: lineAlloc_def lineWay_def case_prod_beta split: option.splits)

lemma noForce_memWriteEntry:
  assumes "\<not> wpForceSet (ins c)" "memWriteEntry pa len v c = (v', c1)"
  shows "v' = v" "c1 = snd (wpNote pa len v (fetchDropRange pa len c))" "wpForceSet (ins c1) = wpForceSet (ins c)"
proof -
  have i: "ins (fetchDropRange pa len c) = ins c" by (simp add: fetchDropRange_def fetchDropAt_def Let_def)
  have "\<not> wpForceSet (ins (snd (wpNote pa len v (fetchDropRange pa len c))))" using assms(1) i by simp
  then show "v' = v" "c1 = snd (wpNote pa len v (fetchDropRange pa len c))"
    using assms(2) by (auto simp: memWriteEntry_def Let_def case_prod_beta)
  then show "wpForceSet (ins c1) = wpForceSet (ins c)" using i by simp
qed

context mem_bus
begin

text \<open>A store of \<open>n\<close> bytes happened in the view and nowhere else.\<close>

definition stored :: "(u32 \<Rightarrow> u8) \<Rightarrow> 'b cpu \<Rightarrow> 'b cpu \<Rightarrow> bool" where
  "stored m c c' \<longleftrightarrow> coh c' \<and> cacheFrame c c' \<and> (\<forall>a. blk a \<in> R \<longrightarrow> view mem c' a = m a)"

text \<open>Rewriting a resident line, left dirty.\<close>

lemma write_line_view:
  fixes b :: "u32 \<Rightarrow> u8"
  assumes c: "coh c" and pa: "blk pa \<in> R" and w: "lineWayQuiet c pa = Some w"
  defines "c' \<equiv> setLine (setOf pa) w \<lparr>dlB = b, dlD = True\<rparr> c"
  shows "stored (\<lambda>a. if blk a = blk pa then b (off a) else view mem c a) c c'"
proof -
  note md = l1At_modify [OF coherent_parts(4) [OF c] w, where e = "\<lparr>dlB = b, dlD = True\<rparr>", folded c'_def]
  have l2: "l2At c' = l2At c" "belowAt mem c' = belowAt mem c"
    using l2At_cong [of c' c] belowAt_cong [of c' c] by (simp_all add: c'_def)
  have at: "l1At c' A = (if A = blk pa then Some \<lparr>dlB = b, dlD = True\<rparr> else l1At c A)" if "A \<in> R" for A
    using md(2) [of A] that by (simp add: blk_R)
  have wf: "wfc c'"
    using coherent_parts(1) [OF c] md(1) l2Synced_cong [of c' c] by (simp add: wfCache_def c'_def)
  have "coh c'"
  proof (rule coherentI [OF wf])
    show "cleanL2 mem R c'" using coherent_parts(2) [OF c] l2 by (simp add: cleanL2_def c'_def)
    fix A e k assume A: "A \<in> R" "l1At c' A = Some e" "\<not> dlD e" "(k :: u32) < 32"
    then show "dlB e k = belowAt mem c' A k"
      using at [OF A(1)] l2 coherent_clean [OF c A(1) _ A(3,4)] by (auto split: if_splits)
  qed
  moreover have "view mem c' a = (if blk a = blk pa then b (off a) else view mem c a)" if "blk a \<in> R" for a
    using at [OF that] l2 by (auto simp: view_def viewAt_def split: option.splits)
  ultimately show ?thesis by (simp add: stored_def cacheFrame_def c'_def)
qed

lemma memWriteBlock_cached:
  assumes c: "coh c" and on: "dceOn c" "wimg AND 4 = 0" "wimg AND 8 = 0" and pa: "blk pa \<in> R"
    and len: "off pa + len \<le> 32" "len \<le> 32"
  shows "stored (storeBE pa (unat len) v (view mem c)) c (memWriteBlock pa len v wimg c)"
proof -
  obtain w c1 where a: "lineAlloc pa c = (w, c1)" by fastforce
  note al = lineAlloc_keeps [OF c pa a]
  have c1: "coh c1" using al(1) by (simp add: keeps_def)
  let ?e = "l1d c1 (setOf pa) w"
  let ?c' = "memWriteBlock pa len v wimg c"
  have c': "?c' = setLine (setOf pa) w \<lparr>dlB = lineStoreBE (dlB ?e) (off pa) len v, dlD = True\<rparr> c1"
    using on a by (simp add: memWriteBlock_def storeLine_def setDirty_setLine setLine_def off_def Let_def comp_def dline_upd)
  have s: "stored (\<lambda>a. if blk a = blk pa then lineStoreBE (dlB ?e) (off pa) len v (off a) else view mem c1 a) c1 ?c'"
    unfolding c' by (rule write_line_view [OF c1 pa al(2)])
  have e: "dlB ?e k = view mem c (blk pa + k)" if "k < 32" for k
  proof -
    have "dlB ?e k = view mem c1 (blk pa + k)"
      using al(2) blk_add [OF blk_aligned that, of pa] by (simp add: view_def viewAt_def l1At_def)
    then show ?thesis using keeps_view [OF al(1)] blk_add(1) [OF blk_aligned that, of pa] pa by simp
  qed
  have "(if blk a = blk pa then lineStoreBE (dlB ?e) (off pa) len v (off a) else view mem c1 a)
      = storeBE pa (unat len) v (view mem c) a" if "blk a \<in> R" for a
    unfolding storeBE_block [OF len] lineStoreBE_bytes
    using e [OF off_less, of a] keeps_view [OF al(1) that] by (simp add: storeBE_def)
  with s show ?thesis
    using al(1) cacheFrame_trans by (simp add: stored_def keeps_def) blast
qed

lemma memWriteEntry_keeps:
  assumes "coh c" "\<not> wpForceSet (ins c)" "memWriteEntry pa len v c = (v', c1)"
  shows "keeps c c1" "v' = v"
proof -
  note n = noForce_memWriteEntry [OF assms(2,3)]
  show "v' = v" by (rule n(1))
  have "keeps c (fetchDropRange pa len c)" by (rule keeps_fetchDropRange [OF assms(1)])
  moreover then have "coh (fetchDropRange pa len c)" by (simp add: keeps_def)
  ultimately show "keeps c c1" unfolding n(2) using keeps_trans keeps_wpNote by blast
qed


lemma stored_after:
  assumes "keeps c c1" "stored m c1 c'" "\<And>a. blk a \<in> R \<Longrightarrow> m a = m' a"
  shows "stored m' c c'"
  using assms cacheFrame_trans by (fastforce simp: stored_def keeps_def)

lemma memWriteByte_cached:
  assumes c: "coh c" and on: "dceOn c" "wimg AND 4 = 0" "wimg AND 8 = 0" "\<not> wpForceSet (ins c)"
    and a: "blk a \<in> R" and i: "i < len" and x: "x = drop_bit (8 * (len - 1 - i)) v AND 0xFF"
    and e: "memWriteEntry a 1 x c = (x', c1)"
  shows "stored ((view mem c)(a := be_byte len v i)) c (memWriteBlock a 1 x' wimg c1)" "wpForceSet (ins c1) = wpForceSet (ins c)"
proof -
  note k = memWriteEntry_keeps [OF c on(4) e]
  show "wpForceSet (ins c1) = wpForceSet (ins c)" using noForce_memWriteEntry [OF on(4) e] by simp
  have "off a + 1 \<le> 32" using off_less [of a] by (simp add: inc_le)
  then have "stored (storeBE a 1 x (view mem c1)) c1 (memWriteBlock a 1 x' wimg c1)"
    using memWriteBlock_cached [of c1 wimg a 1 x] k on a keeps_dce [OF k(1)] by (simp add: keeps_def)
  then show "stored ((view mem c)(a := be_byte len v i)) c (memWriteBlock a 1 x' wimg c1)"
    by (rule stored_after [OF k(1)])
       (use keeps_view [OF k(1)] in \<open>simp only: x storeBE_byte [OF i], simp\<close>)
qed

lemma ins_memWriteBlock_cached:
  assumes "dceOn c" "wimg AND 4 = 0" "wimg AND 8 = 0"
  shows "ins (memWriteBlock pa len v wimg c) = ins c"
  using assms by (simp add: memWriteBlock_def storeLine_def Let_def case_prod_beta)

lemma memWriteBytes_cached:
  assumes "coh c" "dceOn c" "wimg AND 4 = 0" "wimg AND 8 = 0" "\<not> wpForceSet (ins c)"
    "\<forall>i \<in> set is. blk (pa + of_nat i) \<in> R \<and> i < len"
  shows "stored (putBytes pa len v is (view mem c)) c (memWriteBytes pa len v wimg is c)"
  using assms
proof (induction "is" arbitrary: c)
  case Nil
  then show ?case by (simp add: stored_def putBytes_def)
next
  case (Cons i "is")
  define x where "x = drop_bit (8 * (len - 1 - i)) v AND 0xFF"
  obtain x' c1 where e: "memWriteEntry (pa + of_nat i) 1 x c = (x', c1)" by fastforce
  let ?c2 = "memWriteBlock (pa + of_nat i) 1 x' wimg c1"
  have R: "blk (pa + of_nat i) \<in> R" "i < len" using Cons.prems(6) by simp_all
  note b = memWriteByte_cached [OF Cons.prems(1-5) R x_def e]
  note k = memWriteEntry_keeps [OF Cons.prems(1,5) e]
  have c2: "coh ?c2" "dceOn ?c2" "\<not> wpForceSet (ins ?c2)"
    using b Cons.prems dceOn_frame ins_memWriteBlock_cached [of c1 wimg "pa + of_nat i" 1 x'] keeps_dce [OF k(1)]
    by (auto simp: stored_def)
  have ih: "stored (putBytes pa len v is (view mem ?c2)) ?c2
      (memWriteBytes pa len v wimg is ?c2)"
    using Cons.IH [of ?c2] c2 Cons.prems by simp
  have m: "putBytes pa len v is (view mem ?c2) a
      = putBytes pa len v (i # is) (view mem c) a" if "blk a \<in> R" for a
    unfolding putBytes_Cons by (rule putBytes_cong) (use b(1) that in \<open>simp add: stored_def\<close>)
  have "memWriteBytes pa len v wimg (i # is) c = memWriteBytes pa len v wimg is ?c2"
    using e by (simp add: x_def)
  then show ?case
    using ih m b(1) cacheFrame_trans [of c ?c2] by (simp add: stored_def)
qed

lemma memWrite_cached:
  assumes c: "coh c" and on: "dceOn c" "wimg AND 4 = 0" "wimg AND 8 = 0" "\<not> wpForceSet (ins c)"
    and pa: "inMem R pa (unat len)" and len: "0 < len" "len \<le> 32"
  shows "stored (storeBE pa (unat len) v (view mem c)) c (memWrite pa len v wimg c)"
proof -
  obtain v' c1 where e: "memWriteEntry pa len v c = (v', c1)" by fastforce
  note k = memWriteEntry_keeps [OF c on(4) e]
  have c1: "coh c1" "dceOn c1" "\<not> wpForceSet (ins c1)"
    using k(1) keeps_dce [OF k(1)] on noForce_memWriteEntry [OF on(4) e] by (auto simp: keeps_def)
  have n: "0 < unat len" using len(1) by (simp add: word_less_nat_alt)
  have "stored (storeBE pa (unat len) v (view mem c1)) c1 (memWrite pa len v wimg c)"
  proof (cases "off pa + len \<le> 32")
    case True
    then have "memWrite pa len v wimg c = memWriteBlock pa len v wimg c1"
      using e k by (simp add: memWrite_def off_def leD)
    then show ?thesis
      using memWriteBlock_cached [OF c1(1,2) on(2,3) inMem_blk [OF pa n] True len(2)] by simp
  next
    case False
    then have w: "memWrite pa len v wimg c = memWriteBytes pa (unat len) v wimg [0..<unat len] c1"
      using e k c1 on by (simp add: memWrite_def off_def not_le)
    have "unat len \<le> 2 ^ 32" using unsigned_less [of len, where ?'a = nat] by simp
    then have st: "storeBE pa (unat len) v (view mem c1) = putBytes pa (unat len) v [0..<unat len] (view mem c1)"
      by (simp only: storeBE_as_fold putBytes_def)
    show ?thesis
      unfolding w st by (rule memWriteBytes_cached [OF c1(1,2) on(2,3) c1(3)]) (use pa in \<open>simp add: inMem_def addrs_def\<close>)
  qed
  then show ?thesis
    by (rule stored_after [OF k(1)]) (simp add: storeBE_def keeps_view [OF k(1)])
qed

end

end
