(* ===== verification/CacheControl.thy ===== *)
theory CacheControl
  imports CacheAccess
begin

text \<open>
  Cache-control operations and snoops: dcbz, the pushes of dcbst and dcbf, dcbi, and the
  snoop response to another bus master, block by block and over a range.
\<close>

section \<open>Cache control\<close>

lemma touchAge_setLine: "setLine s w e (touchAge t v c) = touchAge t v (setLine s w e c)"
  by (simp add: setLine_def touchAge_def Let_def)

lemma setTv_setDirty: "setDirty s w d (setTv t v x c) = setTv t v x (setDirty s w d c)"
  by (simp add: setDirty_def setTv_def)

lemma setDirty_commutes:
  "fetchDropAt a (setDirty s w d c) = setDirty s w d (fetchDropAt a c)"
  "l2SetSync (setDirty s w d c) = setDirty s w d (l2SetSync c)"
  by (simp_all add: fetchDropAt_def l2SetSync_def setDirty_def)

lemma setDirty_sel [simp]:
  "l1x (setDirty s w d c) = l1x c" "l2 (setDirty s w d c) = l2 c" "l2Sets (setDirty s w d c) = l2Sets c"
  "l2SetMask (setDirty s w d c) = l2SetMask c" "st (setDirty s w d c) = st c" "busSt (setDirty s w d c) = busSt c"
  "(setDirty s w d c)\<lparr>l2 := ls\<rparr> = setDirty s w d (c\<lparr>l2 := ls\<rparr>)"
  by (simp_all add: setDirty_def)

lemma l2Invalidate_setDirty: "l2Invalidate a (setDirty s w d c) = setDirty s w d (l2Invalidate a c)"
  by (simp add: l2Invalidate_def l2SetOf_def Let_def setDirty_commutes del: fold.simps)

lemma lineWay_eq: "lineWay pa c = (lineWayQuiet c pa, case lineWayQuiet c pa of None \<Rightarrow> c | Some w \<Rightarrow> touchAge (setOf pa) w c)"
  by (simp add: lineWay_def split: option.splits)

lemma lineWayQuiet_quiet [simp]:
  "lineWayQuiet (touchAge s w c) = lineWayQuiet c" "lineWayQuiet (setLine s w e c) = lineWayQuiet c"
  "lineWayQuiet (fetchDropAt a c) = lineWayQuiet c" "lineWayQuiet (snd (wpNote pa len v c)) = lineWayQuiet c"
  by (simp_all add: lineWayQuiet_def fun_eq_iff)

context mem_bus
begin

lemma keeps_lineWay:
  assumes "coh c" "lineWay pa c = (wo, c1)"
  shows "keeps c c1" "wo = lineWayQuiet c pa" "lineWayQuiet c1 = lineWayQuiet c" "l1d c1 = l1d c"
    "l1At c1 = l1At c" "l2At c1 = l2At c" "busSt c1 = busSt c"
proof -
  have c1: "c1 = (case lineWayQuiet c pa of None \<Rightarrow> c | Some w \<Rightarrow> touchAge (setOf pa) w c)" "wo = lineWayQuiet c pa"
    using assms(2) by (auto simp: lineWay_eq)
  then show "keeps c c1" "wo = lineWayQuiet c pa" "lineWayQuiet c1 = lineWayQuiet c" "l1d c1 = l1d c" "busSt c1 = busSt c"
    using assms(1) by (simp_all add: keeps_refl keeps_touch split: option.splits)
  then show "l1At c1 = l1At c" by (intro ext) (simp add: l1At_def)
  show "l2At c1 = l2At c" using l2At_cong [of c1 c] c1 by (simp split: option.splits)
qed

text \<open>A block established dirty in an invalid way, without a fill.\<close>

lemma fresh_line_view:
  fixes b :: "u32 \<Rightarrow> u8"
  assumes c: "coh c" and pa: "blk pa \<in> R" and w: "w < 8" "dxTv (l1x c (setOf pa)) w AND 1 = 0"
    and miss: "lineWayQuiet c pa = None"
  defines "c' \<equiv> setLine (setOf pa) w \<lparr>dlB = b, dlD = True\<rparr> (setTv (setOf pa) w (tvOf pa) c)"
  shows "stored (\<lambda>a. if blk a = blk pa then b (off a) else view mem c a) c c'"
proof -
  note f = l1At_fill [OF coherent_parts(4) [OF c] w miss pa, where e = "\<lparr>dlB = b, dlD = True\<rparr>", folded c'_def]
  have l2: "l2At c' = l2At c" "belowAt mem c' = belowAt mem c"
    using l2At_cong [of c' c] belowAt_cong [of c' c] by (simp_all add: c'_def)
  have at: "l1At c' A = (if A = blk pa then Some \<lparr>dlB = b, dlD = True\<rparr> else l1At c A)" if "A \<in> R" for A
    using f(2) [of A] that by (simp add: blk_R)
  have wf: "wfc c'"
    using coherent_parts(1) [OF c] f(1) l2Synced_cong [of c' c] by (simp add: wfCache_def c'_def)
  have "coh c'"
  proof (rule coherentI [OF wf])
    show "cleanL2 mem R c'" using coherent_parts(2) [OF c] l2 by (simp add: cleanL2_def c'_def)
    fix A e k assume A: "A \<in> R" "l1At c' A = Some e" "\<not> dlD e" "(k :: u32) < 32"
    then show "dlB e k = belowAt mem c' A k"
      using at [OF A(1)] l2 coherent_clean [OF c A(1) _ A(3,4)] by (auto split: if_splits)
  qed
  moreover have "view mem c' a = (if blk a = blk pa then b (off a) else view mem c a)" if "blk a \<in> R" for a
    using at [OF that] l2 by (auto simp: view_def viewAt_def split: option.splits)
  ultimately show ?thesis by (simp add: stored_def cacheFrame_def c'_def)
qed

lemma stored_touch: "stored m c c' \<Longrightarrow> stored m c (touchAge s w c')"
proof -
  assume s: "stored m c c'"
  then have "keeps c' (touchAge s w c')" by (intro keeps_touch) (simp add: stored_def)
  then show ?thesis using s keeps_view cacheFrame_trans by (fastforce simp: stored_def keeps_def)
qed

lemma dcbzLine_zeroes:
  assumes c: "coh c" and pa: "blk pa \<in> R"
  shows "stored (\<lambda>a. if blk a = blk pa then 0 else view mem c a) c (dcbzLine pa c)"
proof -
  define c1 where "c1 = snd (wpNote pa 32 0 (fetchDropAt pa c))"
  have k1: "keeps c c1"
    unfolding c1_def using keeps_fetchDropAt [OF c] keeps_wpNote keeps_trans by (metis keeps_def)
  then have coh1: "coh c1" by (simp add: keeps_def)
  obtain wo c2 where lw: "lineWay pa c1 = (wo, c2)" by fastforce
  note l = keeps_lineWay [OF coh1 lw]
  have k2: "keeps c c2" and coh2: "coh c2" using keeps_trans [OF k1 l(1)] l(1) by (simp_all add: keeps_def)
  let ?z = "\<lambda>d k. if k < 32 then 0 else dlB d (k :: u32)"
  show ?thesis
  proof (cases wo)
    case (Some w)
    then have d: "dcbzLine pa c = setLine (setOf pa) w \<lparr>dlB = ?z (l1d c2 (setOf pa) w), dlD = True\<rparr> c2"
      using lw by (simp add: dcbzLine_def Let_def c1_def [symmetric])
    have "stored (\<lambda>a. if blk a = blk pa then ?z (l1d c2 (setOf pa) w) (off a) else view mem c2 a) c2 (dcbzLine pa c)"
      unfolding d by (rule write_line_view [OF coh2 pa]) (use Some l in simp)
    then show ?thesis by (rule stored_after [OF k2]) (simp add: keeps_view [OF k2])
  next
    case None
    obtain w c3 where v: "lineVictim pa c2 = (w, c3)" by fastforce
    note vk = victim_keeps [OF coh2 v]
    have k3: "keeps c c3" and coh3: "coh c3" using keeps_trans [OF k2 vk(1)] vk(1) by (simp_all add: keeps_def)
    have miss: "lineWayQuiet c3 pa = None" using vk(4) None l by simp
    have d: "dcbzLine pa c = touchAge (setOf pa) w
        (setLine (setOf pa) w \<lparr>dlB = ?z (l1d c3 (setOf pa) w), dlD = True\<rparr> (setTv (setOf pa) w (tvOf pa) c3))"
      using lw None v by (simp add: dcbzLine_def Let_def c1_def [symmetric] touchAge_setLine cong: if_cong)
    have "stored (\<lambda>a. if blk a = blk pa then ?z (l1d c3 (setOf pa) w) (off a) else view mem c3 a) c3 (dcbzLine pa c)"
      unfolding d by (rule stored_touch, rule fresh_line_view [OF coh3 pa vk(2,3) miss])
    then show ?thesis by (rule stored_after [OF k3]) (simp add: keeps_view [OF k3])
  qed
qed

text \<open>A push of a dirty line, by the castout path or through to memory.\<close>

lemma linePush_keeps:
  assumes c: "coh c" and B: "B \<in> R" and w: "lineWayQuiet c B = Some w"
  defines "c' \<equiv> linePush (setOf B) w (tagOf B) c"
  shows "keeps c c'" "lineWayQuiet c' = lineWayQuiet c" "\<not> dlD (l1d c' (setOf B) w)"
    "\<not> l2On c \<Longrightarrow> k < 32 \<Longrightarrow> mem (busSt c') (B + k) = viewAt mem c B k"
proof -
  let ?b = "dlB (l1d c (setOf B) w)"
  let ?c1 = "if l2On c \<and> l2cr (st c) AND 0x00040000 \<noteq> 0 then l2Install B ?b True c
    else l2Invalidate B (cacheBusWriteLine B ?b c)"
  have p: "pushed c B ?b ?c1" using pushed_install pushed_through c B by auto
  have c': "c' = setDirty (setOf B) w False ?c1"
    by (simp add: c'_def linePush_def Let_def blk_R [OF B])
  note r = pushed_clean [OF c B w p, folded c']
  show "keeps c c'" "lineWayQuiet c' = lineWayQuiet c" using r(1-4) by (simp_all add: keeps_def)
  show "\<not> dlD (l1d c' (setOf B) w)" by (simp add: c' setDirty_setLine)
  show "mem (busSt c') (B + k) = viewAt mem c B k" if "\<not> l2On c" "k < 32"
  proof -
    have "l2At c' B = None" using that(1) r(3) by (simp add: l2At_def l2Act_def l2On_def cacheFrame_def)
    then show ?thesis using r(7) [OF that(2)] w by (simp add: belowAt_def viewAt_def l1At_def)
  qed
qed

lemma clean_line_view:
  "coh c \<Longrightarrow> B \<in> R \<Longrightarrow> l1At c B = None \<or> (\<exists>e. l1At c B = Some e \<and> \<not> dlD e) \<Longrightarrow> k < 32
    \<Longrightarrow> viewAt mem c B k = belowAt mem c B k"
  using coherent_clean by (auto simp: viewAt_def)

lemma below_no_l2: "\<not> l2On c \<Longrightarrow> belowAt mem c B k = mem (busSt c) (B + k)"
  by (simp add: belowAt_def l2At_def l2Act_def)

lemma dcbClean_effect:
  fixes inval :: bool
  assumes c: "coh c" and pa: "blk pa \<in> R"
  defines "c' \<equiv> dcbClean pa inval c"
  shows "keeps c c'" "inval \<Longrightarrow> l1At c' (blk pa) = None"
    "\<not> l2On c \<Longrightarrow> k < 32 \<Longrightarrow> mem (busSt c') (blk pa + k) = viewAt mem c (blk pa) k"
proof -
  let ?B = "blk pa" and ?s = "setOf pa"
  have k0: "keeps c (fetchDropAt pa c)" by (rule keeps_fetchDropAt [OF c])
  then have coh0: "coh (fetchDropAt pa c)" by (simp add: keeps_def)
  obtain wo c1 where lw: "lineWay pa (fetchDropAt pa c) = (wo, c1)" by fastforce
  note l = keeps_lineWay [OF coh0 lw]
  have k1: "keeps c c1" and coh1: "coh c1" using keeps_trans [OF k0 l(1)] l(1) by (simp_all add: keeps_def)
  have l2c: "l2On c1 = l2On c" using k1 by (simp add: keeps_def cacheFrame_def l2On_def)
  have v1: "viewAt mem c1 ?B k = viewAt mem c ?B k" if "k < 32" for k
    using k1 pa that by (simp add: keeps_def sameView_def)
  have "keeps c c' \<and> (inval \<longrightarrow> l1At c' ?B = None) \<and>
    (\<forall>k < 32. \<not> l2On c \<longrightarrow> mem (busSt c') (?B + k) = viewAt mem c ?B k)"
  proof (cases wo)
    case None
    then have "c' = c1" "l1At c1 ?B = None"
      using lw l by (simp_all add: c'_def dcbClean_def l1At_def)
    then show ?thesis
      using k1 clean_line_view [OF coh1 pa] below_no_l2 [of c1] l2c v1 by auto
  next
    case (Some w)
    have w: "lineWayQuiet c1 ?B = Some w" using l Some by simp
    define c2 where "c2 = (if dlD (l1d c1 ?s w) then linePush ?s w (tagOf pa) c1 else c1)"
    have t: "drop_bit 1 (dxTv (l1x c1 ?s) w) = tagOf pa"
      using lineWayQuiet_SomeD [OF w] by (simp del: One_nat_def)
    have c': "c' = (if inval then setTv ?s w 0 c2 else c2)"
      using lw Some t by (simp add: c'_def dcbClean_def Let_def c2_def)
    have tb: "tagOf (blk pa) = tagOf pa" by (metis tagOf_of_tv tvOf_blk)
    note p = linePush_keeps [OF coh1 pa w, unfolded setOf_blk tb]
    have c2: "keeps c1 c2" "lineWayQuiet c2 ?B = Some w" "\<not> dlD (l1d c2 ?s w)"
      using p w by (auto simp: c2_def keeps_refl coh1)
    have coh2: "coh c2" using c2(1) by (simp add: keeps_def)
    have m2: "mem (busSt c2) (?B + k) = viewAt mem c ?B k" if "\<not> l2On c" "k < 32" for k
    proof (cases "dlD (l1d c1 ?s w)")
      case True
      then show ?thesis using p(4) that l2c v1 by (simp add: c2_def)
    next
      case False
      then have "viewAt mem c1 ?B k = belowAt mem c1 ?B k"
        using clean_line_view [OF coh1 pa _ that(2)] w by (simp add: l1At_def)
      then show ?thesis using False that l2c v1 below_no_l2 [of c1] by (simp add: c2_def)
    qed
    note d = drop_line [OF coh2 pa c2(2)]
    have s: "sameView mem R c2 (setTv ?s w 0 c2)" using drop_clean [OF coh2 pa c2(2)] c2(3) by simp
    have "keeps c2 c'" using c' d(1,2) s keeps_refl [OF coh2] by (simp add: keeps_def)
    then show ?thesis
      using c' d(3) [OF pa] m2 keeps_trans [OF k1 keeps_trans [OF c2(1)]] by simp
  qed
  then show "keeps c c'" "inval \<Longrightarrow> l1At c' (blk pa) = None"
    "\<not> l2On c \<Longrightarrow> k < 32 \<Longrightarrow> mem (busSt c') (blk pa + k) = viewAt mem c (blk pa) k" by blast+
qed

lemma dcbKill_effect:
  assumes c: "coh c" and pa: "blk pa \<in> R"
  shows "stored (\<lambda>a. if blk a = blk pa then mem (busSt c) a else view mem c a) c (dcbKill pa c)"
proof -
  let ?B = "blk pa"
  have k0: "keeps c (fetchDropAt pa c)" by (rule keeps_fetchDropAt [OF c])
  then have coh0: "coh (fetchDropAt pa c)" by (simp add: keeps_def)
  obtain wo c1 where lw: "lineWay pa (fetchDropAt pa c) = (wo, c1)" by fastforce
  note l = keeps_lineWay [OF coh0 lw]
  have k1: "keeps c c1" and coh1: "coh c1" using keeps_trans [OF k0 l(1)] l(1) by (simp_all add: keeps_def)
  define c2 where "c2 = (case wo of Some w \<Rightarrow> setTv (setOf pa) w 0 c1 | None \<Rightarrow> c1)"
  have c2: "coh c2" "cacheFrame c1 c2" "l2At c2 = l2At c1" "busSt c2 = busSt c"
    "\<And>A. A \<in> R \<Longrightarrow> l1At c2 A = (if A = ?B then None else l1At c1 A)"
  proof -
    have "coh c2 \<and> cacheFrame c1 c2 \<and> l2At c2 = l2At c1 \<and> busSt c2 = busSt c1 \<and>
      (\<forall>A \<in> R. l1At c2 A = (if A = ?B then None else l1At c1 A))"
    proof (cases wo)
      case None
      then have "l1At c1 ?B = None" using l by (simp add: l1At_def)
      with None show ?thesis by (simp add: c2_def coh1)
    next
      case (Some w)
      then have "lineWayQuiet c1 ?B = Some w" using l by simp
      from drop_line [OF coh1 pa this] Some show ?thesis by (simp add: c2_def)
    qed
    then show "coh c2" "cacheFrame c1 c2" "l2At c2 = l2At c1" "busSt c2 = busSt c"
      "\<And>A. A \<in> R \<Longrightarrow> l1At c2 A = (if A = ?B then None else l1At c1 A)" using l(7) by simp_all
  qed
  have k: "dcbKill pa c = l2Invalidate ?B c2"
    using lw by (simp add: dcbKill_def Let_def blk_def c2_def)
  note v = l2Invalidate_effect [OF coherent_parts(1) [OF c2(1)], where B = ?B, folded k]
  have l2: "l2At (dcbKill pa c) A = (if A = ?B then None else l2At c1 A)" if "A \<in> R" for A
    using v(9) [of A] c2(3) that by (simp add: blk_R)
  have l1: "l1At (dcbKill pa c) A = (if A = ?B then None else l1At c1 A)" if "A \<in> R" for A
    using v(3) c2(5) [OF that] by simp
  have b: "busSt (dcbKill pa c) = busSt c" using v(7) c2(4) by simp
  have b1: "busSt c1 = busSt c" using l(7) by simp
  have below: "belowAt mem (dcbKill pa c) A k = (if A = ?B then mem (busSt c) (A + k) else belowAt mem c1 A k)"
    if "A \<in> R" for A k using l2 [OF that] b b1 by (auto simp: belowAt_def split: option.splits)
  have "coh (dcbKill pa c)"
  proof (rule coherentI [OF v(1)])
    show "cleanL2 mem R (dcbKill pa c)"
      using coherent_parts(2) [OF coh1] l2 b b1 by (auto simp: cleanL2_def split: if_splits)
    fix A e k assume A: "A \<in> R" "l1At (dcbKill pa c) A = Some e" "\<not> dlD e" "(k :: u32) < 32"
    then show "dlB e k = belowAt mem (dcbKill pa c) A k"
      using l1 [OF A(1)] below [OF A(1)] coherent_clean [OF coh1 A(1) _ A(3,4)] by (auto split: if_splits)
  qed
  moreover have "view mem (dcbKill pa c) a = (if blk a = ?B then mem (busSt c) a else view mem c a)" if a: "blk a \<in> R" for a
  proof -
    have "view mem (dcbKill pa c) a = (if blk a = ?B then mem (busSt c) (blk a + off a) else view mem c1 a)"
      using l1 [OF a] below [OF a, of "off a"] by (auto simp: view_def viewAt_def split: option.splits)
    then show ?thesis using keeps_view [OF k1 a] unfolding blk_off by simp
  qed
  ultimately show ?thesis
    using v(2) c2(2) k1 cacheFrame_trans by (simp add: stored_def keeps_def) blast
qed

end

section \<open>Snoops by another bus master\<close>

text \<open>One line of the L2 rewritten under its own tag.\<close>

lemma l2_line_update:
  assumes wf: "wfCache vt good R c" and i: "i < length (l2 c)" "l2V (l2 c ! i)" "l2Tag (l2 c ! i) = drop_bit 5 B"
    and act: "l2Act c" and e: "l2V e \<longrightarrow> l2Tag e = drop_bit 5 B"
  defines "c' \<equiv> c\<lparr>l2 := (l2 c)[i := e]\<rparr>"
  shows "wfCache vt good R c'"
    "l2At c' A = (if blk A = blk B then (if l2V e then Some (l2B e, l2D e) else None) else l2At c A)"
proof -
  have wf2: "wfL2 R (l2Sets c) (l2 c)" using wf by (simp add: wfCache_def)
  have wf': "wfL2 R (l2Sets c') (l2 c')"
    using wfL2_drop [OF wf2, of e i] i e by (auto simp: c'_def)
  then show "wfCache vt good R c'"
    using wf l1At_cong(2) [of c' c] l2Synced_cong [of c' c] by (simp add: wfCache_def c'_def)
  have act': "l2Act c'" using act by (simp add: l2Act_def l2On_def c'_def)
  have nth: "l2 c' ! j = (if j = i then e else l2 c ! j)" if "j < length (l2 c)" for j
    using that by (simp add: c'_def nth_update_in)
  have len: "length (l2 c') = length (l2 c)" by (simp add: c'_def)
  have only: "j = i" if "j < length (l2 c)" "l2V (l2 c ! j)" "l2Tag (l2 c ! j) = drop_bit 5 B" for j
    by (rule wfL2_unique [OF wf2]) (use i that in simp_all)
  show "l2At c' A = (if blk A = blk B then (if l2V e then Some (l2B e, l2D e) else None) else l2At c A)"
  proof (cases "blk A = blk B")
    case True
    then have t: "drop_bit 5 A = drop_bit 5 B" by (simp add: drop5_eq_iff)
    show ?thesis
    proof (cases "l2V e")
      case V: True
      then have "l2At c' A = Some (l2B e, l2D e)"
        unfolding l2At_Some_iff [OF wf'] len using act' e i t nth by (intro conjI exI [of _ i]) simp_all
      with True V show ?thesis by simp
    next
      case V: False
      have "l2At c' A = None"
        unfolding l2At_None_iff [OF wf'] len t using only nth V by (metis)
      with True V show ?thesis by simp
    qed
  next
    case False
    then have t: "drop_bit 5 A \<noteq> drop_bit 5 B" by (simp add: drop5_eq_iff)
    have same: "(l2V (l2 c' ! j) \<and> l2Tag (l2 c' ! j) = drop_bit 5 A) = (l2V (l2 c ! j) \<and> l2Tag (l2 c ! j) = drop_bit 5 A)"
      if "j < length (l2 c)" for j
      using nth [OF that] e i t by auto
    have "l2At c' A = l2At c A"
    proof (cases "l2At c A")
      case None
      then have "l2At c' A = None"
        using same act unfolding l2At_None_iff [OF wf'] l2At_None_iff [OF wf2] by (simp add: len)
      with None show ?thesis by simp
    next
      case (Some bd)
      then obtain j where j: "j < length (l2 c)" "l2V (l2 c ! j)" "l2Tag (l2 c ! j) = drop_bit 5 A"
          "bd = (l2B (l2 c ! j), l2D (l2 c ! j))"
        unfolding l2At_Some_iff [OF wf2] by blast
      then have "j \<noteq> i" using i t by auto
      then have "l2At c' A = Some bd"
        unfolding l2At_Some_iff [OF wf'] len using act' j nth by (intro conjI exI [of _ j]) simp_all
      with Some show ?thesis by simp
    qed
    with False show ?thesis by simp
  qed
qed

lemma unat_blk: "unat (blk a) = 32 * (unat a div 32)"
proof -
  have "unat (off a) = unat a mod 32"
    using unat_and_mask [of a 5] by (simp add: off_def mask5)
  then show ?thesis using unat_blk_off [of a] mult_div_mod_eq [of 32 "unat a"] by linarith
qed

lemma blk_mono: "a \<le> b \<Longrightarrow> blk a \<le> blk b"
  by (simp add: word_le_nat_alt unat_blk div_le_mono)

lemma next_block:
  assumes "blk a = a" "blk b = b" "a \<le> b" "a \<noteq> b"
  shows "a + 32 \<le> b" "a < a + 32" "blk (a + 32) = a + 32"
proof -
  obtain x y where x: "unat a = 32 * x" and y: "unat b = 32 * y"
    using assms(1,2) unat_blk by metis
  have "x < y" using assms(3,4) x y by (simp add: word_le_nat_alt word_unat_eq_iff)
  then have le: "unat a + 32 \<le> unat b" using x y by simp
  then have u: "unat (a + 32) = unat a + 32"
    using unsigned_less [of b, where ?'a = nat] by (simp add: unat_word_ariths)
  show "a + 32 \<le> b" "a < a + 32" using le by (simp_all add: word_le_nat_alt word_less_nat_alt u)
  have "unat (blk (a + 32)) = unat (a + 32)" unfolding unat_blk u x by simp
  then show "blk (a + 32) = a + 32" by (simp add: word_unat_eq_iff)
qed

text \<open>The blocks of a range.\<close>

definition blocksIn :: "u32 \<Rightarrow> u32 \<Rightarrow> u32 set" where
  "blocksIn a b = {B. blk B = B \<and> a \<le> B \<and> B \<le> b}"

lemma blocksIn_single: "blk a = a \<Longrightarrow> blocksIn a a = {a}"
  by (auto simp: blocksIn_def)

lemma blocksIn_step:
  assumes "blk a = a" "blk b = b" "a \<le> b" "a \<noteq> b"
  shows "blocksIn a b = {a} \<union> blocksIn (a + 32) b" "a \<notin> blocksIn (a + 32) b"
proof -
  note n = next_block [OF assms]
  have "a + 32 \<le> B" if "blk B = B" "a \<le> B" "B \<noteq> a" for B
    using next_block(1) [OF assms(1) that(1,2)] that(3) by simp
  moreover have "a \<le> B" if "a + 32 \<le> B" for B using n(2) that by (meson less_imp_le order_trans)
  ultimately show "blocksIn a b = {a} \<union> blocksIn (a + 32) b" using assms by (auto simp: blocksIn_def)
  show "a \<notin> blocksIn (a + 32) b" using n(2) by (simp add: blocksIn_def not_le)
qed

context mem_bus
begin

text \<open>What a snoop of block \<open>B\<close> leaves: everything else as it was, and memory current there.\<close>

definition snooped :: "bool \<Rightarrow> u32 set \<Rightarrow> 'b cpu \<Rightarrow> 'b cpu \<Rightarrow> bool" where
  "snooped inval S c c' \<longleftrightarrow> keeps c c' \<and>
     (\<forall>B \<in> S. (\<forall>k < 32. mem (busSt c') (B + k) = viewAt mem c B k) \<and>
        (l1At c B = None \<longrightarrow> l1At c' B = None) \<and> (inval \<longrightarrow> l1At c' B = None \<and> l2At c' B = None)) \<and>
     (\<forall>A \<in> R - S. l1At c' A = l1At c A \<and> l2At c' A = l2At c A \<and>
        (\<forall>k < 32. mem (busSt c') (A + k) = mem (busSt c) (A + k)))"

lemma snooped_Un:
  assumes "snooped inval S c d" "snooped inval T d e" "S \<inter> T = {}" "S \<union> T \<subseteq> R"
  shows "snooped inval (S \<union> T) c e"
proof -
  have k: "keeps c d" "keeps d e" using assms by (simp_all add: snooped_def)
  have S: "B \<in> R - T" "(\<forall>k < 32. mem (busSt d) (B + k) = viewAt mem c B k)" "l1At c B = None \<longrightarrow> l1At d B = None"
    "inval \<longrightarrow> l1At d B = None \<and> l2At d B = None" if "B \<in> S" for B
    using assms that by (auto simp: snooped_def)
  have T: "\<forall>k < 32. viewAt mem d B k = viewAt mem c B k" "B \<in> R - S" if "B \<in> T" for B
    using k(1) assms(3,4) that by (auto simp: keeps_def sameView_def)
  show ?thesis
    unfolding snooped_def
  proof (intro conjI)
    show "keeps c e" using keeps_trans [OF k] .
    show "\<forall>B \<in> S \<union> T. (\<forall>k < 32. mem (busSt e) (B + k) = viewAt mem c B k) \<and>
        (l1At c B = None \<longrightarrow> l1At e B = None) \<and> (inval \<longrightarrow> l1At e B = None \<and> l2At e B = None)"
    proof
      fix B assume "B \<in> S \<union> T"
      then show "(\<forall>k < 32. mem (busSt e) (B + k) = viewAt mem c B k) \<and>
        (l1At c B = None \<longrightarrow> l1At e B = None) \<and> (inval \<longrightarrow> l1At e B = None \<and> l2At e B = None)"
        using S [of B] T [of B] assms(1,2) by (auto simp: snooped_def)
    qed
    show "\<forall>A \<in> R - (S \<union> T). l1At e A = l1At c A \<and> l2At e A = l2At c A \<and>
        (\<forall>k < 32. mem (busSt e) (A + k) = mem (busSt c) (A + k))"
      using assms(1,2) by (simp add: snooped_def)
  qed
qed

text \<open>The L1 half: afterwards the block is clean there, or gone.\<close>

lemma snoop_l1:
  assumes c: "coh c" and B: "B \<in> R" and w: "lineWayQuiet c B = Some w" and d: "dlD (l1d c (setOf B) w)"
  defines "c' \<equiv> l2Invalidate B (setDirty (setOf B) w False (cacheBusWriteLine B (dlB (l1d c (setOf B) w)) c))"
  shows "keeps c c'" "lineWayQuiet c' B = Some w" "\<not> dlD (l1d c' (setOf B) w)"
    "\<And>A. A \<in> R \<Longrightarrow> A \<noteq> B \<Longrightarrow> l1At c' A = l1At c A \<and> l2At c' A = l2At c A \<and>
        (\<forall>k < 32. mem (busSt c') (A + k) = mem (busSt c) (A + k))"
proof -
  let ?b = "dlB (l1d c (setOf B) w)"
  let ?c1 = "l2Invalidate B (cacheBusWriteLine B ?b c)"
  have c': "c' = setDirty (setOf B) w False ?c1" by (simp add: c'_def l2Invalidate_setDirty)
  note r = pushed_clean [OF c B w pushed_through [OF c B], folded c']
  note wl = writeLine_effect [OF coherent_parts(1) [OF c] B, where b = ?b]
  note li = l2Invalidate_effect [OF wl(1), where B = B]
  show "keeps c c'" using r(1-3) by (simp add: keeps_def)
  show "lineWayQuiet c' B = Some w" using r(4) w by simp
  show "\<not> dlD (l1d c' (setOf B) w)" by (simp add: c' setDirty_setLine)
  fix A assume A: "A \<in> R" "A \<noteq> B"
  have "l2At c' A = l2At ?c1 A" using l2At_cong [of c' ?c1] by (simp add: c' setDirty_setLine)
  then show "l1At c' A = l1At c A \<and> l2At c' A = l2At c A \<and>
      (\<forall>k < 32. mem (busSt c') (A + k) = mem (busSt c) (A + k))"
    using r(6) [OF A(1)] li(7,9) wl(4,10) A B by (simp add: blk_R c')
qed

lemma snoopL1_effect:
  assumes c: "coh c" and B: "B \<in> R" and on: "dceOn c \<or> l1At c B = None" and c': "c' = snoopL1 inval B c"
  shows "keeps c c' \<and> (inval \<longrightarrow> l1At c' B = None) \<and> (l1At c B = None \<longrightarrow> l1At c' B = None) \<and>
    (\<forall>k < 32. viewAt mem c' B k = belowAt mem c' B k) \<and>
    (\<forall>A \<in> R - {B}. l1At c' A = l1At c A \<and> l2At c' A = l2At c A \<and>
        (\<forall>k < 32. mem (busSt c') (A + k) = mem (busSt c) (A + k)))"
proof (cases "lineWayQuiet c B")
  case None
  then have "c' = c" "l1At c B = None" unfolding c' by (simp_all add: snoopL1_def l1At_def Let_def)
  then show ?thesis using c keeps_refl clean_line_view [OF c B] by simp
next
  case (Some w)
  then have dce: "dceOn c" using on by (simp add: l1At_def)
  define d1 where "d1 = (if dlD (l1d c (setOf B) w)
      then l2Invalidate B (setDirty (setOf B) w False (cacheBusWriteLine B (dlB (l1d c (setOf B) w)) c)) else c)"
  have s: "c' = (if inval then setTv (setOf B) w 0 d1 else d1)"
    unfolding c' using Some dce by (simp add: snoopL1_def Let_def d1_def)
  have d1: "keeps c d1" "lineWayQuiet d1 B = Some w" "\<not> dlD (l1d d1 (setOf B) w)"
    "\<And>A. A \<in> R \<Longrightarrow> A \<noteq> B \<Longrightarrow> l1At d1 A = l1At c A \<and> l2At d1 A = l2At c A \<and>
        (\<forall>k < 32. mem (busSt d1) (A + k) = mem (busSt c) (A + k))"
    using snoop_l1 [OF c B Some] Some keeps_refl [OF c] by (auto simp: d1_def)
  have coh1: "coh d1" using d1(1) by (simp add: keeps_def)
  note dr = drop_line [OF coh1 B d1(2)]
  have k2: "keeps d1 (setTv (setOf B) w 0 d1)" using dr(1,2) drop_clean [OF coh1 B d1(2,3)] by (simp add: keeps_def)
  have v1: "viewAt mem d1 B k = belowAt mem d1 B k" if "k < 32" for k
    using clean_line_view [OF coh1 B _ that] d1(2,3) by (simp add: l1At_def)
  have v2: "viewAt mem (setTv (setOf B) w 0 d1) B k = belowAt mem (setTv (setOf B) w 0 d1) B k" for k
    using dr(3) [OF B] by (simp add: viewAt_def)
  show ?thesis
  proof (cases inval)
    case True
    then show ?thesis using s keeps_trans [OF d1(1) k2] dr(3,5,6) d1(4) v2 B by simp
  next
    case False
    then show ?thesis using s d1 v1 Some by (simp add: l1At_def)
  qed
qed

lemma snoop_l2_clean:
  assumes c: "coh c" and B: "B \<in> R" and f: "l2Find B c = (Some i, c1)" and d: "l2D (l2 c1 ! i)"
  defines "w \<equiv> cacheBusWriteLine B (l2B (l2 c1 ! i)) c1"
  defines "c' \<equiv> w\<lparr>l2 := (l2 w)[i := (l2 w ! i)\<lparr>l2D := False\<rparr>]\<rparr>"
  shows "wfc c'" "cacheFrame c c'" "l1At c' = l1At c" "l1d c' = l1d c" "l2Act c'"
    "i < length (l2 c')" "l2V (l2 c' ! i)" "l2Tag (l2 c' ! i) = drop_bit 5 B"
    "\<And>A. A \<in> R \<Longrightarrow> l2At c' A = (if A = B then Some (l2B (l2 c1 ! i), False) else l2At c A)"
    "\<And>A k. A \<in> R \<Longrightarrow> k < 32 \<Longrightarrow> mem (busSt c') (A + k) = (if A = B then l2B (l2 c1 ! i) k else mem (busSt c) (A + k))"
proof -
  note e = l2Find_effect [OF coherent_parts(1) [OF c] f]
  note h = e(10) [of i, simplified]
  note wl = writeLine_effect [OF e(1) B, where b = "l2B (l2 c1 ! i)", folded w_def]
  have act: "l2Act w" using h e(2,8) wl(2,9) by (simp add: l2Act_def l2On_def cacheFrame_def)
  have iw: "i < length (l2 w)" "l2V (l2 w ! i)" "l2Tag (l2 w ! i) = drop_bit 5 B" "l2B (l2 w ! i) = l2B (l2 c1 ! i)"
    using h wl(8) by simp_all
  note u = l2_line_update [OF wl(1) iw(1,2,3) act, of "(l2 w ! i)\<lparr>l2D := False\<rparr>", folded c'_def]
  show "wfc c'" using u(1) iw by simp
  show "cacheFrame c c'" using cacheFrame_trans [OF e(2) wl(2)] by (simp add: c'_def cacheFrame_def)
  show "l1d c' = l1d c" using e wl by (simp add: c'_def)
  show "l1At c' = l1At c" using l1At_cong(1) [of c' w] e wl by (simp add: c'_def)
  show "l2Act c'" using act by (simp add: c'_def l2Act_def l2On_def)
  show "i < length (l2 c')" "l2V (l2 c' ! i)" "l2Tag (l2 c' ! i) = drop_bit 5 B" using iw by (simp_all add: c'_def)
  show "l2At c' A = (if A = B then Some (l2B (l2 c1 ! i), False) else l2At c A)" if "A \<in> R" for A
    using u(2) [of A] iw that B wl(4) e(9) by (simp add: blk_R)
  show "mem (busSt c') (A + k) = (if A = B then l2B (l2 c1 ! i) k else mem (busSt c) (A + k))"
    if "A \<in> R" "k < 32" for A k
    using wl(10) [OF that] e(7) by (simp add: c'_def)
qed

lemma snoopL2_effect:
  assumes c: "coh c" and B: "B \<in> R" and v: "\<And>k. k < 32 \<Longrightarrow> viewAt mem c B k = belowAt mem c B k"
    and none: "inval \<Longrightarrow> l1At c B = None"
  shows "snooped inval {B} c (snoopL2 inval B c)"
proof -
  obtain r c1 where f: "l2Find B c = (r, c1)" by fastforce
  note e = l2Find_effect [OF coherent_parts(1) [OF c] f]
  show ?thesis
  proof (cases r)
    case None
    then have s: "snoopL2 inval B c = c1" using f by (simp add: snoopL2_def)
    have b: "belowAt mem c1 = belowAt mem c" using belowAt_cong [of c1 c] e by simp
    have "keeps c c1" by (rule keeps_below [OF c e(1)]) (use e b coherent_parts(2) [OF c] in \<open>simp_all add: cleanL2_def\<close>)
    moreover have "l2At c B = None" using e(11) None by simp
    ultimately show ?thesis
      unfolding s snooped_def using v none e by (simp add: belowAt_def)
  next
    case (Some i)
    note h = e(10) [OF Some]
    define q where "q = l2 c1 ! i"
    have at: "l2At c B = Some (l2B q, l2D q)" using h by (simp add: q_def)
    define c4 where "c4 = (if l2D q then (let w = cacheBusWriteLine B (l2B q) c1
        in w\<lparr>l2 := (l2 w)[i := (l2 w ! i)\<lparr>l2D := False\<rparr>]\<rparr>) else c1)"
    define c' where "c' = snoopL2 inval B c"
    have s: "c' = (if inval then c4\<lparr>l2 := (l2 c4)[i := (l2 c4 ! i)\<lparr>l2V := False\<rparr>]\<rparr> else c4)"
      using f Some by (simp add: c'_def snoopL2_def Let_def c4_def q_def)
    have c4: "wfc c4 \<and> cacheFrame c c4 \<and> l1At c4 = l1At c \<and> l2Act c4 \<and> i < length (l2 c4) \<and>
        l2V (l2 c4 ! i) \<and> l2Tag (l2 c4 ! i) = drop_bit 5 B \<and>
        (\<forall>A \<in> R. l2At c4 A = (if A = B then Some (l2B q, False) else l2At c A)) \<and>
        (\<forall>A \<in> R. \<forall>k < 32. mem (busSt c4) (A + k) = (if A = B then l2B q k else mem (busSt c) (A + k)))"
    proof (cases "l2D q")
      case True
      then show ?thesis
        using snoop_l2_clean [OF c B f [unfolded Some], folded q_def] by (simp add: c4_def Let_def)
    next
      case False
      then have "c4 = c1" "l2At c B = Some (l2B q, False)" by (simp_all add: c4_def at)
      moreover have "l2Act c1" using h e(2,8) by (simp add: l2Act_def l2On_def cacheFrame_def)
      moreover have "mem (busSt c) (B + k) = l2B q k" if "k < 32" for k
        using coherent_parts(2) [OF c] B calculation(2) that by (simp add: cleanL2_def)
      ultimately show ?thesis using e h by simp
    qed
    have below: "k < 32 \<Longrightarrow> belowAt mem c B k = l2B q k" for k by (simp add: belowAt_def at)
    have c': "wfc c' \<and> cacheFrame c c' \<and> l1At c' = l1At c \<and> busSt c' = busSt c4 \<and>
        (\<forall>A \<in> R. l2At c' A = (if A = B then (if inval then None else Some (l2B q, False)) else l2At c A))"
    proof (cases inval)
      case True
      let ?e = "(l2 c4 ! i)\<lparr>l2V := False\<rparr>"
      note u = l2_line_update [of vt good R c4 i B ?e]
      have "l1At c' = l1At c4" using l1At_cong(1) [of c' c4] by (simp add: s)
      then show ?thesis using True u c4 B by (simp add: s blk_R cacheFrame_def)
    next
      case False
      then show ?thesis using c4 by (simp add: s)
    qed
    have m: "mem (busSt c') (A + k) = (if A = B then l2B q k else mem (busSt c) (A + k))"
      if "A \<in> R" "k < 32" for A k using c4 c' that by simp
    have bl: "belowAt mem c' A k = belowAt mem c A k" if "A \<in> R" "k < 32" for A k
      using c' m [OF that] below [OF that(2)] that by (auto simp: belowAt_def split: option.splits)
    have "cleanL2 mem R c'"
      using c' m coherent_parts(2) [OF c] by (auto simp: cleanL2_def split: if_splits)
    then have "keeps c c'" using keeps_below [OF c _ _ _ _ bl] c' by simp
    then show ?thesis
      unfolding snooped_def c'_def [symmetric] using c' m v below none B by simp
  qed
qed

lemma snoopBlock_effect:
  assumes c: "coh c" and B: "B \<in> R" and on: "dceOn c \<or> l1At c B = None"
  shows "snooped inval {B} c (snoopBlock inval B c)"
proof -
  define c1 where "c1 = (if inval then fetchDropAt B c else c)"
  have k1: "keeps c c1" using keeps_fetchDropAt [OF c] keeps_refl [OF c] by (simp add: c1_def)
  have coh1: "coh c1" using k1 by (simp add: keeps_def)
  have e1: "l1At c1 = l1At c" "l2At c1 = l2At c" "busSt c1 = busSt c" "dceOn c1 = dceOn c"
    using l1At_cong(1) [of c1 c] l2At_cong(1) [of c1 c] by (simp_all add: c1_def dceOn_def)
  have vA: "viewAt mem c1 = viewAt mem c"
    using e1 by (auto simp: viewAt_def belowAt_def fun_eq_iff split: option.splits)
  define c2 where "c2 = snoopL1 inval B c1"
  note p = snoopL1_effect [OF coh1 B _ c2_def, unfolded e1, OF on]
  have coh2: "coh c2" using p by (simp add: keeps_def)
  have l2: "snooped inval {B} c2 (snoopL2 inval B c2)"
    by (rule snoopL2_effect [OF coh2 B]) (use p in auto)
  have s: "snoopBlock inval B c = snoopL2 inval B c2" by (simp add: snoopBlock_def c1_def c2_def)
  have v2: "viewAt mem c2 B k = viewAt mem c B k" if "k < 32" for k
    using p vA B that by (simp add: keeps_def sameView_def)
  have "keeps c (snoopL2 inval B c2)"
    using keeps_trans [OF k1] keeps_trans [of c1 c2] p l2 by (simp add: snooped_def)
  then show ?thesis
    using l2 p v2 unfolding s snooped_def by auto
qed


lemma snooped_dce: "snooped inval S c c' \<Longrightarrow> dceOn c' = dceOn c"
  using keeps_dce by (simp add: snooped_def)

lemma snoopedD:
  assumes "snooped inval S c c'" "B \<in> S"
  shows "\<forall>k < 32. mem (busSt c') (B + k) = viewAt mem c B k"
    "inval \<longrightarrow> l1At c' B = None \<and> l2At c' B = None"
  using assms unfolding snooped_def by blast+

lemma snooped_none: "snooped inval S c c' \<Longrightarrow> A \<in> R \<Longrightarrow> l1At c A = None \<Longrightarrow> l1At c' A = None"
  unfolding snooped_def by (cases "A \<in> S") simp_all

text \<open>The loop over a range of blocks.\<close>

lemma snoopLoop_effect:
  assumes "coh c" "dceOn c \<or> (\<forall>A \<in> R. l1At c A = None)" "blk a = a" "blk lastB = lastB" "a \<le> lastB"
    "blocksIn a lastB \<subseteq> R"
  shows "snooped inval (blocksIn a lastB) c (snoopLoop inval lastB a c)"
  using assms
proof (induction inval lastB a c rule: snoopLoop.induct)
  case (1 inval lastB a c)
  let ?c1 = "snoopBlock inval a c"
  have aR: "a \<in> R" using 1(4-7) by (auto simp: blocksIn_def)
  have s: "snooped inval {a} c ?c1" using snoopBlock_effect [OF 1(2) aR] 1(3) aR by blast
  have coh1: "coh ?c1" using s by (simp add: snooped_def keeps_def)
  show ?case
  proof (cases "a = lastB")
    case True
    then show ?thesis using s blocksIn_single [OF 1(4)] by (simp add: snoopLoop.simps)
  next
    case False
    note n = next_block [OF 1(4,5,6) False]
    note st = blocksIn_step [OF 1(4,5,6) False]
    have c': "snoopLoop inval lastB a c = snoopLoop inval lastB (a + 32) ?c1"
      using n(2) False by (subst snoopLoop.simps) (simp add: Let_def not_less)
    have "dceOn ?c1 \<or> (\<forall>A \<in> R. l1At ?c1 A = None)"
      using 1(3) snooped_none [OF s] snooped_dce [OF s] by blast
    moreover have "blocksIn (a + 32) lastB \<subseteq> R" using 1(7) st(1) by blast
    ultimately have "snooped inval (blocksIn (a + 32) lastB) ?c1 (snoopLoop inval lastB (a + 32) ?c1)"
      using 1(1) [OF refl _ coh1 _ n(3) 1(5) n(1)] n(2) False by simp
    from snooped_Un [OF s this] st aR 1(7) show ?thesis by (simp add: c')
  qed
qed

lemma snoopPush_effect:
  assumes c: "coh c" and on: "dceOn c \<or> (\<forall>A \<in> R. l1At c A = None)" and len: "0 < len" "pa \<le> pa + (len - 1)"
    and R: "blocksIn (blk pa) (blk (pa + (len - 1))) \<subseteq> R"
  shows "snooped inval (blocksIn (blk pa) (blk (pa + (len - 1)))) c (snoopPush pa len inval c)"
proof -
  have "snoopPush pa len inval c = snoopLoop inval (blk (pa + (len - 1))) (blk pa) c"
    using len(1) by (simp add: snoopPush_def blk_def algebra_simps word_neq_0_conv)
  then show ?thesis
    using snoopLoop_effect [OF c on _ _ blk_mono [OF len(2)] R] by simp
qed

end

end
