(* ===== verification/CacheProps.thy ===== *)
theory CacheProps
  imports CacheControl
begin

text \<open>
  The cache properties on the flat bus: the caches refine flat memory.
\<close>

section \<open>The flat bus\<close>

text \<open>
  The contracts above hold of every bus that is memory on a region; here they are stated of
  the processor on \<^verbatim>\<open>FlatBus\<close> with \<open>n\<close> bytes of RAM.
\<close>

definition flatCoherent :: "nat \<Rightarrow> flat_bus cpu \<Rightarrow> bool" where
  "flatCoherent n = coherent flatBusVt flatMem (flatGood n) (flatRegion n)"

definition flatView :: "flat_bus cpu \<Rightarrow> u32 \<Rightarrow> u8" where
  "flatView = view flatMem"

lemma coherent_empty:
  assumes "busVt c = vt" "good (busSt c)" "\<And>s w. dxTv (l1x c s) w = 0" "l2 c = []" "l2Sets c = 0" "l2Synced c"
  shows "coherent vt mem good R c" "view mem c a = mem (busSt c) (blk a + off a)"
proof -
  have l1: "l1At c A = None" for A
    using tvOf_nonzero by (simp add: l1At_def lineWayQuiet_None_iff assms)
  have l2: "l2At c A = None" for A by (simp add: l2At_def l2Act_def assms)
  have "wfL1 R c" by (rule wfL1I) (simp_all add: assms)
  moreover have "wfL2 R (l2Sets c) (l2 c)" by (rule wfL2I) (simp_all add: assms)
  ultimately show "coherent vt mem good R c"
    using assms l1 l2 by (simp add: coherent_def wfCache_def cleanL1_def cleanL2_def)
  show "view mem c a = mem (busSt c) (blk a + off a)"
    using l1 l2 by (simp add: view_def viewAt_def belowAt_def)
qed

text \<open>A reset processor with its data cache switched on.\<close>

definition cachedCpu :: "nat \<Rightarrow> flat_bus cpu" where
  "cachedCpu n = (flatCpu n)\<lparr>st := (st (flatCpu n))\<lparr>hid0 := 0x4000\<rparr>\<rparr>"

lemma cachedCpu_coherent: "flatCoherent n (cachedCpu n)"
  unfolding flatCoherent_def
  by (rule coherent_empty)
     (simp_all add: cachedCpu_def flatCpu_def initCpu_def flatGood_def flatBus_def l2Synced_def)

lemma cachedCpu_on [simp]: "dceOn (cachedCpu n)" "\<not> wpForceSet (ins (cachedCpu n))" "\<not> l2On (cachedCpu n)"
  by (simp_all add: cachedCpu_def dceOn_def flatCpu_def initCpu_def initInstruments_def l2On_def initState_def)

lemma block_cases_64:
  assumes "blk B = B" "B \<le> 32"
  shows "B = 0 \<or> B = 32"
proof -
  have "unat B = 32 * (unat B div 32)" using unat_blk [of B] by (simp only: assms(1))
  moreover have "unat B \<le> 32" using assms(2) by (simp add: word_le_nat_alt)
  ultimately have "unat B = unat (0 :: u32) \<or> unat B = unat (32 :: u32)" by simp arith
  then show ?thesis by (simp only: word_unat_eq_iff)
qed

lemma flatRegion_64: "B \<in> flatRegion 64 \<longleftrightarrow> B = 0 \<or> B = 32"
  using block_cases_64 [of B] blk_id [of B] by (auto simp: flatRegion_def word_le_nat_alt)

lemma inMem_64: "inMem (flatRegion 64) 30 (unat (4 :: u32))"
  by (simp add: inMem_def addrs_eqs flatRegion_64 blk_def)

text \<open>
  C9. A cacheable load returns, big-endian, the bytes of the memory the program sees at its
  address, whatever mixture of L1 lines, L2 lines and RAM holds them and whether or not it
  crosses a block; it changes none of that memory and keeps the caches coherent.
\<close>

theorem cached_load_reads_view:
  assumes "flatCoherent n c" "dceOn c" "wimg AND 4 = 0" "inMem (flatRegion n) pa (unat len)"
    "0 < len" "len \<le> 32" "memRead pa len wimg c = (v, c')"
  shows "v = be_bytes (map (flatView c) (addrs pa (unat len))) \<and> flatCoherent n c' \<and>
    (\<forall>a. blk a \<in> flatRegion n \<longrightarrow> flatView c' a = flatView c a)"
  using flat.memRead_cached [OF assms(1) [unfolded flatCoherent_def] assms(2-7)] flat.keeps_view
  by (simp add: flatCoherent_def flatView_def flat.keeps_def) 

theorem cached_load_reads_view_witness:
  "fst (memRead 30 4 2 (cachedCpu 64)) = be_bytes (map (flatView (cachedCpu 64)) (addrs 30 4))"
  using cached_load_reads_view [OF cachedCpu_coherent cachedCpu_on(1) _ inMem_64 _ _ prod.collapse [symmetric], where wimg = 2]
  by simp

text \<open>
  C6. A cacheable write-back store of \<open>len\<close> bytes changes exactly those bytes of the memory
  the program sees, to the big-endian image of the value, and keeps the caches coherent, whatever
  it evicts. (The forced-value instrument is not armed.)
\<close>

theorem cached_store_writes_view:
  assumes "flatCoherent n c" "dceOn c" "wimg AND 4 = 0" "wimg AND 8 = 0" "\<not> wpForceSet (ins c)"
    "inMem (flatRegion n) pa (unat len)" "0 < len" "len \<le> 32"
  shows "flatCoherent n (memWrite pa len v wimg c) \<and>
    (\<forall>a. blk a \<in> flatRegion n \<longrightarrow>
      flatView (memWrite pa len v wimg c) a = storeBE pa (unat len) v (flatView c) a)"
  using flat.memWrite_cached [OF assms(1) [unfolded flatCoherent_def] assms(2-8), of v]
  by (simp add: flatCoherent_def flatView_def flat.stored_def)

theorem cached_store_writes_view_witness:
  "flatView (memWrite 30 4 0xDEADBEEF 2 (cachedCpu 64)) 31
     = storeBE 30 4 0xDEADBEEF (flatView (cachedCpu 64)) 31"
  using cached_store_writes_view [OF cachedCpu_coherent cachedCpu_on(1) _ _ cachedCpu_on(2) inMem_64, where wimg = 2 and v = "0xDEADBEEF"]
  by (simp add: flatRegion_64 blk_def)



text \<open>
  A value stored to cacheable memory is the value a later load of the same width and
  address returns, in whichever cache level it ended up.
\<close>

theorem store_then_load:
  assumes "flatCoherent n c" "dceOn c" "wimg AND 4 = 0" "wimg AND 8 = 0" "\<not> wpForceSet (ins c)"
    "inMem (flatRegion n) pa (unat len)" "0 < len" "len \<le> 8" "take_bit (8 * unat len) v = v"
  shows "fst (memRead pa len wimg (memWrite pa len v wimg c)) = v"
proof -
  have l32: "len \<le> 32" using assms(8) by (rule order_trans) simp
  have s: "flat.stored n (storeBE pa (unat len) v (view flatMem c)) c (memWrite pa len v wimg c)"
    by (rule flat.memWrite_cached [OF assms(1) [unfolded flatCoherent_def] assms(2-7) l32])
  have "fst (memRead pa len wimg (memWrite pa len v wimg c))
      = be_bytes (map (view flatMem (memWrite pa len v wimg c)) (addrs pa (unat len)))"
    by (rule flat.memRead_cached(1) [OF _ _ assms(3,6,7) l32 prod.collapse [symmetric]])
       (use s dceOn_frame assms(2) in \<open>auto simp: flat.stored_def\<close>)
  also have "map (view flatMem (memWrite pa len v wimg c)) (addrs pa (unat len))
      = map (storeBE pa (unat len) v (view flatMem c)) (addrs pa (unat len))"
    using s assms(6) by (simp add: flat.stored_def inMem_def)
  also have "\<dots> = map (be_byte (unat len) v) [0..<unat len]"
    using assms(8) by (simp add: storeBE_def addrs_def unat_of_nat word_le_nat_alt)
  also have "be_bytes \<dots> = v"
    using assms(8,9) by (intro be_bytes_of_byte) (simp_all add: word_le_nat_alt)
  finally show ?thesis .
qed

theorem store_then_load_witness: "fst (memRead 30 4 2 (memWrite 30 4 0xDEADBEEF 2 (cachedCpu 64))) = 0xDEADBEEF"
  using store_then_load [OF cachedCpu_coherent cachedCpu_on(1) _ _ cachedCpu_on(2) inMem_64, where wimg = 2 and v = "0xDEADBEEF"]
  by simp

text \<open>
  dcbz makes its 32-byte block read as zero, without reading it, and changes nothing
  else the program sees.
\<close>

theorem dcbz_zeroes_block:
  assumes "flatCoherent n c" "blk pa \<in> flatRegion n"
  shows "flatCoherent n (dcbzLine pa c) \<and>
    (\<forall>a. blk a \<in> flatRegion n \<longrightarrow>
      flatView (dcbzLine pa c) a = (if blk a = blk pa then 0 else flatView c a))"
  using flat.dcbzLine_zeroes [OF assms(1) [unfolded flatCoherent_def] assms(2)]
  by (simp add: flatCoherent_def flatView_def flat.stored_def)

theorem dcbz_zeroes_block_witness: "flatView (dcbzLine 40 (cachedCpu 64)) 63 = 0"
  using dcbz_zeroes_block [OF cachedCpu_coherent [of 64], of 40] by (simp add: flatRegion_64 blk_def)

text \<open>
  dcbst and dcbf (\<^verbatim>\<open>dcbClean\<close>) never change what the program sees; with the
  backside L2 off they leave RAM holding the block's current bytes, and dcbf leaves no L1 copy.
\<close>

theorem dcb_clean_updates_ram:
  assumes "flatCoherent n c" "blk pa \<in> flatRegion n"
  shows "flatCoherent n (dcbClean pa inval c) \<and>
    (\<forall>a. blk a \<in> flatRegion n \<longrightarrow> flatView (dcbClean pa inval c) a = flatView c a) \<and>
    (inval \<longrightarrow> l1At (dcbClean pa inval c) (blk pa) = None) \<and>
    (\<not> l2On c \<longrightarrow> (\<forall>a. blk a = blk pa \<longrightarrow> flatMem (busSt (dcbClean pa inval c)) a = flatView c a))"
proof -
  note e = flat.dcbClean_effect [OF assms(1) [unfolded flatCoherent_def] assms(2), where inval = inval]
  have "flatMem (busSt (dcbClean pa inval c)) a = flatView c a" if "\<not> l2On c" "blk a = blk pa" for a
    using e(3) [OF that(1) off_less, of a] that(2) blk_off [of a] by (simp add: flatView_def view_def)
  then show ?thesis
    using e(1,2) flat.keeps_view [OF e(1)] by (simp add: flatCoherent_def flatView_def flat.keeps_def)
qed

theorem dcb_clean_updates_ram_witness:
  "flatMem (busSt (dcbClean 40 True (cachedCpu 64))) 41 = flatView (cachedCpu 64) 41"
  using dcb_clean_updates_ram [OF cachedCpu_coherent [of 64], of 40 True] by (simp add: flatRegion_64 blk_def)

text \<open>
  dcbi (\<^verbatim>\<open>dcbKill\<close>) discards every cached copy of its block: the program then sees
  RAM there, and what it saw elsewhere.
\<close>

theorem dcbi_reveals_ram:
  assumes "flatCoherent n c" "blk pa \<in> flatRegion n"
  shows "flatCoherent n (dcbKill pa c) \<and>
    (\<forall>a. blk a \<in> flatRegion n \<longrightarrow>
      flatView (dcbKill pa c) a = (if blk a = blk pa then flatMem (busSt c) a else flatView c a))"
  using flat.dcbKill_effect [OF assms(1) [unfolded flatCoherent_def] assms(2)]
  by (simp add: flatCoherent_def flatView_def flat.stored_def)

theorem dcbi_reveals_ram_witness: "flatView (dcbKill 40 (cachedCpu 64)) 41 = flatMem (busSt (cachedCpu 64)) 41"
  using dcbi_reveals_ram [OF cachedCpu_coherent [of 64], of 40] by (simp add: flatRegion_64 blk_def)

text \<open>
  C12. The snoop response to a bus master: before a transfer of \<open>len\<close> bytes at \<open>pa\<close>,
  \<^verbatim>\<open>snoopPush\<close> makes RAM hold what the program sees in every block the transfer touches,
  changes nothing the program sees, and, for a transfer that writes, leaves no cached copy of
  those blocks, so that the bytes the master writes are what the program sees next.
\<close>

theorem snoop_makes_ram_current:
  assumes "flatCoherent n c" "dceOn c \<or> (\<forall>A \<in> flatRegion n. l1At c A = None)" "0 < len" "pa \<le> pa + (len - 1)"
    "\<And>B. blk B = B \<Longrightarrow> blk pa \<le> B \<Longrightarrow> B \<le> blk (pa + (len - 1)) \<Longrightarrow> B \<in> flatRegion n"
  shows "flatCoherent n (snoopPush pa len inval c) \<and>
    (\<forall>a. blk a \<in> flatRegion n \<longrightarrow> flatView (snoopPush pa len inval c) a = flatView c a) \<and>
    (\<forall>a. pa \<le> a \<and> a \<le> pa + (len - 1) \<longrightarrow>
      flatMem (busSt (snoopPush pa len inval c)) a = flatView c a \<and>
      (inval \<longrightarrow> l1At (snoopPush pa len inval c) a = None \<and> l2At (snoopPush pa len inval c) a = None))"
proof -
  let ?S = "blocksIn (blk pa) (blk (pa + (len - 1)))"
  have S: "?S \<subseteq> flatRegion n" using assms(5) by (auto simp: blocksIn_def)
  have s: "flat.snooped n inval ?S c (snoopPush pa len inval c)"
    by (rule flat.snoopPush_effect [OF assms(1) [unfolded flatCoherent_def] assms(2-4) S])
  have k: "flat.keeps n c (snoopPush pa len inval c)" using s by (simp add: flat.snooped_def)
  have "flatMem (busSt (snoopPush pa len inval c)) a = flatView c a \<and>
      (inval \<longrightarrow> l1At (snoopPush pa len inval c) a = None \<and> l2At (snoopPush pa len inval c) a = None)"
    if "pa \<le> a" "a \<le> pa + (len - 1)" for a
  proof -
    have "blk a \<in> ?S" using that blk_mono by (simp add: blocksIn_def)
    note d = flat.snoopedD [OF s this]
    show ?thesis using d(1) [rule_format, OF off_less, of a] d(2) by (simp add: blk_off flatView_def view_def)
  qed
  then show ?thesis
    using k flat.keeps_view [OF k] by (simp add: flatCoherent_def flatView_def flat.keeps_def)
qed

theorem snoop_makes_ram_current_witness:
  "flatMem (busSt (snoopPush 20 40 True (cachedCpu 64))) 50 = flatView (cachedCpu 64) 50"
proof -
  have "B \<in> flatRegion 64" if "blk B = B" "B \<le> blk (20 + (40 - 1))" for B
    using block_cases_64 [OF that(1)] that(2) by (simp add: blk_def flatRegion_64)
  then show ?thesis
    using snoop_makes_ram_current [OF cachedCpu_coherent [of 64], of 40 20 True] by (simp add: blk_def)
qed

end
