(* ===== verification/Mmu.thy ===== *)
theory Mmu
  imports Cache
begin

text \<open>
  The memory management unit of \<^verbatim>\<open>core/src/mmu.cpp\<close>: real mode, block address
  translation, segments, the modelled TLBs and the hashed page table search with its
  referenced and changed bit updates; the one-page translation caches of the data and
  fetch paths; the virtual accessors with little-endian address modification, the data
  breakpoint and page-crossing accesses; and instruction fetch through the block buffer.

  A translation that faults is \<^term>\<open>None\<close> beside the state in which the exception was
  taken. The code's \<^verbatim>\<open>jitNoteRefill\<close> only retires compiled code and is not part of
  this state.
\<close>

section \<open>Block address translation\<close>

record bat_hit =
  bhPa :: u32
  bhPp :: u32
  bhWimg :: u32

definition batMatch :: "u32 \<Rightarrow> u32 \<Rightarrow> bool \<Rightarrow> bool" where
  "batMatch u ea user \<longleftrightarrow>
     (if user then u AND 1 else u AND 2) \<noteq> 0 \<and>
     (drop_bit 17 ea XOR drop_bit 17 u) AND (0x7FFF AND NOT (drop_bit 2 u AND 0x7FF)) = 0"

definition batTranslate :: "u32 \<Rightarrow> u32 \<Rightarrow> u32 \<Rightarrow> bat_hit" where
  "batTranslate u l ea =
     (let blMask = drop_bit 2 u AND 0x7FF; eaHi = drop_bit 17 ea; brpn = drop_bit 17 l;
          paHi = (brpn AND NOT blMask) OR (eaHi AND blMask)
      in \<lparr>bhPa = push_bit 17 paHi OR (ea AND 0x1FFFF), bhPp = l AND 3, bhWimg = drop_bit 3 l AND 0xF\<rparr>)"

definition batLookup :: "(u32 \<Rightarrow> u32) \<Rightarrow> (u32 \<Rightarrow> u32) \<Rightarrow> u32 \<Rightarrow> bool \<Rightarrow> bat_hit option" where
  "batLookup batu batl ea user =
     map_option (\<lambda>i. batTranslate (batu i) (batl i) ea)
       (find (\<lambda>i. batMatch (batu i) ea user) [0, 1, 2, 3])"

text \<open>Page protection by PP and key.\<close>

definition ppAllows :: "u32 \<Rightarrow> bool \<Rightarrow> bool \<Rightarrow> bool" where
  "ppAllows pp key write =
     (if \<not> key then (if pp = 3 then \<not> write else True)
      else if pp = 0 then False
      else if pp = 1 then \<not> write
      else if pp = 2 then True
      else \<not> write)"

section \<open>Translation\<close>

definition xlDsi :: "u32 \<Rightarrow> bool \<Rightarrow> u32 \<Rightarrow> u32 \<Rightarrow> 'b cpu \<Rightarrow> 'b cpu" where
  "xlDsi ea write cia bits c =
     raiseExc Dsi cia 0
       (c\<lparr>st := (st c)\<lparr>dar := ea, dsisr := bits OR (if write then 0x02000000 else 0)\<rparr>\<rparr>)"

definition xlFault :: "u32 \<Rightarrow> bool \<Rightarrow> bool \<Rightarrow> u32 \<Rightarrow> u32 \<Rightarrow> u32 \<Rightarrow> 'b cpu \<Rightarrow> 'b cpu" where
  "xlFault ea write fetch cia isiBits dsiBits c =
     (if fetch then raiseExc Isi cia isiBits c else xlDsi ea write cia dsiBits c)"

definition tlbOf :: "bool \<Rightarrow> 'b cpu \<Rightarrow> u32 \<Rightarrow> u32 \<Rightarrow> tlb_entry" where
  "tlbOf fetch c = (if fetch then itlb c else dtlb c)"

definition tlbLruOf :: "bool \<Rightarrow> 'b cpu \<Rightarrow> u32 \<Rightarrow> u8" where
  "tlbLruOf fetch c = (if fetch then itlbLru c else dtlbLru c)"

definition setTlb :: "bool \<Rightarrow> u32 \<Rightarrow> u32 \<Rightarrow> tlb_entry \<Rightarrow> 'b cpu \<Rightarrow> 'b cpu" where
  "setTlb fetch s w e =
     (if fetch then itlb_update (\<lambda>t. t(s := (t s)(w := e)))
      else dtlb_update (\<lambda>t. t(s := (t s)(w := e))))"

definition setTlbLru :: "bool \<Rightarrow> u32 \<Rightarrow> u8 \<Rightarrow> 'b cpu \<Rightarrow> 'b cpu" where
  "setTlbLru fetch s v =
     (if fetch then itlbLru_update (\<lambda>t. t(s := v)) else dtlbLru_update (\<lambda>t. t(s := v)))"

definition tlbFind :: "bool \<Rightarrow> u32 \<Rightarrow> u32 \<Rightarrow> 'b cpu \<Rightarrow> u32 option" where
  "tlbFind fetch vsid pageIndex c =
     find (\<lambda>w. let e = tlbOf fetch c (pageIndex AND 63) w
               in tlbV e \<and> tlbVsid e = vsid \<and> tlbPi e = pageIndex) [0, 1]"

definition pteHash :: "u32 \<Rightarrow> u32 \<Rightarrow> u32 \<Rightarrow> u32" where
  "pteHash pass vsid pageIndex =
     (if pass = 0 then (vsid AND 0x7FFFF) XOR pageIndex
      else NOT ((vsid AND 0x7FFFF) XOR pageIndex) AND 0x7FFFF)"

definition ptegAddr :: "u32 \<Rightarrow> u32 \<Rightarrow> u32" where
  "ptegAddr sdr hash =
     (sdr AND 0xFFFF0000) OR push_bit 16 ((drop_bit 10 hash AND 0x1FF) AND (sdr AND 0x1FF))
       OR push_bit 6 (hash AND 0x3FF)"

definition pteRead :: "u32 \<Rightarrow> 'b cpu \<Rightarrow> u32 \<times> 'b cpu" where
  "pteRead pa c = (if mmuProbe c then busRead32 pa c else map_prod ucast id (memRead pa 4 2 c))"

definition pteWrite :: "u32 \<Rightarrow> u32 \<Rightarrow> 'b cpu \<Rightarrow> 'b cpu" where
  "pteWrite pa v c = (if mmuProbe c then c else memWrite pa 4 (ucast v) 2 c)"

definition pteMatches :: "u32 \<Rightarrow> u32 \<Rightarrow> u32 \<Rightarrow> u32 \<Rightarrow> bool" where
  "pteMatches w0 vsid pass api \<longleftrightarrow>
     w0 AND 0x80000000 \<noteq> 0 \<and> drop_bit 7 w0 AND 0xFFFFFF = vsid \<and>
     drop_bit 6 w0 AND 1 = pass \<and> w0 AND 0x3F = api"

text \<open>The two hash groups of eight slots each, primary first.\<close>

definition pteSlots :: "(u32 \<times> u32) list" where
  "pteSlots = map (Pair 0) [0, 1, 2, 3, 4, 5, 6, 7] @ map (Pair 1) [0, 1, 2, 3, 4, 5, 6, 7]"

fun pteSearch :: "u32 \<Rightarrow> u32 \<Rightarrow> (u32 \<times> u32) list \<Rightarrow> 'b cpu \<Rightarrow> u32 option \<times> 'b cpu" where
  "pteSearch vsid pageIndex [] c = (None, c)"
| "pteSearch vsid pageIndex ((pass, slot) # ps) c =
     (let pteAddr = ptegAddr (sdr1 (st c)) (pteHash pass vsid pageIndex) + slot * 8 in
      case pteRead pteAddr c of (w0, c1) \<Rightarrow>
        (if pteMatches w0 vsid pass (drop_bit 10 pageIndex) then (Some pteAddr, c1)
         else pteSearch vsid pageIndex ps c1))"

text \<open>What follows once a page table entry matched at \<open>pteAddr\<close>.\<close>

definition pteUse ::
  "u32 \<Rightarrow> bool \<Rightarrow> bool \<Rightarrow> u32 \<Rightarrow> bool \<Rightarrow> u32 \<Rightarrow> u32 \<Rightarrow> 'b cpu \<Rightarrow> (u32 \<times> u32) option \<times> 'b cpu" where
  "pteUse ea write fetch cia key vsid pteAddr c =
     (let pageIndex = drop_bit 12 ea AND 0xFFFF; s = pageIndex AND 63 in
      case pteRead (pteAddr + 4) c of (w1, c1) \<Rightarrow>
        (if fetch \<and> w1 AND push_bit 3 kWimgG \<noteq> 0 then (None, raiseExc Isi cia 0x10000000 c1)
         else let nw1 = w1 OR 0x00000100; pp = w1 AND 3 in
           if \<not> ppAllows pp key write
           then (None, xlFault ea write fetch cia 0x08000000 0x08000000
                         (if nw1 \<noteq> w1 then pteWrite (pteAddr + 4) nw1 c1 else c1))
           else let nw1' = (if write then nw1 OR 0x00000080 else nw1);
                    c2 = (if nw1' \<noteq> w1 then pteWrite (pteAddr + 4) nw1' c1 else c1);
                    way = tlbLruOf fetch c2 s;
                    e = \<lparr>tlbV = True, tlbC = nw1' AND 0x80 \<noteq> 0, tlbVsid = vsid, tlbPi = pageIndex,
                         tlbRpn = w1 AND 0xFFFFF000, tlbWimg = drop_bit 3 w1 AND 0xF, tlbPp = pp\<rparr>;
                    c3 = (if mmuProbe c2 then c2
                          else setTlbLru fetch s (way XOR 1) (setTlb fetch s (ucast way) e c2))
                in (Some ((w1 AND 0xFFFFF000) OR (ea AND 0xFFF), drop_bit 3 w1 AND 0xF), c3)))"

definition pageWalk ::
  "u32 \<Rightarrow> bool \<Rightarrow> bool \<Rightarrow> u32 \<Rightarrow> bool \<Rightarrow> u32 \<Rightarrow> 'b cpu \<Rightarrow> (u32 \<times> u32) option \<times> 'b cpu" where
  "pageWalk ea write fetch cia key vsid c =
     (case pteSearch vsid (drop_bit 12 ea AND 0xFFFF) pteSlots c of
        (None, c1) \<Rightarrow> (None, xlFault ea write fetch cia 0x40000000 0x40000000 c1)
      | (Some pteAddr, c1) \<Rightarrow> pteUse ea write fetch cia key vsid pteAddr c1)"

text \<open>The TLB, then the table: a store through an entry without C invalidates it and walks.\<close>

definition pageXlate ::
  "u32 \<Rightarrow> bool \<Rightarrow> bool \<Rightarrow> u32 \<Rightarrow> bool \<Rightarrow> u32 \<Rightarrow> 'b cpu \<Rightarrow> (u32 \<times> u32) option \<times> 'b cpu" where
  "pageXlate ea write fetch cia key vsid c =
     (let pageIndex = drop_bit 12 ea AND 0xFFFF; s = pageIndex AND 63 in
      case (if mmuProbe c then None else tlbFind fetch vsid pageIndex c) of
        None \<Rightarrow> pageWalk ea write fetch cia key vsid c
      | Some way \<Rightarrow>
          (let e = tlbOf fetch c s way in
           if fetch \<and> tlbWimg e AND kWimgG \<noteq> 0 then (None, raiseExc Isi cia 0x10000000 c)
           else if \<not> ppAllows (tlbPp e) key write
           then (None, xlFault ea write fetch cia 0x08000000 0x08000000 c)
           else if write \<and> \<not> tlbC e
           then pageWalk ea write fetch cia key vsid (setTlb fetch s way (e\<lparr>tlbV := False\<rparr>) c)
           else (Some (tlbRpn e OR (ea AND 0xFFF), tlbWimg e),
                 setTlbLru fetch s (ucast (way XOR 1)) c)))"

definition segXlate ::
  "u32 \<Rightarrow> bool \<Rightarrow> bool \<Rightarrow> u32 \<Rightarrow> 'b cpu \<Rightarrow> (u32 \<times> u32) option \<times> 'b cpu" where
  "segXlate ea write fetch cia c =
     (let s = sr (st c) (drop_bit 28 ea) in
      if s AND 0x80000000 \<noteq> 0 then (None, xlFault ea write fetch cia 0x10000000 0x04000000 c)
      else if fetch \<and> s AND 0x10000000 \<noteq> 0 then (None, raiseExc Isi cia 0x10000000 c)
      else pageXlate ea write fetch cia
             (if userMode c then s AND 0x20000000 \<noteq> 0 else s AND 0x40000000 \<noteq> 0)
             (s AND 0x00FFFFFF) c)"

definition translate :: "u32 \<Rightarrow> bool \<Rightarrow> bool \<Rightarrow> 'b cpu \<Rightarrow> (u32 \<times> u32) option \<times> 'b cpu" where
  "translate ea write fetch c =
     (if msr (st c) AND (if fetch then MSR_IR else MSR_DR) = 0
      then (Some (ea, if realModeInhibitBase c \<noteq> 0 \<and> realModeInhibitBase c \<le> ea
                      then kWimgReal OR kWimgI else kWimgReal), c)
      else let user = userMode c;
               cia = (if fetch then ea else pc (st c) - 4);
               b = (if fetch then batLookup (ibatu (st c)) (ibatl (st c)) ea user
                    else batLookup (dbatu (st c)) (dbatl (st c)) ea user) in
        case b of
          None \<Rightarrow> segXlate ea write fetch cia c
        | Some h \<Rightarrow>
            if fetch \<and> bhWimg h AND kWimgG \<noteq> 0 then (None, raiseExc Isi cia 0x10000000 c)
            else if bhPp h = 0 \<or> write \<and> bhPp h AND 1 \<noteq> 0
            then (None, xlFault ea write fetch cia 0x08000000 0x08000000 c)
            else (Some (bhPa h, bhWimg h), c))"

definition tlbInvalidateClass :: "u32 \<Rightarrow> 'b cpu \<Rightarrow> 'b cpu" where
  "tlbInvalidateClass ea c =
     (let s = drop_bit 12 ea AND 63;
          kill = (\<lambda>t. t(s := (\<lambda>w. if w < 2 then (t s w)\<lparr>tlbV := False\<rparr> else t s w)))
      in c\<lparr>mmuGen := mmuGen c + 1, batchBreak := True, itlb := kill (itlb c), dtlb := kill (dtlb c)\<rparr>)"

definition tlbFlushAll :: "'b cpu \<Rightarrow> 'b cpu" where
  "tlbFlushAll c =
     (let wipe = (\<lambda>t s w. if s < 64 \<and> w < 2 then emptyTlb else t s w);
          lru0 = (\<lambda>t s. if s < 64 then 0 else t s)
      in c\<lparr>mmuGen := mmuGen c + 1, batchBreak := True, itlb := wipe (itlb c), dtlb := wipe (dtlb c),
           itlbLru := lru0 (itlbLru c), dtlbLru := lru0 (dtlbLru c)\<rparr>)"

definition reset :: "'b cpu \<Rightarrow> 'b cpu" where
  "reset c =
     tlbFlushAll (fetchDrop (c\<lparr>st := initState, halted := False, haltReason := [],
       extIrqLine := False, smiPending := False, decPending := False, pmPending := False,
       napping := False, cycleAccum := 0, pendCycles := 0, batchBreak := True\<rparr>))"

section \<open>Virtual accessors\<close>

definition dabrHit :: "cpu_state \<Rightarrow> u32 \<Rightarrow> bool \<Rightarrow> bool" where
  "dabrHit s ea write \<longleftrightarrow>
     dabr s AND (if write then 2 else 1) \<noteq> 0 \<and>
     (drop_bit 2 (dabr s) AND 1 \<noteq> 0) = (msr s AND MSR_DR \<noteq> 0) \<and>
     (drop_bit 3 (ea XOR dabr s) AND drop_bit 3 (bamr s)) AND 0x1FFFFFFF = 0"

definition leAlignCheck :: "u32 \<Rightarrow> u32 \<Rightarrow> 'b cpu \<Rightarrow> bool \<times> 'b cpu" where
  "leAlignCheck ea len c =
     (if msr (st c) AND MSR_LE = 0 \<or> ea AND (len - 1) = 0 then (True, c)
      else (False, raiseExc Alignment (pc (st c) - 4) 0
                     (c\<lparr>st := (st c)\<lparr>dar := ea, dsisr := alignDsisr (curInsn c)\<rparr>\<rparr>)))"

definition xlateData :: "u32 \<Rightarrow> bool \<Rightarrow> 'b cpu \<Rightarrow> (u32 \<times> u32) option \<times> 'b cpu" where
  "xlateData ea d c =
     (if dxlCacheOff c then translate ea d False c
      else let page = drop_bit 12 ea;
               msrKey = msr (st c) AND (MSR_DR OR MSR_PR OR MSR_LE);
               srKey = sr (st c) (drop_bit 28 ea) in
        if dxlGen c d = mmuGen c \<and> dxlPage c d = page \<and> dxlMsr c d = msrKey \<and> dxlSr c d = srKey
        then (Some (dxlPa c d OR (ea AND 0xFFF), dxlWimg c d), c)
        else case translate ea d False c of
          (None, c1) \<Rightarrow> (None, c1)
        | (Some (pa, wimg), c1) \<Rightarrow>
            (Some (pa, wimg),
             c1\<lparr>dxlGen := (dxlGen c1)(d := mmuGen c1), dxlPage := (dxlPage c1)(d := page),
                dxlMsr := (dxlMsr c1)(d := msrKey), dxlSr := (dxlSr c1)(d := srKey),
                dxlPa := (dxlPa c1)(d := pa AND NOT 0xFFF), dxlWimg := (dxlWimg c1)(d := wimg)\<rparr>))"

definition leMunge :: "u32 \<Rightarrow> u32 \<Rightarrow> u32" where
  "leMunge ea len = ea XOR (if len = 1 then 7 else if len = 2 then 6 else 4)"

definition dabrFault :: "u32 \<Rightarrow> bool \<Rightarrow> 'b cpu \<Rightarrow> 'b cpu" where
  "dabrFault ea write c =
     raiseExc Dsi (pc (st c) - 4) 0
       (c\<lparr>st := (st c)\<lparr>dar := ea,
          dsisr := (if write then 0x00400000 OR 0x02000000 else 0x00400000)\<rparr>\<rparr>)"

text \<open>One access of the slow paths: translate without the page cache, then read or write.\<close>

definition xlRead :: "u32 \<Rightarrow> u32 \<Rightarrow> 'b cpu \<Rightarrow> u64 option \<times> 'b cpu" where
  "xlRead ea len c =
     (case translate ea False False c of
        (None, c1) \<Rightarrow> (None, c1)
      | (Some (pa, wimg), c1) \<Rightarrow> map_prod Some id (memRead pa len wimg c1))"

definition xlWrite :: "u32 \<Rightarrow> u32 \<Rightarrow> u64 \<Rightarrow> 'b cpu \<Rightarrow> bool \<times> 'b cpu" where
  "xlWrite ea len v c =
     (case translate ea True False c of
        (None, c1) \<Rightarrow> (False, c1)
      | (Some (pa, wimg), c1) \<Rightarrow> (True, memWrite pa len v wimg c1))"

fun readVBytes :: "u32 \<Rightarrow> nat list \<Rightarrow> u64 \<Rightarrow> 'b cpu \<Rightarrow> u64 option \<times> 'b cpu" where
  "readVBytes ea [] out c = (Some out, c)"
| "readVBytes ea (i # is) out c =
     (case xlRead (ea + of_nat i) 1 c of
        (None, c1) \<Rightarrow> (None, c1)
      | (Some x, c1) \<Rightarrow> readVBytes ea is (push_bit 8 out OR x) c1)"

fun writeVBytes :: "u32 \<Rightarrow> nat \<Rightarrow> u64 \<Rightarrow> nat list \<Rightarrow> 'b cpu \<Rightarrow> bool \<times> 'b cpu" where
  "writeVBytes ea len v [] c = (True, c)"
| "writeVBytes ea len v (i # is) c =
     (case xlWrite (ea + of_nat i) 1 (drop_bit (8 * (len - 1 - i)) v AND 0xFF) c of
        (False, c1) \<Rightarrow> (False, c1)
      | (True, c1) \<Rightarrow> writeVBytes ea len v is c1)"

definition readV :: "u32 \<Rightarrow> u32 \<Rightarrow> 'b cpu \<Rightarrow> u64 option \<times> 'b cpu" where
  "readV ea0 len c0 =
     (case leAlignCheck ea0 len c0 of
        (False, c) \<Rightarrow> (None, c)
      | (True, c) \<Rightarrow>
          if dabrHit (st c) ea0 False then (None, dabrFault ea0 False c)
          else if msr (st c) AND MSR_LE \<noteq> 0 \<and> len = 8 then
            (case xlRead (ea0 XOR 4) 4 c of
               (None, c1) \<Rightarrow> (None, c1)
             | (Some hi, c1) \<Rightarrow>
                 (case xlRead ((ea0 + 4) XOR 4) 4 c1 of
                    (None, c2) \<Rightarrow> (None, c2)
                  | (Some lo, c2) \<Rightarrow> (Some (push_bit 32 hi OR lo), c2)))
          else let ea = (if msr (st c) AND MSR_LE \<noteq> 0 then leMunge ea0 len else ea0) in
            if (ea XOR (ea + len - 1)) AND NOT 0xFFF = 0 then
              (case xlateData ea False c of
                 (None, c1) \<Rightarrow> (None, c1)
               | (Some (pa, wimg), c1) \<Rightarrow> map_prod Some id (memRead pa len wimg c1))
            else readVBytes ea [0..<unat len] 0 c)"

definition writeV :: "u32 \<Rightarrow> u32 \<Rightarrow> u64 \<Rightarrow> 'b cpu \<Rightarrow> bool \<times> 'b cpu" where
  "writeV ea0 len v c0 =
     (case leAlignCheck ea0 len c0 of
        (False, c) \<Rightarrow> (False, c)
      | (True, c) \<Rightarrow>
          if dabrHit (st c) ea0 True then (False, dabrFault ea0 True c)
          else if msr (st c) AND MSR_LE \<noteq> 0 \<and> len = 8 then
            (case xlWrite (ea0 XOR 4) 4 (drop_bit 32 v) c of
               (False, c1) \<Rightarrow> (False, c1)
             | (True, c1) \<Rightarrow> xlWrite ((ea0 + 4) XOR 4) 4 (v AND 0xFFFFFFFF) c1)
          else let ea = (if msr (st c) AND MSR_LE \<noteq> 0 then leMunge ea0 len else ea0) in
            if (ea XOR (ea + len - 1)) AND NOT 0xFFF = 0 then
              (case xlateData ea True c of
                 (None, c1) \<Rightarrow> (False, c1)
               | (Some (pa, wimg), c1) \<Rightarrow> (True, memWrite pa len v wimg c1))
            else writeVBytes ea (unat len) v [0..<unat len] c)"

definition readV8 :: "u32 \<Rightarrow> 'b cpu \<Rightarrow> u32 option \<times> 'b cpu" where
  "readV8 ea c = map_prod (map_option ucast) id (readV ea 1 c)"

definition readV16 :: "u32 \<Rightarrow> 'b cpu \<Rightarrow> u32 option \<times> 'b cpu" where
  "readV16 ea c = map_prod (map_option ucast) id (readV ea 2 c)"

definition readV32 :: "u32 \<Rightarrow> 'b cpu \<Rightarrow> u32 option \<times> 'b cpu" where
  "readV32 ea c = map_prod (map_option ucast) id (readV ea 4 c)"

definition writeV8 :: "u32 \<Rightarrow> u32 \<Rightarrow> 'b cpu \<Rightarrow> bool \<times> 'b cpu" where
  "writeV8 ea v = writeV ea 1 (ucast (v AND 0xFF))"

definition writeV16 :: "u32 \<Rightarrow> u32 \<Rightarrow> 'b cpu \<Rightarrow> bool \<times> 'b cpu" where
  "writeV16 ea v = writeV ea 2 (ucast (v AND 0xFFFF))"

definition writeV32 :: "u32 \<Rightarrow> u32 \<Rightarrow> 'b cpu \<Rightarrow> bool \<times> 'b cpu" where
  "writeV32 ea v = writeV ea 4 (ucast v)"

section \<open>Instruction fetch\<close>

definition decodeRow :: "u32 \<Rightarrow> u32" where
  "decodeRow insn = (case decode insn of Some n \<Rightarrow> of_nat n | None \<Rightarrow> kNoRow)"

definition fetchPeek :: "u32 \<Rightarrow> 'b cpu \<Rightarrow> u32 \<times> 'b cpu" where
  "fetchPeek pa c =
     (case l1dPeek32 pa c of
        Some w \<Rightarrow> (w, c)
      | None \<Rightarrow>
          (case l2Peek32 pa c of
             (Some w, c1) \<Rightarrow> (w, c1)
           | (None, c1) \<Rightarrow> busRead32 pa c1))"

definition xlateFetch :: "u32 \<Rightarrow> 'b cpu \<Rightarrow> u32 option \<times> 'b cpu" where
  "xlateFetch ea c =
     (let page = drop_bit 12 ea;
          msrKey = msr (st c) AND (MSR_IR OR MSR_PR OR MSR_LE);
          srKey = sr (st c) (drop_bit 28 ea) in
      if xlGen c = mmuGen c \<and> xlPage c = page \<and> xlMsr c = msrKey \<and> xlSr c = srKey
      then (Some (xlPa c OR (ea AND 0xFFF)), c)
      else case translate ea False True c of
        (None, c1) \<Rightarrow> (None, c1)
      | (Some (pa, _), c1) \<Rightarrow>
          (Some pa, c1\<lparr>xlGen := mmuGen c1, xlPage := page, xlMsr := msrKey, xlSr := srKey,
                       xlPa := pa AND NOT 0xFFF\<rparr>))"

text \<open>The block for a fetch line: the L1's copy, else the L2's, else memory.\<close>

definition fetchRaw :: "u32 \<Rightarrow> 'b cpu \<Rightarrow> (u32 \<Rightarrow> u8) option \<times> 'b cpu" where
  "fetchRaw base c =
     (case l1dReadLine base c of
        Some raw \<Rightarrow> (Some raw, c)
      | None \<Rightarrow>
          (case l2ReadLine base c of
             (Some raw, c1) \<Rightarrow> (Some raw, c1)
           | (None, c1) \<Rightarrow>
               if vmemoryAt (busVt c1) base 32 (busSt c1) then map_prod Some id (busReadLine base c1)
               else (None, c1)))"

definition fillFetchLine :: "u32 \<Rightarrow> (u32 \<Rightarrow> u8) \<Rightarrow> fetch_line \<Rightarrow> fetch_line" where
  "fillFetchLine base raw fl =
     fl\<lparr>flBase := base,
        flW := (\<lambda>k. if k < 8 then word32At raw (k * 4) else flW fl k),
        flRow := (\<lambda>k. if k < 8 then ucast (decodeRow (word32At raw (k * 4))) else flRow fl k)\<rparr>"

definition fetchDecoded :: "u32 \<Rightarrow> 'b cpu \<Rightarrow> (u32 \<times> u32) option \<times> 'b cpu" where
  "fetchDecoded ea0 c =
     (let ea = (if msr (st c) AND MSR_LE \<noteq> 0 then ea0 XOR 4 else ea0) in
      if fetchCacheOff c then
        (case translate ea False True c of
           (None, c1) \<Rightarrow> (None, c1)
         | (Some (pa, _), c1) \<Rightarrow>
             (case fetchPeek pa c1 of (insn, c2) \<Rightarrow> (Some (insn, decodeRow insn), c2)))
      else case xlateFetch ea c of
        (None, c1) \<Rightarrow> (None, c1)
      | (Some pa, c1) \<Rightarrow>
          (let base = pa AND NOT 31; word = drop_bit 2 pa AND 7; slot = fetchSlot pa;
               fl = fetchLine c1 slot in
           if flBase fl = base then (Some (flW fl word, ucast (flRow fl word)), c1)
           else case fetchRaw base c1 of
             (Some raw, c2) \<Rightarrow>
               (let fl' = fillFetchLine base raw (fetchLine c2 slot)
                in (Some (flW fl' word, ucast (flRow fl' word)),
                    c2\<lparr>fetchLine := (fetchLine c2)(slot := fl')\<rparr>))
           | (None, c2) \<Rightarrow>
               (case busRead32 pa (c2\<lparr>fetchLine := (fetchLine c2)(slot := (fetchLine c2 slot)\<lparr>flBase := 1\<rparr>)\<rparr>) of
                  (insn, c3) \<Rightarrow> (Some (insn, decodeRow insn), c3))))"

definition fetch32 :: "u32 \<Rightarrow> 'b cpu \<Rightarrow> u32 option \<times> 'b cpu" where
  "fetch32 ea c = map_prod (map_option fst) id (fetchDecoded ea c)"

end
