(* ===== verification/ExecInt.thy ===== *)
theory ExecInt
  imports Mmu "HOL-Library.Signed_Division"
begin

text \<open>
  The integer, branch and condition-register executors of \<^verbatim>\<open>core/src/exec_int.cpp\<close>.
  A handler takes the processor and the instruction word; the program counter has
  already been advanced past the instruction when it runs. The macros \<^verbatim>\<open>LOGIC\<close> and
  \<^verbatim>\<open>CROP\<close> of the source are the definitions \<^verbatim>\<open>hLogic\<close> and \<^verbatim>\<open>hCrop\<close>, applied to the
  macro's expression.
\<close>

section \<open>Helpers\<close>

definition gpr0 :: "'b cpu \<Rightarrow> u32 \<Rightarrow> u32" where
  "gpr0 c ra = (if ra \<noteq> 0 then gpr (st c) ra else 0)"

definition eaD :: "'b cpu \<Rightarrow> u32 \<Rightarrow> u32" where
  "eaD c insn = gpr0 c (f_ra insn) + sext16 (f_d insn)"

definition eaX :: "'b cpu \<Rightarrow> u32 \<Rightarrow> u32" where
  "eaX c insn = gpr0 c (f_ra insn) + gpr (st c) (f_rb insn)"

definition recordRc :: "u32 \<Rightarrow> u32 \<Rightarrow> 'b cpu \<Rightarrow> 'b cpu" where
  "recordRc insn val c = (if f_rcbit insn \<noteq> 0 then setCr0 val c else c)"

definition addc3 :: "u32 \<Rightarrow> u32 \<Rightarrow> u32 \<Rightarrow> bool \<Rightarrow> bool \<Rightarrow> u32 \<Rightarrow> 'b cpu \<Rightarrow> u32 \<times> 'b cpu" where
  "addc3 a b cin sCa sOv insn c =
     (let s = ucast a + ucast b + ucast cin :: u64;
          r = ucast s :: u32;
          c1 = (if sCa then setCa (drop_bit 32 s \<noteq> 0) c else c);
          c2 = (if sOv \<and> f_oebit insn \<noteq> 0
                then setOv (drop_bit 31 ((a XOR r) AND (b XOR r)) \<noteq> 0) c1 else c1)
      in (r, c2))"

definition crBit :: "'b cpu \<Rightarrow> u32 \<Rightarrow> bool" where
  "crBit c b \<longleftrightarrow> drop_bit (unat (31 - b)) (cr (st c)) AND 1 \<noteq> 0"

definition setCrBit :: "u32 \<Rightarrow> bool \<Rightarrow> 'b cpu \<Rightarrow> 'b cpu" where
  "setCrBit b v =
     (let m = push_bit (unat (31 - b)) 1
      in st_update (cr_update (\<lambda>x. if v then x OR m else x AND NOT m)))"

definition cmpS :: "u32 \<Rightarrow> u32 \<Rightarrow> u32 \<Rightarrow> 'b cpu \<Rightarrow> 'b cpu" where
  "cmpS crf a b c =
     (let f = (if a <s b then 8 else if b <s a then 4 else 2 :: u32)
      in setCrField crf (f OR (drop_bit 31 (xer (st c)) AND 1)) c)"

definition cmpU :: "u32 \<Rightarrow> u32 \<Rightarrow> u32 \<Rightarrow> 'b cpu \<Rightarrow> 'b cpu" where
  "cmpU crf a b c =
     (let f = (if a < b then 8 else if b < a then 4 else 2 :: u32)
      in setCrField crf (f OR (drop_bit 31 (xer (st c)) AND 1)) c)"

definition trapCond :: "u32 \<Rightarrow> u32 \<Rightarrow> u32 \<Rightarrow> bool" where
  "trapCond to a b =
     (if to AND 16 \<noteq> 0 \<and> a <s b then True
      else if to AND 8 \<noteq> 0 \<and> b <s a then True
      else if to AND 4 \<noteq> 0 \<and> a = b then True
      else if to AND 2 \<noteq> 0 \<and> a < b then True
      else if to AND 1 \<noteq> 0 \<and> b < a then True
      else False)"

section \<open>Arithmetic and logic with an immediate\<close>

definition h_addi :: "'b cpu \<Rightarrow> u32 \<Rightarrow> 'b cpu" where
  "h_addi c i = setGpr (f_rt i) (gpr0 c (f_ra i) + sext16 (f_d i)) c"

definition h_addis :: "'b cpu \<Rightarrow> u32 \<Rightarrow> 'b cpu" where
  "h_addis c i = setGpr (f_rt i) (gpr0 c (f_ra i) + push_bit 16 (f_d i)) c"

definition h_addic :: "'b cpu \<Rightarrow> u32 \<Rightarrow> 'b cpu" where
  "h_addic c i =
     (case addc3 (gpr (st c) (f_ra i)) (sext16 (f_d i)) 0 True False i c of
        (r, c1) \<Rightarrow> setGpr (f_rt i) r c1)"

definition h_addicRc :: "'b cpu \<Rightarrow> u32 \<Rightarrow> 'b cpu" where
  "h_addicRc c i =
     (case addc3 (gpr (st c) (f_ra i)) (sext16 (f_d i)) 0 True False i c of
        (r, c1) \<Rightarrow> setCr0 r (setGpr (f_rt i) r c1))"

definition h_subfic :: "'b cpu \<Rightarrow> u32 \<Rightarrow> 'b cpu" where
  "h_subfic c i =
     (case addc3 (NOT (gpr (st c) (f_ra i))) (sext16 (f_d i)) 1 True False i c of
        (r, c1) \<Rightarrow> setGpr (f_rt i) r c1)"

definition h_mulli :: "'b cpu \<Rightarrow> u32 \<Rightarrow> 'b cpu" where
  "h_mulli c i =
     setGpr (f_rt i) (ucast (scast (gpr (st c) (f_ra i)) * scast (sext16 (f_d i)) :: u64)) c"

definition h_ori :: "'b cpu \<Rightarrow> u32 \<Rightarrow> 'b cpu" where
  "h_ori c i = setGpr (f_ra i) (gpr (st c) (f_rt i) OR f_d i) c"

definition h_oris :: "'b cpu \<Rightarrow> u32 \<Rightarrow> 'b cpu" where
  "h_oris c i = setGpr (f_ra i) (gpr (st c) (f_rt i) OR push_bit 16 (f_d i)) c"

definition h_xori :: "'b cpu \<Rightarrow> u32 \<Rightarrow> 'b cpu" where
  "h_xori c i = setGpr (f_ra i) (gpr (st c) (f_rt i) XOR f_d i) c"

definition h_xoris :: "'b cpu \<Rightarrow> u32 \<Rightarrow> 'b cpu" where
  "h_xoris c i = setGpr (f_ra i) (gpr (st c) (f_rt i) XOR push_bit 16 (f_d i)) c"

definition h_andiRc :: "'b cpu \<Rightarrow> u32 \<Rightarrow> 'b cpu" where
  "h_andiRc c i =
     (let r = gpr (st c) (f_rt i) AND f_d i in setCr0 r (setGpr (f_ra i) r c))"

definition h_andisRc :: "'b cpu \<Rightarrow> u32 \<Rightarrow> 'b cpu" where
  "h_andisRc c i =
     (let r = gpr (st c) (f_rt i) AND push_bit 16 (f_d i) in setCr0 r (setGpr (f_ra i) r c))"

section \<open>Compares and traps\<close>

definition h_cmpi :: "'b cpu \<Rightarrow> u32 \<Rightarrow> 'b cpu" where
  "h_cmpi c i = cmpS (f_crfd i) (gpr (st c) (f_ra i)) (sext16 (f_d i)) c"

definition h_cmpli :: "'b cpu \<Rightarrow> u32 \<Rightarrow> 'b cpu" where
  "h_cmpli c i = cmpU (f_crfd i) (gpr (st c) (f_ra i)) (f_d i) c"

definition h_cmp :: "'b cpu \<Rightarrow> u32 \<Rightarrow> 'b cpu" where
  "h_cmp c i = cmpS (f_crfd i) (gpr (st c) (f_ra i)) (gpr (st c) (f_rb i)) c"

definition h_cmpl :: "'b cpu \<Rightarrow> u32 \<Rightarrow> 'b cpu" where
  "h_cmpl c i = cmpU (f_crfd i) (gpr (st c) (f_ra i)) (gpr (st c) (f_rb i)) c"

definition h_twi :: "'b cpu \<Rightarrow> u32 \<Rightarrow> 'b cpu" where
  "h_twi c i =
     (if trapCond (f_to i) (gpr (st c) (f_ra i)) (sext16 (f_d i))
      then raiseExc Program (pc (st c) - 4) kSrr1ProgTrap c else c)"

definition h_tw :: "'b cpu \<Rightarrow> u32 \<Rightarrow> 'b cpu" where
  "h_tw c i =
     (if trapCond (f_to i) (gpr (st c) (f_ra i)) (gpr (st c) (f_rb i))
      then raiseExc Program (pc (st c) - 4) kSrr1ProgTrap c else c)"

section \<open>Rotates\<close>

definition rotl :: "u32 \<Rightarrow> u32 \<Rightarrow> u32" where
  "rotl v n = word_rotl (unat (n AND 31)) v"

definition h_rlwinm :: "'b cpu \<Rightarrow> u32 \<Rightarrow> 'b cpu" where
  "h_rlwinm c i =
     (let r = rotl (gpr (st c) (f_rt i)) (f_sh i) AND ppcmask (f_mb i) (f_me i)
      in recordRc i r (setGpr (f_ra i) r c))"

definition h_rlwnm :: "'b cpu \<Rightarrow> u32 \<Rightarrow> 'b cpu" where
  "h_rlwnm c i =
     (let r = rotl (gpr (st c) (f_rt i)) (gpr (st c) (f_rb i) AND 31) AND ppcmask (f_mb i) (f_me i)
      in recordRc i r (setGpr (f_ra i) r c))"

definition h_rlwimi :: "'b cpu \<Rightarrow> u32 \<Rightarrow> 'b cpu" where
  "h_rlwimi c i =
     (let m = ppcmask (f_mb i) (f_me i);
          r = (rotl (gpr (st c) (f_rt i)) (f_sh i) AND m) OR (gpr (st c) (f_ra i) AND NOT m)
      in recordRc i r (setGpr (f_ra i) r c))"

section \<open>Branches\<close>

abbreviation setLr :: "u32 \<Rightarrow> 'b cpu \<Rightarrow> 'b cpu" where
  "setLr v \<equiv> st_update (lr_update (\<lambda>_. v))"

definition h_b :: "'b cpu \<Rightarrow> u32 \<Rightarrow> 'b cpu" where
  "h_b c i =
     (let cia = pc (st c) - 4;
          disp = sext26 (push_bit 2 (ppcbits i 6 29));
          c1 = (if f_lkbit i \<noteq> 0 then setLr (pc (st c)) c else c)
      in setPc (if f_aabit i \<noteq> 0 then disp else cia + disp) c1)"

definition bcTaken :: "u32 \<Rightarrow> u32 \<Rightarrow> 'b cpu \<Rightarrow> bool \<times> 'b cpu" where
  "bcTaken bo bi c =
     (let c1 = (if bo AND 4 = 0 then st_update (ctr_update (\<lambda>x. x - 1)) c else c);
          ctrOk = (bo AND 4 \<noteq> 0 \<or> (ctr (st c1) \<noteq> 0) \<noteq> (bo AND 2 \<noteq> 0));
          condOk = (bo AND 16 \<noteq> 0 \<or> crBit c1 bi = (bo AND 8 \<noteq> 0))
      in (ctrOk \<and> condOk, c1))"

definition h_bc :: "'b cpu \<Rightarrow> u32 \<Rightarrow> 'b cpu" where
  "h_bc c i =
     (let cia = pc (st c) - 4 in
      case bcTaken (ppcbits i 6 10) (ppcbits i 11 15) c of (taken, c1) \<Rightarrow>
        (let c2 = (if f_lkbit i \<noteq> 0 then setLr (pc (st c1)) c1 else c1);
             disp = sext14 (ppcbits i 16 29) * 4
         in if taken then setPc (if f_aabit i \<noteq> 0 then disp else cia + disp) c2 else c2))"

definition h_bclr :: "'b cpu \<Rightarrow> u32 \<Rightarrow> 'b cpu" where
  "h_bclr c i =
     (let target = lr (st c) AND NOT 3 in
      case bcTaken (ppcbits i 6 10) (ppcbits i 11 15) c of (taken, c1) \<Rightarrow>
        (let c2 = (if f_lkbit i \<noteq> 0 then setLr (pc (st c1)) c1 else c1)
         in if taken then setPc target c2 else c2))"

definition h_bcctr :: "'b cpu \<Rightarrow> u32 \<Rightarrow> 'b cpu" where
  "h_bcctr c i =
     (let bo = ppcbits i 6 10;
          condOk = (bo AND 16 \<noteq> 0 \<or> crBit c (ppcbits i 11 15) = (bo AND 8 \<noteq> 0));
          c1 = (if f_lkbit i \<noteq> 0 then setLr (pc (st c)) c else c)
      in if condOk then setPc (ctr (st c1) AND NOT 3) c1 else c1)"

definition h_sc :: "'b cpu \<Rightarrow> u32 \<Rightarrow> 'b cpu" where
  "h_sc c i = raiseExc SystemCall (pc (st c)) 0 c"

section \<open>Register arithmetic\<close>

text \<open>The common tail: write \<^verbatim>\<open>rD\<close>, then CR0 if the record bit is set.\<close>

definition xoResult :: "u32 \<Rightarrow> u32 \<times> 'b cpu \<Rightarrow> 'b cpu" where
  "xoResult i rc = (case rc of (r, c) \<Rightarrow> recordRc i r (setGpr (f_rt i) r c))"

definition caIn :: "'b cpu \<Rightarrow> u32" where
  "caIn c = (if ca c then 1 else 0)"

definition h_add :: "'b cpu \<Rightarrow> u32 \<Rightarrow> 'b cpu" where
  "h_add c i = xoResult i (addc3 (gpr (st c) (f_ra i)) (gpr (st c) (f_rb i)) 0 False True i c)"
definition h_addc :: "'b cpu \<Rightarrow> u32 \<Rightarrow> 'b cpu" where
  "h_addc c i = xoResult i (addc3 (gpr (st c) (f_ra i)) (gpr (st c) (f_rb i)) 0 True True i c)"
definition h_adde :: "'b cpu \<Rightarrow> u32 \<Rightarrow> 'b cpu" where
  "h_adde c i = xoResult i (addc3 (gpr (st c) (f_ra i)) (gpr (st c) (f_rb i)) (caIn c) True True i c)"
definition h_addme :: "'b cpu \<Rightarrow> u32 \<Rightarrow> 'b cpu" where
  "h_addme c i = xoResult i (addc3 (gpr (st c) (f_ra i)) 0xFFFFFFFF (caIn c) True True i c)"
definition h_addze :: "'b cpu \<Rightarrow> u32 \<Rightarrow> 'b cpu" where
  "h_addze c i = xoResult i (addc3 (gpr (st c) (f_ra i)) 0 (caIn c) True True i c)"
definition h_subf :: "'b cpu \<Rightarrow> u32 \<Rightarrow> 'b cpu" where
  "h_subf c i = xoResult i (addc3 (NOT (gpr (st c) (f_ra i))) (gpr (st c) (f_rb i)) 1 False True i c)"
definition h_subfc :: "'b cpu \<Rightarrow> u32 \<Rightarrow> 'b cpu" where
  "h_subfc c i = xoResult i (addc3 (NOT (gpr (st c) (f_ra i))) (gpr (st c) (f_rb i)) 1 True True i c)"
definition h_subfe :: "'b cpu \<Rightarrow> u32 \<Rightarrow> 'b cpu" where
  "h_subfe c i =
     xoResult i (addc3 (NOT (gpr (st c) (f_ra i))) (gpr (st c) (f_rb i)) (caIn c) True True i c)"
definition h_subfme :: "'b cpu \<Rightarrow> u32 \<Rightarrow> 'b cpu" where
  "h_subfme c i = xoResult i (addc3 (NOT (gpr (st c) (f_ra i))) 0xFFFFFFFF (caIn c) True True i c)"
definition h_subfze :: "'b cpu \<Rightarrow> u32 \<Rightarrow> 'b cpu" where
  "h_subfze c i = xoResult i (addc3 (NOT (gpr (st c) (f_ra i))) 0 (caIn c) True True i c)"

definition ovIfOe :: "u32 \<Rightarrow> bool \<Rightarrow> 'b cpu \<Rightarrow> 'b cpu" where
  "ovIfOe i ov c = (if f_oebit i \<noteq> 0 then setOv ov c else c)"

definition h_neg :: "'b cpu \<Rightarrow> u32 \<Rightarrow> 'b cpu" where
  "h_neg c i =
     (let a = gpr (st c) (f_ra i) in xoResult i (0 - a, ovIfOe i (a = 0x80000000) c))"

definition h_mullw :: "'b cpu \<Rightarrow> u32 \<Rightarrow> 'b cpu" where
  "h_mullw c i =
     (let p = scast (gpr (st c) (f_ra i)) * scast (gpr (st c) (f_rb i)) :: u64;
          r = ucast p :: u32
      in xoResult i (r, ovIfOe i (p \<noteq> scast r) c))"

definition h_mulhw :: "'b cpu \<Rightarrow> u32 \<Rightarrow> 'b cpu" where
  "h_mulhw c i =
     (let p = scast (gpr (st c) (f_ra i)) * scast (gpr (st c) (f_rb i)) :: u64
      in xoResult i (ucast (drop_bit 32 p), c))"

definition h_mulhwu :: "'b cpu \<Rightarrow> u32 \<Rightarrow> 'b cpu" where
  "h_mulhwu c i =
     (let p = ucast (gpr (st c) (f_ra i)) * ucast (gpr (st c) (f_rb i)) :: u64
      in xoResult i (ucast (drop_bit 32 p), c))"

definition h_divw :: "'b cpu \<Rightarrow> u32 \<Rightarrow> 'b cpu" where
  "h_divw c i =
     (let a = gpr (st c) (f_ra i); b = gpr (st c) (f_rb i);
          bad = (b = 0 \<or> a = 0x80000000 \<and> b = 0xFFFFFFFF);
          r = (if bad then 0 else word_of_int (sint a sdiv sint b))
      in xoResult i (r, ovIfOe i bad c))"

definition h_divwu :: "'b cpu \<Rightarrow> u32 \<Rightarrow> 'b cpu" where
  "h_divwu c i =
     (let a = gpr (st c) (f_ra i); b = gpr (st c) (f_rb i);
          bad = (b = 0);
          r = (if bad then 0 else a div b)
      in xoResult i (r, ovIfOe i bad c))"

section \<open>Logic, shifts, extensions\<close>

definition raResult :: "u32 \<Rightarrow> u32 \<Rightarrow> 'b cpu \<Rightarrow> 'b cpu" where
  "raResult i r c = recordRc i r (setGpr (f_ra i) r c)"

definition hLogic :: "(u32 \<Rightarrow> u32 \<Rightarrow> u32) \<Rightarrow> 'b cpu \<Rightarrow> u32 \<Rightarrow> 'b cpu" where
  "hLogic f c i = raResult i (f (gpr (st c) (f_rt i)) (gpr (st c) (f_rb i))) c"

definition h_and :: "'b cpu \<Rightarrow> u32 \<Rightarrow> 'b cpu" where "h_and = hLogic (\<lambda>s b. s AND b)"
definition h_andcx :: "'b cpu \<Rightarrow> u32 \<Rightarrow> 'b cpu" where "h_andcx = hLogic (\<lambda>s b. s AND NOT b)"
definition h_or :: "'b cpu \<Rightarrow> u32 \<Rightarrow> 'b cpu" where "h_or = hLogic (\<lambda>s b. s OR b)"
definition h_orc :: "'b cpu \<Rightarrow> u32 \<Rightarrow> 'b cpu" where "h_orc = hLogic (\<lambda>s b. s OR NOT b)"
definition h_xor :: "'b cpu \<Rightarrow> u32 \<Rightarrow> 'b cpu" where "h_xor = hLogic (\<lambda>s b. s XOR b)"
definition h_eqv :: "'b cpu \<Rightarrow> u32 \<Rightarrow> 'b cpu" where "h_eqv = hLogic (\<lambda>s b. NOT (s XOR b))"
definition h_nor :: "'b cpu \<Rightarrow> u32 \<Rightarrow> 'b cpu" where "h_nor = hLogic (\<lambda>s b. NOT (s OR b))"
definition h_nand :: "'b cpu \<Rightarrow> u32 \<Rightarrow> 'b cpu" where "h_nand = hLogic (\<lambda>s b. NOT (s AND b))"

definition h_slw :: "'b cpu \<Rightarrow> u32 \<Rightarrow> 'b cpu" where
  "h_slw c i =
     (let n = gpr (st c) (f_rb i) AND 63
      in raResult i (if 32 \<le> n then 0 else push_bit (unat n) (gpr (st c) (f_rt i))) c)"

definition h_srw :: "'b cpu \<Rightarrow> u32 \<Rightarrow> 'b cpu" where
  "h_srw c i =
     (let n = gpr (st c) (f_rb i) AND 63
      in raResult i (if 32 \<le> n then 0 else drop_bit (unat n) (gpr (st c) (f_rt i))) c)"

text \<open>The carry of an arithmetic right shift by \<open>n\<close>: a negative value losing one bits.\<close>

definition sraCarry :: "u32 \<Rightarrow> u32 \<Rightarrow> bool" where
  "sraCarry s n \<longleftrightarrow> s <s 0 \<and> n \<noteq> 0 \<and> s AND (push_bit (unat n) 1 - 1) \<noteq> 0"

definition h_sraw :: "'b cpu \<Rightarrow> u32 \<Rightarrow> 'b cpu" where
  "h_sraw c i =
     (let n = gpr (st c) (f_rb i) AND 63; s = gpr (st c) (f_rt i) in
      if 32 \<le> n then raResult i (signed_drop_bit 31 s) (setCa (s <s 0) c)
      else raResult i (signed_drop_bit (unat n) s) (setCa (sraCarry s n) c))"

definition h_srawi :: "'b cpu \<Rightarrow> u32 \<Rightarrow> 'b cpu" where
  "h_srawi c i =
     (let n = f_sh i; s = gpr (st c) (f_rt i)
      in raResult i (signed_drop_bit (unat n) s) (setCa (sraCarry s n) c))"

definition countl_zero :: "u32 \<Rightarrow> nat" where
  "countl_zero v = length (takeWhile (\<lambda>k. \<not> bit v k) (rev [0..<32]))"

definition h_cntlzw :: "'b cpu \<Rightarrow> u32 \<Rightarrow> 'b cpu" where
  "h_cntlzw c i = raResult i (of_nat (countl_zero (gpr (st c) (f_rt i)))) c"

definition h_extsb :: "'b cpu \<Rightarrow> u32 \<Rightarrow> 'b cpu" where
  "h_extsb c i = raResult i (scast (ucast (gpr (st c) (f_rt i)) :: u8)) c"

definition h_extsh :: "'b cpu \<Rightarrow> u32 \<Rightarrow> 'b cpu" where
  "h_extsh c i = raResult i (scast (ucast (gpr (st c) (f_rt i)) :: u16)) c"

section \<open>Condition register\<close>

definition h_mcrf :: "'b cpu \<Rightarrow> u32 \<Rightarrow> 'b cpu" where
  "h_mcrf c i = setCrField (f_crfd i) (crField c (f_crfs i)) c"

definition hCrop :: "(bool \<Rightarrow> bool \<Rightarrow> bool) \<Rightarrow> 'b cpu \<Rightarrow> u32 \<Rightarrow> 'b cpu" where
  "hCrop f c i = setCrBit (f_rt i) (f (crBit c (f_ra i)) (crBit c (f_rb i))) c"

definition h_crand :: "'b cpu \<Rightarrow> u32 \<Rightarrow> 'b cpu" where "h_crand = hCrop (\<lambda>a b. a \<and> b)"
definition h_cror :: "'b cpu \<Rightarrow> u32 \<Rightarrow> 'b cpu" where "h_cror = hCrop (\<lambda>a b. a \<or> b)"
definition h_crxor :: "'b cpu \<Rightarrow> u32 \<Rightarrow> 'b cpu" where "h_crxor = hCrop (\<lambda>a b. a \<noteq> b)"
definition h_crnand :: "'b cpu \<Rightarrow> u32 \<Rightarrow> 'b cpu" where "h_crnand = hCrop (\<lambda>a b. \<not> (a \<and> b))"
definition h_crnor :: "'b cpu \<Rightarrow> u32 \<Rightarrow> 'b cpu" where "h_crnor = hCrop (\<lambda>a b. \<not> (a \<or> b))"
definition h_creqv :: "'b cpu \<Rightarrow> u32 \<Rightarrow> 'b cpu" where "h_creqv = hCrop (\<lambda>a b. a = b)"
definition h_crandc :: "'b cpu \<Rightarrow> u32 \<Rightarrow> 'b cpu" where "h_crandc = hCrop (\<lambda>a b. a \<and> \<not> b)"
definition h_crorc :: "'b cpu \<Rightarrow> u32 \<Rightarrow> 'b cpu" where "h_crorc = hCrop (\<lambda>a b. a \<or> \<not> b)"

definition h_mfcr :: "'b cpu \<Rightarrow> u32 \<Rightarrow> 'b cpu" where
  "h_mfcr c i = setGpr (f_rt i) (cr (st c)) c"

definition mtcrfField :: "u32 \<Rightarrow> u32 \<Rightarrow> u32 \<Rightarrow> u32 \<Rightarrow> u32" where
  "mtcrfField crm v f x =
     (if crm AND drop_bit (unat f) 0x80 \<noteq> 0
      then let m = push_bit (unat ((7 - f) * 4)) 0xF in (x AND NOT m) OR (v AND m)
      else x)"

definition h_mtcrf :: "'b cpu \<Rightarrow> u32 \<Rightarrow> 'b cpu" where
  "h_mtcrf c i =
     st_update (cr_update (fold (mtcrfField (f_crm i) (gpr (st c) (f_rt i))) [0, 1, 2, 3, 4, 5, 6, 7])) c"

definition h_mcrxr :: "'b cpu \<Rightarrow> u32 \<Rightarrow> 'b cpu" where
  "h_mcrxr c i =
     st_update (xer_update (\<lambda>x. x AND 0x0FFFFFFF)) (setCrField (f_crfd i) (drop_bit 28 (xer (st c))) c)"

end
