(* ===== verification/ExecMem.thy ===== *)
theory ExecMem
  imports ExecInt
begin

text \<open>
  The load and store executors of \<^verbatim>\<open>core/src/exec_int.cpp\<close>: the scalar forms (the macros
  \<^verbatim>\<open>LOAD\<close>, \<^verbatim>\<open>LOADU\<close>, \<^verbatim>\<open>FLOAD\<close> and \<^verbatim>\<open>FSTORE\<close> are \<^verbatim>\<open>hLoad\<close>, \<^verbatim>\<open>hLoadU\<close>, \<^verbatim>\<open>hFload\<close> and
  \<^verbatim>\<open>hFstore\<close>), the byte-reversed, multiple and string forms, the reservation pair and
  external control; and the single-precision conversions of \<^verbatim>\<open>core/src/softfp.cpp\<close>
  the floating-point forms use.
\<close>

section \<open>Scalar loads\<close>

definition hLoad :: "('b cpu \<Rightarrow> u32 \<Rightarrow> u32) \<Rightarrow> (u32 \<Rightarrow> 'b cpu \<Rightarrow> u32 option \<times> 'b cpu) \<Rightarrow> (u32 \<Rightarrow> u32)
    \<Rightarrow> 'b cpu \<Rightarrow> u32 \<Rightarrow> 'b cpu" where
  "hLoad eakind reader xf c i =
     (case reader (eakind c i) c of
        (None, c1) \<Rightarrow> c1
      | (Some v, c1) \<Rightarrow> setGpr (f_rt i) (xf v) c1)"

definition h_lwz :: "'b cpu \<Rightarrow> u32 \<Rightarrow> 'b cpu" where "h_lwz = hLoad eaD readV32 (\<lambda>v. v)"
definition h_lbz :: "'b cpu \<Rightarrow> u32 \<Rightarrow> 'b cpu" where "h_lbz = hLoad eaD readV8 (\<lambda>v. v)"
definition h_lhz :: "'b cpu \<Rightarrow> u32 \<Rightarrow> 'b cpu" where "h_lhz = hLoad eaD readV16 (\<lambda>v. v)"
definition h_lha :: "'b cpu \<Rightarrow> u32 \<Rightarrow> 'b cpu" where "h_lha = hLoad eaD readV16 sext16"
definition h_lwzx :: "'b cpu \<Rightarrow> u32 \<Rightarrow> 'b cpu" where "h_lwzx = hLoad eaX readV32 (\<lambda>v. v)"
definition h_lbzx :: "'b cpu \<Rightarrow> u32 \<Rightarrow> 'b cpu" where "h_lbzx = hLoad eaX readV8 (\<lambda>v. v)"
definition h_lhzx :: "'b cpu \<Rightarrow> u32 \<Rightarrow> 'b cpu" where "h_lhzx = hLoad eaX readV16 (\<lambda>v. v)"
definition h_lhax :: "'b cpu \<Rightarrow> u32 \<Rightarrow> 'b cpu" where "h_lhax = hLoad eaX readV16 sext16"

definition updRa :: "u32 \<Rightarrow> u32 \<Rightarrow> 'b cpu \<Rightarrow> 'b cpu" where
  "updRa insn ea = setGpr (f_ra insn) ea"

definition raiseAlign :: "u32 \<Rightarrow> u32 \<Rightarrow> 'b cpu \<Rightarrow> 'b cpu" where
  "raiseAlign insn ea c =
     raiseExc Alignment (pc (st c) - 4) 0 (c\<lparr>st := (st c)\<lparr>dar := ea, dsisr := alignDsisr insn\<rparr>\<rparr>)"

definition hLoadU :: "('b cpu \<Rightarrow> u32 \<Rightarrow> u32) \<Rightarrow> (u32 \<Rightarrow> 'b cpu \<Rightarrow> u32 option \<times> 'b cpu) \<Rightarrow> (u32 \<Rightarrow> u32)
    \<Rightarrow> 'b cpu \<Rightarrow> u32 \<Rightarrow> 'b cpu" where
  "hLoadU eakind reader xf c i =
     (let ea = eakind c i in
      case reader ea c of
        (None, c1) \<Rightarrow> c1
      | (Some v, c1) \<Rightarrow> updRa i ea (setGpr (f_rt i) (xf v) c1))"

definition h_lwzu :: "'b cpu \<Rightarrow> u32 \<Rightarrow> 'b cpu" where "h_lwzu = hLoadU eaD readV32 (\<lambda>v. v)"
definition h_lbzu :: "'b cpu \<Rightarrow> u32 \<Rightarrow> 'b cpu" where "h_lbzu = hLoadU eaD readV8 (\<lambda>v. v)"
definition h_lhzu :: "'b cpu \<Rightarrow> u32 \<Rightarrow> 'b cpu" where "h_lhzu = hLoadU eaD readV16 (\<lambda>v. v)"
definition h_lhau :: "'b cpu \<Rightarrow> u32 \<Rightarrow> 'b cpu" where "h_lhau = hLoadU eaD readV16 sext16"
definition h_lwzux :: "'b cpu \<Rightarrow> u32 \<Rightarrow> 'b cpu" where "h_lwzux = hLoadU eaX readV32 (\<lambda>v. v)"
definition h_lbzux :: "'b cpu \<Rightarrow> u32 \<Rightarrow> 'b cpu" where "h_lbzux = hLoadU eaX readV8 (\<lambda>v. v)"
definition h_lhzux :: "'b cpu \<Rightarrow> u32 \<Rightarrow> 'b cpu" where "h_lhzux = hLoadU eaX readV16 (\<lambda>v. v)"
definition h_lhaux :: "'b cpu \<Rightarrow> u32 \<Rightarrow> 'b cpu" where "h_lhaux = hLoadU eaX readV16 sext16"

section \<open>Scalar stores\<close>

definition hStore :: "('b cpu \<Rightarrow> u32 \<Rightarrow> u32) \<Rightarrow> (u32 \<Rightarrow> u32 \<Rightarrow> 'b cpu \<Rightarrow> bool \<times> 'b cpu)
    \<Rightarrow> 'b cpu \<Rightarrow> u32 \<Rightarrow> 'b cpu" where
  "hStore eakind writer c i = snd (writer (eakind c i) (gpr (st c) (f_rt i)) c)"

definition hStoreU :: "('b cpu \<Rightarrow> u32 \<Rightarrow> u32) \<Rightarrow> (u32 \<Rightarrow> u32 \<Rightarrow> 'b cpu \<Rightarrow> bool \<times> 'b cpu)
    \<Rightarrow> 'b cpu \<Rightarrow> u32 \<Rightarrow> 'b cpu" where
  "hStoreU eakind writer c i =
     (let ea = eakind c i in
      case writer ea (gpr (st c) (f_rt i)) c of
        (True, c1) \<Rightarrow> updRa i ea c1
      | (False, c1) \<Rightarrow> c1)"

definition h_stw :: "'b cpu \<Rightarrow> u32 \<Rightarrow> 'b cpu" where "h_stw = hStore eaD writeV32"
definition h_stb :: "'b cpu \<Rightarrow> u32 \<Rightarrow> 'b cpu" where "h_stb = hStore eaD writeV8"
definition h_sth :: "'b cpu \<Rightarrow> u32 \<Rightarrow> 'b cpu" where "h_sth = hStore eaD writeV16"
definition h_stwx :: "'b cpu \<Rightarrow> u32 \<Rightarrow> 'b cpu" where "h_stwx = hStore eaX writeV32"
definition h_stbx :: "'b cpu \<Rightarrow> u32 \<Rightarrow> 'b cpu" where "h_stbx = hStore eaX writeV8"
definition h_sthx :: "'b cpu \<Rightarrow> u32 \<Rightarrow> 'b cpu" where "h_sthx = hStore eaX writeV16"
definition h_stwu :: "'b cpu \<Rightarrow> u32 \<Rightarrow> 'b cpu" where "h_stwu = hStoreU eaD writeV32"
definition h_stbu :: "'b cpu \<Rightarrow> u32 \<Rightarrow> 'b cpu" where "h_stbu = hStoreU eaD writeV8"
definition h_sthu :: "'b cpu \<Rightarrow> u32 \<Rightarrow> 'b cpu" where "h_sthu = hStoreU eaD writeV16"
definition h_stwux :: "'b cpu \<Rightarrow> u32 \<Rightarrow> 'b cpu" where "h_stwux = hStoreU eaX writeV32"
definition h_stbux :: "'b cpu \<Rightarrow> u32 \<Rightarrow> 'b cpu" where "h_stbux = hStoreU eaX writeV8"
definition h_sthux :: "'b cpu \<Rightarrow> u32 \<Rightarrow> 'b cpu" where "h_sthux = hStoreU eaX writeV16"

section \<open>Byte-reversed forms\<close>

definition byteRev16 :: "u32 \<Rightarrow> u32" where
  "byteRev16 v = push_bit 8 (v AND 0xFF) OR (drop_bit 8 v AND 0xFF)"

definition h_lwbrx :: "'b cpu \<Rightarrow> u32 \<Rightarrow> 'b cpu" where
  "h_lwbrx = hLoad eaX readV32 bswap32"

definition h_lhbrx :: "'b cpu \<Rightarrow> u32 \<Rightarrow> 'b cpu" where
  "h_lhbrx = hLoad eaX readV16 byteRev16"

definition h_stwbrx :: "'b cpu \<Rightarrow> u32 \<Rightarrow> 'b cpu" where
  "h_stwbrx c i = snd (writeV32 (eaX c i) (bswap32 (gpr (st c) (f_rt i))) c)"

definition h_sthbrx :: "'b cpu \<Rightarrow> u32 \<Rightarrow> 'b cpu" where
  "h_sthbrx c i = snd (writeV16 (eaX c i) (byteRev16 (gpr (st c) (f_rt i))) c)"

section \<open>Multiples and strings\<close>

text \<open>The registers from \<open>r\<close> to 31, the loop variable of the multiple forms.\<close>

definition regsFrom :: "u32 \<Rightarrow> u32 list" where
  "regsFrom r = map of_nat [unat r..<32]"

fun lmwLoop :: "u32 list \<Rightarrow> u32 \<Rightarrow> 'b cpu \<Rightarrow> 'b cpu" where
  "lmwLoop [] ea c = c"
| "lmwLoop (r # rs) ea c =
     (case readV32 ea c of
        (None, c1) \<Rightarrow> c1
      | (Some v, c1) \<Rightarrow> lmwLoop rs (ea + 4) (setGpr r v c1))"

definition h_lmw :: "'b cpu \<Rightarrow> u32 \<Rightarrow> 'b cpu" where
  "h_lmw c i =
     (let ea = eaD c i in
      if ea AND 3 \<noteq> 0 \<or> msr (st c) AND MSR_LE \<noteq> 0 then raiseAlign i ea c
      else lmwLoop (regsFrom (f_rt i)) ea c)"

fun stmwLoop :: "u32 list \<Rightarrow> u32 \<Rightarrow> 'b cpu \<Rightarrow> 'b cpu" where
  "stmwLoop [] ea c = c"
| "stmwLoop (r # rs) ea c =
     (case writeV32 ea (gpr (st c) r) c of
        (False, c1) \<Rightarrow> c1
      | (True, c1) \<Rightarrow> stmwLoop rs (ea + 4) c1)"

definition h_stmw :: "'b cpu \<Rightarrow> u32 \<Rightarrow> 'b cpu" where
  "h_stmw c i =
     (let ea = eaD c i in
      if ea AND 3 \<noteq> 0 \<or> msr (st c) AND MSR_LE \<noteq> 0 then raiseAlign i ea c
      else stmwLoop (regsFrom (f_rt i)) ea c)"

fun loadStringLoop :: "nat \<Rightarrow> u32 \<Rightarrow> nat \<Rightarrow> u32 \<Rightarrow> 'b cpu \<Rightarrow> 'b cpu" where
  "loadStringLoop 0 r sh ea c = c"
| "loadStringLoop (Suc n) r sh ea c =
     (case readV8 ea c of
        (None, c1) \<Rightarrow> c1
      | (Some v, c1) \<Rightarrow>
          (let c2 = setGpr r (gpr (st c1) r OR push_bit sh v) c1 in
           if sh = 0 then
             (let r' = (r + 1) AND 31; c3 = (if n \<noteq> 0 then setGpr r' 0 c2 else c2)
              in loadStringLoop n r' 24 (ea + 1) c3)
           else loadStringLoop n r (sh - 8) (ea + 1) c2))"

definition loadString :: "u32 \<Rightarrow> u32 \<Rightarrow> u32 \<Rightarrow> 'b cpu \<Rightarrow> 'b cpu" where
  "loadString rt ea n c = loadStringLoop (unat n) rt 24 ea (if n \<noteq> 0 then setGpr rt 0 c else c)"

fun storeStringLoop :: "nat \<Rightarrow> u32 \<Rightarrow> nat \<Rightarrow> u32 \<Rightarrow> 'b cpu \<Rightarrow> 'b cpu" where
  "storeStringLoop 0 r sh ea c = c"
| "storeStringLoop (Suc n) r sh ea c =
     (case writeV8 ea (drop_bit sh (gpr (st c) r)) c of
        (False, c1) \<Rightarrow> c1
      | (True, c1) \<Rightarrow>
          (if sh = 0 then storeStringLoop n ((r + 1) AND 31) 24 (ea + 1) c1
           else storeStringLoop n r (sh - 8) (ea + 1) c1))"

definition storeString :: "u32 \<Rightarrow> u32 \<Rightarrow> u32 \<Rightarrow> 'b cpu \<Rightarrow> 'b cpu" where
  "storeString rs ea n c = storeStringLoop (unat n) rs 24 ea c"

definition leStringFault :: "u32 \<Rightarrow> u32 \<Rightarrow> 'b cpu \<Rightarrow> bool \<times> 'b cpu" where
  "leStringFault i ea c =
     (if msr (st c) AND MSR_LE = 0 then (False, c) else (True, raiseAlign i ea c))"

definition h_lswi :: "'b cpu \<Rightarrow> u32 \<Rightarrow> 'b cpu" where
  "h_lswi c i =
     (let ea = gpr0 c (f_ra i) in
      case leStringFault i ea c of
        (True, c1) \<Rightarrow> c1
      | (False, c1) \<Rightarrow> loadString (f_rt i) ea (if f_nb i \<noteq> 0 then f_nb i else 32) c1)"

definition h_stswi :: "'b cpu \<Rightarrow> u32 \<Rightarrow> 'b cpu" where
  "h_stswi c i =
     (let ea = gpr0 c (f_ra i) in
      case leStringFault i ea c of
        (True, c1) \<Rightarrow> c1
      | (False, c1) \<Rightarrow> storeString (f_rt i) ea (if f_nb i \<noteq> 0 then f_nb i else 32) c1)"

definition h_lswx :: "'b cpu \<Rightarrow> u32 \<Rightarrow> 'b cpu" where
  "h_lswx c i =
     (let ea = eaX c i in
      case leStringFault i ea c of
        (True, c1) \<Rightarrow> c1
      | (False, c1) \<Rightarrow> loadString (f_rt i) ea (xer (st c1) AND 0x7F) c1)"

definition h_stswx :: "'b cpu \<Rightarrow> u32 \<Rightarrow> 'b cpu" where
  "h_stswx c i =
     (let ea = eaX c i in
      case leStringFault i ea c of
        (True, c1) \<Rightarrow> c1
      | (False, c1) \<Rightarrow> storeString (f_rt i) ea (xer (st c1) AND 0x7F) c1)"

section \<open>Floating-point loads and stores\<close>

definition loadSingle :: "u32 \<Rightarrow> u64" where
  "loadSingle w =
     (let s = push_bit 63 (ucast (drop_bit 31 w)) :: u64;
          e = drop_bit 23 w AND 0xFF;
          frac = w AND 0x7FFFFF in
      if e = 255 then s OR 0x7FF0000000000000 OR push_bit 29 (ucast frac)
      else if e = 0 then
        (if frac = 0 then s
         else let m = 31 - countl_zero frac;
                  vexp = int m - 149;
                  mant = push_bit (52 - m) (ucast frac) AND 0x000FFFFFFFFFFFFF
              in s OR push_bit 52 (word_of_int (vexp + 1023)) OR mant)
      else s OR push_bit 52 (ucast (e + 896)) OR push_bit 29 (ucast frac))"

definition storeSingle :: "u64 \<Rightarrow> u32" where
  "storeSingle f =
     (let sgn = push_bit 31 (ucast (drop_bit 63 f)) :: u32;
          e = ucast (drop_bit 52 f) AND 0x7FF :: u32 in
      if 896 < e \<or> f AND 0x7FFFFFFFFFFFFFFF = 0
      then push_bit 30 (ucast (drop_bit 62 f)) OR (ucast (drop_bit 29 f) AND 0x3FFFFFFF)
      else if 874 \<le> e then
        (let frac = push_bit 52 1 OR (f AND 0x000FFFFFFFFFFFFF);
             sh = 896 + 1 - e
         in sgn OR (ucast (drop_bit (unat (sh + 29)) frac) AND 0x7FFFFF))
      else sgn)"

definition hFload :: "('b cpu \<Rightarrow> u32 \<Rightarrow> u32) \<Rightarrow> (u64 \<Rightarrow> u64) \<Rightarrow> u32 \<Rightarrow> bool \<Rightarrow> 'b cpu \<Rightarrow> u32 \<Rightarrow> 'b cpu" where
  "hFload eakind conv len upd c i =
     (let ea = eakind c i in
      if ea AND 3 \<noteq> 0 then raiseAlign i ea c
      else case readV ea len c of
        (None, c1) \<Rightarrow> c1
      | (Some v, c1) \<Rightarrow>
          (let c2 = setFpr (f_rt i) (conv v) c1 in if upd then updRa i ea c2 else c2))"

definition h_lfs :: "'b cpu \<Rightarrow> u32 \<Rightarrow> 'b cpu" where "h_lfs = hFload eaD (\<lambda>v. loadSingle (ucast v)) 4 False"
definition h_lfsu :: "'b cpu \<Rightarrow> u32 \<Rightarrow> 'b cpu" where "h_lfsu = hFload eaD (\<lambda>v. loadSingle (ucast v)) 4 True"
definition h_lfsx :: "'b cpu \<Rightarrow> u32 \<Rightarrow> 'b cpu" where "h_lfsx = hFload eaX (\<lambda>v. loadSingle (ucast v)) 4 False"
definition h_lfsux :: "'b cpu \<Rightarrow> u32 \<Rightarrow> 'b cpu" where "h_lfsux = hFload eaX (\<lambda>v. loadSingle (ucast v)) 4 True"
definition h_lfd :: "'b cpu \<Rightarrow> u32 \<Rightarrow> 'b cpu" where "h_lfd = hFload eaD (\<lambda>v. v) 8 False"
definition h_lfdu :: "'b cpu \<Rightarrow> u32 \<Rightarrow> 'b cpu" where "h_lfdu = hFload eaD (\<lambda>v. v) 8 True"
definition h_lfdx :: "'b cpu \<Rightarrow> u32 \<Rightarrow> 'b cpu" where "h_lfdx = hFload eaX (\<lambda>v. v) 8 False"
definition h_lfdux :: "'b cpu \<Rightarrow> u32 \<Rightarrow> 'b cpu" where "h_lfdux = hFload eaX (\<lambda>v. v) 8 True"

definition hFstore :: "('b cpu \<Rightarrow> u32 \<Rightarrow> u32) \<Rightarrow> (u64 \<Rightarrow> u64) \<Rightarrow> u32 \<Rightarrow> bool \<Rightarrow> 'b cpu \<Rightarrow> u32 \<Rightarrow> 'b cpu" where
  "hFstore eakind val len upd c i =
     (let ea = eakind c i in
      if ea AND 3 \<noteq> 0 then raiseAlign i ea c
      else case writeV ea len (val (fpr (st c) (f_rt i))) c of
        (False, c1) \<Rightarrow> c1
      | (True, c1) \<Rightarrow> (if upd then updRa i ea c1 else c1))"

definition h_stfs :: "'b cpu \<Rightarrow> u32 \<Rightarrow> 'b cpu" where "h_stfs = hFstore eaD (\<lambda>f. ucast (storeSingle f)) 4 False"
definition h_stfsu :: "'b cpu \<Rightarrow> u32 \<Rightarrow> 'b cpu" where "h_stfsu = hFstore eaD (\<lambda>f. ucast (storeSingle f)) 4 True"
definition h_stfsx :: "'b cpu \<Rightarrow> u32 \<Rightarrow> 'b cpu" where "h_stfsx = hFstore eaX (\<lambda>f. ucast (storeSingle f)) 4 False"
definition h_stfsux :: "'b cpu \<Rightarrow> u32 \<Rightarrow> 'b cpu" where "h_stfsux = hFstore eaX (\<lambda>f. ucast (storeSingle f)) 4 True"
definition h_stfd :: "'b cpu \<Rightarrow> u32 \<Rightarrow> 'b cpu" where "h_stfd = hFstore eaD (\<lambda>f. f) 8 False"
definition h_stfdu :: "'b cpu \<Rightarrow> u32 \<Rightarrow> 'b cpu" where "h_stfdu = hFstore eaD (\<lambda>f. f) 8 True"
definition h_stfdx :: "'b cpu \<Rightarrow> u32 \<Rightarrow> 'b cpu" where "h_stfdx = hFstore eaX (\<lambda>f. f) 8 False"
definition h_stfdux :: "'b cpu \<Rightarrow> u32 \<Rightarrow> 'b cpu" where "h_stfdux = hFstore eaX (\<lambda>f. f) 8 True"
definition h_stfiwx :: "'b cpu \<Rightarrow> u32 \<Rightarrow> 'b cpu" where "h_stfiwx = hFstore eaX (\<lambda>f. f AND 0xFFFFFFFF) 4 False"

section \<open>Reservations and external control\<close>

definition h_lwarx :: "'b cpu \<Rightarrow> u32 \<Rightarrow> 'b cpu" where
  "h_lwarx c i =
     (let ea = eaX c i in
      if ea AND 3 \<noteq> 0 then raiseAlign i ea c
      else case translate ea False False c of
        (None, c1) \<Rightarrow> c1
      | (Some (pa, _), c1) \<Rightarrow>
          (case readV32 ea c1 of
             (None, c2) \<Rightarrow> c2
           | (Some v, c2) \<Rightarrow>
               setGpr (f_rt i) v (c2\<lparr>st := (st c2)\<lparr>resvValid := True, resvAddr := pa AND NOT 31\<rparr>\<rparr>)))"

definition stwcxDone :: "bool \<Rightarrow> 'b cpu \<Rightarrow> 'b cpu" where
  "stwcxDone ok c =
     (let c1 = c\<lparr>st := (st c)\<lparr>resvValid := False\<rparr>\<rparr>
      in setCrField 0 ((if ok then 2 else 0) OR (drop_bit 31 (xer (st c1)) AND 1)) c1)"

definition h_stwcx :: "'b cpu \<Rightarrow> u32 \<Rightarrow> 'b cpu" where
  "h_stwcx c i =
     (let ea = eaX c i in
      if ea AND 3 \<noteq> 0 then raiseAlign i ea c
      else case translate ea True False c of
        (None, c1) \<Rightarrow> c1
      | (Some _, c1) \<Rightarrow>
          if resvValid (st c1) then
            (case writeV32 ea (gpr (st c1) (f_rt i)) c1 of
               (False, c2) \<Rightarrow> c2
             | (True, c2) \<Rightarrow> stwcxDone True c2)
          else stwcxDone False c1)"

definition earFault :: "u32 \<Rightarrow> u32 \<Rightarrow> 'b cpu \<Rightarrow> 'b cpu" where
  "earFault ea bits c =
     raiseExc Dsi (pc (st c) - 4) 0 (c\<lparr>st := (st c)\<lparr>dar := ea, dsisr := bits\<rparr>\<rparr>)"

definition h_eciwx :: "'b cpu \<Rightarrow> u32 \<Rightarrow> 'b cpu" where
  "h_eciwx c i =
     (let ea = eaX c i in
      if ea AND 3 \<noteq> 0 then raiseAlign i ea c
      else if ear (st c) AND 0x80000000 = 0 then earFault ea 0x00100000 c
      else case readV32 ea c of
        (None, c1) \<Rightarrow> c1
      | (Some v, c1) \<Rightarrow> setGpr (f_rt i) v c1)"

definition h_ecowx :: "'b cpu \<Rightarrow> u32 \<Rightarrow> 'b cpu" where
  "h_ecowx c i =
     (let ea = eaX c i in
      if ea AND 3 \<noteq> 0 then raiseAlign i ea c
      else if ear (st c) AND 0x80000000 = 0 then earFault ea (0x00100000 OR 0x02000000) c
      else snd (writeV32 ea (gpr (st c) (f_rt i)) c))"

end
