(* ===== verification/IntArith.thy ===== *)
theory IntArith
  imports ExecInt
begin

text \<open>
  Arithmetic facts behind the integer executors of \<^verbatim>\<open>core/src/exec_int.cpp\<close>: the flag
  accessors, the three-operand adder \<^verbatim>\<open>addc3\<close> (result, carry and overflow), and 64-bit
  numbers held in register pairs.
\<close>

section \<open>Flags and the register file\<close>

lemma ca_bit: "ca c \<longleftrightarrow> bit (xer (st c)) 29"
  using and_single_bit_iff [of "xer (st c)" 29] by (simp add: ca_def)

lemma bit_29_const: "bit (0x20000000 :: u32) n \<longleftrightarrow> n = 29" "bit (0x40000000 :: u32) n \<longleftrightarrow> n = 30"
  "bit (0xC0000000 :: u32) n \<longleftrightarrow> n = 30 \<or> n = 31"
proof -
  have "(0x20000000 :: u32) = push_bit 29 1" "(0x40000000 :: u32) = push_bit 30 1"
    "(0xC0000000 :: u32) = push_bit 30 1 OR push_bit 31 1" by simp_all
  then show "bit (0x20000000 :: u32) n \<longleftrightarrow> n = 29" "bit (0x40000000 :: u32) n \<longleftrightarrow> n = 30"
    "bit (0xC0000000 :: u32) n \<longleftrightarrow> n = 30 \<or> n = 31"
    by (auto simp only: bit_or_iff bit_push_bit_iff bit_1_iff) auto
qed

lemma flag_simps [simp]:
  "ca (setCa b c) = b" "ca (setOv b c) = ca c" "ca (setCr0 v c) = ca c" "ca (setGpr r v c) = ca c"
  "gpr (st (setCa b c)) = gpr (st c)" "gpr (st (setOv b c)) = gpr (st c)" "gpr (st (setCr0 v c)) = gpr (st c)"
  "bit (xer (st (setOv b c))) 30 = b" "bit (xer (st (setOv b c))) 31 = (b \<or> bit (xer (st c)) 31)"
  "bit (xer (st (setCa b c))) 30 = bit (xer (st c)) 30" "bit (xer (st (setCa b c))) 31 = bit (xer (st c)) 31"
  "xer (st (setCr0 v c)) = xer (st c)"
  by (simp_all add: ca_bit setCa_def setOv_def setCr0_def Let_def bit_simps bit_29_const)

lemma recordRc_simps [simp]:
  "ca (recordRc i v c) = ca c" "gpr (st (recordRc i v c)) = gpr (st c)" "xer (st (recordRc i v c)) = xer (st c)"
  by (simp_all add: recordRc_def)

lemma caIn_cases: "caIn c = (if ca c then 1 else 0)"
  by (rule caIn_def)

section \<open>The adder\<close>

lemma unat_sum3:
  fixes a b cin :: u32
  assumes "cin \<le> 1"
  shows "unat (ucast a + ucast b + ucast cin :: u64) = unat a + unat b + unat cin"
proof -
  have "unat a < 2 ^ 32" "unat b < 2 ^ 32" "unat cin \<le> 1"
    using unsigned_less [of a, where ?'a = nat] unsigned_less [of b, where ?'a = nat] assms
    by (simp_all add: word_le_nat_alt)
  then show ?thesis by (simp add: unat_word_ariths)
qed

lemma addc3_result:
  assumes "cin \<le> 1" "addc3 a b cin sCa sOv i c = (r, c1)"
  shows "r = a + b + cin" "gpr (st c1) = gpr (st c)"
    "ca c1 = (if sCa then 2 ^ 32 \<le> unat a + unat b + unat cin else ca c)"
    "sOv \<Longrightarrow> f_oebit i \<noteq> 0 \<Longrightarrow> bit (xer (st c1)) 30 = bit ((a XOR r) AND (b XOR r)) 31"
    "sOv \<Longrightarrow> f_oebit i \<noteq> 0 \<Longrightarrow> bit (xer (st c1)) 31 = (bit ((a XOR r) AND (b XOR r)) 31 \<or> bit (xer (st c)) 31)"
proof -
  let ?s = "ucast a + ucast b + ucast cin :: u64"
  have s: "unat ?s = unat a + unat b + unat cin" by (rule unat_sum3 [OF assms(1)])
  have r: "r = ucast ?s" using assms(2) by (simp add: addc3_def Let_def)
  have "unat r = unat (a + b + cin)"
    unfolding r unsigned_ucast_eq s by (simp add: take_bit_eq_mod unat_word_ariths mod_simps)
  then show ra: "r = a + b + cin" by (simp add: word_unat_eq_iff)
  define c0 where "c0 = (if sCa then setCa (drop_bit 32 ?s \<noteq> 0) c else c)"
  have c1: "c1 = (if sOv \<and> f_oebit i \<noteq> 0 then setOv (drop_bit 31 ((a XOR r) AND (b XOR r)) \<noteq> 0) c0 else c0)"
    using assms(2) unfolding addc3_def Let_def c0_def r prod.inject by (rule conjunct2 [THEN sym])
  show "gpr (st c1) = gpr (st c)" by (simp add: c1 c0_def)
  have "drop_bit 32 ?s \<noteq> 0 \<longleftrightarrow> 2 ^ 32 \<le> unat ?s"
    using unat_drop_bit [of 32 ?s] by (simp add: unat_eq_0 [symmetric] div_eq_0_iff not_less)
  then show "ca c1 = (if sCa then 2 ^ 32 \<le> unat a + unat b + unat cin else ca c)"
    using s by (simp add: c1 c0_def)
  have d: "drop_bit 31 w \<noteq> 0 \<longleftrightarrow> bit w 31" for w :: u32
    using unat_drop_bit [of 31 w] msb32_iff [of w] and_single_bit_iff [of w 31]
    by (simp add: unat_eq_0 [symmetric] div_eq_0_iff not_less)
  show "sOv \<Longrightarrow> f_oebit i \<noteq> 0 \<Longrightarrow> bit (xer (st c1)) 30 = bit ((a XOR r) AND (b XOR r)) 31"
    "sOv \<Longrightarrow> f_oebit i \<noteq> 0 \<Longrightarrow> bit (xer (st c1)) 31 = (bit ((a XOR r) AND (b XOR r)) 31 \<or> bit (xer (st c)) 31)"
    using c1 [unfolded d] by (simp_all add: c0_def)
qed

lemma sint_range: "- (2 ^ 31) \<le> sint (a :: u32)" "sint a < 2 ^ 31"
  using sint_ge [of a] sint_lt [of a] by simp_all

lemma sint_of_int32: "- (2 ^ 31) \<le> x \<Longrightarrow> x < 2 ^ 31 \<Longrightarrow> sint (word_of_int x :: u32) = x"
  by (simp add: sint_sbintrunc' signed_take_bit_int_eq_self)

lemma sum_range:
  fixes x y k :: int
  assumes "- (2 ^ 31) \<le> x" "x < 2 ^ 31" "- (2 ^ 31) \<le> y" "y < 2 ^ 31" "0 \<le> k" "k \<le> 1"
  shows "- (2 ^ 32) \<le> x + y + k" "x + y + k < 2 ^ 32"
  using assms by simp_all

lemma sint_sum3:
  fixes a b cin :: u32
  assumes "cin \<le> 1" "s = sint a + sint b + uint cin"
  shows "sint (a + b + cin) = (if 2 ^ 31 \<le> s then s - 2 ^ 32 else if s < - (2 ^ 31) then s + 2 ^ 32 else s)"
proof -
  have c: "0 \<le> uint cin" "uint cin \<le> 1"
    using assms(1) by (simp_all add: word_le_def)
  have r: "- (2 ^ 32) \<le> s" "s < 2 ^ 32"
    using sum_range [OF sint_range sint_range c] by (simp_all only: assms(2))
  have e: "a + b + cin = word_of_int s" by (simp add: assms(2))
  have p: "(word_of_int s :: u32) = word_of_int (s - 2 ^ 32)" "(word_of_int s :: u32) = word_of_int (s + 2 ^ 32)"
    by (simp_all add: word_of_int_eq_iff take_bit_eq_mod mod_simps)
  consider "2 ^ 31 \<le> s" | "s < - (2 ^ 31)" | "- (2 ^ 31) \<le> s" "s < 2 ^ 31" by linarith
  then show ?thesis
  proof cases
    case 1
    then show ?thesis unfolding e p(1) using r sint_of_int32 [of "s - 2 ^ 32"] by simp
  next
    case 2
    then show ?thesis unfolding e p(2) using r sint_of_int32 [of "s + 2 ^ 32"] by simp
  next
    case 3
    then show ?thesis unfolding e using sint_of_int32 [of s] by simp
  qed
qed

lemma overflow_signs:
  fixes x y k r s :: int
  assumes "- (2 ^ 31) \<le> x" "x < 2 ^ 31" "- (2 ^ 31) \<le> y" "y < 2 ^ 31" "0 \<le> k" "k \<le> 1" "s = x + y + k"
    "r = (if 2 ^ 31 \<le> s then s - 2 ^ 32 else if s < - (2 ^ 31) then s + 2 ^ 32 else s)"
  shows "(x < 0) \<noteq> (r < 0) \<and> (y < 0) \<noteq> (r < 0) \<longleftrightarrow> \<not> (- (2 ^ 31) \<le> s \<and> s < 2 ^ 31)"
  using assms by auto

lemma overflow_iff:
  fixes a b cin :: u32
  assumes "cin \<le> 1" "r = a + b + cin" "s = sint a + sint b + uint cin"
  shows "bit ((a XOR r) AND (b XOR r)) 31 \<longleftrightarrow> \<not> (- (2 ^ 31) \<le> s \<and> s < 2 ^ 31)"
proof -
  have b: "bit w 31 \<longleftrightarrow> sint w < 0" for w :: u32 using bit_last_iff [of w] by simp
  have c: "0 \<le> uint cin" "uint cin \<le> 1" using assms(1) by (simp_all add: word_le_def)
  show ?thesis
    using overflow_signs [OF sint_range sint_range c assms(3) sint_sum3 [OF assms(1,3)]]
    unfolding bit_and_iff bit_xor_iff unfolding b assms(2) by simp
qed

section \<open>Sixty-four bit arithmetic by carry chains\<close>

definition pair64 :: "u32 \<Rightarrow> u32 \<Rightarrow> u64" where
  "pair64 hi lo = push_bit 32 (ucast hi) OR ucast lo"

lemma unat_pair64: "unat (pair64 hi lo) = 2 ^ 32 * unat hi + unat lo"
proof -
  have "pair64 hi lo = push_bit 32 (ucast hi) + ucast lo"
    unfolding pair64_def
    by (rule disjunctive_add [symmetric]) (auto simp: bit_simps dest: bit_imp_le_length)
  moreover have "unat (push_bit 32 (ucast hi) :: u64) = 2 ^ 32 * unat hi"
    using unsigned_less [of hi, where ?'a = nat]
    by (simp add: push_bit_eq_mult unat_word_ariths mult.commute)
  ultimately show ?thesis
    using unsigned_less [of hi, where ?'a = nat] unsigned_less [of lo, where ?'a = nat]
    by (simp add: unat_word_ariths)
qed

lemma pair_mod:
  "2 ^ 32 * ((h + l div 2 ^ 32) mod 2 ^ 32) + l mod 2 ^ 32 = (2 ^ 32 * h + l) mod (2 ^ 32 * 2 ^ 32)" for h l :: nat
  unfolding mod_mult2_eq by simp

lemma carry_chain:
  fixes al bl ah bh c0 :: u32
  assumes "c0 \<le> 1" "c1 = (if 2 ^ 32 \<le> unat al + unat bl + unat c0 then 1 else 0)"
  shows "pair64 (ah + bh + c1) (al + bl + c0) = pair64 ah al + pair64 bh bl + ucast c0"
proof -
  have b: "unat al < 2 ^ 32" "unat bl < 2 ^ 32" "unat ah < 2 ^ 32" "unat bh < 2 ^ 32" "unat c0 \<le> 1"
    using unsigned_less [of al, where ?'a = nat] unsigned_less [of bl, where ?'a = nat]
      unsigned_less [of ah, where ?'a = nat] unsigned_less [of bh, where ?'a = nat] assms(1)
    by (simp_all add: word_le_nat_alt)
  let ?L = "unat al + unat bl + unat c0" and ?H = "unat ah + unat bh"
  have c1: "unat c1 = ?L div 2 ^ 32"
  proof (cases "2 ^ 32 \<le> ?L")
    case True
    then have "?L div 2 ^ 32 = 1" using b by (intro div_nat_eqI) simp_all
    with True assms(2) show ?thesis by simp
  qed (use assms(2) in simp)
  have l: "unat (al + bl + c0) = ?L mod 2 ^ 32" by (simp add: unat_word_ariths mod_simps)
  have h: "unat (ah + bh + c1) = (?H + ?L div 2 ^ 32) mod 2 ^ 32" by (simp add: unat_word_ariths mod_simps c1)
  have "unat (pair64 (ah + bh + c1) (al + bl + c0)) = (2 ^ 32 * ?H + ?L) mod (2 ^ 32 * 2 ^ 32)"
    unfolding unat_pair64 l h by (rule pair_mod)
  also have "\<dots> = unat (pair64 ah al + pair64 bh bl + ucast c0)"
  proof -
    have "unat (x + y + z) = (unat x + unat y + unat z) mod (2 ^ 32 * 2 ^ 32)" for x y z :: u64
      by (simp add: unat_word_ariths mod_simps)
    moreover have "2 ^ 32 * ?H + ?L = 2 ^ 32 * unat ah + unat al + (2 ^ 32 * unat bh + unat bl) + unat c0" by simp
    ultimately show ?thesis by (simp only: unat_pair64 unat_ucast_64)
  qed
  finally show ?thesis by (simp add: word_unat_eq_iff)
qed

end
