(* ===== verification/ExecIntProps.thy ===== *)
theory ExecIntProps
  imports IntArith
begin

text \<open>
  What the integer executors compute: multi-word addition and subtraction by carry chains,
  overflow, the two halves of a product, truncating division, the shift-and-add division by a
  power of two, the conditional branch after a compare, and the leading-zero count.
\<close>

section \<open>Carry chains\<close>

lemma h_addc_result:
  "gpr (st (h_addc c i)) = (gpr (st c))(f_rt i := gpr (st c) (f_ra i) + gpr (st c) (f_rb i))"
  "ca (h_addc c i) = (2 ^ 32 \<le> unat (gpr (st c) (f_ra i)) + unat (gpr (st c) (f_rb i)))"
proof -
  obtain r c1 where a: "addc3 (gpr (st c) (f_ra i)) (gpr (st c) (f_rb i)) 0 True True i c = (r, c1)" by fastforce
  note res = addc3_result [OF _ a]
  show "gpr (st (h_addc c i)) = (gpr (st c))(f_rt i := gpr (st c) (f_ra i) + gpr (st c) (f_rb i))"
    "ca (h_addc c i) = (2 ^ 32 \<le> unat (gpr (st c) (f_ra i)) + unat (gpr (st c) (f_rb i)))"
    using res by (simp_all add: h_addc_def xoResult_def a)
qed

lemma h_adde_result:
  "gpr (st (h_adde c i)) = (gpr (st c))(f_rt i := gpr (st c) (f_ra i) + gpr (st c) (f_rb i) + caIn c)"
  "ca (h_adde c i) = (2 ^ 32 \<le> unat (gpr (st c) (f_ra i)) + unat (gpr (st c) (f_rb i)) + unat (caIn c))"
proof -
  obtain r c1 where a: "addc3 (gpr (st c) (f_ra i)) (gpr (st c) (f_rb i)) (caIn c) True True i c = (r, c1)" by fastforce
  have "caIn c \<le> 1" by (simp add: caIn_def)
  note res = addc3_result [OF this a]
  show "gpr (st (h_adde c i)) = (gpr (st c))(f_rt i := gpr (st c) (f_ra i) + gpr (st c) (f_rb i) + caIn c)"
    "ca (h_adde c i) = (2 ^ 32 \<le> unat (gpr (st c) (f_ra i)) + unat (gpr (st c) (f_rb i)) + unat (caIn c))"
    using res by (simp_all add: h_adde_def xoResult_def a)
qed

lemma h_subfc_result:
  "gpr (st (h_subfc c i)) = (gpr (st c))(f_rt i := NOT (gpr (st c) (f_ra i)) + gpr (st c) (f_rb i) + 1)"
  "ca (h_subfc c i) = (2 ^ 32 \<le> unat (NOT (gpr (st c) (f_ra i))) + unat (gpr (st c) (f_rb i)) + 1)"
proof -
  obtain r c1 where a: "addc3 (NOT (gpr (st c) (f_ra i))) (gpr (st c) (f_rb i)) 1 True True i c = (r, c1)" by fastforce
  note res = addc3_result [OF _ a]
  show "gpr (st (h_subfc c i)) = (gpr (st c))(f_rt i := NOT (gpr (st c) (f_ra i)) + gpr (st c) (f_rb i) + 1)"
    "ca (h_subfc c i) = (2 ^ 32 \<le> unat (NOT (gpr (st c) (f_ra i))) + unat (gpr (st c) (f_rb i)) + 1)"
    using res by (simp_all only: h_subfc_def xoResult_def a prod.case recordRc_simps) simp_all
qed

lemma h_subfe_result:
  "gpr (st (h_subfe c i)) = (gpr (st c))(f_rt i := NOT (gpr (st c) (f_ra i)) + gpr (st c) (f_rb i) + caIn c)"
proof -
  obtain r c1 where a: "addc3 (NOT (gpr (st c) (f_ra i))) (gpr (st c) (f_rb i)) (caIn c) True True i c = (r, c1)" by fastforce
  have "caIn c \<le> 1" by (simp add: caIn_def)
  note res = addc3_result [OF this a]
  show "gpr (st (h_subfe c i)) = (gpr (st c))(f_rt i := NOT (gpr (st c) (f_ra i)) + gpr (st c) (f_rb i) + caIn c)"
    using res by (simp only: h_subfe_def xoResult_def a prod.case recordRc_simps) simp
qed

lemma pair64_not: "pair64 (NOT h) (NOT l) = NOT (pair64 h l)"
  unfolding pair64_def by (auto intro!: bit_word_eqI simp: bit_simps) (auto dest: bit_imp_le_length)

text \<open>
  C39. addc of the low words followed by adde of the high words adds two 64-bit numbers
  held in register pairs.
\<close>

theorem addc_adde_add_64:
  assumes "f_rt i \<noteq> f_ra j" "f_rt i \<noteq> f_rb j" "f_rt i \<noteq> f_rt j"
    and "c2 = h_adde (h_addc c i) j"
  shows "pair64 (gpr (st c2) (f_rt j)) (gpr (st c2) (f_rt i))
    = pair64 (gpr (st c) (f_ra j)) (gpr (st c) (f_ra i)) + pair64 (gpr (st c) (f_rb j)) (gpr (st c) (f_rb i))"
  using assms carry_chain [of 0 "caIn (h_addc c i)" "gpr (st c) (f_ra i)" "gpr (st c) (f_rb i)"
      "gpr (st c) (f_ra j)" "gpr (st c) (f_rb j)"]
  by (simp add: h_addc_result h_adde_result caIn_def)

lemma subfc_subfe_subtract_64:
  assumes "f_rt i \<noteq> f_ra j" "f_rt i \<noteq> f_rb j" "f_rt i \<noteq> f_rt j"
    and "c2 = h_subfe (h_subfc c i) j"
  shows "pair64 (gpr (st c2) (f_rt j)) (gpr (st c2) (f_rt i))
    = pair64 (gpr (st c) (f_rb j)) (gpr (st c) (f_rb i)) - pair64 (gpr (st c) (f_ra j)) (gpr (st c) (f_ra i))"
proof -
  have "pair64 (gpr (st c2) (f_rt j)) (gpr (st c2) (f_rt i))
      = NOT (pair64 (gpr (st c) (f_ra j)) (gpr (st c) (f_ra i))) + pair64 (gpr (st c) (f_rb j)) (gpr (st c) (f_rb i)) + 1"
    using assms carry_chain [of 1 "caIn (h_subfc c i)" "NOT (gpr (st c) (f_ra i))" "gpr (st c) (f_rb i)"
      "NOT (gpr (st c) (f_ra j))" "gpr (st c) (f_rb j)"]
    by (simp add: h_subfc_result h_subfe_result caIn_def pair64_not)
  then show ?thesis by (simp add: not_eq_complement)
qed


theorem addc_adde_add_64_witness:
  "let c = st_update (gpr_update (\<lambda>_ r. if r = 6 then 0xFFFFFFFF else if r = 7 then 1 else 5)) (flatCpu 0);
       c2 = h_adde (h_addc c 0x7CA63814) 0x7C843114
   in pair64 (gpr (st c2) 4) (gpr (st c2) 5) = pair64 5 0xFFFFFFFF + pair64 0xFFFFFFFF 1"
  using addc_adde_add_64 [where i = "0x7CA63814" and j = "0x7C843114"
      and c = "st_update (gpr_update (\<lambda>_ r. if r = 6 then 0xFFFFFFFF else if r = 7 then 1 else 5)) (flatCpu 0)", OF _ _ _ refl]
  by (simp add: Let_def field_defs ppcbits_def)

section \<open>Overflow\<close>

text \<open>
  C40. With the OE bit set, add and subf set XER[OV] exactly when the signed sum or
  difference does not fit in 32 bits, make XER[SO] sticky, and write the wrapped result.
\<close>

theorem add_subf_overflow:
  assumes "f_oebit i \<noteq> 0" and "a = gpr (st c) (f_ra i)" "b = gpr (st c) (f_rb i)"
  shows "gpr (st (h_add c i)) (f_rt i) = a + b \<and>
    bit (xer (st (h_add c i))) 30 = (\<not> (- (2 ^ 31) \<le> sint a + sint b \<and> sint a + sint b < 2 ^ 31)) \<and>
    bit (xer (st (h_add c i))) 31 = (bit (xer (st (h_add c i))) 30 \<or> bit (xer (st c)) 31) \<and>
    gpr (st (h_subf c i)) (f_rt i) = b - a \<and>
    bit (xer (st (h_subf c i))) 30 = (\<not> (- (2 ^ 31) \<le> sint b - sint a \<and> sint b - sint a < 2 ^ 31)) \<and>
    bit (xer (st (h_subf c i))) 31 = (bit (xer (st (h_subf c i))) 30 \<or> bit (xer (st c)) 31)"
proof -
  obtain r c1 where ad: "addc3 a b 0 False True i c = (r, c1)" by fastforce
  obtain r' c1' where sb: "addc3 (NOT a) b 1 False True i c = (r', c1')" by fastforce
  note ra = addc3_result [OF _ ad] and rs = addc3_result [OF _ sb]
  have "NOT a = word_of_int (- sint a - 1)" by (simp add: not_eq_complement)
  then have na: "sint (NOT a) = - sint a - 1" using sint_of_int32 [of "- sint a - 1"] sint_range [of a] by simp
  have "bit ((a XOR r) AND (b XOR r)) 31 = (\<not> (- (2 ^ 31) \<le> sint a + sint b \<and> sint a + sint b < 2 ^ 31))"
    using overflow_iff [of 0 r a b "sint a + sint b"] ra(1) by simp
  moreover have "bit ((NOT a XOR r') AND (b XOR r')) 31 = (\<not> (- (2 ^ 31) \<le> sint b - sint a \<and> sint b - sint a < 2 ^ 31))"
    using overflow_iff [of 1 r' "NOT a" b "sint b - sint a"] rs(1) na by simp
  moreover have "r' = b - a" using rs(1) by (simp add: not_eq_complement)
  moreover have "h_add c i = recordRc i r (setGpr (f_rt i) r c1)" "h_subf c i = recordRc i r' (setGpr (f_rt i) r' c1')"
    by (simp_all only: h_add_def h_subf_def xoResult_def assms(2,3) [symmetric] ad sb prod.case)
  ultimately show ?thesis
    using ra(1,4,5) rs(4,5) assms(1) by simp
qed

theorem add_subf_overflow_witness:
  "bit (xer (st (h_add (st_update (gpr_update (\<lambda>_ _. 0x7FFFFFFF)) (flatCpu 0)) 0x7CA63E14))) 30"
  using add_subf_overflow [where i = "0x7CA63E14" and c = "st_update (gpr_update (\<lambda>_ _. 0x7FFFFFFF)) (flatCpu 0)", OF _ refl refl]
  by (simp add: field_defs ppcbits_def ppcbit_def)

section \<open>Multiplication and division\<close>

lemma pair64_of: "pair64 (ucast (drop_bit 32 p)) (ucast p) = p"
  unfolding pair64_def by (auto intro!: bit_word_eqI simp: bit_simps)

lemma ucast_of_int32: "(ucast (word_of_int k :: u64) :: u32) = word_of_int k"
  by (rule bit_word_eqI) (simp add: bit_simps)

lemma gpr_xoResult: "gpr (st (xoResult i (r, c))) = (gpr (st c))(f_rt i := r)"
  by (simp add: xoResult_def)

lemma gpr_ovIfOe [simp]: "gpr (st (ovIfOe i b c)) = gpr (st c)"
  by (simp add: ovIfOe_def)

lemma sint_of_int64: "- (2 ^ 63) \<le> x \<Longrightarrow> x < 2 ^ 63 \<Longrightarrow> sint (word_of_int x :: u64) = x"
  by (simp add: sint_sbintrunc' signed_take_bit_int_eq_self)

lemma sint_product:
  fixes a b :: u32
  shows "sint (scast a * scast b :: u64) = sint a * sint b"
proof -
  have "\<bar>sint a * sint b\<bar> \<le> 2 ^ 31 * 2 ^ 31"
    unfolding abs_mult using sint_range [of a] sint_range [of b] by (intro mult_mono) auto
  then have "- (2 ^ 63) \<le> sint a * sint b" "sint a * sint b < 2 ^ 63" by simp_all
  moreover have "(scast a * scast b :: u64) = word_of_int (sint a * sint b)" by simp
  ultimately show ?thesis using sint_of_int64 [of "sint a * sint b"] by (simp only:)
qed

text \<open>
  mullw and mulhw give the low and high halves of the signed 64-bit product; mullw and
  mulhwu the halves of the unsigned product.
\<close>

theorem multiply_halves:
  assumes "a = gpr (st c) (f_ra i)" "b = gpr (st c) (f_rb i)"
  shows "sint (pair64 (gpr (st (h_mulhw c i)) (f_rt i)) (gpr (st (h_mullw c i)) (f_rt i))) = sint a * sint b \<and>
    unat (pair64 (gpr (st (h_mulhwu c i)) (f_rt i)) (gpr (st (h_mullw c i)) (f_rt i))) = unat a * unat b"
proof -
  have lo: "gpr (st (h_mullw c i)) (f_rt i) = ucast (scast a * scast b :: u64)"
    and hs: "gpr (st (h_mulhw c i)) (f_rt i) = ucast (drop_bit 32 (scast a * scast b :: u64))"
    and hu: "gpr (st (h_mulhwu c i)) (f_rt i) = ucast (drop_bit 32 (ucast a * ucast b :: u64))"
    unfolding assms by (simp_all add: h_mullw_def h_mulhw_def h_mulhwu_def Let_def gpr_xoResult)
  have "(scast a * scast b :: u64) = word_of_int (sint a * sint b)" "(ucast a * ucast b :: u64) = word_of_int (uint a * uint b)"
    by simp_all
  moreover have "(word_of_int (sint a * sint b) :: u32) = word_of_int (uint a * uint b)" by simp
  ultimately have "(ucast (scast a * scast b :: u64) :: u32) = ucast (ucast a * ucast b :: u64)"
    by (simp only: ucast_of_int32)
  moreover have "unat a * unat b < 2 ^ 32 * 2 ^ 32"
    using unsigned_less [of a, where ?'a = nat] unsigned_less [of b, where ?'a = nat]
    by (intro mult_strict_mono) simp_all
  then have "unat (ucast a * ucast b :: u64) = unat a * unat b" by (simp add: unat_word_ariths)
  ultimately show ?thesis
    using sint_product [of a b] unfolding lo hs hu by (metis pair64_of)
qed

theorem multiply_halves_witness:
  "sint (pair64 (gpr (st (h_mulhw (st_update (gpr_update (\<lambda>_ r. if r = 6 then 0xFFFFFFFE else 3)) (flatCpu 0)) 0x7CA63896)) 5)
     (gpr (st (h_mullw (st_update (gpr_update (\<lambda>_ r. if r = 6 then 0xFFFFFFFE else 3)) (flatCpu 0)) 0x7CA63896)) 5)) = - 6"
  using multiply_halves [OF refl refl, where i = "0x7CA63896"
      and c = "st_update (gpr_update (\<lambda>_ r. if r = 6 then 0xFFFFFFFE else 3)) (flatCpu 0)"]
  by (simp add: field_defs ppcbits_def)

lemma signed_scale:
  fixes q x y B :: int
  assumes "0 \<le> q" "q < B"
  shows "- B \<le> sgn x * sgn y * q \<and> sgn x * sgn y * q < B" "sgn x * q = 0 \<or> sgn (sgn x * q) = sgn x"
  using assms by (auto simp: sgn_if)

lemma quotient_fits:
  fixes x y :: int
  assumes "- (2 ^ 31) \<le> x" "x < 2 ^ 31" "y \<noteq> 0" "\<not> (x = - (2 ^ 31) \<and> y = - 1)"
  shows "- (2 ^ 31) \<le> x sdiv y" "x sdiv y < 2 ^ 31"
proof -
  consider "y = 1" | "y = - 1" | "2 \<le> \<bar>y\<bar>" using assms(3) by linarith
  then have "- (2 ^ 31) \<le> x sdiv y \<and> x sdiv y < 2 ^ 31"
  proof cases
    case 3
    have "\<bar>x\<bar> div \<bar>y\<bar> \<le> \<bar>x\<bar> div 2" using 3 by (intro zdiv_mono2) simp_all
    also have "\<dots> < 2 ^ 31" using assms(1,2) by simp
    finally have "\<bar>x\<bar> div \<bar>y\<bar> < 2 ^ 31" .
    moreover have "0 \<le> \<bar>x\<bar> div \<bar>y\<bar>" by (simp add: pos_imp_zdiv_nonneg_iff 3 assms(3))
    ultimately show ?thesis
      unfolding signed_divide_int_def by (intro signed_scale)
  qed (use assms in simp_all)
  then show "- (2 ^ 31) \<le> x sdiv y" "x sdiv y < 2 ^ 31" by blast+
qed

lemma smod_sign: "x smod y = 0 \<or> sgn (x smod y) = sgn x" if "y \<noteq> 0" for x y :: int
proof -
  have "0 \<le> \<bar>x\<bar> mod \<bar>y\<bar>" using that by simp
  then show ?thesis unfolding smod_int_alt_def by (rule signed_scale(2) [OF _ less_add_one])
qed

text \<open>
  divw: with a nonzero divisor and no overflow the quotient is truncated toward zero
  (the remainder is smaller than the divisor and has the dividend's sign); otherwise the result
  register is zero and, with OE, XER[OV] is set.
\<close>

theorem divw_truncates:
  assumes "a = gpr (st c) (f_ra i)" "b = gpr (st c) (f_rb i)" "q = gpr (st (h_divw c i)) (f_rt i)"
  shows "(if b = 0 \<or> a = 0x80000000 \<and> b = - 1 then q = 0 \<and> (f_oebit i \<noteq> 0 \<longrightarrow> bit (xer (st (h_divw c i))) 30)
    else (\<exists>r. sint a = sint q * sint b + r \<and> \<bar>r\<bar> < \<bar>sint b\<bar> \<and> (r = 0 \<or> sgn r = sgn (sint a)))
      \<and> (f_oebit i \<noteq> 0 \<longrightarrow> \<not> bit (xer (st (h_divw c i))) 30))"
proof (cases "b = 0 \<or> a = 0x80000000 \<and> b = - 1")
  case True
  then show ?thesis
    unfolding assms by (simp add: h_divw_def Let_def gpr_xoResult) (simp add: xoResult_def ovIfOe_def)
next
  case False
  have q: "q = word_of_int (sint a sdiv sint b)"
    using False unfolding assms by (simp add: h_divw_def Let_def gpr_xoResult)
  have ov: "f_oebit i \<noteq> 0 \<longrightarrow> \<not> bit (xer (st (h_divw c i))) 30"
    using False unfolding assms by (simp add: h_divw_def Let_def xoResult_def ovIfOe_def)
  have b: "sint b \<noteq> 0" using False by (simp add: signed_eq_0_iff)
  have m: "sint (0x80000000 :: u32) = - (2 ^ 31)" "sint (- 1 :: u32) = - 1" by simp_all
  have "\<not> (sint a = - (2 ^ 31) \<and> sint b = - 1)" using False m by (metis signed_word_eqI)
  from quotient_fits [OF sint_range b this] have s: "sint q = sint a sdiv sint b"
    unfolding q by (rule sint_of_int32)
  have "\<bar>sint a smod sint b\<bar> < \<bar>sint b\<bar>" using smod_int_range [OF b, of "sint a"] by auto
  then have "\<exists>r. sint a = sint q * sint b + r \<and> \<bar>r\<bar> < \<bar>sint b\<bar> \<and> (r = 0 \<or> sgn r = sgn (sint a))"
    using smod_sign [OF b, of "sint a"] unfolding s
    by (intro exI [of _ "sint a smod sint b"]) (simp add: sdiv_mult_smod_eq)
  with ov show ?thesis unfolding if_not_P [OF False] by (intro conjI)
qed

theorem divw_truncates_witness:
  "let c = st_update (gpr_update (\<lambda>_ r. if r = 6 then - 7 else 2)) (flatCpu 0) in
   \<exists>r. sint (- 7 :: u32) = sint (gpr (st (h_divw c 0x7CA63BD6)) 5) * sint (2 :: u32) + r \<and> \<bar>r\<bar> < \<bar>sint (2 :: u32)\<bar>
      \<and> (r = 0 \<or> sgn r = sgn (sint (- 7 :: u32)))"
  using divw_truncates [OF refl refl refl, where i = "0x7CA63BD6"
      and c = "st_update (gpr_update (\<lambda>_ r. if r = 6 then - 7 else 2)) (flatCpu 0)"]
  by (simp add: field_defs ppcbits_def Let_def)

lemma sdiv_pow2:
  "x sdiv 2 ^ n = x div 2 ^ n + (if x < 0 \<and> x mod 2 ^ n \<noteq> 0 then 1 else 0)" for x :: int
proof -
  have "sgn ((2 :: int) ^ n) = 1" "\<bar>(2 :: int) ^ n\<bar> = 2 ^ n" by simp_all
  moreover have "- (- x div 2 ^ n) = x div 2 ^ n + (if x mod 2 ^ n \<noteq> 0 then 1 else 0)"
    by (simp add: zdiv_zminus1_eq_if)
  ultimately show ?thesis
    by (auto simp: signed_divide_int_def sgn_if abs_if)
qed

lemma quotient_fits_pow2:
  fixes x :: int
  assumes "- (2 ^ 31) \<le> x" "x < 2 ^ 31"
  shows "- (2 ^ 31) \<le> x sdiv 2 ^ n" "x sdiv 2 ^ n < 2 ^ 31"
proof -
  have "(2 :: int) ^ n > 0" by simp
  then have "(2 :: int) ^ n \<noteq> 0" "\<not> (x = - (2 ^ 31) \<and> (2 :: int) ^ n = - 1)" by linarith+
  then show "- (2 ^ 31) \<le> x sdiv 2 ^ n" "x sdiv 2 ^ n < 2 ^ 31" using quotient_fits [OF assms] by blast+
qed

lemma sraCarry_iff: "unat n < 32 \<Longrightarrow> sraCarry s n \<longleftrightarrow> sint s < 0 \<and> sint s mod 2 ^ unat n \<noteq> 0"
proof -
  assume n: "unat n < 32"
  have m: "push_bit (unat n) 1 - 1 = (mask (unat n) :: u32)" by (simp add: mask_eq_exp_minus_1 push_bit_eq_mult)
  have "s AND mask (unat n) = 0 \<longleftrightarrow> take_bit (unat n) (sint s) = 0"
  proof -
    have "uint (s AND mask (unat n)) = take_bit (unat n) (uint s)"
      by (simp only: take_bit_eq_mask [symmetric] unsigned_take_bit_eq)
    also have "uint s = take_bit 32 (sint s)" using uint_sint [of s] by simp
    also have "take_bit (unat n) (take_bit 32 (sint s)) = take_bit (unat n) (sint s)"
      using n by (simp only: take_bit_take_bit min_def) simp
    finally have "uint (s AND mask (unat n)) = take_bit (unat n) (sint s)" .
    then show ?thesis by (metis uint_0_iff)
  qed
  then have "s AND (push_bit (unat n) 1 - 1) = 0 \<longleftrightarrow> sint s mod 2 ^ unat n = 0"
    unfolding m take_bit_eq_mod .
  moreover have "n = 0 \<Longrightarrow> sint s mod 2 ^ unat n = 0" by simp
  ultimately show ?thesis
    unfolding sraCarry_def word_sless_alt by auto
qed

text \<open>
  The two-instruction signed division by a power of two: srawi by \<open>n\<close> followed by
  addze divides toward zero by \<open>2\<^sup>n\<close>.
\<close>

theorem srawi_addze_divides:
  assumes "f_ra j = f_ra i" "s = gpr (st c) (f_rt i)"
  shows "sint (gpr (st (h_addze (h_srawi c i) j)) (f_rt j)) = sint s sdiv 2 ^ unat (f_sh i)"
proof -
  let ?n = "unat (f_sh i)" and ?c = "h_srawi c i"
  have n: "?n < 32" using field5_bound(4) [of i] by (simp add: word_less_nat_alt)
  have g: "gpr (st ?c) (f_ra i) = signed_drop_bit ?n s" and k: "ca ?c = sraCarry s (f_sh i)"
    by (simp_all add: h_srawi_def raResult_def Let_def assms(2))
  obtain r c1 where a: "addc3 (gpr (st ?c) (f_ra j)) 0 (caIn ?c) True True j ?c = (r, c1)" by fastforce
  have "caIn ?c \<le> 1" by (simp add: caIn_def)
  note res = addc3_result [OF this a]
  have "gpr (st (h_addze ?c j)) (f_rt j) = signed_drop_bit ?n s + caIn ?c"
    using res(1) unfolding h_addze_def xoResult_def a by (simp add: assms(1) g)
  also have "signed_drop_bit ?n s = word_of_int (sint s div 2 ^ ?n)"
  proof -
    have "signed_drop_bit ?n s = word_of_int (sint (signed_drop_bit ?n s))" by simp
    then show ?thesis by (simp only: sint_signed_drop_bit_eq drop_bit_eq_div)
  qed
  also have "word_of_int (sint s div 2 ^ ?n) + caIn ?c = word_of_int (sint s sdiv 2 ^ ?n)"
    unfolding sdiv_pow2 caIn_def k sraCarry_iff [OF n] by simp
  finally show ?thesis
    using quotient_fits_pow2 [OF sint_range, of s ?n] sint_of_int32 by simp
qed

theorem srawi_addze_divides_witness:
  "let c = st_update (gpr_update (\<lambda>_ r. - 7)) (flatCpu 0) in
   sint (gpr (st (h_addze (h_srawi c 0x7CC50E70) 0x7C650194)) 3) = - 3"
  using srawi_addze_divides [OF _ refl, where i = "0x7CC50E70" and j = "0x7C650194"
      and c = "st_update (gpr_update (\<lambda>_ r. - 7)) (flatCpu 0)"]
  by (simp add: field_defs ppcbits_def Let_def)

section \<open>Compare and branch\<close>

lemma crf_positions:
  "\<forall>f \<in> set (map of_nat [0..<8]). \<forall>k \<in> set (map of_nat [0..<4]).
     unat (31 - (4 * f + k :: u32)) = unat ((7 - f) * 4) + (3 - unat k) \<and> unat ((7 - f) * 4) < 29"
  by code_simp

lemma word_in_upt: "(w :: u32) < of_nat n \<Longrightarrow> n < 2 ^ 32 \<Longrightarrow> w \<in> set (map of_nat [0..<n])"
proof -
  assume "w < of_nat n" "n < 2 ^ 32"
  then have "unat w < n" by (simp add: word_less_nat_alt unat_of_nat)
  moreover have "w = of_nat (unat w)" by simp
  ultimately show ?thesis unfolding set_map set_upt by (intro image_eqI) auto
qed

lemma crBit_bit: "crBit c b \<longleftrightarrow> bit (cr (st c)) (unat (31 - b))"
  by (simp add: crBit_def bit_iff_and_drop_bit_eq_1 and_one_eq odd_iff_mod_2_eq_one)

lemma nibble_insert:
  fixes x v :: u32
  assumes "s < 29" "p < 4"
  shows "bit ((x AND NOT (push_bit s 0xF)) OR push_bit s (v AND 0xF)) (s + p) = bit v p"
proof -
  have "bit (0xF :: u32) p"
    using bit_mask_iff [of 4 p, where ?'a = u32] assms(2) by (auto simp: mask_numeral)
  then show ?thesis using assms
    by (simp only: bit_or_iff bit_and_iff bit_not_iff bit_push_bit_iff possible_bit_word) auto
qed

lemma crBit_setCrField:
  assumes "f < 8" "k < 4"
  shows "crBit (setCrField f v c) (4 * f + k) = bit v (3 - unat k)"
proof -
  have "f \<in> set (map of_nat [0..<8])" "k \<in> set (map of_nat [0..<4])" using assms word_in_upt [of f 8] word_in_upt [of k 4] by simp_all
  then have e: "unat (31 - (4 * f + k)) = unat ((7 - f) * 4) + (3 - unat k)" and s: "unat ((7 - f) * 4) < 29"
    using crf_positions by blast+
  have "cr (st (setCrField f v c)) =
      (cr (st c) AND NOT (push_bit (unat ((7 - f) * 4)) 0xF)) OR push_bit (unat ((7 - f) * 4)) (v AND 0xF)"
    by (simp add: setCrField_def Let_def)
  then show ?thesis
    unfolding crBit_bit e using nibble_insert [OF s, of "3 - unat k" "cr (st c)" v] by (simp only:)
qed

lemma nibble_bits:
  fixes x :: u32
  assumes "p = 1 \<or> p = 2 \<or> p = 3"
  shows "bit (8 OR (drop_bit 31 x AND 1)) p = (p = 3)" "bit (4 OR (drop_bit 31 x AND 1)) p = (p = 2)"
    "bit (2 OR (drop_bit 31 x AND 1)) p = (p = 1)"
proof -
  have "\<not> bit (drop_bit 31 x AND 1) p" using assms by (auto simp: bit_simps)
  then show "bit (8 OR (drop_bit 31 x AND 1)) p = (p = 3)" "bit (4 OR (drop_bit 31 x AND 1)) p = (p = 2)"
    "bit (2 OR (drop_bit 31 x AND 1)) p = (p = 1)"
    using assms by (auto simp: bit_or_iff)
qed

definition cmpHolds :: "u32 \<Rightarrow> int \<Rightarrow> int \<Rightarrow> bool" where
  "cmpHolds k x y \<longleftrightarrow> k = 0 \<and> x < y \<or> k = 1 \<and> y < x \<or> k = 2 \<and> x = y"

lemma crBit_cmp:
  assumes "f < 8" "k < 3"
  shows "crBit (cmpS f a b c) (4 * f + k) = cmpHolds k (sint a) (sint b)"
    "crBit (cmpU f a b c) (4 * f + k) = cmpHolds k (uint a) (uint b)"
proof -
  have "unat k < 3" using assms(2) by (simp add: word_less_nat_alt)
  then have k: "k = 0 \<or> k = 1 \<or> k = 2" by (auto simp: word_unat_eq_iff)
  have k4: "k < 4" using assms(2) by (simp add: word_less_nat_alt)
  have p: "3 - unat k = 1 \<or> 3 - unat k = 2 \<or> 3 - unat k = 3" using k by auto
  note nb = nibble_bits [OF p] crBit_setCrField [OF assms(1) k4]
  show "crBit (cmpS f a b c) (4 * f + k) = cmpHolds k (sint a) (sint b)"
    using k by (auto simp: cmpS_def Let_def if_distrib [of "\<lambda>x. crBit x _"] nb cmpHolds_def word_sless_alt)
  show "crBit (cmpU f a b c) (4 * f + k) = cmpHolds k (uint a) (uint b)"
    using k by (auto simp: cmpU_def Let_def nb cmpHolds_def word_less_def)
qed

text \<open>
  A conditional branch on the field a compare has just written is taken exactly when
  the compared values stand in the tested relation, signed for cmp and unsigned for cmpl: BO 12
  branches when the bit is set, BO 4 when it is clear.
\<close>

theorem compare_then_branch:
  assumes "ppcbits j 6 10 = (if sense then 12 else 4)" "ppcbits j 11 15 = 4 * f_crfd i + k" "k < 3" "f_aabit j = 0"
    and "a = gpr (st c) (f_ra i)" "b = gpr (st c) (f_rb i)" "target = pc (st c) - 4 + sext14 (ppcbits j 16 29) * 4"
  shows "pc (st (h_bc (h_cmp c i) j)) = (if cmpHolds k (sint a) (sint b) = sense then target else pc (st c)) \<and>
    pc (st (h_bc (h_cmpl c i) j)) = (if cmpHolds k (uint a) (uint b) = sense then target else pc (st c))"
proof -
  have f: "f_crfd i < 8" by (rule field_bound_small)
  have t: "pc (st (h_bc d j)) = (if crBit d (4 * f_crfd i + k) = sense then pc (st d) - 4 + sext14 (ppcbits j 16 29) * 4 else pc (st d))" for d
    using assms(1,2,4) by (cases sense) (simp_all add: h_bc_def bcTaken_def Let_def)
  have p: "pc (st (cmpS f x y c)) = pc (st c)" "pc (st (cmpU f x y c)) = pc (st c)" for f x y
    by (simp_all add: cmpS_def cmpU_def setCrField_def Let_def)
  show ?thesis
    unfolding t h_cmp_def h_cmpl_def crBit_cmp [OF f assms(3)] p assms(5-) by (rule conjI [OF refl refl])
qed

lemma branch_example: "sext14 4 = 4" "\<not> uint (- 1 :: u32) < 1"
proof -
  show "sext14 4 = 4" by code_simp
  have "uint (- 1 :: u32) = mask 32" by (simp add: unsigned_minus_1_eq_mask)
  then show "\<not> uint (- 1 :: u32) < 1" by (simp add: mask_numeral)
qed

theorem compare_then_branch_witness:
  "let c = setPc 0x1004 (st_update (gpr_update (\<lambda>_ r. if r = 3 then 0xFFFFFFFF else 1)) (flatCpu 0)) in
   pc (st (h_bc (h_cmp c 0x7C032000) 0x41800010)) = 0x1010 \<and> pc (st (h_bc (h_cmpl c 0x7C032000) 0x41800010)) = 0x1004"
  using compare_then_branch [where i = "0x7C032000" and j = "0x41800010" and k = 0 and sense = True
      and c = "setPc 0x1004 (st_update (gpr_update (\<lambda>_ r. if r = 3 then 0xFFFFFFFF else 1)) (flatCpu 0))", OF _ _ _ _ refl refl refl] branch_example
  by (simp add: field_defs ppcbits_def ppcbit_def Let_def cmpHolds_def)

section \<open>Leading zeros\<close>

lemma countl_zero_bits:
  assumes "v \<noteq> (0 :: u32)"
  shows "countl_zero v < 32" "bit v (31 - countl_zero v)" "\<And>k. 31 - countl_zero v < k \<Longrightarrow> \<not> bit v k"
proof -
  let ?xs = "rev [0..<32]" and ?P = "\<lambda>k. \<not> bit v k"
  obtain k0 where k0: "bit v k0" using assms by (metis bit_eqI bit_0_eq bot_apply bot_bool_def)
  then have "k0 < 32" using bit_imp_le_length [OF k0] by simp
  with k0 have ex: "\<exists>x \<in> set ?xs. \<not> ?P x" by auto
  let ?n = "length (takeWhile ?P ?xs)"
  have "dropWhile ?P ?xs \<noteq> []" using ex by (simp only: dropWhile_eq_Nil_conv) blast
  moreover have "?n + length (dropWhile ?P ?xs) = 32"
    using arg_cong [OF takeWhile_dropWhile_id, of length ?P ?xs] by (simp only: length_append length_rev length_upt)
  ultimately have len: "?n < 32" by (cases "dropWhile ?P ?xs") simp_all
  have "\<not> ?P (?xs ! ?n)" using len by (intro nth_length_takeWhile) simp
  moreover have nth: "?xs ! m = 31 - m" if "m < 32" for m using that by (simp add: rev_nth)
  ultimately show "countl_zero v < 32" "bit v (31 - countl_zero v)" using len by (simp_all add: countl_zero_def)
  fix k assume k: "31 - countl_zero v < k"
  show "\<not> bit v k"
  proof (cases "k < 32")
    case True
    then have m: "31 - k < ?n" using k len by (simp add: countl_zero_def)
    have "takeWhile ?P ?xs ! (31 - k) = ?xs ! (31 - k)" using m by (rule takeWhile_nth)
    also have "\<dots> = k" using nth [of "31 - k"] True by simp
    finally have "k \<in> set (takeWhile ?P ?xs)" using m by (metis nth_mem)
    then show ?thesis by (rule set_takeWhileD [THEN conjunct2])
  qed (use bit_imp_le_length [of v k] in auto)
qed

text \<open>
  cntlzw counts the leading zeros: the result is 32 for a zero register; otherwise the
  bit at that distance from the top is set and every bit above it is clear.
\<close>

theorem cntlzw_counts:
  "gpr (st (h_cntlzw c i)) (f_ra i) = n \<longleftrightarrow>
    (let v = gpr (st c) (f_rt i) in
     if v = 0 then n = 32 else n < 32 \<and> bit v (31 - unat n) \<and> (\<forall>k > 31 - unat n. \<not> bit v k))"
proof -
  let ?v = "gpr (st c) (f_rt i)"
  have g: "gpr (st (h_cntlzw c i)) (f_ra i) = of_nat (countl_zero ?v)"
    by (simp add: h_cntlzw_def raResult_def recordRc_def setCr0_def Let_def)
  show ?thesis
  proof (cases "?v = 0")
    case True
    have "countl_zero 0 = 32" by (simp add: countl_zero_def takeWhile_eq_all_conv [THEN iffD2])
    then show ?thesis using g True by auto
  next
    case False
    note cz = countl_zero_bits [OF False]
    have "31 - unat n = 31 - countl_zero ?v"
      if "bit ?v (31 - unat n)" "\<forall>k > 31 - unat n. \<not> bit ?v k"
      using that cz(2,3) by (meson linorder_neqE_nat)
    moreover have "unat n = countl_zero ?v \<longleftrightarrow> n = of_nat (countl_zero ?v)"
      using cz(1) by (auto simp: word_unat_eq_iff unat_of_nat)
    moreover have "n < 32 \<longleftrightarrow> unat n < 32" by (simp add: word_less_nat_alt)
    ultimately show ?thesis unfolding g Let_def using cz False
      by (auto simp: unat_of_nat)
  qed
qed

theorem cntlzw_counts_witness:
  "gpr (st (h_cntlzw (st_update (gpr_update (\<lambda>_ _. 0x10000)) (flatCpu 0)) 0x7C640034)) 4 = 15"
proof -
  have "bit (0x10000 :: u32) k \<longleftrightarrow> k = 16" for k using bit_exp_iff [of 16 k, where ?'a = u32] by auto
  then show ?thesis
    using cntlzw_counts [where i = "0x7C640034" and c = "st_update (gpr_update (\<lambda>_ _. 0x10000)) (flatCpu 0)" and n = 15]
    by (simp only: field_defs) (simp add: ppcbits_def Let_def)
qed

end
