(* ===== verification/SingleFormat.thy ===== *)
theory SingleFormat
  imports ExecMem ExecIntProps
begin

text \<open>
  The single-precision memory format of \<^verbatim>\<open>loadSingle\<close> and \<^verbatim>\<open>storeSingle\<close>
  (\<^verbatim>\<open>core/src/softfp.cpp\<close>): what lfs widens, stfs narrows back.
\<close>

section \<open>Single-precision memory format\<close>

definition packDouble :: "bool \<Rightarrow> u64 \<Rightarrow> u64 \<Rightarrow> u64" where
  "packDouble s E M = push_bit 63 (of_bool s) OR push_bit 52 E OR M"

definition packedDouble :: "u64 \<Rightarrow> u64 \<Rightarrow> bool" where
  "packedDouble E M \<longleftrightarrow> (\<forall>k\<ge>11. \<not> bit E k) \<and> (\<forall>k\<ge>52. \<not> bit M k)"

lemma bit_pack: "bit (packDouble s E M) n \<longleftrightarrow> n < 64 \<and> (s \<and> n = 63 \<or> 52 \<le> n \<and> bit E (n - 52) \<or> bit M n)"
  using bit_imp_le_length [of M n] unfolding packDouble_def
  by (auto simp: bit_or_iff bit_push_bit_iff bit_of_bool_iff)

lemma bit_7FF: "bit (0x7FF :: u32) n \<longleftrightarrow> n < 11"
  using bit_mask_iff [of 11 n, where ?'a = u32] by (auto simp: mask_numeral)
lemma bit_52: "bit (0x000FFFFFFFFFFFFF :: u64) n \<longleftrightarrow> n < 52"
  using bit_mask_iff [of 52 n, where ?'a = u64] by (auto simp: mask_numeral)
lemma bit_63: "bit (0x7FFFFFFFFFFFFFFF :: u64) n \<longleftrightarrow> n < 63"
  using bit_mask_iff [of 63 n, where ?'a = u64] by (auto simp: mask_numeral)
lemma bit_30: "bit (0x3FFFFFFF :: u32) n \<longleftrightarrow> n < 30"
  using bit_mask_iff [of 30 n, where ?'a = u32] by (auto simp: mask_numeral)
lemma bit_23: "bit (0x7FFFFF :: u32) n \<longleftrightarrow> n < 23"
  using bit_mask_iff [of 23 n, where ?'a = u32] by (auto simp: mask_numeral)

lemma pack_fields:
  assumes "packedDouble E M"
  shows "ucast (drop_bit 52 (packDouble s E M)) AND (0x7FF :: u32) = ucast E"
    "packDouble s E M AND 0x000FFFFFFFFFFFFF = M"
    "ucast (drop_bit 63 (packDouble s E M)) = (of_bool s :: u32)"
    "packDouble s E M AND 0x7FFFFFFFFFFFFFFF = 0 \<longleftrightarrow> E = 0 \<and> M = 0"
proof -
  have E: "bit E k \<Longrightarrow> k < 11" and M: "bit M k \<Longrightarrow> k < 52" for k
    using assms unfolding packedDouble_def by (meson not_le)+
  show "ucast (drop_bit 52 (packDouble s E M)) AND (0x7FF :: u32) = ucast E"
  proof (rule bit_word_eqI)
    fix n
    have "bit (ucast (drop_bit 52 (packDouble s E M)) AND (0x7FF :: u32)) n \<longleftrightarrow> n < 11 \<and> bit (packDouble s E M) (52 + n)"
      by (simp only: bit_and_iff bit_ucast_iff bit_drop_bit_eq bit_7FF comp_def) auto
    also have "\<dots> \<longleftrightarrow> bit (ucast E :: u32) n" by (auto simp: bit_pack bit_ucast_iff dest: E M)
    finally show "bit (ucast (drop_bit 52 (packDouble s E M)) AND (0x7FF :: u32)) n \<longleftrightarrow> bit (ucast E :: u32) n" .
  qed
  show "packDouble s E M AND 0x000FFFFFFFFFFFFF = M"
    by (rule bit_word_eqI) (simp only: bit_and_iff bit_pack bit_52, auto dest: M)
  show "ucast (drop_bit 63 (packDouble s E M)) = (of_bool s :: u32)"
    by (rule bit_word_eqI) (auto simp: bit_ucast_iff bit_drop_bit_eq bit_pack bit_of_bool_iff dest: E M)
  show "packDouble s E M AND 0x7FFFFFFFFFFFFFFF = 0 \<longleftrightarrow> E = 0 \<and> M = 0"
  proof -
    have "packDouble s E M AND 0x7FFFFFFFFFFFFFFF = push_bit 52 E OR M"
      by (rule bit_word_eqI) (simp only: bit_and_iff bit_or_iff bit_push_bit_iff bit_pack bit_63, auto dest: E M)
    moreover have "push_bit 52 E = 0 \<longleftrightarrow> E = 0"
    proof
      assume "push_bit 52 E = 0"
      then have z: "\<not> bit (push_bit 52 E) (n + 52)" for n by simp
      have "\<not> bit E n" for n using z [of n] E [of n] by (auto simp: bit_push_bit_iff)
      then show "E = 0" by (intro bit_word_eqI) simp
    qed simp
    moreover have "x OR M = 0 \<longleftrightarrow> x = 0 \<and> M = 0" for x
      by (auto simp: bit_eq_iff bit_or_iff)
    ultimately show ?thesis by simp
  qed
qed

lemma storeSingle_copy:
  assumes "packedDouble E M" "896 < E"
  shows "bit (storeSingle (packDouble s E M)) n \<longleftrightarrow>
    (if n < 23 then bit M (29 + n) else if n < 30 then bit E (n - 23) else n = 30 \<and> bit E 10 \<or> n = 31 \<and> s)"
proof -
  have E: "bit E k \<Longrightarrow> k < 11" and M: "bit M k \<Longrightarrow> k < 52" for k
    using assms unfolding packedDouble_def by (meson not_le)+
  have "take_bit 32 (unat E) = unat E"
  proof -
    have "take_bit 11 E = E" by (rule bit_word_eqI) (auto simp: bit_take_bit_iff dest: E)
    then have "unat E < 2 ^ 11" by (metis take_bit_nat_less_exp unsigned_take_bit_eq)
    then show ?thesis by (simp add: take_bit_nat_eq_self)
  qed
  then have "896 < (ucast E :: u32)"
    using assms(2) by (simp add: word_less_nat_alt unsigned_ucast_eq)
  then have "storeSingle (packDouble s E M) = push_bit 30 (ucast (drop_bit 62 (packDouble s E M))) OR (ucast (drop_bit 29 (packDouble s E M)) AND 0x3FFFFFFF)"
    unfolding storeSingle_def Let_def pack_fields [OF assms(1)] by simp
  then have "bit (storeSingle (packDouble s E M)) n \<longleftrightarrow>
      30 \<le> n \<and> n < 32 \<and> bit (packDouble s E M) (32 + n) \<or> n < 30 \<and> bit (packDouble s E M) (29 + n)"
    by (simp only: bit_or_iff bit_and_iff bit_push_bit_iff bit_ucast_iff bit_drop_bit_eq bit_30 comp_def) auto
  also have "\<dots> \<longleftrightarrow> (if n < 23 then bit M (29 + n) else if n < 30 then bit E (n - 23) else n = 30 \<and> bit E 10 \<or> n = 31 \<and> s)"
  proof -
    consider "n < 23" | "23 \<le> n" "n < 30" | "n = 30" | "n = 31" | "32 \<le> n" by linarith
    then show ?thesis
      by cases (use E [of 10] E [of 11] M [of "29 + n"] M [of 62] M [of 63] in \<open>auto simp: bit_pack\<close>)
  qed
  finally show ?thesis .
qed

section \<open>The round trip\<close>

lemma bit_FF: "bit (0xFF :: u32) n \<longleftrightarrow> n < 8"
  using bit_mask_iff [of 8 n, where ?'a = u32] by (auto simp: mask_numeral)

lemma sign_part: "push_bit 63 (ucast (drop_bit 31 w)) = (push_bit 63 (of_bool (bit w 31)) :: u64)" for w :: u32
  by (rule bit_word_eqI)
    (auto simp: bit_push_bit_iff bit_ucast_iff bit_drop_bit_eq bit_of_bool_iff dest: bit_imp_le_length)

lemma exp_field_bits: "bit (drop_bit 23 w AND 0xFF) n \<longleftrightarrow> n < 8 \<and> bit w (23 + n)" for w :: u32
  by (simp only: bit_and_iff bit_drop_bit_eq bit_FF comp_def) auto

lemma frac_bits: "bit (w AND 0x7FFFFF) n \<longleftrightarrow> n < 23 \<and> bit w n" for w :: u32
  by (simp only: bit_and_iff bit_23) auto

lemma eq_of_bits:
  fixes w x :: u32
  assumes "\<And>n. n < 23 \<Longrightarrow> bit x n = bit w n" "\<And>k. k < 7 \<Longrightarrow> bit x (23 + k) = bit w (23 + k)"
    "bit x 30 = bit w 30" "bit x 31 = bit w 31"
  shows "x = w"
proof (rule bit_word_eqI)
  fix n assume "n < LENGTH(32)"
  then have "n < 23 \<or> (n < 30 \<and> n = 23 + (n - 23) \<and> n - 23 < 7) \<or> n = 30 \<or> n = 31" by auto
  then show "bit x n = bit w n" using assms by metis
qed

lemma single_copied:
  fixes w :: u32
  assumes "packedDouble E (push_bit 29 (ucast (w AND 0x7FFFFF)))" "896 < E"
    and "\<And>k. k < 7 \<Longrightarrow> bit E k = bit w (23 + k)" "bit E 10 = bit w 30"
  shows "storeSingle (packDouble (bit w 31) E (push_bit 29 (ucast (w AND 0x7FFFFF)))) = w"
  by (rule eq_of_bits; simp only: storeSingle_copy [OF assms(1,2)])
    (use assms(3,4) in \<open>auto simp: bit_push_bit_iff bit_ucast_iff frac_bits simp del: bit_and_iff\<close>)

lemma packed_frac:
  assumes "\<And>k. bit E k \<Longrightarrow> k < 11"
  shows "packedDouble E (push_bit 29 (ucast (w AND 0x7FFFFF :: u32)))"
proof -
  have "k < 52" if "bit (push_bit 29 (ucast (w AND 0x7FFFFF) :: u64)) k" for k
    using that unfolding bit_push_bit_iff bit_ucast_iff frac_bits by auto
  then show ?thesis unfolding packedDouble_def using assms by (meson not_le)
qed

lemma exponent_nat:
  fixes x :: nat
  assumes "x < 255"
  shows "k < 7 \<Longrightarrow> bit (x + 896) k = bit x k" "bit (x + 896) 10 = bit x 7" "x + 896 < 2 ^ 11"
proof -
  have "take_bit 7 (x + 896) = take_bit 7 x" by (simp add: take_bit_eq_mod mod_add_right_eq [of x 896 128, symmetric])
  then show "bit (x + 896) k = bit x k" if "k < 7" using that by (metis bit_take_bit_iff)
  have "(x + 896) div 2 ^ 10 = (if x < 128 then 0 else 1)" "x div 2 ^ 7 = (if x < 128 then 0 else 1)"
    using assms by (auto intro!: div_nat_eqI)
  then show "bit (x + 896) 10 = bit x 7" unfolding bit_iff_odd by auto
  show "x + 896 < 2 ^ 11" using assms by simp
qed

lemma bit_unat: "bit w k = bit (unat w) k" for w :: "'a :: len word"
  by (simp add: bit_unsigned_iff)

lemma exponent_bits:
  fixes e :: u32
  assumes "e \<noteq> 0" "e < 255" "E = (ucast (e + 896) :: u64)"
  shows "896 < E" "\<And>k. bit E k \<Longrightarrow> k < 11" "\<And>k. k < 7 \<Longrightarrow> bit E k = bit e k" "bit E 10 = bit e 7"
proof -
  have e: "unat e < 255" "0 < unat e" using assms(1,2) by (simp_all add: word_less_nat_alt unat_gt_0)
  then have E: "unat E = unat e + 896"
    unfolding assms(3) unat_ucast_64 by (simp add: unat_word_ariths)
  show "896 < E" using e E by (simp add: word_less_nat_alt)
  show "bit E k = bit e k" if "k < 7" for k using exponent_nat(1) [OF e(1) that] unfolding bit_unat E .
  show "bit E 10 = bit e 7" using exponent_nat(2) [OF e(1)] unfolding bit_unat E .
  show "k < 11" if "bit E k" for k
  proof (rule ccontr)
    assume "\<not> k < 11"
    then have "(2 :: nat) ^ 11 \<le> 2 ^ k" by (intro power_increasing) simp_all
    then have "unat E div 2 ^ k = 0" using exponent_nat(3) [OF e(1)] by (simp add: E)
    then show False using that unfolding bit_unat bit_iff_odd by simp
  qed
qed

text \<open>A denormal single is renormalised by the load and denormalised again by the store.\<close>

lemma denormal_round_trip:
  fixes fr :: u32
  assumes "fr \<noteq> 0" "\<And>n. bit fr n \<Longrightarrow> n < 23"
    and "m = 31 - countl_zero fr" "E = word_of_int (int m - 149 + 1023)"
    and "M = push_bit (52 - m) (ucast fr) AND 0x000FFFFFFFFFFFFF"
  shows "packedDouble E M" "storeSingle (packDouble s E M) = push_bit 31 (of_bool s) OR fr"
proof -
  note cz = countl_zero_bits [OF assms(1), folded assms(3)]
  have m: "m < 23" using assms(2) cz(2) by blast
  have E: "E = of_nat (m + 874)" unfolding assms(4) by simp
  have uE: "unat E = m + 874" unfolding E unat_of_nat using m by simp
  have bE: "k < 11" if "bit E k" for k
  proof (rule ccontr)
    assume "\<not> k < 11"
    then have "(2 :: nat) ^ 11 \<le> 2 ^ k" by (intro power_increasing) simp_all
    then have "unat E div 2 ^ k = 0" using m by (simp add: uE)
    then show False using that unfolding bit_unat bit_iff_odd by simp
  qed
  have bM: "bit M k \<longleftrightarrow> k < 52 \<and> 52 - m \<le> k \<and> bit fr (k - (52 - m))" for k
    unfolding assms(5) bit_and_iff bit_push_bit_iff bit_ucast_iff bit_52 by auto
  show p: "packedDouble E M" unfolding packedDouble_def bM using bE by (meson not_le)
  have u32: "unat (ucast E :: u32) = m + 874" using m by (simp add: unsigned_ucast_eq uE take_bit_nat_eq_self)
  have "storeSingle (packDouble s E M) = push_bit 31 (of_bool s) OR
      (ucast (drop_bit (unat (897 - ucast E + 29 :: u32)) (push_bit 52 1 OR M)) AND 0x7FFFFF)"
    unfolding storeSingle_def Let_def pack_fields [OF p]
    using u32 m E uE by (simp add: word_less_nat_alt word_le_nat_alt unat_eq_0 [symmetric])
  also have "unat (897 - ucast E + 29 :: u32) = 52 - m"
  proof -
    have "(ucast E :: u32) = of_nat (m + 874)" unfolding word_unat_eq_iff u32 unat_of_nat using m by simp
    then have "(897 - ucast E + 29 :: u32) = of_nat (52 - m)" using m by (simp add: of_nat_diff)
    then show ?thesis by (simp add: unat_of_nat)
  qed
  also have "ucast (drop_bit (52 - m) (push_bit 52 1 OR M)) AND 0x7FFFFF = fr"
  proof (rule bit_word_eqI)
    fix n
    have "bit (ucast (drop_bit (52 - m) (push_bit 52 1 OR M)) AND (0x7FFFFF :: u32)) n \<longleftrightarrow>
        n < 23 \<and> (n = m \<or> bit M (52 - m + n))"
      using m by (simp only: bit_and_iff bit_ucast_iff bit_drop_bit_eq bit_or_iff bit_push_bit_iff bit_1_iff bit_23 comp_def) auto
    also have "\<dots> \<longleftrightarrow> bit fr n"
    proof (cases "m < n")
      case False
      then show ?thesis using cz(2) m unfolding bM by (cases "n = m") auto
    qed (use cz(3) [of n] in \<open>auto simp: bM\<close>)
    finally show "bit (ucast (drop_bit (52 - m) (push_bit 52 1 OR M)) AND (0x7FFFFF :: u32)) n \<longleftrightarrow> bit fr n" .
  qed
  finally show "storeSingle (packDouble s E M) = push_bit 31 (of_bool s) OR fr" .
qed

lemma single_zero:
  assumes "drop_bit 23 w AND 0xFF = 0" "w AND 0x7FFFFF = 0"
  shows "storeSingle (loadSingle w) = w"
proof -
  have "packedDouble 0 0" by (simp add: packedDouble_def)
  from pack_fields [OF this, of "bit w 31"]
  have p: "packDouble (bit w 31) 0 0 AND 0x7FFFFFFFFFFFFFFF = 0" by blast
  have z: "\<not> bit w n" if "n < 31" for n
  proof -
    have "\<not> (n < 23 \<and> bit w n)" using assms(2) by (simp only: frac_bits [symmetric]) simp
    moreover have "\<not> (n - 23 < 8 \<and> bit w (23 + (n - 23)))"
      using assms(1) by (simp only: exp_field_bits [symmetric]) simp
    ultimately show ?thesis using that by (cases "n < 23") auto
  qed
  have "loadSingle w = packDouble (bit w 31) 0 0"
    using assms by (simp add: loadSingle_def Let_def packDouble_def sign_part)
  moreover have "storeSingle (packDouble (bit w 31) 0 0) =
      push_bit 30 (ucast (drop_bit 62 (packDouble (bit w 31) 0 0))) OR (ucast (drop_bit 29 (packDouble (bit w 31) 0 0)) AND 0x3FFFFFFF)"
    using p by (simp add: storeSingle_def Let_def)
  then have "bit (storeSingle (packDouble (bit w 31) 0 0)) n \<longleftrightarrow> n = 31 \<and> bit w 31" for n
    by (simp only: bit_or_iff bit_and_iff bit_push_bit_iff bit_ucast_iff bit_drop_bit_eq bit_30 bit_pack comp_def) auto
  ultimately show ?thesis
    by (intro bit_word_eqI) (use z in \<open>auto simp: less_Suc_eq numeral_eq_Suc\<close>)
qed

lemma single_denormal:
  assumes "drop_bit 23 w AND 0xFF = 0" "w AND 0x7FFFFF \<noteq> 0"
  shows "storeSingle (loadSingle w) = w"
proof -
  let ?m = "31 - countl_zero (w AND 0x7FFFFF)"
  have b: "bit (w AND 0x7FFFFF) n \<Longrightarrow> n < 23" for n by (simp only: frac_bits)
  note d = denormal_round_trip [OF assms(2) b refl refl refl]
  have "loadSingle w = packDouble (bit w 31) (word_of_int (int ?m - 149 + 1023)) (push_bit (52 - ?m) (ucast (w AND 0x7FFFFF)) AND 0x000FFFFFFFFFFFFF)"
    unfolding loadSingle_def Let_def packDouble_def sign_part or.assoc if_not_P [OF assms(2)] if_P [OF assms(1)] using assms(1) by simp
  then have "storeSingle (loadSingle w) = push_bit 31 (of_bool (bit w 31)) OR (w AND 0x7FFFFF)" using d(2) by simp
  also have "\<dots> = w"
  proof (rule eq_of_bits)
    have z: "\<not> bit w (23 + k)" if "k < 8" for k
    proof -
      have "\<not> (k < 8 \<and> bit w (23 + k))" using assms(1) by (simp only: exp_field_bits [symmetric]) simp
      with that show ?thesis by blast
    qed
    have v: "bit (push_bit 31 (of_bool (bit w 31)) OR (w AND 0x7FFFFF)) n \<longleftrightarrow> n = 31 \<and> bit w 31 \<or> n < 23 \<and> bit w n" for n
      by (simp only: bit_or_iff frac_bits bit_push_bit_iff bit_of_bool_iff) auto
    show "bit (push_bit 31 (of_bool (bit w 31)) OR (w AND 0x7FFFFF)) n = bit w n" if "n < 23" for n using v that by simp
    show "bit (push_bit 31 (of_bool (bit w 31)) OR (w AND 0x7FFFFF)) (23 + k) = bit w (23 + k)" if "k < 7" for k
      using z [of k] that v [of "23 + k"] by simp
    show "bit (push_bit 31 (of_bool (bit w 31)) OR (w AND 0x7FFFFF)) 30 = bit w 30" using z [of 7] v [of 30] by simp
    show "bit (push_bit 31 (of_bool (bit w 31)) OR (w AND 0x7FFFFF)) 31 = bit w 31" using v [of 31] by simp
  qed
  finally show ?thesis .
qed

text \<open>
  C37. stfs of what lfs has loaded gives back the word unchanged: every single-precision
  bit pattern, denormals, infinities and signalling NaNs included, survives the widening to the
  double-precision register format and the narrowing back.
\<close>

theorem storeSingle_loadSingle: "storeSingle (loadSingle w) = w"
proof -
  let ?e = "drop_bit 23 w AND 0xFF" and ?f = "w AND 0x7FFFFF"
  let ?M = "push_bit 29 (ucast ?f) :: u64"
  consider "?e = 255" | "?e = 0" "?f = 0" | "?e = 0" "?f \<noteq> 0" | "?e \<noteq> 0" "?e \<noteq> 255" by blast
  then show ?thesis
  proof cases
    case 1
    then have "bit ?e n \<longleftrightarrow> n < 8" for n by (simp only: bit_FF [symmetric])
    then have w: "k < 8 \<Longrightarrow> bit w (23 + k)" for k by (simp only: exp_field_bits) blast
    have w7: "bit w 30" using w [of 7] by simp
    have E: "bit (0x7FF :: u64) k \<longleftrightarrow> k < 11" for k
      using bit_mask_iff [of 11 k, where ?'a = u64] by (auto simp: mask_numeral)
    have "loadSingle w = packDouble (bit w 31) 0x7FF ?M"
      using 1 by (simp add: loadSingle_def Let_def packDouble_def sign_part or.assoc)
    then show ?thesis
      using single_copied [OF packed_frac, of "0x7FF" w] w w7 by (simp only: E) simp
  next
    case 2
    then show ?thesis by (rule single_zero)
  next
    case 3
    then show ?thesis by (rule single_denormal)
  next
    case 4
    have "?e \<le> 255" by (rule word_and_le1)
    with 4(2) have "?e < 255" by simp
    note eb = exponent_bits [OF 4(1) this refl]
    have e7: "bit ?e k \<longleftrightarrow> bit w (23 + k)" if "k < 8" for k using that by (simp only: exp_field_bits) simp
    have "loadSingle w = packDouble (bit w 31) (ucast (?e + 896)) ?M"
      using 4 by (simp add: loadSingle_def Let_def packDouble_def sign_part or.assoc)
    moreover have "storeSingle (packDouble (bit w 31) (ucast (?e + 896)) ?M) = w"
    proof (rule single_copied [OF packed_frac [OF eb(2)] eb(1)])
      show "bit (ucast (?e + 896) :: u64) k = bit w (23 + k)" if "k < 7" for k
        using eb(3) [OF that] e7 [of k] that by simp
      show "bit (ucast (?e + 896) :: u64) 10 = bit w 30" using eb(4) e7 [of 7] by simp
    qed
    ultimately show ?thesis by simp
  qed
qed

end
