(* ===== verification/CoreFrame.thy ===== *)
theory CoreFrame
  imports Mmu
begin

text \<open>
  What the caches and the bus leave alone. The part of the processor on the near side of the
  caches is gathered in one value, \<^verbatim>\<open>core\<close>: the architectural registers, the pending
  and mode flags, the TLBs and the one-page translation caches. Every cache and bus operation
  of \<^verbatim>\<open>core/src/cache.cpp\<close> keeps it.
\<close>

text \<open>The words of the fetch buffer and their decoded rows, which dropping a line leaves in place.\<close>

definition flRows :: "'b cpu \<Rightarrow> u32 \<Rightarrow> (u32 \<Rightarrow> u16) \<times> (u32 \<Rightarrow> u32)" where
  "flRows c = (\<lambda>s. (flRow (fetchLine c s), flW (fetchLine c s)))"

definition coreFlags :: "'b cpu \<Rightarrow> (bool \<times> bool \<times> bool \<times> bool) \<times> (bool \<times> bool \<times> bool \<times> string) \<times> u32 \<times> bool \<times> u32" where
  "coreFlags c = ((extIrqLine c, smiPending c, decPending c, pmPending c),
     (raisedThisStep c, napping c, halted c, haltReason c), curInsn c, mmuProbe c, realModeInhibitBase c)"

definition coreTlb :: "'b cpu \<Rightarrow> (u32 \<Rightarrow> u32 \<Rightarrow> tlb_entry) \<times> (u32 \<Rightarrow> u32 \<Rightarrow> tlb_entry) \<times> (u32 \<Rightarrow> u8) \<times> (u32 \<Rightarrow> u8)" where
  "coreTlb c = (itlb c, dtlb c, itlbLru c, dtlbLru c)"

definition coreXl :: "'b cpu \<Rightarrow> (u64 \<times> u64 \<times> u32 \<times> u32 \<times> u32 \<times> u32) \<times>
    ((bool \<Rightarrow> u64) \<times> (bool \<Rightarrow> u32) \<times> (bool \<Rightarrow> u32) \<times> (bool \<Rightarrow> u32) \<times> (bool \<Rightarrow> u32) \<times> (bool \<Rightarrow> u32)) \<times> (bool \<times> bool \<times> bool \<times> bool) \<times> (u32 \<Rightarrow> (u32 \<Rightarrow> u16) \<times> (u32 \<Rightarrow> u32))" where
  "coreXl c = ((mmuGen c, xlGen c, xlPage c, xlPa c, xlMsr c, xlSr c),
     (dxlGen c, dxlPage c, dxlPa c, dxlMsr c, dxlSr c, dxlWimg c), (fetchCacheOff c, dxlCacheOff c, lineExecOff c, napping c), flRows c)"

definition core :: "'b cpu \<Rightarrow> cpu_state \<times>
    ((bool \<times> bool \<times> bool \<times> bool) \<times> (bool \<times> bool \<times> bool \<times> string) \<times> u32 \<times> bool \<times> u32) \<times>
    ((u32 \<Rightarrow> u32 \<Rightarrow> tlb_entry) \<times> (u32 \<Rightarrow> u32 \<Rightarrow> tlb_entry) \<times> (u32 \<Rightarrow> u8) \<times> (u32 \<Rightarrow> u8)) \<times>
    ((u64 \<times> u64 \<times> u32 \<times> u32 \<times> u32 \<times> u32) \<times>
     ((bool \<Rightarrow> u64) \<times> (bool \<Rightarrow> u32) \<times> (bool \<Rightarrow> u32) \<times> (bool \<Rightarrow> u32) \<times> (bool \<Rightarrow> u32) \<times> (bool \<Rightarrow> u32)) \<times> (bool \<times> bool \<times> bool \<times> bool) \<times> (u32 \<Rightarrow> (u32 \<Rightarrow> u16) \<times> (u32 \<Rightarrow> u32)))" where
  "core c = (st c, coreFlags c, coreTlb c, coreXl c)"

lemmas core_defs = core_def coreFlags_def coreTlb_def coreXl_def flRows_def

lemma core_sel:
  assumes "core c' = core c"
  shows "st c' = st c" "raisedThisStep c' = raisedThisStep c" "mmuProbe c' = mmuProbe c"
    "itlb c' = itlb c" "dtlb c' = dtlb c" "itlbLru c' = itlbLru c" "dtlbLru c' = dtlbLru c"
    "mmuGen c' = mmuGen c" "realModeInhibitBase c' = realModeInhibitBase c" "halted c' = halted c"
    "napping c' = napping c" "dxlCacheOff c' = dxlCacheOff c" "curInsn c' = curInsn c" "flRows c' = flRows c"
  using assms by (simp_all add: core_defs)

section \<open>The bus and the L1 index\<close>

lemma core_l1 [simp]:
  "core (setTv s w t c) = core c" "core (touchAge s w c) = core c" "core (setLine s w e c) = core c"
  "core (setDirty s w d c) = core c" "core (fetchDropAt a c) = core c" "core (fetchDrop c) = core c"
  "core (fetchDropRange a n c) = core c" "core (snd (busDo f c)) = core c" "core (l2SetSync c) = core c"
  "core (l2_update g c) = core c" "core (l2Clock_update h c) = core c" "core (l2Sets_update k c) = core c"
  "core (ins_update m c) = core c"
  by (auto simp add: core_defs setTv_def touchAge_def setLine_def setDirty_def fetchDropAt_def fetchDrop_def
      fetchDropRange_def busDo_def l2SetSync_def Let_def split: prod.splits)

lemma core_bus [simp]:
  "core (snd (busRead8 a c)) = core c" "core (snd (busRead16 a c)) = core c" "core (snd (busRead32 a c)) = core c"
  "core (snd (busRead64 a c)) = core c" "core (snd (busReadLine a c)) = core c" "core (busWrite8 a x8 c) = core c"
  "core (busWrite16 a x16 c) = core c" "core (busWrite32 a x32 c) = core c" "core (busWrite64 a x64 c) = core c"
  "core (busWriteBurst a b c) = core c" "core (cacheBusWriteLine a b c) = core c"
  by (simp_all add: bus_defs cacheBusWriteLine_def)

lemma core_busLen [simp]: "core (snd (busReadLen a n c)) = core c" "core (busWriteLen a n v c) = core c"
  by (simp_all add: busReadLen_def busWriteLen_def)

section \<open>The L2\<close>

lemma core_l2Set [simp]: "core (snd (l2SetOf a c)) = core c"
  by (simp add: l2SetOf_def Let_def)

lemma core_l2FlushLines [simp]: "core (l2FlushLines wb is c) = core c"
  by (induction wb "is" c rule: l2FlushLines.induct) (simp_all add: Let_def)

lemma core_l2Find [simp]:
  "core (snd (l2Find B c)) = core c" "core (snd (l2ReadLine B c)) = core c" "core (snd (l2Peek32 B c)) = core c"
proof -
  show f: "core (snd (l2Find B c)) = core c"
    by (simp add: l2Find_def l2SetOf_def Let_def split: option.splits)
  then show "core (snd (l2ReadLine B c)) = core c" "core (snd (l2Peek32 B c)) = core c"
    by (cases "l2Find B c"; auto simp: l2ReadLine_def l2Peek32_def split: option.splits)+
qed

lemma core_l2Flush [simp]: "core (l2FlushAll wb c) = core c" "core (l2WipeAll c) = core c" "core (l2Resize c) = core c"
  by (simp_all add: l2Resize_def l2FlushAll_def l2WipeAll_def Let_def)

lemma core_l2InstallAt [simp]: "core (l2InstallAt s t b d c) = core c"
  by (simp add: l2InstallAt_def Let_def)

lemma core_l2Install [simp]: "core (l2Install B b d c) = core c"
  by (simp add: l2Install_def Let_def case_prod_beta)

lemma core_l2Invalidate [simp]: "core (l2Invalidate B c) = core c"
  by (simp add: l2Invalidate_def Let_def case_prod_beta)

section \<open>Accesses\<close>

lemma core_line [simp]:
  "core (snd (lineWay a c)) = core c" "core (lineCastout s w t c) = core c" "core (linePush s w t c) = core c"
  "core (lineFill s w a c) = core c"
  by (simp_all add: lineWay_def lineCastout_def linePush_def lineFill_def Let_def case_prod_beta split: option.splits)

lemma core_lineVictim [simp]: "core (snd (lineVictim a c)) = core c"
  by (simp add: lineVictim_def Let_def split: sum.splits)

lemma core_lineAlloc [simp]: "core (snd (lineAlloc a c)) = core c"
  by (simp add: lineAlloc_def case_prod_beta split: option.splits)

lemma core_notes [simp]:
  "core (noteL2Skew a w c) = core c" "core (rpNote a n c) = core c" "core (snd (wpNote a n v c)) = core c"
  by (simp_all add: noteL2Skew_def rpNote_def wpNote_def l2SetOf_def Let_def)

lemma core_memWriteEntry [simp]: "core (snd (memWriteEntry a n v c)) = core c"
  by (simp add: memWriteEntry_def Let_def case_prod_beta)

lemma core_memBlock [simp]: "core (snd (memReadBlock a n w c)) = core c" "core (memWriteBlock a n v w c) = core c"
  by (simp_all add: memReadBlock_def memWriteBlock_def storeLine_def Let_def case_prod_beta split: option.splits)

lemma core_memBytes [simp]:
  "core (snd (memReadBytes a w is v c)) = core c" "core (memWriteBytes a m v w is c) = core c"
  by (induction "is" arbitrary: v c) (simp_all add: case_prod_beta)

lemma core_memRead [simp]: "core (snd (memRead a n w c)) = core c"
  by (simp add: memRead_def)

lemma core_memWrite [simp]: "core (memWrite a n v w c) = core c"
  by (simp add: memWrite_def case_prod_beta)

lemma core_control [simp]:
  "core (dcbzLine a c) = core c" "core (dcbClean a b c) = core c" "core (dcbKill a c) = core c"
  by (simp_all add: dcbzLine_def dcbClean_def dcbKill_def Let_def case_prod_beta split: option.splits)

lemma core_l1dFlushLines [simp]: "core (l1dFlushLines wb ps c) = core c"
  by (induction ps arbitrary: c) (auto simp: Let_def)

lemma core_l1dFlushAll [simp]: "core (l1dFlushAll wb c) = core c"
  by (simp add: l1dFlushAll_def)

lemma core_pte [simp]: "core (snd (pteRead a c)) = core c" "core (pteWrite a v c) = core c"
  by (simp_all add: pteRead_def pteWrite_def)

lemma core_pteSearch [simp]: "core (snd (pteSearch vsid p ps c)) = core c"
proof (induction ps arbitrary: c)
  case (Cons q ps)
  then show ?case by (cases q) (simp add: Let_def case_prod_beta)
qed simp

end
