(* ===== verification/MmuFaults.thy ===== *)
theory MmuFaults
  imports CoreFrame
begin

text \<open>
  The outcome of a translation (\<^verbatim>\<open>Cpu::translate\<close>, \<^verbatim>\<open>core/src/mmu.cpp\<close>): it succeeds
  and touches no architectural register, or it has taken one precise ISI or DSI.
\<close>

section \<open>Faults\<close>

definition faulted :: "u32 \<Rightarrow> bool \<Rightarrow> bool \<Rightarrow> 'b cpu \<Rightarrow> 'b cpu \<Rightarrow> bool" where
  "faulted ea write fetch c c' \<longleftrightarrow> raisedThisStep c' \<and>
     (if fetch then \<exists>code \<in> {0x40000000, 0x08000000, 0x10000000}. st c' = st (raiseExc Isi ea code c)
      else \<exists>code \<in> {0x40000000, 0x08000000, 0x04000000}.
        st c' = st (raiseExc Dsi (pc (st c) - 4) 0
          (c\<lparr>st := (st c)\<lparr>dar := ea, dsisr := code OR (if write then 0x02000000 else 0)\<rparr>\<rparr>)))"

definition xlOutcome :: "u32 \<Rightarrow> bool \<Rightarrow> bool \<Rightarrow> 'b cpu \<Rightarrow> (u32 \<times> u32) option \<times> 'b cpu \<Rightarrow> bool" where
  "xlOutcome ea write fetch c p \<longleftrightarrow>
     (if fst p = None then faulted ea write fetch c (snd p)
      else st (snd p) = st c \<and> raisedThisStep (snd p) = raisedThisStep c)"

lemma xlOutcome_simps [simp]:
  "xlOutcome ea write fetch c (None, c') = faulted ea write fetch c c'"
  "xlOutcome ea write fetch c (Some x, c') = (st c' = st c \<and> raisedThisStep c' = raisedThisStep c)"
  by (simp_all add: xlOutcome_def)

lemma st_raiseExc_cong: "st c1 = st c \<Longrightarrow> st (raiseExc v s0 x c1) = st (raiseExc v s0 x c)"
  by (simp add: raiseExc_def Let_def)

lemma faulted_xlFault:
  assumes "st c1 = st c" "cia = (if fetch then ea else pc (st c) - 4)"
    and "i \<in> {0x40000000, 0x08000000, 0x10000000}" "d \<in> {0x40000000, 0x08000000, 0x04000000}"
  shows "faulted ea write fetch c (xlFault ea write fetch cia i d c1)"
proof (cases fetch)
  case True
  then show ?thesis
    using assms st_raiseExc_cong [OF assms(1), of Isi ea] by (auto simp: faulted_def xlFault_def)
next
  case False
  let ?d = "\<lambda>c. c\<lparr>st := (st c)\<lparr>dar := ea, dsisr := d OR (if write then 0x02000000 else 0)\<rparr>\<rparr>"
  have "st (raiseExc Dsi cia 0 (?d c1)) = st (raiseExc Dsi cia 0 (?d c))"
    by (rule st_raiseExc_cong) (simp add: assms(1))
  with False assms(2,4) show ?thesis unfolding faulted_def xlFault_def xlDsi_def by auto
qed

lemma faulted_isi:
  assumes "st c1 = st c" "i \<in> {0x40000000, 0x08000000, 0x10000000}"
  shows "faulted ea write True c (raiseExc Isi ea i c1)"
  using faulted_xlFault [of c1 c ea True ea i "0x40000000" "write"] assms by (simp add: xlFault_def)

lemma tlb_frame [simp]:
  "st (setTlb f s w e c) = st c" "st (setTlbLru f s v c) = st c"
  "raisedThisStep (setTlb f s w e c) = raisedThisStep c" "raisedThisStep (setTlbLru f s v c) = raisedThisStep c"
  "mmuProbe (setTlb f s w e c) = mmuProbe c" "mmuProbe (setTlbLru f s v c) = mmuProbe c"
  by (simp_all add: setTlb_def setTlbLru_def)

lemma pteUse_outcome:
  assumes "st c1 = st c" "raisedThisStep c1 = raisedThisStep c" "cia = (if fetch then ea else pc (st c) - 4)"
  shows "xlOutcome ea write fetch c (pteUse ea write fetch cia key vsid a c1)"
proof -
  obtain w1 c2 where r: "pteRead (a + 4) c1 = (w1, c2)" by fastforce
  have "core c2 = core c1" using core_pte(1) [of "a + 4" c1] r by simp
  then have c2: "st c2 = st c" "raisedThisStep c2 = raisedThisStep c"
    using core_sel(1,2) assms(1,2) by metis+
  have w: "st (pteWrite x y c2) = st c" "raisedThisStep (pteWrite x y c2) = raisedThisStep c" for x y
    using c2 core_sel(1,2) [OF core_pte(2), of x y c2] by simp_all
  show ?thesis
    unfolding pteUse_def r Let_def prod.case
    by (auto simp: assms(3) c2 w split: if_split intro!: faulted_isi faulted_xlFault)
qed

lemma pageWalk_outcome:
  assumes "st c1 = st c" "raisedThisStep c1 = raisedThisStep c" "cia = (if fetch then ea else pc (st c) - 4)"
  shows "xlOutcome ea write fetch c (pageWalk ea write fetch cia key vsid c1)"
proof -
  obtain r c2 where s: "pteSearch vsid (drop_bit 12 ea AND 0xFFFF) pteSlots c1 = (r, c2)" by fastforce
  have "core c2 = core c1" using core_pteSearch [of vsid "drop_bit 12 ea AND 0xFFFF" pteSlots c1] s by simp
  then have c2: "st c2 = st c" "raisedThisStep c2 = raisedThisStep c"
    using core_sel(1,2) assms(1,2) by metis+
  show ?thesis
    using pteUse_outcome [OF c2 assms(3)] faulted_xlFault [OF c2(1) assms(3)]
    by (cases r) (simp_all add: pageWalk_def s xlOutcome_def)
qed

lemma pageXlate_outcome:
  assumes "cia = (if fetch then ea else pc (st c) - 4)"
  shows "xlOutcome ea write fetch c (pageXlate ea write fetch cia key vsid c)"
proof -
  consider "(if mmuProbe c then None else tlbFind fetch vsid (drop_bit 12 ea AND 0xFFFF) c) = None"
    | way where "(if mmuProbe c then None else tlbFind fetch vsid (drop_bit 12 ea AND 0xFFFF) c) = Some way" by fastforce
  then show ?thesis
  proof cases
    case 1
    then show ?thesis using pageWalk_outcome [OF refl refl assms] by (simp add: pageXlate_def Let_def)
  next
    case 2
    show ?thesis
      unfolding pageXlate_def Let_def 2 option.case
      by (auto simp: assms split: if_split intro!: faulted_isi faulted_xlFault pageWalk_outcome)
  qed
qed

lemma translate_outcome':
  "translate ea write fetch c = (r, c') \<Longrightarrow>
    (if r = None then faulted ea write fetch c c' else st c' = st c \<and> raisedThisStep c' = raisedThisStep c)"
proof -
  assume t: "translate ea write fetch c = (r, c')"
  let ?cia = "if fetch then ea else pc (st c) - 4"
  have seg: "xlOutcome ea write fetch c (segXlate ea write fetch ?cia c)"
    unfolding segXlate_def Let_def
    by (auto split: if_split intro!: faulted_isi faulted_xlFault pageXlate_outcome)
  have "xlOutcome ea write fetch c (translate ea write fetch c)"
    unfolding translate_def Let_def
    using seg by (auto split: if_split option.split intro!: faulted_isi faulted_xlFault)
  then show ?thesis unfolding t by (cases r) simp_all
qed

end
