(* ===== verification/Tlb.thy ===== *)
theory Tlb
  imports MmuFaults FlatBus
begin

text \<open>
  The translation lookaside buffers: the invariant that no two ways of a set hold the same page,
  the entry that grants a translation, and that a granted page keeps hitting at every address of it.
\<close>

section \<open>The TLB invariant\<close>

definition tlbHit :: "u32 \<Rightarrow> u32 \<Rightarrow> tlb_entry \<Rightarrow> bool" where
  "tlbHit vsid p e \<longleftrightarrow> tlbV e \<and> tlbVsid e = vsid \<and> tlbPi e = p"

definition wfTlb :: "bool \<Rightarrow> 'b cpu \<Rightarrow> bool" where
  "wfTlb fetch c \<longleftrightarrow> (\<forall>s < 64. tlbLruOf fetch c s \<le> 1 \<and>
     (\<forall>w \<in> {0, 1}. tlbRpn (tlbOf fetch c s w) AND 0xFFF = 0) \<and>
     (\<forall>vsid p. \<not> (tlbHit vsid p (tlbOf fetch c s 0) \<and> tlbHit vsid p (tlbOf fetch c s 1))))"

lemma tlbFind_cases:
  "tlbFind fetch vsid p c =
     (if tlbHit vsid p (tlbOf fetch c (p AND 63) 0) then Some 0
      else if tlbHit vsid p (tlbOf fetch c (p AND 63) 1) then Some 1 else None)"
  by (simp add: tlbFind_def tlbHit_def Let_def)

lemma tlbOf_set [simp]:
  "tlbOf f (setTlb g s w e c) s' w' = (if f = g \<and> s' = s \<and> w' = w then e else tlbOf f c s' w')"
  "tlbOf f (setTlbLru g s v c) = tlbOf f c" "tlbLruOf f (setTlb g s w e c) = tlbLruOf f c"
  "tlbLruOf f (setTlbLru g s v c) s' = (if f = g \<and> s' = s then v else tlbLruOf f c s')"
  by (auto simp: tlbOf_def tlbLruOf_def setTlb_def setTlbLru_def)

lemma core_tlb: "core c' = core c \<Longrightarrow> tlbOf f c' = tlbOf f c \<and> tlbLruOf f c' = tlbLruOf f c"
  by (simp_all add: core_defs tlbOf_def tlbLruOf_def)

lemma wfTlb_cong: "core c' = core c \<Longrightarrow> wfTlb f c' = wfTlb f c"
  unfolding wfTlb_def by (drule core_tlb [of _ _ f]) (simp only:)

lemma tlbFind_cong: "core c' = core c \<Longrightarrow> tlbFind f vsid p c' = tlbFind f vsid p c"
  unfolding tlbFind_cases by (drule core_tlb [of _ _ f]) (simp only:)

lemma set63: "p AND 63 < (64 :: u32)"
  using and_mask_less [of 6 p] by (simp add: mask_numeral)

lemma word8_le_one: "w \<le> 1 \<longleftrightarrow> w = 0 \<or> w = 1" for w :: u8
  by (auto simp: word_le_nat_alt word_unat_eq_iff)

lemma wfTlb_lru: "wfTlb f c \<Longrightarrow> v \<le> 1 \<Longrightarrow> wfTlb f (setTlbLru g s v c)"
  by (auto simp: wfTlb_def)

lemma wfTlb_kill: "wfTlb f c \<Longrightarrow> wfTlb f (setTlb g s w ((tlbOf g c s w)\<lparr>tlbV := False\<rparr>) c)"
  by (auto simp: wfTlb_def tlbHit_def)

lemma wfTlb_refill:
  assumes "wfTlb f c" "tlbFind g vsid p c = None" "tlbVsid e = vsid" "tlbPi e = p" "w = 0 \<or> w = 1"
    "tlbRpn e AND 0xFFF = 0"
  shows "wfTlb f (setTlb g (p AND 63) w e c)"
  using assms unfolding wfTlb_def tlbFind_cases
  by (auto simp: tlbHit_def split: if_splits)

lemma fault_tlb [simp]:
  "tlbOf f (raiseExc v s x c) = tlbOf f c" "tlbLruOf f (raiseExc v s x c) = tlbLruOf f c"
  "tlbOf f (xlFault ea w g cia i d c) = tlbOf f c" "tlbLruOf f (xlFault ea w g cia i d c) = tlbLruOf f c"
  by (simp_all add: tlbOf_def tlbLruOf_def raiseExc_def xlFault_def xlDsi_def Let_def)

section \<open>Granted translations\<close>

definition granted :: "bool \<Rightarrow> bool \<Rightarrow> bool \<Rightarrow> u32 \<Rightarrow> u32 \<Rightarrow> 'b cpu \<Rightarrow> u32 \<times> u32 \<Rightarrow> bool" where
  "granted fetch write key vsid ea c r \<longleftrightarrow> (\<exists>w \<in> {0, 1}.
     let p = drop_bit 12 ea AND 0xFFFF; e = tlbOf fetch c (p AND 63) w
     in tlbHit vsid p e \<and> (fetch \<longrightarrow> tlbWimg e AND kWimgG = 0) \<and> ppAllows (tlbPp e) key write \<and>
        (write \<longrightarrow> tlbC e) \<and> r = (tlbRpn e OR (ea AND 0xFFF), tlbWimg e))"

lemma pteUse_grants:
  assumes "\<not> mmuProbe c" "tlbFind fetch vsid (drop_bit 12 ea AND 0xFFFF) c = None" "\<And>f. wfTlb f c"
    and "pteUse ea write fetch cia key vsid a c = (Some r, c')"
  shows "wfTlb f c' \<and> granted fetch write key vsid ea c' r"
proof -
  let ?p = "drop_bit 12 ea AND 0xFFFF"
  obtain w1 c1 where rd: "pteRead (a + 4) c = (w1, c1)" by fastforce
  have k1: "core c1 = core c" using core_pte(1) [of "a + 4" c] rd by simp
  define nw where "nw = (if write then (w1 OR 0x100) OR 0x80 else w1 OR 0x100)"
  define c2 where "c2 = (if nw \<noteq> w1 then pteWrite (a + 4) nw c1 else c1)"
  have k2: "core c2 = core c" using k1 by (simp add: c2_def)
  let ?way = "tlbLruOf fetch c2 (?p AND 63)"
  define e where "e = \<lparr>tlbV = True, tlbC = nw AND 0x80 \<noteq> 0, tlbVsid = vsid, tlbPi = ?p,
     tlbRpn = w1 AND 0xFFFFF000, tlbWimg = drop_bit 3 w1 AND 0xF, tlbPp = w1 AND 3\<rparr>"
  have pr: "\<not> mmuProbe c2" using assms(1) core_sel(3) [OF k2] by simp
  have ok: "\<not> (fetch \<and> w1 AND push_bit 3 kWimgG \<noteq> 0)" "ppAllows (w1 AND 3) key write"
    and res: "r = ((w1 AND 0xFFFFF000) OR (ea AND 0xFFF), drop_bit 3 w1 AND 0xF)"
      "c' = setTlbLru fetch (?p AND 63) (?way XOR 1) (setTlb fetch (?p AND 63) (ucast ?way) e c2)"
    using assms(4) pr unfolding pteUse_def rd Let_def prod.case e_def c2_def nw_def
    by (auto split: if_splits)
  have wf2: "wfTlb f c2" for f using assms(3) wfTlb_cong [OF k2] by simp
  then have way: "?way = 0 \<or> ?way = 1" using set63 [of ?p] by (simp add: wfTlb_def word8_le_one)
  then have way': "ucast ?way = (0 :: u32) \<or> ucast ?way = (1 :: u32)" "?way XOR 1 \<le> 1" by auto
  have "tlbFind fetch vsid ?p c2 = None" using assms(2) tlbFind_cong [OF k2] by simp
  then have "wfTlb f (setTlb fetch (?p AND 63) (ucast ?way) e c2)"
    by (rule wfTlb_refill [OF wf2 _ _ _ way'(1)]) (simp_all add: e_def and.assoc)
  then have "wfTlb f c'" unfolding res by (rule wfTlb_lru [OF _ way'(2)])
  moreover have "write \<longrightarrow> nw AND 0x80 \<noteq> 0"
    using and_single_bit_iff [of nw 7] by (simp add: nw_def bit_or_iff)
  moreover have "w1 AND push_bit 3 kWimgG = 0 \<longleftrightarrow> (drop_bit 3 w1 AND 0xF) AND kWimgG = 0"
    using and_single_bit_iff [of w1 3] and_single_bit_iff [of "drop_bit 3 w1" 0]
    by (simp add: and.assoc bit_drop_bit_eq) blast
  ultimately show ?thesis
    using ok way'(1) unfolding granted_def res Let_def
    by (auto simp: e_def tlbHit_def)
qed

lemma pteUse_fault_tlb:
  assumes "pteUse ea write fetch cia key vsid a c = (None, c')"
  shows "tlbOf f c' = tlbOf f c \<and> tlbLruOf f c' = tlbLruOf f c"
proof -
  obtain w1 c1 where rd: "pteRead (a + 4) c = (w1, c1)" by fastforce
  have k1: "core c1 = core c" using core_pte(1) [of "a + 4" c] rd by simp
  then have "core (pteWrite x y c1) = core c" for x y by simp
  from this [THEN core_tlb [of _ _ f]] core_tlb [OF k1, of f] show ?thesis
    using assms unfolding pteUse_def rd Let_def prod.case
    by (auto simp: fault_tlb split: if_splits)
qed

lemma pageWalk_tlb:
  assumes "\<not> mmuProbe c" "tlbFind fetch vsid (drop_bit 12 ea AND 0xFFFF) c = None" "\<And>f. wfTlb f c"
    and "pageWalk ea write fetch cia key vsid c = (r, c')"
  shows "wfTlb f c' \<and> (case r of None \<Rightarrow> True | Some x \<Rightarrow> granted fetch write key vsid ea c' x)"
proof -
  obtain q c1 where s: "pteSearch vsid (drop_bit 12 ea AND 0xFFFF) pteSlots c = (q, c1)" by fastforce
  have k: "core c1 = core c" using core_pteSearch [of vsid "drop_bit 12 ea AND 0xFFFF" pteSlots c] s by simp
  have pr: "\<not> mmuProbe c1" "tlbFind fetch vsid (drop_bit 12 ea AND 0xFFFF) c1 = None" "wfTlb f c1" for f
    using assms(1-3) core_sel(3) [OF k] tlbFind_cong [OF k] wfTlb_cong [OF k] by simp_all
  show ?thesis
  proof (cases q)
    case None
    then have "r = None" "c' = xlFault ea write fetch cia 0x40000000 0x40000000 c1"
      using assms(4) by (simp_all add: pageWalk_def s)
    then show ?thesis using pr(3) by (simp add: wfTlb_def fault_tlb)
  next
    case (Some a)
    then have u: "pteUse ea write fetch cia key vsid a c1 = (r, c')" using assms(4) by (simp add: pageWalk_def s)
    show ?thesis
    proof (cases r)
      case None
      with pteUse_fault_tlb [of ea "write" fetch cia key vsid a c1 c' f] u pr(3) [of f] show ?thesis by (simp add: wfTlb_def)
    next
      case (Some x)
      with pteUse_grants [OF pr u [unfolded Some]] show ?thesis by simp
    qed
  qed
qed

lemma pageXlate_tlb:
  assumes "\<not> mmuProbe c" "\<And>f. wfTlb f c"
    and "pageXlate ea write fetch cia key vsid c = (r, c')"
  shows "wfTlb f c' \<and> (case r of None \<Rightarrow> True | Some x \<Rightarrow> granted fetch write key vsid ea c' x)"
proof (cases "tlbFind fetch vsid (drop_bit 12 ea AND 0xFFFF) c")
  case None
  from assms(3) show ?thesis
    unfolding pageXlate_def Let_def if_not_P [OF assms(1)] None option.case by (rule pageWalk_tlb [OF assms(1) None assms(2)])
next
  case (Some way)
  let ?p = "drop_bit 12 ea AND 0xFFFF"
  let ?e = "tlbOf fetch c (?p AND 63) way"
  have ht: "tlbHit vsid ?p ?e" "way = 0 \<or> way = 1" using Some by (auto simp: tlbFind_cases split: if_splits)
  let ?k = "setTlb fetch (?p AND 63) way (?e\<lparr>tlbV := False\<rparr>) c"
  have wk: "wfTlb f ?k" for f by (rule wfTlb_kill [OF assms(2)])
  have "\<not> (tlbHit vsid ?p (tlbOf fetch c (?p AND 63) 0) \<and> tlbHit vsid ?p (tlbOf fetch c (?p AND 63) 1))"
    using assms(2) [of fetch] set63 [of ?p] by (simp add: wfTlb_def)
  then have miss: "tlbFind fetch vsid ?p ?k = None"
    using ht by (auto simp: tlbFind_cases) (auto simp: tlbHit_def)
  have walk: "pageWalk ea write fetch cia key vsid ?k = (r, c') \<Longrightarrow> ?thesis"
    by (rule pageWalk_tlb [OF _ miss wk]) (simp_all add: assms(1))
  have lru: "(ucast (way XOR 1) :: u8) \<le> 1" using ht(2) by auto
  note px = assms(3) [unfolded pageXlate_def Let_def if_not_P [OF assms(1)] Some option.case]
  consider (guarded) "fetch \<and> tlbWimg ?e AND kWimgG \<noteq> 0"
    | (denied) "\<not> (fetch \<and> tlbWimg ?e AND kWimgG \<noteq> 0)" "\<not> ppAllows (tlbPp ?e) key write"
    | (clean) "\<not> (fetch \<and> tlbWimg ?e AND kWimgG \<noteq> 0)" "ppAllows (tlbPp ?e) key write" "write \<and> \<not> tlbC ?e"
    | (hit) "\<not> (fetch \<and> tlbWimg ?e AND kWimgG \<noteq> 0)" "ppAllows (tlbPp ?e) key write" "\<not> (write \<and> \<not> tlbC ?e)"
    by blast
  then show ?thesis
  proof cases
    case guarded
    then have "r = None" "c' = raiseExc Isi cia 0x10000000 c" using px unfolding if_P [OF guarded] by simp_all
    then show ?thesis using assms(2) [of f] by (simp add: wfTlb_def)
  next
    case denied
    then have "r = None" "c' = xlFault ea write fetch cia 0x08000000 0x08000000 c"
      using px unfolding if_not_P [OF denied(1)] if_P [OF denied(2)] by simp_all
    then show ?thesis using assms(2) [of f] by (simp add: wfTlb_def)
  next
    case clean
    then have nn: "\<not> \<not> ppAllows (tlbPp ?e) key write" by simp
    from px walk show ?thesis unfolding if_not_P [OF clean(1)] if_not_P [OF nn] if_P [OF clean(3)] by blast
  next
    case hit
    then have nn: "\<not> \<not> ppAllows (tlbPp ?e) key write" by simp
    from px have res: "r = Some (tlbRpn ?e OR (ea AND 0xFFF), tlbWimg ?e)"
      "c' = setTlbLru fetch (?p AND 63) (ucast (way XOR 1)) c"
      unfolding if_not_P [OF hit(1)] if_not_P [OF nn] if_not_P [OF hit(3)] by simp_all
    then have "wfTlb f c'" using wfTlb_lru [OF assms(2) lru] by simp
    moreover have "granted fetch write key vsid ea c' (tlbRpn ?e OR (ea AND 0xFFF), tlbWimg ?e)"
      unfolding granted_def Let_def using ht hit res(2) by (intro bexI [of _ way]) auto
    ultimately show ?thesis using res(1) by simp
  qed
qed

section \<open>A granted page keeps hitting\<close>

lemma page_offset: "(rpn OR (ea AND 0xFFF)) AND NOT 0xFFF = rpn" if "rpn AND 0xFFF = 0" for rpn ea :: u32
proof (rule bit_word_eqI)
  fix n assume "n < LENGTH(32)"
  have "\<not> bit (rpn AND 0xFFF) n" using that by simp
  then show "bit ((rpn OR (ea AND 0xFFF)) AND NOT 0xFFF) n = bit rpn n"
    unfolding bit_and_iff bit_or_iff bit_not_iff using \<open>n < LENGTH(32)\<close> by auto
qed

lemma same_page_low: "drop_bit 12 ea' = drop_bit 12 ea \<Longrightarrow> drop_bit 28 ea' = drop_bit 28 ea" for ea ea' :: u32
  using drop_bit_drop_bit [of 16 12 ea] drop_bit_drop_bit [of 16 12 ea'] by simp

lemma granted_hits:
  assumes "\<not> mmuProbe c" "wfTlb fetch c" "granted fetch write key vsid ea c (pa, wimg)"
    and "drop_bit 12 ea' = drop_bit 12 ea"
  shows "\<exists>lru. pageXlate ea' write fetch cia key vsid c =
    (Some ((pa AND NOT 0xFFF) OR (ea' AND 0xFFF), wimg), setTlbLru fetch ((drop_bit 12 ea AND 0xFFFF) AND 63) lru c)"
proof -
  let ?p = "drop_bit 12 ea AND 0xFFFF"
  obtain w where w: "w = 0 \<or> w = 1" and g: "tlbHit vsid ?p (tlbOf fetch c (?p AND 63) w)"
    "fetch \<longrightarrow> tlbWimg (tlbOf fetch c (?p AND 63) w) AND kWimgG = 0" "ppAllows (tlbPp (tlbOf fetch c (?p AND 63) w)) key write"
    "write \<longrightarrow> tlbC (tlbOf fetch c (?p AND 63) w)" "pa = tlbRpn (tlbOf fetch c (?p AND 63) w) OR (ea AND 0xFFF)"
    "wimg = tlbWimg (tlbOf fetch c (?p AND 63) w)"
    using assms(3) unfolding granted_def Let_def by blast
  have wf: "tlbRpn (tlbOf fetch c (?p AND 63) w) AND 0xFFF = 0"
    "\<not> (tlbHit vsid ?p (tlbOf fetch c (?p AND 63) 0) \<and> tlbHit vsid ?p (tlbOf fetch c (?p AND 63) 1))"
    using assms(2) set63 [of ?p] w unfolding wfTlb_def by blast+
  have "tlbFind fetch vsid ?p c = Some w" using w g(1) wf(2) by (auto simp: tlbFind_cases)
  then show ?thesis
    using assms(1,4) g page_offset [OF wf(1), of ea] unfolding pageXlate_def Let_def by auto
qed

section \<open>Translation and the TLBs\<close>

definition wfTlbs :: "'b cpu \<Rightarrow> bool" where
  "wfTlbs c \<longleftrightarrow> wfTlb True c \<and> wfTlb False c"

lemma wfTlbsD: "wfTlbs c \<Longrightarrow> wfTlb f c"
  by (cases f) (simp_all add: wfTlbs_def)

lemma wfTlbsI: "(\<And>f. wfTlb f c) \<Longrightarrow> wfTlbs c"
  by (simp add: wfTlbs_def)

definition segKey :: "u32 \<Rightarrow> 'b cpu \<Rightarrow> bool" where
  "segKey ea c \<longleftrightarrow>
     (let s = sr (st c) (drop_bit 28 ea)
      in if userMode c then s AND 0x20000000 \<noteq> 0 else s AND 0x40000000 \<noteq> 0)"

definition segVsid :: "u32 \<Rightarrow> 'b cpu \<Rightarrow> u32" where
  "segVsid ea c = sr (st c) (drop_bit 28 ea) AND 0x00FFFFFF"

definition batOf :: "bool \<Rightarrow> u32 \<Rightarrow> 'b cpu \<Rightarrow> bat_hit option" where
  "batOf fetch ea c =
     (if fetch then batLookup (ibatu (st c)) (ibatl (st c)) ea (userMode c)
      else batLookup (dbatu (st c)) (dbatl (st c)) ea (userMode c))"

definition realMode :: "bool \<Rightarrow> 'b cpu \<Rightarrow> bool" where
  "realMode fetch c \<longleftrightarrow> msr (st c) AND (if fetch then MSR_IR else MSR_DR) = 0"

definition realWimg :: "u32 \<Rightarrow> 'b cpu \<Rightarrow> u32" where
  "realWimg ea c = (if realModeInhibitBase c \<noteq> 0 \<and> realModeInhibitBase c \<le> ea
     then kWimgReal OR kWimgI else kWimgReal)"

text \<open>Where a successful translation came from: real mode, a block register, or a TLB entry.\<close>

definition mapped :: "bool \<Rightarrow> bool \<Rightarrow> u32 \<Rightarrow> 'b cpu \<Rightarrow> 'b cpu \<Rightarrow> u32 \<times> u32 \<Rightarrow> bool" where
  "mapped fetch write ea c c' r \<longleftrightarrow>
     (if realMode fetch c then r = (ea, realWimg ea c)
      else case batOf fetch ea c of
        Some h \<Rightarrow> r = (bhPa h, bhWimg h) \<and> bhPp h \<noteq> 0 \<and> (write \<longrightarrow> bhPp h AND 1 = 0)
          \<and> (fetch \<longrightarrow> bhWimg h AND kWimgG = 0)
      | None \<Rightarrow> sr (st c) (drop_bit 28 ea) AND 0x80000000 = 0
          \<and> (fetch \<longrightarrow> sr (st c) (drop_bit 28 ea) AND 0x10000000 = 0)
          \<and> granted fetch write (segKey ea c) (segVsid ea c) ea c' r)"

lemma translate_tlb:
  assumes "\<not> mmuProbe c" "wfTlbs c" "translate ea write fetch c = (r, c')"
  shows "wfTlbs c' \<and> (case r of None \<Rightarrow> True | Some x \<Rightarrow> mapped fetch write ea c c' x)"
proof -
  let ?cia = "if fetch then ea else pc (st c) - 4"
  let ?s = "sr (st c) (drop_bit 28 ea)"
  have quiet: "wfTlbs (raiseExc v x y c)" "wfTlbs (xlFault ea write fetch z i d c)" for v x y z i d
    using assms(2) by (simp_all add: wfTlbs_def wfTlb_def)
  note page = pageXlate_tlb [OF assms(1) wfTlbsD [OF assms(2)]]
  have seg: "wfTlbs c1 \<and> (case q of None \<Rightarrow> True | Some x \<Rightarrow> ?s AND 0x80000000 = 0 \<and> (fetch \<longrightarrow> ?s AND 0x10000000 = 0)
      \<and> granted fetch write (segKey ea c) (segVsid ea c) ea c1 x)"
    if s: "segXlate ea write fetch ?cia c = (q, c1)" for q c1
  proof -
    consider "?s AND 0x80000000 \<noteq> 0" | "?s AND 0x80000000 = 0" "fetch \<and> ?s AND 0x10000000 \<noteq> 0"
      | "?s AND 0x80000000 = 0" "\<not> (fetch \<and> ?s AND 0x10000000 \<noteq> 0)" by blast
    then show ?thesis
    proof cases
      case 1
      then show ?thesis using s quiet unfolding segXlate_def Let_def by auto
    next
      case 2
      then show ?thesis using s quiet unfolding segXlate_def Let_def if_P [OF 2(2)] by auto
    next
      case 3
      then have "pageXlate ea write fetch ?cia (segKey ea c) (segVsid ea c) c = (q, c1)"
        using s unfolding segXlate_def Let_def if_not_P [OF 3(2)] segKey_def segVsid_def by simp
      from page [OF this] 3 show ?thesis by (auto intro: wfTlbsI split: option.splits)
    qed
  qed
  show ?thesis
  proof (cases "realMode fetch c")
    case True
    then show ?thesis using assms(2,3) by (auto simp: translate_def realMode_def mapped_def realWimg_def split: if_splits)
  next
    case nr: False
    note t = assms(3) [unfolded translate_def if_not_P [OF nr [unfolded realMode_def]] Let_def, folded batOf_def]
    show ?thesis
    proof (cases "batOf fetch ea c")
      case None
      then have "segXlate ea write fetch ?cia c = (r, c')" using t by simp
      from seg [OF this] show ?thesis using nr None by (auto simp: mapped_def split: option.splits)
    next
      case (Some h)
      note t' = t [unfolded Some option.case]
      consider "fetch \<and> bhWimg h AND kWimgG \<noteq> 0"
        | "\<not> (fetch \<and> bhWimg h AND kWimgG \<noteq> 0)" "bhPp h = 0 \<or> write \<and> bhPp h AND 1 \<noteq> 0"
        | "\<not> (fetch \<and> bhWimg h AND kWimgG \<noteq> 0)" "\<not> (bhPp h = 0 \<or> write \<and> bhPp h AND 1 \<noteq> 0)" by blast
      then show ?thesis
      proof cases
        case 1
        then show ?thesis using t' quiet unfolding if_P [OF 1] by auto
      next
        case 2
        then show ?thesis using t' quiet unfolding if_not_P [OF 2(1)] if_P [OF 2(2)] by auto
      next
        case 3
        then show ?thesis using t' assms(2) nr Some unfolding if_not_P [OF 3(1)] if_not_P [OF 3(2)]
          by (auto simp: mapped_def)
      qed
    qed
  qed
qed

section \<open>Other addresses of the same page\<close>

lemma aligned_le_page:
  fixes b ea ea' :: u32
  assumes "b AND 0xFFF = 0" "drop_bit 12 ea' = drop_bit 12 ea"
  shows "b \<le> ea' \<longleftrightarrow> b \<le> ea"
proof -
  have "unat b mod 2 ^ 12 = 0" using assms(1) unat_and_mask [of b 12] by (simp add: mask_numeral)
  then obtain k where k: "unat b = 2 ^ 12 * k" by (metis mod_0_imp_dvd dvdE)
  have "b \<le> x \<longleftrightarrow> k \<le> unat (drop_bit 12 x)" for x
    by (simp add: word_le_nat_alt k unat_drop_bit less_eq_div_iff_mult_less_eq mult.commute)
  with assms(2) show ?thesis by simp
qed

lemma bat_same_page:
  assumes "drop_bit 12 ea' = drop_bit 12 ea"
  shows "batMatch u ea' user = batMatch u ea user"
    "bhPp (batTranslate u l ea') = bhPp (batTranslate u l ea)"
    "bhWimg (batTranslate u l ea') = bhWimg (batTranslate u l ea)"
    "bhPa (batTranslate u l ea') = (bhPa (batTranslate u l ea) AND NOT 0xFFF) OR (ea' AND 0xFFF)"
proof -
  have h: "drop_bit 17 ea' = drop_bit 17 ea"
    using assms drop_bit_drop_bit [of 5 12 ea] drop_bit_drop_bit [of 5 12 ea'] by simp
  then show "batMatch u ea' user = batMatch u ea user" by (simp add: batMatch_def)
  show "bhPp (batTranslate u l ea') = bhPp (batTranslate u l ea)"
    "bhWimg (batTranslate u l ea') = bhWimg (batTranslate u l ea)" by (simp_all add: batTranslate_def Let_def)
  have b: "bit ea' (n + 12) = bit ea (n + 12)" for n 
    using arg_cong [OF assms, of "\<lambda>x. bit x n"] by (simp add: bit_drop_bit_eq add.commute)
  have m: "bit (0x1FFFF :: u32) n \<longleftrightarrow> n < 17" "bit (0xFFF :: u32) n \<longleftrightarrow> n < 12" for n
    using bit_mask_iff [of 17 n, where ?'a = u32] bit_mask_iff [of 12 n, where ?'a = u32] by (auto simp: mask_numeral)
  show "bhPa (batTranslate u l ea') = (bhPa (batTranslate u l ea) AND NOT 0xFFF) OR (ea' AND 0xFFF)"
    unfolding batTranslate_def Let_def h bat_hit.select_convs
  proof (rule bit_word_eqI)
    fix n assume "n < LENGTH(32)"
    show "bit (push_bit 17 x OR (ea' AND 0x1FFFF)) n \<longleftrightarrow> bit (((push_bit 17 x OR (ea AND 0x1FFFF)) AND NOT 0xFFF) OR (ea' AND 0xFFF)) n" for x
      using b [of "n - 12"] \<open>n < LENGTH(32)\<close>
      by (cases "n < 12") (simp_all only: bit_or_iff bit_and_iff bit_not_iff bit_push_bit_iff m, auto)
  qed
qed

lemma batOf_same_page:
  assumes "drop_bit 12 ea' = drop_bit 12 ea" "st c' = st c"
  shows "batOf fetch ea' c' = map_option (\<lambda>h. h\<lparr>bhPa := (bhPa h AND NOT 0xFFF) OR (ea' AND 0xFFF)\<rparr>) (batOf fetch ea c)"
proof -
  have "userMode c' = userMode c" using assms(2) by (simp add: userMode_def)
  moreover have "batLookup u l ea' us = map_option (\<lambda>h. h\<lparr>bhPa := (bhPa h AND NOT 0xFFF) OR (ea' AND 0xFFF)\<rparr>) (batLookup u l ea us)" for u l us
    unfolding batLookup_def bat_same_page(1) [OF assms(1)] option.map_comp
    by (rule option.map_cong [OF refl]) (simp add: bat_same_page [OF assms(1)] bat_hit.equality)
  ultimately show ?thesis using assms(2) by (simp add: batOf_def)
qed

end
