(* ===== verification/MmuProps.thy ===== *)
theory MmuProps
  imports Tlb
begin

text \<open>
  The properties of the memory management unit: every translation is authorised by a block
  register or a TLB entry, faults are precise, the one-page data cache is transparent, tlbie
  forces a page table search, and the TLBs stay well formed from reset on.
\<close>

section \<open>Repeated translations\<close>

lemma busSt_setTlbLru: "busSt (setTlbLru f s v c) = busSt c"
  by (simp add: setTlbLru_def)

lemma mapped_cong:
  "tlbOf fetch c2 (drop_bit 12 ea AND 63) = tlbOf fetch c1 (drop_bit 12 ea AND 63) \<Longrightarrow>
    mapped fetch write ea c c2 r = mapped fetch write ea c c1 r"
  by (cases fetch) (simp_all add: mapped_def granted_def and.assoc cong: option.case_cong)

lemma mapped_hits:
  assumes "\<not> mmuProbe c'" "wfTlbs c'" "mapped fetch write ea c c' (pa, wimg)"
    and "userMode c' = userMode c" "realMode fetch c' = realMode fetch c" "batOf fetch ea c' = batOf fetch ea c"
    and "sr (st c') (drop_bit 28 ea) = sr (st c) (drop_bit 28 ea)"
    and "drop_bit 12 ea' = drop_bit 12 ea" "realModeInhibitBase c AND 0xFFF = 0"
    "realModeInhibitBase c' = realModeInhibitBase c"
  shows "fst (translate ea' write fetch c') = Some ((pa AND NOT 0xFFF) OR (ea' AND 0xFFF), wimg) \<and>
    busSt (snd (translate ea' write fetch c')) = busSt c'"
proof -
  note u = assms(4) and rm = assms(5) and page = assms(8)
  have b: "batOf fetch ea' c' = map_option (\<lambda>h. h\<lparr>bhPa := (bhPa h AND NOT 0xFFF) OR (ea' AND 0xFFF)\<rparr>) (batOf fetch ea c)"
    using batOf_same_page [OF page refl, of fetch c'] by (simp only: assms(6))
  show ?thesis
  proof (cases "realMode fetch c")
    case True
    then have e: "pa = ea" "wimg = realWimg ea c" using assms(3) by (simp_all add: mapped_def)
    have w: "realWimg ea' c' = realWimg ea c"
      using aligned_le_page [OF assms(9) page] assms(10) by (simp add: realWimg_def)
    have "(ea AND NOT 0xFFF) OR (ea' AND 0xFFF) = ea'"
    proof (rule bit_word_eqI)
      fix n assume n: "n < LENGTH(32)"
      have m: "bit (0xFFF :: u32) n \<longleftrightarrow> n < 12"
        using bit_mask_iff [of 12 n, where ?'a = u32] by (auto simp: mask_numeral)
      have "bit ea' (n - 12 + 12) = bit ea (n - 12 + 12)"
        using arg_cong [OF page, of "\<lambda>x. bit x (n - 12)"] by (simp add: bit_drop_bit_eq add.commute)
      then show "bit ((ea AND NOT 0xFFF) OR (ea' AND 0xFFF)) n = bit ea' n"
        using n by (cases "n < 12") (simp_all only: bit_or_iff bit_and_iff bit_not_iff m, auto)
    qed
    then show ?thesis
      using True rm w e unfolding translate_def realMode_def [symmetric] realWimg_def [symmetric] by simp
  next
    case nr: False
    then have nr': "\<not> msr (st c') AND (if fetch then MSR_IR else MSR_DR) = 0" using rm by (simp add: realMode_def)
    note t = translate_def [of ea' "write" fetch c', unfolded if_not_P [OF nr'] Let_def, folded batOf_def]
    show ?thesis
    proof (cases "batOf fetch ea c")
      case (Some h)
      then have g: "pa = bhPa h" "wimg = bhWimg h" "bhPp h \<noteq> 0" "write \<longrightarrow> bhPp h AND 1 = 0"
        "fetch \<longrightarrow> bhWimg h AND kWimgG = 0"
        using assms(3) nr by (simp_all add: mapped_def)
      show ?thesis unfolding t b Some using g by auto
    next
      case None
      let ?s = "sr (st c) (drop_bit 28 ea)"
      have hi: "drop_bit 28 ea' = drop_bit 28 ea" by (rule same_page_low [OF page])
      have g: "?s AND 0x80000000 = 0" "fetch \<longrightarrow> ?s AND 0x10000000 = 0"
        "granted fetch write (segKey ea c) (segVsid ea c) ea c' (pa, wimg)"
        using assms(3) nr None by (simp_all add: mapped_def)
      have k: "segKey ea' c' = segKey ea c" "segVsid ea' c' = segVsid ea c"
        by (simp_all add: segKey_def segVsid_def hi assms(7) u)
      have "segXlate ea' write fetch cia c' = pageXlate ea' write fetch cia (segKey ea c) (segVsid ea c) c'" for cia
        using g(1,2) unfolding k [symmetric] segXlate_def segKey_def segVsid_def Let_def hi assms(7) u by auto
      moreover have "\<exists>lru. pageXlate ea' write fetch cia (segKey ea c) (segVsid ea c) c' =
          (Some ((pa AND NOT 0xFFF) OR (ea' AND 0xFFF), wimg), setTlbLru fetch ((drop_bit 12 ea AND 0xFFFF) AND 63) lru c')" for cia
        by (rule granted_hits [OF assms(1) wfTlbsD [OF assms(2)] g(3) page])
      then have "fst (pageXlate ea' write fetch cia (segKey ea c) (segVsid ea c) c') = Some ((pa AND NOT 0xFFF) OR (ea' AND 0xFFF), wimg)
          \<and> busSt (snd (pageXlate ea' write fetch cia (segKey ea c) (segVsid ea c) c')) = busSt c'" for cia
        by (metis fst_conv snd_conv busSt_setTlbLru)
      ultimately show ?thesis unfolding t b None by simp
    qed
  qed
qed

section \<open>The one-page caches\<close>

lemma coreXl_tlb [simp]: "coreXl (setTlb f s w e c) = coreXl c" "coreXl (setTlbLru f s v c) = coreXl c"
  "coreXl (raiseExc x y z c) = coreXl c" "coreXl (xlFault ea w' f cia i d c) = coreXl c"
  by (simp_all add: coreXl_def flRows_def setTlb_def setTlbLru_def raiseExc_def xlFault_def xlDsi_def Let_def)

lemma flags_tlb [simp]:
  "realModeInhibitBase (setTlb f s w e c) = realModeInhibitBase c" "realModeInhibitBase (setTlbLru f s v c) = realModeInhibitBase c"
  "realModeInhibitBase (raiseExc x y z c) = realModeInhibitBase c" "realModeInhibitBase (xlFault ea w' f cia i d c) = realModeInhibitBase c"
  "mmuProbe (raiseExc x y z c) = mmuProbe c" "mmuProbe (xlFault ea w' f cia i d c) = mmuProbe c"
  by (simp_all add: setTlb_def setTlbLru_def raiseExc_def xlFault_def xlDsi_def Let_def)

definition xlFrame :: "'b cpu \<Rightarrow> 'b cpu \<Rightarrow> bool" where
  "xlFrame c c' \<longleftrightarrow> coreXl c' = coreXl c \<and> realModeInhibitBase c' = realModeInhibitBase c \<and> mmuProbe c' = mmuProbe c"

lemma xlFrame_core: "core c1 = core c \<Longrightarrow> xlFrame c c1"
  by (simp add: core_defs xlFrame_def)

lemma xlFrame_trans: "xlFrame c c1 \<Longrightarrow> xlFrame c1 c2 \<Longrightarrow> xlFrame c c2"
  by (simp add: xlFrame_def)

lemma xlFrame_step:
  "xlFrame c (setTlb f s w e d) = xlFrame c d" "xlFrame c (setTlbLru f s v d) = xlFrame c d"
  "xlFrame c (raiseExc x y z d) = xlFrame c d" "xlFrame c (xlFault ea w' f cia i j d) = xlFrame c d"
  by (simp_all add: xlFrame_def)

lemma pteUse_frame: "xlFrame c (snd (pteUse ea write fetch cia key vsid a c))"
proof -
  obtain w1 c1 where rd: "pteRead (a + 4) c = (w1, c1)" by fastforce
  have "core c1 = core c" using core_pte(1) [of "a + 4" c] rd by simp
  then have "xlFrame c c1" "xlFrame c (pteWrite x y c1)" for x y by (simp_all add: xlFrame_core)
  then show ?thesis unfolding pteUse_def rd Let_def by (auto simp: xlFrame_step)
qed

lemma pageWalk_frame: "xlFrame c (snd (pageWalk ea write fetch cia key vsid c))"
proof -
  obtain q c1 where s: "pteSearch vsid (drop_bit 12 ea AND 0xFFFF) pteSlots c = (q, c1)" by fastforce
  have "core c1 = core c" using core_pteSearch [of vsid "drop_bit 12 ea AND 0xFFFF" pteSlots c] s by simp
  then have "xlFrame c c1" by (rule xlFrame_core)
  then show ?thesis
    using xlFrame_trans [OF _ pteUse_frame] by (cases q) (simp_all add: pageWalk_def s xlFrame_step)
qed

lemma xlFrame_refl [simp]: "xlFrame c c"
  by (simp add: xlFrame_def)

lemma pageWalk_frame_kill [simp]:
  "xlFrame c (snd (pageWalk ea write fetch cia key vsid (setTlb f s w e c)))"
  by (rule xlFrame_trans [OF _ pageWalk_frame]) (simp add: xlFrame_step)

lemma pageXlate_frame: "xlFrame c (snd (pageXlate ea write fetch cia key vsid c))"
  unfolding pageXlate_def Let_def by (simp add: xlFrame_step pageWalk_frame split: option.split)

lemma segXlate_frame: "xlFrame c (snd (segXlate ea write fetch cia c))"
  unfolding segXlate_def Let_def by (simp add: xlFrame_step pageXlate_frame)

lemma translate_frame: "xlFrame c (snd (translate ea write fetch c))"
  unfolding translate_def Let_def by (simp add: xlFrame_step segXlate_frame split: option.split)

text \<open>
  What may not have changed since a page was cached: the block registers, the TLB's set of the page,
  the translation generation and the cached pages themselves. The MSR, the segment registers, every
  other register, the other TLB sets, the caches and memory are free.
\<close>

definition sameMmu :: "u32 \<Rightarrow> 'b cpu \<Rightarrow> 'b cpu \<Rightarrow> bool" where
  "sameMmu ea c c' \<longleftrightarrow> mmuGen c' = mmuGen c \<and> dxlGen c' = dxlGen c \<and> dxlPage c' = dxlPage c \<and> dxlMsr c' = dxlMsr c \<and>
     dxlSr c' = dxlSr c \<and> dxlPa c' = dxlPa c \<and> dxlWimg c' = dxlWimg c \<and> dxlCacheOff c' = dxlCacheOff c \<and>
     realModeInhibitBase c' = realModeInhibitBase c \<and> dbatu (st c') = dbatu (st c) \<and> dbatl (st c') = dbatl (st c) \<and>
     dtlb c' (drop_bit 12 ea AND 63) = dtlb c (drop_bit 12 ea AND 63)"

abbreviation dataKey :: "'b cpu \<Rightarrow> u32" where
  "dataKey c \<equiv> msr (st c) AND (MSR_DR OR MSR_PR OR MSR_LE)"

lemma dataKey_modes:
  fixes c c' :: "'b cpu"
  assumes "dataKey c' = dataKey c"
  shows "userMode c' = userMode c" "realMode False c' = realMode False c"
proof -
  have k: "msr (st d) AND MSR_PR = dataKey d AND MSR_PR" "msr (st d) AND MSR_DR = dataKey d AND MSR_DR" for d :: "'b cpu"
    by (simp_all add: and.assoc)
  show "userMode c' = userMode c" unfolding userMode_def using k(1) [of c] k(1) [of c'] assms by simp
  show "realMode False c' = realMode False c" unfolding realMode_def if_False using k(2) [of c] k(2) [of c'] assms by simp
qed

text \<open>A cached page answers like a fresh translation in any state whose keys agree.\<close>

lemma cached_page_fresh:
  fixes c c' :: "'b cpu"
  assumes "\<not> mmuProbe c" "wfTlbs c" "realModeInhibitBase c AND 0xFFF = 0" "translate ea d False c = (Some (pa, wimg), c0)"
    and "dtlb c' (drop_bit 12 ea AND 63) = dtlb c0 (drop_bit 12 ea AND 63)" "dbatu (st c') = dbatu (st c)" "dbatl (st c') = dbatl (st c)"
    and "realModeInhibitBase c' = realModeInhibitBase c" "\<not> mmuProbe c'" "wfTlbs c'"
    and "dataKey c' = dataKey c" "sr (st c') (drop_bit 28 ea) = sr (st c) (drop_bit 28 ea)" "drop_bit 12 ea' = drop_bit 12 ea"
  shows "fst (translate ea' d False c') = Some ((pa AND NOT 0xFFF) OR (ea' AND 0xFFF), wimg)"
proof -
  note m = dataKey_modes [OF assms(11)]
  have "mapped False d ea c c0 (pa, wimg)" using translate_tlb [OF assms(1,2,4)] by simp
  then have "mapped False d ea c c' (pa, wimg)"
    using mapped_cong [of False c' ea c0] assms(5) by (simp add: tlbOf_def)
  moreover have "batOf False ea c' = batOf False ea c" using m(1) assms(6,7) by (simp add: batOf_def)
  ultimately show ?thesis
    using mapped_hits [OF assms(9,10) _ m _ assms(12,13,3,8)] by blast
qed

text \<open>
  C29. The one-page cache of the data path is transparent, and never stale: let an access fill it
  while nothing else is cached, and let anything happen afterwards that does not touch the block
  registers, the page's TLB set or the translation generation (the MSR, the segment registers and
  all else may change, so the processor may be in another mode or another address space). Then every
  later access, load or store, to any address, is given what a fresh translation in the later state
  gives; and the same kind of access to the same page under the same mode bits and segment register
  is answered from the cache with the state unchanged.
\<close>

theorem page_cache_transparent:
  assumes "\<not> mmuProbe c" "wfTlbs c" "\<not> dxlCacheOff c" "realModeInhibitBase c AND 0xFFF = 0"
    and "dxlGen c True \<noteq> mmuGen c" "dxlGen c False \<noteq> mmuGen c" "xlateData ea d c = (Some (pa, wimg), c1)"
    and "sameMmu ea c1 c'" "\<not> mmuProbe c'" "wfTlbs c'"
  shows "fst (xlateData ea' d' c') = fst (translate ea' d' False c') \<and>
    (d' = d \<and> drop_bit 12 ea' = drop_bit 12 ea \<and> dataKey c' = dataKey c \<and>
        sr (st c') (drop_bit 28 ea) = sr (st c) (drop_bit 28 ea) \<longrightarrow>
      xlateData ea' d' c' = (Some ((pa AND NOT 0xFFF) OR (ea' AND 0xFFF), wimg), c'))"
proof -
  let ?fill = "\<lambda>c0. c0\<lparr>dxlGen := (dxlGen c0)(d := mmuGen c0), dxlPage := (dxlPage c0)(d := drop_bit 12 ea),
    dxlMsr := (dxlMsr c0)(d := dataKey c), dxlSr := (dxlSr c0)(d := sr (st c) (drop_bit 28 ea)),
    dxlPa := (dxlPa c0)(d := pa AND NOT 0xFFF), dxlWimg := (dxlWimg c0)(d := wimg)\<rparr>"
  obtain q c0 where t0: "translate ea d False c = (q, c0)" by fastforce
  have off: "dxlGen c d \<noteq> mmuGen c" using assms(5,6) by (cases d) simp_all
  have t: "translate ea d False c = (Some (pa, wimg), c0)" and c1: "c1 = ?fill c0"
    using assms(3,7) off t0 by (cases q; force simp: xlateData_def Let_def)+
  have fr: "xlFrame c c0" using translate_frame [of c ea d False] t by simp
  have s0: "st c0 = st c" using translate_outcome' [OF t] by simp
  note same = assms(8) [unfolded sameMmu_def c1]
  have cold: "dxlGen c' (\<not> d) \<noteq> mmuGen c'" using same fr assms(5,6) by (cases d) (simp_all add: xlFrame_def coreXl_def)
  have fresh: "fst (translate e d False c') = Some ((pa AND NOT 0xFFF) OR (e AND 0xFFF), wimg)"
    if "drop_bit 12 e = drop_bit 12 ea" "dataKey c' = dataKey c" "sr (st c') (drop_bit 28 ea) = sr (st c) (drop_bit 28 ea)" for e
    by (rule cached_page_fresh [OF assms(1,2,4) t _ _ _ _ assms(9,10) that(2,3,1)]) (use same fr s0 in \<open>simp_all add: xlFrame_def\<close>)
  let ?hit = "dxlGen c' d' = mmuGen c' \<and> dxlPage c' d' = drop_bit 12 ea' \<and> dxlMsr c' d' = dataKey c' \<and>
    dxlSr c' d' = sr (st c') (drop_bit 28 ea')"
  have hit: "?hit \<longleftrightarrow> d' = d \<and> drop_bit 12 ea' = drop_bit 12 ea \<and> dataKey c' = dataKey c \<and>
      sr (st c') (drop_bit 28 ea) = sr (st c) (drop_bit 28 ea)"
    using cold same same_page_low [of ea' ea] by (cases "d' = d") auto
  have on: "\<not> dxlCacheOff c'" using same fr assms(3) by (simp add: xlFrame_def coreXl_def)
  show ?thesis
  proof (cases ?hit)
    case True
    then have k: "d' = d" "drop_bit 12 ea' = drop_bit 12 ea" "dataKey c' = dataKey c"
      "sr (st c') (drop_bit 28 ea) = sr (st c) (drop_bit 28 ea)" using hit by blast+
    have "dxlPa c' d = pa AND NOT 0xFFF" "dxlWimg c' d = wimg" using same by simp_all
    then have "xlateData ea' d' c' = (Some ((pa AND NOT 0xFFF) OR (ea' AND 0xFFF), wimg), c')"
      using True on unfolding xlateData_def Let_def by (simp add: k(1))
    then show ?thesis using fresh [OF k(2-4)] k(1) by simp
  next
    case False
    then have "fst (xlateData ea' d' c') = fst (translate ea' d' False c')"
      using on unfolding xlateData_def Let_def by (auto split: prod.split option.split)
    then show ?thesis using False hit by blast
  qed
qed

section \<open>Where a translation comes from\<close>

definition tlbCpu :: "flat_bus cpu" where
  "tlbCpu = (flatCpu 64)\<lparr>st := (st (flatCpu 64))\<lparr>msr := 0x10\<rparr>,
     dtlb := (\<lambda>s w. if s = 0 \<and> w = 0 then
       \<lparr>tlbV = True, tlbC = True, tlbVsid = 0, tlbPi = 0, tlbRpn = 0x5000, tlbWimg = 2, tlbPp = 2\<rparr> else emptyTlb)\<rparr>"

lemma tlbCpu_simps [simp]:
  "st tlbCpu = (st (flatCpu 64))\<lparr>msr := 0x10\<rparr>" "mmuProbe tlbCpu = False" "wfTlbs tlbCpu"
  "dxlCacheOff tlbCpu = False" "realModeInhibitBase tlbCpu = 0" "dxlGen tlbCpu d = - 1" "mmuGen tlbCpu = 0"
  by (simp_all add: tlbCpu_def flatCpu_def initCpu_def wfTlbs_def wfTlb_def tlbOf_def tlbLruOf_def tlbHit_def emptyTlb_def)

lemma translate_tlbCpu:
  "translate 0x123 True False tlbCpu = (Some (0x5123, 2), setTlbLru False 0 1 tlbCpu)"
proof -
  have t: "dtlb tlbCpu 0 0 = \<lparr>tlbV = True, tlbC = True, tlbVsid = 0, tlbPi = 0, tlbRpn = 0x5000, tlbWimg = 2, tlbPp = 2\<rparr>"
    by (simp add: tlbCpu_def)
  show ?thesis
    by (simp add: translate_def segXlate_def pageXlate_def tlbFind_def batLookup_def batMatch_def userMode_def
        t tlbOf_def ppAllows_def Let_def flatCpu_def initCpu_def initState_def)
qed

text \<open>
  C7. Every address a translation hands out is authorised: outside real mode it is the
  image under the matching block register, whose protection allows the access, or it is the page of
  a TLB entry for the segment's VSID that grants the access under the segment's key, is marked
  changed when the access is a store, and is not guarded when it is a fetch.
\<close>

theorem translation_is_authorised:
  assumes "\<not> mmuProbe c" "wfTlbs c" "translate ea write fetch c = (Some r, c')"
  shows "mapped fetch write ea c c' r"
  using translate_tlb [OF assms] by simp

theorem translation_is_authorised_witness:
  "mapped False True 0x123 tlbCpu (setTlbLru False 0 1 tlbCpu) (0x5123, 2)"
  by (rule translation_is_authorised [OF _ _ translate_tlbCpu]) simp_all

text \<open>A page cached with translation on is not used once translation is off.\<close>

theorem page_cache_transparent_witness:
  "let c1 = snd (xlateData 0x123 True tlbCpu); c' = c1\<lparr>st := (st c1)\<lparr>msr := 0\<rparr>\<rparr> in
     fst (xlateData 0xFFC True c') = Some (0xFFC, kWimgReal) \<and> fst (xlateData 0xFFC True c1) = Some (0x5FFC, 2)"
proof -
  let ?c1 = "snd (xlateData 0x123 True tlbCpu)" and ?c' = "\<lambda>c1 :: flat_bus cpu. c1\<lparr>st := (st c1)\<lparr>msr := 0\<rparr>\<rparr>"
  have x: "xlateData 0x123 True tlbCpu = (Some (0x5123, 2), ?c1)"
    by (simp add: xlateData_def translate_tlbCpu Let_def)
  obtain c1 where c1: "c1 = ?c1" by blast
  have s: "st c1 = (st (flatCpu 64))\<lparr>msr := 0x10\<rparr>" "\<not> mmuProbe c1" "wfTlbs c1" "realModeInhibitBase c1 = 0"
    by (simp_all add: c1 xlateData_def translate_tlbCpu Let_def setTlbLru_def wfTlbs_def wfTlb_def)
      (simp_all add: tlbOf_def tlbLruOf_def tlbCpu_def flatCpu_def initCpu_def emptyTlb_def tlbHit_def)
  have w: "wfTlbs (?c' c1)" "sameMmu 0x123 c1 (?c' c1)" "sameMmu 0x123 c1 c1" "\<not> mmuProbe (?c' c1)"
    using s(2,3) by (simp_all add: sameMmu_def wfTlbs_def wfTlb_def tlbOf_def tlbLruOf_def s(1))
  note p = page_cache_transparent [OF _ _ _ _ _ _ x [folded c1], simplified tlbCpu_simps, simplified]
  have "fst (xlateData 0xFFC True (?c' c1)) = fst (translate 0xFFC True False (?c' c1))"
    using p [OF w(2,4,1), of "0xFFC" True] by blast
  moreover have "fst (translate 0xFFC True False (?c' c1)) = Some (0xFFC, kWimgReal)"
    by (simp add: translate_def s(4))
  moreover have "xlateData 0xFFC True c1 = (Some ((0x5123 AND NOT 0xFFF) OR (0xFFC AND 0xFFF), 2), c1)"
    using p [OF w(3) s(2,3), of "0xFFC" True] by (simp add: s(1))
  ultimately show ?thesis unfolding c1 [symmetric] by (simp add: Let_def)
qed

text \<open>
  C18. A translation either succeeds and leaves every architectural register and the
  exception flag alone, or it has taken exactly one precise exception: an ISI at the fetch address
  for instruction fetch, a DSI at the current instruction with DAR the address and the store bit
  in DSISR for data.
\<close>

theorem translate_outcome:
  "translate ea write fetch c = (r, c') \<Longrightarrow>
    (if r = None then faulted ea write fetch c c' else st c' = st c \<and> raisedThisStep c' = raisedThisStep c)"
  by (rule translate_outcome')

lemma fault_example:
  "translate 0x1000 True False (tlbCpu\<lparr>st := (st tlbCpu)\<lparr>sr := \<lambda>_. 0x80000000\<rparr>\<rparr>) =
    (None, snd (translate 0x1000 True False (tlbCpu\<lparr>st := (st tlbCpu)\<lparr>sr := \<lambda>_. 0x80000000\<rparr>\<rparr>)))"
  by (simp add: translate_def segXlate_def batLookup_def batMatch_def userMode_def Let_def flatCpu_def initCpu_def initState_def)

theorem translate_outcome_witness:
  "faulted 0x1000 True False (tlbCpu\<lparr>st := (st tlbCpu)\<lparr>sr := \<lambda>_. 0x80000000\<rparr>\<rparr>)
    (snd (translate 0x1000 True False (tlbCpu\<lparr>st := (st tlbCpu)\<lparr>sr := \<lambda>_. 0x80000000\<rparr>\<rparr>)))"
  using translate_outcome [OF fault_example] by simp

section \<open>TLB invalidation\<close>

text \<open>
  After tlbie no entry of the address's congruence class is left in either TLB, so
  the next reference of the class searches the page table and not the one-page data cache; the
  other classes keep their entries.
\<close>

theorem tlbie_forces_walk:
  assumes "ci = tlbInvalidateClass ea c" "(drop_bit 12 ea' AND 0xFFFF) AND 63 = drop_bit 12 ea AND 63" "dxlGen c d \<noteq> mmuGen c + 1"
  shows "pageXlate ea' write fetch cia key vsid ci = pageWalk ea' write fetch cia key vsid ci \<and>
    fst (xlateData ea' d ci) = fst (translate ea' d False ci) \<and>
    (\<forall>p. p AND 63 \<noteq> drop_bit 12 ea AND 63 \<longrightarrow> tlbFind fetch v p ci = tlbFind fetch v p c)"
proof -
  have "tlbFind fetch vsid (drop_bit 12 ea' AND 0xFFFF) ci = None"
    using assms(2) by (simp add: tlbFind_cases tlbHit_def assms(1) tlbInvalidateClass_def tlbOf_def Let_def)
  moreover have "p AND 63 \<noteq> drop_bit 12 ea AND 63 \<Longrightarrow> tlbFind fetch v p ci = tlbFind fetch v p c" for p
    by (simp add: tlbFind_cases assms(1) tlbInvalidateClass_def tlbOf_def Let_def)
  moreover have "dxlGen ci d \<noteq> mmuGen ci" using assms(3) by (simp add: assms(1) tlbInvalidateClass_def Let_def)
  then have "fst (xlateData ea' d ci) = fst (translate ea' d False ci)"
    by (simp add: xlateData_def Let_def case_prod_beta split: option.splits)
  ultimately show ?thesis by (simp add: pageXlate_def Let_def)
qed

theorem tlbie_forces_walk_witness:
  "pageXlate 0x123 True False 0 False 0 (tlbInvalidateClass 0 tlbCpu) =
   pageWalk 0x123 True False 0 False 0 (tlbInvalidateClass 0 tlbCpu)"
  using tlbie_forces_walk [where ea = 0 and ea' = "0x123" and c = tlbCpu and d = True, OF refl] by simp

section \<open>Reachable TLB states\<close>

lemma probe_tlb:
  assumes "mmuProbe c"
  shows "tlbOf f (snd (pageXlate ea write fetch cia key vsid c)) = tlbOf f c \<and>
    tlbLruOf f (snd (pageXlate ea write fetch cia key vsid c)) = tlbLruOf f c"
proof -
  obtain q c1 where s: "pteSearch vsid (drop_bit 12 ea AND 0xFFFF) pteSlots c = (q, c1)" by fastforce
  have k1: "core c1 = core c" using core_pteSearch [of vsid "drop_bit 12 ea AND 0xFFFF" pteSlots c] s by simp
  note t1 = core_tlb [OF k1, of f] and p1 = core_sel(3) [OF k1]
  show ?thesis
  proof (cases q)
    case None
    then show ?thesis using assms t1 by (simp add: pageXlate_def pageWalk_def s Let_def)
  next
    case (Some a)
    obtain w1 c2 where rd: "pteRead (a + 4) c1 = (w1, c2)" by fastforce
    have k2: "core c2 = core c" using core_pte(1) [of "a + 4" c1] rd k1 by simp
    have k3: "core (pteWrite x y c2) = core c" for x y using k2 by simp
    note t2 = core_tlb [OF k2, of f] and p2 = core_sel(3) [OF k2] and t3 = core_tlb [OF k3, of f] and p3 = core_sel(3) [OF k3]
    show ?thesis
      using assms by (simp add: pageXlate_def pageWalk_def s Some pteUse_def rd t2 t3 p2 p3 Let_def)
  qed
qed

lemma wfTlbs_same: "(\<And>f. tlbOf f c' = tlbOf f c \<and> tlbLruOf f c' = tlbLruOf f c) \<Longrightarrow> wfTlbs c' = wfTlbs c"
  by (simp add: wfTlbs_def wfTlb_def)

lemma wfTlbs_translate: "wfTlbs c \<Longrightarrow> wfTlbs (snd (translate ea write fetch c))"
proof (cases "mmuProbe c")
  case False
  assume "wfTlbs c"
  with False show ?thesis using translate_tlb [of c ea "write" fetch] by (metis surjective_pairing)
next
  case True
  assume w: "wfTlbs c"
  have "wfTlbs (snd (pageXlate ea wr fe cia key vsid c))" for wr fe cia key vsid
    using wfTlbs_same [OF probe_tlb [OF True]] w by blast
  moreover have "wfTlbs (raiseExc v s x c)" "wfTlbs (xlFault ea wr fe cia i d c)" for v s x wr fe cia i d
    using w by (simp_all add: wfTlbs_def wfTlb_def)
  moreover from calculation have "wfTlbs (snd (segXlate ea wr fe cia c))" for wr fe cia
    unfolding segXlate_def Let_def by simp
  ultimately show ?thesis
    using w unfolding translate_def Let_def by (simp split: option.split)
qed

inductive mmuStep :: "'b cpu \<Rightarrow> 'b cpu \<Rightarrow> bool" where
  xlate: "mmuStep c (snd (translate ea write fetch c))"
| data: "mmuStep c (snd (xlateData ea d c))"
| code: "mmuStep c (snd (xlateFetch ea c))"
| invalidate: "mmuStep c (tlbInvalidateClass ea c)"
| flush: "mmuStep c (tlbFlushAll c)"
| other: "coreTlb c' = coreTlb c \<Longrightarrow> mmuStep c c'"

lemma mmuStep_wf: "mmuStep c c' \<Longrightarrow> wfTlbs c \<Longrightarrow> wfTlbs c'"
proof (induction rule: mmuStep.induct)
  case (data c ea d)
  obtain q c1 where t: "translate ea d False c = (q, c1)" by fastforce
  have "wfTlbs c1" using wfTlbs_translate [OF data, of ea d False] t by simp
  then show ?case using data t
    by (cases q) (auto simp: xlateData_def Let_def wfTlbs_def wfTlb_def tlbOf_def tlbLruOf_def)
next
  case (code c ea)
  obtain q c1 where t: "translate ea False True c = (q, c1)" by fastforce
  have "wfTlbs c1" using wfTlbs_translate [OF code, of ea False True] t by simp
  then show ?case using code t
    by (cases q) (auto simp: xlateFetch_def Let_def wfTlbs_def wfTlb_def tlbOf_def tlbLruOf_def)
next
  case (other c' c)
  then have "tlbOf f c' = tlbOf f c \<and> tlbLruOf f c' = tlbLruOf f c" for f
    by (simp add: coreTlb_def tlbOf_def tlbLruOf_def)
  with other show ?case using wfTlbs_same by blast
next
  case (xlate c ea wr fe)
  then show ?case by (rule wfTlbs_translate)
qed (auto simp: tlbInvalidateClass_def tlbFlushAll_def Let_def wfTlbs_def wfTlb_def tlbOf_def tlbLruOf_def
    tlbHit_def emptyTlb_def)

lemma reset_wf: "wfTlbs (reset c)"
  by (auto simp: reset_def fetchDrop_def tlbFlushAll_def Let_def wfTlbs_def wfTlb_def tlbOf_def tlbLruOf_def tlbHit_def emptyTlb_def)

text \<open>
  C30. From reset on, under any sequence of translations, page-cache fills, invalidations and
  operations that leave the TLBs alone, both TLBs stay well formed: no two ways of a set hold the
  same page, the LRU bit is a way number and every real page number is page aligned.
\<close>

theorem reachable_tlbs_wellformed: "mmuStep\<^sup>*\<^sup>* (reset c0) c \<Longrightarrow> wfTlbs c"
  by (induction rule: rtranclp_induct) (auto simp: reset_wf mmuStep_wf)

theorem reachable_tlbs_wellformed_witness:
  "wfTlbs (tlbInvalidateClass 0x4000 (snd (translate 0x123 True False (reset tlbCpu))))"
proof -
  have "mmuStep\<^sup>*\<^sup>* (reset tlbCpu) (snd (translate 0x123 True False (reset tlbCpu)))"
    by (rule r_into_rtranclp) (rule mmuStep.xlate)
  then have "mmuStep\<^sup>*\<^sup>* (reset tlbCpu) (tlbInvalidateClass 0x4000 (snd (translate 0x123 True False (reset tlbCpu))))"
    by (rule rtranclp.rtrancl_into_rtrancl) (rule mmuStep.invalidate)
  then show ?thesis by (rule reachable_tlbs_wellformed)
qed

end
