(* ===== verification/ExecSys.thy ===== *)
theory ExecSys
  imports ExecMem
begin

text \<open>
  The system executors of \<^verbatim>\<open>core/src/exec_int.cpp\<close>: the thermal assist unit, the special
  purpose registers with their side effects, MSR and segment registers, cache control and
  TLB invalidation; and the binding of mnemonics to handlers, \<^verbatim>\<open>bindHandlers\<close>. The
  handlers bound by \<^verbatim>\<open>bindFpuHandlers\<close> and \<^verbatim>\<open>bindVecHandlers\<close> are a parameter of the
  dispatch. The L2CR trace to standard error is not part of the state.
\<close>

section \<open>Thermal assist unit\<close>

abbreviation (input) kThrmTin :: u32 where "kThrmTin \<equiv> 0x80000000"
abbreviation (input) kThrmTiv :: u32 where "kThrmTiv \<equiv> 0x40000000"
abbreviation (input) kThrmTid :: u32 where "kThrmTid \<equiv> 0x00000004"
abbreviation (input) kThrmV :: u32 where "kThrmV \<equiv> 0x00000001"
abbreviation (input) kThrm3E :: u32 where "kThrm3E \<equiv> 0x00000001"
abbreviation (input) kJunctionTempC :: u32 where "kJunctionTempC \<equiv> 45"

definition thrmOne :: "bool \<Rightarrow> u32 \<Rightarrow> u32" where
  "thrmOne enabled r0 =
     (let r = r0 AND NOT (kThrmTin OR kThrmTiv) in
      if \<not> enabled \<or> r AND kThrmV = 0 then r
      else let threshold = drop_bit 23 r AND 0x7F;
               hit = (if r AND kThrmTid \<noteq> 0 then kJunctionTempC < threshold
                      else threshold < kJunctionTempC)
           in (if hit then r OR kThrmTin else r) OR kThrmTiv)"

definition thrmUpdate :: "'b cpu \<Rightarrow> 'b cpu" where
  "thrmUpdate c =
     (let enabled = (thrm (st c) 2 AND kThrm3E \<noteq> 0)
      in st_update (thrm_update (\<lambda>t. t(0 := thrmOne enabled (t 0), 1 := thrmOne enabled (t 1)))) c)"

section \<open>Special purpose registers\<close>

text \<open>A pointer into the state: how to read the register and how to change it.\<close>

type_synonym spr_ref = "(cpu_state \<Rightarrow> u32) \<times> ((u32 \<Rightarrow> u32) \<Rightarrow> cpu_state \<Rightarrow> cpu_state)"

definition arrRef :: "(cpu_state \<Rightarrow> u32 \<Rightarrow> u32) \<Rightarrow> (((u32 \<Rightarrow> u32) \<Rightarrow> u32 \<Rightarrow> u32) \<Rightarrow> cpu_state \<Rightarrow> cpu_state)
    \<Rightarrow> u32 \<Rightarrow> spr_ref" where
  "arrRef get upd k = ((\<lambda>s. get s k), (\<lambda>f. upd (\<lambda>a. a(k := f (a k)))))"

definition sprPtr :: "u32 \<Rightarrow> spr_ref option" where
  "sprPtr n =
     (if n = 1 then Some (xer, xer_update)
      else if n = 8 then Some (lr, lr_update)
      else if n = 9 then Some (ctr, ctr_update)
      else if n = 18 then Some (dsisr, dsisr_update)
      else if n = 19 then Some (dar, dar_update)
      else if n = 22 then Some (dec, dec_update)
      else if n = 25 then Some (sdr1, sdr1_update)
      else if n = 26 then Some (srr0, srr0_update)
      else if n = 27 then Some (srr1, srr1_update)
      else if n = 256 then Some (vrsave, vrsave_update)
      else if n \<in> {272, 273, 274, 275} then Some (arrRef sprg sprg_update (n - 272))
      else if n = 282 then Some (ear, ear_update)
      else if n = 287 then Some (pvr, pvr_update)
      else if n \<in> {528, 530, 532, 534} then Some (arrRef ibatu ibatu_update ((n - 528) div 2))
      else if n \<in> {529, 531, 533, 535} then Some (arrRef ibatl ibatl_update ((n - 529) div 2))
      else if n \<in> {536, 538, 540, 542} then Some (arrRef dbatu dbatu_update ((n - 536) div 2))
      else if n \<in> {537, 539, 541, 543} then Some (arrRef dbatl dbatl_update ((n - 537) div 2))
      else if n \<in> {936, 952} then Some (mmcr0, mmcr0_update)
      else if n \<in> {940, 956} then Some (mmcr1, mmcr1_update)
      else if n \<in> {937, 953} then Some (arrRef pmc pmc_update 0)
      else if n \<in> {938, 954} then Some (arrRef pmc pmc_update 1)
      else if n \<in> {941, 957} then Some (arrRef pmc pmc_update 2)
      else if n \<in> {942, 958} then Some (arrRef pmc pmc_update 3)
      else if n \<in> {939, 955} then Some (siar, siar_update)
      else if n \<in> {943, 959} then Some (sdar, sdar_update)
      else if n \<in> {935, 951} then Some (bamr, bamr_update)
      else if n = 1008 then Some (hid0, hid0_update)
      else if n = 1009 then Some (hid1, hid1_update)
      else if n = 1010 then Some (iabr, iabr_update)
      else if n = 1013 then Some (dabr, dabr_update)
      else if n = 1014 then Some (msscr0, msscr0_update)
      else if n = 1015 then Some (msscr1, msscr1_update)
      else if n = 1017 then Some (l2cr, l2cr_update)
      else if n = 1019 then Some (ictc, ictc_update)
      else if n \<in> {1020, 1021, 1022} then Some (arrRef thrm thrm_update (n - 1020))
      else if n = 1023 then Some (pir, pir_update)
      else None)"

definition sprUserReadable :: "u32 \<Rightarrow> bool" where
  "sprUserReadable n \<longleftrightarrow> n \<in> {1, 8, 9, 256, 935, 936, 937, 938, 939, 940, 941, 942, 943}"

definition sprUserWritable :: "u32 \<Rightarrow> bool" where
  "sprUserWritable n \<longleftrightarrow> n = 1 \<or> n = 8 \<or> n = 9 \<or> n = 256"

definition sprAccessFault :: "u32 \<Rightarrow> bool \<Rightarrow> bool \<Rightarrow> 'b cpu \<Rightarrow> bool \<times> 'b cpu" where
  "sprAccessFault n known userAllowed c =
     (if userMode c \<and> \<not> known \<and> n AND 0x10 = 0
      then (True, raiseExc Program (pc (st c) - 4) kSrr1ProgIllegal c)
      else if userMode c \<and> \<not> userAllowed
      then (True, raiseExc Program (pc (st c) - 4) kSrr1ProgPrivileged c)
      else if \<not> known then (True, raiseExc Program (pc (st c) - 4) kSrr1ProgIllegal c)
      else (False, c))"

definition h_mfspr :: "'b cpu \<Rightarrow> u32 \<Rightarrow> 'b cpu" where
  "h_mfspr c i =
     (let n = f_spr i; isTb = (n = 268 \<or> n = 269); p = (if isTb then None else sprPtr n) in
      case sprAccessFault n (isTb \<or> p \<noteq> None) (isTb \<or> sprUserReadable n) c of
        (True, c1) \<Rightarrow> c1
      | (False, c1) \<Rightarrow>
          if n = 268 then (let c2 = syncClock c1 in setGpr (f_rt i) (ucast (tb (st c2))) c2)
          else if n = 269 then
            (let c2 = syncClock c1 in setGpr (f_rt i) (ucast (drop_bit 32 (tb (st c2)))) c2)
          else let c2 = (if n = 22 then syncClock c1 else c1);
                   c3 = (if n = 1020 \<or> n = 1021 then thrmUpdate c2 else c2)
               in case p of None \<Rightarrow> c3 | Some (get, _) \<Rightarrow> setGpr (f_rt i) (get (st c3)) c3)"

definition mtL2cr :: "u32 \<Rightarrow> 'b cpu \<Rightarrow> 'b cpu" where
  "mtL2cr v c =
     (let hwf = (v AND 0x00000800 \<noteq> 0 \<and> l2cr (st c) AND 0x00000800 = 0);
          c1 = st_update (l2cr_update (\<lambda>_. v AND NOT 1 AND NOT 0x00000800)) c;
          c2 = (if hwf then l2FlushAll True c1 else c1);
          c3 = (if v AND 0x00200000 \<noteq> 0 then l2WipeAll c2 else c2)
      in if v AND 0x80000000 \<noteq> 0 then l2Resize c3 else c3)"

definition mtThrm :: "u32 \<Rightarrow> u32 \<Rightarrow> 'b cpu \<Rightarrow> 'b cpu" where
  "mtThrm n v c =
     thrmUpdate (if n = 1022 then st_update (thrm_update (\<lambda>t. t(2 := v))) c
                 else st_update (thrm_update (\<lambda>t. t(n - 1020 := v AND NOT (kThrmTin OR kThrmTiv)))) c)"

definition noteDecSite :: "u32 \<Rightarrow> 'b cpu \<Rightarrow> 'b cpu" where
  "noteDecSite v c =
     (let i = ins c; at = pc (st c) - 4 in
      if length (decByPc i) < 256 \<or> map_of (decByPc i) at \<noteq> None
      then let old = (case map_of (decByPc i) at of Some s \<Rightarrow> s
                      | None \<Rightarrow> \<lparr>dsHits = 0, dsLastVal = 0, dsLastLr = 0, dsLastR24 = 0\<rparr>);
               s = \<lparr>dsHits = dsHits old + 1, dsLastVal = v, dsLastLr = lr (st c), dsLastR24 = gpr (st c) 24\<rparr>
           in c\<lparr>ins := i\<lparr>decByPc := AList.update at s (decByPc i)\<rparr>\<rparr>
      else c)"

definition mtDec :: "u32 \<Rightarrow> 'b cpu \<Rightarrow> 'b cpu" where
  "mtDec v c =
     (let c1 = (syncClock c)\<lparr>batchBreak := True\<rparr>;
          old = dec (st c1);
          c2 = st_update (dec_update (\<lambda>_. v)) c1;
          i = ins c2;
          i1 = i\<lparr>decWrites := decWrites i + 1, decLastWrite := v, decLastWriteTb := tb (st c2)\<rparr>;
          i2 = (if v \<noteq> 0 \<and> v AND 0x80000000 = 0 \<and> ucast v < decMinPeriod i1
                then i1\<lparr>decMinPeriod := ucast v\<rparr> else i1);
          c3 = noteDecSite v (c2\<lparr>ins := i2\<rparr>)
      in if old AND 0x80000000 = 0 \<and> v AND 0x80000000 \<noteq> 0 then c3\<lparr>decPending := True\<rparr> else c3)"

definition mtTbl :: "u32 \<Rightarrow> 'b cpu \<Rightarrow> 'b cpu" where
  "mtTbl v c =
     st_update (tb_update (\<lambda>t. (t AND 0xFFFFFFFF00000000) OR ucast v)) ((syncClock c)\<lparr>batchBreak := True\<rparr>)"

definition mtTbu :: "u32 \<Rightarrow> 'b cpu \<Rightarrow> 'b cpu" where
  "mtTbu v c =
     st_update (tb_update (\<lambda>t. (t AND 0xFFFFFFFF) OR push_bit 32 (ucast v))) ((syncClock c)\<lparr>batchBreak := True\<rparr>)"

definition mtHid0 :: "u32 \<Rightarrow> 'b cpu \<Rightarrow> 'b cpu" where
  "mtHid0 v c =
     (let old = hid0 (st c);
          c1 = st_update (hid0_update (\<lambda>_. v)) c
      in if NOT old AND v AND 0x00000400 \<noteq> 0 then l1dFlushAll False c1 else c1)"

definition h_mtspr :: "'b cpu \<Rightarrow> u32 \<Rightarrow> 'b cpu" where
  "h_mtspr c i =
     (let n = f_spr i; v = gpr (st c) (f_rt i);
          special = (n = 22 \<or> n = 284 \<or> n = 285 \<or> n = 287) in
      case sprAccessFault n (special \<or> sprPtr n \<noteq> None) (sprUserWritable n) c of
        (True, c1) \<Rightarrow> c1
      | (False, c1) \<Rightarrow>
          if n = 1017 then mtL2cr v c1
          else if n = 1020 \<or> n = 1021 \<or> n = 1022 then mtThrm n v c1
          else if n = 22 then mtDec v c1
          else if n = 284 then mtTbl v c1
          else if n = 285 then mtTbu v c1
          else if n = 287 then c1
          else if n = 1008 then mtHid0 v c1
          else let c2 = (if n = 25 \<or> 528 \<le> n \<and> n \<le> 543
                         then c1\<lparr>mmuGen := mmuGen c1 + 1, batchBreak := True\<rparr> else c1)
               in case sprPtr n of None \<Rightarrow> c2 | Some (_, upd) \<Rightarrow> st_update (upd (\<lambda>_. v)) c2)"

definition h_mftb :: "'b cpu \<Rightarrow> u32 \<Rightarrow> 'b cpu" where
  "h_mftb c i =
     (let c1 = syncClock c in
      if f_spr i = 269 then setGpr (f_rt i) (ucast (drop_bit 32 (tb (st c1)))) c1
      else setGpr (f_rt i) (ucast (tb (st c1))) c1)"

section \<open>MSR and segment registers\<close>

definition h_mfmsr :: "'b cpu \<Rightarrow> u32 \<Rightarrow> 'b cpu" where
  "h_mfmsr c i = setGpr (f_rt i) (msr (st c)) c"

definition h_mtmsr :: "'b cpu \<Rightarrow> u32 \<Rightarrow> 'b cpu" where
  "h_mtmsr c i =
     (let c1 = setMsr (gpr (st c) (f_rt i) AND MSR_VALID) c in
      if msr (st c1) AND MSR_POW \<noteq> 0 \<and> hid0 (st c1) AND 0x00E00000 \<noteq> 0
      then c1\<lparr>napping := True, batchBreak := True\<rparr> else c1)"

abbreviation setSr :: "u32 \<Rightarrow> u32 \<Rightarrow> 'b cpu \<Rightarrow> 'b cpu" where
  "setSr k v \<equiv> st_update (sr_update (\<lambda>s. s(k := v)))"

definition h_mtsr :: "'b cpu \<Rightarrow> u32 \<Rightarrow> 'b cpu" where
  "h_mtsr c i = (setSr (f_sr i) (gpr (st c) (f_rt i)) c)\<lparr>batchBreak := True\<rparr>"

definition h_mfsr :: "'b cpu \<Rightarrow> u32 \<Rightarrow> 'b cpu" where
  "h_mfsr c i = setGpr (f_rt i) (sr (st c) (f_sr i)) c"

definition h_mtsrin :: "'b cpu \<Rightarrow> u32 \<Rightarrow> 'b cpu" where
  "h_mtsrin c i =
     (setSr (drop_bit 28 (gpr (st c) (f_rb i))) (gpr (st c) (f_rt i)) c)\<lparr>batchBreak := True\<rparr>"

definition h_mfsrin :: "'b cpu \<Rightarrow> u32 \<Rightarrow> 'b cpu" where
  "h_mfsrin c i = setGpr (f_rt i) (sr (st c) (drop_bit 28 (gpr (st c) (f_rb i)))) c"

section \<open>Cache control, TLB, hints\<close>

definition h_nop :: "'b cpu \<Rightarrow> u32 \<Rightarrow> 'b cpu" where
  "h_nop c i = c"

definition h_tlbie :: "'b cpu \<Rightarrow> u32 \<Rightarrow> 'b cpu" where
  "h_tlbie c i = tlbInvalidateClass (gpr (st c) (f_rb i)) c"

definition h_dcbz :: "'b cpu \<Rightarrow> u32 \<Rightarrow> 'b cpu" where
  "h_dcbz c i =
     (let ea = eaX c i AND NOT 31 in
      if hid0 (st c) AND 0x00004000 = 0 then raiseAlign i ea c
      else case translate ea True False c of
        (None, c1) \<Rightarrow> c1
      | (Some (pa, wimg), c1) \<Rightarrow>
          if wimg AND 0xC \<noteq> 0 then raiseAlign i ea c1 else dcbzLine pa c1)"

definition h_dcbf :: "'b cpu \<Rightarrow> u32 \<Rightarrow> 'b cpu" where
  "h_dcbf c i =
     (case translate (eaX c i AND NOT 31) False False c of
        (None, c1) \<Rightarrow> c1
      | (Some (pa, _), c1) \<Rightarrow> dcbClean pa True c1)"

definition h_dcbst :: "'b cpu \<Rightarrow> u32 \<Rightarrow> 'b cpu" where
  "h_dcbst c i =
     (case translate (eaX c i AND NOT 31) False False c of
        (None, c1) \<Rightarrow> c1
      | (Some (pa, _), c1) \<Rightarrow> dcbClean pa False c1)"

definition h_dcbi :: "'b cpu \<Rightarrow> u32 \<Rightarrow> 'b cpu" where
  "h_dcbi c i =
     (case translate (eaX c i AND NOT 31) True False c of
        (None, c1) \<Rightarrow> c1
      | (Some (pa, _), c1) \<Rightarrow> dcbKill pa c1)"

definition h_icbi :: "'b cpu \<Rightarrow> u32 \<Rightarrow> 'b cpu" where
  "h_icbi c i = fetchDrop c"

section \<open>Binding\<close>

type_synonym 'b handler = "'b cpu \<Rightarrow> u32 \<Rightarrow> 'b cpu"

definition boundHandlers :: "(string \<times> 'b handler) list" where
  "boundHandlers = [
   (''addi'', h_addi), (''addis'', h_addis), (''addic'', h_addic),
   (''addic.'', h_addicRc), (''subfic'', h_subfic), (''mulli'', h_mulli),
   (''ori'', h_ori), (''oris'', h_oris), (''xori'', h_xori),
   (''xoris'', h_xoris), (''andi.'', h_andiRc), (''andis.'', h_andisRc),
   (''cmpi'', h_cmpi), (''cmpli'', h_cmpli), (''cmp'', h_cmp),
   (''cmpl'', h_cmpl), (''twi'', h_twi), (''tw'', h_tw),
   (''rlwinm'', h_rlwinm), (''rlwnm'', h_rlwnm), (''rlwimi'', h_rlwimi),
   (''b'', h_b), (''bc'', h_bc), (''bclr'', h_bclr),
   (''bcctr'', h_bcctr), (''sc'', h_sc), (''rfi'', h_rfi),
   (''add'', h_add), (''addc'', h_addc), (''adde'', h_adde),
   (''addme'', h_addme), (''addze'', h_addze), (''subf'', h_subf),
   (''subfc'', h_subfc), (''subfe'', h_subfe), (''subfme'', h_subfme),
   (''subfze'', h_subfze), (''neg'', h_neg), (''mullw'', h_mullw),
   (''mulhw'', h_mulhw), (''mulhwu'', h_mulhwu), (''divw'', h_divw),
   (''divwu'', h_divwu), (''and'', h_and), (''andc'', h_andcx),
   (''or'', h_or), (''orc'', h_orc), (''xor'', h_xor),
   (''eqv'', h_eqv), (''nor'', h_nor), (''nand'', h_nand),
   (''slw'', h_slw), (''srw'', h_srw), (''sraw'', h_sraw),
   (''srawi'', h_srawi), (''cntlzw'', h_cntlzw), (''extsb'', h_extsb),
   (''extsh'', h_extsh), (''lwz'', h_lwz), (''lbz'', h_lbz),
   (''lhz'', h_lhz), (''lha'', h_lha), (''lwzx'', h_lwzx),
   (''lbzx'', h_lbzx), (''lhzx'', h_lhzx), (''lhax'', h_lhax),
   (''lwzu'', h_lwzu), (''lbzu'', h_lbzu), (''lhzu'', h_lhzu),
   (''lhau'', h_lhau), (''lwzux'', h_lwzux), (''lbzux'', h_lbzux),
   (''lhzux'', h_lhzux), (''lhaux'', h_lhaux), (''stw'', h_stw),
   (''stb'', h_stb), (''sth'', h_sth), (''stwx'', h_stwx),
   (''stbx'', h_stbx), (''sthx'', h_sthx), (''stwu'', h_stwu),
   (''stbu'', h_stbu), (''sthu'', h_sthu), (''stwux'', h_stwux),
   (''stbux'', h_stbux), (''sthux'', h_sthux), (''lwbrx'', h_lwbrx),
   (''lhbrx'', h_lhbrx), (''stwbrx'', h_stwbrx), (''sthbrx'', h_sthbrx),
   (''lmw'', h_lmw), (''stmw'', h_stmw), (''lswi'', h_lswi),
   (''stswi'', h_stswi), (''lswx'', h_lswx), (''stswx'', h_stswx),
   (''lwarx'', h_lwarx), (''stwcx.'', h_stwcx), (''eciwx'', h_eciwx),
   (''ecowx'', h_ecowx), (''lfs'', h_lfs), (''lfsu'', h_lfsu),
   (''lfsx'', h_lfsx), (''lfsux'', h_lfsux), (''lfd'', h_lfd),
   (''lfdu'', h_lfdu), (''lfdx'', h_lfdx), (''lfdux'', h_lfdux),
   (''stfs'', h_stfs), (''stfsu'', h_stfsu), (''stfsx'', h_stfsx),
   (''stfsux'', h_stfsux), (''stfd'', h_stfd), (''stfdu'', h_stfdu),
   (''stfdx'', h_stfdx), (''stfdux'', h_stfdux), (''stfiwx'', h_stfiwx),
   (''mcrf'', h_mcrf), (''crand'', h_crand), (''cror'', h_cror),
   (''crxor'', h_crxor), (''crnand'', h_crnand), (''crnor'', h_crnor),
   (''creqv'', h_creqv), (''crandc'', h_crandc), (''crorc'', h_crorc),
   (''mfcr'', h_mfcr), (''mtcrf'', h_mtcrf), (''mcrxr'', h_mcrxr),
   (''mfspr'', h_mfspr), (''mtspr'', h_mtspr), (''mftb'', h_mftb),
   (''mfmsr'', h_mfmsr), (''mtmsr'', h_mtmsr), (''mtsr'', h_mtsr),
   (''mfsr'', h_mfsr), (''mtsrin'', h_mtsrin), (''mfsrin'', h_mfsrin),
   (''sync'', h_nop), (''isync'', h_nop), (''eieio'', h_nop),
   (''dcbf'', h_dcbf), (''dcbst'', h_dcbst), (''dcbt'', h_nop),
   (''dcbtst'', h_nop), (''dcba'', h_nop), (''dcbi'', h_dcbi),
   (''icbi'', h_icbi), (''dcbz'', h_dcbz), (''dst'', h_nop),
   (''dstst'', h_nop), (''dss'', h_nop), (''tlbie'', h_tlbie),
   (''tlbsync'', h_nop)]"

text \<open>
  \<^verbatim>\<open>handlerFor\<close>: the handler of a row. \<open>ext\<close> holds what \<^verbatim>\<open>bindFpuHandlers\<close> and
  \<^verbatim>\<open>bindVecHandlers\<close> register; a mnemonic with no handler is \<^term>\<open>None\<close>, the code's null.
\<close>

definition handlerFor :: "(string \<Rightarrow> 'b handler option) \<Rightarrow> nat \<Rightarrow> 'b handler option" where
  "handlerFor ext row =
     (let m = mnem (kIsa ! row) in
      case ext m of Some h \<Rightarrow> Some h | None \<Rightarrow> map_of boundHandlers m)"

end
