(* ===== verification/Protection.thy ===== *)
theory Protection
  imports MmuProps ExecSys
begin

text \<open>
  The registers an unprivileged program must not change, what it means for an operation to keep
  them or to trap, and that the integer, branch and condition-register handlers of
  \<^verbatim>\<open>core/src/exec_int.cpp\<close> do.
\<close>

section \<open>The protected registers\<close>

text \<open>The state with the registers an unprivileged program may change blanked out.\<close>

definition prot :: "cpu_state \<Rightarrow> cpu_state" where
  "prot s = s\<lparr>gpr := (\<lambda>_. 0), fpr := (\<lambda>_. 0), vr := (\<lambda>_ _. 0), pc := 0, cr := 0, xer := 0, lr := 0, ctr := 0,
     fpscr := 0, vscr := 0, vrsave := 0, pmc := (\<lambda>_. 0), tb := 0, dec := 0, resvValid := False, resvAddr := 0\<rparr>"

text \<open>In addition the registers exception entry writes.\<close>

definition protX :: "cpu_state \<Rightarrow> cpu_state" where
  "protX s = (prot s)\<lparr>msr := 0, srr0 := 0, srr1 := 0, dar := 0, dsisr := 0\<rparr>"

definition enters :: "exc \<Rightarrow> cpu_state \<Rightarrow> cpu_state \<Rightarrow> bool" where
  "enters v s s' \<longleftrightarrow> msr s' = excMsr v (msr s) \<and>
     pc s' = (if msr s' AND MSR_IP \<noteq> 0 then 0xFFF00000 else 0) OR excVec v \<and>
     srr1 s' AND 0x87C0FFFF = msr s AND 0x87C0FFFF"

definition calm :: "'b cpu \<Rightarrow> 'b cpu \<Rightarrow> bool" where
  "calm c c' \<longleftrightarrow> prot (st c') = prot (st c) \<and> raisedThisStep c' = raisedThisStep c \<and> flRows c' = flRows c"

definition trapped :: "'b cpu \<Rightarrow> 'b cpu \<Rightarrow> bool" where
  "trapped c c' \<longleftrightarrow> protX (st c') = protX (st c) \<and> raisedThisStep c' \<and> flRows c' = flRows c \<and> (\<exists>v. enters v (st c) (st c'))"

definition userOk :: "'b cpu \<Rightarrow> 'b cpu \<Rightarrow> bool" where
  "userOk c c' \<longleftrightarrow> calm c c' \<or> trapped c c'"

lemma prot_user [simp]:
  "prot (gpr_update f1 s) = prot s" "prot (fpr_update f2 s) = prot s" "prot (pc_update f3 s) = prot s"
  "prot (cr_update f4 s) = prot s" "prot (xer_update f5 s) = prot s" "prot (lr_update f6 s) = prot s"
  "prot (ctr_update f7 s) = prot s" "prot (vrsave_update f8 s) = prot s" "prot (pmc_update f9 s) = prot s"
  "prot (tb_update f10 s) = prot s" "prot (dec_update f11 s) = prot s"
  "prot (resvValid_update f12 s) = prot s" "prot (resvAddr_update f13 s) = prot s"
  by (simp_all add: prot_def)

lemma protX_exc [simp]:
  "protX (msr_update f1 s) = protX s" "protX (srr0_update f2 s) = protX s" "protX (srr1_update f3 s) = protX s"
  "protX (dar_update f4 s) = protX s" "protX (dsisr_update f5 s) = protX s" "protX (pc_update f6 s) = protX s"
  by (simp_all add: protX_def prot_def)

lemma prot_msr: "prot s' = prot s \<Longrightarrow> msr s' = msr s" "prot s' = prot s \<Longrightarrow> protX s' = protX s"
proof -
  assume p: "prot s' = prot s"
  have "msr s' = msr (prot s')" "msr (prot s) = msr s" by (simp_all add: prot_def)
  with p show "msr s' = msr s" by simp
  from p show "protX s' = protX s" by (simp add: protX_def)
qed

lemma calm_refl [simp]: "calm c c"
  by (simp add: calm_def)

lemma calm_trans: "calm c c1 \<Longrightarrow> calm c1 c2 \<Longrightarrow> calm c c2"
  by (simp add: calm_def)

lemma calm_trapped: "calm c c1 \<Longrightarrow> trapped c1 c2 \<Longrightarrow> trapped c c2"
  unfolding calm_def trapped_def enters_def using prot_msr [of "st c1" "st c"] by simp

lemma calm_userOk: "calm c c1 \<Longrightarrow> userOk c1 c2 \<Longrightarrow> userOk c c2"
  unfolding userOk_def using calm_trans calm_trapped by blast

lemma userOk_refl [simp]: "userOk c c"
  by (simp add: userOk_def)

lemma calm_userMode: "calm c c1 \<Longrightarrow> userMode c1 = userMode c"
  unfolding calm_def userMode_def using prot_msr(1) [of "st c1" "st c"] by simp

lemma trapped_raise:
  assumes "protX (st c1) = protX (st c)" "msr (st c1) = msr (st c)" "flRows c1 = flRows c"
  shows "trapped c (raiseExc v s0 x c1)"
proof -
  have "((m AND 0x87C0FFFF) OR (x AND 0x783F0000)) AND 0x87C0FFFF = m AND 0x87C0FFFF" for m :: u32
    by (simp add: and.assoc bit.conj_disj_distrib2)
  then have "enters v (st c) (st (raiseExc v s0 x c1))"
    by (simp add: enters_def assms(2)) (simp add: raiseExc_def Let_def assms(2))
  then show ?thesis using assms(1,3) unfolding trapped_def by (auto simp: raiseExc_def flRows_def Let_def)
qed

lemma calm_core: "core c1 = core c \<Longrightarrow> calm c c1"
  using core_sel(1,2,14) [of c1 c] by (simp add: calm_def)

lemma flRows_update [simp]: "flRows (st_update f d) = flRows d" "flRows (dxlGen_update f1 d) = flRows d"
  "flRows (dxlPage_update f2 d) = flRows d" "flRows (dxlMsr_update f3 d) = flRows d" "flRows (dxlSr_update f4 d) = flRows d"
  "flRows (dxlPa_update f5 d) = flRows d" "flRows (dxlWimg_update f6 d) = flRows d" "flRows (raisedThisStep_update f7 d) = flRows d"
  "flRows (curInsn_update f8 d) = flRows d" "flRows (ins_update f9 d) = flRows d" "flRows (napping_update f10 d) = flRows d"
  "flRows (batchBreak_update f11 d) = flRows d" "flRows (mmuGen_update f12 d) = flRows d"
  by (simp_all add: flRows_def)

text \<open>The state helpers keep the protected registers; so do the helpers that return a pair.\<close>

lemma prot_flags [simp]:
  "prot (st (setCa b d)) = prot (st d)" "prot (st (setOv b d)) = prot (st d)" "prot (st (setCr0 v d)) = prot (st d)"
  "prot (st (setCrField f v d)) = prot (st d)" "prot (st (setCrBit k b d)) = prot (st d)"
  "raisedThisStep (setCa b d) = raisedThisStep d" "raisedThisStep (setOv b d) = raisedThisStep d"
  "raisedThisStep (setCr0 v d) = raisedThisStep d" "raisedThisStep (setCrField f v d) = raisedThisStep d"
  "raisedThisStep (setCrBit k b d) = raisedThisStep d"
  "flRows (setCa b d) = flRows d" "flRows (setOv b d) = flRows d" "flRows (setCr0 v d) = flRows d"
  "flRows (setCrField f v d) = flRows d" "flRows (setCrBit k b d) = flRows d"
  by (simp_all add: flRows_def setCa_def setOv_def setCr0_def setCrField_def setCrBit_def Let_def)

lemma prot_results [simp]:
  "prot (st (recordRc i v d)) = prot (st d)" "prot (st (ovIfOe i b d)) = prot (st d)"
  "prot (st (raResult i v d)) = prot (st d)" "prot (st (snd (addc3 a b' k x y i d))) = prot (st d)"
  "prot (st (xoResult i p)) = prot (st (snd p))"
  "raisedThisStep (recordRc i v d) = raisedThisStep d" "raisedThisStep (ovIfOe i b d) = raisedThisStep d"
  "raisedThisStep (raResult i v d) = raisedThisStep d" "raisedThisStep (snd (addc3 a b' k x y i d)) = raisedThisStep d"
  "raisedThisStep (xoResult i p) = raisedThisStep (snd p)"
  "flRows (recordRc i v d) = flRows d" "flRows (ovIfOe i b d) = flRows d"
  "flRows (raResult i v d) = flRows d" "flRows (snd (addc3 a b' k x y i d)) = flRows d"
  "flRows (xoResult i p) = flRows (snd p)"
  by (simp_all add: recordRc_def ovIfOe_def raResult_def addc3_def xoResult_def case_prod_beta Let_def)

lemma prot_bcTaken [simp]:
  "prot (st (snd (bcTaken bo bi d))) = prot (st d)" "raisedThisStep (snd (bcTaken bo bi d)) = raisedThisStep d"
  "flRows (snd (bcTaken bo bi d)) = flRows d"
  by (simp_all add: bcTaken_def Let_def)

section \<open>Handlers an unprivileged program can reach\<close>

text \<open>A handler that keeps the protected registers or traps, in any mode; one that does so when
  it runs in problem state; and one that leaves the fetch buffer's contents alone.\<close>

definition alwaysOk :: "'b handler \<Rightarrow> bool" where
  "alwaysOk h \<longleftrightarrow> (\<forall>c i. userOk c (h c i))"

definition keepsRows :: "'b handler \<Rightarrow> bool" where
  "keepsRows h \<longleftrightarrow> (\<forall>c i. flRows (h c i) = flRows c)"

definition userSafe :: "'b handler \<Rightarrow> bool" where
  "userSafe h \<longleftrightarrow> keepsRows h \<and> (\<forall>c i. userMode c \<longrightarrow> userOk c (h c i))"

lemma alwaysOk_userSafe: "alwaysOk h \<Longrightarrow> userSafe h"
  by (auto simp: alwaysOk_def userSafe_def keepsRows_def userOk_def calm_def trapped_def)

lemma alwaysOk_calm: "(\<And>c i. calm c (h c i)) \<Longrightarrow> alwaysOk h"
  by (simp add: alwaysOk_def userOk_def)

named_theorems user_safe "handlers that keep the protected registers"

lemma safe_immediate [user_safe]:
  "alwaysOk h_addi" "alwaysOk h_addis" "alwaysOk h_addic" "alwaysOk h_addicRc" "alwaysOk h_subfic" "alwaysOk h_mulli"
  "alwaysOk h_ori" "alwaysOk h_oris" "alwaysOk h_xori" "alwaysOk h_xoris" "alwaysOk h_andiRc" "alwaysOk h_andisRc"
  by (rule alwaysOk_calm; simp add: calm_def h_addi_def h_addis_def h_addic_def h_addicRc_def h_subfic_def h_mulli_def h_ori_def
      h_oris_def h_xori_def h_xoris_def h_andiRc_def h_andisRc_def Let_def case_prod_beta)+

lemma safe_compare [user_safe]: "alwaysOk h_cmpi" "alwaysOk h_cmpli" "alwaysOk h_cmp" "alwaysOk h_cmpl"
  by (rule alwaysOk_calm; simp add: calm_def h_cmpi_def h_cmpli_def h_cmp_def h_cmpl_def cmpS_def cmpU_def Let_def)+

lemma safe_rotate [user_safe]: "alwaysOk h_rlwinm" "alwaysOk h_rlwnm" "alwaysOk h_rlwimi"
  by (rule alwaysOk_calm; simp add: calm_def h_rlwinm_def h_rlwnm_def h_rlwimi_def Let_def)+

lemma safe_branch [user_safe]: "alwaysOk h_b" "alwaysOk h_bc" "alwaysOk h_bclr" "alwaysOk h_bcctr"
  by (rule alwaysOk_calm; simp add: calm_def h_b_def h_bcctr_def h_bc_def h_bclr_def Let_def case_prod_beta)+

lemma safe_arith [user_safe]:
  "alwaysOk h_add" "alwaysOk h_addc" "alwaysOk h_adde" "alwaysOk h_addme" "alwaysOk h_addze" "alwaysOk h_subf"
  "alwaysOk h_subfc" "alwaysOk h_subfe" "alwaysOk h_subfme" "alwaysOk h_subfze" "alwaysOk h_neg" "alwaysOk h_mullw"
  "alwaysOk h_mulhw" "alwaysOk h_mulhwu" "alwaysOk h_divw" "alwaysOk h_divwu"
  by (rule alwaysOk_calm; simp add: calm_def h_add_def h_addc_def h_adde_def h_addme_def h_addze_def h_subf_def h_subfc_def
      h_subfe_def h_subfme_def h_subfze_def h_neg_def h_mullw_def h_mulhw_def h_mulhwu_def h_divw_def h_divwu_def Let_def)+

lemma safe_logic [user_safe]:
  "alwaysOk h_and" "alwaysOk h_andcx" "alwaysOk h_or" "alwaysOk h_orc" "alwaysOk h_xor" "alwaysOk h_eqv" "alwaysOk h_nor"
  "alwaysOk h_nand" "alwaysOk h_slw" "alwaysOk h_srw" "alwaysOk h_sraw" "alwaysOk h_srawi" "alwaysOk h_cntlzw"
  "alwaysOk h_extsb" "alwaysOk h_extsh"
  by (rule alwaysOk_calm; simp add: calm_def h_and_def h_andcx_def h_or_def h_orc_def h_xor_def h_eqv_def h_nor_def h_nand_def
      hLogic_def h_slw_def h_srw_def h_sraw_def h_srawi_def h_cntlzw_def h_extsb_def h_extsh_def Let_def)+

lemma safe_cr [user_safe]:
  "alwaysOk h_mcrf" "alwaysOk h_crand" "alwaysOk h_cror" "alwaysOk h_crxor" "alwaysOk h_crnand" "alwaysOk h_crnor"
  "alwaysOk h_creqv" "alwaysOk h_crandc" "alwaysOk h_crorc" "alwaysOk h_mfcr" "alwaysOk h_mtcrf" "alwaysOk h_mcrxr"
  by (rule alwaysOk_calm; simp add: calm_def h_mcrf_def h_crand_def h_cror_def h_crxor_def h_crnand_def h_crnor_def h_creqv_def
      h_crandc_def h_crorc_def hCrop_def h_mfcr_def h_mtcrf_def h_mcrxr_def Let_def)+

lemma alwaysOk_trap: "(\<And>c i. calm c (h c i) \<or> trapped c (h c i)) \<Longrightarrow> alwaysOk h"
  by (simp add: alwaysOk_def userOk_def)

lemma safe_traps [user_safe]: "alwaysOk h_twi" "alwaysOk h_tw" "alwaysOk h_sc"
  by (rule alwaysOk_trap; simp add: h_twi_def h_tw_def h_sc_def trapped_raise)+

lemma safe_hints [user_safe]: "alwaysOk h_nop" "alwaysOk h_icbi"
  by (rule alwaysOk_calm; simp add: calm_def h_nop_def h_icbi_def fetchDrop_def flRows_def fun_eq_iff)+

end
