(* ===== verification/ProtectedHandlers.thy ===== *)
theory ProtectedHandlers
  imports Protection
begin

text \<open>
  The loads, stores, cache control and special-purpose-register moves of
  \<^verbatim>\<open>core/src/exec_int.cpp\<close> keep the protected registers or take one precise exception.
\<close>

section \<open>Memory accesses\<close>

definition okR :: "'b cpu \<Rightarrow> 'v option \<times> 'b cpu \<Rightarrow> bool" where
  "okR c p \<longleftrightarrow> (if fst p = None then trapped c (snd p) else calm c (snd p))"

definition okW :: "'b cpu \<Rightarrow> bool \<times> 'b cpu \<Rightarrow> bool" where
  "okW c p \<longleftrightarrow> (if fst p then calm c (snd p) else trapped c (snd p))"

lemma okR_simps [simp]: "okR c (None, c1) = trapped c c1" "okR c (Some v, c1) = calm c c1"
  by (simp_all add: okR_def)

lemma okW_simps [simp]: "okW c (True, c1) = calm c c1" "okW c (False, c1) = trapped c c1"
  by (simp_all add: okW_def)

lemma okR_map [simp]: "okR c (map_prod (map_option f) id p) = okR c p" "okR c (map_prod Some id q) = calm c (snd q)"
  by (simp_all add: okR_def)

lemma okR_calm: "calm c c1 \<Longrightarrow> okR c1 p \<Longrightarrow> okR c p"
  using calm_trans calm_trapped unfolding okR_def by metis

lemma okW_calm: "calm c c1 \<Longrightarrow> okW c1 p \<Longrightarrow> okW c p"
  using calm_trans calm_trapped unfolding okW_def by metis

lemma trapped_st:
  fixes c c1 c2 :: "'b cpu"
  assumes "st c2 = st (raiseExc v s0 x c1)" "raisedThisStep c2" "protX (st c1) = protX (st c)" "msr (st c1) = msr (st c)"
    "flRows c2 = flRows c" "flRows c1 = flRows c"
  shows "trapped c c2"
  using trapped_raise [OF assms(3,4,6), of v s0 x] assms(1,2,5,6) by (simp add: trapped_def)

lemma okR_translate: "okR c (translate ea write fetch c)"
proof -
  obtain r c1 where t: "translate ea write fetch c = (r, c1)" by fastforce
  have fl: "flRows c1 = flRows c" using translate_frame [of c ea "write" fetch] t by (simp add: xlFrame_def coreXl_def)
  show ?thesis
  proof (cases r)
    case (Some x)
    then show ?thesis using translate_outcome' [OF t] fl by (simp add: t calm_def)
  next
    case None
    then have f: "faulted ea write fetch c c1" using translate_outcome' [OF t] by simp
    have "trapped c c1"
    proof (cases fetch)
      case True
      with f obtain code where "st c1 = st (raiseExc Isi ea code c)" "raisedThisStep c1" by (auto simp: faulted_def)
      then show ?thesis by (rule trapped_st) (simp_all add: fl)
    next
      case False
      with f obtain d where "st c1 = st (raiseExc Dsi (pc (st c) - 4) 0 (c\<lparr>st := (st c)\<lparr>dar := ea, dsisr := d\<rparr>\<rparr>))"
        "raisedThisStep c1" by (auto simp: faulted_def)
      then show ?thesis by (rule trapped_st) (simp_all add: fl)
    qed
    then show ?thesis by (simp add: t None)
  qed
qed

lemma calm_memRead [simp]: "calm c (snd (memRead a n w c))"
  by (rule calm_core) simp

lemma calm_memWrite [simp]: "calm c (memWrite a n v w c)"
  by (rule calm_core) simp

lemma okR_xlRead: "okR c (xlRead ea len c)"
  using okR_translate [of c ea False False] okR_calm [of c _ "map_prod Some id _"]
  by (cases "translate ea False False c") (auto simp: xlRead_def split: option.splits intro: calm_trans [OF _ calm_memRead])

lemma okW_xlWrite: "okW c (xlWrite ea len v c)"
  using okR_translate [of c ea True False]
  by (cases "translate ea True False c") (auto simp: xlWrite_def split: option.splits intro: calm_trans [OF _ calm_memWrite])

lemma okR_readVBytes: "okR c (readVBytes ea is out c)"
proof (induction "is" arbitrary: out c)
  case (Cons i "is")
  obtain r c1 where x: "xlRead (ea + of_nat i) 1 c = (r, c1)" by fastforce
  then have ok: "okR c (r, c1)" using okR_xlRead [of c "ea + of_nat i" 1] by simp
  show ?case
  proof (cases r)
    case (Some v)
    with ok okR_calm [OF _ Cons.IH] show ?thesis by (simp add: x)
  qed (use ok in \<open>simp add: x\<close>)
qed simp

lemma okW_writeVBytes: "okW c (writeVBytes ea n v is c)"
proof (induction "is" arbitrary: c)
  case (Cons i "is")
  obtain r c1 where x: "xlWrite (ea + of_nat i) 1 (drop_bit (8 * (n - 1 - i)) v AND 0xFF) c = (r, c1)" by fastforce
  then have ok: "okW c (r, c1)" using okW_xlWrite [of c "ea + of_nat i" 1 "drop_bit (8 * (n - 1 - i)) v AND 0xFF"] by simp
  show ?case
    unfolding writeVBytes.simps x using ok okW_calm [OF _ Cons.IH] by (cases r) simp_all
qed simp

lemma okR_xlateData: "okR c (xlateData ea d c)"
proof -
  obtain r c1 where t: "translate ea d False c = (r, c1)" by fastforce
  then have ok: "okR c (r, c1)" using okR_translate [of c ea d False] by simp
  show ?thesis
    using ok by (cases r) (auto simp: xlateData_def t Let_def calm_def)
qed

lemma okW_leAlign: "okW c (leAlignCheck ea len c)"
  by (simp add: leAlignCheck_def trapped_raise)

lemma trapped_dabr: "calm c c1 \<Longrightarrow> trapped c (dabrFault ea w c1)"
  by (rule calm_trapped, assumption) (simp add: dabrFault_def trapped_raise)

lemma okR_readV: "okR c (readV ea len c)"
proof -
  obtain b c1 where l: "leAlignCheck ea len c = (b, c1)" by fastforce
  then have ok: "okW c (b, c1)" using okW_leAlign [of c ea len] by simp
  show ?thesis
  proof (cases b)
    case True
    then have k: "calm c c1" using ok by simp
    let ?hi = "xlRead (ea XOR 4) 4 c1"
    have two: "okR c1 (case ?hi of (None, d) \<Rightarrow> (None, d) | (Some hi, d) \<Rightarrow>
        (case xlRead ((ea + 4) XOR 4) 4 d of (None, e) \<Rightarrow> (None, e) | (Some lo, e) \<Rightarrow> (Some (push_bit 32 hi OR lo), e)))"
    proof -
      obtain r1 d where h: "?hi = (r1, d)" by fastforce
      obtain r2 e where lo: "xlRead ((ea + 4) XOR 4) 4 d = (r2, e)" by fastforce
      have o1: "okR c1 (r1, d)" and o2: "okR d (r2, e)"
        using okR_xlRead [of c1 "ea XOR 4" 4] h okR_xlRead [of d "(ea + 4) XOR 4" 4] lo by simp_all
      show ?thesis
        using o1 o2 calm_trans [of c1 d e] calm_trapped [of c1 d e] by (cases r1; cases r2) (auto simp: h lo)
    qed
    have one: "okR c1 (case xlateData a False c1 of (None, d) \<Rightarrow> (None, d)
        | (Some (pa, wimg), d) \<Rightarrow> map_prod Some id (memRead pa len wimg d))" for a
    proof -
      obtain r d where x: "xlateData a False c1 = (r, d)" by fastforce
      have o: "okR c1 (r, d)" using okR_xlateData [of c1 a False] x by simp
      show ?thesis
        using o calm_trans [OF _ calm_memRead, of c1 d] by (cases r) (auto simp: x)
    qed
    show ?thesis
      using True okR_calm [OF k two] okR_calm [OF k one] okR_calm [OF k okR_readVBytes] trapped_dabr [OF k]
      unfolding readV_def l prod.case by (simp add: Let_def)
  qed (use ok in \<open>simp add: readV_def l\<close>)
qed

lemma okW_writeV: "okW c (writeV ea len v c)"
proof -
  obtain b c1 where l: "leAlignCheck ea len c = (b, c1)" by fastforce
  then have ok: "okW c (b, c1)" using okW_leAlign [of c ea len] by simp
  show ?thesis
  proof (cases b)
    case True
    then have k: "calm c c1" using ok by simp
    let ?hi = "xlWrite (ea XOR 4) 4 (drop_bit 32 v) c1"
    have two: "okW c1 (case ?hi of (False, d) \<Rightarrow> (False, d) | (True, d) \<Rightarrow> xlWrite ((ea + 4) XOR 4) 4 (v AND 0xFFFFFFFF) d)"
      using okW_xlWrite [of c1 "ea XOR 4" 4 "drop_bit 32 v"] okW_calm [OF _ okW_xlWrite]
      by (cases ?hi) (auto split: bool.splits)
    have one: "okW c1 (case xlateData a True c1 of (None, d) \<Rightarrow> (False, d)
        | (Some (pa, wimg), d) \<Rightarrow> (True, memWrite pa len v wimg d))" for a
    proof -
      obtain r d where x: "xlateData a True c1 = (r, d)" by fastforce
      have o: "okR c1 (r, d)" using okR_xlateData [of c1 a True] x by simp
      show ?thesis
        using o calm_trans [OF _ calm_memWrite, of c1 d] by (cases r) (auto simp: x)
    qed
    show ?thesis
      using True okW_calm [OF k two] okW_calm [OF k one] okW_calm [OF k okW_writeVBytes] trapped_dabr [OF k]
      unfolding writeV_def l prod.case by (simp add: Let_def)
  qed (use ok in \<open>simp add: writeV_def l\<close>)
qed

lemma ok_access:
  "okR c (readV8 ea c)" "okR c (readV16 ea c)" "okR c (readV32 ea c)"
  "okW c (writeV8 ea v c)" "okW c (writeV16 ea v c)" "okW c (writeV32 ea v c)"
  by (simp_all add: readV8_def readV16_def readV32_def writeV8_def writeV16_def writeV32_def okR_readV okW_writeV)

section \<open>Loads and stores\<close>

lemma userOk_load:
  assumes "okR c p" "\<And>v d. calm d (f v d)"
  shows "userOk c (case p of (None, c1) \<Rightarrow> c1 | (Some v, c1) \<Rightarrow> f v c1)"
  using assms calm_trans [OF _ assms(2)] by (cases p) (auto simp: userOk_def split: option.splits)

lemma userOk_store:
  assumes "okW c p" "\<And>d. calm d (f d)"
  shows "userOk c (case p of (True, c1) \<Rightarrow> f c1 | (False, c1) \<Rightarrow> c1)"
  using assms calm_trans [OF _ assms(2)] by (cases p) (auto simp: userOk_def split: bool.splits)

lemma userOk_raiseAlign: "userOk c (raiseAlign i ea c)"
  by (simp add: userOk_def raiseAlign_def trapped_raise)

lemma calm_gpr: "calm d (setGpr r v d)" "calm d (setFpr r w d)" "calm d (updRa i ea (setGpr r v d))" "calm d (updRa i ea d)"
  "calm d (updRa i ea (setFpr r w d))"
  by (simp_all add: calm_def updRa_def)

lemma safe_load:
  assumes "\<And>ea (c :: 'b cpu). okR c (rd ea c)"
  shows "alwaysOk (hLoad ek rd xf :: 'b handler)" "alwaysOk (hLoadU ek rd xf :: 'b handler)"
  unfolding alwaysOk_def hLoad_def hLoadU_def Let_def by (intro allI impI userOk_load assms calm_gpr)+

lemma safe_store:
  assumes "\<And>ea v (c :: 'b cpu). okW c (wr ea v c)"
  shows "alwaysOk (hStore ek wr :: 'b handler)" "alwaysOk (hStoreU ek wr :: 'b handler)"
proof -
  have "userOk c (snd (wr ea v c))" for ea v and c :: "'b cpu"
    using assms [of c ea v] by (simp add: userOk_def okW_def split: if_splits)
  then show "alwaysOk (hStore ek wr :: 'b handler)" by (simp add: alwaysOk_def hStore_def)
  show "alwaysOk (hStoreU ek wr :: 'b handler)"
    unfolding alwaysOk_def hStoreU_def Let_def by (intro allI impI userOk_store assms calm_gpr)
qed

lemma safe_scalar [user_safe]:
  "alwaysOk h_lwz" "alwaysOk h_lbz" "alwaysOk h_lhz" "alwaysOk h_lha" "alwaysOk h_lwzx" "alwaysOk h_lbzx" "alwaysOk h_lhzx"
  "alwaysOk h_lhax" "alwaysOk h_lwzu" "alwaysOk h_lbzu" "alwaysOk h_lhzu" "alwaysOk h_lhau" "alwaysOk h_lwzux"
  "alwaysOk h_lbzux" "alwaysOk h_lhzux" "alwaysOk h_lhaux" "alwaysOk h_stw" "alwaysOk h_stb" "alwaysOk h_sth"
  "alwaysOk h_stwx" "alwaysOk h_stbx" "alwaysOk h_sthx" "alwaysOk h_stwu" "alwaysOk h_stbu" "alwaysOk h_sthu"
  "alwaysOk h_stwux" "alwaysOk h_stbux" "alwaysOk h_sthux" "alwaysOk h_lwbrx" "alwaysOk h_lhbrx"
  by (simp_all add: h_lwz_def h_lbz_def h_lhz_def h_lha_def h_lwzx_def h_lbzx_def h_lhzx_def h_lhax_def h_lwzu_def h_lbzu_def
      h_lhzu_def h_lhau_def h_lwzux_def h_lbzux_def h_lhzux_def h_lhaux_def h_stw_def h_stb_def h_sth_def h_stwx_def h_stbx_def
      h_sthx_def h_stwu_def h_stbu_def h_sthu_def h_stwux_def h_stbux_def h_sthux_def h_lwbrx_def h_lhbrx_def
      safe_load safe_store ok_access)

lemma okW_userOk: "okW c p \<Longrightarrow> userOk c (snd p)"
  by (simp add: okW_def userOk_def split: if_splits)

lemma safe_reversed_stores [user_safe]: "alwaysOk h_stwbrx" "alwaysOk h_sthbrx"
  by (simp_all add: alwaysOk_def h_stwbrx_def h_sthbrx_def okW_userOk ok_access)

lemma userOk_lmwLoop: "userOk c (lmwLoop rs ea c)"
proof (induction rs arbitrary: ea c)
  case (Cons r rs)
  obtain q c1 where x: "readV32 ea c = (q, c1)" by fastforce
  have ok: "okR c (q, c1)" using ok_access(3) [of c ea] x by simp
  show ?case
  proof (cases q)
    case (Some v)
    then have "calm c (setGpr r v c1)" using ok by (simp add: calm_def)
    from calm_userOk [OF this Cons.IH] show ?thesis by (simp add: x Some)
  qed (use ok in \<open>simp add: x userOk_def\<close>)
qed simp

lemma userOk_stmwLoop: "userOk c (stmwLoop rs ea c)"
proof (induction rs arbitrary: ea c)
  case (Cons r rs)
  obtain q c1 where x: "writeV32 ea (gpr (st c) r) c = (q, c1)" by fastforce
  have ok: "okW c (q, c1)" using ok_access(6) [of c ea "gpr (st c) r"] x by simp
  show ?case
    using ok calm_userOk [OF _ Cons.IH] by (cases q) (simp_all add: x userOk_def)
qed simp

lemma safe_multiple [user_safe]: "alwaysOk h_lmw" "alwaysOk h_stmw"
  by (simp_all add: alwaysOk_def h_lmw_def h_stmw_def Let_def userOk_raiseAlign userOk_lmwLoop userOk_stmwLoop)

lemma userOk_loadStringLoop: "userOk c (loadStringLoop n r sh ea c)"
proof (induction n arbitrary: r sh ea c)
  case (Suc n)
  obtain q c1 where x: "readV8 ea c = (q, c1)" by fastforce
  have ok: "okR c (q, c1)" using ok_access(1) [of c ea] x by simp
  show ?case
  proof (cases q)
    case (Some v)
    let ?c2 = "setGpr r (gpr (st c1) r OR push_bit sh v) c1"
    have "calm c ?c2" "calm c (if n \<noteq> 0 then setGpr ((r + 1) AND 31) 0 ?c2 else ?c2)" using ok Some by (simp_all add: calm_def)
    from calm_userOk [OF this(1) Suc.IH] calm_userOk [OF this(2) Suc.IH] show ?thesis by (simp add: x Some Let_def)
  qed (use ok in \<open>simp add: x userOk_def\<close>)
qed simp

lemma userOk_storeStringLoop: "userOk c (storeStringLoop n r sh ea c)"
proof (induction n arbitrary: r sh ea c)
  case (Suc n)
  obtain q c1 where x: "writeV8 ea (drop_bit sh (gpr (st c) r)) c = (q, c1)" by fastforce
  have ok: "okW c (q, c1)" using ok_access(4) [of c ea "drop_bit sh (gpr (st c) r)"] x by simp
  show ?case
    using ok calm_userOk [OF _ Suc.IH] by (cases q) (simp_all add: x userOk_def)
qed simp

lemma userOk_loadString: "userOk c (loadString rt ea n c)"
  unfolding loadString_def
  by (rule calm_userOk [OF _ userOk_loadStringLoop]) (simp add: calm_def)

lemma safe_string [user_safe]: "alwaysOk h_lswi" "alwaysOk h_stswi" "alwaysOk h_lswx" "alwaysOk h_stswx"
  by (simp_all add: alwaysOk_def h_lswi_def h_stswi_def h_lswx_def h_stswx_def leStringFault_def Let_def
      userOk_raiseAlign userOk_loadString userOk_storeStringLoop storeString_def)

lemma userOk_if: "userOk c x \<Longrightarrow> userOk c y \<Longrightarrow> userOk c (if b then x else y)"
  by simp

lemma safe_float [user_safe]: "alwaysOk (hFload ek cv len u)" "alwaysOk (hFstore ek vl len u)"
proof -
  show "alwaysOk (hFload ek cv len u)"
    unfolding alwaysOk_def hFload_def Let_def
    by (intro allI impI userOk_if userOk_raiseAlign userOk_load okR_readV) (simp add: calm_gpr)
  show "alwaysOk (hFstore ek vl len u)"
    unfolding alwaysOk_def hFstore_def Let_def
    by (intro allI impI userOk_if userOk_raiseAlign userOk_store okW_writeV) (simp add: calm_gpr)
qed

lemma safe_float_forms [user_safe]:
  "alwaysOk h_lfs" "alwaysOk h_lfsu" "alwaysOk h_lfsx" "alwaysOk h_lfsux" "alwaysOk h_lfd" "alwaysOk h_lfdu" "alwaysOk h_lfdx"
  "alwaysOk h_lfdux" "alwaysOk h_stfs" "alwaysOk h_stfsu" "alwaysOk h_stfsx" "alwaysOk h_stfsux" "alwaysOk h_stfd"
  "alwaysOk h_stfdu" "alwaysOk h_stfdx" "alwaysOk h_stfdux" "alwaysOk h_stfiwx"
  by (simp_all add: h_lfs_def h_lfsu_def h_lfsx_def h_lfsux_def h_lfd_def h_lfdu_def h_lfdx_def h_lfdux_def h_stfs_def
      h_stfsu_def h_stfsx_def h_stfsux_def h_stfd_def h_stfdu_def h_stfdx_def h_stfdux_def h_stfiwx_def safe_float)

lemma userOk_xlate:
  assumes "\<And>x d. calm c d \<Longrightarrow> userOk d (f x d)"
  shows "userOk c (case translate ea wr fe c of (None, c1) \<Rightarrow> c1 | (Some x, c1) \<Rightarrow> f x c1)"
proof -
  obtain q c1 where t: "translate ea wr fe c = (q, c1)" by fastforce
  have ok: "okR c (q, c1)" using okR_translate [of c ea wr fe] t by simp
  show ?thesis
  proof (cases q)
    case (Some x)
    with ok have "calm c c1" by simp
    from calm_userOk [OF this assms [OF this]] show ?thesis by (simp add: t Some)
  qed (use ok in \<open>simp add: t userOk_def\<close>)
qed

lemma calm_stwcxDone: "calm d (stwcxDone b d)"
  by (simp add: calm_def stwcxDone_def Let_def)

lemma userOk_calm: "calm c d \<Longrightarrow> userOk c d"
  by (simp add: userOk_def)

lemma calm_reserve: "calm d (setGpr r v (d\<lparr>st := (st d)\<lparr>resvValid := b, resvAddr := pa\<rparr>\<rparr>))"
  by (simp add: calm_def)

lemma userOk_pair: "(\<And>a b. userOk d (g a b)) \<Longrightarrow> userOk d (case x of (a, b) \<Rightarrow> g a b)"
  by (cases x) simp

lemma safe_lwarx [user_safe]: "alwaysOk h_lwarx"
  unfolding alwaysOk_def h_lwarx_def Let_def
  by (intro allI impI userOk_if userOk_raiseAlign userOk_xlate) (rule userOk_pair, intro userOk_load ok_access calm_reserve)

lemma safe_stwcx [user_safe]: "alwaysOk h_stwcx"
  unfolding alwaysOk_def h_stwcx_def Let_def
  by (intro allI impI userOk_if userOk_raiseAlign userOk_xlate userOk_store ok_access calm_stwcxDone userOk_calm)

lemma userOk_earFault: "userOk c (earFault ea b c)"
  by (simp add: userOk_def earFault_def trapped_raise)

lemma safe_external [user_safe]: "alwaysOk h_eciwx" "alwaysOk h_ecowx"
  unfolding alwaysOk_def h_eciwx_def h_ecowx_def Let_def
  by (intro allI impI userOk_if userOk_raiseAlign userOk_earFault userOk_load ok_access calm_gpr okW_userOk)+

lemma userOk_cache: "userOk d (dcbzLine pa d)" "userOk d (dcbClean pa b d)"
  by (simp_all add: userOk_def calm_core)

lemma safe_cache [user_safe]: "alwaysOk h_dcbz" "alwaysOk h_dcbf" "alwaysOk h_dcbst"
  unfolding alwaysOk_def h_dcbz_def h_dcbf_def h_dcbst_def Let_def
  by (intro allI impI userOk_if userOk_raiseAlign userOk_xlate,
      (rule userOk_pair, intro userOk_if userOk_raiseAlign userOk_cache)+)+

section \<open>Special purpose registers\<close>

lemma prot_tick: "prot (st (tick n c)) = prot (st c)" "raisedThisStep (tick n c) = raisedThisStep c"
  "flRows (tick n c) = flRows c"
  by (simp_all add: tick_def flRows_def Let_def)

lemma prot_clockAdvanceCycles:
  "prot (st (clockAdvanceCycles n c)) = prot (st c) \<and> raisedThisStep (clockAdvanceCycles n c) = raisedThisStep c
    \<and> flRows (clockAdvanceCycles n c) = flRows c"
proof (induction n c rule: clockAdvanceCycles.induct)
  case (1 n c)
  then show ?case by (subst (1 2 3) clockAdvanceCycles.simps) (auto simp: Let_def prot_tick)
qed

lemma flRows_pend: "flRows (pendCycles_update f c) = flRows c"
  by (simp add: flRows_def)

lemma flRows_dec: "flRows (decPending_update f c) = flRows c"
  by (simp add: flRows_def)

lemma calm_syncClock: "calm c (syncClock d) = calm c d"
  by (simp add: calm_def syncClock_def prot_clockAdvanceCycles flRows_pend)

lemma sprAccessFault_user:
  assumes "userMode c"
  obtains c1 where "sprAccessFault n k a c = (True, c1)" "trapped c c1"
  | "sprAccessFault n k a c = (False, c)" "k" "a"
proof -
  have "(\<exists>c1. sprAccessFault n k a c = (True, c1) \<and> trapped c c1) \<or> sprAccessFault n k a c = (False, c) \<and> k \<and> a"
    using assms by (cases k; cases a; cases "n AND 0x10 = 0") (simp_all add: sprAccessFault_def trapped_raise)
  then show thesis using that by blast
qed

lemma flRows_raise [simp]: "flRows (raiseExc v s x c) = flRows c"
  by (simp add: raiseExc_def flRows_def Let_def)

lemma flRows_sync [simp]: "flRows (syncClock c) = flRows c"
  using calm_syncClock [of c c] by (simp add: calm_def)

lemma flRows_core: "core c' = core c \<Longrightarrow> flRows c' = flRows c"
  by (rule core_sel)

lemma mtspr_rows:
  "flRows (mtL2cr v c) = flRows c" "flRows (mtThrm n v c) = flRows c" "flRows (mtDec v c) = flRows c"
  "flRows (mtTbl v c) = flRows c" "flRows (mtTbu v c) = flRows c" "flRows (mtHid0 v c) = flRows c"
proof -
  have c: "flRows (l2FlushAll b d) = flRows d" "flRows (l2WipeAll d) = flRows d" "flRows (l2Resize d) = flRows d"
    "flRows (l1dFlushAll b d) = flRows d" for b and d :: "'a cpu" by (rule flRows_core, simp)+
  show "flRows (mtL2cr v c) = flRows c" by (simp add: mtL2cr_def c Let_def)
  show "flRows (mtHid0 v c) = flRows c" by (simp add: mtHid0_def c Let_def)
  show "flRows (mtThrm n v c) = flRows c" by (simp add: mtThrm_def thrmUpdate_def Let_def)
  show "flRows (mtDec v c) = flRows c" by (simp add: mtDec_def noteDecSite_def flRows_dec Let_def)
  show "flRows (mtTbl v c) = flRows c" "flRows (mtTbu v c) = flRows c" by (simp_all add: mtTbl_def mtTbu_def)
qed

lemma safe_mfspr [user_safe]: "userSafe h_mfspr"
  unfolding userSafe_def
proof (intro conjI allI impI)
  show "keepsRows h_mfspr"
    by (auto simp: keepsRows_def h_mfspr_def sprAccessFault_def thrmUpdate_def flRows_raise flRows_sync Let_def split: option.split)
next
  fix c :: "'a cpu" and i assume u: "userMode c"
  let ?n = "f_spr i" and ?tb = "f_spr i = 268 \<or> f_spr i = 269"
  let ?p = "if ?tb then None else sprPtr ?n"
  show "userOk c (h_mfspr c i)"
  proof (rule sprAccessFault_user [OF u, of ?n "?tb \<or> ?p \<noteq> None" "?tb \<or> sprUserReadable ?n"])
    fix c1 assume "sprAccessFault ?n (?tb \<or> ?p \<noteq> None) (?tb \<or> sprUserReadable ?n) c = (True, c1)" "trapped c c1"
    then show ?thesis by (simp add: h_mfspr_def Let_def userOk_def)
  next
    assume f: "sprAccessFault ?n (?tb \<or> ?p \<noteq> None) (?tb \<or> sprUserReadable ?n) c = (False, c)" "?tb \<or> sprUserReadable ?n"
    then have "?n \<noteq> 1020" "?n \<noteq> 1021" "?n \<noteq> 22" by (auto simp: sprUserReadable_def)
    then have "calm c (h_mfspr c i)"
      using f(1) calm_syncClock [of c c] unfolding h_mfspr_def Let_def
      by (auto simp: calm_def split: option.split)
    then show ?thesis by (rule userOk_calm)
  qed
qed

lemma safe_mtspr [user_safe]: "userSafe h_mtspr"
  unfolding userSafe_def
proof (intro conjI allI impI)
  show "keepsRows h_mtspr"
    by (auto simp: keepsRows_def h_mtspr_def sprAccessFault_def mtspr_rows flRows_raise Let_def split: option.split)
next
  fix c :: "'a cpu" and i assume u: "userMode c"
  let ?n = "f_spr i"
  let ?k = "(?n = 22 \<or> ?n = 284 \<or> ?n = 285 \<or> ?n = 287) \<or> sprPtr ?n \<noteq> None"
  show "userOk c (h_mtspr c i)"
  proof (rule sprAccessFault_user [OF u, of ?n ?k "sprUserWritable ?n"])
    fix c1 assume "sprAccessFault ?n ?k (sprUserWritable ?n) c = (True, c1)" "trapped c c1"
    then show ?thesis by (simp add: h_mtspr_def Let_def userOk_def)
  next
    assume f: "sprAccessFault ?n ?k (sprUserWritable ?n) c = (False, c)" "sprUserWritable ?n"
    then consider "?n = 1" | "?n = 8" | "?n = 9" | "?n = 256" by (auto simp: sprUserWritable_def)
    then have "calm c (h_mtspr c i)"
      using f(1) by cases (simp_all add: h_mtspr_def Let_def calm_def sprPtr_def)
    then show ?thesis by (rule userOk_calm)
  qed
qed

lemma safe_mftb [user_safe]: "alwaysOk h_mftb"
  by (rule alwaysOk_calm) (use calm_syncClock in \<open>auto simp: h_mftb_def Let_def calm_def\<close>)

end
