(* ===== verification/Step.thy ===== *)
theory Step
  imports ExecSys
begin

text \<open>
  Instruction execution, \<^verbatim>\<open>core/src/cpu.cpp\<close> and the inline \<^verbatim>\<open>execFast\<close> of \<^verbatim>\<open>cpu.hpp\<close>: the
  instruction boundary (nap, asynchronous exceptions, instruction breakpoint), the
  dispatch tail with its gates, performance monitor and trace, the plain run loop and the
  batching run loop with its line executor.

  Two parameters: \<open>ext\<close>, the floating-point and vector handlers, which later theories
  define (\<open>bindUnits\<close>), and \<open>jit\<close>, the compiled-line runner \<^verbatim>\<open>jitRunLine\<close>, which is given the fetch
  slot, the word, the instruction counter and its limit and says whether it ran. The batch
  loop takes fuel, because nothing is assumed about how far \<open>jit\<close> advances the counter;
  \<^term>\<open>None\<close> is running out of it.
\<close>

section \<open>The dispatch tail\<close>

definition insnCharge :: "'b cpu \<Rightarrow> 'b cpu" where
  "insnCharge c = charge (insnCycles c + extraCycles c) c"

definition pmcTick :: "u32 \<Rightarrow> u32 \<Rightarrow> 'b cpu \<Rightarrow> 'b cpu" where
  "pmcTick k ce c =
     (let old = pmc (st c) k;
          c1 = st_update (pmc_update (\<lambda>p. p(k := old + 1))) c
      in if old AND 0x80000000 = 0 \<and> (old + 1) AND 0x80000000 \<noteq> 0
            \<and> mmcr0 (st c) AND 0x04000000 \<noteq> 0 \<and> mmcr0 (st c) AND ce \<noteq> 0
         then c1\<lparr>pmPending := True\<rparr> else c1)"

definition perfMon :: "'b cpu \<Rightarrow> 'b cpu" where
  "perfMon c =
     (let m = mmcr0 (st c) in
      if m \<noteq> 0 \<and> m AND 0x80000000 = 0 then
        (let sel1 = drop_bit 6 m AND 0x7F; sel2 = m AND 0x3F;
             c1 = (if sel1 = 1 \<or> sel1 = 2 then pmcTick 0 0x00008000 c else c)
         in if sel2 = 1 \<or> sel2 = 2 then pmcTick 1 0x00004000 c1 else c1)
      else c)"

definition traceCheck :: "insn_desc \<Rightarrow> u32 \<Rightarrow> 'b cpu \<Rightarrow> 'b cpu" where
  "traceCheck d fallThrough c =
     (if msr (st c) AND (MSR_SE OR MSR_BE) = 0 then c
      else let isRfi = (xkind d = Xk_X19 \<and> xo d = 50);
               isIsync = (xkind d = Xk_X19 \<and> xo d = 150);
               branchTaken = ((pat d = Pat_B \<or> pat d = Pat_BC \<or> pat d = Pat_BCLR \<or> pat d = Pat_BCCTR)
                              \<and> pc (st c) \<noteq> fallThrough)
           in if \<not> isRfi \<and> \<not> isIsync
                 \<and> (msr (st c) AND MSR_SE \<noteq> 0 \<or> msr (st c) AND MSR_BE \<noteq> 0 \<and> branchTaken)
              then raiseExc Trace (pc (st c)) 0 c else c)"

text \<open>The pre-dispatch gates, in order: the exception a gate raises, if any.\<close>

definition gateFault :: "u8 \<Rightarrow> 'b cpu \<Rightarrow> (exc \<times> u32) option" where
  "gateFault gate c =
     (if gate AND kPreIll \<noteq> 0 then Some (Program, kSrr1ProgIllegal)
      else if gate AND kPrePriv \<noteq> 0 \<and> userMode c then Some (Program, kSrr1ProgPrivileged)
      else if gate AND kPreFp \<noteq> 0 \<and> msr (st c) AND MSR_FP = 0 then Some (FpUnavailable, 0)
      else if gate AND kPreVec \<noteq> 0 \<and> msr (st c) AND MSR_VEC = 0 then Some (VecUnavailable, 0)
      else None)"

definition runHandler :: "'b handler \<Rightarrow> u32 \<Rightarrow> insn_desc \<Rightarrow> 'b cpu \<Rightarrow> 'b cpu" where
  "runHandler fn insn d c =
     (let c1 = setPc (pc (st c) + 4) c;
          fallThrough = pc (st c1);
          c2 = perfMon (insnCharge (fn c1 insn))
      in if halted c2 \<or> raisedThisStep c2 then c2 else traceCheck d fallThrough c2)"

definition execRow :: "(string \<Rightarrow> 'b handler option) \<Rightarrow> u32 \<Rightarrow> u32 \<Rightarrow> 'b cpu \<Rightarrow> 'b cpu" where
  "execRow ext insn row c0 =
     (let cia = pc (st c0);
          c = c0\<lparr>raisedThisStep := False, curInsn := insn\<rparr> in
      if row = kNoRow then
        insnCharge (raiseExc Program cia kSrr1ProgIllegal
          (c\<lparr>ins := (ins c)\<lparr>unknownWords := mapIncr insn (unknownWords (ins c))\<rparr>\<rparr>))
      else let d = kIsa ! unat row in
        case gateFault (preGate d) c of
          Some (e, bits) \<Rightarrow> insnCharge (raiseExc e cia bits c)
        | None \<Rightarrow>
            (case handlerFor ext (unat row) of
               None \<Rightarrow> c\<lparr>ins := (ins c)\<lparr>unimplemented := mapIncr (mnem d) (unimplemented (ins c))\<rparr>,
                         halted := True, haltReason := ''unimplemented: '' @ mnem d\<rparr>
             | Some fn \<Rightarrow> runHandler fn insn d c))"

definition execFast :: "(string \<Rightarrow> 'b handler option) \<Rightarrow> u32 \<Rightarrow> u32 \<Rightarrow> 'b cpu \<Rightarrow> bool \<times> 'b cpu" where
  "execFast ext insn row c =
     (if row = kNoRow then (False, c)
      else case handlerFor ext (unat row) of
        None \<Rightarrow> (False, c)
      | Some fn \<Rightarrow>
          if preGate (kIsa ! unat row) \<noteq> 0 then (False, c)
          else (True, insnCharge (fn (setPc (pc (st c) + 4)
                        (c\<lparr>raisedThisStep := False, curInsn := insn\<rparr>)) insn)))"

section \<open>One step\<close>

definition anyIrq :: "'b cpu \<Rightarrow> bool" where
  "anyIrq c \<longleftrightarrow> smiPending c \<or> extIrqLine c \<or> decPending c \<or> pmPending c"

text \<open>The asynchronous exception taken at an instruction boundary, if one is enabled.\<close>

definition asyncTake :: "'b cpu \<Rightarrow> 'b cpu option" where
  "asyncTake c =
     (let at = pc (st c) in
      if msr (st c) AND MSR_EE = 0 then None
      else if smiPending c then Some (raiseExc Smi at 0 (c\<lparr>smiPending := False\<rparr>))
      else if extIrqLine c
      then Some (raiseExc External at 0 (c\<lparr>ins := (ins c)\<lparr>extIrqs := extIrqs (ins c) + 1\<rparr>\<rparr>))
      else if decPending c
      then Some (raiseExc Decrementer at 0
                   (c\<lparr>decPending := False, ins := (ins c)\<lparr>decIrqs := decIrqs (ins c) + 1\<rparr>\<rparr>))
      else if pmPending c then Some (raiseExc PerfMon at 0 (c\<lparr>pmPending := False\<rparr>))
      else None)"

definition iabrHit :: "cpu_state \<Rightarrow> bool" where
  "iabrHit s \<longleftrightarrow>
     iabr s AND 2 \<noteq> 0 \<and> (pc s XOR iabr s) AND 0xFFFFFFFC = 0 \<and>
     (iabr s AND 1 \<noteq> 0) = (msr s AND MSR_IR \<noteq> 0)"

text \<open>From the instruction breakpoint on: fetch, then the dispatch tail.\<close>

definition fetchExec :: "(string \<Rightarrow> 'b handler option) \<Rightarrow> 'b cpu \<Rightarrow> 'b cpu" where
  "fetchExec ext c =
     (if iabrHit (st c) then insnCharge (raiseExc Iabr (pc (st c)) 0 c)
      else case fetchDecoded (pc (st c)) c of
        (None, c1) \<Rightarrow> insnCharge c1
      | (Some (insn, row), c1) \<Rightarrow> execRow ext insn row c1)"

definition step :: "(string \<Rightarrow> 'b handler option) \<Rightarrow> 'b cpu \<Rightarrow> 'b cpu" where
  "step ext c0 =
     (let c = c0\<lparr>raisedThisStep := False\<rparr> in
      if napping c \<and> \<not> (msr (st c) AND MSR_EE \<noteq> 0 \<and> anyIrq c) then insnCharge c
      else let c1 = c\<lparr>napping := False\<rparr> in
        case asyncTake c1 of
          Some c2 \<Rightarrow> charge (extraCycles c2) c2
        | None \<Rightarrow> fetchExec ext c1)"

section \<open>Run loops\<close>

fun runLoop :: "(string \<Rightarrow> 'b handler option) \<Rightarrow> nat \<Rightarrow> 'b cpu \<Rightarrow> nat \<times> 'b cpu" where
  "runLoop ext 0 c = (0, c)"
| "runLoop ext (Suc n) c =
     (if halted c then (0, c) else case runLoop ext n (step ext c) of (i, c1) \<Rightarrow> (Suc i, c1))"

definition run :: "(string \<Rightarrow> 'b handler option) \<Rightarrow> u64 \<Rightarrow> 'b cpu \<Rightarrow> u64 \<times> 'b cpu" where
  "run ext n c = map_prod of_nat id (runLoop ext (unat n) c)"

definition slowLine :: "'b cpu \<Rightarrow> bool" where
  "slowLine c \<longleftrightarrow>
     lineExecOff c \<or> napping c \<or> mmcr0 (st c) \<noteq> 0 \<or> iabr (st c) AND 2 \<noteq> 0 \<or>
     msr (st c) AND (MSR_SE OR MSR_BE) \<noteq> 0 \<or> msr (st c) AND MSR_EE \<noteq> 0 \<and> anyIrq c"

definition execLine :: "(string \<Rightarrow> 'b handler option) \<Rightarrow> u32 \<Rightarrow> u32 \<Rightarrow> 'b cpu \<Rightarrow> 'b cpu" where
  "execLine ext insn row c =
     (case execFast ext insn row c of (True, c1) \<Rightarrow> c1 | (False, c1) \<Rightarrow> execRow ext insn row c1)"

text \<open>
  The inner loop over the words of one block, from \<open>word\<close> up. The result says whether the
  batch is over (\<^verbatim>\<open>goto done\<close>) or only the line (\<^verbatim>\<open>break\<close>).
\<close>

fun lineLoop :: "(string \<Rightarrow> 'b handler option) \<Rightarrow> u32 \<Rightarrow> u32 \<Rightarrow> u64 \<Rightarrow> u32 list \<Rightarrow> u64 \<Rightarrow> 'b cpu
    \<Rightarrow> bool \<times> u64 \<times> 'b cpu" where
  "lineLoop ext slot base until [] i c = (False, i, c)"
| "lineLoop ext slot base until (word # ws) i c =
     (let cia = pc (st c); fl = fetchLine c slot;
          c1 = execLine ext (flW fl word) (ucast (flRow fl word)) c;
          i1 = i + 1 in
      if batchBreak c1 \<or> halted c1 then (True, i1, c1)
      else if until \<le> i1 \<or> pc (st c1) \<noteq> cia + 4 \<or> ws = [] \<or> flBase (fetchLine c1 slot) \<noteq> base
      then (False, i1, c1)
      else lineLoop ext slot base until ws i1 c1)"

definition wordsFrom :: "u32 \<Rightarrow> u32 list" where
  "wordsFrom w = map of_nat [unat w..<8]"

type_synonym 'b jit_runner = "u32 \<Rightarrow> u32 \<Rightarrow> u64 \<Rightarrow> u64 \<Rightarrow> 'b cpu \<Rightarrow> bool \<times> u64 \<times> 'b cpu"

fun batchLoop :: "'b jit_runner \<Rightarrow> (string \<Rightarrow> 'b handler option) \<Rightarrow> nat \<Rightarrow> u64 \<Rightarrow> u64 \<Rightarrow> 'b cpu
    \<Rightarrow> (u64 \<times> 'b cpu) option" where
  "batchLoop jit ext 0 until i c = (if i < until then None else Some (i, c))"
| "batchLoop jit ext (Suc k) until i c =
     (if \<not> i < until then Some (i, c)
      else case (if slowLine c then None else fetchBlockFast (pc (st c)) c) of
        None \<Rightarrow>
          (let c1 = step ext c in
           if batchBreak c1 \<or> halted c1 then Some (i + 1, c1) else batchLoop jit ext k until (i + 1) c1)
      | Some (slot, word) \<Rightarrow>
          (case (if jitOn c \<and> 8 \<le> until - i \<and> msr (st c) AND MSR_LE = 0
                 then jit slot word i until c else (False, i, c)) of
             (True, i1, c1) \<Rightarrow>
               (if batchBreak c1 \<or> halted c1 then Some (i1, c1) else batchLoop jit ext k until i1 c1)
           | (False, i1, c1) \<Rightarrow>
               (case lineLoop ext slot (flBase (fetchLine c1 slot)) until (wordsFrom word) i1 c1 of
                  (True, i2, c2) \<Rightarrow> Some (i2, c2)
                | (False, i2, c2) \<Rightarrow> batchLoop jit ext k until i2 c2)))"

definition runSteps :: "'b jit_runner \<Rightarrow> (string \<Rightarrow> 'b handler option) \<Rightarrow> nat \<Rightarrow> u64 \<Rightarrow> u64 \<Rightarrow> 'b cpu
    \<Rightarrow> (u64 \<times> u64 \<times> 'b cpu) option" where
  "runSteps jit ext fuel n stamp c =
     (case batchLoop jit ext fuel (stamp + n) stamp (c\<lparr>batchBreak := False, batching := True\<rparr>) of
        None \<Rightarrow> None
      | Some (i, c1) \<Rightarrow> Some (i - stamp, i, syncClock (c1\<lparr>batching := False\<rparr>)))"

end
