(* ===== verification/UserMode.thy ===== *)
theory UserMode
  imports ProtectedHandlers Step
begin

text \<open>
  User-mode isolation of one instruction step and of a run: the dispatch tail, the fetch path
  with its predecoded rows, the asynchronous exceptions and the clock, put together from the
  handlers' facts of \<^verbatim>\<open>Protection\<close> and \<^verbatim>\<open>ProtectedHandlers\<close>. Two properties rest on it: an
  unprivileged program changes no supervisor register except by trapping, and the rows the
  fetch buffer holds are always the decoder's.
\<close>

section \<open>Dispatch\<close>

definition privMnems :: "string list" where
  "privMnems = [''rfi'', ''mfmsr'', ''mtmsr'', ''mtsr'', ''mfsr'', ''mtsrin'', ''mfsrin'', ''dcbi'', ''tlbie'']"

lemma dcbi_rows_kept: "keepsRows (h_dcbi :: 'b handler)"
proof -
  have "flRows (dcbKill pa d) = flRows d" for pa and d :: "'b cpu" by (rule flRows_core) simp
  moreover have "flRows c1 = flRows c" if "translate ea wr fe c = (q, c1)" for ea wr fe q and c c1 :: "'b cpu"
    using translate_frame [of c ea wr fe] that by (simp add: xlFrame_def coreXl_def)
  ultimately show ?thesis
    by (auto simp: keepsRows_def h_dcbi_def split: prod.split option.split)
qed

lemma priv_rows_kept:
  "keepsRows h_rfi" "keepsRows h_mfmsr" "keepsRows h_mtmsr" "keepsRows h_mtsr" "keepsRows h_mfsr" "keepsRows h_mtsrin"
  "keepsRows h_mfsrin" "keepsRows h_tlbie"
  by (auto simp: keepsRows_def h_rfi_def h_mfmsr_def h_mtmsr_def h_mtsr_def h_mfsr_def h_mtsrin_def h_mfsrin_def h_tlbie_def
    tlbInvalidateClass_def flRows_def Let_def)

lemma bound_safe: "list_all (\<lambda>(m, h). (m \<in> set privMnems \<and> keepsRows h) \<or> userSafe h) boundHandlers"
  by (simp add: boundHandlers_def privMnems_def user_safe priv_rows_kept dcbi_rows_kept alwaysOk_userSafe)

lemma priv_rows: "list_all (\<lambda>d. mnem d \<in> set privMnems \<longrightarrow> flags d AND FL_PRIV \<noteq> 0) kIsa"
  unfolding kIsa_rows append_Cons append_Nil isaRow_def privMnems_def by simp

lemma preGate_priv: "flags d AND FL_PRIV \<noteq> 0 \<Longrightarrow> preGate d AND kPrePriv \<noteq> 0"
  by (auto simp: preGate_def)

text \<open>Charging cycles and counting events touch only the clock and the counters.\<close>

definition quiet :: "'b cpu \<Rightarrow> 'b cpu \<Rightarrow> bool" where
  "quiet d d' \<longleftrightarrow> (st d')\<lparr>pmc := (\<lambda>_. 0), tb := 0, dec := 0\<rparr> = (st d)\<lparr>pmc := (\<lambda>_. 0), tb := 0, dec := 0\<rparr> \<and>
     raisedThisStep d' = raisedThisStep d \<and> flRows d' = flRows d"

lemma quiet_sel:
  assumes "quiet d d'"
  shows "pc (st d') = pc (st d)" "msr (st d') = msr (st d)" "srr1 (st d') = srr1 (st d)" "prot (st d') = prot (st d)"
proof -
  have s: "(st d')\<lparr>pmc := (\<lambda>_. 0), tb := 0, dec := 0\<rparr> = (st d)\<lparr>pmc := (\<lambda>_. 0), tb := 0, dec := 0\<rparr>"
    using assms by (simp add: quiet_def)
  show "pc (st d') = pc (st d)" using arg_cong [OF s, of pc] by simp
  show "msr (st d') = msr (st d)" using arg_cong [OF s, of msr] by simp
  show "srr1 (st d') = srr1 (st d)" using arg_cong [OF s, of srr1] by simp
  show "prot (st d') = prot (st d)" using arg_cong [OF s, of prot] by simp
qed

lemma quiet_refl: "quiet d d"
  by (simp add: quiet_def)

lemma quiet_trans: "quiet a b \<Longrightarrow> quiet b c \<Longrightarrow> quiet a c"
  by (simp add: quiet_def)

lemma quiet_calm: "calm c d \<Longrightarrow> quiet d d' \<Longrightarrow> calm c d'"
  using quiet_sel(4) [of d d'] by (simp add: calm_def quiet_def)

lemma quiet_trapped: "trapped c d \<Longrightarrow> quiet d d' \<Longrightarrow> trapped c d'"
  using quiet_sel [of d d'] by (simp add: trapped_def enters_def quiet_def protX_def)

lemma quiet_userOk: "userOk c d \<Longrightarrow> quiet d d' \<Longrightarrow> userOk c d'"
  using quiet_calm quiet_trapped unfolding userOk_def by blast

lemma quiet_tick: "quiet d (tick n d)"
  by (simp add: quiet_def tick_def flRows_def Let_def)

lemma quiet_clockAdvanceCycles: "quiet d (clockAdvanceCycles n d)"
proof (induction n d rule: clockAdvanceCycles.induct)
  case (1 n d)
  then show ?case
    by (subst clockAdvanceCycles.simps) (auto simp: Let_def quiet_refl intro: quiet_trans [OF quiet_tick])
qed

lemma quiet_charge: "quiet d (charge n d)"
proof -
  have p: "quiet d (d\<lparr>pendCycles := x\<rparr>)" for x by (simp add: quiet_def flRows_def)
  show ?thesis
    unfolding charge_def syncClock_def Let_def
    by (simp add: p quiet_trans [OF p quiet_clockAdvanceCycles])
qed

lemma quiet_insnCharge: "quiet d (insnCharge d)"
  by (simp add: insnCharge_def quiet_charge)

lemma quiet_perfMon: "quiet d (perfMon d)"
proof -
  have k: "quiet d (pmcTick a b d)" for a b and d :: "'a cpu"
    by (simp add: quiet_def pmcTick_def flRows_def Let_def)
  show ?thesis unfolding perfMon_def Let_def using k quiet_trans [OF k k] by (auto simp: quiet_refl)
qed

lemma userOk_runHandler:
  assumes "userSafe fn" "userMode c"
  shows "userOk c (runHandler fn insn d c)"
proof -
  let ?c1 = "setPc (pc (st c) + 4) c"
  let ?c2 = "perfMon (insnCharge (fn ?c1 insn))"
  have k: "calm c ?c1" by (simp add: calm_def)
  have "userMode ?c1" using assms(2) by (simp add: userMode_def)
  with assms(1) have "userOk ?c1 (fn ?c1 insn)" by (simp add: userSafe_def)
  then have "userOk c (fn ?c1 insn)" by (rule calm_userOk [OF k])
  then have ok: "userOk c ?c2" by (rule quiet_userOk) (rule quiet_trans [OF quiet_insnCharge quiet_perfMon])
  have "userOk c (traceCheck d f ?c2)" if "\<not> raisedThisStep ?c2" for f
  proof -
    have "calm c ?c2" using ok that by (simp add: userOk_def trapped_def)
    then show ?thesis
      by (rule calm_userOk) (auto simp: traceCheck_def Let_def userOk_def trapped_raise)
  qed
  with ok show ?thesis by (simp add: runHandler_def Let_def)
qed

definition rowsOk :: "'b cpu \<Rightarrow> bool" where
  "rowsOk c \<longleftrightarrow> (\<forall>s. \<forall>k < 8. flRow (fetchLine c s) k = ucast (decodeRow (flW (fetchLine c s) k)))"

lemma userOk_execRow:
  assumes "userMode c" "\<And>m h. ext m = Some h \<Longrightarrow> userSafe h" "row = kNoRow \<or> unat row < kIsaCount" "\<not> raisedThisStep c"
  shows "userOk c (execRow ext insn row c)"
proof -
  let ?c = "c\<lparr>raisedThisStep := False, curInsn := insn\<rparr>" and ?d = "kIsa ! unat row"
  have k: "calm c ?c" and u: "userMode ?c" using assms(1,4) by (simp_all add: calm_def userMode_def)
  have tr: "userOk ?c (insnCharge (raiseExc v x y ?c))" for v x y
    by (rule quiet_userOk [OF _ quiet_insnCharge]) (simp add: userOk_def trapped_raise)
  have unk: "userOk ?c (insnCharge (raiseExc v x y (?c\<lparr>ins := z\<rparr>)))" for v x y z
    by (rule quiet_userOk [OF _ quiet_insnCharge]) (simp add: userOk_def trapped_raise)
  have "userOk ?c (execRow ext insn row c)"
  proof (cases "row = kNoRow")
    case True
    then show ?thesis using unk by (simp add: execRow_def Let_def)
  next
    case False
    then have row: "unat row < kIsaCount" using assms(3) by simp
    show ?thesis
    proof (cases "gateFault (preGate ?d) ?c")
      case (Some p)
      then show ?thesis using False tr by (cases p) (simp add: execRow_def Let_def)
    next
      case None
      then have np: "preGate ?d AND kPrePriv = 0" using u by (auto simp: gateFault_def split: if_splits)
      have "userSafe fn" if fn: "handlerFor ext (unat row) = Some fn" for fn
      proof (cases "ext (mnem ?d)")
        case (Some h)
        then show ?thesis using fn assms(2) by (simp add: handlerFor_def Let_def)
      next
        case None
        then have "(mnem ?d, fn) \<in> set boundHandlers" using fn by (simp add: handlerFor_def Let_def map_of_SomeD)
        with bound_safe have "mnem ?d \<in> set privMnems \<or> userSafe fn" by (auto simp: list_all_iff)
        moreover have "mnem ?d \<in> set privMnems \<longrightarrow> flags ?d AND FL_PRIV \<noteq> 0"
          using priv_rows row by (simp add: list_all_length kIsaCount_def)
        ultimately show ?thesis using np preGate_priv by blast
      qed
      then have "userOk ?c (runHandler fn insn ?d ?c)" if "handlerFor ext (unat row) = Some fn" for fn
        using that u by (blast intro: userOk_runHandler)
      then show ?thesis
        using False None by (auto simp: execRow_def Let_def userOk_def calm_def flRows_def split: option.split)
    qed
  qed
  then show ?thesis by (rule calm_userOk [OF k])
qed

section \<open>Fetch\<close>

lemma rowsOk_cong: "flRows c' = flRows c \<Longrightarrow> rowsOk c' = rowsOk c"
  by (simp add: rowsOk_def flRows_def fun_eq_iff)

lemma decodeRow_bound: "decodeRow w = kNoRow \<or> unat (decodeRow w) < kIsaCount"
proof (cases "decode w")
  case (Some n)
  then have "n < 347" using decode_bound kIsaCount_value by metis
  then show ?thesis using Some by (simp add: decodeRow_def unat_of_nat kIsaCount_value)
qed (simp add: decodeRow_def)

lemma decodeRow_half: "ucast (ucast (decodeRow w) :: u16) = decodeRow w"
proof -
  have "unat (decodeRow w) < 2 ^ 16"
    using decodeRow_bound [of w] by (auto simp: kIsaCount_value)
  then have "unat (ucast (ucast (decodeRow w) :: u16) :: u32) = unat (decodeRow w)"
    by (simp add: unsigned_ucast_eq unsigned_take_bit_eq take_bit_nat_eq_self)
  then show ?thesis by (simp only: word_unat_eq_iff)
qed

lemma okR_xlateFetch: "okR c (xlateFetch ea c)"
proof -
  obtain r c1 where t: "translate ea False True c = (r, c1)" by fastforce
  then have ok: "okR c (r, c1)" using okR_translate [of c ea False True] by simp
  show ?thesis
    using ok by (cases r) (auto simp: xlateFetch_def t Let_def calm_def flRows_def)
qed

lemma core_fetchPeek: "core (snd (fetchPeek pa c)) = core c"
proof -
  obtain q c1 where l: "l2Peek32 pa c = (q, c1)" by fastforce
  then have "core c1 = core c" using core_l2Find(3) [of pa c] by simp
  then show ?thesis by (cases q) (simp_all add: fetchPeek_def l split: option.split)
qed

lemma core_fetchRaw: "core (snd (fetchRaw pa c)) = core c"
proof -
  obtain q c1 where l: "l2ReadLine pa c = (q, c1)" by fastforce
  then have "core c1 = core c" using core_l2Find(2) [of pa c] by simp
  then show ?thesis by (cases q) (simp_all add: fetchRaw_def l split: option.split)
qed

definition fetchOk :: "'b cpu \<Rightarrow> (u32 \<times> u32) option \<times> 'b cpu \<Rightarrow> bool" where
  "fetchOk c p \<longleftrightarrow> (case p of
     (None, c1) \<Rightarrow> trapped c c1
   | (Some (insn, row), c1) \<Rightarrow> prot (st c1) = prot (st c) \<and> raisedThisStep c1 = raisedThisStep c \<and>
       rowsOk c1 \<and> row = decodeRow insn)"

lemma fetchOk_calm:
  assumes "calm c c1" "fetchOk c1 p"
  shows "fetchOk c p"
  using assms calm_trapped [OF assms(1)] unfolding fetchOk_def calm_def by (auto split: prod.splits option.splits)

lemma fetchOk_fill:
  assumes "rowsOk c"
  shows "fetchOk c (let fl' = fillFetchLine base raw (fetchLine c slot)
    in (Some (flW fl' word, ucast (flRow fl' word)), c\<lparr>fetchLine := (fetchLine c)(slot := fl')\<rparr>)) = (word < 8 \<or>
      fetchOk c (Some (flW (fetchLine c slot) word, ucast (flRow (fetchLine c slot) word)), c))"
  using assms by (auto simp: fetchOk_def fillFetchLine_def Let_def rowsOk_def decodeRow_half)

lemma fetchOk_hit:
  assumes "rowsOk c" "word < 8"
  shows "fetchOk c (Some (flW (fetchLine c slot) word, ucast (flRow (fetchLine c slot) word)), c)"
  using assms by (auto simp: fetchOk_def rowsOk_def decodeRow_half)

lemma fetchOk_fetchDecoded:
  assumes "rowsOk c"
  shows "fetchOk c (fetchDecoded ea0 c)"
proof -
  define ea where "ea = (if msr (st c) AND MSR_LE \<noteq> 0 then ea0 XOR 4 else ea0)"
  have coreOk: "rowsOk d \<and> calm c1 d" if "core d = core c1" "rowsOk c1" for c1 d :: "'a cpu"
    using that rowsOk_cong [OF core_sel(14) [OF that(1)]] by (simp add: calm_core)
  show ?thesis
  proof (cases "fetchCacheOff c")
    case True
    obtain r c1 where t: "translate ea False True c = (r, c1)" by fastforce
    have ok: "okR c (r, c1)" using okR_translate [of c ea False True] t by simp
    show ?thesis
    proof (cases r)
      case None
      then show ?thesis using ok True by (simp add: fetchDecoded_def ea_def [symmetric] t fetchOk_def)
    next
      case (Some x)
      obtain w c2 where p: "fetchPeek (fst x) c1 = (w, c2)" by fastforce
      have "core c2 = core c1" using core_fetchPeek [of "fst x" c1] p by simp
      moreover have k: "calm c c1" "rowsOk c1" using ok Some assms rowsOk_cong [of c1 c] by (simp_all add: calm_def)
      ultimately have "rowsOk c2" "calm c c2" using coreOk calm_trans by blast+
      then show ?thesis
        using True Some p by (simp add: fetchDecoded_def ea_def [symmetric] t fetchOk_def calm_def case_prod_beta)
    qed
  next
    case False
    obtain r c1 where t: "xlateFetch ea c = (r, c1)" by fastforce
    have ok: "okR c (r, c1)" using okR_xlateFetch [of c ea] t by simp
    show ?thesis
    proof (cases r)
      case None
      then show ?thesis using ok False by (simp add: fetchDecoded_def ea_def [symmetric] t fetchOk_def Let_def)
    next
      case (Some pa)
      have k: "calm c c1" "rowsOk c1" using ok Some assms rowsOk_cong [of c1 c] by (simp_all add: calm_def)
      let ?word = "drop_bit 2 pa AND 7" and ?base = "pa AND NOT 31" and ?slot = "fetchSlot pa"
      have w: "?word < 8" using and_mask_less [of 3 "drop_bit 2 pa"] by (simp add: mask_numeral)
      obtain q c2 where raw: "fetchRaw ?base c1 = (q, c2)" by fastforce
      have "core c2 = core c1" using core_fetchRaw [of ?base c1] raw by simp
      then have k2: "rowsOk c2" "calm c1 c2" using coreOk k(2) by blast+
      let ?d = "c2\<lparr>fetchLine := (fetchLine c2)(?slot := (fetchLine c2 ?slot)\<lparr>flBase := 1\<rparr>)\<rparr>"
      have kd: "calm c1 ?d" "rowsOk ?d" using k2 by (auto simp: calm_def rowsOk_def flRows_def fun_eq_iff)
      obtain insn c3 where br: "busRead32 pa ?d = (insn, c3)" by fastforce
      have "core c3 = core ?d" using core_bus(3) [of pa ?d] br by simp
      then have k3: "rowsOk c3" "calm c1 c3" using coreOk kd calm_trans by blast+
      have "fetchOk c1 (if flBase (fetchLine c1 ?slot) = ?base then (Some (flW (fetchLine c1 ?slot) ?word, ucast (flRow (fetchLine c1 ?slot) ?word)), c1)
           else case fetchRaw ?base c1 of
             (Some raw, c2) \<Rightarrow>
               (let fl' = fillFetchLine ?base raw (fetchLine c2 ?slot)
                in (Some (flW fl' ?word, ucast (flRow fl' ?word)), c2\<lparr>fetchLine := (fetchLine c2)(?slot := fl')\<rparr>))
           | (None, c2) \<Rightarrow>
               (case busRead32 pa (c2\<lparr>fetchLine := (fetchLine c2)(?slot := (fetchLine c2 ?slot)\<lparr>flBase := 1\<rparr>)\<rparr>) of
                  (insn, c3) \<Rightarrow> (Some (insn, decodeRow insn), c3)))"
      proof (cases "flBase (fetchLine c1 ?slot) = ?base")
        case True
        then show ?thesis using fetchOk_hit [OF k(2) w] by simp
      next
        case miss: False
        show ?thesis
        proof (cases q)
          case (Some b)
          then show ?thesis
            unfolding if_not_P [OF miss] raw using w fetchOk_calm [OF k2(2)] fetchOk_fill [OF k2(1), of ?base b ?slot ?word]
            by (simp only: prod.case option.case) blast
        next
          case None
          then show ?thesis
            unfolding if_not_P [OF miss] raw using k3 by (simp add: br fetchOk_def calm_def)
        qed
      qed
      from fetchOk_calm [OF k(1) this] show ?thesis
        using False unfolding fetchDecoded_def ea_def [symmetric] Let_def t Some
        by (simp only: if_False prod.case option.case)
    qed
  qed
qed

section \<open>One step in problem state\<close>

definition stOk :: "cpu_state \<Rightarrow> cpu_state \<Rightarrow> bool" where
  "stOk s s' \<longleftrightarrow> prot s' = prot s \<or> protX s' = protX s \<and> (\<exists>v. enters v s s')"

lemma userOk_stOk: "userOk c c' \<Longrightarrow> stOk (st c) (st c')"
  by (auto simp: userOk_def stOk_def calm_def trapped_def)

lemma asyncTake_trapped: "asyncTake c = Some c' \<Longrightarrow> trapped c c'"
proof -
  have r: "trapped c (raiseExc v x y (f c))" if "\<And>d. st (f d) = st d \<and> flRows (f d) = flRows d" for v x y f
    using that [of c] by (intro trapped_raise) simp_all
  have f: "st (smiPending_update g c) = st c" "st (pmPending_update g c) = st c"
    "flRows (smiPending_update g c) = flRows c" "flRows (pmPending_update g c) = flRows c"
    "flRows (decPending_update g c) = flRows c" for g
    by (simp_all add: flRows_def)
  assume "asyncTake c = Some c'"
  then show ?thesis
    by (auto simp: asyncTake_def Let_def f split: if_splits intro!: trapped_raise)
qed

lemma stOk_step:
  assumes "userMode c" "rowsOk c" "\<And>m h. ext m = Some h \<Longrightarrow> userSafe h"
  shows "stOk (st c) (st (step ext c))"
proof -
  let ?c = "c\<lparr>raisedThisStep := False\<rparr>" and ?c1 = "c\<lparr>raisedThisStep := False, napping := False\<rparr>"
  have idle: "stOk (st c) (st (insnCharge ?c))"
    using quiet_sel(4) [OF quiet_insnCharge, of ?c] by (simp add: stOk_def)
  have c1: "st ?c1 = st c" "\<not> raisedThisStep ?c1" "userMode ?c1" "rowsOk ?c1"
    using assms(1,2) by (simp_all add: userMode_def rowsOk_def)
  have run: "stOk (st ?c1) (st (fetchExec ext ?c1))"
  proof (cases "iabrHit (st ?c1)")
    case True
    have "userOk ?c1 (insnCharge (raiseExc Iabr (pc (st ?c1)) 0 ?c1))"
      by (rule quiet_userOk [OF _ quiet_insnCharge]) (simp add: userOk_def trapped_raise)
    with True show ?thesis by (simp only: fetchExec_def if_True userOk_stOk)
  next
    case False
    obtain q d where f: "fetchDecoded (pc (st ?c1)) ?c1 = (q, d)" by fastforce
    have ok: "fetchOk ?c1 (q, d)" using fetchOk_fetchDecoded [OF c1(4), of "pc (st ?c1)"] f by simp
    show ?thesis
    proof (cases q)
      case None
      then have "userOk ?c1 (insnCharge d)" using ok
        by (intro quiet_userOk [OF _ quiet_insnCharge]) (simp add: fetchOk_def userOk_def)
      then show ?thesis using False f None by (simp only: fetchExec_def if_False prod.case option.case userOk_stOk)
    next
      case (Some p)
      obtain insn row where p: "p = (insn, row)" by fastforce
      have d: "prot (st d) = prot (st ?c1)" "\<not> raisedThisStep d" "row = decodeRow insn"
        using ok c1(2) by (simp_all add: fetchOk_def Some p)
      have u: "userMode d" using c1(3) prot_msr(1) [OF d(1)] by (simp add: userMode_def)
      have "userOk d (execRow ext insn row d)"
        using u assms(3) _ d(2) by (rule userOk_execRow) (use decodeRow_bound d(3) in auto)
      then have "stOk (st d) (st (execRow ext insn row d))" by (rule userOk_stOk)
      then have "stOk (st ?c1) (st (execRow ext insn row d))"
        using d(1) prot_msr [OF d(1)] by (simp add: stOk_def enters_def)
      then show ?thesis using False f Some p by (simp only: fetchExec_def if_False prod.case option.case)
    qed
  qed
  have async: "stOk (st ?c1) (st (charge n c2))" if "asyncTake ?c1 = Some c2" for c2 n
    by (rule userOk_stOk, rule quiet_userOk [OF _ quiet_charge]) (simp add: userOk_def asyncTake_trapped [OF that])
  show ?thesis
    using idle run async unfolding step_def Let_def
    by (simp split: option.split)
qed

section \<open>The fetch buffer's rows\<close>

lemma quiet_rows: "quiet d d' \<Longrightarrow> flRows d' = flRows d"
  by (simp add: quiet_def)

lemma flRows_traceCheck [simp]: "flRows (traceCheck d f c) = flRows c"
  by (simp add: traceCheck_def Let_def)

lemma flRows_charges [simp]: "flRows (insnCharge d) = flRows d" "flRows (charge n d) = flRows d" "flRows (perfMon d) = flRows d"
  by (simp_all add: quiet_rows quiet_insnCharge quiet_charge quiet_perfMon)

lemma flRows_halt [simp]: "flRows (halted_update f c) = flRows c" "flRows (haltReason_update g c) = flRows c"
  by (simp_all add: flRows_def)

lemma execRow_rows:
  assumes "\<And>m h. ext m = Some h \<Longrightarrow> keepsRows h"
  shows "flRows (execRow ext insn row c) = flRows c"
proof -
  have "keepsRows fn" if "handlerFor ext k = Some fn" for k fn
  proof (cases "ext (mnem (kIsa ! k))")
    case None
    then have "(mnem (kIsa ! k), fn) \<in> set boundHandlers" using that by (simp add: handlerFor_def Let_def map_of_SomeD)
    with bound_safe show ?thesis by (auto simp: list_all_iff userSafe_def)
  qed (use that assms in \<open>simp add: handlerFor_def Let_def\<close>)
  then have "flRows (runHandler fn insn d c') = flRows c'" if "handlerFor ext k = Some fn" for k fn d c'
    using that by (simp add: runHandler_def keepsRows_def Let_def)
  then show ?thesis
    by (simp add: execRow_def Let_def split: option.split)
qed

lemma rowsOk_step:
  assumes "rowsOk c" "\<And>m h. ext m = Some h \<Longrightarrow> keepsRows h"
  shows "rowsOk (step ext c)"
proof -
  let ?c = "c\<lparr>raisedThisStep := False\<rparr>" and ?c1 = "c\<lparr>raisedThisStep := False, napping := False\<rparr>"
  have c: "rowsOk ?c" "rowsOk ?c1" using assms(1) by (simp_all add: rowsOk_def)
  have idle: "rowsOk (insnCharge ?c)" using c(1) rowsOk_cong [OF flRows_charges(1), of ?c] by simp
  have async: "rowsOk (charge n c2)" if "asyncTake ?c1 = Some c2" for n c2
    using asyncTake_trapped [OF that] c(2) rowsOk_cong [of "charge n c2" ?c1] by (simp add: trapped_def)
  obtain q d where f: "fetchDecoded (pc (st ?c1)) ?c1 = (q, d)" by fastforce
  have ok: "fetchOk ?c1 (q, d)" using fetchOk_fetchDecoded [OF c(2), of "pc (st ?c1)"] f by simp
  have d: "rowsOk d" using ok c(2) rowsOk_cong [of d ?c1] by (cases q) (simp_all add: fetchOk_def trapped_def case_prod_beta)
  have "rowsOk (insnCharge d)" "rowsOk (execRow ext insn row d)" for insn row
    using d rowsOk_cong [OF flRows_charges(1), of d] rowsOk_cong [OF execRow_rows [where ext = ext and insn = insn and row = row and c = d, OF assms(2)]]
    by simp_all
  moreover have "rowsOk (insnCharge (raiseExc Iabr x 0 ?c1))" for x
    using c(2) rowsOk_cong [of "insnCharge (raiseExc Iabr x 0 ?c1)" ?c1] by simp
  ultimately have "rowsOk (fetchExec ext ?c1)"
    using f by (simp add: fetchExec_def split: option.split)
  then show ?thesis using idle async by (simp add: step_def Let_def split: option.split)
qed

lemma no_zero_row: "list_all (\<lambda>d. primary d \<noteq> 0) kIsa"
  unfolding kIsa_rows append_Cons append_Nil isaRow_def by simp

lemma rowsOk_initCpu: "rowsOk (initCpu vt b)"
proof -
  have "decode 0 = None"
    using no_zero_row decode_matches [of 0] by (cases "decode 0") (auto simp: list_all_length kIsaCount_def matches_def f_primary_def ppcbits_def)
  then show ?thesis by (simp add: rowsOk_def initCpu_def decodeRow_def)
qed

text \<open>
  C19. The rows predecoded into the fetch buffer are always the decoder's: from a state
  where they are, after any number of steps, every fetch delivers with its word the row
  \<^verbatim>\<open>decode\<close> gives that word, whether the word came from the buffer, a fresh block or memory.
\<close>

theorem predecode_is_decode:
  assumes "rowsOk c" "\<And>m h. ext m = Some h \<Longrightarrow> keepsRows h"
    and "fetchDecoded ea ((step ext ^^ n) c) = (Some (insn, row), c')"
  shows "row = decodeRow insn \<and> rowsOk c'"
proof -
  have "rowsOk ((step ext ^^ n) c)"
    using assms(1) by (induction n) (simp_all add: rowsOk_step [OF _ assms(2)])
  from fetchOk_fetchDecoded [OF this, of ea] show ?thesis by (simp add: assms(3) fetchOk_def)
qed

definition noFetchCpu :: "flat_bus cpu" where
  "noFetchCpu = (flatCpu 64)\<lparr>st := (st (flatCpu 64))\<lparr>msr := 0x4000\<rparr>, fetchCacheOff := True\<rparr>"

lemma rowsOk_noFetch: "rowsOk noFetchCpu"
  using rowsOk_initCpu [of flatBusVt "flatBus 64"] by (simp add: rowsOk_def noFetchCpu_def flatCpu_def)

lemma fetch_noFetch: "\<exists>c'. fetchDecoded 0 noFetchCpu = (Some (0, decodeRow 0), c')"
  by (simp add: fetchDecoded_def noFetchCpu_def flatCpu_def initCpu_def initState_def translate_def fetchPeek_def l1dPeek32_def
    l2Peek32_def busRead32_def dceOn_def l2Find_def l2On_def flatBusVt_def fbRead32_def flatBus_def busDo_def inRam_def Let_def)

lemma predecode_is_decode_witness:
  "\<exists>c'. fetchDecoded 0 noFetchCpu = (Some (0, decodeRow 0), c') \<and> rowsOk c'"
proof -
  obtain c' where f: "fetchDecoded 0 noFetchCpu = (Some (0, decodeRow 0), c')" using fetch_noFetch by blast
  have "rowsOk c'"
    using predecode_is_decode [where n = 0 and ext = "\<lambda>_. None", OF rowsOk_noFetch] f by simp
  with f show ?thesis by blast
qed

lemma excMsr_user: "excMsr v m AND MSR_PR = 0"
  by (simp add: excMsr_def Let_def and.assoc bit.conj_disj_distrib2)

lemma stOk_userMode: "stOk (st c) (st d) \<Longrightarrow> userMode d \<Longrightarrow> prot (st d) = prot (st c)"
  by (auto simp: stOk_def enters_def userMode_def excMsr_user)

text \<open>Any number of steps, as long as all but the last leave the processor in user mode.\<close>

lemma stOk_steps:
  assumes "\<forall>k < n. userMode ((step ext ^^ k) c)" "rowsOk c" "\<And>m h. ext m = Some h \<Longrightarrow> userSafe h"
  shows "stOk (st c) (st ((step ext ^^ n) c))"
proof -
  have keeps: "keepsRows h" if "ext m = Some h" for m h using assms(3) [OF that] by (simp add: userSafe_def)
  have rows: "rowsOk ((step ext ^^ k) c)" for k
    by (induction k) (simp_all add: assms(2) rowsOk_step [OF _ keeps])
  show ?thesis using assms(1)
  proof (induction n)
    case (Suc n)
    let ?d = "(step ext ^^ n) c"
    have u: "userMode ?d" and s: "stOk (st c) (st ?d)" using Suc by simp_all
    have p: "prot (st ?d) = prot (st c)" using s u by (rule stOk_userMode)
    have "stOk (st ?d) (st (step ext ?d))" using u rows assms(3) by (rule stOk_step)
    then show ?case using p prot_msr [OF p] by (simp add: stOk_def enters_def)
  qed (simp add: stOk_def)
qed

text \<open>
  C1. User-mode isolation. As long as the processor executes in user mode, every supervisor
  register (the segment, BAT, special-purpose and control registers and the MSR itself, that is
  everything but the register files, counters and reservation \<^term>\<open>prot\<close> blanks out) keeps its value;
  the only way out is an exception, which writes SRR0, SRR1, DAR and DSISR, saves the MSR's bits
  in SRR1 and enters its vector with the exception's MSR.
\<close>

theorem user_mode_isolated:
  assumes "\<forall>k < n. userMode ((step ext ^^ k) c)" "rowsOk c" "\<And>m h. ext m = Some h \<Longrightarrow> userSafe h"
  shows "prot (st ((step ext ^^ n) c)) = prot (st c) \<or>
    protX (st ((step ext ^^ n) c)) = protX (st c) \<and> (\<exists>v. enters v (st c) (st ((step ext ^^ n) c)))"
  using stOk_steps [OF assms] by (simp add: stOk_def)

lemma user_mode_isolated_witness:
  "let s = st noFetchCpu; s' = st ((step (\<lambda>_. None) ^^ 1) noFetchCpu) in
     prot s' = prot s \<or> protX s' = protX s \<and> (\<exists>v. enters v s s')"
proof -
  have "\<forall>k < 1. userMode ((step (\<lambda>_. None) ^^ k) noFetchCpu)"
    by (simp add: userMode_def noFetchCpu_def)
  from user_mode_isolated [OF this rowsOk_noFetch] show ?thesis by (simp add: Let_def)
qed

end
