(* ===== verification/StepProps.thy ===== *)
theory StepProps
  imports UserMode
begin

text \<open>
  The instruction boundary of \<^verbatim>\<open>core/src/cpu.cpp\<close>: the priority and masking
  of asynchronous exceptions, and the end of a nap.
\<close>

section \<open>Asynchronous exceptions\<close>

text \<open>What a charge leaves alone.\<close>

definition untimed :: "'b cpu \<Rightarrow> 'b cpu \<Rightarrow> bool" where
  "untimed c d \<longleftrightarrow> (smiPending d, extIrqLine d, pmPending d, napping d, halted d) =
     (smiPending c, extIrqLine c, pmPending c, napping c, halted c) \<and> (decPending c \<longrightarrow> decPending d) \<and>
     (st d)\<lparr>tb := 0, dec := 0\<rparr> = (st c)\<lparr>tb := 0, dec := 0\<rparr>"

lemma untimed_refl [simp]: "untimed c c"
  by (simp add: untimed_def)

lemma untimed_trans: "untimed c d \<Longrightarrow> untimed d e \<Longrightarrow> untimed c e"
  by (simp add: untimed_def)

lemma untimed_tick: "untimed c (tick n c)"
  by (simp add: tick_def untimed_def Let_def)

lemma untimed_clockAdvanceCycles: "untimed c (clockAdvanceCycles n c)"
proof (induction n c rule: clockAdvanceCycles.induct)
  case (1 n c)
  then show ?case
    by (subst clockAdvanceCycles.simps) (auto simp: Let_def intro: untimed_trans [OF untimed_tick])
qed

lemma untimed_charge: "untimed c (charge n c)"
proof -
  have p: "untimed c (c\<lparr>pendCycles := x\<rparr>)" for x by (simp add: untimed_def)
  show ?thesis
    unfolding charge_def syncClock_def Let_def
    by (simp add: p untimed_trans [OF p untimed_clockAdvanceCycles])
qed

lemma untimed_st:
  assumes "untimed c d"
  shows "msr (st d) = msr (st c)" "pc (st d) = pc (st c)" "srr0 (st d) = srr0 (st c)" "srr1 (st d) = srr1 (st c)"
    "gpr (st d) = gpr (st c)"
proof -
  have e: "(st d)\<lparr>tb := 0, dec := 0\<rparr> = (st c)\<lparr>tb := 0, dec := 0\<rparr>" using assms by (simp add: untimed_def)
  from arg_cong [OF e, of msr] arg_cong [OF e, of pc] arg_cong [OF e, of srr0] arg_cong [OF e, of srr1] arg_cong [OF e, of gpr]
  show "msr (st d) = msr (st c)" "pc (st d) = pc (st c)" "srr0 (st d) = srr0 (st c)" "srr1 (st d) = srr1 (st c)"
    "gpr (st d) = gpr (st c)"
    by simp_all
qed

text \<open>The highest-priority request asserted, in the order the boundary tests them.\<close>

definition topIrq :: "'b cpu \<Rightarrow> exc option" where
  "topIrq c =
     (case filter snd [(Smi, smiPending c), (External, extIrqLine c), (Decrementer, decPending c), (PerfMon, pmPending c)] of
        [] \<Rightarrow> None
      | (v, _) # _ \<Rightarrow> Some v)"

lemma topIrq_anyIrq: "topIrq c \<noteq> None \<longleftrightarrow> anyIrq c"
  by (auto simp: topIrq_def anyIrq_def)

lemma enters_raise:
  assumes "msr (st c1) = msr (st c)"
  shows "enters v (st c) (st (raiseExc v s0 x c1))"
proof -
  have "((m AND 0x87C0FFFF) OR (x AND 0x783F0000)) AND 0x87C0FFFF = m AND 0x87C0FFFF" for m :: u32
    by (simp add: and.assoc bit.conj_disj_distrib2)
  then show ?thesis
    by (simp add: enters_def assms) (simp add: raiseExc_def Let_def assms)
qed

lemma excMsr_EE: "excMsr v m AND MSR_EE = 0"
  by (simp add: excMsr_def Let_def and.assoc bit.conj_disj_distrib2)

lemma asyncTake_top:
  assumes "msr (st c) AND MSR_EE \<noteq> 0" "topIrq c = Some v"
  shows "\<exists>d. asyncTake c = Some (raiseExc v (pc (st c)) 0 d) \<and> st d = st c \<and>
    smiPending d = (smiPending c \<and> v \<noteq> Smi) \<and> extIrqLine d = extIrqLine c \<and>
    decPending d = (decPending c \<and> v \<noteq> Decrementer) \<and> pmPending d = (pmPending c \<and> v \<noteq> PerfMon) \<and>
    napping d = napping c"
  using assms by (fastforce simp: topIrq_def asyncTake_def Let_def split: if_splits)

lemma raiseExc_pending:
  "smiPending (raiseExc v s0 x d) = smiPending d" "extIrqLine (raiseExc v s0 x d) = extIrqLine d"
  "decPending (raiseExc v s0 x d) = decPending d" "pmPending (raiseExc v s0 x d) = pmPending d"
  by (simp_all add: raiseExc_def Let_def)

lemma interrupt_step:
  fixes c :: "'b cpu" and ext :: "string \<Rightarrow> 'b handler option"
  assumes "msr (st c) AND MSR_EE \<noteq> 0" "topIrq c = Some v"
  defines "c' \<equiv> step ext c"
  shows "enters v (st c) (st c') \<and> srr0 (st c') = pc (st c) \<and> gpr (st c') = gpr (st c) \<and>
    msr (st c') AND MSR_EE = 0 \<and> \<not> napping c' \<and>
    smiPending c' = (smiPending c \<and> v \<noteq> Smi) \<and> extIrqLine c' = extIrqLine c \<and>
    pmPending c' = (pmPending c \<and> v \<noteq> PerfMon) \<and> (decPending c \<and> v \<noteq> Decrementer \<longrightarrow> decPending c')"
proof -
  let ?c = "c\<lparr>raisedThisStep := False, napping := False\<rparr>"
  have "topIrq ?c = Some v" using assms(2) by (simp add: topIrq_def)
  with assms(1) obtain d where d: "asyncTake ?c = Some (raiseExc v (pc (st c)) 0 d)" "st d = st c"
    "smiPending d = (smiPending c \<and> v \<noteq> Smi)" "extIrqLine d = extIrqLine c"
    "decPending d = (decPending c \<and> v \<noteq> Decrementer)" "pmPending d = (pmPending c \<and> v \<noteq> PerfMon)" "\<not> napping d"
    using asyncTake_top [of ?c v] by auto
  have "anyIrq c" using assms(2) topIrq_anyIrq [of c] by simp
  then have irq: "anyIrq (c\<lparr>raisedThisStep := False\<rparr>)" by (simp add: anyIrq_def)
  let ?e = "raiseExc v (pc (st c)) 0 d"
  have c': "c' = charge (extraCycles ?e) ?e"
    using assms(1) d(1) irq by (simp add: c'_def step_def Let_def)
  have u: "untimed ?e c'" unfolding c' by (rule untimed_charge)
  have e: "enters v (st c) (st ?e)" using d(2) by (intro enters_raise) simp
  show ?thesis
    using u e d excMsr_EE [of v "msr (st c)"] untimed_st [OF u]
    by (simp add: untimed_def raiseExc_pending raiseExc_frame enters_def)
qed

text \<open>
  C13. Interrupt priority and masking. With MSR[EE] set and a request asserted, the step takes the
  one of highest priority (system management, external, decrementer, performance monitor),
  executing no instruction: SRR0 is the address of the instruction it put off, the general
  registers are as they were, the vector is entered with interrupts masked, a nap ends, the edge
  request taken is consumed and every other request stays pending.
\<close>

theorem interrupt_taken_by_priority:
  fixes c :: "'b cpu" and ext :: "string \<Rightarrow> 'b handler option"
  assumes "msr (st c) AND MSR_EE \<noteq> 0" "topIrq c = Some v"
  defines "c' \<equiv> step ext c"
  shows "enters v (st c) (st c') \<and> srr0 (st c') = pc (st c) \<and> gpr (st c') = gpr (st c) \<and>
    msr (st c') AND MSR_EE = 0 \<and> \<not> napping c' \<and>
    smiPending c' = (smiPending c \<and> v \<noteq> Smi) \<and> extIrqLine c' = extIrqLine c \<and>
    pmPending c' = (pmPending c \<and> v \<noteq> PerfMon) \<and> (decPending c \<and> v \<noteq> Decrementer \<longrightarrow> decPending c')"
  unfolding assms(3) by (rule interrupt_step [OF assms(1,2)])

definition irqCpu :: "flat_bus cpu" where
  "irqCpu = (flatCpu 64)\<lparr>st := (st (flatCpu 64))\<lparr>msr := MSR_EE OR MSR_PR\<rparr>, extIrqLine := True, pmPending := True, napping := True\<rparr>"

lemma interrupt_taken_by_priority_witness:
  "let c' = step (\<lambda>_. None) irqCpu in
     enters External (st irqCpu) (st c') \<and> srr0 (st c') = pc (st irqCpu) \<and> \<not> napping c' \<and> pmPending c'"
proof -
  have "msr (st irqCpu) AND MSR_EE \<noteq> 0" "topIrq irqCpu = Some External" "pmPending irqCpu"
    by (simp_all add: irqCpu_def topIrq_def flatCpu_def initCpu_def)
  with interrupt_taken_by_priority [of irqCpu External "\<lambda>_. None"] show ?thesis by (simp add: Let_def)
qed

section \<open>Waking from a nap\<close>

lemma deadline_ticks:
  assumes "clock_ready c" "s \<noteq> 0" "unat (dec (st c)) + unat s \<le> 2 ^ 31" "j \<le> unat (stepsUntilDec s c)"
  shows "ticksIn c (j * unat s) \<le> 2 ^ 31"
proof -
  let ?D = "unat (dec (st c)) + 1" and ?d = "unat (cyclesPerTbTick c)" and ?a = "unat (cycleAccum c)" and ?s = "unat s"
  have d: "0 < ?d" "?a < ?d" and s: "0 < ?s" using assms by (auto simp: clock_ready_def unat_gt_0)
  have dec: "unat (dec (st c)) < 2 ^ 31" using assms(3) s by linarith
  have "j * ?s \<le> (?D * ?d - ?a + ?s - 1) div ?s * ?s"
    using assms(4) by (simp only: unat_stepsUntilDec [OF assms(1,2) dec] mult_le_mono1)
  also have "\<dots> \<le> ?D * ?d - ?a + ?s - 1" by simp
  finally have "?a + j * ?s \<le> ?D * ?d + (?s - 1)" using d s mult_le_mono1 [of 1 ?D ?d] by linarith
  also have "\<dots> \<le> ?D * ?d + (?s - 1) * ?d" using d by simp
  also have "\<dots> = (?D + (?s - 1)) * ?d" by (simp add: algebra_simps)
  finally have "ticksIn c (j * ?s) \<le> ?D + (?s - 1)"
    unfolding ticksIn_def using d by (metis div_le_mono nonzero_mult_div_cancel_right not_less_zero)
  then show ?thesis using assms(3) s by linarith
qed

definition asleep :: "'b cpu \<Rightarrow> bool" where
  "asleep c \<longleftrightarrow> napping c \<and> \<not> smiPending c \<and> \<not> extIrqLine c \<and> \<not> pmPending c \<and> clock_ready c \<and> pendCycles c = 0 \<and> \<not> batching c"

lemma adv_sel: "smiPending (adv n c) = smiPending c" "extIrqLine (adv n c) = extIrqLine c" "pmPending (adv n c) = pmPending c"
  "napping (adv n c) = napping c" "insnCycles (adv n c) = insnCycles c" "extraCycles (adv n c) = extraCycles c"
  "msr (st (adv n c)) = msr (st c)" "pc (st (adv n c)) = pc (st c)" "gpr (st (adv n c)) = gpr (st c)"
  "raisedThisStep (adv n c) = raisedThisStep c"
  by (simp_all add: adv_def Let_def)

lemma asleep_adv: "asleep c \<Longrightarrow> asleep (adv n c)"
  by (simp add: asleep_def adv_sel clock_ready_adv)

lemma asleep_step:
  assumes "asleep c" "\<not> decPending c" "ticksIn c (unat (insnCycles c + extraCycles c)) \<le> 2 ^ 31" "\<not> raisedThisStep c"
  shows "step ext c = adv (unat (insnCycles c + extraCycles c)) c"
proof -
  have c: "c\<lparr>raisedThisStep := False\<rparr> = c" using assms(4) by simp
  have "step ext c = insnCharge c"
    unfolding step_def Let_def c using assms(1,2) by (simp add: asleep_def anyIrq_def)
  then show ?thesis using assms by (simp add: insnCharge_def asleep_def charge_unbatched)
qed

lemma asleep_steps:
  assumes "asleep c" "\<not> decPending c" "\<not> raisedThisStep c" "s = insnCycles c + extraCycles c" "s \<noteq> 0"
    and "unat (dec (st c)) + unat s \<le> 2 ^ 31" "j \<le> unat (stepsUntilDec s c)"
  shows "(step ext ^^ j) c = adv (j * unat s) c"
  using assms(7)
proof (induction j)
  case 0
  then show ?case using assms(1) by (simp add: adv_zero asleep_def clock_ready_def)
next
  case (Suc j)
  have r: "clock_ready c" and d: "unat (dec (st c)) < 2 ^ 31"
    using assms(1,5,6) unat_gt_0 [of s] by (simp_all add: asleep_def)
  let ?e = "adv (j * unat s) c"
  have t: "ticksIn c (j * unat s + unat s) \<le> 2 ^ 31"
    using deadline_ticks [OF r assms(5,6) Suc.prems] by (simp add: add.commute)
  have "\<not> decPending ?e" using dec_deadline [OF r assms(5) d assms(2), of j] Suc.prems by simp
  then have "step ext ?e = adv (unat s) ?e"
    using asleep_step [of ?e ext] asleep_adv [OF assms(1)] ticksIn_adv [OF r t] assms(3,4) by (simp add: adv_sel)
  also have "\<dots> = adv (Suc j * unat s) c"
    using adv_add [of c "j * unat s" "unat s"] t r by (simp add: clock_ready_def ticksIn_def add.commute)
  finally show ?case using Suc by simp
qed

text \<open>
  C14. A nap ends exactly when the decrementer expires. A napping processor with interrupts enabled
  and nothing pending executes nothing (program counter and general registers stand still) and
  keeps counting time; the decrementer request appears after exactly \<^verbatim>\<open>stepsUntilDec\<close> steps, no earlier,
  and the next step wakes the processor into the decrementer vector, SRR0 holding the address
  it was napping at. For every step cost and divisor, as long as the count does not wrap.
\<close>

theorem nap_ends_at_deadline:
  fixes c :: "'b cpu" and ext :: "string \<Rightarrow> 'b handler option"
  assumes "asleep c" "\<not> decPending c" "\<not> raisedThisStep c" "msr (st c) AND MSR_EE \<noteq> 0"
    and "insnCycles c + extraCycles c \<noteq> 0" "unat (dec (st c)) + unat (insnCycles c + extraCycles c) \<le> 2 ^ 31"
  defines "at \<equiv> \<lambda>j. (step ext ^^ j) c" and "k \<equiv> unat (stepsUntilDec (insnCycles c + extraCycles c) c)"
  shows "(\<forall>j \<le> k. napping (at j) \<and> pc (st (at j)) = pc (st c) \<and> gpr (st (at j)) = gpr (st c) \<and> (decPending (at j) \<longleftrightarrow> j = k)) \<and>
    \<not> napping (at (Suc k)) \<and> enters Decrementer (st c) (st (at (Suc k))) \<and> srr0 (st (at (Suc k))) = pc (st c)"
proof -
  let ?s = "insnCycles c + extraCycles c"
  have r: "clock_ready c" and d: "unat (dec (st c)) < 2 ^ 31"
    using assms(1,5,6) unat_gt_0 [of ?s] by (simp_all add: asleep_def)
  have j: "at j = adv (j * unat ?s) c" if "j \<le> k" for j
    using asleep_steps [OF assms(1-3) refl assms(5,6)] that by (simp add: at_def k_def)
  have p: "decPending (at j) \<longleftrightarrow> j = k" if "j \<le> k" for j
    using dec_deadline [OF r assms(5) d assms(2), of j] that by (auto simp: j k_def)
  have "asleep (at k)" using j [of k] asleep_adv [OF assms(1)] by simp
  then have "topIrq (at k) = Some Decrementer" using p [of k] by (simp add: topIrq_def asleep_def)
  moreover have m: "msr (st (at k)) = msr (st c)" "pc (st (at k)) = pc (st c)" using j [of k] by (simp_all add: adv_sel)
  ultimately have "enters Decrementer (st (at k)) (st (step ext (at k))) \<and> srr0 (st (step ext (at k))) = pc (st (at k)) \<and>
      \<not> napping (step ext (at k))"
    using interrupt_step [of "at k" Decrementer ext] assms(4) by (simp add: Let_def)
  then have "\<not> napping (at (Suc k)) \<and> enters Decrementer (st c) (st (at (Suc k))) \<and> srr0 (st (at (Suc k))) = pc (st c)"
    using m by (simp add: at_def enters_def)
  then show ?thesis using j p assms(1) by (simp add: adv_sel asleep_def)
qed

definition napCpu :: "flat_bus cpu" where
  "napCpu = decTwo\<lparr>napping := True, st := (st decTwo)\<lparr>msr := MSR_EE\<rparr>\<rparr>"

lemma nap_ends_at_deadline_witness:
  "let at = \<lambda>j. (step (\<lambda>_. None) ^^ j) napCpu in
     napping (at 12) \<and> decPending (at 12) \<and> \<not> napping (at 13) \<and> enters Decrementer (st napCpu) (st (at 13))"
proof -
  have a: "asleep napCpu" "\<not> decPending napCpu" "\<not> raisedThisStep napCpu" "msr (st napCpu) AND MSR_EE \<noteq> 0"
    "insnCycles napCpu + extraCycles napCpu = 1" "dec (st napCpu) = 2"
    by (simp_all add: asleep_def napCpu_def decTwo_def flatCpu_def initCpu_def initState_def clock_ready_def wf_clock_def)
  have "stepsUntilDec 1 napCpu = 12"
    by (simp add: stepsUntilDec_def napCpu_def decTwo_def flatCpu_clock)
  then show ?thesis
    using nap_ends_at_deadline [OF a(1-4), of "\<lambda>_. None"] a(5,6) by (auto simp: Let_def)
qed

end
