(* ===== verification/LineProps.thy ===== *)
theory LineProps
  imports Step MemBus FlatBus
begin

text \<open>
  The batching loop \<^verbatim>\<open>Cpu::runSteps\<close> of \<^verbatim>\<open>core/src/cpu.cpp\<close> with its line executor: an instruction
  executed out of a held fetch block is the plain step, a run of them is a run of steps, the
  whole batch is a sequence of steps, and the loop terminates. The compiled-line runner is a
  parameter with the contract \<^verbatim>\<open>jitSound\<close>.
\<close>

section \<open>Walking a block\<close>

text \<open>The address after \<open>a\<close>, still in the block of \<open>a\<close>.\<close>

definition wordIn :: "u32 \<Rightarrow> u32" where
  "wordIn a = drop_bit 2 a AND 7"

lemma mask3: "(7 :: u32) = mask 3" by (simp add: mask_eq_exp_minus_1)

lemma mask12: "(0xFFF :: u32) = mask 12" by (simp add: mask_eq_exp_minus_1)

lemma wordIn_off: "wordIn a = drop_bit 2 (off a)"
  unfolding wordIn_def off_def mask3 mask5 by (rule bit_word_eqI) (auto simp: bit_simps)

lemma unat_wordIn: "unat (wordIn a) = unat (off a) div 4"
  by (simp add: wordIn_off unat_drop_bit)

lemma wordIn_less: "wordIn a < 8"
  using off_less [of a] unfolding word_less_nat_alt unat_wordIn by simp

lemma next_in_block:
  assumes "wordIn a < 7"
  shows "blk (a + 4) = blk a" "off (a + 4) = off a + 4" "wordIn (a + 4) = wordIn a + 1"
proof -
  have o: "unat (off a) < 28" using assms by (simp add: word_less_nat_alt unat_wordIn)
  then have o4: "unat (off a + 4) = unat (off a) + 4" by (simp add: unat_word_ariths)
  have a: "a + 4 = blk a + (off a + 4)" using blk_off [of a] by (simp add: add.assoc [symmetric])
  have l: "off a + 4 < 32" using o by (simp add: word_less_nat_alt o4)
  show "blk (a + 4) = blk a" unfolding a by (rule blk_add(1) [OF blk_aligned l])
  show f: "off (a + 4) = off a + 4" unfolding a by (rule blk_add(2) [OF blk_aligned l])
  have "unat (wordIn (a + 4)) = unat (wordIn a) + 1"
    by (simp add: unat_wordIn f o4)
  moreover have "unat (wordIn a + 1) = unat (wordIn a) + 1"
    using assms by (simp add: word_less_nat_alt unat_word_ariths)
  ultimately show "wordIn (a + 4) = wordIn a + 1" by (simp only: word_unat_eq_iff)
qed

lemma high_of_blk: "5 \<le> k \<Longrightarrow> drop_bit k a = drop_bit k (blk a)"
  unfolding blk_def mask5 by (rule bit_word_eqI) (auto simp: bit_simps dest: bit_imp_le_length)

lemma same_blk_high: "blk b = blk a \<Longrightarrow> 5 \<le> k \<Longrightarrow> drop_bit k b = drop_bit k a"
  using high_of_blk [of k a] high_of_blk [of k b] by simp

text \<open>The physical address of the page offset.\<close>

lemma page_pa:
  assumes "p AND 0xFFF = (0 :: u32)"
  shows "blk (p OR (a AND 0xFFF)) = p OR (blk a AND 0xFFF)" "wordIn (p OR (a AND 0xFFF)) = wordIn a"
proof -
  have p: "\<not> bit p n" if "n < 12" for n
    using that assms bit_and_iff [of p "mask 12" n] by (simp add: mask12 bit_simps)
  show "blk (p OR (a AND 0xFFF)) = p OR (blk a AND 0xFFF)"
    unfolding blk_def mask5 mask12 by (rule bit_word_eqI) (auto simp: bit_simps p)
  show "wordIn (p OR (a AND 0xFFF)) = wordIn a"
    unfolding wordIn_def mask3 mask12 by (rule bit_word_eqI) (auto simp: bit_simps p)
qed

section \<open>One instruction of the line\<close>

lemma fetch_hit:
  assumes "fetchBlockFast (pc (st c)) c = Some (slot, word)"
  shows "fetchDecoded (pc (st c)) c = (Some (flW (fetchLine c slot) word, ucast (flRow (fetchLine c slot) word)), c)"
  using assms by (auto simp: fetchBlockFast_def fetchDecoded_def xlateFetch_def Let_def split: if_splits)

lemma fetchBlockFast_flag [simp]: "fetchBlockFast ea (raisedThisStep_update f c) = fetchBlockFast ea c"
  by (simp add: fetchBlockFast_def)

lemma execRow_flag: "execRow ext insn row (raisedThisStep_update f c) = execRow ext insn row c"
  by (simp add: execRow_def)

lemma step_of_hit:
  assumes "\<not> slowLine c" "fetchBlockFast (pc (st c)) c = Some (slot, word)"
  shows "step ext c = execRow ext (flW (fetchLine c slot) word) (ucast (flRow (fetchLine c slot) word)) c"
proof -
  let ?c = "c\<lparr>raisedThisStep := False\<rparr>"
  have nap: "?c\<lparr>napping := False\<rparr> = ?c" "\<not> napping c" using assms(1) by (simp_all add: slowLine_def)
  have "asyncTake ?c = None" using assms(1) by (auto simp: slowLine_def asyncTake_def anyIrq_def Let_def)
  moreover have "fetchExec ext ?c = execRow ext (flW (fetchLine c slot) word) (ucast (flRow (fetchLine c slot) word)) ?c"
    using assms(1) fetch_hit [of ?c slot word] assms(2) by (simp add: fetchExec_def iabrHit_def slowLine_def)
  ultimately show ?thesis unfolding step_def Let_def nap(1) using nap(2) by (simp add: execRow_flag)
qed

definition untraced :: "'b cpu \<Rightarrow> bool" where
  "untraced c \<longleftrightarrow> mmcr0 (st c) = 0 \<and> msr (st c) AND (MSR_SE OR MSR_BE) = 0"

lemma execLine_row:
  assumes "\<And>d. execFast ext insn row c = (True, d) \<Longrightarrow> untraced d"
  shows "execLine ext insn row c = execRow ext insn row c"
proof (cases "execFast ext insn row c")
  case (Pair ok d)
  show ?thesis
  proof (cases ok)
    case True
    then have l: "execLine ext insn row c = d" by (simp add: execLine_def Pair)
    obtain fn where fn: "row \<noteq> kNoRow" "handlerFor ext (unat row) = Some fn" "preGate (kIsa ! unat row) = 0"
      "d = insnCharge (fn (setPc (pc (st c) + 4) (c\<lparr>raisedThisStep := False, curInsn := insn\<rparr>)) insn)"
      using Pair True by (auto simp: execFast_def split: if_splits option.splits)
    have "untraced d" using assms Pair True by simp
    then have "perfMon d = d" "traceCheck x y d = d" for x y
      by (simp_all add: untraced_def perfMon_def traceCheck_def Let_def)
    then show ?thesis using fn by (simp add: l execRow_def runHandler_def gateFault_def Let_def)
  next
    case False
    then have "d = c" using Pair by (auto simp: execFast_def split: if_splits option.splits)
    then show ?thesis using False by (simp add: execLine_def Pair)
  qed
qed

text \<open>The instruction the line executor runs when the fetch block of the program counter is held.\<close>

definition lineExec :: "(string \<Rightarrow> 'b handler option) \<Rightarrow> u32 \<Rightarrow> u32 \<Rightarrow> 'b cpu \<Rightarrow> 'b cpu" where
  "lineExec ext slot word c = execLine ext (flW (fetchLine c slot) word) (ucast (flRow (fetchLine c slot) word)) c"

lemma lineExec_step:
  assumes "\<not> slowLine c" "fetchBlockFast (pc (st c)) c = Some (slot, word)"
    and "\<And>d. execFast ext (flW (fetchLine c slot) word) (ucast (flRow (fetchLine c slot) word)) c = (True, d) \<Longrightarrow> untraced d"
  shows "lineExec ext slot word c = step ext c"
  unfolding lineExec_def step_of_hit [OF assms(1,2)] using assms(3) by (rule execLine_row)

section \<open>What the inner loop takes for granted\<close>

text \<open>
  The contract of the comment above \<^verbatim>\<open>runSteps\<close>, for one instruction: an instruction run out of the
  line leaves the performance monitor and tracing off, and when it neither ends the batch nor
  leaves the line, the hoisted conditions and the fetch translation stand.
\<close>

definition sameXlate :: "'b cpu \<Rightarrow> 'b cpu \<Rightarrow> bool" where
  "sameXlate c d \<longleftrightarrow> xlGen d = mmuGen d \<and> xlPage d = xlPage c \<and> xlPa d = xlPa c \<and> xlMsr d = xlMsr c \<and> xlSr d = xlSr c \<and>
     msr (st d) AND (MSR_IR OR MSR_PR OR MSR_LE) = msr (st c) AND (MSR_IR OR MSR_PR OR MSR_LE) \<and>
     sr (st d) (drop_bit 28 (pc (st c))) = sr (st c) (drop_bit 28 (pc (st c))) \<and> fetchCacheOff d = fetchCacheOff c"

definition steady :: "(string \<Rightarrow> 'b handler option) \<Rightarrow> 'b cpu \<Rightarrow> bool" where
  "steady ext c \<longleftrightarrow> slowLine c \<or>
     (case fetchBlockFast (pc (st c)) c of
        None \<Rightarrow> True
      | Some (slot, word) \<Rightarrow>
          msr (st c) AND MSR_LE = 0 \<and> xlPa c AND 0xFFF = 0 \<and>
          (let d = lineExec ext slot word c in d = step ext c \<and>
             (batchBreak d \<or> halted d \<or> pc (st d) \<noteq> pc (st c) + 4 \<or> word = 7 \<or> \<not> slowLine d \<and> sameXlate c d)))"

lemma sameXlate_LE: "sameXlate c d \<Longrightarrow> msr (st c) AND MSR_LE = 0 \<Longrightarrow> msr (st d) AND MSR_LE = 0"
proof -
  have "m AND MSR_LE = (m AND (MSR_IR OR MSR_PR OR MSR_LE)) AND MSR_LE" for m :: u32 by (simp add: and.assoc)
  from this [of "msr (st c)"] this [of "msr (st d)"]
  show "sameXlate c d \<Longrightarrow> msr (st c) AND MSR_LE = 0 \<Longrightarrow> msr (st d) AND MSR_LE = 0" by (simp add: sameXlate_def)
qed

lemma fetchBlockFast_iff:
  assumes "msr (st c) AND MSR_LE = 0" "xlPa c AND 0xFFF = 0"
  shows "fetchBlockFast a c = Some (slot, w) \<longleftrightarrow>
    \<not> fetchCacheOff c \<and> xlGen c = mmuGen c \<and> xlPage c = drop_bit 12 a \<and>
    xlMsr c = msr (st c) AND (MSR_IR OR MSR_PR OR MSR_LE) \<and> xlSr c = sr (st c) (drop_bit 28 a) \<and>
    slot = fetchSlot (xlPa c OR (a AND 0xFFF)) \<and> flBase (fetchLine c slot) = blk (xlPa c OR (a AND 0xFFF)) \<and> w = wordIn a"
  using assms(1) page_pa(2) [OF assms(2), of a] by (auto simp: fetchBlockFast_def Let_def blk_def wordIn_def)

lemma fetchBlockFast_next:
  assumes "fetchBlockFast (pc (st c)) c = Some (slot, word)" "sameXlate c d" "pc (st d) = pc (st c) + 4"
    and "word \<noteq> 7" "flBase (fetchLine d slot) = flBase (fetchLine c slot)"
    and "msr (st c) AND MSR_LE = 0" "msr (st d) AND MSR_LE = 0" "xlPa c AND 0xFFF = 0"
  shows "fetchBlockFast (pc (st d)) d = Some (slot, word + 1)"
proof -
  let ?a = "pc (st c)" and ?p = "\<lambda>a. xlPa c OR (a AND 0xFFF)"
  note hit = assms(1) [unfolded fetchBlockFast_iff [OF assms(6,8)]]
  note x = assms(2) [unfolded sameXlate_def]
  have "wordIn ?a < 7"
    using hit assms(4) wordIn_less [of ?a] by (auto simp: word_less_nat_alt word_unat_eq_iff)
  note n = next_in_block [OF this]
  have b: "blk (?p (?a + 4)) = blk (?p ?a)" by (simp only: page_pa(1) [OF assms(8)] n(1))
  have s: "fetchSlot (?p (?a + 4)) = fetchSlot (?p ?a)"
    unfolding fetchSlot_def using same_blk_high [OF b, of 5] by simp
  have h: "drop_bit 12 (?a + 4) = drop_bit 12 ?a" "drop_bit 28 (?a + 4) = drop_bit 28 ?a"
    using same_blk_high [OF n(1), of 12] same_blk_high [OF n(1), of 28] by simp_all
  have "xlPa d AND 0xFFF = 0" using x assms(8) by simp
  note iff = fetchBlockFast_iff [OF assms(7) this]
  have "xlPa d = xlPa c" using x by blast
  then show ?thesis unfolding iff assms(3) h s b n(3) using hit x assms(5) by (simp only: b s) (elim conjE, simp)
qed

section \<open>The loops as sequences of steps\<close>

text \<open>
  \<open>k\<close> steps from \<open>c\<close> reach \<open>d\<close>, none but possibly the last asking for the batch to end.
\<close>

definition stepsTo :: "(string \<Rightarrow> 'b handler option) \<Rightarrow> nat \<Rightarrow> 'b cpu \<Rightarrow> 'b cpu \<Rightarrow> bool" where
  "stepsTo ext k c d \<longleftrightarrow> d = (step ext ^^ k) c \<and>
     (\<forall>j. 0 < j \<and> j < k \<longrightarrow> \<not> batchBreak ((step ext ^^ j) c) \<and> \<not> halted ((step ext ^^ j) c))"

lemma stepsTo_0 [simp]: "stepsTo ext 0 c c"
  by (simp add: stepsTo_def)

lemma stepsTo_Suc0 [simp]: "stepsTo ext (Suc 0) c (step ext c)"
  by (simp add: stepsTo_def)

lemma stepsTo_trans:
  assumes "stepsTo ext k c d" "\<not> batchBreak d" "\<not> halted d" "stepsTo ext m d e"
  shows "stepsTo ext (k + m) c e"
proof -
  have d: "d = (step ext ^^ k) c" and e: "e = (step ext ^^ m) d" using assms by (simp_all add: stepsTo_def)
  have "(step ext ^^ (j + k)) c = (step ext ^^ j) d" for j by (simp add: d funpow_add)
  then have mid: "(step ext ^^ j) c = (step ext ^^ (j - k)) d" if "k \<le> j" for j
    using that by (metis le_add_diff_inverse2)
  have "\<not> batchBreak ((step ext ^^ j) c) \<and> \<not> halted ((step ext ^^ j) c)" if "0 < j" "j < k + m" for j
  proof (cases "j < k")
    case True
    then show ?thesis using assms(1) that by (simp add: stepsTo_def)
  next
    case False
    then have "j - k < m" using that by simp
    with False show ?thesis using assms(2-4) mid [of j] by (cases "j = k") (auto simp: stepsTo_def)
  qed
  then show ?thesis using mid [of "k + m"] e by (simp add: stepsTo_def)
qed

text \<open>What a compiled line promises: some steps, at least one, within the limit; or nothing.\<close>

definition jitSound :: "'b jit_runner \<Rightarrow> (string \<Rightarrow> 'b handler option) \<Rightarrow> bool" where
  "jitSound jit ext \<longleftrightarrow> (\<forall>slot word i until c i1 d.
     (jit slot word i until c = (True, i1, d) \<longrightarrow> i < until \<longrightarrow>
        i < i1 \<and> i1 \<le> until \<and> stepsTo ext (unat (i1 - i)) c d) \<and>
     (jit slot word i until c = (False, i1, d) \<longrightarrow> i1 = i \<and> d = c))"

lemma wordsFrom_Cons: "w < 8 \<Longrightarrow> wordsFrom w = w # (if w = 7 then [] else wordsFrom (w + 1))"
proof -
  assume "w < 8"
  then have "unat w < 8" by (simp add: word_less_nat_alt)
  moreover from this have "unat (w + 1) = unat w + 1" by (simp add: unat_word_ariths)
  moreover have "unat w = 7 \<longleftrightarrow> w = 7" by (simp add: word_unat_eq_iff)
  ultimately show ?thesis by (auto simp: wordsFrom_def upt_conv_Cons)
qed

lemma wordsFrom_Nil: "wordsFrom w = [] \<longleftrightarrow> 8 \<le> w"
  by (simp add: wordsFrom_def word_le_nat_alt)

lemma u64_succ:
  fixes i until :: u64
  assumes "i < until"
  shows "unat (i + 1) = Suc (unat i)" "i < i + 1" "i + 1 \<le> until" "unat (until - i) = Suc (unat (until - (i + 1)))"
proof -
  have l: "unat i < unat until" "unat until < 2 ^ 64" using assms unsigned_less [of until] by (simp_all add: word_less_nat_alt)
  then show s: "unat (i + 1) = Suc (unat i)" by (simp add: unat_word_ariths)
  with l show "i < i + 1" "i + 1 \<le> until" by (simp_all add: word_less_nat_alt word_le_nat_alt)
  then show "unat (until - i) = Suc (unat (until - (i + 1)))"
    using assms l s by (simp add: unat_sub)
qed

text \<open>The first \<open>j\<close> steps from \<open>c\<close> do not end the batch; the contract is needed only that far.\<close>

definition running :: "(string \<Rightarrow> 'b handler option) \<Rightarrow> 'b cpu \<Rightarrow> nat \<Rightarrow> bool" where
  "running ext c j \<longleftrightarrow> (\<forall>i. 0 < i \<and> i \<le> j \<longrightarrow> \<not> batchBreak ((step ext ^^ i) c) \<and> \<not> halted ((step ext ^^ i) c))"

definition allSteady :: "(string \<Rightarrow> 'b handler option) \<Rightarrow> u64 \<Rightarrow> 'b cpu \<Rightarrow> bool" where
  "allSteady ext n c \<longleftrightarrow> (\<forall>j < unat n. running ext c j \<longrightarrow> steady ext ((step ext ^^ j) c))"

lemma running_0 [simp]: "running ext c 0"
  by (simp add: running_def)

lemma running_later:
  assumes "stepsTo ext k c e" "\<not> batchBreak e" "\<not> halted e" "running ext e j"
  shows "running ext c (j + k)"
  unfolding running_def
proof (intro allI impI)
  fix i assume i: "0 < i \<and> i \<le> j + k"
  have e: "e = (step ext ^^ k) c" using assms(1) by (simp add: stepsTo_def)
  show "\<not> batchBreak ((step ext ^^ i) c) \<and> \<not> halted ((step ext ^^ i) c)"
  proof (cases "i \<le> k")
    case True
    then show ?thesis using assms(1-3) i e by (cases "i = k") (auto simp: stepsTo_def)
  next
    case False
    then have "(step ext ^^ i) c = (step ext ^^ (i - k)) e" unfolding e
      by (metis comp_apply funpow_add le_add_diff_inverse2 nat_le_linear)
    then show ?thesis using assms(4) False i by (auto simp: running_def)
  qed
qed

lemma allSteady_start: "allSteady ext n c \<Longrightarrow> 0 < unat n \<Longrightarrow> steady ext c"
  by (metis allSteady_def funpow_0 running_0)

lemma unat_diff_split: "i \<le> m \<Longrightarrow> m \<le> n \<Longrightarrow> unat (n - i) = unat (m - i) + unat (n - m)" for i m n :: u64
  by (simp add: unat_sub word_le_nat_alt)

lemma allSteady_later:
  assumes "allSteady ext (until - i) c" "stepsTo ext (unat (m - i)) c e" "\<not> batchBreak e" "\<not> halted e" "i \<le> m" "m \<le> until"
  shows "allSteady ext (until - m) e"
  unfolding allSteady_def
proof (intro allI impI)
  fix j assume j: "j < unat (until - m)" and r: "running ext e j"
  have "unat (m - i) + j < unat (until - i)" using j unat_diff_split [OF assms(5,6)] by simp
  then have "steady ext ((step ext ^^ (j + unat (m - i))) c)"
    using assms(1) running_later [OF assms(2-4) r] by (simp add: allSteady_def add.commute)
  then show "steady ext ((step ext ^^ j) e)" using assms(2) by (simp add: stepsTo_def funpow_add)
qed

text \<open>
  One round of the inner loop ends the batch, leaves the line, or goes on with the next word.
\<close>

lemma lineLoop_steps:
  assumes "w < 8" "i < until" "\<not> slowLine c" "fetchBlockFast (pc (st c)) c = Some (slot, w)"
    and "base = flBase (fetchLine c slot)" "allSteady ext (until - i) c"
    and "lineLoop ext slot base until (wordsFrom w) i c = (fin, i1, d)"
  shows "i < i1 \<and> i1 \<le> until \<and> stepsTo ext (unat (i1 - i)) c d \<and> fin = (batchBreak d \<or> halted d)"
  using assms
proof (induction "8 - unat w" arbitrary: w i c rule: less_induct)
  case less
  let ?d = "lineExec ext slot w c"
  have n: "0 < unat (until - i)" using less.prems(2) by (simp add: unat_gt_0)
  have st0: "steady ext c" using less.prems(6) n by (rule allSteady_start)
  then have le: "msr (st c) AND MSR_LE = 0" "xlPa c AND 0xFFF = 0" and d: "?d = step ext c"
    and s: "batchBreak ?d \<or> halted ?d \<or> pc (st ?d) \<noteq> pc (st c) + 4 \<or> w = 7 \<or> \<not> slowLine ?d \<and> sameXlate c ?d"
    using less.prems(3,4) by (auto simp: steady_def Let_def)
  have i1: "i < i + 1" "i + 1 \<le> until" "unat (i + 1 - i) = Suc 0" using less.prems(2)
    by (simp_all add: u64_succ)
  let ?go = "i + 1 < until \<and> pc (st ?d) = pc (st c) + 4 \<and> w \<noteq> 7 \<and> flBase (fetchLine ?d slot) = base"
  have loop: "lineLoop ext slot base until (wordsFrom w) i c =
    (if batchBreak ?d \<or> halted ?d then (True, i + 1, ?d)
     else if ?go then lineLoop ext slot base until (wordsFrom (w + 1)) (i + 1) ?d else (False, i + 1, ?d))"
  proof -
    let ?ws = "if w = 7 then [] else wordsFrom (w + 1)"
    have ws: "wordsFrom w = w # ?ws" by (rule wordsFrom_Cons [OF less.prems(1)])
    have nil: "?ws = [] \<longleftrightarrow> w = 7"
      using less.prems(1) by (auto simp: wordsFrom_Nil word_less_nat_alt word_le_nat_alt word_unat_eq_iff unat_word_ariths)
    show ?thesis unfolding ws lineLoop.simps Let_def lineExec_def nil
      by (cases "w = 7") (simp_all add: not_le [symmetric])
  qed
  show ?case
  proof (cases "batchBreak ?d \<or> halted ?d \<or> \<not> ?go")
    case True
    then have "lineLoop ext slot base until (wordsFrom w) i c = (batchBreak ?d \<or> halted ?d, i + 1, ?d)"
      unfolding loop by (cases "batchBreak ?d \<or> halted ?d") auto
    with less.prems(7) have e: "i1 = i + 1" "d = ?d" "fin = (batchBreak ?d \<or> halted ?d)" by auto
    show ?thesis unfolding e using i1 d by simp
  next
    case False
    have go: "i + 1 < until" "pc (st ?d) = pc (st c) + 4" "w \<noteq> 7" "flBase (fetchLine ?d slot) = base"
      "\<not> batchBreak ?d" "\<not> halted ?d" using False by simp_all
    have u: "unat (until - i) = Suc (unat (until - (i + 1)))"
      by (rule u64_succ(4) [OF less.prems(2)])
    have k: "stepsTo ext (unat (i + 1 - i)) c ?d" unfolding i1(3) d by simp
    have st1: "allSteady ext (until - (i + 1)) ?d"
      by (rule allSteady_later [OF less.prems(6) k go(5,6)]) (use i1 in \<open>simp_all add: less_imp_le\<close>)
    have slow: "\<not> slowLine ?d" "sameXlate c ?d" using s go by simp_all
    have hit: "fetchBlockFast (pc (st ?d)) ?d = Some (slot, w + 1)"
      using fetchBlockFast_next [OF less.prems(4) slow(2) go(2,3) _ le(1) sameXlate_LE [OF slow(2) le(1)] le(2)] go(4) less.prems(5)
      by simp
    have w: "w + 1 < 8" "8 - unat (w + 1) < 8 - unat w" using less.prems(1) go(3)
      by (auto simp: word_less_nat_alt word_unat_eq_iff unat_word_ariths)
    have l: "lineLoop ext slot base until (wordsFrom (w + 1)) (i + 1) ?d = (fin, i1, d)"
      using less.prems(7) False unfolding loop by simp
    have r: "i + 1 < i1 \<and> i1 \<le> until \<and> stepsTo ext (unat (i1 - (i + 1))) ?d d \<and> fin = (batchBreak d \<or> halted d)"
      by (rule less.hyps [OF w(2,1) go(1) slow(1) hit go(4) [symmetric] st1 l])
    moreover have "i < i1" using r i1(1) by (blast intro: less_trans)
    moreover from this have "unat (i1 - i) = 1 + unat (i1 - (i + 1))" by (simp add: u64_succ(4))
    moreover have "stepsTo ext (1 + unat (i1 - (i + 1))) c d"
      by (rule stepsTo_trans [where d = ?d]) (use r go d in auto)
    ultimately show ?thesis by simp
  qed
qed

definition ranTo :: "(string \<Rightarrow> 'b handler option) \<Rightarrow> u64 \<Rightarrow> u64 \<Rightarrow> 'b cpu \<Rightarrow> u64 \<times> 'b cpu \<Rightarrow> bool" where
  "ranTo ext until i c r \<longleftrightarrow> (case r of (i1, d) \<Rightarrow>
     i \<le> i1 \<and> i1 \<le> until \<and> stepsTo ext (unat (i1 - i)) c d \<and> (i1 < until \<longrightarrow> batchBreak d \<or> halted d))"

lemma ranTo_trans:
  assumes "stepsTo ext (unat (m - i)) c e" "i \<le> m" "\<not> batchBreak e" "\<not> halted e" "ranTo ext until m e r"
  shows "ranTo ext until i c r"
proof (cases r)
  case (Pair i1 d)
  with assms(5) have r: "m \<le> i1" "i1 \<le> until" "stepsTo ext (unat (i1 - m)) e d" "i1 < until \<longrightarrow> batchBreak d \<or> halted d"
    by (simp_all add: ranTo_def)
  have "stepsTo ext (unat (i1 - i)) c d"
    unfolding unat_diff_split [OF assms(2) r(1)] by (rule stepsTo_trans [OF assms(1,3,4) r(3)])
  then show ?thesis using r order_trans [OF assms(2) r(1)] by (simp add: ranTo_def Pair)
qed

lemma ranTo_end: "stepsTo ext (unat (m - i)) c e \<Longrightarrow> i \<le> m \<Longrightarrow> m \<le> until \<Longrightarrow> batchBreak e \<or> halted e \<Longrightarrow> ranTo ext until i c (m, e)"
  by (simp add: ranTo_def)

lemma hit_word: "fetchBlockFast a c = Some (slot, w) \<Longrightarrow> w < 8"
proof -
  have "x AND 7 < 8" for x :: u32 using and_mask_less [of 3 x] by (simp add: mask3)
  then show "fetchBlockFast a c = Some (slot, w) \<Longrightarrow> w < 8"
    by (auto simp: fetchBlockFast_def Let_def split: if_splits)
qed

text \<open>The line, compiled or interpreted: at least one step and never past the limit.\<close>

definition lineStep :: "'b jit_runner \<Rightarrow> (string \<Rightarrow> 'b handler option) \<Rightarrow> u64 \<Rightarrow> u32 \<Rightarrow> u32 \<Rightarrow> u64 \<Rightarrow> 'b cpu \<Rightarrow> bool \<times> u64 \<times> 'b cpu" where
  "lineStep jit ext until slot word i c =
     (case (if jitOn c \<and> 8 \<le> until - i \<and> msr (st c) AND MSR_LE = 0
            then jit slot word i until c else (False, i, c)) of
        (True, i1, c1) \<Rightarrow> (batchBreak c1 \<or> halted c1, i1, c1)
      | (False, i1, c1) \<Rightarrow> lineLoop ext slot (flBase (fetchLine c1 slot)) until (wordsFrom word) i1 c1)"

lemma batchLoop_Suc:
  "batchLoop jit ext (Suc k) until i c =
     (if \<not> i < until then Some (i, c)
      else case (case (if slowLine c then None else fetchBlockFast (pc (st c)) c) of
          None \<Rightarrow> let c1 = step ext c in (batchBreak c1 \<or> halted c1, i + 1, c1)
        | Some (slot, word) \<Rightarrow> lineStep jit ext until slot word i c) of
        (True, r) \<Rightarrow> Some r
      | (False, i1, c1) \<Rightarrow> batchLoop jit ext k until i1 c1)"
  by (auto simp: lineStep_def Let_def split: option.split prod.split bool.split)

lemma lineStep_steps:
  assumes "jitSound jit ext" "i < until" "\<not> slowLine c" "fetchBlockFast (pc (st c)) c = Some (slot, w)"
    and "allSteady ext (until - i) c" "lineStep jit ext until slot w i c = (fin, i1, d)"
  shows "i < i1 \<and> i1 \<le> until \<and> stepsTo ext (unat (i1 - i)) c d \<and> fin = (batchBreak d \<or> halted d)"
proof -
  let ?j = "if jitOn c \<and> 8 \<le> until - i \<and> msr (st c) AND MSR_LE = 0 then jit slot w i until c else (False, i, c)"
  obtain ran m e where j: "?j = (ran, m, e)" by (cases ?j) auto
  show ?thesis
  proof (cases ran)
    case True
    then have "jit slot w i until c = (True, m, e)" using j by (auto split: if_splits)
    then have "i < m \<and> m \<le> until \<and> stepsTo ext (unat (m - i)) c e"
      using assms(1,2) unfolding jitSound_def by blast
    moreover have "fin = (batchBreak e \<or> halted e)" "i1 = m" "d = e"
      using assms(6) True by (auto simp: lineStep_def j)
    ultimately show ?thesis by simp
  next
    case False
    have "m = i \<and> e = c"
    proof (cases "jitOn c \<and> 8 \<le> until - i \<and> msr (st c) AND MSR_LE = 0")
      case True
      then have "jit slot w i until c = (False, m, e)" using j False by simp
      then show ?thesis using assms(1) unfolding jitSound_def by blast
    qed (use j in auto)
    then have "lineLoop ext slot (flBase (fetchLine c slot)) until (wordsFrom w) i c = (fin, i1, d)"
      using assms(6) False by (simp add: lineStep_def j)
    then show ?thesis
      by (rule lineLoop_steps [OF hit_word [OF assms(4)] assms(2-4) refl assms(5)])
  qed
qed

lemma batchLoop_steps:
  assumes "jitSound jit ext" "i \<le> until" "allSteady ext (until - i) c" "batchLoop jit ext k until i c = Some r"
  shows "ranTo ext until i c r"
  using assms(2-4)
proof (induction k arbitrary: i c)
  case 0
  then show ?case by (auto simp: ranTo_def split: if_splits)
next
  case (Suc k)
  show ?case
  proof (cases "i < until")
    case False
    then show ?thesis using Suc.prems by (auto simp: ranTo_def)
  next
    case True
    let ?s = "case (if slowLine c then None else fetchBlockFast (pc (st c)) c) of
          None \<Rightarrow> let c1 = step ext c in (batchBreak c1 \<or> halted c1, i + 1, c1)
        | Some (slot, word) \<Rightarrow> lineStep jit ext until slot word i c"
    obtain fin m e where s: "?s = (fin, m, e)" by (cases ?s) auto
    have one: "i < m \<and> m \<le> until \<and> stepsTo ext (unat (m - i)) c e \<and> fin = (batchBreak e \<or> halted e)"
    proof (cases "if slowLine c then None else fetchBlockFast (pc (st c)) c")
      case None
      then show ?thesis using s True u64_succ(2,3) [OF True] by (auto simp: Let_def)
    next
      case (Some p)
      then have "\<not> slowLine c" "fetchBlockFast (pc (st c)) c = Some (fst p, snd p)" by (auto split: if_splits)
      moreover have "lineStep jit ext until (fst p) (snd p) i c = (fin, m, e)" using s Some by (simp add: case_prod_beta)
      ultimately show ?thesis using lineStep_steps [OF assms(1) True _ _ Suc.prems(2)] by blast
    qed
    then have le: "i \<le> m" by (simp add: less_imp_le)
    have l: "(case (fin, m, e) of (True, r) \<Rightarrow> Some r | (False, i1, c1) \<Rightarrow> batchLoop jit ext k until i1 c1) = Some r"
      using Suc.prems(3) True unfolding batchLoop_Suc s by simp
    show ?thesis
    proof (cases fin)
      case True
      then show ?thesis using l one ranTo_end [OF _ le] by auto
    next
      case False
      then have "ranTo ext until m e r"
        using Suc.IH [of m e] l one allSteady_later [OF Suc.prems(2) _ _ _ le] False by simp
      then show ?thesis using one False by (intro ranTo_trans [OF _ le]) auto
    qed
  qed
qed

text \<open>With as much fuel as instructions the loop never runs out of it.\<close>

definition jitAdvances :: "'b jit_runner \<Rightarrow> bool" where
  "jitAdvances jit \<longleftrightarrow> (\<forall>slot word i until c ran i1 d. jit slot word i until c = (ran, i1, d) \<longrightarrow>
     (if ran then i < until \<longrightarrow> i < i1 \<and> i1 \<le> until else i1 = i))"

lemma lineLoop_advances:
  assumes "i < until" "lineLoop ext slot base until ws i c = (fin, i1, d)" "ws \<noteq> []"
  shows "i < i1 \<and> i1 \<le> until \<and> (fin \<longrightarrow> batchBreak d \<or> halted d)"
  using assms
proof (induction ws arbitrary: i c)
  case (Cons w ws)
  note u = u64_succ(2,3) [OF Cons.prems(1)]
  let ?c = "execLine ext (flW (fetchLine c slot) w) (ucast (flRow (fetchLine c slot) w)) c"
  show ?case
  proof (cases "batchBreak ?c \<or> halted ?c \<or> until \<le> i + 1 \<or> pc (st ?c) \<noteq> pc (st c) + 4 \<or> ws = [] \<or> flBase (fetchLine ?c slot) \<noteq> base")
    case True
    then have "i1 = i + 1 \<and> (fin \<longrightarrow> batchBreak d \<or> halted d)"
      using Cons.prems(2) by (auto simp: Let_def split: if_splits)
    with u show ?thesis by simp
  next
    case False
    then have "lineLoop ext slot base until ws (i + 1) ?c = (fin, i1, d)" "i + 1 < until" "ws \<noteq> []"
      using Cons.prems(2) by (auto simp: Let_def)
    from Cons.IH [OF this(2,1,3)] u show ?thesis by (auto intro: less_trans)
  qed
qed simp

lemma lineStep_advances:
  assumes "jitAdvances jit" "i < until" "w < 8" "lineStep jit ext until slot w i c = (fin, i1, d)"
  shows "i < i1 \<and> i1 \<le> until \<and> (fin \<longrightarrow> batchBreak d \<or> halted d)"
proof -
  let ?j = "if jitOn c \<and> 8 \<le> until - i \<and> msr (st c) AND MSR_LE = 0 then jit slot w i until c else (False, i, c)"
  obtain ran m e where j: "?j = (ran, m, e)" by (cases ?j) auto
  have "if ran then i < m \<and> m \<le> until else m = i" if "jit slot w i until c = (ran, m, e)"
    using assms(1,2) that unfolding jitAdvances_def by metis
  with j have m: "if ran then i < m \<and> m \<le> until else m = i" by (auto split: if_splits)
  have w: "wordsFrom w \<noteq> []" using assms(3) by (simp add: wordsFrom_Nil not_le)
  show ?thesis
  proof (cases ran)
    case True
    then show ?thesis using m assms(4) by (auto simp: lineStep_def j)
  next
    case False
    then have "lineLoop ext slot (flBase (fetchLine e slot)) until (wordsFrom w) i e = (fin, i1, d)"
      using m assms(4) by (simp add: lineStep_def j)
    then show ?thesis using lineLoop_advances assms(2) w by blast
  qed
qed

lemma batchLoop_round:
  assumes "jitAdvances jit" "i < until"
    and "(case (if slowLine c then None else fetchBlockFast (pc (st c)) c) of
          None \<Rightarrow> let c1 = step ext c in (batchBreak c1 \<or> halted c1, i + 1, c1)
        | Some (slot, word) \<Rightarrow> lineStep jit ext until slot word i c) = (fin, m, e)"
  shows "i < m \<and> m \<le> until \<and> (fin \<longrightarrow> batchBreak e \<or> halted e)"
proof (cases "if slowLine c then None else fetchBlockFast (pc (st c)) c")
  case None
  then show ?thesis using assms(3) u64_succ(2,3) [OF assms(2)] by (auto simp: Let_def)
next
  case (Some p)
  then have "snd p < 8" using hit_word [of "pc (st c)" c "fst p" "snd p"] by (auto split: if_splits)
  moreover have "lineStep jit ext until (fst p) (snd p) i c = (fin, m, e)" using assms(3) Some by (simp add: case_prod_beta)
  ultimately show ?thesis by (rule lineStep_advances [OF assms(1,2)])
qed

lemma batchLoop_total:
  assumes "jitAdvances jit" "unat until - unat i \<le> k"
  shows "batchLoop jit ext k until i c \<noteq> None"
  using assms(2)
proof (induction k arbitrary: i c)
  case 0
  then show ?case by (simp add: word_less_nat_alt)
next
  case (Suc k)
  let ?s = "case (if slowLine c then None else fetchBlockFast (pc (st c)) c) of
          None \<Rightarrow> let c1 = step ext c in (batchBreak c1 \<or> halted c1, i + 1, c1)
        | Some (slot, word) \<Rightarrow> lineStep jit ext until slot word i c"
  obtain fin m e where s: "?s = (fin, m, e)" by (cases ?s) auto
  have "batchLoop jit ext k until m e \<noteq> None" if "i < until"
    using Suc batchLoop_round [OF assms(1) that s] that by (intro Suc.IH) (auto simp: word_less_nat_alt)
  then show ?case unfolding batchLoop_Suc s by (auto split: bool.split)
qed

text \<open>The counter stays within the limit and falls short of it only when the batch was ended.\<close>

lemma batchLoop_range:
  assumes "jitAdvances jit" "i \<le> until" "batchLoop jit ext k until i c = Some (i1, d)"
  shows "i \<le> i1 \<and> i1 \<le> until \<and> (i1 < until \<longrightarrow> batchBreak d \<or> halted d)"
  using assms(2,3)
proof (induction k arbitrary: i c)
  case 0
  then show ?case by (auto split: if_splits)
next
  case (Suc k)
  show ?case
  proof (cases "i < until")
    case True
    let ?s = "case (if slowLine c then None else fetchBlockFast (pc (st c)) c) of
          None \<Rightarrow> let c1 = step ext c in (batchBreak c1 \<or> halted c1, i + 1, c1)
        | Some (slot, word) \<Rightarrow> lineStep jit ext until slot word i c"
    obtain fin m e where s: "?s = (fin, m, e)" by (cases ?s) auto
    note r = batchLoop_round [OF assms(1) True s]
    have l: "(case (fin, m, e) of (True, r) \<Rightarrow> Some r | (False, i1, c1) \<Rightarrow> batchLoop jit ext k until i1 c1) = Some (i1, d)"
      using Suc.prems(2) True unfolding batchLoop_Suc s by simp
    show ?thesis using l r Suc.IH [of m e] by (cases fin) (auto intro: order_trans less_imp_le)
  qed (use Suc.prems in auto)
qed

lemma batchLoop_more: "batchLoop jit ext k until i c = Some r \<Longrightarrow> k \<le> k' \<Longrightarrow> batchLoop jit ext k' until i c = Some r"
proof (induction k arbitrary: i c k')
  case 0
  then show ?case by (cases k') (auto split: if_splits)
next
  case (Suc k)
  obtain n where k': "k' = Suc n" "k \<le> n" using Suc.prems(2) by (cases k') auto
  show ?case
    using Suc.prems(1) Suc.IH [OF _ k'(2)] unfolding k'(1) batchLoop_Suc by (auto split: if_splits bool.splits prod.splits)
qed

lemma clockAdvanceCycles_flags: "batchBreak (clockAdvanceCycles n c) = batchBreak c \<and> halted (clockAdvanceCycles n c) = halted c"
proof (induction n c rule: clockAdvanceCycles.induct)
  case (1 n c)
  have "batchBreak (tick k d) = batchBreak d \<and> halted (tick k d) = halted d" for k and d :: "'a cpu"
    by (simp add: tick_def Let_def)
  then show ?case using 1 by (subst (1 2) clockAdvanceCycles.simps) (auto simp: Let_def)
qed

lemma syncClock_flags [simp]: "batchBreak (syncClock c) = batchBreak c" "halted (syncClock c) = halted c"
  by (simp_all add: syncClock_def clockAdvanceCycles_flags)

text \<open>The batching loop of the interpreter: \<^verbatim>\<open>jitRunLine\<close> declines every line, as it does with the recompiler off.\<close>

definition noJit :: "'b jit_runner" where
  "noJit slot word i until c = (False, i, c)"

lemma noJit_ok: "jitAdvances noJit" "jitSound noJit ext"
  by (simp_all add: jitAdvances_def jitSound_def noJit_def)

text \<open>
  C10. The batching loop of the interpreter terminates within its limit. Fuel for the batch's
  instructions always suffices and more fuel changes nothing: the loop returns, having run a number
  \<open>k\<close> of instructions that is at most \<open>n\<close>, having moved the caller's instruction counter by exactly
  \<open>k\<close>; and it runs fewer than \<open>n\<close> only when something ended the batch or halted the processor.
\<close>

theorem runSteps_terminates:
  assumes "stamp \<le> stamp + n"
  shows "\<exists>k c'. k \<le> n \<and> (k < n \<longrightarrow> batchBreak c' \<or> halted c') \<and>
    (\<forall>fuel \<ge> unat n. runSteps noJit ext fuel n stamp c = Some (k, stamp + k, c'))"
proof -
  let ?c = "c\<lparr>batchBreak := False, batching := True\<rparr>"
  have N: "unat (stamp + n) = unat stamp + unat n" using assms unat_plus_simple by blast
  then have "unat (stamp + n) - unat stamp \<le> unat n" by simp
  from batchLoop_total [OF noJit_ok(1) this] obtain i d where b: "batchLoop noJit ext (unat n) (stamp + n) stamp ?c = Some (i, d)"
    by fastforce
  note r = batchLoop_range [OF noJit_ok(1) assms b]
  then have "unat i = unat stamp + unat (i - stamp)" using unat_sub [of stamp i] by (simp add: word_le_nat_alt)
  then have "i - stamp \<le> n" "i < stamp + n \<longleftrightarrow> i - stamp < n"
    using r N by (simp_all add: word_le_nat_alt word_less_nat_alt)
  moreover have "batchLoop noJit ext fuel (stamp + n) stamp ?c = Some (i, d)" if "unat n \<le> fuel" for fuel
    using batchLoop_more b that by blast
  ultimately show ?thesis using r
    by (intro exI [of _ "i - stamp"] exI [of _ "syncClock (d\<lparr>batching := False\<rparr>)"]) (auto simp: runSteps_def)
qed

lemma runSteps_terminates_witness:
  "\<exists>k c'. k \<le> 1000 \<and> (\<forall>fuel \<ge> 1000. runSteps noJit (\<lambda>_. None) fuel 1000 7 (flatCpu 64) = Some (k, 7 + k, c'))"
  using runSteps_terminates [of 7 1000 "\<lambda>_. None" "flatCpu 64"] by auto

text \<open>
  Batched execution is stepwise execution under the contract \<^term>\<open>steady\<close>: whatever mixture of single
  steps, predecoded lines and compiled lines ran, the batch is a sequence of \<open>k \<le> n\<close> steps, followed
  by one clock update for all of them.
\<close>

lemma runSteps_steady:
  assumes "runSteps jit ext fuel n stamp c = Some (k, stamp', c')" "stamp \<le> stamp + n" "jitSound jit ext"
  defines "c0 \<equiv> c\<lparr>batchBreak := False, batching := True\<rparr>"
  assumes "allSteady ext n c0"
  defines "ends \<equiv> \<lambda>j. batchBreak ((step ext ^^ j) c0) \<or> halted ((step ext ^^ j) c0)"
  shows "k \<le> n \<and> stamp' = stamp + k \<and> c' = syncClock (((step ext ^^ unat k) c0)\<lparr>batching := False\<rparr>) \<and>
    (k < n \<longrightarrow> ends (unat k)) \<and> (\<forall>j. 0 < j \<and> j < unat k \<longrightarrow> \<not> ends j)"
proof -
  obtain i d where b: "batchLoop jit ext fuel (stamp + n) stamp c0 = Some (i, d)" "k = i - stamp" "stamp' = i"
    "c' = syncClock (d\<lparr>batching := False\<rparr>)"
    using assms(1) by (auto simp: runSteps_def c0_def split: option.splits)
  have "allSteady ext (stamp + n - stamp) c0" using assms(5) by simp
  from batchLoop_steps [OF assms(3,2) this b(1)]
  have r: "stamp \<le> i" "i \<le> stamp + n" "stepsTo ext (unat k) c0 d" "i < stamp + n \<longrightarrow> batchBreak d \<or> halted d"
    by (simp_all add: ranTo_def b(2))
  have i: "i = stamp + k" by (simp add: b(2))
  have "unat i = unat stamp + unat k" using r(1) unat_sub [of stamp i] by (simp add: b(2) word_le_nat_alt)
  moreover have "unat (stamp + n) = unat stamp + unat n" using assms(2) unat_plus_simple by blast
  ultimately have kn: "k \<le> n" "i < stamp + n \<longleftrightarrow> k < n" using r(2) by (simp_all add: word_le_nat_alt word_less_nat_alt)
  then show ?thesis using r(3,4) b(3,4) i by (auto simp: stepsTo_def ends_def)
qed

end
