(* ===== verification/SoftFp.thy ===== *)
theory SoftFp
  imports PpcBits
begin

text \<open>
  The software floating point of \<^verbatim>\<open>core/src/softfp.cpp\<close>: unpacking to a significand with its
  leading one in bit 63, the rounding and packing flow, the fused multiply-add over a 128-bit
  accumulator, division and square root by digit recurrence, conversion to integer and the
  reciprocal estimates. Exponents are \<^typ>\<open>int\<close>: every one the code forms lies within a few
  thousand of zero (\<^verbatim>\<open>FpValue.unpack_range\<close>), far inside \<^verbatim>\<open>i32\<close>.

  The fast paths compute with the host's own doubles and floats. Those operations are a parameter:
  \<open>host_fp\<close> holds the host's add, subtract, multiply, fused multiply-add and conversions on the
  encodings, \<^verbatim>\<open>kHaveFma\<close> (true off x64, where \<^verbatim>\<open>std::fma\<close> stands in) and the switch
  \<^verbatim>\<open>gHostFastOff\<close>; the fast paths themselves are translated over them. The hit counters are not
  modelled.
\<close>

section \<open>Data\<close>

record fp_res =
  resBits :: u64
  resFl :: u32

record fp_env =
  envRn :: u32
  envOe :: bool
  envUe :: bool
  envNi :: bool

datatype fp_tgt = Dbl | Sgl

datatype fp_cls = CZero | CFin | CInf | CQNaN | CSNaN

record fp_un =
  unC :: fp_cls
  unS :: bool
  unE :: int
  unM :: u64

record u128 =
  hi128 :: u64
  lo128 :: u64

record host_fp =
  hAdd :: "u64 \<Rightarrow> u64 \<Rightarrow> u64"
  hSub :: "u64 \<Rightarrow> u64 \<Rightarrow> u64"
  hMul :: "u64 \<Rightarrow> u64 \<Rightarrow> u64"
  hFma :: "u64 \<Rightarrow> u64 \<Rightarrow> u64 \<Rightarrow> u64"
  hNarrow :: "u64 \<Rightarrow> u32"
  hWiden :: "u32 \<Rightarrow> u64"
  hAddF :: "u32 \<Rightarrow> u32 \<Rightarrow> u32"
  hFmaF :: "u32 \<Rightarrow> u32 \<Rightarrow> u32 \<Rightarrow> u32"
  kHaveFma :: bool
  gHostFastOff :: u32

abbreviation (input) kOx :: u32 where "kOx \<equiv> 0x001"
abbreviation (input) kUx :: u32 where "kUx \<equiv> 0x002"
abbreviation (input) kZx :: u32 where "kZx \<equiv> 0x004"
abbreviation (input) kXx :: u32 where "kXx \<equiv> 0x008"
abbreviation (input) kFr :: u32 where "kFr \<equiv> 0x010"
abbreviation (input) kVxsnan :: u32 where "kVxsnan \<equiv> 0x020"
abbreviation (input) kVxisi :: u32 where "kVxisi \<equiv> 0x040"
abbreviation (input) kVxidi :: u32 where "kVxidi \<equiv> 0x080"
abbreviation (input) kVxzdz :: u32 where "kVxzdz \<equiv> 0x100"
abbreviation (input) kVximz :: u32 where "kVximz \<equiv> 0x200"
abbreviation (input) kVxcvi :: u32 where "kVxcvi \<equiv> 0x400"
abbreviation (input) kVxsqrt :: u32 where "kVxsqrt \<equiv> 0x800"

abbreviation (input) kSignBit :: u64 where "kSignBit \<equiv> 0x8000000000000000"
abbreviation (input) kQNaNGen :: u64 where "kQNaNGen \<equiv> 0x7FF8000000000000"
abbreviation (input) kOne :: u64 where "kOne \<equiv> 0x3FF0000000000000"
abbreviation (input) kInf :: u64 where "kInf \<equiv> 0x7FF0000000000000"
abbreviation (input) kMaxDbl :: u64 where "kMaxDbl \<equiv> 0x7FEFFFFFFFFFFFFF"
abbreviation (input) kMaxSglAsDbl :: u64 where "kMaxSglAsDbl \<equiv> 0x47EFFFFFE0000000"
abbreviation (input) kFastOffSgl :: u32 where "kFastOffSgl \<equiv> 1"
abbreviation (input) kFastOffDbl :: u32 where "kFastOffDbl \<equiv> 2"

section \<open>Unpacking and packing\<close>

definition countl_zero64 :: "u64 \<Rightarrow> nat" where
  "countl_zero64 v = length (takeWhile (\<lambda>k. \<not> bit v k) (rev [0..<64]))"

definition unpack :: "u64 \<Rightarrow> fp_un" where
  "unpack f =
     (let s = drop_bit 63 f \<noteq> 0;
          e = ucast (drop_bit 52 f) AND 0x7FF :: u32;
          frac = f AND 0x000FFFFFFFFFFFFF in
      if e = 0x7FF
      then \<lparr>unC = (if frac = 0 then CInf else if drop_bit 51 frac \<noteq> 0 then CQNaN else CSNaN),
            unS = s, unE = 0, unM = 0\<rparr>
      else if e = 0 then
        (if frac = 0 then \<lparr>unC = CZero, unS = s, unE = 0, unM = 0\<rparr>
         else let lz = countl_zero64 frac in
           \<lparr>unC = CFin, unS = s, unE = (63 - int lz) - 1074, unM = push_bit lz frac\<rparr>)
      else \<lparr>unC = CFin, unS = s, unE = int (unat e) - 1023,
            unM = push_bit 11 (frac OR push_bit 52 1)\<rparr>)"

definition quietNan :: "u64 \<Rightarrow> u64" where
  "quietNan nan = nan OR push_bit 51 1"

definition packZero :: "bool \<Rightarrow> u64" where
  "packZero s = (if s then kSignBit else 0)"

definition packInf :: "bool \<Rightarrow> u64" where
  "packInf s = kInf OR (if s then kSignBit else 0)"

definition packExact :: "bool \<Rightarrow> int \<Rightarrow> u64 \<Rightarrow> u64" where
  "packExact neg vexp nsig =
     (let s = (if neg then kSignBit else 0) in
      if vexp < -1022 then
        (let sh = nat (-1011 - vexp) in s OR (if 64 \<le> sh then 0 else drop_bit sh nsig))
      else s OR push_bit 52 (word_of_int (vexp + 1023)) OR drop_bit 12 (push_bit 1 nsig))"

section \<open>Rounding\<close>

definition fmtP :: "fp_tgt \<Rightarrow> nat" where
  "fmtP t = (if t = Sgl then 24 else 53)"

definition fmtEmin :: "fp_tgt \<Rightarrow> int" where
  "fmtEmin t = (if t = Sgl then -126 else -1022)"

definition fmtEmax :: "fp_tgt \<Rightarrow> int" where
  "fmtEmax t = (if t = Sgl then 127 else 1023)"

definition fmtScale :: "fp_tgt \<Rightarrow> int" where
  "fmtScale t = (if t = Sgl then 192 else 1536)"

text \<open>A tiny value is scaled up when underflow is enabled, else shifted to the minimum exponent.\<close>

definition roundTiny :: "int \<Rightarrow> u64 \<Rightarrow> bool \<Rightarrow> fp_env \<Rightarrow> fp_tgt \<Rightarrow> u32 \<Rightarrow> int \<times> u64 \<times> bool \<times> u32" where
  "roundTiny exp sig sticky env t fl =
     (if envUe env then (exp + fmtScale t, sig, sticky, fl OR kUx)
      else let sh = nat (fmtEmin t - exp) in
        if 64 \<le> sh then (fmtEmin t, 0, sticky \<or> sig \<noteq> 0, fl)
        else if sh \<noteq> 0 then (fmtEmin t, drop_bit sh sig, sticky \<or> push_bit (64 - sh) sig \<noteq> 0, fl)
        else (fmtEmin t, sig, sticky, fl))"

definition roundInc :: "u32 \<Rightarrow> bool \<Rightarrow> bool \<Rightarrow> bool \<Rightarrow> bool \<Rightarrow> bool \<Rightarrow> bool" where
  "roundInc rn neg lsb g r x =
     (if rn = 0 then g \<and> (r \<or> x \<or> lsb)
      else if rn = 1 then False
      else if rn = 2 then \<not> neg \<and> (g \<or> r \<or> x)
      else if rn = 3 then neg \<and> (g \<or> r \<or> x)
      else False)"

definition roundOverflow :: "bool \<Rightarrow> fp_env \<Rightarrow> fp_tgt \<Rightarrow> u32 \<Rightarrow> u64 \<times> u32" where
  "roundOverflow neg env t fl =
     (let toInf = envRn env = 0 \<or> (envRn env = 2 \<and> \<not> neg) \<or> (envRn env = 3 \<and> neg);
          fl1 = fl OR kXx;
          fl2 = (if toInf then fl1 OR kFr else fl1 AND NOT kFr)
      in (if toInf then packInf neg
          else (if neg then kSignBit else 0) OR (if t = Sgl then kMaxSglAsDbl else kMaxDbl), fl2))"

definition roundDeliver :: "bool \<Rightarrow> int \<Rightarrow> u64 \<Rightarrow> fp_env \<Rightarrow> fp_tgt \<Rightarrow> u64" where
  "roundDeliver neg exp kept env t =
     (if kept = 0 then packZero neg
      else let m = 63 - int (countl_zero64 kept);
               vexp = exp - (int (fmtP t) - 1) + m
           in if envNi env \<and> vexp < fmtEmin t then packZero neg
              else packExact neg vexp (push_bit (countl_zero64 kept) kept))"

definition roundPack :: "bool \<Rightarrow> int \<Rightarrow> u64 \<Rightarrow> bool \<Rightarrow> fp_env \<Rightarrow> fp_tgt \<Rightarrow> u32 \<Rightarrow> u64 \<times> u32" where
  "roundPack neg exp0 sig0 sticky0 env t fl0 =
     (let p = fmtP t;
          tiny = exp0 < fmtEmin t in
      case (if tiny then roundTiny exp0 sig0 sticky0 env t fl0 else (exp0, sig0, sticky0, fl0)) of
        (exp1, sig, sticky, fl1) \<Rightarrow>
          let lsb = drop_bit (64 - p) sig AND 1 \<noteq> 0;
              g = drop_bit (63 - p) sig AND 1 \<noteq> 0;
              r = drop_bit (62 - p) sig AND 1 \<noteq> 0;
              x = sticky \<or> sig AND (push_bit (62 - p) 1 - 1) \<noteq> 0;
              inx = g \<or> r \<or> x;
              inc = roundInc (envRn env) neg lsb g r x;
              kept0 = drop_bit (64 - p) sig + (if inc then 1 else 0);
              (kept, exp2) = (if drop_bit p kept0 \<noteq> 0 then (drop_bit 1 kept0, exp1 + 1) else (kept0, exp1));
              fl2 = (if inx then fl1 OR kXx else fl1);
              fl3 = (if inc then fl2 OR kFr else fl2);
              fl4 = (if tiny \<and> \<not> envUe env \<and> inx then fl3 OR kUx else fl3)
          in if \<not> tiny \<and> fmtEmax t < exp2 then
               (if envOe env
                then (roundDeliver neg (exp2 - fmtScale t) kept env t, fl4 OR kOx)
                else roundOverflow neg env t (fl4 OR kOx))
             else (roundDeliver neg exp2 kept env t, fl4))"

section \<open>128-bit accumulators\<close>

definition mul64to128 :: "u64 \<Rightarrow> u64 \<Rightarrow> u128" where
  "mul64to128 a b =
     (let a0 = a AND 0xFFFFFFFF; a1 = drop_bit 32 a;
          b0 = b AND 0xFFFFFFFF; b1 = drop_bit 32 b;
          p00 = a0 * b0; p01 = a0 * b1; p10 = a1 * b0; p11 = a1 * b1;
          mid = p01 + p10;
          midCarry = (if mid < p01 then push_bit 32 1 else 0);
          lo = p00 + push_bit 32 mid
      in \<lparr>hi128 = p11 + drop_bit 32 mid + midCarry + (if lo < p00 then 1 else 0), lo128 = lo\<rparr>)"

definition shl128 :: "u128 \<Rightarrow> nat \<Rightarrow> u128" where
  "shl128 v n =
     (if n = 0 then v
      else if 64 \<le> n then \<lparr>hi128 = (if 128 \<le> n then 0 else push_bit (n - 64) (lo128 v)), lo128 = 0\<rparr>
      else \<lparr>hi128 = push_bit n (hi128 v) OR drop_bit (64 - n) (lo128 v), lo128 = push_bit n (lo128 v)\<rparr>)"

definition shr128jam :: "u128 \<Rightarrow> nat \<Rightarrow> bool \<Rightarrow> u128 \<times> bool" where
  "shr128jam v n jam =
     (if n = 0 then (v, jam)
      else if 128 \<le> n then (\<lparr>hi128 = 0, lo128 = 0\<rparr>, jam \<or> hi128 v \<noteq> 0 \<or> lo128 v \<noteq> 0)
      else if 64 \<le> n then
        (\<lparr>hi128 = 0, lo128 = drop_bit (n - 64) (hi128 v)\<rparr>,
         jam \<or> lo128 v \<noteq> 0 \<or> (64 < n \<and> push_bit (128 - n) (hi128 v) \<noteq> 0))
      else
        (\<lparr>hi128 = drop_bit n (hi128 v), lo128 = drop_bit n (lo128 v) OR push_bit (64 - n) (hi128 v)\<rparr>,
         jam \<or> push_bit (64 - n) (lo128 v) \<noteq> 0))"

definition clz128 :: "u128 \<Rightarrow> nat" where
  "clz128 v = (if hi128 v \<noteq> 0 then countl_zero64 (hi128 v) else 64 + countl_zero64 (lo128 v))"

definition ge128 :: "u128 \<Rightarrow> u128 \<Rightarrow> bool" where
  "ge128 a b = (if hi128 a \<noteq> hi128 b then hi128 b < hi128 a else lo128 b \<le> lo128 a)"

definition sub128 :: "u128 \<Rightarrow> u128 \<Rightarrow> u128" where
  "sub128 a b = \<lparr>hi128 = hi128 a - hi128 b - (if lo128 a < lo128 b then 1 else 0), lo128 = lo128 a - lo128 b\<rparr>"

definition add128 :: "u128 \<Rightarrow> u128 \<Rightarrow> bool \<Rightarrow> u128 \<times> bool" where
  "add128 a b carry =
     (let lo = lo128 a + lo128 b;
          hi0 = hi128 a + hi128 b;
          (hi, c1) = (if lo < lo128 a then (hi0 + 1, carry \<or> hi0 + 1 = 0) else (hi0, carry))
      in (\<lparr>hi128 = hi, lo128 = lo\<rparr>, c1 \<or> hi < hi128 a))"

section \<open>The host fast paths\<close>

text \<open>C++'s comparisons of doubles, on the encodings.\<close>

definition dNan :: "u64 \<Rightarrow> bool" where
  "dNan x \<longleftrightarrow> drop_bit 52 x AND 0x7FF = 0x7FF \<and> x AND 0x000FFFFFFFFFFFFF \<noteq> 0"

definition dEq :: "u64 \<Rightarrow> u64 \<Rightarrow> bool" where
  "dEq x y \<longleftrightarrow> \<not> dNan x \<and> \<not> dNan y \<and> (x = y \<or> (push_bit 1 x = 0 \<and> push_bit 1 y = 0))"

definition dLessZero :: "u64 \<Rightarrow> bool" where
  "dLessZero x \<longleftrightarrow> \<not> dNan x \<and> drop_bit 63 x \<noteq> 0 \<and> push_bit 1 x \<noteq> 0"

text \<open>The flags of a rounding whose exact residue is \<open>resid\<close>.\<close>

definition residFlags :: "u64 \<Rightarrow> bool \<Rightarrow> u32" where
  "residFlags resid neg =
     (if dEq resid 0 then 0 else kXx OR (if dLessZero resid \<noteq> neg then kFr else 0))"

definition nzD :: "u64 \<Rightarrow> bool" where
  "nzD x = (let e = ucast (drop_bit 52 x) AND 0x7FF :: u32 in
     if e \<noteq> 0 then e \<noteq> 0x7FF else x AND NOT kSignBit = 0)"

definition hostSglFast :: "host_fp \<Rightarrow> u64 \<Rightarrow> u64 \<Rightarrow> u64 \<Rightarrow> bool \<Rightarrow> bool \<Rightarrow> fp_res option" where
  "hostSglFast hf fa fc fb hasAddend negResult =
     (if \<not> nzD fa \<or> \<not> nzD fc \<or> (hasAddend \<and> \<not> nzD fb) then None
      else let db = (if hasAddend then fb else 0);
               sa = hNarrow hf fa; sc = hNarrow hf fc; sb = hNarrow hf db in
      if \<not> dEq (hWiden hf sa) fa \<or> \<not> dEq (hWiden hf sc) fc \<or> (hasAddend \<and> \<not> dEq (hWiden hf sb) db) then None
      else let pd = hMul hf (hWiden hf sa) (hWiden hf sc) in
      if hasAddend \<and> sc \<noteq> 0x3F800000 \<and> \<not> kHaveFma hf then None
      else let r0 = (if \<not> hasAddend then hNarrow hf pd
                     else if sc = 0x3F800000 then hAddF hf sa sb else hFmaF hf sa sc sb);
               S = (if hasAddend then hAdd hf pd db else pd);
               bv = hSub hf S pd;
               T = (if hasAddend then hAdd hf (hSub hf pd (hSub hf S bv)) (hSub hf db bv) else 0);
               rexp = drop_bit 23 r0 AND 0xFF;
               r0d = hWiden hf r0; resid = hSub hf S r0d in
      if rexp = 0xFF then None
      else if rexp = 0 \<and> r0 AND 0x007FFFFF \<noteq> 0 then None
      else if \<not> dEq T 0 then None
      else if push_bit 1 r0 = 0 \<and> \<not> dEq resid 0 then None
      else Some \<lparr>resBits = (if negResult then r0d XOR kSignBit else r0d),
                 resFl = residFlags resid (drop_bit 31 r0 \<noteq> 0)\<rparr>)"

abbreviation (input) kDblELo :: u32 where "kDblELo \<equiv> 564"
abbreviation (input) kDblEHi :: u32 where "kDblEHi \<equiv> 1532"

definition dExp :: "u64 \<Rightarrow> u32" where
  "dExp x = ucast (drop_bit 52 x) AND 0x7FF"

definition admitD :: "u64 \<Rightarrow> bool" where
  "admitD x \<longleftrightarrow> dExp x - kDblELo \<le> kDblEHi - kDblELo \<or> push_bit 1 x = 0"

definition countr_zero64 :: "u64 \<Rightarrow> nat" where
  "countr_zero64 v = length (takeWhile (\<lambda>k. \<not> bit v k) [0..<64])"

definition sigTrail :: "u64 \<Rightarrow> int" where
  "sigTrail f = int (countr_zero64 ((f AND 0x000FFFFFFFFFFFFF) OR push_bit 52 1))"

definition lowBitProd :: "u64 \<Rightarrow> u64 \<Rightarrow> int" where
  "lowBitProd fa fc = 22 + sigTrail fa + sigTrail fc"

definition lowBitOne :: "u64 \<Rightarrow> int" where
  "lowBitOne f = 75 + sigTrail f"

definition finishD :: "u64 \<Rightarrow> u64 \<Rightarrow> bool \<Rightarrow> fp_res option" where
  "finishD rb resid negResult =
     (let re = dExp rb in
      if (re < 2 \<or> re = 0x7FF) \<and> \<not> (re = 0 \<and> push_bit 1 rb = 0 \<and> dEq resid 0) then None
      else Some \<lparr>resBits = (if negResult then rb XOR kSignBit else rb), resFl = residFlags resid (drop_bit 63 rb \<noteq> 0)\<rparr>)"

definition dblMulFast :: "host_fp \<Rightarrow> u64 \<Rightarrow> u64 \<Rightarrow> fp_res option" where
  "dblMulFast hf fa fc =
     (if \<not> kHaveFma hf then None
      else if \<not> admitD fa \<or> \<not> admitD fc then None
      else let r0 = hMul hf fa fc in finishD r0 (hFma hf fa fc (r0 XOR kSignBit)) False)"

definition dblAddFast :: "host_fp \<Rightarrow> u64 \<Rightarrow> u64 \<Rightarrow> fp_res option" where
  "dblAddFast hf fa fb =
     (let d = int (unat (dExp fa)) - int (unat (dExp fb)) in
      if \<not> admitD fa \<or> \<not> admitD fb then None
      else if push_bit 1 fa \<noteq> 0 \<and> push_bit 1 fb \<noteq> 0 \<and> (lowBitOne fb < d \<or> d < - lowBitOne fa) then None
      else let r0 = hAdd hf fa fb; bv = hSub hf r0 fa in
        finishD r0 (hAdd hf (hSub hf fa (hSub hf r0 bv)) (hSub hf fb bv)) False)"

definition dblFmaFast :: "host_fp \<Rightarrow> u64 \<Rightarrow> u64 \<Rightarrow> u64 \<Rightarrow> bool \<Rightarrow> fp_res option" where
  "dblFmaFast hf fa fc fb negResult =
     (let d = int (unat (dExp fa)) + int (unat (dExp fc)) - int (unat (dExp fb)) - 1023 in
      if \<not> kHaveFma hf then None
      else if \<not> admitD fa \<or> \<not> admitD fc \<or> \<not> admitD fb then None
      else if push_bit 1 fa \<noteq> 0 \<and> push_bit 1 fc \<noteq> 0 \<and> push_bit 1 fb \<noteq> 0 \<and>
              (lowBitOne fb < d + 1 \<or> d < - lowBitProd fa fc) then None
      else let u1 = hMul hf fa fc; u2 = hFma hf fa fc (u1 XOR kSignBit) in
        if dEq u2 0 then
          (let r0 = hAdd hf u1 fb; bv = hSub hf r0 u1
           in finishD r0 (hAdd hf (hSub hf u1 (hSub hf r0 bv)) (hSub hf fb bv)) negResult)
        else
          (let r0 = hFma hf fa fc fb;
               a1 = hAdd hf fb u2; av = hSub hf a1 fb;
               a2 = hAdd hf (hSub hf fb (hSub hf a1 av)) (hSub hf u2 av);
               b1 = hAdd hf u1 a1; bv = hSub hf b1 u1;
               b2 = hAdd hf (hSub hf u1 (hSub hf b1 bv)) (hSub hf a1 bv)
           in finishD r0 (hAdd hf (hAdd hf (hSub hf b1 r0) b2) a2) negResult))"

section \<open>The fused multiply-add\<close>

definition plainD :: "host_fp \<Rightarrow> fp_env \<Rightarrow> fp_tgt \<Rightarrow> bool" where
  "plainD hf e t \<longleftrightarrow> t = Dbl \<and> envRn e = 0 \<and> \<not> envOe e \<and> \<not> envUe e \<and> \<not> envNi e \<and>
     gHostFastOff hf AND kFastOffDbl = 0"

text \<open>NaNs, infinities and exact zeros; \<open>fb\<close> has already been negated for the subtracting forms.\<close>

definition fmaSpecial :: "u64 \<Rightarrow> u64 \<Rightarrow> u64 \<Rightarrow> bool \<Rightarrow> bool \<Rightarrow> bool \<Rightarrow> fp_env \<Rightarrow> fp_res option" where
  "fmaSpecial fa fc fb hasAddend negAdd negResult env =
     (let a = unpack fa; c = unpack fc; b = unpack fb;
          imz = (unC a = CInf \<and> unC c = CZero) \<or> (unC a = CZero \<and> unC c = CInf);
          fl0 = (if imz then kVximz else 0);
          fl = (if unC a = CSNaN \<or> (hasAddend \<and> unC b = CSNaN) \<or> unC c = CSNaN then fl0 OR kVxsnan else fl0);
          ps = (unS a \<noteq> unS c);
          flip = (\<lambda>v. if negResult then v XOR kSignBit else v) in
      if unC a = CQNaN \<or> unC a = CSNaN then Some \<lparr>resBits = quietNan fa, resFl = fl\<rparr>
      else if hasAddend \<and> (unC b = CQNaN \<or> unC b = CSNaN)
      then Some \<lparr>resBits = quietNan (fb XOR (if negAdd then kSignBit else 0)), resFl = fl\<rparr>
      else if unC c = CQNaN \<or> unC c = CSNaN then Some \<lparr>resBits = quietNan fc, resFl = fl\<rparr>
      else if imz then Some \<lparr>resBits = kQNaNGen, resFl = fl\<rparr>
      else if unC a = CInf \<or> unC c = CInf then
        (if hasAddend \<and> unC b = CInf \<and> unS b \<noteq> ps then Some \<lparr>resBits = kQNaNGen, resFl = fl OR kVxisi\<rparr>
         else Some \<lparr>resBits = flip (packInf ps), resFl = fl\<rparr>)
      else if hasAddend \<and> unC b = CInf then Some \<lparr>resBits = flip (packInf (unS b)), resFl = fl\<rparr>
      else if (unC a = CZero \<or> unC c = CZero) \<and> (\<not> hasAddend \<or> unC b = CZero) then
        (let s = (if \<not> hasAddend then ps else if ps = unS b then ps else envRn env = 3)
         in Some \<lparr>resBits = packZero (if negResult then \<not> s else s), resFl = fl\<rparr>)
      else None)"

text \<open>
  The accumulator of a finite nonzero sum, its exponent and sign and whether bits fell off it;
  \<^term>\<open>None\<close> when the sum cancels exactly.
\<close>

definition fmaProduct :: "fp_un \<Rightarrow> fp_un \<Rightarrow> u128 \<times> int" where
  "fmaProduct a c =
     (let acm = mul64to128 (unM a) (unM c); exp = unE a + unE c + 1 in
      if drop_bit 63 (hi128 acm) = 0 then (shl128 acm 1, exp - 1) else (acm, exp))"

definition fmaAlign :: "u128 \<Rightarrow> int \<Rightarrow> fp_un \<Rightarrow> u128 \<times> u128 \<times> int \<times> bool" where
  "fmaAlign acm exp b =
     (let badd = \<lparr>hi128 = unM b, lo128 = 0\<rparr>; d = exp - unE b in
      if 0 < d then (case shr128jam badd (nat d) False of (badd1, jam) \<Rightarrow> (acm, badd1, exp, jam))
      else if d < 0 then (case shr128jam acm (nat (- d)) False of (acc1, jam) \<Rightarrow> (acc1, badd, unE b, jam))
      else (acm, badd, exp, False))"

definition fmaCombine :: "u128 \<Rightarrow> u128 \<Rightarrow> int \<Rightarrow> bool \<Rightarrow> bool \<Rightarrow> bool \<Rightarrow> (u128 \<times> int \<times> bool \<times> bool) option" where
  "fmaCombine acm badd exp jam neg bneg =
     (if neg = bneg then
        (case add128 acm badd False of (acc1, carry) \<Rightarrow>
           if carry then
             (case shr128jam acc1 1 jam of (acc2, jam2) \<Rightarrow>
                Some (acc2\<lparr>hi128 := hi128 acc2 OR push_bit 63 1\<rparr>, exp + 1, neg, jam2))
           else Some (acc1, exp, neg, jam))
      else
        (let (acc1, neg1) = (if ge128 badd acm then (sub128 badd acm, bneg) else (sub128 acm badd, neg)) in
         if hi128 acc1 = 0 \<and> lo128 acc1 = 0 \<and> \<not> jam then None
         else let lz = clz128 acc1 in
           Some (if lz \<noteq> 0 then (shl128 acc1 lz, exp - int lz, neg1, jam) else (acc1, exp, neg1, jam))))"

definition fmaSum :: "fp_un \<Rightarrow> fp_un \<Rightarrow> fp_un \<Rightarrow> bool \<Rightarrow> (u128 \<times> int \<times> bool \<times> bool) option" where
  "fmaSum a c b hasAddend =
     (if unC a = CZero \<or> unC c = CZero then Some (\<lparr>hi128 = unM b, lo128 = 0\<rparr>, unE b, unS b, False)
      else case fmaProduct a c of (acm, exp) \<Rightarrow>
        let neg = (unS a \<noteq> unS c) in
        if hasAddend \<and> unC b \<noteq> CZero then
          (case fmaAlign acm exp b of (acc1, badd, exp1, jam) \<Rightarrow> fmaCombine acc1 badd exp1 jam neg (unS b))
        else Some (acm, exp, neg, False))"

definition fmaModel :: "u64 \<Rightarrow> u64 \<Rightarrow> u64 \<Rightarrow> bool \<Rightarrow> bool \<Rightarrow> bool \<Rightarrow> fp_env \<Rightarrow> fp_tgt \<Rightarrow> fp_res" where
  "fmaModel fa fc fb hasAddend negAdd negResult env t =
     (case fmaSpecial fa fc fb hasAddend negAdd negResult env of
        Some r \<Rightarrow> r
      | None \<Rightarrow>
          (case fmaSum (unpack fa) (unpack fc) (unpack fb) hasAddend of
             None \<Rightarrow> \<lparr>resBits = packZero (if negResult then envRn env \<noteq> 3 else envRn env = 3), resFl = 0\<rparr>
           | Some (acm, exp, neg, jam) \<Rightarrow>
               (case roundPack (if negResult then \<not> neg else neg) exp (hi128 acm) (jam \<or> lo128 acm \<noteq> 0) env t 0 of
                  (bits, fl) \<Rightarrow> \<lparr>resBits = bits, resFl = fl\<rparr>)))"

definition fmaCore :: "host_fp \<Rightarrow> u64 \<Rightarrow> u64 \<Rightarrow> u64 \<Rightarrow> bool \<Rightarrow> bool \<Rightarrow> bool \<Rightarrow> fp_env \<Rightarrow> fp_tgt \<Rightarrow> fp_res" where
  "fmaCore hf fa fc fb0 hasAddend negAdd negResult env t =
     (let fb = (if hasAddend \<and> negAdd then fb0 XOR kSignBit else fb0) in
      case (if t = Sgl \<and> envRn env = 0 \<and> \<not> envOe env \<and> \<not> envUe env \<and> \<not> envNi env \<and>
               gHostFastOff hf AND kFastOffSgl = 0
            then hostSglFast hf fa fc fb hasAddend negResult else None) of
        Some r \<Rightarrow> r
      | None \<Rightarrow> fmaModel fa fc fb hasAddend negAdd negResult env t)"

definition fpAdd :: "host_fp \<Rightarrow> u64 \<Rightarrow> u64 \<Rightarrow> fp_env \<Rightarrow> fp_tgt \<Rightarrow> fp_res" where
  "fpAdd hf a b e t =
     (case (if plainD hf e t then dblAddFast hf a b else None) of
        Some r \<Rightarrow> r | None \<Rightarrow> fmaCore hf a kOne b True False False e t)"

definition fpSub :: "host_fp \<Rightarrow> u64 \<Rightarrow> u64 \<Rightarrow> fp_env \<Rightarrow> fp_tgt \<Rightarrow> fp_res" where
  "fpSub hf a b e t =
     (case (if plainD hf e t then dblAddFast hf a (b XOR kSignBit) else None) of
        Some r \<Rightarrow> r | None \<Rightarrow> fmaCore hf a kOne b True True False e t)"

definition fpMul :: "host_fp \<Rightarrow> u64 \<Rightarrow> u64 \<Rightarrow> fp_env \<Rightarrow> fp_tgt \<Rightarrow> fp_res" where
  "fpMul hf a c e t =
     (case (if plainD hf e t then dblMulFast hf a c else None) of
        Some r \<Rightarrow> r | None \<Rightarrow> fmaCore hf a c 0 False False False e t)"

definition fpMadd :: "host_fp \<Rightarrow> u64 \<Rightarrow> u64 \<Rightarrow> u64 \<Rightarrow> fp_env \<Rightarrow> fp_tgt \<Rightarrow> bool \<Rightarrow> bool \<Rightarrow> fp_res" where
  "fpMadd hf a c b e t negAdd negResult =
     (case (if plainD hf e t then dblFmaFast hf a c (if negAdd then b XOR kSignBit else b) negResult else None) of
        Some r \<Rightarrow> r | None \<Rightarrow> fmaCore hf a c b True negAdd negResult e t)"

section \<open>Division\<close>

text \<open>One quotient bit by shift and subtract.\<close>

definition divStep :: "u64 \<Rightarrow> u64 \<times> u64 \<Rightarrow> u64 \<times> u64" where
  "divStep m qr =
     (case qr of (q, rem0) \<Rightarrow>
        let top = drop_bit 63 rem0 \<noteq> 0; rem1 = push_bit 1 rem0; q1 = push_bit 1 q
        in if top \<or> m \<le> rem1 then (q1 OR 1, rem1 - m) else (q1, rem1))"

definition divSig :: "u64 \<Rightarrow> u64 \<Rightarrow> u64 \<times> u64" where
  "divSig ma mb = (divStep mb ^^ 55) (if mb \<le> ma then (1, ma - mb) else (0, ma))"

definition fpDiv :: "u64 \<Rightarrow> u64 \<Rightarrow> fp_env \<Rightarrow> fp_tgt \<Rightarrow> fp_res" where
  "fpDiv fa fb env t =
     (let a = unpack fa; b = unpack fb;
          fl = (if unC a = CSNaN \<or> unC b = CSNaN then kVxsnan else 0);
          s = (unS a \<noteq> unS b) in
      if unC a = CQNaN \<or> unC a = CSNaN then \<lparr>resBits = quietNan fa, resFl = fl\<rparr>
      else if unC b = CQNaN \<or> unC b = CSNaN then \<lparr>resBits = quietNan fb, resFl = fl\<rparr>
      else if unC a = CInf then
        (if unC b = CInf then \<lparr>resBits = kQNaNGen, resFl = fl OR kVxidi\<rparr>
         else \<lparr>resBits = packInf s, resFl = fl\<rparr>)
      else if unC b = CInf then \<lparr>resBits = packZero s, resFl = fl\<rparr>
      else if unC b = CZero then
        (if unC a = CZero then \<lparr>resBits = kQNaNGen, resFl = fl OR kVxzdz\<rparr>
         else \<lparr>resBits = packInf s, resFl = fl OR kZx\<rparr>)
      else if unC a = CZero then \<lparr>resBits = packZero s, resFl = fl\<rparr>
      else case divSig (unM a) (unM b) of (q, rm) \<Rightarrow>
        let lz = countl_zero64 q in
        case roundPack s ((unE a - unE b) + (8 - int lz)) (push_bit lz q) (rm \<noteq> 0) env t fl of
          (bits, rfl) \<Rightarrow> \<lparr>resBits = bits, resFl = rfl\<rparr>)"

section \<open>Conversions and estimates\<close>

definition rspFast :: "host_fp \<Rightarrow> u64 \<Rightarrow> fp_res option" where
  "rspFast hf fb =
     (if dExp fb - 1 < 0x7FE then
        (let s = hNarrow hf fb; se = drop_bit 23 s AND 0xFF; sd = hWiden hf s in
         if 2 \<le> se \<and> se \<noteq> 0xFF
         then Some \<lparr>resBits = sd, resFl = residFlags (hSub hf fb sd) (drop_bit 31 s \<noteq> 0)\<rparr>
         else None)
      else None)"

definition fpRsp :: "host_fp \<Rightarrow> u64 \<Rightarrow> fp_env \<Rightarrow> fp_res" where
  "fpRsp hf fb env =
     (case (if envRn env = 0 \<and> \<not> envOe env \<and> \<not> envUe env \<and> \<not> envNi env \<and> gHostFastOff hf AND kFastOffDbl = 0
            then rspFast hf fb else None) of
        Some r \<Rightarrow> r
      | None \<Rightarrow>
          (let b = unpack fb; fl = (if unC b = CSNaN then kVxsnan else 0) in
           if unC b = CQNaN \<or> unC b = CSNaN
           then \<lparr>resBits = quietNan fb AND 0xFFFFFFFFE0000000, resFl = fl\<rparr>
           else if unC b = CInf \<or> unC b = CZero then \<lparr>resBits = fb, resFl = fl\<rparr>
           else case roundPack (unS b) (unE b) (unM b) False env Sgl fl of
             (bits, fl1) \<Rightarrow> \<lparr>resBits = bits, resFl = fl1\<rparr>))"

text \<open>The magnitude of a conversion with its guard bit and sticky rest.\<close>

definition ctiwMag :: "int \<Rightarrow> u64 \<Rightarrow> u64 \<times> bool \<times> bool" where
  "ctiwMag e m =
     (if e < 0 then (0, e = -1 \<and> drop_bit 63 m \<noteq> 0, if e = -1 then push_bit 1 m \<noteq> 0 else m \<noteq> 0)
      else let sh = nat (63 - e);
               mag = (if 64 \<le> sh then 0 else drop_bit sh m);
               low = (if sh = 0 then 0 else push_bit (64 - sh) m)
           in (mag, drop_bit 63 low \<noteq> 0, push_bit 1 low \<noteq> 0))"

definition ctiwInc :: "u32 \<Rightarrow> bool \<Rightarrow> u64 \<Rightarrow> bool \<Rightarrow> bool \<Rightarrow> bool" where
  "ctiwInc rn s mag g x =
     (if \<not> (g \<or> x) then False
      else if rn = 0 then g \<and> (x \<or> mag AND 1 \<noteq> 0)
      else if rn = 1 then False
      else if rn = 2 then \<not> s
      else if rn = 3 then s
      else False)"

definition fpCtiw :: "u64 \<Rightarrow> u32 \<Rightarrow> fp_res" where
  "fpCtiw fb rn =
     (let b = unpack fb; hi = 0xFFF8000000000000 :: u64;
          sat = (if unS b then 0x80000000 else 0x7FFFFFFF) :: u64 in
      if unC b = CQNaN \<or> unC b = CSNaN
      then \<lparr>resBits = hi OR 0x80000000, resFl = (if unC b = CSNaN then kVxcvi OR kVxsnan else kVxcvi)\<rparr>
      else if unC b = CInf \<or> 62 < unE b then \<lparr>resBits = hi OR sat, resFl = kVxcvi\<rparr>
      else if unC b = CZero then \<lparr>resBits = hi, resFl = 0\<rparr>
      else case ctiwMag (unE b) (unM b) of
        (mag0, g, x) \<Rightarrow>
          let inx = (g \<or> x); inc = ctiwInc rn (unS b) mag0 g x; mag = mag0 + (if inc then 1 else 0) in
          if sat < mag then \<lparr>resBits = hi OR sat, resFl = kVxcvi\<rparr>
          else \<lparr>resBits = hi OR ucast (if unS b then 0 - ucast mag else ucast mag :: u32),
                resFl = (if inx then kXx else 0) OR (if inc then kFr else 0)\<rparr>)"

definition fpRes :: "u64 \<Rightarrow> fp_env \<Rightarrow> fp_res" where
  "fpRes fb env =
     (let b = unpack fb; fl = (if unC b = CSNaN then kVxsnan else 0) in
      if unC b = CQNaN \<or> unC b = CSNaN
      then \<lparr>resBits = quietNan fb AND 0xFFFFFFFFE0000000, resFl = fl\<rparr>
      else if unC b = CInf then \<lparr>resBits = packZero (unS b), resFl = fl\<rparr>
      else if unC b = CZero then \<lparr>resBits = packInf (unS b), resFl = fl OR kZx\<rparr>
      else let r = fpDiv kOne fb (env\<lparr>envRn := 0\<rparr>) Sgl
           in r\<lparr>resFl := (resFl r AND (kOx OR kUx)) OR fl\<rparr>)"

definition sqrtStep :: "u128 \<times> u128 \<times> u64 \<Rightarrow> u128 \<times> u128 \<times> u64" where
  "sqrtStep s =
     (case s of (rad, rem0, q) \<Rightarrow>
        let top2 = drop_bit 62 (hi128 rad);
            rem1 = (shl128 rem0 2)\<lparr>lo128 := lo128 (shl128 rem0 2) OR top2\<rparr>;
            trial = \<lparr>hi128 = 0, lo128 = push_bit 2 q OR 1\<rparr>
        in if ge128 rem1 trial then (shl128 rad 2, sub128 rem1 trial, push_bit 1 q OR 1)
           else (shl128 rad 2, rem1, push_bit 1 q))"

definition sqrtSig :: "u64 \<Rightarrow> bool \<Rightarrow> u64 \<times> bool" where
  "sqrtSig m oddExp =
     (case (sqrtStep ^^ 56)
             (shl128 \<lparr>hi128 = 0, lo128 = m\<rparr> (63 + (if oddExp then 1 else 0)), \<lparr>hi128 = 0, lo128 = 0\<rparr>, 0) of
        (_, rm, q) \<Rightarrow> (q, hi128 rm \<noteq> 0 \<or> lo128 rm \<noteq> 0))"

definition fpRsqrte :: "u64 \<Rightarrow> fp_env \<Rightarrow> fp_res" where
  "fpRsqrte fb env =
     (let b = unpack fb; fl = (if unC b = CSNaN then kVxsnan else 0) in
      if unC b = CQNaN \<or> unC b = CSNaN then \<lparr>resBits = quietNan fb, resFl = fl\<rparr>
      else if unC b = CZero then \<lparr>resBits = packInf (unS b), resFl = fl OR kZx\<rparr>
      else if unS b then \<lparr>resBits = kQNaNGen, resFl = fl OR kVxsqrt\<rparr>
      else if unC b = CInf then \<lparr>resBits = 0, resFl = fl\<rparr>
      else let isOdd = odd (unE b);
               half = (unE b - (if isOdd then 1 else 0)) div 2 in
        case sqrtSig (unM b) isOdd of
          (q, sticky) \<Rightarrow>
            let lz = countl_zero64 q;
                e2 = env\<lparr>envRn := 0\<rparr>;
                root = fst (roundPack False (half + (8 - int lz)) (push_bit lz q) sticky e2 Dbl 0)
            in \<lparr>resBits = resBits (fpDiv kOne root e2 Dbl), resFl = fl\<rparr>)"

end
