(* ===== verification/Fpu.thy ===== *)
theory Fpu
  imports SoftFp ExecSys
begin

text \<open>
  The floating-point executors of \<^verbatim>\<open>core/src/fpu.cpp\<close>: the status and control register's
  updates, the common tail of the arithmetic instructions, moves, compares and the register's own
  instructions, and their binding. The macro \<^verbatim>\<open>MADD\<close> is \<^verbatim>\<open>hMadd\<close>; the host's floating-point
  unit is the argument \<^verbatim>\<open>hf\<close> of the handlers that compute, as in \<^verbatim>\<open>SoftFp\<close>.
\<close>

section \<open>The status and control register\<close>

abbreviation (input) fFX :: u32 where "fFX \<equiv> 0x80000000"
abbreviation (input) fFEX :: u32 where "fFEX \<equiv> 0x40000000"
abbreviation (input) fVX :: u32 where "fVX \<equiv> 0x20000000"
abbreviation (input) fOX :: u32 where "fOX \<equiv> 0x10000000"
abbreviation (input) fUX :: u32 where "fUX \<equiv> 0x08000000"
abbreviation (input) fZX :: u32 where "fZX \<equiv> 0x04000000"
abbreviation (input) fXX :: u32 where "fXX \<equiv> 0x02000000"
abbreviation (input) fVXSNAN :: u32 where "fVXSNAN \<equiv> 0x01000000"
abbreviation (input) fVXISI :: u32 where "fVXISI \<equiv> 0x00800000"
abbreviation (input) fVXIDI :: u32 where "fVXIDI \<equiv> 0x00400000"
abbreviation (input) fVXZDZ :: u32 where "fVXZDZ \<equiv> 0x00200000"
abbreviation (input) fVXIMZ :: u32 where "fVXIMZ \<equiv> 0x00100000"
abbreviation (input) fVXVC :: u32 where "fVXVC \<equiv> 0x00080000"
abbreviation (input) fFR :: u32 where "fFR \<equiv> 0x00040000"
abbreviation (input) fFI :: u32 where "fFI \<equiv> 0x00020000"
abbreviation (input) fFPRF :: u32 where "fFPRF \<equiv> 0x0001F000"
abbreviation (input) fVXSOFT :: u32 where "fVXSOFT \<equiv> 0x00000400"
abbreviation (input) fVXSQRT :: u32 where "fVXSQRT \<equiv> 0x00000200"
abbreviation (input) fVXCVI :: u32 where "fVXCVI \<equiv> 0x00000100"
abbreviation (input) fVE :: u32 where "fVE \<equiv> 0x00000080"
abbreviation (input) fOE :: u32 where "fOE \<equiv> 0x00000040"
abbreviation (input) fUE :: u32 where "fUE \<equiv> 0x00000020"
abbreviation (input) fZE :: u32 where "fZE \<equiv> 0x00000010"
abbreviation (input) fXE :: u32 where "fXE \<equiv> 0x00000008"
abbreviation (input) fNI :: u32 where "fNI \<equiv> 0x00000004"
abbreviation (input) fRN :: u32 where "fRN \<equiv> 0x00000003"

definition fVxAll :: u32 where
  "fVxAll = fVXSNAN OR fVXISI OR fVXIDI OR fVXZDZ OR fVXIMZ OR fVXVC OR fVXSOFT OR fVXSQRT OR fVXCVI"

definition fExcAll :: u32 where
  "fExcAll = fFX OR fOX OR fUX OR fZX OR fXX OR fVxAll"

text \<open>The derived bits: the summary of the invalid bits, then of the enabled exceptions.\<close>

definition refresh :: "u32 \<Rightarrow> u32" where
  "refresh f =
     (let v0 = f AND NOT (fVX OR fFEX);
          v1 = (if f AND fVxAll \<noteq> 0 then v0 OR fVX else v0)
      in if (drop_bit 22 v1 AND v1) AND (fVE OR fOE OR fUE OR fZE OR fXE) \<noteq> 0 then v1 OR fFEX else v1)"

definition fpEnv :: "'b cpu \<Rightarrow> fp_env" where
  "fpEnv c =
     (let f = fpscr (st c) in
      \<lparr>envRn = f AND fRN, envOe = f AND fOE \<noteq> 0, envUe = f AND fUE \<noteq> 0, envNi = f AND fNI \<noteq> 0\<rparr>)"

definition classify :: "u64 \<Rightarrow> bool \<Rightarrow> u32" where
  "classify v sgl =
     (let s = drop_bit 63 v \<noteq> 0;
          e = ucast (drop_bit 52 v) AND 0x7FF :: u32;
          lo = (if sgl then 897 else 1 :: u32);
          m = v AND 0x000FFFFFFFFFFFFF
      in if e - lo < 0x7FF - lo then (if s then 0x08 else 0x04)
         else if e = 0x7FF then (if m \<noteq> 0 then 0x11 else if s then 0x09 else 0x05)
         else if e = 0 \<and> m = 0 then (if s then 0x12 else 0x02)
         else if s then 0x18 else 0x14)"

datatype fprf = FNone | FDbl | FSgl

definition setFprf :: "u64 \<Rightarrow> fprf \<Rightarrow> u32 \<Rightarrow> u32" where
  "setFprf result k f = (f AND NOT fFPRF) OR push_bit 12 (classify result (k = FSgl))"

abbreviation setFpscr :: "u32 \<Rightarrow> 'b cpu \<Rightarrow> 'b cpu" where
  "setFpscr f \<equiv> st_update (fpscr_update (\<lambda>_. f))"

definition fpRc :: "u32 \<Rightarrow> 'b cpu \<Rightarrow> 'b cpu" where
  "fpRc i c = (if f_rcbit i \<noteq> 0 then setCrField 1 (drop_bit 28 (fpscr (st c))) c else c)"

definition trapIfEnabled :: "'b cpu \<Rightarrow> 'b cpu" where
  "trapIfEnabled c =
     (if fpscr (st c) AND fFEX \<noteq> 0 \<and> msr (st c) AND (MSR_FE0 OR MSR_FE1) \<noteq> 0
      then raiseExc Program (pc (st c) - 4) kSrr1ProgFpEnabled c else c)"

definition mapFlags :: "u32 \<Rightarrow> u32" where
  "mapFlags sfl =
     (if sfl AND kOx \<noteq> 0 then fOX else 0) OR (if sfl AND kUx \<noteq> 0 then fUX else 0) OR
     (if sfl AND kZx \<noteq> 0 then fZX else 0) OR (if sfl AND kXx \<noteq> 0 then fXX else 0) OR
     (if sfl AND kVxsnan \<noteq> 0 then fVXSNAN else 0) OR (if sfl AND kVxisi \<noteq> 0 then fVXISI else 0) OR
     (if sfl AND kVxidi \<noteq> 0 then fVXIDI else 0) OR (if sfl AND kVxzdz \<noteq> 0 then fVXZDZ else 0) OR
     (if sfl AND kVximz \<noteq> 0 then fVXIMZ else 0) OR (if sfl AND kVxcvi \<noteq> 0 then fVXCVI else 0) OR
     (if sfl AND kVxsqrt \<noteq> 0 then fVXSQRT else 0)"

section \<open>The common tail\<close>

text \<open>The ordinary result: nothing but inexact and fraction rounded.\<close>

definition commitFast :: "u32 \<Rightarrow> fp_res \<Rightarrow> fprf \<Rightarrow> 'b cpu \<Rightarrow> 'b cpu" where
  "commitFast i r k c =
     (let f = fpscr (st c);
          nf0 = f AND NOT (fFR OR fFI);
          nf1 = (if resFl r AND kXx \<noteq> 0
                 then let a = (if f AND fXX = 0 then nf0 OR fFX else nf0);
                          b = a OR (fXX OR fFI)
                      in if b AND fXE \<noteq> 0 then b OR fFEX else b
                 else nf0);
          nf2 = (if resFl r AND kFr \<noteq> 0 then nf1 OR fFR else nf1);
          nf3 = (if k \<noteq> FNone then (nf2 AND NOT fFPRF) OR push_bit 12 (classify (resBits r) (k = FSgl)) else nf2)
      in trapIfEnabled (fpRc i (setFpscr nf3 (setFpr (f_rt i) (resBits r) c))))"

definition commitGeneral :: "u32 \<Rightarrow> fp_res \<Rightarrow> fprf \<Rightarrow> 'b cpu \<Rightarrow> 'b cpu" where
  "commitGeneral i r k c =
     (let f = fpscr (st c);
          exc = mapFlags (resFl r);
          suppress = ((exc AND fVxAll \<noteq> 0 \<and> f AND fVE \<noteq> 0) \<or> (exc AND fZX \<noteq> 0 \<and> f AND fZE \<noteq> 0));
          f1 = (if exc AND NOT f \<noteq> 0 then f OR fFX else f) OR exc;
          f2 = f1 AND NOT (fFR OR fFI);
          f3 = (if resFl r AND kXx \<noteq> 0 then f2 OR fFI else f2);
          f4 = (if resFl r AND kFr \<noteq> 0 then f3 OR fFR else f3);
          f5 = (if \<not> suppress \<and> k \<noteq> FNone then setFprf (resBits r) k f4 else f4);
          c1 = (if suppress then c else setFpr (f_rt i) (resBits r) c)
      in trapIfEnabled (fpRc i (setFpscr (refresh f5) c1)))"

definition commit :: "'b cpu \<Rightarrow> u32 \<Rightarrow> fp_res \<Rightarrow> fprf \<Rightarrow> 'b cpu" where
  "commit c i r k =
     (if resFl r AND NOT (kXx OR kFr) = 0 then commitFast i r k c else commitGeneral i r k c)"

definition fpA :: "'b cpu \<Rightarrow> u32 \<Rightarrow> u64" where "fpA c i = fpr (st c) (f_ra i)"
definition fpB :: "'b cpu \<Rightarrow> u32 \<Rightarrow> u64" where "fpB c i = fpr (st c) (f_rb i)"
definition fpC :: "'b cpu \<Rightarrow> u32 \<Rightarrow> u64" where "fpC c i = fpr (st c) (f_rc_vec i)"

section \<open>Arithmetic\<close>

definition h_fadd :: "host_fp \<Rightarrow> 'b cpu \<Rightarrow> u32 \<Rightarrow> 'b cpu" where
  "h_fadd hf c i = commit c i (fpAdd hf (fpA c i) (fpB c i) (fpEnv c) Dbl) FDbl"
definition h_fadds :: "host_fp \<Rightarrow> 'b cpu \<Rightarrow> u32 \<Rightarrow> 'b cpu" where
  "h_fadds hf c i = commit c i (fpAdd hf (fpA c i) (fpB c i) (fpEnv c) Sgl) FSgl"
definition h_fsub :: "host_fp \<Rightarrow> 'b cpu \<Rightarrow> u32 \<Rightarrow> 'b cpu" where
  "h_fsub hf c i = commit c i (fpSub hf (fpA c i) (fpB c i) (fpEnv c) Dbl) FDbl"
definition h_fsubs :: "host_fp \<Rightarrow> 'b cpu \<Rightarrow> u32 \<Rightarrow> 'b cpu" where
  "h_fsubs hf c i = commit c i (fpSub hf (fpA c i) (fpB c i) (fpEnv c) Sgl) FSgl"
definition h_fmul :: "host_fp \<Rightarrow> 'b cpu \<Rightarrow> u32 \<Rightarrow> 'b cpu" where
  "h_fmul hf c i = commit c i (fpMul hf (fpA c i) (fpC c i) (fpEnv c) Dbl) FDbl"
definition h_fmuls :: "host_fp \<Rightarrow> 'b cpu \<Rightarrow> u32 \<Rightarrow> 'b cpu" where
  "h_fmuls hf c i = commit c i (fpMul hf (fpA c i) (fpC c i) (fpEnv c) Sgl) FSgl"
definition h_fdiv :: "'b cpu \<Rightarrow> u32 \<Rightarrow> 'b cpu" where
  "h_fdiv c i = commit c i (fpDiv (fpA c i) (fpB c i) (fpEnv c) Dbl) FDbl"
definition h_fdivs :: "'b cpu \<Rightarrow> u32 \<Rightarrow> 'b cpu" where
  "h_fdivs c i = commit c i (fpDiv (fpA c i) (fpB c i) (fpEnv c) Sgl) FSgl"

definition hMadd :: "fp_tgt \<Rightarrow> bool \<Rightarrow> bool \<Rightarrow> host_fp \<Rightarrow> 'b cpu \<Rightarrow> u32 \<Rightarrow> 'b cpu" where
  "hMadd t negAdd negResult hf c i =
     commit c i (fpMadd hf (fpA c i) (fpC c i) (fpB c i) (fpEnv c) t negAdd negResult)
       (if t = Sgl then FSgl else FDbl)"

definition h_fmadd :: "host_fp \<Rightarrow> 'b cpu \<Rightarrow> u32 \<Rightarrow> 'b cpu" where "h_fmadd = hMadd Dbl False False"
definition h_fmadds :: "host_fp \<Rightarrow> 'b cpu \<Rightarrow> u32 \<Rightarrow> 'b cpu" where "h_fmadds = hMadd Sgl False False"
definition h_fmsub :: "host_fp \<Rightarrow> 'b cpu \<Rightarrow> u32 \<Rightarrow> 'b cpu" where "h_fmsub = hMadd Dbl True False"
definition h_fmsubs :: "host_fp \<Rightarrow> 'b cpu \<Rightarrow> u32 \<Rightarrow> 'b cpu" where "h_fmsubs = hMadd Sgl True False"
definition h_fnmadd :: "host_fp \<Rightarrow> 'b cpu \<Rightarrow> u32 \<Rightarrow> 'b cpu" where "h_fnmadd = hMadd Dbl False True"
definition h_fnmadds :: "host_fp \<Rightarrow> 'b cpu \<Rightarrow> u32 \<Rightarrow> 'b cpu" where "h_fnmadds = hMadd Sgl False True"
definition h_fnmsub :: "host_fp \<Rightarrow> 'b cpu \<Rightarrow> u32 \<Rightarrow> 'b cpu" where "h_fnmsub = hMadd Dbl True True"
definition h_fnmsubs :: "host_fp \<Rightarrow> 'b cpu \<Rightarrow> u32 \<Rightarrow> 'b cpu" where "h_fnmsubs = hMadd Sgl True True"

definition h_frsp :: "host_fp \<Rightarrow> 'b cpu \<Rightarrow> u32 \<Rightarrow> 'b cpu" where
  "h_frsp hf c i = commit c i (fpRsp hf (fpB c i) (fpEnv c)) FSgl"
definition h_fres :: "'b cpu \<Rightarrow> u32 \<Rightarrow> 'b cpu" where
  "h_fres c i = commit c i (fpRes (fpB c i) (fpEnv c)) FSgl"
definition h_frsqrte :: "'b cpu \<Rightarrow> u32 \<Rightarrow> 'b cpu" where
  "h_frsqrte c i = commit c i (fpRsqrte (fpB c i) (fpEnv c)) FDbl"
definition h_fctiw :: "'b cpu \<Rightarrow> u32 \<Rightarrow> 'b cpu" where
  "h_fctiw c i = commit c i (fpCtiw (fpB c i) (fpscr (st c) AND fRN)) FNone"
definition h_fctiwz :: "'b cpu \<Rightarrow> u32 \<Rightarrow> 'b cpu" where
  "h_fctiwz c i = commit c i (fpCtiw (fpB c i) 1) FNone"

section \<open>Selects and moves\<close>

definition isNan :: "u64 \<Rightarrow> bool" where
  "isNan v \<longleftrightarrow> drop_bit 52 v AND 0x7FF = 0x7FF \<and> v AND 0x000FFFFFFFFFFFFF \<noteq> 0"

definition h_fsel :: "'b cpu \<Rightarrow> u32 \<Rightarrow> 'b cpu" where
  "h_fsel c i =
     (let a = fpA c i; geZero = (\<not> isNan a \<and> (drop_bit 63 a = 0 \<or> push_bit 1 a = 0))
      in fpRc i (setFpr (f_rt i) (if geZero then fpC c i else fpB c i) c))"

definition h_fmr :: "'b cpu \<Rightarrow> u32 \<Rightarrow> 'b cpu" where
  "h_fmr c i = fpRc i (setFpr (f_rt i) (fpB c i) c)"
definition h_fneg :: "'b cpu \<Rightarrow> u32 \<Rightarrow> 'b cpu" where
  "h_fneg c i = fpRc i (setFpr (f_rt i) (fpB c i XOR 0x8000000000000000) c)"
definition h_fabs :: "'b cpu \<Rightarrow> u32 \<Rightarrow> 'b cpu" where
  "h_fabs c i = fpRc i (setFpr (f_rt i) (fpB c i AND 0x7FFFFFFFFFFFFFFF) c)"
definition h_fnabs :: "'b cpu \<Rightarrow> u32 \<Rightarrow> 'b cpu" where
  "h_fnabs c i = fpRc i (setFpr (f_rt i) (fpB c i OR 0x8000000000000000) c)"

section \<open>Compares\<close>

definition fcmp :: "u64 \<Rightarrow> u64 \<Rightarrow> u32" where
  "fcmp a b =
     (let za = push_bit 1 a = 0; zb = push_bit 1 b = 0;
          sa = drop_bit 63 a \<noteq> 0; sb = drop_bit 63 b \<noteq> 0;
          ma = a AND 0x7FFFFFFFFFFFFFFF; mb = b AND 0x7FFFFFFFFFFFFFFF in
      if isNan a \<or> isNan b then 1
      else if za \<and> zb then 2
      else if za then (if sb then 4 else 8)
      else if zb then (if sa then 8 else 4)
      else if sa \<noteq> sb then (if sa then 8 else 4)
      else if ma = mb then 2
      else if (ma < mb) \<noteq> sa then 8 else 4)"

definition isSNan :: "u64 \<Rightarrow> bool" where
  "isSNan v \<longleftrightarrow> isNan v \<and> drop_bit 51 v AND 1 = 0"

definition compareExc :: "bool \<Rightarrow> u32 \<Rightarrow> u64 \<Rightarrow> u64 \<Rightarrow> u32" where
  "compareExc ordered f a b =
     (if isSNan a \<or> isSNan b then fVXSNAN OR (if ordered \<and> f AND fVE = 0 then fVXVC else 0)
      else if ordered \<and> (isNan a \<or> isNan b) then fVXVC else 0)"

definition compare :: "'b cpu \<Rightarrow> u32 \<Rightarrow> bool \<Rightarrow> 'b cpu" where
  "compare c i ordered =
     (let a = fpA c i; b = fpB c i; cc = fcmp a b;
          f = (fpscr (st c) AND NOT 0x0000F000) OR push_bit 12 cc;
          exc = compareExc ordered f a b;
          f1 = (if exc \<noteq> 0 then (if exc AND NOT f \<noteq> 0 then f OR fFX else f) OR exc else f)
      in trapIfEnabled (setFpscr (refresh f1) (setCrField (f_crfd i) cc c)))"

definition h_fcmpu :: "'b cpu \<Rightarrow> u32 \<Rightarrow> 'b cpu" where "h_fcmpu c i = compare c i False"
definition h_fcmpo :: "'b cpu \<Rightarrow> u32 \<Rightarrow> 'b cpu" where "h_fcmpo c i = compare c i True"

section \<open>The register's own instructions\<close>

definition h_mffs :: "'b cpu \<Rightarrow> u32 \<Rightarrow> 'b cpu" where
  "h_mffs c i = fpRc i (setFpr (f_rt i) (0xFFF8000000000000 OR ucast (fpscr (st c))) c)"

definition h_mcrfs :: "'b cpu \<Rightarrow> u32 \<Rightarrow> 'b cpu" where
  "h_mcrfs c i =
     (let f = fpscr (st c); sh = unat ((7 - f_crfs i) * 4);
          fieldMask = push_bit sh 0xF
      in setFpscr (refresh (f AND NOT (fieldMask AND fExcAll AND NOT (fFEX OR fVX))))
           (setCrField (f_crfd i) (drop_bit sh f AND 0xF) c))"

definition h_mtfsfi :: "'b cpu \<Rightarrow> u32 \<Rightarrow> 'b cpu" where
  "h_mtfsfi c i =
     (let f = fpscr (st c); crfD = f_crfd i; imm = ppcbits i 16 19; sh = unat ((7 - crfD) * 4);
          mask0 = push_bit sh 0xF;
          mask = (if crfD = 0 then mask0 AND NOT (fFEX OR fVX) else mask0)
      in trapIfEnabled (fpRc i (setFpscr (refresh ((f AND NOT mask) OR (push_bit sh imm AND mask))) c)))"

text \<open>One field of the mask of \<^verbatim>\<open>mtfsf\<close> per set bit of the instruction's \<^verbatim>\<open>FM\<close>.\<close>

definition fmMask :: "u32 \<Rightarrow> u32" where
  "fmMask fm =
     foldl (\<lambda>m k. if fm AND drop_bit k 0x80 \<noteq> 0 then m OR push_bit ((7 - k) * 4) 0xF else m) 0 [0..<8]"

definition h_mtfsf :: "'b cpu \<Rightarrow> u32 \<Rightarrow> 'b cpu" where
  "h_mtfsf c i =
     (let f = fpscr (st c); v = ucast (fpB c i);
          mask = fmMask (f_fm i) AND NOT (fFEX OR fVX)
      in trapIfEnabled (fpRc i (setFpscr (refresh ((f AND NOT mask) OR (v AND mask))) c)))"

definition mtfsb :: "'b cpu \<Rightarrow> u32 \<Rightarrow> bool \<Rightarrow> 'b cpu" where
  "mtfsb c i on =
     (let f = fpscr (st c); fbit = push_bit (unat (31 - f_rt i)) 1 :: u32 in
      if fbit AND (fFEX OR fVX) \<noteq> 0 then fpRc i c
      else let f1 = (if on
                     then (if fbit AND fExcAll AND NOT fFX \<noteq> 0 \<and> f AND fbit = 0 then f OR fFX else f) OR fbit
                     else f AND NOT fbit)
           in trapIfEnabled (fpRc i (setFpscr (refresh f1) c)))"

definition h_mtfsb0 :: "'b cpu \<Rightarrow> u32 \<Rightarrow> 'b cpu" where "h_mtfsb0 c i = mtfsb c i False"
definition h_mtfsb1 :: "'b cpu \<Rightarrow> u32 \<Rightarrow> 'b cpu" where "h_mtfsb1 c i = mtfsb c i True"

section \<open>Binding\<close>

definition fpuHandlers :: "host_fp \<Rightarrow> (string \<times> ('b cpu \<Rightarrow> u32 \<Rightarrow> 'b cpu)) list" where
  "fpuHandlers hf =
  [(''fadd'', h_fadd hf), (''fadds'', h_fadds hf), (''fsub'', h_fsub hf), (''fsubs'', h_fsubs hf),
   (''fmul'', h_fmul hf), (''fmuls'', h_fmuls hf), (''fdiv'', h_fdiv), (''fdivs'', h_fdivs),
   (''fmadd'', h_fmadd hf), (''fmadds'', h_fmadds hf), (''fmsub'', h_fmsub hf), (''fmsubs'', h_fmsubs hf),
   (''fnmadd'', h_fnmadd hf), (''fnmadds'', h_fnmadds hf), (''fnmsub'', h_fnmsub hf), (''fnmsubs'', h_fnmsubs hf),
   (''frsp'', h_frsp hf), (''fres'', h_fres), (''frsqrte'', h_frsqrte), (''fctiw'', h_fctiw),
   (''fctiwz'', h_fctiwz), (''fsel'', h_fsel), (''fmr'', h_fmr), (''fneg'', h_fneg),
   (''fabs'', h_fabs), (''fnabs'', h_fnabs), (''fcmpu'', h_fcmpu), (''fcmpo'', h_fcmpo),
   (''mffs'', h_mffs), (''mcrfs'', h_mcrfs), (''mtfsfi'', h_mtfsfi), (''mtfsf'', h_mtfsf),
   (''mtfsb0'', h_mtfsb0), (''mtfsb1'', h_mtfsb1)]"

definition bindFpuHandlers :: "host_fp \<Rightarrow> string \<Rightarrow> ('b cpu \<Rightarrow> u32 \<Rightarrow> 'b cpu) option" where
  "bindFpuHandlers hf = map_of (fpuHandlers hf)"

end
