(* ===== verification/FpuSummary.thy ===== *)
theory FpuSummary
  imports Fpu
begin

text \<open>
  The summary bits of the floating-point status register: \<^verbatim>\<open>refresh\<close> of \<^verbatim>\<open>core/src/fpu.cpp\<close> computes
  what they stand for, and the straight line \<^verbatim>\<open>commit\<close> takes on an ordinary result is the general
  path whenever they were right before.
\<close>

section \<open>The summary bits\<close>

lemma and_zero_bit: "(w :: u32) AND push_bit n 1 = 0 \<longleftrightarrow> \<not> bit w n"
  using and_single_bit_iff [of w n] by blast

lemma mask_bit32:
  "(w :: u32) AND 0x80000000 = 0 \<longleftrightarrow> \<not> bit w 31" "w AND 0x40000000 = 0 \<longleftrightarrow> \<not> bit w 30"
  "w AND 0x20000000 = 0 \<longleftrightarrow> \<not> bit w 29" "w AND 0x10000000 = 0 \<longleftrightarrow> \<not> bit w 28"
  "w AND 0x08000000 = 0 \<longleftrightarrow> \<not> bit w 27" "w AND 0x04000000 = 0 \<longleftrightarrow> \<not> bit w 26"
  "w AND 0x02000000 = 0 \<longleftrightarrow> \<not> bit w 25" "w AND 0x01000000 = 0 \<longleftrightarrow> \<not> bit w 24"
  "w AND 0x00800000 = 0 \<longleftrightarrow> \<not> bit w 23" "w AND 0x00400000 = 0 \<longleftrightarrow> \<not> bit w 22"
  "w AND 0x00200000 = 0 \<longleftrightarrow> \<not> bit w 21" "w AND 0x00100000 = 0 \<longleftrightarrow> \<not> bit w 20"
  "w AND 0x00080000 = 0 \<longleftrightarrow> \<not> bit w 19" "w AND 0x400 = 0 \<longleftrightarrow> \<not> bit w 10"
  "w AND 0x200 = 0 \<longleftrightarrow> \<not> bit w 9" "w AND 0x100 = 0 \<longleftrightarrow> \<not> bit w 8"
  "w AND 0x80 = 0 \<longleftrightarrow> \<not> bit w 7" "w AND 0x40 = 0 \<longleftrightarrow> \<not> bit w 6"
  "w AND 0x20 = 0 \<longleftrightarrow> \<not> bit w 5" "w AND 0x10 = 0 \<longleftrightarrow> \<not> bit w 4"
  "w AND 0x8 = 0 \<longleftrightarrow> \<not> bit w 3"
  using and_zero_bit [of w 31] and_zero_bit [of w 30] and_zero_bit [of w 29] and_zero_bit [of w 28] and_zero_bit [of w 27] and_zero_bit [of w 26] and_zero_bit [of w 25] and_zero_bit [of w 24] and_zero_bit [of w 23] and_zero_bit [of w 22] and_zero_bit [of w 21]
    and_zero_bit [of w 20] and_zero_bit [of w 19] and_zero_bit [of w 10] and_zero_bit [of w 9] and_zero_bit [of w 8] and_zero_bit [of w 7] and_zero_bit [of w 6] and_zero_bit [of w 5] and_zero_bit [of w 4] and_zero_bit [of w 3]
  by simp_all

lemma or_zero_iff: "(a :: 'a :: len word) OR b = 0 \<longleftrightarrow> a = 0 \<and> b = 0"
  by (metis or.right_neutral or_eq_0_iff)

lemma vx_bits: "f AND fVxAll = 0 \<longleftrightarrow> \<not> (bit f 24 \<or> bit f 23 \<or> bit f 22 \<or> bit f 21 \<or> bit f 20 \<or> bit f 19 \<or>
    bit f 10 \<or> bit f 9 \<or> bit f 8)"
  unfolding fVxAll_def bit.conj_disj_distrib or_zero_iff mask_bit32 by simp

text \<open>What the summary bits are for: VX iff some invalid bit, FEX iff some exception and its enable.\<close>

definition fpEnabled :: "u32 \<Rightarrow> bool" where
  "fpEnabled f \<longleftrightarrow> (f AND fVxAll \<noteq> 0 \<and> f AND fVE \<noteq> 0) \<or> (f AND fOX \<noteq> 0 \<and> f AND fOE \<noteq> 0) \<or>
     (f AND fUX \<noteq> 0 \<and> f AND fUE \<noteq> 0) \<or> (f AND fZX \<noteq> 0 \<and> f AND fZE \<noteq> 0) \<or> (f AND fXX \<noteq> 0 \<and> f AND fXE \<noteq> 0)"

definition fpscrOk :: "u32 \<Rightarrow> bool" where
  "fpscrOk f \<longleftrightarrow> (f AND fVX \<noteq> 0 \<longleftrightarrow> f AND fVxAll \<noteq> 0) \<and> (f AND fFEX \<noteq> 0 \<longleftrightarrow> fpEnabled f)"

lemma bit_not_two: "n < 32 \<Longrightarrow> bit (NOT (push_bit a 1 OR push_bit b 1 :: u32)) n \<longleftrightarrow> n \<noteq> a \<and> n \<noteq> b"
  by (simp only: bit_not_iff bit_or_iff bit_push_bit_iff bit_1_iff) auto

lemma refresh_bits:
  "bit (refresh f) 29 \<longleftrightarrow> f AND fVxAll \<noteq> 0" "bit (refresh f) 30 \<longleftrightarrow> fpEnabled f"
  "n \<noteq> 29 \<Longrightarrow> n \<noteq> 30 \<Longrightarrow> bit (refresh f) n = bit f n"
proof -
  let ?v0 = "f AND NOT (fVX OR fFEX)"
  define v1 where "v1 = (if f AND fVxAll \<noteq> 0 then ?v0 OR fVX else ?v0)"
  have v0: "bit ?v0 n \<longleftrightarrow> n \<noteq> 29 \<and> n \<noteq> 30 \<and> bit f n" if "n < 32" for n
    using bit_not_two [OF that, of 29 30] by (auto simp: bit_and_iff)
  have V: "bit fVX n \<longleftrightarrow> n = 29" "bit fFEX n \<longleftrightarrow> n = 30" if "n < 32" for n
  proof -
    have "bit (push_bit 29 1 :: u32) n \<longleftrightarrow> n = 29" "bit (push_bit 30 1 :: u32) n \<longleftrightarrow> n = 30"
      using that by (auto simp only: bit_push_bit_iff bit_1_iff) auto
    then show "bit fVX n \<longleftrightarrow> n = 29" "bit fFEX n \<longleftrightarrow> n = 30" by simp_all
  qed
  have v1: "bit v1 n \<longleftrightarrow> (if n = 29 then f AND fVxAll \<noteq> 0 else n \<noteq> 30 \<and> bit f n)" if "n < 32" for n
    using v0 [OF that] V [OF that] by (auto simp: v1_def bit_or_iff)
  have en: "(drop_bit 22 v1 AND v1) AND (fVE OR fOE OR fUE OR fZE OR fXE) \<noteq> 0 \<longleftrightarrow> fpEnabled f"
    unfolding bit.conj_disj_distrib or_zero_iff mask_bit32 fpEnabled_def
    by (simp add: bit_and_iff bit_drop_bit_eq v1)
  have r: "refresh f = (if fpEnabled f then v1 OR fFEX else v1)"
    unfolding refresh_def Let_def v1_def [symmetric] en ..
  show "bit (refresh f) 29 \<longleftrightarrow> f AND fVxAll \<noteq> 0" "bit (refresh f) 30 \<longleftrightarrow> fpEnabled f"
    by (auto simp: r bit_or_iff v1)
  show "bit (refresh f) n = bit f n" if "n \<noteq> 29" "n \<noteq> 30"
  proof (cases "n < 32")
    case True
    then show ?thesis using that V [OF True] by (auto simp: r bit_or_iff v1)
  next
    case False
    then show ?thesis using bit_imp_le_length [of f n] bit_imp_le_length [of "refresh f" n] by auto
  qed
qed

lemma refresh_tests [simp]:
  "refresh f AND fVxAll = 0 \<longleftrightarrow> f AND fVxAll = 0" "fpEnabled (refresh f) = fpEnabled f"
proof -
  show v: "refresh f AND fVxAll = 0 \<longleftrightarrow> f AND fVxAll = 0" by (simp add: vx_bits refresh_bits(3))
  show "fpEnabled (refresh f) = fpEnabled f"
    unfolding fpEnabled_def v mask_bit32 by (simp add: refresh_bits(3))
qed

lemma fpscrOk_refresh [simp]: "fpscrOk (refresh f)"
  by (simp add: fpscrOk_def mask_bit32 refresh_bits)

lemma refresh_eqI:
  assumes "fpscrOk h" "\<And>n. n \<noteq> 29 \<Longrightarrow> n \<noteq> 30 \<Longrightarrow> bit h n = bit f n"
  shows "refresh f = h"
proof -
  have v: "f AND fVxAll = 0 \<longleftrightarrow> h AND fVxAll = 0" by (simp add: vx_bits assms(2))
  have e: "fpEnabled f = fpEnabled h" unfolding fpEnabled_def v mask_bit32 by (simp add: assms(2))
  have "bit h 29 \<longleftrightarrow> f AND fVxAll \<noteq> 0" "bit h 30 \<longleftrightarrow> fpEnabled f"
    using assms(1) unfolding v e by (simp_all add: fpscrOk_def mask_bit32)
  then show ?thesis using refresh_bits [where f = f] assms(2) by (intro word_eq32I) (metis (full_types))
qed

lemma refresh_fixed: "fpscrOk f \<Longrightarrow> refresh f = f"
  by (rule refresh_eqI) simp_all

lemma classify_bits: "5 \<le> n \<Longrightarrow> \<not> bit (classify v s) n"
proof -
  assume n: "5 \<le> n"
  have "classify v s < 2 ^ 5" by (simp add: classify_def Let_def)
  then have "take_bit 5 (classify v s) = classify v s" by (simp add: less_mask_eq take_bit_eq_mask)
  then show ?thesis using n by (metis bit_take_bit_iff not_le)
qed

lemma result_class_bits:
  fixes f g :: u32
  assumes "n < 12 \<or> 17 \<le> n"
  shows "bit ((f AND NOT fFPRF) OR push_bit 12 (classify v s)) n = bit f n"
proof (cases "n < 32")
  case True
  have "bit (NOT (push_bit 12 (mask 5)) :: u32) n"
    using True assms by (simp only: bit_not_iff bit_push_bit_iff bit_mask_iff) auto
  moreover have "push_bit 12 (mask 5) = fFPRF" by (simp add: mask_eq_exp_minus_1)
  ultimately have "bit (NOT fFPRF) n" by (simp only:)
  moreover have "\<not> bit (push_bit 12 (classify v s)) n"
  proof (cases "17 \<le> n")
    case True
    then have "5 \<le> n - 12" by arith
    then show ?thesis using classify_bits [of "n - 12" v s] by (simp add: bit_push_bit_iff)
  qed (use assms in \<open>simp add: bit_push_bit_iff\<close>)
  ultimately show ?thesis by (simp add: bit_or_iff bit_and_iff)
next
  case False
  then show ?thesis using bit_imp_le_length [of f n] bit_imp_le_length [of "(f AND NOT fFPRF) OR push_bit 12 (classify v s)" n] by auto
qed

section \<open>The common tail\<close>

lemma flags_outside:
  assumes "fl AND NOT m = 0" "k AND m = (0 :: u32)"
  shows "fl AND k = 0"
proof -
  have "\<not> (bit fl n \<and> bit k n)" if "n < 32" for n
    using arg_cong [OF assms(1), of "\<lambda>w. bit w n"] arg_cong [OF assms(2), of "\<lambda>w. bit w n"] that
    by (auto simp: bit_and_iff bit_not_iff)
  then show ?thesis by (intro word_eq32I) (simp add: bit_and_iff)
qed

lemma mapFlags_ordinary:
  assumes "fl AND NOT (kXx OR kFr) = 0"
  shows "mapFlags fl = (if fl AND kXx \<noteq> 0 then fXX else 0)"
proof -
  note o = flags_outside [OF assms]
  have "fl AND kOx = 0" "fl AND kUx = 0" "fl AND kZx = 0" "fl AND kVxsnan = 0" "fl AND kVxisi = 0" "fl AND kVxidi = 0"
    "fl AND kVxzdz = 0" "fl AND kVximz = 0" "fl AND kVxcvi = 0" "fl AND kVxsqrt = 0"
    by (rule o, simp)+
  then show ?thesis unfolding mapFlags_def by (simp only: not_True_eq_False if_False or.left_neutral or.right_neutral simp_thms)
qed

definition ordBase :: "u32 \<Rightarrow> bool \<Rightarrow> bool \<Rightarrow> u32" where
  "ordBase f xx fr = (let g = f AND NOT (fFR OR fFI);
     h = (if xx then (if f AND fXX = 0 then g OR fFX else g) OR (fXX OR fFI) else g) in if fr then h OR fFR else h)"

lemma ordBase_bits:
  "bit (ordBase f xx fr) 24 = bit f 24" "bit (ordBase f xx fr) 23 = bit f 23" "bit (ordBase f xx fr) 22 = bit f 22"
  "bit (ordBase f xx fr) 21 = bit f 21" "bit (ordBase f xx fr) 20 = bit f 20" "bit (ordBase f xx fr) 19 = bit f 19"
  "bit (ordBase f xx fr) 10 = bit f 10" "bit (ordBase f xx fr) 9 = bit f 9" "bit (ordBase f xx fr) 8 = bit f 8"
  "bit (ordBase f xx fr) 28 = bit f 28" "bit (ordBase f xx fr) 27 = bit f 27" "bit (ordBase f xx fr) 26 = bit f 26"
  "bit (ordBase f xx fr) 25 = (bit f 25 \<or> xx)" "bit (ordBase f xx fr) 29 = bit f 29" "bit (ordBase f xx fr) 30 = bit f 30"
  "bit (ordBase f xx fr) 7 = bit f 7" "bit (ordBase f xx fr) 6 = bit f 6" "bit (ordBase f xx fr) 5 = bit f 5"
  "bit (ordBase f xx fr) 4 = bit f 4" "bit (ordBase f xx fr) 3 = bit f 3"
  by (auto simp: ordBase_def Let_def bit_or_iff bit_and_iff bit_not_iff)

lemma word_eq32_listI: "list_all (\<lambda>n. bit a n = bit b n) [0..<32] \<Longrightarrow> a = (b :: u32)"
  by (rule word_eq32I) (simp add: list_all_iff)

lemma upto32: "[0..<32] = [0, 1, 2, 3, 4, 5, 6, 7, 8, 9, 10, 11, 12, 13, 14, 15, 16, 17, 18, 19, 20, 21, 22, 23, 24, 25, 26, 27, 28, 29, 30, 31]"
  by (simp add: upt_rec)

lemma ordBase_general:
  "ordBase f xx fr =
     (let exc = (if xx then fXX else 0);
          f1 = (if exc AND NOT f \<noteq> 0 then f OR fFX else f) OR exc;
          f2 = f1 AND NOT (fFR OR fFI);
          f3 = (if xx then f2 OR fFI else f2)
      in if fr then f3 OR fFR else f3)"
proof -
  have x: "fXX AND NOT f \<noteq> 0 \<longleftrightarrow> \<not> bit f 25"
    using and_zero_bit [of "NOT f" 25] by (simp add: and.commute bit_not_iff)
  show ?thesis
    unfolding ordBase_def Let_def x mask_bit32 by (rule word_eq32_listI) (auto simp: upto32 bit_or_iff bit_and_iff bit_not_iff x)
qed

lemma ordBase_fast:
  "(if fr then b OR fFR else b) = ordBase f xx fr OR (if xx \<and> f AND fXE \<noteq> 0 then fFEX else 0)"
  if "b = (if xx then let a = (if f AND fXX = 0 then g OR fFX else g); b = a OR (fXX OR fFI)
                      in if b AND fXE \<noteq> 0 then b OR fFEX else b
           else g)" "g = f AND NOT (fFR OR fFI)"
proof -
  have x: "bit g 3 = bit f 3" unfolding that(2) by (simp add: bit_and_iff bit_not_iff)
  show ?thesis unfolding ordBase_def Let_def that(1) that(2) [symmetric] mask_bit32
    by (auto simp: x bit_or_iff or.assoc or.commute or.left_commute)
qed

definition tagged :: "u64 \<Rightarrow> fprf \<Rightarrow> u32 \<Rightarrow> u32" where
  "tagged v k g = (if k \<noteq> FNone then (g AND NOT fFPRF) OR push_bit 12 (classify v (k = FSgl)) else g)"

lemma tagged_bits: "n < 12 \<or> 17 \<le> n \<Longrightarrow> bit (tagged v k g) n = bit g n"
  unfolding tagged_def using result_class_bits [of n g v "k = FSgl"] by simp

lemma tagged_or: "tagged v k (g OR (if e then fFEX else 0)) = tagged v k g OR (if e then fFEX else 0)"
proof -
  have "fFEX AND NOT fFPRF = fFEX" by simp
  then show ?thesis unfolding tagged_def bit.conj_disj_distrib2 by (auto simp: or.assoc or.commute or.left_commute)
qed

lemma commitFast_tagged:
  "commitFast i r k c =
     (let f = fpscr (st c); xx = (resFl r AND kXx \<noteq> 0);
          nf = tagged (resBits r) k (ordBase f xx (resFl r AND kFr \<noteq> 0)) OR (if xx \<and> f AND fXE \<noteq> 0 then fFEX else 0)
      in trapIfEnabled (fpRc i (setFpscr nf (setFpr (f_rt i) (resBits r) c))))"
  unfolding commitFast_def Let_def ordBase_fast [OF _ refl, unfolded Let_def, OF refl]
  by (simp only: tagged_or [symmetric]) (simp only: tagged_def)

lemma commitGeneral_tagged:
  assumes "resFl r AND NOT (kXx OR kFr) = 0"
  shows "commitGeneral i r k c =
     (let f = fpscr (st c); xx = (resFl r AND kXx \<noteq> 0)
      in trapIfEnabled (fpRc i (setFpscr (refresh (tagged (resBits r) k (ordBase f xx (resFl r AND kFr \<noteq> 0))))
           (setFpr (f_rt i) (resBits r) c))))"
proof -
  have s: "(if resFl r AND kXx \<noteq> 0 then fXX else 0) AND fVxAll = 0" "(if resFl r AND kXx \<noteq> 0 then fXX else 0) AND fZX = 0"
    by (simp_all add: fVxAll_def)
  show ?thesis
    unfolding commitGeneral_def mapFlags_ordinary [OF assms] Let_def s tagged_def setFprf_def ordBase_general
    by (simp only: simp_thms if_False not_False_eq_True if_True)
qed

lemma fex_bit: "bit fFEX n \<longleftrightarrow> n = 30"
proof -
  have "bit (push_bit 30 1 :: u32) n \<longleftrightarrow> n = 30" by (auto simp only: bit_push_bit_iff bit_1_iff) auto
  then show ?thesis by simp
qed

lemma summary_kept:
  assumes "fpscrOk f"
  shows "refresh (tagged v k (ordBase f xx fr)) = tagged v k (ordBase f xx fr) OR (if xx \<and> f AND fXE \<noteq> 0 then fFEX else 0)"
proof -
  define h where "h = tagged v k (ordBase f xx fr) OR (if xx \<and> f AND fXE \<noteq> 0 then fFEX else 0)"
  have b: "bit h n \<longleftrightarrow> bit (tagged v k (ordBase f xx fr)) n \<or> n = 30 \<and> xx \<and> bit f 3" for n
    unfolding h_def bit_or_iff mask_bit32 by (simp only: fex_bit bit_0_eq split: if_split) auto
  have bh: "bit h n \<longleftrightarrow> bit (ordBase f xx fr) n \<or> n = 30 \<and> xx \<and> bit f 3" if "n < 12 \<or> 17 \<le> n" for n
    using b tagged_bits [OF that] by simp
  have v: "h AND fVxAll = 0 \<longleftrightarrow> f AND fVxAll = 0" by (simp add: vx_bits bh ordBase_bits)
  have "fpEnabled h \<longleftrightarrow> fpEnabled f \<or> xx \<and> bit f 3"
    unfolding fpEnabled_def v mask_bit32 by (simp add: bh ordBase_bits) blast
  moreover have "bit h 29 = bit f 29" "bit h 30 = (bit f 30 \<or> xx \<and> bit f 3)" by (simp_all add: bh ordBase_bits)
  ultimately have "fpscrOk h" using assms unfolding fpscrOk_def v mask_bit32 by simp
  then have "refresh (tagged v k (ordBase f xx fr)) = h" by (rule refresh_eqI) (simp add: b)
  then show ?thesis by (simp only: h_def)
qed

lemma fast_is_general:
  assumes "fpscrOk (fpscr (st c))" "resFl r AND NOT (kXx OR kFr) = 0"
  shows "commitFast i r k c = commitGeneral i r k c"
  unfolding commitFast_tagged commitGeneral_tagged [OF assms(2)] Let_def summary_kept [OF assms(1)] ..

lemma commit_general: "fpscrOk (fpscr (st c)) \<Longrightarrow> commit c i r k = commitGeneral i r k c"
  by (simp add: commit_def fast_is_general)

end

