(* ===== verification/FpValue.thy ===== *)
theory FpValue
  imports Complex_Main SoftFp
begin

text \<open>
  What the encodings of \<^verbatim>\<open>core/src/softfp.cpp\<close> mean: the rational value of an unpacked double, a
  reference rounding onto the single and double formats, and the proof that \<^verbatim>\<open>roundPack\<close> delivers it
  with the right flags in every rounding mode, denormals and overflow included, as long as no
  exception is enabled.
\<close>

section \<open>Words as numbers\<close>

lemma unat64_less: "unat (w :: u64) < 2 ^ 64"
  using unsigned_less [of w] by simp

lemma push_bit_unat:
  fixes w :: u64
  assumes "unat w * 2 ^ n < 2 ^ 64"
  shows "unat (push_bit n w) = unat w * 2 ^ n"
proof -
  have "unat (push_bit n w) = take_bit 64 (push_bit n (unat w))"
    by (simp add: unsigned_push_bit_eq)
  then show ?thesis using assms by (simp add: push_bit_eq_mult take_bit_nat_eq_self)
qed

lemma push_bit_mod:
  fixes w :: u64
  assumes "n \<le> 64"
  shows "unat (push_bit n w) = unat w mod 2 ^ (64 - n) * 2 ^ n"
proof -
  have "unat (push_bit n w) = take_bit 64 (push_bit n (unat w))"
    by (simp add: unsigned_push_bit_eq)
  also have "\<dots> = (unat w * 2 ^ n) mod (2 ^ (64 - n) * 2 ^ n)"
    using assms by (simp only: push_bit_eq_mult take_bit_eq_mod power_add [symmetric] le_add_diff_inverse2)
  finally show ?thesis by (simp only: mult_mod_left)
qed

lemma lost_bits: "n \<le> 64 \<Longrightarrow> push_bit (64 - n) (w :: u64) \<noteq> 0 \<longleftrightarrow> unat w mod 2 ^ n \<noteq> 0"
  using push_bit_mod [of "64 - n" w] by (simp add: unat_eq_0 [symmetric])

lemma bit_odd: "bit (w :: u64) n \<longleftrightarrow> odd (unat w div 2 ^ n)"
proof -
  have "bit w n \<longleftrightarrow> bit (unat w) n" using bit_imp_le_length [of w n] by (auto simp: bit_unsigned_iff)
  then show ?thesis by (simp only: bit_iff_odd)
qed

lemma one_bit: "drop_bit n (w :: u64) AND 1 \<noteq> 0 \<longleftrightarrow> odd (unat w div 2 ^ n)"
proof -
  have "drop_bit n w AND 1 \<noteq> 0 \<longleftrightarrow> bit w n" by (simp add: and_one_eq mod_2_eq_odd bit_iff_odd_drop_bit)
  then show ?thesis by (simp only: bit_odd)
qed

lemma low_bits: "n < 64 \<Longrightarrow> (w :: u64) AND (push_bit n 1 - 1) \<noteq> 0 \<longleftrightarrow> unat w mod 2 ^ n \<noteq> 0"
proof -
  have "(push_bit n 1 - 1 :: u64) = mask n" by (simp add: mask_eq_decr_exp push_bit_eq_mult)
  then show ?thesis by (simp add: unat_and_mask unat_eq_0 [symmetric])
qed

lemma drop_bit_nonzero: "drop_bit n (w :: u64) \<noteq> 0 \<longleftrightarrow> 2 ^ n \<le> unat w"
  by (simp add: unat_eq_0 [symmetric] unat_drop_bit div_eq_0_iff not_less)

lemma countl_zero64_bounds:
  assumes "v \<noteq> 0"
  shows "countl_zero64 v < 64" "2 ^ (63 - countl_zero64 v) \<le> unat v" "unat v < 2 ^ (64 - countl_zero64 v)"
proof -
  let ?xs = "rev [0..<64]" and ?P = "\<lambda>k. \<not> bit v k" and ?n = "countl_zero64 v"
  obtain k0 where k0: "bit v k0" using assms by (metis bit_eqI bit_0_eq bot_apply bot_bool_def)
  then have ex: "\<exists>x \<in> set ?xs. \<not> ?P x" using bit_imp_le_length [OF k0] by auto
  have nth: "?xs ! m = 63 - m" if "m < 64" for m using that by (simp add: rev_nth)
  have "takeWhile ?P ?xs \<noteq> ?xs" using ex by (auto simp: takeWhile_eq_all_conv)
  then show n: "?n < 64"
    unfolding countl_zero64_def by (metis length_rev length_upt length_takeWhile_le diff_zero le_neq_implies_less takeWhile_eq_take take_all_iff)
  have "\<not> ?P (?xs ! ?n)" unfolding countl_zero64_def by (rule nth_length_takeWhile) (use n in \<open>simp add: countl_zero64_def\<close>)
  then have "odd (unat v div 2 ^ (63 - ?n))" unfolding nth [OF n] by (simp only: not_not bit_odd not_False_eq_True)
  then show "2 ^ (63 - ?n) \<le> unat v" by (metis div_less dvd_0_right linorder_not_less)
  have "\<not> bit v k" if "64 - ?n \<le> k" for k
  proof (cases "k < 64")
    case True
    with that have m: "63 - k < ?n" by arith
    then have "?P (takeWhile ?P ?xs ! (63 - k))" using set_takeWhileD nth_mem unfolding countl_zero64_def by metis
    moreover have "takeWhile ?P ?xs ! (63 - k) = k"
      using m True nth [of "63 - k"] takeWhile_nth [of "63 - k" ?P ?xs] by (simp add: countl_zero64_def)
    ultimately show ?thesis by simp
  qed (use bit_imp_le_length [of v k] in auto)
  then have "drop_bit (64 - ?n) v = 0" by (intro bit_eqI) (simp add: bit_drop_bit_eq)
  then show "unat v < 2 ^ (64 - ?n)" using drop_bit_nonzero [of "64 - ?n" v] by simp
qed

lemma normalize64:
  assumes "v \<noteq> 0"
  shows "unat (push_bit (countl_zero64 v) v) = unat v * 2 ^ countl_zero64 v" "2 ^ 63 \<le> unat (push_bit (countl_zero64 v) v)"
proof -
  note c = countl_zero64_bounds [OF assms]
  let ?n = "countl_zero64 v"
  have "unat v * 2 ^ ?n < 2 ^ (64 - ?n) * 2 ^ ?n" using c(3) by simp
  also have "\<dots> = 2 ^ 64" using c(1) by (simp add: power_add [symmetric])
  finally show e: "unat (push_bit ?n v) = unat v * 2 ^ ?n" by (rule push_bit_unat)
  have "(2 :: nat) ^ 63 = 2 ^ (63 - ?n) * 2 ^ ?n" using c(1) by (simp add: power_add [symmetric])
  also have "\<dots> \<le> unat v * 2 ^ ?n" using c(2) by simp
  finally show "2 ^ 63 \<le> unat (push_bit ?n v)" unfolding e .
qed

section \<open>The value of an encoding\<close>

definition fpMag :: "fp_un \<Rightarrow> rat" where
  "fpMag u = of_nat (unat (unM u)) * 2 powi (unE u - 63)"

definition fpVal :: "fp_un \<Rightarrow> rat" where
  "fpVal u = (if unS u then - fpMag u else fpMag u)"

definition fpFinite :: "fp_un \<Rightarrow> bool" where
  "fpFinite u \<longleftrightarrow> unC u = CZero \<or> unC u = CFin"

definition expField :: "u64 \<Rightarrow> nat" where
  "expField f = unat f div 2 ^ 52 mod 2 ^ 11"

definition fracField :: "u64 \<Rightarrow> nat" where
  "fracField f = unat f mod 2 ^ 52"

lemma field_words:
  "unat (f AND 0x000FFFFFFFFFFFFF) = fracField f"
  "unat (ucast (drop_bit 52 f) AND 0x7FF :: u32) = expField f"
  "drop_bit 63 (f :: u64) \<noteq> 0 \<longleftrightarrow> 2 ^ 63 \<le> unat f"
proof -
  have m: "(0x000FFFFFFFFFFFFF :: u64) = mask 52" "(0x7FF :: u32) = mask 11" by (simp_all add: mask_eq_exp_minus_1)
  show "unat (f AND 0x000FFFFFFFFFFFFF) = fracField f" unfolding m unat_and_mask fracField_def by simp
  have len32: "LENGTH(32) = 32" by simp
  have "unat (drop_bit 52 f) < 2 ^ 32" using unat64_less [of f] by (simp add: unat_drop_bit)
  then have "unat (ucast (drop_bit 52 f) :: u32) = unat f div 2 ^ 52"
    by (simp only: unsigned_ucast_eq take_bit_nat_eq_self len32 unat_drop_bit)
  then show "unat (ucast (drop_bit 52 f) AND 0x7FF :: u32) = expField f"
    unfolding m unat_and_mask expField_def by simp
  show "drop_bit 63 f \<noteq> 0 \<longleftrightarrow> 2 ^ 63 \<le> unat f" by (rule drop_bit_nonzero)
qed

lemma field_bounds: "fracField f < 2 ^ 52" "expField f < 2 ^ 11"
  by (simp_all add: fracField_def expField_def)

lemma unpack_eq:
  "unpack f = (let s = 2 ^ 63 \<le> unat f; frac = f AND 0x000FFFFFFFFFFFFF in
     if expField f = 2047
     then \<lparr>unC = (if fracField f = 0 then CInf else if 2 ^ 51 \<le> fracField f then CQNaN else CSNaN),
           unS = s, unE = 0, unM = 0\<rparr>
     else if expField f = 0 then
       (if fracField f = 0 then \<lparr>unC = CZero, unS = s, unE = 0, unM = 0\<rparr>
        else let lz = countl_zero64 frac in
          \<lparr>unC = CFin, unS = s, unE = (63 - int lz) - 1074, unM = push_bit lz frac\<rparr>)
     else \<lparr>unC = CFin, unS = s, unE = int (expField f) - 1023, unM = push_bit 11 (frac OR push_bit 52 1)\<rparr>)"
proof -
  let ?e = "ucast (drop_bit 52 f) AND 0x7FF :: u32" and ?m = "f AND 0x000FFFFFFFFFFFFF"
  have e: "unat ?e = expField f" and m: "unat ?m = fracField f" by (rule field_words)+
  have c: "?e = 0x7FF \<longleftrightarrow> expField f = 2047" "?e = 0 \<longleftrightarrow> expField f = 0" "?m = 0 \<longleftrightarrow> fracField f = 0"
    "drop_bit 51 ?m \<noteq> 0 \<longleftrightarrow> 2 ^ 51 \<le> fracField f"
    using e m drop_bit_nonzero [of 51 ?m] by (auto simp only: word_unat_eq_iff) simp_all
  show ?thesis unfolding unpack_def Let_def by (simp only: c e field_words(3))
qed

lemma powi_split: "(2 :: rat) powi (i + j) = 2 powi i * 2 powi j"
  by (simp add: power_int_add)

lemma powi_nat: "(2 :: rat) ^ n = 2 powi int n"
  by (simp add: power_int_of_nat)

text \<open>Joining a low field and a shifted high field is addition.\<close>

lemma unat_or_fields:
  fixes lo hi :: u64
  assumes "unat lo < 2 ^ n"
  shows "unat (lo OR push_bit n hi) = unat lo + unat (push_bit n hi)" "unat (push_bit n hi OR lo) = unat lo + unat (push_bit n hi)"
proof -
  have "take_bit n (unat lo) = unat lo" using assms by (simp add: take_bit_nat_eq_self)
  then have lo: "\<not> bit (unat lo) k" if "n \<le> k" for k using that by (metis bit_take_bit_iff not_less)
  have "\<not> bit (unat (push_bit n hi)) k" if "k < n" for k using that by (simp add: bit_unsigned_iff bit_push_bit_iff)
  then have "unat lo OR unat (push_bit n hi) = unat lo + unat (push_bit n hi)"
    using lo by (intro disjunctive_add [symmetric]) (meson not_less)
  then show "unat (lo OR push_bit n hi) = unat lo + unat (push_bit n hi)" by (simp only: unsigned_or_eq)
  then show "unat (push_bit n hi OR lo) = unat lo + unat (push_bit n hi)" by (simp only: or.commute)
qed

lemma hidden_bit: "fracField f = unat (f AND 0x000FFFFFFFFFFFFF)"
  "unat ((f AND 0x000FFFFFFFFFFFFF) OR push_bit 52 1 :: u64) = fracField f + 2 ^ 52"
proof -
  let ?m = "f AND 0x000FFFFFFFFFFFFF"
  show m: "fracField f = unat ?m" by (simp only: field_words(1))
  have "unat ?m < 2 ^ 52" using m field_bounds(1) [of f] by simp
  from unat_or_fields(1) [OF this, of 1] push_bit_unat [of 1 52] m
  show "unat (?m OR push_bit 52 1) = fracField f + 2 ^ 52" by simp
qed

text \<open>The normal form: the leading one in bit 63, the exponent in the double range.\<close>

lemma unpack_range:
  assumes "unC (unpack f) = CFin"
  shows "2 ^ 63 \<le> unat (unM (unpack f))" "2 ^ 11 dvd unat (unM (unpack f))"
    "-1074 \<le> unE (unpack f)" "unE (unpack f) \<le> 1023"
proof -
  let ?m = "f AND 0x000FFFFFFFFFFFFF"
  have "2 ^ 63 \<le> unat (unM (unpack f)) \<and> 2 ^ 11 dvd unat (unM (unpack f)) \<and>
    -1074 \<le> unE (unpack f) \<and> unE (unpack f) \<le> 1023"
  proof (cases "expField f = 0")
    case True
    then have F: "fracField f \<noteq> 0" "?m \<noteq> 0" using assms hidden_bit(1) [of f] by (auto simp: unpack_eq Let_def split: if_splits)
    note c = countl_zero64_bounds [OF F(2)] and n = normalize64 [OF F(2)]
    have u: "unM (unpack f) = push_bit (countl_zero64 ?m) ?m" "unE (unpack f) = (63 - int (countl_zero64 ?m)) - 1074"
      using True F(1) by (simp_all add: unpack_eq Let_def)
    have "(2 :: nat) ^ (63 - countl_zero64 ?m) < 2 ^ 52"
      using c(2) field_bounds(1) [of f] unfolding hidden_bit(1) by linarith
    then have l: "63 - countl_zero64 ?m < 52" by (rule power_less_imp_less_exp [rotated]) simp
    then have "(2 :: nat) ^ 11 dvd 2 ^ countl_zero64 ?m" by (intro le_imp_power_dvd) simp
    then show ?thesis using n c(1) l unfolding u n(1) by (auto intro: dvd_mult)
  next
    case False
    let ?w = "?m OR push_bit 52 1"
    have e: "expField f \<noteq> 2047" "expField f < 2 ^ 11" using assms field_bounds(2) [of f] by (auto simp: unpack_eq Let_def split: if_splits)
    have u: "unM (unpack f) = push_bit 11 ?w" "unE (unpack f) = int (expField f) - 1023"
      using False e(1) by (simp_all add: unpack_eq Let_def)
    have "unat (push_bit 11 ?w) = (fracField f + 2 ^ 52) * 2 ^ 11"
      using push_bit_unat [of ?w 11] field_bounds(1) [of f] unfolding hidden_bit(2) by simp
    then show ?thesis using False e unfolding u by simp
  qed
  then show "2 ^ 63 \<le> unat (unM (unpack f))" "2 ^ 11 dvd unat (unM (unpack f))"
    "-1074 \<le> unE (unpack f)" "unE (unpack f) \<le> 1023" by simp_all
qed

lemma unpack_mag:
  assumes "expField f \<noteq> 2047"
  shows "fpMag (unpack f) = (if expField f = 0 then of_nat (fracField f) * 2 powi (- 1074)
    else of_nat (fracField f + 2 ^ 52) * 2 powi (int (expField f) - 1075))"
proof -
  let ?m = "f AND 0x000FFFFFFFFFFFFF"
  show ?thesis
  proof (cases "expField f = 0")
    case True
    show ?thesis
    proof (cases "fracField f = 0")
      case False
      then have F: "?m \<noteq> 0" using hidden_bit(1) [of f] by auto
      note n = normalize64(1) [OF F]
      let ?c = "countl_zero64 ?m"
      have "fpMag (unpack f) = of_nat (unat ?m * 2 ^ ?c) * 2 powi (- 1074 - int ?c)"
      proof -
        have u: "unM (unpack f) = push_bit ?c ?m" "unE (unpack f) - 63 = - 1074 - int ?c"
          using True False by (simp_all add: unpack_eq Let_def)
        show ?thesis unfolding fpMag_def u n ..
      qed
      also have "\<dots> = of_nat (unat ?m) * (2 powi int ?c * 2 powi (- 1074 - int ?c))"
        by (simp only: of_nat_mult of_nat_power of_nat_numeral powi_nat mult.assoc)
      also have "\<dots> = of_nat (unat ?m) * 2 powi (- 1074)" by (simp only: powi_split [symmetric]) simp
      finally show ?thesis using True by (simp add: hidden_bit(1))
    qed (use True in \<open>simp add: fpMag_def unpack_eq Let_def\<close>)
  next
    case False
    let ?w = "?m OR push_bit 52 1"
    have "unat (push_bit 11 ?w) = (fracField f + 2 ^ 52) * 2 ^ 11"
      using push_bit_unat [of ?w 11] field_bounds(1) [of f] unfolding hidden_bit(2) by simp
    then have "fpMag (unpack f) = of_nat ((fracField f + 2 ^ 52) * 2 ^ 11) * 2 powi (int (expField f) - 1086)"
    proof -
      assume w: "unat (push_bit 11 ?w) = (fracField f + 2 ^ 52) * 2 ^ 11"
      have u: "unM (unpack f) = push_bit 11 ?w" "unE (unpack f) - 63 = int (expField f) - 1086"
        using False assms by (simp_all add: unpack_eq Let_def)
      show ?thesis unfolding fpMag_def u w ..
    qed
    also have "\<dots> = of_nat (fracField f + 2 ^ 52) * (2 powi 11 * 2 powi (int (expField f) - 1086))"
      by (simp only: of_nat_mult of_nat_power of_nat_numeral mult.assoc) simp
    also have "\<dots> = of_nat (fracField f + 2 ^ 52) * 2 powi (int (expField f) - 1075)"
      by (simp only: powi_split [symmetric]) simp
    finally show ?thesis using False by simp
  qed
qed

definition encode :: "bool \<Rightarrow> u64 \<Rightarrow> u64 \<Rightarrow> u64" where
  "encode neg e m = (if neg then kSignBit else 0) OR push_bit 52 e OR m"

lemma encode_fields:
  assumes "unat e < 2 ^ 11" "unat m < 2 ^ 52"
  shows "expField (encode neg e m) = unat e" "fracField (encode neg e m) = unat m" "2 ^ 63 \<le> unat (encode neg e m) \<longleftrightarrow> neg"
proof -
  have "unat e * 2 ^ 52 < 2 ^ 64" using assms(1) by simp
  then have u: "unat (push_bit 52 e OR m) = unat m + unat e * 2 ^ 52"
    unfolding unat_or_fields(2) [OF assms(2)] by (simp only: push_bit_unat)
  have l: "unat m + unat e * 2 ^ 52 < 2 ^ 63" using assms by simp
  have k: "(if neg then kSignBit else 0) = push_bit 63 (if neg then 1 else 0 :: u64)" by (simp add: push_bit_eq_mult)
  have "unat (push_bit 63 (if neg then 1 else 0 :: u64)) = (if neg then 2 ^ 63 else 0)"
    using push_bit_unat [of 1 63] by (simp only: push_bit_of_0 unsigned_0 split: if_split) simp
  then have f: "unat (encode neg e m) = unat m + unat e * 2 ^ 52 + (if neg then 2 ^ 63 else 0)"
    unfolding encode_def k using unat_or_fields(2) [of "push_bit 52 e OR m" 63 "if neg then 1 else 0"] l u by simp
  have "(unat m + unat e * 2 ^ 52 + (if neg then 2 ^ 63 else 0)) div 2 ^ 52 = unat e + (if neg then 2 ^ 11 else 0)"
    using assms(2) by (cases neg) auto
  then show "expField (encode neg e m) = unat e" using assms(1) by (simp add: expField_def f)
  have "(unat m + unat e * 2 ^ 52 + (if neg then 2 ^ 63 else 0)) mod 2 ^ 52 = unat m"
  proof -
    have "unat m + unat e * 2 ^ 52 + (if neg then 2 ^ 63 else 0) = unat m + (unat e + (if neg then 2 ^ 11 else 0)) * 2 ^ 52"
      by (cases neg) simp_all
    then show ?thesis using assms(2) by (simp only: mod_mult_self1 mod_less)
  qed
  then show "fracField (encode neg e m) = unat m" by (simp only: fracField_def f)
  show "2 ^ 63 \<le> unat (encode neg e m) \<longleftrightarrow> neg" using l f by (cases neg) auto
qed

lemma unpack_encode:
  assumes "unat e < 2047" "unat m < 2 ^ 52"
  shows "fpFinite (unpack (encode neg e m))" "unS (unpack (encode neg e m)) = neg"
    "fpMag (unpack (encode neg e m)) = (if unat e = 0 then of_nat (unat m) * 2 powi (- 1074)
       else of_nat (unat m + 2 ^ 52) * 2 powi (int (unat e) - 1075))"
proof -
  have e: "unat e < 2 ^ 11" "unat e \<noteq> 2047" using assms(1) by simp_all
  note f = encode_fields [OF e(1) assms(2), of neg]
  show "fpFinite (unpack (encode neg e m))" "unS (unpack (encode neg e m)) = neg"
    using f e(2) by (auto simp: unpack_eq Let_def fpFinite_def)
  show "fpMag (unpack (encode neg e m)) = (if unat e = 0 then of_nat (unat m) * 2 powi (- 1074)
       else of_nat (unat m + 2 ^ 52) * 2 powi (int (unat e) - 1075))"
    using unpack_mag [of "encode neg e m"] e(2) unfolding f by simp
qed

text \<open>Packing a normalised significand is exact when the bits it drops are zero.\<close>

lemma packExact_value:
  assumes "2 ^ 63 \<le> unat nsig" "-1074 \<le> vexp" "vexp \<le> 1023"
    and "2 ^ nat (if vexp < -1022 then -1011 - vexp else 11) dvd unat nsig"
  shows "fpFinite (unpack (packExact neg vexp nsig))" "unS (unpack (packExact neg vexp nsig)) = neg"
    "fpMag (unpack (packExact neg vexp nsig)) = of_nat (unat nsig) * 2 powi (vexp - 63)"
proof -
  let ?r = "packExact neg vexp nsig"
  have "fpFinite (unpack ?r) \<and> unS (unpack ?r) = neg \<and> fpMag (unpack ?r) = of_nat (unat nsig) * 2 powi (vexp - 63)"
  proof (cases "vexp < -1022")
    case True
    let ?sh = "nat (-1011 - vexp)"
    have sh: "11 < ?sh" "?sh < 64" using True assms(2) by auto
    obtain k where k: "unat nsig = k * 2 ^ ?sh" using assms(4) True by (auto elim: dvdE simp: mult.commute)
    have d: "unat (drop_bit ?sh nsig) = k" by (simp add: unat_drop_bit k)
    have "2 ^ (64 - ?sh) * 2 ^ ?sh = (2 :: nat) ^ 64" using sh by (simp add: power_add [symmetric])
    then have "k * 2 ^ ?sh < 2 ^ (64 - ?sh) * 2 ^ ?sh" using unat64_less [of nsig] k by simp
    then have "k < 2 ^ (64 - ?sh)" by simp
    also have "\<dots> \<le> 2 ^ 52" using sh by (intro power_increasing) auto
    finally have kb: "unat (drop_bit ?sh nsig) < 2 ^ 52" by (simp only: d)
    have r: "?r = encode neg 0 (drop_bit ?sh nsig)" using True sh by (simp add: packExact_def encode_def)
    have "of_nat (unat nsig) * 2 powi (vexp - 63) = of_nat k * (2 powi int ?sh * 2 powi (vexp - 63) :: rat)"
      by (simp add: k powi_nat)
    also have "\<dots> = of_nat k * 2 powi (- 1074)" using True by (simp only: powi_split [symmetric]) simp
    finally show ?thesis using unpack_encode [of 0 "drop_bit ?sh nsig" neg] kb d unfolding r by simp
  next
    case False
    let ?e = "word_of_int (vexp + 1023) :: u64" and ?m = "drop_bit 12 (push_bit 1 nsig)"
    obtain k where k: "unat nsig = k * 2 ^ 11" using assms(4) False by (auto elim: dvdE simp: mult.commute)
    have kb: "2 ^ 52 \<le> k" "k < 2 ^ 53" using assms(1) unat64_less [of nsig] by (simp_all add: k)
    obtain n where n: "vexp + 1023 = int n" "n < 2047" "n \<noteq> 0" using False assms(3) by (cases "vexp + 1023") auto
    then have "unat ?e = n" unfolding n(1) by (simp add: unat_of_nat)
    then have e0: "unat ?e = nat (vexp + 1023)" by (simp add: n(1))
    then have e: "unat ?e = nat (vexp + 1023)" "unat ?e < 2047" "unat ?e \<noteq> 0" using False assms(3) by auto
    have "unat nsig mod 2 ^ 63 = unat nsig - 2 ^ 63"
      using assms(1) unat64_less [of nsig] by (simp add: mod_nat_eqI)
    then have m: "unat ?m = k - 2 ^ 52"
      using push_bit_mod [of 1 nsig] kb by (simp add: unat_drop_bit k diff_mult_distrib) 
    have r: "?r = encode neg ?e ?m" using False by (simp add: packExact_def encode_def)
    have "of_nat (unat nsig) * 2 powi (vexp - 63) = of_nat k * (2 powi 11 * 2 powi (vexp - 63) :: rat)"
      by (simp add: k)
    also have "\<dots> = of_nat k * 2 powi (vexp - 52)" by (simp only: powi_split [symmetric]) simp
    finally show ?thesis using unpack_encode [of ?e ?m neg] e m kb unfolding r by (simp add: of_nat_diff)
  qed
  then show "fpFinite (unpack ?r)" "unS (unpack ?r) = neg" "fpMag (unpack ?r) = of_nat (unat nsig) * 2 powi (vexp - 63)"
    by simp_all
qed

section \<open>Rounding\<close>

text \<open>
  Reference rounding of a magnitude to an integer in the PowerPC modes 0 (nearest, ties to even),
  1 (toward zero), 2 (toward plus infinity) and 3 (toward minus infinity).
\<close>

definition roundMag :: "u32 \<Rightarrow> bool \<Rightarrow> rat \<Rightarrow> int" where
  "roundMag rn neg x =
     (let n = \<lfloor>x\<rfloor>; f = x - of_int n;
          up = (if rn = 0 then 1 / 2 < f \<or> (f = 1 / 2 \<and> odd n)
                else if rn = 1 then False
                else if rn = 2 then \<not> neg \<and> f \<noteq> 0
                else neg \<and> f \<noteq> 0)
      in if up then n + 1 else n)"

text \<open>The spacing of the format's numbers at exponent \<open>e\<close>, and rounding onto them.\<close>

definition quantum :: "fp_tgt \<Rightarrow> int \<Rightarrow> rat" where
  "quantum t e = 2 powi (max e (fmtEmin t) - (int (fmtP t) - 1))"

definition roundTo :: "fp_tgt \<Rightarrow> u32 \<Rightarrow> bool \<Rightarrow> int \<Rightarrow> rat \<Rightarrow> rat" where
  "roundTo t rn neg e x = of_int (roundMag rn neg (x / quantum t e)) * quantum t e"

lemma fmt_cases: "t = Sgl \<and> fmtP t = 24 \<and> fmtEmin t = -126 \<and> fmtEmax t = 127 \<or>
    t = Dbl \<and> fmtP t = 53 \<and> fmtEmin t = -1022 \<and> fmtEmax t = 1023"
  by (cases t) (simp_all add: fmtP_def fmtEmin_def fmtEmax_def)

lemma rn_cases: "envRn env < 4 \<Longrightarrow> envRn env = 0 \<or> envRn env = 1 \<or> envRn env = 2 \<or> envRn env = (3 :: u32)"
proof -
  assume "envRn env < 4"
  then have "unat (envRn env) < 4" by (simp add: word_less_nat_alt)
  then consider "unat (envRn env) = 0" | "unat (envRn env) = 1" | "unat (envRn env) = 2" | "unat (envRn env) = 3" by linarith
  then show ?thesis by cases (simp_all add: word_unat_eq_iff)
qed

text \<open>
  The exact significand is \<open>S + th\<close>: the tail \<open>th\<close> may reach into the word's lowest bits where those
  are clear, but not past the ninth, which no format keeps.
\<close>

definition fits :: "nat \<Rightarrow> rat \<Rightarrow> bool" where
  "fits S th \<longleftrightarrow> 0 \<le> th \<and> of_nat (S mod 2 ^ 9) + th < 2 ^ 9"

lemma fits_small: "0 \<le> th \<Longrightarrow> th < 1 \<Longrightarrow> fits S th"
proof -
  assume "0 \<le> th" "th < 1"
  moreover have "S mod 2 ^ 9 + 1 \<le> 2 ^ 9" by (simp add: Suc_leI)
  then have "of_nat (S mod 2 ^ 9 + 1) \<le> (of_nat (2 ^ 9) :: rat)" by (simp only: of_nat_le_iff)
  then have "of_nat (S mod 2 ^ 9) + 1 \<le> (2 ^ 9 :: rat)" by (simp only: of_nat_add of_nat_1 of_nat_power of_nat_numeral)
  ultimately show ?thesis unfolding fits_def by linarith
qed

lemma fits_above:
  assumes "fits S th" "9 \<le> v"
  shows "of_nat (S mod 2 ^ v) + th < 2 ^ v"
proof -
  define m where "m = S div 2 ^ 9 mod 2 ^ (v - 9)"
  have p: "(2 :: nat) ^ v = 2 ^ 9 * 2 ^ (v - 9)" using assms(2) by (simp only: power_add [symmetric] le_add_diff_inverse)
  have "S mod 2 ^ v = 2 ^ 9 * m + S mod 2 ^ 9" unfolding p mod_mult2_eq m_def ..
  then have s: "(of_nat (S mod 2 ^ v) :: rat) = 2 ^ 9 * of_nat m + of_nat (S mod 2 ^ 9)"
    by (simp only: of_nat_add of_nat_mult of_nat_power of_nat_numeral)
  have "m + 1 \<le> 2 ^ (v - 9)" by (simp add: m_def Suc_leI)
  then have "2 ^ 9 * (m + 1) \<le> 2 ^ v" unfolding p by (intro mult_le_mono2)
  then have "of_nat (2 ^ 9 * (m + 1)) \<le> (of_nat (2 ^ v) :: rat)" by (simp only: of_nat_le_iff)
  then have "2 ^ 9 * of_nat m + 2 ^ 9 \<le> (2 ^ v :: rat)"
    by (simp only: of_nat_mult of_nat_add of_nat_power of_nat_numeral of_nat_1 distrib_left mult_1_right)
  then show ?thesis using assms(1) s unfolding fits_def by linarith
qed

text \<open>Guard, round and sticky bits decide the reference rounding.\<close>

lemma round_bits:
  fixes th :: rat and S w :: nat and rn :: u32 and neg :: bool
  assumes "rn = 0 \<or> rn = 1 \<or> rn = 2 \<or> rn = 3" "2 \<le> w" "0 \<le> th" "of_nat (S mod 2 ^ (w - 2)) + th < 2 ^ (w - 2)"
  defines "x \<equiv> (of_nat S + th) / 2 ^ w" and "inc \<equiv> roundInc rn neg (odd (S div 2 ^ w)) (odd (S div 2 ^ (w - 1)))
      (odd (S div 2 ^ (w - 2))) (th \<noteq> 0 \<or> S mod 2 ^ (w - 2) \<noteq> 0)"
  shows "roundMag rn neg x = int (S div 2 ^ w) + (if inc then 1 else 0)"
    "(odd (S div 2 ^ (w - 1)) \<or> odd (S div 2 ^ (w - 2)) \<or> th \<noteq> 0 \<or> S mod 2 ^ (w - 2) \<noteq> 0) \<longleftrightarrow> of_nat (S div 2 ^ w) \<noteq> x"
    "\<lfloor>x\<rfloor> = int (S div 2 ^ w)"
proof -
  obtain v where w: "w = v + 2" using assms(2) by (metis add.commute le_iff_add)
  let ?P = "2 ^ v :: nat"
  define q where "q = S div ?P"
  define l where "l = S mod ?P"
  have S: "S = q * ?P + l" and l: "l < ?P" by (simp_all only: q_def l_def div_mult_mod_eq) simp
  have P: "(2 :: nat) ^ w = ?P * 4" "2 ^ (w - 1) = ?P * 2" "w - 2 = v" by (simp_all add: w)
  have d: "S div 2 ^ w = q div 4" "S div 2 ^ (w - 1) = q div 2" "S div 2 ^ (w - 2) = q"
    by (simp_all only: P q_def div_mult2_eq)
  define n where "n = q div 4"
  define r where "r = q mod 4"
  have q: "q = 4 * n + r" by (simp only: n_def r_def mult_div_mod_eq)
  have "r < 4" by (simp add: r_def)
  then have r: "r = 0 \<or> r = 1 \<or> r = 2 \<or> r = 3" by arith
  have odd: "odd (q div 2) \<longleftrightarrow> r = 2 \<or> r = 3" "odd q \<longleftrightarrow> r = 1 \<or> r = 3"
    using r unfolding q by presburger+
  define f where "f = (of_nat r * of_nat ?P + (of_nat l + th)) / (4 * of_nat ?P :: rat)"
  have Pr: "0 < (of_nat ?P :: rat)" by simp
  have Pw: "(2 :: rat) ^ w = 4 * of_nat ?P" by (simp add: w)
  have x: "x = of_nat n + f" unfolding x_def f_def S q Pw using Pr by (simp add: field_simps)
  define e where "e = of_nat l + th"
  have e: "0 \<le> e" "e < of_nat ?P" "e = 0 \<longleftrightarrow> l = 0 \<and> th = 0" using assms(3,4) by (auto simp: e_def P(3) l_def)
  have r3: "of_nat r \<le> (3 :: rat)" using r by auto
  have f0: "0 \<le> f" using e(1) by (simp add: f_def e_def)
  have "of_nat r * of_nat ?P + e < 4 * of_nat ?P" using mult_right_mono [OF r3, of "of_nat ?P"] e(2) Pr by linarith
  then have f1: "f < 1" using Pr by (simp add: f_def e_def)
  have fl: "\<lfloor>x\<rfloor> = int n" unfolding x using f0 f1 by (simp add: floor_unique)
  have fr: "x - of_int (int n) = f" by (simp add: x)
  have half: "1 / 2 < f \<longleftrightarrow> r = 3 \<or> r = 2 \<and> e \<noteq> 0" "f = 1 / 2 \<longleftrightarrow> r = 2 \<and> e = 0" "f = 0 \<longleftrightarrow> r = 0 \<and> e = 0"
    using r e(1,2) Pr unfolding f_def e_def [symmetric] by (auto simp: field_simps)
  have st: "th \<noteq> 0 \<or> S mod 2 ^ (w - 2) \<noteq> 0 \<longleftrightarrow> e \<noteq> 0" using e(3) by (auto simp: P(3) l_def)
  show "\<lfloor>x\<rfloor> = int (S div 2 ^ w)" by (simp only: fl d n_def)
  show "(odd (S div 2 ^ (w - 1)) \<or> odd (S div 2 ^ (w - 2)) \<or> th \<noteq> 0 \<or> S mod 2 ^ (w - 2) \<noteq> 0) \<longleftrightarrow> of_nat (S div 2 ^ w) \<noteq> x"
    unfolding st d odd n_def [symmetric] x using half(3) r by auto
  show "roundMag rn neg x = int (S div 2 ^ w) + (if inc then 1 else 0)"
    unfolding roundMag_def Let_def fl fr half inc_def st d n_def [symmetric] odd roundInc_def
    using assms(1) r by auto
qed

text \<open>
  What a result must be for the exact magnitude \<open>x\<close>, whose leading bit is at \<open>e\<close>, with no
  exception enabled: the reference rounding with its inexact, fraction-rounded and underflow
  flags, or the default for overflow.
\<close>

definition overflowToInf :: "u32 \<Rightarrow> bool \<Rightarrow> bool" where
  "overflowToInf rn neg \<longleftrightarrow> rn = 0 \<or> (rn = 2 \<and> \<not> neg) \<or> (rn = 3 \<and> neg)"

definition rounds :: "fp_tgt \<Rightarrow> fp_env \<Rightarrow> bool \<Rightarrow> int \<Rightarrow> rat \<Rightarrow> u64 \<times> u32 \<Rightarrow> bool" where
  "rounds t env neg e x r \<longleftrightarrow> (case r of (bits, fl) \<Rightarrow>
     let y = roundTo t (envRn env) neg e x; u = unpack bits in
     if y < 2 powi (fmtEmax t + 1)
     then fpFinite u \<and> unS u = neg \<and> fpMag u = y \<and>
          fl = (if y \<noteq> x then kXx else 0) OR (if x < y then kFr else 0) OR (if e < fmtEmin t \<and> y \<noteq> x then kUx else 0)
     else if overflowToInf (envRn env) neg then bits = packInf neg \<and> fl = kOx OR kXx OR kFr
     else bits = (if neg then kSignBit else 0) OR (if t = Sgl then kMaxSglAsDbl else kMaxDbl) \<and> fl = kOx OR kXx)"

lemma roundTiny_step:
  fixes th :: rat
  assumes "\<not> envUe env" "ex < fmtEmin t" "fits (unat sig) th" "sticky \<longleftrightarrow> th \<noteq> 0"
    and "roundTiny ex sig sticky env t fl = (e1, sig1, sticky1, fl1)"
  shows "e1 = fmtEmin t" "fl1 = fl" "unat sig1 < 2 ^ 63"
    "\<exists>th1. fits (unat sig1) th1 \<and> (sticky1 \<longleftrightarrow> th1 \<noteq> 0) \<and>
      (of_nat (unat sig) + th) * 2 powi (ex - 63) = (of_nat (unat sig1) + th1) * 2 powi (e1 - 63)"
proof -
  let ?sh = "nat (fmtEmin t - ex)"
  have sh: "0 < ?sh" using assms(2) by simp
  have s1: "e1 = fmtEmin t" "fl1 = fl" "unat sig1 = unat sig div 2 ^ ?sh" "sticky1 \<longleftrightarrow> sticky \<or> unat sig mod 2 ^ ?sh \<noteq> 0"
  proof -
    have big: "unat sig < 2 ^ ?sh" if "64 \<le> ?sh"
      using unat64_less [of sig] power_increasing [OF that, of "2 :: nat"] by linarith
    show "e1 = fmtEmin t" "fl1 = fl" using assms(1,5) by (auto simp: roundTiny_def Let_def split: if_splits)
    show "unat sig1 = unat sig div 2 ^ ?sh"
      using assms(1,5) sh big by (auto simp: roundTiny_def Let_def unat_drop_bit split: if_splits)
    have "sticky1 \<longleftrightarrow> sticky \<or> (if 64 \<le> ?sh then sig \<noteq> 0 else push_bit (64 - ?sh) sig \<noteq> 0)"
      using assms(1,5) sh by (auto simp: roundTiny_def Let_def split: if_splits)
    then show "sticky1 \<longleftrightarrow> sticky \<or> unat sig mod 2 ^ ?sh \<noteq> 0"
      using big lost_bits [of ?sh sig] by (cases "64 \<le> ?sh") (simp_all add: unat_eq_0)
  qed
  then show "e1 = fmtEmin t" "fl1 = fl" by simp_all
  have "unat sig div 2 ^ ?sh \<le> unat sig div 2 ^ 1" using sh by (intro div_le_mono2 power_increasing) auto
  then show "unat sig1 < 2 ^ 63" using s1(3) unat64_less [of sig] by simp
  let ?q = "unat sig div 2 ^ ?sh" and ?r = "unat sig mod 2 ^ ?sh"
  let ?th = "(of_nat ?r + th) / 2 ^ ?sh"
  have th0: "0 \<le> th" using assms(3) by (simp add: fits_def)
  have "unat sig mod 2 ^ (?sh + 9) = 2 ^ ?sh * (?q mod 2 ^ 9) + ?r" unfolding power_add mod_mult2_eq ..
  then have "(of_nat (unat sig mod 2 ^ (?sh + 9)) :: rat) = 2 ^ ?sh * of_nat (?q mod 2 ^ 9) + of_nat ?r"
    by (simp only: of_nat_add of_nat_mult of_nat_power of_nat_numeral)
  moreover have "2 ^ ?sh * ?th = of_nat ?r + th" by simp
  ultimately have "2 ^ ?sh * (of_nat (?q mod 2 ^ 9) + ?th) = of_nat (unat sig mod 2 ^ (?sh + 9)) + th"
    unfolding distrib_left by linarith
  also have "\<dots> < 2 ^ ?sh * 2 ^ 9" using fits_above [OF assms(3), of "?sh + 9"] by (simp add: power_add)
  finally have "of_nat (?q mod 2 ^ 9) + ?th < 2 ^ 9" by simp
  then have "fits (unat sig1) ?th" using th0 by (simp add: fits_def s1(3))
  have "(of_nat ?q + ?th) * 2 ^ ?sh = of_nat (?q * 2 ^ ?sh + ?r) + th"
    unfolding distrib_right [of _ ?th] by simp
  also have "\<dots> = of_nat (unat sig) + th" by (simp only: div_mult_mod_eq)
  finally have "of_nat (unat sig) + th = (of_nat ?q + ?th) * 2 ^ ?sh" ..
  moreover have "(2 :: rat) ^ ?sh * 2 powi (ex - 63) = 2 powi (e1 - 63)"
    using assms(2) s1(1) unfolding powi_nat powi_split [symmetric] by simp
  ultimately have "(of_nat (unat sig) + th) * 2 powi (ex - 63) = (of_nat (unat sig1) + ?th) * 2 powi (e1 - 63)"
    by (simp only: s1(3) mult.assoc)
  moreover have "?th \<noteq> 0 \<longleftrightarrow> sticky1"
    using assms(4) th0 s1(4) by (auto simp: add_nonneg_eq_0_iff)
  ultimately show "\<exists>th1. fits (unat sig1) th1 \<and> (sticky1 \<longleftrightarrow> th1 \<noteq> 0) \<and>
      (of_nat (unat sig) + th) * 2 powi (ex - 63) = (of_nat (unat sig1) + th1) * 2 powi (e1 - 63)" using \<open>fits (unat sig1) ?th\<close> by blast
qed

lemma roundDeliver_value:
  fixes neg :: bool
  assumes "kept \<noteq> 0" "unat kept < 2 ^ fmtP t" "\<not> envNi env" "fmtEmin t \<le> ex" "ex \<le> fmtEmax t"
  defines "u \<equiv> unpack (roundDeliver neg ex kept env t)"
  shows "fpFinite u" "unS u = neg" "fpMag u = of_nat (unat kept) * 2 powi (ex - (int (fmtP t) - 1))"
proof -
  let ?c = "countl_zero64 kept" and ?p = "fmtP t"
  note c = countl_zero64_bounds [OF assms(1)] and n = normalize64 [OF assms(1)]
  have "(2 :: nat) ^ (63 - ?c) < 2 ^ ?p" using c(2) assms(2) by linarith
  then have l: "63 - ?c < ?p" by (rule power_less_imp_less_exp [rotated]) simp
  define vexp where "vexp = ex - (int ?p - 1) + (63 - int ?c)"
  have v: "vexp \<le> 1023" "-1074 \<le> vexp" "nat (if vexp < -1022 then -1011 - vexp else 11) \<le> ?c"
    using l c(1) assms(4,5) fmt_cases [of t] by (auto simp: vexp_def)
  have "2 ^ nat (if vexp < -1022 then -1011 - vexp else 11) dvd unat (push_bit ?c kept)"
    unfolding n(1) by (intro dvd_mult le_imp_power_dvd v(3))
  note pe = packExact_value [OF n(2) v(2,1) this, of neg]
  have u: "u = unpack (packExact neg vexp (push_bit ?c kept))"
    using assms(1,3) by (simp add: u_def roundDeliver_def vexp_def Let_def)
  show "fpFinite u" "unS u = neg" unfolding u by (rule pe)+
  have "of_nat (unat kept * 2 ^ ?c) * 2 powi (vexp - 63) = of_nat (unat kept) * (2 powi int ?c * 2 powi (vexp - 63) :: rat)"
    by (simp only: of_nat_mult of_nat_power of_nat_numeral powi_nat mult.assoc)
  also have "\<dots> = of_nat (unat kept) * 2 powi (ex - (int ?p - 1))"
  proof -
    have "int ?c + (vexp - 63) = ex - (int ?p - 1)" by (simp add: vexp_def)
    then show ?thesis by (simp only: powi_split [symmetric])
  qed
  finally show "fpMag u = of_nat (unat kept) * 2 powi (ex - (int (fmtP t) - 1))" unfolding u pe(3) n(1) .
qed

text \<open>The kept bits and the exponent after the carry out of the increment.\<close>

definition renorm :: "nat \<Rightarrow> u64 \<Rightarrow> int \<Rightarrow> u64 \<times> int" where
  "renorm p kept ex = (if drop_bit p kept \<noteq> 0 then (drop_bit 1 kept, ex + 1) else (kept, ex))"

lemma renorm_value:
  assumes "unat k0 \<le> 2 ^ p" "0 < p" "renorm p k0 ex = (k, e2)"
  shows "unat k < 2 ^ p" "of_nat (unat k) * 2 powi (e2 - (int p - 1)) = (of_nat (unat k0) * 2 powi (ex - (int p - 1)) :: rat)"
    "e2 = (if unat k0 = 2 ^ p then ex + 1 else ex)" "k = 0 \<longleftrightarrow> k0 = 0"
proof -
  have "unat k < 2 ^ p \<and> of_nat (unat k) * 2 powi (e2 - (int p - 1)) = (of_nat (unat k0) * 2 powi (ex - (int p - 1)) :: rat) \<and>
    e2 = (if unat k0 = 2 ^ p then ex + 1 else ex) \<and> (k = 0 \<longleftrightarrow> k0 = 0)"
  proof (cases "unat k0 = 2 ^ p")
    case True
    then have k: "k = drop_bit 1 k0" "e2 = ex + 1" using assms(3) by (auto simp: renorm_def drop_bit_nonzero)
    have u: "unat k0 = 2 * unat k" "unat k < 2 ^ p" "0 < unat k"
      using True assms(2) unfolding k(1) by (cases p; simp add: unat_drop_bit)+
    have "k \<noteq> 0" "k0 \<noteq> 0" using u by (auto simp: unat_eq_0 [symmetric])
    moreover have "(2 :: rat) powi (ex + 1 - (int p - 1)) = 2 * 2 powi (ex - (int p - 1))"
      using powi_split [of 1 "ex - (int p - 1)"] by (simp add: algebra_simps)
    moreover have "of_nat (unat k0) = 2 * (of_nat (unat k) :: rat)" by (simp only: u(1) of_nat_mult of_nat_numeral)
    ultimately show ?thesis using True u(2) k(2) by (simp only: if_True mult.assoc mult.left_commute) simp
  next
    case False
    then have "unat k0 < 2 ^ p" using assms(1) by simp
    moreover from this have "k = k0" "e2 = ex" using assms(3) by (simp_all add: renorm_def drop_bit_nonzero not_le)
    ultimately show ?thesis using False by simp
  qed
  then show "unat k < 2 ^ p" "of_nat (unat k) * 2 powi (e2 - (int p - 1)) = (of_nat (unat k0) * 2 powi (ex - (int p - 1)) :: rat)"
    "e2 = (if unat k0 = 2 ^ p then ex + 1 else ex)" "k = 0 \<longleftrightarrow> k0 = 0" by blast+
qed

text \<open>The end of \<^verbatim>\<open>roundPack\<close> from the significand on the format's grid, \<open>n + inc\<close> units of its quantum.\<close>

definition roundEnd :: "bool \<Rightarrow> bool \<Rightarrow> int \<Rightarrow> u64 \<Rightarrow> bool \<Rightarrow> bool \<Rightarrow> fp_env \<Rightarrow> fp_tgt \<Rightarrow> u64 \<times> u32" where
  "roundEnd neg tiny ex n inx inc env t =
     (let (k, e2) = renorm (fmtP t) (n + (if inc then 1 else 0)) ex;
          fl = (if inx then kXx else 0) OR (if inc then kFr else 0) OR (if tiny \<and> inx then kUx else 0)
      in if \<not> tiny \<and> fmtEmax t < e2 then roundOverflow neg env t (fl OR kOx) else (roundDeliver neg e2 k env t, fl))"

lemma powi_mono: "i \<le> j \<Longrightarrow> (2 :: rat) powi i \<le> 2 powi j"
  by (rule power_int_increasing) simp_all

lemma packZero_value: "fpFinite (unpack (packZero neg))" "unS (unpack (packZero neg)) = neg" "fpMag (unpack (packZero neg)) = 0"
  using unpack_encode [of 0 0 neg] by (simp_all add: packZero_def encode_def)

lemma roundEnd_rounds:
  fixes x :: rat and n :: u64 and t :: fp_tgt and e :: int and inc :: bool
  defines "q \<equiv> 2 powi (max e (fmtEmin t) - (int (fmtP t) - 1)) :: rat" and "m \<equiv> unat n + (if inc then 1 else 0)"
  assumes "roundMag (envRn env) neg (x / q) = int m" "inx \<longleftrightarrow> of_nat (unat n) \<noteq> x / q"
    and "of_nat (unat n) \<le> x / q" "x / q < of_nat (unat n) + 1" "inc \<longrightarrow> inx"
    and "unat n < 2 ^ fmtP t" "tiny \<longleftrightarrow> e < fmtEmin t" "tiny \<longrightarrow> unat n < 2 ^ (fmtP t - 1)" "\<not> tiny \<longrightarrow> 2 ^ (fmtP t - 1) \<le> unat n"
    and "\<not> envNi env"
  shows "rounds t env neg e x (roundEnd neg tiny (max e (fmtEmin t)) n inx inc env t)"
proof -
  let ?p = "fmtP t" and ?ex = "max e (fmtEmin t)" and ?k0 = "n + (if inc then 1 else 0)"
  have p: "1 < ?p" "?p \<le> 53" "fmtEmin t < fmtEmax t" using fmt_cases [of t] by auto
  have P53: "(2 :: nat) ^ ?p \<le> 2 ^ 53" using p(2) by (intro power_increasing) simp_all
  then have k0: "unat ?k0 = m" using assms(8) by (simp add: m_def unat_word_ariths)
  have m: "m \<le> 2 ^ ?p" using assms(8) by (simp add: m_def)
  obtain k e2 where r: "renorm ?p ?k0 ?ex = (k, e2)" by fastforce
  note rv = renorm_value [OF m [folded k0] _ r]
  have q: "0 < q" by (simp add: q_def)
  let ?y = "of_nat m * q"
  have y: "roundTo t (envRn env) neg e x = ?y" by (simp add: roundTo_def quantum_def q_def [symmetric] assms(3))
  have ne: "?y \<noteq> x \<longleftrightarrow> inx" and lt: "x < ?y \<longleftrightarrow> inc"
    using assms(4-7) q by (auto simp: m_def field_simps)
  have val: "of_nat (unat k) * 2 powi (e2 - (int ?p - 1)) = ?y" using rv(2) p(1) k0 by (simp add: q_def)
  have pow: "(2 :: rat) powi (?ex + int j - (int ?p - 1)) = 2 ^ j * q" for j
    using powi_split [of "int j" "?ex - (int ?p - 1)"] by (simp add: q_def algebra_simps power_int_of_nat)
  show ?thesis
  proof (cases "\<not> tiny \<and> fmtEmax t < e2")
    case True
    have "2 powi (fmtEmax t + 1) \<le> ?y"
    proof (cases "m = 2 ^ ?p")
      case True
      then have "?ex + 1 \<le> ?ex + int ?p - (int ?p - 1)" "fmtEmax t + 1 \<le> ?ex + int ?p - (int ?p - 1)"
        using \<open>\<not> tiny \<and> fmtEmax t < e2\<close> rv(3) p(1) k0 by auto
      then show ?thesis using powi_mono [of "fmtEmax t + 1" "?ex + int ?p - (int ?p - 1)"] unfolding pow True by simp
    next
      case False
      then have "fmtEmax t + 1 \<le> ?ex" using \<open>\<not> tiny \<and> fmtEmax t < e2\<close> rv(3) p(1) k0 by simp
      then have "2 powi (fmtEmax t + 1) \<le> (2 :: rat) powi (?ex + int (?p - 1) - (int ?p - 1))"
        using p(1) by (intro powi_mono) simp
      also have "\<dots> = of_nat (2 ^ (?p - 1)) * q" unfolding pow by simp
      also have "\<dots> \<le> ?y" using assms(11) True q unfolding of_nat_le_iff [symmetric, where 'a = rat] by (simp add: m_def)
      finally show ?thesis .
    qed
    then have big: "\<not> ?y < 2 powi (fmtEmax t + 1)" by simp
    have "roundEnd neg tiny ?ex n inx inc env t =
      roundOverflow neg env t (((if inx then kXx else 0) OR (if inc then kFr else 0)) OR kOx)"
      using True by (simp add: roundEnd_def r Let_def)
    also have "\<dots> = (if overflowToInf (envRn env) neg then (packInf neg, kOx OR kXx OR kFr)
       else ((if neg then kSignBit else 0) OR (if t = Sgl then kMaxSglAsDbl else kMaxDbl), kOx OR kXx))"
      by (simp add: roundOverflow_def overflowToInf_def Let_def)
    finally show ?thesis using big by (simp add: rounds_def y Let_def)
  next
    case False
    have "m < 2 ^ ?p" if tiny
    proof -
      have "m \<le> 2 ^ (?p - 1)" using assms(10) that by (simp add: m_def)
      also have "\<dots> < 2 ^ ?p" using p(1) by (intro power_strict_increasing) simp_all
      finally show ?thesis .
    qed
    then have e2: "fmtEmin t \<le> e2" "e2 \<le> fmtEmax t"
      using False rv(3) p assms(9) k0 by (auto split: if_splits)
    have "(2 :: rat) ^ ?p * 2 powi (e2 - (int ?p - 1)) = 2 powi (e2 + 1)"
      unfolding powi_nat powi_split [symmetric] by simp
    moreover have "of_nat (unat k) < (2 :: rat) ^ ?p" using rv(1) p(1) by (metis of_nat_less_iff of_nat_numeral of_nat_power zero_less_one order_less_trans)
    ultimately have "?y < 2 powi (e2 + 1)" using mult_strict_right_mono [of "of_nat (unat k)" "2 ^ ?p" "2 powi (e2 - (int ?p - 1)) :: rat"] val by simp
    also have "\<dots> \<le> 2 powi (fmtEmax t + 1)" using e2(2) by (intro powi_mono) simp
    finally have small: "?y < 2 powi (fmtEmax t + 1)" .
    let ?bits = "roundDeliver neg e2 k env t"
    have "fpFinite (unpack ?bits) \<and> unS (unpack ?bits) = neg \<and> fpMag (unpack ?bits) = ?y"
    proof (cases "k = 0")
      case True
      then show ?thesis using packZero_value [of neg] val by (simp add: roundDeliver_def)
    next
      case k: False
      show ?thesis using roundDeliver_value [OF k _ assms(12) e2, of neg] rv(1) p(1) val by simp
    qed
    moreover have "roundEnd neg tiny ?ex n inx inc env t =
        (?bits, (if inx then kXx else 0) OR (if inc then kFr else 0) OR (if tiny \<and> inx then kUx else 0))"
      unfolding roundEnd_def Let_def r prod.case by (simp only: False if_False)
    ultimately show ?thesis using small ne lt assms(9) by (simp add: rounds_def y Let_def)
  qed
qed

lemma roundPack_end:
  assumes "\<not> envOe env" "\<not> envUe env"
    and "(if ex < fmtEmin t then roundTiny ex sig0 sticky0 env t 0 else (ex, sig0, sticky0, 0)) = (e1, sig, sticky, 0)"
  defines "w \<equiv> 64 - fmtP t"
  defines "g \<equiv> odd (unat sig div 2 ^ (w - 1))" and "r \<equiv> odd (unat sig div 2 ^ (w - 2))"
    and "x \<equiv> sticky \<or> unat sig mod 2 ^ (w - 2) \<noteq> 0"
  shows "roundPack neg ex sig0 sticky0 env t 0 =
    roundEnd neg (ex < fmtEmin t) e1 (drop_bit w sig) (g \<or> r \<or> x)
      (roundInc (envRn env) neg (odd (unat sig div 2 ^ w)) g r x) env t"
proof -
  let ?p = "fmtP t"
  have w: "64 - ?p = w" "63 - ?p = w - 1" "62 - ?p = w - 2" "w - 2 < 64" using fmt_cases [of t] by (auto simp: w_def)
  have b: "drop_bit w sig AND 1 \<noteq> 0 \<longleftrightarrow> odd (unat sig div 2 ^ w)" "drop_bit (w - 1) sig AND 1 \<noteq> 0 \<longleftrightarrow> g"
    "drop_bit (w - 2) sig AND 1 \<noteq> 0 \<longleftrightarrow> r" "sticky \<or> sig AND (push_bit (w - 2) 1 - 1) \<noteq> 0 \<longleftrightarrow> x"
    using low_bits [OF w(4), of sig] unfolding g_def r_def x_def one_bit by simp_all
  let ?inc = "roundInc (envRn env) neg (odd (unat sig div 2 ^ w)) g r x"
  obtain k e2 where rn: "renorm ?p (drop_bit w sig + (if ?inc then 1 else 0)) e1 = (k, e2)" by fastforce
  have rn': "(if drop_bit ?p (drop_bit w sig + (if ?inc then 1 else 0)) \<noteq> 0
     then (drop_bit 1 (drop_bit w sig + (if ?inc then 1 else 0)), e1 + 1)
     else (drop_bit w sig + (if ?inc then 1 else 0), e1)) = (k, e2)"
    using rn by (simp only: renorm_def)
  show ?thesis
    unfolding roundPack_def roundEnd_def Let_def assms(3) prod.case w b rn rn'
    using assms(1,2) by (simp only: if_False simp_thms prod.case if_cancel) (auto simp: or.assoc)
qed

lemma roundPack_rounds:
  fixes th :: rat
  assumes "2 ^ 63 \<le> unat sig" "fits (unat sig) th" "sticky \<longleftrightarrow> th \<noteq> 0"
    and "envRn env < 4" "\<not> envOe env" "\<not> envUe env" "\<not> envNi env"
  shows "rounds t env neg ex ((of_nat (unat sig) + th) * 2 powi (ex - 63)) (roundPack neg ex sig sticky env t 0)"
proof -
  let ?p = "fmtP t" and ?x = "(of_nat (unat sig) + th) * 2 powi (ex - 63)" and ?tiny = "ex < fmtEmin t"
  let ?w = "64 - ?p" and ?E = "max ex (fmtEmin t)"
  have p: "1 < ?p" "?p \<le> 53" "2 \<le> ?w" "?w < 64" "9 \<le> ?w - 2" using fmt_cases [of t] by auto
  obtain e1 s1 st1 fl1 where step: "(if ?tiny then roundTiny ex sig sticky env t 0 else (ex, sig, sticky, 0)) = (e1, s1, st1, fl1)"
    by (cases "if ?tiny then roundTiny ex sig sticky env t 0 else (ex, sig, sticky, 0)") auto
  have "\<exists>th1. fits (unat s1) th1 \<and> (st1 \<longleftrightarrow> th1 \<noteq> 0) \<and> ?x = (of_nat (unat s1) + th1) * 2 powi (e1 - 63)"
    and e1: "e1 = ?E" "fl1 = 0" and tiny: "?tiny \<longrightarrow> unat s1 < 2 ^ 63" "\<not> ?tiny \<longrightarrow> s1 = sig"
    using step assms(2,3) roundTiny_step [OF assms(6) _ assms(2,3), where ex = ex and t = t and fl = 0 and ?e1.0 = e1 and ?sig1.0 = s1 and ?sticky1.0 = st1 and ?fl1.0 = fl1]
    by (auto split: if_splits intro: exI [of _ th])
  then obtain th1 where th1: "0 \<le> th1" "of_nat (unat s1 mod 2 ^ (?w - 2)) + th1 < 2 ^ (?w - 2)" "st1 \<longleftrightarrow> th1 \<noteq> 0"
      "?x = (of_nat (unat s1) + th1) * 2 powi (e1 - 63)"
    using fits_above p(5) unfolding fits_def by metis
  let ?q = "2 powi (?E - (int ?p - 1)) :: rat"
  have "e1 - 63 + int ?w = ?E - (int ?p - 1)" using p by (simp add: e1(1))
  then have "(2 :: rat) powi (e1 - 63) * 2 ^ ?w = ?q" unfolding powi_nat powi_split [symmetric] by (simp only:)
  then have xq: "?x / ?q = (of_nat (unat s1) + th1) / 2 ^ ?w"
    unfolding th1(4) by (metis mult_divide_mult_cancel_left power_int_not_zero mult.commute zero_neq_numeral)
  note rb1 = round_bits(1) [where neg = neg and S = "unat s1", OF rn_cases [OF assms(4)] p(3) th1(1,2), folded xq th1(3)]
  note rb2 = round_bits(2,3) [where S = "unat s1", OF rn_cases [OF assms(4)] p(3) th1(1,2), folded xq th1(3)]
  note pe = roundPack_end [where neg = neg, OF assms(5,6) step [unfolded e1(2)], unfolded e1(1)]
  have d: "unat (drop_bit ?w s1) = unat s1 div 2 ^ ?w" by (rule unat_drop_bit)
  have fl: "of_nat (unat s1 div 2 ^ ?w) \<le> ?x / ?q" "?x / ?q < of_nat (unat s1 div 2 ^ ?w) + 1"
    using rb2(2) floor_correct [of "?x / ?q"] by simp_all
  have pw: "(2 :: nat) ^ 64 = 2 ^ ?p * 2 ^ ?w" "(2 :: nat) ^ 63 = 2 ^ (?p - 1) * 2 ^ ?w" using p by (simp_all add: power_add [symmetric])
  have n: "unat s1 div 2 ^ ?w < 2 ^ ?p" "?tiny \<longrightarrow> unat s1 div 2 ^ ?w < 2 ^ (?p - 1)" "\<not> ?tiny \<longrightarrow> 2 ^ (?p - 1) \<le> unat s1 div 2 ^ ?w"
    using unat64_less [of s1] tiny assms(1) unfolding pw
    by (auto simp: less_mult_imp_div_less less_eq_div_iff_mult_less_eq)
  let ?n = "drop_bit ?w s1" and ?g = "odd (unat s1 div 2 ^ (?w - 1))" and ?r = "odd (unat s1 div 2 ^ (?w - 2))"
    and ?s = "st1 \<or> unat s1 mod 2 ^ (?w - 2) \<noteq> 0"
  let ?inc = "roundInc (envRn env) neg (odd (unat s1 div 2 ^ ?w)) ?g ?r ?s"
  have mag: "roundMag (envRn env) neg (?x / ?q) = int (unat ?n + (if ?inc then 1 else 0))"
    unfolding rb1 d by (cases ?inc) simp_all
  have inx: "?g \<or> ?r \<or> ?s \<longleftrightarrow> of_nat (unat ?n) \<noteq> ?x / ?q" unfolding d rb2(1) [symmetric] by simp
  have inc: "?inc \<longrightarrow> ?g \<or> ?r \<or> ?s" by (simp add: roundInc_def)
  show ?thesis unfolding pe
    by (rule roundEnd_rounds [OF mag inx fl [folded d] inc n(1) [folded d] refl n(2,3) [folded d] assms(7)])
qed

end
