(* ===== verification/U128.thy ===== *)
theory U128
  imports FpValue
begin

text \<open>
  The 128-bit accumulator helpers of \<open>softfp.cpp\<close> as arithmetic: the product of two 64-bit
  words, comparison, subtraction, addition, the right shift that keeps lost bits in a sticky flag,
  the left shift and the leading-zero count, each equal to its operation on natural numbers.
\<close>

section \<open>128-bit numbers\<close>

definition nat128 :: "u128 \<Rightarrow> nat" where
  "nat128 v = unat (hi128 v) * 2 ^ 64 + unat (lo128 v)"

lemma add_carry64:
  fixes x y :: u64
  shows "unat x + unat y = unat (x + y) + (if x + y < x then 2 ^ 64 else 0)"
  using unat64_less [of x] unat64_less [of y]
  by (auto simp: word_less_nat_alt unat_word_ariths le_mod_geq not_less mod_if split: if_splits)

lemma halves64: "unat (a AND 0xFFFFFFFF :: u64) = unat a mod 2 ^ 32" "unat (drop_bit 32 a) = unat a div 2 ^ 32"
proof -
  have "(0xFFFFFFFF :: u64) = mask 32" by (simp add: mask_eq_exp_minus_1)
  then show "unat (a AND 0xFFFFFFFF :: u64) = unat a mod 2 ^ 32" by (simp only: unat_and_mask)
  show "unat (drop_bit 32 a) = unat a div 2 ^ 32" by (rule unat_drop_bit)
qed

lemma small_product:
  fixes x y :: u64
  assumes "unat x < 2 ^ 32" "unat y < 2 ^ 32"
  shows "unat (x * y) = unat x * unat y"
proof -
  have "unat x * unat y \<le> (2 ^ 32 - 1) * (2 ^ 32 - 1)" using assms by (intro mult_le_mono) simp_all
  then show ?thesis by (simp add: unat_word_ariths)
qed

text \<open>Schoolbook multiplication of 32-bit halves is exact.\<close>

lemma mul64to128_exact: "nat128 (mul64to128 a b) = unat a * unat b"
proof -
  define a0 a1 b0 b1 where "a0 = a AND 0xFFFFFFFF" and "a1 = drop_bit 32 a" and "b0 = b AND 0xFFFFFFFF" and "b1 = drop_bit 32 b"
  have l: "unat a0 < 2 ^ 32" "unat a1 < 2 ^ 32" "unat b0 < 2 ^ 32" "unat b1 < 2 ^ 32"
    using unat64_less [of a] unat64_less [of b] by (simp_all add: a0_def a1_def b0_def b1_def halves64 less_mult_imp_div_less)
  have ab: "unat a = unat a1 * 2 ^ 32 + unat a0" "unat b = unat b1 * 2 ^ 32 + unat b0"
    by (simp_all only: a0_def a1_def b0_def b1_def halves64 div_mult_mod_eq)
  define p00 p01 p10 p11 where "p00 = a0 * b0" and "p01 = a0 * b1" and "p10 = a1 * b0" and "p11 = a1 * b1"
  have p: "unat p00 = unat a0 * unat b0" "unat p01 = unat a0 * unat b1" "unat p10 = unat a1 * unat b0" "unat p11 = unat a1 * unat b1"
    unfolding p00_def p01_def p10_def p11_def using l by (simp_all only: small_product)
  define mid where "mid = p01 + p10"
  define mc where "mc = (if mid < p01 then 1 else 0 :: nat)"
  define lo where "lo = p00 + push_bit 32 mid"
  define c where "c = (if lo < p00 then 1 else 0 :: nat)"
  have m: "unat p01 + unat p10 = unat mid + mc * 2 ^ 64" using add_carry64 [of p01 p10] by (simp add: mid_def mc_def)
  have sh: "unat (push_bit 32 mid) = unat mid mod 2 ^ 32 * 2 ^ 32" using push_bit_mod [of 32 mid] by simp
  have lo: "unat p00 + unat mid mod 2 ^ 32 * 2 ^ 32 = unat lo + c * 2 ^ 64"
    using add_carry64 [of p00 "push_bit 32 mid"] sh by (simp add: lo_def c_def)
  define md mr where "md = unat mid div 2 ^ 32" and "mr = unat mid mod 2 ^ 32"
  have md: "unat mid = md * 2 ^ 32 + mr" by (simp only: md_def mr_def div_mult_mod_eq)
  define H where "H = unat p11 + md + mc * 2 ^ 32 + c"
  have "unat a * unat b = unat p11 * 2 ^ 64 + (unat p01 + unat p10) * 2 ^ 32 + unat p00"
    unfolding ab p by (simp add: algebra_simps)
  also have "\<dots> = (unat p11 + md + mc * 2 ^ 32) * 2 ^ 64 + (unat p00 + mr * 2 ^ 32)"
    unfolding m md by (simp add: algebra_simps)
  also have "\<dots> = H * 2 ^ 64 + unat lo" unfolding lo [folded mr_def] H_def by (simp add: algebra_simps)
  finally have ab': "unat a * unat b = H * 2 ^ 64 + unat lo" .
  have "unat a * unat b < 2 ^ 64 * 2 ^ 64"
    using unat64_less [of a] unat64_less [of b] by (intro mult_strict_mono) simp_all
  then have "H * 2 ^ 64 < 2 ^ 64 * 2 ^ 64" using ab' by linarith
  then have H: "H < 2 ^ 64" by simp
  have "of_nat H = p11 + drop_bit 32 mid + (if mid < p01 then push_bit 32 1 else 0) + (if lo < p00 then 1 else 0)"
  proof -
    have "of_nat md = drop_bit 32 mid" unfolding md_def unat_drop_bit [symmetric] by simp
    then show ?thesis by (simp add: H_def mc_def c_def push_bit_eq_mult)
  qed
  then have "hi128 (mul64to128 a b) = of_nat H" "lo128 (mul64to128 a b) = lo"
    by (simp_all add: mul64to128_def Let_def a0_def a1_def b0_def b1_def p00_def p01_def p10_def p11_def mid_def lo_def)
  then show ?thesis using H ab' by (simp add: nat128_def unat_of_nat)
qed

lemma nat128_less: "nat128 v < 2 ^ 128"
proof -
  have "nat128 v \<le> (2 ^ 64 - 1) * 2 ^ 64 + (2 ^ 64 - 1)"
    unfolding nat128_def using unat64_less [of "hi128 v"] unat64_less [of "lo128 v"] by (intro add_mono mult_right_mono) simp_all
  then show ?thesis by simp
qed

lemma nat128_zero: "nat128 v = 0 \<longleftrightarrow> hi128 v = 0 \<and> lo128 v = 0"
  by (auto simp: nat128_def unat_eq_0)

lemma ge128_iff: "ge128 a b \<longleftrightarrow> nat128 b \<le> nat128 a"
proof -
  have l: "unat x * 2 ^ 64 + unat u < unat y * 2 ^ 64 + unat w" if "unat x < unat y" for x y u w :: u64
  proof -
    have "(unat x + 1) * 2 ^ 64 \<le> unat y * 2 ^ 64" using that by (intro mult_right_mono) simp_all
    then show ?thesis using unat64_less [of u] by simp
  qed
  consider "unat (hi128 b) < unat (hi128 a)" | "unat (hi128 a) < unat (hi128 b)" | "hi128 a = hi128 b"
    by (metis linorder_neqE_nat word_unat_eq_iff)
  then show ?thesis
  proof cases
    case 1
    then show ?thesis using l [of "hi128 b" "hi128 a" "lo128 b" "lo128 a"] by (auto simp: ge128_def nat128_def word_less_nat_alt)
  next
    case 2
    then show ?thesis using l [of "hi128 a" "hi128 b" "lo128 a" "lo128 b"] by (auto simp: ge128_def nat128_def word_less_nat_alt)
  next
    case 3
    then show ?thesis by (simp add: ge128_def nat128_def word_le_nat_alt)
  qed
qed

lemma unat_sub_wrap: "unat (x - y :: u64) = (if y \<le> x then unat x - unat y else 2 ^ 64 + unat x - unat y)"
  by (auto simp: unat_sub_if_size word_size word_le_nat_alt)

lemma sub128_exact:
  assumes "nat128 b \<le> nat128 a"
  shows "nat128 (sub128 a b) = nat128 a - nat128 b"
proof -
  define c :: nat where "c = (if lo128 a < lo128 b then 1 else 0)"
  have lo: "unat (lo128 a - lo128 b) + unat (lo128 b) = unat (lo128 a) + c * 2 ^ 64"
    using unat64_less [of "lo128 a"] unat64_less [of "lo128 b"]
    by (auto simp: unat_sub_wrap c_def word_less_nat_alt word_le_nat_alt)
  have "unat (hi128 b) * 2 ^ 64 + c * 2 ^ 64 \<le> unat (hi128 a) * 2 ^ 64 + (unat (lo128 a - lo128 b))"
    using assms lo unfolding nat128_def by linarith
  then have "(unat (hi128 b) + c) * 2 ^ 64 < (unat (hi128 a) + 1) * 2 ^ 64"
    using unat64_less [of "lo128 a - lo128 b"] by (simp add: algebra_simps)
  then have h: "unat (hi128 b) + c \<le> unat (hi128 a)" by simp
  have hi: "unat (hi128 a - hi128 b - (if lo128 a < lo128 b then 1 else 0)) = unat (hi128 a) - unat (hi128 b) - c"
  proof -
    have d: "unat (hi128 a - hi128 b) = unat (hi128 a) - unat (hi128 b)" using h by (simp add: unat_sub_wrap word_le_nat_alt)
    show ?thesis
    proof (cases "lo128 a < lo128 b")
      case True
      then have "1 \<le> hi128 a - hi128 b" using h d by (simp add: c_def word_le_nat_alt)
      then show ?thesis using True d by (simp add: unat_sub c_def)
    next
      case False
      then show ?thesis using d by (simp add: c_def)
    qed
  qed
  obtain k where k: "unat (hi128 a) = unat (hi128 b) + c + k" using h le_Suc_ex by blast
  have "nat128 (sub128 a b) + nat128 b = nat128 a"
    unfolding nat128_def sub128_def u128.simps hi k using lo by (simp add: algebra_simps)
  then show ?thesis by simp
qed

lemma add128_exact:
  assumes "add128 a b False = (w, carry)" "hi128 b \<noteq> - 1"
  shows "nat128 a + nat128 b = nat128 w + (if carry then 2 ^ 128 else 0)"
proof -
  define c :: nat where "c = (if lo128 a + lo128 b < lo128 a then 1 else 0)"
  have lo: "unat (lo128 a) + unat (lo128 b) = unat (lo128 a + lo128 b) + c * 2 ^ 64"
    using add_carry64 [of "lo128 a" "lo128 b"] by (simp add: c_def)
  define b' where "b' = hi128 b + of_nat c"
  have b': "unat b' = unat (hi128 b) + c"
  proof -
    have "unat (- 1 :: u64) = 2 ^ 64 - 1" by (simp add: unsigned_minus_1_eq_mask mask_eq_exp_minus_1)
    then have "unat (hi128 b) \<noteq> 2 ^ 64 - 1" using assms(2) by (simp add: word_unat_eq_iff)
    then have "unat (hi128 b) + 1 < 2 ^ 64" using unat64_less [of "hi128 b"] by simp
    then show ?thesis by (simp add: b'_def c_def unat_word_ariths)
  qed
  have w: "lo128 w = lo128 a + lo128 b" "hi128 w = hi128 a + b'" and cy: "carry \<longleftrightarrow> hi128 a + b' < hi128 a"
  proof -
    have "hi128 a + hi128 b + 1 = 0 \<Longrightarrow> hi128 a + hi128 b + 1 < hi128 a"
    proof -
      assume z: "hi128 a + hi128 b + 1 = 0"
      have "hi128 a \<noteq> 0" using z assms(2) by (auto simp: eq_neg_iff_add_eq_0)
      then show ?thesis unfolding z by (simp add: word_gt_0)
    qed
    then show "lo128 w = lo128 a + lo128 b" "hi128 w = hi128 a + b'" "carry \<longleftrightarrow> hi128 a + b' < hi128 a"
      using assms(1) by (auto simp: add128_def Let_def b'_def c_def add.assoc split: if_splits)
  qed
  have "unat (hi128 a) + unat b' = unat (hi128 w) + (if carry then 2 ^ 64 else 0)"
    using add_carry64 [of "hi128 a" b'] by (simp add: w cy)
  then show ?thesis using lo unfolding nat128_def w(1) b' by (cases carry) simp_all
qed

lemma shr128jam_exact:
  assumes "shr128jam v n j = (w, j')"
  shows "nat128 w = nat128 v div 2 ^ n" "j' \<longleftrightarrow> j \<or> nat128 v mod 2 ^ n \<noteq> 0"
proof -
  let ?h = "unat (hi128 v)" and ?l = "unat (lo128 v)"
  have z: "x = 0 \<longleftrightarrow> unat x = 0" for x :: u64 by (simp add: unat_eq_0)
  have "nat128 w = nat128 v div 2 ^ n \<and> (j' \<longleftrightarrow> j \<or> nat128 v mod 2 ^ n \<noteq> 0)"
  proof -
    consider "n = 0" | "128 \<le> n" | "64 \<le> n" "n < 128" | "0 < n" "n < 64" by linarith
    then show ?thesis
    proof cases
      case 1
      then show ?thesis using assms by (simp add: shr128jam_def)
    next
      case 2
      then have "nat128 v < 2 ^ n" using nat128_less [of v] by (meson less_le_trans one_le_numeral power_increasing)
      then show ?thesis using assms 2 nat128_zero [of v] by (auto simp: shr128jam_def nat128_def)
    next
      case 3
      define m where "m = n - 64"
      have n: "n = 64 + m" "m < 64" using 3 by (simp_all add: m_def)
      have "w = \<lparr>hi128 = 0, lo128 = drop_bit m (hi128 v)\<rparr>"
        and j: "j' \<longleftrightarrow> j \<or> lo128 v \<noteq> 0 \<or> (64 < n \<and> push_bit (64 - m) (hi128 v) \<noteq> 0)"
        using assms 3 by (auto simp: shr128jam_def m_def)
      then have w: "nat128 w = ?h div 2 ^ m" by (simp add: nat128_def unat_drop_bit)
      have p: "(2 :: nat) ^ n = 2 ^ 64 * 2 ^ m" by (simp only: n(1) power_add)
      have q: "nat128 v div 2 ^ 64 = ?h" "nat128 v mod 2 ^ 64 = ?l" using unat64_less [of "lo128 v"] by (simp_all add: nat128_def)
      have "nat128 v mod 2 ^ n = 2 ^ 64 * (?h mod 2 ^ m) + ?l" unfolding p mod_mult2_eq q ..
      moreover have "64 < n \<and> push_bit (64 - m) (hi128 v) \<noteq> 0 \<longleftrightarrow> ?h mod 2 ^ m \<noteq> 0"
        using lost_bits [of m "hi128 v"] n by (cases m) auto
      ultimately show ?thesis using w j unfolding p div_mult2_eq q z [of "lo128 v"] by auto
    next
      case 4
      have p: "(2 :: nat) ^ 64 = 2 ^ (64 - n) * 2 ^ n" using 4 by (simp add: power_add [symmetric])
      have w: "w = \<lparr>hi128 = drop_bit n (hi128 v), lo128 = drop_bit n (lo128 v) OR push_bit (64 - n) (hi128 v)\<rparr>"
        and j: "j' \<longleftrightarrow> j \<or> push_bit (64 - n) (lo128 v) \<noteq> 0"
        using assms 4 by (auto simp: shr128jam_def)
      have "?l < 2 ^ (64 - n) * 2 ^ n" using unat64_less [of "lo128 v"] p by simp
      then have "?l div 2 ^ n < 2 ^ (64 - n)" by (rule less_mult_imp_div_less)
      then have "unat (drop_bit n (lo128 v)) < 2 ^ (64 - n)" by (simp add: unat_drop_bit)
      then have lo: "unat (drop_bit n (lo128 v) OR push_bit (64 - n) (hi128 v)) = ?l div 2 ^ n + ?h mod 2 ^ n * 2 ^ (64 - n)"
        using unat_or_fields(1) [of "drop_bit n (lo128 v)" "64 - n" "hi128 v"] push_bit_mod [of "64 - n" "hi128 v"] 4
        by (simp add: unat_drop_bit)
      have "nat128 v = (?h * 2 ^ (64 - n)) * 2 ^ n + ?l" by (simp add: nat128_def p [symmetric] mult.assoc)
      then have d: "nat128 v div 2 ^ n = ?h * 2 ^ (64 - n) + ?l div 2 ^ n" "nat128 v mod 2 ^ n = ?l mod 2 ^ n"
        by simp_all
      have "?h * 2 ^ (64 - n) = (?h div 2 ^ n * 2 ^ n + ?h mod 2 ^ n) * 2 ^ (64 - n)" by (simp only: div_mult_mod_eq)
      also have "\<dots> = ?h div 2 ^ n * 2 ^ 64 + ?h mod 2 ^ n * 2 ^ (64 - n)" by (simp only: p distrib_right distrib_left ac_simps)
      finally have "nat128 w = nat128 v div 2 ^ n"
        unfolding w nat128_def [of "u128.make _ _"] nat128_def u128.simps lo unat_drop_bit
        using d(1) by (simp add: nat128_def)
      then show ?thesis using j lost_bits [of n "lo128 v"] 4 by (simp add: d(2))
    qed
  qed
  then show "nat128 w = nat128 v div 2 ^ n" "j' \<longleftrightarrow> j \<or> nat128 v mod 2 ^ n \<noteq> 0" by simp_all
qed

lemma shl128_exact:
  assumes "nat128 v * 2 ^ n < 2 ^ 128"
  shows "nat128 (shl128 v n) = nat128 v * 2 ^ n"
proof -
  let ?h = "unat (hi128 v)" and ?l = "unat (lo128 v)"
  consider "n = 0" | "128 \<le> n" | "64 \<le> n" "n < 128" | "0 < n" "n < 64" by linarith
  then show ?thesis
  proof cases
    case 1
    then show ?thesis by (simp add: shl128_def)
  next
    case 2
    then have "(2 :: nat) ^ 128 \<le> 2 ^ n" by (intro power_increasing) simp_all
    then have "nat128 v = 0" using assms by (cases "nat128 v") auto
    then show ?thesis using 2 by (simp add: shl128_def nat128_def)
  next
    case 3
    define m where "m = n - 64"
    have n: "n = 64 + m" "m < 64" using 3 by (simp_all add: m_def)
    have "?h * 2 ^ 64 * 2 ^ n < 2 ^ 128" using assms unfolding nat128_def by (simp add: algebra_simps)
    then have "?h * 2 ^ m < 1" unfolding n(1) power_add by (simp add: algebra_simps)
    then have h: "?h = 0" by simp
    then have "?l * 2 ^ m < 2 ^ 64" using assms unfolding nat128_def n(1) power_add by simp
    then have "unat (push_bit m (lo128 v)) = ?l * 2 ^ m" by (rule push_bit_unat)
    then show ?thesis using 3 h by (simp add: shl128_def nat128_def n(1) power_add m_def [symmetric])
  next
    case 4
    have p: "(2 :: nat) ^ 64 = 2 ^ (64 - n) * 2 ^ n" using 4 by (simp add: power_add [symmetric])
    have a: "(?h * 2 ^ n + ?l div 2 ^ (64 - n)) * 2 ^ 64 + ?l mod 2 ^ (64 - n) * 2 ^ n = nat128 v * 2 ^ n"
    proof -
      have "?l * 2 ^ n = (?l div 2 ^ (64 - n) * 2 ^ (64 - n) + ?l mod 2 ^ (64 - n)) * 2 ^ n" by (simp only: div_mult_mod_eq)
      also have "\<dots> = ?l div 2 ^ (64 - n) * 2 ^ 64 + ?l mod 2 ^ (64 - n) * 2 ^ n" by (simp only: p distrib_right distrib_left ac_simps)
      finally have "?l * 2 ^ n = ?l div 2 ^ (64 - n) * 2 ^ 64 + ?l mod 2 ^ (64 - n) * 2 ^ n" .
      moreover have "?h * 2 ^ n * 2 ^ 64 = ?h * 2 ^ 64 * 2 ^ n" by simp
      ultimately show ?thesis unfolding nat128_def distrib_right by linarith
    qed
    have "(?h * 2 ^ n + ?l div 2 ^ (64 - n)) * 2 ^ 64 < 2 ^ 64 * 2 ^ 64" using a assms by simp
    then have hb: "?h * 2 ^ n + ?l div 2 ^ (64 - n) < 2 ^ 64" by simp
    have "?l < 2 ^ n * 2 ^ (64 - n)" using unat64_less [of "lo128 v"] unfolding p by (simp only: mult.commute)
    then have lb: "unat (drop_bit (64 - n) (lo128 v)) < 2 ^ n" by (simp add: unat_drop_bit less_mult_imp_div_less)
    have hi: "unat (push_bit n (hi128 v) OR drop_bit (64 - n) (lo128 v)) = ?h * 2 ^ n + ?l div 2 ^ (64 - n)"
      using unat_or_fields(2) [OF lb, of "hi128 v"] push_bit_unat [of "hi128 v" n] hb by (simp add: unat_drop_bit)
    have lo: "unat (push_bit n (lo128 v)) = ?l mod 2 ^ (64 - n) * 2 ^ n" using push_bit_mod [of n "lo128 v"] 4 by simp
    have "shl128 v n = \<lparr>hi128 = push_bit n (hi128 v) OR drop_bit (64 - n) (lo128 v), lo128 = push_bit n (lo128 v)\<rparr>"
      using 4 by (simp add: shl128_def)
    then show ?thesis by (simp only: nat128_def u128.simps hi lo) (simp only: a [unfolded nat128_def])
  qed
qed

lemma clz128_normal:
  assumes "nat128 v \<noteq> 0"
  shows "nat128 v * 2 ^ clz128 v < 2 ^ 128" "2 ^ 127 \<le> nat128 v * 2 ^ clz128 v"
proof -
  have "nat128 v * 2 ^ clz128 v < 2 ^ 128 \<and> 2 ^ 127 \<le> nat128 v * 2 ^ clz128 v"
  proof (cases "hi128 v = 0")
    case True
    then have l: "lo128 v \<noteq> 0" "nat128 v = unat (lo128 v)" using assms by (auto simp: nat128_def)
    note n = normalize64 [OF l(1)]
    then have "2 ^ 63 * 2 ^ 64 \<le> unat (lo128 v) * 2 ^ countl_zero64 (lo128 v) * 2 ^ 64"
      "unat (lo128 v) * 2 ^ countl_zero64 (lo128 v) * 2 ^ 64 < 2 ^ 64 * 2 ^ 64"
      using unat64_less [of "push_bit (countl_zero64 (lo128 v)) (lo128 v)"] by simp_all
    then show ?thesis using True l(2) by (simp add: clz128_def power_add algebra_simps)
  next
    case False
    let ?h = "unat (hi128 v)" and ?c = "countl_zero64 (hi128 v)"
    note c = countl_zero64_bounds [OF False]
    have "nat128 v < (?h + 1) * 2 ^ 64" using unat64_less [of "lo128 v"] by (simp add: nat128_def)
    also have "\<dots> \<le> 2 ^ (64 - ?c) * 2 ^ 64" using c(3) by (intro mult_right_mono) simp_all
    finally have "nat128 v * 2 ^ ?c < 2 ^ (64 - ?c) * 2 ^ 64 * 2 ^ ?c" by simp
    also have "\<dots> = 2 ^ 128" using c(1) by (simp add: power_add [symmetric])
    finally have u: "nat128 v * 2 ^ ?c < 2 ^ 128" .
    have "(2 :: nat) ^ 127 = 2 ^ (63 - ?c) * 2 ^ 64 * 2 ^ ?c" using c(1) by (simp add: power_add [symmetric])
    also have "\<dots> \<le> ?h * 2 ^ 64 * 2 ^ ?c" using c(2) by simp
    also have "\<dots> \<le> nat128 v * 2 ^ ?c" by (simp add: nat128_def)
    finally show ?thesis using u False by (simp add: clz128_def)
  qed
  then show "nat128 v * 2 ^ clz128 v < 2 ^ 128" "2 ^ 127 \<le> nat128 v * 2 ^ clz128 v" by simp_all
qed

end
