(* ===== verification/FpFma.thy ===== *)
theory FpFma
  imports U128
begin

text \<open>
  The general path of the fused multiply-add: the accumulator's value after the product, the
  alignment of the addend and the signed combination, and the theorem that the packed result is the
  correct rounding of the exact \<open>a * c + b\<close>.
\<close>

section \<open>Accumulators as numbers\<close>

definition plainEnv :: "fp_env \<Rightarrow> bool" where
  "plainEnv env \<longleftrightarrow> envRn env < 4 \<and> \<not> envOe env \<and> \<not> envUe env \<and> \<not> envNi env"

definition accVal :: "u128 \<Rightarrow> int \<Rightarrow> rat \<Rightarrow> rat" where
  "accVal v ex th = (of_nat (nat128 v) + th) * 2 powi (ex - 127)"

definition tail :: "rat \<Rightarrow> bool \<Rightarrow> bool" where
  "tail th jam \<longleftrightarrow> 0 \<le> th \<and> th < 1 \<and> (jam \<longleftrightarrow> th \<noteq> 0)"

text \<open>A result is the correct rounding of the exact magnitude \<open>x\<close> with the sign \<open>neg\<close>.\<close>

definition correctlyRounded :: "fp_tgt \<Rightarrow> fp_env \<Rightarrow> bool \<Rightarrow> rat \<Rightarrow> u64 \<times> u32 \<Rightarrow> bool" where
  "correctlyRounded t env neg x r \<longleftrightarrow> (\<exists>e. 2 powi e \<le> x \<and> x < 2 powi (e + 1) \<and> rounds t env neg e x r)"

lemma acc_rounds:
  assumes "2 ^ 127 \<le> nat128 v" "tail th jam" "plainEnv env"
  shows "correctlyRounded t env neg (accVal v ex th) (roundPack neg ex (hi128 v) (jam \<or> lo128 v \<noteq> 0) env t 0)"
proof -
  let ?h = "unat (hi128 v)" and ?l = "unat (lo128 v)"
  define th2 where "th2 = (of_nat ?l + th) / 2 ^ 64"
  have th: "0 \<le> th" "th < 1" "jam \<longleftrightarrow> th \<noteq> 0" using assms(2) by (simp_all add: tail_def)
  have "?l + 1 \<le> 2 ^ 64" using unat64_less [of "lo128 v"] by simp
  then have "of_nat (?l + 1) \<le> (of_nat (2 ^ 64) :: rat)" by (simp only: of_nat_le_iff)
  then have l: "of_nat ?l + 1 \<le> (2 ^ 64 :: rat)" by (simp only: of_nat_add of_nat_1 of_nat_power of_nat_numeral)
  have lz: "lo128 v = 0 \<longleftrightarrow> (of_nat ?l :: rat) = 0" by (simp only: of_nat_eq_0_iff unat_eq_0)
  have l0: "(0 :: rat) \<le> of_nat ?l" by (rule of_nat_0_le_iff)
  have t2: "0 \<le> th2" "th2 < 1" "(jam \<or> lo128 v \<noteq> 0) \<longleftrightarrow> th2 \<noteq> 0"
    using th l lz l0 unfolding th2_def by (auto simp: add_nonneg_eq_0_iff)
  have "2 ^ 127 < (?h + 1) * 2 ^ 64" using assms(1) unat64_less [of "lo128 v"] unfolding nat128_def by simp
  then have h: "2 ^ 63 \<le> ?h" by simp
  have n: "(of_nat (nat128 v) :: rat) = of_nat ?h * 2 ^ 64 + of_nat ?l"
    by (simp only: nat128_def of_nat_add of_nat_mult of_nat_power of_nat_numeral)
  have "(of_nat ?h + th2) * 2 powi (ex - 63) = (of_nat ?h * 2 ^ 64 + (of_nat ?l + th)) / 2 ^ 64 * 2 powi (ex - 63)"
    by (simp add: th2_def add_divide_distrib)
  also have "\<dots> = (of_nat ?h * 2 ^ 64 + (of_nat ?l + th)) / 2 ^ 64 * (2 ^ 64 * 2 powi (ex - 127))"
    unfolding powi_nat powi_split [symmetric] by simp
  also have "\<dots> = accVal v ex th" by (simp add: accVal_def n add.assoc)
  finally have x: "(of_nat ?h + th2) * 2 powi (ex - 63) = accVal v ex th" .
  have "rounds t env neg ex (accVal v ex th) (roundPack neg ex (hi128 v) (jam \<or> lo128 v \<noteq> 0) env t 0)"
    unfolding x [symmetric] using assms(3) by (intro roundPack_rounds [OF h fits_small [OF t2(1,2)] t2(3)]) (simp_all add: plainEnv_def)
  moreover have "2 powi ex \<le> accVal v ex th" "accVal v ex th < 2 powi (ex + 1)"
  proof -
    have b: "2 ^ 127 \<le> (of_nat (nat128 v) :: rat)" "of_nat (nat128 v) + 1 \<le> (2 ^ 128 :: rat)"
    proof -
      have "nat128 v + 1 \<le> 2 ^ 128" using nat128_less [of v] by simp
      then have "of_nat (nat128 v + 1) \<le> (of_nat (2 ^ 128) :: rat)" by (simp only: of_nat_le_iff)
      then show "of_nat (nat128 v) + 1 \<le> (2 ^ 128 :: rat)" by (simp only: of_nat_add of_nat_1 of_nat_power of_nat_numeral)
      have "of_nat (2 ^ 127) \<le> (of_nat (nat128 v) :: rat)" using assms(1) by (simp only: of_nat_le_iff)
      then show "2 ^ 127 \<le> (of_nat (nat128 v) :: rat)" by (simp only: of_nat_power of_nat_numeral)
    qed
    have p: "(2 :: rat) powi ex = 2 ^ 127 * 2 powi (ex - 127)" "(2 :: rat) powi (ex + 1) = 2 ^ 128 * 2 powi (ex - 127)"
      unfolding powi_nat powi_split [symmetric] by (simp_all add: add.commute)
    have "2 ^ 127 \<le> of_nat (nat128 v) + th" "of_nat (nat128 v) + th < 2 ^ 128" using b th by linarith+
    then show "2 powi ex \<le> accVal v ex th" "accVal v ex th < 2 powi (ex + 1)"
      unfolding p accVal_def by (intro mult_right_mono mult_strict_right_mono; simp)+
  qed
  ultimately show ?thesis unfolding correctlyRounded_def by blast
qed

section \<open>The product\<close>

definition normalUn :: "fp_un \<Rightarrow> bool" where
  "normalUn u \<longleftrightarrow> unC u = CFin \<and> 2 ^ 63 \<le> unat (unM u) \<and> 2 ^ 11 dvd unat (unM u)"

lemma normal_unpack: "unC (unpack f) = CFin \<Longrightarrow> normalUn (unpack f)"
  using unpack_range [of f] by (simp add: normalUn_def)

text \<open>How far down the product's bits reach: a factor of one half leaves the other's alone.\<close>

definition fmaLow :: "fp_un \<Rightarrow> fp_un \<Rightarrow> nat" where
  "fmaLow a c = (if unM a = 0x8000000000000000 \<or> unM c = 0x8000000000000000 then 74 else 22)"

lemma fmaProduct_value:
  assumes "normalUn a" "normalUn c" "fmaProduct a c = (acm, ex)"
  shows "2 ^ 127 \<le> nat128 acm" "accVal acm ex 0 = fpMag a * fpMag c" "2 ^ fmaLow a c dvd nat128 acm"
    "ex = unE a + unE c \<or> ex = unE a + unE c + 1"
proof -
  let ?a = "unat (unM a)" and ?c = "unat (unM c)"
  define p where "p = mul64to128 (unM a) (unM c)"
  have p: "nat128 p = ?a * ?c" by (simp only: p_def mul64to128_exact)
  have ab: "2 ^ 63 \<le> ?a" "2 ^ 63 \<le> ?c" "2 ^ 11 dvd ?a" "2 ^ 11 dvd ?c" using assms(1,2) by (simp_all add: normalUn_def)
  have "(2 :: nat) ^ 63 * 2 ^ 63 \<le> ?a * ?c" using ab(1,2) by (rule mult_le_mono)
  then have lo: "2 ^ 126 \<le> nat128 p" by (simp add: p)
  have dv: "2 ^ fmaLow a c dvd nat128 p"
  proof -
    have "2 ^ 11 * 2 ^ 11 dvd nat128 p" unfolding p by (rule mult_dvd_mono [OF ab(3,4)])
    moreover have "2 ^ 63 * 2 ^ 11 dvd nat128 p" if "unM a = 0x8000000000000000"
      unfolding p using that ab(4) by (intro mult_dvd_mono) simp_all
    moreover have "2 ^ 11 * 2 ^ 63 dvd nat128 p" if "unM c = 0x8000000000000000"
      unfolding p using that ab(3) by (intro mult_dvd_mono) simp_all
    ultimately show ?thesis by (auto simp: fmaLow_def power_add [symmetric])
  qed
  have P: "fpMag a * fpMag c = of_nat (nat128 p) * 2 powi (unE a + unE c - 126)"
  proof -
    have "fpMag a * fpMag c = of_nat (nat128 p) * (2 powi (unE a - 63) * 2 powi (unE c - 63))"
      by (simp only: fpMag_def p of_nat_mult ac_simps)
    also have "\<dots> = of_nat (nat128 p) * 2 powi (unE a + unE c - 126)"
      unfolding powi_split [symmetric] by (simp add: algebra_simps)
    finally show ?thesis .
  qed
  have h: "drop_bit 63 (hi128 p) = 0 \<longleftrightarrow> nat128 p < 2 ^ 127"
  proof -
    have "drop_bit 63 (hi128 p) = 0 \<longleftrightarrow> unat (hi128 p) < 2 ^ 63" using drop_bit_nonzero [of 63 "hi128 p"] by auto
    also have "\<dots> \<longleftrightarrow> nat128 p < 2 ^ 127" using unat64_less [of "lo128 p"] unfolding nat128_def by auto
    finally show ?thesis .
  qed
  have "2 ^ 127 \<le> nat128 acm \<and> accVal acm ex 0 = fpMag a * fpMag c \<and> 2 ^ fmaLow a c dvd nat128 acm \<and>
    (ex = unE a + unE c \<or> ex = unE a + unE c + 1)"
  proof (cases "nat128 p < 2 ^ 127")
    case True
    then have e: "acm = shl128 p 1" "ex = unE a + unE c" using assms(3) h by (simp_all add: fmaProduct_def p_def Let_def)
    have "nat128 p * 2 ^ 1 < 2 ^ 128" using True by simp
    then have s: "nat128 acm = nat128 p * 2" unfolding e by (simp add: shl128_exact)
    have "accVal acm ex 0 = of_nat (nat128 p) * (2 powi 1 * 2 powi (ex - 127))" by (simp add: accVal_def s)
    also have "\<dots> = fpMag a * fpMag c" unfolding P powi_split [symmetric] e(2) by simp
    finally show ?thesis using lo dv s e(2) by simp
  next
    case False
    then have e: "acm = p" "ex = unE a + unE c + 1" using assms(3) h by (auto simp: fmaProduct_def p_def Let_def split: if_splits)
    show ?thesis using False dv unfolding e accVal_def P by simp
  qed
  then show "2 ^ 127 \<le> nat128 acm" "accVal acm ex 0 = fpMag a * fpMag c" "2 ^ fmaLow a c dvd nat128 acm"
    "ex = unE a + unE c \<or> ex = unE a + unE c + 1" by simp_all
qed

section \<open>Alignment\<close>

lemma shift_value:
  assumes "shr128jam v n False = (w, jam)"
  shows "\<exists>th. tail th jam \<and> accVal v ex 0 = accVal w (ex + int n) th"
proof (intro exI conjI)
  note s = shr128jam_exact [OF assms]
  let ?th = "of_nat (nat128 v mod 2 ^ n) / 2 ^ n :: rat"
  have "nat128 v mod 2 ^ n < 2 ^ n" by simp
  then have "of_nat (nat128 v mod 2 ^ n) < (of_nat (2 ^ n) :: rat)" by (simp only: of_nat_less_iff)
  then have "?th < 1" by (simp only: of_nat_power of_nat_numeral) simp
  then show "tail ?th jam" using s(2) by (simp add: tail_def)
  have "nat128 v = nat128 w * 2 ^ n + nat128 v mod 2 ^ n" unfolding s(1) by (simp only: div_mult_mod_eq)
  then have "(of_nat (nat128 v) :: rat) = of_nat (nat128 w * 2 ^ n + nat128 v mod 2 ^ n)" by (simp only:)
  then have e: "(of_nat (nat128 v) :: rat) = (of_nat (nat128 w) + ?th) * 2 ^ n"
    by (simp only: of_nat_add of_nat_mult of_nat_power of_nat_numeral distrib_right) simp
  have "accVal v ex 0 = (of_nat (nat128 w) + ?th) * (2 ^ n * 2 powi (ex - 127))" unfolding accVal_def add_0_right e by (simp only: mult.assoc)
  also have "\<dots> = accVal w (ex + int n) ?th" unfolding powi_nat powi_split [symmetric] accVal_def by (simp add: algebra_simps)
  finally show "accVal v ex 0 = accVal w (ex + int n) ?th" .
qed

lemma tail_0 [simp]: "tail 0 jam \<longleftrightarrow> \<not> jam"
  by (simp add: tail_def)

lemma tail_exact: "tail th jam \<Longrightarrow> \<not> jam \<Longrightarrow> th = 0"
  by (simp add: tail_def)

definition addendAcc :: "fp_un \<Rightarrow> u128" where
  "addendAcc b = \<lparr>hi128 = unM b, lo128 = 0\<rparr>"

lemma addendAcc_value:
  assumes "normalUn b"
  shows "nat128 (addendAcc b) = unat (unM b) * 2 ^ 64" "accVal (addendAcc b) (unE b) 0 = fpMag b" "2 ^ 127 \<le> nat128 (addendAcc b)"
    "2 ^ 75 dvd nat128 (addendAcc b)" "hi128 (addendAcc b) \<noteq> - 1"
proof -
  show n: "nat128 (addendAcc b) = unat (unM b) * 2 ^ 64" by (simp add: nat128_def addendAcc_def)
  have "accVal (addendAcc b) (unE b) 0 = of_nat (unat (unM b)) * (2 ^ 64 * 2 powi (unE b - 127))"
    by (simp only: accVal_def n add_0_right of_nat_mult of_nat_power of_nat_numeral mult.assoc)
  also have "\<dots> = fpMag b" unfolding powi_nat powi_split [symmetric] fpMag_def by simp
  finally show "accVal (addendAcc b) (unE b) 0 = fpMag b" .
  show "2 ^ 127 \<le> nat128 (addendAcc b)" using assms unfolding n by (simp add: normalUn_def)
  have "2 ^ 11 * 2 ^ 64 dvd unat (unM b) * 2 ^ 64" using assms by (intro mult_dvd_mono) (simp_all add: normalUn_def)
  then show "2 ^ 75 dvd nat128 (addendAcc b)" unfolding n by simp
  have "even (unat (unM b))" using assms unfolding normalUn_def by (auto elim: dvd_trans [rotated])
  moreover have "odd (unat (- 1 :: u64))" using bit_odd [of "- 1" 0] by simp
  ultimately show "hi128 (addendAcc b) \<noteq> - 1" by (auto simp: addendAcc_def)
qed

lemma shr_hi: "shr128jam v n j = (w, j') \<Longrightarrow> 0 < n \<Longrightarrow> hi128 w \<noteq> - 1"
proof -
  assume a: "shr128jam v n j = (w, j')" "0 < n"
  have "nat128 w = nat128 v div 2 ^ n" by (rule shr128jam_exact [OF a(1)])
  also have "\<dots> \<le> nat128 v div 2 ^ 1" using a(2) by (intro div_le_mono2 power_increasing) simp_all
  also have "\<dots> < 2 ^ 127" using nat128_less [of v] by simp
  finally have "unat (hi128 w) < 2 ^ 63" unfolding nat128_def by simp
  then show ?thesis by (auto simp: unsigned_minus_1_eq_mask mask_eq_exp_minus_1)
qed

lemma fmaAlign_value:
  assumes "2 ^ 127 \<le> nat128 acm" "normalUn b" "fmaAlign acm ex b = (acm1, badd, ex1, jam)"
  shows "\<exists>ta tb. tail (ta + tb) jam \<and> 0 \<le> ta \<and> 0 \<le> tb \<and> accVal acm ex 0 = accVal acm1 ex1 ta \<and> fpMag b = accVal badd ex1 tb"
    "2 ^ 127 \<le> nat128 acm1 \<or> 2 ^ 127 \<le> nat128 badd" "hi128 badd \<noteq> - 1"
    "2 ^ k dvd nat128 acm \<Longrightarrow> - int k \<le> ex - unE b \<Longrightarrow> ex - unE b \<le> 75 \<Longrightarrow> \<not> jam"
proof -
  note b = addendAcc_value [OF assms(2)]
  define d where "d = ex - unE b"
  let ?T = "(\<exists>ta tb. tail (ta + tb) jam \<and> 0 \<le> ta \<and> 0 \<le> tb \<and> accVal acm ex 0 = accVal acm1 ex1 ta \<and> fpMag b = accVal badd ex1 tb) \<and>
    (2 ^ 127 \<le> nat128 acm1 \<or> 2 ^ 127 \<le> nat128 badd) \<and> hi128 badd \<noteq> - 1 \<and>
    (2 ^ k dvd nat128 acm \<longrightarrow> - int k \<le> d \<longrightarrow> d \<le> 75 \<longrightarrow> \<not> jam)"
  have exact: "\<not> j" if "shr128jam v n False = (w, j)" "2 ^ k dvd nat128 v" "n \<le> k" for v w n k j
    using shr128jam_exact(2) [OF that(1)] dvd_trans [OF le_imp_power_dvd [OF that(3)] that(2)] by (auto simp: dvd_eq_mod_eq_0)
  consider "0 < d" | "d < 0" | "d = 0" by linarith
  then have ?T
  proof cases
    case 1
    then have s: "shr128jam (addendAcc b) (nat d) False = (badd, jam)" "acm1 = acm" "ex1 = ex"
      using assms(3) by (auto simp: fmaAlign_def d_def addendAcc_def Let_def split: prod.splits)
    obtain th where th: "tail th jam" "accVal (addendAcc b) (unE b) 0 = accVal badd (unE b + int (nat d)) th"
      using shift_value [OF s(1)] by blast
    have "unE b + int (nat d) = ex1" using 1 by (simp add: s d_def)
    then have "fpMag b = accVal badd ex1 th" using th(2) b(2) by simp
    then have "\<exists>ta tb. tail (ta + tb) jam \<and> 0 \<le> ta \<and> 0 \<le> tb \<and> accVal acm ex 0 = accVal acm1 ex1 ta \<and> fpMag b = accVal badd ex1 tb"
      using th(1) s by (intro exI [of _ 0] exI [of _ th]) (simp add: tail_def)
    then show ?thesis using s assms(1) shr_hi [OF s(1)] 1 exact [OF s(1) b(4)] by simp
  next
    case 2
    then have s: "shr128jam acm (nat (- d)) False = (acm1, jam)" "badd = addendAcc b" "ex1 = unE b"
      using assms(3) by (auto simp: fmaAlign_def d_def addendAcc_def Let_def split: prod.splits)
    obtain th where th: "tail th jam" "accVal acm ex 0 = accVal acm1 (ex + int (nat (- d))) th"
      using shift_value [OF s(1)] by blast
    have "ex + int (nat (- d)) = ex1" using 2 by (simp add: s d_def)
    then have "accVal acm ex 0 = accVal acm1 ex1 th" using th(2) by simp
    then have "\<exists>ta tb. tail (ta + tb) jam \<and> 0 \<le> ta \<and> 0 \<le> tb \<and> accVal acm ex 0 = accVal acm1 ex1 ta \<and> fpMag b = accVal badd ex1 tb"
      using th(1) s b(2) by (intro exI [of _ th] exI [of _ 0]) (simp add: tail_def)
    then show ?thesis using s b(3,5) 2 exact [OF s(1), of k] by simp
  next
    case 3
    then have "acm1 = acm" "badd = addendAcc b" "ex1 = ex" "\<not> jam" "ex = unE b"
      using assms(3) by (auto simp: fmaAlign_def d_def addendAcc_def Let_def)
    moreover from this have "\<exists>ta tb. tail (ta + tb) jam \<and> 0 \<le> ta \<and> 0 \<le> tb \<and> accVal acm ex 0 = accVal acm1 ex1 ta \<and> fpMag b = accVal badd ex1 tb"
      using b(2) by (intro exI [of _ 0]) simp
    ultimately show ?thesis using b(5) assms(1) by simp
  qed
  then show "\<exists>ta tb. tail (ta + tb) jam \<and> 0 \<le> ta \<and> 0 \<le> tb \<and> accVal acm ex 0 = accVal acm1 ex1 ta \<and> fpMag b = accVal badd ex1 tb"
    "2 ^ 127 \<le> nat128 acm1 \<or> 2 ^ 127 \<le> nat128 badd" "hi128 badd \<noteq> - 1"
    "2 ^ k dvd nat128 acm \<Longrightarrow> - int k \<le> ex - unE b \<Longrightarrow> ex - unE b \<le> 75 \<Longrightarrow> \<not> jam" by (simp_all add: d_def)
qed

section \<open>Combining\<close>

lemma combine_same:
  assumes "fmaCombine acm badd ex jam s s = Some (v, e, neg, jam1)" "tail th jam" "hi128 badd \<noteq> - 1"
    and "2 ^ 127 \<le> nat128 acm \<or> 2 ^ 127 \<le> nat128 badd"
  shows "neg = s" "2 ^ 127 \<le> nat128 v" "\<exists>th1. tail th1 jam1 \<and> accVal v e th1 = accVal acm ex 0 + accVal badd ex th"
proof -
  obtain w cy where a: "add128 acm badd False = (w, cy)" by fastforce
  note sum = add128_exact [OF a assms(3)]
  have tot: "accVal acm ex 0 + accVal badd ex th = (of_nat (nat128 acm + nat128 badd) + th) * 2 powi (ex - 127)"
    by (simp add: accVal_def algebra_simps)
  have "neg = s \<and> 2 ^ 127 \<le> nat128 v \<and> (\<exists>th1. tail th1 jam1 \<and> accVal v e th1 = accVal acm ex 0 + accVal badd ex th)"
  proof (cases cy)
    case False
    then have r: "v = w" "e = ex" "neg = s" "jam1 = jam" using assms(1) a by (simp_all add: fmaCombine_def)
    have "2 ^ 127 \<le> nat128 w" using sum False assms(4) by auto
    moreover have "accVal w ex th = accVal acm ex 0 + accVal badd ex th" unfolding tot sum using False by (simp add: accVal_def)
    ultimately show ?thesis using r assms(2) by blast
  next
    case True
    obtain w1 j1 where s: "shr128jam w 1 jam = (w1, j1)" by fastforce
    note sh = shr128jam_exact [OF s]
    have r: "v = w1\<lparr>hi128 := hi128 w1 OR push_bit 63 1\<rparr>" "e = ex + 1" "neg = s" "jam1 = j1"
      using assms(1) a s True by (simp_all add: fmaCombine_def)
    have "nat128 w1 < 2 ^ 127" using sh(1) nat128_less [of w] by simp
    then have h: "unat (hi128 w1) < 2 ^ 63" unfolding nat128_def by simp
    have "unat (hi128 w1 OR push_bit 63 1) = unat (hi128 w1) + 2 ^ 63"
      using unat_or_fields(1) [OF h, of 1] push_bit_unat [of 1 63] by (simp only: unsigned_1) simp
    then have v: "nat128 v = nat128 w1 + 2 ^ 127" unfolding r nat128_def by simp
    define q where "q = nat128 w mod 2"
    have q: "nat128 w = 2 * nat128 w1 + q" "q = 0 \<or> q = 1" using sh(1) by (simp_all add: q_def) auto
    have th: "0 \<le> th" "th < 1" "jam \<longleftrightarrow> th \<noteq> 0" using assms(2) by (simp_all add: tail_def)
    define th1 where "th1 = (of_nat q + th) / 2"
    have "j1 \<longleftrightarrow> jam \<or> q \<noteq> 0" using sh(2) by (simp add: q_def)
    then have "tail th1 jam1" using th q(2) unfolding r tail_def th1_def by auto
    moreover have "accVal v e th1 = accVal acm ex 0 + accVal badd ex th"
    proof -
      have "nat128 acm + nat128 badd = 2 * nat128 v + q" using sum True q(1) by (simp add: v)
      then have "of_nat (nat128 acm + nat128 badd) + th = 2 * (of_nat (nat128 v) + th1)" by (simp add: th1_def)
      moreover have "(2 :: rat) powi (e - 127) = 2 * 2 powi (ex - 127)"
        using powi_split [of 1 "ex - 127"] by (simp add: r algebra_simps)
      ultimately show ?thesis by (simp only: tot) (simp only: accVal_def ac_simps)
    qed
    ultimately show ?thesis using r v by auto
  qed
  then show "neg = s" "2 ^ 127 \<le> nat128 v" "\<exists>th1. tail th1 jam1 \<and> accVal v e th1 = accVal acm ex 0 + accVal badd ex th" by simp_all
qed

lemma accVal_diff: "nat128 b \<le> nat128 a \<Longrightarrow> nat128 w = nat128 a - nat128 b \<Longrightarrow> accVal w ex 0 = accVal a ex 0 - accVal b ex 0"
  by (simp add: accVal_def of_nat_diff algebra_simps)

lemma accVal_less: "accVal a ex 0 \<le> accVal b ex 0 \<longleftrightarrow> nat128 a \<le> nat128 b"
proof -
  have "0 < (2 :: rat) powi (ex - 127)" by simp
  then show ?thesis unfolding accVal_def add_0_right by (simp only: mult_le_cancel_right_pos of_nat_le_iff)
qed

lemma combine_differ:
  fixes acm badd :: u128 and ex :: int
  assumes "neg \<noteq> bneg"
  defines "D \<equiv> accVal badd ex 0 - accVal acm ex 0"
  shows "fmaCombine acm badd ex False neg bneg = None \<longleftrightarrow> D = 0"
    "fmaCombine acm badd ex False neg bneg = Some (v, e, neg1, jam1) \<Longrightarrow>
      \<not> jam1 \<and> 2 ^ 127 \<le> nat128 v \<and> accVal v e 0 = \<bar>D\<bar> \<and> neg1 = (if 0 \<le> D then bneg else neg)"
proof -
  define w where "w = (if ge128 badd acm then sub128 badd acm else sub128 acm badd)"
  have D: "0 \<le> D \<longleftrightarrow> ge128 badd acm" unfolding D_def ge128_iff using accVal_less [of acm ex badd] by simp
  have w: "accVal w ex 0 = \<bar>D\<bar>"
  proof (cases "ge128 badd acm")
    case True
    then have "nat128 w = nat128 badd - nat128 acm" unfolding w_def by (simp add: ge128_iff sub128_exact)
    then show ?thesis using True D accVal_diff [of acm badd w ex] by (simp add: ge128_iff D_def)
  next
    case False
    then have "nat128 badd \<le> nat128 acm" by (simp add: ge128_iff)
    moreover from this have "nat128 w = nat128 acm - nat128 badd" using False by (simp add: w_def sub128_exact)
    ultimately show ?thesis using False D accVal_diff [of badd acm w ex] by (simp add: D_def)
  qed
  have z: "hi128 w = 0 \<and> lo128 w = 0 \<longleftrightarrow> D = 0"
    using w by (simp add: nat128_zero [symmetric] accVal_def) (metis abs_eq_0_iff mult_eq_0_iff of_nat_eq_0_iff power_int_not_zero zero_neq_numeral)
  let ?lz = "clz128 w"
  have c: "fmaCombine acm badd ex False neg bneg = (if D = 0 then None
     else Some (if ?lz \<noteq> 0 then (shl128 w ?lz, ex - int ?lz, if 0 \<le> D then bneg else neg, False) else (w, ex, if 0 \<le> D then bneg else neg, False)))"
    using assms(1) unfolding z [symmetric] D by (simp add: fmaCombine_def w_def Let_def split: prod.split)
  then show "fmaCombine acm badd ex False neg bneg = None \<longleftrightarrow> D = 0" by simp
  assume "fmaCombine acm badd ex False neg bneg = Some (v, e, neg1, jam1)"
  then have nz: "D \<noteq> 0" and r: "v = shl128 w ?lz" "e = ex - int ?lz" "neg1 = (if 0 \<le> D then bneg else neg)" "\<not> jam1"
    unfolding c by (auto simp: shl128_def split: if_splits)
  have "nat128 w \<noteq> 0" using nz z by (simp add: nat128_zero)
  note n = clz128_normal [OF this]
  have v: "nat128 v = nat128 w * 2 ^ ?lz" unfolding r by (rule shl128_exact [OF n(1)])
  have "accVal v e 0 = of_nat (nat128 w) * (2 powi int ?lz * 2 powi (ex - int ?lz - 127))"
    by (simp only: accVal_def v r(2) of_nat_mult of_nat_power of_nat_numeral powi_nat add_0_right mult.assoc)
  also have "\<dots> = accVal w ex 0" unfolding powi_split [symmetric] accVal_def by simp
  finally show "\<not> jam1 \<and> 2 ^ 127 \<le> nat128 v \<and> accVal v e 0 = \<bar>D\<bar> \<and> neg1 = (if 0 \<le> D then bneg else neg)"
    using r n(2) v w by simp
qed

section \<open>The fused multiply-add\<close>

lemma fpMag_normal: "normalUn u \<Longrightarrow> 0 < fpMag u"
proof -
  assume "normalUn u"
  then have "0 < unat (unM u)" by (simp add: normalUn_def)
  then have "0 < (of_nat (unat (unM u)) :: rat)" by (simp only: of_nat_0_less_iff)
  then show ?thesis unfolding fpMag_def by (intro mult_pos_pos) simp_all
qed

lemma unpack_zero: "unC (unpack f) = CZero \<Longrightarrow> fpMag (unpack f) = 0"
  by (auto simp: fpMag_def unpack_eq Let_def split: if_splits)

lemma finite_cases: "fpFinite (unpack f) \<Longrightarrow> unC (unpack f) = CZero \<or> normalUn (unpack f)"
  using normal_unpack by (auto simp: fpFinite_def)

text \<open>The exact value, and when the accumulator loses nothing that matters.\<close>

definition fmaExact :: "u64 \<Rightarrow> u64 \<Rightarrow> u64 \<Rightarrow> bool \<Rightarrow> rat" where
  "fmaExact fa fc fb hasAddend =
     fpVal (unpack fa) * fpVal (unpack fc) + (if hasAddend then fpVal (unpack fb) else 0)"

definition fmaWindow :: "u64 \<Rightarrow> u64 \<Rightarrow> u64 \<Rightarrow> bool" where
  "fmaWindow fa fc fb \<longleftrightarrow> (let a = unpack fa; c = unpack fc; b = unpack fb; d = unE a + unE c - unE b in
     (unS a \<noteq> unS c) = unS b \<or> (- int (fmaLow a c) \<le> d \<and> d \<le> 74))"

lemma sum_step:
  assumes "normalUn a" "normalUn c" "normalUn b" "fmaProduct a c = (acm, ex)" "fmaAlign acm ex b = (acm1, badd, ex1, jam)"
    and "neg = unS b \<or> (- int (fmaLow a c) \<le> unE a + unE c - unE b \<and> unE a + unE c - unE b \<le> 74)"
  defines "v \<equiv> (if neg then - (fpMag a * fpMag c) else fpMag a * fpMag c) + fpVal b"
  shows "fmaCombine acm1 badd ex1 jam neg (unS b) = None \<longleftrightarrow> v = 0"
    "fmaCombine acm1 badd ex1 jam neg (unS b) = Some (w, e, neg1, jam1) \<Longrightarrow>
      2 ^ 127 \<le> nat128 w \<and> neg1 = (v < 0) \<and> (\<exists>th. tail th jam1 \<and> accVal w e th = \<bar>v\<bar>)"
proof -
  note p = fmaProduct_value [OF assms(1,2,4)]
  note al = fmaAlign_value [OF p(1) assms(3,5)]
  obtain ta tb where t: "tail (ta + tb) jam" "0 \<le> ta" "0 \<le> tb" "accVal acm ex 0 = accVal acm1 ex1 ta" "fpMag b = accVal badd ex1 tb"
    using al(1) by blast
  have P: "accVal acm1 ex1 ta = fpMag a * fpMag c" using t(4) p(2) by simp
  have pos: "0 < fpMag a * fpMag c" "0 < fpMag b" using fpMag_normal assms(1-3) by simp_all
  have B: "fpVal b = (if unS b then - fpMag b else fpMag b)" by (simp add: fpVal_def)
  have "(fmaCombine acm1 badd ex1 jam neg (unS b) = None \<longleftrightarrow> v = 0) \<and>
    (fmaCombine acm1 badd ex1 jam neg (unS b) = Some (w, e, neg1, jam1) \<longrightarrow>
      2 ^ 127 \<le> nat128 w \<and> neg1 = (v < 0) \<and> (\<exists>th. tail th jam1 \<and> accVal w e th = \<bar>v\<bar>))"
  proof (cases "neg = unS b")
    case True
    have v: "v \<noteq> 0" "v < 0 \<longleftrightarrow> neg" "\<bar>v\<bar> = fpMag a * fpMag c + fpMag b" using pos True by (auto simp: v_def B)
    have "fmaCombine acm1 badd ex1 jam neg neg \<noteq> None" by (simp add: fmaCombine_def split: prod.split)
    moreover have "accVal acm1 ex1 0 + accVal badd ex1 (ta + tb) = fpMag a * fpMag c + fpMag b"
      unfolding P [symmetric] t(5) by (simp add: accVal_def algebra_simps)
    ultimately show ?thesis
      using combine_same [of acm1 badd ex1 jam neg w e neg1 jam1, OF _ t(1) al(3,2)] v True by auto
  next
    case False
    then have "\<not> jam" using al(4) [OF p(3)] p(4) assms(6) by auto
    then have z: "ta = 0" "tb = 0" "\<not> jam" using t(1-3) by (auto simp: tail_def)
    have D: "accVal badd ex1 0 - accVal acm1 ex1 0 = fpMag b - fpMag a * fpMag c" using P t(5) z by simp
    have v: "v = (if unS b then fpMag a * fpMag c - fpMag b else fpMag b - fpMag a * fpMag c)" using False by (auto simp: v_def B)
    note c = combine_differ [OF False, of acm1 badd ex1, unfolded D]
    show ?thesis using c(1) c(2) [of w e neg1 jam1] z(3) False v by (auto simp: not_le intro!: exI [of _ 0] split: if_splits)
  qed
  then show "fmaCombine acm1 badd ex1 jam neg (unS b) = None \<longleftrightarrow> v = 0"
    "fmaCombine acm1 badd ex1 jam neg (unS b) = Some (w, e, neg1, jam1) \<Longrightarrow>
      2 ^ 127 \<le> nat128 w \<and> neg1 = (v < 0) \<and> (\<exists>th. tail th jam1 \<and> accVal w e th = \<bar>v\<bar>)" by blast+
qed

lemma finite_class:
  assumes "fpFinite u"
  shows "unC u \<noteq> CInf" "unC u \<noteq> CQNaN" "unC u \<noteq> CSNaN"
  using assms by (auto simp: fpFinite_def)

lemma fmaSpecial_eq:
  assumes "fpFinite (unpack fa)" "fpFinite (unpack fc)" "hasAddend \<longrightarrow> fpFinite (unpack fb)"
  shows "fmaSpecial fa fc fb hasAddend negAdd negResult env =
    (let ps = (unS (unpack fa) \<noteq> unS (unpack fc)) in
     if (unC (unpack fa) = CZero \<or> unC (unpack fc) = CZero) \<and> (\<not> hasAddend \<or> unC (unpack fb) = CZero)
     then (let s = (if \<not> hasAddend then ps else if ps = unS (unpack fb) then ps else envRn env = 3)
           in Some \<lparr>resBits = packZero (if negResult then \<not> s else s), resFl = 0\<rparr>)
     else None)"
proof (cases hasAddend)
  case True
  note f = finite_class [OF assms(1)] finite_class [OF assms(2)] finite_class [OF assms(3) [rule_format, OF True]]
  show ?thesis unfolding fmaSpecial_def Let_def by (simp only: f True simp_thms if_False if_True)
next
  case False
  note f = finite_class [OF assms(1)] finite_class [OF assms(2)]
  show ?thesis unfolding fmaSpecial_def Let_def by (simp only: f False simp_thms if_False if_True)
qed

lemma fmaSum_value:
  assumes "fpFinite (unpack fa)" "fpFinite (unpack fc)" "hasAddend \<longrightarrow> fpFinite (unpack fb)"
    and "(unC (unpack fa) = CZero \<or> unC (unpack fc) = CZero) \<longrightarrow> hasAddend \<and> unC (unpack fb) \<noteq> CZero"
    and "hasAddend \<longrightarrow> fmaWindow fa fc fb"
  defines "v \<equiv> fmaExact fa fc fb hasAddend"
  shows "fmaSum (unpack fa) (unpack fc) (unpack fb) hasAddend = None \<longleftrightarrow> v = 0"
    "fmaSum (unpack fa) (unpack fc) (unpack fb) hasAddend = Some (w, e, neg, jam) \<Longrightarrow>
      2 ^ 127 \<le> nat128 w \<and> neg = (v < 0) \<and> (\<exists>th. tail th jam \<and> accVal w e th = \<bar>v\<bar>)"
proof -
  define a c b where "a = unpack fa" and "c = unpack fc" and "b = unpack fb"
  let ?P = "fpMag a * fpMag c"
  have fv: "fpVal a * fpVal c = (if unS a \<noteq> unS c then - ?P else ?P)" by (simp add: fpVal_def)
  have v: "v = (if unS a \<noteq> unS c then - ?P else ?P) + (if hasAddend then fpVal b else 0)"
    unfolding v_def fmaExact_def a_def [symmetric] b_def [symmetric] c_def [symmetric] fv ..
  have "(fmaSum a c b hasAddend = None \<longleftrightarrow> v = 0) \<and>
    (fmaSum a c b hasAddend = Some (w, e, neg, jam) \<longrightarrow>
      2 ^ 127 \<le> nat128 w \<and> neg = (v < 0) \<and> (\<exists>th. tail th jam \<and> accVal w e th = \<bar>v\<bar>))"
  proof (cases "unC a = CZero \<or> unC c = CZero")
    case True
    then have "?P = 0" using unpack_zero [of fa] unpack_zero [of fc] by (auto simp: a_def c_def)
    moreover have b: "hasAddend" "normalUn b" using assms(3,4) finite_cases [of fb] True by (auto simp: a_def b_def c_def)
    ultimately have "v = fpVal b" using v by simp
    moreover have "fmaSum a c b hasAddend = Some (addendAcc b, unE b, unS b, False)"
      using True by (simp add: fmaSum_def addendAcc_def)
    ultimately show ?thesis using addendAcc_value(2,3) [OF b(2)] fpMag_normal [OF b(2)]
      by (auto simp: fpVal_def intro!: exI [of _ 0])
  next
    case False
    then have n: "normalUn a" "normalUn c" using finite_cases assms(1,2) by (auto simp: a_def c_def)
    obtain acm ex where p: "fmaProduct a c = (acm, ex)" by fastforce
    note pv = fmaProduct_value [OF n p]
    have P: "0 < ?P" using fpMag_normal n by simp
    show ?thesis
    proof (cases "hasAddend \<and> unC b \<noteq> CZero")
      case False
      then have "v = (if unS a \<noteq> unS c then - ?P else ?P)" using unpack_zero [of fb] v by (auto simp: b_def fpVal_def)
      moreover have "fmaSum a c b hasAddend = Some (acm, ex, unS a \<noteq> unS c, False)"
        using False \<open>\<not> (unC a = CZero \<or> unC c = CZero)\<close> p by (auto simp: fmaSum_def)
      ultimately show ?thesis using P pv(1,2) by (auto intro!: exI [of _ 0])
    next
      case True
      then have b: "normalUn b" using assms(3) finite_cases [of fb] by (auto simp: b_def)
      obtain acm1 badd ex1 j where al: "fmaAlign acm ex b = (acm1, badd, ex1, j)" by (metis prod_cases4)
      have "fmaSum a c b hasAddend = fmaCombine acm1 badd ex1 j (unS a \<noteq> unS c) (unS b)"
        using True \<open>\<not> (unC a = CZero \<or> unC c = CZero)\<close> p al by (simp add: fmaSum_def)
      moreover have "(unS a \<noteq> unS c) = unS b \<or> (- int (fmaLow a c) \<le> unE a + unE c - unE b \<and> unE a + unE c - unE b \<le> 74)"
        using assms(5) True by (simp add: fmaWindow_def a_def b_def c_def Let_def)
      moreover have "v = (if unS a \<noteq> unS c then - ?P else ?P) + fpVal b" using v True by simp
      moreover note sum_step [OF n b p al]
      ultimately show ?thesis by simp
    qed
  qed
  then show "fmaSum (unpack fa) (unpack fc) (unpack fb) hasAddend = None \<longleftrightarrow> v = 0"
    "fmaSum (unpack fa) (unpack fc) (unpack fb) hasAddend = Some (w, e, neg, jam) \<Longrightarrow>
      2 ^ 127 \<le> nat128 w \<and> neg = (v < 0) \<and> (\<exists>th. tail th jam \<and> accVal w e th = \<bar>v\<bar>)"
    unfolding a_def b_def c_def by blast+
qed

lemma fmaModel_rounds:
  fixes fa fc fb :: u64 and hasAddend negAdd negResult :: bool and env :: fp_env and t :: fp_tgt
  assumes "fpFinite (unpack fa)" "fpFinite (unpack fc)" "hasAddend \<longrightarrow> fpFinite (unpack fb)"
    and "hasAddend \<longrightarrow> fmaWindow fa fc fb" "plainEnv env"
  defines "r \<equiv> fmaModel fa fc fb hasAddend negAdd negResult env t" and "v \<equiv> fmaExact fa fc fb hasAddend"
  shows "v \<noteq> 0 \<Longrightarrow> correctlyRounded t env ((v < 0) \<noteq> negResult) \<bar>v\<bar> (resBits r, resFl r)"
    "v = 0 \<Longrightarrow> (resBits r = packZero False \<or> resBits r = packZero True) \<and> resFl r = 0"
proof -
  have "(v \<noteq> 0 \<longrightarrow> correctlyRounded t env ((v < 0) \<noteq> negResult) \<bar>v\<bar> (resBits r, resFl r)) \<and>
    (v = 0 \<longrightarrow> (resBits r = packZero False \<or> resBits r = packZero True) \<and> resFl r = 0)"
  proof (cases "(unC (unpack fa) = CZero \<or> unC (unpack fc) = CZero) \<and> (\<not> hasAddend \<or> unC (unpack fb) = CZero)")
    case True
    then have "v = 0" using unpack_zero [of fa] unpack_zero [of fb] unpack_zero [of fc]
      by (auto simp: v_def fmaExact_def fpVal_def)
    moreover have "\<exists>s. fmaSpecial fa fc fb hasAddend negAdd negResult env = Some \<lparr>resBits = packZero s, resFl = 0\<rparr>"
      unfolding fmaSpecial_eq [OF assms(1-3)] Let_def if_P [OF True] by (rule exI, rule refl)
    then obtain s where "fmaSpecial fa fc fb hasAddend negAdd negResult env = Some \<lparr>resBits = packZero s, resFl = 0\<rparr>" by blast
    then have "r = \<lparr>resBits = packZero s, resFl = 0\<rparr>" by (simp add: r_def fmaModel_def)
    ultimately show ?thesis by (cases s) simp_all
  next
    case False
    have z: "(unC (unpack fa) = CZero \<or> unC (unpack fc) = CZero) \<longrightarrow> hasAddend \<and> unC (unpack fb) \<noteq> CZero" using False by blast
    have sp: "fmaSpecial fa fc fb hasAddend negAdd negResult env = None"
      using False unfolding fmaSpecial_eq [OF assms(1-3)] Let_def by (simp only: if_False)
    note su = fmaSum_value [OF assms(1-3) z assms(4), folded v_def]
    show ?thesis
    proof (cases "fmaSum (unpack fa) (unpack fc) (unpack fb) hasAddend")
      case None
      define s where "s = (if negResult then envRn env \<noteq> 3 else envRn env = 3)"
      have "r = \<lparr>resBits = packZero s, resFl = 0\<rparr>" by (simp add: r_def fmaModel_def sp None s_def)
      then show ?thesis using su(1) None by (cases s) simp_all
    next
      case (Some q)
      obtain w e neg jam where q: "q = (w, e, neg, jam)" by (metis prod_cases4)
      obtain th where th: "2 ^ 127 \<le> nat128 w" "neg = (v < 0)" "tail th jam" "accVal w e th = \<bar>v\<bar>"
        using su(2) Some q by blast
      let ?n = "if negResult then \<not> neg else neg"
      have "(resBits r, resFl r) = roundPack ?n e (hi128 w) (jam \<or> lo128 w \<noteq> 0) env t 0"
        unfolding r_def fmaModel_def sp Some q by (simp split: prod.split)
      moreover have "?n = ((v < 0) \<noteq> negResult)" using th(2) by auto
      ultimately show ?thesis using acc_rounds [OF th(1,3) assms(5), of t ?n e] th(4) su(1) Some by simp
    qed
  qed
  then show "v \<noteq> 0 \<Longrightarrow> correctlyRounded t env ((v < 0) \<noteq> negResult) \<bar>v\<bar> (resBits r, resFl r)"
    "v = 0 \<Longrightarrow> (resBits r = packZero False \<or> resBits r = packZero True) \<and> resFl r = 0" by blast+
qed

end
