(* ===== verification/FpDivide.thy ===== *)
theory FpDivide
  imports FpFma
begin

text \<open>
  Division: the invariant of the shift-and-subtract recurrence, the value of the quotient with
  its sticky remainder, and the rounding of the exact quotient.
\<close>

section \<open>Division\<close>

text \<open>The digit recurrence keeps quotient times divisor plus remainder, doubled at each step.\<close>

definition divInv :: "nat \<Rightarrow> nat \<Rightarrow> nat \<Rightarrow> u64 \<times> u64 \<Rightarrow> bool" where
  "divInv ma mb i qr \<longleftrightarrow> unat (fst qr) * mb + unat (snd qr) = ma * 2 ^ i \<and> unat (snd qr) < mb \<and> unat (fst qr) < 2 ^ (i + 1)"

lemma divStep_inv:
  assumes "divInv ma (unat mb) i qr" "i < 55" "2 ^ 63 \<le> unat mb"
  shows "divInv ma (unat mb) (Suc i) (divStep mb qr)"
proof -
  obtain q rm where qr: "qr = (q, rm)" by fastforce
  let ?m = "unat mb"
  have inv: "unat q * ?m + unat rm = ma * 2 ^ i" "unat rm < ?m" "unat q < 2 ^ (i + 1)" using assms(1) by (simp_all add: divInv_def qr)
  have "(2 :: nat) ^ (i + 1) \<le> 2 ^ 55" using assms(2) by (intro power_increasing) simp_all
  then have q: "unat q < 2 ^ 55" using inv(3) by linarith
  then have q1: "unat (push_bit 1 q) = 2 * unat q" using push_bit_unat [of q 1] by simp
  have "unat (push_bit 1 q OR 1) = 2 * unat q + 1"
  proof -
    have "unat (1 OR push_bit 1 q) = unat (1 :: u64) + unat (push_bit 1 q)" by (rule unat_or_fields(1)) simp
    then show ?thesis using q1 by (simp add: or.commute)
  qed
  note q2 = this
  have top: "drop_bit 63 rm \<noteq> 0 \<longleftrightarrow> 2 ^ 63 \<le> unat rm" by (rule drop_bit_nonzero)
  have r1: "unat (push_bit 1 rm) = (2 * unat rm) mod 2 ^ 64" 
    by (simp add: unat_word_ariths mult.commute)
  have m64: "?m < 2 ^ 64" by (rule unat64_less)
  let ?bit = "drop_bit 63 rm \<noteq> 0 \<or> mb \<le> push_bit 1 rm"
  have bit: "?bit \<longleftrightarrow> ?m \<le> 2 * unat rm"
  proof (cases "2 ^ 63 \<le> unat rm")
    case True
    then show ?thesis using top m64 by simp
  next
    case False
    then show ?thesis using top r1 by (simp add: word_le_nat_alt)
  qed
  have sub: "unat (push_bit 1 rm - mb) = 2 * unat rm - ?m" if "?m \<le> 2 * unat rm"
  proof (cases "2 ^ 63 \<le> unat rm")
    case True
    then have "(2 * unat rm) mod 2 ^ 64 = 2 * unat rm - 2 ^ 64" using unat64_less [of rm] by (simp add: le_mod_geq)
    then show ?thesis using inv(2) True r1 by (auto simp: unat_sub_wrap word_le_nat_alt)
  next
    case False
    then show ?thesis using r1 that by (auto simp: unat_sub_wrap word_le_nat_alt)
  qed
  show ?thesis
  proof (cases "?m \<le> 2 * unat rm")
    case True
    then have s: "divStep mb qr = (push_bit 1 q OR 1, push_bit 1 rm - mb)" using bit by (simp add: divStep_def qr Let_def)
    have "(2 * unat q + 1) * ?m + (2 * unat rm - ?m) = 2 * (unat q * ?m + unat rm)" using True by (simp add: algebra_simps)
    then show ?thesis unfolding divInv_def s fst_conv snd_conv q2 sub [OF True] using inv by simp
  next
    case False
    then have s: "divStep mb qr = (push_bit 1 q, push_bit 1 rm)" using bit by (auto simp: divStep_def qr Let_def)
    have "unat (push_bit 1 rm) = 2 * unat rm" using False r1 m64 by simp
    then show ?thesis unfolding divInv_def s fst_conv snd_conv q1 using inv False by simp
  qed
qed

lemma divSig_value:
  assumes "2 ^ 63 \<le> unat ma" "2 ^ 63 \<le> unat mb" "divSig ma mb = (q, rm)"
  shows "unat q * unat mb + unat rm = unat ma * 2 ^ 55" "unat rm < unat mb" "unat q < 2 ^ 56" "2 ^ 54 \<le> unat q"
proof -
  let ?s0 = "if mb \<le> ma then (1, ma - mb) else (0, ma)"
  have "divInv (unat ma) (unat mb) 0 ?s0"
    using assms(1,2) unat64_less [of ma] by (auto simp: divInv_def unat_sub word_le_nat_alt)
  then have "i \<le> 55 \<Longrightarrow> divInv (unat ma) (unat mb) i ((divStep mb ^^ i) ?s0)" for i
  proof (induction i)
    case (Suc i)
    then show ?case using divStep_inv [OF _ _ assms(2), of "unat ma" i "(divStep mb ^^ i) ?s0"] by simp
  qed simp
  from this [of 55] have i: "divInv (unat ma) (unat mb) 55 (q, rm)" using assms(3) by (simp add: divSig_def)
  then show d: "unat q * unat mb + unat rm = unat ma * 2 ^ 55" "unat rm < unat mb" "unat q < 2 ^ 56"
    by (simp_all add: divInv_def)
  have "2 ^ 63 * 2 ^ 55 \<le> unat ma * 2 ^ 55" using assms(1) by (intro mult_right_mono) simp_all
  then have "2 ^ 118 < (unat q + 1) * unat mb" using d by simp
  also have "\<dots> \<le> (unat q + 1) * 2 ^ 64" using unat64_less [of mb] by (intro mult_left_mono) simp_all
  finally show "2 ^ 54 \<le> unat q" by simp
qed

lemma div_acc:
  assumes "normalUn a" "normalUn b" "divSig (unM a) (unM b) = (q, rm)"
  defines "lz \<equiv> countl_zero64 q"
  shows "2 ^ 63 \<le> unat (push_bit lz q)"
    "\<exists>th. fits (unat (push_bit lz q)) th \<and> (rm \<noteq> 0 \<longleftrightarrow> th \<noteq> 0) \<and>
      (of_nat (unat (push_bit lz q)) + th) * 2 powi ((unE a - unE b) + (8 - int lz) - 63) = fpMag a / fpMag b"
    "2 powi ((unE a - unE b) + (8 - int lz)) \<le> fpMag a / fpMag b" "fpMag a / fpMag b < 2 powi ((unE a - unE b) + (8 - int lz) + 1)"
proof -
  let ?a = "unat (unM a)" and ?b = "unat (unM b)"
  have ab: "2 ^ 63 \<le> ?a" "2 ^ 63 \<le> ?b" using assms(1,2) by (simp_all add: normalUn_def)
  note d = divSig_value [OF ab assms(3)]
  have "q \<noteq> 0" using d(4) by auto
  note n = normalize64 [OF this, folded lz_def] and c = countl_zero64_bounds [OF this, folded lz_def]
  show "2 ^ 63 \<le> unat (push_bit lz q)" by (rule n(2))
  have "(2 :: nat) ^ (63 - lz) < 2 ^ 56" using c(2) d(3) by linarith
  then have l8: "8 \<le> lz" using power_less_imp_less_exp [of "2 :: nat" "63 - lz" 56] by simp
  have "(2 :: nat) ^ 54 < 2 ^ (64 - lz)" using c(3) d(4) by linarith
  then have l9: "lz \<le> 9" using power_less_imp_less_exp [of "2 :: nat" 54 "64 - lz"] by simp
  define f where "f = of_nat (unat rm) / (of_nat ?b :: rat)"
  have "0 < ?b" using ab(2) by simp
  then have b0: "0 < (of_nat ?b :: rat)" by (simp only: of_nat_0_less_iff)
  define R B :: rat where "R = of_nat (unat rm)" and "B = of_nat ?b"
  have RB: "0 \<le> R" "R < B" "R = 0 \<longleftrightarrow> rm = 0"
    unfolding R_def B_def using d(2) by (simp_all only: of_nat_0_le_iff of_nat_less_iff of_nat_eq_0_iff unat_eq_0)
  have f: "0 \<le> f" "f < 1" "f \<noteq> 0 \<longleftrightarrow> rm \<noteq> 0"
    unfolding f_def R_def [symmetric] B_def [symmetric] using RB by auto
  have "of_nat (unat q * ?b + unat rm) = (of_nat (?a * 2 ^ 55) :: rat)" by (simp only: d(1))
  then have "of_nat (unat q) * of_nat ?b + of_nat (unat rm) = (of_nat ?a * 2 ^ 55 :: rat)"
    by (simp only: of_nat_add of_nat_mult of_nat_power of_nat_numeral)
  then have qf: "of_nat (unat q) + f = of_nat ?a / of_nat ?b * 2 ^ 55"
    using b0 unfolding f_def by (simp only: add_divide_eq_iff divide_add_eq_iff eq_divide_eq times_divide_eq_left) (auto simp: field_simps)
  have ratio: "fpMag a / fpMag b = of_nat ?a / of_nat ?b * 2 powi (unE a - unE b)"
  proof -
    have "(2 :: rat) powi (unE a - 63) = 2 powi (unE a - unE b) * 2 powi (unE b - 63)" unfolding powi_split [symmetric] by simp
    then show ?thesis unfolding fpMag_def by simp
  qed
  define th where "th = f * 2 ^ lz"
  have s: "(of_nat (unat (push_bit lz q)) :: rat) = of_nat (unat q) * 2 ^ lz"
    by (simp only: n(1) of_nat_mult of_nat_power of_nat_numeral)
  have "(of_nat (unat (push_bit lz q)) + th) * 2 powi ((unE a - unE b) + (8 - int lz) - 63)
      = (of_nat (unat q) + f) * (2 powi int lz * 2 powi ((unE a - unE b) + (8 - int lz) - 63))"
    unfolding s th_def powi_nat by (simp only: distrib_right mult.assoc)
  also have "\<dots> = of_nat ?a / of_nat ?b * (2 powi 55 * 2 powi (unE a - unE b - 55))"
  proof -
    have e: "int lz + ((unE a - unE b) + (8 - int lz) - 63) = unE a - unE b - 55" by simp
    have p: "(2 :: rat) ^ 55 = 2 powi 55" by simp
    show ?thesis unfolding powi_split [symmetric] e unfolding powi_split qf p by (simp only: mult.assoc)
  qed
  also have "\<dots> = fpMag a / fpMag b"
  proof -
    have e: "55 + (unE a - unE b - 55) = unE a - unE b" by simp
    show ?thesis unfolding ratio powi_split [symmetric] e ..
  qed
  finally have val: "(of_nat (unat (push_bit lz q)) + th) * 2 powi ((unE a - unE b) + (8 - int lz) - 63) = fpMag a / fpMag b" .
  have "unat (push_bit lz q) mod 2 ^ 9 + 2 ^ lz \<le> 2 ^ 9"
  proof -
    have "(2 :: nat) ^ 9 = 2 ^ (9 - lz) * 2 ^ lz" using l9 by (simp add: power_add [symmetric])
    then have "unat (push_bit lz q) mod 2 ^ 9 = unat q mod 2 ^ (9 - lz) * 2 ^ lz" unfolding n(1) by (simp only: mult_mod_left)
    moreover have "(unat q mod 2 ^ (9 - lz) + 1) * 2 ^ lz \<le> 2 ^ (9 - lz) * 2 ^ lz" by (intro mult_right_mono) (simp_all add: Suc_leI)
    ultimately show ?thesis using \<open>(2 :: nat) ^ 9 = 2 ^ (9 - lz) * 2 ^ lz\<close> by simp
  qed
  then have "of_nat (unat (push_bit lz q) mod 2 ^ 9 + 2 ^ lz) \<le> (of_nat (2 ^ 9) :: rat)" by (simp only: of_nat_le_iff)
  then have "of_nat (unat (push_bit lz q) mod 2 ^ 9) + 2 ^ lz \<le> (2 ^ 9 :: rat)" by (simp only: of_nat_add of_nat_power of_nat_numeral)
  moreover have thb: "0 \<le> th" "th < 2 ^ lz" "th \<noteq> 0 \<longleftrightarrow> rm \<noteq> 0" using f by (simp_all add: th_def)
  ultimately have "fits (unat (push_bit lz q)) th" unfolding fits_def by linarith
  then show "\<exists>th. fits (unat (push_bit lz q)) th \<and> (rm \<noteq> 0 \<longleftrightarrow> th \<noteq> 0) \<and>
      (of_nat (unat (push_bit lz q)) + th) * 2 powi ((unE a - unE b) + (8 - int lz) - 63) = fpMag a / fpMag b"
    using val thb(3) by blast
  define E where "E = (unE a - unE b) + (8 - int lz)"
  have p: "(2 :: rat) powi E = 2 ^ 63 * 2 powi (E - 63)" "(2 :: rat) powi (E + 1) = 2 ^ 64 * 2 powi (E - 63)"
    unfolding powi_nat powi_split [symmetric] by (simp_all add: add.commute)
  have bounds: "2 ^ 63 \<le> of_nat (unat (push_bit lz q)) + th" "of_nat (unat (push_bit lz q)) + th < 2 ^ 64"
  proof -
    have "of_nat (2 ^ 63) \<le> (of_nat (unat (push_bit lz q)) :: rat)" using n(2) by (simp only: of_nat_le_iff)
    then show "2 ^ 63 \<le> of_nat (unat (push_bit lz q)) + th" using thb(1) by (simp only: of_nat_power of_nat_numeral)
    have "(unat q + 1) * 2 ^ lz \<le> 2 ^ (64 - lz) * 2 ^ lz" using c(3) by (intro mult_right_mono) simp_all
    also have "\<dots> = 2 ^ 64" using c(1) by (simp add: power_add [symmetric])
    finally have "unat (push_bit lz q) + 2 ^ lz \<le> 2 ^ 64" unfolding n(1) by simp
    then have "of_nat (unat (push_bit lz q) + 2 ^ lz) \<le> (of_nat (2 ^ 64) :: rat)" by (simp only: of_nat_le_iff)
    then have "of_nat (unat (push_bit lz q)) + 2 ^ lz \<le> (2 ^ 64 :: rat)" by (simp only: of_nat_add of_nat_power of_nat_numeral)
    then show "of_nat (unat (push_bit lz q)) + th < 2 ^ 64" using thb(2) by linarith
  qed
  show "2 powi ((unE a - unE b) + (8 - int lz)) \<le> fpMag a / fpMag b" "fpMag a / fpMag b < 2 powi ((unE a - unE b) + (8 - int lz) + 1)"
    unfolding val [symmetric] E_def [symmetric] p using bounds by (simp_all add: mult_right_mono mult_strict_right_mono)
qed

lemma fpDiv_rounds:
  fixes fa fb :: u64 and env :: fp_env and t :: fp_tgt
  assumes "fpFinite (unpack fa)" "unC (unpack fb) = CFin" "plainEnv env"
  defines "r \<equiv> fpDiv fa fb env t" and "v \<equiv> fpVal (unpack fa) / fpVal (unpack fb)"
  shows "v \<noteq> 0 \<Longrightarrow> correctlyRounded t env (v < 0) \<bar>v\<bar> (resBits r, resFl r)"
    "v = 0 \<Longrightarrow> resBits r = packZero (unS (unpack fa) \<noteq> unS (unpack fb)) \<and> resFl r = 0"
proof -
  define a b where "a = unpack fa" and "b = unpack fb"
  have b: "normalUn b" "unC b = CFin" using assms(2) normal_unpack by (simp_all add: b_def)
  have bp: "0 < fpMag b" using b(1) by (rule fpMag_normal)
  have "(v \<noteq> 0 \<longrightarrow> correctlyRounded t env (v < 0) \<bar>v\<bar> (resBits r, resFl r)) \<and>
    (v = 0 \<longrightarrow> resBits r = packZero (unS a \<noteq> unS b) \<and> resFl r = 0)"
  proof (cases "unC a = CZero")
    case True
    then have "v = 0" using unpack_zero [of fa] by (simp add: v_def a_def fpVal_def)
    moreover have "r = \<lparr>resBits = packZero (unS a \<noteq> unS b), resFl = 0\<rparr>"
      using True b(2) by (simp add: r_def fpDiv_def Let_def a_def b_def)
    ultimately show ?thesis by simp
  next
    case False
    then have a: "unC a = CFin" "normalUn a" using assms(1) normal_unpack [of fa] by (auto simp: a_def fpFinite_def)
    have ap: "0 < fpMag a" using a(2) by (rule fpMag_normal)
    have v: "\<bar>v\<bar> = fpMag a / fpMag b" "v < 0 \<longleftrightarrow> unS a \<noteq> unS b" "v \<noteq> 0"
      using ap bp by (auto simp: v_def fpVal_def a_def [symmetric] b_def [symmetric] divide_less_0_iff)
    obtain q rm where q: "divSig (unM a) (unM b) = (q, rm)" by fastforce
    let ?lz = "countl_zero64 q"
    let ?e = "(unE a - unE b) + (8 - int ?lz)"
    note d = div_acc [OF a(2) b(1) q]
    obtain th where th: "fits (unat (push_bit ?lz q)) th" "rm \<noteq> 0 \<longleftrightarrow> th \<noteq> 0"
      "(of_nat (unat (push_bit ?lz q)) + th) * 2 powi (?e - 63) = fpMag a / fpMag b" using d(2) by blast
    have p: "envRn env < 4" "\<not> envOe env" "\<not> envUe env" "\<not> envNi env" using assms(3) by (simp_all add: plainEnv_def)
    have "(resBits r, resFl r) = roundPack (unS a \<noteq> unS b) ?e (push_bit ?lz q) (rm \<noteq> 0) env t 0"
      using a(1) b(2) q by (simp add: r_def fpDiv_def Let_def a_def [symmetric] b_def [symmetric] split: prod.split)
    moreover have "rounds t env (unS a \<noteq> unS b) ?e (fpMag a / fpMag b)
        (roundPack (unS a \<noteq> unS b) ?e (push_bit ?lz q) (rm \<noteq> 0) env t 0)"
      unfolding th(3) [symmetric] by (rule roundPack_rounds [OF d(1) th(1,2) p])
    ultimately show ?thesis using d(3,4) v unfolding correctlyRounded_def by auto
  qed
  then show "v \<noteq> 0 \<Longrightarrow> correctlyRounded t env (v < 0) \<bar>v\<bar> (resBits r, resFl r)"
    "v = 0 \<Longrightarrow> resBits r = packZero (unS (unpack fa) \<noteq> unS (unpack fb)) \<and> resFl r = 0"
    unfolding a_def b_def by blast+
qed

end
