(* ===== verification/FpArith.thy ===== *)
theory FpArith
  imports FpDivide
begin

text \<open>
  What the arithmetic entry points of \<open>softfp.cpp\<close> deliver: add, multiply, multiply-add,
  divide, round to single and convert to integer against the exact rational result, on the general
  path, that is wherever no host shortcut answers.
\<close>

lemma unpack_flip: "unpack (f XOR kSignBit) = (unpack f)\<lparr>unS := \<not> unS (unpack f)\<rparr>"
proof -
  have m: "(f XOR kSignBit) AND 0x000FFFFFFFFFFFFF = f AND 0x000FFFFFFFFFFFFF"
    unfolding bit.conj_xor_distrib2 by simp
  have e: "ucast (drop_bit 52 (f XOR kSignBit)) AND 0x7FF = (ucast (drop_bit 52 f) AND 0x7FF :: u32)"
    unfolding drop_bit_xor unsigned_xor_eq bit.conj_xor_distrib2 by simp
  have s: "drop_bit 63 (f XOR kSignBit) \<noteq> 0 \<longleftrightarrow> drop_bit 63 f = 0"
  proof -
    have b: "drop_bit 63 w \<noteq> 0 \<longleftrightarrow> bit w 63" for w :: u64
    proof -
      have "unat w div 2 ^ 63 < 2" using unat64_less [of w] by (simp add: less_mult_imp_div_less)
      then have "unat w div 2 ^ 63 = 0 \<or> unat w div 2 ^ 63 = 1" by linarith
      then have "odd (unat w div 2 ^ 63) \<longleftrightarrow> unat w div 2 ^ 63 \<noteq> 0" by auto
      also have "\<dots> \<longleftrightarrow> 2 ^ 63 \<le> unat w" by (simp add: div_eq_0_iff not_less)
      finally show ?thesis unfolding bit_odd drop_bit_nonzero by simp
    qed
    show ?thesis using b [of f] b [of "f XOR kSignBit"] by (auto simp: bit_xor_iff)
  qed
  show ?thesis unfolding unpack_def m e Let_def using s by simp
qed

lemma fpVal_flip: "fpVal (unpack (f XOR kSignBit)) = - fpVal (unpack f)"
  by (simp add: unpack_flip fpVal_def fpMag_def)

lemma fpFinite_flip: "fpFinite (unpack (f XOR kSignBit)) = fpFinite (unpack f)"
  by (simp add: unpack_flip fpFinite_def)

lemma one_value: "unpack kOne = \<lparr>unC = CFin, unS = False, unE = 0, unM = 0x8000000000000000\<rparr>" "fpVal (unpack kOne) = 1"
proof -
  show u: "unpack kOne = \<lparr>unC = CFin, unS = False, unE = 0, unM = 0x8000000000000000\<rparr>" by (simp add: unpack_def)
  have "(2 :: rat) ^ 63 * 2 powi (- 63) = 2 powi 0" unfolding powi_nat powi_split [symmetric] by simp
  then show "fpVal (unpack kOne) = 1" by (simp add: u fpVal_def fpMag_def)
qed

text \<open>
  When the host shortcuts are asked at all: in the nearest mode with no exception enabled, unless the
  switch of the format is thrown. \<open>dblAsks\<close> is \<^term>\<open>plainD\<close>; \<open>sglAsks\<close> is the guard in \<^term>\<open>fmaCore\<close>.
  \<open>generalPath\<close> holds of a multiply-add that no shortcut answers, for whatever reason: a directed
  rounding mode, a thrown switch, a host without a fused multiply-add, or operands outside the
  shortcut's window.
\<close>

definition sglAsks :: "host_fp \<Rightarrow> fp_env \<Rightarrow> fp_tgt \<Rightarrow> bool" where
  "sglAsks hf env t \<longleftrightarrow> t = Sgl \<and> envRn env = 0 \<and> \<not> envOe env \<and> \<not> envUe env \<and> \<not> envNi env \<and>
     gHostFastOff hf AND kFastOffSgl = 0"

definition generalPath :: "host_fp \<Rightarrow> fp_env \<Rightarrow> fp_tgt \<Rightarrow> u64 \<Rightarrow> u64 \<Rightarrow> u64 \<Rightarrow> bool \<Rightarrow> bool" where
  "generalPath hf env t fa fc fb negResult \<longleftrightarrow>
     (plainD hf env t \<longrightarrow> dblFmaFast hf fa fc fb negResult = None) \<and>
     (sglAsks hf env t \<longrightarrow> hostSglFast hf fa fc fb True negResult = None)"

text \<open>The shortcuts switched off for every operand.\<close>

definition shortcutsOff :: "host_fp \<Rightarrow> fp_env \<Rightarrow> bool" where
  "shortcutsOff hf env \<longleftrightarrow> envRn env \<noteq> 0 \<or>
    gHostFastOff hf AND (kFastOffSgl OR kFastOffDbl) = kFastOffSgl OR kFastOffDbl"

lemma off_bits:
  assumes "w AND (kFastOffSgl OR kFastOffDbl) = kFastOffSgl OR kFastOffDbl"
  shows "w AND kFastOffSgl \<noteq> 0" "w AND kFastOffDbl \<noteq> 0"
proof -
  have "w AND kFastOffSgl = (w AND (kFastOffSgl OR kFastOffDbl)) AND kFastOffSgl"
    "w AND kFastOffDbl = (w AND (kFastOffSgl OR kFastOffDbl)) AND kFastOffDbl" by (simp_all add: and.assoc)
  then show "w AND kFastOffSgl \<noteq> 0" "w AND kFastOffDbl \<noteq> 0" unfolding assms by simp_all
qed

lemma off_asks:
  assumes "shortcutsOff hf env"
  shows "\<not> plainD hf env t" "\<not> sglAsks hf env t"
  using assms off_bits by (auto simp: shortcutsOff_def plainD_def sglAsks_def)

text \<open>Where a multiply-add takes the general path.\<close>

lemma off_general: "shortcutsOff hf env \<Longrightarrow> generalPath hf env t fa fc fb negResult"
  by (simp add: generalPath_def off_asks)

lemma no_fma_general: "\<not> kHaveFma hf \<Longrightarrow> generalPath hf env Dbl fa fc fb negResult"
  by (simp add: generalPath_def dblFmaFast_def sglAsks_def)

lemma outside_general:
  "\<not> admitD fa \<or> \<not> admitD fc \<or> \<not> admitD fb \<Longrightarrow> generalPath hf env Dbl fa fc fb negResult"
  by (auto simp: generalPath_def dblFmaFast_def sglAsks_def Let_def)

lemma denormal_general:
  "\<not> nzD fa \<or> \<not> nzD fc \<or> \<not> nzD fb \<Longrightarrow> generalPath hf env Sgl fa fc fb negResult"
  by (auto simp: generalPath_def hostSglFast_def plainD_def)

lemma core_model:
  assumes "sglAsks hf env t \<longrightarrow> hostSglFast hf fa fc (if hasAddend \<and> negAdd then fb XOR kSignBit else fb) hasAddend negResult = None"
  shows "fmaCore hf fa fc fb hasAddend negAdd negResult env t =
    fmaModel fa fc (if hasAddend \<and> negAdd then fb XOR kSignBit else fb) hasAddend negAdd negResult env t"
  using assms unfolding fmaCore_def Let_def sglAsks_def by (auto split: option.split)

lemma off_model:
  assumes "shortcutsOff hf env"
  shows "fpAdd hf a b env t = fmaModel a kOne b True False False env t"
    "fpSub hf a b env t = fmaModel a kOne (b XOR kSignBit) True True False env t"
    "fpMul hf a c env t = fmaModel a c 0 False False False env t"
proof -
  note o = off_asks [OF assms, of t]
  show "fpAdd hf a b env t = fmaModel a kOne b True False False env t"
    unfolding fpAdd_def using o by (subst core_model) simp_all
  show "fpSub hf a b env t = fmaModel a kOne (b XOR kSignBit) True True False env t"
    unfolding fpSub_def using o by (subst core_model) simp_all
  show "fpMul hf a c env t = fmaModel a c 0 False False False env t"
    unfolding fpMul_def using o by (subst core_model) simp_all
qed

lemma madd_model:
  assumes "generalPath hf env t a c (if negAdd then b XOR kSignBit else b) negResult"
  shows "fpMadd hf a c b env t negAdd negResult = fmaModel a c (if negAdd then b XOR kSignBit else b) True negAdd negResult env t"
  using assms core_model [of hf env t a c True negAdd b negResult]
  unfolding fpMadd_def generalPath_def by (auto split: option.split)

text \<open>What an operation must deliver for the exact value \<open>v\<close>: its correct rounding, or a zero.\<close>

definition delivers :: "fp_tgt \<Rightarrow> fp_env \<Rightarrow> rat \<Rightarrow> bool \<Rightarrow> fp_res \<Rightarrow> bool" where
  "delivers t env v negResult r \<longleftrightarrow>
     (if v = 0 then unC (unpack (resBits r)) = CZero \<and> resFl r = 0
      else correctlyRounded t env ((v < 0) \<noteq> negResult) \<bar>v\<bar> (resBits r, resFl r))"

lemma packZero_class: "unC (unpack (packZero s)) = CZero"
  by (cases s) (simp_all add: packZero_def unpack_def)

lemma fmaModel_delivers:
  assumes "fpFinite (unpack fa)" "fpFinite (unpack fc)" "hasAddend \<longrightarrow> fpFinite (unpack fb)"
    and "hasAddend \<longrightarrow> fmaWindow fa fc fb" "plainEnv env"
  shows "delivers t env (fmaExact fa fc fb hasAddend) negResult (fmaModel fa fc fb hasAddend negAdd negResult env t)"
  using fmaModel_rounds [OF assms, where t = t and negResult = negResult and negAdd = negAdd] by (auto simp: delivers_def packZero_class)

text \<open>
  C4. The software fused multiply-add and its negated forms round the exact value once. For finite
  operands, with the overflow and underflow exceptions disabled and non-IEEE mode off, in any rounding
  mode and either format, denormal and overflowing results included, whenever no host shortcut
  answers (a directed rounding mode, a host without the operation, operands outside the shortcut's
  window, or the switch) the result is the correctly rounded value of \<open>\<plusminus>(a * c \<plusminus> b)\<close> with the
  right inexact, fraction-rounded, overflow and underflow flags, provided product and addend have the
  same sign or their exponents lie within the accumulator's window. What the shortcuts answer in the
  nearest mode is not claimed.
\<close>

theorem fmadd_correctly_rounded:
  assumes "fpFinite (unpack a)" "fpFinite (unpack c)" "fpFinite (unpack b)" "plainEnv env"
    and "generalPath hf env t a c (if negAdd then b XOR kSignBit else b) negResult"
    and "fmaWindow a c (if negAdd then b XOR kSignBit else b)"
  shows "delivers t env (fpVal (unpack a) * fpVal (unpack c) + (if negAdd then - fpVal (unpack b) else fpVal (unpack b)))
    negResult (fpMadd hf a c b env t negAdd negResult)"
proof -
  let ?b = "if negAdd then b XOR kSignBit else b"
  have f: "True \<longrightarrow> fpFinite (unpack ?b)" "True \<longrightarrow> fmaWindow a c ?b" using assms(3,6) by (simp_all add: fpFinite_flip)
  have v: "fmaExact a c ?b True = fpVal (unpack a) * fpVal (unpack c) + (if negAdd then - fpVal (unpack b) else fpVal (unpack b))"
    by (simp add: fmaExact_def fpVal_flip)
  show ?thesis
    using fmaModel_delivers [OF assms(1,2) f assms(4), where t = t and negResult = negResult and negAdd = negAdd] unfolding v madd_model [OF assms(5)] .
qed

text \<open>
  Addition rounds the exact sum, in every mode and format and with the right flags, when the
  shortcuts are off and the operands have the same sign or exponents at most 74 apart.
\<close>

theorem fadd_correctly_rounded:
  assumes "fpFinite (unpack a)" "fpFinite (unpack b)" "plainEnv env" "shortcutsOff hf env"
    and "unS (unpack a) = unS (unpack b) \<or> \<bar>unE (unpack a) - unE (unpack b)\<bar> \<le> 74"
  shows "delivers t env (fpVal (unpack a) + fpVal (unpack b)) False (fpAdd hf a b env t)"
proof -
  have w: "True \<longrightarrow> fmaWindow a kOne b" using assms(5) by (auto simp: fmaWindow_def Let_def one_value(1) fmaLow_def)
  have o: "fpFinite (unpack kOne)" by (simp add: one_value(1) fpFinite_def)
  have v: "fmaExact a kOne b True = fpVal (unpack a) + fpVal (unpack b)" by (simp add: fmaExact_def one_value(2))
  show ?thesis
    using fmaModel_delivers [OF assms(1) o _ w assms(3), where t = t and negResult = False and negAdd = False] assms(2) unfolding v off_model(1) [OF assms(4)] by blast
qed

text \<open>Multiplication rounds the exact product, in every mode and format and with the right flags, when the shortcuts are off.\<close>

theorem fmul_correctly_rounded:
  assumes "fpFinite (unpack a)" "fpFinite (unpack c)" "plainEnv env" "shortcutsOff hf env"
  shows "delivers t env (fpVal (unpack a) * fpVal (unpack c)) False (fpMul hf a c env t)"
proof -
  have v: "fmaExact a c 0 False = fpVal (unpack a) * fpVal (unpack c)" by (simp add: fmaExact_def)
  show ?thesis
    using fmaModel_delivers [OF assms(1,2) _ _ assms(3), where hasAddend = False and fb = 0 and t = t and negResult = False and negAdd = False]
    unfolding v off_model(3) [OF assms(4)] by blast
qed

text \<open>
  C11. Division rounds the exact quotient of finite operands with a nonzero divisor, in every mode
  and format and with the right flags: the digit recurrence loses nothing.
\<close>

theorem fdiv_correctly_rounded:
  assumes "fpFinite (unpack a)" "unC (unpack b) = CFin" "plainEnv env"
  shows "delivers t env (fpVal (unpack a) / fpVal (unpack b)) False (fpDiv a b env t)"
  using fpDiv_rounds [OF assms, of t] by (cases "unS (unpack a) = unS (unpack b)") (auto simp: delivers_def packZero_class)

section \<open>Witnesses\<close>

definition offHost :: host_fp where
  "offHost = \<lparr>hAdd = (\<lambda>_ _. 0), hSub = (\<lambda>_ _. 0), hMul = (\<lambda>_ _. 0), hFma = (\<lambda>_ _ _. 0), hNarrow = (\<lambda>_. 0),
     hWiden = (\<lambda>_. 0), hAddF = (\<lambda>_ _. 0), hFmaF = (\<lambda>_ _ _. 0), kHaveFma = False, gHostFastOff = 3\<rparr>"

definition plainRn :: "u32 \<Rightarrow> fp_env" where
  "plainRn rn = \<lparr>envRn = rn, envOe = False, envUe = False, envNi = False\<rparr>"

lemma witness_host: "shortcutsOff offHost env"
  by (simp add: shortcutsOff_def offHost_def)

lemma witness_env: "plainEnv (plainRn 0)" "plainEnv (plainRn 1)" "plainEnv (plainRn 2)" "plainEnv (plainRn 3)"
  by (simp_all add: plainEnv_def plainRn_def)

text \<open>The encodings of 1.5 and of \<open>1 / 3\<close> rounded down, for the witnesses.\<close>

lemma witness_values:
  "unpack 0x3FF8000000000000 = \<lparr>unC = CFin, unS = False, unE = 0, unM = 0xC000000000000000\<rparr>"
  "unpack 0x4008000000000000 = \<lparr>unC = CFin, unS = False, unE = 1, unM = 0xC000000000000000\<rparr>"
  "unpack 0xBFF8000000000000 = \<lparr>unC = CFin, unS = True, unE = 0, unM = 0xC000000000000000\<rparr>"
  by (simp_all add: unpack_def)

text \<open>A host with its shortcuts on: operands whose exponent is outside the window, here \<open>2 ^ 600\<close>, take the general path.\<close>

definition onHost :: host_fp where
  "onHost = offHost\<lparr>kHaveFma := True, gHostFastOff := 0\<rparr>"

lemma fmadd_correctly_rounded_witness:
  "plainD onHost (plainRn 0) Dbl \<and>
   delivers Dbl (plainRn 0) (fpVal (unpack 0x6570000000000000) * fpVal (unpack 0x4008000000000000) + - fpVal (unpack 0xBFF8000000000000))
     True (fpMadd onHost 0x6570000000000000 0x4008000000000000 0xBFF8000000000000 (plainRn 0) Dbl True True)"
proof -
  have p: "plainD onHost (plainRn 0) Dbl" by (simp add: plainD_def onHost_def offHost_def plainRn_def)
  have u: "unpack 0x6570000000000000 = \<lparr>unC = CFin, unS = False, unE = 600, unM = 0x8000000000000000\<rparr>" by (simp add: unpack_def)
  have "\<not> admitD 0x6570000000000000" by (simp add: admitD_def dExp_def)
  then have g: "generalPath onHost (plainRn 0) Dbl 0x6570000000000000 c b n" for c b n by (intro outside_general) simp
  show ?thesis
    using p fmadd_correctly_rounded [where a = "0x6570000000000000" and c = "0x4008000000000000" and b = "0xBFF8000000000000" and env = "plainRn 0"
      and hf = onHost and t = Dbl and negAdd = True and negResult = True]
    by (simp add: u g witness_values witness_env fpFinite_def fmaWindow_def fmaLow_def Let_def)
qed

lemma fadd_correctly_rounded_witness:
  "delivers Sgl (plainRn 3) (fpVal (unpack 0x3FF8000000000000) + fpVal (unpack 0xBFF8000000000000)) False
     (fpAdd offHost 0x3FF8000000000000 0xBFF8000000000000 (plainRn 3) Sgl)"
  using fadd_correctly_rounded [where a = "0x3FF8000000000000" and b = "0xBFF8000000000000" and env = "plainRn 3" and hf = offHost and t = Sgl]
  by (simp add: witness_values witness_host witness_env fpFinite_def)

lemma fmul_correctly_rounded_witness:
  "delivers Dbl (plainRn 2) (fpVal (unpack 0x3FF8000000000000) * fpVal (unpack 0x4008000000000000)) False
     (fpMul offHost 0x3FF8000000000000 0x4008000000000000 (plainRn 2) Dbl)"
  using fmul_correctly_rounded [where a = "0x3FF8000000000000" and c = "0x4008000000000000" and env = "plainRn 2" and hf = offHost and t = Dbl]
  by (simp add: witness_values witness_host witness_env fpFinite_def)

lemma fdiv_correctly_rounded_witness:
  "delivers Dbl (plainRn 1) (fpVal (unpack 0x3FF8000000000000) / fpVal (unpack 0x4008000000000000)) False
     (fpDiv 0x3FF8000000000000 0x4008000000000000 (plainRn 1) Dbl)"
  using fdiv_correctly_rounded [where a = "0x3FF8000000000000" and b = "0x4008000000000000" and env = "plainRn 1" and t = Dbl]
  by (simp add: witness_values witness_env fpFinite_def)

section \<open>Conversion to integer\<close>

text \<open>The magnitude, guard and sticky of a conversion are the quotient by a power of two and its lost bits.\<close>

lemma ctiwMag_value:
  assumes "e \<le> 62" "ctiwMag e m = (mag, g, x)"
  defines "w \<equiv> nat (63 - e)"
  shows "unat mag = unat m div 2 ^ w" "g \<longleftrightarrow> odd (unat m div 2 ^ (w - 1))" "x \<longleftrightarrow> unat m mod 2 ^ (w - 1) \<noteq> 0" "1 \<le> w"
proof -
  show w: "1 \<le> w" using assms(1) by (simp add: w_def)
  have big: "unat m < 2 ^ k" if "64 \<le> k" for k
    using unat64_less [of m] power_increasing [OF that, of "2 :: nat"] by linarith
  have "unat mag = unat m div 2 ^ w \<and> (g \<longleftrightarrow> odd (unat m div 2 ^ (w - 1))) \<and> (x \<longleftrightarrow> unat m mod 2 ^ (w - 1) \<noteq> 0)"
  proof (cases "e < 0")
    case True
    then have r: "mag = 0" "g \<longleftrightarrow> e = -1 \<and> drop_bit 63 m \<noteq> 0" "x \<longleftrightarrow> (if e = -1 then push_bit 1 m \<noteq> 0 else m \<noteq> 0)"
      using assms(2) by (simp_all add: ctiwMag_def)
    show ?thesis
    proof (cases "e = -1")
      case True
      then have "w = 64" by (simp add: w_def)
      moreover have "unat m div 2 ^ 63 < 2" using unat64_less [of m] by (simp add: less_mult_imp_div_less)
      then have "unat m div 2 ^ 63 = 0 \<or> unat m div 2 ^ 63 = 1" by linarith
      then have "drop_bit 63 m \<noteq> 0 \<longleftrightarrow> odd (unat m div 2 ^ 63)" unfolding drop_bit_nonzero by (auto simp: div_eq_0_iff)
      ultimately show ?thesis using r True big [of 64] lost_bits [of 63 m] by simp
    next
      case False
      then have "64 \<le> w - 1" using True by (auto simp: w_def)
      then show ?thesis using r False big [of w] big [of "w - 1"] by (simp add: unat_eq_0 [symmetric])
    qed
  next
    case False
    then have w64: "w < 64" "w \<noteq> 0" using w by (simp_all add: w_def)
    have r: "mag = drop_bit w m" "g \<longleftrightarrow> drop_bit 63 (push_bit (64 - w) m) \<noteq> 0" "x \<longleftrightarrow> push_bit 1 (push_bit (64 - w) m) \<noteq> 0"
    proof -
      have n: "\<not> 64 \<le> w" using w64(1) by simp
      have "(drop_bit w m, drop_bit 63 (push_bit (64 - w) m) \<noteq> 0, push_bit 1 (push_bit (64 - w) m) \<noteq> 0) = (mag, g, x)"
        using assms(2) unfolding ctiwMag_def Let_def w_def [symmetric] by (simp only: False n w64(2) if_False)
      then show "mag = drop_bit w m" "g \<longleftrightarrow> drop_bit 63 (push_bit (64 - w) m) \<noteq> 0" "x \<longleftrightarrow> push_bit 1 (push_bit (64 - w) m) \<noteq> 0"
        by (auto simp only: prod.inject)
    qed
    define l where "l = unat m mod 2 ^ w"
    obtain v where v: "w = Suc v" using w64(2) by (cases w) auto
    have l: "unat (push_bit (64 - w) m) = l * 2 ^ (64 - w)" using push_bit_mod [of "64 - w" m] w64 by (simp add: l_def)
    have p: "(2 :: nat) ^ 63 = 2 ^ v * 2 ^ (64 - w)" using w64 by (simp add: v power_add [symmetric])
    have g: "g \<longleftrightarrow> 2 ^ v \<le> l" unfolding r(2) drop_bit_nonzero l p by simp
    have x: "x \<longleftrightarrow> l mod 2 ^ v \<noteq> 0"
    proof -
      have "push_bit 1 (push_bit (64 - w) m) \<noteq> 0 \<longleftrightarrow> unat (push_bit (64 - w) m) mod 2 ^ 63 \<noteq> 0"
        using lost_bits [of 63 "push_bit (64 - w) m"] by simp
      then show ?thesis unfolding r(3) l p mult_mod_left [symmetric] by simp
    qed
    have lm: "l mod 2 ^ v = unat m mod 2 ^ v" unfolding l_def v by (simp add: mod_mod_cancel le_imp_power_dvd)
    have "l < 2 * 2 ^ v" by (simp add: l_def v)
    then have "l div 2 ^ v < 2" by (simp add: less_mult_imp_div_less mult.commute)
    then have ld: "l div 2 ^ v = 0 \<or> l div 2 ^ v = 1" by linarith
    have "unat m mod (2 ^ v * 2) = 2 ^ v * (unat m div 2 ^ v mod 2) + unat m mod 2 ^ v" by (rule mod_mult2_eq)
    then have "l = 2 ^ v * (unat m div 2 ^ v mod 2) + unat m mod 2 ^ v" by (simp add: l_def v mult.commute)
    then have "l div 2 ^ v = unat m div 2 ^ v mod 2" by simp
    then have "odd (unat m div 2 ^ v) \<longleftrightarrow> l div 2 ^ v \<noteq> 0" by (auto simp: odd_iff_mod_2_eq_one)
    then show ?thesis using g x lm r(1) by (simp add: v unat_drop_bit div_eq_0_iff not_less)
  qed
  then show "unat mag = unat m div 2 ^ w" "g \<longleftrightarrow> odd (unat m div 2 ^ (w - 1))" "x \<longleftrightarrow> unat m mod 2 ^ (w - 1) \<noteq> 0" by simp_all
qed

text \<open>Guard and sticky decide the rounding of a quotient by a power of two.\<close>

lemma ctiw_round:
  fixes S w :: nat and rn :: u32 and neg :: bool
  assumes "1 \<le> w" "rn < 4"
  defines "g \<equiv> odd (S div 2 ^ (w - 1))" and "x \<equiv> S mod 2 ^ (w - 1) \<noteq> 0" and "q \<equiv> S div 2 ^ w" and "y \<equiv> of_nat S / 2 ^ w :: rat"
  shows "roundMag rn neg y = int q + (if ctiwInc rn neg (of_nat q) g x then 1 else 0)" "g \<or> x \<longleftrightarrow> of_nat q \<noteq> y"
    "of_nat q \<le> y" "y < of_nat q + 1"
proof -
  obtain v where v: "w = Suc v" using assms(1) by (cases w) auto
  define h where "h = S div 2 ^ v"
  define l where "l = S mod 2 ^ v"
  define b where "b = h mod 2"
  have S: "S = (2 * q + b) * 2 ^ v + l" 
  proof -
    have "q = h div 2" unfolding q_def h_def v power_Suc2 div_mult2_eq ..
    then have "h = 2 * q + b" by (simp add: b_def)
    moreover have "S = h * 2 ^ v + l" by (simp only: h_def l_def div_mult_mod_eq)
    ultimately show ?thesis by (simp only:)
  qed
  have l: "l < 2 ^ v" and b: "b = 0 \<or> b = 1" by (simp_all add: l_def b_def) auto
  have gx: "g \<longleftrightarrow> b = 1" "x \<longleftrightarrow> l \<noteq> 0" by (simp_all add: g_def x_def v h_def b_def l_def odd_iff_mod_2_eq_one)
  define f :: rat where "f = (of_nat b + of_nat l / 2 ^ v) / 2"
  have P: "0 < (2 ^ v :: rat)" by simp
  have y: "y = of_nat q + f"
  proof -
    have "(of_nat S :: rat) = (2 * of_nat q + of_nat b) * 2 ^ v + of_nat l"
      unfolding S by (simp only: of_nat_add of_nat_mult of_nat_power of_nat_numeral)
    then show ?thesis unfolding y_def f_def v using P by (simp add: field_simps)
  qed
  have "of_nat l < (of_nat (2 ^ v) :: rat)" using l by (simp only: of_nat_less_iff)
  moreover define L :: rat where "L = of_nat l / 2 ^ v"
  ultimately have lf: "0 \<le> L" "L < 1" "L = 0 \<longleftrightarrow> l = 0" by simp_all
  have f: "0 \<le> f" "f < 1" "1 / 2 < f \<longleftrightarrow> b = 1 \<and> l \<noteq> 0" "f = 1 / 2 \<longleftrightarrow> b = 1 \<and> l = 0" "f = 0 \<longleftrightarrow> b = 0 \<and> l = 0"
    using b lf by (auto simp: f_def L_def [symmetric])
  have fl: "\<lfloor>y\<rfloor> = int q" unfolding y using f(1,2) by (simp add: floor_unique)
  have fr: "y - of_int (int q) = f" by (simp add: y)
  show "g \<or> x \<longleftrightarrow> of_nat q \<noteq> y" "of_nat q \<le> y" "y < of_nat q + 1" using f gx b by (auto simp: y)
  have od: "(of_nat q :: u64) AND 1 \<noteq> 0 \<longleftrightarrow> odd q" by (simp add: and_one_eq mod_2_eq_odd even_of_nat)
  have "rn = 0 \<or> rn = 1 \<or> rn = 2 \<or> rn = 3" using rn_cases [of "plainRn rn"] assms(2) by (simp add: plainRn_def)
  then show "roundMag rn neg y = int q + (if ctiwInc rn neg (of_nat q) g x then 1 else 0)"
    unfolding roundMag_def Let_def fl fr f(3-5) ctiwInc_def gx od using b by auto
qed


definition toInt32 :: "u32 \<Rightarrow> rat \<Rightarrow> int" where
  "toInt32 rn v = (if v < 0 then - roundMag rn True (- v) else roundMag rn False v)"

lemma fpMag_quot:
  assumes "unE u \<le> 62"
  shows "fpMag u = of_nat (unat (unM u)) / 2 ^ nat (63 - unE u)"
proof -
  have "(2 :: rat) ^ nat (63 - unE u) * 2 powi (unE u - 63) = 2 powi 0"
    unfolding powi_nat powi_split [symmetric] using assms by simp
  then have "(2 :: rat) powi (unE u - 63) = 1 / 2 ^ nat (63 - unE u)" by (simp add: field_simps)
  then show ?thesis unfolding fpMag_def by simp
qed

lemma ctiw_large:
  assumes "normalUn u" "62 < unE u"
  shows "2 ^ 63 \<le> fpMag u"
proof -
  have "of_nat (2 ^ 63) \<le> (of_nat (unat (unM u)) :: rat)" using assms(1) unfolding normalUn_def of_nat_le_iff by simp
  then have m: "2 ^ 63 \<le> (of_nat (unat (unM u)) :: rat)" by (simp only: of_nat_power of_nat_numeral)
  have "2 ^ 63 * (2 powi 0) \<le> of_nat (unat (unM u)) * (2 :: rat) powi (unE u - 63)"
    using assms(2) by (intro mult_mono [OF m] powi_mono) (simp_all only: of_nat_0_le_iff, simp_all)
  then show ?thesis by (simp add: fpMag_def)
qed

lemma roundMag_ge: "of_int k \<le> y \<Longrightarrow> k \<le> roundMag rn neg y"
proof -
  assume "of_int k \<le> y"
  then have "k \<le> \<lfloor>y\<rfloor>" by (simp add: le_floor_iff)
  then show ?thesis by (simp add: roundMag_def Let_def)
qed

lemma unat_add_bool:
  fixes a :: u64
  assumes "unat a < 2 ^ 63"
  shows "unat (a + (if c then 1 else 0)) = nat (int (unat a) + (if c then 1 else 0))"
proof -
  have "unat (a + 1) = unat a + 1" using assms by (subst unat_add_lem [THEN iffD1]) simp_all
  moreover have "nat (int (unat a) + 1) = unat a + 1" by (metis nat_int of_nat_1 of_nat_add)
  ultimately show ?thesis by (cases c) (simp_all only: if_True if_False nat_int add_0_right)
qed

text \<open>The signed conversion is the rounded magnitude with the operand's sign.\<close>

lemma toInt32_sign:
  assumes "normalUn u"
  shows "toInt32 rn (fpVal u) = (if unS u then - roundMag rn (unS u) (fpMag u) else roundMag rn (unS u) (fpMag u))"
    "0 \<le> roundMag rn (unS u) (fpMag u)"
  using fpMag_normal [OF assms] roundMag_ge [of 0 "fpMag u" rn "unS u"] by (auto simp: toInt32_def fpVal_def)

lemma fpVal_sign:
  assumes "normalUn u"
  shows "fpVal u < 0 \<longleftrightarrow> unS u" "\<bar>fpVal u\<bar> = fpMag u"
  using fpMag_normal [OF assms] by (auto simp: fpVal_def)

text \<open>The increment makes the rounded magnitude, and the flags say how it compares.\<close>

lemma ctiw_flags:
  assumes "normalUn u" "unE u \<le> 62" "rn < 4" "ctiwMag (unE u) (unM u) = (mag, g, x)"
  defines "inc \<equiv> ctiwInc rn (unS u) mag g x" and "n \<equiv> toInt32 rn (fpVal u)"
  shows "unat (mag + (if inc then 1 else 0)) = nat (roundMag rn (unS u) (fpMag u))"
    "g \<or> x \<longleftrightarrow> of_int n \<noteq> fpVal u" "inc \<longleftrightarrow> \<bar>fpVal u\<bar> < \<bar>of_int n\<bar>"
proof -
  define m where "m = roundMag rn (unS u) (fpMag u)"
  note sg = toInt32_sign [OF assms(1), of rn, folded m_def n_def]
  note cv = ctiwMag_value [OF assms(2,4)]
  have q: "(of_nat (unat mag) :: u64) = mag" by simp
  note cr0 = ctiw_round [OF cv(4) assms(3), where S = "unat (unM u)", folded cv(1-3) fpMag_quot [OF assms(2)], unfolded q]
  note cr = cr0(1) [where neg = "unS u", folded m_def inc_def] cr0(2-4)
  have "(2 :: nat) ^ 64 \<le> 2 ^ 63 * 2 ^ nat (63 - unE u)" using cv(4) power_increasing [of 1 "nat (63 - unE u)" "2 :: nat"] by simp
  then have "unat (unM u) < 2 ^ 63 * 2 ^ nat (63 - unE u)" using unat64_less [of "unM u"] by linarith
  then have "unat mag < 2 ^ 63" unfolding cv(1) by (rule less_mult_imp_div_less)
  then show "unat (mag + (if inc then 1 else 0)) = nat (roundMag rn (unS u) (fpMag u))"
    unfolding m_def [symmetric] cr(1) by (rule unat_add_bool)
  have "inc \<longrightarrow> g \<or> x" by (auto simp: inc_def ctiwInc_def)
  then have gx: "g \<or> x \<longleftrightarrow> of_int m \<noteq> fpMag u" using cr by (cases inc) auto
  show "g \<or> x \<longleftrightarrow> of_int n \<noteq> fpVal u" unfolding gx sg(1) by (cases "unS u") (simp_all add: fpVal_def)
  have "inc \<longleftrightarrow> fpMag u < of_int m" using cr(1,3,4) by (cases inc) simp_all
  moreover have "\<bar>of_int n :: rat\<bar> = of_int m" using sg(2) unfolding sg(1) by (cases "unS u") simp_all
  ultimately show "inc \<longleftrightarrow> \<bar>fpVal u\<bar> < \<bar>of_int n\<bar>" by (simp only: fpVal_sign [OF assms(1)])
qed

lemma ctiw_word:
  assumes "unat (r :: u64) = nat m" "0 \<le> m"
  shows "(if s then 0 - ucast r else ucast r :: u32) = word_of_int (if s then - m else m)"
proof -
  have "(ucast r :: u32) = of_nat (nat m)" by (simp only: assms(1) [symmetric]) simp
  also have "\<dots> = word_of_int m" using assms(2) by (metis nat_0_le of_int_of_nat_eq)
  finally have r: "(ucast r :: u32) = word_of_int m" .
  show ?thesis unfolding r by (cases s) (simp_all only: if_True if_False wi_hom_neg diff_0)
qed

lemma fpCtiw_in_range:
  assumes "unC (unpack fb) = CFin" "unE (unpack fb) \<le> 62" "rn < 4"
  defines "u \<equiv> unpack fb" and "n \<equiv> toInt32 rn (fpVal (unpack fb))" and "sat \<equiv> (if unS (unpack fb) then 0x80000000 else 0x7FFFFFFF) :: u64"
  shows "fpCtiw fb rn = (if roundMag rn (unS u) (fpMag u) \<le> int (unat sat)
    then \<lparr>resBits = 0xFFF8000000000000 OR ucast (word_of_int n :: u32),
          resFl = (if of_int n \<noteq> fpVal u then kXx else 0) OR (if \<bar>fpVal u\<bar> < \<bar>of_int n\<bar> then kFr else 0)\<rparr>
    else \<lparr>resBits = 0xFFF8000000000000 OR sat, resFl = kVxcvi\<rparr>)"
proof -
  obtain mag g x where cm: "ctiwMag (unE u) (unM u) = (mag, g, x)" by (metis prod_cases3)
  have un: "normalUn u" using assms(1) normal_unpack by (simp add: u_def)
  define r where "r = mag + (if ctiwInc rn (unS u) mag g x then 1 else 0)"
  note fl = ctiw_flags [OF un _ assms(3) cm, folded r_def, folded n_def [folded u_def]]
  note sg = toInt32_sign [OF un, of rn]
  have e: "unE u \<le> 62" using assms(2) by (simp add: u_def)
  have sat: "sat < r \<longleftrightarrow> \<not> roundMag rn (unS u) (fpMag u) \<le> int (unat sat)"
    unfolding word_less_nat_alt fl(1) [OF e] zless_nat_eq_int_zless by (rule not_le [symmetric])
  have w: "(if unS u then 0 - ucast r else ucast r :: u32) = word_of_int n"
    unfolding n_def u_def [symmetric] sg(1) by (rule ctiw_word [OF fl(1) [OF e] sg(2)])
  have "fpCtiw fb rn = (if sat < r then \<lparr>resBits = 0xFFF8000000000000 OR sat, resFl = kVxcvi\<rparr>
     else \<lparr>resBits = 0xFFF8000000000000 OR ucast (if unS u then 0 - ucast r else ucast r :: u32),
           resFl = (if g \<or> x then kXx else 0) OR (if ctiwInc rn (unS u) mag g x then kFr else 0)\<rparr>)"
    using assms(1) e cm by (simp only: fpCtiw_def Let_def u_def [symmetric] prod.case sat_def r_def) simp
  then show ?thesis unfolding sat w fl(2,3) [OF e]
    by (cases "roundMag rn (unS u) (fpMag u) \<le> int (unat sat)") (simp_all only: if_True if_False not_True_eq_False not_False_eq_True)
qed

text \<open>
  C24. Conversion to a 32-bit integer: a finite double is rounded to an integer in the given mode;
  if that fits, the low word is its two's complement, inexact and fraction-rounded say how it
  compares with the operand; if not, the result saturates toward the operand's sign with the
  invalid-conversion flag alone.
\<close>

theorem fctiw_rounds_or_saturates:
  assumes "fpFinite (unpack fb)" "rn < 4"
  shows "let v = fpVal (unpack fb); n = toInt32 rn v; hi = 0xFFF8000000000000 in
    fpCtiw fb rn =
      (if - (2 ^ 31) \<le> n \<and> n < 2 ^ 31
       then \<lparr>resBits = hi OR ucast (word_of_int n :: u32),
             resFl = (if of_int n \<noteq> v then kXx else 0) OR (if \<bar>v\<bar> < \<bar>of_int n\<bar> then kFr else 0)\<rparr>
       else \<lparr>resBits = hi OR (if v < 0 then 0x80000000 else 0x7FFFFFFF), resFl = kVxcvi\<rparr>)"
proof -
  define u where "u = unpack fb"
  show ?thesis
  proof (cases "unC u = CZero")
    case True
    then have "fpVal u = 0" using unpack_zero [of fb] by (simp add: u_def fpVal_def)
    moreover have "fpCtiw fb rn = \<lparr>resBits = 0xFFF8000000000000, resFl = 0\<rparr>"
      using True unpack_eq [of fb] by (auto simp: fpCtiw_def u_def Let_def split: if_splits)
    ultimately show ?thesis by (simp add: Let_def u_def [symmetric] toInt32_def roundMag_def)
  next
    case False
    then have c: "unC (unpack fb) = CFin" "normalUn u" using assms(1) normal_unpack [of fb] by (auto simp: u_def fpFinite_def)
    note sg = toInt32_sign [OF c(2), of rn]
    define m where "m = roundMag rn (unS u) (fpMag u)"
    define sat :: u64 where "sat = (if unS u then 0x80000000 else 0x7FFFFFFF)"
    have fits: "- (2 ^ 31) \<le> toInt32 rn (fpVal u) \<and> toInt32 rn (fpVal u) < 2 ^ 31 \<longleftrightarrow> m \<le> int (unat sat)"
      using sg(2) by (auto simp: sg(1) sat_def m_def)
    have sv: "(if fpVal u < 0 then 0x80000000 else 0x7FFFFFFF) = sat" by (simp only: fpVal_sign [OF c(2)] sat_def)
    show ?thesis
    proof (cases "unE u \<le> 62")
      case True
      then show ?thesis using fpCtiw_in_range [OF c(1) _ assms(2)]
        unfolding Let_def u_def [symmetric] fits sv by (simp only: sat_def m_def)
    next
      case False
      then have "2 ^ 63 \<le> m" using roundMag_ge [of "2 ^ 63" "fpMag u" rn "unS u"] ctiw_large [OF c(2)] by (simp add: m_def)
      then have "\<not> m \<le> int (unat sat)" by (simp add: sat_def)
      moreover have "fpCtiw fb rn = \<lparr>resBits = 0xFFF8000000000000 OR sat, resFl = kVxcvi\<rparr>"
        using False c(1) by (simp add: fpCtiw_def Let_def u_def sat_def)
      ultimately show ?thesis unfolding Let_def u_def [symmetric] fits sv by simp
    qed
  qed
qed

lemma fctiw_rounds_or_saturates_witness:
  "fpCtiw 0x3FF8000000000000 0 = \<lparr>resBits = 0xFFF8000000000002, resFl = kXx OR kFr\<rparr>"
proof -
  have v: "fpVal (unpack 0x3FF8000000000000) = 3 / 2" by (simp add: witness_values fpVal_def fpMag_def)
  have f: "fpFinite (unpack 0x3FF8000000000000)" by (simp add: witness_values fpFinite_def)
  have "\<lfloor>3 / 2 :: rat\<rfloor> = 1" by (simp add: floor_eq_iff)
  then have n: "toInt32 0 (3 / 2) = 2" by (simp add: toInt32_def roundMag_def Let_def)
  show ?thesis
    using fctiw_rounds_or_saturates [where fb = "0x3FF8000000000000" and rn = 0]
    by (simp add: v n f Let_def)
qed

section \<open>Rounding to single\<close>

definition rspGeneral :: "host_fp \<Rightarrow> fp_env \<Rightarrow> u64 \<Rightarrow> bool" where
  "rspGeneral hf env fb \<longleftrightarrow> envRn env \<noteq> 0 \<or> gHostFastOff hf AND kFastOffDbl \<noteq> 0 \<or> rspFast hf fb = None"

lemma rsp_model:
  assumes "rspGeneral hf env fb" "fpFinite (unpack fb)"
  shows "fpRsp hf fb env = (if unC (unpack fb) = CZero then \<lparr>resBits = fb, resFl = 0\<rparr>
    else case roundPack (unS (unpack fb)) (unE (unpack fb)) (unM (unpack fb)) False env Sgl 0 of
      (bits, fl) \<Rightarrow> \<lparr>resBits = bits, resFl = fl\<rparr>)"
  using assms by (auto simp: rspGeneral_def fpRsp_def Let_def fpFinite_def)

lemma un_acc:
  assumes "normalUn u"
  shows "2 ^ 127 \<le> nat128 \<lparr>hi128 = unM u, lo128 = 0\<rparr>" "accVal \<lparr>hi128 = unM u, lo128 = 0\<rparr> (unE u) 0 = fpMag u"
proof -
  show "2 ^ 127 \<le> nat128 \<lparr>hi128 = unM u, lo128 = 0\<rparr>" using assms by (simp add: nat128_def normalUn_def)
  have n: "(of_nat (nat128 \<lparr>hi128 = unM u, lo128 = 0\<rparr>) :: rat) = of_nat (unat (unM u)) * 2 ^ 64"
    by (simp only: nat128_def u128.select_convs of_nat_add of_nat_mult of_nat_power of_nat_numeral) simp
  have "unE u - 63 = 64 + (unE u - 127)" by simp
  then have p: "(2 :: rat) powi (unE u - 63) = 2 ^ 64 * 2 powi (unE u - 127)"
    unfolding powi_nat powi_split [symmetric] by (simp only: of_nat_numeral)
  show "accVal \<lparr>hi128 = unM u, lo128 = 0\<rparr> (unE u) 0 = fpMag u"
    unfolding accVal_def n fpMag_def p by simp
qed

text \<open>
  Rounding to single delivers the correct rounding of the operand's value in the single format,
  with the right flags, in every mode.
\<close>

theorem frsp_correctly_rounded:
  assumes "fpFinite (unpack fb)" "plainEnv env" "rspGeneral hf env fb"
  shows "delivers Sgl env (fpVal (unpack fb)) False (fpRsp hf fb env)"
proof (cases "unC (unpack fb) = CZero")
  case True
  then show ?thesis using rsp_model [OF assms(3,1)] unpack_zero [of fb] by (simp add: delivers_def fpVal_def)
next
  case False
  let ?u = "unpack fb"
  have u: "normalUn ?u" using finite_cases [OF assms(1)] False by blast
  have pos: "0 < fpMag ?u" using u by (rule fpMag_normal)
  have "correctlyRounded Sgl env (unS ?u) (fpMag ?u) (roundPack (unS ?u) (unE ?u) (unM ?u) False env Sgl 0)"
    using acc_rounds [OF un_acc(1) [OF u] _ assms(2), where th = 0 and jam = False and t = Sgl and neg = "unS ?u" and ex = "unE ?u"]
    by (simp add: un_acc(2) [OF u] tail_def)
  then show ?thesis using pos rsp_model [OF assms(3,1)] False
    by (auto simp: delivers_def fpVal_def split: prod.split)
qed

lemma frsp_correctly_rounded_witness:
  "delivers Sgl (plainRn 2) (fpVal (unpack 0x3FF8000000000000)) False (fpRsp offHost 0x3FF8000000000000 (plainRn 2))"
  using frsp_correctly_rounded [where fb = "0x3FF8000000000000" and env = "plainRn 2" and hf = offHost]
  by (simp add: witness_values fpFinite_def witness_env rspGeneral_def offHost_def)

text \<open>What an unpacked operand may hold.\<close>

definition wfUn :: "fp_un \<Rightarrow> bool" where
  "wfUn u = (case unC u of
     CFin \<Rightarrow> 2 ^ 63 \<le> unat (unM u) \<and> 2 ^ 11 dvd unat (unM u) \<and> - 1074 \<le> unE u \<and> unE u \<le> 1023
   | _ \<Rightarrow> unE u = 0 \<and> unM u = 0)"

text \<open>
  C36. Every encoding unpacks to a well-formed operand: a finite nonzero one has the leading one of
  its significand in bit 63, the eleven bits below the format clear and an exponent the format can
  express, denormals included; zeros, infinities and NaNs carry no significand.
\<close>

theorem unpack_well_formed: "wfUn (unpack f)"
proof (cases "unC (unpack f) = CFin")
  case True
  then show ?thesis using unpack_range [of f] by (simp add: wfUn_def)
next
  case False
  then show ?thesis unfolding unpack_eq [of f] by (auto simp: wfUn_def Let_def split: if_splits)
qed

section \<open>A sum outside the window\<close>

text \<open>
  The window in the hypotheses above is needed: past it an effective subtraction drops the borrow
  of the jammed bits. Rounding \<open>1 - 2 ^ (- 200)\<close> toward zero gives 1, above the exact difference.
\<close>

lemma far_subtraction_misrounds:
  "let a = 0x3FF0000000000000; b = 0xB370000000000000; r = fpAdd hf a b (plainRn 1) Dbl in
     r = \<lparr>resBits = a, resFl = kXx\<rparr> \<and> fpVal (unpack a) + fpVal (unpack b) < fpVal (unpack (resBits r))"
proof -
  have "shortcutsOff hf (plainRn 1)" by (simp add: shortcutsOff_def plainRn_def)
  note off_model(1) [OF this, where a = "0x3FF0000000000000" and b = "0xB370000000000000"]
  moreover have "fmaModel 0x3FF0000000000000 kOne 0xB370000000000000 True False False (plainRn 1) Dbl =
    \<lparr>resBits = 0x3FF0000000000000, resFl = kXx\<rparr>" by code_simp
  ultimately have r: "fpAdd hf 0x3FF0000000000000 0xB370000000000000 (plainRn 1) Dbl = \<lparr>resBits = 0x3FF0000000000000, resFl = kXx\<rparr>"
    by (simp only:)
  have b: "unC (unpack 0xB370000000000000) = CFin" "unS (unpack 0xB370000000000000)" by (simp_all add: unpack_def)
  then have "fpVal (unpack 0xB370000000000000) < 0" using fpMag_normal [OF normal_unpack] by (simp add: fpVal_def)
  then show ?thesis by (simp add: r Let_def)
qed

end
