(* ===== verification/FpuProps.thy ===== *)
theory FpuProps
  imports FpuSummary UserMode FpArith
begin

text \<open>
  What the floating-point executors of \<open>fpu.cpp\<close> keep and deliver: the status register's derived
  bits, precise enabled exceptions, compares and result classes against the operands' values, and
  the executors' place in user-mode isolation.
\<close>

section \<open>The invariant\<close>

lemma fpscr_raise [simp]: "fpscr (st (raiseExc v s0 x c)) = fpscr (st c)" "fpr (st (raiseExc v s0 x c)) = fpr (st c)"
  by (simp_all add: raiseExc_def Let_def)

lemma fpscr_tail [simp]:
  "fpscr (st (trapIfEnabled c)) = fpscr (st c)" "fpscr (st (fpRc i c)) = fpscr (st c)" "fpscr (st (setCrField k v c)) = fpscr (st c)"
  "fpr (st (trapIfEnabled c)) = fpr (st c)" "fpr (st (fpRc i c)) = fpr (st c)" "fpr (st (setCrField k v c)) = fpr (st c)"
  by (simp_all add: trapIfEnabled_def fpRc_def setCrField_def Let_def)

definition keepsSummary :: "'b handler \<Rightarrow> bool" where
  "keepsSummary h \<longleftrightarrow> (\<forall>c i. fpscrOk (fpscr (st c)) \<longrightarrow> fpscrOk (fpscr (st (h c i))))"

lemma summary_commit: "fpscrOk (fpscr (st c)) \<Longrightarrow> fpscrOk (fpscr (st (commit c i r k)))"
  by (simp add: commit_general commitGeneral_def Let_def)

named_theorems fpu_handlers

lemmas [fpu_handlers] = h_fadd_def h_fadds_def h_fsub_def h_fsubs_def h_fmul_def h_fmuls_def h_fdiv_def h_fdivs_def hMadd_def
  h_fmadd_def h_fmadds_def h_fmsub_def h_fmsubs_def h_fnmadd_def h_fnmadds_def h_fnmsub_def h_fnmsubs_def
  h_frsp_def h_fres_def h_frsqrte_def h_fctiw_def h_fctiwz_def h_fsel_def h_fmr_def h_fneg_def h_fabs_def h_fnabs_def
  compare_def h_fcmpu_def h_fcmpo_def h_mffs_def h_mcrfs_def h_mtfsfi_def h_mtfsf_def mtfsb_def h_mtfsb0_def h_mtfsb1_def

lemma summary_handlers: "list_all (\<lambda>(m, h). keepsSummary h) (fpuHandlers hf)"
  by (simp add: fpuHandlers_def keepsSummary_def fpu_handlers summary_commit Let_def)

lemma calm_fpscr [simp]: "prot (fpscr_update f s) = prot s" "prot (fpr_update g s) = prot s"
  by (simp_all add: prot_def)

lemma userOk_trapIfEnabled: "calm c c1 \<Longrightarrow> userOk c (trapIfEnabled c1)"
proof (rule calm_userOk)
  have "trapped c1 (raiseExc v s0 x c1)" for v s0 x by (rule trapped_raise) simp_all
  then show "userOk c1 (trapIfEnabled c1)" by (simp add: trapIfEnabled_def userOk_def)
qed

lemma calm_steps:
  "calm c c1 \<Longrightarrow> calm c (fpRc i c1)" "calm c c1 \<Longrightarrow> calm c (setFpscr f c1)" "calm c c1 \<Longrightarrow> calm c (setFpr r v c1)"
  "calm c c1 \<Longrightarrow> calm c (setCrField k w c1)" "(P \<Longrightarrow> calm c c1) \<Longrightarrow> (\<not> P \<Longrightarrow> calm c c2) \<Longrightarrow> calm c (if P then c1 else c2)"
  by (simp_all add: calm_def fpRc_def)

lemma userOk_of_calm: "calm c c1 \<Longrightarrow> userOk c c1"
  by (simp add: userOk_def)

lemma userOk_branch: "(P \<Longrightarrow> userOk c c1) \<Longrightarrow> (\<not> P \<Longrightarrow> userOk c c2) \<Longrightarrow> userOk c (if P then c1 else c2)"
  by simp

lemma userOk_commit: "userOk c (commit c i r k)"
  unfolding commit_def commitFast_def commitGeneral_def Let_def
  by (rule userOk_branch userOk_trapIfEnabled calm_steps calm_refl)+

lemma fpu_always_ok:
  "alwaysOk (h_fadd hf)" "alwaysOk (h_fadds hf)" "alwaysOk (h_fsub hf)" "alwaysOk (h_fsubs hf)" "alwaysOk (h_fmul hf)"
  "alwaysOk (h_fmuls hf)" "alwaysOk h_fdiv" "alwaysOk h_fdivs" "alwaysOk (hMadd t na nr hf)"
  "alwaysOk (h_frsp hf)" "alwaysOk h_fres" "alwaysOk h_frsqrte" "alwaysOk h_fctiw" "alwaysOk h_fctiwz"
  "alwaysOk h_fsel" "alwaysOk h_fmr" "alwaysOk h_fneg" "alwaysOk h_fabs" "alwaysOk h_fnabs" "alwaysOk h_fcmpu" "alwaysOk h_fcmpo"
  "alwaysOk h_mffs" "alwaysOk h_mcrfs" "alwaysOk h_mtfsfi" "alwaysOk h_mtfsf" "alwaysOk h_mtfsb0" "alwaysOk h_mtfsb1"
  unfolding alwaysOk_def fpu_handlers Let_def
  by (intro allI, (rule userOk_commit userOk_branch userOk_trapIfEnabled userOk_of_calm calm_steps calm_refl)+)+

lemma userSafe_handlers: "list_all (\<lambda>(m, h). userSafe h) (fpuHandlers hf)"
  by (simp add: fpuHandlers_def h_fmadd_def h_fmadds_def h_fmsub_def h_fmsubs_def h_fnmadd_def h_fnmadds_def h_fnmsub_def
    h_fnmsubs_def fpu_always_ok alwaysOk_userSafe)

section \<open>Exceptions\<close>

definition suppresses :: "u32 \<Rightarrow> u32 \<Rightarrow> bool" where
  "suppresses fl f \<longleftrightarrow> (fl AND 0xFE0 \<noteq> 0 \<and> f AND fVE \<noteq> 0) \<or> (fl AND kZx \<noteq> 0 \<and> f AND fZE \<noteq> 0)"

lemma mapFlags_vx: "mapFlags fl AND fVxAll = 0 \<longleftrightarrow> fl AND 0xFE0 = 0"
proof -
  have m: "(0xFE0 :: u32) = kVxsnan OR kVxisi OR kVxidi OR kVxzdz OR kVximz OR kVxcvi OR kVxsqrt" by simp
  have v: "fVxAll = 0x01F80700" by (simp add: fVxAll_def)
  show ?thesis unfolding m bit.conj_disj_distrib or_zero_iff mapFlags_def v bit.conj_disj_distrib2
    by auto
qed

lemma mapFlags_zx: "mapFlags fl AND fZX = 0 \<longleftrightarrow> fl AND kZx = 0"
  unfolding mapFlags_def bit.conj_disj_distrib2 or_zero_iff by auto

lemma mapFlags_fprf: "mapFlags fl AND fFPRF = 0"
  unfolding mapFlags_def bit.conj_disj_distrib2 or_zero_iff by auto

lemma refresh_fprf: "refresh f AND fFPRF = f AND fFPRF"
proof (rule word_eq32I)
  fix n
  have "\<not> bit fFPRF 29" "\<not> bit fFPRF 30" by simp_all
  then show "bit (refresh f AND fFPRF) n = bit (f AND fFPRF) n"
    using refresh_bits(3) [of n f] by (cases "n = 29 \<or> n = 30") (auto simp: bit_and_iff)
qed

lemma commit_fprf:
  assumes "fpscrOk (fpscr (st c))" "suppresses (resFl r) (fpscr (st c))"
  shows "fpscr (st (commit c i r k)) AND fFPRF = fpscr (st c) AND fFPRF"
proof -
  have s: "mapFlags (resFl r) AND fVxAll \<noteq> 0 \<and> fpscr (st c) AND fVE \<noteq> 0 \<or> mapFlags (resFl r) AND fZX \<noteq> 0 \<and> fpscr (st c) AND fZE \<noteq> 0"
    using assms(2) by (simp add: suppresses_def mapFlags_vx mapFlags_zx)
  have m: "fFX AND fFPRF = 0" "fFI AND fFPRF = 0" "fFR AND fFPRF = 0" "NOT (fFR OR fFI) AND fFPRF = fFPRF" by simp_all
  show ?thesis
    unfolding commit_general [OF assms(1)] commitGeneral_def Let_def if_P [OF s] using s
    by (simp only: fpscr_tail refresh_fprf) (simp add: refresh_fprf bit.conj_disj_distrib2 mapFlags_fprf and.assoc)
qed

lemma commit_fpr:
  assumes "fpscrOk (fpscr (st c))"
  shows "fpr (st (commit c i r k)) =
    (if suppresses (resFl r) (fpscr (st c)) then fpr (st c) else (fpr (st c))(f_rt i := resBits r))"
  unfolding commit_general [OF assms] commitGeneral_def suppresses_def by (simp add: Let_def mapFlags_vx mapFlags_zx)

lemma raised_tail:
  "raisedThisStep (fpRc i c) = raisedThisStep c" "pc (st (fpRc i c)) = pc (st c)" "msr (st (fpRc i c)) = msr (st c)"
  by (simp_all add: fpRc_def setCrField_def)

lemma commit_trap:
  fixes c :: "'b cpu" and r :: fp_res and k :: fprf and i :: u32
  assumes "fpscrOk (fpscr (st c))" "\<not> raisedThisStep c"
  defines "c' \<equiv> commit c i r k"
  shows "raisedThisStep c' \<longleftrightarrow> fpEnabled (fpscr (st c')) \<and> msr (st c) AND (MSR_FE0 OR MSR_FE1) \<noteq> 0"
    "raisedThisStep c' \<Longrightarrow> srr0 (st c') = pc (st c) - 4"
    "raisedThisStep c' \<Longrightarrow> srr1 (st c') = (msr (st c) AND 0x87C0FFFF) OR kSrr1ProgFpEnabled"
    "raisedThisStep c' \<Longrightarrow> msr (st c') = excMsr Program (msr (st c))"
    "\<not> raisedThisStep c' \<Longrightarrow> msr (st c') = msr (st c)"
proof -
  have "\<exists>d. c' = trapIfEnabled d \<and> \<not> raisedThisStep d \<and> pc (st d) = pc (st c) \<and> msr (st d) = msr (st c)"
    unfolding c'_def commit_general [OF assms(1)] commitGeneral_def Let_def
    by (rule exI, rule conjI, rule refl) (simp add: raised_tail assms(2))
  then obtain d where d: "c' = trapIfEnabled d" "\<not> raisedThisStep d" "pc (st d) = pc (st c)" "msr (st d) = msr (st c)" by blast
  have f: "fpscr (st c') = fpscr (st d)" by (simp add: d(1))
  have "fpscrOk (fpscr (st d))" using summary_commit [OF assms(1), of i r k] f by (simp add: c'_def)
  then have e: "fpscr (st d) AND fFEX \<noteq> 0 \<longleftrightarrow> fpEnabled (fpscr (st c'))" by (simp add: fpscrOk_def f)
  show "raisedThisStep c' \<longleftrightarrow> fpEnabled (fpscr (st c')) \<and> msr (st c) AND (MSR_FE0 OR MSR_FE1) \<noteq> 0"
    unfolding e [symmetric] unfolding d(1) trapIfEnabled_def using d(2,4) by simp
  show "raisedThisStep c' \<Longrightarrow> srr0 (st c') = pc (st c) - 4"
    "raisedThisStep c' \<Longrightarrow> srr1 (st c') = (msr (st c) AND 0x87C0FFFF) OR kSrr1ProgFpEnabled"
    "raisedThisStep c' \<Longrightarrow> msr (st c') = excMsr Program (msr (st c))"
    "\<not> raisedThisStep c' \<Longrightarrow> msr (st c') = msr (st c)"
    unfolding d(1) trapIfEnabled_def using d(2-4) by (auto split: if_splits)
qed

definition fpTestCpu :: "u32 \<Rightarrow> unit cpu" where
  "fpTestCpu f = (let c = initCpu undefined () in c\<lparr>st := (st c)\<lparr>fpscr := f, msr := 0x2800, pc := 0x1004\<rparr>\<rparr>)"

text \<open>
  C8. The common tail of the arithmetic instructions delivers enabled exceptions precisely: the
  processor enters the program exception iff the updated status register has an exception whose
  enable is set and the MSR allows it, with SRR0 at the instruction itself and the saved MSR in
  SRR1; and the target register and the result class keep their old value exactly when an
  enabled invalid operation or zero divide suppresses the result.
\<close>

theorem enabled_exception_precise:
  fixes c :: "'b cpu"
  assumes "fpscrOk (fpscr (st c))" "\<not> raisedThisStep c"
  shows "let c' = commit c i r k; s = st c; s' = st c' in
    (raisedThisStep c' \<longleftrightarrow> fpEnabled (fpscr s') \<and> msr s AND (MSR_FE0 OR MSR_FE1) \<noteq> 0) \<and>
    (if raisedThisStep c' then srr0 s' = pc s - 4 \<and> srr1 s' = (msr s AND 0x87C0FFFF) OR kSrr1ProgFpEnabled \<and> msr s' = excMsr Program (msr s)
     else msr s' = msr s) \<and>
    (if suppresses (resFl r) (fpscr s) then fpr s' = fpr s \<and> fpscr s' AND fFPRF = fpscr s AND fFPRF
     else fpr s' = (fpr s)(f_rt i := resBits r))"
  unfolding Let_def using commit_trap [OF assms, of i r k] commit_fpr [OF assms(1), of i r k] commit_fprf [OF assms(1), of r i k]
  by (auto simp only: if_True if_False simp_thms split: if_split)

lemma enabled_exception_precise_witness:
  "let c = fpTestCpu fVE; c' = commit c 0 \<lparr>resBits = kQNaNGen, resFl = kVxsnan\<rparr> FDbl in
   raisedThisStep c' \<and> srr0 (st c') = 0x1000 \<and> fpr (st c') = fpr (st c)"
proof -
  let ?c = "fpTestCpu fVE" and ?r = "\<lparr>resBits = kQNaNGen, resFl = kVxsnan\<rparr>"
  have c: "fpscr (st ?c) = fVE" "\<not> raisedThisStep ?c" "msr (st ?c) = 0x2800" "pc (st ?c) = 0x1004"
    by (simp_all add: fpTestCpu_def Let_def initCpu_def initState_def)
  have ok: "fpscrOk (fpscr (st ?c))" by (simp add: c fpscrOk_def fpEnabled_def fVxAll_def)
  have "fpEnabled (fpscr (st (commit ?c 0 ?r FDbl)))"
    unfolding commit_general [OF ok] commitGeneral_def mapFlags_def
    by (simp add: c Let_def fVxAll_def fpEnabled_def refresh_def)
  with enabled_exception_precise [OF ok c(2), of 0 ?r FDbl] show ?thesis
    by (simp add: c Let_def suppresses_def)
qed

section \<open>Compares and classes\<close>

definition magField :: "u64 \<Rightarrow> nat" where
  "magField f = unat f mod 2 ^ 63"

lemma magField_split: "magField f = expField f * 2 ^ 52 + fracField f"
proof -
  have "unat f mod 2 ^ 63 = unat f mod (2 ^ 52 * 2 ^ 11)" by simp
  also have "\<dots> = 2 ^ 52 * (unat f div 2 ^ 52 mod 2 ^ 11) + unat f mod 2 ^ 52" by (rule mod_mult2_eq)
  finally show ?thesis by (simp add: magField_def expField_def fracField_def)
qed

text \<open>The magnitude of a finite encoding grows with the encoding.\<close>

lemma fpMag_eq:
  assumes "expField f \<noteq> 2047"
  shows "fpMag (unpack f) = of_nat (fracField f + (if expField f = 0 then 0 else 2 ^ 52)) * 2 powi (int (max 1 (expField f)) - 1075)"
  using unpack_mag [OF assms] by (auto simp: max_def)

lemma fpMag_less:
  assumes "expField a \<noteq> 2047" "expField b \<noteq> 2047" "magField a < magField b"
  shows "fpMag (unpack a) < fpMag (unpack b)"
proof -
  define ea eb where "ea = max 1 (expField a)" and "eb = max 1 (expField b)"
  define ma mb where "ma = fracField a + (if expField a = 0 then 0 else 2 ^ 52)" and "mb = fracField b + (if expField b = 0 then 0 else 2 ^ 52)"
  have v: "fpMag (unpack a) = of_nat ma * 2 powi (int ea - 1075)" "fpMag (unpack b) = of_nat mb * 2 powi (int eb - 1075)"
    by (simp_all only: fpMag_eq [OF assms(1)] fpMag_eq [OF assms(2)] ea_def eb_def ma_def mb_def)
  note f = field_bounds(1) [of a] field_bounds(1) [of b]
  have le: "expField a \<le> expField b"
  proof (rule ccontr)
    assume "\<not> ?thesis"
    then have "(expField b + 1) * 2 ^ 52 \<le> expField a * 2 ^ 52" by simp
    then show False using assms(3) f unfolding magField_split by simp
  qed
  show ?thesis
  proof (cases "ea = eb")
    case True
    have "ma < mb"
    proof (cases "expField a = expField b")
      case True
      then show ?thesis using assms(3) unfolding magField_split by (simp add: ma_def mb_def)
    next
      case False
      then have "expField a = 0" "expField b = 1" using True le by (auto simp: ea_def eb_def max_def split: if_splits)
      then show ?thesis using f by (simp add: ma_def mb_def)
    qed
    then show ?thesis unfolding v True by (intro mult_strict_right_mono) simp_all
  next
    case False
    with le have lt: "ea < eb" "mb \<ge> 2 ^ 52" by (auto simp: ea_def eb_def mb_def max_def split: if_splits)
    have "of_nat ma < (2 :: rat) ^ 53" using f by (simp add: ma_def) 
    then have "of_nat ma * 2 powi (int ea - 1075) < (2 :: rat) ^ 53 * 2 powi (int ea - 1075)" by simp
    also have "\<dots> = 2 ^ 52 * 2 powi (int ea - 1074)" using powi_split [of 1 "int ea - 1075"] by (simp add: algebra_simps)
    also have "\<dots> \<le> of_nat mb * 2 powi (int eb - 1075)"
      using lt by (intro mult_mono powi_mono) simp_all
    finally show ?thesis unfolding v .
  qed
qed

lemma fpMag_less_iff:
  assumes "expField a \<noteq> 2047" "expField b \<noteq> 2047"
  shows "magField a < magField b \<longleftrightarrow> fpMag (unpack a) < fpMag (unpack b)"
proof -
  have "fpMag (unpack a) = fpMag (unpack b)" if "magField a = magField b"
  proof -
    have "expField a = expField b \<and> fracField a = fracField b"
      using that field_bounds [of a] field_bounds [of b] unfolding magField_split
      by (metis add_right_cancel div_mult_self3 div_less mod_mult_self3 mod_less add.right_neutral zero_neq_numeral power_not_zero)
    then show ?thesis using fpMag_eq [OF assms(1)] fpMag_eq [OF assms(2)] by simp
  qed
  then show ?thesis
    using fpMag_less [OF assms] fpMag_less [OF assms(2,1)] by (metis linorder_neq_iff not_less_iff_gr_or_eq)
qed

definition fpNeg :: "u64 \<Rightarrow> bool" where
  "fpNeg f \<longleftrightarrow> 2 ^ 63 \<le> unat f"

definition fpKey :: "u64 \<Rightarrow> int" where
  "fpKey f = (if fpNeg f then - int (magField f) else int (magField f))"

lemma unS_unpack: "unS (unpack f) = fpNeg f"
  by (simp add: unpack_eq Let_def fpNeg_def)

lemma isNan_fields: "isNan f \<longleftrightarrow> expField f = 2047 \<and> fracField f \<noteq> 0"
proof -
  have m: "unat (drop_bit 52 f AND 0x7FF) = expField f"
  proof -
    have "(0x7FF :: u64) = mask 11" by (simp add: mask_eq_exp_minus_1)
    then show ?thesis by (simp only: unat_and_mask unat_drop_bit) (simp add: expField_def)
  qed
  have "drop_bit 52 f AND 0x7FF = 0x7FF \<longleftrightarrow> expField f = 2047" using m by (simp add: word_unat_eq_iff)
  moreover have "f AND 0x000FFFFFFFFFFFFF = 0 \<longleftrightarrow> fracField f = 0" using field_words(1) [of f] by (simp add: unat_eq_0 [symmetric])
  ultimately show ?thesis unfolding isNan_def by simp
qed

lemma fcmp_tests:
  "push_bit 1 f = 0 \<longleftrightarrow> magField f = 0" "drop_bit 63 f \<noteq> 0 \<longleftrightarrow> fpNeg f" "unat (f AND 0x7FFFFFFFFFFFFFFF) = magField f"
proof -
  show "push_bit 1 f = 0 \<longleftrightarrow> magField f = 0" using push_bit_mod [of 1 f] by (simp add: magField_def unat_eq_0 [symmetric])
  show "drop_bit 63 f \<noteq> 0 \<longleftrightarrow> fpNeg f" by (simp only: fpNeg_def drop_bit_nonzero)
  have "(0x7FFFFFFFFFFFFFFF :: u64) = mask 63" by (simp add: mask_eq_exp_minus_1)
  then show "unat (f AND 0x7FFFFFFFFFFFFFFF) = magField f" by (simp only: unat_and_mask) (simp add: magField_def)
qed

lemma fcmp_key:
  assumes "\<not> isNan a" "\<not> isNan b"
  shows "fcmp a b = (if fpKey a < fpKey b then 8 else if fpKey b < fpKey a then 4 else 2)"
proof -
  have e: "a AND 0x7FFFFFFFFFFFFFFF = b AND 0x7FFFFFFFFFFFFFFF \<longleftrightarrow> magField a = magField b"
    "a AND 0x7FFFFFFFFFFFFFFF < b AND 0x7FFFFFFFFFFFFFFF \<longleftrightarrow> magField a < magField b"
    unfolding word_unat_eq_iff word_less_nat_alt fcmp_tests(3) by simp_all
  show ?thesis
    unfolding fcmp_def Let_def fcmp_tests(1,2) e fpKey_def using assms
    by (cases "fpNeg a"; cases "fpNeg b"; simp)
qed

lemma finite_fields: "fpFinite (unpack f) \<longleftrightarrow> expField f \<noteq> 2047"
  by (simp add: fpFinite_def unpack_eq Let_def)

lemma fpMag_nonneg: "0 \<le> fpMag u"
  unfolding fpMag_def by (intro mult_nonneg_nonneg of_nat_0_le_iff zero_le_power_int) simp

lemma fpMag_zero: "magField f = 0 \<Longrightarrow> fpMag (unpack f) = 0"
  using fpMag_eq [of f] unfolding magField_split by simp

lemma fpMag_zero_iff:
  assumes "expField f \<noteq> 2047"
  shows "magField f = 0 \<longleftrightarrow> fpMag (unpack f) = 0"
proof -
  have z: "expField 0 \<noteq> 2047" "magField 0 = 0" by (simp_all add: expField_def magField_def)
  then have "0 < fpMag (unpack f)" if "0 < magField f"
    using fpMag_less [of 0 f] fpMag_zero [of 0] assms that by simp
  then show ?thesis using fpMag_zero [of f] by (cases "magField f = 0") auto
qed

lemma key_value:
  assumes "expField a \<noteq> 2047" "expField b \<noteq> 2047"
  shows "fpKey a < fpKey b \<longleftrightarrow> fpVal (unpack a) < fpVal (unpack b)"
proof -
  let ?A = "fpMag (unpack a)" and ?B = "fpMag (unpack b)"
  note ml = fpMag_less_iff [OF assms] fpMag_less_iff [OF assms(2,1)]
  note z = fpMag_zero_iff [OF assms(1)] fpMag_zero_iff [OF assms(2)]
  show ?thesis
    using fpMag_nonneg [of "unpack a"] fpMag_nonneg [of "unpack b"] ml z
    unfolding fpKey_def fpVal_def unS_unpack by (cases "fpNeg a"; cases "fpNeg b"; auto)
qed

text \<open>The order of the values, infinities included.\<close>

definition fpLess :: "u64 \<Rightarrow> u64 \<Rightarrow> bool" where
  "fpLess a b \<longleftrightarrow> (let x = unpack a; y = unpack b in
     if unC x = CInf then unS x \<and> \<not> (unC y = CInf \<and> unS y)
     else if unC y = CInf then \<not> unS y else fpVal x < fpVal y)"

lemma inf_fields: "unC (unpack f) = CInf \<longleftrightarrow> expField f = 2047 \<and> fracField f = 0"
  by (simp add: unpack_eq Let_def)

lemma key_less:
  assumes "\<not> isNan a" "\<not> isNan b"
  shows "fpKey a < fpKey b \<longleftrightarrow> fpLess a b"
proof -
  have inf: "magField f = 2047 * 2 ^ 52" if "unC (unpack f) = CInf" for f
    using that unfolding inf_fields magField_split by simp
  have fin: "expField f \<noteq> 2047 \<and> magField f < 2047 * 2 ^ 52" if "\<not> isNan f" "unC (unpack f) \<noteq> CInf" for f
  proof -
    have e: "expField f \<noteq> 2047" using that by (auto simp: isNan_fields inf_fields)
    then have "(expField f + 1) * 2 ^ 52 \<le> 2047 * 2 ^ 52" using field_bounds(2) [of f] by (intro mult_right_mono) simp_all
    then show ?thesis using e field_bounds(1) [of f] unfolding magField_split by simp
  qed
  show ?thesis
  proof (cases "unC (unpack a) = CInf \<or> unC (unpack b) = CInf")
    case True
    then show ?thesis
      using inf [of a] inf [of b] fin [OF assms(1)] fin [OF assms(2)] unfolding fpLess_def Let_def unS_unpack fpKey_def
      by (cases "unC (unpack a) = CInf"; cases "unC (unpack b) = CInf"; cases "fpNeg a"; cases "fpNeg b"; simp)
  next
    case False
    then show ?thesis using key_value [of a b] fin [OF assms(1)] fin [OF assms(2)] by (simp add: fpLess_def)
  qed
qed

text \<open>
  C21. The floating-point compare is the order of the values: unordered when an operand is a NaN,
  else less, greater or equal as the operands' values are, with the two zeros equal and the
  infinities at the ends.
\<close>

theorem fcmp_orders_values:
  "fcmp a b = (if isNan a \<or> isNan b then 1 else if fpLess a b then 8 else if fpLess b a then 4 else 2)"
proof (cases "isNan a \<or> isNan b")
  case True
  then show ?thesis by (simp add: fcmp_def Let_def)
next
  case False
  then show ?thesis using fcmp_key [of a b] key_less [of a b] key_less [of b a] by simp
qed

section \<open>The result class\<close>

definition classOf :: "u64 \<Rightarrow> fp_tgt \<Rightarrow> u32" where
  "classOf v t = (let u = unpack v in
     case unC u of CQNaN \<Rightarrow> 0x11 | CSNaN \<Rightarrow> 0x11
     | CInf \<Rightarrow> (if unS u then 0x09 else 0x05)
     | CZero \<Rightarrow> (if unS u then 0x12 else 0x02)
     | CFin \<Rightarrow> if fpMag u < 2 powi fmtEmin t then (if unS u then 0x18 else 0x14) else (if unS u then 0x08 else 0x04))"

lemma fpMag_below:
  assumes "expField f \<noteq> 2047" "expField k \<noteq> 2047" "fracField k = 0"
  shows "fpMag (unpack f) < fpMag (unpack k) \<longleftrightarrow> expField f < expField k"
proof -
  have "magField f < magField k \<longleftrightarrow> expField f < expField k"
  proof
    assume "expField f < expField k"
    then have "(expField f + 1) * 2 ^ 52 \<le> expField k * 2 ^ 52" by (intro mult_right_mono) simp_all
    then show "magField f < magField k" using field_bounds(1) [of f] unfolding magField_split by simp
  next
    assume "magField f < magField k"
    then have "expField f * 2 ^ 52 < expField k * 2 ^ 52" using assms(3) unfolding magField_split by linarith
    then show "expField f < expField k" by simp
  qed
  then show ?thesis using fpMag_less_iff [OF assms(1,2)] by blast
qed

lemma classify_fields:
  "classify v sgl = (let lo = if sgl then 897 else 1; e = expField v in
     if lo \<le> e \<and> e < 2047 then (if fpNeg v then 0x08 else 0x04)
     else if e = 2047 then (if fracField v \<noteq> 0 then 0x11 else if fpNeg v then 0x09 else 0x05)
     else if e = 0 \<and> fracField v = 0 then (if fpNeg v then 0x12 else 0x02) else if fpNeg v then 0x18 else 0x14)"
proof -
  let ?e = "ucast (drop_bit 52 v) AND 0x7FF :: u32" and ?m = "v AND 0x000FFFFFFFFFFFFF"
  have e: "unat ?e = expField v" and m: "unat ?m = fracField v" by (rule field_words)+
  have c: "?e = 0x7FF \<longleftrightarrow> expField v = 2047" "?e = 0 \<longleftrightarrow> expField v = 0" "?m = 0 \<longleftrightarrow> fracField v = 0"
    using e m by (auto simp only: word_unat_eq_iff) simp_all
  have lo: "?e - l < 0x7FF - l \<longleftrightarrow> unat l \<le> expField v \<and> expField v < 2047" if "l \<le> 0x7FF" for l
  proof -
    have l: "unat l \<le> 2047" using that by (simp add: word_le_nat_alt)
    then have r: "unat (0x7FF - l) = 2047 - unat l" by (simp add: unat_sub that)
    show ?thesis
    proof (cases "l \<le> ?e")
      case True
      then have "unat (?e - l) = expField v - unat l" using e by (simp add: unat_sub)
      then show ?thesis using True r e l unfolding word_less_nat_alt word_le_nat_alt by auto
    next
      case False
      then have n: "\<not> unat l \<le> expField v" using e by (simp add: word_le_nat_alt)
      have "unat (?e - l) = 2 ^ 32 + expField v - unat l"
        using e n l field_bounds(2) [of v] by (simp add: unat_sub_if_size word_size)
      then show ?thesis using n r l field_bounds(2) [of v] unfolding word_less_nat_alt by auto
    qed
  qed
  have l: "?e - (if sgl then 897 else 1) < 0x7FF - (if sgl then 897 else 1) \<longleftrightarrow> (if sgl then 897 else 1) \<le> expField v \<and> expField v < 2047"
    using lo [of 897] lo [of 1] by (cases sgl) simp_all
  show ?thesis unfolding classify_def Let_def l c fcmp_tests(2) by simp
qed

text \<open>
  The result class \<^verbatim>\<open>classify\<close> gives is that of the delivered value in the result's format:
  its sign and whether it is a NaN, an infinity, a zero, denormalized (below the format's least
  normal number, although a single's value is held as a normal double) or normal.
\<close>

theorem classify_value: "classify v (t = Sgl) = classOf v t"
proof -
  define k where "k = (if t = Sgl then 0x3810000000000000 else 0x0010000000000000 :: u64)"
  define lo :: nat where "lo = (if t = Sgl then 897 else 1)"
  have k: "expField k = lo" "fracField k = 0" by (simp_all add: k_def lo_def expField_def fracField_def)
  have "fpMag (unpack k) = 2 ^ 52 * 2 powi (int lo - 1075)"
    using fpMag_eq [of k] k by (simp add: lo_def)
  also have "\<dots> = 2 powi fmtEmin t"
    unfolding powi_nat powi_split [symmetric] using fmt_cases [of t] by (auto simp: lo_def)
  finally have m: "fpMag (unpack k) = 2 powi fmtEmin t" .
  have b: "fpMag (unpack v) < 2 powi fmtEmin t \<longleftrightarrow> expField v < lo" if "expField v \<noteq> 2047"
    unfolding m [symmetric] using fpMag_below [OF that _ k(2)] k(1) by (simp add: lo_def)
  have c: "unC (unpack v) = (if expField v = 2047 then if fracField v = 0 then CInf else if 2 ^ 51 \<le> fracField v then CQNaN else CSNaN
    else if expField v = 0 \<and> fracField v = 0 then CZero else CFin)"
    by (simp add: unpack_eq Let_def)
  have l: "1 \<le> lo" by (simp add: lo_def)
  show ?thesis
    unfolding classify_fields lo_def [symmetric] Let_def classOf_def c unS_unpack
    using b field_bounds(2) [of v] l by (cases "expField v = 2047") auto
qed

section \<open>The properties of the executors\<close>

text \<open>
  C34. The straight line \<^verbatim>\<open>commit\<close> takes on an ordinary result (at most inexact, nothing new enabled)
  is the general path: on every processor whose summary bits are right, the two leave the same
  status register, target, condition field and exception state.
\<close>

theorem commit_shortcut_sound:
  assumes "fpscrOk (fpscr (st c))"
  shows "commit c i r k = commitGeneral i r k c"
  using assms by (rule commit_general)

lemma commit_shortcut_sound_witness:
  "let c = fpTestCpu fXX; r = \<lparr>resBits = 0x3FF0000000000000, resFl = kXx\<rparr> in commit c 0 r FDbl = commitGeneral 0 r FDbl c"
proof -
  have "fpscrOk (fpscr (st (fpTestCpu fXX)))" by (simp add: fpTestCpu_def Let_def fpscrOk_def fpEnabled_def fVxAll_def)
  then show ?thesis unfolding Let_def by (rule commit_shortcut_sound)
qed

text \<open>
  C35. Every floating-point handler keeps the derived bits of the status register derived: VX is
  set exactly when some invalid-operation bit is, FEX exactly when some exception and its enable are.
\<close>

theorem fpu_keeps_summary:
  assumes "(m, h) \<in> set (fpuHandlers hf)" "fpscrOk (fpscr (st c))"
  shows "fpscrOk (fpscr (st (h c i)))"
  using summary_handlers [of hf] assms by (auto simp: list_all_iff keepsSummary_def)

lemma fpu_keeps_summary_witness:
  "fpscrOk (fpscr (st (h_mtfsb1 (fpTestCpu fXX) 0xFCE0004C)))"
proof -
  have f: "(''mtfsb1'', h_mtfsb1) \<in> set (fpuHandlers hf)" for hf by (simp add: fpuHandlers_def)
  have "fpscrOk (fpscr (st (fpTestCpu fXX)))" by (simp add: fpTestCpu_def Let_def fpscrOk_def fpEnabled_def fVxAll_def)
  then show ?thesis by (rule fpu_keeps_summary [OF f])
qed

lemma bound_fpu_safe: "bindFpuHandlers hf m = Some h \<Longrightarrow> userSafe h"
  using userSafe_handlers [of hf] by (auto simp: bindFpuHandlers_def list_all_iff dest!: map_of_SomeD)

text \<open>
  User-mode isolation with the floating-point unit bound: no floating-point instruction opens
  a way to the supervisor's registers. With the unit's own handlers in place of the step's
  parameter, a processor that executes in user mode keeps every supervisor register until an
  exception takes it out.
\<close>

theorem fpu_user_isolated:
  assumes "\<forall>k < n. userMode ((step (bindFpuHandlers hf) ^^ k) c)" "rowsOk c"
  shows "let c' = (step (bindFpuHandlers hf) ^^ n) c in
    prot (st c') = prot (st c) \<or> protX (st c') = protX (st c) \<and> (\<exists>v. enters v (st c) (st c'))"
  using stOk_steps [OF assms bound_fpu_safe] by (simp add: stOk_def Let_def)

lemma fpu_user_isolated_witness:
  "let s = st noFetchCpu; s' = st ((step (bindFpuHandlers offHost) ^^ 1) noFetchCpu) in
     prot s' = prot s \<or> protX s' = protX s \<and> (\<exists>v. enters v s s')"
proof -
  have "\<forall>k < 1. userMode ((step (bindFpuHandlers offHost) ^^ k) noFetchCpu)"
    by (simp add: userMode_def noFetchCpu_def)
  from fpu_user_isolated [OF this rowsOk_noFetch] show ?thesis by (simp add: Let_def)
qed

end
