(* ===== verification/Vector.thy ===== *)
theory Vector
  imports ExecMem
begin

text \<open>
  The AltiVec executors of \<^verbatim>\<open>core/src/altivec.cpp\<close> except floating point: elements of a vector
  register in big-endian order, memory access, permutation, shifts, integer arithmetic with the
  sticky saturation bit, compares, packing. A loop that stores every element of a result is the
  vector of those elements (\<open>vecB\<close>, \<open>vecH\<close>, \<open>vecW\<close>); a macro of the source is a definition over the
  expression it takes. \<^verbatim>\<open>int\<close> arithmetic of the source that cannot overflow is on \<open>int\<close>.
\<close>

section \<open>Elements\<close>

type_synonym vec = "u32 \<Rightarrow> u8"

abbreviation (input) vNJ :: u32 where "vNJ \<equiv> 0x00010000"
abbreviation (input) vSAT :: u32 where "vSAT \<equiv> 0x00000001"

definition gb8 :: "vec \<Rightarrow> nat \<Rightarrow> u8" where
  "gb8 v k = v (of_nat k)"

definition gh :: "vec \<Rightarrow> nat \<Rightarrow> u16" where
  "gh v k = push_bit 8 (ucast (v (of_nat (2 * k)))) OR ucast (v (of_nat (2 * k + 1)))"

definition gw :: "vec \<Rightarrow> nat \<Rightarrow> u32" where
  "gw v k = push_bit 24 (ucast (v (of_nat (4 * k)))) OR push_bit 16 (ucast (v (of_nat (4 * k + 1)))) OR
     push_bit 8 (ucast (v (of_nat (4 * k + 2)))) OR ucast (v (of_nat (4 * k + 3)))"

definition vecB :: "(nat \<Rightarrow> u8) \<Rightarrow> vec" where
  "vecB f = (\<lambda>b. if b < 16 then f (unat b) else 0)"

definition vecH :: "(nat \<Rightarrow> u16) \<Rightarrow> vec" where
  "vecH f = vecB (\<lambda>j. if even j then ucast (drop_bit 8 (f (j div 2))) else ucast (f (j div 2)))"

definition vecW :: "(nat \<Rightarrow> u32) \<Rightarrow> vec" where
  "vecW f = vecB (\<lambda>j. ucast (drop_bit (8 * (3 - j mod 4)) (f (j div 4))))"

definition VA :: "'b cpu \<Rightarrow> u32 \<Rightarrow> vec" where "VA c i = vr (st c) (f_ra i)"
definition VB :: "'b cpu \<Rightarrow> u32 \<Rightarrow> vec" where "VB c i = vr (st c) (f_rb i)"
definition VC :: "'b cpu \<Rightarrow> u32 \<Rightarrow> vec" where "VC c i = vr (st c) (f_rc_vec i)"

definition setVD :: "u32 \<Rightarrow> vec \<Rightarrow> 'b cpu \<Rightarrow> 'b cpu" where
  "setVD i v c = c\<lparr>st := (st c)\<lparr>vr := (vr (st c))(f_rt i := v)\<rparr>\<rparr>"

text \<open>\<^verbatim>\<open>sat\<close>, called for some element.\<close>

definition setSat :: "bool \<Rightarrow> 'b cpu \<Rightarrow> 'b cpu" where
  "setSat s c = (if s then c\<lparr>st := (st c)\<lparr>vscr := vscr (st c) OR vSAT\<rparr>\<rparr> else c)"

text \<open>Clamping to a range, and whether it changed the value.\<close>

definition satTo :: "int \<Rightarrow> int \<Rightarrow> int \<Rightarrow> 'a::len word \<times> bool" where
  "satTo lo hi x = (if x < lo then (word_of_int lo, True) else if hi < x then (word_of_int hi, True) else (word_of_int x, False))"

definition satU8 :: "int \<Rightarrow> u8 \<times> bool" where "satU8 = satTo 0 255"
definition satS8 :: "int \<Rightarrow> u8 \<times> bool" where "satS8 = satTo (-128) 127"
definition satU16 :: "int \<Rightarrow> u16 \<times> bool" where "satU16 = satTo 0 65535"
definition satS16 :: "int \<Rightarrow> u16 \<times> bool" where "satS16 = satTo (-32768) 32767"
definition satU32 :: "int \<Rightarrow> u32 \<times> bool" where "satU32 = satTo 0 0xFFFFFFFF"
definition satS32 :: "int \<Rightarrow> u32 \<times> bool" where "satS32 = satTo (-0x80000000) 0x7FFFFFFF"

section \<open>Memory\<close>

definition eaVX :: "'b cpu \<Rightarrow> u32 \<Rightarrow> u32" where
  "eaVX c i = (if f_ra i \<noteq> 0 then gpr (st c) (f_ra i) else 0) + gpr (st c) (f_rb i)"

fun lvxLoop :: "nat list \<Rightarrow> u32 \<Rightarrow> vec \<Rightarrow> 'b cpu \<Rightarrow> vec option \<times> 'b cpu" where
  "lvxLoop [] ea v c = (Some v, c)"
| "lvxLoop (k # ks) ea v c =
     (case readV8 (ea + of_nat k) c of
        (None, c1) \<Rightarrow> (None, c1)
      | (Some byte, c1) \<Rightarrow> lvxLoop ks ea (v(of_nat k := ucast byte)) c1)"

definition h_lvx :: "'b cpu \<Rightarrow> u32 \<Rightarrow> 'b cpu" where
  "h_lvx c i =
     (case lvxLoop [0..<16] (eaVX c i AND NOT 15) (\<lambda>_. 0) c of
        (None, c1) \<Rightarrow> c1 | (Some v, c1) \<Rightarrow> setVD i v c1)"

fun stvxLoop :: "nat list \<Rightarrow> u32 \<Rightarrow> vec \<Rightarrow> 'b cpu \<Rightarrow> 'b cpu" where
  "stvxLoop [] ea v c = c"
| "stvxLoop (k # ks) ea v c =
     (case writeV8 (ea + of_nat k) (ucast (v (of_nat k))) c of
        (False, c1) \<Rightarrow> c1 | (True, c1) \<Rightarrow> stvxLoop ks ea v c1)"

definition h_stvx :: "'b cpu \<Rightarrow> u32 \<Rightarrow> 'b cpu" where
  "h_stvx c i = stvxLoop [0..<16] (eaVX c i AND NOT 15) (vr (st c) (f_rt i)) c"

definition hLve :: "u32 \<Rightarrow> (u32 \<Rightarrow> 'b cpu \<Rightarrow> u32 option \<times> 'b cpu) \<Rightarrow> (u32 \<Rightarrow> u32 \<Rightarrow> vec) \<Rightarrow> 'b cpu \<Rightarrow> u32 \<Rightarrow> 'b cpu" where
  "hLve m reader place c i =
     (let ea = eaVX c i AND NOT m in
      case reader ea c of (None, c1) \<Rightarrow> c1 | (Some x, c1) \<Rightarrow> setVD i (place (ea AND 15) x) c1)"

definition h_lvebx :: "'b cpu \<Rightarrow> u32 \<Rightarrow> 'b cpu" where
  "h_lvebx = hLve 0 readV8 (\<lambda>q x. vecB (\<lambda>k. if k = unat q then ucast x else 0))"
definition h_lvehx :: "'b cpu \<Rightarrow> u32 \<Rightarrow> 'b cpu" where
  "h_lvehx = hLve 1 readV16 (\<lambda>q x. vecH (\<lambda>k. if k = unat (drop_bit 1 q) then ucast x else 0))"
definition h_lvewx :: "'b cpu \<Rightarrow> u32 \<Rightarrow> 'b cpu" where
  "h_lvewx = hLve 3 readV32 (\<lambda>q x. vecW (\<lambda>k. if k = unat (drop_bit 2 q) then x else 0))"

definition h_stvebx :: "'b cpu \<Rightarrow> u32 \<Rightarrow> 'b cpu" where
  "h_stvebx c i = (let ea = eaVX c i in snd (writeV8 ea (ucast (gb8 (vr (st c) (f_rt i)) (unat (ea AND 15)))) c))"
definition h_stvehx :: "'b cpu \<Rightarrow> u32 \<Rightarrow> 'b cpu" where
  "h_stvehx c i = (let ea = eaVX c i AND NOT 1 in
     snd (writeV16 ea (ucast (gh (vr (st c) (f_rt i)) (unat (drop_bit 1 (ea AND 15))))) c))"
definition h_stvewx :: "'b cpu \<Rightarrow> u32 \<Rightarrow> 'b cpu" where
  "h_stvewx c i = (let ea = eaVX c i AND NOT 3 in
     snd (writeV32 ea (gw (vr (st c) (f_rt i)) (unat (drop_bit 2 (ea AND 15)))) c))"

definition h_lvsl :: "'b cpu \<Rightarrow> u32 \<Rightarrow> 'b cpu" where
  "h_lvsl c i = setVD i (vecB (\<lambda>k. ucast ((eaVX c i AND 15) + of_nat k))) c"
definition h_lvsr :: "'b cpu \<Rightarrow> u32 \<Rightarrow> 'b cpu" where
  "h_lvsr c i = setVD i (vecB (\<lambda>k. ucast (16 - (eaVX c i AND 15) + of_nat k))) c"

section \<open>Permutation\<close>

definition h_vperm :: "'b cpu \<Rightarrow> u32 \<Rightarrow> 'b cpu" where
  "h_vperm c i = setVD i (vecB (\<lambda>k. let s = unat (gb8 (VC c i) k AND 0x1F) in
     if s < 16 then gb8 (VA c i) s else gb8 (VB c i) (s - 16))) c"

definition h_vsel :: "'b cpu \<Rightarrow> u32 \<Rightarrow> 'b cpu" where
  "h_vsel c i = setVD i (vecB (\<lambda>k. (gb8 (VA c i) k AND NOT (gb8 (VC c i) k)) OR (gb8 (VB c i) k AND gb8 (VC c i) k))) c"

definition h_vspltb :: "'b cpu \<Rightarrow> u32 \<Rightarrow> 'b cpu" where
  "h_vspltb c i = setVD i (vecB (\<lambda>k. gb8 (VB c i) (unat (f_ra i AND 15)))) c"
definition h_vsplth :: "'b cpu \<Rightarrow> u32 \<Rightarrow> 'b cpu" where
  "h_vsplth c i = setVD i (vecH (\<lambda>k. gh (VB c i) (unat (f_ra i AND 7)))) c"
definition h_vspltw :: "'b cpu \<Rightarrow> u32 \<Rightarrow> 'b cpu" where
  "h_vspltw c i = setVD i (vecW (\<lambda>k. gw (VB c i) (unat (f_ra i AND 3)))) c"
definition h_vspltisb :: "'b cpu \<Rightarrow> u32 \<Rightarrow> 'b cpu" where
  "h_vspltisb c i = setVD i (vecB (\<lambda>k. ucast (sext5 (f_simm5 i)))) c"
definition h_vspltish :: "'b cpu \<Rightarrow> u32 \<Rightarrow> 'b cpu" where
  "h_vspltish c i = setVD i (vecH (\<lambda>k. ucast (sext5 (f_simm5 i)))) c"
definition h_vspltisw :: "'b cpu \<Rightarrow> u32 \<Rightarrow> 'b cpu" where
  "h_vspltisw c i = setVD i (vecW (\<lambda>k. sext5 (f_simm5 i))) c"

definition vmerge :: "(vec \<Rightarrow> nat \<Rightarrow> 'a) \<Rightarrow> ((nat \<Rightarrow> 'a) \<Rightarrow> vec) \<Rightarrow> nat \<Rightarrow> 'b cpu \<Rightarrow> u32 \<Rightarrow> 'b cpu" where
  "vmerge get mk base c i =
     setVD i (mk (\<lambda>j. if even j then get (VA c i) (base + j div 2) else get (VB c i) (base + j div 2))) c"

definition h_vmrghb :: "'b cpu \<Rightarrow> u32 \<Rightarrow> 'b cpu" where "h_vmrghb = vmerge gb8 vecB 0"
definition h_vmrglb :: "'b cpu \<Rightarrow> u32 \<Rightarrow> 'b cpu" where "h_vmrglb = vmerge gb8 vecB 8"
definition h_vmrghh :: "'b cpu \<Rightarrow> u32 \<Rightarrow> 'b cpu" where "h_vmrghh = vmerge gh vecH 0"
definition h_vmrglh :: "'b cpu \<Rightarrow> u32 \<Rightarrow> 'b cpu" where "h_vmrglh = vmerge gh vecH 4"
definition h_vmrghw :: "'b cpu \<Rightarrow> u32 \<Rightarrow> 'b cpu" where "h_vmrghw = vmerge gw vecW 0"
definition h_vmrglw :: "'b cpu \<Rightarrow> u32 \<Rightarrow> 'b cpu" where "h_vmrglw = vmerge gw vecW 2"

definition h_vsldoi :: "'b cpu \<Rightarrow> u32 \<Rightarrow> 'b cpu" where
  "h_vsldoi c i = setVD i (vecB (\<lambda>k. let s = k + unat (f_vsh i) in
     if s < 16 then gb8 (VA c i) s else gb8 (VB c i) (s - 16))) c"

section \<open>Whole-register shifts\<close>

definition octets :: "vec \<Rightarrow> nat" where
  "octets b = unat (drop_bit 3 (gb8 b 15) AND 0xF)"

definition h_vslo :: "'b cpu \<Rightarrow> u32 \<Rightarrow> 'b cpu" where
  "h_vslo c i = (let n = octets (VB c i) in setVD i (vecB (\<lambda>k. if k + n < 16 then gb8 (VA c i) (k + n) else 0)) c)"
definition h_vsro :: "'b cpu \<Rightarrow> u32 \<Rightarrow> 'b cpu" where
  "h_vsro c i = (let n = octets (VB c i) in setVD i (vecB (\<lambda>k. if n \<le> k then gb8 (VA c i) (k - n) else 0)) c)"

definition h_vsl :: "'b cpu \<Rightarrow> u32 \<Rightarrow> 'b cpu" where
  "h_vsl c i = (let sh = unat (gb8 (VB c i) 15 AND 7) in
     setVD i (vecB (\<lambda>k. let nxt = (if k < 15 then gb8 (VA c i) (k + 1) else 0) in
       push_bit sh (gb8 (VA c i) k) OR (if sh \<noteq> 0 then drop_bit (8 - sh) nxt else 0))) c)"
definition h_vsr :: "'b cpu \<Rightarrow> u32 \<Rightarrow> 'b cpu" where
  "h_vsr c i = (let sh = unat (gb8 (VB c i) 15 AND 7) in
     setVD i (vecB (\<lambda>k. let prev = (if 0 < k then gb8 (VA c i) (k - 1) else 0) in
       drop_bit sh (gb8 (VA c i) k) OR (if sh \<noteq> 0 then push_bit (8 - sh) prev else 0))) c)"

section \<open>Element rotates and shifts\<close>

definition perLaneB :: "(u32 \<Rightarrow> nat \<Rightarrow> u32) \<Rightarrow> 'b cpu \<Rightarrow> u32 \<Rightarrow> 'b cpu" where
  "perLaneB f c i = setVD i (vecB (\<lambda>k. ucast (f (ucast (gb8 (VA c i) k)) (unat (gb8 (VB c i) k AND 7))))) c"
definition perLaneH :: "(u32 \<Rightarrow> nat \<Rightarrow> u32) \<Rightarrow> 'b cpu \<Rightarrow> u32 \<Rightarrow> 'b cpu" where
  "perLaneH f c i = setVD i (vecH (\<lambda>k. ucast (f (ucast (gh (VA c i) k)) (unat (gh (VB c i) k AND 15))))) c"
definition perLaneW :: "(u32 \<Rightarrow> nat \<Rightarrow> u32) \<Rightarrow> 'b cpu \<Rightarrow> u32 \<Rightarrow> 'b cpu" where
  "perLaneW f c i = setVD i (vecW (\<lambda>k. f (gw (VA c i) k) (unat (gw (VB c i) k AND 31)))) c"

definition h_vrlb :: "'b cpu \<Rightarrow> u32 \<Rightarrow> 'b cpu" where
  "h_vrlb = perLaneB (\<lambda>x n. push_bit n x OR drop_bit ((8 - n) mod 8) x)"
definition h_vrlh :: "'b cpu \<Rightarrow> u32 \<Rightarrow> 'b cpu" where
  "h_vrlh = perLaneH (\<lambda>x n. push_bit n x OR drop_bit ((16 - n) mod 16) x)"
definition h_vrlw :: "'b cpu \<Rightarrow> u32 \<Rightarrow> 'b cpu" where
  "h_vrlw = perLaneW (\<lambda>x n. if n \<noteq> 0 then push_bit n x OR drop_bit (32 - n) x else x)"
definition h_vslb :: "'b cpu \<Rightarrow> u32 \<Rightarrow> 'b cpu" where "h_vslb = perLaneB (\<lambda>x n. push_bit n x)"
definition h_vslh :: "'b cpu \<Rightarrow> u32 \<Rightarrow> 'b cpu" where "h_vslh = perLaneH (\<lambda>x n. push_bit n x)"
definition h_vslw :: "'b cpu \<Rightarrow> u32 \<Rightarrow> 'b cpu" where "h_vslw = perLaneW (\<lambda>x n. push_bit n x)"
definition h_vsrb :: "'b cpu \<Rightarrow> u32 \<Rightarrow> 'b cpu" where "h_vsrb = perLaneB (\<lambda>x n. drop_bit n x)"
definition h_vsrh :: "'b cpu \<Rightarrow> u32 \<Rightarrow> 'b cpu" where "h_vsrh = perLaneH (\<lambda>x n. drop_bit n x)"
definition h_vsrw :: "'b cpu \<Rightarrow> u32 \<Rightarrow> 'b cpu" where "h_vsrw = perLaneW (\<lambda>x n. drop_bit n x)"
definition h_vsrab :: "'b cpu \<Rightarrow> u32 \<Rightarrow> 'b cpu" where
  "h_vsrab = perLaneB (\<lambda>x n. signed_drop_bit n (scast (ucast x :: u8)))"
definition h_vsrah :: "'b cpu \<Rightarrow> u32 \<Rightarrow> 'b cpu" where
  "h_vsrah = perLaneH (\<lambda>x n. signed_drop_bit n (scast (ucast x :: u16)))"
definition h_vsraw :: "'b cpu \<Rightarrow> u32 \<Rightarrow> 'b cpu" where "h_vsraw = perLaneW (\<lambda>x n. signed_drop_bit n x)"

section \<open>Logic, addition, average, extremes\<close>

definition varithB :: "(u8 \<Rightarrow> u8 \<Rightarrow> u8) \<Rightarrow> 'b cpu \<Rightarrow> u32 \<Rightarrow> 'b cpu" where
  "varithB f c i = setVD i (vecB (\<lambda>k. f (gb8 (VA c i) k) (gb8 (VB c i) k))) c"
definition varithH :: "(u16 \<Rightarrow> u16 \<Rightarrow> u16) \<Rightarrow> 'b cpu \<Rightarrow> u32 \<Rightarrow> 'b cpu" where
  "varithH f c i = setVD i (vecH (\<lambda>k. f (gh (VA c i) k) (gh (VB c i) k))) c"
definition varithW :: "(u32 \<Rightarrow> u32 \<Rightarrow> u32) \<Rightarrow> 'b cpu \<Rightarrow> u32 \<Rightarrow> 'b cpu" where
  "varithW f c i = setVD i (vecW (\<lambda>k. f (gw (VA c i) k) (gw (VB c i) k))) c"

definition h_vand :: "'b cpu \<Rightarrow> u32 \<Rightarrow> 'b cpu" where "h_vand = varithB (\<lambda>a b. a AND b)"
definition h_vandc :: "'b cpu \<Rightarrow> u32 \<Rightarrow> 'b cpu" where "h_vandc = varithB (\<lambda>a b. a AND NOT b)"
definition h_vor :: "'b cpu \<Rightarrow> u32 \<Rightarrow> 'b cpu" where "h_vor = varithB (\<lambda>a b. a OR b)"
definition h_vnor :: "'b cpu \<Rightarrow> u32 \<Rightarrow> 'b cpu" where "h_vnor = varithB (\<lambda>a b. NOT (a OR b))"
definition h_vxor :: "'b cpu \<Rightarrow> u32 \<Rightarrow> 'b cpu" where "h_vxor = varithB (\<lambda>a b. a XOR b)"

definition h_vaddubm :: "'b cpu \<Rightarrow> u32 \<Rightarrow> 'b cpu" where "h_vaddubm = varithB (\<lambda>a b. a + b)"
definition h_vadduhm :: "'b cpu \<Rightarrow> u32 \<Rightarrow> 'b cpu" where "h_vadduhm = varithH (\<lambda>a b. a + b)"
definition h_vadduwm :: "'b cpu \<Rightarrow> u32 \<Rightarrow> 'b cpu" where "h_vadduwm = varithW (\<lambda>a b. a + b)"
definition h_vsububm :: "'b cpu \<Rightarrow> u32 \<Rightarrow> 'b cpu" where "h_vsububm = varithB (\<lambda>a b. a - b)"
definition h_vsubuhm :: "'b cpu \<Rightarrow> u32 \<Rightarrow> 'b cpu" where "h_vsubuhm = varithH (\<lambda>a b. a - b)"
definition h_vsubuwm :: "'b cpu \<Rightarrow> u32 \<Rightarrow> 'b cpu" where "h_vsubuwm = varithW (\<lambda>a b. a - b)"

text \<open>The same with elements that saturate: \<^verbatim>\<open>sat\<close> is called from the loop.\<close>

definition laneSat :: "(nat \<Rightarrow> 'a \<times> bool) \<Rightarrow> nat \<Rightarrow> bool" where
  "laneSat f n = list_ex (\<lambda>k. snd (f k)) [0..<n]"

definition vsatB :: "(nat \<Rightarrow> u8 \<times> bool) \<Rightarrow> u32 \<Rightarrow> 'b cpu \<Rightarrow> 'b cpu" where
  "vsatB f i c = setVD i (vecB (\<lambda>k. fst (f k))) (setSat (laneSat f 16) c)"
definition vsatH :: "(nat \<Rightarrow> u16 \<times> bool) \<Rightarrow> u32 \<Rightarrow> 'b cpu \<Rightarrow> 'b cpu" where
  "vsatH f i c = setVD i (vecH (\<lambda>k. fst (f k))) (setSat (laneSat f 8) c)"
definition vsatW :: "(nat \<Rightarrow> u32 \<times> bool) \<Rightarrow> u32 \<Rightarrow> 'b cpu \<Rightarrow> 'b cpu" where
  "vsatW f i c = setVD i (vecW (\<lambda>k. fst (f k))) (setSat (laneSat f 4) c)"

definition h_vaddubs :: "'b cpu \<Rightarrow> u32 \<Rightarrow> 'b cpu" where
  "h_vaddubs c i = vsatB (\<lambda>k. satU8 (uint (gb8 (VA c i) k) + uint (gb8 (VB c i) k))) i c"
definition h_vadduhs :: "'b cpu \<Rightarrow> u32 \<Rightarrow> 'b cpu" where
  "h_vadduhs c i = vsatH (\<lambda>k. satU16 (uint (gh (VA c i) k) + uint (gh (VB c i) k))) i c"
definition h_vadduws :: "'b cpu \<Rightarrow> u32 \<Rightarrow> 'b cpu" where
  "h_vadduws c i = vsatW (\<lambda>k. satU32 (uint (gw (VA c i) k) + uint (gw (VB c i) k))) i c"
definition h_vaddsbs :: "'b cpu \<Rightarrow> u32 \<Rightarrow> 'b cpu" where
  "h_vaddsbs c i = vsatB (\<lambda>k. satS8 (sint (gb8 (VA c i) k) + sint (gb8 (VB c i) k))) i c"
definition h_vaddshs :: "'b cpu \<Rightarrow> u32 \<Rightarrow> 'b cpu" where
  "h_vaddshs c i = vsatH (\<lambda>k. satS16 (sint (gh (VA c i) k) + sint (gh (VB c i) k))) i c"
definition h_vaddsws :: "'b cpu \<Rightarrow> u32 \<Rightarrow> 'b cpu" where
  "h_vaddsws c i = vsatW (\<lambda>k. satS32 (sint (gw (VA c i) k) + sint (gw (VB c i) k))) i c"
definition h_vsububs :: "'b cpu \<Rightarrow> u32 \<Rightarrow> 'b cpu" where
  "h_vsububs c i = vsatB (\<lambda>k. satU8 (uint (gb8 (VA c i) k) - uint (gb8 (VB c i) k))) i c"
definition h_vsubuhs :: "'b cpu \<Rightarrow> u32 \<Rightarrow> 'b cpu" where
  "h_vsubuhs c i = vsatH (\<lambda>k. satU16 (uint (gh (VA c i) k) - uint (gh (VB c i) k))) i c"
definition h_vsubuws :: "'b cpu \<Rightarrow> u32 \<Rightarrow> 'b cpu" where
  "h_vsubuws c i = vsatW (\<lambda>k. satU32 (uint (gw (VA c i) k) - uint (gw (VB c i) k))) i c"
definition h_vsubsbs :: "'b cpu \<Rightarrow> u32 \<Rightarrow> 'b cpu" where
  "h_vsubsbs c i = vsatB (\<lambda>k. satS8 (sint (gb8 (VA c i) k) - sint (gb8 (VB c i) k))) i c"
definition h_vsubshs :: "'b cpu \<Rightarrow> u32 \<Rightarrow> 'b cpu" where
  "h_vsubshs c i = vsatH (\<lambda>k. satS16 (sint (gh (VA c i) k) - sint (gh (VB c i) k))) i c"
definition h_vsubsws :: "'b cpu \<Rightarrow> u32 \<Rightarrow> 'b cpu" where
  "h_vsubsws c i = vsatW (\<lambda>k. satS32 (sint (gw (VA c i) k) - sint (gw (VB c i) k))) i c"

definition h_vaddcuw :: "'b cpu \<Rightarrow> u32 \<Rightarrow> 'b cpu" where
  "h_vaddcuw = varithW (\<lambda>a b. ucast (drop_bit 32 (ucast a + ucast b :: u64)))"
definition h_vsubcuw :: "'b cpu \<Rightarrow> u32 \<Rightarrow> 'b cpu" where
  "h_vsubcuw = varithW (\<lambda>a b. if b \<le> a then 1 else 0)"

definition h_vavgub :: "'b cpu \<Rightarrow> u32 \<Rightarrow> 'b cpu" where
  "h_vavgub = varithB (\<lambda>a b. word_of_int ((uint a + uint b + 1) div 2))"
definition h_vavguh :: "'b cpu \<Rightarrow> u32 \<Rightarrow> 'b cpu" where
  "h_vavguh = varithH (\<lambda>a b. word_of_int ((uint a + uint b + 1) div 2))"
definition h_vavguw :: "'b cpu \<Rightarrow> u32 \<Rightarrow> 'b cpu" where
  "h_vavguw = varithW (\<lambda>a b. word_of_int ((uint a + uint b + 1) div 2))"
definition h_vavgsb :: "'b cpu \<Rightarrow> u32 \<Rightarrow> 'b cpu" where
  "h_vavgsb = varithB (\<lambda>a b. word_of_int ((sint a + sint b + 1) div 2))"
definition h_vavgsh :: "'b cpu \<Rightarrow> u32 \<Rightarrow> 'b cpu" where
  "h_vavgsh = varithH (\<lambda>a b. word_of_int ((sint a + sint b + 1) div 2))"
definition h_vavgsw :: "'b cpu \<Rightarrow> u32 \<Rightarrow> 'b cpu" where
  "h_vavgsw = varithW (\<lambda>a b. word_of_int ((sint a + sint b + 1) div 2))"

definition h_vminub :: "'b cpu \<Rightarrow> u32 \<Rightarrow> 'b cpu" where "h_vminub = varithB (\<lambda>a b. if a < b then a else b)"
definition h_vminuh :: "'b cpu \<Rightarrow> u32 \<Rightarrow> 'b cpu" where "h_vminuh = varithH (\<lambda>a b. if a < b then a else b)"
definition h_vminuw :: "'b cpu \<Rightarrow> u32 \<Rightarrow> 'b cpu" where "h_vminuw = varithW (\<lambda>a b. if a < b then a else b)"
definition h_vmaxub :: "'b cpu \<Rightarrow> u32 \<Rightarrow> 'b cpu" where "h_vmaxub = varithB (\<lambda>a b. if b < a then a else b)"
definition h_vmaxuh :: "'b cpu \<Rightarrow> u32 \<Rightarrow> 'b cpu" where "h_vmaxuh = varithH (\<lambda>a b. if b < a then a else b)"
definition h_vmaxuw :: "'b cpu \<Rightarrow> u32 \<Rightarrow> 'b cpu" where "h_vmaxuw = varithW (\<lambda>a b. if b < a then a else b)"
definition h_vminsb :: "'b cpu \<Rightarrow> u32 \<Rightarrow> 'b cpu" where "h_vminsb = varithB (\<lambda>a b. if a <s b then a else b)"
definition h_vminsh :: "'b cpu \<Rightarrow> u32 \<Rightarrow> 'b cpu" where "h_vminsh = varithH (\<lambda>a b. if a <s b then a else b)"
definition h_vminsw :: "'b cpu \<Rightarrow> u32 \<Rightarrow> 'b cpu" where "h_vminsw = varithW (\<lambda>a b. if a <s b then a else b)"
definition h_vmaxsb :: "'b cpu \<Rightarrow> u32 \<Rightarrow> 'b cpu" where "h_vmaxsb = varithB (\<lambda>a b. if b <s a then a else b)"
definition h_vmaxsh :: "'b cpu \<Rightarrow> u32 \<Rightarrow> 'b cpu" where "h_vmaxsh = varithH (\<lambda>a b. if b <s a then a else b)"
definition h_vmaxsw :: "'b cpu \<Rightarrow> u32 \<Rightarrow> 'b cpu" where "h_vmaxsw = varithW (\<lambda>a b. if b <s a then a else b)"

section \<open>Multiplication\<close>

text \<open>The product of two promoted unsigned halfwords overflows \<^verbatim>\<open>int\<close>; it is taken modulo \<open>2 ^ 32\<close>.\<close>

definition vmulB :: "(u8 \<Rightarrow> int) \<Rightarrow> nat \<Rightarrow> 'b cpu \<Rightarrow> u32 \<Rightarrow> 'b cpu" where
  "vmulB cv ofs c i = setVD i (vecH (\<lambda>k. word_of_int (cv (gb8 (VA c i) (2 * k + ofs)) * cv (gb8 (VB c i) (2 * k + ofs))))) c"
definition vmulH :: "(u16 \<Rightarrow> int) \<Rightarrow> nat \<Rightarrow> 'b cpu \<Rightarrow> u32 \<Rightarrow> 'b cpu" where
  "vmulH cv ofs c i = setVD i (vecW (\<lambda>k. word_of_int (cv (gh (VA c i) (2 * k + ofs)) * cv (gh (VB c i) (2 * k + ofs))))) c"

definition h_vmulesb :: "'b cpu \<Rightarrow> u32 \<Rightarrow> 'b cpu" where "h_vmulesb = vmulB sint 0"
definition h_vmuleub :: "'b cpu \<Rightarrow> u32 \<Rightarrow> 'b cpu" where "h_vmuleub = vmulB uint 0"
definition h_vmulesh :: "'b cpu \<Rightarrow> u32 \<Rightarrow> 'b cpu" where "h_vmulesh = vmulH sint 0"
definition h_vmuleuh :: "'b cpu \<Rightarrow> u32 \<Rightarrow> 'b cpu" where "h_vmuleuh = vmulH uint 0"
definition h_vmulosb :: "'b cpu \<Rightarrow> u32 \<Rightarrow> 'b cpu" where "h_vmulosb = vmulB sint 1"
definition h_vmuloub :: "'b cpu \<Rightarrow> u32 \<Rightarrow> 'b cpu" where "h_vmuloub = vmulB uint 1"
definition h_vmulosh :: "'b cpu \<Rightarrow> u32 \<Rightarrow> 'b cpu" where "h_vmulosh = vmulH sint 1"
definition h_vmulouh :: "'b cpu \<Rightarrow> u32 \<Rightarrow> 'b cpu" where "h_vmulouh = vmulH uint 1"

definition h_vmladduhm :: "'b cpu \<Rightarrow> u32 \<Rightarrow> 'b cpu" where
  "h_vmladduhm c i = setVD i (vecH (\<lambda>k. gh (VA c i) k * gh (VB c i) k + gh (VC c i) k)) c"
definition h_vmhaddshs :: "'b cpu \<Rightarrow> u32 \<Rightarrow> 'b cpu" where
  "h_vmhaddshs c i = vsatH (\<lambda>k. satS16 ((sint (gh (VA c i) k) * sint (gh (VB c i) k)) div 2 ^ 15 + sint (gh (VC c i) k))) i c"
definition h_vmhraddshs :: "'b cpu \<Rightarrow> u32 \<Rightarrow> 'b cpu" where
  "h_vmhraddshs c i =
     vsatH (\<lambda>k. satS16 ((sint (gh (VA c i) k) * sint (gh (VB c i) k) + 0x4000) div 2 ^ 15 + sint (gh (VC c i) k))) i c"

text \<open>Dot products within a word; the modulo forms accumulate at 32 bits.\<close>

definition dotB :: "(u8 \<Rightarrow> int) \<Rightarrow> (u8 \<Rightarrow> int) \<Rightarrow> vec \<Rightarrow> vec \<Rightarrow> nat \<Rightarrow> int" where
  "dotB fa fb a b k = sum_list (map (\<lambda>j. fa (gb8 a (4 * k + j)) * fb (gb8 b (4 * k + j))) [0..<4])"
definition dotH :: "(u16 \<Rightarrow> int) \<Rightarrow> vec \<Rightarrow> vec \<Rightarrow> nat \<Rightarrow> int" where
  "dotH cv a b k = sum_list (map (\<lambda>j. cv (gh a (2 * k + j)) * cv (gh b (2 * k + j))) [0..<2])"

definition h_vmsumubm :: "'b cpu \<Rightarrow> u32 \<Rightarrow> 'b cpu" where
  "h_vmsumubm c i = setVD i (vecW (\<lambda>k. gw (VC c i) k + word_of_int (dotB uint uint (VA c i) (VB c i) k))) c"
definition h_vmsummbm :: "'b cpu \<Rightarrow> u32 \<Rightarrow> 'b cpu" where
  "h_vmsummbm c i = setVD i (vecW (\<lambda>k. gw (VC c i) k + word_of_int (dotB sint uint (VA c i) (VB c i) k))) c"
definition h_vmsumuhm :: "'b cpu \<Rightarrow> u32 \<Rightarrow> 'b cpu" where
  "h_vmsumuhm c i = setVD i (vecW (\<lambda>k. gw (VC c i) k + word_of_int (dotH uint (VA c i) (VB c i) k))) c"
definition h_vmsumshm :: "'b cpu \<Rightarrow> u32 \<Rightarrow> 'b cpu" where
  "h_vmsumshm c i = setVD i (vecW (\<lambda>k. gw (VC c i) k + word_of_int (dotH sint (VA c i) (VB c i) k))) c"
definition h_vmsumuhs :: "'b cpu \<Rightarrow> u32 \<Rightarrow> 'b cpu" where
  "h_vmsumuhs c i = vsatW (\<lambda>k. satU32 (uint (gw (VC c i) k) + dotH uint (VA c i) (VB c i) k)) i c"
definition h_vmsumshs :: "'b cpu \<Rightarrow> u32 \<Rightarrow> 'b cpu" where
  "h_vmsumshs c i = vsatW (\<lambda>k. satS32 (sint (gw (VC c i) k) + dotH sint (VA c i) (VB c i) k)) i c"

text \<open>Sums across; elements that are not written are zero and do not saturate.\<close>

definition h_vsumsws :: "'b cpu \<Rightarrow> u32 \<Rightarrow> 'b cpu" where
  "h_vsumsws c i = vsatW (\<lambda>k. if k = 3 then satS32 (sint (gw (VB c i) 3) + sum_list (map (\<lambda>j. sint (gw (VA c i) j)) [0..<4]))
     else (0, False)) i c"
definition h_vsum2sws :: "'b cpu \<Rightarrow> u32 \<Rightarrow> 'b cpu" where
  "h_vsum2sws c i = vsatW (\<lambda>k. if odd k then satS32 (sint (gw (VB c i) k) + sint (gw (VA c i) (k - 1)) + sint (gw (VA c i) k))
     else (0, False)) i c"
definition h_vsum4sbs :: "'b cpu \<Rightarrow> u32 \<Rightarrow> 'b cpu" where
  "h_vsum4sbs c i = vsatW (\<lambda>k. satS32 (sint (gw (VB c i) k) + sum_list (map (\<lambda>j. sint (gb8 (VA c i) (4 * k + j))) [0..<4]))) i c"
definition h_vsum4shs :: "'b cpu \<Rightarrow> u32 \<Rightarrow> 'b cpu" where
  "h_vsum4shs c i = vsatW (\<lambda>k. satS32 (sint (gw (VB c i) k) + sum_list (map (\<lambda>j. sint (gh (VA c i) (2 * k + j))) [0..<2]))) i c"
definition h_vsum4ubs :: "'b cpu \<Rightarrow> u32 \<Rightarrow> 'b cpu" where
  "h_vsum4ubs c i = vsatW (\<lambda>k. satU32 (uint (gw (VB c i) k) + sum_list (map (\<lambda>j. uint (gb8 (VA c i) (4 * k + j))) [0..<4]))) i c"

section \<open>Compares\<close>

definition setCr6 :: "u32 \<Rightarrow> bool \<Rightarrow> bool \<Rightarrow> 'b cpu \<Rightarrow> 'b cpu" where
  "setCr6 i allTrue allFalse c =
     (if f_vrcbit i \<noteq> 0 then setCrField 6 ((if allTrue then 8 else 0) OR (if allFalse then 2 else 0)) c else c)"

definition vcmp :: "((nat \<Rightarrow> 'a) \<Rightarrow> vec) \<Rightarrow> nat \<Rightarrow> 'a \<Rightarrow> 'a \<Rightarrow> (nat \<Rightarrow> bool) \<Rightarrow> u32 \<Rightarrow> 'b cpu \<Rightarrow> 'b cpu" where
  "vcmp mk n ones zeros t i c =
     setCr6 i (list_all t [0..<n]) (list_all (\<lambda>k. \<not> t k) [0..<n]) (setVD i (mk (\<lambda>k. if t k then ones else zeros)) c)"

definition vcmpB :: "(u8 \<Rightarrow> u8 \<Rightarrow> bool) \<Rightarrow> 'b cpu \<Rightarrow> u32 \<Rightarrow> 'b cpu" where
  "vcmpB r c i = vcmp vecB 16 0xFF 0 (\<lambda>k. r (gb8 (VA c i) k) (gb8 (VB c i) k)) i c"
definition vcmpH :: "(u16 \<Rightarrow> u16 \<Rightarrow> bool) \<Rightarrow> 'b cpu \<Rightarrow> u32 \<Rightarrow> 'b cpu" where
  "vcmpH r c i = vcmp vecH 8 0xFFFF 0 (\<lambda>k. r (gh (VA c i) k) (gh (VB c i) k)) i c"
definition vcmpW :: "(u32 \<Rightarrow> u32 \<Rightarrow> bool) \<Rightarrow> 'b cpu \<Rightarrow> u32 \<Rightarrow> 'b cpu" where
  "vcmpW r c i = vcmp vecW 4 0xFFFFFFFF 0 (\<lambda>k. r (gw (VA c i) k) (gw (VB c i) k)) i c"

definition h_vcmpequb :: "'b cpu \<Rightarrow> u32 \<Rightarrow> 'b cpu" where "h_vcmpequb = vcmpB (\<lambda>a b. a = b)"
definition h_vcmpequh :: "'b cpu \<Rightarrow> u32 \<Rightarrow> 'b cpu" where "h_vcmpequh = vcmpH (\<lambda>a b. a = b)"
definition h_vcmpequw :: "'b cpu \<Rightarrow> u32 \<Rightarrow> 'b cpu" where "h_vcmpequw = vcmpW (\<lambda>a b. a = b)"
definition h_vcmpgtub :: "'b cpu \<Rightarrow> u32 \<Rightarrow> 'b cpu" where "h_vcmpgtub = vcmpB (\<lambda>a b. b < a)"
definition h_vcmpgtuh :: "'b cpu \<Rightarrow> u32 \<Rightarrow> 'b cpu" where "h_vcmpgtuh = vcmpH (\<lambda>a b. b < a)"
definition h_vcmpgtuw :: "'b cpu \<Rightarrow> u32 \<Rightarrow> 'b cpu" where "h_vcmpgtuw = vcmpW (\<lambda>a b. b < a)"
definition h_vcmpgtsb :: "'b cpu \<Rightarrow> u32 \<Rightarrow> 'b cpu" where "h_vcmpgtsb = vcmpB (\<lambda>a b. b <s a)"
definition h_vcmpgtsh :: "'b cpu \<Rightarrow> u32 \<Rightarrow> 'b cpu" where "h_vcmpgtsh = vcmpH (\<lambda>a b. b <s a)"
definition h_vcmpgtsw :: "'b cpu \<Rightarrow> u32 \<Rightarrow> 'b cpu" where "h_vcmpgtsw = vcmpW (\<lambda>a b. b <s a)"

section \<open>Packing\<close>

definition packed :: "nat \<Rightarrow> (nat \<Rightarrow> 'a) \<Rightarrow> (nat \<Rightarrow> 'a) \<Rightarrow> nat \<Rightarrow> 'a" where
  "packed n f g k = (if k < n then f k else g (k - n))"

definition h_vpkuhum :: "'b cpu \<Rightarrow> u32 \<Rightarrow> 'b cpu" where
  "h_vpkuhum c i = setVD i (vecB (packed 8 (\<lambda>k. ucast (gh (VA c i) k)) (\<lambda>k. ucast (gh (VB c i) k)))) c"
definition h_vpkuwum :: "'b cpu \<Rightarrow> u32 \<Rightarrow> 'b cpu" where
  "h_vpkuwum c i = setVD i (vecH (packed 4 (\<lambda>k. ucast (gw (VA c i) k)) (\<lambda>k. ucast (gw (VB c i) k)))) c"

definition h_vpkuhus :: "'b cpu \<Rightarrow> u32 \<Rightarrow> 'b cpu" where
  "h_vpkuhus c i = vsatB (packed 8 (\<lambda>k. satU8 (uint (gh (VA c i) k))) (\<lambda>k. satU8 (uint (gh (VB c i) k)))) i c"
definition h_vpkshus :: "'b cpu \<Rightarrow> u32 \<Rightarrow> 'b cpu" where
  "h_vpkshus c i = vsatB (packed 8 (\<lambda>k. satU8 (sint (gh (VA c i) k))) (\<lambda>k. satU8 (sint (gh (VB c i) k)))) i c"
definition h_vpkshss :: "'b cpu \<Rightarrow> u32 \<Rightarrow> 'b cpu" where
  "h_vpkshss c i = vsatB (packed 8 (\<lambda>k. satS8 (sint (gh (VA c i) k))) (\<lambda>k. satS8 (sint (gh (VB c i) k)))) i c"
definition h_vpkuwus :: "'b cpu \<Rightarrow> u32 \<Rightarrow> 'b cpu" where
  "h_vpkuwus c i = vsatH (packed 4 (\<lambda>k. satU16 (uint (gw (VA c i) k))) (\<lambda>k. satU16 (uint (gw (VB c i) k)))) i c"
definition h_vpkswus :: "'b cpu \<Rightarrow> u32 \<Rightarrow> 'b cpu" where
  "h_vpkswus c i = vsatH (packed 4 (\<lambda>k. satU16 (sint (gw (VA c i) k))) (\<lambda>k. satU16 (sint (gw (VB c i) k)))) i c"
definition h_vpkswss :: "'b cpu \<Rightarrow> u32 \<Rightarrow> 'b cpu" where
  "h_vpkswss c i = vsatH (packed 4 (\<lambda>k. satS16 (sint (gw (VA c i) k))) (\<lambda>k. satS16 (sint (gw (VB c i) k)))) i c"

definition toPixel :: "u32 \<Rightarrow> u16" where
  "toPixel w = ucast ((drop_bit 9 w AND 0xFC00) OR (drop_bit 6 w AND 0x03E0) OR (drop_bit 3 w AND 0x001F))"
definition ofPixel :: "u16 \<Rightarrow> u32" where
  "ofPixel p = (if p AND 0x8000 \<noteq> 0 then 0xFF000000 else 0) OR push_bit 6 (ucast p AND 0x7C00) OR push_bit 3 (ucast p AND 0x03E0) OR
     (ucast p AND 0x1F)"

definition h_vpkpx :: "'b cpu \<Rightarrow> u32 \<Rightarrow> 'b cpu" where
  "h_vpkpx c i = setVD i (vecH (packed 4 (\<lambda>k. toPixel (gw (VA c i) k)) (\<lambda>k. toPixel (gw (VB c i) k)))) c"

definition h_vupkhsb :: "'b cpu \<Rightarrow> u32 \<Rightarrow> 'b cpu" where "h_vupkhsb c i = setVD i (vecH (\<lambda>k. scast (gb8 (VB c i) k))) c"
definition h_vupklsb :: "'b cpu \<Rightarrow> u32 \<Rightarrow> 'b cpu" where "h_vupklsb c i = setVD i (vecH (\<lambda>k. scast (gb8 (VB c i) (k + 8)))) c"
definition h_vupkhsh :: "'b cpu \<Rightarrow> u32 \<Rightarrow> 'b cpu" where "h_vupkhsh c i = setVD i (vecW (\<lambda>k. scast (gh (VB c i) k))) c"
definition h_vupklsh :: "'b cpu \<Rightarrow> u32 \<Rightarrow> 'b cpu" where "h_vupklsh c i = setVD i (vecW (\<lambda>k. scast (gh (VB c i) (k + 4)))) c"
definition h_vupkhpx :: "'b cpu \<Rightarrow> u32 \<Rightarrow> 'b cpu" where "h_vupkhpx c i = setVD i (vecW (\<lambda>k. ofPixel (gh (VB c i) k))) c"
definition h_vupklpx :: "'b cpu \<Rightarrow> u32 \<Rightarrow> 'b cpu" where "h_vupklpx c i = setVD i (vecW (\<lambda>k. ofPixel (gh (VB c i) (k + 4)))) c"

section \<open>The status and control register\<close>

definition h_mfvscr :: "'b cpu \<Rightarrow> u32 \<Rightarrow> 'b cpu" where
  "h_mfvscr c i = setVD i (vecW (\<lambda>k. if k = 3 then vscr (st c) else 0)) c"
definition h_mtvscr :: "'b cpu \<Rightarrow> u32 \<Rightarrow> 'b cpu" where
  "h_mtvscr c i = c\<lparr>st := (st c)\<lparr>vscr := gw (VB c i) 3 AND (vNJ OR vSAT)\<rparr>\<rparr>"

end
