(* ===== verification/VectorFp.thy ===== *)
theory VectorFp
  imports Vector Fpu
begin

text \<open>
  Vector floating point of \<^verbatim>\<open>core/src/altivec.cpp\<close>: single-precision elements computed by the software
  floating point through doubles, always rounding to nearest, with denormals flushed when \<^verbatim>\<open>VSCR[NJ]\<close> is
  set; compares, conversions, rounding to integral values, the estimates; and the binding of the vector handlers.
  The shortcuts over the host's floating point are the parameter \<open>hf\<close>, as in the scalar unit.
\<close>

section \<open>Elements\<close>

definition sglDenorm :: "u32 \<Rightarrow> bool" where
  "sglDenorm w \<longleftrightarrow> w AND 0x7F800000 = 0 \<and> w AND 0x007FFFFF \<noteq> 0"

definition flushIn :: "'b cpu \<Rightarrow> u32 \<Rightarrow> u32" where
  "flushIn c w = (if vscr (st c) AND vNJ \<noteq> 0 \<and> sglDenorm w then w AND 0x80000000 else w)"

definition flushOut :: "'b cpu \<Rightarrow> u32 \<Rightarrow> u32" where
  "flushOut c w = (if vscr (st c) AND vNJ \<noteq> 0 \<and> sglDenorm w then w AND 0x80000000 else w)"

definition upSgl :: "u32 \<Rightarrow> u64" where "upSgl = loadSingle"
definition dnSgl :: "u64 \<Rightarrow> u32" where "dnSgl = storeSingle"

definition vecEnv :: fp_env where
  "vecEnv = \<lparr>envRn = 0, envOe = False, envUe = False, envNi = False\<rparr>"

definition sglNan :: "u32 \<Rightarrow> bool" where
  "sglNan w \<longleftrightarrow> w AND 0x7F800000 = 0x7F800000 \<and> w AND 0x007FFFFF \<noteq> 0"

definition sglQuiet :: "u32 \<Rightarrow> u32" where
  "sglQuiet w = w OR 0x00400000"

definition sglGreater :: "u32 \<Rightarrow> u32 \<Rightarrow> bool" where
  "sglGreater x y =
     (let zx = push_bit 1 x = 0; zy = push_bit 1 y = 0; sx = drop_bit 31 x \<noteq> 0; sy = drop_bit 31 y \<noteq> 0 in
      if zx \<and> zy then False
      else if zx then sy
      else if zy then \<not> sx
      else if sx \<noteq> sy then sy
      else (y AND 0x7FFFFFFF < x AND 0x7FFFFFFF) \<noteq> sx)"

definition sglEqual :: "u32 \<Rightarrow> u32 \<Rightarrow> bool" where
  "sglEqual x y = (if push_bit 1 x = 0 \<and> push_bit 1 y = 0 then True else x = y)"

section \<open>Arithmetic\<close>

definition h_vaddfp :: "host_fp \<Rightarrow> 'b cpu \<Rightarrow> u32 \<Rightarrow> 'b cpu" where
  "h_vaddfp hf c i = setVD i (vecW (\<lambda>k. flushOut c (dnSgl (resBits
     (fpAdd hf (upSgl (flushIn c (gw (VA c i) k))) (upSgl (flushIn c (gw (VB c i) k))) vecEnv Sgl))))) c"
definition h_vsubfp :: "host_fp \<Rightarrow> 'b cpu \<Rightarrow> u32 \<Rightarrow> 'b cpu" where
  "h_vsubfp hf c i = setVD i (vecW (\<lambda>k. flushOut c (dnSgl (resBits
     (fpSub hf (upSgl (flushIn c (gw (VA c i) k))) (upSgl (flushIn c (gw (VB c i) k))) vecEnv Sgl))))) c"

definition vmaddLane :: "host_fp \<Rightarrow> bool \<Rightarrow> 'b cpu \<Rightarrow> u32 \<Rightarrow> nat \<Rightarrow> u32" where
  "vmaddLane hf neg c i k =
     (let x = upSgl (flushIn c (gw (VA c i) k)); y = upSgl (flushIn c (gw (VC c i) k)); z = upSgl (flushIn c (gw (VB c i) k))
      in flushOut c (dnSgl (resBits (fpMadd hf x y z vecEnv Sgl neg neg))))"

definition h_vmaddfp :: "host_fp \<Rightarrow> 'b cpu \<Rightarrow> u32 \<Rightarrow> 'b cpu" where
  "h_vmaddfp hf c i = setVD i (vecW (vmaddLane hf False c i)) c"
definition h_vnmsubfp :: "host_fp \<Rightarrow> 'b cpu \<Rightarrow> u32 \<Rightarrow> 'b cpu" where
  "h_vnmsubfp hf c i = setVD i (vecW (vmaddLane hf True c i)) c"

definition vminmax :: "(u32 \<Rightarrow> u32 \<Rightarrow> bool) \<Rightarrow> 'b cpu \<Rightarrow> u32 \<Rightarrow> 'b cpu" where
  "vminmax takeA c i = setVD i (vecW (\<lambda>k.
     let wa = flushIn c (gw (VA c i) k); wb = flushIn c (gw (VB c i) k) in
     if sglNan wa then sglQuiet wa else if sglNan wb then sglQuiet wb else if takeA wa wb then wa else wb)) c"

definition h_vmaxfp :: "'b cpu \<Rightarrow> u32 \<Rightarrow> 'b cpu" where "h_vmaxfp = vminmax (\<lambda>wa wb. sglGreater wa wb)"
definition h_vminfp :: "'b cpu \<Rightarrow> u32 \<Rightarrow> 'b cpu" where "h_vminfp = vminmax (\<lambda>wa wb. sglGreater wb wa)"

section \<open>Compares\<close>

definition vfcmp :: "(u32 \<Rightarrow> u32 \<Rightarrow> bool) \<Rightarrow> 'b cpu \<Rightarrow> u32 \<Rightarrow> 'b cpu" where
  "vfcmp r c i = vcmp vecW 4 0xFFFFFFFF 0 (\<lambda>k.
     let wa = flushIn c (gw (VA c i) k); wb = flushIn c (gw (VB c i) k) in
     \<not> (sglNan wa \<or> sglNan wb) \<and> r wa wb) i c"

definition h_vcmpeqfp :: "'b cpu \<Rightarrow> u32 \<Rightarrow> 'b cpu" where "h_vcmpeqfp = vfcmp (\<lambda>wa wb. sglEqual wa wb)"
definition h_vcmpgtfp :: "'b cpu \<Rightarrow> u32 \<Rightarrow> 'b cpu" where "h_vcmpgtfp = vfcmp (\<lambda>wa wb. sglGreater wa wb)"
definition h_vcmpgefp :: "'b cpu \<Rightarrow> u32 \<Rightarrow> 'b cpu" where "h_vcmpgefp = vfcmp (\<lambda>wa wb. sglEqual wa wb \<or> sglGreater wa wb)"

text \<open>Out of bounds: above the bound, below its negative.\<close>

definition boundsLane :: "'b cpu \<Rightarrow> u32 \<Rightarrow> nat \<Rightarrow> u32 \<times> u32" where
  "boundsLane c i k =
     (let wa = flushIn c (gw (VA c i) k); wb = flushIn c (gw (VB c i) k) in
      if sglNan wa \<or> sglNan wb then (1, 1)
      else (if sglGreater wa wb then 1 else 0, if sglGreater (wb XOR 0x80000000) wa then 1 else 0))"

definition h_vcmpbfp :: "'b cpu \<Rightarrow> u32 \<Rightarrow> 'b cpu" where
  "h_vcmpbfp c i =
     (let allIn = list_all (\<lambda>k. case boundsLane c i k of (le, ge) \<Rightarrow> le OR ge = 0) [0..<4];
          c1 = setVD i (vecW (\<lambda>k. case boundsLane c i k of (le, ge) \<Rightarrow> push_bit 31 le OR push_bit 30 ge)) c
      in if f_vrcbit i \<noteq> 0 then setCrField 6 (if allIn then 2 else 0) c1 else c1)"

section \<open>Conversions\<close>

text \<open>An integer magnitude as the double of value \<open>mag * 2 ^ sc\<close>.\<close>

definition intDouble :: "nat \<Rightarrow> u64 \<Rightarrow> int \<Rightarrow> u64" where
  "intDouble m mag sc =
     push_bit 52 (word_of_int (1023 + int m + sc)) OR (push_bit (52 - m) mag AND 0x000FFFFFFFFFFFFF)"

definition h_vcfux :: "host_fp \<Rightarrow> 'b cpu \<Rightarrow> u32 \<Rightarrow> 'b cpu" where
  "h_vcfux hf c i = setVD i (vecW (\<lambda>k. let w = gw (VB c i) k in
     if w = 0 then 0
     else dnSgl (resBits (fpRsp hf (intDouble (31 - countl_zero w) (ucast w) (- int (unat (f_ra i AND 31)))) vecEnv)))) c"

definition h_vcfsx :: "host_fp \<Rightarrow> 'b cpu \<Rightarrow> u32 \<Rightarrow> 'b cpu" where
  "h_vcfsx hf c i = setVD i (vecW (\<lambda>k. let w = gw (VB c i) k; mag = (if w <s 0 then 0 - w else w);
       d = intDouble (31 - countl_zero mag) (ucast mag) (- int (unat (f_ra i AND 31))) in
     if w = 0 then 0
     else dnSgl (resBits (fpRsp hf (if w <s 0 then d OR 0x8000000000000000 else d) vecEnv)))) c"

text \<open>To fixed point, toward zero, clamped; with the saturation of the element.\<close>

definition fixMag :: "u64 \<Rightarrow> u32 \<Rightarrow> u64" where
  "fixMag d scale =
     (let e = drop_bit 52 d AND 0x7FF; frac = (d AND 0x000FFFFFFFFFFFFF) OR (if e \<noteq> 0 then push_bit 52 1 else 0);
          exn = int (unat e) - 1023 + int (unat scale) in
      if e = 0 \<and> frac = 0 then 0
      else if exn < 0 then 0
      else if 62 < exn then - 1
      else if 52 \<le> exn then push_bit (nat (exn - 52)) frac else drop_bit (nat (52 - exn)) frac)"

definition ctxLane :: "bool \<Rightarrow> u32 \<Rightarrow> u32 \<Rightarrow> u32 \<times> bool" where
  "ctxLane sg scale w =
     (if sglNan w then (0, False)
      else let d = upSgl w; neg = (drop_bit 63 d \<noteq> 0); mag = fixMag d scale in
        if sg then
          (if \<not> neg then (if 0x7FFFFFFF < mag then (0x7FFFFFFF, True) else (ucast mag, False))
           else (if 0x80000000 < mag then (0x80000000, True) else (0 - ucast mag, False)))
        else
          (if neg then (0, mag \<noteq> 0)
           else (if 0xFFFFFFFF < mag then (0xFFFFFFFF, True) else (ucast mag, False))))"

definition ctx :: "bool \<Rightarrow> 'b cpu \<Rightarrow> u32 \<Rightarrow> 'b cpu" where
  "ctx sg c i = vsatW (\<lambda>k. ctxLane sg (f_ra i AND 31) (flushIn c (gw (VB c i) k))) i c"

definition h_vctuxs :: "'b cpu \<Rightarrow> u32 \<Rightarrow> 'b cpu" where "h_vctuxs = ctx False"
definition h_vctsxs :: "'b cpu \<Rightarrow> u32 \<Rightarrow> 'b cpu" where "h_vctsxs = ctx True"

section \<open>Rounding to an integral value\<close>

text \<open>The integer part, the half bit and whether anything lies below it. (The inner test for the exponent
  \<open>-1\<close> in the source's branch for smaller exponents cannot succeed.)\<close>

definition splitInt :: "u64 \<Rightarrow> u64 \<times> bool \<times> bool" where
  "splitInt d =
     (let e = drop_bit 52 d AND 0x7FF; frac = (d AND 0x000FFFFFFFFFFFFF) OR (if e \<noteq> 0 then push_bit 52 1 else 0);
          exn = int (unat e) - 1023 in
      if exn < -1 then (0, False, frac \<noteq> 0)
      else let fbits = nat (52 - exn); below = push_bit (64 - fbits) frac
           in (drop_bit fbits frac, drop_bit 63 below \<noteq> 0, push_bit 1 below \<noteq> 0))"

definition vrfiLane :: "u32 \<Rightarrow> u32 \<Rightarrow> u32" where
  "vrfiLane rn w =
     (if sglNan w then sglQuiet w
      else let d = upSgl w in
        if 1023 + 23 \<le> drop_bit 52 d AND 0x7FF then w
        else let neg = (drop_bit 63 d \<noteq> 0); (ip0, half, rest) = splitInt d;
                 inc = (if rn = 0 then half \<and> (rest \<or> ip0 AND 1 \<noteq> 0)
                        else if rn = 1 then False
                        else if rn = 2 then \<not> neg \<and> (half \<or> rest)
                        else if rn = 3 then neg \<and> (half \<or> rest) else False);
                 ip = ip0 + (if inc then 1 else 0)
             in if ip = 0 then w AND 0x80000000
                else let rd = intDouble (63 - countl_zero64 ip) ip 0
                     in dnSgl (if neg then rd OR 0x8000000000000000 else rd))"

definition vrfi :: "u32 \<Rightarrow> 'b cpu \<Rightarrow> u32 \<Rightarrow> 'b cpu" where
  "vrfi rn c i = setVD i (vecW (\<lambda>k. vrfiLane rn (flushIn c (gw (VB c i) k)))) c"

definition h_vrfin :: "'b cpu \<Rightarrow> u32 \<Rightarrow> 'b cpu" where "h_vrfin = vrfi 0"
definition h_vrfiz :: "'b cpu \<Rightarrow> u32 \<Rightarrow> 'b cpu" where "h_vrfiz = vrfi 1"
definition h_vrfip :: "'b cpu \<Rightarrow> u32 \<Rightarrow> 'b cpu" where "h_vrfip = vrfi 2"
definition h_vrfim :: "'b cpu \<Rightarrow> u32 \<Rightarrow> 'b cpu" where "h_vrfim = vrfi 3"

section \<open>Estimates\<close>

definition h_vrefp :: "'b cpu \<Rightarrow> u32 \<Rightarrow> 'b cpu" where
  "h_vrefp c i = setVD i (vecW (\<lambda>k. let w = flushIn c (gw (VB c i) k) in
     if sglNan w then sglQuiet w else flushOut c (dnSgl (resBits (fpRes (upSgl w) vecEnv))))) c"

definition h_vrsqrtefp :: "host_fp \<Rightarrow> 'b cpu \<Rightarrow> u32 \<Rightarrow> 'b cpu" where
  "h_vrsqrtefp hf c i = setVD i (vecW (\<lambda>k. let w = flushIn c (gw (VB c i) k) in
     if sglNan w then sglQuiet w
     else flushOut c (dnSgl (resBits (fpRsp hf (resBits (fpRsqrte (upSgl w) vecEnv)) vecEnv))))) c"

text \<open>A cubic without constant term at \<open>t\<close> in thirtieths, as the source computes it.\<close>

definition cubicQ30 :: "int \<Rightarrow> int \<Rightarrow> int \<Rightarrow> int \<Rightarrow> int" where
  "cubicQ30 k1 k2 k3 t = (let t2 = (t * t) div 2 ^ 30; t3 = (t2 * t) div 2 ^ 30 in (k1 * t + k2 * t2 + k3 * t3) div 2 ^ 30)"

definition vlogLane :: "host_fp \<Rightarrow> u32 \<Rightarrow> u32" where
  "vlogLane hf w =
     (if sglNan w then sglQuiet w
      else if push_bit 1 w = 0 then 0xFF800000
      else if drop_bit 31 w \<noteq> 0 then 0x7FC00000
      else if w = 0x7F800000 then w
      else let d = upSgl w; e = int (unat (drop_bit 52 d AND 0x7FF)) - 1023;
               t = int (unat (drop_bit 22 (d AND 0x000FFFFFFFFFFFFF)));
               q = e * 2 ^ 30 + cubicQ30 1549082004 (-623693658) 148656453 t
           in if q = 0 then 0
              else let mag = word_of_int \<bar>q\<bar> :: u64; rd = intDouble (63 - countl_zero64 mag) mag (-30)
                   in dnSgl (resBits (fpRsp hf (if q < 0 then rd OR 0x8000000000000000 else rd) vecEnv)))"

definition h_vlogefp :: "host_fp \<Rightarrow> 'b cpu \<Rightarrow> u32 \<Rightarrow> 'b cpu" where
  "h_vlogefp hf c i = setVD i (vecW (\<lambda>k. flushOut c (vlogLane hf (flushIn c (gw (VB c i) k))))) c"

definition expQ30 :: "u64 \<Rightarrow> int" where
  "expQ30 d =
     (let neg = (drop_bit 63 d \<noteq> 0); e = drop_bit 52 d AND 0x7FF; exn = int (unat e) - 1023 in
      if e = 0 then 0
      else if 8 < exn then (if neg then - (200 * 2 ^ 30) else 200 * 2 ^ 30)
      else if exn < -31 then 0
      else let frac = (d AND 0x000FFFFFFFFFFFFF) OR push_bit 52 1;
               mag = (if 0 \<le> exn then drop_bit (nat (52 - 30 - exn)) frac else drop_bit (nat (- exn)) (drop_bit (52 - 30) frac))
           in if neg then - int (unat mag) else int (unat mag))"

definition vexpLane :: "host_fp \<Rightarrow> u32 \<Rightarrow> u32" where
  "vexpLane hf w =
     (if sglNan w then sglQuiet w
      else if w = 0x7F800000 then w
      else if w = 0xFF800000 then 0
      else let q = expQ30 (upSgl w); ip = q div 2 ^ 30; t = q mod 2 ^ 30;
               mf = 2 ^ 30 + cubicQ30 744822652 258141149 71624073 t
           in if ip < -150 then 0
              else if 128 < ip then 0x7F800000
              else let mag = word_of_int mf :: u64
                   in dnSgl (resBits (fpRsp hf (intDouble (63 - countl_zero64 mag) mag (ip - 30)) vecEnv)))"

definition h_vexptefp :: "host_fp \<Rightarrow> 'b cpu \<Rightarrow> u32 \<Rightarrow> 'b cpu" where
  "h_vexptefp hf c i = setVD i (vecW (\<lambda>k. flushOut c (vexpLane hf (flushIn c (gw (VB c i) k))))) c"

section \<open>Binding\<close>

definition vecHandlers :: "host_fp \<Rightarrow> (string \<times> ('b cpu \<Rightarrow> u32 \<Rightarrow> 'b cpu)) list" where
  "vecHandlers hf = [
   (''lvx'', h_lvx), (''lvxl'', h_lvx), (''stvx'', h_stvx), (''stvxl'', h_stvx), (''lvebx'', h_lvebx),
   (''lvehx'', h_lvehx), (''lvewx'', h_lvewx), (''stvebx'', h_stvebx), (''stvehx'', h_stvehx), (''stvewx'', h_stvewx),
   (''lvsl'', h_lvsl), (''lvsr'', h_lvsr), (''vperm'', h_vperm), (''vsel'', h_vsel), (''vsldoi'', h_vsldoi),
   (''vspltb'', h_vspltb), (''vsplth'', h_vsplth), (''vspltw'', h_vspltw), (''vspltisb'', h_vspltisb),
   (''vspltish'', h_vspltish), (''vspltisw'', h_vspltisw), (''vmrghb'', h_vmrghb), (''vmrglb'', h_vmrglb),
   (''vmrghh'', h_vmrghh), (''vmrglh'', h_vmrglh), (''vmrghw'', h_vmrghw), (''vmrglw'', h_vmrglw), (''vslo'', h_vslo),
   (''vsro'', h_vsro), (''vsl'', h_vsl), (''vsr'', h_vsr), (''vrlb'', h_vrlb), (''vrlh'', h_vrlh), (''vrlw'', h_vrlw),
   (''vslb'', h_vslb), (''vslh'', h_vslh), (''vslw'', h_vslw), (''vsrb'', h_vsrb), (''vsrh'', h_vsrh),
   (''vsrw'', h_vsrw), (''vsrab'', h_vsrab), (''vsrah'', h_vsrah), (''vsraw'', h_vsraw), (''vand'', h_vand),
   (''vandc'', h_vandc), (''vor'', h_vor), (''vnor'', h_vnor), (''vxor'', h_vxor), (''vaddubm'', h_vaddubm),
   (''vadduhm'', h_vadduhm), (''vadduwm'', h_vadduwm), (''vsububm'', h_vsububm), (''vsubuhm'', h_vsubuhm),
   (''vsubuwm'', h_vsubuwm), (''vaddubs'', h_vaddubs), (''vadduhs'', h_vadduhs), (''vadduws'', h_vadduws),
   (''vaddsbs'', h_vaddsbs), (''vaddshs'', h_vaddshs), (''vaddsws'', h_vaddsws), (''vsububs'', h_vsububs),
   (''vsubuhs'', h_vsubuhs), (''vsubuws'', h_vsubuws), (''vsubsbs'', h_vsubsbs), (''vsubshs'', h_vsubshs),
   (''vsubsws'', h_vsubsws), (''vaddcuw'', h_vaddcuw), (''vsubcuw'', h_vsubcuw), (''vavgub'', h_vavgub),
   (''vavguh'', h_vavguh), (''vavguw'', h_vavguw), (''vavgsb'', h_vavgsb), (''vavgsh'', h_vavgsh),
   (''vavgsw'', h_vavgsw), (''vminub'', h_vminub), (''vminuh'', h_vminuh), (''vminuw'', h_vminuw),
   (''vmaxub'', h_vmaxub), (''vmaxuh'', h_vmaxuh), (''vmaxuw'', h_vmaxuw), (''vminsb'', h_vminsb),
   (''vminsh'', h_vminsh), (''vminsw'', h_vminsw), (''vmaxsb'', h_vmaxsb), (''vmaxsh'', h_vmaxsh),
   (''vmaxsw'', h_vmaxsw), (''vmulesb'', h_vmulesb), (''vmuleub'', h_vmuleub), (''vmulesh'', h_vmulesh),
   (''vmuleuh'', h_vmuleuh), (''vmulosb'', h_vmulosb), (''vmuloub'', h_vmuloub), (''vmulosh'', h_vmulosh),
   (''vmulouh'', h_vmulouh), (''vmladduhm'', h_vmladduhm), (''vmhaddshs'', h_vmhaddshs),
   (''vmhraddshs'', h_vmhraddshs), (''vmsumubm'', h_vmsumubm), (''vmsummbm'', h_vmsummbm), (''vmsumuhm'', h_vmsumuhm),
   (''vmsumshm'', h_vmsumshm), (''vmsumuhs'', h_vmsumuhs), (''vmsumshs'', h_vmsumshs), (''vsumsws'', h_vsumsws),
   (''vsum2sws'', h_vsum2sws), (''vsum4sbs'', h_vsum4sbs), (''vsum4shs'', h_vsum4shs), (''vsum4ubs'', h_vsum4ubs),
   (''vcmpequb'', h_vcmpequb), (''vcmpequh'', h_vcmpequh), (''vcmpequw'', h_vcmpequw), (''vcmpgtub'', h_vcmpgtub),
   (''vcmpgtuh'', h_vcmpgtuh), (''vcmpgtuw'', h_vcmpgtuw), (''vcmpgtsb'', h_vcmpgtsb), (''vcmpgtsh'', h_vcmpgtsh),
   (''vcmpgtsw'', h_vcmpgtsw), (''vpkuhum'', h_vpkuhum), (''vpkuwum'', h_vpkuwum), (''vpkuhus'', h_vpkuhus),
   (''vpkuwus'', h_vpkuwus), (''vpkshus'', h_vpkshus), (''vpkswus'', h_vpkswus), (''vpkshss'', h_vpkshss),
   (''vpkswss'', h_vpkswss), (''vpkpx'', h_vpkpx), (''vupkhsb'', h_vupkhsb), (''vupklsb'', h_vupklsb),
   (''vupkhsh'', h_vupkhsh), (''vupklsh'', h_vupklsh), (''vupkhpx'', h_vupkhpx), (''vupklpx'', h_vupklpx),
   (''mfvscr'', h_mfvscr), (''mtvscr'', h_mtvscr), (''vaddfp'', h_vaddfp hf), (''vsubfp'', h_vsubfp hf),
   (''vmaddfp'', h_vmaddfp hf), (''vnmsubfp'', h_vnmsubfp hf), (''vmaxfp'', h_vmaxfp), (''vminfp'', h_vminfp),
   (''vcmpeqfp'', h_vcmpeqfp), (''vcmpgtfp'', h_vcmpgtfp), (''vcmpgefp'', h_vcmpgefp), (''vcmpbfp'', h_vcmpbfp),
   (''vcfux'', h_vcfux hf), (''vcfsx'', h_vcfsx hf), (''vctuxs'', h_vctuxs), (''vctsxs'', h_vctsxs),
   (''vrfin'', h_vrfin), (''vrfiz'', h_vrfiz), (''vrfip'', h_vrfip), (''vrfim'', h_vrfim), (''vrefp'', h_vrefp),
   (''vrsqrtefp'', h_vrsqrtefp hf), (''vlogefp'', h_vlogefp hf), (''vexptefp'', h_vexptefp hf)]"

definition bindVecHandlers :: "host_fp \<Rightarrow> string \<Rightarrow> ('b cpu \<Rightarrow> u32 \<Rightarrow> 'b cpu) option" where
  "bindVecHandlers hf = map_of (vecHandlers hf)"

text \<open>The handlers of all three units: \<^verbatim>\<open>bindFpuHandlers\<close> and \<^verbatim>\<open>bindVecHandlers\<close> beside the integer ones.\<close>

definition bindUnits :: "host_fp \<Rightarrow> string \<Rightarrow> ('b cpu \<Rightarrow> u32 \<Rightarrow> 'b cpu) option" where
  "bindUnits hf m = (case bindVecHandlers hf m of Some h \<Rightarrow> Some h | None \<Rightarrow> bindFpuHandlers hf m)"

end
