(* ===== verification/VectorProps.thy ===== *)
theory VectorProps
  imports VectorFp FpuProps
begin

text \<open>
  What the vector unit keeps and computes: no vector instruction reaches a supervisor register;
  saturating addition and subtraction; the alignment of unaligned data by permutation; the long shift
  of a whole register.
\<close>

section \<open>Isolation\<close>

lemma prot_vec [simp]: "prot (vr_update f s) = prot s" "prot (vscr_update g s) = prot s"
  by (simp_all add: prot_def)

lemma calm_setVD: "calm c d \<Longrightarrow> calm c (setVD i v d)"
  by (simp add: calm_def setVD_def)

lemma calm_setSat: "calm c d \<Longrightarrow> calm c (setSat s d)"
  by (simp add: calm_def setSat_def)

lemma calm_vsat: "calm c (vsatB f i c)" "calm c (vsatH g i c)" "calm c (vsatW w i c)"
  by (simp_all add: vsatB_def vsatH_def vsatW_def calm_setVD calm_setSat)

lemma calm_vcmp: "calm c (vcmp mk n x z t i c)"
  unfolding vcmp_def setCr6_def using calm_setVD [OF calm_refl, of c i] by (simp add: calm_def)

lemma userOk_lvxLoop: "okR c (lvxLoop ks ea v c)"
proof (induction ks arbitrary: v c)
  case (Cons k ks)
  obtain q c1 where x: "readV8 (ea + of_nat k) c = (q, c1)" by fastforce
  have ok: "okR c (q, c1)" using ok_access(1) [of c "ea + of_nat k"] x by simp
  show ?case
  proof (cases q)
    case (Some b)
    then show ?thesis using ok okR_calm [OF _ Cons.IH] by (simp add: x)
  qed (use ok in \<open>simp add: x\<close>)
qed simp

lemma userOk_stvxLoop: "userOk c (stvxLoop ks ea v c)"
proof (induction ks arbitrary: c)
  case (Cons k ks)
  obtain q c1 where x: "writeV8 (ea + of_nat k) (ucast (v (of_nat k))) c = (q, c1)" by fastforce
  have ok: "okW c (q, c1)" using ok_access(4) [of c "ea + of_nat k" "ucast (v (of_nat k))"] x by simp
  show ?case
    using ok calm_userOk [OF _ Cons.IH] by (cases q) (simp_all add: x userOk_def)
qed simp

lemma safe_lve: "(\<And>ea c. okR c (reader ea c)) \<Longrightarrow> alwaysOk (hLve m reader place)"
  unfolding alwaysOk_def hLve_def Let_def by (intro allI userOk_load calm_setVD calm_refl)

lemma okW_safe: "okW c p \<Longrightarrow> userOk c (snd p)"
  by (auto simp: okW_def userOk_def split: if_splits)

lemma vec_memory_ok:
  "alwaysOk h_lvx" "alwaysOk h_stvx" "alwaysOk h_lvebx" "alwaysOk h_lvehx" "alwaysOk h_lvewx"
  "alwaysOk h_stvebx" "alwaysOk h_stvehx" "alwaysOk h_stvewx"
proof -
  show "alwaysOk h_lvx" unfolding alwaysOk_def h_lvx_def
    by (intro allI userOk_load userOk_lvxLoop calm_setVD calm_refl)
  show "alwaysOk h_stvx" by (simp add: alwaysOk_def h_stvx_def userOk_stvxLoop)
  show "alwaysOk h_lvebx" "alwaysOk h_lvehx" "alwaysOk h_lvewx"
    unfolding h_lvebx_def h_lvehx_def h_lvewx_def by (rule safe_lve ok_access)+
  show "alwaysOk h_stvebx" "alwaysOk h_stvehx" "alwaysOk h_stvewx"
    unfolding alwaysOk_def h_stvebx_def h_stvehx_def h_stvewx_def Let_def by (intro allI okW_safe ok_access)+
qed

lemma calm_crField: "calm c d \<Longrightarrow> calm c (setCrField f v d)"
  by (simp add: calm_def)

lemma vec_forms_ok:
  "alwaysOk (vmerge gt mk b)" "alwaysOk (perLaneB f)" "alwaysOk (perLaneH f)" "alwaysOk (perLaneW f)"
  "alwaysOk (varithB fb)" "alwaysOk (varithH fh)" "alwaysOk (varithW fw)" "alwaysOk (vmulB cb q)" "alwaysOk (vmulH ch q)"
  "alwaysOk (vcmpB rb)" "alwaysOk (vcmpH rh)" "alwaysOk (vcmpW rw)" "alwaysOk (vminmax r)" "alwaysOk (vfcmp r)"
  "alwaysOk (ctx sg)" "alwaysOk (vrfi rn)"
  by (rule alwaysOk_calm, simp add: vmerge_def perLaneB_def perLaneH_def perLaneW_def varithB_def varithH_def varithW_def
    vmulB_def vmulH_def vcmpB_def vcmpH_def vcmpW_def vminmax_def vfcmp_def ctx_def vrfi_def calm_setVD calm_vsat calm_vcmp)+

text \<open>Handlers that are a form applied to an expression, and the rest.\<close>

lemma vec_form_handlers_ok:
  "alwaysOk h_vmrghb" "alwaysOk h_vmrglb" "alwaysOk h_vmrghh" "alwaysOk h_vmrglh" "alwaysOk h_vmrghw"
  "alwaysOk h_vmrglw" "alwaysOk h_vrlb" "alwaysOk h_vrlh" "alwaysOk h_vrlw" "alwaysOk h_vslb" "alwaysOk h_vslh"
  "alwaysOk h_vslw" "alwaysOk h_vsrb" "alwaysOk h_vsrh" "alwaysOk h_vsrw" "alwaysOk h_vsrab" "alwaysOk h_vsrah"
  "alwaysOk h_vsraw" "alwaysOk h_vand" "alwaysOk h_vandc" "alwaysOk h_vor" "alwaysOk h_vnor" "alwaysOk h_vxor"
  "alwaysOk h_vaddubm" "alwaysOk h_vadduhm" "alwaysOk h_vadduwm" "alwaysOk h_vsububm" "alwaysOk h_vsubuhm"
  "alwaysOk h_vsubuwm" "alwaysOk h_vaddcuw" "alwaysOk h_vsubcuw" "alwaysOk h_vavgub" "alwaysOk h_vavguh"
  "alwaysOk h_vavguw" "alwaysOk h_vavgsb" "alwaysOk h_vavgsh" "alwaysOk h_vavgsw" "alwaysOk h_vminub"
  "alwaysOk h_vminuh" "alwaysOk h_vminuw" "alwaysOk h_vmaxub" "alwaysOk h_vmaxuh" "alwaysOk h_vmaxuw"
  "alwaysOk h_vminsb" "alwaysOk h_vminsh" "alwaysOk h_vminsw" "alwaysOk h_vmaxsb" "alwaysOk h_vmaxsh"
  "alwaysOk h_vmaxsw" "alwaysOk h_vmulesb" "alwaysOk h_vmuleub" "alwaysOk h_vmulesh" "alwaysOk h_vmuleuh"
  "alwaysOk h_vmulosb" "alwaysOk h_vmuloub" "alwaysOk h_vmulosh" "alwaysOk h_vmulouh" "alwaysOk h_vcmpequb"
  "alwaysOk h_vcmpequh" "alwaysOk h_vcmpequw" "alwaysOk h_vcmpgtub" "alwaysOk h_vcmpgtuh" "alwaysOk h_vcmpgtuw"
  "alwaysOk h_vcmpgtsb" "alwaysOk h_vcmpgtsh" "alwaysOk h_vcmpgtsw" "alwaysOk h_vmaxfp" "alwaysOk h_vminfp"
  "alwaysOk h_vcmpeqfp" "alwaysOk h_vcmpgtfp" "alwaysOk h_vcmpgefp" "alwaysOk h_vctuxs" "alwaysOk h_vctsxs"
  "alwaysOk h_vrfin" "alwaysOk h_vrfiz" "alwaysOk h_vrfip" "alwaysOk h_vrfim"
  unfolding h_vmrghb_def h_vmrglb_def h_vmrghh_def h_vmrglh_def h_vmrghw_def h_vmrglw_def h_vrlb_def h_vrlh_def h_vrlw_def
    h_vslb_def h_vslh_def h_vslw_def h_vsrb_def h_vsrh_def h_vsrw_def h_vsrab_def h_vsrah_def h_vsraw_def h_vand_def
    h_vandc_def h_vor_def h_vnor_def h_vxor_def h_vaddubm_def h_vadduhm_def h_vadduwm_def h_vsububm_def h_vsubuhm_def
    h_vsubuwm_def h_vaddcuw_def h_vsubcuw_def h_vavgub_def h_vavguh_def h_vavguw_def h_vavgsb_def h_vavgsh_def
    h_vavgsw_def h_vminub_def h_vminuh_def h_vminuw_def h_vmaxub_def h_vmaxuh_def h_vmaxuw_def h_vminsb_def
    h_vminsh_def h_vminsw_def h_vmaxsb_def h_vmaxsh_def h_vmaxsw_def h_vmulesb_def h_vmuleub_def h_vmulesh_def
    h_vmuleuh_def h_vmulosb_def h_vmuloub_def h_vmulosh_def h_vmulouh_def h_vcmpequb_def h_vcmpequh_def
    h_vcmpequw_def h_vcmpgtub_def h_vcmpgtuh_def h_vcmpgtuw_def h_vcmpgtsb_def h_vcmpgtsh_def h_vcmpgtsw_def
    h_vmaxfp_def h_vminfp_def h_vcmpeqfp_def h_vcmpgtfp_def h_vcmpgefp_def h_vctuxs_def h_vctsxs_def h_vrfin_def
    h_vrfiz_def h_vrfip_def h_vrfim_def
  by (rule vec_forms_ok)+

lemma vec_other_handlers_ok:
  "alwaysOk h_lvsl" "alwaysOk h_lvsr" "alwaysOk h_vperm" "alwaysOk h_vsel" "alwaysOk h_vspltb" "alwaysOk h_vsplth"
  "alwaysOk h_vspltw" "alwaysOk h_vspltisb" "alwaysOk h_vspltish" "alwaysOk h_vspltisw" "alwaysOk h_vsldoi"
  "alwaysOk h_vslo" "alwaysOk h_vsro" "alwaysOk h_vsl" "alwaysOk h_vsr" "alwaysOk h_vaddubs" "alwaysOk h_vadduhs"
  "alwaysOk h_vadduws" "alwaysOk h_vaddsbs" "alwaysOk h_vaddshs" "alwaysOk h_vaddsws" "alwaysOk h_vsububs"
  "alwaysOk h_vsubuhs" "alwaysOk h_vsubuws" "alwaysOk h_vsubsbs" "alwaysOk h_vsubshs" "alwaysOk h_vsubsws"
  "alwaysOk h_vmladduhm" "alwaysOk h_vmhaddshs" "alwaysOk h_vmhraddshs" "alwaysOk h_vmsumubm" "alwaysOk h_vmsummbm"
  "alwaysOk h_vmsumuhm" "alwaysOk h_vmsumshm" "alwaysOk h_vmsumuhs" "alwaysOk h_vmsumshs" "alwaysOk h_vsumsws"
  "alwaysOk h_vsum2sws" "alwaysOk h_vsum4sbs" "alwaysOk h_vsum4shs" "alwaysOk h_vsum4ubs" "alwaysOk h_vpkuhum"
  "alwaysOk h_vpkuwum" "alwaysOk h_vpkuhus" "alwaysOk h_vpkshus" "alwaysOk h_vpkshss" "alwaysOk h_vpkuwus"
  "alwaysOk h_vpkswus" "alwaysOk h_vpkswss" "alwaysOk h_vpkpx" "alwaysOk h_vupkhsb" "alwaysOk h_vupklsb"
  "alwaysOk h_vupkhsh" "alwaysOk h_vupklsh" "alwaysOk h_vupkhpx" "alwaysOk h_vupklpx" "alwaysOk h_mfvscr"
  "alwaysOk (h_vaddfp hf)" "alwaysOk (h_vsubfp hf)" "alwaysOk (h_vmaddfp hf)"
  "alwaysOk (h_vnmsubfp hf)" "alwaysOk h_vcmpbfp" "alwaysOk (h_vcfux hf)" "alwaysOk (h_vcfsx hf)" "alwaysOk h_vrefp"
  "alwaysOk (h_vrsqrtefp hf)" "alwaysOk (h_vlogefp hf)" "alwaysOk (h_vexptefp hf)"
  by (rule alwaysOk_calm, simp add: h_lvsl_def h_lvsr_def h_vperm_def h_vsel_def h_vspltb_def h_vsplth_def h_vspltw_def h_vspltisb_def h_vspltish_def
    h_vspltisw_def h_vsldoi_def h_vslo_def h_vsro_def h_vsl_def h_vsr_def h_vaddubs_def h_vadduhs_def h_vadduws_def
    h_vaddsbs_def h_vaddshs_def h_vaddsws_def h_vsububs_def h_vsubuhs_def h_vsubuws_def h_vsubsbs_def h_vsubshs_def
    h_vsubsws_def h_vmladduhm_def h_vmhaddshs_def h_vmhraddshs_def h_vmsumubm_def h_vmsummbm_def h_vmsumuhm_def
    h_vmsumshm_def h_vmsumuhs_def h_vmsumshs_def h_vsumsws_def h_vsum2sws_def h_vsum4sbs_def h_vsum4shs_def
    h_vsum4ubs_def h_vpkuhum_def h_vpkuwum_def h_vpkuhus_def h_vpkshus_def h_vpkshss_def h_vpkuwus_def h_vpkswus_def
    h_vpkswss_def h_vpkpx_def h_vupkhsb_def h_vupklsb_def h_vupkhsh_def h_vupklsh_def h_vupkhpx_def h_vupklpx_def
    h_mfvscr_def h_vaddfp_def h_vsubfp_def h_vmaddfp_def h_vnmsubfp_def h_vcmpbfp_def h_vcfux_def
    h_vcfsx_def h_vrefp_def h_vrsqrtefp_def h_vlogefp_def h_vexptefp_def
    Let_def calm_setVD calm_vsat calm_vcmp calm_crField)+

lemma safe_mtvscr: "alwaysOk h_mtvscr"
  by (rule alwaysOk_calm) (simp add: calm_def h_mtvscr_def)

lemma vec_handlers_safe: "list_all (\<lambda>(m, h). userSafe h) (vecHandlers hf)"
  by (simp add: vecHandlers_def vec_memory_ok vec_form_handlers_ok vec_other_handlers_ok safe_mtvscr alwaysOk_userSafe)

lemma bound_units_safe: "bindUnits hf m = Some h \<Longrightarrow> userSafe h"
  using vec_handlers_safe [of hf] bound_fpu_safe [of hf m h]
  by (auto simp: bindUnits_def bindVecHandlers_def list_all_iff dest!: map_of_SomeD split: option.splits)

text \<open>
  C2. User-mode isolation of the whole processor: with the integer, floating-point and vector units'
  handlers bound as the code binds them, a processor that executes in user mode keeps every
  supervisor register until an exception takes it out, by way of its vector.
\<close>

theorem units_user_isolated:
  assumes "\<forall>k < n. userMode ((step (bindUnits hf) ^^ k) c)" "rowsOk c"
  shows "let c' = (step (bindUnits hf) ^^ n) c in
    prot (st c') = prot (st c) \<or> protX (st c') = protX (st c) \<and> (\<exists>v. enters v (st c) (st c'))"
  using stOk_steps [OF assms bound_units_safe] by (simp add: stOk_def Let_def)

lemma units_user_isolated_witness:
  "let s = st noFetchCpu; s' = st ((step (bindUnits offHost) ^^ 1) noFetchCpu) in
     prot s' = prot s \<or> protX s' = protX s \<and> (\<exists>v. enters v s s')"
proof -
  have "\<forall>k < 1. userMode ((step (bindUnits offHost) ^^ k) noFetchCpu)"
    by (simp add: userMode_def noFetchCpu_def)
  from units_user_isolated [OF this rowsOk_noFetch] show ?thesis by (simp add: Let_def)
qed

section \<open>Elements\<close>

lemma gb8_vecB [simp]: "k < 16 \<Longrightarrow> gb8 (vecB f) k = f k"
proof -
  assume k: "k < 16"
  then have "unat (of_nat k :: u32) = k" by (simp add: unat_of_nat)
  moreover from this have "(of_nat k :: u32) < 16" using k by (simp add: word_less_nat_alt)
  ultimately show "gb8 (vecB f) k = f k" by (simp add: gb8_def vecB_def)
qed

lemma gh_bytes: "gh v k = push_bit 8 (ucast (gb8 v (2 * k))) OR ucast (gb8 v (2 * k + 1))"
  by (simp add: gh_def gb8_def)

lemma gw_bytes: "gw v k = push_bit 24 (ucast (gb8 v (4 * k))) OR push_bit 16 (ucast (gb8 v (4 * k + 1))) OR
    push_bit 8 (ucast (gb8 v (4 * k + 2))) OR ucast (gb8 v (4 * k + 3))"
  by (simp add: gw_def gb8_def)

lemma gh_vecH [simp]: "k < 8 \<Longrightarrow> gh (vecH f) k = f k"
proof -
  assume k: "k < 8"
  have w: "push_bit 8 (ucast (ucast (drop_bit 8 x) :: u8)) OR ucast (ucast x :: u8) = x" for x :: u16
    by (rule bit_word_eqI) (auto simp: bit_simps)
  have "gb8 (vecH f) (2 * k) = ucast (drop_bit 8 (f k))" "gb8 (vecH f) (2 * k + 1) = ucast (f k)"
    unfolding vecH_def using k by (simp_all)
  then show "gh (vecH f) k = f k" unfolding gh_bytes by (simp only: w)
qed

lemma gw_vecW [simp]: "k < 4 \<Longrightarrow> gw (vecW f) k = f k"
proof -
  assume k: "k < 4"
  have m: "(4 * k + j) mod 4 = j" "(4 * k + j) div 4 = k" if "j < 4" for j using that by simp_all
  have "gb8 (vecW f) (4 * k + j) = ucast (drop_bit (8 * (3 - j)) (f k))" if "j < 4" for j
    unfolding vecW_def using k that m [OF that] by simp
  from this [of 0] this [of 1] this [of 2] this [of 3]
  have "gb8 (vecW f) (4 * k) = ucast (drop_bit 24 (f k))" "gb8 (vecW f) (4 * k + 1) = ucast (drop_bit 16 (f k))"
    "gb8 (vecW f) (4 * k + 2) = ucast (drop_bit 8 (f k))" "gb8 (vecW f) (4 * k + 3) = ucast (f k)" by simp_all
  then show "gw (vecW f) k = f k" unfolding gw_bytes by (simp only: byte4_rebuild)
qed

lemma setVD_sel [simp]:
  "vr (st (setVD i v c)) (f_rt i) = v" "vscr (st (setVD i v c)) = vscr (st c)" "vscr (st (setSat s c)) = (if s then vscr (st c) OR vSAT else vscr (st c))"
  by (simp_all add: setVD_def setSat_def)

section \<open>Saturation\<close>

text \<open>Every element is the exact value clamped to the range, and the sticky bit records a clamped element.\<close>

definition clamps :: "int \<Rightarrow> int \<Rightarrow> nat \<Rightarrow> (vec \<Rightarrow> nat \<Rightarrow> int) \<Rightarrow> (nat \<Rightarrow> int) \<Rightarrow> u32 \<Rightarrow> 'b cpu \<Rightarrow> 'b cpu \<Rightarrow> bool" where
  "clamps lo hi n rd f i c c' \<longleftrightarrow>
     (\<forall>k < n. rd (vr (st c') (f_rt i)) k = max lo (min hi (f k))) \<and>
     (vscr (st c') = (if \<exists>k < n. f k < lo \<or> hi < f k then vscr (st c) OR vSAT else vscr (st c)))"

lemma satTo_snd: "snd (satTo lo hi x) \<longleftrightarrow> x < lo \<or> hi < x"
  by (simp add: satTo_def)

lemma satTo_uint: "0 \<le> lo \<Longrightarrow> lo \<le> hi \<Longrightarrow> hi < 2 ^ LENGTH('a::len) \<Longrightarrow> uint (fst (satTo lo hi x) :: 'a word) = max lo (min hi x)"
  by (auto simp: satTo_def uint_word_of_int)

lemma satTo_sint:
  "- (2 ^ (LENGTH('a::len) - 1)) \<le> lo \<Longrightarrow> lo \<le> hi \<Longrightarrow> hi < 2 ^ (LENGTH('a) - 1) \<Longrightarrow> sint (fst (satTo lo hi x) :: 'a word) = max lo (min hi x)"
  by (auto simp: satTo_def signed_of_int signed_take_bit_int_eq_self_iff)

lemma laneSat_iff: "laneSat f n \<longleftrightarrow> (\<exists>k < n. snd (f k))"
  by (auto simp: laneSat_def list_ex_iff)

lemma vsat_clamps:
  assumes "\<And>k. k < n \<Longrightarrow> rd (mk (\<lambda>k. fst (satTo lo hi (f k))) :: vec) k = max lo (min hi (f k))"
  shows "clamps lo hi n rd f i c (setVD i (mk (\<lambda>k. fst (satTo lo hi (f k)))) (setSat (laneSat (\<lambda>k. satTo lo hi (f k) :: 'x::len word \<times> bool) n) c))"
  using assms by (simp add: clamps_def laneSat_iff satTo_snd)

lemma clamps_forms:
  "clamps 0 255 16 (\<lambda>v k. uint (gb8 v k)) f i c (vsatB (\<lambda>k. satU8 (f k)) i c)"
  "clamps (-128) 127 16 (\<lambda>v k. sint (gb8 v k)) f i c (vsatB (\<lambda>k. satS8 (f k)) i c)"
  "clamps 0 65535 8 (\<lambda>v k. uint (gh v k)) f i c (vsatH (\<lambda>k. satU16 (f k)) i c)"
  "clamps (-32768) 32767 8 (\<lambda>v k. sint (gh v k)) f i c (vsatH (\<lambda>k. satS16 (f k)) i c)"
  "clamps 0 4294967295 4 (\<lambda>v k. uint (gw v k)) f i c (vsatW (\<lambda>k. satU32 (f k)) i c)"
  "clamps (-2147483648) 2147483647 4 (\<lambda>v k. sint (gw v k)) f i c (vsatW (\<lambda>k. satS32 (f k)) i c)"
  unfolding vsatB_def vsatH_def vsatW_def satU8_def satS8_def satU16_def satS16_def satU32_def satS32_def
  by (rule vsat_clamps, simp add: satTo_uint satTo_sint)+

text \<open>
  C25. The saturating additions and subtractions: every element of the result is the exact sum or
  difference clamped to the range of its width and signedness, and VSCR[SAT] is set exactly if some
  element was clamped (and otherwise kept).
\<close>

theorem saturating_add_sub:
  "clamps 0 255 16 (\<lambda>v k. uint (gb8 v k)) (\<lambda>k. uint (gb8 (VA c i) k) + uint (gb8 (VB c i) k)) i c (h_vaddubs c i) \<and>
   clamps (-128) 127 16 (\<lambda>v k. sint (gb8 v k)) (\<lambda>k. sint (gb8 (VA c i) k) + sint (gb8 (VB c i) k)) i c (h_vaddsbs c i) \<and>
   clamps 0 255 16 (\<lambda>v k. uint (gb8 v k)) (\<lambda>k. uint (gb8 (VA c i) k) - uint (gb8 (VB c i) k)) i c (h_vsububs c i) \<and>
   clamps (-128) 127 16 (\<lambda>v k. sint (gb8 v k)) (\<lambda>k. sint (gb8 (VA c i) k) - sint (gb8 (VB c i) k)) i c (h_vsubsbs c i) \<and>
   clamps 0 65535 8 (\<lambda>v k. uint (gh v k)) (\<lambda>k. uint (gh (VA c i) k) + uint (gh (VB c i) k)) i c (h_vadduhs c i) \<and>
   clamps (-32768) 32767 8 (\<lambda>v k. sint (gh v k)) (\<lambda>k. sint (gh (VA c i) k) + sint (gh (VB c i) k)) i c (h_vaddshs c i) \<and>
   clamps 0 65535 8 (\<lambda>v k. uint (gh v k)) (\<lambda>k. uint (gh (VA c i) k) - uint (gh (VB c i) k)) i c (h_vsubuhs c i) \<and>
   clamps (-32768) 32767 8 (\<lambda>v k. sint (gh v k)) (\<lambda>k. sint (gh (VA c i) k) - sint (gh (VB c i) k)) i c (h_vsubshs c i) \<and>
   clamps 0 4294967295 4 (\<lambda>v k. uint (gw v k)) (\<lambda>k. uint (gw (VA c i) k) + uint (gw (VB c i) k)) i c (h_vadduws c i) \<and>
   clamps (-2147483648) 2147483647 4 (\<lambda>v k. sint (gw v k)) (\<lambda>k. sint (gw (VA c i) k) + sint (gw (VB c i) k)) i c (h_vaddsws c i) \<and>
   clamps 0 4294967295 4 (\<lambda>v k. uint (gw v k)) (\<lambda>k. uint (gw (VA c i) k) - uint (gw (VB c i) k)) i c (h_vsubuws c i) \<and>
   clamps (-2147483648) 2147483647 4 (\<lambda>v k. sint (gw v k)) (\<lambda>k. sint (gw (VA c i) k) - sint (gw (VB c i) k)) i c (h_vsubsws c i)"
  unfolding h_vaddubs_def h_vaddsbs_def h_vsububs_def h_vsubsbs_def h_vadduhs_def h_vaddshs_def h_vsubuhs_def h_vsubshs_def
    h_vadduws_def h_vaddsws_def h_vsubuws_def h_vsubsws_def
  by (intro conjI clamps_forms)

section \<open>Unaligned data\<close>

lemma aligned16_off: "(ea AND NOT 15) + (ea AND 15) = (ea :: u32)"
  by (subst disjunctive_add) (auto simp: bit_simps intro: bit_word_eqI)

text \<open>
  The control vector \<open>lvsl\<close> makes of an address selects, from the aligned quadword at or below it and
  the next one, the sixteen bytes at the address itself; of an aligned address it selects the first
  quadword whatever the second holds.
\<close>

lemma vperm_index:
  assumes "eaVX c0 i0 = ea" "VC c i = vr (st (h_lvsl c0 i0)) (f_rt i0)" "k < 16"
  defines "s \<equiv> unat (ea AND 15) + k"
  shows "gb8 (vr (st (h_vperm c i)) (f_rt i)) k = (if s < 16 then gb8 (VA c i) s else gb8 (VB c i) (s - 16))"
    "s < 31" "of_nat s = (ea AND 15) + of_nat k"
proof -
  have a: "unat (ea AND 15) < 16"
  proof -
    have "unat (ea AND mask 4) = unat ea mod 2 ^ 4" by (rule unat_and_mask)
    then show ?thesis by (simp add: mask_eq_exp_minus_1)
  qed
  then show "s < 31" using assms(3) by (simp add: s_def)
  have u: "unat ((ea AND 15) + of_nat k) = s" using a assms(3) by (simp add: s_def unat_word_ariths unat_of_nat)
  have t: "unat (x AND 0x1F :: u8) = unat x mod 32" for x
  proof -
    have "unat (x AND mask 5) = unat x mod 2 ^ 5" by (rule unat_and_mask)
    then show ?thesis by (simp add: mask_eq_exp_minus_1)
  qed
  have "gb8 (VC c i) k = ucast ((ea AND 15) + of_nat k)" using assms(3) by (simp add: assms(1,2) h_lvsl_def)
  then have "unat (gb8 (VC c i) k) = s" using a assms(3) u by (simp add: s_def unsigned_ucast_eq take_bit_nat_eq_self)
  then have "unat (gb8 (VC c i) k AND 0x1F) = s" using a assms(3) by (simp add: s_def t)
  then show "gb8 (vr (st (h_vperm c i)) (f_rt i)) k = (if s < 16 then gb8 (VA c i) s else gb8 (VB c i) (s - 16))"
    using assms(3) by (simp add: h_vperm_def Let_def)
  show "of_nat s = (ea AND 15) + of_nat k" by (simp add: s_def)
qed

lemma vperm_aligns:
  assumes "\<forall>j < 16. gb8 (VA c i) j = m ((ea AND NOT 15) + of_nat j)"
    and "\<forall>j < 16. gb8 (VB c i) j = m ((ea AND NOT 15) + 16 + of_nat j)"
    and "eaVX c0 i0 = ea" "VC c i = vr (st (h_lvsl c0 i0)) (f_rt i0)"
  shows "\<forall>k < 16. gb8 (vr (st (h_vperm c i)) (f_rt i)) k = m (ea + of_nat k)"
proof (intro allI impI)
  fix k :: nat assume k: "k < 16"
  let ?s = "unat (ea AND 15) + k"
  note s = vperm_index [OF assms(3,4) k]
  have e: "(ea AND NOT 15) + of_nat ?s = ea + of_nat k"
    unfolding s(3) using aligned16_off [of ea] by (simp only: add.assoc [symmetric])
  have e': "16 \<le> ?s \<Longrightarrow> (ea AND NOT 15) + 16 + of_nat (?s - 16) = ea + of_nat k" using e by simp
  show "gb8 (vr (st (h_vperm c i)) (f_rt i)) k = m (ea + of_nat k)"
  proof (cases "?s < 16")
    case True
    have "gb8 (VA c i) ?s = m (ea + of_nat k)" using assms(1) [rule_format, OF True] unfolding e .
    then show ?thesis using True s(1) by simp
  next
    case False
    then have l: "?s - 16 < 16" "16 \<le> ?s" using s(2) by simp_all
    have "gb8 (VB c i) (?s - 16) = m (ea + of_nat k)" using assms(2) [rule_format, OF l(1)] unfolding e' [OF l(2)] .
    then show ?thesis using False s(1) by simp
  qed
qed

lemma vperm_aligned:
  assumes "\<forall>j < 16. gb8 (VA c i) j = m (ea + of_nat j)" "eaVX c0 i0 = ea" "VC c i = vr (st (h_lvsl c0 i0)) (f_rt i0)" "ea AND 15 = 0"
  shows "\<forall>k < 16. gb8 (vr (st (h_vperm c i)) (f_rt i)) k = m (ea + of_nat k)"
  using vperm_index(1) [OF assms(2,3)] assms(1,4) by simp

section \<open>Shifts of the whole register\<close>

definition vecWord :: "vec \<Rightarrow> 128 word" where
  "vecWord v = foldl (\<lambda>s k. push_bit 8 s OR ucast (gb8 v k)) 0 [0..<16]"

lemma bit_foldl_bytes:
  "length bs \<le> 16 \<Longrightarrow> bit (foldl (\<lambda>s b. push_bit 8 s OR ucast b) 0 bs :: 128 word) n \<longleftrightarrow>
    n < 8 * length bs \<and> bit (bs ! (length bs - 1 - n div 8) :: u8) (n mod 8)"
proof (induction bs arbitrary: n rule: rev_induct)
  case (snoc b bs)
  let ?f = "foldl (\<lambda>s b. push_bit 8 s OR ucast b) 0 bs :: 128 word"
  have st: "foldl (\<lambda>s b. push_bit 8 s OR ucast b) 0 (bs @ [b]) = push_bit 8 ?f OR ucast b" by simp
  have l: "length bs < 16" using snoc.prems by simp
  show ?case
  proof (cases "n < 8")
    case True
    then have "bit (push_bit 8 ?f OR ucast b) n = bit b n" by (simp add: bit_or_iff bit_push_bit_iff bit_unsigned_iff)
    moreover have "(bs @ [b]) ! (length (bs @ [b]) - 1 - n div 8) = b" "n mod 8 = n" "n < 8 * length (bs @ [b])" using True by simp_all
    ultimately show ?thesis unfolding st by simp
  next
    case False
    then obtain m where n: "n = m + 8" by (metis add.commute le_add_diff_inverse not_less)
    have hb: "\<not> bit b n" using bit_imp_le_length [of b n] False by auto
    have g: "bit (push_bit 8 ?f OR ucast b) n \<longleftrightarrow> n < 128 \<and> bit ?f m"
      using hb False by (simp add: bit_or_iff bit_push_bit_iff bit_unsigned_iff n)
    have h: "bit ?f m \<longleftrightarrow> m < 8 * length bs \<and> bit (bs ! (length bs - 1 - m div 8)) (m mod 8)"
      by (rule snoc.IH) (use l in simp)
    have d: "n div 8 = Suc (m div 8)" "n mod 8 = m mod 8" by (simp_all add: n)
    show ?thesis
    proof (cases "m < 8 * length bs")
      case True
      then have "m div 8 < length bs" by presburger
      then have "length (bs @ [b]) - 1 - n div 8 = length bs - 1 - m div 8" "length bs - 1 - m div 8 < length bs" by (simp_all add: d)
      then have "(bs @ [b]) ! (length (bs @ [b]) - 1 - n div 8) = bs ! (length bs - 1 - m div 8)" by (simp add: nth_append)
      moreover have "n < 8 * length (bs @ [b])" "n < 128" using True l by (simp_all add: n)
      ultimately show ?thesis unfolding st g h d(2) using True by simp
    next
      case False
      then have "\<not> n < 8 * length (bs @ [b])" by (simp add: n)
      then show ?thesis unfolding st g h using False by simp
    qed
  qed
qed simp

lemma bit_vecWord:
  assumes "n < 128"
  shows "bit (vecWord v) n \<longleftrightarrow> bit (gb8 v (15 - n div 8)) (n mod 8)"
proof -
  let ?bs = "map (gb8 v) [0..<16]"
  have "vecWord v = foldl (\<lambda>s b. push_bit 8 s OR ucast b) 0 ?bs" by (simp only: vecWord_def foldl_map)
  moreover have l: "length ?bs = 16" by (simp only: length_map length_upt)
  moreover have "?bs ! (16 - 1 - n div 8) = gb8 v (15 - n div 8)" by (subst nth_map) simp_all
  ultimately show ?thesis using bit_foldl_bytes [of ?bs n] assms by (simp only: l) simp
qed

lemma bit_vecWord_at:
  assumes "k < 16" "r < 8"
  shows "bit (vecWord v) (8 * (15 - k) + r) \<longleftrightarrow> bit (gb8 v k) r"
proof -
  have "15 - (8 * (15 - k) + r) div 8 = k" "(8 * (15 - k) + r) mod 8 = r" "8 * (15 - k) + r < 128" using assms by simp_all
  then show ?thesis using bit_vecWord [of "8 * (15 - k) + r" v] by simp
qed

lemma vecWord_eqI:
  assumes "\<And>k r. k < 16 \<Longrightarrow> r < 8 \<Longrightarrow> bit (gb8 v k) r \<longleftrightarrow> bit w (8 * (15 - k) + r)"
  shows "vecWord v = w"
proof (rule bit_word_eqI)
  fix n assume "n < LENGTH(128)"
  then have n: "n < 128" "n div 8 < 16" "n mod 8 < 8" by simp_all
  then have "8 * (15 - (15 - n div 8)) + n mod 8 = n" by simp
  then show "bit (vecWord v) n = bit w n" using assms [of "15 - n div 8" "n mod 8"] n by (simp add: bit_vecWord)
qed

lemma octets_lt: "octets b < 16"
proof -
  have "unat (drop_bit 3 (gb8 b 15) AND mask 4) = unat (drop_bit 3 (gb8 b 15)) mod 2 ^ 4" by (rule unat_and_mask)
  then show ?thesis by (simp add: octets_def mask_eq_exp_minus_1)
qed

lemma vslo_shifts: "vecWord (vr (st (h_vslo c i)) (f_rt i)) = push_bit (8 * octets (VB c i)) (vecWord (VA c i))"
proof (rule vecWord_eqI)
  fix k r :: nat assume k: "k < 16" and r: "r < 8"
  obtain q where q: "octets (VB c i) = q" by blast
  have g: "gb8 (vr (st (h_vslo c i)) (f_rt i)) k = (if k + q < 16 then gb8 (VA c i) (k + q) else 0)"
    using k by (simp add: h_vslo_def Let_def q)
  let ?n = "8 * (15 - k) + r"
  show "bit (gb8 (vr (st (h_vslo c i)) (f_rt i)) k) r = bit (push_bit (8 * octets (VB c i)) (vecWord (VA c i))) ?n"
  proof (cases "k + q < 16")
    case True
    then have e: "?n - 8 * q = 8 * (15 - (k + q)) + r" "8 * q \<le> ?n" "?n < 128" using r by simp_all
    have "bit (vecWord (VA c i)) (?n - 8 * q) = bit (gb8 (VA c i) (k + q)) r"
      unfolding e(1) by (rule bit_vecWord_at [OF True r])
    then show ?thesis using True e(2,3) by (simp only: g q bit_push_bit_iff) simp
  next
    case False
    then have "\<not> 8 * q \<le> ?n" using r k by presburger
    then show ?thesis using False by (simp add: g q bit_push_bit_iff)
  qed
qed

lemma vsl_shifts:
  "vecWord (vr (st (h_vsl c i)) (f_rt i)) = push_bit (unat (gb8 (VB c i) 15 AND 7)) (vecWord (VA c i))"
proof (rule vecWord_eqI)
  fix k r :: nat assume k: "k < 16" and r: "r < 8"
  obtain q where q: "unat (gb8 (VB c i) 15 AND 7) = q" by blast
  have "unat (gb8 (VB c i) 15 AND mask 3) = unat (gb8 (VB c i) 15) mod 2 ^ 3" by (rule unat_and_mask)
  then have q8: "q < 8" using q by (simp add: mask_eq_exp_minus_1)
  let ?n = "8 * (15 - k) + r"
  have n: "?n < 128" using k r by simp
  have g: "bit (gb8 (vr (st (h_vsl c i)) (f_rt i)) k) r \<longleftrightarrow>
      (q \<le> r \<and> bit (gb8 (VA c i) k) (r - q)) \<or> (r < q \<and> k < 15 \<and> bit (gb8 (VA c i) (k + 1)) (r + 8 - q))"
    using k r q8 bit_imp_le_length [of "gb8 (VA c i) (k + 1)" "r + 8 - q"]
    by (auto simp: h_vsl_def Let_def q bit_simps add.commute)
  show "bit (gb8 (vr (st (h_vsl c i)) (f_rt i)) k) r = bit (push_bit (unat (gb8 (VB c i) 15 AND 7)) (vecWord (VA c i))) ?n"
  proof (cases "q \<le> r")
    case True
    then have e: "?n - q = 8 * (15 - k) + (r - q)" "r - q < 8" "q \<le> ?n" using r by simp_all
    have "bit (vecWord (VA c i)) (?n - q) = bit (gb8 (VA c i) k) (r - q)"
      unfolding e(1) by (rule bit_vecWord_at [OF k e(2)])
    then show ?thesis using True n e(3) by (simp only: g q bit_push_bit_iff) simp
  next
    case False
    show ?thesis
    proof (cases "k < 15")
      case k': True
      then have e: "?n - q = 8 * (15 - (k + 1)) + (r + 8 - q)" "r + 8 - q < 8" "q \<le> ?n" "k + 1 < 16" using False q8 by simp_all
      have "bit (vecWord (VA c i)) (?n - q) = bit (gb8 (VA c i) (k + 1)) (r + 8 - q)"
        unfolding e(1) by (rule bit_vecWord_at [OF e(4,2)])
      then show ?thesis using False k' n e(3) by (simp only: g q bit_push_bit_iff) simp
    next
      case False': False
      then have "\<not> q \<le> ?n" using k False by simp
      then show ?thesis using False False' by (simp only: g q bit_push_bit_iff) simp
    qed
  qed
qed

lemma low_seven: "8 * octets b + unat (gb8 b 15 AND 7) = unat (gb8 b 15) mod 128"
proof -
  let ?x = "gb8 b 15"
  have m: "unat (drop_bit 3 ?x AND mask 4) = unat (drop_bit 3 ?x) mod 2 ^ 4" "unat (?x AND mask 3) = unat ?x mod 2 ^ 3"
    by (rule unat_and_mask)+
  have d: "unat (drop_bit 3 ?x) = unat ?x div 8" by (subst unat_drop_bit_eq) (simp add: drop_bit_eq_div)
  have e: "octets b = unat ?x div 8 mod 16" "unat (?x AND 7) = unat ?x mod 8"
    using m unfolding octets_def d by (simp_all add: mask_eq_exp_minus_1)
  show ?thesis unfolding e using mod_mult2_eq [of "unat ?x" 8 16] by simp
qed

text \<open>C27. The long shift of the manual: a \<^verbatim>\<open>vslo\<close> followed by a \<^verbatim>\<open>vsl\<close> of its result under the same
  count shifts the whole 128-bit register left by the low seven bits of the count's last byte, for
  every register contents and every count; each step alone shifts by its own part.\<close>

theorem long_shift:
  assumes "VA d j = vr (st (h_vslo c i)) (f_rt i)" "VB d j = VB c i"
  shows "vecWord (vr (st (h_vsl d j)) (f_rt j)) = push_bit (unat (gb8 (VB c i) 15) mod 128) (vecWord (VA c i))"
  unfolding vsl_shifts assms vslo_shifts by (simp only: push_bit_push_bit low_seven [symmetric] add.commute)

text \<open>Two registers that hold the bytes 0 to 15 and 16 to 31.\<close>

definition permCpu :: "flat_bus cpu" where
  "permCpu = (flatCpu 0)\<lparr>st := initState\<lparr>vr := (\<lambda>r. if r = 1 then vecB (\<lambda>j. of_nat j) else vecB (\<lambda>j. of_nat (16 + j)))\<rparr>\<rparr>"

definition shiftedCpu :: "flat_bus cpu" where
  "shiftedCpu = h_vslo permCpu 0x00611000"

lemma long_shift_witness: "vecWord (vr (st (h_vsl shiftedCpu 0x00831000)) 4) = push_bit 31 (vecWord (vr (st permCpu) 1))"
proof -
  have f: "f_rt 0x00611000 = 3" "f_ra 0x00611000 = 1" "f_rb 0x00611000 = 2" "f_rt 0x00831000 = 4" "f_ra 0x00831000 = 3" "f_rb 0x00831000 = 2"
    by (simp_all add: f_ra_def f_rb_def f_rt_def ppcbits_def)
  have a: "VA shiftedCpu 0x00831000 = vr (st (h_vslo permCpu 0x00611000)) (f_rt 0x00611000)"
    by (simp add: VA_def f shiftedCpu_def)
  have b: "VB shiftedCpu 0x00831000 = VB permCpu 0x00611000"
    by (simp add: VB_def f shiftedCpu_def h_vslo_def Let_def setVD_def)
  have "unat (gb8 (VB permCpu 0x00611000) 15) = 31" by (simp add: VB_def f permCpu_def)
  then show ?thesis using long_shift [OF a b] by (simp add: f VA_def)
qed

end
