(* ===== verification/VectorValues.thy ===== *)
theory VectorValues
  imports VectorProps SingleFormat
begin

text \<open>
  What the vector floating-point compares and the conversions to fixed point compute, in terms of the
  rational value of a single-precision encoding, read from its fields.
\<close>

section \<open>The value of a single\<close>

definition sExp :: "u32 \<Rightarrow> nat" where
  "sExp w = unat w div 2 ^ 23 mod 2 ^ 8"

definition sFrac :: "u32 \<Rightarrow> nat" where
  "sFrac w = unat w mod 2 ^ 23"

definition sNeg :: "u32 \<Rightarrow> bool" where
  "sNeg w \<longleftrightarrow> 2 ^ 31 \<le> unat w"

definition sMag :: "u32 \<Rightarrow> nat" where
  "sMag w = unat w mod 2 ^ 31"

definition sglMag :: "u32 \<Rightarrow> rat" where
  "sglMag w = of_nat (sFrac w + (if sExp w = 0 then 0 else 2 ^ 23)) * 2 powi (int (max 1 (sExp w)) - 150)"

definition sglVal :: "u32 \<Rightarrow> rat" where
  "sglVal w = (if sNeg w then - sglMag w else sglMag w)"

lemma sMag_split: "sMag w = sExp w * 2 ^ 23 + sFrac w"
proof -
  have "unat w mod 2 ^ 31 = unat w mod (2 ^ 23 * 2 ^ 8)" by simp
  also have "\<dots> = 2 ^ 23 * (unat w div 2 ^ 23 mod 2 ^ 8) + unat w mod 2 ^ 23" by (rule mod_mult2_eq)
  finally show ?thesis by (simp add: sMag_def sExp_def sFrac_def)
qed

lemma single_words:
  "unat (w AND 0x007FFFFF) = sFrac w" "unat (drop_bit 23 w AND 0xFF) = sExp w" "drop_bit 31 w \<noteq> 0 \<longleftrightarrow> sNeg w"
  "unat (w AND 0x7FFFFFFF) = sMag w" "push_bit 1 w = 0 \<longleftrightarrow> sMag w = 0"
proof -
  have m: "(0x007FFFFF :: u32) = mask 23" "(0xFF :: u32) = mask 8" "(0x7FFFFFFF :: u32) = mask 31" by (simp_all add: mask_eq_exp_minus_1)
  show "unat (w AND 0x007FFFFF) = sFrac w" "unat (w AND 0x7FFFFFFF) = sMag w"
    unfolding m unat_and_mask sFrac_def sMag_def by simp_all
  show "unat (drop_bit 23 w AND 0xFF) = sExp w" unfolding m unat_and_mask sExp_def by (simp add: unat_drop_bit)
  have b: "unat w < 2 ^ 32" using unsigned_less [of w, where ?'a = nat] by simp
  have "unat (drop_bit 31 w) = unat w div 2 ^ 31" by (simp only: unat_drop_bit)
  then show "drop_bit 31 w \<noteq> 0 \<longleftrightarrow> sNeg w" unfolding sNeg_def unat_eq_0 [symmetric] by (simp add: div_eq_0_iff not_less)
  have "push_bit 1 w = 0 \<longleftrightarrow> unat w * 2 mod 2 ^ 32 = 0"
    by (simp add: unat_eq_0 [symmetric] push_bit_eq_mult unat_word_ariths mult.commute)
  also have "\<dots> \<longleftrightarrow> unat w mod 2 ^ 31 = 0" by (simp add: mod_eq_0_iff_dvd)
  finally show "push_bit 1 w = 0 \<longleftrightarrow> sMag w = 0" by (simp only: sMag_def)
qed

lemma single_bounds: "sFrac w < 2 ^ 23" "sExp w < 2 ^ 8"
  by (simp_all add: sFrac_def sExp_def)

lemma below_all: "m \<le> p \<Longrightarrow> (\<forall>n < p. n < m \<longrightarrow> P n) \<longleftrightarrow> (\<forall>n < m. P n)" for m p :: nat
  by (meson less_le_trans)

lemma sglNan_fields: "sglNan w \<longleftrightarrow> sExp w = 255 \<and> sFrac w \<noteq> 0"
proof -
  have "w AND 0x7F800000 = 0x7F800000 \<longleftrightarrow> drop_bit 23 w AND 0xFF = 0xFF"
  proof -
    have e: "(0x7F800000 :: u32) = push_bit 23 (mask 8)" by (simp add: mask_eq_exp_minus_1 push_bit_eq_mult)
    have b: "bit (0x7F800000 :: u32) n \<longleftrightarrow> 23 \<le> n \<and> n < 31" for n
      unfolding e bit_push_bit_iff bit_mask_iff by auto
    have "w AND 0x7F800000 = 0x7F800000 \<longleftrightarrow> (\<forall>n < 32. 23 \<le> n \<and> n < 31 \<longrightarrow> bit w n)"
      unfolding bit_eq_iff possible_bit_word bit_and_iff b by auto
    also have "\<dots> \<longleftrightarrow> (\<forall>n. 23 \<le> n \<and> n < 31 \<longrightarrow> bit w n)"
      using below_all [of 31 32 "\<lambda>n. 23 \<le> n \<longrightarrow> bit w n"] by auto
    also have "\<dots> \<longleftrightarrow> (\<forall>n < 8. bit w (23 + n))"
    proof
      assume l: "\<forall>n < 8. bit w (23 + n)"
      show "\<forall>n. 23 \<le> n \<and> n < 31 \<longrightarrow> bit w n"
      proof (intro allI impI)
        fix n :: nat assume "23 \<le> n \<and> n < 31"
        then have "n - 23 < 8" "23 + (n - 23) = n" by linarith+
        with l show "bit w n" by metis
      qed
    qed simp
    also have "\<dots> \<longleftrightarrow> drop_bit 23 w AND 0xFF = 0xFF"
      using below_all [of 8 32 "\<lambda>n. bit w (23 + n)"]
      unfolding bit_eq_iff possible_bit_word bit_and_iff bit_drop_bit_eq bit_FF comp_def by auto
    finally show ?thesis .
  qed
  moreover have "drop_bit 23 w AND 0xFF = 0xFF \<longleftrightarrow> sExp w = 255" by (simp add: word_unat_eq_iff single_words)
  moreover have "w AND 0x007FFFFF = 0 \<longleftrightarrow> sFrac w = 0" by (simp add: unat_eq_0 [symmetric] single_words)
  ultimately show ?thesis by (simp add: sglNan_def)
qed

section \<open>The order of encodings is the order of values\<close>

lemma fields_less:
  fixes ea eb fa fb p :: nat and k :: int
  assumes "fa < 2 ^ p" "fb < 2 ^ p" "ea * 2 ^ p + fa < eb * 2 ^ p + fb"
  shows "of_nat (fa + (if ea = 0 then 0 else 2 ^ p)) * 2 powi (int (max 1 ea) - k) <
    (of_nat (fb + (if eb = 0 then 0 else 2 ^ p)) * 2 powi (int (max 1 eb) - k) :: rat)"
proof -
  define xa xb where "xa = max 1 ea" and "xb = max 1 eb"
  define ma mb where "ma = fa + (if ea = 0 then 0 else 2 ^ p)" and "mb = fb + (if eb = 0 then 0 else 2 ^ p)"
  have le: "ea \<le> eb"
  proof (rule ccontr)
    assume "\<not> ?thesis"
    then have "(eb + 1) * 2 ^ p \<le> ea * 2 ^ p" by (intro mult_right_mono) simp_all
    then show False using assms by simp
  qed
  have "of_nat ma * 2 powi (int xa - k) < (of_nat mb * 2 powi (int xb - k) :: rat)"
  proof (cases "xa = xb")
    case True
    have "ma < mb"
    proof (cases "ea = eb")
      case True
      then show ?thesis using assms(3) by (simp add: ma_def mb_def)
    next
      case False
      then have "ea = 0" "eb = 1" using True le by (auto simp: xa_def xb_def max_def split: if_splits)
      then show ?thesis using assms(1) by (simp add: ma_def mb_def)
    qed
    then show ?thesis unfolding True by (intro mult_strict_right_mono) simp_all
  next
    case False
    with le have lt: "xa < xb" "mb \<ge> 2 ^ p" by (auto simp: xa_def xb_def mb_def max_def split: if_splits)
    have "ma < 2 ^ Suc p" using assms(1) by (simp add: ma_def)
    then have "of_nat ma < (2 :: rat) ^ Suc p" by (metis of_nat_less_iff of_nat_numeral of_nat_power)
    then have "of_nat ma * 2 powi (int xa - k) < (2 :: rat) ^ Suc p * 2 powi (int xa - k)" by (intro mult_strict_right_mono) simp_all
    also have "\<dots> = 2 ^ p * 2 powi (int xa - k + 1)" using powi_split [of 1 "int xa - k"] by (simp add: algebra_simps)
    also have "\<dots> \<le> of_nat mb * 2 powi (int xb - k)"
    proof (intro mult_mono powi_mono)
      show "(2 :: rat) ^ p \<le> of_nat mb" using lt(2) by (metis of_nat_le_iff of_nat_numeral of_nat_power)
    qed (use lt(1) in simp_all)
    finally show ?thesis .
  qed
  then show ?thesis unfolding xa_def xb_def ma_def mb_def .
qed

lemma sglMag_less: "sMag x < sMag y \<Longrightarrow> sglMag x < sglMag y"
  using fields_less [of "sFrac x" 23 "sFrac y" "sExp x" "sExp y" 150] single_bounds [of x] single_bounds [of y]
  unfolding sMag_split sglMag_def by simp

lemma sglMag_eq: "sMag x = sMag y \<Longrightarrow> sglMag x = sglMag y"
proof -
  assume e: "sMag x = sMag y"
  have "sExp w = sMag w div 2 ^ 23" "sFrac w = sMag w mod 2 ^ 23" for w
    using single_bounds(1) [of w] unfolding sMag_split by simp_all
  then show ?thesis using e by (simp add: sglMag_def)
qed

lemma sglMag_less_iff: "sglMag x < sglMag y \<longleftrightarrow> sMag x < sMag y"
  using sglMag_less [of x y] sglMag_less [of y x] sglMag_eq [of x y] by (cases "sMag x" "sMag y" rule: linorder_cases) auto

lemma sglMag_zero: "sglMag w = 0 \<longleftrightarrow> sMag w = 0"
  by (auto simp: sglMag_def sMag_split)

lemma sglMag_nonneg: "0 \<le> sglMag w"
  unfolding sglMag_def by (intro mult_nonneg_nonneg of_nat_0_le_iff zero_le_power_int) simp

text \<open>The order of the values, infinities included.\<close>

definition sglLess :: "u32 \<Rightarrow> u32 \<Rightarrow> bool" where
  "sglLess x y \<longleftrightarrow>
     (if sExp x = 255 then sNeg x \<and> \<not> (sExp y = 255 \<and> sNeg y)
      else if sExp y = 255 then \<not> sNeg y else sglVal x < sglVal y)"

lemma inf_sMag: "\<not> sglNan w \<Longrightarrow> sExp w = 255 \<Longrightarrow> sMag w = 255 * 2 ^ 23"
  by (simp add: sglNan_fields sMag_split)

lemma fin_sMag: "sExp w \<noteq> 255 \<Longrightarrow> sMag w < 255 * 2 ^ 23"
proof -
  assume "sExp w \<noteq> 255"
  then have "(sExp w + 1) * 2 ^ 23 \<le> 255 * 2 ^ 23" using single_bounds(2) [of w] by (intro mult_right_mono) simp_all
  then show ?thesis using single_bounds(1) [of w] unfolding sMag_split by simp
qed

lemma single_eq_fields: "x = y \<longleftrightarrow> sNeg x = sNeg y \<and> sMag x = sMag y"
proof -
  have "unat w = sMag w + (if sNeg w then 2 ^ 31 else 0)" for w
  proof -
    have b: "unat w < 2 ^ 31 + 2 ^ 31" using unsigned_less [of w, where ?'a = nat] by simp
    show ?thesis
    proof (cases "sNeg w")
      case True
      then have "unat w = (unat w - 2 ^ 31) + 2 ^ 31" "unat w - 2 ^ 31 < 2 ^ 31" using b by (simp_all add: sNeg_def)
      then have "unat w mod 2 ^ 31 = unat w - 2 ^ 31" by (metis mod_add_self2 mod_less)
      then show ?thesis using True by (simp add: sMag_def sNeg_def)
    qed (simp add: sNeg_def sMag_def)
  qed
  then show ?thesis by (metis word_unat_eq_iff)
qed

text \<open>The source's \<^verbatim>\<open>sglGreater\<close>: the order of sign and magnitude, but true of a negative number and itself.\<close>

definition sglKey :: "u32 \<Rightarrow> int" where
  "sglKey w = (if sNeg w then - int (sMag w) else int (sMag w))"

lemma greater_key: "sglGreater x y \<longleftrightarrow> sglKey y < sglKey x \<or> (x = y \<and> sglKey x < 0)"
  unfolding sglGreater_def Let_def single_words(3,5) word_less_nat_alt single_words(4) single_eq_fields [of x y] sglKey_def
  by (cases "sNeg x"; cases "sNeg y"; auto)

lemma key_sglLess:
  assumes "\<not> sglNan x" "\<not> sglNan y"
  shows "sglKey y < sglKey x \<longleftrightarrow> sglLess y x"
proof -
  note i = inf_sMag [OF assms(1)] inf_sMag [OF assms(2)] fin_sMag [of x] fin_sMag [of y]
  note v = sglMag_less_iff [of x y] sglMag_less_iff [of y x] sglMag_zero [of x] sglMag_zero [of y] sglMag_nonneg [of x] sglMag_nonneg [of y]
  show ?thesis
  proof (cases "sExp x = 255 \<or> sExp y = 255")
    case True
    then show ?thesis unfolding sglKey_def sglLess_def using i
      by (cases "sNeg x"; cases "sNeg y"; cases "sExp x = 255"; cases "sExp y = 255"; simp)
  next
    case False
    then show ?thesis unfolding sglKey_def sglLess_def sglVal_def using v
      by (cases "sNeg x"; cases "sNeg y"; auto)
  qed
qed

lemma sglEqual_less:
  assumes "\<not> sglNan x" "\<not> sglNan y"
  shows "sglEqual x y \<longleftrightarrow> \<not> sglLess x y \<and> \<not> sglLess y x"
proof -
  have "sglEqual x y \<longleftrightarrow> sglKey x = sglKey y"
    unfolding sglEqual_def single_words(5) single_eq_fields [of x y] sglKey_def by (cases "sNeg x"; cases "sNeg y"; auto)
  then show ?thesis using key_sglLess [OF assms] key_sglLess [OF assms(2,1)] by auto
qed

text \<open>
  C22. The vector floating-point compares and extremes are the order of the elements' values (after
  the flush of denormals in non-Java mode), unordered elements comparing false, infinities at the
  ends and the two zeros equal, with one exception: two equal negative elements. For those
  \<^verbatim>\<open>sglGreater\<close> answers true, so a greater-than compare of a negative number with itself
  succeeds. The extremes are not affected by it, since either operand is the result.
\<close>

theorem vector_compare_orders:
  assumes "k < 4"
  shows "let a = flushIn c (gw (VA c i) k); b = flushIn c (gw (VB c i) k); lane = (\<lambda>h. gw (vr (st (h c i)) (f_rt i)) k);
      ord = \<not> sglNan a \<and> \<not> sglNan b; same = (a = b \<and> sNeg a \<and> sMag a \<noteq> 0); m = (\<lambda>t :: bool. if t then 0xFFFFFFFF else 0) in
    lane h_vcmpgtfp = m (ord \<and> (sglLess b a \<or> same)) \<and>
    lane h_vcmpeqfp = m (ord \<and> \<not> sglLess a b \<and> \<not> sglLess b a) \<and>
    lane h_vcmpgefp = m (ord \<and> \<not> sglLess a b) \<and>
    (ord \<longrightarrow> \<not> sglLess (lane h_vmaxfp) a \<and> \<not> sglLess (lane h_vmaxfp) b \<and> lane h_vmaxfp \<in> {a, b}) \<and>
    (ord \<longrightarrow> \<not> sglLess a (lane h_vminfp) \<and> \<not> sglLess b (lane h_vminfp) \<and> lane h_vminfp \<in> {a, b})"
proof -
  define a b where "a = flushIn c (gw (VA c i) k)" and "b = flushIn c (gw (VB c i) k)"
  have cr: "vr (st (setCr6 i x y d)) = vr (st d)" for x y and d :: "'a cpu" by (simp add: setCr6_def setCrField_def Let_def)
  have g: "gw (vr (st (vfcmp r c i)) (f_rt i)) k = (if (\<not> sglNan a \<and> \<not> sglNan b) \<and> r a b then 0xFFFFFFFF else 0)" for r
    using assms by (simp add: vfcmp_def vcmp_def cr a_def b_def Let_def)
  have e: "gw (vr (st (vminmax r c i)) (f_rt i)) k = (if sglNan a then sglQuiet a else if sglNan b then sglQuiet b else if r a b then a else b)" for r
    using assms by (simp add: vminmax_def a_def b_def Let_def)
  have key: "sglKey w < 0 \<longleftrightarrow> sNeg w \<and> sMag w \<noteq> 0" for w by (simp add: sglKey_def)
  show ?thesis
  proof (cases "sglNan a \<or> sglNan b")
    case True
    then have n: "(\<not> sglNan a \<and> \<not> sglNan b) \<longleftrightarrow> False" by blast
    show ?thesis unfolding Let_def a_def [symmetric] b_def [symmetric] h_vcmpgtfp_def h_vcmpeqfp_def h_vcmpgefp_def g n
      by (simp only: simp_thms if_False)
  next
    case False
    then have n: "\<not> sglNan a" "\<not> sglNan b" by simp_all
    note o = key_sglLess [OF n] key_sglLess [OF n(2,1)] key_sglLess [OF n(1,1)] key_sglLess [OF n(2,2)]
    have irr: "\<not> sglLess a a" "\<not> sglLess b b" "\<not> (sglLess a b \<and> sglLess b a)" using o by auto
    have gr: "sglGreater a b \<longleftrightarrow> sglLess b a \<or> (a = b \<and> sNeg a \<and> sMag a \<noteq> 0)" "sglGreater b a \<longleftrightarrow> sglLess a b \<or> (b = a \<and> sNeg b \<and> sMag b \<noteq> 0)"
      unfolding greater_key key o by (rule refl)+
    note eq = sglEqual_less [OF n]
    have 1: "sglEqual a b \<or> sglGreater a b \<longleftrightarrow> \<not> sglLess a b" unfolding eq gr using irr by blast
    have ab: "sglGreater a b \<Longrightarrow> \<not> sglLess a b" "\<not> sglGreater a b \<Longrightarrow> \<not> sglLess b a"
      "sglGreater b a \<Longrightarrow> \<not> sglLess b a" "\<not> sglGreater b a \<Longrightarrow> \<not> sglLess a b"
      unfolding gr using irr by blast+
    have 2: "\<not> sglLess (if sglGreater a b then a else b) a" "\<not> sglLess (if sglGreater a b then a else b) b"
      "\<not> sglLess a (if sglGreater b a then a else b)" "\<not> sglLess b (if sglGreater b a then a else b)"
      using irr ab by (simp_all only: split: if_split) blast+
    have 3: "(if t then a else b) \<in> {a, b}" for t by simp
    show ?thesis
      unfolding Let_def a_def [symmetric] b_def [symmetric] h_vcmpgtfp_def h_vcmpeqfp_def h_vcmpgefp_def h_vmaxfp_def h_vminfp_def g e
        if_not_P [OF n(1)] if_not_P [OF n(2)] 1
      unfolding eq gr(1)
      by (intro conjI impI refl 2 3 2 [unfolded gr] 3 [unfolded gr])
  qed
qed

text \<open>Infinity against two, as \<^verbatim>\<open>vcmpgtfp\<close>; and negative numbers, zeros of both signs.\<close>

definition laneCpu :: "u32 \<Rightarrow> u32 \<Rightarrow> flat_bus cpu" where
  "laneCpu a b = (flatCpu 0)\<lparr>st := initState\<lparr>vr := (\<lambda>r. if r = 1 then vecW (\<lambda>_. a) else vecW (\<lambda>_. b))\<rparr>\<rparr>"

lemma laneCpu_lanes:
  "VA (laneCpu a b) 0x006112C6 = vecW (\<lambda>_. a)" "VB (laneCpu a b) 0x006112C6 = vecW (\<lambda>_. b)" "f_rt 0x006112C6 = 3"
  "flushIn (laneCpu a b) w = w"
  by (simp_all add: VA_def VB_def laneCpu_def f_ra_def f_rb_def f_rt_def ppcbits_def flushIn_def initState_def)

lemma vector_compare_orders_witness: "gw (vr (st (h_vcmpgtfp (laneCpu 0x7F800000 0x40000000) 0x006112C6)) 3) 0 = 0xFFFFFFFF"
proof -
  have n: "\<not> sglNan 0x7F800000" "\<not> sglNan 0x40000000" by (simp_all add: sglNan_def)
  have "sglLess 0x40000000 0x7F800000" by (simp add: sglLess_def sExp_def sNeg_def)
  then show ?thesis
    using vector_compare_orders [of 0 "laneCpu 0x7F800000 0x40000000" "0x006112C6"] n
    unfolding Let_def laneCpu_lanes by simp
qed

text \<open>
  The exception at work: minus one compares greater than itself, and lies outside the bounds plus and
  minus one. The larger of the two zeros is the second operand, whatever its sign.
\<close>

lemma negative_above_itself:
  "gw (vr (st (h_vcmpgtfp (laneCpu 0xBF800000 0xBF800000) 0x006112C6)) 3) 0 = 0xFFFFFFFF"
proof -
  have "sglGreater 0xBF800000 0xBF800000" "\<not> sglNan 0xBF800000" by (simp_all add: sglGreater_def sglNan_def)
  moreover have cr: "vr (st (setCr6 i x y d)) = vr (st d)" for i x y and d :: "flat_bus cpu" by (simp add: setCr6_def setCrField_def Let_def)
  moreover have "vr (st (setVD 0x006112C6 v d)) 3 = v" for v and d :: "flat_bus cpu" by (simp add: setVD_def laneCpu_lanes)
  ultimately show ?thesis by (simp add: h_vcmpgtfp_def vfcmp_def vcmp_def laneCpu_lanes Let_def)
qed

lemma negative_outside_its_bound: "boundsLane (laneCpu 0xBF800000 0x3F800000) 0x006112C6 0 = (0, 1)"
  by (simp add: boundsLane_def laneCpu_lanes Let_def sglNan_def sglGreater_def)

lemma maximum_of_zeros: "gw (vr (st (h_vmaxfp (laneCpu 0 0x80000000) 0x006112C6)) 3) 0 = 0x80000000"
proof -
  have "vr (st (setVD 0x006112C6 v d)) 3 = v" for v and d :: "flat_bus cpu" by (simp add: setVD_def laneCpu_lanes)
  then show ?thesis by (simp add: h_vmaxfp_def vminmax_def laneCpu_lanes Let_def sglNan_def sglGreater_def)
qed

end
