(* ===== verification/VectorConv.thy ===== *)
theory VectorConv
  imports VectorValues
begin

text \<open>
  The conversions of vector elements to fixed point: the value of a single survives the widening to
  double, and the fixed-point magnitude is the floor of the scaled value.
\<close>

section \<open>The value of a widened single\<close>

lemma denormal_significand:
  fixes fr :: u32
  assumes "fr \<noteq> 0" "unat fr < 2 ^ 23" and "m = 31 - countl_zero fr"
  shows "m < 23" "unat (push_bit (52 - m) (ucast fr) AND 0x000FFFFFFFFFFFFF :: u64) + 2 ^ 52 = unat fr * 2 ^ (52 - m)"
proof -
  note cz = countl_zero_bits [OF assms(1), folded assms(3)]
  have "unat fr div 2 ^ m \<noteq> 0" using cz(2) unfolding bit_unat bit_iff_odd by (metis dvd_0_right)
  then have lo: "2 ^ m \<le> unat fr" by (metis div_less not_less)
  then have "(2 :: nat) ^ m < 2 ^ 23" using assms(2) by linarith
  then show m: "m < 23" by (rule power_less_imp_less_exp [rotated]) simp
  have "drop_bit (Suc m) fr = 0" by (rule bit_word_eqI) (use cz(3) in \<open>simp add: bit_drop_bit_eq\<close>)
  then have "unat fr div 2 ^ Suc m = 0" using unat_drop_bit [of "Suc m" fr] by simp
  then have hi: "unat fr < 2 ^ Suc m" by (simp only: div_eq_0_iff) simp
  have p: "(2 :: nat) ^ m * 2 ^ (52 - m) = 2 ^ 52" "(2 :: nat) ^ Suc m * 2 ^ (52 - m) = 2 ^ 53"
    using m by (simp_all only: power_add [symmetric]) simp_all
  have b: "2 ^ 52 \<le> unat fr * 2 ^ (52 - m)" "unat fr * 2 ^ (52 - m) < 2 ^ 53"
    using mult_right_mono [OF lo, of "2 ^ (52 - m)"] mult_strict_right_mono [OF hi, of "2 ^ (52 - m)"] unfolding p by simp_all
  have u: "unat (push_bit (52 - m) (ucast fr :: u64)) = unat fr * 2 ^ (52 - m)"
    using push_bit_unat [of "ucast fr" "52 - m"] b(2) by (simp add: unat_ucast_64)
  have k: "(0x000FFFFFFFFFFFFF :: u64) = mask 52" by (simp add: mask_eq_exp_minus_1)
  have "unat (push_bit (52 - m) (ucast fr) AND 0x000FFFFFFFFFFFFF :: u64) = unat fr * 2 ^ (52 - m) mod 2 ^ 52"
    unfolding k unat_and_mask u ..
  also have "\<dots> = unat fr * 2 ^ (52 - m) - 2 ^ 52" using b by (subst mod_if) (simp add: mod_if)
  finally show "unat (push_bit (52 - m) (ucast fr) AND 0x000FFFFFFFFFFFFF :: u64) + 2 ^ 52 = unat fr * 2 ^ (52 - m)"
    using b(1) by simp
qed

text \<open>The fields of the widened encoding.\<close>

lemma widened:
  obtains E M :: u64 where "loadSingle w = encode (sNeg w) E M" "unat M < 2 ^ 52" "unat E < 2048"
    "unat E = 2047 \<longleftrightarrow> sExp w = 255"
    "sExp w \<noteq> 255 \<longrightarrow> (if unat E = 0 then of_nat (unat M) * 2 powi (- 1074)
       else of_nat (unat M + 2 ^ 52) * 2 powi (int (unat E) - 1075)) = sglMag w"
proof -
  let ?e = "drop_bit 23 w AND 0xFF" and ?f = "w AND 0x7FFFFF"
  have e: "unat ?e = sExp w" and f: "unat ?f = sFrac w" by (simp_all only: single_words)
  note bd = single_bounds [of w]
  have c: "?e = 255 \<longleftrightarrow> sExp w = 255" "?e = 0 \<longleftrightarrow> sExp w = 0" "?f = 0 \<longleftrightarrow> sFrac w = 0"
    unfolding e [symmetric] f [symmetric] by (simp_all add: word_unat_eq_iff del: unsigned_and_eq)
  have sg: "push_bit 63 (ucast (drop_bit 31 w)) = (if sNeg w then kSignBit else 0 :: u64)"
  proof -
    have "bit w 31 \<longleftrightarrow> sNeg w"
    proof -
      have b: "unat w < 2 ^ 32" using unsigned_less [of w, where ?'a = nat] by simp
      have "bit w 31 \<longleftrightarrow> odd (unat w div 2 ^ 31)" by (simp only: bit_unat bit_iff_odd)
      also have "\<dots> \<longleftrightarrow> 2 ^ 31 \<le> unat w"
      proof (cases "2 ^ 31 \<le> unat w")
        case True
        then have "unat w div 2 ^ 31 = 1" using b by (intro div_nat_eqI) simp_all
        then show ?thesis using True by simp
      qed simp
      finally show ?thesis by (simp only: sNeg_def)
    qed
    then show ?thesis unfolding sign_part by (simp add: push_bit_eq_mult)
  qed
  consider "sExp w = 255" | "sExp w = 0" "sFrac w = 0" | "sExp w = 0" "sFrac w \<noteq> 0" | "sExp w \<noteq> 0" "sExp w \<noteq> 255" by blast
  then show thesis
  proof cases
    case 1
    show thesis
    proof (rule that)
      show "loadSingle w = encode (sNeg w) 0x7FF (push_bit 29 (ucast ?f))"
        unfolding loadSingle_def Let_def sg encode_def using 1 c(1) by (simp add: push_bit_eq_mult)
      have "unat (push_bit 29 (ucast ?f) :: u64) = sFrac w * 2 ^ 29"
        using push_bit_unat [of "ucast ?f" 29] bd(1) by (simp add: unat_ucast_64 f)
      then show "unat (push_bit 29 (ucast ?f) :: u64) < 2 ^ 52" using bd(1) by simp
    qed (use 1 in simp_all)
  next
    case 2
    show thesis
    proof (rule that)
      show "loadSingle w = encode (sNeg w) 0 0" unfolding loadSingle_def Let_def sg encode_def using 2 c by simp
    qed (use 2 in \<open>simp_all add: sglMag_def\<close>)
  next
    case 3
    let ?m = "31 - countl_zero ?f"
    have nz: "?f \<noteq> 0" using 3(2) unfolding c(3) .
    note d = denormal_significand [OF nz bd(1) [folded f] refl]
    let ?E = "word_of_int (int ?m - 149 + 1023) :: u64" and ?M = "push_bit (52 - ?m) (ucast ?f) AND 0x000FFFFFFFFFFFFF :: u64"
    have "?E = of_nat (?m + 874)" by simp
    then have E: "unat ?E = ?m + 874" using d(1) by (simp only: unat_of_nat) simp
    show thesis
    proof (rule that)
      show "loadSingle w = encode (sNeg w) ?E ?M"
        unfolding loadSingle_def Let_def sg encode_def using 3 c by simp
      have k: "(0x000FFFFFFFFFFFFF :: u64) = mask 52" by (simp add: mask_eq_exp_minus_1)
      show "unat ?M < 2 ^ 52" unfolding k unat_and_mask by simp
      show "unat ?E < 2048" "unat ?E = 2047 \<longleftrightarrow> sExp w = 255" using E d(1) 3(1) by simp_all
      have "of_nat (unat ?M + 2 ^ 52) * 2 powi (int (unat ?E) - 1075) = (of_nat (sFrac w) * 2 ^ (52 - ?m)) * (2 powi (int ?m - 201) :: rat)"
        unfolding d(2) E f by simp
      also have "\<dots> = of_nat (sFrac w) * (2 powi int (52 - ?m) * 2 powi (int ?m - 201))" by (simp only: powi_nat mult.assoc)
      also have "2 powi int (52 - ?m) * 2 powi (int ?m - 201) = (2 powi (- 149) :: rat)"
        using d(1) by (simp only: powi_split [symmetric]) (simp add: of_nat_diff)
      finally show "sExp w \<noteq> 255 \<longrightarrow> (if unat ?E = 0 then of_nat (unat ?M) * 2 powi (- 1074)
         else of_nat (unat ?M + 2 ^ 52) * 2 powi (int (unat ?E) - 1075)) = sglMag w"
        using 3(1) unfolding E by (simp add: sglMag_def)
    qed
  next
    case 4
    let ?E = "ucast (?e + 896) :: u64" and ?M = "push_bit 29 (ucast ?f) :: u64"
    have E: "unat ?E = sExp w + 896" using bd(2) by (simp add: unat_ucast_64 unat_word_ariths e del: unsigned_and_eq)
    have E0: "unat ?E \<noteq> 0" unfolding E by simp
    have M: "unat ?M = sFrac w * 2 ^ 29" using push_bit_unat [of "ucast ?f" 29] bd(1) by (simp add: unat_ucast_64 f del: unsigned_and_eq)
    show thesis
    proof (rule that)
      show "loadSingle w = encode (sNeg w) ?E ?M"
        unfolding loadSingle_def Let_def sg encode_def using 4 c by simp
      show "unat ?M < 2 ^ 52" using bd(1) by (simp add: M)
      show "unat ?E < 2048" "unat ?E = 2047 \<longleftrightarrow> sExp w = 255" unfolding E using bd(2) 4 by simp_all
      have "of_nat (unat ?M + 2 ^ 52) * 2 powi (int (unat ?E) - 1075) = of_nat ((sFrac w + 2 ^ 23) * 2 ^ 29) * (2 powi (int (sExp w) - 179) :: rat)"
        unfolding M E by (simp add: algebra_simps)
      also have "\<dots> = of_nat (sFrac w + 2 ^ 23) * (2 powi 29 * 2 powi (int (sExp w) - 179))" by (simp only: of_nat_mult of_nat_power of_nat_numeral mult.assoc) simp
      also have "\<dots> = sglMag w" using 4(1) by (simp only: powi_split [symmetric]) (simp add: sglMag_def max_def)
      finally show "sExp w \<noteq> 255 \<longrightarrow> (if unat ?E = 0 then of_nat (unat ?M) * 2 powi (- 1074)
         else of_nat (unat ?M + 2 ^ 52) * 2 powi (int (unat ?E) - 1075)) = sglMag w" unfolding if_not_P [OF E0] by blast
    qed
  qed
qed

lemma widened_value:
  "sExp w \<noteq> 255 \<Longrightarrow> expField (loadSingle w) \<noteq> 2047 \<and> fpMag (unpack (loadSingle w)) = sglMag w"
  "expField (loadSingle w) = 2047 \<longleftrightarrow> sExp w = 255" "2 ^ 63 \<le> unat (loadSingle w) \<longleftrightarrow> sNeg w"
proof -
  obtain E M :: u64 where l: "loadSingle w = encode (sNeg w) E M" and M: "unat M < 2 ^ 52" and E: "unat E < 2048"
    "unat E = 2047 \<longleftrightarrow> sExp w = 255" and v: "sExp w \<noteq> 255 \<longrightarrow> (if unat E = 0 then of_nat (unat M) * 2 powi (- 1074)
       else of_nat (unat M + 2 ^ 52) * 2 powi (int (unat E) - 1075)) = sglMag w"
    by (rule widened [of w])
  have E': "unat E < 2 ^ 11" using E(1) by simp
  note f = encode_fields [OF E' M, of "sNeg w"]
  show "expField (loadSingle w) = 2047 \<longleftrightarrow> sExp w = 255" "2 ^ 63 \<le> unat (loadSingle w) \<longleftrightarrow> sNeg w"
    unfolding l f E(2) by (rule refl)+
  assume fin: "sExp w \<noteq> 255"
  then have "unat E < 2047" using E by linarith
  from unpack_encode(3) [OF this M, of "sNeg w"] v E(2) fin
  show "expField (loadSingle w) \<noteq> 2047 \<and> fpMag (unpack (loadSingle w)) = sglMag w" unfolding l f by simp
qed

section \<open>The fixed-point magnitude\<close>

lemma scaled_floor:
  fixes G :: nat and x :: int
  assumes "G < 2 ^ 53"
  shows "x < 0 \<Longrightarrow> \<lfloor>of_nat G * (2 powi (x - 52) :: rat)\<rfloor> = 0"
    "0 \<le> x \<Longrightarrow> x < 52 \<Longrightarrow> \<lfloor>of_nat G * (2 powi (x - 52) :: rat)\<rfloor> = int (G div 2 ^ nat (52 - x))"
    "52 \<le> x \<Longrightarrow> \<lfloor>of_nat G * (2 powi (x - 52) :: rat)\<rfloor> = int (G * 2 ^ nat (x - 52))"
proof -
  have neg: "of_nat G * (2 powi (x - 52) :: rat) = of_nat G / of_nat (2 ^ nat (52 - x))" if "x < 52"
  proof -
    have "(2 powi (x - 52) :: rat) = inverse (2 powi int (nat (52 - x)))" using that by (simp add: power_int_minus [symmetric])
    also have "\<dots> = inverse (of_nat (2 ^ nat (52 - x)))" by (simp only: powi_nat [symmetric] of_nat_power of_nat_numeral)
    finally show ?thesis by (simp only: divide_inverse)
  qed
  have fl: "\<lfloor>of_nat G * (2 powi (x - 52) :: rat)\<rfloor> = int (G div 2 ^ nat (52 - x))" if "x < 52"
    unfolding neg [OF that] by (rule floor_divide_of_nat_eq)
  show "\<lfloor>of_nat G * (2 powi (x - 52) :: rat)\<rfloor> = int (G div 2 ^ nat (52 - x))" if "0 \<le> x" "x < 52" using fl that by simp
  show "\<lfloor>of_nat G * (2 powi (x - 52) :: rat)\<rfloor> = 0" if "x < 0"
  proof -
    have "(2 :: nat) ^ 53 \<le> 2 ^ nat (52 - x)" using that by (intro power_increasing) simp_all
    then have "G div 2 ^ nat (52 - x) = 0" using assms by (intro div_less) linarith
    then show ?thesis using fl that by simp
  qed
  show "\<lfloor>of_nat G * (2 powi (x - 52) :: rat)\<rfloor> = int (G * 2 ^ nat (x - 52))" if "52 \<le> x"
  proof -
    have "(2 powi (x - 52) :: rat) = 2 ^ nat (x - 52)" using that by (simp add: powi_nat)
    then have "of_nat G * (2 powi (x - 52) :: rat) = of_nat (G * 2 ^ nat (x - 52))" by simp
    then show ?thesis by (simp only: floor_of_nat)
  qed
qed

lemma fixMag_words: "unat (drop_bit 52 d AND 0x7FF) = expField d" for d :: u64
proof -
  have "(0x7FF :: u64) = mask 11" by (simp add: mask_eq_exp_minus_1)
  then show ?thesis by (simp only: unat_and_mask unat_drop_bit) (simp add: expField_def)
qed

lemma fixMag_floor:
  assumes "expField d \<noteq> 2047" "unat s < 32"
  shows "int (unat (fixMag d s)) = \<lfloor>fpMag (unpack d) * 2 ^ unat s\<rfloor> \<or>
    2 ^ 62 \<le> unat (fixMag d s) \<and> 2 ^ 62 \<le> \<lfloor>fpMag (unpack d) * 2 ^ unat s\<rfloor>"
proof -
  let ?E = "expField d" and ?F = "fracField d"
  note fb = field_bounds(1) [of d]
  define x where "x = int ?E - 1023 + int (unat s)"
  have e: "drop_bit 52 d AND 0x7FF = 0 \<longleftrightarrow> ?E = 0" using fixMag_words [of d] by (metis unat_eq_0)
  show ?thesis
  proof (cases "?E = 0")
    case True
    have "int (unat s) < int 32" using assms(2) by (simp only: of_nat_less_iff)
    then have us: "uint s < 32" by simp
    then have z: "fixMag d s = 0" using True unfolding fixMag_def Let_def by (simp add: e fixMag_words)
    have "fpMag (unpack d) * 2 ^ unat s = of_nat ?F * (2 powi (- 1074) * 2 powi int (unat s))"
      using unpack_mag [OF assms(1)] True by (simp add: powi_nat)
    also have "\<dots> = of_nat ?F * 2 powi (int (unat s) - 1022 - 52)" by (simp only: powi_split [symmetric]) simp
    finally have "\<lfloor>fpMag (unpack d) * 2 ^ unat s\<rfloor> = 0" using scaled_floor(1) [of ?F "int (unat s) - 1022"] fb us by simp
    then show ?thesis using z by simp
  next
    case False
    define G where "G = ?F + 2 ^ 52"
    define W :: u64 where "W = (d AND 0x000FFFFFFFFFFFFF) OR push_bit 52 1"
    have w: "unat W = G" by (simp only: W_def hidden_bit(2) G_def)
    have G: "G < 2 ^ 53" using fb by (simp add: G_def)
    have "fpMag (unpack d) * 2 ^ unat s = of_nat G * (2 powi (int ?E - 1075) * 2 powi int (unat s))"
      using unpack_mag [OF assms(1)] False by (simp add: powi_nat G_def)
    also have "\<dots> = of_nat G * 2 powi (x - 52)" by (simp only: powi_split [symmetric]) (simp add: x_def algebra_simps)
    finally have v: "fpMag (unpack d) * 2 ^ unat s = of_nat G * 2 powi (x - 52)" .
    have m: "fixMag d s = (if x < 0 then 0 else if 62 < x then - 1 else if 52 \<le> x then push_bit (nat (x - 52)) W else drop_bit (nat (52 - x)) W)"
      unfolding fixMag_def Let_def x_def W_def using False by (simp add: e fixMag_words)
    note fl = scaled_floor [OF G, of x]
    consider "x < 0" | "0 \<le> x" "x < 52" | "52 \<le> x" "x \<le> 62" | "62 < x" by linarith
    then show ?thesis
    proof cases
      case 3
      have "G * 2 ^ nat (x - 52) < 2 ^ 53 * 2 ^ 10"
        using G 3 by (intro mult_less_le_imp_less power_increasing) (auto simp: nat_le_iff)
      then have "unat (push_bit (nat (x - 52)) W) = G * 2 ^ nat (x - 52)"
        using push_bit_unat [of W "nat (x - 52)"] unfolding w by simp
      then show ?thesis unfolding v m using 3 fl(3) by simp
    next
      case 4
      then have x: "52 \<le> x" by simp
      have "2 ^ 52 * 2 ^ 10 \<le> G * 2 ^ nat (x - 52)"
        using 4 by (intro mult_mono power_increasing) (auto simp: G_def nat_le_iff le_nat_iff)
      then have "int (2 ^ 52 * 2 ^ 10) \<le> int (G * 2 ^ nat (x - 52))" by (simp only: of_nat_le_iff)
      then have "2 ^ 62 \<le> int (G * 2 ^ nat (x - 52))" by (simp only: of_nat_mult of_nat_power of_nat_numeral power_add [symmetric]) simp
      moreover have "unat (fixMag d s) = 2 ^ 64 - 1" using m 4 by (simp add: unsigned_minus_1_eq_mask mask_eq_exp_minus_1)
      ultimately show ?thesis unfolding v fl(3) [OF x] by simp
    qed (use fl m v w in \<open>simp_all add: unat_drop_bit\<close>)
  qed
qed

lemma fixMag_infinite:
  assumes "expField d = 2047"
  shows "2 ^ 62 \<le> unat (fixMag d s)"
proof -
  have u: "unat (drop_bit 52 d AND 0x7FF) = 2047" by (simp only: fixMag_words assms)
  then have e: "int (unat (drop_bit 52 d AND 0x7FF)) = 2047" by linarith
  have "drop_bit 52 d AND 0x7FF \<noteq> 0" using u by (metis unat_0 zero_neq_numeral)
  moreover have "\<not> int (unat (drop_bit 52 d AND 0x7FF)) - 1023 + int (unat s) < 0"
    "62 < int (unat (drop_bit 52 d AND 0x7FF)) - 1023 + int (unat s)" unfolding e by linarith+
  ultimately have "fixMag d s = - 1" unfolding fixMag_def Let_def by presburger
  then show ?thesis by (simp add: unsigned_minus_1_eq_mask mask_eq_exp_minus_1)
qed

section \<open>The conversions\<close>

text \<open>The element scaled and truncated toward zero; a NaN is zero, an infinity out of every range.\<close>

definition toFixed :: "nat \<Rightarrow> u32 \<Rightarrow> int" where
  "toFixed n w =
     (if sglNan w then 0
      else let t = (if sExp w = 255 then 2 ^ 62 else \<lfloor>sglMag w * 2 ^ n\<rfloor>) in if sNeg w then - t else t)"

lemma clamp_lanes:
  fixes t M :: int
  assumes "0 \<le> t" "M = t \<or> 2 ^ 62 \<le> M \<and> 2 ^ 62 \<le> t"
  shows "(if \<not> n then if 0x7FFFFFFF < M then (0x7FFFFFFF, True) else (word_of_int M, False)
      else if 0x80000000 < M then (0x80000000, True) else (0 - word_of_int M :: u32, False)) = satS32 (if n then - t else t)"
    "(if n then (0 :: u32, 0 < M) else if 0xFFFFFFFF < M then (0xFFFFFFFF, True) else (word_of_int M, False)) = satU32 (if n then - t else t)"
proof -
  have w: "word_of_int (- 0x80000000) = (0x80000000 :: u32)" "word_of_int 0x7FFFFFFF = (0x7FFFFFFF :: u32)" "word_of_int 0 = (0 :: u32)"
    "word_of_int 0xFFFFFFFF = (0xFFFFFFFF :: u32)" by simp_all
  have w5: "0 - word_of_int t = (word_of_int (- t) :: u32)" by (simp only: diff_0 wi_hom_neg)
  show "(if \<not> n then if 0x7FFFFFFF < M then (0x7FFFFFFF, True) else (word_of_int M, False)
      else if 0x80000000 < M then (0x80000000, True) else (0 - word_of_int M :: u32, False)) = satS32 (if n then - t else t)"
  proof (cases "M = t")
    case True
    have b: "- t < - 0x80000000 \<longleftrightarrow> 0x80000000 < t" "\<not> 0x7FFFFFFF < - t" "\<not> t < - 0x80000000" using assms(1) by linarith+
    show ?thesis unfolding True satS32_def satTo_def by (cases n) (simp_all only: b w w5 if_True if_False not_True_eq_False not_False_eq_True)
  next
    case False
    then have "2 ^ 62 \<le> M \<and> 2 ^ 62 \<le> t" using assms(2) by blast
    then have q: "4611686018427387904 \<le> M" "4611686018427387904 \<le> t" by simp_all
    have b: "0x80000000 < M" "0x7FFFFFFF < M" "- t < - 0x80000000" "\<not> t < - 0x80000000" "0x7FFFFFFF < t" using q by linarith+
    show ?thesis unfolding satS32_def satTo_def by (cases n) (simp_all only: b w w5 if_True if_False not_True_eq_False not_False_eq_True)
  qed
  show "(if n then (0 :: u32, 0 < M) else if 0xFFFFFFFF < M then (0xFFFFFFFF, True) else (word_of_int M, False)) = satU32 (if n then - t else t)"
  proof (cases "M = t")
    case True
    have b: "- t < 0 \<longleftrightarrow> 0 < t" "\<not> 0xFFFFFFFF < - t" "\<not> t < 0" using assms(1) by linarith+
    have z: "\<not> 0 < t \<Longrightarrow> - t = 0" using assms(1) by linarith
    show ?thesis unfolding True satU32_def satTo_def
      by (cases n; cases "0 < t") (simp_all only: b w w5 z if_True if_False not_True_eq_False not_False_eq_True, simp)
  next
    case False
    then have "2 ^ 62 \<le> M \<and> 2 ^ 62 \<le> t" using assms(2) by blast
    then have q: "4611686018427387904 \<le> M" "4611686018427387904 \<le> t" by simp_all
    have b: "0xFFFFFFFF < M" "0 < M" "- t < 0" "\<not> t < 0" "0xFFFFFFFF < t" using q by linarith+
    show ?thesis unfolding satU32_def satTo_def by (cases n) (simp_all only: b w w5 if_True if_False not_True_eq_False not_False_eq_True)
  qed
qed

lemma ctxLane_clamps:
  assumes "unat n < 32"
  shows "ctxLane True n w = satS32 (toFixed (unat n) w)" "ctxLane False n w = satU32 (toFixed (unat n) w)"
proof -
  define t where "t = (if sExp w = 255 then 2 ^ 62 else \<lfloor>sglMag w * 2 ^ unat n\<rfloor>)"
  define mag where "mag = fixMag (upSgl w) n"
  have t0: "0 \<le> t" using sglMag_nonneg [of w] by (simp add: t_def)
  have r: "int (unat mag) = t \<or> 2 ^ 62 \<le> int (unat mag) \<and> 2 ^ 62 \<le> t"
  proof (cases "sExp w = 255")
    case True
    then have "2 ^ 62 \<le> unat mag" unfolding mag_def upSgl_def by (intro fixMag_infinite) (simp only: widened_value(2))
    then have "int (2 ^ 62) \<le> int (unat mag)" by (simp only: of_nat_le_iff)
    then show ?thesis using True by (simp add: t_def)
  next
    case False
    note v = widened_value(1) [OF False]
    from v fixMag_floor [of "loadSingle w" n] assms
    have "int (unat mag) = t \<or> 2 ^ 62 \<le> unat mag \<and> 2 ^ 62 \<le> t" by (simp add: mag_def upSgl_def t_def False)
    moreover have "2 ^ 62 \<le> unat mag \<Longrightarrow> int (2 ^ 62) \<le> int (unat mag)" by (simp only: of_nat_le_iff)
    ultimately show ?thesis by auto
  qed
  have sg: "drop_bit 63 (upSgl w) \<noteq> 0 \<longleftrightarrow> sNeg w" by (simp only: upSgl_def field_words(3) widened_value(3))
  have c: "0x7FFFFFFF < mag \<longleftrightarrow> 0x7FFFFFFF < int (unat mag)" "0x80000000 < mag \<longleftrightarrow> 0x80000000 < int (unat mag)"
    "0xFFFFFFFF < mag \<longleftrightarrow> 0xFFFFFFFF < int (unat mag)" "mag \<noteq> 0 \<longleftrightarrow> 0 < int (unat mag)"
    by (simp_all add: word_less_def word_neq_0_conv)
  have u: "ucast mag = (word_of_int (int (unat mag)) :: u32)" by simp
  obtain M where M: "int (unat mag) = M" by blast
  note cl = clamp_lanes [OF t0 r [unfolded M], of "sNeg w"]
  have f: "toFixed (unat n) w = (if sglNan w then 0 else if sNeg w then - t else t)" by (simp add: toFixed_def t_def Let_def)
  show "ctxLane True n w = satS32 (toFixed (unat n) w)"
    unfolding ctxLane_def Let_def mag_def [symmetric] sg c u M f using cl(1)
    by (cases "sglNan w") (simp_all only: if_True if_False, simp add: satS32_def satTo_def)
  show "ctxLane False n w = satU32 (toFixed (unat n) w)"
    unfolding ctxLane_def Let_def mag_def [symmetric] sg c u M f using cl(2)
    by (cases "sglNan w") (simp_all only: if_True if_False, simp add: satU32_def satTo_def)
qed

text \<open>
  C23. The conversions to unsigned and signed fixed point: every element of the result is the value of
  the operand's element times two to the power of the immediate, truncated toward zero and clamped to
  the range of the result, infinities included, with a NaN giving zero; VSCR[SAT] is set exactly if
  some element was clamped. Denormals count as zero in non-Java mode.
\<close>

theorem fixed_conversion_clamps:
  "clamps 0 4294967295 4 (\<lambda>v k. uint (gw v k)) (\<lambda>k. toFixed (unat (f_ra i AND 31)) (flushIn c (gw (VB c i) k))) i c (h_vctuxs c i) \<and>
   clamps (-2147483648) 2147483647 4 (\<lambda>v k. sint (gw v k)) (\<lambda>k. toFixed (unat (f_ra i AND 31)) (flushIn c (gw (VB c i) k))) i c (h_vctsxs c i)"
proof -
  have "unat (f_ra i AND mask 5) < 2 ^ 5" by (simp only: unat_and_mask) simp
  then have n: "unat (f_ra i AND 31) < 32" by (simp add: mask_eq_exp_minus_1)
  show ?thesis unfolding h_vctuxs_def h_vctsxs_def ctx_def ctxLane_clamps [OF n] by (intro conjI clamps_forms)
qed

end
