(* ===== verification/VectorLoad.thy ===== *)
theory VectorLoad
  imports VectorProps CacheProps
begin

text \<open>
  The unaligned vector load end to end: what \<^verbatim>\<open>lvx\<close> of \<^verbatim>\<open>core/src/altivec.cpp\<close> loads through the
  caches, and the sequence of \<^verbatim>\<open>lvsl\<close>, two \<^verbatim>\<open>lvx\<close> and \<^verbatim>\<open>vperm\<close> that reads sixteen bytes at any
  address.
\<close>

section \<open>Loads in real mode\<close>

text \<open>
  A processor on \<^verbatim>\<open>FlatBus\<close> that loads with translation off, big-endian, through its caches, with no
  data breakpoint on loads; its one-page load cache, where it is armed for real mode, maps its page
  to itself.
\<close>

definition realPage :: "'b cpu \<Rightarrow> bool" where
  "realPage c \<longleftrightarrow> (dxlGen c False = mmuGen c \<and> dxlMsr c False AND MSR_DR = 0 \<longrightarrow>
     dxlPa c False = push_bit 12 (dxlPage c False) \<and> dxlWimg c False = kWimgReal)"

definition realLoads :: "nat \<Rightarrow> flat_bus cpu \<Rightarrow> bool" where
  "realLoads n c \<longleftrightarrow> flatCoherent n c \<and> dceOn c \<and> msr (st c) AND MSR_DR = 0 \<and> msr (st c) AND MSR_LE = 0 \<and>
     dabr (st c) AND 1 = 0 \<and> realModeInhibitBase c = 0 \<and> realPage c"

text \<open>What such a load leaves alone: the registers, and the memory the program sees.\<close>

definition loadKeeps :: "nat \<Rightarrow> flat_bus cpu \<Rightarrow> flat_bus cpu \<Rightarrow> bool" where
  "loadKeeps n c c' \<longleftrightarrow> realLoads n c' \<and> st c' = st c \<and> raisedThisStep c' = raisedThisStep c \<and>
     (\<forall>a. blk a \<in> flatRegion n \<longrightarrow> flatView c' a = flatView c a)"

lemma loadKeeps_trans: "loadKeeps n c d \<Longrightarrow> loadKeeps n d e \<Longrightarrow> loadKeeps n c e"
  by (simp add: loadKeeps_def)

lemma page_split: "push_bit 12 (drop_bit 12 ea) = ea AND NOT (0xFFF :: u32)" "(ea AND NOT 0xFFF) OR (ea AND 0xFFF) = (ea :: u32)"
proof -
  have m: "(0xFFF :: u32) = mask 12" by (simp add: mask_eq_exp_minus_1)
  show "push_bit 12 (drop_bit 12 ea) = ea AND NOT (0xFFF :: u32)" "(ea AND NOT 0xFFF) OR (ea AND 0xFFF) = ea"
    unfolding m by (rule bit_word_eqI; auto simp: bit_simps)+
qed

lemmas page_join = page_split [simplified]

lemma xlateData_real:
  assumes "realLoads n c"
  obtains c1 where "xlateData ea False c = (Some (ea, kWimgReal), c1)" "loadKeeps n c c1"
proof -
  have r: "msr (st c) AND MSR_DR = 0" "realModeInhibitBase c = 0" "realPage c" using assms by (simp_all add: realLoads_def)
  have t: "translate ea False False c = (Some (ea, kWimgReal), c)" using r(1,2) by (simp add: translate_def)
  have key: "(msr (st c) AND (MSR_DR OR MSR_PR OR MSR_LE)) AND MSR_DR = 0" using r(1) by (simp add: and.assoc)
  let ?fill = "c\<lparr>dxlGen := (dxlGen c)(False := mmuGen c), dxlPage := (dxlPage c)(False := drop_bit 12 ea),
    dxlMsr := (dxlMsr c)(False := msr (st c) AND (MSR_DR OR MSR_PR OR MSR_LE)),
    dxlSr := (dxlSr c)(False := sr (st c) (drop_bit 28 ea)),
    dxlPa := (dxlPa c)(False := ea AND NOT 0xFFF), dxlWimg := (dxlWimg c)(False := kWimgReal)\<rparr>"
  let ?hit = "dxlGen c False = mmuGen c \<and> dxlPage c False = drop_bit 12 ea \<and>
    dxlMsr c False = msr (st c) AND (MSR_DR OR MSR_PR OR MSR_LE) \<and> dxlSr c False = sr (st c) (drop_bit 28 ea)"
  have same: "loadKeeps n c c" using assms by (simp add: loadKeeps_def)
  consider "dxlCacheOff c" | "\<not> dxlCacheOff c" ?hit | "\<not> dxlCacheOff c" "\<not> ?hit" by blast
  then show thesis
  proof cases
    case 1
    then show thesis using that [OF _ same] t by (simp add: xlateData_def)
  next
    case 2
    have "dxlPa c False = push_bit 12 (drop_bit 12 ea)" "dxlWimg c False = kWimgReal"
      using r(3) 2(2) key by (simp_all add: realPage_def)
    then have "xlateData ea False c = (Some (ea, kWimgReal), c)"
      using 2 by (simp add: xlateData_def page_join)
    then show thesis using that same by blast
  next
    case 3
    have x: "xlateData ea False c = (Some (ea, kWimgReal), ?fill)"
      unfolding xlateData_def Let_def t prod.case option.case if_not_P [OF 3(1)] if_not_P [OF 3(2)] ..
    have coh: "coherent flatBusVt flatMem (flatGood n) (flatRegion n) ?fill" "view flatMem ?fill = view flatMem c"
      by (rule coherent_cong(1) [where c = c] coherent_cong(2); use assms in \<open>simp add: realLoads_def flatCoherent_def l2Synced_def\<close>)+
    have "realPage ?fill" using key by (simp add: realPage_def page_split(1))
    then have "loadKeeps n c ?fill"
      using assms coh by (simp add: loadKeeps_def realLoads_def flatCoherent_def flatView_def dceOn_def)
    with x show thesis by (rule that)
  qed
qed

lemma readV8_real:
  assumes "realLoads n c" "blk ea \<in> flatRegion n"
  obtains c1 where "readV8 ea c = (Some (ucast (flatView c ea)), c1)" "loadKeeps n c c1"
proof -
  obtain c1 where x: "xlateData ea False c = (Some (ea, kWimgReal), c1)" and k1: "loadKeeps n c c1"
    using xlateData_real [OF assms(1)] .
  have on: "flatCoherent n c1" "dceOn c1" using k1 by (simp_all add: loadKeeps_def realLoads_def)
  obtain v c2 where m: "memRead ea 1 kWimgReal c1 = (v, c2)" by fastforce
  have im: "inMem (flatRegion n) ea (unat (1 :: u32))" using assms(2) by (simp add: inMem_def addrs_def)
  have v: "v = be_bytes (map (flatView c1) (addrs ea (unat (1 :: u32)))) \<and> flatCoherent n c2 \<and>
    (\<forall>a. blk a \<in> flatRegion n \<longrightarrow> flatView c2 a = flatView c1 a)"
    using flat.memRead_cached [OF on(1) [unfolded flatCoherent_def] on(2) _ im _ _ m] flat.keeps_view
    by (simp add: flatCoherent_def flatView_def flat.keeps_def)
  have core: "core c2 = core c1" using core_memRead [of ea 1 kWimgReal c1] m by simp
  have "st c2 = st c1" "raisedThisStep c2 = raisedThisStep c1" "realModeInhibitBase c2 = realModeInhibitBase c1"
    "realPage c2 = realPage c1"
    using core by (simp_all add: core_defs realPage_def)
  moreover have "realLoads n c1" using k1 by (simp add: loadKeeps_def)
  ultimately have "loadKeeps n c1 c2" using v unfolding loadKeeps_def realLoads_def dceOn_def by simp
  with k1 have k2: "loadKeeps n c c2" by (rule loadKeeps_trans)
  have "v = ucast (flatView c ea)" using v k1 assms(2) by (simp add: be_bytes_def addrs_def loadKeeps_def)
  moreover have "readV ea 1 c = (Some v, c2)"
    using assms(1) x m by (simp add: readV_def leAlignCheck_def dabrHit_def realLoads_def)
  moreover have "ucast (ucast (x :: u8) :: u64) = (ucast x :: u32)" for x by (rule bit_word_eqI) (auto simp: bit_simps)
  ultimately have "readV8 ea c = (Some (ucast (flatView c ea)), c2)" by (simp add: readV8_def)
  then show thesis using k2 by (rule that)
qed

section \<open>lvx\<close>

lemma lvxLoop_real:
  assumes "realLoads n c" "\<forall>k \<in> set ks. blk (ea + of_nat k) \<in> flatRegion n"
  shows "\<exists>c1. lvxLoop ks ea v c = (Some (\<lambda>r. if r \<in> of_nat ` set ks then flatView c (ea + r) else v r), c1) \<and> loadKeeps n c c1"
  using assms
proof (induction ks arbitrary: v c)
  case Nil
  then show ?case by (simp add: loadKeeps_def)
next
  case (Cons k ks)
  have "blk (ea + of_nat k) \<in> flatRegion n" using Cons.prems(2) by simp
  from readV8_real [OF Cons.prems(1) this] obtain c1
    where r: "readV8 (ea + of_nat k) c = (Some (ucast (flatView c (ea + of_nat k))), c1)" and k1: "loadKeeps n c c1" .
  have "realLoads n c1" "\<forall>k \<in> set ks. blk (ea + of_nat k) \<in> flatRegion n"
    using k1 Cons.prems(2) by (simp_all add: loadKeeps_def)
  from Cons.IH [OF this, of "v(of_nat k := flatView c (ea + of_nat k))"] obtain c2
    where l: "lvxLoop ks ea (v(of_nat k := flatView c (ea + of_nat k))) c1 = (Some (\<lambda>r. if r \<in> of_nat ` set ks
      then flatView c1 (ea + r) else (v(of_nat k := flatView c (ea + of_nat k))) r), c2)" and k2: "loadKeeps n c1 c2" by blast
  have "(\<lambda>r. if r \<in> of_nat ` set ks then flatView c1 (ea + r) else (v(of_nat k := flatView c (ea + of_nat k))) r) =
    (\<lambda>r. if r \<in> of_nat ` set (k # ks) then flatView c (ea + r) else v r)"
    using k1 Cons.prems(2) by (auto simp: loadKeeps_def fun_eq_iff)
  moreover have "ucast (ucast (x :: u8) :: u32) = x" for x by (rule bit_word_eqI) (auto simp: bit_simps)
  ultimately show ?case using r l loadKeeps_trans [OF k1 k2] by simp
qed

text \<open>The quadword an address lies in.\<close>

abbreviation quad :: "u32 \<Rightarrow> u32" where "quad a \<equiv> a AND NOT 15"

lemma blk_quad:
  assumes "k < 16"
  shows "blk (quad a + of_nat k) = blk a"
proof -
  have m: "(15 :: u32) = mask 4" by (simp add: mask_eq_exp_minus_1)
  have t: "take_bit 4 (of_nat k :: u32) = of_nat k"
    using assms by (simp add: word_unat_eq_iff unsigned_take_bit_eq unat_of_nat take_bit_nat_eq_self)
  have kb: "bit (of_nat k :: u32) j \<Longrightarrow> j < 4" for j
    using bit_take_bit_iff [of 4 "of_nat k :: u32" j] unfolding t by simp
  have "quad a + of_nat k = quad a OR of_nat k"
    unfolding m by (rule disjunctive_add) (use kb in \<open>auto simp: bit_simps\<close>)
  then show ?thesis
    unfolding blk_def mask5 m by (intro bit_word_eqI) (use kb in \<open>force simp: bit_simps\<close>)
qed

lemmas blk_quad' = blk_quad [simplified]

lemma coherent_vr:
  "flatCoherent n (setVD i v c) = flatCoherent n c" "flatView (setVD i v c) = flatView c" "dceOn (setVD i v c) = dceOn c"
proof -
  have l: "l1At (setVD i v c) = l1At c" "wfL1 R (setVD i v c) = wfL1 R c" "l2At (setVD i v c) = l2At c" "l2Act (setVD i v c) = l2Act c" for R
    by (simp_all add: setVD_def l1At_def lineWayQuiet_def wfL1_def l2At_def l2Act_def l2On_def fun_eq_iff)
  have s: "busSt (setVD i v c) = busSt c" "busVt (setVD i v c) = busVt c" "l2 (setVD i v c) = l2 c" "l2Sets (setVD i v c) = l2Sets c"
    "l2Synced (setVD i v c) = l2Synced c" by (simp_all add: setVD_def l2Synced_def)
  have b: "belowAt m (setVD i v c) = belowAt m c" for m by (simp add: belowAt_def l s fun_eq_iff split: option.split)
  show "flatCoherent n (setVD i v c) = flatCoherent n c"
    by (simp add: flatCoherent_def coherent_def wfCache_def cleanL1_def cleanL2_def l s b)
  show "flatView (setVD i v c) = flatView c" by (simp add: flatView_def view_def viewAt_def l b fun_eq_iff split: option.split)
  show "dceOn (setVD i v c) = dceOn c" by (simp add: setVD_def dceOn_def)
qed

lemma realLoads_vr: "realLoads n (setVD i v c) = realLoads n c"
  by (simp add: realLoads_def coherent_vr) (simp add: setVD_def realPage_def)

text \<open>lvx loads the quadword its address lies in, whatever the address's low bits.\<close>

lemma lvx_loads:
  assumes "realLoads n c" "blk (eaVX c i) \<in> flatRegion n"
  defines "c' \<equiv> h_lvx c i"
  shows "realLoads n c'" "raisedThisStep c' = raisedThisStep c" "gpr (st c') = gpr (st c)"
    "\<forall>a. blk a \<in> flatRegion n \<longrightarrow> flatView c' a = flatView c a"
    "\<forall>r. r \<noteq> f_rt i \<longrightarrow> vr (st c') r = vr (st c) r"
    "\<forall>j < 16. gb8 (vr (st c') (f_rt i)) j = flatView c (quad (eaVX c i) + of_nat j)"
proof -
  have "\<forall>k \<in> set [0..<16]. blk (quad (eaVX c i) + of_nat k) \<in> flatRegion n" using assms(2) by (simp add: blk_quad')
  from lvxLoop_real [OF assms(1) this, of "\<lambda>_. 0"] obtain c1 v
    where l: "lvxLoop [0..<16] (quad (eaVX c i)) (\<lambda>_. 0) c = (Some v, c1)" and k: "loadKeeps n c c1"
      and v: "v = (\<lambda>r. if r \<in> of_nat ` set [0..<16] then flatView c (quad (eaVX c i) + r) else 0)" by blast
  have c': "c' = setVD i v c1" unfolding c'_def h_lvx_def l by simp
  show "realLoads n c'" using k by (simp add: c' realLoads_vr loadKeeps_def)
  show "raisedThisStep c' = raisedThisStep c" "gpr (st c') = gpr (st c)" "\<forall>r. r \<noteq> f_rt i \<longrightarrow> vr (st c') r = vr (st c) r"
    using k by (simp_all add: c' setVD_def loadKeeps_def)
  show "\<forall>a. blk a \<in> flatRegion n \<longrightarrow> flatView c' a = flatView c a" using k by (simp add: c' coherent_vr loadKeeps_def)
  show "\<forall>j < 16. gb8 (vr (st c') (f_rt i)) j = flatView c (quad (eaVX c i) + of_nat j)"
    by (simp add: c' setVD_def gb8_def v)
qed

section \<open>The unaligned load\<close>

text \<open>The quadword of the fifteenth byte on is the next one, or the same when the address is aligned.\<close>

lemma quad_next:
  "quad (ea + 15) = (if ea AND 15 = 0 then quad ea else quad ea + 16)"
proof -
  have m: "(15 :: u32) = mask 4" by (simp add: mask_eq_exp_minus_1)
  have q: "unat (quad a) = unat a - unat a mod 16" for a
  proof -
    have "quad a = a - (a AND 15)" using aligned16_off [of a] by (metis add_diff_cancel_right')
    moreover have "unat (a AND 15) = unat a mod 16" unfolding m by (simp only: unat_and_mask) simp
    moreover from this have "a AND 15 \<le> a" by (simp add: word_le_nat_alt)
    ultimately show ?thesis by (simp add: unat_sub)
  qed
  have z: "ea AND 15 = 0 \<longleftrightarrow> unat ea mod 16 = 0"
    unfolding m unat_eq_0 [symmetric] by (simp only: unat_and_mask) simp
  have u: "unat ea < 2 ^ 32" using unsigned_less [of ea, where ?'a = nat] by simp
  obtain k r where k: "unat ea = 16 * k + r" "r < 16" using div_mult_mod_eq [of "unat ea" 16]
    by (metis mod_less_divisor mult.commute zero_less_numeral)
  then have k28: "k < 2 ^ 28" using u by simp
  have r: "unat ea mod 16 = r" using k by simp
  have "unat (quad (ea + 15)) = unat (if ea AND 15 = 0 then quad ea else quad ea + 16)"
  proof (cases "r = 0")
    case True
    then have "unat (ea + 15) = 16 * k + 15" using k k28 by (simp add: unat_word_ariths)
    then have "unat (quad (ea + 15)) = 16 * k" unfolding q by simp
    then show ?thesis using True z r k q [of ea] by simp
  next
    case False
    have e: "unat (ea + 15) = (16 * (k + 1) + (r - 1)) mod 2 ^ 32"     proof -
      have "unat (ea + 15) = (unat ea + 15) mod 2 ^ 32" by (simp add: unat_word_ariths)
      moreover have "unat ea + 15 = 16 * (k + 1) + (r - 1)" using k(1) False by simp
      ultimately show ?thesis by (simp only:)
    qed
    have "unat (quad (ea + 15)) = 16 * (k + 1) mod 2 ^ 32"
    proof (cases "k + 1 < 2 ^ 28")
      case True
      then have "unat (ea + 15) = 16 * (k + 1) + (r - 1)" using e k(2) by simp
      moreover from this have "unat (ea + 15) mod 16 = (r - 1) mod 16" by (simp only: mod_mult_self4)
      moreover have "(r - 1) mod 16 = r - 1" using k(2) by simp
      ultimately show ?thesis unfolding q using True by simp
    next
      case f: False
      then have kk: "k + 1 = 2 ^ 28" using k28 by simp
      then have "unat (ea + 15) = r - 1" unfolding e using k(2) by simp
      then show ?thesis unfolding q kk using k(2) by simp
    qed
    moreover have "unat (quad ea + 16) = 16 * (k + 1) mod 2 ^ 32"
    proof -
      have "unat (quad ea + 16) = (unat (quad ea) + 16) mod 2 ^ 32" by (simp add: unat_word_ariths)
      moreover have "unat (quad ea) + 16 = 16 * (k + 1)" using q [of ea] r k(1) by simp
      ultimately show ?thesis by (simp only:)
    qed
    ultimately show ?thesis using False z r by simp
  qed
  then show ?thesis by (simp only: word_unat_eq_iff)
qed

text \<open>
  C26. The unaligned load sequence, end to end: \<open>lvsl\<close> at an address, \<open>lvx\<close> at the address and at the
  address plus 15, and \<open>vperm\<close> of the two loaded registers by the control vector put the sixteen bytes
  at the address, in order, in the target register. It holds for a processor with translation off,
  of any alignment, whatever mixture of L1 lines, L2 lines and RAM holds the bytes; no exception is
  raised and the memory the program sees is unchanged.
\<close>

theorem unaligned_load_sequence:
  assumes "realLoads n c" "eaVX c i1 = ea" "eaVX c i2 = ea" "eaVX c i3 = ea + 15"
    and "blk ea \<in> flatRegion n" "blk (ea + 15) \<in> flatRegion n"
    and "f_rt i1 = f_rc_vec i4" "f_rt i2 = f_ra i4" "f_rt i3 = f_rb i4"
    and "f_rt i1 \<noteq> f_rt i2" "f_rt i1 \<noteq> f_rt i3" "f_rt i2 \<noteq> f_rt i3"
  defines "c' \<equiv> h_vperm (h_lvx (h_lvx (h_lvsl c i1) i2) i3) i4"
  shows "(\<forall>k < 16. gb8 (vr (st c') (f_rt i4)) k = flatView c (ea + of_nat k)) \<and>
    raisedThisStep c' = raisedThisStep c \<and> flatCoherent n c' \<and> (\<forall>a. blk a \<in> flatRegion n \<longrightarrow> flatView c' a = flatView c a)"
proof -
  define c1 where "c1 = h_lvsl c i1"
  define c2 where "c2 = h_lvx c1 i2"
  define c3 where "c3 = h_lvx c2 i3"
  have c1: "realLoads n c1" "gpr (st c1) = gpr (st c)" "raisedThisStep c1 = raisedThisStep c" "flatView c1 = flatView c"
    "vr (st c1) (f_rt i1) = vr (st (h_lvsl c i1)) (f_rt i1)"
    using assms(1) by (simp_all add: c1_def h_lvsl_def realLoads_vr coherent_vr) (simp_all add: setVD_def)
  have "eaVX c1 i2 = eaVX c i2" by (simp add: eaVX_def c1(2))
  then have e2: "eaVX c1 i2 = ea" by (simp only: assms(3))
  note l2 = lvx_loads [OF c1(1), of i2, unfolded e2, OF assms(5), folded c2_def]
  have "eaVX c2 i3 = eaVX c i3" by (simp add: eaVX_def c1(2) l2(3))
  then have e3: "eaVX c2 i3 = ea + 15" by (simp only: assms(4))
  note l3 = lvx_loads [OF l2(1), of i3, unfolded e3, OF assms(6), folded c3_def]
  have q: "blk (quad (ea + 15) + of_nat j) \<in> flatRegion n" if "j < 16" for j using that assms(6) by (simp add: blk_quad')
  have VA: "gb8 (VA c3 i4) j = flatView c (quad ea + of_nat j)" if "j < 16" for j
    using l2(6) l3(5) assms(8,12) c1(4) that by (simp add: VA_def)
  have VB: "gb8 (VB c3 i4) j = flatView c (quad (ea + 15) + of_nat j)" if "j < 16" for j
    using l3(6) l2(4) q [OF that] assms(9) c1(4) that by (simp add: VB_def)
  have VC: "VC c3 i4 = vr (st (h_lvsl c i1)) (f_rt i1)"
    using l2(5) l3(5) assms(7,10,11) c1(5) by (simp add: VC_def)
  have p: "\<forall>k < 16. gb8 (vr (st (h_vperm c3 i4)) (f_rt i4)) k = flatView c (ea + of_nat k)"
  proof (cases "ea AND 15 = 0")
    case False
    then have "quad (ea + 15) = quad ea + 16" by (simp only: quad_next if_False)
    then show ?thesis using vperm_aligns [OF _ _ assms(2) VC, of "flatView c"] VA VB by simp
  next
    case True
    have "quad ea = ea" using aligned16_off [of ea] True by simp
    then show ?thesis using vperm_aligned [OF _ assms(2) VC True, of "flatView c"] VA by simp
  qed
  have "raisedThisStep c' = raisedThisStep c" "realLoads n c'" "\<forall>a. blk a \<in> flatRegion n \<longrightarrow> flatView c' a = flatView c a"
    using l2(2,4) l3(1,2,4) c1(3,4)
    by (simp_all add: c'_def c3_def [symmetric] c2_def [symmetric] c1_def [symmetric] h_vperm_def realLoads_vr coherent_vr)
      (simp_all add: setVD_def)
  then show ?thesis using p by (simp add: c'_def c3_def c2_def c1_def realLoads_def)
qed

text \<open>
  A cached processor with translation off and 64 bytes of RAM, the address 5 in r4 and 15 in r5:
  \<^verbatim>\<open>lvsl v3,0,r4; lvx v1,0,r4; lvx v2,r5,r4; vperm v4,v1,v2,v3\<close>.
\<close>

definition loadCpu :: "flat_bus cpu" where
  "loadCpu = (cachedCpu 64)\<lparr>st := (st (cachedCpu 64))\<lparr>gpr := (\<lambda>r. if r = 4 then 5 else if r = 5 then 15 else 0), msr := 0\<rparr>\<rparr>"

lemma loadCpu_real: "realLoads 64 loadCpu"
proof -
  have "flatCoherent 64 loadCpu"
    unfolding flatCoherent_def
    by (rule coherent_empty) (simp_all add: loadCpu_def cachedCpu_def flatCpu_def initCpu_def flatGood_def flatBus_def l2Synced_def)
  then show ?thesis
    by (simp add: realLoads_def) (simp add: loadCpu_def cachedCpu_def flatCpu_def initCpu_def initState_def dceOn_def realPage_def)
qed

lemma unaligned_load_sequence_witness:
  "let c' = h_vperm (h_lvx (h_lvx (h_lvsl loadCpu 0x7C60200C) 0x7C2020CE) 0x7C4520CE) 0x108110EB in
     gb8 (vr (st c') 4) 12 = flatView loadCpu 17 \<and> \<not> raisedThisStep c'"
proof -
  have f: "f_rt 0x7C60200C = 3" "f_ra 0x7C60200C = 0" "f_rb 0x7C60200C = 4" "f_rt 0x7C2020CE = 1" "f_ra 0x7C2020CE = 0"
    "f_rb 0x7C2020CE = 4" "f_rt 0x7C4520CE = 2" "f_ra 0x7C4520CE = 5" "f_rb 0x7C4520CE = 4"
    "f_rt 0x108110EB = 4" "f_ra 0x108110EB = 1" "f_rb 0x108110EB = 2" "f_rc_vec 0x108110EB = 3"
    by (simp_all add: f_ra_def f_rb_def f_rc_vec_def f_rt_def ppcbits_def)
  have g: "gpr (st loadCpu) 4 = 5" "gpr (st loadCpu) 5 = 15" "\<not> raisedThisStep loadCpu"
    by (simp_all add: loadCpu_def cachedCpu_def flatCpu_def initCpu_def)
  have e: "eaVX loadCpu 0x7C60200C = 5" "eaVX loadCpu 0x7C2020CE = 5" "eaVX loadCpu 0x7C4520CE = 5 + 15"
    by (simp_all add: eaVX_def f g)
  have r: "blk 5 \<in> flatRegion 64" "blk (5 + 15) \<in> flatRegion 64" by (simp_all add: blk_def flatRegion_64)
  note res = unaligned_load_sequence [OF loadCpu_real e r, of "0x108110EB", unfolded f]
  then have "\<forall>k < 16. gb8 (vr (st (h_vperm (h_lvx (h_lvx (h_lvsl loadCpu 0x7C60200C) 0x7C2020CE) 0x7C4520CE) 0x108110EB)) 4) k =
      flatView loadCpu (5 + of_nat k)" by simp
  from this [rule_format, of 12] show ?thesis using res g(3) by (simp add: Let_def)
qed

end
