(* ===== verification/OpenPic.thy ===== *)
theory OpenPic
  imports Prelude
begin

text \<open>
  The interrupt controller of \<^verbatim>\<open>machine/src/openpic.cpp\<close> and \<^verbatim>\<open>machine/include/opm/openpic.hpp\<close>:
  its registers, the guest's reads and writes of its window with their byte swap, the devices' lines,
  the octet scan for the highest pending source, acknowledge and end of interrupt. The cycle counter
  the logs read through \<^verbatim>\<open>stamp\<close> is its current value, \<^verbatim>\<open>None\<close> for the null pointer. Not kept: the
  event trace \<^verbatim>\<open>gPicTrace\<close> prints and the text of \<^verbatim>\<open>describe\<close>, which read the state only.
\<close>

section \<open>State\<close>

record pic_unc =
  uncAt :: u64
  uncOff :: u32
  uncVal :: u32

record pic_ev =
  evAt :: u64
  evKind :: char
  evVal :: u32

abbreviation (input) kSources :: nat where "kSources \<equiv> 64"

record pic =
  picUnclaimed :: "pic_unc list"
  picLog :: "pic_ev list"
  raiseCount :: "nat \<Rightarrow> u64"
  picStamp :: "u64 option"
  picVp :: "nat \<Rightarrow> u32"
  picDest :: "nat \<Rightarrow> u32"
  picLine :: "nat \<Rightarrow> bool"
  picPending :: "nat \<Rightarrow> bool"
  taskPri :: u32
  spurious :: u32
  inService :: int
  picGlobal :: "nat \<Rightarrow> u32"

definition initPic :: pic where
  "initPic = \<lparr>picUnclaimed = [], picLog = [], raiseCount = (\<lambda>_. 0), picStamp = None, picVp = (\<lambda>_. 0),
     picDest = (\<lambda>_. 0), picLine = (\<lambda>_. False), picPending = (\<lambda>_. False), taskPri = 0xF, spurious = 0xFF,
     inService = -1, picGlobal = (\<lambda>_. 0)\<rparr>"

definition picNow :: "pic \<Rightarrow> u64" where
  "picNow p = (case picStamp p of Some t \<Rightarrow> t | None \<Rightarrow> 0)"

definition picNote :: "char \<Rightarrow> u32 \<Rightarrow> pic \<Rightarrow> pic" where
  "picNote k v p =
     (if length (picLog p) < 512 then p\<lparr>picLog := picLog p @ [\<lparr>evAt = picNow p, evKind = k, evVal = v\<rparr>]\<rparr> else p)"

definition swap32 :: "u32 \<Rightarrow> u32" where
  "swap32 v = drop_bit 24 v OR (drop_bit 8 v AND 0xFF00) OR (push_bit 8 v AND 0xFF0000) OR push_bit 24 v"

section \<open>The highest pending source\<close>

text \<open>Eight pending flags read as one word, the first in the lowest byte.\<close>

definition octetAt :: "pic \<Rightarrow> nat \<Rightarrow> u64" where
  "octetAt p base = foldr (\<lambda>k w. push_bit 8 w OR of_bool (picPending p (base + k))) [0..<8] 0"

definition scanSource :: "pic \<Rightarrow> nat \<Rightarrow> int \<times> u32 \<Rightarrow> int \<times> u32" where
  "scanSource p s bp =
     (case bp of (best, bestPri) \<Rightarrow>
        if \<not> picPending p s \<or> picVp p s AND 0x80000000 \<noteq> 0 then (best, bestPri)
        else let pri = drop_bit 16 (picVp p s) AND 0xF
             in if bestPri < pri then (int s, pri) else (best, bestPri))"

definition scanOctet :: "pic \<Rightarrow> nat \<Rightarrow> int \<times> u32 \<Rightarrow> int \<times> u32" where
  "scanOctet p base bp =
     (if octetAt p base = 0 then bp else fold (scanSource p) [base ..< base + 8] bp)"

definition highestPending :: "pic \<Rightarrow> int" where
  "highestPending p = fst (fold (\<lambda>b. scanOctet p (8 * b)) [0 ..< kSources div 8] (-1, taskPri p))"

definition cpuLine :: "pic \<Rightarrow> bool" where
  "cpuLine p \<longleftrightarrow> inService p < 0 \<and> 0 \<le> highestPending p"

section \<open>The device's and the guest's operations\<close>

definition iack :: "pic \<Rightarrow> u32 \<times> pic" where
  "iack p =
     (let s = highestPending p; n = nat s in
      if s < 0 then (spurious p, p)
      else let p1 = (if picVp p n AND 0x00400000 = 0 \<or> \<not> picLine p n
                     then p\<lparr>picPending := (picPending p)(n := False)\<rparr> else p);
               p2 = picNote (CHR ''a'') (of_int s) (p1\<lparr>inService := s\<rparr>)
           in (picVp p2 n AND 0xFF, p2))"

definition picRead :: "u32 \<Rightarrow> u32 \<Rightarrow> pic \<Rightarrow> u32 \<times> pic" where
  "picRead off len p =
     (let src = unat (drop_bit 5 (off - 0x10000));
          (native, p1) =
            (if off - 0x10000 < 0x800 then
               (if off AND 0x10 \<noteq> 0 then picDest p src
                else if picPending p src then picVp p src OR 0x40000000 else picVp p src, p)
             else if off - 0x1000 < 0x1000 then (picGlobal p (unat (drop_bit 2 (off - 0x1000))), p)
             else if off = 0x200A0 then iack p
             else if off = 0x20080 then (taskPri p, p)
             else (0, p))
      in (if len = 4 then swap32 native else native, p1))"

definition writeVp :: "nat \<Rightarrow> u32 \<Rightarrow> pic \<Rightarrow> pic" where
  "writeVp src native p =
     (let p1 = picNote (CHR ''v'') (push_bit 24 (of_nat src) OR (native AND 0x80FFFFFF))
                 (p\<lparr>picVp := (picVp p)(src := native AND NOT 0x40000000)\<rparr>)
      in if native AND 0x80000000 = 0 \<and> picLine p src
         then p1\<lparr>picPending := (picPending p1)(src := True)\<rparr> else p1)"

definition picWrite :: "u32 \<Rightarrow> u32 \<Rightarrow> u32 \<Rightarrow> pic \<Rightarrow> pic" where
  "picWrite off v len p =
     (let native = (if len = 4 then swap32 v else v); src = unat (drop_bit 5 (off - 0x10000)) in
      if off - 0x10000 < 0x800 then
        (if off AND 0x10 \<noteq> 0 then p\<lparr>picDest := (picDest p)(src := native)\<rparr> else writeVp src native p)
      else if off - 0x1000 < 0x1000 then
        (let p1 = p\<lparr>picGlobal := (picGlobal p)(unat (drop_bit 2 (off - 0x1000)) := native)\<rparr>
         in if off = 0x10E0 then p1\<lparr>spurious := native AND 0xFF\<rparr> else p1)
      else if off = 0x20080 then p\<lparr>taskPri := native AND 0xF\<rparr>
      else if off = 0x200B0 then (picNote (CHR ''e'') 0 p)\<lparr>inService := -1\<rparr>
      else if length (picUnclaimed p) < 256
      then p\<lparr>picUnclaimed := picUnclaimed p @ [\<lparr>uncAt = picNow p, uncOff = off, uncVal = native\<rparr>]\<rparr>
      else p)"

definition picSetLine :: "nat \<Rightarrow> bool \<Rightarrow> pic \<Rightarrow> pic" where
  "picSetLine src level p =
     (if kSources \<le> src then p
      else let p1 = (if level \<and> \<not> picLine p src
                     then p\<lparr>picPending := (picPending p)(src := True),
                            raiseCount := (raiseCount p)(src := raiseCount p src + 1)\<rparr> else p);
               p2 = p1\<lparr>picLine := (picLine p1)(src := level)\<rparr>
           in if \<not> level \<and> picVp p src AND 0x00400000 \<noteq> 0
              then p2\<lparr>picPending := (picPending p2)(src := False)\<rparr> else p2)"

end
