(* ===== verification/OpenPicProps.thy ===== *)
theory OpenPicProps
  imports OpenPic
begin

text \<open>
  What the interrupt controller promises: the octet scan finds the source a plain search would,
  a held level line is never lost, and a delivered source is served before the next.
\<close>

section \<open>The scan\<close>

definition picPri :: "pic \<Rightarrow> nat \<Rightarrow> u32" where
  "picPri p s = drop_bit 16 (picVp p s) AND 0xF"

text \<open>A source the controller may deliver: pending, unmasked and above the task priority.\<close>

definition deliverable :: "pic \<Rightarrow> nat \<Rightarrow> bool" where
  "deliverable p s \<longleftrightarrow> s < kSources \<and> picPending p s \<and> picVp p s AND 0x80000000 = 0 \<and> taskPri p < picPri p s"

definition bestSource :: "pic \<Rightarrow> int" where
  "bestSource p = (if \<exists>s < kSources. deliverable p s
     then int (Min {s. s < kSources \<and> deliverable p s \<and> (\<forall>t < kSources. deliverable p t \<longrightarrow> picPri p t \<le> picPri p s)}) else -1)"

lemma power_not_zero64: "n < 8 \<Longrightarrow> (2 :: u64) ^ (8 * n) \<noteq> 0"
  by (simp add: exp_eq_zero_iff)

lemma octet_zero: "octetAt p base = 0 \<longleftrightarrow> (\<forall>k < 8. \<not> picPending p (base + k))"
proof -
  have s: "push_bit (8 * n) (foldr (\<lambda>k w. push_bit 8 w OR of_bool (f k)) ks 0 :: u64) = 0 \<longleftrightarrow> (\<forall>k \<in> set ks. \<not> f k)"
    if "8 * (n + length ks) \<le> 64" "length ks \<noteq> 0 \<longrightarrow> n < 8" for n ks f
    using that
  proof (induction ks arbitrary: n)
    case (Cons k ks)
    let ?w = "foldr (\<lambda>k w. push_bit 8 w OR of_bool (f k)) ks 0 :: u64"
    have b: "push_bit (8 * n) (of_bool (f k) :: u64) = 0 \<longleftrightarrow> \<not> f k"
      using Cons.prems by (cases "f k") (simp_all add: power_not_zero64)
    have "push_bit (8 * n) (push_bit 8 ?w OR of_bool (f k)) = push_bit (8 * (n + 1)) ?w OR push_bit (8 * n) (of_bool (f k))"
      by (simp add: push_bit_or add.commute)
    moreover have "a OR c = 0 \<longleftrightarrow> a = 0 \<and> c = 0" for a c :: u64 by (rule or_eq_0_iff)
    ultimately show ?case using b Cons.IH [of "n + 1"] Cons.prems by (cases ks) auto
  qed simp
  have o: "foldr (\<lambda>k w. push_bit 8 w OR of_bool (f k)) ks (0 :: u64) = 0 \<longleftrightarrow> (\<forall>k \<in> set ks. \<not> f k)" if "length ks = 8" for ks f
    using s [of 0 ks f] that by simp
  have "octetAt p base = 0 \<longleftrightarrow> (\<forall>k \<in> set [0..<8]. \<not> picPending p (base + k))"
    unfolding octetAt_def by (rule o) simp
  then show ?thesis by (simp only: set_upt) auto
qed

text \<open>What a scan of the sources below \<open>n\<close> has found.\<close>

definition scanned :: "pic \<Rightarrow> nat \<Rightarrow> int \<times> u32 \<Rightarrow> bool" where
  "scanned p n bp \<longleftrightarrow> (case bp of (best, pri) \<Rightarrow>
     (best = -1 \<and> pri = taskPri p \<and> (\<forall>s < n. \<not> deliverable p s)) \<or>
     (\<exists>s < n. best = int s \<and> pri = picPri p s \<and> deliverable p s \<and>
        (\<forall>t < n. deliverable p t \<longrightarrow> picPri p t \<le> pri \<and> (t < s \<longrightarrow> picPri p t < pri))))"

lemma scanned_step:
  assumes "scanned p n bp" "n < kSources"
  shows "scanned p (Suc n) (scanSource p n bp)"
proof (cases bp)
  case (Pair best pri)
  define d where "d = (picPending p n \<and> picVp p n AND 0x80000000 = 0)"
  have dn: "deliverable p n \<longleftrightarrow> d \<and> taskPri p < picPri p n" using assms(2) by (simp add: deliverable_def d_def)
  have step: "scanSource p n bp = (if d \<and> pri < picPri p n then (int n, picPri p n) else bp)"
    by (simp add: scanSource_def Pair d_def picPri_def Let_def)
  have old: "(best = -1 \<and> pri = taskPri p \<and> (\<forall>s < n. \<not> deliverable p s)) \<or>
     (\<exists>s < n. best = int s \<and> pri = picPri p s \<and> deliverable p s \<and>
        (\<forall>t < n. deliverable p t \<longrightarrow> picPri p t \<le> pri \<and> (t < s \<longrightarrow> picPri p t < pri)))"
    using assms(1) by (simp add: scanned_def Pair)
  show ?thesis
  proof (cases "d \<and> pri < picPri p n")
    case True
    have "deliverable p n"
      using old True dn by (auto simp: deliverable_def)
    moreover have "\<forall>t < n. deliverable p t \<longrightarrow> picPri p t < picPri p n" using old True by (auto intro: le_less_trans)
    ultimately have "\<exists>s < Suc n. int n = int s \<and> picPri p n = picPri p s \<and> deliverable p s \<and>
        (\<forall>t < Suc n. deliverable p t \<longrightarrow> picPri p t \<le> picPri p n \<and> (t < s \<longrightarrow> picPri p t < picPri p n))"
      by (intro exI [of _ n]) (auto simp: less_Suc_eq)
    then show ?thesis using step True by (simp add: scanned_def)
  next
    case False
    have "deliverable p n \<longrightarrow> best \<noteq> -1 \<and> picPri p n \<le> pri" using False old dn by (auto simp: not_less)
    then have "(best = -1 \<and> pri = taskPri p \<and> (\<forall>s < Suc n. \<not> deliverable p s)) \<or>
     (\<exists>s < Suc n. best = int s \<and> pri = picPri p s \<and> deliverable p s \<and>
        (\<forall>t < Suc n. deliverable p t \<longrightarrow> picPri p t \<le> pri \<and> (t < s \<longrightarrow> picPri p t < pri)))"
      using old by (auto simp: less_Suc_eq)
    then show ?thesis using step False Pair by (simp add: scanned_def)
  qed
qed

lemma scanned_fold:
  assumes "scanned p n bp" "n + k \<le> kSources"
  shows "scanned p (n + k) (fold (scanSource p) [n ..< n + k] bp)"
  using assms(2)
proof (induction k)
  case (Suc k)
  then have "scanned p (Suc (n + k)) (scanSource p (n + k) (fold (scanSource p) [n ..< n + k] bp))"
    by (intro scanned_step) simp_all
  then show ?case by simp
qed (simp add: assms(1))

lemma scanned_idle:
  assumes "scanned p n bp" "\<forall>k < 8. \<not> picPending p (n + k)"
  shows "scanned p (n + 8) bp"
proof -
  have d: "\<not> deliverable p s" if "n \<le> s" "s < n + 8" for s
    using assms(2) that by (auto simp: deliverable_def dest: spec [of _ "s - n"])
  then have e: "s < n + 8 \<Longrightarrow> deliverable p s \<Longrightarrow> s < n" for s by (meson not_le)
  obtain best pri where bp: "bp = (best, pri)" by fastforce
  show ?thesis using assms(1) unfolding scanned_def bp prod.case
  proof (elim disjE exE conjE)
    assume "best = -1" "pri = taskPri p" "\<forall>s < n. \<not> deliverable p s"
    then show "(best = -1 \<and> pri = taskPri p \<and> (\<forall>s < n + 8. \<not> deliverable p s)) \<or>
      (\<exists>s < n + 8. best = int s \<and> pri = picPri p s \<and> deliverable p s \<and>
        (\<forall>t < n + 8. deliverable p t \<longrightarrow> picPri p t \<le> pri \<and> (t < s \<longrightarrow> picPri p t < pri)))" using e by blast
  next
    fix s
    assume s: "s < n" "best = int s" "pri = picPri p s" "deliverable p s"
      "\<forall>t < n. deliverable p t \<longrightarrow> picPri p t \<le> pri \<and> (t < s \<longrightarrow> picPri p t < pri)"
    have "\<forall>t < n + 8. deliverable p t \<longrightarrow> picPri p t \<le> pri \<and> (t < s \<longrightarrow> picPri p t < pri)" using s(5) e by simp
    then show "(best = -1 \<and> pri = taskPri p \<and> (\<forall>s < n + 8. \<not> deliverable p s)) \<or>
      (\<exists>s < n + 8. best = int s \<and> pri = picPri p s \<and> deliverable p s \<and>
        (\<forall>t < n + 8. deliverable p t \<longrightarrow> picPri p t \<le> pri \<and> (t < s \<longrightarrow> picPri p t < pri)))"
      using s by (intro disjI2 exI [of _ s]) simp
  qed
qed

lemma scanned_octet:
  assumes "scanned p n bp" "n + 8 \<le> kSources"
  shows "scanned p (n + 8) (scanOctet p n bp)"
  using assms scanned_fold [of p n bp 8] scanned_idle [of p n bp] by (simp add: scanOctet_def octet_zero)

lemma scanned_highest: "scanned p kSources (fold (\<lambda>b. scanOctet p (8 * b)) [0 ..< kSources div 8] (-1, taskPri p))"
proof -
  have "scanned p (8 * m) (fold (\<lambda>b. scanOctet p (8 * b)) [0 ..< m] (-1, taskPri p))" if "8 * m \<le> kSources" for m
    using that
  proof (induction m)
    case 0
    then show ?case by (simp add: scanned_def)
  next
    case (Suc m)
    then show ?case using scanned_octet [of p "8 * m" "fold (\<lambda>b. scanOctet p (8 * b)) [0 ..< m] (-1, taskPri p)"] by (simp add: add.commute)
  qed
  from this [of 8] show ?thesis by simp
qed

lemma highest_cases:
  "(highestPending p = -1 \<and> (\<forall>s. \<not> deliverable p s)) \<or>
   (\<exists>s. highestPending p = int s \<and> deliverable p s \<and> (\<forall>t. deliverable p t \<longrightarrow> picPri p t \<le> picPri p s \<and> (t < s \<longrightarrow> picPri p t < picPri p s)))"
proof -
  obtain best pri where f: "fold (\<lambda>b. scanOctet p (8 * b)) [0 ..< kSources div 8] (-1, taskPri p) = (best, pri)" by fastforce
  have s: "deliverable p s \<Longrightarrow> s < kSources" for s by (simp add: deliverable_def)
  show ?thesis using scanned_highest [of p] s unfolding f highestPending_def scanned_def by auto
qed

text \<open>
  C32. The octet scan is the plain search: it finds the lowest-numbered source of the highest
  priority among those pending, unmasked and above the task priority, or none.
\<close>

theorem highest_pending_is_best: "highestPending p = bestSource p"
proof (cases "\<exists>s < kSources. deliverable p s")
  case False
  then have "\<not> deliverable p s" for s by (auto simp: deliverable_def)
  then show ?thesis using highest_cases [of p] False by (auto simp: bestSource_def)
next
  case True
  then obtain s where s: "highestPending p = int s" "deliverable p s"
    "\<forall>t. deliverable p t \<longrightarrow> picPri p t \<le> picPri p s \<and> (t < s \<longrightarrow> picPri p t < picPri p s)"
    using highest_cases [of p] by auto
  have "Min {s. s < kSources \<and> deliverable p s \<and> (\<forall>t < kSources. deliverable p t \<longrightarrow> picPri p t \<le> picPri p s)} = s"
  proof (rule Min_eqI)
    show "finite {s. s < kSources \<and> deliverable p s \<and> (\<forall>t < kSources. deliverable p t \<longrightarrow> picPri p t \<le> picPri p s)}" by simp
    show "s \<in> {s. s < kSources \<and> deliverable p s \<and> (\<forall>t < kSources. deliverable p t \<longrightarrow> picPri p t \<le> picPri p s)}"
      using s by (auto simp: deliverable_def)
    show "s \<le> u" if "u \<in> {s. s < kSources \<and> deliverable p s \<and> (\<forall>t < kSources. deliverable p t \<longrightarrow> picPri p t \<le> picPri p s)}" for u
    proof (rule ccontr)
      assume "\<not> s \<le> u"
      then have "picPri p u < picPri p s" "picPri p s \<le> picPri p u" using that s by (auto simp: deliverable_def)
      then show False by simp
    qed
  qed
  then show ?thesis using s(1) True by (simp add: bestSource_def)
qed

section \<open>Operations in any order\<close>

datatype pic_op = PicRead u32 u32 | PicWrite u32 u32 u32 | PicLine nat bool | PicStamp "u64 option"

fun picOp :: "pic_op \<Rightarrow> pic \<Rightarrow> pic" where
  "picOp (PicRead off len) p = snd (picRead off len p)"
| "picOp (PicWrite off v len) p = picWrite off v len p"
| "picOp (PicLine src level) p = picSetLine src level p"
| "picOp (PicStamp t) p = p\<lparr>picStamp := t\<rparr>"

text \<open>A level-sensitive, unmasked source whose line is held.\<close>

definition heldLevel :: "pic \<Rightarrow> nat \<Rightarrow> bool" where
  "heldLevel p s \<longleftrightarrow> picVp p s AND 0x00400000 \<noteq> 0 \<and> picVp p s AND 0x80000000 = 0 \<and> picLine p s"

definition picInv :: "pic \<Rightarrow> bool" where
  "picInv p \<longleftrightarrow> (\<forall>s. heldLevel p s \<longrightarrow> picPending p s) \<and> (\<forall>s \<ge> kSources. \<not> picLine p s \<and> \<not> picPending p s) \<and>
     (\<forall>s. picVp p s AND 0x40000000 = 0) \<and> taskPri p \<le> 0xF \<and> spurious p \<le> 0xFF \<and> -1 \<le> inService p \<and> inService p < int kSources \<and>
     length (picLog p) \<le> 512 \<and> length (picUnclaimed p) \<le> 256"

lemma picNote_sel [simp]:
  "picUnclaimed (picNote k v p) = picUnclaimed p" "raiseCount (picNote k v p) = raiseCount p" "picStamp (picNote k v p) = picStamp p"
  "picVp (picNote k v p) = picVp p" "picDest (picNote k v p) = picDest p" "picLine (picNote k v p) = picLine p"
  "picPending (picNote k v p) = picPending p" "taskPri (picNote k v p) = taskPri p" "spurious (picNote k v p) = spurious p"
  "inService (picNote k v p) = inService p" "picGlobal (picNote k v p) = picGlobal p"
  by (simp_all add: picNote_def)

lemma picNote_log: "length (picLog p) \<le> 512 \<Longrightarrow> length (picLog (picNote k v p)) \<le> 512"
  by (simp add: picNote_def)

lemma source_bound:
  assumes "off - 0x10000 < (0x800 :: u32)"
  shows "unat (drop_bit 5 (off - 0x10000)) < kSources"
proof -
  have "unat (off - 0x10000) < 0x800" using assms by (simp add: word_less_nat_alt)
  then have "unat (off - 0x10000) < kSources * 2 ^ 5" by simp
  then show ?thesis unfolding unat_drop_bit by (rule less_mult_imp_div_less)
qed

lemma inv_line: "picInv p \<Longrightarrow> picInv (picSetLine src level p)"
  unfolding picInv_def heldLevel_def by (auto simp: picSetLine_def Let_def)

text \<open>Storing a vector register clears the activity bit alone; simp writes the mask as a negative number.\<close>

lemma vp_written [simp]:
  "(native AND - 1073741825) AND 0x00400000 = native AND (0x00400000 :: u32)"
  "(native AND - 1073741825) AND 0x80000000 = native AND (0x80000000 :: u32)"
  "(native AND - 1073741825) AND 0x40000000 = (0 :: u32)"
  by (simp_all add: and.assoc)

lemma inv_iack:
  assumes "picInv p"
  shows "picInv (snd (iack p))"
proof (cases "highestPending p < 0")
  case False
  then obtain n where n: "highestPending p = int n" "deliverable p n" using highest_cases [of p] by auto
  then have "n < kSources" by (simp add: deliverable_def)
  then show ?thesis using assms n(1) unfolding picInv_def
    by (auto simp: iack_def Let_def heldLevel_def intro!: picNote_log)
qed (simp add: iack_def Let_def assms)

lemma inv_writeVp:
  assumes "picInv p" "src < kSources"
  shows "picInv (writeVp src native p)"
  using assms unfolding picInv_def heldLevel_def writeVp_def Let_def
  by (auto intro!: picNote_log)

lemma inv_write:
  assumes "picInv p"
  shows "picInv (picWrite off v len p)"
proof (cases "off - 0x10000 < 0x800 \<and> off AND 0x10 = 0")
  case True
  then show ?thesis using inv_writeVp [OF assms source_bound] by (simp add: picWrite_def Let_def)
next
  case False
  show ?thesis using assms False unfolding picInv_def heldLevel_def
    by (auto simp: picWrite_def Let_def word_and_le1 intro!: picNote_log)
qed

lemma inv_read: "picInv p \<Longrightarrow> picInv (snd (picRead off len p))"
  using inv_iack [of p] by (auto simp: picRead_def Let_def split: prod.splits if_splits)

lemma inv_op: "picInv p \<Longrightarrow> picInv (picOp x p)"
proof (cases x)
  case (PicStamp t)
  then show "picInv p \<Longrightarrow> ?thesis" by (simp add: picInv_def heldLevel_def)
qed (simp_all add: inv_read inv_write inv_line)

lemma inv_init: "picInv initPic"
  by (simp add: picInv_def heldLevel_def initPic_def)

lemma inv_fold: "picInv p \<Longrightarrow> picInv (fold picOp ops p)"
  by (induction ops arbitrary: p) (simp_all add: inv_op)

text \<open>
  C16. However devices raise and lower their lines and the guest reads and writes the controller's
  window, in any order: no level interrupt is lost (a level-sensitive source that is unmasked and
  whose line is held is pending), the source in service exists, the registers stay in their fields and
  the logs within their caps.
\<close>

theorem pic_never_loses_level: "picInv (fold picOp ops initPic)"
  using inv_init by (rule inv_fold)

section \<open>Delivery\<close>

definition isEoi :: "pic_op \<Rightarrow> bool" where
  "isEoi x = (case x of PicWrite off v len \<Rightarrow> off = 0x200B0 | _ \<Rightarrow> False)"

lemma iack_service: "0 \<le> inService p \<Longrightarrow> 0 \<le> inService (snd (iack p))"
  by (simp add: iack_def Let_def)

lemma service_kept:
  assumes "0 \<le> inService p" "\<not> isEoi x"
  shows "0 \<le> inService (picOp x p)"
proof (cases x)
  case (PicRead off len)
  then show ?thesis using assms(1) iack_service [OF assms(1)] by (auto simp: picRead_def Let_def split: prod.splits if_splits)
next
  case (PicWrite off v len)
  then show ?thesis using assms by (auto simp: picWrite_def writeVp_def isEoi_def Let_def)
next
  case (PicLine src level)
  then show ?thesis using assms(1) by (simp add: picSetLine_def Let_def)
qed (simp_all add: assms(1))

lemma service_kept_all: "\<forall>x \<in> set ops. \<not> isEoi x \<Longrightarrow> 0 \<le> inService p \<Longrightarrow> 0 \<le> inService (fold picOp ops p)"
  by (induction ops arbitrary: p) (simp_all add: service_kept)

lemma deliverable_cong:
  assumes "picVp q = picVp p" "picPending q = picPending p" "taskPri q = taskPri p"
  shows "deliverable q s = deliverable p s"
  using assms by (simp add: deliverable_def picPri_def)

lemma cpuLine_idle: "inService p < 0 \<Longrightarrow> cpuLine p \<longleftrightarrow> (\<exists>s. deliverable p s)"
  using highest_cases [of p] by (auto simp: cpuLine_def)

lemma eoi_opens: "cpuLine (picWrite 0x200B0 w l p) \<longleftrightarrow> (\<exists>s. deliverable p s)"
proof -
  let ?q = "picWrite 0x200B0 w l p"
  have q: "picVp ?q = picVp p" "picPending ?q = picPending p" "taskPri ?q = taskPri p" "inService ?q = -1"
    by (simp_all add: picWrite_def Let_def)
  show ?thesis using cpuLine_idle [of ?q] deliverable_cong [OF q(1-3)] by (simp add: q(4))
qed

text \<open>
  C15. The interrupt cycle. When the controller asserts the processor's line, reading the acknowledge
  register gives the vector of the source the scan found and puts it in service; whatever happens
  until the end of interrupt (other lines, other registers, further acknowledges), the line stays
  down; the end of interrupt asserts it again exactly if some source is deliverable, and a
  level source that is still held above the task priority is: its interrupt is delivered again.
\<close>

theorem interrupt_cycle:
  assumes "picInv p" "cpuLine p" "\<forall>x \<in> set ops. \<not> isEoi x"
  shows "let s = nat (highestPending p); (v, p1) = picRead 0x200A0 4 p; p2 = fold picOp ops p1; p3 = picWrite 0x200B0 w l p2 in
    deliverable p s \<and> v = swap32 (picVp p s AND 0xFF) \<and> inService p1 = int s \<and> \<not> cpuLine p1 \<and> \<not> cpuLine p2 \<and>
    (cpuLine p3 \<longleftrightarrow> (\<exists>t. deliverable p2 t)) \<and>
    (\<forall>t. heldLevel p2 t \<and> taskPri p2 < picPri p2 t \<longrightarrow> deliverable p2 t \<and> cpuLine p3)"
proof -
  obtain s where s: "highestPending p = int s" "deliverable p s" using assms(2) highest_cases [of p] by (auto simp: cpuLine_def)
  let ?p1 = "snd (iack p)" and ?p2 = "fold picOp ops (snd (iack p))"
  have r: "picRead 0x200A0 4 p = (swap32 (picVp p s AND 0xFF), ?p1)" "inService ?p1 = int s"
    using s(1) by (auto simp: picRead_def iack_def Let_def)
  have p2: "0 \<le> inService ?p2" "picInv ?p2"
    using service_kept_all [OF assms(3), of ?p1] inv_fold [OF inv_iack [OF assms(1)]] r(2) by simp_all
  have "deliverable ?p2 t" if "heldLevel ?p2 t" "taskPri ?p2 < picPri ?p2 t" for t
    using that p2(2) by (auto simp: picInv_def heldLevel_def deliverable_def not_le [symmetric])
  moreover have "\<not> cpuLine ?p1" "\<not> cpuLine ?p2" using r(2) p2(1) by (simp_all add: cpuLine_def)
  ultimately show ?thesis using s r by (auto simp: Let_def eoi_opens)
qed

definition picDemo :: pic where
  "picDemo = fold picOp [PicWrite 0x10060 0x2A004500 4, PicWrite 0x20080 0 4, PicLine 3 True] initPic"

lemma interrupt_cycle_witness:
  "let (v, p1) = picRead 0x200A0 4 picDemo; p2 = fold picOp [PicLine 5 True] p1; p3 = picWrite 0x200B0 0 4 p2 in
     v = 0x2A000000 \<and> inService p1 = 3 \<and> \<not> cpuLine p2 \<and> cpuLine p3"
proof -
  have c: "cpuLine picDemo" "highestPending picDemo = 3" "picVp picDemo 3 = 0x45002A" by code_simp+
  let ?p2 = "fold picOp [PicLine 5 True] (snd (picRead 0x200A0 4 picDemo))"
  have h: "heldLevel ?p2 3" "taskPri ?p2 < picPri ?p2 3" by code_simp+
  have i: "picInv picDemo" unfolding picDemo_def by (rule inv_fold [OF inv_init])
  have "\<forall>x \<in> set [PicLine 5 True]. \<not> isEoi x" by (simp add: isEoi_def)
  from interrupt_cycle [OF i c(1) this, of 0 4] h show ?thesis
    by (auto simp: c swap32_def Let_def split: prod.splits)
qed

end
