(* ===== verification/Pace.thy ===== *)
theory Pace
  imports StepProps LineProps
begin

text \<open>
  How the machine advances the processor, \<^verbatim>\<open>machine/include/opm/pace.hpp\<close>: the steps of a sleeping
  processor that are charged without being run, the wait for the host's clock, and the size of a
  batch. The bus is asked one thing, \<^verbatim>\<open>deviceDueTb\<close>, the timebase at which a device may next do
  something; it is the argument \<^verbatim>\<open>due\<close>. The host's timer (\<^verbatim>\<open>HostWait::wait\<close>) is the argument \<^verbatim>\<open>wait\<close>.
\<close>

section \<open>Definitions\<close>

definition anyEnabled :: "'b cpu \<Rightarrow> bool" where
  "anyEnabled c \<longleftrightarrow> msr (st c) AND MSR_EE \<noteq> 0 \<and> (smiPending c \<or> extIrqLine c \<or> decPending c \<or> pmPending c)"

definition napSkipSlow :: "u64 \<Rightarrow> u64 \<Rightarrow> 'b cpu \<Rightarrow> u64 \<times> 'b cpu" where
  "napSkipSlow due budget c =
     (if budget < 2 then (0, c)
      else if anyEnabled c then (0, c)
      else let cyclesPerStep = insnCycles c + extraCycles c in
        if cyclesPerStep = 0 then (0, c)
        else let d = stepsUntilDec cyclesPerStep c; n = (if d < budget then d else budget) in
          if tb (st c) < due then
            (let s = ((due - tb (st c)) * ucast (cyclesPerTbTick c)) div ucast cyclesPerStep;
                 n1 = (if s < n then s else n)
             in if n1 < 2 then (0, c)
                else (n1, (clockAdvance n1 cyclesPerStep c)\<lparr>ins := (ins c)\<lparr>napSkipped := napSkipped (ins c) + n1\<rparr>\<rparr>))
          else (0, c))"

definition napSkip :: "u64 \<Rightarrow> u64 \<Rightarrow> 'b cpu \<Rightarrow> u64 \<times> 'b cpu" where
  "napSkip due budget c = (if \<not> napping c then (0, c) else napSkipSlow due budget c)"

abbreviation (input) kMaxAskNs :: u64 where "kMaxAskNs \<equiv> 2000000"
abbreviation (input) kNsPerTick :: u64 where "kNsPerTick \<equiv> 40"

definition hostIdleWaitSlow :: "(u64 \<Rightarrow> 'w \<Rightarrow> u64 \<times> 'w) \<Rightarrow> u64 \<Rightarrow> 'b cpu \<Rightarrow> 'w \<Rightarrow> u64 \<times> 'w" where
  "hostIdleWaitSlow wait due0 c w =
     (if anyEnabled c then (0, w)
      else let d = tbUntilDec c;
               due = (if d \<noteq> - 1 \<and> tb (st c) + d < due0 then tb (st c) + d else due0)
           in if due \<le> tb (st c) then (0, w)
              else let tbLeft = due - tb (st c)
                   in wait (if kMaxAskNs div kNsPerTick < tbLeft then kMaxAskNs else tbLeft * kNsPerTick) w)"

definition hostIdleWait :: "(u64 \<Rightarrow> 'w \<Rightarrow> u64 \<times> 'w) \<Rightarrow> u64 \<Rightarrow> 'b cpu \<Rightarrow> 'w \<Rightarrow> u64 \<times> 'w" where
  "hostIdleWait wait due c w = (if \<not> napping c then (0, w) else hostIdleWaitSlow wait due c w)"

definition batchSteps :: "u64 \<Rightarrow> u64 \<Rightarrow> 'b cpu \<Rightarrow> u64" where
  "batchSteps due budget c =
     (if budget < 2 then budget
      else let cyclesPerStep = insnCycles c + extraCycles c in
        if cyclesPerStep = 0 then budget
        else let d = stepsUntilDec cyclesPerStep c; n = (if d < budget then d else budget) in
          if due \<le> tb (st c) then 1
          else let s = ((due - tb (st c)) * ucast (cyclesPerTbTick c)) div ucast cyclesPerStep;
                   n1 = (if s < n then s else n)
               in if n1 \<noteq> 0 then n1 else 1)"

definition runBatch :: "'b jit_runner \<Rightarrow> (string \<Rightarrow> 'b handler option) \<Rightarrow> nat \<Rightarrow> u64 \<Rightarrow> u64 \<Rightarrow> u64 \<Rightarrow> 'b cpu
    \<Rightarrow> (u64 \<times> u64 \<times> 'b cpu) option" where
  "runBatch jit ext fuel due executed budget c = runSteps jit ext fuel (batchSteps due budget c) executed c"

section \<open>The deadlines\<close>

text \<open>Up to the decrementer's deadline no decrementer interrupt appears.\<close>

lemma before_deadline:
  assumes "clock_ready c" "s \<noteq> 0" "j < unat (stepsUntilDec s c)" "ticksIn c (j * unat s) \<le> 2 ^ 31"
  shows "decPending (adv (j * unat s) c) = decPending c"
proof (cases "unat (dec (st c)) < 2 ^ 31 \<and> \<not> decPending c")
  case True
  then show ?thesis using dec_deadline [OF assms(1,2), of j] assms(3) by simp
next
  case False
  then show ?thesis by (auto simp: adv_effects)
qed

text \<open>Steps sized by the device deadline never carry the timebase past it.\<close>

lemma within_due:
  fixes s :: u32
  assumes "clock_ready c" "s \<noteq> 0" "tb (st c) < due"
    and "k \<le> unat (((due - tb (st c)) * ucast (cyclesPerTbTick c)) div ucast s)"
  shows "unat (tb (st (adv (k * unat s) c))) \<le> unat due"
proof -
  let ?D = "unat (due - tb (st c))" and ?d = "unat (cyclesPerTbTick c)"
  have d: "0 < ?d" "unat (cycleAccum c) < ?d" using assms(1) by (auto simp: clock_ready_def)
  have "unat ((due - tb (st c)) * ucast (cyclesPerTbTick c)) \<le> ?D * ?d"
    by (simp add: unat_word_ariths)
  moreover have "k * unat s \<le> unat ((due - tb (st c)) * ucast (cyclesPerTbTick c))"
  proof -
    have "k \<le> unat ((due - tb (st c)) * ucast (cyclesPerTbTick c)) div unat s"
      using assms(4) by (simp add: unat_div_distrib unat_ucast_64)
    then have "k * unat s \<le> unat ((due - tb (st c)) * ucast (cyclesPerTbTick c)) div unat s * unat s" by (rule mult_le_mono1)
    then show ?thesis by (rule le_trans) simp
  qed
  ultimately have "unat (cycleAccum c) + k * unat s < (?D + 1) * ?d" using d by simp
  then have t: "ticksIn c (k * unat s) \<le> ?D" unfolding ticksIn_def by (metis Suc_eq_plus1 less_Suc_eq_le less_mult_imp_div_less)
  have D: "unat due = unat (tb (st c)) + ?D" using assms(3) by (simp add: unat_sub word_less_nat_alt word_le_nat_alt)
  have "unat due < 2 ^ 64" using unsigned_less [of due] by simp
  then have "unat (tb (st c)) + ticksIn c (k * unat s) < 2 ^ 64" using t D by linarith
  then have "unat (tb (st c) + of_nat (ticksIn c (k * unat s))) = unat (tb (st c)) + ticksIn c (k * unat s)"
    by (simp add: unat_word_ariths unat_of_nat)
  then show ?thesis using t D by (simp add: adv_effects)
qed

section \<open>The nap skip\<close>

lemma idle_step:
  assumes "napping c" "\<not> anyEnabled c" "clock_ready c" "pendCycles c = 0" "\<not> batching c" "\<not> raisedThisStep c"
    and "ticksIn c (unat (insnCycles c + extraCycles c)) \<le> 2 ^ 31"
  shows "step ext c = adv (unat (insnCycles c + extraCycles c)) c"
proof -
  have c: "c\<lparr>raisedThisStep := False\<rparr> = c" using assms(6) by simp
  have "step ext c = insnCharge c"
    unfolding step_def Let_def c using assms(1,2) by (auto simp: anyEnabled_def anyIrq_def)
  then show ?thesis using assms by (simp add: insnCharge_def charge_unbatched)
qed

lemma idle_steps:
  assumes "napping c" "\<not> anyEnabled c" "clock_ready c" "pendCycles c = 0" "\<not> batching c" "\<not> raisedThisStep c"
    and "s = insnCycles c + extraCycles c" "s \<noteq> 0" "j \<le> unat (stepsUntilDec s c)" "ticksIn c (j * unat s) \<le> 2 ^ 31"
  shows "(step ext ^^ j) c = adv (j * unat s) c"
  using assms(9,10)
proof (induction j)
  case 0
  then show ?case using assms(3) by (simp add: adv_zero clock_ready_def)
next
  case (Suc j)
  let ?e = "adv (j * unat s) c"
  have t: "ticksIn c (j * unat s + unat s) \<le> 2 ^ 31" using Suc.prems(2) by (simp add: add.commute)
  have t1: "ticksIn c (j * unat s) \<le> 2 ^ 31" using ticksIn_mono [of "j * unat s" "j * unat s + unat s" c] t by linarith
  have "decPending ?e = decPending c" using before_deadline [OF assms(3,8) _ t1] Suc.prems(1) by simp
  then have "\<not> anyEnabled ?e" using assms(2) by (simp add: anyEnabled_def adv_sel)
  then have "step ext ?e = adv (unat (insnCycles ?e + extraCycles ?e)) ?e"
    using assms(1,3-8) ticksIn_adv [OF assms(3) t] by (intro idle_step) (simp_all add: adv_sel clock_ready_adv)
  then have "step ext ?e = adv (j * unat s + unat s) c"
    using assms(3,7) t by (simp add: adv_sel adv_add clock_ready_def ticksIn_def)
  then show ?case using Suc t1 by (simp add: add.commute)
qed

text \<open>What the size of a skip or a batch is bounded by.\<close>

definition paceBound :: "u64 \<Rightarrow> u64 \<Rightarrow> 'b cpu \<Rightarrow> u64 \<Rightarrow> bool" where
  "paceBound due budget c n \<longleftrightarrow> (let s = insnCycles c + extraCycles c in
     n \<le> budget \<and> n \<le> stepsUntilDec s c \<and> n \<le> ((due - tb (st c)) * ucast (cyclesPerTbTick c)) div ucast s)"

lemma napSkip_cases:
  assumes "napSkip due budget c = (n, c')"
  shows "(n = 0 \<and> c' = c) \<or>
    (napping c \<and> \<not> anyEnabled c \<and> insnCycles c + extraCycles c \<noteq> 0 \<and> tb (st c) < due \<and> 2 \<le> n \<and> paceBound due budget c n \<and>
     c' = (clockAdvance n (insnCycles c + extraCycles c) c)\<lparr>ins := (ins c)\<lparr>napSkipped := napSkipped (ins c) + n\<rparr>\<rparr>)"
  using assms unfolding napSkip_def napSkipSlow_def Let_def paceBound_def
  by (auto split: if_splits simp: not_less)

text \<open>Before the last of them no interrupt is enabled: the steps in between are idle ones.\<close>

lemma idle_quiet:
  assumes "napping c" "\<not> anyEnabled c" "clock_ready c" "pendCycles c = 0" "\<not> batching c" "\<not> raisedThisStep c"
    and "s = insnCycles c + extraCycles c" "s \<noteq> 0" "j < unat (stepsUntilDec s c)" "ticksIn c (j * unat s) \<le> 2 ^ 31"
  shows "\<not> anyEnabled ((step ext ^^ j) c)"
proof -
  have "(step ext ^^ j) c = adv (j * unat s) c"
    using assms(9) by (intro idle_steps [OF assms(1-8) _ assms(10)]) simp
  then show ?thesis
    using assms(2) before_deadline [OF assms(3,8-10)] by (simp add: anyEnabled_def adv_sel)
qed

text \<open>
  C17. Skipping a sleeping processor's steps is exact: whatever the budget and the device's deadline,
  the processor after the skip is the one the same number of single steps would have left (only
  the tally of skipped steps is new); it is still asleep with no interrupt enabled before every one
  of those steps, so that none of them could have woken it (the last may raise the decrementer's
  request, which the step after the skip then takes); the budget is kept; and the timebase has not
  passed the device's deadline.
\<close>

theorem nap_skip_is_steps:
  assumes "napSkip due budget c = (n, c')" "clock_ready c" "pendCycles c = 0" "\<not> batching c" "\<not> raisedThisStep c"
    and "ticksIn c (unat budget * unat (insnCycles c + extraCycles c)) \<le> 2 ^ 31"
  shows "c' = ((step ext ^^ unat n) c)\<lparr>ins := (ins c)\<lparr>napSkipped := napSkipped (ins c) + n\<rparr>\<rparr> \<and> n \<le> budget \<and>
    (\<forall>j < unat n. napping ((step ext ^^ j) c) \<and> \<not> anyEnabled ((step ext ^^ j) c)) \<and>
    (n \<noteq> 0 \<longrightarrow> unat (tb (st c')) \<le> unat due)"
  using napSkip_cases [OF assms(1)]
proof (elim disjE conjE)
  let ?s = "insnCycles c + extraCycles c"
  assume a: "napping c" "\<not> anyEnabled c" "?s \<noteq> 0" "tb (st c) < due" "2 \<le> n" "paceBound due budget c n"
    "c' = (clockAdvance n ?s c)\<lparr>ins := (ins c)\<lparr>napSkipped := napSkipped (ins c) + n\<rparr>\<rparr>"
  have b: "n \<le> budget" "unat n \<le> unat (stepsUntilDec ?s c)"
    "unat n \<le> unat (((due - tb (st c)) * ucast (cyclesPerTbTick c)) div ucast ?s)"
    using a(6) by (simp_all add: paceBound_def Let_def word_le_nat_alt)
  have t: "ticksIn c (j * unat ?s) \<le> 2 ^ 31" if "j \<le> unat n" for j
    using that b(1) ticksIn_mono [of "j * unat ?s" "unat budget * unat ?s" c] assms(6)
    by (simp add: word_le_nat_alt)
  have C: "unat (n * ucast ?s) = unat n * unat ?s" using ticksIn_bound [OF assms(2) t [OF order_refl]] by (simp add: unat_word_ariths)
  have "clockAdvance n ?s c = adv (unat n * unat ?s) c"
    using assms(2) t by (simp add: clockAdvance_def clockAdvanceCycles_adv C)
  moreover have run: "(step ext ^^ j) c = adv (j * unat ?s) c" if "j \<le> unat n" for j
    using that b(2) by (intro idle_steps [OF a(1,2) assms(2-5) refl a(3) _ t]) simp_all
  moreover have "napping ((step ext ^^ j) c) \<and> \<not> anyEnabled ((step ext ^^ j) c)" if "j < unat n" for j
  proof
    show "napping ((step ext ^^ j) c)" using that run [of j] a(1) by (simp add: adv_sel)
    show "\<not> anyEnabled ((step ext ^^ j) c)"
      using that b(2) by (intro idle_quiet [OF a(1,2) assms(2-5) refl a(3) _ t]) simp_all
  qed
  ultimately show ?thesis using a(7) b(1) within_due [OF assms(2) a(3,4) b(3)] by simp
qed (simp)

text \<open>
  C33. A batch stays within its deadlines. It is not longer than the budget; the decrementer's
  request appears at its last step at the earliest; and when it is more than the one step that is
  always granted, the whole batch, its last step included, leaves the timebase at or before the
  device's deadline.
\<close>

theorem batch_within_deadlines:
  assumes "clock_ready c" "insnCycles c + extraCycles c \<noteq> 0" "tb (st c) < due"
    and "ticksIn c (unat budget * unat (insnCycles c + extraCycles c)) \<le> 2 ^ 31"
  defines "n \<equiv> batchSteps due budget c"
  defines "at \<equiv> \<lambda>j. clockAdvance j (insnCycles c + extraCycles c) c"
  shows "n \<le> budget \<and> (budget \<noteq> 0 \<longrightarrow> n \<noteq> 0) \<and> (\<forall>j < n. decPending (at j) = decPending c) \<and>
    (n \<noteq> 1 \<longrightarrow> (\<forall>j \<le> n. unat (tb (st (at j))) \<le> unat due))"
proof -
  let ?s = "insnCycles c + extraCycles c"
  have n: "n \<le> budget \<and> (budget \<noteq> 0 \<longrightarrow> n \<noteq> 0) \<and> (n \<le> 1 \<or> paceBound due budget c n)"
    using assms(2,3) unfolding n_def batchSteps_def paceBound_def Let_def
    by (auto simp: word_le_nat_alt word_less_nat_alt not_le split: if_splits)
  have t: "ticksIn c (unat j * unat ?s) \<le> 2 ^ 31" if "j \<le> n" for j
    using that n ticksIn_mono [of "unat j * unat ?s" "unat budget * unat ?s" c] assms(4)
    by (simp add: word_le_nat_alt)
  have a: "at j = adv (unat j * unat ?s) c" if "j \<le> n" for j
  proof -
    have "unat (j * ucast ?s) = unat j * unat ?s" using ticksIn_bound [OF assms(1) t [OF that]] by (simp add: unat_word_ariths)
    then show ?thesis using assms(1) t [OF that] by (simp add: at_def clockAdvance_def clockAdvanceCycles_adv)
  qed
  have start: "adv 0 c = c" using assms(1) by (simp add: adv_zero clock_ready_def)
  have "decPending (at j) = decPending c" if "j < n" for j
  proof (cases "j = 0")
    case True
    then show ?thesis using a [of j] that start by simp
  next
    case False
    then have "unat j < unat (stepsUntilDec ?s c)"
      using n that by (auto simp: paceBound_def Let_def word_le_nat_alt word_less_nat_alt unat_eq_0 [symmetric])
    then show ?thesis using a [of j] that before_deadline [OF assms(1,2) _ t] by simp
  qed
  moreover have "unat (tb (st (at j))) \<le> unat due" if "j \<le> n" "n \<noteq> 1" for j
  proof (cases "j = 0")
    case True
    then show ?thesis using a [of j] that start assms(3) by (simp add: word_less_nat_alt)
  next
    case False
    then have "paceBound due budget c n"
      using n that by (auto simp: word_le_nat_alt word_unat_eq_iff)
    then have "unat j \<le> unat (((due - tb (st c)) * ucast (cyclesPerTbTick c)) div ucast ?s)"
      using that by (auto simp: paceBound_def Let_def word_le_nat_alt)
    from within_due [OF assms(1-3) this] show ?thesis using a [OF that(1)] by simp
  qed
  ultimately show ?thesis using n by blast
qed

section \<open>Witnesses\<close>

lemma napCpu_ready: "clock_ready napCpu" "pendCycles napCpu = 0" "\<not> batching napCpu" "\<not> raisedThisStep napCpu" "napping napCpu"
  by (simp_all add: napCpu_def decTwo_def flatCpu_def initCpu_def clock_ready_def wf_clock_def)

lemma napCpu_clock: "insnCycles napCpu = 1" "extraCycles napCpu = 0" "cyclesPerTbTick napCpu = 4" "cycleAccum napCpu = 0"
  by (simp_all add: napCpu_def decTwo_def flatCpu_def initCpu_def)

lemma napCpu_time: "tb (st napCpu) = 0" "dec (st napCpu) = 2"
  by (simp_all add: napCpu_def decTwo_def flatCpu_def initCpu_def initState_def)

lemma napCpu_quiet: "\<not> anyEnabled napCpu"
  by (simp add: anyEnabled_def napCpu_def decTwo_def flatCpu_def initCpu_def)

lemmas napCpu_state = napCpu_ready napCpu_clock napCpu_time napCpu_quiet

lemma nap_skip_is_steps_witness:
  "let (n, c') = napSkip 2 100 napCpu in
     n = 8 \<and> c' = ((step (\<lambda>_. None) ^^ 8) napCpu)\<lparr>ins := (ins napCpu)\<lparr>napSkipped := 8\<rparr>\<rparr> \<and>
     \<not> anyEnabled ((step (\<lambda>_. None) ^^ 7) napCpu) \<and> unat (tb (st c')) \<le> 2"
proof -
  have d: "stepsUntilDec 1 napCpu = 12" by (simp add: stepsUntilDec_def napCpu_state)
  obtain n c' where n: "napSkip 2 100 napCpu = (n, c')" by fastforce
  have n8: "n = 8" using n by (simp add: napSkip_def napSkipSlow_def napCpu_state d)
  have i: "napSkipped (ins napCpu) = 0" by (simp add: napCpu_def decTwo_def flatCpu_def initCpu_def initInstruments_def)
  have t: "ticksIn napCpu (unat (100 :: u64) * unat (insnCycles napCpu + extraCycles napCpu)) \<le> 2 ^ 31"
    by (simp add: napCpu_state ticksIn_def)
  have k: "unat (8 :: u64) = 8" "(8 :: u64) \<noteq> 0" "unat (2 :: u64) = 2" "7 < (8 :: nat)" by simp_all
  note r = nap_skip_is_steps [OF n napCpu_ready(1-4) t, of "\<lambda>_. None", unfolded n8 i k(1,3) add_0_left]
  show ?thesis unfolding n n8 Let_def prod.case using r k(2,4) by blast
qed

lemma batch_within_deadlines_witness:
  "batchSteps 2 100 napCpu = 8 \<and> unat (tb (st (clockAdvance 8 1 napCpu))) \<le> 2"
proof -
  have d: "stepsUntilDec 1 napCpu = 12" by (simp add: stepsUntilDec_def napCpu_state)
  have "batchSteps 2 100 napCpu = 8" by (simp add: batchSteps_def napCpu_state d)
  moreover have "ticksIn napCpu (unat (100 :: u64) * unat (insnCycles napCpu + extraCycles napCpu)) \<le> 2 ^ 31"
    by (simp add: napCpu_state ticksIn_def)
  ultimately show ?thesis
    using batch_within_deadlines [OF napCpu_ready(1), of 2 100] by (simp add: napCpu_state Let_def)
qed

text \<open>
  The device deadline is not met to the step: its conversion to steps leaves out the cycles already
  accumulated toward the next tick, which \<^verbatim>\<open>stepsUntilDec\<close> subtracts. Here the timebase reaches the
  device's deadline after one step and the batch goes on for three more.
\<close>

lemma device_deadline_late:
  "let c = napCpu\<lparr>cycleAccum := 3\<rparr> in tb (st (clockAdvance 1 1 c)) = 1 \<and> batchSteps 1 100 c = 4"
proof -
  let ?c = "napCpu\<lparr>cycleAccum := 3\<rparr>"
  have r: "clock_ready ?c" using napCpu_ready(1) by (simp add: clock_ready_def wf_clock_def napCpu_state)
  have s: "insnCycles ?c + extraCycles ?c = 1" "cyclesPerTbTick ?c = 4" "tb (st ?c) = 0" "dec (st ?c) = 2"
    using napCpu_state by simp_all
  have a: "cycleAccum ?c = 3" by simp
  have d: "stepsUntilDec 1 ?c = 9" unfolding stepsUntilDec_def s a by simp
  have "ticksIn ?c (unat (1 :: u64)) = 1" by (simp add: ticksIn_def s)
  then have "clockAdvance 1 1 ?c = adv 1 ?c" using r by (simp add: clockAdvance_def clockAdvanceCycles_adv)
  then have "tb (st (clockAdvance 1 1 ?c)) = 1" by (simp add: adv_effects ticksIn_def s napCpu_state)
  moreover have "batchSteps 1 100 ?c = 4" unfolding batchSteps_def Let_def s d by simp
  ultimately show ?thesis by (simp add: Let_def)
qed

end
