(* ===== verification/Dbdma.thy ===== *)
theory Dbdma
  imports OpenPic
begin

text \<open>
  The descriptor-based DMA channel of \<^verbatim>\<open>machine/src/dbdma.cpp\<close> and \<^verbatim>\<open>machine/include/opm/dbdma.hpp\<close>:
  its register window with partial-width accesses, the control register's handshake (run, flush,
  wake), the engine that walks the descriptor list with branches and a bound on idle rounds, and the
  event log. What the channel is wired to, the bus with its snoop sink and the device behind the
  interface \<^verbatim>\<open>DmaDevice\<close>, is the record \<open>dma_env\<close> of operations on a state \<open>'w\<close>. The tallies of
  the two watched audio channels (\<^verbatim>\<open>DbdmaIrqStats\<close>) are counters for a report and not kept.
\<close>

section \<open>The bus and the device\<close>

record 'w dma_env =
  hasBus :: bool
  dmRead8 :: "u32 \<Rightarrow> 'w \<Rightarrow> u8 \<times> 'w"
  dmRead32 :: "u32 \<Rightarrow> 'w \<Rightarrow> u32 \<times> 'w"
  dmWrite8 :: "u32 \<Rightarrow> u8 \<Rightarrow> 'w \<Rightarrow> 'w"
  dmWrite16 :: "u32 \<Rightarrow> u16 \<Rightarrow> 'w \<Rightarrow> 'w"
  dmWrite32 :: "u32 \<Rightarrow> u32 \<Rightarrow> 'w \<Rightarrow> 'w"
  dmSnoopRead :: "u32 \<Rightarrow> u32 \<Rightarrow> 'w \<Rightarrow> 'w"
  dmSnoopWrite :: "u32 \<Rightarrow> u32 \<Rightarrow> 'w \<Rightarrow> 'w"
  hasDev :: bool
  dmaTake :: "u32 \<Rightarrow> 'w \<Rightarrow> u8 list \<times> 'w"
  dmaGive :: "u8 list \<Rightarrow> 'w \<Rightarrow> u32 \<times> 'w"
  dmaWriteSink :: "'w \<Rightarrow> bool"
  dmaStreams :: "'w \<Rightarrow> bool"

definition rd32le :: "'w dma_env \<Rightarrow> u32 \<Rightarrow> 'w \<Rightarrow> u32 \<times> 'w" where
  "rd32le env pa w = (case dmRead32 env pa w of (be, w1) \<Rightarrow> (swap32 be, w1))"

definition wr32le :: "'w dma_env \<Rightarrow> u32 \<Rightarrow> u32 \<Rightarrow> 'w \<Rightarrow> 'w" where
  "wr32le env pa x = dmWrite32 env pa (swap32 x)"

fun storeBytes :: "'w dma_env \<Rightarrow> u32 \<Rightarrow> u8 list \<Rightarrow> 'w \<Rightarrow> 'w" where
  "storeBytes env pa [] w = w"
| "storeBytes env pa (b # bs) w = storeBytes env (pa + 1) bs (dmWrite8 env pa b w)"

fun loadBytes :: "'w dma_env \<Rightarrow> u32 \<Rightarrow> nat \<Rightarrow> 'w \<Rightarrow> u8 list \<times> 'w" where
  "loadBytes env pa 0 w = ([], w)"
| "loadBytes env pa (Suc n) w =
     (case dmRead8 env pa w of (b, w1) \<Rightarrow> case loadBytes env (pa + 1) n w1 of (bs, w2) \<Rightarrow> (b # bs, w2))"

section \<open>The channel\<close>

abbreviation (input) kRun :: u32 where "kRun \<equiv> 0x8000"
abbreviation (input) kFlush :: u32 where "kFlush \<equiv> 0x2000"
abbreviation (input) kWake :: u32 where "kWake \<equiv> 0x1000"
abbreviation (input) kDead :: u32 where "kDead \<equiv> 0x0800"
abbreviation (input) kActive :: u32 where "kActive \<equiv> 0x0400"

record db_ev =
  dbAt :: u64
  dbKind :: u32
  dbA :: u32
  dbB :: u32

record dbdma =
  dbStamp :: "u64 option"
  dbLog :: "db_ev list"
  dbLogFrom :: u64
  dbStatus :: u32
  dbCmdPtr :: u32
  dbIntSel :: u32
  dbBrSel :: u32
  dbWaitSel :: u32
  dbXferDone :: u32
  dbIrq :: bool

definition initDbdma :: dbdma where
  "initDbdma = \<lparr>dbStamp = None, dbLog = [], dbLogFrom = 0, dbStatus = 0, dbCmdPtr = 0, dbIntSel = 0,
     dbBrSel = 0, dbWaitSel = 0, dbXferDone = 0, dbIrq = False\<rparr>"

definition dbNote :: "u32 \<Rightarrow> u32 \<Rightarrow> u32 \<Rightarrow> dbdma \<Rightarrow> dbdma" where
  "dbNote kind a b ch =
     (if (\<exists>t. dbStamp ch = Some t \<and> t < dbLogFrom ch) then ch
      else let l = (if 4096 \<le> length (dbLog ch) then drop 2048 (dbLog ch) else dbLog ch) in
        ch\<lparr>dbLog := l @ [\<lparr>dbAt = (case dbStamp ch of Some t \<Rightarrow> t | None \<Rightarrow> 0), dbKind = kind, dbA = a, dbB = b\<rparr>]\<rparr>)"

definition dbNative :: "u32 \<Rightarrow> dbdma \<Rightarrow> u32" where
  "dbNative off ch =
     (let r = drop_bit 2 off AND 0x3F in
      if r = 0 \<or> r = 1 then dbStatus ch
      else if r = 3 then dbCmdPtr ch
      else if r = 4 then dbIntSel ch
      else if r = 5 then dbBrSel ch
      else if r = 6 then dbWaitSel ch
      else 0)"

definition dbRead :: "u32 \<Rightarrow> nat \<Rightarrow> dbdma \<Rightarrow> u32" where
  "dbRead off len ch =
     (let native = dbNative off ch in
      if len = 4 then swap32 native
      else fold (\<lambda>k r. push_bit 8 r OR (drop_bit (8 * unat ((off + of_nat k) AND 3)) native AND 0xFF)) [0 ..< len] 0)"

section \<open>The engine\<close>

text \<open>How the operation of a descriptor ends: parked, stalled on a stream, or done.\<close>

datatype db_out = OReturn | OStall | ODone u32

definition statusWord :: "u32 \<Rightarrow> u32" where
  "statusWord res = 0x84000000 OR res"

definition opInput :: "'w dma_env \<Rightarrow> u32 \<Rightarrow> u32 \<Rightarrow> dbdma \<Rightarrow> 'w \<Rightarrow> db_out \<times> dbdma \<times> 'w" where
  "opInput env req addr ch w =
     (let want = req - dbXferDone ch; at = addr + dbXferDone ch;
          (moved, w1) = (if hasDev env
             then (case dmaTake env want w of (bs, w0) \<Rightarrow>
               (of_nat (length bs), storeBytes env at bs (dmSnoopWrite env at (of_nat (length bs)) w0)))
             else (0, w));
          ch1 = (dbNote 2 at moved ch)\<lparr>dbXferDone := dbXferDone ch + moved\<rparr>;
          x = dbXferDone ch1
      in if x < req then
           (if x = 0 then (OReturn, ch1, w1)
            else if hasDev env \<and> dmaStreams env w1 then (OStall, ch1, w1)
            else (ODone moved, ch1, wr32le env (dbCmdPtr ch + 12) (statusWord (req - x)) w1))
         else (ODone moved, ch1, wr32le env (dbCmdPtr ch + 12) (statusWord 0) w1))"

definition opOutput :: "'w dma_env \<Rightarrow> u32 \<Rightarrow> u32 \<Rightarrow> dbdma \<Rightarrow> 'w \<Rightarrow> db_out \<times> dbdma \<times> 'w" where
  "opOutput env req addr ch w =
     (if hasDev env \<and> dmaWriteSink env w then
        (let want = req - dbXferDone ch; at = addr + dbXferDone ch in
         case loadBytes env at (unat want) (dmSnoopRead env at want w) of (bs, w1) \<Rightarrow>
         case dmaGive env bs w1 of (moved, w2) \<Rightarrow>
         let ch1 = (dbNote 2 at moved ch)\<lparr>dbXferDone := dbXferDone ch + moved\<rparr>; x = dbXferDone ch1 in
         if x = 0 then (OReturn, ch1, w2)
         else if x < req \<and> dmaStreams env w2 then (OStall, ch1, w2)
         else (ODone moved, ch1, wr32le env (dbCmdPtr ch + 12) (statusWord (req - x)) w2))
      else (ODone 0, ch, wr32le env (dbCmdPtr ch + 12) (statusWord 0) w))"

definition opStoreQuad :: "'w dma_env \<Rightarrow> u32 \<Rightarrow> u32 \<Rightarrow> dbdma \<Rightarrow> 'w \<Rightarrow> db_out \<times> dbdma \<times> 'w" where
  "opStoreQuad env req addr ch w =
     (case rd32le env (dbCmdPtr ch + 8) w of (lit, w1) \<Rightarrow>
      let w2 = dmSnoopWrite env addr (if req \<noteq> 0 then req else 4) w1;
          ch1 = dbNote 5 addr lit ch;
          w3 = (if 4 \<le> req then wr32le env addr lit w2
                else if req = 2 then dmWrite16 env addr (ucast (push_bit 8 (lit AND 0xFF) OR (drop_bit 8 lit AND 0xFF))) w2
                else dmWrite8 env addr (ucast lit) w2)
      in (ODone 0, ch1, wr32le env (dbCmdPtr ch + 12) (statusWord 0) w3))"

definition opLoadQuad :: "'w dma_env \<Rightarrow> u32 \<Rightarrow> u32 \<Rightarrow> dbdma \<Rightarrow> 'w \<Rightarrow> db_out \<times> dbdma \<times> 'w" where
  "opLoadQuad env req addr ch w =
     (let size = (if req AND 4 \<noteq> 0 then 4 else if req AND 2 \<noteq> 0 then 2 else 1);
          w1 = dmSnoopRead env addr size w;
          (img, w2) =
            (if size = 4 then dmRead32 env addr w1
             else if size = 2 then
               (case dmRead8 env addr w1 of (b0, v1) \<Rightarrow> case dmRead8 env (addr + 1) v1 of (b1, v2) \<Rightarrow>
                  (push_bit 24 (ucast b0) OR push_bit 16 (ucast b1), v2))
             else (case dmRead8 env addr w1 of (b0, v1) \<Rightarrow> (push_bit 24 (ucast b0), v1)));
          w3 = dmWrite32 env (dbCmdPtr ch + 8) img w2
      in (ODone 0, dbNote 8 addr img ch, wr32le env (dbCmdPtr ch + 12) (statusWord 0) w3))"

text \<open>The command nibble of a descriptor; NOP, STOP and the unassigned codes are settled by the loop.\<close>

definition dbExec :: "'w dma_env \<Rightarrow> u32 \<Rightarrow> u32 \<Rightarrow> dbdma \<Rightarrow> 'w \<Rightarrow> db_out \<times> dbdma \<times> 'w" where
  "dbExec env w0 addr ch w =
     (let op = drop_bit 28 w0; req = w0 AND 0xFFFF in
      if op = 7 then
        (let ch1 = ch\<lparr>dbStatus := dbStatus ch AND NOT kActive, dbXferDone := 0\<rparr>
         in (OReturn, dbNote 3 (dbCmdPtr ch) 0 ch1, w))
      else if op = 2 \<or> op = 3 then opInput env req addr ch w
      else if op = 0 \<or> op = 1 then opOutput env req addr ch w
      else if op = 4 then opStoreQuad env req addr ch w
      else if op = 5 then opLoadQuad env req addr ch w
      else if op = 6 then (ODone 0, ch, wr32le env (dbCmdPtr ch + 12) (statusWord 0) w)
      else (OReturn, dbNote 4 (dbCmdPtr ch) w0 (ch\<lparr>dbStatus := (dbStatus ch OR kDead) AND NOT kActive\<rparr>), w))"

definition dbTake :: "u32 \<Rightarrow> dbdma \<Rightarrow> bool" where
  "dbTake w0 ch =
     (let op = drop_bit 28 w0;
          br = (if op = 4 \<or> op = 5 then 0 else drop_bit 18 w0 AND 3);
          msk = drop_bit 16 (dbBrSel ch) AND 0xFF; val = dbBrSel ch AND 0xFF;
          cnd = ((dbStatus ch AND 0xFF) AND msk = val AND msk)
      in if br = 1 then cnd else if br = 2 then \<not> cnd else br = 3)"

text \<open>After a finished descriptor: its interrupt, and its branch or the next one.\<close>

definition dbAdvance :: "'w dma_env \<Rightarrow> u32 \<Rightarrow> dbdma \<Rightarrow> 'w \<Rightarrow> dbdma \<times> 'w" where
  "dbAdvance env w0 ch w =
     (let ch1 = ch\<lparr>dbXferDone := 0, dbIrq := dbIrq ch \<or> drop_bit 20 w0 AND 3 \<noteq> 0\<rparr> in
      if dbTake w0 ch1 then
        (case rd32le env (dbCmdPtr ch + 8) w of (t, w1) \<Rightarrow>
           ((dbNote 7 (dbCmdPtr ch) (t AND NOT 15) ch1)\<lparr>dbCmdPtr := t AND NOT 15\<rparr>, w1))
      else (ch1\<lparr>dbCmdPtr := dbCmdPtr ch + 16\<rparr>, w))"

text \<open>One round: fetch the descriptor, do its operation, advance; and whether to go on.\<close>

definition dbRound :: "'w dma_env \<Rightarrow> nat \<Rightarrow> dbdma \<Rightarrow> 'w \<Rightarrow> bool \<times> nat \<times> dbdma \<times> 'w" where
  "dbRound env idle ch w =
     (case rd32le env (dbCmdPtr ch) (dmSnoopWrite env (dbCmdPtr ch) 16 w) of (w0, wb) \<Rightarrow>
      case rd32le env (dbCmdPtr ch + 4) wb of (addr, wc) \<Rightarrow>
      case dbExec env w0 addr (dbNote 1 (dbCmdPtr ch) w0 ch) wc of
        (OReturn, ch1, w1) \<Rightarrow> (False, idle, ch1, w1)
      | (OStall, ch1, w1) \<Rightarrow> (False, idle, ch1, w1)
      | (ODone moved, ch1, w1) \<Rightarrow>
          let idle1 = (if moved \<noteq> 0 then 0 else idle + 1)
          in case dbAdvance env w0 ch1 w1 of (ch2, w2) \<Rightarrow> (idle1 \<le> 512, idle1, ch2, w2))"

fun dbLoop :: "'w dma_env \<Rightarrow> nat \<Rightarrow> nat \<Rightarrow> dbdma \<Rightarrow> 'w \<Rightarrow> dbdma \<times> 'w" where
  "dbLoop env 0 idle ch w = (ch, w)"
| "dbLoop env (Suc n) idle ch w =
     (if dbStatus ch AND kRun = 0 then (ch, w)
      else case dbRound env idle ch w of
        (True, idle1, ch1, w1) \<Rightarrow> dbLoop env n idle1 ch1 w1
      | (False, idle1, ch1, w1) \<Rightarrow> (ch1, w1))"

definition dbRun :: "'w dma_env \<Rightarrow> dbdma \<Rightarrow> 'w \<Rightarrow> dbdma \<times> 'w" where
  "dbRun env ch w = (if \<not> hasBus env then (ch, w) else dbLoop env 65536 0 ch w)"

definition dbWake :: "'w dma_env \<Rightarrow> dbdma \<Rightarrow> 'w \<Rightarrow> dbdma \<times> 'w" where
  "dbWake env ch w =
     (if dbStatus ch AND kRun \<noteq> 0 \<and> dbStatus ch AND kActive \<noteq> 0 then dbRun env ch w else (ch, w))"

section \<open>The register window\<close>

text \<open>Giving up the descriptor in progress: its residue goes to its status word.\<close>

definition dbFlush :: "'w dma_env \<Rightarrow> dbdma \<Rightarrow> 'w \<Rightarrow> dbdma \<times> 'w" where
  "dbFlush env ch0 w =
     (let ch = ch0\<lparr>dbStatus := dbStatus ch0 AND NOT kFlush\<rparr> in
      if dbStatus ch AND kActive \<noteq> 0 \<and> dbCmdPtr ch \<noteq> 0 \<and> hasBus env then
        (case dmRead32 env (dbCmdPtr ch) (dmSnoopWrite env (dbCmdPtr ch) 16 w) of (be, w1) \<Rightarrow>
         let req = swap32 be AND 0xFFFF;
             w2 = dmWrite32 env (dbCmdPtr ch + 12) (swap32 (statusWord ((req - dbXferDone ch) AND 0xFFFF))) w1;
             ch1 = ch\<lparr>dbXferDone := 0, dbStatus := dbStatus ch AND NOT kActive\<rparr>
         in (dbNote 3 (dbCmdPtr ch) (dbStatus ch1) ch1, w2))
      else (ch, w))"

definition dbControl :: "'w dma_env \<Rightarrow> u32 \<Rightarrow> dbdma \<Rightarrow> 'w \<Rightarrow> dbdma \<times> 'w" where
  "dbControl env native ch w =
     (let msk = drop_bit 16 native; val = native AND 0xFFFF;
          wasRun = dbStatus ch AND kRun;
          s = (dbStatus ch AND NOT msk) OR (val AND msk);
          ch1 = (dbNote 0 native s (ch\<lparr>dbStatus := s\<rparr>))\<lparr>dbIrq := False\<rparr>;
          (ch2, w2) = (if dbStatus ch1 AND kFlush \<noteq> 0 then dbFlush env ch1 w else (ch1, w));
          (ch3, w3) = (if dbStatus ch2 AND kWake \<noteq> 0 then
             (let c = ch2\<lparr>dbStatus := dbStatus ch2 AND NOT kWake\<rparr> in
              if dbStatus c AND kRun \<noteq> 0 then dbRun env c w2 else (c, w2)) else (ch2, w2));
          (ch4, w4) = (if dbStatus ch3 AND kRun \<noteq> 0 \<and> wasRun = 0 then
             dbRun env (ch3\<lparr>dbStatus := (dbStatus ch3 AND NOT kDead) OR kActive, dbXferDone := 0\<rparr>) w3 else (ch3, w3))
      in if dbStatus ch4 AND kRun = 0
         then (ch4\<lparr>dbStatus := dbStatus ch4 AND NOT kActive, dbXferDone := 0\<rparr>, w4) else (ch4, w4))"

definition dbMerge :: "u32 \<Rightarrow> u32 \<Rightarrow> nat \<Rightarrow> dbdma \<Rightarrow> u32" where
  "dbMerge off v len ch =
     (if len = 4 then swap32 v
      else fold (\<lambda>k native. let lane = unat ((off + of_nat k) AND 3) in
          (native AND NOT (push_bit (8 * lane) 0xFF)) OR push_bit (8 * lane) (drop_bit (8 * (len - 1 - k)) v AND 0xFF))
        [0 ..< len] (swap32 (dbRead (off AND NOT 3) 4 ch)))"

definition dbWrite :: "'w dma_env \<Rightarrow> u32 \<Rightarrow> u32 \<Rightarrow> nat \<Rightarrow> dbdma \<Rightarrow> 'w \<Rightarrow> dbdma \<times> 'w" where
  "dbWrite env off v len ch w =
     (let native = dbMerge off v len ch; r = drop_bit 2 off AND 0x3F in
      if r = 0 then dbControl env native ch w
      else if r = 3 then
        (if dbStatus ch AND kActive \<noteq> 0 then (dbNote 6 native (dbStatus ch) ch, w)
         else (ch\<lparr>dbCmdPtr := native AND NOT 15\<rparr>, w))
      else if r = 4 then (ch\<lparr>dbIntSel := native\<rparr>, w)
      else if r = 5 then (ch\<lparr>dbBrSel := native\<rparr>, w)
      else if r = 6 then (ch\<lparr>dbWaitSel := native\<rparr>, w)
      else (ch, w))"

end
