(* ===== verification/DbdmaInv.thy ===== *)
theory DbdmaInv
  imports Dbdma
begin

text \<open>
  The invariant of the DMA channel over any sequence of register writes and wakes, and two small
  programs on which the engine goes wrong.
\<close>

definition dbInv :: "dbdma \<Rightarrow> bool" where
  "dbInv ch \<longleftrightarrow> dbCmdPtr ch AND 15 = 0 \<and> dbStatus ch AND (kFlush OR kWake) = 0 \<and>
     (dbStatus ch AND kRun = 0 \<longrightarrow> dbStatus ch AND kActive = 0 \<and> dbXferDone ch = 0) \<and> length (dbLog ch) \<le> 4096"

text \<open>What the engine keeps while it runs.\<close>

definition dbKeeps :: "dbdma \<Rightarrow> dbdma \<Rightarrow> bool" where
  "dbKeeps ch ch' \<longleftrightarrow> (dbCmdPtr ch AND 15 = 0 \<longrightarrow> dbCmdPtr ch' AND 15 = 0) \<and> (length (dbLog ch) \<le> 4096 \<longrightarrow> length (dbLog ch') \<le> 4096) \<and>
     dbStatus ch' AND (kRun OR kFlush OR kWake) = dbStatus ch AND (kRun OR kFlush OR kWake)"

lemma dbKeeps_refl [simp]: "dbKeeps ch ch"
  by (simp add: dbKeeps_def)

lemma dbKeeps_trans: "dbKeeps a b \<Longrightarrow> dbKeeps b c \<Longrightarrow> dbKeeps a c"
  by (simp add: dbKeeps_def)

lemma dbNote_sel [simp]:
  "dbStatus (dbNote k a b ch) = dbStatus ch" "dbCmdPtr (dbNote k a b ch) = dbCmdPtr ch" "dbXferDone (dbNote k a b ch) = dbXferDone ch"
  "dbIrq (dbNote k a b ch) = dbIrq ch" "dbBrSel (dbNote k a b ch) = dbBrSel ch" "dbIntSel (dbNote k a b ch) = dbIntSel ch"
  "dbWaitSel (dbNote k a b ch) = dbWaitSel ch"
  by (simp_all add: dbNote_def Let_def)

lemma dbNote_log: "length (dbLog ch) \<le> 4096 \<Longrightarrow> length (dbLog (dbNote k a b ch)) \<le> 4096"
  by (auto simp: dbNote_def Let_def)

lemma dbNote_keeps [simp]: "dbKeeps ch (dbNote k a b ch)"
  by (simp add: dbKeeps_def dbNote_log)

lemma dbKeeps_update [simp]:
  "dbKeeps ch (c\<lparr>dbXferDone := x\<rparr>) = dbKeeps ch c" "dbKeeps ch (c\<lparr>dbIrq := q\<rparr>) = dbKeeps ch c"
  by (simp_all add: dbKeeps_def)

lemma opInput_keeps: "dbKeeps ch (fst (snd (opInput env req addr ch w)))"
  by (simp add: opInput_def Let_def split: prod.split)

lemma opOutput_keeps: "dbKeeps ch (fst (snd (opOutput env req addr ch w)))"
  by (simp add: opOutput_def Let_def split: prod.split)

lemma opQuad_keeps: "dbKeeps ch (fst (snd (opStoreQuad env req addr ch w)))" "dbKeeps ch (fst (snd (opLoadQuad env req addr ch w)))"
  by (simp_all add: opStoreQuad_def opLoadQuad_def Let_def split: prod.split)

lemma dbKeeps_status:
  "dbKeeps ch (dbNote k a b (ch\<lparr>dbStatus := dbStatus ch AND NOT kActive, dbXferDone := x\<rparr>))"
  "dbKeeps ch (dbNote k a b (ch\<lparr>dbStatus := (dbStatus ch OR kDead) AND NOT kActive\<rparr>))"
  by (simp_all add: dbKeeps_def dbNote_log and.assoc bit.conj_disj_distrib2)

lemma dbExec_keeps: "dbKeeps ch (fst (snd (dbExec env w0 addr ch w)))"
proof -
  have i: "dbKeeps ch (fst (snd X)) \<Longrightarrow> dbKeeps ch (fst (snd Y)) \<Longrightarrow> dbKeeps ch (fst (snd (if P then X else Y)))"
    for P and X Y :: "db_out \<times> dbdma \<times> 'a" by simp
  have l: "dbKeeps ch c \<Longrightarrow> dbKeeps ch (fst (snd (x, c, v)))" for x :: db_out and c and v :: 'a by simp
  show ?thesis unfolding dbExec_def Let_def
    by (rule i opInput_keeps opOutput_keeps opQuad_keeps l dbKeeps_status dbKeeps_refl)+
qed

lemma aligned16_step: "p AND 15 = 0 \<Longrightarrow> (p + 16) AND 15 = (0 :: u32)"
proof -
  have m: "x AND 15 = 0 \<longleftrightarrow> unat x mod 16 = 0" for x :: u32
  proof -
    have "unat (x AND mask 4) = unat x mod 2 ^ 4" by (rule unat_and_mask)
    then have "unat (x AND 15) = unat x mod 16" by (simp add: mask_eq_exp_minus_1)
    then show ?thesis by (metis unat_eq_0)
  qed
  have "unat (p + 16) = (unat p + 16) mod 2 ^ 32" by (simp add: unat_word_ariths)
  then have "unat (p + 16) mod 16 = (unat p + 16) mod 16" by (simp only:) (rule mod_mod_cancel, simp)
  then show "p AND 15 = 0 \<Longrightarrow> (p + 16) AND 15 = (0 :: u32)" unfolding m by simp
qed

lemma dbAdvance_keeps: "dbKeeps ch (fst (dbAdvance env w0 ch w))"
  by (auto simp: dbAdvance_def Let_def dbKeeps_def dbNote_log and.assoc aligned16_step split: prod.split)

lemma dbRound_keeps:
  assumes "dbRound env idle ch w = (go, idle1, ch1, w1)"
  shows "dbKeeps ch ch1"
proof -
  obtain w0 wb where r0: "rd32le env (dbCmdPtr ch) (dmSnoopWrite env (dbCmdPtr ch) 16 w) = (w0, wb)" by fastforce
  obtain addr wc where r1: "rd32le env (dbCmdPtr ch + 4) wb = (addr, wc)" by fastforce
  obtain out c1 v1 where x: "dbExec env w0 addr (dbNote 1 (dbCmdPtr ch) w0 ch) wc = (out, c1, v1)" by (metis prod_cases3)
  have "dbKeeps (dbNote 1 (dbCmdPtr ch) w0 ch) c1" using dbExec_keeps [where ch = "dbNote 1 (dbCmdPtr ch) w0 ch"] x by (metis fst_conv snd_conv)
  then have k: "dbKeeps ch c1" by (rule dbKeeps_trans [OF dbNote_keeps])
  show ?thesis
  proof (cases out)
    case (ODone moved)
    then have "ch1 = fst (dbAdvance env w0 c1 v1)" using assms by (simp add: dbRound_def r0 r1 x Let_def split: prod.splits)
    then show ?thesis using dbKeeps_trans [OF k dbAdvance_keeps] by simp
  qed (use assms k in \<open>simp_all add: dbRound_def r0 r1 x\<close>)
qed

lemma dbLoop_keeps: "dbKeeps ch (fst (dbLoop env n idle ch w))"
proof (induction n arbitrary: idle ch w)
  case (Suc n)
  obtain go idle1 ch1 w1 where r: "dbRound env idle ch w = (go, idle1, ch1, w1)" by (metis prod_cases4)
  show ?case using dbKeeps_trans [OF dbRound_keeps [OF r] Suc] dbRound_keeps [OF r] r by (cases go) simp_all
qed simp

lemma dbRun_keeps: "dbKeeps ch (fst (dbRun env ch w))"
  by (simp add: dbRun_def dbLoop_keeps)

text \<open>The handshake bits, one at a time.\<close>

lemma dbKeepsD:
  assumes "dbKeeps ch ch'"
  shows "dbStatus ch' AND kRun = dbStatus ch AND kRun" "dbStatus ch' AND (kFlush OR kWake) = dbStatus ch AND (kFlush OR kWake)"
proof -
  have s: "x AND m = (x AND (kRun OR kFlush OR kWake)) AND m" if "(kRun OR kFlush OR kWake) AND m = m" for x m
    using that by (simp only: and.assoc)
  have k: "dbStatus ch' AND (kRun OR kFlush OR kWake) = dbStatus ch AND (kRun OR kFlush OR kWake)" using assms by (simp add: dbKeeps_def)
  show "dbStatus ch' AND kRun = dbStatus ch AND kRun" unfolding s [of kRun "dbStatus ch'", simplified] s [of kRun "dbStatus ch", simplified] using k by simp
  show "dbStatus ch' AND (kFlush OR kWake) = dbStatus ch AND (kFlush OR kWake)"
    using s [of "kFlush OR kWake" "dbStatus ch'"] s [of "kFlush OR kWake" "dbStatus ch"] k by simp
qed

text \<open>Alignment, the log's cap and the bits \<open>m\<close> that are clear.\<close>

definition dbOk :: "u32 \<Rightarrow> dbdma \<Rightarrow> bool" where
  "dbOk m ch \<longleftrightarrow> dbCmdPtr ch AND 15 = 0 \<and> length (dbLog ch) \<le> 4096 \<and> dbStatus ch AND m = 0"

lemma dbOk_run: "dbOk (kFlush OR kWake) ch \<Longrightarrow> dbOk (kFlush OR kWake) (fst (dbRun env ch w))"
  using dbRun_keeps [of ch env w] dbKeepsD(2) [OF dbRun_keeps [of ch env w]] by (simp add: dbOk_def dbKeeps_def)

lemma dbOk_update [simp]:
  "dbOk m (ch\<lparr>dbXferDone := x\<rparr>) = dbOk m ch" "dbOk m (ch\<lparr>dbIrq := q\<rparr>) = dbOk m ch"
  by (simp_all add: dbOk_def)

lemma dbOk_note: "dbOk m ch \<Longrightarrow> dbOk m (dbNote k a b ch)"
  by (simp add: dbOk_def dbNote_log)

lemma dbOk_flush: "dbOk 0 ch \<Longrightarrow> dbOk kFlush (fst (dbFlush env ch w))"
  by (auto simp: dbFlush_def Let_def dbOk_def dbNote_log and.assoc split: prod.split)

lemma dbOk_unflushed: "dbOk 0 ch \<Longrightarrow> dbStatus ch AND kFlush = 0 \<Longrightarrow> dbOk kFlush ch"
  by (simp add: dbOk_def)

lemma and_two: "(x :: u32) AND (kFlush OR kWake) = 0 \<longleftrightarrow> x AND kFlush = 0 \<and> x AND kWake = 0"
proof -
  have "x AND (kFlush OR kWake) = (x AND kFlush) OR (x AND kWake)" by (rule bit.conj_disj_distrib)
  then show ?thesis by (simp only: or_eq_0_iff)
qed

lemma dbOk_status:
  "dbOk m ch \<Longrightarrow> m = kFlush \<Longrightarrow> dbOk (kFlush OR kWake) (ch\<lparr>dbStatus := dbStatus ch AND NOT kWake\<rparr>)"
  "dbOk (kFlush OR kWake) ch \<Longrightarrow> dbOk (kFlush OR kWake) (ch\<lparr>dbStatus := (dbStatus ch AND NOT kDead) OR kActive, dbXferDone := x\<rparr>)"
  "dbOk (kFlush OR kWake) ch \<Longrightarrow> dbOk (kFlush OR kWake) (ch\<lparr>dbStatus := dbStatus ch AND NOT kActive, dbXferDone := x\<rparr>)"
  unfolding dbOk_def and_two by (auto simp: and.assoc bit.conj_disj_distrib2)

lemma dbOk_wake: "dbOk kFlush ch \<Longrightarrow> dbStatus ch AND kWake = 0 \<Longrightarrow> dbOk (kFlush OR kWake) ch"
  unfolding dbOk_def and_two by simp

lemma dbInv_ok: "dbInv ch \<longleftrightarrow> dbOk (kFlush OR kWake) ch \<and> (dbStatus ch AND kRun = 0 \<longrightarrow> dbStatus ch AND kActive = 0 \<and> dbXferDone ch = 0)"
  by (auto simp: dbInv_def dbOk_def)

lemma dbOk_if: "(P \<Longrightarrow> dbOk m (fst x)) \<Longrightarrow> (\<not> P \<Longrightarrow> dbOk m (fst y)) \<Longrightarrow> dbOk m (fst (if P then x else y))"
  by simp

lemma dbInv_control:
  assumes "dbInv ch"
  shows "dbInv (fst (dbControl env native ch w))"
proof -
  define s where "s = (dbStatus ch AND NOT (drop_bit 16 native)) OR ((native AND 0xFFFF) AND drop_bit 16 native)"
  define ch1 where "ch1 = (dbNote 0 native s (ch\<lparr>dbStatus := s\<rparr>))\<lparr>dbIrq := False\<rparr>"
  define p2 where "p2 = (if dbStatus ch1 AND kFlush \<noteq> 0 then dbFlush env ch1 w else (ch1, w))"
  define p3 where "p3 = (if dbStatus (fst p2) AND kWake \<noteq> 0 then
    (if dbStatus ((fst p2)\<lparr>dbStatus := dbStatus (fst p2) AND NOT kWake\<rparr>) AND kRun \<noteq> 0
     then dbRun env ((fst p2)\<lparr>dbStatus := dbStatus (fst p2) AND NOT kWake\<rparr>) (snd p2)
     else ((fst p2)\<lparr>dbStatus := dbStatus (fst p2) AND NOT kWake\<rparr>, snd p2)) else p2)"
  define p4 where "p4 = (if dbStatus (fst p3) AND kRun \<noteq> 0 \<and> dbStatus ch AND kRun = 0 then
    dbRun env ((fst p3)\<lparr>dbStatus := (dbStatus (fst p3) AND NOT kDead) OR kActive, dbXferDone := 0\<rparr>) (snd p3) else p3)"
  have c: "dbControl env native ch w = (if dbStatus (fst p4) AND kRun = 0
     then ((fst p4)\<lparr>dbStatus := dbStatus (fst p4) AND NOT kActive, dbXferDone := 0\<rparr>, snd p4) else p4)"
    unfolding dbControl_def Let_def p4_def p3_def p2_def ch1_def s_def by (simp only: case_prod_beta' prod.collapse fst_conv snd_conv)
  have "dbOk 0 (dbNote 0 native s (ch\<lparr>dbStatus := s\<rparr>))" using assms by (intro dbOk_note) (simp add: dbInv_def dbOk_def)
  then have "dbOk 0 ch1" by (simp add: ch1_def)
  then have "dbOk kFlush (fst p2)" unfolding p2_def using dbOk_flush dbOk_unflushed [of ch1] by auto
  then have o2: "dbOk kFlush (fst p2)" .
  let ?c = "(fst p2)\<lparr>dbStatus := dbStatus (fst p2) AND NOT kWake\<rparr>"
  have oc: "dbOk (kFlush OR kWake) ?c" by (rule dbOk_status(1) [OF o2 refl])
  have "dbOk (kFlush OR kWake) (fst p3)"
  proof (cases "dbStatus (fst p2) AND kWake = 0")
    case True
    then have "p3 = p2" by (simp add: p3_def)
    then show ?thesis using dbOk_wake [OF o2 True] by simp
  next
    case False
    then have e: "p3 = (if dbStatus ?c AND kRun \<noteq> 0 then dbRun env ?c (snd p2) else (?c, snd p2))" unfolding p3_def by (simp only: if_True not_False_eq_True)
    show ?thesis unfolding e by (rule dbOk_if [OF dbOk_run]) (use oc in \<open>simp_all only: fst_conv\<close>)
  qed
  then have o4: "dbOk (kFlush OR kWake) (fst p4)" unfolding p4_def by (intro dbOk_if dbOk_run dbOk_status(2))
  show ?thesis
  proof (cases "dbStatus (fst p4) AND kRun = 0")
    case True
    then show ?thesis using dbOk_status(3) [OF o4, of 0] unfolding c dbInv_ok by (simp add: and.assoc)
  next
    case False
    then show ?thesis using o4 unfolding c dbInv_ok by simp
  qed
qed

section \<open>Any sequence of operations\<close>

datatype db_op = DbWrite u32 u32 nat | DbWake | DbClearIrq | DbStamp "u64 option" u64

fun dbOp :: "'w dma_env \<Rightarrow> db_op \<Rightarrow> dbdma \<times> 'w \<Rightarrow> dbdma \<times> 'w" where
  "dbOp env (DbWrite off v len) s = dbWrite env off v len (fst s) (snd s)"
| "dbOp env DbWake s = dbWake env (fst s) (snd s)"
| "dbOp env DbClearIrq s = ((fst s)\<lparr>dbIrq := False\<rparr>, snd s)"
| "dbOp env (DbStamp t since) s = ((fst s)\<lparr>dbStamp := t, dbLogFrom := since\<rparr>, snd s)"

lemma dbInv_wake: "dbInv ch \<Longrightarrow> dbInv (fst (dbWake env ch w))"
  using dbOk_run [of ch env w] dbKeepsD(1) [OF dbRun_keeps [of ch env w]] by (auto simp: dbWake_def dbInv_ok)

lemma dbInv_write: "dbInv ch \<Longrightarrow> dbInv (fst (dbWrite env off v len ch w))"
proof -
  assume i: "dbInv ch"
  then have "dbInv (dbNote 6 (dbMerge off v len ch) (dbStatus ch) ch)" by (simp add: dbInv_def dbNote_log)
  moreover have "dbInv (ch\<lparr>dbCmdPtr := x AND NOT 15\<rparr>)" "dbInv (ch\<lparr>dbIntSel := x\<rparr>)" "dbInv (ch\<lparr>dbBrSel := x\<rparr>)" "dbInv (ch\<lparr>dbWaitSel := x\<rparr>)" for x
    using i by (simp_all add: dbInv_def and.assoc)
  ultimately show ?thesis using i by (simp add: dbWrite_def Let_def dbInv_control)
qed

lemma dbInv_op: "dbInv (fst s) \<Longrightarrow> dbInv (fst (dbOp env x s))"
  by (cases x) (simp_all add: dbInv_write dbInv_wake, simp_all add: dbInv_def)

text \<open>
  C31. However the guest writes the channel's registers, at whatever width, and the devices wake it,
  whatever the descriptors in memory and the devices answer: the command pointer stays aligned to
  a descriptor, the flush and wake requests are consumed by the write that makes them, a channel
  that is not running is neither active nor inside a descriptor, and the log stays within its cap.
\<close>

theorem dbdma_invariant: "dbInv (fst (fold (dbOp env) ops (initDbdma, w)))"
proof -
  have "dbInv (fst s) \<Longrightarrow> dbInv (fst (fold (dbOp env) ops s))" for s
    by (induction ops arbitrary: s) (simp_all add: dbInv_op)
  then show ?thesis by (simp add: dbInv_def initDbdma_def)
qed

section \<open>Two programs that go wrong\<close>

text \<open>An output descriptor with an empty request never finishes: the engine takes the zero bytes moved
  for a device that is not ready, returns without writing the status word, and every wake repeats it.\<close>

lemma empty_output_parks:
  assumes "drop_bit 28 w0 = 0 \<or> drop_bit 28 w0 = 1" "w0 AND 0xFFFF = 0" "dbXferDone ch = 0" "hasDev env" "dmaWriteSink env w"
    and "dmaGive env [] (dmSnoopRead env addr 0 w) = (0, w1)"
  shows "dbExec env w0 addr ch w = (OReturn, (dbNote 2 addr 0 ch)\<lparr>dbXferDone := 0\<rparr>, w1)"
  using assms by (auto simp: dbExec_def opOutput_def Let_def)

text \<open>Setting RUN and WAKE together runs the list twice, the second time from the head of the
  descriptor the first run left unfinished.\<close>

lemma run_and_wake_runs_twice:
  assumes "dbInv ch" "dbStatus ch AND kRun = 0"
  shows "\<exists>c0. dbStatus c0 AND kRun \<noteq> 0 \<and> dbCmdPtr c0 = dbCmdPtr ch \<and>
    dbControl env 0x90009000 ch w = (let (c1, w1) = dbRun env c0 w;
        (c2, w2) = dbRun env (c1\<lparr>dbStatus := (dbStatus c1 AND NOT kDead) OR kActive, dbXferDone := 0\<rparr>) w1
      in if dbStatus c2 AND kRun = 0 then (c2\<lparr>dbStatus := dbStatus c2 AND NOT kActive, dbXferDone := 0\<rparr>, w2) else (c2, w2))"
proof -
  have "dbStatus ch AND (kFlush OR kWake) = 0" using assms(1) unfolding dbInv_def by blast
  then have z: "dbStatus ch AND kFlush = 0" unfolding and_two by simp
  let ?s = "(dbStatus ch AND NOT 0x9000) OR 0x9000 :: u32"
  let ?c1 = "(dbNote 0 0x90009000 ?s (ch\<lparr>dbStatus := ?s\<rparr>))\<lparr>dbIrq := False\<rparr>"
  let ?c0 = "?c1\<lparr>dbStatus := ?s AND NOT kWake\<rparr>"
  have s: "?s AND kFlush = 0" "?s AND kWake = kWake" "(?s AND NOT kWake) AND kRun = kRun"
    using z by (simp_all add: bit.conj_disj_distrib2 and.assoc)
  obtain c1 w1 where r: "dbRun env ?c0 w = (c1, w1)" by fastforce
  have k: "dbStatus c1 AND kRun \<noteq> 0" using dbKeepsD(1) [OF dbRun_keeps [of ?c0 env w]] s(3) r by simp
  have "dbControl env 0x90009000 ch w = (let (c2, w2) = dbRun env (c1\<lparr>dbStatus := (dbStatus c1 AND NOT kDead) OR kActive, dbXferDone := 0\<rparr>) w1
      in if dbStatus c2 AND kRun = 0 then (c2\<lparr>dbStatus := dbStatus c2 AND NOT kActive, dbXferDone := 0\<rparr>, w2) else (c2, w2))"
    using assms(2) s r k by (simp add: dbControl_def Let_def)
  then show ?thesis using r s(3) by (intro exI [of _ ?c0]) simp
qed

end
