(* ===== verification/DmaMaster.thy ===== *)
theory DmaMaster
  imports DbdmaInv CacheProps
begin

text \<open>
  What the DMA engine delivers. The contract \<open>bus_master\<close> is what the channel needs of the bus it
  drives: snooping before a transfer takes the range out of the caches without changing what the
  program sees, and single beats to memory no cache holds read and write what the program sees. Under it
  a list of input descriptors puts the device's bytes where the program reads them. The contract holds
  of the processor with its caches on \<^verbatim>\<open>FlatBus\<close>, wired by \<^verbatim>\<open>CpuSnoop\<close> of \<^verbatim>\<open>core/src/cache.cpp\<close>.
\<close>

section \<open>Memory as the engine reads it\<close>

definition beWord :: "(u32 \<Rightarrow> u8) \<Rightarrow> u32 \<Rightarrow> u32" where
  "beWord m p = push_bit 24 (ucast (m p)) OR push_bit 16 (ucast (m (p + 1))) OR push_bit 8 (ucast (m (p + 2))) OR ucast (m (p + 3))"

definition leWord :: "(u32 \<Rightarrow> u8) \<Rightarrow> u32 \<Rightarrow> u32" where
  "leWord m p = swap32 (beWord m p)"

definition storeAt :: "u32 \<Rightarrow> u8 list \<Rightarrow> (u32 \<Rightarrow> u8) \<Rightarrow> u32 \<Rightarrow> u8" where
  "storeAt pa bs m = (\<lambda>a. if unat (a - pa) < length bs then bs ! unat (a - pa) else m a)"

lemma storeAt_Cons:
  assumes "length (b # bs) \<le> 2 ^ 32"
  shows "storeAt pa (b # bs) m = storeAt (pa + 1) bs (m(pa := b))"
proof (rule ext)
  fix a :: u32
  define k where "k = a - pa"
  have k1: "a - (pa + 1) = k - 1" and e: "a = pa \<longleftrightarrow> k = 0" by (simp_all add: k_def)
  show "storeAt pa (b # bs) m a = storeAt (pa + 1) bs (m(pa := b)) a"
  proof (cases "k = 0")
    case True
    have "unat (- 1 :: u32) = 4294967295" by (simp add: unsigned_minus_1_eq_mask mask_eq_exp_minus_1)
    then have "\<not> unat (k - 1) < length bs" using assms True by simp
    then show ?thesis using True e by (simp add: storeAt_def k1 k_def [symmetric])
  next
    case False
    then have "unat (k - 1) = unat k - 1" "unat k \<noteq> 0" by (simp_all add: unat_minus_one unat_eq_0)
    then show ?thesis using False e by (cases "unat k") (auto simp: storeAt_def k1 k_def [symmetric])
  qed
qed

lemma storeAt_off: "(\<And>j. j < length bs \<Longrightarrow> a \<noteq> pa + of_nat j) \<Longrightarrow> storeAt pa bs m a = m a"
proof -
  assume n: "\<And>j. j < length bs \<Longrightarrow> a \<noteq> pa + of_nat j"
  have "\<not> unat (a - pa) < length bs" using n [of "unat (a - pa)"] by auto
  then show ?thesis by (simp add: storeAt_def)
qed

lemma storeBE_off: "(\<And>j. j < n \<Longrightarrow> a \<noteq> pa + of_nat j) \<Longrightarrow> storeBE pa n v m a = m a"
proof -
  assume n: "\<And>j. j < n \<Longrightarrow> a \<noteq> pa + of_nat j"
  have "\<not> unat (a - pa) < n" using n [of "unat (a - pa)"] by auto
  then show ?thesis by (simp add: storeBE_def)
qed

section \<open>Lists of input descriptors\<close>

text \<open>A transfer is its command word and its address. \<open>programAt\<close>: memory holds the list and a STOP.\<close>

definition inputCmd :: "u32 \<Rightarrow> bool" where
  "inputCmd w0 \<longleftrightarrow> (drop_bit 28 w0 = 2 \<or> drop_bit 28 w0 = 3) \<and> drop_bit 18 w0 AND 3 = 0 \<and> w0 AND 0xFFFF \<noteq> 0"

fun programAt :: "(u32 \<Rightarrow> u8) \<Rightarrow> u32 \<Rightarrow> (u32 \<times> u32) list \<Rightarrow> bool" where
  "programAt m p [] = (drop_bit 28 (leWord m p) = 7)"
| "programAt m p ((w0, a) # xs) = (leWord m p = w0 \<and> leWord m (p + 4) = a \<and> programAt m (p + 16) xs)"

text \<open>What the device hands over, transfer by transfer, and that each is filled.\<close>

fun supplied :: "(u32 \<Rightarrow> 'd \<Rightarrow> u8 list \<times> 'd) \<Rightarrow> (u32 \<times> u32) list \<Rightarrow> 'd \<Rightarrow> u8 list list \<times> 'd" where
  "supplied s [] d = ([], d)"
| "supplied s ((w0, a) # xs) d =
     (case s (w0 AND 0xFFFF) d of (bs, d1) \<Rightarrow> case supplied s xs d1 of (bss, d2) \<Rightarrow> (bs # bss, d2))"

definition filled :: "(u32 \<times> u32) list \<Rightarrow> u8 list list \<Rightarrow> bool" where
  "filled xs bss \<longleftrightarrow> list_all2 (\<lambda>(w0, a) bs. length bs = unat (w0 AND 0xFFFF)) xs bss"

text \<open>Memory afterwards: every transfer's bytes at its address and, in its descriptor, the status
  word: done, nothing residual.\<close>

fun delivered :: "(u32 \<Rightarrow> u8) \<Rightarrow> u32 \<Rightarrow> (u32 \<times> u32) list \<Rightarrow> u8 list list \<Rightarrow> u32 \<Rightarrow> u8" where
  "delivered m p ((w0, a) # xs) (bs # bss) = delivered (storeBE (p + 12) 4 0x84 (storeAt a bs m)) (p + 16) xs bss"
| "delivered m p _ _ = m"

text \<open>The list and the buffers lie in memory, the buffers outside the list.\<close>

definition placed :: "u32 set \<Rightarrow> u32 \<Rightarrow> (u32 \<times> u32) list \<Rightarrow> bool" where
  "placed M p xs \<longleftrightarrow> p AND 15 = 0 \<and> length xs < 65536 \<and> (\<forall>i < 16 * (length xs + 1). p + of_nat i \<in> M) \<and>
     (\<forall>(w0, a) \<in> set xs. inputCmd w0 \<and> unat a + unat (w0 AND 0xFFFF) \<le> 2 ^ 32 \<and>
        (\<forall>j < unat (w0 AND 0xFFFF). a + of_nat j \<in> M \<and> (\<forall>i < 16 * (length xs + 1). a + of_nat j \<noteq> p + of_nat i)))"

lemma leWord_cong: "(\<And>i. i < 4 \<Longrightarrow> m' (p + of_nat i) = m (p + of_nat i)) \<Longrightarrow> leWord m' p = leWord m p"
proof -
  assume e: "\<And>i. i < 4 \<Longrightarrow> m' (p + of_nat i) = m (p + of_nat i)"
  show ?thesis using e [of 0] e [of 1] e [of 2] e [of 3] by (simp add: leWord_def beWord_def)
qed

lemma programAt_cong:
  "(\<And>i. i < 16 * (length xs + 1) \<Longrightarrow> m' (p + of_nat i) = m (p + of_nat i)) \<Longrightarrow> programAt m' p xs = programAt m p xs"
proof (induction xs arbitrary: p)
  case Nil
  then show ?case using leWord_cong [of m' p m] by simp
next
  case (Cons x xs)
  have "leWord m' p = leWord m p" using Cons.prems by (intro leWord_cong) simp
  moreover have "leWord m' (p + 4) = leWord m (p + 4)" using Cons.prems [of "i + 4" for i] by (intro leWord_cong) (simp add: ac_simps)
  moreover have "programAt m' (p + 16) xs = programAt m (p + 16) xs"
    using Cons.prems [of "i + 16" for i] by (intro Cons.IH) (simp add: ac_simps)
  ultimately show ?case by (cases x) simp
qed

lemma delivered_cong: "m x = m' x \<Longrightarrow> delivered m p xs bss x = delivered m' p xs bss x"
proof (induction m p xs bss arbitrary: m' rule: delivered.induct)
  case (1 m p w0 a xs bs bss)
  show ?case unfolding delivered.simps by (rule 1(1)) (simp only: storeBE_def storeAt_def 1(2))
qed (simp_all only: delivered.simps)

lemma placed_tail: "placed M p (x # xs) \<Longrightarrow> placed M (p + 16) xs"
proof -
  assume p: "placed M p (x # xs)"
  have i: "p + 16 + of_nat i = p + of_nat (i + 16)" for i by simp
  have t: "j + 16 < 16 * (length (x # xs) + 1)" if "j < 16 * (length xs + 1)" for j using that by simp
  have 1: "(p + 16) AND 15 = 0" "length xs < 65536" using p aligned16_step [of p] by (simp_all add: placed_def)
  have 2: "\<forall>j < 16 * (length xs + 1). p + 16 + of_nat j \<in> M"
    unfolding i using p t unfolding placed_def by blast
  have 3: "inputCmd w0 \<and> unat a + unat (w0 AND 0xFFFF) \<le> 2 ^ 32 \<and>
      (\<forall>j < unat (w0 AND 0xFFFF). a + of_nat j \<in> M \<and> (\<forall>i < 16 * (length xs + 1). a + of_nat j \<noteq> p + 16 + of_nat i))"
    if x: "(w0, a) \<in> set xs" for w0 a
  proof -
    have q: "inputCmd w0 \<and> unat a + unat (w0 AND 0xFFFF) \<le> 2 ^ 32 \<and>
      (\<forall>j < unat (w0 AND 0xFFFF). a + of_nat j \<in> M \<and> (\<forall>i < 16 * (length (x # xs) + 1). a + of_nat j \<noteq> p + of_nat i))"
      using p x unfolding placed_def by auto
    then show ?thesis unfolding i using t by blast
  qed
  show ?thesis unfolding placed_def using 1 2 3 by auto
qed

section \<open>The contract\<close>

text \<open>The world after an access: what is seen at each address, and the state of the device.\<close>

definition settles :: "('w \<Rightarrow> bool) \<Rightarrow> ('w \<Rightarrow> u32 \<Rightarrow> u8) \<Rightarrow> ('w \<Rightarrow> u32 \<Rightarrow> bool) \<Rightarrow> u32 set \<Rightarrow> ('w \<Rightarrow> 'd)
    \<Rightarrow> 'w \<Rightarrow> (u32 \<Rightarrow> u8) \<Rightarrow> 'd \<Rightarrow> 'w \<Rightarrow> bool" where
  "settles good see bare M dev w m d w' \<longleftrightarrow>
     good w' \<and> dev w' = d \<and> (\<forall>a \<in> M. see w' a = m a \<and> (bare w a \<longrightarrow> bare w' a))"

lemma settles_trans:
  assumes "settles good see bare M dev w m d w'" "settles good see bare M dev w' m' d' w''"
    and "\<And>a. a \<in> M \<Longrightarrow> m' a = m'' a"
  shows "settles good see bare M dev w m'' d' w''"
  using assms by (simp add: settles_def)

lemma settlesD:
  assumes "settles good see bare M dev w m d w'"
  shows "good w'" "dev w' = d" "a \<in> M \<Longrightarrow> see w' a = m a" "a \<in> M \<Longrightarrow> bare w a \<Longrightarrow> bare w' a"
  using assms by (simp_all add: settles_def)

text \<open>An input descriptor whose device fills it.\<close>

lemma opInput_full:
  assumes "hasDev env" "dbXferDone ch = 0" "dmaTake env req w = (bs, w1)" "of_nat (length bs) = req"
  shows "opInput env req addr ch w = (ODone req, (dbNote 2 addr req ch)\<lparr>dbXferDone := req\<rparr>,
    wr32le env (dbCmdPtr ch + 12) (statusWord 0) (storeBytes env addr bs (dmSnoopWrite env addr req w1)))"
  using assms by (simp add: opInput_def Let_def)

lemma swap_status: "swap32 (statusWord 0) = 0x84"
  by (simp add: swap32_def statusWord_def)

lemma cmd_length: "unat (w0 AND 0xFFFF :: u32) < 65536"
proof -
  have "unat (w0 AND mask 16) = unat w0 mod 2 ^ 16" by (rule unat_and_mask)
  then show ?thesis by (simp add: mask_eq_exp_minus_1)
qed

locale bus_master =
  fixes env :: "'w dma_env"
    and see :: "'w \<Rightarrow> u32 \<Rightarrow> u8"
    and bare :: "'w \<Rightarrow> u32 \<Rightarrow> bool"
    and good :: "'w \<Rightarrow> bool"
    and M :: "u32 set"
    and dev :: "'w \<Rightarrow> 'd"
    and gives :: "u32 \<Rightarrow> 'd \<Rightarrow> u8 list \<times> 'd"
  assumes attached: "hasBus env" "hasDev env"
    and snoop_write: "\<lbrakk>good w; 0 < n; pa \<le> pa + (n - 1); \<forall>j < unat n. pa + of_nat j \<in> M\<rbrakk>
      \<Longrightarrow> settles good see bare M dev w (see w) (dev w) (dmSnoopWrite env pa n w) \<and>
          (\<forall>j < unat n. bare (dmSnoopWrite env pa n w) (pa + of_nat j))"
    and write_8: "\<lbrakk>good w; pa \<in> M; bare w pa\<rbrakk>
      \<Longrightarrow> settles good see bare M dev w ((see w)(pa := b)) (dev w) (dmWrite8 env pa b w)"
    and write_32: "\<lbrakk>good w; \<forall>j < 4. pa + of_nat j \<in> M \<and> bare w (pa + of_nat j)\<rbrakk>
      \<Longrightarrow> settles good see bare M dev w (storeBE pa 4 (ucast v) (see w)) (dev w) (dmWrite32 env pa v w)"
    and read_32: "\<lbrakk>good w; \<forall>j < 4. pa + of_nat j \<in> M \<and> bare w (pa + of_nat j); dmRead32 env pa w = (v, w')\<rbrakk>
      \<Longrightarrow> settles good see bare M dev w (see w) (dev w) w' \<and> v = beWord (see w) pa"
    and take: "\<lbrakk>good w; dmaTake env n w = (bs, w')\<rbrakk>
      \<Longrightarrow> settles good see bare M dev w (see w) (snd (gives n (dev w))) w' \<and> bs = fst (gives n (dev w))"

context bus_master
begin

abbreviation after :: "'w \<Rightarrow> (u32 \<Rightarrow> u8) \<Rightarrow> 'd \<Rightarrow> 'w \<Rightarrow> bool" where
  "after \<equiv> settles good see bare M dev"

lemma after_stay: "after w m d w' \<Longrightarrow> after w' (see w') (dev w') w'' \<Longrightarrow> after w m d w''"
  by (simp add: settles_def)

lemma after_refl: "good w \<Longrightarrow> after w (see w) (dev w) w"
  by (simp add: settles_def)

lemma stored_bytes:
  assumes "good w" "length bs \<le> 2 ^ 32" "\<forall>j < length bs. pa + of_nat j \<in> M \<and> bare w (pa + of_nat j)"
  shows "after w (storeAt pa bs (see w)) (dev w) (storeBytes env pa bs w)"
  using assms
proof (induction bs arbitrary: pa w)
  case Nil
  then show ?case by (simp add: settles_def storeAt_def)
next
  case (Cons b bs)
  let ?w = "dmWrite8 env pa b w"
  have s: "after w ((see w)(pa := b)) (dev w) ?w" using Cons.prems by (intro write_8) auto
  have n: "pa + 1 + of_nat j = pa + of_nat (Suc j)" for j by simp
  have p: "pa + 1 + of_nat j \<in> M \<and> bare w (pa + 1 + of_nat j)" if "j < length bs" for j
    using Cons.prems(3) [rule_format, of "Suc j"] that unfolding n by (simp only: length_Cons Suc_less_eq)
  have "after ?w (storeAt (pa + 1) bs (see ?w)) (dev ?w) (storeBytes env (pa + 1) bs ?w)"
    using Cons.prems(2) p settlesD(4) [OF s] by (intro Cons.IH settlesD(1) [OF s]) auto
  then have "after w (storeAt pa (b # bs) (see w)) (dev ?w) (storeBytes env (pa + 1) bs ?w)"
    by (rule settles_trans [OF s]) (use settlesD(3) [OF s] Cons.prems(2) in \<open>simp add: storeAt_Cons\<close>, simp add: storeAt_def)
  then show ?case using settlesD(2) [OF s] by simp
qed

lemma read_le:
  assumes "good w" "\<forall>j < 4. pa + of_nat j \<in> M \<and> bare w (pa + of_nat j)" "rd32le env pa w = (v, w')"
  shows "after w (see w) (dev w) w'" "v = leWord (see w) pa"
proof -
  obtain x w1 where r: "dmRead32 env pa w = (x, w1)" by fastforce
  show "after w (see w) (dev w) w'" "v = leWord (see w) pa"
    using read_32 [OF assms(1,2) r] assms(3) r by (simp_all add: rd32le_def leWord_def)
qed

text \<open>Fetching a descriptor.\<close>

lemma fetched:
  assumes "good w" "placed M p xs" "rd32le env p (dmSnoopWrite env p 16 w) = (w0, wb)" "rd32le env (p + 4) wb = (a, wc)"
  shows "after w (see w) (dev w) wc" "w0 = leWord (see w) p" "a = leWord (see w) (p + 4)"
    "\<forall>j < 16. p + of_nat j \<in> M \<and> bare wc (p + of_nat j)"
proof -
  let ?s = "dmSnoopWrite env p 16 w"
  have al: "p AND 15 = 0" and M: "\<forall>j < 16. p + of_nat j \<in> M" using assms(2) by (auto simp: placed_def)
  have "p \<le> p + 15"
  proof -
    have "p AND mask 4 = 0" using al by (simp add: mask_eq_exp_minus_1)
    then have "unat p mod 16 = 0" using unat_and_mask [of p 4] by simp
    moreover have "unat p < 4294967296" using unsigned_less [of p, where ?'a = nat] by simp
    ultimately have "unat p + 15 < 2 ^ 32" by (simp, presburger)
    then show ?thesis by (simp add: word_le_nat_alt unat_word_ariths)
  qed
  then have s: "after w (see w) (dev w) ?s" "\<forall>j < 16. bare ?s (p + of_nat j)"
    using snoop_write [OF assms(1), of 16 p] M by simp_all
  have m: "\<forall>j < 4. p + of_nat j \<in> M \<and> bare ?s (p + of_nat j)" using M s(2) by simp
  note b = read_le [OF settlesD(1) [OF s(1)] m assms(3)]
  have e: "p + 4 + of_nat j = p + of_nat (j + 4)" for j by simp
  have mb: "p + of_nat j \<in> M \<and> bare wb (p + of_nat j)" if "j < 16" for j using settlesD(4) [OF b(1)] M s(2) that by simp
  have "p + 4 + of_nat j \<in> M \<and> bare wb (p + 4 + of_nat j)" if "j < 4" for j unfolding e by (rule mb) (use that in simp)
  then have m4: "\<forall>j < 4. p + 4 + of_nat j \<in> M \<and> bare wb (p + 4 + of_nat j)" by blast
  have gb: "after w (see w) (dev w) wb" by (rule after_stay [OF s(1) b(1)])
  note c = read_le [OF settlesD(1) [OF gb] m4 assms(4)]
  have q: "p + 4 + of_nat j \<in> M" if "j < 4" for j using m4 that by blast
  show "after w (see w) (dev w) wc" by (rule after_stay [OF gb c(1)])
  show "w0 = leWord (see w) p" unfolding b(2) by (rule leWord_cong) (use settlesD(3) [OF s(1)] M in simp)
  show "a = leWord (see w) (p + 4)" unfolding c(2) by (rule leWord_cong) (use settlesD(3) [OF gb] q in simp)
  show "\<forall>j < 16. p + of_nat j \<in> M \<and> bare wc (p + of_nat j)" using settlesD(4) [OF c(1)] mb by simp
qed

lemma input_round:
  assumes w: "good w" and pl: "placed M p ((w0, a) # xs)" and m: "leWord (see w) p = w0" "leWord (see w) (p + 4) = a"
    and g: "gives (w0 AND 0xFFFF) (dev w) = (bs, d1)" "length bs = unat (w0 AND 0xFFFF)"
    and ch: "dbCmdPtr ch = p" "dbXferDone ch = 0"
  shows "\<exists>ch1 w1. dbRound env idle ch w = (True, 0, ch1, w1) \<and> after w (storeBE (p + 12) 4 0x84 (storeAt a bs (see w))) d1 w1 \<and>
    dbCmdPtr ch1 = p + 16 \<and> dbXferDone ch1 = 0 \<and> dbStatus ch1 = dbStatus ch \<and> dbIrq ch1 = (dbIrq ch \<or> drop_bit 20 w0 AND 3 \<noteq> 0)"
proof -
  let ?req = "w0 AND 0xFFFF"
  obtain v0 wb where r0: "rd32le env p (dmSnoopWrite env p 16 w) = (v0, wb)" by fastforce
  obtain v1 wc where r1: "rd32le env (p + 4) wb = (v1, wc)" by fastforce
  note f = fetched [OF w pl r0 r1]
  have v: "v0 = w0" "v1 = a" using f(2,3) m by simp_all
  have cmd: "inputCmd w0" and wrap: "unat a + unat ?req \<le> 2 ^ 32" and buf: "\<forall>j < unat ?req. a + of_nat j \<in> M"
    using pl unfolding placed_def by auto
  have req0: "0 < ?req" using cmd by (auto simp: inputCmd_def word_gt_0)
  obtain bs' wd where tk: "dmaTake env ?req wc = (bs', wd)" by fastforce
  have t: "after wc (see wc) d1 wd" "bs' = bs" using take [OF settlesD(1) [OF f(1)] tk] settlesD(2) [OF f(1)] g(1) by simp_all
  let ?e = "dmSnoopWrite env a ?req wd"
  let ?f = "storeBytes env a bs ?e"
  let ?g = "wr32le env (p + 12) (statusWord 0) ?f"
  have le: "a \<le> a + (?req - 1)"
  proof -
    have u: "unat (?req - 1) = unat ?req - 1" by (rule unat_minus_one) (use req0 in auto)
    moreover have "0 < unat ?req" using req0 by (simp add: word_less_nat_alt)
    ultimately have "unat a + unat (?req - 1) < 2 ^ 32" using wrap by linarith
    then show ?thesis by (simp add: word_le_nat_alt unat_word_ariths)
  qed
  have s: "after wd (see wd) (dev wd) ?e" "\<forall>j < unat ?req. bare ?e (a + of_nat j)"
    using snoop_write [OF settlesD(1) [OF t(1)] req0 le buf] by simp_all
  have "\<forall>j < length bs. a + of_nat j \<in> M \<and> bare ?e (a + of_nat j)" "length bs \<le> 2 ^ 32"
    using buf s(2) g(2) cmd_length [of w0] by simp_all
  then have f': "after ?e (storeAt a bs (see ?e)) (dev ?e) ?f" using stored_bytes [OF settlesD(1) [OF s(1)]] by simp
  have wd: "after w (see w) d1 wd" by (rule settles_trans [OF f(1) t(1)]) (rule settlesD(3) [OF f(1)])
  have we: "after w (see w) d1 ?e" by (rule after_stay [OF wd s(1)])
  have wf0: "after w (storeAt a bs (see w)) (dev ?e) ?f"
    by (rule settles_trans [OF we f']) (use settlesD(3) [OF we] in \<open>simp add: storeAt_def\<close>)
  then have wf: "after w (storeAt a bs (see w)) d1 ?f" using settlesD(2) [OF we] by simp
  have p12: "p + 12 + of_nat j = p + of_nat (j + 12)" for j by simp
  have d: "p + of_nat j \<in> M \<and> bare ?f (p + of_nat j)" if "j < 16" for j
    using f(4) that settlesD(4) [OF t(1)] settlesD(4) [OF s(1)] settlesD(4) [OF f'] by blast
  have "p + 12 + of_nat j \<in> M \<and> bare ?f (p + 12 + of_nat j)" if "j < 4" for j unfolding p12 by (rule d) (use that in simp)
  then have "\<forall>j < 4. p + 12 + of_nat j \<in> M \<and> bare ?f (p + 12 + of_nat j)" by blast
  then have g': "after ?f (storeBE (p + 12) 4 (ucast (0x84 :: u32)) (see ?f)) (dev ?f) ?g"
    unfolding wr32le_def swap_status using write_32 settlesD(1) [OF wf] by blast
  have "after w (storeBE (p + 12) 4 0x84 (storeAt a bs (see w))) (dev ?f) ?g"
    by (rule settles_trans [OF wf g']) (use settlesD(3) [OF wf] in \<open>simp add: storeBE_def\<close>)
  then have wg: "after w (storeBE (p + 12) 4 0x84 (storeAt a bs (see w))) d1 ?g" using settlesD(2) [OF wf] by simp
  let ?c = "dbNote 1 p w0 ch"
  have n: "(of_nat (length bs) :: u32) = ?req" using g(2) by simp
  have x: "dbExec env w0 a ?c wc = (ODone ?req, (dbNote 2 a ?req ?c)\<lparr>dbXferDone := ?req\<rparr>, ?g)"
    using cmd opInput_full [OF attached(2), of ?c ?req wc bs wd a] tk t(2) n ch
    unfolding dbExec_def inputCmd_def Let_def by auto
  have nt: "\<not> dbTake w0 c" for c
    using cmd unfolding dbTake_def inputCmd_def Let_def by auto
  let ?c2 = "((dbNote 2 a ?req ?c)\<lparr>dbXferDone := ?req\<rparr>)\<lparr>dbXferDone := 0, dbIrq := dbIrq ch \<or> drop_bit 20 w0 AND 3 \<noteq> 0\<rparr>"
  have "dbRound env idle ch w = (True, 0, ?c2\<lparr>dbCmdPtr := p + 16\<rparr>, ?g)"
    using req0 by (simp add: dbRound_def ch r0 r1 v x Let_def dbAdvance_def nt word_gt_0)
  then show ?thesis using wg by simp
qed

lemma stop_round:
  assumes "good w" "placed M p []" "drop_bit 28 (leWord (see w) p) = 7" "dbCmdPtr ch = p"
  shows "\<exists>idle1 ch1 w1. dbRound env idle ch w = (False, idle1, ch1, w1) \<and> after w (see w) (dev w) w1 \<and>
    dbCmdPtr ch1 = p \<and> dbXferDone ch1 = 0 \<and> dbStatus ch1 = dbStatus ch AND NOT kActive \<and> dbIrq ch1 = dbIrq ch"
proof -
  obtain v0 wb where r0: "rd32le env p (dmSnoopWrite env p 16 w) = (v0, wb)" by fastforce
  obtain v1 wc where r1: "rd32le env (p + 4) wb = (v1, wc)" by fastforce
  note f = fetched [OF assms(1,2) r0 r1]
  have "drop_bit 28 v0 = 7" using f(2) assms(3) by simp
  then show ?thesis using f(1) by (simp add: dbRound_def assms(4) r0 r1 dbExec_def Let_def)
qed

text \<open>The whole list.\<close>

lemma list_delivered:
  assumes "good w" "placed M p xs" "programAt (see w) p xs" "supplied gives xs (dev w) = (bss, d)" "filled xs bss"
    and "dbCmdPtr ch = p" "dbXferDone ch = 0" "dbStatus ch AND kRun \<noteq> 0" "length xs < n"
  shows "\<exists>ch1 w1. dbLoop env n idle ch w = (ch1, w1) \<and> after w (delivered (see w) p xs bss) d w1 \<and>
    dbCmdPtr ch1 = p + 16 * of_nat (length xs) \<and> dbXferDone ch1 = 0 \<and> dbStatus ch1 = dbStatus ch AND NOT kActive \<and>
    dbIrq ch1 = (dbIrq ch \<or> (\<exists>(w0, a) \<in> set xs. drop_bit 20 w0 AND 3 \<noteq> 0))"
  using assms
proof (induction xs arbitrary: p ch w bss n idle)
  case Nil
  obtain k where n: "n = Suc k" using Nil.prems(9) by (cases n) auto
  show ?case using stop_round [OF Nil.prems(1,2) _ Nil.prems(6), of idle] Nil.prems by (auto simp: n)
next
  case (Cons x xs)
  obtain w0 a where x: "x = (w0, a)" by fastforce
  obtain k where n: "n = Suc k" "length xs < k" using Cons.prems(9) by (cases n) auto
  obtain bs d1 where g: "gives (w0 AND 0xFFFF) (dev w) = (bs, d1)" by fastforce
  obtain rest d2 where sup: "supplied gives xs d1 = (rest, d2)" by fastforce
  have b: "bss = bs # rest" "d2 = d" using Cons.prems(4) by (simp_all add: x g sup)
  have fl: "length bs = unat (w0 AND 0xFFFF)" "filled xs rest" using Cons.prems(5) by (simp_all add: filled_def x b)
  let ?m = "storeBE (p + 12) 4 0x84 (storeAt a bs (see w))"
  have m: "leWord (see w) p = w0" "leWord (see w) (p + 4) = a" "programAt (see w) (p + 16) xs" using Cons.prems(3) by (simp_all add: x)
  obtain ch1 w1 where r: "dbRound env idle ch w = (True, 0, ch1, w1)" "after w ?m d1 w1" "dbCmdPtr ch1 = p + 16"
      "dbXferDone ch1 = 0" "dbStatus ch1 = dbStatus ch" "dbIrq ch1 = (dbIrq ch \<or> drop_bit 20 w0 AND 3 \<noteq> 0)"
    using input_round [OF Cons.prems(1) _ m(1,2) g fl(1) Cons.prems(6,7)] Cons.prems(2) x by blast
  have q: "\<forall>j < unat (w0 AND 0xFFFF). a + of_nat j \<in> M \<and> (\<forall>i < 16 * (length (x # xs) + 1). a + of_nat j \<noteq> p + of_nat i)"
    using Cons.prems(2) x unfolding placed_def by auto
  have out: "?m (p + 16 + of_nat i) = see w (p + 16 + of_nat i) \<and> p + 16 + of_nat i \<in> M" if i: "i < 16 * (length xs + 1)" for i
  proof -
    have e: "p + 16 + of_nat i = p + of_nat (i + 16)" by simp
    have i': "i + 16 < 16 * (length (x # xs) + 1)" "i + 16 < 2 ^ 32" using i Cons.prems(2) by (simp_all add: placed_def)
    have ne: "p + of_nat (i + 16) \<noteq> a + of_nat j" if "j < length bs" for j
      using q [rule_format, of j] i'(1) that fl(1) by metis
    have "(of_nat (i + 16) :: u32) \<noteq> of_nat (12 + j)" if "j < 4" for j
    proof
      assume "(of_nat (i + 16) :: u32) = of_nat (12 + j)"
      then have "unat (of_nat (i + 16) :: u32) = unat (of_nat (12 + j) :: u32)" by (rule arg_cong)
      then have "i + 16 = 12 + j" using i'(2) that by (simp only: unat_of_nat) simp
      then show False using that by simp
    qed
    then have "p + of_nat (i + 16) \<noteq> p + 12 + of_nat j" if "j < 4" for j using that by (simp add: add.assoc)
    then have "?m (p + of_nat (i + 16)) = storeAt a bs (see w) (p + of_nat (i + 16))" by (rule storeBE_off)
    also have "\<dots> = see w (p + of_nat (i + 16))" using ne by (rule storeAt_off)
    finally show ?thesis unfolding e using Cons.prems(2) i'(1) unfolding placed_def by blast
  qed
  have pr: "programAt (see w1) (p + 16) xs"
    using m(3) programAt_cong [of xs "see w1" "p + 16" "see w"] settlesD(3) [OF r(2)] out by simp
  have s1: "supplied gives xs (dev w1) = (rest, d)" using sup b(2) settlesD(2) [OF r(2)] by simp
  have ru: "dbStatus ch1 AND kRun \<noteq> 0" using r(5) Cons.prems(8) by simp
  obtain ch2 w2 where l: "dbLoop env k 0 ch1 w1 = (ch2, w2)" "after w1 (delivered (see w1) (p + 16) xs rest) d w2"
      "dbCmdPtr ch2 = p + 16 + 16 * of_nat (length xs)" "dbXferDone ch2 = 0" "dbStatus ch2 = dbStatus ch1 AND NOT kActive"
      "dbIrq ch2 = (dbIrq ch1 \<or> (\<exists>(w0, a) \<in> set xs. drop_bit 20 w0 AND 3 \<noteq> 0))"
    using Cons.IH [OF settlesD(1) [OF r(2)] placed_tail [OF Cons.prems(2)] pr s1 fl(2) r(3,4) ru n(2), of 0] by blast
  have "after w (delivered ?m (p + 16) xs rest) d w2"
    by (rule settles_trans [OF r(2) l(2)]) (rule delivered_cong, rule settlesD(3) [OF r(2)])
  moreover have "dbLoop env n idle ch w = (ch2, w2)" using r(1) l(1) Cons.prems(8) by (simp add: n)
  ultimately show ?case using l(3-6) r(5,6) by (auto simp: x b(1))
qed

end

end
