(* ===== verification/DmaFlat.thy ===== *)
theory DmaFlat
  imports DmaMaster
begin

text \<open>
  The channel on the processor's own bus: \<^verbatim>\<open>dmaBus\<close> is the bus the processor is attached to, and its
  snoop sink is \<^verbatim>\<open>CpuSnoop\<close> (\<^verbatim>\<open>core/src/cache.cpp\<close>). The contract of \<open>DmaMaster\<close> holds on every bus that is
  memory on a region, so it holds on \<^verbatim>\<open>FlatBus\<close>, and a driver that builds a list of input
  descriptors and sets RUN finds the device's bytes in its buffers.
\<close>

section \<open>The wiring\<close>

definition snoopRead :: "u32 \<Rightarrow> u32 \<Rightarrow> 'b cpu \<Rightarrow> 'b cpu" where
  "snoopRead pa len = snoopPush pa len False"

definition snoopWrite :: "u32 \<Rightarrow> u32 \<Rightarrow> 'b cpu \<Rightarrow> 'b cpu" where
  "snoopWrite pa len = snoopPush pa len True"

text \<open>A device with an input side only: what \<^verbatim>\<open>dmaTake\<close> answers is the argument \<open>gives\<close>.\<close>

definition cpuDma :: "(u32 \<Rightarrow> 'd \<Rightarrow> u8 list \<times> 'd) \<Rightarrow> ('b cpu \<times> 'd) dma_env" where
  "cpuDma gives = \<lparr>hasBus = True,
     dmRead8 = (\<lambda>pa (c, d). case busRead8 pa c of (v, c1) \<Rightarrow> (v, (c1, d))),
     dmRead32 = (\<lambda>pa (c, d). case busRead32 pa c of (v, c1) \<Rightarrow> (v, (c1, d))),
     dmWrite8 = (\<lambda>pa v (c, d). (busWrite8 pa v c, d)),
     dmWrite16 = (\<lambda>pa v (c, d). (busWrite16 pa v c, d)),
     dmWrite32 = (\<lambda>pa v (c, d). (busWrite32 pa v c, d)),
     dmSnoopRead = (\<lambda>pa n (c, d). (snoopRead pa n c, d)),
     dmSnoopWrite = (\<lambda>pa n (c, d). (snoopWrite pa n c, d)),
     hasDev = True,
     dmaTake = (\<lambda>n (c, d). case gives n d of (bs, d1) \<Rightarrow> (bs, (c, d1))),
     dmaGive = (\<lambda>bs w. (0, w)),
     dmaWriteSink = (\<lambda>w. False),
     dmaStreams = (\<lambda>w. False)\<rparr>"

definition dmaSee :: "('b \<Rightarrow> u32 \<Rightarrow> u8) \<Rightarrow> 'b cpu \<times> 'd \<Rightarrow> u32 \<Rightarrow> u8" where
  "dmaSee mem w = view mem (fst w)"

definition dmaBare :: "'b cpu \<times> 'd \<Rightarrow> u32 \<Rightarrow> bool" where
  "dmaBare w a \<longleftrightarrow> l1At (fst w) (blk a) = None \<and> l2At (fst w) (blk a) = None"

definition dmaGood :: "'b bus_vt \<Rightarrow> ('b \<Rightarrow> u32 \<Rightarrow> u8) \<Rightarrow> ('b \<Rightarrow> bool) \<Rightarrow> u32 set \<Rightarrow> 'b cpu \<times> 'd \<Rightarrow> bool" where
  "dmaGood vt mem good R w \<longleftrightarrow>
     coherent vt mem good R (fst w) \<and> (dceOn (fst w) \<or> (\<forall>A \<in> R. l1At (fst w) A = None))"

definition dmaMem :: "u32 set \<Rightarrow> u32 set" where
  "dmaMem R = {a. blk a \<in> R}"

lemma bare_view: "dmaBare w a \<Longrightarrow> dmaSee mem w a = mem (busSt (fst w)) a"
  by (simp add: dmaBare_def dmaSee_def view_def viewAt_def belowAt_def blk_off)

lemma in_run:
  fixes a pa :: u32
  assumes "\<forall>j < n. P (pa + of_nat j)" "unat (a - pa) < n"
  shows "P a"
  using assms(1) [rule_format, OF assms(2)] by simp

section \<open>The laws\<close>

context mem_bus
begin

text \<open>A single beat past the caches to addresses no cache holds.\<close>

lemma bus_beat:
  fixes w :: "'b cpu \<times> 'd" and d :: 'd and q :: bool
  assumes g: "dmaGood vt mem good R w" and b: "good b"
    and T: "\<And>a. a \<in> T \<Longrightarrow> blk a \<in> R \<and> dmaBare w a" "\<And>a. mem b a = (if a \<in> T then v a else mem (busSt (fst w)) a)"
  defines "w' \<equiv> ((fst w)\<lparr>busSt := b, batchBreak := q\<rparr>, d)"
  shows "settles (dmaGood vt mem good R) (dmaSee mem) dmaBare (dmaMem R) snd w
    (\<lambda>a. if a \<in> T then v a else dmaSee mem w a) d w'"
proof -
  let ?c = "fst w" and ?c' = "fst w'"
  have s: "l1At ?c' = l1At ?c" "wfL1 R ?c' = wfL1 R ?c" "l2At ?c' = l2At ?c" "dceOn ?c' = dceOn ?c" "l2Synced ?c' = l2Synced ?c"
    using l1At_cong(1) [of ?c' ?c] l1At_cong(2) [of ?c' ?c R] l2At_cong [of ?c' ?c] l2Synced_cong [of ?c' ?c] by (simp_all add: w'_def dceOn_def)
  have held: "mem b (A + k) = mem (busSt ?c) (A + k)" if "A \<in> R" "k < 32" "l1At ?c A \<noteq> None \<or> l2At ?c A \<noteq> None" for A k
    using T(1) [of "A + k"] that by (auto simp: T(2) dmaBare_def R_block_add)
  have c: "coherent vt mem good R ?c" using g by (simp add: dmaGood_def)
  have "wfCache vt good R ?c'" using c b s by (simp add: coherent_def wfCache_def w'_def)
  moreover have "cleanL1 mem R ?c'"
    using c held unfolding coherent_def cleanL1_def s belowAt_def by (auto simp: w'_def split: option.splits)
  moreover have "cleanL2 mem R ?c'"
  proof -
    have "\<forall>k < 32. x k = mem b (B + k)" if "B \<in> R" "l2At ?c B = Some (x, False)" for B x
      using c held [OF that(1)] that unfolding coherent_def cleanL2_def by auto
    then show ?thesis unfolding cleanL2_def s by (simp add: w'_def)
  qed
  ultimately have "dmaGood vt mem good R w'" using g by (simp add: dmaGood_def coherent_def s)
  moreover have bb: "dmaBare w' a = dmaBare w a" for a by (simp add: dmaBare_def s)
  moreover have "dmaSee mem w' a = (if a \<in> T then v a else dmaSee mem w a)" if a: "blk a \<in> R" for a
  proof (cases "dmaBare w a")
    case True
    then have "dmaSee mem w' a = mem b a" using bare_view [of w' a mem] bb by (simp add: w'_def)
    then show ?thesis using T(2) [of a] bare_view [OF True, of mem] by simp
  next
    case False
    then have "dmaSee mem w' a = dmaSee mem w a"
      using held [OF a off_less [of a]] unfolding dmaSee_def view_def viewAt_def belowAt_def s
      by (auto simp: w'_def dmaBare_def split: option.splits)
    then show ?thesis using False T(1) by auto
  qed
  ultimately show ?thesis by (auto simp: settles_def dmaMem_def w'_def)
qed

lemma beat_of:
  fixes w :: "'b cpu \<times> 'd"
  assumes "dmaGood vt mem good R w"
  shows "busVt (fst w) = vt" "good (busSt (fst w))"
  using assms by (simp_all add: dmaGood_def coherent_def wfCache_def)

lemma dma_write_8:
  fixes w :: "'b cpu \<times> 'd"
  assumes g: "dmaGood vt mem good R w" and "pa \<in> dmaMem R" "dmaBare w pa"
  shows "settles (dmaGood vt mem good R) (dmaSee mem) dmaBare (dmaMem R) snd w ((dmaSee mem w)(pa := b)) (snd w)
    (dmWrite8 (cpuDma gives) pa b w)"
proof -
  let ?c = "fst w"
  obtain u asked b' where v: "vwrite8 vt (tbNow ?c) pa b (busSt ?c) = (u, asked, b')" by (metis prod_cases3)
  have m: "inMem R pa 1" using assms(2) unfolding inMem_def addrs_eqs(1) by (simp add: dmaMem_def)
  note law = write_8 [OF beat_of(2) [OF g] m v]
  have e: "dmWrite8 (cpuDma gives) pa b w = (?c\<lparr>busSt := b', batchBreak := batchBreak ?c \<or> asked\<rparr>, snd w)"
    using v beat_of(1) [OF g] by (cases w) (simp add: cpuDma_def busWrite8_def busDo_def)
  have "settles (dmaGood vt mem good R) (dmaSee mem) dmaBare (dmaMem R) snd w
      (\<lambda>a. if a \<in> {pa} then b else dmaSee mem w a) (snd w) (dmWrite8 (cpuDma gives) pa b w)"
    unfolding e by (rule bus_beat [OF g conjunct1 [OF law]])
      (use assms law in \<open>auto simp: dmaMem_def storeBE_unfold(1) be_byte_ucast8 simp del: One_nat_def\<close>)
  then show ?thesis by (simp add: fun_upd_def)
qed

lemma dma_write_32:
  fixes w :: "'b cpu \<times> 'd"
  assumes g: "dmaGood vt mem good R w" and r: "\<forall>j < 4. pa + of_nat j \<in> dmaMem R \<and> dmaBare w (pa + of_nat j)"
  shows "settles (dmaGood vt mem good R) (dmaSee mem) dmaBare (dmaMem R) snd w (storeBE pa 4 (ucast v) (dmaSee mem w)) (snd w)
    (dmWrite32 (cpuDma gives) pa v w)"
proof -
  let ?c = "fst w"
  obtain u asked b' where x: "vwrite32 vt (tbNow ?c) pa v (busSt ?c) = (u, asked, b')" by (metis prod_cases3)
  have m: "inMem R pa 4" using r unfolding inMem_def addrs_def by (auto simp: dmaMem_def)
  note law = write_32 [OF beat_of(2) [OF g] m x]
  have e: "dmWrite32 (cpuDma gives) pa v w = (?c\<lparr>busSt := b', batchBreak := batchBreak ?c \<or> asked\<rparr>, snd w)"
    using x beat_of(1) [OF g] by (cases w) (simp add: cpuDma_def busWrite32_def busDo_def)
  have "settles (dmaGood vt mem good R) (dmaSee mem) dmaBare (dmaMem R) snd w
      (\<lambda>a. if a \<in> {a. unat (a - pa) < 4} then be_byte 4 (ucast v) (unat (a - pa)) else dmaSee mem w a) (snd w)
      (dmWrite32 (cpuDma gives) pa v w)"
    unfolding e
  proof (rule bus_beat [OF g conjunct1 [OF law]])
    fix a assume "a \<in> {a. unat (a - pa) < 4}"
    then show "blk a \<in> R \<and> dmaBare w a" using in_run [OF r, of a] by (simp add: dmaMem_def)
  next
    show "mem b' a = (if a \<in> {a. unat (a - pa) < 4} then be_byte 4 (ucast v) (unat (a - pa)) else mem (busSt ?c) a)" for a
      using law by (simp add: storeBE_def)
  qed
  then show ?thesis by (simp add: storeBE_def)
qed

lemma dma_read_32:
  fixes w :: "'b cpu \<times> 'd"
  assumes g: "dmaGood vt mem good R w" and r: "\<forall>j < 4. pa + of_nat j \<in> dmaMem R \<and> dmaBare w (pa + of_nat j)"
    and e: "dmRead32 (cpuDma gives) pa w = (v, w')"
  shows "settles (dmaGood vt mem good R) (dmaSee mem) dmaBare (dmaMem R) snd w (dmaSee mem w) (snd w) w' \<and> v = beWord (dmaSee mem w) pa"
proof -
  let ?c = "fst w"
  obtain v32 asked b' where x: "vread32 vt (tbNow ?c) pa (busSt ?c) = (v32, asked, b')" by (metis prod_cases3)
  have m: "inMem R pa 4" using r unfolding inMem_def addrs_def by (auto simp: dmaMem_def)
  note law = read_32 [OF beat_of(2) [OF g] m x]
  have v: "v = v32" "w' = (?c\<lparr>busSt := b', batchBreak := batchBreak ?c \<or> asked\<rparr>, snd w)"
    using e x beat_of(1) [OF g] by (cases w, simp add: cpuDma_def busRead32_def busDo_def)+
  have "settles (dmaGood vt mem good R) (dmaSee mem) dmaBare (dmaMem R) snd w
      (\<lambda>a. if a \<in> {} then 0 else dmaSee mem w a) (snd w) w'"
    unfolding v by (rule bus_beat [OF g conjunct1 [OF law]]) (use law in simp_all)
  moreover have "v = beWord (dmaSee mem w) pa"
  proof -
    have z: "dmaSee mem w (pa + of_nat j) = mem (busSt ?c) (pa + of_nat j)" if "j < 4" for j using bare_view r that by blast
    have "(ucast v32 :: u64) = be_bytes (map (mem (busSt ?c)) (addrs pa 4))" using law by simp
    also have "\<dots> = ucast (beWord (mem (busSt ?c)) pa)" by (simp add: addrs_eqs be_bytes4 beWord_def)
    also have "beWord (mem (busSt ?c)) pa = beWord (dmaSee mem w) pa"
      using z [of 0] z [of 1] z [of 2] z [of 3] by (simp add: beWord_def)
    finally have "unat (ucast v32 :: u64) = unat (ucast (beWord (dmaSee mem w) pa) :: u64)" by simp
    then show ?thesis by (simp only: unat_ucast_64 v(1) word_unat_eq_iff)
  qed
  ultimately show ?thesis by simp
qed

lemma dma_snoop:
  fixes w :: "'b cpu \<times> 'd"
  assumes g: "dmaGood vt mem good R w" and n: "0 < n" "pa \<le> pa + (n - 1)" and r: "\<forall>j < unat n. pa + of_nat j \<in> dmaMem R"
  shows "settles (dmaGood vt mem good R) (dmaSee mem) dmaBare (dmaMem R) snd w (dmaSee mem w) (snd w) (dmSnoopWrite (cpuDma gives) pa n w) \<and>
    (\<forall>j < unat n. dmaBare (dmSnoopWrite (cpuDma gives) pa n w) (pa + of_nat j))"
proof -
  let ?c = "fst w" and ?l = "pa + (n - 1)"
  let ?S = "blocksIn (blk pa) (blk ?l)" and ?c' = "snoopPush pa n True (fst w)"
  have "n \<noteq> 0" using n(1) by auto
  then have n1: "unat (n - 1) = unat n - 1" "0 < unat n" by (rule unat_minus_one) (use n(1) in \<open>simp add: word_less_nat_alt\<close>)
  have l: "unat ?l = unat pa + unat (n - 1)" using n(2) by (simp add: unat_plus_simple)
  have bl: "blk ?l \<le> ?l" by (simp add: blk_def word_and_le2)
  have inR: "B \<in> R" if B: "B \<in> ?S" for B
  proof (cases "pa \<le> B")
    case True
    have "unat B \<le> unat ?l" using B bl by (simp add: blocksIn_def word_le_nat_alt)
    then have "unat (B - pa) < unat n" using True l n1 by (simp add: unat_sub word_le_nat_alt)
    then have "B \<in> dmaMem R" by (rule in_run [OF r])
    then show ?thesis using B by (simp add: dmaMem_def blocksIn_def)
  next
    case False
    then have "blk pa \<le> blk B" "blk B \<le> blk pa" using B blk_mono [of "blk pa" B] blk_mono [of B pa] by (simp_all add: blocksIn_def)
    then have "B = blk pa" using B by (simp add: blocksIn_def)
    then show ?thesis using r [rule_format, of 0] n1 by (simp add: dmaMem_def)
  qed
  have c: "coherent vt mem good R ?c" "dceOn ?c \<or> (\<forall>A \<in> R. l1At ?c A = None)" using g by (simp_all add: dmaGood_def)
  have s: "snooped True ?S ?c ?c'" by (rule snoopPush_effect [OF c n]) (use inR in blast)
  have k: "keeps ?c ?c'" using s by (simp add: snooped_def)
  have e: "dmSnoopWrite (cpuDma gives) pa n w = (?c', snd w)" by (cases w) (simp add: cpuDma_def snoopWrite_def)
  have gd: "dmaGood vt mem good R (?c', snd w)"
    using k c(2) snooped_dce [OF s] snooped_none [OF s] by (auto simp: dmaGood_def keeps_def)
  have sv: "dmaSee mem (?c', snd w) a = dmaSee mem w a" if "a \<in> dmaMem R" for a
    using keeps_view [OF k] that by (simp add: dmaSee_def dmaMem_def)
  have bk: "dmaBare (?c', snd w) a" if "a \<in> dmaMem R" "dmaBare w a" for a
  proof (cases "blk a \<in> ?S")
    case True
    then show ?thesis using snoopedD(2) [OF s True] by (simp add: dmaBare_def)
  next
    case False
    moreover have "\<forall>A \<in> R - ?S. l1At ?c' A = l1At ?c A \<and> l2At ?c' A = l2At ?c A" using s by (simp add: snooped_def)
    ultimately have "l1At ?c' (blk a) = l1At ?c (blk a) \<and> l2At ?c' (blk a) = l2At ?c (blk a)" using that(1) unfolding dmaMem_def by blast
    then show ?thesis using that(2) by (simp add: dmaBare_def)
  qed
  have "dmaBare (?c', snd w) (pa + of_nat j)" if "j < unat n" for j
  proof -
    have "unat pa + j < 2 ^ 32" using l n1 that unsigned_less [of ?l, where ?'a = nat] by simp
    then have u: "unat (pa + of_nat j) = unat pa + j" by (simp add: unat_word_ariths unat_of_nat)
    then have "pa \<le> pa + of_nat j" "pa + of_nat j \<le> ?l" using l n1 that by (simp_all add: word_le_nat_alt)
    then have b: "blk (pa + of_nat j) \<in> ?S" using blk_mono by (simp add: blocksIn_def)
    show ?thesis using snoopedD(2) [OF s b] by (simp add: dmaBare_def)
  qed
  then show ?thesis using gd sv bk by (simp add: e settles_def)
qed

lemma dma_take:
  fixes w :: "'b cpu \<times> 'd"
  assumes "dmaGood vt mem good R w" "dmaTake (cpuDma gives) n w = (bs, w')"
  shows "settles (dmaGood vt mem good R) (dmaSee mem) dmaBare (dmaMem R) snd w (dmaSee mem w) (snd (gives n (snd w))) w' \<and> bs = fst (gives n (snd w))"
  using assms by (cases w) (auto simp: cpuDma_def settles_def dmaGood_def dmaSee_def dmaBare_def split: prod.splits)

end

interpretation flatDma: bus_master "cpuDma gives" "dmaSee flatMem" dmaBare "dmaGood flatBusVt flatMem (flatGood n) (flatRegion n)"
  "dmaMem (flatRegion n)" snd gives for n gives
proof unfold_locales
  show "hasBus (cpuDma gives)" "hasDev (cpuDma gives)" by (simp_all add: cpuDma_def)
qed (rule flat.dma_snoop flat.dma_write_8 flat.dma_write_32 flat.dma_read_32 flat.dma_take; assumption)+

section \<open>A driver's transfer\<close>

text \<open>Setting RUN on a stopped channel runs the list from the command pointer.\<close>

lemma start_channel:
  assumes "dbInv ch" "dbStatus ch AND kRun = 0"
  shows "\<exists>c0. dbWrite env 0 (swap32 0x80008000) 4 ch w =
      (let (ch1, w1) = dbRun env c0 w in if dbStatus ch1 AND kRun = 0
         then (ch1\<lparr>dbStatus := dbStatus ch1 AND NOT kActive, dbXferDone := 0\<rparr>, w1) else (ch1, w1)) \<and>
    dbCmdPtr c0 = dbCmdPtr ch \<and> dbXferDone c0 = 0 \<and> dbStatus c0 AND kRun \<noteq> 0 \<and> \<not> dbIrq c0"
proof -
  let ?s = "(dbStatus ch AND NOT 0x8000) OR 0x8000 :: u32"
  have "dbStatus ch AND (kFlush OR kWake) = 0" using assms(1) unfolding dbInv_def by blast
  then have z: "dbStatus ch AND kFlush = 0" "dbStatus ch AND kWake = 0" unfolding and_two by simp_all
  have s: "?s AND kFlush = 0" "?s AND kWake = 0" "?s AND kRun = kRun"
    using z by (simp_all add: bit.conj_disj_distrib2 and.assoc)
  let ?c1 = "(dbNote 0 0x80008000 ?s (ch\<lparr>dbStatus := ?s\<rparr>))\<lparr>dbIrq := False\<rparr>"
  let ?c0 = "?c1\<lparr>dbStatus := (?s AND NOT kDead) OR kActive, dbXferDone := 0\<rparr>"
  have n: "swap32 (swap32 0x80008000) = 0x80008000" by (simp add: swap32_def)
  have "dbWrite env 0 (swap32 0x80008000) 4 ch w = dbControl env 0x80008000 ch w"
    by (simp add: dbWrite_def dbMerge_def n)
  also have "\<dots> = (let (ch1, w1) = dbRun env ?c0 w in if dbStatus ch1 AND kRun = 0
         then (ch1\<lparr>dbStatus := dbStatus ch1 AND NOT kActive, dbXferDone := 0\<rparr>, w1) else (ch1, w1))"
    using assms(2) s by (simp add: dbControl_def Let_def)
  finally show ?thesis by (intro exI [of _ ?c0]) (simp add: bit.conj_disj_distrib2 and.assoc)
qed

text \<open>
  C5. DMA into cached memory. A driver has built, with ordinary cached stores, a list of input
  descriptors ending in STOP at the command pointer of a stopped channel, and sets RUN. If the device
  fills every request, then the program sees the device's bytes in every buffer and the completed status
  word in every descriptor, and every other address as before, whatever the caches held of them; the
  caches stay coherent, the channel stands at its STOP, running but no longer active, and asks for an
  interrupt exactly if a descriptor of the list does.
\<close>

theorem dma_input_delivers:
  assumes "flatCoherent n c" "dceOn c \<or> (\<forall>A \<in> flatRegion n. l1At c A = None)"
    and "dbInv ch" "dbStatus ch AND kRun = 0" "placed (dmaMem (flatRegion n)) (dbCmdPtr ch) xs"
    and "programAt (flatView c) (dbCmdPtr ch) xs" "supplied gives xs d = (bss, d')" "filled xs bss"
  shows "let (ch', c', d'') = dbWrite (cpuDma gives) 0 (swap32 0x80008000) 4 ch (c, d) in
    flatCoherent n c' \<and> d'' = d' \<and>
    (\<forall>a. blk a \<in> flatRegion n \<longrightarrow> flatView c' a = delivered (flatView c) (dbCmdPtr ch) xs bss a) \<and>
    dbCmdPtr ch' = dbCmdPtr ch + 16 * of_nat (length xs) \<and> dbStatus ch' AND kRun \<noteq> 0 \<and> dbStatus ch' AND kActive = 0 \<and>
    (dbIrq ch' \<longleftrightarrow> (\<exists>(w0, a) \<in> set xs. drop_bit 20 w0 AND 3 \<noteq> 0))"
proof -
  let ?env = "cpuDma gives"
  obtain c0 where s: "dbWrite ?env 0 (swap32 0x80008000) 4 ch (c, d) = (let (ch1, w1) = dbRun ?env c0 (c, d) in
        if dbStatus ch1 AND kRun = 0 then (ch1\<lparr>dbStatus := dbStatus ch1 AND NOT kActive, dbXferDone := 0\<rparr>, w1) else (ch1, w1))"
      "dbCmdPtr c0 = dbCmdPtr ch" "dbXferDone c0 = 0" "dbStatus c0 AND kRun \<noteq> 0" "\<not> dbIrq c0"
    using start_channel [OF assms(3,4), of ?env "(c, d)"] by blast
  have g: "dmaGood flatBusVt flatMem (flatGood n) (flatRegion n) (c, d)"
    using assms(1,2) by (simp add: dmaGood_def flatCoherent_def)
  have v: "dmaSee flatMem (x, y) = flatView x" for x and y :: 'a by (simp add: dmaSee_def flatView_def)
  have p: "programAt (dmaSee flatMem (c, d)) (dbCmdPtr ch) xs" unfolding v by (rule assms(6))
  have sup: "supplied gives xs (snd (c, d)) = (bss, d')" using assms(7) by simp
  have len: "length xs < 65536" using assms(5) by (simp add: placed_def)
  obtain ch1 w1 where l: "dbLoop ?env 65536 0 c0 (c, d) = (ch1, w1)"
      "settles (dmaGood flatBusVt flatMem (flatGood n) (flatRegion n)) (dmaSee flatMem) dmaBare (dmaMem (flatRegion n)) snd (c, d)
        (delivered (dmaSee flatMem (c, d)) (dbCmdPtr ch) xs bss) d' w1"
      "dbCmdPtr ch1 = dbCmdPtr ch + 16 * of_nat (length xs)" "dbStatus ch1 = dbStatus c0 AND NOT kActive"
      "dbIrq ch1 = (dbIrq c0 \<or> (\<exists>(w0, a) \<in> set xs. drop_bit 20 w0 AND 3 \<noteq> 0))"
    using flatDma.list_delivered [OF g assms(5) p sup assms(8) s(2-4) len, of 0] by blast
  have run: "dbStatus ch1 AND kRun \<noteq> 0" "dbStatus ch1 AND kActive = 0" using s(4) by (simp_all add: l(4) and.assoc)
  obtain c' e where w1: "w1 = (c', e)" by fastforce
  have r: "dbWrite ?env 0 (swap32 0x80008000) 4 ch (c, d) = (ch1, c', e)"
    unfolding s(1) using l(1) run by (simp add: dbRun_def w1) (simp add: cpuDma_def)
  have "flatCoherent n c'" using settlesD(1) [OF l(2)] by (simp add: w1 dmaGood_def flatCoherent_def)
  moreover have "e = d'" using settlesD(2) [OF l(2)] by (simp add: w1)
  moreover have "flatView c' a = delivered (flatView c) (dbCmdPtr ch) xs bss a" if "blk a \<in> flatRegion n" for a
    using settlesD(3) [OF l(2), of a] that by (simp add: w1 v dmaMem_def)
  ultimately show ?thesis using l(3,5) run s(5) by (simp add: r)
qed

text \<open>A list of one descriptor, four bytes to address 32, and STOP.\<close>

definition dmaDemo :: "flat_bus cpu" where
  "dmaDemo = (cachedCpu 64)\<lparr>busSt := (flatBus 64)\<lparr>ram := [4, 0, 0, 0x30, 32, 0, 0, 0, 0, 0, 0, 0, 0, 0, 0, 0,
     0, 0, 0, 0x70] @ replicate 44 0\<rparr>\<rparr>"

lemma dmaDemo_ready: "flatCoherent 64 dmaDemo" "dceOn dmaDemo" "flatView dmaDemo a = flatMem (busSt dmaDemo) a"
proof -
  have e: "dmaDemo = (flatCpu 64)\<lparr>st := (st (flatCpu 64))\<lparr>hid0 := 0x4000\<rparr>, busSt := busSt dmaDemo\<rparr>"
    by (simp add: dmaDemo_def cachedCpu_def)
  have l: "flatGood 64 (busSt dmaDemo)" by (simp add: dmaDemo_def flatGood_def)
  have h: "busVt dmaDemo = flatBusVt" "dxTv (l1x dmaDemo s) w = 0" "l2 dmaDemo = []" "l2Sets dmaDemo = 0" "l2Synced dmaDemo" for s w
    unfolding dmaDemo_def cachedCpu_def flatCpu_def initCpu_def by (simp_all add: l2Synced_def)
  note c = coherent_empty [of dmaDemo flatBusVt "flatGood 64", OF h(1) l h(2-5)]
  show "flatCoherent 64 dmaDemo" unfolding flatCoherent_def by (rule c(1))
  show "flatView dmaDemo a = flatMem (busSt dmaDemo) a" unfolding flatView_def c(2) blk_off ..
  show "dceOn dmaDemo" using cachedCpu_on(1) [of 64] by (simp add: dmaDemo_def dceOn_def)
qed

lemma low_mem: "unat a < 64 \<Longrightarrow> a \<in> dmaMem (flatRegion 64)"
proof -
  assume a: "unat a < 64"
  have "unat (blk a) \<le> 32" using unat_blk [of a] a by simp
  then have "blk a = 0 \<or> blk a = 32" by (intro block_cases_64) (simp_all add: word_le_nat_alt)
  then show ?thesis by (auto simp: dmaMem_def flatRegion_64)
qed

lemma dmaDemo_placed: "placed (dmaMem (flatRegion 64)) 0 [(0x30000004, 32)]"
proof -
  have m: "of_nat i \<in> dmaMem (flatRegion 64)" "unat (of_nat i :: u32) = i" if "i < 64" for i
    using that low_mem [of "of_nat i"] by (simp_all add: unat_of_nat)
  have e: "32 + of_nat j = (of_nat (32 + j) :: u32)" for j by simp
  have d: "32 + of_nat j \<noteq> (of_nat i :: u32)" if "i < 32" "j < 4" for i j
  proof
    assume "32 + of_nat j = (of_nat i :: u32)"
    then have "unat (of_nat (32 + j) :: u32) = unat (of_nat i :: u32)" unfolding e by (rule arg_cong)
    then show False using m(2) [of "32 + j"] m(2) [of i] that by simp
  qed
  have b: "32 + of_nat j \<in> dmaMem (flatRegion 64)" if "j < 4" for j unfolding e by (rule m(1)) (use that in simp)
  show ?thesis using m(1) d b by (simp add: placed_def inputCmd_def)
qed

lemma dmaDemo_program: "programAt (flatView dmaDemo) 0 [(0x30000004, 32)]"
proof -
  have r: "flatView dmaDemo a = ([4, 0, 0, 0x30, 32, 0, 0, 0, 0, 0, 0, 0, 0, 0, 0, 0, 0, 0, 0, 0x70] @ replicate 44 0) ! unat a"
    if "unat a < 64" for a
    unfolding dmaDemo_ready(3) flatMem_def using that by (simp add: dmaDemo_def)
  have b: "flatView dmaDemo 0 = 4" "flatView dmaDemo 1 = 0" "flatView dmaDemo 2 = 0" "flatView dmaDemo 3 = 0x30"
    "flatView dmaDemo 4 = 32" "flatView dmaDemo 5 = 0" "flatView dmaDemo 6 = 0" "flatView dmaDemo 7 = 0"
    "flatView dmaDemo 16 = 0" "flatView dmaDemo 17 = 0" "flatView dmaDemo 18 = 0" "flatView dmaDemo 19 = 0x70"
    by (simp_all add: r)
  show ?thesis by (simp add: leWord_def beWord_def b swap32_def)
qed

theorem dma_input_delivers_witness:
  "flatView (fst (snd (dbWrite (cpuDma (\<lambda>n d. ([10, 20, 30, 40], d))) 0 (swap32 0x80008000) 4 initDbdma (dmaDemo, ())))) 34 = 30"
proof -
  let ?g = "\<lambda>n d. ([10, 20, 30, 40] :: u8 list, d :: unit)"
  have i: "dbInv initDbdma" "dbStatus initDbdma AND kRun = 0" "dbCmdPtr initDbdma = 0" by (simp_all add: dbInv_def initDbdma_def)
  have s: "supplied ?g [(0x30000004, 32)] () = ([[10, 20, 30, 40]], ())" by simp
  have f: "filled [(0x30000004, 32)] [[10, 20, 30, 40]]" by (simp add: filled_def)
  obtain ch' c' u where r: "dbWrite (cpuDma ?g) 0 (swap32 0x80008000) 4 initDbdma (dmaDemo, ()) = (ch', c', u)" by (metis prod_cases3)
  have "blk 34 \<in> flatRegion 64" by (simp add: blk_def flatRegion_64)
  then have "flatView c' 34 = delivered (flatView dmaDemo) 0 [(0x30000004, 32)] [[10, 20, 30, 40]] 34"
    using dma_input_delivers [OF dmaDemo_ready(1) disjI1 [OF dmaDemo_ready(2)] i(1,2) _ _ s f] dmaDemo_placed dmaDemo_program i(3) r by simp
  then show ?thesis by (simp add: r storeBE_def storeAt_def)
qed

end
