(* ===== verification/LineFrame.thy ===== *)
theory LineFrame
  imports VectorProps LineProps
begin

text \<open>
  What an instruction leaves of the fetch translation the line executor holds: every handler bound
  for an instruction but \<^verbatim>\<open>mtspr\<close>, \<^verbatim>\<open>mtmsr\<close> and \<^verbatim>\<open>tlbie\<close> keeps the cached fetch page, the translation
  generation and the modes the executor hoisted out of its loop. The same is shown of the page
  address alone for every handler.
\<close>

section \<open>The state the line executor holds on to\<close>

definition heldXl :: "'b cpu \<Rightarrow> (bool \<times> bool \<times> bool) \<times> u64 \<times> u64 \<times> u32 \<times> u32 \<times> u32 \<times> u32" where
  "heldXl c = ((lineExecOff c, napping c, fetchCacheOff c), xlGen c, mmuGen c, xlPage c, xlPa c, xlMsr c, xlSr c)"

definition keepsLine :: "'b handler \<Rightarrow> bool" where
  "keepsLine h \<longleftrightarrow> (\<forall>c i. heldXl (h c i) = heldXl c)"

lemma held_core: "core c' = core c \<Longrightarrow> heldXl c' = heldXl c"
  by (simp add: core_defs heldXl_def)

lemma held_translate [simp]: "heldXl (snd (translate ea wr fe c)) = heldXl c"
  using translate_frame [of c ea wr fe] by (simp add: xlFrame_def coreXl_def heldXl_def)

lemma held_updates [simp]:
  "heldXl (st_update f1 d) = heldXl d" "heldXl (dxlGen_update f2 d) = heldXl d" "heldXl (dxlPage_update f3 d) = heldXl d"
  "heldXl (dxlMsr_update f4 d) = heldXl d" "heldXl (dxlSr_update f5 d) = heldXl d" "heldXl (dxlPa_update f6 d) = heldXl d"
  "heldXl (dxlWimg_update f7 d) = heldXl d" "heldXl (raisedThisStep_update f8 d) = heldXl d"
  "heldXl (curInsn_update f9 d) = heldXl d" "heldXl (ins_update f10 d) = heldXl d" "heldXl (batchBreak_update f11 d) = heldXl d"
  "heldXl (pendCycles_update f12 d) = heldXl d" "heldXl (decPending_update f13 d) = heldXl d"
  "heldXl (halted_update f14 d) = heldXl d" "heldXl (haltReason_update f15 d) = heldXl d"
  "heldXl (fetchLine_update f16 d) = heldXl d" "heldXl (cycleAccum_update f17 d) = heldXl d"
  "heldXl (pmPending_update f18 d) = heldXl d" "heldXl (smiPending_update f19 d) = heldXl d"
  by (simp_all add: heldXl_def)

lemma held_cache [simp]:
  "heldXl (snd (memRead a n w c)) = heldXl c" "heldXl (memWrite a n v w c) = heldXl c" "heldXl (dcbzLine a c) = heldXl c"
  "heldXl (dcbClean a b c) = heldXl c" "heldXl (dcbKill a c) = heldXl c" "heldXl (fetchDrop c) = heldXl c"
  "heldXl (l2FlushAll b c) = heldXl c" "heldXl (l2WipeAll c) = heldXl c" "heldXl (l2Resize c) = heldXl c"
  "heldXl (l1dFlushAll b c) = heldXl c"
  by (rule held_core, simp)+

lemma held_raise [simp]: "heldXl (raiseExc v s x c) = heldXl c"
  by (simp add: raiseExc_def Let_def)

lemma held_clock [simp]: "heldXl (clockAdvanceCycles n c) = heldXl c"
proof (induction n c rule: clockAdvanceCycles.induct)
  case (1 n c)
  have "heldXl (tick k d) = heldXl d" for k and d :: "'a cpu" by (simp add: tick_def heldXl_def Let_def)
  then show ?case using 1 by (subst clockAdvanceCycles.simps) (auto simp: Let_def)
qed

lemma held_charge [simp]: "heldXl (syncClock c) = heldXl c" "heldXl (charge k c) = heldXl c" "heldXl (insnCharge c) = heldXl c"
  by (simp_all add: syncClock_def charge_def insnCharge_def Let_def)

lemma held_flags [simp]:
  "heldXl (setCa b d) = heldXl d" "heldXl (setOv b d) = heldXl d" "heldXl (setCr0 v d) = heldXl d"
  "heldXl (setCrField f v d) = heldXl d" "heldXl (setCrBit k b d) = heldXl d" "heldXl (recordRc i v d) = heldXl d"
  "heldXl (ovIfOe i b d) = heldXl d" "heldXl (raResult i v d) = heldXl d" "heldXl (snd (addc3 a b' k x y i d)) = heldXl d"
  "heldXl (xoResult i p) = heldXl (snd p)" "heldXl (snd (bcTaken bo bi d)) = heldXl d"
  by (simp_all add: setCa_def setOv_def setCr0_def setCrField_def setCrBit_def recordRc_def ovIfOe_def raResult_def addc3_def
      xoResult_def bcTaken_def case_prod_beta Let_def)

section \<open>Accesses\<close>

lemma held_access [simp]:
  "heldXl (snd (xlRead ea len c)) = heldXl c" "heldXl (snd (xlWrite ea len v c)) = heldXl c"
  "heldXl (snd (leAlignCheck ea len c)) = heldXl c" "heldXl (snd (xlateData ea d c)) = heldXl c"
  "heldXl (dabrFault ea d c) = heldXl c" "heldXl (raiseAlign i ea c) = heldXl c" "heldXl (earFault ea b c) = heldXl c"
  by (simp_all add: xlRead_def xlWrite_def leAlignCheck_def xlateData_def dabrFault_def raiseAlign_def earFault_def case_prod_beta
      Let_def split: option.split)

lemma held_bytes [simp]:
  "heldXl (snd (readVBytes ea is out c)) = heldXl c" "heldXl (snd (writeVBytes ea n v is c)) = heldXl c"
  by (induction "is" arbitrary: out c) (simp_all add: case_prod_beta split: option.split bool.split)

lemma held_readV [simp]: "heldXl (snd (readV ea len c)) = heldXl c" "heldXl (snd (writeV ea len v c)) = heldXl c"
  by (simp_all add: readV_def writeV_def case_prod_beta Let_def split: option.split bool.split)

lemma held_sized [simp]:
  "heldXl (snd (readV8 ea c)) = heldXl c" "heldXl (snd (readV16 ea c)) = heldXl c" "heldXl (snd (readV32 ea c)) = heldXl c"
  "heldXl (snd (writeV8 ea v c)) = heldXl c" "heldXl (snd (writeV16 ea v c)) = heldXl c" "heldXl (snd (writeV32 ea v c)) = heldXl c"
  by (simp_all add: readV8_def readV16_def readV32_def writeV8_def writeV16_def writeV32_def)

lemma held_loops [simp]:
  "heldXl (lmwLoop rs ea c) = heldXl c" "heldXl (stmwLoop rs ea c) = heldXl c"
  "heldXl (loadStringLoop n r sh ea c) = heldXl c" "heldXl (storeStringLoop n r sh ea c) = heldXl c"
proof -
  show "heldXl (lmwLoop rs ea c) = heldXl c"
    by (induction rs arbitrary: ea c) (simp_all add: case_prod_beta split: option.split)
  show "heldXl (stmwLoop rs ea c) = heldXl c"
    by (induction rs arbitrary: ea c) (simp_all add: case_prod_beta split: bool.split)
  show "heldXl (loadStringLoop n r sh ea c) = heldXl c"
    by (induction n arbitrary: r sh ea c) (simp_all add: case_prod_beta Let_def split: option.split)
  show "heldXl (storeStringLoop n r sh ea c) = heldXl c"
    by (induction n arbitrary: r sh ea c) (simp_all add: case_prod_beta Let_def split: bool.split)
qed

lemma held_updRa [simp]: "heldXl (updRa i ea c) = heldXl c" "heldXl (stwcxDone b c) = heldXl c"
  by (simp_all add: updRa_def stwcxDone_def Let_def)

section \<open>Integer handlers\<close>

named_theorems line_safe "handlers that keep the line executor's state"

lemma line_immediate [line_safe]:
  "keepsLine h_addi" "keepsLine h_addis" "keepsLine h_addic" "keepsLine h_addicRc" "keepsLine h_subfic" "keepsLine h_mulli"
  "keepsLine h_ori" "keepsLine h_oris" "keepsLine h_xori" "keepsLine h_xoris" "keepsLine h_andiRc" "keepsLine h_andisRc"
  "keepsLine h_cmpi" "keepsLine h_cmpli" "keepsLine h_cmp" "keepsLine h_cmpl"
  "keepsLine h_rlwinm" "keepsLine h_rlwnm" "keepsLine h_rlwimi" "keepsLine h_b" "keepsLine h_bc" "keepsLine h_bclr" "keepsLine h_bcctr"
  by (simp_all add: keepsLine_def h_addi_def h_addis_def h_addic_def h_addicRc_def h_subfic_def h_mulli_def h_ori_def
      h_oris_def h_xori_def h_xoris_def h_andiRc_def h_andisRc_def h_cmpi_def h_cmpli_def h_cmp_def h_cmpl_def cmpS_def cmpU_def
      h_rlwinm_def h_rlwnm_def h_rlwimi_def h_b_def h_bcctr_def h_bc_def h_bclr_def Let_def case_prod_beta)

lemma line_arith [line_safe]:
  "keepsLine h_add" "keepsLine h_addc" "keepsLine h_adde" "keepsLine h_addme" "keepsLine h_addze" "keepsLine h_subf"
  "keepsLine h_subfc" "keepsLine h_subfe" "keepsLine h_subfme" "keepsLine h_subfze" "keepsLine h_neg" "keepsLine h_mullw"
  "keepsLine h_mulhw" "keepsLine h_mulhwu" "keepsLine h_divw" "keepsLine h_divwu"
  "keepsLine h_and" "keepsLine h_andcx" "keepsLine h_or" "keepsLine h_orc" "keepsLine h_xor" "keepsLine h_eqv" "keepsLine h_nor"
  "keepsLine h_nand" "keepsLine h_slw" "keepsLine h_srw" "keepsLine h_sraw" "keepsLine h_srawi" "keepsLine h_cntlzw"
  "keepsLine h_extsb" "keepsLine h_extsh"
  by (simp_all add: keepsLine_def h_add_def h_addc_def h_adde_def h_addme_def h_addze_def h_subf_def h_subfc_def
      h_subfe_def h_subfme_def h_subfze_def h_neg_def h_mullw_def h_mulhw_def h_mulhwu_def h_divw_def h_divwu_def
      h_and_def h_andcx_def h_or_def h_orc_def h_xor_def h_eqv_def h_nor_def h_nand_def
      hLogic_def h_slw_def h_srw_def h_sraw_def h_srawi_def h_cntlzw_def h_extsb_def h_extsh_def Let_def)

lemma line_cr [line_safe]:
  "keepsLine h_mcrf" "keepsLine h_crand" "keepsLine h_cror" "keepsLine h_crxor" "keepsLine h_crnand" "keepsLine h_crnor"
  "keepsLine h_creqv" "keepsLine h_crandc" "keepsLine h_crorc" "keepsLine h_mfcr" "keepsLine h_mtcrf" "keepsLine h_mcrxr"
  "keepsLine h_twi" "keepsLine h_tw" "keepsLine h_sc" "keepsLine h_nop" "keepsLine h_icbi" "keepsLine h_mftb" "keepsLine h_mfspr"
  "keepsLine h_rfi" "keepsLine h_mfmsr" "keepsLine h_mtsr" "keepsLine h_mfsr" "keepsLine h_mtsrin" "keepsLine h_mfsrin"
  by (auto simp: keepsLine_def h_mcrf_def h_crand_def h_cror_def h_crxor_def h_crnand_def h_crnor_def h_creqv_def
      h_crandc_def h_crorc_def hCrop_def h_mfcr_def h_mtcrf_def h_mcrxr_def h_twi_def h_tw_def h_sc_def h_nop_def h_icbi_def
      h_mftb_def h_mfspr_def sprAccessFault_def thrmUpdate_def h_rfi_def h_mfmsr_def h_mtsr_def h_mfsr_def h_mtsrin_def
      h_mfsrin_def Let_def split: option.split)

lemma line_scalar [line_safe]:
  "keepsLine h_lwz" "keepsLine h_lbz" "keepsLine h_lhz" "keepsLine h_lha" "keepsLine h_lwzx" "keepsLine h_lbzx" "keepsLine h_lhzx"
  "keepsLine h_lhax" "keepsLine h_lwzu" "keepsLine h_lbzu" "keepsLine h_lhzu" "keepsLine h_lhau" "keepsLine h_lwzux"
  "keepsLine h_lbzux" "keepsLine h_lhzux" "keepsLine h_lhaux" "keepsLine h_stw" "keepsLine h_stb" "keepsLine h_sth"
  "keepsLine h_stwx" "keepsLine h_stbx" "keepsLine h_sthx" "keepsLine h_stwu" "keepsLine h_stbu" "keepsLine h_sthu"
  "keepsLine h_stwux" "keepsLine h_stbux" "keepsLine h_sthux" "keepsLine h_lwbrx" "keepsLine h_lhbrx" "keepsLine h_stwbrx" "keepsLine h_sthbrx"
  by (simp_all add: keepsLine_def h_lwz_def h_lbz_def h_lhz_def h_lha_def h_lwzx_def h_lbzx_def h_lhzx_def h_lhax_def h_lwzu_def h_lbzu_def
      h_lhzu_def h_lhau_def h_lwzux_def h_lbzux_def h_lhzux_def h_lhaux_def h_stw_def h_stb_def h_sth_def h_stwx_def h_stbx_def
      h_sthx_def h_stwu_def h_stbu_def h_sthu_def h_stwux_def h_stbux_def h_sthux_def h_lwbrx_def h_lhbrx_def
      h_stwbrx_def h_sthbrx_def hLoad_def hLoadU_def hStore_def hStoreU_def case_prod_beta Let_def split: option.split bool.split)

lemma line_multiple [line_safe]:
  "keepsLine h_lmw" "keepsLine h_stmw" "keepsLine h_lswi" "keepsLine h_stswi" "keepsLine h_lswx" "keepsLine h_stswx"
  "keepsLine h_lwarx" "keepsLine h_stwcx" "keepsLine h_eciwx" "keepsLine h_ecowx" "keepsLine h_dcbz" "keepsLine h_dcbf"
  "keepsLine h_dcbst" "keepsLine h_dcbi"
  by (simp_all add: keepsLine_def h_lmw_def h_stmw_def h_lswi_def h_stswi_def h_lswx_def h_stswx_def leStringFault_def loadString_def
      storeString_def h_lwarx_def h_stwcx_def h_eciwx_def h_ecowx_def h_dcbz_def h_dcbf_def h_dcbst_def h_dcbi_def
      case_prod_beta Let_def split: option.split bool.split)

lemma line_float_mem [line_safe]: "keepsLine (hFload ek cv len u)" "keepsLine (hFstore ek vl len u)"
  by (simp_all add: keepsLine_def hFload_def hFstore_def case_prod_beta Let_def split: option.split bool.split)

lemma line_float_forms [line_safe]:
  "keepsLine h_lfs" "keepsLine h_lfsu" "keepsLine h_lfsx" "keepsLine h_lfsux" "keepsLine h_lfd" "keepsLine h_lfdu" "keepsLine h_lfdx"
  "keepsLine h_lfdux" "keepsLine h_stfs" "keepsLine h_stfsu" "keepsLine h_stfsx" "keepsLine h_stfsux" "keepsLine h_stfd"
  "keepsLine h_stfdu" "keepsLine h_stfdx" "keepsLine h_stfdux" "keepsLine h_stfiwx"
  by (simp_all add: h_lfs_def h_lfsu_def h_lfsx_def h_lfsux_def h_lfd_def h_lfdu_def h_lfdx_def h_lfdux_def h_stfs_def
      h_stfsu_def h_stfsx_def h_stfsux_def h_stfd_def h_stfdu_def h_stfdx_def h_stfdux_def h_stfiwx_def line_float_mem)

text \<open>The handlers that may change what the line executor holds.\<close>

definition lineMnems :: "string list" where
  "lineMnems = [''mtspr'', ''mtmsr'', ''tlbie'']"

lemma bound_line: "list_all (\<lambda>(m, h). m \<in> set lineMnems \<or> keepsLine h) boundHandlers"
  by (simp add: boundHandlers_def lineMnems_def line_safe)

section \<open>Unit handlers\<close>

lemma held_fp [simp]: "heldXl (trapIfEnabled c) = heldXl c" "heldXl (fpRc i c) = heldXl c"
  by (simp_all add: trapIfEnabled_def fpRc_def)

lemma held_steps:
  "heldXl c1 = h \<Longrightarrow> heldXl (fpRc i c1) = h" "heldXl c1 = h \<Longrightarrow> heldXl (setFpscr f c1) = h" "heldXl c1 = h \<Longrightarrow> heldXl (setFpr r v c1) = h"
  "heldXl c1 = h \<Longrightarrow> heldXl (setCrField k w c1) = h" "heldXl c1 = h \<Longrightarrow> heldXl (trapIfEnabled c1) = h"
  "heldXl c1 = h \<Longrightarrow> heldXl c2 = h \<Longrightarrow> heldXl (if P then c1 else c2) = h"
  by simp_all

lemma held_commit: "heldXl (commit c i q t) = heldXl c"
  unfolding commit_def commitFast_def commitGeneral_def Let_def by (rule held_steps refl)+

lemma fpu_each_line:
  "keepsLine (h_fadd hf)" "keepsLine (h_fadds hf)" "keepsLine (h_fsub hf)" "keepsLine (h_fsubs hf)" "keepsLine (h_fmul hf)"
  "keepsLine (h_fmuls hf)" "keepsLine h_fdiv" "keepsLine h_fdivs" "keepsLine (hMadd t na nr hf)"
  "keepsLine (h_frsp hf)" "keepsLine h_fres" "keepsLine h_frsqrte" "keepsLine h_fctiw" "keepsLine h_fctiwz"
  "keepsLine h_fsel" "keepsLine h_fmr" "keepsLine h_fneg" "keepsLine h_fabs" "keepsLine h_fnabs" "keepsLine h_fcmpu" "keepsLine h_fcmpo"
  "keepsLine h_mffs" "keepsLine h_mcrfs" "keepsLine h_mtfsfi" "keepsLine h_mtfsf" "keepsLine h_mtfsb0" "keepsLine h_mtfsb1"
  unfolding keepsLine_def fpu_handlers Let_def
  by (intro allI, (rule held_commit held_steps refl)+)+

lemma fpu_line: "list_all (\<lambda>(m, h). keepsLine h) (fpuHandlers hf)"
  by (simp add: fpuHandlers_def h_fmadd_def h_fmadds_def h_fmsub_def h_fmsubs_def h_fnmadd_def h_fnmadds_def h_fnmsub_def
    h_fnmsubs_def fpu_each_line)

lemma held_vec [simp]: "heldXl (setVD i v d) = heldXl d" "heldXl (setSat s d) = heldXl d" "heldXl (vsatB f i d) = heldXl d"
  "heldXl (vsatH g i d) = heldXl d" "heldXl (vsatW w i d) = heldXl d" "heldXl (vcmp mk n x z t i d) = heldXl d"
  by (simp_all add: setVD_def setSat_def vsatB_def vsatH_def vsatW_def vcmp_def setCr6_def)

lemma held_vec_loops [simp]: "heldXl (snd (lvxLoop ks ea v c)) = heldXl c" "heldXl (stvxLoop ks ea w c) = heldXl c"
  by (induction ks arbitrary: v c) (simp_all add: case_prod_beta split: option.split bool.split)

lemma vec_memory_line:
  "keepsLine h_lvx" "keepsLine h_stvx" "keepsLine h_lvebx" "keepsLine h_lvehx" "keepsLine h_lvewx"
  "keepsLine h_stvebx" "keepsLine h_stvehx" "keepsLine h_stvewx"
  by (simp_all add: keepsLine_def h_lvx_def h_stvx_def h_lvebx_def h_lvehx_def h_lvewx_def hLve_def h_stvebx_def h_stvehx_def
    h_stvewx_def case_prod_beta Let_def del: lvxLoop.simps stvxLoop.simps upt.simps split: option.split)

lemma vec_forms_line:
  "keepsLine (vmerge gt mk b)" "keepsLine (perLaneB f)" "keepsLine (perLaneH f)" "keepsLine (perLaneW f)"
  "keepsLine (varithB fb)" "keepsLine (varithH fh)" "keepsLine (varithW fw)" "keepsLine (vmulB cb q)" "keepsLine (vmulH ch q)"
  "keepsLine (vcmpB rb)" "keepsLine (vcmpH rh)" "keepsLine (vcmpW rw)" "keepsLine (vminmax r)" "keepsLine (vfcmp r)"
  "keepsLine (ctx sg)" "keepsLine (vrfi rn)"
  by (simp_all add: keepsLine_def vmerge_def perLaneB_def perLaneH_def perLaneW_def varithB_def varithH_def varithW_def
    vmulB_def vmulH_def vcmpB_def vcmpH_def vcmpW_def vminmax_def vfcmp_def ctx_def vrfi_def)

lemma vec_form_handlers_line:
  "keepsLine h_vmrghb" "keepsLine h_vmrglb" "keepsLine h_vmrghh" "keepsLine h_vmrglh" "keepsLine h_vmrghw"
  "keepsLine h_vmrglw" "keepsLine h_vrlb" "keepsLine h_vrlh" "keepsLine h_vrlw" "keepsLine h_vslb" "keepsLine h_vslh"
  "keepsLine h_vslw" "keepsLine h_vsrb" "keepsLine h_vsrh" "keepsLine h_vsrw" "keepsLine h_vsrab" "keepsLine h_vsrah"
  "keepsLine h_vsraw" "keepsLine h_vand" "keepsLine h_vandc" "keepsLine h_vor" "keepsLine h_vnor" "keepsLine h_vxor"
  "keepsLine h_vaddubm" "keepsLine h_vadduhm" "keepsLine h_vadduwm" "keepsLine h_vsububm" "keepsLine h_vsubuhm"
  "keepsLine h_vsubuwm" "keepsLine h_vaddcuw" "keepsLine h_vsubcuw" "keepsLine h_vavgub" "keepsLine h_vavguh"
  "keepsLine h_vavguw" "keepsLine h_vavgsb" "keepsLine h_vavgsh" "keepsLine h_vavgsw" "keepsLine h_vminub"
  "keepsLine h_vminuh" "keepsLine h_vminuw" "keepsLine h_vmaxub" "keepsLine h_vmaxuh" "keepsLine h_vmaxuw"
  "keepsLine h_vminsb" "keepsLine h_vminsh" "keepsLine h_vminsw" "keepsLine h_vmaxsb" "keepsLine h_vmaxsh"
  "keepsLine h_vmaxsw" "keepsLine h_vmulesb" "keepsLine h_vmuleub" "keepsLine h_vmulesh" "keepsLine h_vmuleuh"
  "keepsLine h_vmulosb" "keepsLine h_vmuloub" "keepsLine h_vmulosh" "keepsLine h_vmulouh" "keepsLine h_vcmpequb"
  "keepsLine h_vcmpequh" "keepsLine h_vcmpequw" "keepsLine h_vcmpgtub" "keepsLine h_vcmpgtuh" "keepsLine h_vcmpgtuw"
  "keepsLine h_vcmpgtsb" "keepsLine h_vcmpgtsh" "keepsLine h_vcmpgtsw" "keepsLine h_vmaxfp" "keepsLine h_vminfp"
  "keepsLine h_vcmpeqfp" "keepsLine h_vcmpgtfp" "keepsLine h_vcmpgefp" "keepsLine h_vctuxs" "keepsLine h_vctsxs"
  "keepsLine h_vrfin" "keepsLine h_vrfiz" "keepsLine h_vrfip" "keepsLine h_vrfim"
  unfolding h_vmrghb_def h_vmrglb_def h_vmrghh_def h_vmrglh_def h_vmrghw_def h_vmrglw_def h_vrlb_def h_vrlh_def h_vrlw_def
    h_vslb_def h_vslh_def h_vslw_def h_vsrb_def h_vsrh_def h_vsrw_def h_vsrab_def h_vsrah_def h_vsraw_def h_vand_def
    h_vandc_def h_vor_def h_vnor_def h_vxor_def h_vaddubm_def h_vadduhm_def h_vadduwm_def h_vsububm_def h_vsubuhm_def
    h_vsubuwm_def h_vaddcuw_def h_vsubcuw_def h_vavgub_def h_vavguh_def h_vavguw_def h_vavgsb_def h_vavgsh_def
    h_vavgsw_def h_vminub_def h_vminuh_def h_vminuw_def h_vmaxub_def h_vmaxuh_def h_vmaxuw_def h_vminsb_def
    h_vminsh_def h_vminsw_def h_vmaxsb_def h_vmaxsh_def h_vmaxsw_def h_vmulesb_def h_vmuleub_def h_vmulesh_def
    h_vmuleuh_def h_vmulosb_def h_vmuloub_def h_vmulosh_def h_vmulouh_def h_vcmpequb_def h_vcmpequh_def
    h_vcmpequw_def h_vcmpgtub_def h_vcmpgtuh_def h_vcmpgtuw_def h_vcmpgtsb_def h_vcmpgtsh_def h_vcmpgtsw_def
    h_vmaxfp_def h_vminfp_def h_vcmpeqfp_def h_vcmpgtfp_def h_vcmpgefp_def h_vctuxs_def h_vctsxs_def h_vrfin_def
    h_vrfiz_def h_vrfip_def h_vrfim_def
  by (rule vec_forms_line)+

lemma vec_other_handlers_line:
  "keepsLine h_lvsl" "keepsLine h_lvsr" "keepsLine h_vperm" "keepsLine h_vsel" "keepsLine h_vspltb" "keepsLine h_vsplth"
  "keepsLine h_vspltw" "keepsLine h_vspltisb" "keepsLine h_vspltish" "keepsLine h_vspltisw" "keepsLine h_vsldoi"
  "keepsLine h_vslo" "keepsLine h_vsro" "keepsLine h_vsl" "keepsLine h_vsr" "keepsLine h_vaddubs" "keepsLine h_vadduhs"
  "keepsLine h_vadduws" "keepsLine h_vaddsbs" "keepsLine h_vaddshs" "keepsLine h_vaddsws" "keepsLine h_vsububs"
  "keepsLine h_vsubuhs" "keepsLine h_vsubuws" "keepsLine h_vsubsbs" "keepsLine h_vsubshs" "keepsLine h_vsubsws"
  "keepsLine h_vmladduhm" "keepsLine h_vmhaddshs" "keepsLine h_vmhraddshs" "keepsLine h_vmsumubm" "keepsLine h_vmsummbm"
  "keepsLine h_vmsumuhm" "keepsLine h_vmsumshm" "keepsLine h_vmsumuhs" "keepsLine h_vmsumshs" "keepsLine h_vsumsws"
  "keepsLine h_vsum2sws" "keepsLine h_vsum4sbs" "keepsLine h_vsum4shs" "keepsLine h_vsum4ubs" "keepsLine h_vpkuhum"
  "keepsLine h_vpkuwum" "keepsLine h_vpkuhus" "keepsLine h_vpkshus" "keepsLine h_vpkshss" "keepsLine h_vpkuwus"
  "keepsLine h_vpkswus" "keepsLine h_vpkswss" "keepsLine h_vpkpx" "keepsLine h_vupkhsb" "keepsLine h_vupklsb"
  "keepsLine h_vupkhsh" "keepsLine h_vupklsh" "keepsLine h_vupkhpx" "keepsLine h_vupklpx" "keepsLine h_mfvscr"
  "keepsLine (h_vaddfp hf)" "keepsLine (h_vsubfp hf)" "keepsLine (h_vmaddfp hf)"
  "keepsLine (h_vnmsubfp hf)" "keepsLine h_vcmpbfp" "keepsLine (h_vcfux hf)" "keepsLine (h_vcfsx hf)" "keepsLine h_vrefp"
  "keepsLine (h_vrsqrtefp hf)" "keepsLine (h_vlogefp hf)" "keepsLine (h_vexptefp hf)" "keepsLine h_mtvscr"
  unfolding keepsLine_def h_lvsl_def h_lvsr_def h_vperm_def h_vsel_def h_vspltb_def h_vsplth_def h_vspltw_def h_vspltisb_def h_vspltish_def
    h_vspltisw_def h_vsldoi_def h_vslo_def h_vsro_def h_vsl_def h_vsr_def h_vaddubs_def h_vadduhs_def h_vadduws_def
    h_vaddsbs_def h_vaddshs_def h_vaddsws_def h_vsububs_def h_vsubuhs_def h_vsubuws_def h_vsubsbs_def h_vsubshs_def
    h_vsubsws_def h_vmladduhm_def h_vmhaddshs_def h_vmhraddshs_def h_vmsumubm_def h_vmsummbm_def h_vmsumuhm_def
    h_vmsumshm_def h_vmsumuhs_def h_vmsumshs_def h_vsumsws_def h_vsum2sws_def h_vsum4sbs_def h_vsum4shs_def
    h_vsum4ubs_def h_vpkuhum_def h_vpkuwum_def h_vpkuhus_def h_vpkshus_def h_vpkshss_def h_vpkuwus_def h_vpkswus_def
    h_vpkswss_def h_vpkpx_def h_vupkhsb_def h_vupklsb_def h_vupkhsh_def h_vupklsh_def h_vupkhpx_def h_vupklpx_def
    h_mfvscr_def h_vaddfp_def h_vsubfp_def h_vmaddfp_def h_vnmsubfp_def h_vcmpbfp_def h_vcfux_def
    h_vcfsx_def h_vrefp_def h_vrsqrtefp_def h_vlogefp_def h_vexptefp_def h_mtvscr_def Let_def
  by simp_all

lemma vec_line: "list_all (\<lambda>(m, h). keepsLine h) (vecHandlers hf)"
  by (simp add: vecHandlers_def vec_memory_line vec_form_handlers_line vec_other_handlers_line)

end
