(* ===== verification/LineRun.thy ===== *)
theory LineRun
  imports LineFrame
begin

text \<open>
  The contract of the line executor discharged: with the handlers the code binds, an instruction
  executed out of a held fetch line is the plain step, and unless it leaves the line the held
  translation and the hoisted conditions still stand after it; so batched execution is stepwise
  execution.
\<close>

section \<open>What an instruction of the line does\<close>

text \<open>The modes the executor has hoisted and the fetch translation depends on.\<close>

definition lineModes :: "cpu_state \<Rightarrow> u32 \<times> (u32 \<Rightarrow> u32) \<times> u32 \<times> u32" where
  "lineModes s = (msr s AND (MSR_IR OR MSR_PR OR MSR_LE OR MSR_SE OR MSR_BE), sr s, iabr s, mmcr0 s)"

text \<open>
  An executor run out of the line, with the program counter already on the next instruction, traps,
  ends the batch, jumps, or keeps the line's state; one that is run without the performance monitor
  and the trace check leaves their controls alone.
\<close>

definition lineOut :: "'b cpu \<Rightarrow> 'b cpu \<Rightarrow> bool" where
  "lineOut c d \<longleftrightarrow> trapped c d \<or> batchBreak d \<or> pc (st d) \<noteq> pc (st c) \<or>
     lineModes (st d) = lineModes (st c) \<and> heldXl d = heldXl c"

definition lineMonitor :: "'b cpu \<Rightarrow> 'b cpu \<Rightarrow> bool" where
  "lineMonitor c d \<longleftrightarrow> trapped c d \<or> msr (st d) = msr (st c) \<and> mmcr0 (st d) = mmcr0 (st c)"

lemma prot_modes:
  assumes "prot s' = prot s"
  shows "lineModes s' = lineModes s" "msr s' = msr s" "mmcr0 s' = mmcr0 s"
proof -
  have "lineModes (prot x) = lineModes x \<and> msr (prot x) = msr x \<and> mmcr0 (prot x) = mmcr0 x" for x
    by (simp add: lineModes_def prot_def)
  from this [of s] this [of s'] show "lineModes s' = lineModes s" "msr s' = msr s" "mmcr0 s' = mmcr0 s"
    unfolding assms by simp_all
qed

lemma userOk_line: "userOk c d \<Longrightarrow> heldXl d = heldXl c \<Longrightarrow> lineOut c d \<and> lineMonitor c d"
  using prot_modes [of "st d" "st c"] by (auto simp: userOk_def calm_def lineOut_def lineMonitor_def)

lemma always_line: "alwaysOk h \<Longrightarrow> keepsLine h \<Longrightarrow> lineOut c (h c i) \<and> lineMonitor c (h c i)"
  by (rule userOk_line) (simp_all add: alwaysOk_def keepsLine_def)

lemma same_line:
  assumes "lineModes (st d) = lineModes (st c)" "msr (st d) = msr (st c)" "mmcr0 (st d) = mmcr0 (st c)" "heldXl d = heldXl c"
  shows "lineOut c d \<and> lineMonitor c d"
  using assms by (simp add: lineOut_def lineMonitor_def)

lemma break_line:
  assumes "batchBreak d" "msr (st d) = msr (st c)" "mmcr0 (st d) = mmcr0 (st c)"
  shows "lineOut c d \<and> lineMonitor c d"
  using assms by (simp add: lineOut_def lineMonitor_def)

section \<open>Special purpose registers\<close>

lemma modes_sync [simp]:
  "lineModes (st (syncClock c)) = lineModes (st c)" "msr (st (syncClock c)) = msr (st c)" "mmcr0 (st (syncClock c)) = mmcr0 (st c)"
  using prot_modes [of "st (syncClock c)" "st c"] calm_syncClock [of c c] by (simp_all add: calm_def)

lemma modes_upd [simp]:
  "lineModes (gpr_update f1 s) = lineModes s" "lineModes (thrm_update f2 s) = lineModes s" "lineModes (l2cr_update f3 s) = lineModes s"
  "lineModes (hid0_update f4 s) = lineModes s" "lineModes (tb_update f5 s) = lineModes s" "lineModes (dec_update f6 s) = lineModes s"
  by (simp_all add: lineModes_def)

lemma access_fault:
  "sprAccessFault n k a c = (b, c1) \<Longrightarrow> if b then trapped c c1 else c1 = c"
  by (auto simp: sprAccessFault_def trapped_raise split: if_splits)

lemma trapped_line: "trapped c d \<Longrightarrow> lineOut c d \<and> lineMonitor c d"
  by (simp add: lineOut_def lineMonitor_def)

lemma mfspr_line:
  fixes c :: "'b cpu"
  shows "lineOut c (h_mfspr c i) \<and> lineMonitor c (h_mfspr c i)"
proof -
  let ?tb = "f_spr i = 268 \<or> f_spr i = 269"
  let ?p = "if ?tb then None else sprPtr (f_spr i)"
  obtain b c1 where f: "sprAccessFault (f_spr i) (?tb \<or> ?p \<noteq> None) (?tb \<or> sprUserReadable (f_spr i)) c = (b, c1)" by fastforce
  show ?thesis
  proof (cases b)
    case True
    then show ?thesis using access_fault [OF f] f trapped_line by (simp add: h_mfspr_def Let_def)
  next
    case False
    then have c1: "c1 = c" using access_fault [OF f] by simp
    have "keepsLine (h_mfspr :: 'b handler)" by (rule line_cr)
    then have h: "heldXl (h_mfspr c i) = heldXl c" by (simp add: keepsLine_def)
    show ?thesis
      by (rule same_line [OF _ _ _ h]; use f False c1 in \<open>simp add: h_mfspr_def thrmUpdate_def Let_def split: option.split\<close>)
  qed
qed

text \<open>Every register but the breakpoint and the monitor control leaves the hoisted modes alone.\<close>

definition keepsModes :: "spr_ref option \<Rightarrow> bool" where
  "keepsModes r \<longleftrightarrow> (case r of None \<Rightarrow> True | Some (g, upd) \<Rightarrow>
     \<forall>f s. lineModes (upd f s) = lineModes s \<and> msr (upd f s) = msr s \<and> mmcr0 (upd f s) = mmcr0 s)"

lemma keeps_if: "(b \<Longrightarrow> keepsModes x) \<Longrightarrow> keepsModes y \<Longrightarrow> keepsModes (if b then x else y)"
  by simp

lemma keeps_leaf:
  "keepsModes None" "keepsModes (Some (xer, xer_update))" "keepsModes (Some (lr, lr_update))" "keepsModes (Some (ctr, ctr_update))"
  "keepsModes (Some (dsisr, dsisr_update))" "keepsModes (Some (dar, dar_update))" "keepsModes (Some (dec, dec_update))"
  "keepsModes (Some (sdr1, sdr1_update))" "keepsModes (Some (srr0, srr0_update))" "keepsModes (Some (srr1, srr1_update))"
  "keepsModes (Some (vrsave, vrsave_update))" "keepsModes (Some (arrRef sprg sprg_update k))" "keepsModes (Some (ear, ear_update))"
  "keepsModes (Some (pvr, pvr_update))" "keepsModes (Some (arrRef ibatu ibatu_update k))" "keepsModes (Some (arrRef ibatl ibatl_update k))"
  "keepsModes (Some (arrRef dbatu dbatu_update k))" "keepsModes (Some (arrRef dbatl dbatl_update k))"
  "keepsModes (Some (mmcr1, mmcr1_update))" "keepsModes (Some (arrRef pmc pmc_update k))" "keepsModes (Some (siar, siar_update))"
  "keepsModes (Some (sdar, sdar_update))" "keepsModes (Some (bamr, bamr_update))" "keepsModes (Some (hid0, hid0_update))"
  "keepsModes (Some (hid1, hid1_update))" "keepsModes (Some (dabr, dabr_update))" "keepsModes (Some (msscr0, msscr0_update))"
  "keepsModes (Some (msscr1, msscr1_update))" "keepsModes (Some (l2cr, l2cr_update))" "keepsModes (Some (ictc, ictc_update))"
  "keepsModes (Some (arrRef thrm thrm_update k))" "keepsModes (Some (pir, pir_update))"
  by (simp_all add: keepsModes_def arrRef_def lineModes_def)

lemma sprPtr_keeps: "n \<notin> {936, 952, 1010} \<Longrightarrow> keepsModes (sprPtr n)"
  unfolding sprPtr_def by (rule keeps_leaf | (rule keeps_if) | simp)+

lemma sprPtr_modes:
  assumes "sprPtr n = Some (g, upd)" "n \<notin> {936, 952, 1010}"
  shows "lineModes (upd f s) = lineModes s \<and> msr (upd f s) = msr s \<and> mmcr0 (upd f s) = mmcr0 s"
  using sprPtr_keeps [OF assms(2)] by (simp add: keepsModes_def assms(1))

lemma core_modes:
  assumes "core d = core c"
  shows "lineModes (st d) = lineModes (st c)" "msr (st d) = msr (st c)" "mmcr0 (st d) = mmcr0 (st c)"
  using core_sel(1) [OF assms] by simp_all

lemma flush_modes [simp]:
  "lineModes (st (l2FlushAll b c)) = lineModes (st c)" "msr (st (l2FlushAll b c)) = msr (st c)" "mmcr0 (st (l2FlushAll b c)) = mmcr0 (st c)"
  "lineModes (st (l2WipeAll c)) = lineModes (st c)" "msr (st (l2WipeAll c)) = msr (st c)" "mmcr0 (st (l2WipeAll c)) = mmcr0 (st c)"
  "lineModes (st (l2Resize c)) = lineModes (st c)" "msr (st (l2Resize c)) = msr (st c)" "mmcr0 (st (l2Resize c)) = mmcr0 (st c)"
  "lineModes (st (l1dFlushAll b c)) = lineModes (st c)" "msr (st (l1dFlushAll b c)) = msr (st c)" "mmcr0 (st (l1dFlushAll b c)) = mmcr0 (st c)"
  by (rule core_modes, simp)+

lemma mtspr_line:
  assumes "userMode c \<or> f_spr i \<notin> {936, 952, 1010}"
  shows "lineOut c (h_mtspr c i) \<and> lineMonitor c (h_mtspr c i)"
proof -
  let ?n = "f_spr i" and ?v = "gpr (st c) (f_rt i)"
  let ?k = "(?n = 22 \<or> ?n = 284 \<or> ?n = 285 \<or> ?n = 287) \<or> sprPtr ?n \<noteq> None"
  obtain b c1 where f: "sprAccessFault ?n ?k (sprUserWritable ?n) c = (b, c1)" by fastforce
  show ?thesis
  proof (cases b)
    case True
    then show ?thesis using access_fault [OF f] f trapped_line by (simp add: h_mtspr_def Let_def)
  next
    case False
    then have c1: "c1 = c" using access_fault [OF f] by simp
    have n: "?n \<notin> {936, 952, 1010}"
      using assms f False by (auto simp: sprAccessFault_def sprUserWritable_def split: if_splits)
    have l2: "lineOut c (mtL2cr v c) \<and> lineMonitor c (mtL2cr v c)" for v
      by (rule same_line) (simp_all add: mtL2cr_def Let_def)
    have th: "lineOut c (mtThrm m v c) \<and> lineMonitor c (mtThrm m v c)" for m v
      by (rule same_line) (simp_all add: mtThrm_def thrmUpdate_def Let_def)
    have hid: "lineOut c (mtHid0 v c) \<and> lineMonitor c (mtHid0 v c)" for v
      by (rule same_line) (simp_all add: mtHid0_def Let_def)
    have dec: "lineOut c (mtDec v c) \<and> lineMonitor c (mtDec v c)" for v
      by (rule break_line) (simp_all add: mtDec_def noteDecSite_def Let_def)
    have tb: "lineOut c (mtTbl v c) \<and> lineMonitor c (mtTbl v c)" "lineOut c (mtTbu v c) \<and> lineMonitor c (mtTbu v c)" for v
      by (rule break_line; simp add: mtTbl_def mtTbu_def)+
    have gen: "lineOut c (case sprPtr ?n of None \<Rightarrow> c2 | Some (_, upd) \<Rightarrow> st_update (upd (\<lambda>_. ?v)) c2) \<and>
        lineMonitor c (case sprPtr ?n of None \<Rightarrow> c2 | Some (_, upd) \<Rightarrow> st_update (upd (\<lambda>_. ?v)) c2)"
      if c2: "c2 = (if ?n = 25 \<or> 528 \<le> ?n \<and> ?n \<le> 543 then c\<lparr>mmuGen := mmuGen c + 1, batchBreak := True\<rparr> else c)" for c2
    proof (cases "?n = 25 \<or> 528 \<le> ?n \<and> ?n \<le> 543")
      case True
      show ?thesis by (rule break_line) (use sprPtr_modes [OF _ n] True in \<open>auto simp: c2 split: option.split\<close>)
    next
      case False
      have "c2 = c" unfolding c2 by (rule if_not_P [OF False])
      then show ?thesis by (intro same_line) (use sprPtr_modes [OF _ n] in \<open>auto split: option.split\<close>)
    qed
    show ?thesis
      using l2 th hid dec tb gen [OF refl] same_line [of c c] f False c1
      unfolding h_mtspr_def Let_def by simp
  qed
qed

section \<open>Privileged executors\<close>

lemma dcbi_ok: "alwaysOk h_dcbi"
proof -
  have "userOk d (dcbKill pa d)" for pa and d :: "'b cpu" by (simp add: userOk_def calm_core)
  then show ?thesis unfolding alwaysOk_def h_dcbi_def by (intro allI userOk_xlate) (auto split: prod.split)
qed

lemma mf_ok: "alwaysOk h_mfmsr" "alwaysOk h_mfsr" "alwaysOk h_mfsrin"
  by (rule alwaysOk_calm; simp add: calm_def h_mfmsr_def h_mfsr_def h_mfsrin_def)+

lemma break_out: "lineOut c (h_mtsr c i)" "lineOut c (h_mtsrin c i)" "lineOut c (h_tlbie c i)"
  by (simp_all add: lineOut_def h_mtsr_def h_mtsrin_def h_tlbie_def tlbInvalidateClass_def Let_def)

abbreviation kLineMsr :: u32 where "kLineMsr \<equiv> MSR_IR OR MSR_PR OR MSR_LE OR MSR_SE OR MSR_BE"

lemma mtmsr_out:
  assumes "(gpr (st c) (f_rt i) AND MSR_VALID) AND kLineMsr = msr (st c) AND kLineMsr"
  shows "lineOut c (h_mtmsr c i)"
  using assms by (simp add: lineOut_def h_mtmsr_def lineModes_def Let_def)

lemma rfi_out: "srr0 (st c) AND NOT 3 \<noteq> pc (st c) \<Longrightarrow> lineOut c (h_rfi c i)"
  by (simp add: lineOut_def h_rfi_def)

section \<open>The bound handlers\<close>

definition lineSpecial :: "(string \<times> 'b handler) list" where
  "lineSpecial = [(''mfspr'', h_mfspr), (''mtspr'', h_mtspr), (''rfi'', h_rfi), (''mtmsr'', h_mtmsr), (''mtsr'', h_mtsr),
     (''mtsrin'', h_mtsrin), (''tlbie'', h_tlbie)]"

lemma bound_out: "list_all (\<lambda>(m, h). alwaysOk h \<and> keepsLine h \<or> (m, h) \<in> set lineSpecial) boundHandlers"
  by (simp add: boundHandlers_def lineSpecial_def user_safe line_safe dcbi_ok mf_ok)

lemma units_out: "bindUnits hf m = Some h \<Longrightarrow> alwaysOk h \<and> keepsLine h"
proof -
  have v: "list_all (\<lambda>(m, h). alwaysOk h) (vecHandlers hf)"
    by (simp add: vecHandlers_def vec_memory_ok vec_form_handlers_ok vec_other_handlers_ok safe_mtvscr)
  have f: "list_all (\<lambda>(m, h). alwaysOk h) (fpuHandlers hf)"
    by (simp add: fpuHandlers_def h_fmadd_def h_fmadds_def h_fmsub_def h_fmsubs_def h_fnmadd_def h_fnmadds_def h_fnmsub_def
      h_fnmsubs_def fpu_always_ok)
  show "bindUnits hf m = Some h \<Longrightarrow> alwaysOk h \<and> keepsLine h"
    using v f vec_line [of hf] fpu_line [of hf]
    by (auto simp: bindUnits_def bindVecHandlers_def bindFpuHandlers_def list_all_iff dest!: map_of_SomeD split: option.splits)
qed

text \<open>
  The instructions the executor may meet in a line: anything in user mode; in supervisor mode anything
  but a move to the monitor control or the instruction breakpoint, an \<^verbatim>\<open>mtmsr\<close> that changes the fetch
  translation, the byte order or tracing, and an \<^verbatim>\<open>rfi\<close> to the very next instruction.
\<close>

definition lineSafe :: "'b cpu \<Rightarrow> u32 \<Rightarrow> bool" where
  "lineSafe c insn \<longleftrightarrow> userMode c \<or>
     (case decode insn of
        None \<Rightarrow> True
      | Some n \<Rightarrow>
          (mnem (kIsa ! n) = ''mtspr'' \<longrightarrow> f_spr insn \<notin> {936, 952, 1010}) \<and>
          (mnem (kIsa ! n) = ''mtmsr'' \<longrightarrow>
             (gpr (st c) (f_rt insn) AND MSR_VALID) AND kLineMsr = msr (st c) AND kLineMsr) \<and>
          (mnem (kIsa ! n) = ''rfi'' \<longrightarrow> srr0 (st c) AND NOT 3 \<noteq> pc (st c) + 4))"

lemma handler_line:
  fixes c :: "'b cpu" and fn :: "'b handler"
  assumes "handlerFor (bindUnits hf) k = Some fn"
    and "mnem (kIsa ! k) = ''mtspr'' \<longrightarrow> userMode c \<or> f_spr i \<notin> {936, 952, 1010}"
    and "mnem (kIsa ! k) = ''mtmsr'' \<longrightarrow> (gpr (st c) (f_rt i) AND MSR_VALID) AND kLineMsr = msr (st c) AND kLineMsr"
    and "mnem (kIsa ! k) = ''rfi'' \<longrightarrow> srr0 (st c) AND NOT 3 \<noteq> pc (st c)"
  shows "lineOut c (fn c i) \<and> (mnem (kIsa ! k) \<notin> set privMnems \<longrightarrow> lineMonitor c (fn c i))"
proof -
  let ?m = "mnem (kIsa ! k)"
  consider "alwaysOk fn" "keepsLine fn" | "(?m, fn) \<in> set lineSpecial"
  proof (cases "(bindUnits hf :: string \<Rightarrow> 'b handler option) ?m")
    case (Some h)
    then have "fn = h" using assms(1) by (simp add: handlerFor_def Let_def)
    then show thesis using that(1) units_out [OF Some] by simp
  next
    case None
    then have "(?m, fn) \<in> set boundHandlers" using assms(1) by (simp add: handlerFor_def Let_def map_of_SomeD)
    then show thesis using that bound_out by (auto simp: list_all_iff)
  qed
  then show ?thesis
  proof cases
    case 1
    then show ?thesis using always_line by blast
  next
    case 2
    then show ?thesis
      using assms(2-4) mfspr_line [of c i] mtspr_line [of c i] break_out [of c i] mtmsr_out [of c i] rfi_out [of c i]
      unfolding lineSpecial_def by (auto simp: privMnems_def)
  qed
qed

section \<open>One step\<close>

lemma excVec_word: "wordIn ((if b then 0xFFF00000 else 0) OR excVec v) = 0"
  by (cases v; cases b) (simp_all add: wordIn_def)

lemma trapped_leaves:
  assumes "\<exists>v. enters v s s'" "wordIn a < 7"
  shows "pc s' \<noteq> a + 4"
proof
  assume "pc s' = a + 4"
  then have "wordIn (a + 4) = 0" using assms(1) excVec_word by (auto simp: enters_def)
  moreover have "unat (wordIn a + 1) = unat (wordIn a) + 1" using assms(2) by (simp add: word_less_nat_alt unat_word_ariths)
  ultimately show False unfolding next_in_block(3) [OF assms(2)] by (simp add: word_unat_eq_iff)
qed

lemma trapped_untraced:
  assumes "trapped c d" "mmcr0 (st c) = 0"
  shows "untraced d"
proof -
  obtain v where "msr (st d) = excMsr v (msr (st c))" using assms(1) by (auto simp: trapped_def enters_def)
  moreover have "excMsr v m AND (MSR_SE OR MSR_BE) = 0" for m
    by (simp add: excMsr_def Let_def and.assoc bit.conj_disj_distrib2)
  moreover have "mmcr0 (st d) = mmcr0 (protX (st d))" "mmcr0 (st c) = mmcr0 (protX (st c))" by (simp_all add: protX_def prot_def)
  ultimately show ?thesis using assms by (simp add: untraced_def trapped_def)
qed

lemma quiet_modes:
  assumes "quiet d d'"
  shows "lineModes (st d') = lineModes (st d)" "msr (st d') = msr (st d)" "mmcr0 (st d') = mmcr0 (st d)" "untraced d' = untraced d"
proof -
  note p = prot_modes [OF quiet_sel(4) [OF assms]]
  show "lineModes (st d') = lineModes (st d)" "msr (st d') = msr (st d)" "mmcr0 (st d') = mmcr0 (st d)" "untraced d' = untraced d"
    by (simp_all add: p untraced_def)
qed

lemma charge_flags [simp]: "batchBreak (insnCharge c) = batchBreak c" "halted (insnCharge c) = halted c"
  by (simp_all add: insnCharge_def charge_def Let_def)

lemma monitor_flags [simp]: "batchBreak (perfMon c) = batchBreak c" "batchBreak (traceCheck e f c) = batchBreak c"
  by (simp_all add: perfMon_def pmcTick_def traceCheck_def raiseExc_def Let_def)

lemma untraced_same: "untraced c \<Longrightarrow> perfMon c = c" "untraced c \<Longrightarrow> traceCheck e f c = c"
  by (simp_all add: untraced_def perfMon_def traceCheck_def Let_def)

lemma traceCheck_cases: "traceCheck e f c = c \<or> (\<exists>v. enters v (st c) (st (traceCheck e f c)))"
proof (cases "traceCheck e f c = c")
  case False
  then have "traceCheck e f c = raiseExc Trace (pc (st c)) 0 c" by (auto simp: traceCheck_def Let_def split: if_splits)
  moreover have "trapped c (raiseExc Trace (pc (st c)) 0 c)" by (rule trapped_raise) simp_all
  ultimately show ?thesis by (auto simp: trapped_def)
qed simp

text \<open>What a step out of the line leaves: the line, or the line's state.\<close>

definition lineLeft :: "'b cpu \<Rightarrow> 'b cpu \<Rightarrow> bool" where
  "lineLeft c d \<longleftrightarrow> batchBreak d \<or> halted d \<or> pc (st d) \<noteq> pc (st c) + 4 \<or>
     lineModes (st d) = lineModes (st c) \<and> heldXl d = heldXl c"

lemma runHandler_line:
  fixes c :: "'b cpu"
  assumes "lineOut (setPc (pc (st c) + 4) c) (fn (setPc (pc (st c) + 4) c) insn)" "wordIn (pc (st c)) < 7" "untraced c"
  shows "lineLeft c (runHandler fn insn d c)"
proof -
  let ?c1 = "setPc (pc (st c) + 4) c"
  define e where "e = fn ?c1 insn"
  define e2 where "e2 = perfMon (insnCharge e)"
  have q: "quiet e e2" unfolding e2_def by (rule quiet_trans [OF quiet_insnCharge quiet_perfMon])
  have r: "runHandler fn insn d c = (if halted e2 \<or> raisedThisStep e2 then e2 else traceCheck d (pc (st c) + 4) e2)"
    by (simp add: runHandler_def e2_def e_def Let_def)
  have out: "runHandler fn insn d c = e2 \<or> (\<exists>v. enters v (st e2) (st (runHandler fn insn d c)))"
    unfolding r using traceCheck_cases [of d "pc (st c) + 4" e2] by auto
  have brk: "batchBreak (runHandler fn insn d c) = batchBreak e" unfolding r by (simp add: e2_def)
  note leave = trapped_leaves [OF _ assms(2)]
  consider "trapped ?c1 e" | "batchBreak e" | "pc (st e) \<noteq> pc (st c) + 4" | "lineModes (st e) = lineModes (st c)" "heldXl e = heldXl c"
    using assms(1) by (auto simp: lineOut_def e_def [symmetric] lineModes_def)
  then show ?thesis
  proof cases
    case 1
    then have "raisedThisStep e2" "\<exists>v. enters v (st ?c1) (st e2)" using quiet_trapped [OF 1 q] by (auto simp: trapped_def)
    then show ?thesis using leave unfolding r by (auto simp: lineLeft_def)
  next
    case 2
    then show ?thesis using brk by (simp add: lineLeft_def)
  next
    case 3
    then have "pc (st e2) \<noteq> pc (st c) + 4" using quiet_sel(1) [OF q] by simp
    then show ?thesis using out leave by (auto simp: lineLeft_def)
  next
    case 4
    have "untraced e" using assms(3) 4(1) and.assoc [of _ kLineMsr "MSR_SE OR MSR_BE"]
      by (simp add: untraced_def lineModes_def) metis
    then have u: "untraced (insnCharge e)" using quiet_modes(4) [OF quiet_insnCharge, of e] by simp
    then have "e2 = insnCharge e" by (simp add: e2_def untraced_same)
    then have "runHandler fn insn d c = insnCharge e" unfolding r using u by (simp add: untraced_same)
    then show ?thesis using 4 quiet_modes(1) [OF quiet_insnCharge, of e] by (simp add: lineLeft_def)
  qed
qed

lemma hit_row:
  assumes "rowsOk c" "fetchBlockFast (pc (st c)) c = Some (slot, word)"
  shows "(ucast (flRow (fetchLine c slot) word) :: u32) = decodeRow (flW (fetchLine c slot) word)"
  using fetchOk_hit [OF assms(1) hit_word [OF assms(2)], of slot] by (simp add: fetchOk_def)

lemma execRow_line:
  fixes c :: "'b cpu"
  assumes "lineSafe c insn" "wordIn (pc (st c)) < 7" "untraced c" "row = decodeRow insn"
  shows "lineLeft c (execRow (bindUnits hf) insn row c)"
proof -
  let ?c = "c\<lparr>raisedThisStep := False, curInsn := insn\<rparr>" and ?d = "kIsa ! unat row"
  have vec: "lineLeft c (insnCharge (raiseExc v x y c2))" if "st c2 = st c" "flRows c2 = flRows c" for v x y and c2 :: "'b cpu"
  proof -
    have "trapped c (raiseExc v x y c2)" by (rule trapped_raise) (simp_all add: that)
    then have "trapped c (insnCharge (raiseExc v x y c2))" using quiet_trapped quiet_insnCharge by blast
    then show ?thesis using trapped_leaves [OF _ assms(2)] by (auto simp: trapped_def lineLeft_def)
  qed
  show ?thesis
  proof (cases "row = kNoRow")
    case True
    then show ?thesis unfolding execRow_def Let_def by (simp add: vec)
  next
    case False
    then obtain n where n: "decode insn = Some n" "unat row = n"
      using assms(4) decode_bound [of insn] by (cases "decode insn") (auto simp: decodeRow_def unat_of_nat kIsaCount_value)
    show ?thesis
    proof (cases "gateFault (preGate ?d) ?c")
      case (Some p)
      then show ?thesis using False vec by (cases p) (simp add: execRow_def Let_def)
    next
      case None
      note gate = this
      show ?thesis
      proof (cases "handlerFor (bindUnits hf) (unat row) :: 'b handler option")
        case None
        then show ?thesis using False gate by (simp add: execRow_def Let_def lineLeft_def)
      next
        case (Some fn)
        have user: "userMode c \<Longrightarrow> flags ?d AND FL_PRIV = 0"
          using gate preGate_priv [of ?d] by (auto simp: gateFault_def userMode_def split: if_splits)
        have priv: "mnem ?d \<in> set privMnems \<Longrightarrow> flags ?d AND FL_PRIV \<noteq> 0"
          using priv_rows decode_bound [OF n(1)] n(2) by (simp add: list_all_length kIsaCount_def)
        have "\<not> userMode c" if "mnem ?d = ''mtmsr'' \<or> mnem ?d = ''rfi''"
          using that user priv by (auto simp: privMnems_def)
        then have "lineOut (setPc (pc (st ?c) + 4) ?c) (fn (setPc (pc (st ?c) + 4) ?c) insn)"
          using assms(1) n by (intro conjunct1 [OF handler_line [OF Some]]) (auto simp: lineSafe_def userMode_def)
        then have "lineLeft ?c (runHandler fn insn ?d ?c)"
          by (rule runHandler_line) (use assms(2,3) in \<open>simp_all add: untraced_def\<close>)
        then show ?thesis using False gate Some by (simp add: execRow_def Let_def lineLeft_def)
      qed
    qed
  qed
qed

lemma execFast_untraced:
  fixes c :: "'b cpu"
  assumes "lineSafe c insn" "untraced c" "row = decodeRow insn" "execFast (bindUnits hf) insn row c = (True, d)"
  shows "untraced d"
proof -
  let ?c1 = "setPc (pc (st c) + 4) (c\<lparr>raisedThisStep := False, curInsn := insn\<rparr>)" and ?d = "kIsa ! unat row"
  obtain fn where fn: "row \<noteq> kNoRow" "handlerFor (bindUnits hf) (unat row) = Some fn" "preGate ?d = 0"
    "d = insnCharge (fn ?c1 insn)"
    using assms(4) by (auto simp: execFast_def split: if_splits option.splits)
  then obtain n where n: "decode insn = Some n" "unat row = n"
    using assms(3) decode_bound [of insn] by (cases "decode insn") (auto simp: decodeRow_def unat_of_nat kIsaCount_value)
  have "mnem ?d \<notin> set privMnems"
  proof
    assume "mnem ?d \<in> set privMnems"
    then have "flags ?d AND FL_PRIV \<noteq> 0"
      using priv_rows decode_bound [OF n(1)] n(2) by (simp add: list_all_length kIsaCount_def)
    then show False using preGate_priv fn(3) by fastforce
  qed
  moreover from this have "mnem ?d \<noteq> ''mtmsr''" "mnem ?d \<noteq> ''rfi''" by (auto simp: privMnems_def)
  ultimately have "lineMonitor ?c1 (fn ?c1 insn)"
    using assms(1) n handler_line [OF fn(2), of ?c1 insn] by (auto simp: lineSafe_def userMode_def)
  then have "untraced (fn ?c1 insn)"
    using assms(2) trapped_untraced [of ?c1 "fn ?c1 insn"] by (auto simp: lineMonitor_def untraced_def)
  then show ?thesis by (simp add: fn(4) quiet_modes(4) [OF quiet_insnCharge])
qed

section \<open>The contract holds\<close>

text \<open>
  What is asked of a state the batch passes through, where it executes out of a held line: the
  processor is big-endian, the instruction is one the executor may meet, and it does not make an
  interrupt deliverable without ending the batch.
\<close>

definition lineOk :: "(string \<Rightarrow> 'b handler option) \<Rightarrow> 'b cpu \<Rightarrow> bool" where
  "lineOk ext c \<longleftrightarrow> slowLine c \<or>
     (case fetchBlockFast (pc (st c)) c of
        None \<Rightarrow> True
      | Some (slot, word) \<Rightarrow>
          msr (st c) AND MSR_LE = 0 \<and> lineSafe c (flW (fetchLine c slot) word) \<and>
          (let d = step ext c in batchBreak d \<or> halted d \<or> \<not> (msr (st d) AND MSR_EE \<noteq> 0 \<and> anyIrq d)))"

lemma same_line_xlate:
  assumes "lineModes (st d) = lineModes (st c)" "heldXl d = heldXl c" "xlGen c = mmuGen c" "\<not> slowLine c"
    and "\<not> (msr (st d) AND MSR_EE \<noteq> 0 \<and> anyIrq d)"
  shows "\<not> slowLine d \<and> sameXlate c d"
proof -
  have k: "msr (st d) AND kLineMsr = msr (st c) AND kLineMsr" "sr (st d) = sr (st c)" "iabr (st d) = iabr (st c)" "mmcr0 (st d) = mmcr0 (st c)"
    using assms(1) by (simp_all add: lineModes_def)
  have h: "lineExecOff d = lineExecOff c" "napping d = napping c" "fetchCacheOff d = fetchCacheOff c" "xlGen d = xlGen c"
    "mmuGen d = mmuGen c" "xlPage d = xlPage c" "xlPa d = xlPa c" "xlMsr d = xlMsr c" "xlSr d = xlSr c"
    using assms(2) by (simp_all add: heldXl_def)
  have m: "m AND (MSR_SE OR MSR_BE) = (m AND kLineMsr) AND (MSR_SE OR MSR_BE)"
    "m AND (MSR_IR OR MSR_PR OR MSR_LE) = (m AND kLineMsr) AND (MSR_IR OR MSR_PR OR MSR_LE)" for m :: u32
    by (simp_all add: and.assoc)
  have "msr (st d) AND (MSR_SE OR MSR_BE) = msr (st c) AND (MSR_SE OR MSR_BE)"
    "msr (st d) AND (MSR_IR OR MSR_PR OR MSR_LE) = msr (st c) AND (MSR_IR OR MSR_PR OR MSR_LE)"
    unfolding m [of "msr (st d)"] m [of "msr (st c)"] k(1) by (rule refl)+
  then show ?thesis using assms(3-5) k(2-4) h unfolding slowLine_def sameXlate_def by auto
qed

lemma line_steady:
  assumes "lineOk (bindUnits hf) c" "rowsOk c" "xlPa c AND 0xFFF = 0"
  shows "steady (bindUnits hf) c"
proof (cases "slowLine c \<or> fetchBlockFast (pc (st c)) c = None")
  case True
  then show ?thesis by (auto simp: steady_def)
next
  case False
  then obtain slot word where hit: "fetchBlockFast (pc (st c)) c = Some (slot, word)" and slow: "\<not> slowLine c" by auto
  let ?i = "flW (fetchLine c slot) word" and ?r = "ucast (flRow (fetchLine c slot) word) :: u32" and ?d = "step (bindUnits hf) c"
  have ok: "msr (st c) AND MSR_LE = 0" "lineSafe c ?i" "batchBreak ?d \<or> halted ?d \<or> \<not> (msr (st ?d) AND MSR_EE \<noteq> 0 \<and> anyIrq ?d)"
    using assms(1) hit slow by (auto simp: lineOk_def Let_def)
  note row = hit_row [OF assms(2) hit]
  have un: "untraced c" using slow by (auto simp: slowLine_def untraced_def)
  note x = hit [unfolded fetchBlockFast_iff [OF ok(1) assms(3)]]
  have exec: "lineExec (bindUnits hf) slot word c = ?d"
    by (rule lineExec_step [OF slow hit]) (rule execFast_untraced [OF ok(2) un row])
  have "word = 7 \<or> lineLeft c ?d"
  proof (cases "word = 7")
    case False
    then have "wordIn (pc (st c)) < 7" using x wordIn_less [of "pc (st c)"] by (auto simp: word_less_nat_alt word_unat_eq_iff)
    then show ?thesis unfolding step_of_hit [OF slow hit] using execRow_line [OF ok(2) _ un row] by blast
  qed simp
  then have "batchBreak ?d \<or> halted ?d \<or> pc (st ?d) \<noteq> pc (st c) + 4 \<or> word = 7 \<or> \<not> slowLine ?d \<and> sameXlate c ?d"
    using same_line_xlate [of ?d c] x slow ok(3) by (auto simp: lineLeft_def)
  then show ?thesis using ok(1) assms(3) exec unfolding steady_def hit Let_def by simp
qed

section \<open>The held page stays page-aligned\<close>

definition keepsPa :: "'b handler \<Rightarrow> bool" where
  "keepsPa h \<longleftrightarrow> (\<forall>c i. xlPa (h c i) = xlPa c)"

lemma held_pa: "heldXl d = heldXl c \<Longrightarrow> xlPa d = xlPa c"
  by (simp add: heldXl_def)

lemma line_pa: "keepsLine h \<Longrightarrow> keepsPa h"
  unfolding keepsLine_def keepsPa_def by (blast intro: held_pa)

lemma xlPa_held [simp]:
  "xlPa (syncClock c) = xlPa c" "xlPa (l2FlushAll b c) = xlPa c" "xlPa (l2WipeAll c) = xlPa c" "xlPa (l2Resize c) = xlPa c"
  "xlPa (l1dFlushAll b c) = xlPa c" "xlPa (raiseExc v s x c) = xlPa c" "xlPa (insnCharge c) = xlPa c" "xlPa (charge k c) = xlPa c"
  by (rule held_pa, simp)+

lemma mtspr_pa: "keepsPa (h_mtspr :: 'b handler)"
proof -
  have s: "xlPa (snd (sprAccessFault n k a c)) = xlPa c" for n k a and c :: "'b cpu"
    by (simp add: sprAccessFault_def)
  have "xlPa (h_mtspr c i) = xlPa c" for c :: "'b cpu" and i
  proof -
    obtain b c1 where f: "sprAccessFault (f_spr i) ((f_spr i = 22 \<or> f_spr i = 284 \<or> f_spr i = 285 \<or> f_spr i = 287) \<or> sprPtr (f_spr i) \<noteq> None)
      (sprUserWritable (f_spr i)) c = (b, c1)" by fastforce
    have c1: "xlPa c1 = xlPa c" using s [of "f_spr i" _ _ c] f by (metis snd_conv)
    have m: "xlPa (mtL2cr v c1) = xlPa c" "xlPa (mtThrm n v c1) = xlPa c" "xlPa (mtDec v c1) = xlPa c" "xlPa (mtTbl v c1) = xlPa c"
      "xlPa (mtTbu v c1) = xlPa c" "xlPa (mtHid0 v c1) = xlPa c" for n v
      by (simp_all add: c1 mtL2cr_def mtThrm_def thrmUpdate_def mtDec_def noteDecSite_def mtTbl_def mtTbu_def mtHid0_def Let_def)
    have g: "xlPa (case sprPtr n of None \<Rightarrow> c2 | Some (_, upd) \<Rightarrow> st_update (upd (\<lambda>_. v)) c2) = xlPa c2" for n v and c2 :: "'b cpu"
      by (simp split: option.split)
    show ?thesis unfolding h_mtspr_def Let_def f by (cases b) (simp_all add: m g c1)
  qed
  then show ?thesis by (simp add: keepsPa_def)
qed

lemma bound_pa: "list_all (\<lambda>(m, h). keepsPa h) boundHandlers"
proof -
  have "keepsPa h_mtmsr" "keepsPa h_tlbie"
    by (simp_all add: keepsPa_def h_mtmsr_def h_tlbie_def tlbInvalidateClass_def Let_def)
  then show ?thesis
    by (simp add: boundHandlers_def line_pa line_safe mtspr_pa)
qed

lemma handler_pa:
  assumes "handlerFor (bindUnits hf) k = Some (fn :: 'b handler)"
  shows "keepsPa fn"
proof (cases "(bindUnits hf :: string \<Rightarrow> 'b handler option) (mnem (kIsa ! k))")
  case (Some h)
  then have "fn = h" using assms by (simp add: handlerFor_def Let_def)
  then show ?thesis using line_pa units_out [OF Some] by blast
next
  case None
  then have "(mnem (kIsa ! k), fn) \<in> set boundHandlers" using assms by (simp add: handlerFor_def Let_def map_of_SomeD)
  then show ?thesis using bound_pa by (auto simp: list_all_iff)
qed

lemma execRow_pa: "xlPa (execRow (bindUnits hf) insn row (c :: 'b cpu)) = xlPa c"
proof -
  have "xlPa (perfMon d) = xlPa d" "xlPa (traceCheck x f d) = xlPa d" for x f and d :: "'b cpu"
    by (simp_all add: perfMon_def pmcTick_def traceCheck_def Let_def)
  then have "xlPa (runHandler fn insn d c') = xlPa c'" if "handlerFor (bindUnits hf) k = Some fn" for k fn d and c' :: "'b cpu"
    using handler_pa [OF that] by (simp add: runHandler_def keepsPa_def Let_def)
  then show ?thesis by (simp add: execRow_def Let_def split: option.split)
qed

definition pageOk :: "'b cpu \<Rightarrow> bool" where
  "pageOk c \<longleftrightarrow> xlPa c AND 0xFFF = 0"

lemma pageOk_cong: "xlPa d = xlPa c \<Longrightarrow> pageOk c \<Longrightarrow> pageOk d"
  by (simp add: pageOk_def)

lemma pageOk_xlateFetch: "pageOk c \<Longrightarrow> pageOk (snd (xlateFetch ea c))"
proof -
  assume ok: "pageOk c"
  obtain r c1 where t: "translate ea False True c = (r, c1)" by fastforce
  have "xlPa c1 = xlPa c" using held_pa [OF held_translate, of ea False True c] by (simp add: t)
  moreover have "(x AND NOT 0xFFF) AND 0xFFF = (0 :: u32)" for x unfolding mask12 by (rule bit_word_eqI) (simp add: bit_simps)
  ultimately show ?thesis using ok by (cases r) (auto simp: xlateFetch_def t pageOk_def Let_def)
qed

lemma pageOk_fetch:
  assumes "pageOk c"
  shows "pageOk (snd (fetchDecoded ea0 c))"
proof -
  define ea where "ea = (if msr (st c) AND MSR_LE \<noteq> 0 then ea0 XOR 4 else ea0)"
  have f: "xlPa (snd (fetchPeek a d)) = xlPa d" "xlPa (snd (fetchRaw a d)) = xlPa d" "xlPa (snd (busRead32 a d)) = xlPa d" for a and d :: "'a cpu"
    by (rule held_pa, rule held_core, simp add: core_fetchPeek core_fetchRaw core_bus)+
  show ?thesis
  proof (cases "fetchCacheOff c")
    case True
    obtain r c1 where t: "translate ea False True c = (r, c1)" by fastforce
    have "xlPa c1 = xlPa c" using held_pa [OF held_translate, of ea False True c] by (simp add: t)
    then have "pageOk c1" using assms by (rule pageOk_cong)
    moreover from this have "pageOk (snd (fetchPeek a c1))" for a using f(1) by (rule pageOk_cong [rotated])
    ultimately show ?thesis using True by (cases r) (auto simp: fetchDecoded_def ea_def [symmetric] t case_prod_beta)
  next
    case False
    obtain r c1 where t: "xlateFetch ea c = (r, c1)" by fastforce
    have c1: "pageOk c1" using pageOk_xlateFetch [OF assms, of ea] by (simp add: t)
    show ?thesis
    proof (cases r)
      case None
      then show ?thesis using False c1 by (simp add: fetchDecoded_def ea_def [symmetric] t Let_def)
    next
      case (Some pa)
      have c2: "pageOk ((snd (fetchRaw a c1))\<lparr>fetchLine := x\<rparr>)" for a x using c1 f(2) [of a c1] by (simp add: pageOk_def)
      have c3: "pageOk (snd (busRead32 a d))" if "pageOk d" for a and d :: "'a cpu"
        using pageOk_cong [OF f(3) that] .
      show ?thesis
        using False unfolding fetchDecoded_def ea_def [symmetric] Let_def t Some
        by (simp add: c1 c2 c3 case_prod_beta del: fun_upd_apply split: option.split)
    qed
  qed
qed

lemma pageOk_step:
  assumes "pageOk c"
  shows "pageOk (step (bindUnits hf) c)"
proof -
  let ?c = "c\<lparr>raisedThisStep := False\<rparr>" and ?c1 = "c\<lparr>raisedThisStep := False, napping := False\<rparr>"
  have c: "pageOk ?c1" "pageOk (insnCharge ?c)" using assms by (simp_all add: pageOk_def)
  have async: "pageOk (charge n c2)" if "asyncTake ?c1 = Some c2" for n c2
  proof -
    have "xlPa c2 = xlPa c" using that by (auto simp: asyncTake_def Let_def split: if_splits)
    then show ?thesis using assms by (simp add: pageOk_def)
  qed
  obtain q d where f: "fetchDecoded (pc (st ?c1)) ?c1 = (q, d)" by fastforce
  have "pageOk d" using pageOk_fetch [OF c(1), of "pc (st ?c1)"] by (simp only: f snd_conv)
  then have "pageOk (insnCharge d)" "pageOk (execRow (bindUnits hf) insn row d)" for insn row
    by (simp_all add: pageOk_def execRow_pa)
  moreover have "pageOk (insnCharge (raiseExc Iabr x 0 ?c1))" for x using c(1) by (simp add: pageOk_def)
  ultimately have "pageOk (fetchExec (bindUnits hf) ?c1)"
    using f by (simp add: fetchExec_def split: option.split)
  then show ?thesis using c async by (simp add: step_def Let_def split: option.split)
qed

text \<open>Both start-up invariants, along any number of steps.\<close>

definition lineInv :: "'b cpu \<Rightarrow> bool" where
  "lineInv c \<longleftrightarrow> rowsOk c \<and> pageOk c"

lemma lineInv_steps:
  fixes c :: "'b cpu"
  assumes "lineInv c"
  shows "lineInv ((step (bindUnits hf) ^^ j) c)"
proof (induction j)
  case (Suc j)
  have k: "keepsRows h" if "bindUnits hf m = Some (h :: 'b handler)" for m h
    using bound_units_safe [OF that] by (simp add: userSafe_def)
  let ?c = "(step (bindUnits hf) ^^ j) c"
  have "rowsOk (step (bindUnits hf) ?c)" by (rule rowsOk_step) (use Suc k in \<open>simp_all add: lineInv_def\<close>)
  moreover have "pageOk (step (bindUnits hf) ?c)" by (rule pageOk_step) (use Suc in \<open>simp add: lineInv_def\<close>)
  ultimately show ?case by (simp add: lineInv_def)
qed (simp add: assms)

lemma lineInv_initCpu: "lineInv (initCpu vt b)"
proof -
  have "pageOk (initCpu vt b)" by (simp add: pageOk_def initCpu_def)
  then show ?thesis unfolding lineInv_def by (intro conjI rowsOk_initCpu)
qed

text \<open>A processor whose fetch buffer holds a block of \<^verbatim>\<open>ori 0,0,0\<close> at address 0.\<close>

definition lineCpu :: "flat_bus cpu" where
  "lineCpu = (flatCpu 64)\<lparr>st := (st (flatCpu 64))\<lparr>pc := 0, msr := 0\<rparr>, xlGen := 0,
     fetchLine := (\<lambda>_. \<lparr>flBase = 0, flRow = (\<lambda>_. ucast (decodeRow 0x60000000)), flW = (\<lambda>_. 0x60000000)\<rparr>)\<rparr>"

lemma row_ori: "kIsa ! 9 = isaRow ''ori'' 24 Xk_PRI 0 Pat_RA_RS_UI 0" "9 < kIsaCount"
  by (simp_all add: kIsaCount_value kIsa_def kIsaPrimary_def nth_append)

lemma decode_nop: "decode 0x60000000 = Some 9"
  by (rule matches_decode) (simp_all add: row_ori matches_def isaRow_def f_primary_def ppcbits_def)

lemma row_ori_gate: "mnem (kIsa ! 9) = ''ori''" "preGate (kIsa ! 9) = 0"
  by (simp_all add: row_ori isaRow_def preGate_def isFpInsn_def isVecInsn_def)

lemma nop_handler: "handlerFor (bindUnits hf) 9 = Some h_ori"
  by (simp add: handlerFor_def row_ori_gate bindUnits_def bindVecHandlers_def bindFpuHandlers_def vecHandlers_def fpuHandlers_def
    boundHandlers_def)

lemma decodeRow_nop: "decodeRow 0x60000000 = 9"
  by (simp add: decodeRow_def decode_nop)

definition nopAt :: "u32 \<Rightarrow> u32 \<Rightarrow> u64 \<Rightarrow> flat_bus cpu" where
  "nopAt a x p = lineCpu\<lparr>batchBreak := False, batching := True, curInsn := x, pendCycles := p, st := (st lineCpu)\<lparr>pc := a\<rparr>\<rparr>"

lemma nop_fast: "execFast (bindUnits hf) 0x60000000 (ucast (flRow (fetchLine (nopAt a x p) s) w)) (nopAt a x p) =
    (True, nopAt (a + 4) 0x60000000 (p + 1))"
  by (simp add: nopAt_def lineCpu_def flatCpu_def initCpu_def initState_def decodeRow_nop execFast_def
    nop_handler row_ori_gate insnCharge_def charge_def h_ori_def f_rt_def f_ra_def f_d_def ppcbits_def fun_upd_idem Let_def)

lemma nopAt_sel [simp]: "pc (st (nopAt a x p)) = a" "msr (st (nopAt a x p)) = 0" "xlPa (nopAt a x p) = 0"
  "\<not> slowLine (nopAt a x p)" "untraced (nopAt a x p)" "\<not> batchBreak (nopAt a x p)" "\<not> halted (nopAt a x p)"
  "flW (fetchLine (nopAt a x p) s) w = 0x60000000"
  by (simp_all add: nopAt_def lineCpu_def flatCpu_def initCpu_def initState_def slowLine_def anyIrq_def untraced_def)

lemma nopAt_hit: "fetchBlockFast 0 (nopAt 0 x p) = Some (0, 0)" "fetchBlockFast 4 (nopAt 4 x p) = Some (0, 1)"
  by (simp_all add: nopAt_def lineCpu_def flatCpu_def initCpu_def initState_def fetchBlockFast_def fetchSlot_def Let_def)

lemma nopAt_step: "step (bindUnits hf) (nopAt 0 x p) = nopAt 4 0x60000000 (p + 1)"
  "step (bindUnits hf) (nopAt 4 x p) = nopAt 8 0x60000000 (p + 1)"
  using lineExec_step [of "nopAt 0 x p" 0 0 "bindUnits hf"] lineExec_step [of "nopAt 4 x p" 0 1 "bindUnits hf"]
  by (simp_all add: lineExec_def execLine_def nop_fast nopAt_hit)

lemma nopAt_lineOk: "lineOk (bindUnits hf) (nopAt 0 x p)" "lineOk (bindUnits hf) (nopAt 4 x p)"
  by (simp_all add: lineOk_def nopAt_hit nopAt_step lineSafe_def decode_nop row_ori_gate Let_def)

lemma nopAt_start: "lineCpu\<lparr>batchBreak := False, batching := True\<rparr> = nopAt 0 0 0"
  by (simp add: nopAt_def lineCpu_def flatCpu_def initCpu_def)

lemma lineCpu_inv: "lineInv lineCpu"
  by (simp add: lineInv_def rowsOk_def pageOk_def lineCpu_def flatCpu_def initCpu_def)

section \<open>Batched execution\<close>

text \<open>
  C3. Batched execution of the interpreter is stepwise execution. The loop is run with the recompiler
  off, with the handlers the code binds, from a state whose held rows are the decoder's and whose
  held fetch page is aligned, as the initial state's are. Until the batch ends, every state it passes
  through that would execute out of a held line must be big-endian, hold an instruction the executor
  may meet (in supervisor mode no \<^verbatim>\<open>mtspr\<close> to \<^verbatim>\<open>MMCR0\<close> or \<^verbatim>\<open>IABR\<close>, no \<^verbatim>\<open>mtmsr\<close> that changes
  \<^verbatim>\<open>IR\<close>, \<^verbatim>\<open>PR\<close>, \<^verbatim>\<open>LE\<close>, \<^verbatim>\<open>SE\<close> or \<^verbatim>\<open>BE\<close>, no \<^verbatim>\<open>rfi\<close> to the very next instruction), and its step must not
  make an interrupt deliverable without ending the batch. Then, with fuel for \<open>n\<close> instructions, the
  loop returns; it has run \<open>k \<le> n\<close> plain steps followed by one clock update for all of them, moved the
  instruction counter by \<open>k\<close>, stopped short of \<open>n\<close> only because the last step ended the batch or
  halted, and run past no earlier step that did.
\<close>

theorem runSteps_is_steps:
  fixes c :: "'b cpu" and hf :: host_fp
  assumes "lineInv c" "stamp \<le> stamp + n" "unat n \<le> fuel"
  defines "c0 \<equiv> c\<lparr>batchBreak := False, batching := True\<rparr>"
  defines "after \<equiv> \<lambda>j. (step (bindUnits hf) ^^ j) c0"
  assumes "\<And>j. j < unat n \<Longrightarrow> running (bindUnits hf) c0 j \<Longrightarrow> lineOk (bindUnits hf) (after j)"
  shows "\<exists>k \<le> n. runSteps noJit (bindUnits hf) fuel n stamp c =
      Some (k, stamp + k, syncClock ((after (unat k))\<lparr>batching := False\<rparr>)) \<and>
    (k < n \<longrightarrow> batchBreak (after (unat k)) \<or> halted (after (unat k))) \<and>
    (\<forall>j. 0 < j \<and> j < unat k \<longrightarrow> \<not> batchBreak (after j) \<and> \<not> halted (after j))"
proof -
  have "lineInv c0" using assms(1) by (simp add: lineInv_def c0_def pageOk_def rowsOk_def)
  then have inv: "lineInv (after j)" for j unfolding after_def by (rule lineInv_steps)
  have st: "allSteady (bindUnits hf) n c0"
    unfolding allSteady_def
  proof (intro allI impI)
    fix j assume j: "j < unat n" "running (bindUnits hf) c0 j"
    show "steady (bindUnits hf) ((step (bindUnits hf) ^^ j) c0)"
      using line_steady [OF assms(6) [OF j]] inv [of j] by (simp add: lineInv_def pageOk_def after_def)
  qed
  have "unat (stamp + n) - unat stamp \<le> fuel" using assms(2,3) unat_plus_simple [of stamp n] by simp
  from batchLoop_total [OF noJit_ok(1) this, of "bindUnits hf" c0]
  obtain k s c' where r: "runSteps noJit (bindUnits hf) fuel n stamp c = Some (k, s, c')"
    by (auto simp: runSteps_def c0_def)
  from runSteps_steady [OF r assms(2) noJit_ok(2), folded c0_def, OF st] show ?thesis
    using r by (auto simp: after_def)
qed

lemma runSteps_is_steps_witness:
  "runSteps noJit (bindUnits offHost) 2 2 100 lineCpu = Some (2, 102, syncClock ((nopAt 8 0x60000000 2)\<lparr>batching := False\<rparr>))"
proof -
  let ?ext = "bindUnits offHost :: string \<Rightarrow> flat_bus handler option" and ?c = "nopAt 0 0 0"
  have two: "(step ?ext ^^ 2) ?c = nopAt 8 0x60000000 2" "(step ?ext ^^ 1) ?c = nopAt 4 0x60000000 1"
    unfolding numeral_2_eq_2 by (simp_all add: nopAt_step)
  have "lineOk ?ext ((step ?ext ^^ j) ?c)" if "j < unat (2 :: u64)" for j
    using that two(2) by (auto simp: less_2_cases_iff nopAt_lineOk)
  then obtain k where k: "k \<le> 2" "runSteps noJit ?ext 2 2 100 lineCpu =
      Some (k, 100 + k, syncClock (((step ?ext ^^ unat k) ?c)\<lparr>batching := False\<rparr>))"
    "k < 2 \<longrightarrow> batchBreak ((step ?ext ^^ unat k) ?c) \<or> halted ((step ?ext ^^ unat k) ?c)"
    using runSteps_is_steps [OF lineCpu_inv, of 100 2 2 offHost, unfolded nopAt_start] by auto
  have "k = 2"
  proof (rule ccontr)
    assume "k \<noteq> 2"
    with k(1) have "k < 2" "unat k = 0 \<or> unat k = 1" by (auto simp: word_less_nat_alt word_le_nat_alt word_unat_eq_iff)
    with k(3) two(2) show False by auto
  qed
  with k(2) two(1) show ?thesis by simp
qed

end
