(* ===== verification/Spec2Isabelle.thy ===== *)
theory Spec2Isabelle
  imports PpcBits Isa CpuState FlatBus Clock Exceptions CacheProps SingleFormat MmuProps StepProps LineProps FpuProps
    VectorConv VectorLoad OpenPicProps Pace DmaFlat LineRun
begin

text \<open>
  A verification development of OpenPowerMac, an emulator of a PowerPC 7400 Power Macintosh.

  \<^bold>\<open>The program.\<close> The processor core (\<^verbatim>\<open>src/core\<close>) is one object, \<^verbatim>\<open>Cpu\<close>, that owns the architected
  registers, both data cache levels, the TLBs, a buffer of predecoded instructions and the clock, and
  reaches the world through the virtual interface \<^verbatim>\<open>Bus\<close>. \<^verbatim>\<open>Cpu::step\<close> takes a pending interrupt or
  fetches, decodes and executes one instruction; \<^verbatim>\<open>Cpu::runSteps\<close> executes a batch, mostly straight from
  predecoded blocks, charging the clock once. The machine (\<^verbatim>\<open>src/machine\<close>) sizes the batches
  (\<^verbatim>\<open>pace.hpp\<close>) and services devices between them; devices raise lines of the interrupt controller
  (\<^verbatim>\<open>OpenPic\<close>), whose output is the processor's external interrupt, and move data through DMA channels
  (\<^verbatim>\<open>DbdmaChannel\<close>) that read and write memory under the processor's caches after snooping them.

  \<^bold>\<open>The theories, component by component.\<close>

  \<^item> \<open>Prelude\<close>: machine integers, the collections \<open>field_simps32\<close>, \<open>cpu_frame\<close>, \<open>view_simps\<close>, big-endian byte
    images of words. \<open>PpcBits\<close>: \<^verbatim>\<open>bits.hpp\<close>. \<open>Isa\<close>: the 347 rows of \<^verbatim>\<open>isa_table.cpp\<close>, the dispatch tables of
    \<^verbatim>\<open>decode.cpp\<close> built from them, the pre-dispatch gates; the tables decide exactly the rows' patterns.
  \<^item> \<open>CpuState\<close>: \<^verbatim>\<open>CpuState\<close>, \<^verbatim>\<open>Cpu\<close> with its instruments, the \<^verbatim>\<open>Bus\<close> table of operations (\<open>bus_vt\<close>, over a
    bus state \<open>'b\<close>) and the callback \<^verbatim>\<open>deviceClock\<close> (an operation of the bus reports that a device asked
    for the time, which ends the batch). \<open>Clock\<close>: \<^verbatim>\<open>tick\<close>, the batched charges, the decrementer deadline.
    \<open>Exceptions\<close>: \<^verbatim>\<open>raiseExc\<close>, \<^verbatim>\<open>rfi\<close>.
  \<^item> \<open>MemBus\<close>: the locale \<open>mem_bus\<close>, what the caches need of a bus on a region that is plain memory.
    \<open>FlatBus\<close>: \<^verbatim>\<open>FlatBus\<close> of \<^verbatim>\<open>ppcrun/main.cpp\<close> and the interpretation of \<open>mem_bus\<close> on it.
  \<^item> \<open>Cache\<close>: the operations of \<^verbatim>\<open>cache.cpp\<close> (8-way L1, 2-way L2, cached, write-through and inhibited
    accesses, cache control, snooping). \<open>CacheLookup\<close>, \<open>CacheView\<close>, \<open>CacheInstall\<close>, \<open>CacheFill\<close>,
    \<open>CacheAccess\<close>, \<open>CacheControl\<close>: the abstraction to the memory the program sees (\<open>view\<close>), the coherence
    invariant, and the effect of every operation on both, proved inside \<open>mem_bus\<close>. \<open>CacheProps\<close>: the same
    of the processor on \<^verbatim>\<open>FlatBus\<close>.
  \<^item> \<open>Mmu\<close>: \<^verbatim>\<open>mmu.cpp\<close> (BATs, segments, TLBs, the hashed page table walk, the one-page caches, the virtual
    accessors, instruction fetch). \<open>MmuFaults\<close>, \<open>Tlb\<close>, \<open>MmuProps\<close>: outcome of a translation, the TLB
    invariant, authorisation of every translation, transparency of the page cache.
  \<^item> \<open>ExecInt\<close>, \<open>ExecMem\<close>, \<open>ExecSys\<close>: every handler of \<^verbatim>\<open>exec_int.cpp\<close> and the table that binds them.
    \<open>IntArith\<close>, \<open>ExecIntProps\<close>: what the integer instructions compute. \<open>SingleFormat\<close>: the
    single-precision memory format.
  \<^item> \<open>SoftFp\<close>: \<^verbatim>\<open>softfp.cpp\<close>, the software floating point. \<open>FpValue\<close>: the rational value of an encoding and
    the correctness of the final rounding; \<open>U128\<close>: the 128-bit accumulator; \<open>FpFma\<close>, \<open>FpDivide\<close>, \<open>FpArith\<close>:
    correct rounding of multiply-add, add, multiply, divide, round to single, convert to integer.
    \<open>Fpu\<close>: the handlers of \<^verbatim>\<open>fpu.cpp\<close>; \<open>FpuSummary\<close>, \<open>FpuProps\<close>: the status register's summaries,
    precise enabled exceptions, compares.
  \<^item> \<open>Vector\<close>, \<open>VectorFp\<close>: every handler of \<^verbatim>\<open>altivec.cpp\<close>, integer and floating-point, and \<open>bindUnits\<close>, the
    handlers of all units together. \<open>VectorProps\<close>: isolation, saturation, the long shift. \<open>VectorLoad\<close>: the
    unaligned load idiom, its loads through the caches.
    \<open>VectorValues\<close>: the value of a single, and what the vector float compares decide. \<open>VectorConv\<close>: the
    conversions to fixed point.
  \<^item> \<open>Step\<close>: \<^verbatim>\<open>execRow\<close>, \<^verbatim>\<open>step\<close>, \<^verbatim>\<open>run\<close>, \<^verbatim>\<open>runSteps\<close> of \<^verbatim>\<open>cpu.cpp\<close>. \<open>StepProps\<close>: interrupts and naps. \<open>LineProps\<close>:
    the batching loop terminates, and refines single steps under a contract on the states it visits
    (\<open>steady\<close>) and on compiled lines (\<open>jitSound\<close>). \<open>LineFrame\<close>, \<open>LineRun\<close>: what every bound handler leaves of
    the fetch translation the line executor holds, from which the contract follows for the interpreter.
    \<open>CoreFrame\<close>, \<open>Protection\<close>, \<open>ProtectedHandlers\<close>, \<open>UserMode\<close>: user-mode isolation of all of it.
  \<^item> \<open>Pace\<close>: the nap skip and the batch sizes of \<^verbatim>\<open>pace.hpp\<close>. \<open>OpenPic\<close>, \<open>OpenPicProps\<close>: \<^verbatim>\<open>openpic.cpp\<close>, its scan,
    its invariant, the interrupt cycle. \<open>Dbdma\<close>, \<open>DbdmaInv\<close>: \<^verbatim>\<open>dbdma.cpp\<close> and its invariant. \<open>DmaMaster\<close>: the
    locale \<open>bus_master\<close>, what the channel needs of snooping and memory, and delivery of a list of
    descriptors under it; \<open>DmaFlat\<close>: its interpretation on the processor with its caches.

  \<^bold>\<open>How the model follows the code.\<close> A class is a record, a method a function of the state it changes,
  named as in the code; a \<^verbatim>\<open>std::map\<close> is an association list; arrays are functions of the index where the
  index is a masked field and lists where the code resizes them. Handlers return the whole processor, so
  an exception inside an access (the code's \<^verbatim>\<open>raisedThisStep\<close>) is the branch the code takes on it.
  Machine integers keep their width; every bound the code relies on is a hypothesis or is proved.

  \<^bold>\<open>Parameters.\<close> The runner of compiled lines is the argument \<open>jit\<close> of \<open>runSteps\<close>. The properties of the
  batching loop take \<open>noJit\<close> for it, which declines every line as \<^verbatim>\<open>jitRunLine\<close> does with the recompiler off;
  they say nothing of the lines \<^verbatim>\<open>jit.cpp\<close> compiles. The lemmas under them are proved for any runner that
  satisfies \<open>jitSound\<close> and \<open>jitAdvances\<close>. The dispatch takes the floating-point and vector handlers as its
  argument \<open>ext\<close>; \<open>bindUnits\<close> is the argument the code passes. The host's floating-point operations used
  by the shortcuts are the record \<open>host_fp\<close>; the correctness of the arithmetic is stated of the general
  path, for operands, modes and switches under which no shortcut answers (\<open>generalPath\<close>, \<open>shortcutsOff\<close>).
  A bus is any \<open>bus_vt\<close>; the device deadline and the host timer are arguments of \<open>Pace\<close>; the bus and device
  of a DMA channel are the record \<open>dma_env\<close>.

  \<^bold>\<open>Batches and steps.\<close> \<open>runSteps_is_steps\<close> holds while every state the batch would execute out of a held
  line satisfies \<open>lineOk\<close>. It excludes, and with a margin, where the code departs from stepwise execution: a
  little-endian line, which the executor walks in the wrong order; an \<^verbatim>\<open>mtmsr\<close> or \<^verbatim>\<open>rfi\<close> to the next
  instruction that changes the fetch translation or the tracing inside the line, or enables an interrupt
  that is already requested, which the executor notices only after the line; a move to \<^verbatim>\<open>MMCR0\<close> or
  \<^verbatim>\<open>IABR\<close>, which it has tested before the line; and a clock reading inside the batch that finds the
  decrementer expired, which the batch's size rules out. In user mode every instruction qualifies.

  \<^bold>\<open>Loops and bounds.\<close> \<open>runSteps\<close> has fuel, and \<open>runSteps_terminates\<close> shows that fuel for the size of the
  batch is enough. The DMA engine's loop is bounded by the code (65536 rounds, 512 idle ones); a list
  shorter than that is delivered whole. Clock statements assume at most \<open>2 ^ 31\<close> ticks between
  decrementer reloads, the range in which its sign bit can mean expiry. Correct rounding of a
  subtraction is stated for exponents within the accumulator; outside it \<open>far_subtraction_misrounds\<close>
  shows the result off by one unit.

  \<^bold>\<open>What each group of properties shows.\<close> Isolation: \<open>user_mode_isolated\<close>, \<open>units_user_isolated\<close>,
  \<open>translation_is_authorised\<close>. Refinement: batches to steps (\<open>runSteps_is_steps\<close>), caches to flat memory
  (\<open>cached_store_writes_view\<close>, \<open>cached_load_reads_view\<close>, \<open>snoop_makes_ram_current\<close>), DMA to what the
  program sees (\<open>dma_input_delivers\<close>). Arithmetic: the floating-point, vector and integer results. Time: the
  clock, the decrementer, naps, batch sizes. Interrupts: priority, precision, the controller's cycle.

  \<^bold>\<open>Not modelled.\<close> The just-in-time compiler (it emits host code), the
  disassembler and profiler (no machine state). Of the machine: the bridges, the power manager, ATA, USB,
  sound and graphics devices, snapshots, disk formats and the assembly of a board, which reach the modelled
  parts only through \<^verbatim>\<open>Bus\<close>, the interrupt lines and \<^verbatim>\<open>DmaDevice\<close>; the C interface and the tools, which drive
  host threads, files and consoles. Counters kept only for reports are left out where a theory says so.
\<close>

end
